(* ===== verification/Minidos_Prelude.thy ===== *)
theory Minidos_Prelude
  imports Main "HOL-Library.Word" "HOL-Library.Monad_Syntax"
begin

text \<open>
  Shared vocabulary of the development: the C integer types of the i386 kernel as words,
  little-endian loads and stores on byte buffers, C strings as lists of non-zero bytes, and
  the generic facts on lists and words that the component theories use.

  Conventions. A C \<^verbatim>\<open>int\<close> that cannot overflow is an \<open>int\<close>; an unsigned quantity whose
  wrap-around is observable is a word of its width. A function that may trap (division by
  zero raises \<^verbatim>\<open>#DE\<close>) or loop for ever returns an \<open>option\<close>: \<open>None\<close> means that control never
  comes back to the caller.
\<close>

unbundle bit_operations_syntax

section \<open>C integer types\<close>

type_synonym u8 = "8 word"
type_synonym u16 = "16 word"
type_synonym u32 = "32 word"

type_synonym cstr = "u8 list"  \<comment> \<open>the bytes before the terminating NUL\<close>

named_theorems bytes_simps \<open>loads and stores of little-endian values in byte buffers\<close>

text \<open>\<open>char_at s i\<close> is \<open>s[i]\<close> for a C string: the NUL terminator reads as 0.\<close>

definition char_at :: "cstr \<Rightarrow> nat \<Rightarrow> u8" where
  "char_at s i = (if i < length s then s ! i else 0)"

definition cstr_ok :: "cstr \<Rightarrow> bool" where
  "cstr_ok s \<longleftrightarrow> 0 \<notin> set s"

text \<open>The bytes of an ASCII literal.\<close>

definition ascii :: "string \<Rightarrow> cstr" where
  "ascii s = map (\<lambda>c. of_nat (of_char c)) s"

text \<open>Unsigned division of the machine: \<open>None\<close> is the divide-error trap.\<close>

definition udiv32 :: "u32 \<Rightarrow> u32 \<Rightarrow> u32 option" where
  "udiv32 a b = (if b = 0 then None else Some (a div b))"

lemma udiv32_Some [simp]: "b \<noteq> 0 \<Longrightarrow> udiv32 a b = Some (a div b)"
  by (simp add: udiv32_def)

lemma udiv32_zero [simp]: "udiv32 a 0 = None"
  by (simp add: udiv32_def)

section \<open>Widening and narrowing casts\<close>

lemma unat_u8_bound: "unat (c :: u8) < 256"
proof -
  have "unat c < 2 ^ LENGTH(8)" by (rule unsigned_less)
  then show ?thesis by simp
qed

lemma unat_u16_bound: "unat (c :: u16) < 65536"
proof -
  have "unat c < 2 ^ LENGTH(16)" by (rule unsigned_less)
  then show ?thesis by simp
qed

lemma unat_u32_bound: "unat (c :: u32) < 4294967296"
proof -
  have "unat c < 2 ^ LENGTH(32)" by (rule unsigned_less)
  then show ?thesis by simp
qed

lemma unat_ucast_8_16 [simp]: "unat (ucast (c :: u8) :: u16) = unat c"
  using unat_u8_bound [of c] by (simp add: unsigned_ucast_eq take_bit_nat_eq_self)

lemma unat_ucast_8_32 [simp]: "unat (ucast (c :: u8) :: u32) = unat c"
  using unat_u8_bound [of c] by (simp add: unsigned_ucast_eq take_bit_nat_eq_self)

lemma unat_ucast_16_32 [simp]: "unat (ucast (c :: u16) :: u32) = unat c"
  using unat_u16_bound [of c] by (simp add: unsigned_ucast_eq take_bit_nat_eq_self)

lemma unat_ucast_32_16: "unat (w :: u32) < 65536 \<Longrightarrow> unat (ucast w :: u16) = unat w"
  by (simp add: unsigned_ucast_eq take_bit_nat_eq_self)

lemma ucast_zero_8_32 [simp]: "(ucast (c :: u8) :: u32) = 0 \<longleftrightarrow> c = 0"
  by (simp add: word_unat_eq_iff)

lemma ucast_zero_16_32 [simp]: "(ucast (c :: u16) :: u32) = 0 \<longleftrightarrow> c = 0"
  by (simp add: word_unat_eq_iff)

section \<open>Little-endian values\<close>

definition le16 :: "u8 \<Rightarrow> u8 \<Rightarrow> u16" where
  "le16 lo hi = ucast lo OR push_bit 8 (ucast hi)"

definition le32 :: "u8 \<Rightarrow> u8 \<Rightarrow> u8 \<Rightarrow> u8 \<Rightarrow> u32" where
  "le32 b0 b1 b2 b3 =
     ucast b0 OR push_bit 8 (ucast b1) OR push_bit 16 (ucast b2) OR push_bit 24 (ucast b3)"

definition lo8 :: "u16 \<Rightarrow> u8" where
  "lo8 w = ucast (w AND 0xFF)"

definition hi8 :: "u16 \<Rightarrow> u8" where
  "hi8 w = ucast (drop_bit 8 w AND 0xFF)"

definition byte32 :: "nat \<Rightarrow> u32 \<Rightarrow> u8" where
  "byte32 k w = ucast (drop_bit (8 * k) w AND 0xFF)"

definition load16 :: "u8 list \<Rightarrow> nat \<Rightarrow> u16" where
  "load16 b i = le16 (b ! i) (b ! (i + 1))"

definition load32 :: "u8 list \<Rightarrow> nat \<Rightarrow> u32" where
  "load32 b i = le32 (b ! i) (b ! (i + 1)) (b ! (i + 2)) (b ! (i + 3))"

definition store16 :: "u8 list \<Rightarrow> nat \<Rightarrow> u16 \<Rightarrow> u8 list" where
  "store16 b i v = b[i := lo8 v, i + 1 := hi8 v]"

lemma mask_0xFF: "(0xFF :: 'a::len word) = mask 8"
  by (simp add: mask_eq_exp_minus_1)

lemma lo8_le16 [bytes_simps]: "lo8 (le16 a b) = a"
  unfolding lo8_def le16_def mask_0xFF
  by (rule bit_word_eqI) (auto simp: bit_simps)

lemma hi8_le16 [bytes_simps]: "hi8 (le16 a b) = b"
  unfolding hi8_def le16_def mask_0xFF
  by (rule bit_word_eqI) (auto simp: bit_simps dest: bit_imp_le_length)

lemma le16_split [bytes_simps]: "le16 (lo8 w) (hi8 w) = w"
  unfolding lo8_def hi8_def le16_def mask_0xFF
  by (rule bit_word_eqI) (auto simp: bit_simps)

end
