(* ===== verification/Machine.thy ===== *)
theory Machine
  imports Minidos_Prelude
begin

text \<open>
  The part of the i386 the kernel components share: physical memory as a store of 32-bit cells
  at 4-byte aligned addresses, the control registers and flags the code writes, and the
  transcript of what it emits (bytes written to I/O ports, characters handed to the serial port
  and to the screen). The component states extend this record, so an operation of one component
  applies unchanged to the state of every component above it.
\<close>

unbundle bit_operations_syntax

record machine =
  m_mem :: "nat \<Rightarrow> u32"
  m_eflags :: u32
  m_cr0 :: u32
  m_cr3 :: u32
  m_tr :: u16
  m_out :: "(u16 \<times> u8) list"   \<comment> \<open>bytes written with \<open>outb\<close>, oldest first\<close>
  m_serial :: cstr               \<comment> \<open>characters handed to \<open>serial_putchar\<close>\<close>
  m_screen :: cstr               \<comment> \<open>characters handed to \<open>print_char\<close>\<close>

definition outb :: "u16 \<Rightarrow> u8 \<Rightarrow> 'a machine_scheme \<Rightarrow> 'a machine_scheme" where
  "outb port v s = s\<lparr>m_out := m_out s @ [(port, v)]\<rparr>"

definition emit_serial :: "cstr \<Rightarrow> 'a machine_scheme \<Rightarrow> 'a machine_scheme" where
  "emit_serial t s = s\<lparr>m_serial := m_serial s @ t\<rparr>"

definition emit_screen :: "cstr \<Rightarrow> 'a machine_scheme \<Rightarrow> 'a machine_scheme" where
  "emit_screen t s = s\<lparr>m_screen := m_screen s @ t\<rparr>"

section \<open>Flags\<close>

definition EFLAGS_IF :: u32 where "EFLAGS_IF = 0x200"

definition irqs_on :: "'a machine_scheme \<Rightarrow> bool" where
  "irqs_on s \<longleftrightarrow> m_eflags s AND EFLAGS_IF \<noteq> 0"

definition cli :: "'a machine_scheme \<Rightarrow> 'a machine_scheme" where
  "cli s = s\<lparr>m_eflags := m_eflags s AND NOT EFLAGS_IF\<rparr>"

definition sti :: "'a machine_scheme \<Rightarrow> 'a machine_scheme" where
  "sti s = s\<lparr>m_eflags := m_eflags s OR EFLAGS_IF\<rparr>"

lemma and_not_disjoint: "a AND b = 0 \<Longrightarrow> (a :: 'a::len word) AND NOT b = a"
proof (rule bit_word_eqI)
  fix n assume z: "a AND b = 0"
  then have "\<not> (bit a n \<and> bit b n)" using bit_and_iff [of a b n] by simp
  then show "n < LENGTH('a) \<Longrightarrow> bit (a AND NOT b) n = bit a n" by (auto simp: bit_simps)
qed

lemma and_not_or_absorb:
  assumes nz: "(a :: 'a::len word) AND 2 ^ k \<noteq> 0"
  shows "a AND NOT (2 ^ k) OR 2 ^ k = a"
proof -
  have "bit a k"
  proof (rule ccontr)
    assume "\<not> bit a k"
    then have "a AND 2 ^ k = 0" by (intro bit_word_eqI) (auto simp: bit_simps)
    with nz show False by simp
  qed
  then show ?thesis by (intro bit_word_eqI) (auto simp: bit_simps)
qed

lemma EFLAGS_IF_bit: "EFLAGS_IF = 2 ^ 9"
  by (simp add: EFLAGS_IF_def)

text \<open>The critical-section idiom of the kernel (\<^verbatim>\<open>cli\<close>, then \<^verbatim>\<open>sti\<close> only when the saved flags
  had IF set) restores the flags it found.\<close>

lemma cli_sti_restores: "irqs_on s \<Longrightarrow> m_eflags (sti (cli s)) = m_eflags s"
  using and_not_or_absorb [of "m_eflags s" 9] unfolding EFLAGS_IF_bit [symmetric]
  by (simp add: irqs_on_def cli_def sti_def)

lemma cli_idle: "\<not> irqs_on s \<Longrightarrow> m_eflags (cli s) = m_eflags s"
  unfolding irqs_on_def cli_def by (simp add: and_not_disjoint)

section \<open>Physical memory\<close>

definition load_word :: "nat \<Rightarrow> 'a machine_scheme \<Rightarrow> u32" where
  "load_word a s = m_mem s a"

definition store_word :: "nat \<Rightarrow> u32 \<Rightarrow> 'a machine_scheme \<Rightarrow> 'a machine_scheme" where
  "store_word a v s = s\<lparr>m_mem := (m_mem s)(a := v)\<rparr>"

text \<open>An array of 32-bit cells at a base address, written by index in ascending order.\<close>

fun store_range :: "nat \<Rightarrow> nat \<Rightarrow> (nat \<Rightarrow> u32) \<Rightarrow> (nat \<Rightarrow> u32) \<Rightarrow> nat \<Rightarrow> u32" where
  "store_range base 0 f mem = mem"
| "store_range base (Suc n) f mem = (store_range base n f mem)(base + 4 * n := f n)"

lemma store_range_in: "i < n \<Longrightarrow> store_range base n f mem (base + 4 * i) = f i"
  by (induction n) (auto simp: less_Suc_eq)

lemma store_range_out: "(\<And>i. i < n \<Longrightarrow> a \<noteq> base + 4 * i) \<Longrightarrow> store_range base n f mem a = mem a"
  by (induction n) auto

lemma store_range_iff:
  "store_range base n f mem a =
     (if base \<le> a \<and> a < base + 4 * n \<and> (a - base) mod 4 = 0 then f ((a - base) div 4) else mem a)"
proof (cases "base \<le> a \<and> a < base + 4 * n \<and> (a - base) mod 4 = 0")
  case True
  then have "a = base + 4 * ((a - base) div 4)" by auto
  moreover have "(a - base) div 4 < n" using True by auto
  ultimately show ?thesis using True store_range_in by metis
next
  case False
  have "store_range base n f mem a = mem a"
    by (rule store_range_out) (use False in auto)
  with False show ?thesis by auto
qed

section \<open>Byte and half-word reads\<close>

definition read_phys_u32 :: "nat \<Rightarrow> 'a machine_scheme \<Rightarrow> u32" where
  "read_phys_u32 a s = load_word a s"

definition read_phys_u16 :: "nat \<Rightarrow> 'a machine_scheme \<Rightarrow> u16" where
  "read_phys_u16 a s = ucast (drop_bit (8 * (a mod 4)) (load_word (a - a mod 4) s))"

definition read_phys_u8 :: "nat \<Rightarrow> 'a machine_scheme \<Rightarrow> u8" where
  "read_phys_u8 a s = ucast (drop_bit (8 * (a mod 4)) (load_word (a - a mod 4) s))"

end
