(* ===== verification/Logger.thy ===== *)
theory Logger
  imports Machine
begin

text \<open>
  The kernel log, \<^verbatim>\<open>src/kernel/debug/logger.c\<close>: an 8192-byte ring of what went to the serial
  log, a sequence number, and the writers that feed the serial port and the screen. The calls to
  \<^verbatim>\<open>serial_putchar\<close> and \<^verbatim>\<open>print_char\<close> are the transcripts \<open>m_serial\<close> and \<open>m_screen\<close> of the
  machine. The ring indices stay below 8192, so they are natural numbers; the sequence number is
  an \<^verbatim>\<open>unsigned int\<close> and wraps.

  The abstraction \<open>log_text\<close> reads the ring oldest byte first; \<open>append_string\<close> refines appending
  to a text of which the last 8192 bytes are kept.
\<close>

unbundle bit_operations_syntax

section \<open>State\<close>

definition LOG_BUFFER_SIZE :: nat where "LOG_BUFFER_SIZE = 8192"

datatype LogLevel = LOG_LEVEL_ERROR | LOG_LEVEL_WARN | LOG_LEVEL_INFO | LOG_LEVEL_DEBUG | LOG_LEVEL_TRACE

datatype LogDest = LOG_DEST_SCREEN | LOG_DEST_SERIAL | LOG_DEST_BOTH

fun level_int :: "LogLevel \<Rightarrow> nat" where
  "level_int LOG_LEVEL_ERROR = 0"
| "level_int LOG_LEVEL_WARN = 1"
| "level_int LOG_LEVEL_INFO = 2"
| "level_int LOG_LEVEL_DEBUG = 3"
| "level_int LOG_LEVEL_TRACE = 4"

definition MIN_LOG_LEVEL :: LogLevel where "MIN_LOG_LEVEL = LOG_LEVEL_DEBUG"

text \<open>The bit tests \<^verbatim>\<open>dest & LOG_DEST_SCREEN\<close> and \<^verbatim>\<open>dest & LOG_DEST_SERIAL\<close>.\<close>

definition to_screen :: "LogDest \<Rightarrow> bool" where
  "to_screen d \<longleftrightarrow> d = LOG_DEST_SCREEN \<or> d = LOG_DEST_BOTH"

definition to_serial :: "LogDest \<Rightarrow> bool" where
  "to_serial d \<longleftrightarrow> d = LOG_DEST_SERIAL \<or> d = LOG_DEST_BOTH"

record log_state = machine +
  log_buffer :: "u8 list"
  log_head :: nat
  log_count :: nat
  log_seq :: u32

section \<open>Operations\<close>

fun level_name :: "LogLevel \<Rightarrow> cstr" where
  "level_name LOG_LEVEL_ERROR = ascii ''ERROR''"
| "level_name LOG_LEVEL_WARN = ascii ''WARN''"
| "level_name LOG_LEVEL_INFO = ascii ''INFO''"
| "level_name LOG_LEVEL_DEBUG = ascii ''DEBUG''"
| "level_name LOG_LEVEL_TRACE = ascii ''TRACE''"

definition append_char :: "u8 \<Rightarrow> 'a log_state_scheme \<Rightarrow> 'a log_state_scheme" where
  "append_char c s =
     s\<lparr>log_buffer := (log_buffer s)[log_head s := c],
       log_head := (log_head s + 1) mod LOG_BUFFER_SIZE,
       log_count := (if log_count s < LOG_BUFFER_SIZE then log_count s + 1 else log_count s)\<rparr>"

fun append_string :: "cstr \<Rightarrow> 'a log_state_scheme \<Rightarrow> 'a log_state_scheme" where
  "append_string [] s = s"
| "append_string (c # str) s = append_string str (append_char c s)"

text \<open>The digits of \<^verbatim>\<open>uint_to_dec\<close>, least significant first, at most \<open>n\<close> of them.\<close>

fun dec_digits :: "nat \<Rightarrow> u32 \<Rightarrow> u8 list" where
  "dec_digits 0 value = []"
| "dec_digits (Suc n) value =
     (if value > 0 then (48 + ucast (value mod 10)) # dec_digits n (value div 10) else [])"

definition uint_to_dec :: "u32 \<Rightarrow> cstr" where
  "uint_to_dec value = (if value = 0 then [48] else rev (dec_digits 16 value))"

definition write_char_to_dest :: "u8 \<Rightarrow> LogDest \<Rightarrow> 'a machine_scheme \<Rightarrow> 'a machine_scheme" where
  "write_char_to_dest c dest s =
     (let s1 = (if to_screen dest then emit_screen [c] s else s)
      in if to_serial dest then emit_serial [c] s1 else s1)"

fun write_string_to_dest :: "cstr \<Rightarrow> LogDest \<Rightarrow> 'a machine_scheme \<Rightarrow> 'a machine_scheme" where
  "write_string_to_dest [] dest s = s"
| "write_string_to_dest (c # str) dest s = write_string_to_dest str dest (write_char_to_dest c dest s)"

definition log_init :: "'a log_state_scheme \<Rightarrow> 'a log_state_scheme" where
  "log_init s = s\<lparr>log_head := 0, log_count := 0, log_seq := 0\<rparr>"

definition log_prefix :: "u32 \<Rightarrow> LogLevel \<Rightarrow> cstr option \<Rightarrow> cstr" where
  "log_prefix seq level module =
     ascii ''['' @ uint_to_dec seq @ ascii ''][''  @ level_name level @ ascii ''][''
     @ (case module of Some m \<Rightarrow> m | None \<Rightarrow> ascii ''core'') @ ascii ''] ''"

definition log_write ::
  "LogLevel \<Rightarrow> cstr option \<Rightarrow> cstr \<Rightarrow> LogDest \<Rightarrow> 'a log_state_scheme \<Rightarrow> 'a log_state_scheme" where
  "log_write level module msg dest s =
     (if level_int level > level_int MIN_LOG_LEVEL then s
      else let
        s1 = (if to_serial dest
              then let s' = s\<lparr>log_seq := log_seq s + 1\<rparr>;
                       p = log_prefix (log_seq s') level module
                   in append_string (p @ msg) (emit_serial p s')
              else s);
        s2 = (if to_screen dest then emit_screen msg s1 else s1)
      in if to_serial dest then emit_serial msg s2 else s2)"

definition log_screen :: "cstr \<Rightarrow> 'a machine_scheme \<Rightarrow> 'a machine_scheme" where
  "log_screen msg s = write_string_to_dest msg LOG_DEST_SCREEN s"

definition log_serial_raw :: "cstr \<Rightarrow> 'a log_state_scheme \<Rightarrow> 'a log_state_scheme" where
  "log_serial_raw msg s = append_string msg (write_string_to_dest msg LOG_DEST_SERIAL s)"

definition log_both :: "cstr \<Rightarrow> 'a log_state_scheme \<Rightarrow> 'a log_state_scheme" where
  "log_both msg s = append_string msg (write_string_to_dest msg LOG_DEST_BOTH s)"

definition newline :: u8 where "newline = 10"

fun dump_chars :: "nat list \<Rightarrow> LogDest \<Rightarrow> 'a log_state_scheme \<Rightarrow> 'a log_state_scheme" where
  "dump_chars [] dest s = s"
| "dump_chars (i # is) dest s = dump_chars is dest (write_char_to_dest (log_buffer s ! i) dest s)"

definition log_dump_buffer :: "LogDest \<Rightarrow> 'a log_state_scheme \<Rightarrow> 'a log_state_scheme" where
  "log_dump_buffer dest s =
     (if log_count s = 0
      then write_string_to_dest (ascii ''[dmesg] log buffer is empty'' @ [newline]) dest s
      else let
        s1 = write_string_to_dest (ascii ''--- dmesg (serial log ring) ---'' @ [newline]) dest s;
        start = (log_head s + LOG_BUFFER_SIZE - log_count s) mod LOG_BUFFER_SIZE;
        s2 = dump_chars (map (\<lambda>i. (start + i) mod LOG_BUFFER_SIZE) [0..<log_count s]) dest s1;
        s3 = (if log_buffer s ! ((log_head s + LOG_BUFFER_SIZE - 1) mod LOG_BUFFER_SIZE) \<noteq> newline
              then write_char_to_dest newline dest s2 else s2)
      in write_string_to_dest (ascii ''--- end dmesg ---'' @ [newline]) dest s3)"

section \<open>Output transcripts\<close>

lemma emit_nil [simp]: "emit_screen [] s = s" "emit_serial [] s = s"
  by (simp_all add: emit_screen_def emit_serial_def)

lemma emit_append:
  "emit_screen u (emit_screen t s) = emit_screen (t @ u) s"
  "emit_serial u (emit_serial t s) = emit_serial (t @ u) s"
  "emit_screen u (emit_serial t s) = emit_serial t (emit_screen u s)"
  by (simp_all add: emit_screen_def emit_serial_def)

definition emit_dest :: "cstr \<Rightarrow> LogDest \<Rightarrow> 'a machine_scheme \<Rightarrow> 'a machine_scheme" where
  "emit_dest t dest s =
     emit_serial (if to_serial dest then t else []) (emit_screen (if to_screen dest then t else []) s)"

lemma write_char_emit: "write_char_to_dest c dest s = emit_dest [c] dest s"
  by (simp add: write_char_to_dest_def emit_dest_def)

lemma emit_dest_append: "emit_dest u dest (emit_dest t dest s) = emit_dest (t @ u) dest s"
  by (simp add: emit_dest_def emit_append)

lemma write_string_emit: "write_string_to_dest str dest s = emit_dest str dest s"
  by (induction str arbitrary: s)
     (auto simp: write_char_emit emit_dest_append, simp add: emit_dest_def)

lemma log_buffer_emit [simp]: "log_buffer (emit_dest t dest s) = log_buffer s"
  by (simp add: emit_dest_def emit_screen_def emit_serial_def)

lemma dump_chars_emit: "dump_chars is dest s = emit_dest (map (\<lambda>i. log_buffer s ! i) is) dest s"
  by (induction "is" arbitrary: s)
     (auto simp: write_char_emit emit_dest_append, simp add: emit_dest_def)

section \<open>The ring as a bounded text\<close>

definition log_ok :: "'a log_state_scheme \<Rightarrow> bool" where
  "log_ok s \<longleftrightarrow> length (log_buffer s) = LOG_BUFFER_SIZE \<and> log_head s < LOG_BUFFER_SIZE
     \<and> log_count s \<le> LOG_BUFFER_SIZE"

definition ring_index :: "nat \<Rightarrow> nat \<Rightarrow> nat \<Rightarrow> nat" where
  "ring_index head count i = (head + LOG_BUFFER_SIZE - count + i) mod LOG_BUFFER_SIZE"

definition log_text :: "'a log_state_scheme \<Rightarrow> cstr" where
  "log_text s = map (\<lambda>i. log_buffer s ! ring_index (log_head s) (log_count s) i) [0..<log_count s]"

definition last_n :: "nat \<Rightarrow> 'a list \<Rightarrow> 'a list" where
  "last_n n xs = drop (length xs - n) xs"

lemma last_n_append: "last_n n (last_n n xs @ ys) = last_n n (xs @ ys)"
  unfolding last_n_def by (cases "n \<le> length xs") (auto simp: drop_append add.commute)

lemma log_size_pos [simp]: "0 < LOG_BUFFER_SIZE"
  by (simp add: LOG_BUFFER_SIZE_def)

lemma ring_index_split:
  assumes "h < LOG_BUFFER_SIZE" "k \<le> LOG_BUFFER_SIZE" "i < k"
  shows "ring_index h k i = (if h + i < k then h + LOG_BUFFER_SIZE - k + i else h + i - k)"
proof (cases "h + i < k")
  case True
  then have "h + LOG_BUFFER_SIZE - k + i < LOG_BUFFER_SIZE" using assms by linarith
  with True show ?thesis by (simp add: ring_index_def)
next
  case False
  then have e: "h + LOG_BUFFER_SIZE - k + i = (h + i - k) + LOG_BUFFER_SIZE" using assms by linarith
  have "h + i - k < LOG_BUFFER_SIZE" using assms by linarith
  then have "(h + LOG_BUFFER_SIZE - k + i) mod LOG_BUFFER_SIZE = h + i - k"
    unfolding e by (subst mod_add_self2) simp
  with False show ?thesis by (simp only: ring_index_def if_False)
qed

lemma ring_index_less [simp]: "ring_index h k i < LOG_BUFFER_SIZE"
  by (simp add: ring_index_def)

lemma ring_index_head:
  assumes "h < LOG_BUFFER_SIZE" "k \<le> LOG_BUFFER_SIZE" "i < k"
  shows "ring_index h k i = h \<longleftrightarrow> k = LOG_BUFFER_SIZE \<and> i = 0"
  using assms by (auto simp: ring_index_split split: if_splits)

lemma ring_index_grow:
  assumes "h < LOG_BUFFER_SIZE" "k < LOG_BUFFER_SIZE"
  shows "ring_index ((h + 1) mod LOG_BUFFER_SIZE) (k + 1) i = ring_index h k i"
proof (cases "h + 1 < LOG_BUFFER_SIZE")
  case True
  then show ?thesis using assms by (simp add: ring_index_def)
next
  case False
  then have "h + 1 = LOG_BUFFER_SIZE" using assms by simp
  moreover have "h + LOG_BUFFER_SIZE - k + i = (LOG_BUFFER_SIZE - (k + 1) + i) + LOG_BUFFER_SIZE"
    using \<open>h + 1 = LOG_BUFFER_SIZE\<close> assms by linarith
  ultimately show ?thesis unfolding ring_index_def
    by (simp only: mod_add_self2 mod_self add_0 diff_add_inverse2)
qed

lemma ring_index_full:
  assumes "h < LOG_BUFFER_SIZE"
  shows "ring_index ((h + 1) mod LOG_BUFFER_SIZE) LOG_BUFFER_SIZE i = ring_index h LOG_BUFFER_SIZE (i + 1)"
  using assms by (simp add: ring_index_def mod_simps)

lemma append_char_ok: "log_ok s \<Longrightarrow> log_ok (append_char c s)"
  by (simp add: log_ok_def append_char_def)

lemma log_text_append_char:
  assumes ok: "log_ok s"
  shows "log_text (append_char c s) = last_n LOG_BUFFER_SIZE (log_text s @ [c])"
proof -
  let ?h = "log_head s" and ?k = "log_count s" and ?b = "log_buffer s" and ?N = LOG_BUFFER_SIZE
  have b: "length ?b = ?N" and h: "?h < ?N" and k: "?k \<le> ?N" using ok by (auto simp: log_ok_def)
  show ?thesis
  proof (cases "?k < ?N")
    case True
    have last: "ring_index ?h ?k ?k = ?h" using h k by (simp add: ring_index_def)
    have ne: "\<And>i. i < ?k \<Longrightarrow> ?h \<noteq> ring_index ?h ?k i" using ring_index_head [OF h k] True by fastforce
    have "map (\<lambda>i. ?b[?h := c] ! ring_index ?h ?k i) [0..<?k] = log_text s"
      unfolding log_text_def by (intro map_cong refl) (simp add: ne)
    then show ?thesis using True b h last
      by (simp add: log_text_def append_char_def last_n_def ring_index_grow [simplified])
  next
    case False
    then have kN: "?k = ?N" using k by simp
    have len: "length (log_text s) = ?N" by (simp add: log_text_def kN)
    have "log_text (append_char c s) = map (\<lambda>i. ?b[?h := c] ! ring_index ?h ?N (i + 1)) [0..<?N]"
      using kN h by (simp add: log_text_def append_char_def ring_index_full [simplified])
    also have "\<dots> = drop 1 (log_text s @ [c])"
    proof (rule nth_equalityI)
      fix i assume "i < length (map (\<lambda>i. ?b[?h := c] ! ring_index ?h ?N (i + 1)) [0..<?N])"
      then have i: "i < ?N" by simp
      show "map (\<lambda>i. ?b[?h := c] ! ring_index ?h ?N (i + 1)) [0..<?N] ! i = drop 1 (log_text s @ [c]) ! i"
      proof (cases "i + 1 < ?N")
        case True
        then have "ring_index ?h ?N (i + 1) \<noteq> ?h" using ring_index_head [of ?h ?N "i + 1"] h by simp
        moreover have "i < ?N - Suc 0" using True by linarith
        ultimately show ?thesis using True i len by (simp add: nth_append log_text_def kN)
      next
        case False
        then have "i + 1 = ?N" using i by simp
        moreover from this have "ring_index ?h ?N (i + 1) = ?h" using h by (simp add: ring_index_def)
        moreover have "\<not> i < ?N - Suc 0" "i = ?N - Suc 0" using \<open>i + 1 = ?N\<close> by linarith+
        ultimately show ?thesis using i len b h by (simp add: nth_append)
      qed
    qed (simp add: len)
    finally show ?thesis by (simp add: last_n_def len)
  qed
qed

lemma append_string_ok: "log_ok s \<Longrightarrow> log_ok (append_string str s)"
  by (induction str arbitrary: s) (auto simp: append_char_ok)

lemma log_text_append_string:
  "log_ok s \<Longrightarrow> log_text (append_string str s) = last_n LOG_BUFFER_SIZE (log_text s @ str)"
proof (induction str arbitrary: s)
  case Nil
  have "length (log_text s) \<le> LOG_BUFFER_SIZE" using Nil by (simp add: log_text_def log_ok_def)
  then show ?case by (simp add: last_n_def)
next
  case (Cons c str)
  then show ?case
    by (simp add: append_char_ok log_text_append_char last_n_append)
qed

lemma log_ok_emit [simp]: "log_ok (emit_dest t dest s) = log_ok s"
  by (simp add: log_ok_def emit_dest_def emit_screen_def emit_serial_def)

lemma log_text_emit [simp]: "log_text (emit_dest t dest s) = log_text s"
  by (simp add: log_text_def emit_dest_def emit_screen_def emit_serial_def)

lemma log_serial_raw_ok: "log_ok s \<Longrightarrow> log_ok (log_serial_raw msg s)"
  by (simp add: log_serial_raw_def write_string_emit append_string_ok)

lemma log_text_serial_raw:
  "log_ok s \<Longrightarrow> log_text (log_serial_raw msg s) = last_n LOG_BUFFER_SIZE (log_text s @ msg)"
  by (simp add: log_serial_raw_def write_string_emit log_text_append_string)

lemma log_text_last:
  assumes ok: "log_ok s" and ne: "log_count s \<noteq> 0"
  shows "log_buffer s ! ((log_head s + LOG_BUFFER_SIZE - 1) mod LOG_BUFFER_SIZE) = last (log_text s)"
proof -
  have "log_head s + LOG_BUFFER_SIZE - 1 = log_head s + LOG_BUFFER_SIZE - log_count s + (log_count s - 1)"
    using ok ne by (simp add: log_ok_def)
  with ne show ?thesis by (simp add: log_text_def last_map ring_index_def)
qed

text \<open>What \<^verbatim>\<open>dmesg\<close> prints for a given log text.\<close>

definition dmesg_text :: "cstr \<Rightarrow> cstr" where
  "dmesg_text txt =
     (if txt = [] then ascii ''[dmesg] log buffer is empty'' @ [newline]
      else ascii ''--- dmesg (serial log ring) ---'' @ [newline] @ txt
           @ (if last txt \<noteq> newline then [newline] else []) @ ascii ''--- end dmesg ---'' @ [newline])"

lemma ring_index_start:
  "((h + LOG_BUFFER_SIZE - k) mod LOG_BUFFER_SIZE + i) mod LOG_BUFFER_SIZE = ring_index h k i"
  by (simp add: ring_index_def mod_simps)

lemma log_dump_buffer_text:
  assumes ok: "log_ok s"
  shows "log_dump_buffer dest s = emit_dest (dmesg_text (log_text s)) dest s"
proof (cases "log_count s = 0")
  case True
  then show ?thesis
    by (simp add: log_dump_buffer_def dmesg_text_def log_text_def write_string_emit)
next
  case False
  then have ne: "log_text s \<noteq> []" by (simp add: log_text_def)
  show ?thesis using False ne
    by (simp add: log_dump_buffer_def Let_def write_string_emit write_char_emit dump_chars_emit
        emit_dest_append ring_index_start log_text_last [OF ok False, simplified] dmesg_text_def comp_def
        flip: log_text_def)
qed

section \<open>Decimal numbers\<close>

definition dec_value :: "cstr \<Rightarrow> nat" where
  "dec_value ds = foldl (\<lambda>n d. n * 10 + (unat d - 48)) 0 ds"

lemma dec_value_snoc: "dec_value (ds @ [d]) = dec_value ds * 10 + (unat d - 48)"
  by (simp add: dec_value_def)

lemma unat_digit: "unat (48 + ucast ((v :: u32) mod 10) :: u8) = 48 + unat v mod 10"
proof -
  have m: "unat (v mod 10) = unat v mod 10" by (simp add: unat_mod)
  have "unat (ucast (v mod 10) :: u8) = unat v mod 10"
    by (simp add: unsigned_ucast_eq m take_bit_nat_eq_self)
  then show ?thesis by (simp add: unat_word_ariths)
qed

lemma dec_digits_value:
  "unat v < 10 ^ n \<Longrightarrow> dec_value (rev (dec_digits n v)) = unat v"
proof (induction n v rule: dec_digits.induct)
  case (1 v)
  then show ?case by (simp add: dec_value_def)
next
  case (2 n v)
  have "unat (v div 10) < 10 ^ n" using 2(2) by (simp add: unat_div less_mult_imp_div_less mult.commute)
  with 2(1) show ?case
    by (cases "v > 0") (auto simp: dec_value_snoc unat_digit unat_div dec_value_def word_gt_0)
qed

lemma dec_digits_are_digits: "d \<in> set (dec_digits n v) \<Longrightarrow> 48 \<le> unat d \<and> unat d \<le> 57"
proof (induction n v rule: dec_digits.induct)
  case (2 n v)
  have "unat v mod 10 < 10" by simp
  with 2 show ?case by (auto simp: unat_digit split: if_splits)
qed simp

section \<open>Properties of the log\<close>

text \<open>The calls that write messages, and the bytes of the log a sequence of them stands for, the
  messages of \<open>log_write\<close> being numbered from the one after \<open>n\<close>. Messages for the screen alone and
  those above the level \<open>LOG_LEVEL_DEBUG\<close> leave nothing in the log.\<close>

datatype log_call = Log_Write LogLevel "cstr option" cstr LogDest | Log_Serial_Raw cstr | Log_Both cstr | Log_Screen cstr

fun log_perform :: "log_call \<Rightarrow> 'a log_state_scheme \<Rightarrow> 'a log_state_scheme" where
  "log_perform (Log_Write level module msg dest) s = log_write level module msg dest s"
| "log_perform (Log_Serial_Raw msg) s = log_serial_raw msg s"
| "log_perform (Log_Both msg) s = log_both msg s"
| "log_perform (Log_Screen msg) s = log_screen msg s"

fun logged_bytes :: "u32 \<Rightarrow> log_call list \<Rightarrow> cstr" where
  "logged_bytes n [] = []"
| "logged_bytes n (Log_Write level module msg dest # cs) =
     (if level \<noteq> LOG_LEVEL_TRACE \<and> dest \<noteq> LOG_DEST_SCREEN
      then ascii ''['' @ uint_to_dec (n + 1) @ ascii ''][''  @ level_name level @ ascii ''][''
        @ (case module of None \<Rightarrow> ascii ''core'' | Some name \<Rightarrow> name) @ ascii ''] '' @ msg @ logged_bytes (n + 1) cs
      else logged_bytes n cs)"
| "logged_bytes n (Log_Serial_Raw msg # cs) = msg @ logged_bytes n cs"
| "logged_bytes n (Log_Both msg # cs) = msg @ logged_bytes n cs"
| "logged_bytes n (Log_Screen msg # cs) = logged_bytes n cs"

lemma append_string_out [simp]:
  "m_serial (append_string t s) = m_serial s" "m_screen (append_string t s) = m_screen s"
  "log_seq (append_string t s) = log_seq s"
  by (induction t arbitrary: s) (simp_all add: append_char_def)

lemma log_text_out [simp]:
  "log_text (emit_serial t s) = log_text s" "log_text (emit_screen t s) = log_text s"
  "log_text (s\<lparr>log_seq := n\<rparr>) = log_text s"
  by (simp_all add: log_text_def emit_serial_def emit_screen_def)

lemma log_ok_out [simp]:
  "log_ok (emit_serial t s) = log_ok s" "log_ok (emit_screen t s) = log_ok s" "log_ok (s\<lparr>log_seq := n\<rparr>) = log_ok s"
  by (simp_all add: log_ok_def emit_serial_def emit_screen_def)

lemma emit_out [simp]:
  "m_serial (emit_serial t s) = m_serial s @ t" "m_serial (emit_screen t s) = m_serial s"
  "log_seq (emit_serial t s) = log_seq s" "log_seq (emit_screen t s) = log_seq s"
  by (simp_all add: emit_serial_def emit_screen_def)

lemma log_text_short: "log_ok s \<Longrightarrow> last_n LOG_BUFFER_SIZE (log_text s) = log_text s"
  by (simp add: last_n_def log_text_def log_ok_def)

lemma log_perform_step:
  assumes ok: "log_ok s"
  shows "\<exists>out seq. log_ok (log_perform c s) \<and> log_seq (log_perform c s) = seq
    \<and> log_text (log_perform c s) = last_n LOG_BUFFER_SIZE (log_text s @ out)
    \<and> m_serial (log_perform c s) = m_serial s @ out
    \<and> (\<forall>cs. logged_bytes (log_seq s) (c # cs) = out @ logged_bytes seq cs)"
proof (cases c)
  case (Log_Write level module msg dest)
  show ?thesis unfolding Log_Write using ok
    by (cases level; cases dest) (simp_all add: log_write_def to_serial_def to_screen_def MIN_LOG_LEVEL_def Let_def
        log_prefix_def append_string_ok log_text_append_string log_text_short)
next
  case (Log_Serial_Raw msg)
  then show ?thesis using ok
    by (simp add: log_serial_raw_def write_string_emit emit_dest_def append_string_ok log_text_append_string
        to_serial_def to_screen_def)
next
  case (Log_Both msg)
  then show ?thesis using ok
    by (simp add: log_both_def write_string_emit emit_dest_def append_string_ok log_text_append_string
        to_serial_def to_screen_def)
next
  case (Log_Screen msg)
  then show ?thesis using ok
    by (simp add: log_screen_def write_string_emit emit_dest_def to_serial_def to_screen_def log_text_short)
qed

lemma log_perform_all:
  "log_ok s \<Longrightarrow> log_ok (fold log_perform cs s)
    \<and> log_text (fold log_perform cs s) = last_n LOG_BUFFER_SIZE (log_text s @ logged_bytes (log_seq s) cs)
    \<and> m_serial (fold log_perform cs s) = m_serial s @ logged_bytes (log_seq s) cs"
proof (induction cs arbitrary: s)
  case Nil
  then show ?case by (simp add: log_text_short)
next
  case (Cons c cs)
  obtain out seq where step: "log_ok (log_perform c s)" "log_seq (log_perform c s) = seq"
    "log_text (log_perform c s) = last_n LOG_BUFFER_SIZE (log_text s @ out)"
    "m_serial (log_perform c s) = m_serial s @ out"
    "logged_bytes (log_seq s) (c # cs) = out @ logged_bytes seq cs"
    using log_perform_step [OF Cons.prems] by metis
  show ?case using Cons.IH [OF step(1)] step last_n_append [of LOG_BUFFER_SIZE "log_text s @ out"]
    by (simp del: logged_bytes.simps)
qed

text \<open>
  C18: The log ring refines a bounded text: whatever sequence of messages is written after
  \<open>log_init\<close> with \<open>log_write\<close>, \<open>log_serial_raw\<close>, \<open>log_both\<close> and \<open>log_screen\<close>, the serial port has been
  sent exactly the logged bytes (messages of \<open>log_write\<close> with their number, level and module), and the
  \<^verbatim>\<open>dmesg\<close> dump writes, between its two banners, exactly the last 8192 of them, oldest first, and
  changes nothing but the transcript of its destination.
\<close>

theorem log_dump_shows_last_bytes:
  assumes "length (log_buffer s) = LOG_BUFFER_SIZE"
    and s': "s' = fold log_perform cs (log_init s)"
  shows "m_serial s' = m_serial s @ logged_bytes 0 cs
    \<and> log_dump_buffer dest s' = emit_dest (dmesg_text (last_n 8192 (logged_bytes 0 cs))) dest s'"
proof -
  have "log_ok (log_init s)" "log_text (log_init s) = []" "log_seq (log_init s) = 0" "m_serial (log_init s) = m_serial s"
    using assms(1) by (simp_all add: log_ok_def log_init_def log_text_def)
  with log_perform_all [of "log_init s" cs] show ?thesis unfolding s'
    by (simp add: log_dump_buffer_text LOG_BUFFER_SIZE_def)
qed

definition log_boot :: log_state where
  "log_boot = \<lparr>m_mem = (\<lambda>_. 0), m_eflags = 0, m_cr0 = 0, m_cr3 = 0, m_tr = 0, m_out = [], m_serial = [],
     m_screen = [], log_buffer = replicate LOG_BUFFER_SIZE 0, log_head = 0, log_count = 0, log_seq = 0\<rparr>"

definition demo_calls :: "log_call list" where
  "demo_calls = [Log_Serial_Raw (ascii ''ab''), Log_Write LOG_LEVEL_INFO None (ascii ''up'') LOG_DEST_SERIAL,
     Log_Write LOG_LEVEL_TRACE None (ascii ''no'') LOG_DEST_BOTH, Log_Screen (ascii ''x''), Log_Both (ascii ''c'')]"

lemma demo_calls_bytes: "logged_bytes 0 demo_calls = ascii ''ab[1][INFO][core] upc''"
  by code_simp

theorem log_dump_shows_last_bytes_witness:
  "m_serial (log_dump_buffer LOG_DEST_SERIAL (fold log_perform demo_calls (log_init log_boot)))
     = ascii ''ab[1][INFO][core] upc'' @ dmesg_text (ascii ''ab[1][INFO][core] upc'')"
proof -
  have len: "length (log_buffer log_boot) = LOG_BUFFER_SIZE" by (simp add: log_boot_def)
  have "last_n 8192 (ascii ''ab[1][INFO][core] upc'') = ascii ''ab[1][INFO][core] upc''"
    by (simp add: last_n_def ascii_def)
  moreover have "m_serial log_boot = []" by (simp add: log_boot_def)
  ultimately show ?thesis
    using log_dump_shows_last_bytes [OF len refl, of demo_calls LOG_DEST_SERIAL]
    by (simp add: demo_calls_bytes emit_dest_def to_serial_def to_screen_def)
qed

text \<open>
  The decimal printer of the log is exact: the digits it produces denote the number, are all
  ASCII digits, and fit the 16-byte scratch buffer whatever the 32-bit value.
\<close>

theorem uint_to_dec_exact:
  "dec_value (uint_to_dec v) = unat v \<and> (\<forall>d \<in> set (uint_to_dec v). 48 \<le> unat d \<and> unat d \<le> 57)
   \<and> length (uint_to_dec v) < 16"
proof -
  have b: "unat v < 10 ^ 16" "unat v < 10 ^ 10" using unat_u32_bound [of v] by simp_all
  have len: "unat w < 10 ^ k \<Longrightarrow> length (dec_digits n w) \<le> k" for n k and w :: u32
  proof (induction n w arbitrary: k rule: dec_digits.induct)
    case (2 n w)
    show ?case
    proof (cases "w > 0")
      case True
      then have "k \<noteq> 0" using 2(2) by (auto simp: word_gt_0 unat_eq_0 intro: gr0I)
      then obtain j where k: "k = Suc j" by (cases k) auto
      have "unat (w div 10) < 10 ^ j" using 2(2) k by (simp add: unat_div less_mult_imp_div_less mult.commute)
      with 2(1) True k show ?thesis by simp
    qed simp
  qed simp
  have "length (dec_digits 16 v) \<le> 10" by (rule len [OF b(2)])
  moreover have "dec_value (uint_to_dec v) = unat v"
    using dec_digits_value [OF b(1)] by (simp add: uint_to_dec_def dec_value_def)
  moreover have "\<forall>d \<in> set (uint_to_dec v). 48 \<le> unat d \<and> unat d \<le> 57"
    using dec_digits_are_digits [of _ 16 v] by (auto simp: uint_to_dec_def)
  ultimately show ?thesis by (auto simp: uint_to_dec_def)
qed

theorem uint_to_dec_exact_witness:
  "uint_to_dec 4294967295 = ascii ''4294967295'' \<and> dec_value (uint_to_dec 4294967295) = 4294967295"
proof
  show "uint_to_dec 4294967295 = ascii ''4294967295''"
    by code_simp
  show "dec_value (uint_to_dec 4294967295) = 4294967295"
    using uint_to_dec_exact [of 4294967295] by simp
qed

end
