(* ===== verification/Timer.thy ===== *)
theory Timer
  imports Logger
begin

text \<open>
  The programmable interval timer, \<^verbatim>\<open>src/kernel/time/timer.c\<close>: programming of channel 0, the tick
  counter advanced by IRQ0, the conversion of milliseconds to ticks, and the sleeping loops.

  \<^verbatim>\<open>hlt\<close> suspends the processor until an interrupt; which interrupt ends each \<^verbatim>\<open>hlt\<close> is decided by
  the hardware and is a list of booleans here (\<open>True\<close> for IRQ0). A sleep for which the list is too
  short has not returned yet and is \<open>None\<close>.
\<close>

unbundle bit_operations_syntax

section \<open>State and operations\<close>

definition PIT_COMMAND_PORT :: u16 where "PIT_COMMAND_PORT = 0x43"
definition PIT_CHANNEL0_PORT :: u16 where "PIT_CHANNEL0_PORT = 0x40"
definition PIT_BASE_HZ :: u32 where "PIT_BASE_HZ = 1193182"

record timer_state = log_state +
  g_timer_ticks :: u32
  g_timer_hz :: u32
  g_timer_ready :: bool

definition pit_divisor :: "u32 \<Rightarrow> u32" where
  "pit_divisor hz =
     (let divisor = PIT_BASE_HZ div (if hz = 0 then 100 else hz);
          divisor = (if divisor = 0 then 1 else divisor)
      in if divisor > 0xFFFF then 0xFFFF else divisor)"

definition timer_init :: "u32 \<Rightarrow> 'a timer_state_scheme \<Rightarrow> 'a timer_state_scheme" where
  "timer_init hz s =
     (let divisor = pit_divisor hz;
          actual_hz = PIT_BASE_HZ div divisor;
          actual_hz = (if actual_hz = 0 then 1 else actual_hz);
          s = outb PIT_COMMAND_PORT 0x36 s;
          s = outb PIT_CHANNEL0_PORT (ucast (divisor AND 0xFF)) s;
          s = outb PIT_CHANNEL0_PORT (ucast (drop_bit 8 divisor AND 0xFF)) s
      in log_serial_raw (ascii ''[timer] PIT configured on IRQ0'' @ [newline])
           (s\<lparr>g_timer_ticks := 0, g_timer_hz := actual_hz, g_timer_ready := True\<rparr>))"

definition timer_on_tick :: "'a timer_state_scheme \<Rightarrow> 'a timer_state_scheme" where
  "timer_on_tick s = (if g_timer_ready s then s\<lparr>g_timer_ticks := g_timer_ticks s + 1\<rparr> else s)"

definition timer_get_ticks :: "'a timer_state_scheme \<Rightarrow> u32" where
  "timer_get_ticks s = g_timer_ticks s"

definition timer_get_hz :: "'a timer_state_scheme \<Rightarrow> u32" where
  "timer_get_hz s = g_timer_hz s"

definition timer_is_ready :: "'a timer_state_scheme \<Rightarrow> bool" where
  "timer_is_ready s = g_timer_ready s"

definition timer_ms_to_ticks_ceil :: "u32 \<Rightarrow> 'a timer_state_scheme \<Rightarrow> u32" where
  "timer_ms_to_ticks_ceil ms s =
     (if ms = 0 then 0
      else let hz = g_timer_hz s in
      if \<not> g_timer_ready s \<or> hz = 0 then 0
      else let seconds = ms div 1000; remainder_ms = ms mod 1000 in
      if seconds > 0 \<and> hz > 0xFFFFFFFF div seconds then 0xFFFFFFFF
      else let ticks = seconds * hz;
               remainder_ticks = (remainder_ms * hz + 999) div 1000 in
      if ticks > 0xFFFFFFFF - remainder_ticks then 0xFFFFFFFF
      else let ticks = ticks + remainder_ticks in
      if ticks = 0 then 1 else ticks)"

definition timer_wait_for_interrupt :: "bool \<Rightarrow> 'a timer_state_scheme \<Rightarrow> 'a timer_state_scheme" where
  "timer_wait_for_interrupt irq0 s =
     (if \<not> g_timer_ready s \<or> \<not> irqs_on s then s
      else if irq0 then timer_on_tick s else s)"

fun timer_sleep_loop ::
  "bool list \<Rightarrow> u32 \<Rightarrow> u32 \<Rightarrow> 'a timer_state_scheme \<Rightarrow> ('a timer_state_scheme \<times> bool list) option" where
  "timer_sleep_loop [] start ticks s = (if g_timer_ticks s - start < ticks then None else Some (s, []))"
| "timer_sleep_loop (irq # irqs) start ticks s =
     (if g_timer_ticks s - start < ticks
      then timer_sleep_loop irqs start ticks (timer_wait_for_interrupt irq s)
      else Some (s, irq # irqs))"

definition timer_sleep_ticks ::
  "u32 \<Rightarrow> bool list \<Rightarrow> 'a timer_state_scheme \<Rightarrow> ('a timer_state_scheme \<times> bool list) option" where
  "timer_sleep_ticks ticks irqs s =
     (if ticks = 0 \<or> \<not> g_timer_ready s \<or> \<not> irqs_on s then Some (s, irqs)
      else timer_sleep_loop irqs (g_timer_ticks s) ticks s)"

definition timer_sleep_ms ::
  "u32 \<Rightarrow> bool list \<Rightarrow> 'a timer_state_scheme \<Rightarrow> ('a timer_state_scheme \<times> bool list) option" where
  "timer_sleep_ms ms irqs s = timer_sleep_ticks (timer_ms_to_ticks_ceil ms s) irqs s"

section \<open>Conversion of milliseconds\<close>

definition ceil_div :: "nat \<Rightarrow> nat \<Rightarrow> nat" where
  "ceil_div a b = (a + b - 1) div b"

lemma ceil_div_split: "ceil_div ((1000 * q + r) * hz) 1000 = q * hz + (r * hz + 999) div 1000"
proof -
  have "(1000 * q + r) * hz + 1000 - 1 = q * hz * 1000 + (r * hz + 999)" by (simp add: algebra_simps)
  then show ?thesis unfolding ceil_div_def by (simp only: div_mult_self3 [OF zero_neq_numeral [symmetric]])
qed

lemma ceil_div_pos: "0 < a \<Longrightarrow> 0 < b \<Longrightarrow> 0 < ceil_div a b"
  by (simp add: ceil_div_def div_greater_zero_iff)

lemma unat_add_exact: "unat a + unat b < 2 ^ LENGTH('a) \<Longrightarrow> unat (a + b :: 'a::len word) = unat a + unat b"
  by (simp add: unat_word_ariths)

lemma unat_mult_exact: "unat a * unat b < 2 ^ LENGTH('a) \<Longrightarrow> unat (a * b :: 'a::len word) = unat a * unat b"
  by (simp add: unat_word_ariths)

lemma word_div_less_mult:
  assumes "(q :: u32) > 0"
  shows "hz > 0xFFFFFFFF div q \<longleftrightarrow> unat q * unat hz > 4294967295"
proof -
  have q: "0 < unat q" using assms by (simp add: word_less_nat_alt)
  have "hz > 0xFFFFFFFF div q \<longleftrightarrow> 4294967295 div unat q < unat hz"
    by (simp add: word_less_nat_alt unat_div)
  also have "\<dots> \<longleftrightarrow> 4294967295 < unat hz * unat q" using q by (simp add: div_less_iff_less_mult)
  finally show ?thesis by (simp add: mult.commute)
qed

lemma ms_to_ticks_value:
  assumes ready: "g_timer_ready s" and hz: "0 < unat (g_timer_hz s)" "unat (g_timer_hz s) \<le> 1193182"
    and ms: "ms \<noteq> 0"
  shows "unat (timer_ms_to_ticks_ceil ms s) = min 4294967295 (ceil_div (unat ms * unat (g_timer_hz s)) 1000)"
proof -
  define hz where "hz = g_timer_hz s"
  define q r where "q = ms div 1000" and "r = ms mod 1000"
  have hzb: "0 < unat hz" "unat hz \<le> 1193182" using assms by (simp_all add: hz_def)
  have hz0: "hz \<noteq> 0" using hzb by auto
  have uq: "unat q = unat ms div 1000" and ur: "unat r = unat ms mod 1000"
    by (simp_all add: q_def r_def unat_div unat_mod)
  have msq: "unat ms = 1000 * unat q + unat r" by (simp add: uq ur)
  have rb: "unat r \<le> 999" using mod_less_divisor [of 1000 "unat ms"] unfolding ur by linarith
  have rh: "unat r * unat hz \<le> 999 * 1193182" using rb hzb by (intro mult_le_mono) auto
  have u1: "unat (r * hz) = unat r * unat hz" by (rule unat_mult_exact) (use rh in simp)
  have u2: "unat (r * hz + 999) = unat r * unat hz + 999"
    using unat_add_exact [of "r * hz" 999] rh by (simp add: u1)
  define rt where "rt = (r * hz + 999) div 1000"
  have urt: "unat rt = (unat r * unat hz + 999) div 1000" by (simp add: rt_def unat_div u2)
  have ceil: "ceil_div (unat ms * unat hz) 1000 = unat q * unat hz + unat rt"
    unfolding msq urt by (rule ceil_div_split)
  have pos: "0 < ceil_div (unat ms * unat hz) 1000"
    using hzb ms by (intro ceil_div_pos) (simp_all add: unat_gt_0)
  have eq: "timer_ms_to_ticks_ceil ms s =
    (if q > 0 \<and> hz > 0xFFFFFFFF div q then 0xFFFFFFFF
     else if q * hz > 0xFFFFFFFF - rt then 0xFFFFFFFF
     else if q * hz + rt = 0 then 1 else q * hz + rt)"
    using ms ready hz0
    by (simp only: timer_ms_to_ticks_ceil_def Let_def rt_def q_def r_def hz_def if_False simp_thms)
  show ?thesis
  proof (cases "q > 0 \<and> hz > 0xFFFFFFFF div q")
    case True
    then have "unat q * unat hz > 4294967295" using word_div_less_mult by blast
    then have "min 4294967295 (ceil_div (unat ms * unat hz) 1000) = 4294967295" unfolding ceil by linarith
    with True show ?thesis unfolding eq hz_def [symmetric] by simp
  next
    case False
    then have le: "unat q * unat hz \<le> 4294967295"
      by (cases "q = 0") (auto simp: word_div_less_mult word_gt_0)
    then have uqh: "unat (q * hz) = unat q * unat hz" by (intro unat_mult_exact) simp
    have sub: "unat (0xFFFFFFFF - rt) = 4294967295 - unat rt"
      using unat_u32_bound [of rt] by (subst unat_sub) (simp_all add: word_le_nat_alt)
    have cmp: "q * hz > 0xFFFFFFFF - rt \<longleftrightarrow> unat q * unat hz + unat rt > 4294967295"
      using unat_u32_bound [of rt] by (auto simp: word_less_nat_alt sub uqh)
    show ?thesis
    proof (cases "unat q * unat hz + unat rt > 4294967295")
      case True
      then have "min 4294967295 (ceil_div (unat ms * unat hz) 1000) = 4294967295" unfolding ceil by linarith
      with True False show ?thesis unfolding eq hz_def [symmetric] by (simp add: cmp)
    next
      case nov: False
      then have sum: "unat (q * hz + rt) = unat q * unat hz + unat rt"
        by (subst unat_add_exact) (simp_all add: uqh)
      then have "q * hz + rt \<noteq> 0" using pos unfolding ceil by (metis unat_0 less_irrefl)
      moreover have "min 4294967295 (ceil_div (unat ms * unat hz) 1000) = unat q * unat hz + unat rt"
        using nov unfolding ceil by linarith
      ultimately show ?thesis using False nov unfolding eq hz_def [symmetric] by (auto simp: cmp sum)
    qed
  qed
qed

section \<open>Sleeping\<close>

text \<open>The interrupts left over after the \<open>n\<close>-th timer interrupt, if there are that many.\<close>

fun after_ticks :: "nat \<Rightarrow> bool list \<Rightarrow> bool list option" where
  "after_ticks 0 irqs = Some irqs"
| "after_ticks (Suc n) [] = None"
| "after_ticks (Suc n) (irq # irqs) = after_ticks (if irq then n else Suc n) irqs"

lemma after_ticks_ex: "n \<le> length (filter id irqs) \<Longrightarrow> \<exists>rest. after_ticks n irqs = Some rest"
proof (induction n irqs rule: after_ticks.induct)
  case (3 n irq irqs)
  then show ?case by (cases irq) auto
qed auto

lemma unat_suc_diff:
  assumes "(a :: u32) - b < c"
  shows "unat (a + 1 - b) = Suc (unat (a - b))"
proof -
  have "unat (a - b) < unat c" using assms by (simp add: word_less_nat_alt)
  then have "unat (a - b) + unat (1 :: u32) < 2 ^ LENGTH(32)" using unat_u32_bound [of c] by simp
  then have "unat (a - b + 1) = unat (a - b) + 1" by (subst unat_add_exact) simp_all
  then show ?thesis by (simp add: algebra_simps)
qed

lemma timer_sleep_loop_ok:
  assumes "g_timer_ready s" "irqs_on s" "g_timer_ticks s - start \<le> ticks"
  shows "timer_sleep_loop irqs start ticks s =
    map_option (\<lambda>rest. (s\<lparr>g_timer_ticks := start + ticks\<rparr>, rest))
      (after_ticks (unat ticks - unat (g_timer_ticks s - start)) irqs)"
  using assms
proof (induction irqs arbitrary: s)
  case Nil
  show ?case
  proof (cases "g_timer_ticks s - start < ticks")
    case True
    then obtain k where "unat ticks - unat (g_timer_ticks s - start) = Suc k"
      by (auto simp: word_less_nat_alt dest: less_imp_Suc_add)
    with True show ?thesis by simp
  next
    case False
    then have "g_timer_ticks s - start = ticks" using Nil by simp
    then show ?thesis by (auto simp: algebra_simps)
  qed
next
  case (Cons irq irqs)
  show ?case
  proof (cases "g_timer_ticks s - start < ticks")
    case True
    obtain k where k: "unat ticks - unat (g_timer_ticks s - start) = Suc k"
      using True by (auto simp: word_less_nat_alt dest: less_imp_Suc_add)
    let ?s = "timer_wait_for_interrupt irq s"
    have w: "?s = (if irq then s\<lparr>g_timer_ticks := g_timer_ticks s + 1\<rparr> else s)"
      using Cons.prems by (simp add: timer_wait_for_interrupt_def timer_on_tick_def)
    have "g_timer_ticks ?s - start \<le> ticks" using True k Cons.prems
      by (auto simp: w word_le_nat_alt unat_suc_diff)
    moreover have "g_timer_ready ?s" "irqs_on ?s"
      using Cons.prems by (simp_all add: w irqs_on_def)
    ultimately have "timer_sleep_loop irqs start ticks ?s =
      map_option (\<lambda>rest. (?s\<lparr>g_timer_ticks := start + ticks\<rparr>, rest))
        (after_ticks (unat ticks - unat (g_timer_ticks ?s - start)) irqs)"
      by (rule Cons.IH [rotated 2])
    moreover have "unat ticks - Suc (unat (g_timer_ticks s - start)) = k" using k by simp
    ultimately show ?thesis using True k w by (cases irq) (simp_all add: unat_suc_diff)
  next
    case False
    then have "g_timer_ticks s - start = ticks" using Cons by simp
    then show ?thesis by (auto simp: algebra_simps)
  qed
qed

section \<open>Properties of the timer\<close>

text \<open>
  C19: The conversion of milliseconds is the exact ceiling \<open>ms * hz / 1000\<close>, saturated at the
  largest 32-bit value, for every frequency the timer can be programmed to: none of its 32-bit
  products or sums overflows.
\<close>

theorem ms_to_ticks_exact:
  assumes "g_timer_ready s" "0 < unat (g_timer_hz s)" "unat (g_timer_hz s) \<le> unat PIT_BASE_HZ" "ms \<noteq> 0"
  shows "unat (timer_ms_to_ticks_ceil ms s) = min 4294967295 (ceil_div (unat ms * unat (g_timer_hz s)) 1000)"
  using assms by (intro ms_to_ticks_value) (simp_all add: PIT_BASE_HZ_def)

definition timer_boot :: timer_state where
  "timer_boot = log_state.extend log_boot \<lparr>g_timer_ticks = 0xFFFFFFFE, g_timer_hz = 100, g_timer_ready = True\<rparr>"

theorem ms_to_ticks_exact_witness:
  "unat (timer_ms_to_ticks_ceil 15 timer_boot) = 2"
proof -
  have f: "g_timer_ready timer_boot" "g_timer_hz timer_boot = 100"
    by (simp_all add: timer_boot_def log_state.defs)
  show ?thesis using ms_to_ticks_exact [of timer_boot 15] f by (simp add: PIT_BASE_HZ_def ceil_div_def)
qed

text \<open>
  A sleep of \<open>ticks\<close> ticks returns exactly at the \<open>ticks\<close>-th timer interrupt: it does return
  once that many have arrived, however many other interrupts end its \<^verbatim>\<open>hlt\<close>s, also when the
  tick counter wraps around, and it has then advanced the counter by \<open>ticks\<close> and changed nothing else.
\<close>

theorem timer_sleep_exact:
  assumes ready: "g_timer_ready s" "irqs_on s" and n: "unat ticks \<le> length (filter id irqs)"
  shows "\<exists>rest. after_ticks (unat ticks) irqs = Some rest \<and>
    timer_sleep_ticks ticks irqs s = Some (s\<lparr>g_timer_ticks := g_timer_ticks s + ticks\<rparr>, rest)"
proof -
  obtain rest where r: "after_ticks (unat ticks) irqs = Some rest" using after_ticks_ex [OF n] by blast
  show ?thesis
  proof (cases "ticks = 0")
    case True
    then show ?thesis by (simp add: timer_sleep_ticks_def)
  next
    case False
    then show ?thesis using ready r timer_sleep_loop_ok [of s "g_timer_ticks s" ticks irqs]
      by (simp add: timer_sleep_ticks_def)
  qed
qed

theorem timer_sleep_exact_witness:
  "timer_sleep_ticks 3 [True, False, True, True, False] (timer_boot\<lparr>m_eflags := 0x202\<rparr>)
     = Some (timer_boot\<lparr>m_eflags := 0x202, g_timer_ticks := 1\<rparr>, [False])"
proof -
  have f: "g_timer_ready (timer_boot\<lparr>m_eflags := 0x202\<rparr>)" "irqs_on (timer_boot\<lparr>m_eflags := 0x202\<rparr>)"
    and t: "g_timer_ticks timer_boot = 0xFFFFFFFE"
    by (simp_all add: timer_boot_def log_state.defs irqs_on_def EFLAGS_IF_def)
  have a: "after_ticks 3 [True, False, True, True, False] = Some [False]" by (simp add: numeral_3_eq_3)
  have w: "(0xFFFFFFFE + 3 :: u32) = 1" "unat (3 :: u32) = 3" by simp_all
  have t': "g_timer_ticks (timer_boot\<lparr>m_eflags := 0x202\<rparr>) + 3 = 1"
    by (simp add: t)
  have n: "unat (3 :: u32) \<le> length (filter id [True, False, True, True, False])" by simp
  show ?thesis using timer_sleep_exact [OF f n] by (simp only: t' w a) simp
qed

end
