(* ===== verification/Serial.thy ===== *)
theory Serial
  imports Logger
begin

text \<open>
  The serial port driver, \<^verbatim>\<open>src/kernel/debug/serial.c\<close>, over the two port primitives of the
  processor. The busy-wait loops on the line status register may run for ever and are partial
  functions: \<open>None\<close> is a loop that never ends.

  The locale \<open>uart\<close> states what the driver relies on in a 16550: the two status bits, that a busy
  transmitter becomes ready after finitely many polls, and what the data register does. Under it
  every write returns and sends exactly the string, which is what the transcript \<open>m_serial\<close> of the
  machine stands for in the other theories.
\<close>

unbundle bit_operations_syntax

section \<open>Driver\<close>

record 'h port_io =
  pio_inb :: "u16 \<Rightarrow> 'h \<Rightarrow> u8 \<times> 'h"
  pio_outb :: "u16 \<Rightarrow> u8 \<Rightarrow> 'h \<Rightarrow> 'h"

record 'h serial_state =
  serial_ready :: bool
  serial_hw :: 'h

definition SERIAL_PORT :: u16 where "SERIAL_PORT = 0x3F8"

definition ser_outb :: "'h port_io \<Rightarrow> u16 \<Rightarrow> u8 \<Rightarrow> 'h serial_state \<Rightarrow> 'h serial_state" where
  "ser_outb io port v s = s\<lparr>serial_hw := pio_outb io port v (serial_hw s)\<rparr>"

definition ser_inb :: "'h port_io \<Rightarrow> u16 \<Rightarrow> 'h serial_state \<Rightarrow> u8 \<times> 'h serial_state" where
  "ser_inb io port s = (let (v, h) = pio_inb io port (serial_hw s) in (v, s\<lparr>serial_hw := h\<rparr>))"

definition serial_init :: "'h port_io \<Rightarrow> 'h serial_state \<Rightarrow> 'h serial_state" where
  "serial_init io s =
     (let s = ser_outb io (SERIAL_PORT + 1) 0x00 s;
          s = ser_outb io (SERIAL_PORT + 3) 0x80 s;
          s = ser_outb io (SERIAL_PORT + 0) 0x03 s;
          s = ser_outb io (SERIAL_PORT + 1) 0x00 s;
          s = ser_outb io (SERIAL_PORT + 3) 0x03 s;
          s = ser_outb io (SERIAL_PORT + 2) 0xC7 s;
          s = ser_outb io (SERIAL_PORT + 4) 0x0B s
      in s\<lparr>serial_ready := True\<rparr>)"

definition serial_is_transmit_empty :: "'h port_io \<Rightarrow> 'h serial_state \<Rightarrow> bool \<times> 'h serial_state" where
  "serial_is_transmit_empty io s = (let (v, s) = ser_inb io (SERIAL_PORT + 5) s in (v AND 0x20 \<noteq> 0, s))"

definition serial_received :: "'h port_io \<Rightarrow> 'h serial_state \<Rightarrow> bool \<times> 'h serial_state" where
  "serial_received io s = (let (v, s) = ser_inb io (SERIAL_PORT + 5) s in (v AND 0x01 \<noteq> 0, s))"

partial_function (option) wait_received :: "'h port_io \<Rightarrow> 'h serial_state \<Rightarrow> 'h serial_state option" where
  "wait_received io s = (let (r, s) = serial_received io s in if r then Some s else wait_received io s)"

definition serial_getchar :: "'h port_io \<Rightarrow> 'h serial_state \<Rightarrow> (u8 \<times> 'h serial_state) option" where
  "serial_getchar io s = do { s \<leftarrow> wait_received io s; Some (ser_inb io SERIAL_PORT s) }"

partial_function (option) wait_transmit :: "'h port_io \<Rightarrow> 'h serial_state \<Rightarrow> 'h serial_state option" where
  "wait_transmit io s = (let (r, s) = serial_is_transmit_empty io s in if r then Some s else wait_transmit io s)"

definition serial_putchar :: "'h port_io \<Rightarrow> u8 \<Rightarrow> 'h serial_state \<Rightarrow> 'h serial_state option" where
  "serial_putchar io c s = do { s \<leftarrow> wait_transmit io s; Some (ser_outb io SERIAL_PORT c s) }"

fun serial_print :: "'h port_io \<Rightarrow> cstr \<Rightarrow> 'h serial_state \<Rightarrow> 'h serial_state option" where
  "serial_print io [] s = Some s"
| "serial_print io (c # str) s = do { s \<leftarrow> serial_putchar io c s; serial_print io str s }"

definition hex_digit :: "u32 \<Rightarrow> u8" where
  "hex_digit d = ascii ''0123456789ABCDEF'' ! unat d"

text \<open>The characters \<^verbatim>\<open>serial_print_hex\<close> writes after the prefix, shifts 28, 24, ..., 0.\<close>

definition hex_text :: "u32 \<Rightarrow> cstr" where
  "hex_text num = map (\<lambda>i. hex_digit (drop_bit i num AND 0xF)) [28, 24, 20, 16, 12, 8, 4, 0]"

definition serial_print_hex :: "'h port_io \<Rightarrow> u32 \<Rightarrow> 'h serial_state \<Rightarrow> 'h serial_state option" where
  "serial_print_hex io num s = do { s \<leftarrow> serial_print io (ascii ''0x'') s; serial_print io (hex_text num) s }"

definition serial_is_ready :: "'h serial_state \<Rightarrow> bool" where
  "serial_is_ready s = serial_ready s"

text \<open>\<^verbatim>\<open>serial_read_line\<close> with room for \<open>n = max_len - 1\<close> more bytes.\<close>

fun read_line_loop :: "'h port_io \<Rightarrow> nat \<Rightarrow> 'h serial_state \<Rightarrow> (cstr \<times> 'h serial_state) option" where
  "read_line_loop io 0 s = Some ([], s)"
| "read_line_loop io (Suc n) s = do {
     (c, s) \<leftarrow> serial_getchar io s;
     if c = 13 \<or> c = 10 then Some ([], s)
     else do {
       s \<leftarrow> serial_putchar io c s;
       (line, s) \<leftarrow> read_line_loop io n s;
       Some (c # line, s) } }"

definition serial_read_line :: "'h port_io \<Rightarrow> int \<Rightarrow> 'h serial_state \<Rightarrow> (cstr \<times> 'h serial_state) option" where
  "serial_read_line io max_len s = read_line_loop io (nat (max_len - 1)) s"

text \<open>The same writes on the machine transcript.\<close>

definition log_print_hex :: "u32 \<Rightarrow> 'a machine_scheme \<Rightarrow> 'a machine_scheme" where
  "log_print_hex num s = emit_serial (ascii ''0x'' @ hex_text num) s"

section \<open>What the driver relies on\<close>

locale uart =
  fixes io :: "'h port_io"
    and uart_ok :: "'h \<Rightarrow> bool"
    and sent :: "'h \<Rightarrow> u8 list"
    and pending :: "'h \<Rightarrow> u8 list"
    and tx_busy :: "'h \<Rightarrow> nat"
  assumes status: "uart_ok h \<Longrightarrow> pio_inb io (SERIAL_PORT + 5) h = (v, h') \<Longrightarrow>
      uart_ok h' \<and> sent h' = sent h \<and> pending h' = pending h
      \<and> (v AND 0x20 \<noteq> 0 \<longleftrightarrow> tx_busy h = 0) \<and> (v AND 0x01 \<noteq> 0 \<longleftrightarrow> pending h \<noteq> [])
      \<and> tx_busy h' = tx_busy h - 1"
    and transmit: "uart_ok h \<Longrightarrow> tx_busy h = 0 \<Longrightarrow>
      uart_ok (pio_outb io SERIAL_PORT c h) \<and> sent (pio_outb io SERIAL_PORT c h) = sent h @ [c]
      \<and> pending (pio_outb io SERIAL_PORT c h) = pending h"
    and receive: "uart_ok h \<Longrightarrow> pending h = c # cs \<Longrightarrow> pio_inb io SERIAL_PORT h = (v, h') \<Longrightarrow>
      v = c \<and> uart_ok h' \<and> sent h' = sent h \<and> pending h' = cs"
begin

lemma wait_transmit_ok:
  "uart_ok (serial_hw s) \<Longrightarrow> \<exists>s'. wait_transmit io s = Some s' \<and> uart_ok (serial_hw s')
     \<and> tx_busy (serial_hw s') = 0 \<and> sent (serial_hw s') = sent (serial_hw s)
     \<and> pending (serial_hw s') = pending (serial_hw s) \<and> serial_ready s' = serial_ready s"
proof (induction "tx_busy (serial_hw s)" arbitrary: s rule: less_induct)
  case less
  obtain v h where r: "pio_inb io (SERIAL_PORT + 5) (serial_hw s) = (v, h)" by fastforce
  note st = status [OF less.prems r]
  show ?case
  proof (cases "tx_busy (serial_hw s) = 0")
    case True
    then show ?thesis using st
      by (subst wait_transmit.simps) (simp add: serial_is_transmit_empty_def ser_inb_def r)
  next
    case False
    have "\<exists>s'. wait_transmit io (s\<lparr>serial_hw := h\<rparr>) = Some s' \<and> uart_ok (serial_hw s')
       \<and> tx_busy (serial_hw s') = 0 \<and> sent (serial_hw s') = sent h
       \<and> pending (serial_hw s') = pending h \<and> serial_ready s' = serial_ready s"
      using less.hyps [of "s\<lparr>serial_hw := h\<rparr>"] False st by simp
    with False st show ?thesis
      by (subst wait_transmit.simps) (simp add: serial_is_transmit_empty_def ser_inb_def r)
  qed
qed

lemma serial_putchar_ok:
  assumes "uart_ok (serial_hw s)"
  shows "\<exists>s'. serial_putchar io c s = Some s' \<and> uart_ok (serial_hw s')
     \<and> sent (serial_hw s') = sent (serial_hw s) @ [c] \<and> pending (serial_hw s') = pending (serial_hw s)
     \<and> serial_ready s' = serial_ready s"
  using wait_transmit_ok [OF assms] transmit [of "serial_hw _" c]
  by (fastforce simp: serial_putchar_def ser_outb_def)

lemma serial_print_ok:
  "uart_ok (serial_hw s) \<Longrightarrow> \<exists>s'. serial_print io str s = Some s' \<and> uart_ok (serial_hw s')
     \<and> sent (serial_hw s') = sent (serial_hw s) @ str \<and> pending (serial_hw s') = pending (serial_hw s)
     \<and> serial_ready s' = serial_ready s"
proof (induction str arbitrary: s)
  case (Cons c str)
  obtain s1 where 1: "serial_putchar io c s = Some s1" "uart_ok (serial_hw s1)"
    "sent (serial_hw s1) = sent (serial_hw s) @ [c]" "pending (serial_hw s1) = pending (serial_hw s)"
    "serial_ready s1 = serial_ready s"
    using serial_putchar_ok [OF Cons.prems] by blast
  show ?case using Cons.IH [OF 1(2)] 1 by simp
qed simp

lemma serial_getchar_ok:
  assumes ok: "uart_ok (serial_hw s)" and p: "pending (serial_hw s) = c # cs"
  shows "\<exists>s'. serial_getchar io s = Some (c, s') \<and> uart_ok (serial_hw s')
     \<and> sent (serial_hw s') = sent (serial_hw s) \<and> pending (serial_hw s') = cs"
proof -
  obtain v h where r: "pio_inb io (SERIAL_PORT + 5) (serial_hw s) = (v, h)" by fastforce
  note st = status [OF ok r]
  obtain w h' where d: "pio_inb io SERIAL_PORT h = (w, h')" by fastforce
  have "wait_received io s = Some (s\<lparr>serial_hw := h\<rparr>)"
    using st p by (subst wait_received.simps) (simp add: serial_received_def ser_inb_def r)
  then show ?thesis using receive [of h c cs w h'] st p d
    by (simp add: serial_getchar_def ser_inb_def)
qed

text \<open>A line ends at the first CR or LF, or when the buffer is full.\<close>

lemma read_line_ok:
  assumes "uart_ok (serial_hw s)" "n \<le> length (pending (serial_hw s)) \<or> (\<exists>c \<in> set (pending (serial_hw s)). c = 13 \<or> c = 10)"
  shows "\<exists>s'. read_line_loop io n s = Some (take n (takeWhile (\<lambda>c. c \<noteq> 13 \<and> c \<noteq> 10) (pending (serial_hw s))), s')
     \<and> uart_ok (serial_hw s')
     \<and> sent (serial_hw s') = sent (serial_hw s) @ take n (takeWhile (\<lambda>c. c \<noteq> 13 \<and> c \<noteq> 10) (pending (serial_hw s)))"
  using assms
proof (induction n arbitrary: s)
  case (Suc n)
  then obtain c cs where p: "pending (serial_hw s) = c # cs" by (cases "pending (serial_hw s)") auto
  obtain s1 where 1: "serial_getchar io s = Some (c, s1)" "uart_ok (serial_hw s1)"
    "sent (serial_hw s1) = sent (serial_hw s)" "pending (serial_hw s1) = cs"
    using serial_getchar_ok [OF Suc.prems(1) p] by blast
  show ?case
  proof (cases "c = 13 \<or> c = 10")
    case True
    then show ?thesis using 1 p by auto
  next
    case False
    obtain s2 where 2: "serial_putchar io c s1 = Some s2" "uart_ok (serial_hw s2)"
      "sent (serial_hw s2) = sent (serial_hw s) @ [c]" "pending (serial_hw s2) = cs"
      using serial_putchar_ok [OF 1(2), of c] 1 by auto
    have "n \<le> length cs \<or> (\<exists>c \<in> set cs. c = 13 \<or> c = 10)" using Suc.prems(2) p False by auto
    with Suc.IH [OF 2(2)] 1 2 p False show ?thesis by fastforce
  qed
qed simp

end

section \<open>A UART for the interpretation\<close>

text \<open>A transmitter that needs two polls per byte, with its queues.\<close>

record uart_model =
  um_sent :: "u8 list"
  um_pending :: "u8 list"
  um_busy :: nat

definition uart_model_io :: "uart_model port_io" where
  "uart_model_io = \<lparr>
     pio_inb = (\<lambda>port h.
       if port = SERIAL_PORT + 5
       then ((if um_busy h = 0 then 0x20 else 0) OR (if um_pending h \<noteq> [] then 0x01 else 0),
             h\<lparr>um_busy := um_busy h - 1\<rparr>)
       else if port = SERIAL_PORT then (case um_pending h of [] \<Rightarrow> (0, h) | c # cs \<Rightarrow> (c, h\<lparr>um_pending := cs\<rparr>))
       else (0, h)),
     pio_outb = (\<lambda>port v h.
       if port = SERIAL_PORT then h\<lparr>um_sent := um_sent h @ [v], um_busy := 2\<rparr> else h)\<rparr>"

interpretation com1: uart uart_model_io "\<lambda>_. True" um_sent um_pending um_busy
  by unfold_locales (auto simp: uart_model_io_def SERIAL_PORT_def split: if_splits)

section \<open>Properties of the serial driver\<close>

text \<open>The number a string of upper-case hexadecimal digits denotes.\<close>

definition hex_digit_value :: "u8 \<Rightarrow> nat" where
  "hex_digit_value c = (if unat c < 65 then unat c - 48 else unat c - 55)"

definition hex_value :: "cstr \<Rightarrow> nat" where
  "hex_value t = foldl (\<lambda>n c. n * 16 + hex_digit_value c) 0 t"

lemma hex_digit_value_digit: "unat d < 16 \<Longrightarrow> hex_digit_value (hex_digit d) = unat d"
proof -
  have "\<forall>k < 16. hex_digit_value (ascii ''0123456789ABCDEF'' ! k) = k" by code_simp
  then show "unat d < 16 \<Longrightarrow> hex_digit_value (hex_digit d) = unat d" by (simp add: hex_digit_def)
qed

lemma nibble_value: "unat (drop_bit k (num :: u32) AND 0xF) = unat num div 2 ^ k mod 16"
proof -
  have "drop_bit k num AND 0xF = take_bit 4 (drop_bit k num)"
    by (simp add: take_bit_eq_mask mask_eq_exp_minus_1)
  then show ?thesis
    by (simp only: unsigned_take_bit_eq unsigned_drop_bit_eq) (use unat_u32_bound [of num] in \<open>simp add: drop_bit_eq_div take_bit_eq_mod\<close>)
qed

lemma nibbles_sum:
  fixes m :: nat
  assumes "m < 4294967296"
  shows "((((((m div 2^28 mod 16 * 16 + m div 2^24 mod 16) * 16 + m div 2^20 mod 16) * 16
    + m div 2^16 mod 16) * 16 + m div 2^12 mod 16) * 16 + m div 2^8 mod 16) * 16 + m div 2^4 mod 16) * 16
    + m mod 16 = m"
proof -
  have step: "(m div 2 ^ (k + 4)) * 16 + m div 2 ^ k mod 16 = m div 2 ^ k" for k
    by (simp add: power_add div_mult2_eq)
  have top: "m div 2^28 mod 16 = m div 2^28" using assms by (simp add: less_mult_imp_div_less)
  show ?thesis unfolding top
    using step [of 24] step [of 20] step [of 16] step [of 12] step [of 8] step [of 4] step [of 0] by simp
qed

lemma hex_value_text: "hex_value (hex_text num) = unat num"
proof -
  have d: "hex_digit_value (hex_digit (drop_bit k num AND 0xF)) = unat num div 2 ^ k mod 16" for k
    by (subst hex_digit_value_digit) (simp_all add: nibble_value)
  show ?thesis
    using nibbles_sum [OF unat_u32_bound [of num]] d [of 0]
    by (simp only: hex_value_def hex_text_def list.map foldl.simps d) simp
qed

lemma length_hex_text: "length (hex_text num) = 8"
  by (simp add: hex_text_def)

text \<open>
  On a UART that becomes ready after finitely many polls, printing a number in hexadecimal
  returns, sends the prefix and eight digits, and the digits denote the number.
\<close>

theorem serial_print_hex_exact:
  assumes u: "uart io uart_ok sent pending tx_busy" and ok: "uart_ok (serial_hw s)"
  shows "\<exists>s'. serial_print_hex io num s = Some s' \<and> uart_ok (serial_hw s')
    \<and> sent (serial_hw s') = sent (serial_hw s) @ ascii ''0x'' @ hex_text num
    \<and> length (hex_text num) = 8 \<and> hex_value (hex_text num) = unat num"
proof -
  obtain s1 where 1: "serial_print io (ascii ''0x'') s = Some s1" "uart_ok (serial_hw s1)"
    "sent (serial_hw s1) = sent (serial_hw s) @ ascii ''0x''"
    using uart.serial_print_ok [OF u ok, of "ascii ''0x''"] by blast
  show ?thesis using uart.serial_print_ok [OF u 1(2), of "hex_text num"] 1
    by (auto simp: serial_print_hex_def hex_value_text length_hex_text)
qed

definition com1_state :: "u8 list \<Rightarrow> uart_model serial_state" where
  "com1_state rx = \<lparr>serial_ready = True, serial_hw = \<lparr>um_sent = [], um_pending = rx, um_busy = 5\<rparr>\<rparr>"

theorem serial_print_hex_exact_witness:
  "\<exists>s'. serial_print_hex uart_model_io 0xBEEF (com1_state []) = Some s'
     \<and> um_sent (serial_hw s') = ascii ''0x0000BEEF''"
proof -
  have "hex_text 0xBEEF = ascii ''0000BEEF''" by code_simp
  then show ?thesis
    using serial_print_hex_exact [OF com1.uart_axioms TrueI, where s = "com1_state []" and num = "0xBEEF"]
    by (auto simp: com1_state_def ascii_def)
qed

text \<open>
  Reading a line returns once the UART holds a CR or LF or enough bytes to fill the buffer:
  the line is what precedes the first CR or LF, cut to \<open>max_len - 1\<close> bytes, it is echoed byte for
  byte, and it always leaves room for the terminating NUL.
\<close>

theorem serial_read_line_exact:
  assumes u: "uart io uart_ok sent pending tx_busy" and ok: "uart_ok (serial_hw s)"
    and rx: "13 \<in> set (pending (serial_hw s)) \<or> 10 \<in> set (pending (serial_hw s))"
    and max: "1 \<le> max_len"
    and line: "line = take (nat (max_len - 1)) (takeWhile (\<lambda>c. c \<noteq> 13 \<and> c \<noteq> 10) (pending (serial_hw s)))"
  shows "\<exists>s'. serial_read_line io max_len s = Some (line, s') \<and> uart_ok (serial_hw s')
    \<and> sent (serial_hw s') = sent (serial_hw s) @ line \<and> int (length line) < max_len"
proof -
  have "int (length line) < max_len" using max unfolding line by simp
  with uart.read_line_ok [OF u ok, of "nat (max_len - 1)"] rx show ?thesis
    unfolding serial_read_line_def line by blast
qed

theorem serial_read_line_exact_witness:
  "\<exists>s'. serial_read_line uart_model_io 4 (com1_state (ascii ''dir'' @ [13])) = Some (ascii ''dir'', s')
     \<and> um_sent (serial_hw s') = ascii ''dir''"
  using serial_read_line_exact [OF com1.uart_axioms TrueI, where s = "com1_state (ascii ''dir'' @ [13])"
      and max_len = 4 and line = "ascii ''dir''"]
  by (auto simp: com1_state_def ascii_def)

end
