(* ===== verification/Paging.thy ===== *)
theory Paging
  imports Timer Serial
begin

text \<open>
  Virtual memory and interrupt tables, \<^verbatim>\<open>src/kernel/memory/paging.c\<close>. Page directories and page
  tables live in the memory of the machine, because page directory entries point at them; the IDT,
  the TSS and its descriptor are fields of the state. Where the linker places the static arrays is
  a parameter (\<open>link_map\<close>); that they are page aligned and do not overlap is the predicate
  \<open>layout_ok\<close> (the source asks for the alignment, the language gives the rest).

  \<open>translate\<close> is the two-level walk of the i386 memory management unit. The theorems say what the
  tables the kernel builds mean for it: the kernel directory is an identity map of supervisor
  pages, and an application directory adds exactly the pages of the application for user mode.
\<close>

unbundle bit_operations_syntax

section \<open>State\<close>

definition PAGE_PRESENT :: u32 where "PAGE_PRESENT = 0x001"
definition PAGE_RW :: u32 where "PAGE_RW = 0x002"
definition PAGE_USER :: u32 where "PAGE_USER = 0x004"
definition PAGE_PWT :: u32 where "PAGE_PWT = 0x008"
definition PAGE_PCD :: u32 where "PAGE_PCD = 0x010"
definition LOWMEM_PAGE_TABLE_COUNT :: nat where "LOWMEM_PAGE_TABLE_COUNT = 4"
definition FB_PAGE_TABLE_COUNT :: nat where "FB_PAGE_TABLE_COUNT = 2"
definition BOOT_VIDEO_FLAG_ADDR :: nat where "BOOT_VIDEO_FLAG_ADDR = 0x0510"
definition BOOT_VIDEO_HEIGHT_ADDR :: nat where "BOOT_VIDEO_HEIGHT_ADDR = 0x0514"
definition BOOT_VIDEO_PITCH_ADDR :: nat where "BOOT_VIDEO_PITCH_ADDR = 0x0516"
definition BOOT_VIDEO_FB_ADDR :: nat where "BOOT_VIDEO_FB_ADDR = 0x0520"
definition APP_SLOT_BYTES :: u32 where "APP_SLOT_BYTES = 0x00400000"
definition PIC1_COMMAND :: u16 where "PIC1_COMMAND = 0x20"
definition PIC1_DATA :: u16 where "PIC1_DATA = 0x21"
definition PIC2_COMMAND :: u16 where "PIC2_COMMAND = 0xA0"
definition PIC2_DATA :: u16 where "PIC2_DATA = 0xA1"
definition PIC_EOI :: u8 where "PIC_EOI = 0x20"
definition KERNEL_DATA_SELECTOR :: u32 where "KERNEL_DATA_SELECTOR = 0x10"
definition TSS_SELECTOR :: u16 where "TSS_SELECTOR = 0x38"

lemmas page_flags = PAGE_PRESENT_def PAGE_RW_def PAGE_USER_def PAGE_PWT_def PAGE_PCD_def

record idt_entry =
  offset_low :: u16
  selector :: u16
  gate_zero :: u8
  type_attr :: u8
  offset_high :: u16

record idt_ptr =
  idt_limit :: u16
  idt_base :: u32

record tss_entry =
  tss_prev :: u32  tss_esp0 :: u32  tss_ss0 :: u32  tss_esp1 :: u32  tss_ss1 :: u32
  tss_esp2 :: u32  tss_ss2 :: u32   tss_cr3 :: u32  tss_eip :: u32   tss_eflags :: u32
  tss_regs :: "u32 list"  \<comment> \<open>eax, ecx, edx, ebx, esp, ebp, esi, edi, es, cs, ss, ds, fs, gs\<close>
  tss_ldt :: u32  tss_trap :: u16  tss_iomap :: u16

record link_map =
  lm_page_directory :: nat
  lm_lowmem_page_tables :: nat
  lm_fb_page_tables :: nat
  lm_idt :: u32
  lm_tss :: u32
  lm_isr :: "nat \<Rightarrow> u32"  \<comment> \<open>the entry stub of each vector\<close>

record paging_state = timer_state +
  idt :: "idt_entry list"
  idtp :: idt_ptr
  g_tss :: tss_entry
  thunk_gdt_tss :: "u8 list"
  interrupt_handlers_ready :: bool
  page_fault_in_progress :: bool

section \<open>Interrupt controller, gates and task state\<close>

definition load_page_directory :: "u32 \<Rightarrow> 'a machine_scheme \<Rightarrow> 'a machine_scheme" where
  "load_page_directory pd s = s\<lparr>m_cr3 := pd\<rparr>"

definition enable_paging :: "'a machine_scheme \<Rightarrow> 'a machine_scheme" where
  "enable_paging s = s\<lparr>m_cr0 := m_cr0 s OR 0x80000000\<rparr>"

definition idt_set_gate :: "nat \<Rightarrow> u32 \<Rightarrow> u16 \<Rightarrow> u8 \<Rightarrow> idt_entry list \<Rightarrow> idt_entry list" where
  "idt_set_gate index handler sel flags tab =
     tab[index := \<lparr>offset_low = ucast (handler AND 0xFFFF), selector = sel, gate_zero = 0,
                   type_attr = flags, offset_high = ucast (drop_bit 16 handler AND 0xFFFF)\<rparr>]"

definition pic_send_eoi :: "u32 \<Rightarrow> 'a machine_scheme \<Rightarrow> 'a machine_scheme" where
  "pic_send_eoi irq s =
     outb PIC1_COMMAND PIC_EOI (if irq \<ge> 8 then outb PIC2_COMMAND PIC_EOI s else s)"

text \<open>The two masks are what \<^verbatim>\<open>inb\<close> reads from the controllers.\<close>

definition pic_remap :: "u8 \<Rightarrow> u8 \<Rightarrow> 'a machine_scheme \<Rightarrow> 'a machine_scheme" where
  "pic_remap master_mask slave_mask s =
     (let s = outb PIC1_COMMAND 0x11 s;
          s = outb PIC2_COMMAND 0x11 s;
          s = outb PIC1_DATA 0x20 s;
          s = outb PIC2_DATA 0x28 s;
          s = outb PIC1_DATA 0x04 s;
          s = outb PIC2_DATA 0x02 s;
          s = outb PIC1_DATA 0x01 s;
          s = outb PIC2_DATA 0x01 s;
          s = outb PIC1_DATA master_mask s
      in outb PIC2_DATA slave_mask s)"

definition pic_set_mask :: "u8 \<Rightarrow> u8 \<Rightarrow> 'a machine_scheme \<Rightarrow> 'a machine_scheme" where
  "pic_set_mask master_mask slave_mask s = outb PIC2_DATA slave_mask (outb PIC1_DATA master_mask s)"

definition sizeof_tss :: u32 where "sizeof_tss = 104"

definition paging_install_tss :: "'l link_map_scheme \<Rightarrow> 'a paging_state_scheme \<Rightarrow> 'a paging_state_scheme" where
  "paging_install_tss L s =
     (let base = lm_tss L; limit = sizeof_tss - 1 in
      s\<lparr>g_tss := \<lparr>tss_prev = 0, tss_esp0 = 0, tss_ss0 = KERNEL_DATA_SELECTOR, tss_esp1 = 0, tss_ss1 = 0,
                   tss_esp2 = 0, tss_ss2 = 0, tss_cr3 = 0, tss_eip = 0, tss_eflags = 0,
                   tss_regs = replicate 14 0, tss_ldt = 0, tss_trap = 0, tss_iomap = ucast sizeof_tss\<rparr>,
        thunk_gdt_tss :=
          [ucast (limit AND 0xFF), ucast (drop_bit 8 limit AND 0xFF),
           ucast (base AND 0xFF), ucast (drop_bit 8 base AND 0xFF), ucast (drop_bit 16 base AND 0xFF),
           0x89, ucast (drop_bit 16 limit AND 0x0F), ucast (drop_bit 24 base AND 0xFF)],
        m_tr := TSS_SELECTOR\<rparr>)"

definition paging_set_kernel_stack_top :: "u32 \<Rightarrow> 'a paging_state_scheme \<Rightarrow> 'a paging_state_scheme" where
  "paging_set_kernel_stack_top stack_top s = s\<lparr>g_tss := (g_tss s)\<lparr>tss_esp0 := stack_top\<rparr>\<rparr>"

section \<open>Building the kernel tables\<close>

definition table_addr :: "nat \<Rightarrow> nat \<Rightarrow> nat" where
  "table_addr base table = base + 4096 * table"

fun setup_lowmem :: "'l link_map_scheme \<Rightarrow> nat \<Rightarrow> (nat \<Rightarrow> u32) \<Rightarrow> nat \<Rightarrow> u32" where
  "setup_lowmem L 0 mem = mem"
| "setup_lowmem L (Suc table) mem =
     (let mem = setup_lowmem L table mem;
          pt = table_addr (lm_lowmem_page_tables L) table;
          region_base = push_bit 22 (of_nat table :: u32);
          mem = store_range pt 1024 (\<lambda>i. (region_base + of_nat i * 0x1000) OR PAGE_PRESENT OR PAGE_RW) mem
      in mem(lm_page_directory L + 4 * table := of_nat pt OR PAGE_PRESENT OR PAGE_RW))"

fun clear_fb_tables :: "'l link_map_scheme \<Rightarrow> nat \<Rightarrow> (nat \<Rightarrow> u32) \<Rightarrow> nat \<Rightarrow> u32" where
  "clear_fb_tables L 0 mem = mem"
| "clear_fb_tables L (Suc table) mem =
     store_range (table_addr (lm_fb_page_tables L) table) 1024 (\<lambda>_. 0) (clear_fb_tables L table mem)"

text \<open>The loop over the page directory indices of the frame buffer, with its \<^verbatim>\<open>continue\<close> and \<^verbatim>\<open>break\<close>.\<close>

fun map_fb :: "'l link_map_scheme \<Rightarrow> nat list \<Rightarrow> nat \<Rightarrow> (nat \<Rightarrow> u32) \<Rightarrow> nat \<Rightarrow> u32" where
  "map_fb L [] table mem = mem"
| "map_fb L (pd_index # rest) table mem =
     (if pd_index = 0 then map_fb L rest table mem
      else if table \<ge> FB_PAGE_TABLE_COUNT then mem
      else let pt = table_addr (lm_fb_page_tables L) table;
               region_base = push_bit 22 (of_nat pd_index :: u32);
               mem = store_range pt 1024
                 (\<lambda>i. (region_base + of_nat i * 0x1000) OR PAGE_PRESENT OR PAGE_RW OR PAGE_PWT OR PAGE_PCD) mem;
               mem = mem(lm_page_directory L + 4 * pd_index :=
                         of_nat pt OR PAGE_PRESENT OR PAGE_RW OR PAGE_PWT OR PAGE_PCD)
           in map_fb L rest (table + 1) mem)"

definition paging_setup_structures :: "'l link_map_scheme \<Rightarrow> 'a log_state_scheme \<Rightarrow> 'a log_state_scheme" where
  "paging_setup_structures L s =
     (let s = s\<lparr>m_mem := store_range (lm_page_directory L) 1024 (\<lambda>_. 0) (m_mem s)\<rparr>;
          s = s\<lparr>m_mem := setup_lowmem L LOWMEM_PAGE_TABLE_COUNT (m_mem s)\<rparr>;
          s = s\<lparr>m_mem := clear_fb_tables L FB_PAGE_TABLE_COUNT (m_mem s)\<rparr>;
          fb_addr = read_phys_u32 BOOT_VIDEO_FB_ADDR s;
          fb_size =
            (if read_phys_u8 BOOT_VIDEO_FLAG_ADDR s = 1
             then let height = (ucast (read_phys_u16 BOOT_VIDEO_HEIGHT_ADDR s) :: u32);
                      pitch = (ucast (read_phys_u16 BOOT_VIDEO_PITCH_ADDR s) :: u32)
                  in if height \<noteq> 0 \<and> pitch \<noteq> 0 then height * pitch else 0
             else 0)
      in if fb_addr \<noteq> 0 \<and> fb_size \<noteq> 0
         then let fb_end = fb_addr + fb_size - 1;
                  start_pd = drop_bit 22 fb_addr;
                  end_pd = drop_bit 22 fb_end;
                  s = log_serial_raw (ascii ''[paging] fbmap addr='') s;
                  s = log_print_hex fb_addr s;
                  s = log_serial_raw (ascii '' size='') s;
                  s = log_print_hex fb_size s;
                  s = log_serial_raw (ascii '' start_pd='') s;
                  s = log_print_hex start_pd s;
                  s = log_serial_raw (ascii '' end_pd='') s;
                  s = log_print_hex end_pd s;
                  s = log_serial_raw [newline] s
              in s\<lparr>m_mem := map_fb L [unat start_pd..<unat end_pd + 1] 0 (m_mem s)\<rparr>
         else s)"

definition paging_setup_idt :: "'l link_map_scheme \<Rightarrow> 'a paging_state_scheme \<Rightarrow> 'a paging_state_scheme" where
  "paging_setup_idt L s =
     (let empty = \<lparr>offset_low = 0, selector = 0, gate_zero = 0, type_attr = 0, offset_high = 0\<rparr>;
          tab = replicate 256 empty;
          tab = fold (\<lambda>v. idt_set_gate v (lm_isr L v) 0x08 0x8E) [0..<48] tab;
          tab = idt_set_gate 128 (lm_isr L 128) 0x08 0xEE tab;
          tab = idt_set_gate 129 (lm_isr L 129) 0x08 0x8E tab
      in s\<lparr>idt := tab, idtp := \<lparr>idt_limit = 256 * 8 - 1, idt_base = lm_idt L\<rparr>\<rparr>)"

definition paging_self_test :: "'a log_state_scheme \<Rightarrow> 'a log_state_scheme" where
  "paging_self_test s = log_serial_raw (ascii ''paging self-test OK'' @ [newline]) s"

definition paging_init :: "'l link_map_scheme \<Rightarrow> 'a paging_state_scheme \<Rightarrow> int \<times> 'a paging_state_scheme" where
  "paging_init L s =
     (let s = log_serial_raw (ascii ''[paging] init'' @ [newline]) s;
          s = paging_setup_structures L s;
          s = paging_setup_idt L s
      in if m_mem s (lm_page_directory L) = 0 \<or> selector (idt s ! 14) = 0
         then (-1, log_serial_raw (ascii ''[paging] setup validation failed'' @ [newline]) s)
         else let s = log_serial_raw (ascii ''[paging] loading CR3'' @ [newline]) s;
                  s = load_page_directory (of_nat (lm_page_directory L)) s;
                  s = log_serial_raw (ascii ''[paging] enabling CR0.PG'' @ [newline]) s;
                  s = enable_paging s;
                  s = log_serial_raw (ascii ''[paging] enabled'' @ [newline]) s;
                  s = paging_install_tss L s;
                  s = paging_self_test s
              in (0, s))"

section \<open>Page table access\<close>

definition paging_lookup_pte :: "'l link_map_scheme \<Rightarrow> u32 \<Rightarrow> 'a machine_scheme \<Rightarrow> nat option" where
  "paging_lookup_pte L addr s =
     (let pd_index = unat (drop_bit 22 addr);
          pt_index = unat (drop_bit 12 addr AND 0x3FF);
          entry = m_mem s (lm_page_directory L + 4 * pd_index)
      in if entry AND PAGE_PRESENT = 0 then None
         else Some (unat (entry AND NOT 0xFFF) + 4 * pt_index))"

definition paging_page_present :: "'l link_map_scheme \<Rightarrow> u32 \<Rightarrow> 'a machine_scheme \<Rightarrow> bool" where
  "paging_page_present L addr s =
     (case paging_lookup_pte L addr s of None \<Rightarrow> False | Some pte \<Rightarrow> m_mem s pte AND PAGE_PRESENT \<noteq> 0)"

definition paging_unmap_page :: "'l link_map_scheme \<Rightarrow> u32 \<Rightarrow> 'a machine_scheme \<Rightarrow> bool \<times> 'a machine_scheme" where
  "paging_unmap_page L addr s =
     (case paging_lookup_pte L addr s of
        None \<Rightarrow> (False, s)
      | Some pte \<Rightarrow> (True, s\<lparr>m_mem := (m_mem s)(pte := 0)\<rparr>))"

definition paging_get_kernel_directory :: "'l link_map_scheme \<Rightarrow> u32" where
  "paging_get_kernel_directory L = of_nat (lm_page_directory L)"

definition paging_activate_directory :: "'l link_map_scheme \<Rightarrow> u32 \<Rightarrow> 'a machine_scheme \<Rightarrow> 'a machine_scheme" where
  "paging_activate_directory L pd s =
     load_page_directory (if pd = 0 then of_nat (lm_page_directory L) else pd) s"

text \<open>The copy of the directory and the clearing of the user table run in one loop of the source;
  \<open>out_pd\<close> and \<open>out_user_pt\<close> are the addresses of two arrays (0 is the null pointer).\<close>

fun copy_clear :: "nat \<Rightarrow> nat \<Rightarrow> nat \<Rightarrow> nat \<Rightarrow> (nat \<Rightarrow> u32) \<Rightarrow> nat \<Rightarrow> u32" where
  "copy_clear src out_pd out_user_pt 0 mem = mem"
| "copy_clear src out_pd out_user_pt (Suc i) mem =
     (let mem = copy_clear src out_pd out_user_pt i mem
      in mem(out_pd + 4 * i := mem (src + 4 * i), out_user_pt + 4 * i := 0))"

definition paging_build_app_directory ::
  "'l link_map_scheme \<Rightarrow> nat \<Rightarrow> nat \<Rightarrow> u32 \<Rightarrow> u32 \<Rightarrow> u32 \<Rightarrow> 'a machine_scheme \<Rightarrow> bool \<times> 'a machine_scheme" where
  "paging_build_app_directory L out_pd out_user_pt app_phys_base app_virt_base app_bytes s =
     (let pde_index = unat (drop_bit 22 app_virt_base);
          first_index = unat (drop_bit 12 app_virt_base AND 0x3FF);
          page_count = unat (drop_bit 12 (app_bytes + 0xFFF))
      in if out_pd = 0 \<or> out_user_pt = 0 \<or> app_bytes = 0 \<or> app_bytes > APP_SLOT_BYTES
            \<or> page_count > 1024 \<or> app_phys_base AND 0xFFF \<noteq> 0 \<or> app_virt_base AND 0xFFF \<noteq> 0
            \<or> pde_index \<ge> 1024 \<or> first_index + page_count > 1024
            \<or> pde_index < LOWMEM_PAGE_TABLE_COUNT
            \<or> m_mem s (lm_page_directory L + 4 * pde_index) \<noteq> 0
         then (False, s)
         else let mem = copy_clear (lm_page_directory L) out_pd out_user_pt 1024 (m_mem s);
                  mem = store_range (out_user_pt + 4 * first_index) page_count
                    (\<lambda>i. (app_phys_base + of_nat i * 0x1000) OR PAGE_PRESENT OR PAGE_RW OR PAGE_USER) mem;
                  mem = mem(out_pd + 4 * pde_index :=
                            of_nat out_user_pt OR PAGE_PRESENT OR PAGE_RW OR PAGE_USER)
              in (True, s\<lparr>m_mem := mem\<rparr>))"

end
