(* ===== verification/Scheduler.thy ===== *)
theory Scheduler
  imports Paging
begin

text \<open>
  The process table and the preemptive scheduler, \<^verbatim>\<open>src/kernel/process/scheduler.c\<close> with the types of
  \<^verbatim>\<open>process.h\<close> and \<^verbatim>\<open>scheduler.h\<close>. The state extends the paging state, because a switch loads CR3 and
  the ring-0 stack of the TSS, and a new thread has its first interrupt frame written to memory.

  Conventions. Pointers are 32-bit words with 0 for the null pointer; \<open>p_name\<close> and \<open>p_origin_name\<close> are
  the text the pointer refers to, always the storage inside the slot. An interrupt handler that returns a
  frame pointer returns 0 to resume the interrupted code. Code addresses chosen by the linker are in
  \<open>sched_link\<close>. \<^verbatim>\<open>int $0x81\<close> pushes a frame and calls \<open>scheduler_on_yield\<close> with its address, which is a
  parameter of the operations that yield.
\<close>

unbundle bit_operations_syntax

section \<open>State\<close>

definition SCHEDULER_MAX_PROCESSES :: nat where "SCHEDULER_MAX_PROCESSES = 8"
definition SCHED_BOOT_PID :: nat where "SCHED_BOOT_PID = 0"
definition SCHED_IDLE_PID :: nat where "SCHED_IDLE_PID = 1"
definition SCHED_STACK_PAGE_SIZE :: u32 where "SCHED_STACK_PAGE_SIZE = 4096"
definition SCHED_STACK_BYTES :: u32 where "SCHED_STACK_BYTES = 65536"
definition SCHED_GUARD_BYTES :: u32 where "SCHED_GUARD_BYTES = 4096"
definition SCHED_STACK_REGION_BYTES :: u32 where
  "SCHED_STACK_REGION_BYTES = SCHED_GUARD_BYTES + SCHED_STACK_BYTES"
definition SCHED_STACK_ARENA_BASE :: u32 where "SCHED_STACK_ARENA_BASE = 0x00600000"
definition SCHED_DEFAULT_QUANTUM :: u32 where "SCHED_DEFAULT_QUANTUM = 5"
definition KERNEL_CODE_SELECTOR :: u32 where "KERNEL_CODE_SELECTOR = 0x08"
definition USER_CODE_SELECTOR :: u32 where "USER_CODE_SELECTOR = 0x2B"
definition USER_DATA_SELECTOR :: u32 where "USER_DATA_SELECTOR = 0x33"
definition SCHED_EXTERNAL_PID_MIN :: nat where "SCHED_EXTERNAL_PID_MIN = 3"

lemmas sched_consts = SCHEDULER_MAX_PROCESSES_def SCHED_BOOT_PID_def SCHED_IDLE_PID_def SCHED_EXTERNAL_PID_MIN_def

lemmas stack_consts = SCHED_STACK_PAGE_SIZE_def SCHED_STACK_BYTES_def SCHED_GUARD_BYTES_def
  SCHED_STACK_REGION_BYTES_def SCHED_STACK_ARENA_BASE_def

datatype process_state_t =
  PROCESS_UNUSED | PROCESS_READY | PROCESS_RUNNING | PROCESS_BLOCKED | PROCESS_TERMINATED

record process_context =
  irq_frame :: u32
  user_esp :: u32
  kernel_stack_base :: u32
  kernel_stack_top :: u32
  user_stack_base :: u32
  user_stack_top :: u32
  guard_page_base :: u32
  page_directory :: u32

record process =
  p_pid :: int
  p_name :: "cstr option"
  p_origin_name :: "cstr option"
  p_origin_is_executable :: bool
  p_state :: process_state_t
  p_context :: process_context
  p_wake_tick :: u32
  p_runtime_ticks :: u32
  p_switch_count :: u32
  p_thread_entry :: u32
  p_thread_arg :: u32

record snapshot =
  sn_pid :: int
  sn_name :: "cstr option"
  sn_origin_name :: "cstr option"
  sn_origin_is_executable :: bool
  sn_state :: process_state_t
  sn_is_current :: bool
  sn_wake_tick :: u32
  sn_runtime_ticks :: u32
  sn_switch_count :: u32
  sn_kernel_stack_base :: u32
  sn_kernel_stack_top :: u32
  sn_guard_page_base :: u32

record sched_state = paging_state +
  g_slots :: "process list"
  g_current :: int
  g_runtime_ready :: bool
  g_preemption_enabled :: bool
  g_quantum_ticks :: u32
  g_slice_ticks_left :: u32

record sched_link = link_map +
  lm_thread_bootstrap :: u32
  lm_thread_exit_trampoline :: u32
  lm_idle_thread :: u32

definition process_state_name :: "process_state_t \<Rightarrow> cstr" where
  "process_state_name st = (case st of
     PROCESS_UNUSED \<Rightarrow> ascii ''unused''
   | PROCESS_READY \<Rightarrow> ascii ''ready''
   | PROCESS_RUNNING \<Rightarrow> ascii ''running''
   | PROCESS_BLOCKED \<Rightarrow> ascii ''blocked''
   | PROCESS_TERMINATED \<Rightarrow> ascii ''terminated'')"

definition slot_at :: "nat \<Rightarrow> 'a sched_state_scheme \<Rightarrow> process" where
  "slot_at idx s = g_slots s ! idx"

definition upd_slot :: "nat \<Rightarrow> (process \<Rightarrow> process) \<Rightarrow> 'a sched_state_scheme \<Rightarrow> 'a sched_state_scheme" where
  "upd_slot idx f s = s\<lparr>g_slots := (g_slots s)[idx := f (g_slots s ! idx)]\<rparr>"

section \<open>Slots\<close>

text \<open>\<^verbatim>\<open>sched_copy_text\<close> into a buffer of \<open>n\<close> bytes: the text that ends up in it.\<close>

definition sched_copy_text :: "cstr option \<Rightarrow> nat \<Rightarrow> cstr" where
  "sched_copy_text src n = (case src of None \<Rightarrow> [] | Some t \<Rightarrow> take (n - 1) t)"

definition sched_set_slot_name :: "cstr option \<Rightarrow> process \<Rightarrow> process" where
  "sched_set_slot_name name p =
     p\<lparr>p_name := Some (sched_copy_text
        (case name of Some n \<Rightarrow> if n \<noteq> [] then Some n else Some (ascii ''unknown'')
         | None \<Rightarrow> Some (ascii ''unknown'')) 24)\<rparr>"

definition sched_set_slot_origin :: "cstr option \<Rightarrow> bool \<Rightarrow> process \<Rightarrow> process" where
  "sched_set_slot_origin origin_name is_executable p =
     (if origin_name = None \<or> origin_name = Some []
      then p\<lparr>p_origin_name := None, p_origin_is_executable := False\<rparr>
      else p\<lparr>p_origin_name := Some (sched_copy_text origin_name 24),
             p_origin_is_executable := is_executable\<rparr>)"

definition sched_mem_zero :: "u32 \<Rightarrow> u32 \<Rightarrow> 'a machine_scheme \<Rightarrow> 'a machine_scheme" where
  "sched_mem_zero dst n s =
     s\<lparr>m_mem := store_range (unat dst) (unat n div 4) (\<lambda>_. 0) (m_mem s)\<rparr>"

definition sched_slot_guard_base :: "nat \<Rightarrow> u32" where
  "sched_slot_guard_base idx = SCHED_STACK_ARENA_BASE + (of_nat idx - 1) * SCHED_STACK_REGION_BYTES"

definition sched_log_marker :: "cstr \<Rightarrow> cstr option \<Rightarrow> 'a log_state_scheme \<Rightarrow> 'a log_state_scheme" where
  "sched_log_marker marker detail s =
     (let s = log_serial_raw marker s;
          s = (case detail of None \<Rightarrow> s | Some d \<Rightarrow> log_serial_raw d s)
      in log_serial_raw [newline] s)"

definition sched_mark_terminated :: "'l sched_link_scheme \<Rightarrow> process \<Rightarrow> process" where
  "sched_mark_terminated L p =
     p\<lparr>p_state := PROCESS_TERMINATED, p_wake_tick := 0, p_thread_entry := 0, p_thread_arg := 0,
       p_context := (p_context p)\<lparr>user_esp := 0, page_directory := paging_get_kernel_directory L\<rparr>\<rparr>"

definition reset_process :: "'l sched_link_scheme \<Rightarrow> nat \<Rightarrow> cstr option \<Rightarrow> process_state_t \<Rightarrow> process \<Rightarrow> process" where
  "reset_process L idx name st p =
     (let p = p\<lparr>p_pid := int idx, p_state := st,
               p_context := (p_context p)\<lparr>irq_frame := 0, user_esp := 0, user_stack_base := 0,
                 user_stack_top := 0, page_directory := paging_get_kernel_directory L\<rparr>,
               p_wake_tick := 0, p_runtime_ticks := 0, p_switch_count := 0,
               p_thread_entry := 0, p_thread_arg := 0\<rparr>;
          p = sched_set_slot_name name p;
          p = sched_set_slot_origin None False p
      in if idx = SCHED_BOOT_PID
         then p\<lparr>p_context := (p_context p)\<lparr>kernel_stack_base := 0, kernel_stack_top := 0, guard_page_base := 0\<rparr>\<rparr>
         else p\<lparr>p_context := (p_context p)\<lparr>
                guard_page_base := sched_slot_guard_base idx,
                kernel_stack_base := sched_slot_guard_base idx + SCHED_GUARD_BYTES,
                kernel_stack_top := sched_slot_guard_base idx + SCHED_STACK_REGION_BYTES\<rparr>\<rparr>)"

definition sched_reset_slot ::
  "'l sched_link_scheme \<Rightarrow> nat \<Rightarrow> cstr option \<Rightarrow> process_state_t \<Rightarrow> 'a sched_state_scheme \<Rightarrow> 'a sched_state_scheme" where
  "sched_reset_slot L idx name st s = upd_slot idx (reset_process L idx name st) s"

fun guard_pages_loop :: "'l sched_link_scheme \<Rightarrow> nat list \<Rightarrow> 'a sched_state_scheme \<Rightarrow> bool \<times> 'a sched_state_scheme" where
  "guard_pages_loop L [] s = (True, s)"
| "guard_pages_loop L (idx # rest) s =
     (let guard_addr = guard_page_base (p_context (slot_at idx s));
          stack_addr = kernel_stack_base (p_context (slot_at idx s))
      in if guard_addr = 0 \<or> stack_addr = 0 then (False, s)
      else case paging_unmap_page L guard_addr s of (ok, s) \<Rightarrow>
      if \<not> ok then (False, s)
      else if paging_page_present L guard_addr s then (False, s)
      else if \<not> paging_page_present L stack_addr s
              \<or> \<not> paging_page_present L (stack_addr + SCHED_STACK_PAGE_SIZE) s then (False, s)
      else guard_pages_loop L rest s)"

text \<open>\<open>True\<close> is the return value 0 of the source, \<open>False\<close> is -1.\<close>

definition sched_guard_pages_init :: "'l sched_link_scheme \<Rightarrow> 'a sched_state_scheme \<Rightarrow> bool \<times> 'a sched_state_scheme" where
  "sched_guard_pages_init L s = guard_pages_loop L [SCHED_IDLE_PID..<SCHEDULER_MAX_PROCESSES] s"

section \<open>Threads\<close>

text \<open>The seventeen words of \<^verbatim>\<open>irq_frame_t\<close> for a fresh kernel thread: gs, fs, es, ds, edi, esi, ebp, esp,
  ebx, edx, ecx, eax, vector, error code, eip, cs, eflags.\<close>

definition sizeof_irq_frame :: u32 where "sizeof_irq_frame = 68"

definition fresh_frame :: "'l sched_link_scheme \<Rightarrow> u32 list" where
  "fresh_frame L =
     [KERNEL_DATA_SELECTOR, KERNEL_DATA_SELECTOR, KERNEL_DATA_SELECTOR, KERNEL_DATA_SELECTOR,
      0, 0, 0, 0, 0, 0, 0, 0, 0, 0, lm_thread_bootstrap L, KERNEL_CODE_SELECTOR, EFLAGS_IF OR 0x2]"

definition sched_prepare_kernel_thread ::
  "'l sched_link_scheme \<Rightarrow> nat \<Rightarrow> u32 \<Rightarrow> u32 \<Rightarrow> 'a sched_state_scheme \<Rightarrow> 'a sched_state_scheme" where
  "sched_prepare_kernel_thread L idx entry arg s =
     (let ctx = p_context (slot_at idx s);
          stack_top = kernel_stack_top ctx;
          s = sched_mem_zero (kernel_stack_base ctx) SCHED_STACK_BYTES s;
          s = upd_slot idx (\<lambda>p. p\<lparr>p_thread_entry := entry, p_thread_arg := arg\<rparr>) s;
          s = store_word (unat (stack_top - 4)) (lm_thread_exit_trampoline L) s;
          frame = stack_top - 4 - sizeof_irq_frame;
          s = s\<lparr>m_mem := store_range (unat frame) 17 (\<lambda>i. fresh_frame L ! i) (m_mem s)\<rparr>
      in upd_slot idx (\<lambda>p. p\<lparr>p_context := (p_context p)\<lparr>irq_frame := frame\<rparr>\<rparr>) s)"

text \<open>Searches return \<open>None\<close> where the source returns -1.\<close>

definition sched_find_free_slot_from :: "nat \<Rightarrow> 'a sched_state_scheme \<Rightarrow> nat option" where
  "sched_find_free_slot_from first_pid s =
     find (\<lambda>idx. p_state (slot_at idx s) = PROCESS_UNUSED \<or> p_state (slot_at idx s) = PROCESS_TERMINATED)
       [max first_pid (SCHED_IDLE_PID + 1)..<SCHEDULER_MAX_PROCESSES]"

definition sched_find_ready_non_idle :: "'a sched_state_scheme \<Rightarrow> nat option" where
  "sched_find_ready_non_idle s =
     (if g_current s < 0 then None
      else find (\<lambda>idx. idx \<noteq> SCHED_IDLE_PID \<and> p_state (slot_at idx s) = PROCESS_READY)
        (map (\<lambda>step. (nat (g_current s) + step) mod SCHEDULER_MAX_PROCESSES) [1..<SCHEDULER_MAX_PROCESSES]))"

definition sched_pick_next :: "'a sched_state_scheme \<Rightarrow> nat option" where
  "sched_pick_next s =
     (case sched_find_ready_non_idle s of
        Some nxt \<Rightarrow> Some nxt
      | None \<Rightarrow>
        if g_current s \<ge> 0 \<and> p_state (slot_at (nat (g_current s)) s) = PROCESS_RUNNING
        then Some (nat (g_current s))
        else if p_state (slot_at SCHED_IDLE_PID s) = PROCESS_READY
             \<or> p_state (slot_at SCHED_IDLE_PID s) = PROCESS_RUNNING
        then Some SCHED_IDLE_PID else None)"

definition sched_activate_slot ::
  "'l sched_link_scheme \<Rightarrow> nat \<Rightarrow> 'a sched_state_scheme \<Rightarrow> u32 \<times> 'a sched_state_scheme" where
  "sched_activate_slot L nxt s =
     (let s = upd_slot nxt (\<lambda>p. p\<lparr>p_state := PROCESS_RUNNING, p_switch_count := p_switch_count p + 1\<rparr>) s;
          s = s\<lparr>g_current := int nxt, g_slice_ticks_left := g_quantum_ticks s\<rparr>;
          ctx = p_context (slot_at nxt s);
          s = paging_activate_directory L (page_directory ctx) s;
          s = paging_set_kernel_stack_top (kernel_stack_top ctx) s
      in (irq_frame ctx, s))"

definition current_ok :: "'a sched_state_scheme \<Rightarrow> bool" where
  "current_ok s \<longleftrightarrow> \<not> (g_current s < 0 \<or> g_current s \<ge> int SCHEDULER_MAX_PROCESSES)"

definition sched_switch_from_frame ::
  "'l sched_link_scheme \<Rightarrow> u32 \<Rightarrow> 'a sched_state_scheme \<Rightarrow> u32 \<times> 'a sched_state_scheme" where
  "sched_switch_from_frame L frame s =
     (if \<not> current_ok s then (0, s)
      else let cur = nat (g_current s);
               s = upd_slot cur (\<lambda>p. p\<lparr>p_context := (p_context p)\<lparr>irq_frame := frame\<rparr>\<rparr>) s
      in case sched_pick_next s of
           None \<Rightarrow> (0, if p_state (slot_at cur s) = PROCESS_READY
                       then upd_slot cur (\<lambda>p. p\<lparr>p_state := PROCESS_RUNNING\<rparr>) s else s)
         | Some nxt \<Rightarrow>
           if int nxt = g_current s
           then (0, if p_state (slot_at cur s) = PROCESS_READY
                    then upd_slot cur (\<lambda>p. p\<lparr>p_state := PROCESS_RUNNING\<rparr>) s else s)
           else sched_activate_slot L nxt
             (if p_state (slot_at cur s) = PROCESS_RUNNING
              then upd_slot cur (\<lambda>p. p\<lparr>p_state := PROCESS_READY\<rparr>) s else s))"

definition wake_process :: "u32 \<Rightarrow> process \<Rightarrow> process" where
  "wake_process now p =
     (if p_state p \<noteq> PROCESS_BLOCKED then p
      else if now - p_wake_tick p \<ge> 0x80000000 then p
      else p\<lparr>p_wake_tick := 0, p_state := PROCESS_READY\<rparr>)"

definition sched_wake_sleepers :: "u32 \<Rightarrow> 'a sched_state_scheme \<Rightarrow> 'a sched_state_scheme" where
  "sched_wake_sleepers now s =
     fold (\<lambda>idx. upd_slot idx (wake_process now)) [SCHED_BOOT_PID..<SCHEDULER_MAX_PROCESSES] s"

text \<open>\<open>name\<close> is \<open>None\<close> and \<open>entry\<close> is 0 for null pointers.\<close>

definition sched_spawn_kernel_thread_internal ::
  "'l sched_link_scheme \<Rightarrow> cstr option \<Rightarrow> cstr option \<Rightarrow> bool \<Rightarrow> u32 \<Rightarrow> u32 \<Rightarrow> u32 \<Rightarrow> nat \<Rightarrow>
   'a sched_state_scheme \<Rightarrow> nat option \<times> 'a sched_state_scheme" where
  "sched_spawn_kernel_thread_internal L name origin_name origin_is_executable entry arg pdir first_pid s =
     (let irqs = irqs_on s;
          s = cli s
      in case sched_find_free_slot_from first_pid s of
           None \<Rightarrow> (None, if irqs then sti s else s)
         | Some idx \<Rightarrow>
           if name = None \<or> entry = 0 then (None, if irqs then sti s else s)
           else let s = sched_reset_slot L idx name PROCESS_BLOCKED s;
                    s = (if pdir \<noteq> 0
                         then upd_slot idx (\<lambda>p. p\<lparr>p_context := (p_context p)\<lparr>page_directory := pdir\<rparr>\<rparr>) s else s);
                    s = upd_slot idx (sched_set_slot_origin origin_name origin_is_executable) s;
                    s = sched_prepare_kernel_thread L idx entry arg s;
                    s = upd_slot idx (\<lambda>p. p\<lparr>p_state := PROCESS_READY\<rparr>) s
                in (Some idx, if irqs then sti s else s))"

section \<open>The interface of the scheduler\<close>

definition scheduler_init_timer :: "u32 \<Rightarrow> 'a sched_state_scheme \<Rightarrow> 'a sched_state_scheme" where
  "scheduler_init_timer hz s = timer_init hz s"

definition scheduler_runtime_init :: "'l sched_link_scheme \<Rightarrow> 'a sched_state_scheme \<Rightarrow> bool \<times> 'a sched_state_scheme" where
  "scheduler_runtime_init L s =
     (if g_runtime_ready s then (True, s)
      else let s = fold (\<lambda>idx. sched_reset_slot L idx (Some (ascii ''unused'')) PROCESS_UNUSED)
                     [0..<SCHEDULER_MAX_PROCESSES] s;
               s = sched_reset_slot L SCHED_BOOT_PID (Some (ascii ''kernel'')) PROCESS_RUNNING s;
               s = sched_reset_slot L SCHED_IDLE_PID (Some (ascii ''idle'')) PROCESS_READY s
      in case sched_guard_pages_init L s of (ok, s) \<Rightarrow>
      if \<not> ok then (False, s)
      else let s = sched_prepare_kernel_thread L SCHED_IDLE_PID (lm_idle_thread L) 0 s;
               s = s\<lparr>g_current := int SCHED_BOOT_PID, g_runtime_ready := True,
                     g_quantum_ticks := SCHED_DEFAULT_QUANTUM, g_slice_ticks_left := SCHED_DEFAULT_QUANTUM\<rparr>;
               ctx = p_context (slot_at SCHED_BOOT_PID s);
               s = paging_activate_directory L (page_directory ctx) s;
               s = paging_set_kernel_stack_top (kernel_stack_top ctx) s;
               s = sched_log_marker (ascii ''SCHED100'') (Some (ascii '' runtime-init'')) s;
               s = sched_log_marker (ascii ''SCHED110'') (Some (ascii '' guarded-kstacks-armed'')) s;
               s = log_serial_raw (ascii ''[sched] runtime initialized with guarded kernel stacks'' @ [newline]) s
           in (True, s))"

definition scheduler_enable_preemption :: "u32 \<Rightarrow> 'a sched_state_scheme \<Rightarrow> 'a sched_state_scheme" where
  "scheduler_enable_preemption quantum_ticks s =
     (let q = (if quantum_ticks = 0 then SCHED_DEFAULT_QUANTUM else quantum_ticks)
      in log_serial_raw (ascii ''[sched] preemption enabled'' @ [newline])
           (s\<lparr>g_quantum_ticks := q, g_slice_ticks_left := q, g_preemption_enabled := True\<rparr>))"

definition scheduler_disable_preemption :: "'a sched_state_scheme \<Rightarrow> 'a sched_state_scheme" where
  "scheduler_disable_preemption s =
     log_serial_raw (ascii ''[sched] preemption disabled'' @ [newline])
       (s\<lparr>g_preemption_enabled := False, g_slice_ticks_left := g_quantum_ticks s\<rparr>)"

definition scheduler_on_timer_tick ::
  "'l sched_link_scheme \<Rightarrow> u32 \<Rightarrow> 'a sched_state_scheme \<Rightarrow> u32 \<times> 'a sched_state_scheme" where
  "scheduler_on_timer_tick L frame s =
     (let s = timer_on_tick s in
      if frame = 0 \<or> \<not> g_runtime_ready s \<or> \<not> current_ok s then (0, s)
      else let s = upd_slot (nat (g_current s)) (\<lambda>p. p\<lparr>p_runtime_ticks := p_runtime_ticks p + 1\<rparr>) s;
               s = sched_wake_sleepers (timer_get_ticks s) s;
               forced_next = (if g_current s = int SCHED_IDLE_PID then sched_find_ready_non_idle s else None)
      in if \<not> g_preemption_enabled s \<or> g_quantum_ticks s = 0
         then (if forced_next \<noteq> None then sched_switch_from_frame L frame s else (0, s))
         else let s = (if forced_next = None \<and> g_slice_ticks_left s > 0
                       then s\<lparr>g_slice_ticks_left := g_slice_ticks_left s - 1\<rparr> else s)
         in if forced_next = None \<and> g_slice_ticks_left s > 0 then (0, s)
            else sched_switch_from_frame L frame (s\<lparr>g_slice_ticks_left := g_quantum_ticks s\<rparr>))"

definition scheduler_on_yield ::
  "'l sched_link_scheme \<Rightarrow> u32 \<Rightarrow> 'a sched_state_scheme \<Rightarrow> u32 \<times> 'a sched_state_scheme" where
  "scheduler_on_yield L frame s =
     (if frame = 0 \<or> \<not> g_runtime_ready s \<or> \<not> current_ok s then (0, s)
      else sched_switch_from_frame L frame s)"

definition scheduler_yield ::
  "'l sched_link_scheme \<Rightarrow> u32 \<Rightarrow> 'a sched_state_scheme \<Rightarrow> u32 \<times> 'a sched_state_scheme" where
  "scheduler_yield L frame s = (if \<not> g_runtime_ready s then (0, s) else scheduler_on_yield L frame s)"

text \<open>The part of \<^verbatim>\<open>scheduler_sleep_ticks\<close> before the yield; interrupts may arrive in between.\<close>

definition sleep_block :: "u32 \<Rightarrow> 'a sched_state_scheme \<Rightarrow> 'a sched_state_scheme" where
  "sleep_block ticks s =
     upd_slot (nat (g_current s))
       (\<lambda>p. p\<lparr>p_wake_tick := timer_get_ticks s + ticks, p_state := PROCESS_BLOCKED\<rparr>) s"

definition scheduler_sleep_ticks ::
  "'l sched_link_scheme \<Rightarrow> u32 \<Rightarrow> u32 \<Rightarrow> 'a sched_state_scheme \<Rightarrow> u32 \<times> 'a sched_state_scheme" where
  "scheduler_sleep_ticks L frame ticks s =
     (if \<not> g_runtime_ready s \<or> \<not> current_ok s then (0, s)
      else if ticks = 0 then scheduler_yield L frame s
      else scheduler_yield L frame (sleep_block ticks s))"

text \<open>Exit does not return: \<open>Some f\<close> resumes the frame \<open>f\<close> of another thread, \<open>None\<close> is the halt after
  an unexpected return of the yield.\<close>

definition sched_exit_current ::
  "'l sched_link_scheme \<Rightarrow> u32 \<Rightarrow> 'a sched_state_scheme \<Rightarrow> u32 option \<times> 'a sched_state_scheme" where
  "sched_exit_current L frame s =
     (let s = (if current_ok s then upd_slot (nat (g_current s)) (sched_mark_terminated L) s else s)
      in case scheduler_yield L frame s of (f, s) \<Rightarrow>
         if f = 0 then (None, log_serial_raw (ascii ''[sched] unexpected return after task exit'' @ [newline]) s)
         else (Some f, s))"

text \<open>What \<^verbatim>\<open>sched_thread_bootstrap\<close> calls: entry and argument, or \<open>None\<close> to exit at once.\<close>

definition sched_thread_bootstrap :: "'a sched_state_scheme \<Rightarrow> (u32 \<times> u32) option" where
  "sched_thread_bootstrap s =
     (if \<not> current_ok s then None
      else let p = slot_at (nat (g_current s)) s in
      if p_thread_entry p = 0 then None else Some (p_thread_entry p, p_thread_arg p))"

record user_entry =
  ue_ss :: u32
  ue_esp :: u32
  ue_eflags :: u32
  ue_cs :: u32
  ue_eip :: u32

definition scheduler_enter_current_user_mode ::
  "u32 \<Rightarrow> u32 \<Rightarrow> 'a sched_state_scheme \<Rightarrow> user_entry option \<times> 'a sched_state_scheme" where
  "scheduler_enter_current_user_mode entry_virtual user_stack s =
     (if \<not> g_runtime_ready s \<or> \<not> current_ok s \<or> entry_virtual = 0 \<or> user_stack = 0
      then (None, log_serial_raw (ascii ''[sched] invalid user-mode handoff'' @ [newline]) s)
      else let cur = nat (g_current s);
               s = upd_slot cur (\<lambda>p. p\<lparr>p_context := (p_context p)\<lparr>user_esp := user_stack\<rparr>\<rparr>) s;
               flags = m_eflags s OR EFLAGS_IF OR 0x2;
               s = cli s;
               s = paging_set_kernel_stack_top (kernel_stack_top (p_context (slot_at cur s))) s
           in (Some \<lparr>ue_ss = USER_DATA_SELECTOR, ue_esp = user_stack, ue_eflags = flags,
                     ue_cs = USER_CODE_SELECTOR, ue_eip = entry_virtual\<rparr>, s))"

definition scheduler_exit_current_from_interrupt ::
  "'l sched_link_scheme \<Rightarrow> u32 \<Rightarrow> 'a sched_state_scheme \<Rightarrow> u32 \<times> 'a sched_state_scheme" where
  "scheduler_exit_current_from_interrupt L frame s =
     (if frame = 0 \<or> \<not> g_runtime_ready s \<or> \<not> current_ok s then (0, s)
      else let s = upd_slot (nat (g_current s)) (\<lambda>p. p\<lparr>p_context := (p_context p)\<lparr>irq_frame := frame\<rparr>\<rparr>) s;
               s = upd_slot (nat (g_current s)) (sched_mark_terminated L) s
      in case sched_pick_next s of None \<Rightarrow> (0, s) | Some nxt \<Rightarrow> sched_activate_slot L nxt s)"

definition scheduler_get_ticks :: "'a sched_state_scheme \<Rightarrow> u32" where
  "scheduler_get_ticks s = timer_get_ticks s"

definition scheduler_get_quantum_ticks :: "'a sched_state_scheme \<Rightarrow> u32" where
  "scheduler_get_quantum_ticks s = g_quantum_ticks s"

definition snapshot_of :: "'a sched_state_scheme \<Rightarrow> nat \<Rightarrow> snapshot" where
  "snapshot_of s idx =
     (let p = slot_at idx s in
      \<lparr>sn_pid = p_pid p, sn_name = p_name p, sn_origin_name = p_origin_name p,
       sn_origin_is_executable = p_origin_is_executable p, sn_state = p_state p,
       sn_is_current = (int idx = g_current s), sn_wake_tick = p_wake_tick p,
       sn_runtime_ticks = p_runtime_ticks p, sn_switch_count = p_switch_count p,
       sn_kernel_stack_base = kernel_stack_base (p_context p),
       sn_kernel_stack_top = kernel_stack_top (p_context p),
       sn_guard_page_base = guard_page_base (p_context p)\<rparr>)"

fun snapshot_loop :: "bool \<Rightarrow> nat list \<Rightarrow> nat \<Rightarrow> 'a sched_state_scheme \<Rightarrow> snapshot list" where
  "snapshot_loop include_terminated [] room s = []"
| "snapshot_loop include_terminated (idx # rest) room s =
     (if room = 0 then []
      else if p_state (slot_at idx s) = PROCESS_UNUSED then snapshot_loop include_terminated rest room s
      else if \<not> include_terminated \<and> p_state (slot_at idx s) = PROCESS_TERMINATED
      then snapshot_loop include_terminated rest room s
      else snapshot_of s idx # snapshot_loop include_terminated rest (room - 1) s)"

text \<open>The entries written to \<^verbatim>\<open>out\<close>; their number is the return value.\<close>

definition scheduler_snapshot_processes :: "bool \<Rightarrow> int \<Rightarrow> bool \<Rightarrow> 'a sched_state_scheme \<Rightarrow> snapshot list" where
  "scheduler_snapshot_processes out_ok max_out include_terminated s =
     (if \<not> out_ok \<or> max_out \<le> 0 \<or> \<not> g_runtime_ready s then []
      else snapshot_loop include_terminated [0..<SCHEDULER_MAX_PROCESSES] (nat max_out) s)"

definition scheduler_describe_guard_fault :: "u32 \<Rightarrow> 'a sched_state_scheme \<Rightarrow> (int \<times> cstr option) option" where
  "scheduler_describe_guard_fault fault_addr s =
     (let page = fault_addr AND NOT (SCHED_STACK_PAGE_SIZE - 1) in
      map_option (\<lambda>idx. (p_pid (slot_at idx s), p_name (slot_at idx s)))
        (find (\<lambda>idx. guard_page_base (p_context (slot_at idx s)) = page)
          [SCHED_IDLE_PID..<SCHEDULER_MAX_PROCESSES]))"

definition scheduler_set_current_name :: "cstr option \<Rightarrow> 'a sched_state_scheme \<Rightarrow> 'a sched_state_scheme" where
  "scheduler_set_current_name name s =
     (if \<not> g_runtime_ready s \<or> \<not> current_ok s then s
      else upd_slot (nat (g_current s)) (sched_set_slot_name name) s)"

definition scheduler_set_current_origin :: "cstr option \<Rightarrow> bool \<Rightarrow> 'a sched_state_scheme \<Rightarrow> 'a sched_state_scheme" where
  "scheduler_set_current_origin origin_name is_executable s =
     (if \<not> g_runtime_ready s \<or> \<not> current_ok s then s
      else upd_slot (nat (g_current s)) (sched_set_slot_origin origin_name is_executable) s)"

definition scheduler_get_current_pid :: "'a sched_state_scheme \<Rightarrow> int" where
  "scheduler_get_current_pid s = (if \<not> g_runtime_ready s \<or> \<not> current_ok s then -1 else g_current s)"

definition scheduler_get_process_state :: "int \<Rightarrow> 'a sched_state_scheme \<Rightarrow> process_state_t" where
  "scheduler_get_process_state pid s =
     (if \<not> g_runtime_ready s \<or> pid < 0 \<or> pid \<ge> int SCHEDULER_MAX_PROCESSES then PROCESS_UNUSED
      else p_state (slot_at (nat pid) s))"

definition scheduler_spawn_kernel_task ::
  "'l sched_link_scheme \<Rightarrow> cstr option \<Rightarrow> cstr option \<Rightarrow> bool \<Rightarrow> u32 \<Rightarrow> u32 \<Rightarrow> u32 \<Rightarrow>
   'a sched_state_scheme \<Rightarrow> nat option \<times> 'a sched_state_scheme" where
  "scheduler_spawn_kernel_task L name origin_name origin_is_executable entry arg pdir s =
     (if \<not> g_runtime_ready s then (None, s)
      else sched_spawn_kernel_thread_internal L name origin_name origin_is_executable entry arg pdir
             SCHED_EXTERNAL_PID_MIN s)"

definition scheduler_terminate_process :: "'l sched_link_scheme \<Rightarrow> int \<Rightarrow> 'a sched_state_scheme \<Rightarrow> bool \<times> 'a sched_state_scheme" where
  "scheduler_terminate_process L pid s =
     (if \<not> g_runtime_ready s \<or> pid \<le> int SCHED_IDLE_PID \<or> pid \<ge> int SCHEDULER_MAX_PROCESSES then (False, s)
      else if p_state (slot_at (nat pid) s) = PROCESS_UNUSED
              \<or> p_state (slot_at (nat pid) s) = PROCESS_TERMINATED then (False, s)
      else (True, upd_slot (nat pid) (sched_mark_terminated L) s))"

definition scheduler_exit_current_task ::
  "'l sched_link_scheme \<Rightarrow> u32 \<Rightarrow> 'a sched_state_scheme \<Rightarrow> u32 option \<times> 'a sched_state_scheme" where
  "scheduler_exit_current_task L frame s = sched_exit_current L frame s"

end
