(* ===== verification/Paging_Map.thy ===== *)
theory Paging_Map
  imports Paging
begin

text \<open>
  What the page tables of \<^verbatim>\<open>paging.c\<close> mean to the processor: the two-level walk of the i386, the
  kernel map built by \<open>paging_setup_structures\<close>, the effect of unmapping one page, and the isolation
  given by \<open>paging_build_app_directory\<close>.
\<close>

unbundle bit_operations_syntax

section \<open>The page walk\<close>

definition pd_index :: "u32 \<Rightarrow> nat" where "pd_index va = unat va div 4194304"
definition pt_index :: "u32 \<Rightarrow> nat" where "pt_index va = unat va div 4096 mod 1024"

definition frame_of :: "u32 \<Rightarrow> nat" where "frame_of e = unat (e AND NOT 0xFFF)"

record page_view =
  pv_phys :: nat
  pv_user :: bool
  pv_write :: bool

definition walk :: "(nat \<Rightarrow> u32) \<Rightarrow> nat \<Rightarrow> u32 \<Rightarrow> (u32 \<times> u32) option" where
  "walk mem pd va =
     (let pde = mem (pd + 4 * pd_index va) in
      if \<not> bit pde 0 then None
      else let pte = mem (frame_of pde + 4 * pt_index va) in
      if \<not> bit pte 0 then None else Some (pde, pte))"

definition translate :: "(nat \<Rightarrow> u32) \<Rightarrow> nat \<Rightarrow> u32 \<Rightarrow> page_view option" where
  "translate mem pd va =
     map_option (\<lambda>(pde, pte). \<lparr>pv_phys = frame_of pte + unat va mod 4096,
       pv_user = (bit pde 2 \<and> bit pte 2), pv_write = (bit pde 1 \<and> bit pte 1)\<rparr>) (walk mem pd va)"

section \<open>Words and addresses\<close>

definition page_aligned :: "nat \<Rightarrow> bool" where "page_aligned a \<longleftrightarrow> a mod 4096 = 0"

lemma table_cell_eq [simp]:
  assumes "page_aligned a" "page_aligned b" "i < 1024" "j < 1024"
  shows "a + 4 * i = b + 4 * j \<longleftrightarrow> a = b \<and> i = j"
proof
  assume e: "a + 4 * i = b + 4 * j"
  obtain p q where a: "a = 4096 * p" and b: "b = 4096 * q"
    using assms(1,2) unfolding page_aligned_def by (meson dvdE mod_0_imp_dvd)
  have "(a + 4 * i) div 4096 = p" "(b + 4 * j) div 4096 = q" using assms(3,4) by (simp_all add: a b)
  then have "p = q" using e by simp
  then show "a = b \<and> i = j" using e by (simp add: a b)
qed simp

lemma pd_index_less [simp]: "pd_index va < 1024"
  using unat_u32_bound [of va] by (simp add: pd_index_def less_mult_imp_div_less)

lemma pt_index_less [simp]: "pt_index va < 1024"
  by (simp add: pt_index_def)

lemma mask12: "(0xFFF :: u32) = mask 12" by (simp add: mask_eq_exp_minus_1)

lemma pd_index_word: "unat (drop_bit 22 va) = pd_index va"
  by (simp add: pd_index_def drop_bit_eq_div unat_div)

lemma pt_index_word: "unat (drop_bit 12 va AND 0x3FF) = pt_index va"
proof -
  have "drop_bit 12 va AND 0x3FF = take_bit 10 (drop_bit 12 va)"
    by (simp add: take_bit_eq_mask mask_eq_exp_minus_1)
  then show ?thesis using unat_u32_bound [of va]
    by (simp only: unsigned_take_bit_eq unsigned_drop_bit_eq pt_index_def)
       (simp add: drop_bit_eq_div take_bit_eq_mod)
qed

lemma va_split: "unat va = pd_index va * 4194304 + pt_index va * 4096 + unat va mod 4096"
proof -
  have "unat va div 4194304 = unat va div 4096 div 1024" by (simp flip: div_mult2_eq)
  moreover have "unat va div 4096 = unat va div 4096 div 1024 * 1024 + unat va div 4096 mod 1024"
    "unat va = unat va div 4096 * 4096 + unat va mod 4096" by simp_all
  ultimately show ?thesis unfolding pd_index_def pt_index_def by linarith
qed

text \<open>Flag bits are the low twelve bits of an entry; the frame is the rest.\<close>

lemma low_bits_clear: "x AND 0xFFF = 0 \<Longrightarrow> n < 12 \<Longrightarrow> \<not> bit (x :: u32) n"
proof -
  assume z: "x AND 0xFFF = 0" and n: "n < 12"
  have "bit (x AND mask 12) n \<longleftrightarrow> bit x n" using n by (simp add: bit_simps)
  with z show ?thesis by (simp add: mask12)
qed

lemma frame_of_or:
  assumes x: "x AND 0xFFF = 0" and f: "(f :: u32) AND NOT 0xFFF = 0"
  shows "frame_of (x OR f) = unat x"
proof -
  have "x AND NOT 0xFFF = x" by (rule and_not_disjoint [OF x])
  then have "(x OR f) AND NOT 0xFFF = x" by (simp only: bit.conj_disj_distrib2 f or.right_neutral)
  then show ?thesis by (simp only: frame_of_def)
qed

lemma aligned_word: "page_aligned a \<Longrightarrow> (of_nat a :: u32) AND 0xFFF = 0"
proof -
  assume "page_aligned a"
  then have "take_bit 12 a = 0" by (simp add: page_aligned_def take_bit_eq_mod)
  then have "take_bit 12 (of_nat a :: u32) = 0" by (simp add: take_bit_of_nat)
  then show ?thesis by (simp only: mask12 flip: take_bit_eq_mask)
qed

lemma aligned_word_iff: "(x :: u32) AND 0xFFF = 0 \<longleftrightarrow> page_aligned (unat x)"
proof -
  have "x AND 0xFFF = take_bit 12 x" by (simp only: mask12 take_bit_eq_mask)
  moreover have "unat (take_bit 12 x) = unat x mod 4096"
    by (simp add: take_bit_eq_mod unat_mod)
  ultimately show ?thesis unfolding page_aligned_def by (metis unat_0 unat_eq_0)
qed

lemma unat_of_nat32: "n < 4294967296 \<Longrightarrow> unat (of_nat n :: u32) = n"
  by (simp add: unat_of_nat take_bit_nat_eq_self)

lemma bit_or_low:
  assumes "x AND 0xFFF = 0" "n < 12"
  shows "bit (x OR (f :: u32)) n \<longleftrightarrow> bit f n"
  using low_bits_clear [OF assms] by (simp add: bit_or_iff)

section \<open>The kernel map\<close>

text \<open>The tables of the kernel image: the directory first, then the page tables.\<close>

definition kernel_tables :: "'l link_map_scheme \<Rightarrow> nat list" where
  "kernel_tables L = lm_page_directory L #
     map (table_addr (lm_lowmem_page_tables L)) [0..<LOWMEM_PAGE_TABLE_COUNT]
     @ map (table_addr (lm_fb_page_tables L)) [0..<FB_PAGE_TABLE_COUNT]"

definition layout_ok :: "'l link_map_scheme \<Rightarrow> bool" where
  "layout_ok L \<longleftrightarrow> distinct (kernel_tables L)
     \<and> (\<forall>a \<in> set (kernel_tables L). page_aligned a \<and> 4096 \<le> a \<and> a < 4294967296)"

definition is_pt :: "'l link_map_scheme \<Rightarrow> nat \<Rightarrow> bool" where
  "is_pt L a \<longleftrightarrow> a \<in> set (tl (kernel_tables L))"

lemma is_pt_tables: "is_pt L a \<Longrightarrow> a \<in> set (kernel_tables L)"
  by (simp add: is_pt_def kernel_tables_def)

lemma layout_pd: "layout_ok L \<Longrightarrow> page_aligned (lm_page_directory L) \<and> lm_page_directory L < 4294967296"
  by (simp add: layout_ok_def kernel_tables_def)

lemma layout_pt:
  "layout_ok L \<Longrightarrow> is_pt L a \<Longrightarrow> page_aligned a \<and> 4096 \<le> a \<and> a < 4294967296 \<and> a \<noteq> lm_page_directory L"
  by (auto simp: layout_ok_def is_pt_def kernel_tables_def)

definition pte_ident :: "nat \<Rightarrow> nat \<Rightarrow> u32 \<Rightarrow> bool" where
  "pte_ident d i e \<longleftrightarrow> e = 0 \<or>
     (bit e 0 \<and> bit e 1 \<and> \<not> bit e 2 \<and> frame_of e = d * 4194304 + i * 4096)"

text \<open>\<open>T\<close> names the page table of each present directory entry. No table serves two entries, every
  page table entry is empty or an identity mapping without the user bit.\<close>

definition kmap :: "'l link_map_scheme \<Rightarrow> (nat \<rightharpoonup> nat) \<Rightarrow> (nat \<Rightarrow> u32) \<Rightarrow> bool" where
  "kmap L T mem \<longleftrightarrow>
     (\<forall>d e a. T d = Some a \<and> T e = Some a \<longrightarrow> d = e)
     \<and> (\<forall>d pt. T d = Some pt \<longrightarrow> d < 1024 \<and> is_pt L pt)
     \<and> (\<forall>d < 1024. T d = None \<longrightarrow> mem (lm_page_directory L + 4 * d) = 0)
     \<and> (\<forall>d pt. T d = Some pt \<longrightarrow> (let e = mem (lm_page_directory L + 4 * d) in
           bit e 0 \<and> bit e 1 \<and> \<not> bit e 2 \<and> frame_of e = pt))
     \<and> (\<forall>d pt i. T d = Some pt \<longrightarrow> i < 1024 \<longrightarrow> pte_ident d i (mem (pt + 4 * i)))"

definition kfull :: "(nat \<rightharpoonup> nat) \<Rightarrow> (nat \<Rightarrow> u32) \<Rightarrow> bool" where
  "kfull T mem \<longleftrightarrow> (\<forall>d pt i. T d = Some pt \<longrightarrow> i < 1024 \<longrightarrow> bit (mem (pt + 4 * i)) 0)"

lemma kmap_inj: "kmap L T mem \<Longrightarrow> T d = Some a \<Longrightarrow> T e = Some a \<Longrightarrow> d = e"
  by (simp add: kmap_def)

lemma kmap_pt: "kmap L T mem \<Longrightarrow> T d = Some pt \<Longrightarrow> d < 1024 \<and> is_pt L pt"
  by (simp add: kmap_def)

lemma kmap_none: "kmap L T mem \<Longrightarrow> d < 1024 \<Longrightarrow> T d = None \<Longrightarrow> mem (lm_page_directory L + 4 * d) = 0"
  by (simp add: kmap_def)

lemma kmap_pde:
  "kmap L T mem \<Longrightarrow> T d = Some pt \<Longrightarrow> e = mem (lm_page_directory L + 4 * d) \<Longrightarrow>
   bit e 0 \<and> bit e 1 \<and> \<not> bit e 2 \<and> frame_of e = pt"
  by (simp add: kmap_def Let_def)

lemma kmap_pte: "kmap L T mem \<Longrightarrow> T d = Some pt \<Longrightarrow> i < 1024 \<Longrightarrow> pte_ident d i (mem (pt + 4 * i))"
  by (simp add: kmap_def)

lemma kmap_walk:
  assumes k: "kmap L T mem"
  shows "walk mem (lm_page_directory L) va =
    (case T (pd_index va) of None \<Rightarrow> None
     | Some pt \<Rightarrow> if bit (mem (pt + 4 * pt_index va)) 0
        then Some (mem (lm_page_directory L + 4 * pd_index va), mem (pt + 4 * pt_index va)) else None)"
proof (cases "T (pd_index va)")
  case None
  then show ?thesis using kmap_none [OF k pd_index_less None] by (simp add: walk_def)
next
  case (Some pt)
  then show ?thesis using kmap_pde [OF k Some refl] by (simp add: walk_def Let_def)
qed

lemma kmap_translate:
  assumes k: "kmap L T mem" and t: "translate mem (lm_page_directory L) va = Some v"
  shows "pv_phys v = unat va \<and> \<not> pv_user v \<and> pv_write v"
proof -
  obtain pt where pt: "T (pd_index va) = Some pt" and p: "bit (mem (pt + 4 * pt_index va)) 0"
    using t by (auto simp: translate_def kmap_walk [OF k] split: option.splits if_splits)
  let ?e = "mem (pt + 4 * pt_index va)"
  have "?e \<noteq> 0" using p by auto
  then have e: "bit ?e 1" "\<not> bit ?e 2" "frame_of ?e = pd_index va * 4194304 + pt_index va * 4096"
    using kmap_pte [OF k pt pt_index_less] by (auto simp: pte_ident_def)
  then show ?thesis using t pt p kmap_pde [OF k pt refl] va_split [of va]
    by (auto simp: translate_def kmap_walk [OF k])
qed

lemma kmap_mapped: "kmap L T mem \<Longrightarrow> kfull T mem \<Longrightarrow> T (pd_index va) = Some pt \<Longrightarrow>
  translate mem (lm_page_directory L) va \<noteq> None"
  by (simp add: translate_def kmap_walk kfull_def)

section \<open>Filling one table\<close>

lemma ident_base:
  assumes "d < 1024" "i < 1024"
  shows "unat (push_bit 22 (of_nat d) + of_nat i * 0x1000 :: u32) = d * 4194304 + i * 4096"
    and "(push_bit 22 (of_nat d) + of_nat i * 0x1000 :: u32) AND 0xFFF = 0"
proof -
  have e: "(push_bit 22 (of_nat d) + of_nat i * 0x1000 :: u32) = of_nat (d * 4194304 + i * 4096)"
    by (simp add: push_bit_eq_mult)
  have b: "d * 4194304 + i * 4096 < 4294967296" using assms by linarith
  show "unat (push_bit 22 (of_nat d) + of_nat i * 0x1000 :: u32) = d * 4194304 + i * 4096"
    unfolding e by (rule unat_of_nat32 [OF b])
  have "page_aligned (d * 4194304 + i * 4096)"
    using mod_mult_self2 [of 0 "d * 1024 + i" 4096] by (simp add: page_aligned_def algebra_simps)
  then show "(push_bit 22 (of_nat d) + of_nat i * 0x1000 :: u32) AND 0xFFF = 0"
    unfolding e by (rule aligned_word)
qed

definition kernel_flags :: "u32 \<Rightarrow> bool" where
  "kernel_flags f \<longleftrightarrow> bit f 0 \<and> bit f 1 \<and> \<not> bit f 2 \<and> f AND NOT 0xFFF = 0"

lemma kernel_flags_used:
  "kernel_flags (PAGE_PRESENT OR PAGE_RW)"
  "kernel_flags (PAGE_PRESENT OR PAGE_RW OR PAGE_PWT OR PAGE_PCD)"
  by (simp_all add: kernel_flags_def page_flags)

lemma pte_ident_new:
  assumes "kernel_flags f" "d < 1024" "i < 1024"
  shows "pte_ident d i ((push_bit 22 (of_nat d) + of_nat i * 0x1000) OR f)"
    and "bit ((push_bit 22 (of_nat d) + of_nat i * 0x1000 :: u32) OR f) 0"
proof -
  let ?x = "push_bit 22 (of_nat d) + of_nat i * 0x1000 :: u32"
  note b = ident_base [OF assms(2,3)]
  have "bit (?x OR f) 0" "bit (?x OR f) 1" "\<not> bit (?x OR f) 2" "frame_of (?x OR f) = d * 4194304 + i * 4096"
    using assms(1) bit_or_low [OF b(2), of 0 f] bit_or_low [OF b(2), of 1 f] bit_or_low [OF b(2), of 2 f]
      frame_of_or [OF b(2), of f] b(1) unfolding kernel_flags_def by auto
  then show "pte_ident d i (?x OR f)" "bit (?x OR f) 0" unfolding pte_ident_def by blast+
qed

lemma store_table:
  "page_aligned a \<Longrightarrow> page_aligned b \<Longrightarrow> j < 1024 \<Longrightarrow>
   store_range a 1024 f mem (b + 4 * j) = (if a = b then f j else mem (b + 4 * j))"
  by (cases "a = b") (auto simp: store_range_in intro!: store_range_out)

text \<open>One iteration of either loop of \<open>paging_setup_structures\<close>.\<close>

definition add_table :: "'l link_map_scheme \<Rightarrow> nat \<Rightarrow> nat \<Rightarrow> u32 \<Rightarrow> (nat \<Rightarrow> u32) \<Rightarrow> nat \<Rightarrow> u32" where
  "add_table L d pt f mem =
     (store_range pt 1024 (\<lambda>i. (push_bit 22 (of_nat d) + of_nat i * 0x1000) OR f) mem)
       (lm_page_directory L + 4 * d := of_nat pt OR f)"

lemma add_table_kmap:
  assumes L: "layout_ok L" and k: "kmap L T mem" and full: "kfull T mem"
    and pt: "is_pt L pt" and new: "pt \<notin> ran T" and d: "d < 1024" and f: "kernel_flags f"
  shows "kmap L (T(d \<mapsto> pt)) (add_table L d pt f mem)" "kfull (T(d \<mapsto> pt)) (add_table L d pt f mem)"
proof -
  let ?mem = "add_table L d pt f mem" and ?T = "T(d \<mapsto> pt)" and ?PD = "lm_page_directory L"
  note al = layout_pd [OF L] layout_pt [OF L pt]
  have pd: "?mem (?PD + 4 * e) = (if e = d then of_nat pt OR f else mem (?PD + 4 * e))" if "e < 1024" for e
    using al d that by (auto simp: add_table_def store_table)
  have tab: "?mem (a + 4 * i) = (if a = pt then (push_bit 22 (of_nat d) + of_nat i * 0x1000) OR f else mem (a + 4 * i))"
    if "is_pt L a" "i < 1024" for a i
    using al d that layout_pt [OF L that(1)] by (auto simp: add_table_def store_table)
  have old: "T e = Some a \<Longrightarrow> a \<noteq> pt" for e a using new by (auto simp: ran_def)
  have w: "(of_nat pt :: u32) AND 0xFFF = 0" "unat (of_nat pt :: u32) = pt"
    using al by (simp_all add: aligned_word unat_of_nat32)
  have pde: "frame_of (of_nat pt OR f) = pt" "bit (of_nat pt OR f) 0" "bit (of_nat pt OR f) 1" "\<not> bit (of_nat pt OR f) 2"
    using f w by (simp_all add: kernel_flags_def frame_of_or bit_or_low)
  show "kmap L ?T ?mem" unfolding kmap_def
  proof (intro conjI allI impI)
    fix e1 e2 a assume "?T e1 = Some a \<and> ?T e2 = Some a"
    then show "e1 = e2" using old kmap_inj [OF k] by (auto split: if_splits)
  next
    fix e a assume "?T e = Some a"
    then show "e < 1024" "is_pt L a" using d pt kmap_pt [OF k] by (auto split: if_splits)
  next
    fix e assume "e < (1024::nat)" "?T e = None"
    then show "?mem (?PD + 4 * e) = 0" using kmap_none [OF k] by (auto simp: pd split: if_splits)
  next
    fix e a assume t: "?T e = Some a"
    then have "e < 1024" using d kmap_pt [OF k] by (auto split: if_splits)
    then show "let w = ?mem (?PD + 4 * e) in bit w 0 \<and> bit w 1 \<and> \<not> bit w 2 \<and> frame_of w = a"
      using t pde kmap_pde [OF k _ refl] by (auto simp: pd Let_def split: if_splits)
  next
    fix e a and i :: nat assume t: "?T e = Some a" and i: "i < 1024"
    show "pte_ident e i (?mem (a + 4 * i))"
    proof (cases "e = d")
      case True
      then have "a = pt" using t by simp
      then show ?thesis using True tab [OF pt i] pte_ident_new(1) [OF f d i] by simp
    next
      case False
      then show ?thesis using t i old [of e a] kmap_pt [OF k] kmap_pte [OF k] by (simp add: tab)
    qed
  qed
  show "kfull ?T ?mem" unfolding kfull_def
  proof (intro allI impI)
    fix e a and i :: nat assume t: "?T e = Some a" and i: "i < 1024"
    show "bit (?mem (a + 4 * i)) 0"
    proof (cases "e = d")
      case True
      then have "a = pt" using t by simp
      then show ?thesis using tab [OF pt i] pte_ident_new(2) [OF f d i] by simp
    next
      case False
      then show ?thesis using t i old [of e a] kmap_pt [OF k] full by (simp add: tab kfull_def)
    qed
  qed
qed

section \<open>The map after \<open>paging_setup_structures\<close>\<close>

lemma low_pt: "t < LOWMEM_PAGE_TABLE_COUNT \<Longrightarrow> is_pt L (table_addr (lm_lowmem_page_tables L) t)"
  by (simp add: is_pt_def kernel_tables_def)

lemma fb_pt: "t < FB_PAGE_TABLE_COUNT \<Longrightarrow> is_pt L (table_addr (lm_fb_page_tables L) t)"
  by (simp add: is_pt_def kernel_tables_def)

lemma low_fb_distinct:
  assumes L: "layout_ok L" and t: "t < LOWMEM_PAGE_TABLE_COUNT" and u: "u < FB_PAGE_TABLE_COUNT"
  shows "table_addr (lm_lowmem_page_tables L) t \<noteq> table_addr (lm_fb_page_tables L) u"
proof
  assume "table_addr (lm_lowmem_page_tables L) t = table_addr (lm_fb_page_tables L) u"
  moreover have "table_addr (lm_lowmem_page_tables L) t
      \<in> set (map (table_addr (lm_lowmem_page_tables L)) [0..<LOWMEM_PAGE_TABLE_COUNT])"
    "table_addr (lm_fb_page_tables L) u \<in> set (map (table_addr (lm_fb_page_tables L)) [0..<FB_PAGE_TABLE_COUNT])"
    using t u by auto
  ultimately show False using L unfolding layout_ok_def kernel_tables_def distinct.simps distinct_append
    by (metis disjoint_iff)
qed

definition low_T :: "'l link_map_scheme \<Rightarrow> nat \<Rightarrow> nat \<rightharpoonup> nat" where
  "low_T L n d = (if d < n then Some (table_addr (lm_lowmem_page_tables L) d) else None)"

lemma low_T_Suc: "low_T L (Suc n) = (low_T L n)(n \<mapsto> table_addr (lm_lowmem_page_tables L) n)"
  by (auto simp: low_T_def fun_eq_iff)

lemma setup_lowmem_Suc:
  "setup_lowmem L (Suc n) mem =
     add_table L n (table_addr (lm_lowmem_page_tables L) n) (PAGE_PRESENT OR PAGE_RW) (setup_lowmem L n mem)"
  by (simp add: add_table_def Let_def or.assoc)

lemma setup_lowmem_kmap:
  assumes L: "layout_ok L" and z: "\<And>d. d < 1024 \<Longrightarrow> mem (lm_page_directory L + 4 * d) = 0"
  shows "n \<le> LOWMEM_PAGE_TABLE_COUNT \<Longrightarrow>
    kmap L (low_T L n) (setup_lowmem L n mem) \<and> kfull (low_T L n) (setup_lowmem L n mem)"
proof (induction n)
  case 0
  then show ?case using z by (simp add: kmap_def kfull_def low_T_def)
next
  case (Suc n)
  then have ih: "kmap L (low_T L n) (setup_lowmem L n mem)" "kfull (low_T L n) (setup_lowmem L n mem)" by auto
  have n: "n < LOWMEM_PAGE_TABLE_COUNT" "n < 1024" using Suc.prems by (simp_all add: LOWMEM_PAGE_TABLE_COUNT_def)
  have new: "table_addr (lm_lowmem_page_tables L) n \<notin> ran (low_T L n)"
    by (auto simp: ran_def low_T_def table_addr_def)
  show ?case unfolding low_T_Suc setup_lowmem_Suc
    using add_table_kmap [OF L ih low_pt [OF n(1)] new n(2) kernel_flags_used(1)] by (rule conjI)
qed

lemma clear_fb_other:
  assumes "page_aligned (lm_fb_page_tables L)" "page_aligned a" "i < 1024"
    "\<And>t. t < n \<Longrightarrow> a \<noteq> table_addr (lm_fb_page_tables L) t"
  shows "clear_fb_tables L n mem (a + 4 * i) = mem (a + 4 * i)"
  using assms(4)
proof (induction n)
  case (Suc n)
  have "page_aligned (table_addr (lm_fb_page_tables L) n)"
    using assms(1) by (simp add: page_aligned_def table_addr_def)
  moreover have "table_addr (lm_fb_page_tables L) n \<noteq> a" using Suc.prems [of n] by simp
  ultimately show ?case using Suc assms(2,3) by (simp add: store_table)
qed simp

lemma clear_fb_kmap:
  assumes L: "layout_ok L" and k: "kmap L T mem" "kfull T mem"
    and T: "\<And>d u. u < FB_PAGE_TABLE_COUNT \<Longrightarrow> T d \<noteq> Some (table_addr (lm_fb_page_tables L) u)"
  shows "kmap L T (clear_fb_tables L FB_PAGE_TABLE_COUNT mem)
    \<and> kfull T (clear_fb_tables L FB_PAGE_TABLE_COUNT mem)"
proof -
  have fb: "page_aligned (lm_fb_page_tables L)"
    using layout_pt [OF L fb_pt [of 0]] by (simp add: FB_PAGE_TABLE_COUNT_def table_addr_def)
  have pd: "clear_fb_tables L FB_PAGE_TABLE_COUNT mem (lm_page_directory L + 4 * d) = mem (lm_page_directory L + 4 * d)"
    if "d < 1024" for d
    using layout_pt [OF L fb_pt] layout_pd [OF L] that by (intro clear_fb_other [OF fb]) metis+
  have pt: "clear_fb_tables L FB_PAGE_TABLE_COUNT mem (a + 4 * i) = mem (a + 4 * i)"
    if "T d = Some a" "i < 1024" for a d i
    using that T [of _ d] layout_pt [OF L] kmap_pt [OF k(1)]
    by (intro clear_fb_other [OF fb]) auto
  show ?thesis using k unfolding kmap_def kfull_def by (simp add: pd pt Let_def)
qed

definition fb_flags :: u32 where
  "fb_flags = PAGE_PRESENT OR PAGE_RW OR PAGE_PWT OR PAGE_PCD"

lemma map_fb_Cons:
  "map_fb L (d # ds) t mem =
     (if d = 0 then map_fb L ds t mem
      else if t \<ge> FB_PAGE_TABLE_COUNT then mem
      else map_fb L ds (t + 1) (add_table L d (table_addr (lm_fb_page_tables L) t) fb_flags mem))"
  by (simp add: add_table_def Let_def or.assoc fb_flags_def)

lemma map_fb_kmap:
  assumes L: "layout_ok L" and ds: "\<forall>d \<in> set ds. d < 1024" "sorted_wrt (<) ds"
    and k: "kmap L T mem" "kfull T mem"
    and T: "\<And>d u. t \<le> u \<Longrightarrow> u < FB_PAGE_TABLE_COUNT \<Longrightarrow> T d \<noteq> Some (table_addr (lm_fb_page_tables L) u)"
  shows "\<exists>T'. kmap L T' (map_fb L ds t mem) \<and> kfull T' (map_fb L ds t mem) \<and> 
     dom T' = dom T \<union> set (take (FB_PAGE_TABLE_COUNT - t) (filter (\<lambda>d. d \<noteq> 0) ds))"
  using ds k T
proof (induction ds arbitrary: t mem T)
  case Nil
  then show ?case by auto
next
  case (Cons d ds)
  show ?case
  proof (cases "d = 0 \<or> t \<ge> FB_PAGE_TABLE_COUNT")
    case True
    then show ?thesis using Cons.IH [of T mem t] Cons.prems by (auto simp: map_fb_Cons simp del: map_fb.simps(2))
  next
    case False
    then have t: "t < FB_PAGE_TABLE_COUNT" by simp
    let ?pt = "table_addr (lm_fb_page_tables L) t" and ?T = "T(d \<mapsto> table_addr (lm_fb_page_tables L) t)"
    have new: "?pt \<notin> ran T" using Cons.prems(5) [of t] t by (auto simp: ran_def)
    have step: "kmap L ?T (add_table L d ?pt fb_flags mem)" "kfull ?T (add_table L d ?pt fb_flags mem)"
      using add_table_kmap [OF L Cons.prems(3,4) fb_pt [OF t] new] Cons.prems(1) kernel_flags_used(2)
      by (simp_all add: fb_flags_def)
    have ds: "\<forall>d \<in> set ds. d < 1024" "sorted_wrt (<) ds" using Cons.prems(1,2) by simp_all
    have T': "?T e \<noteq> Some (table_addr (lm_fb_page_tables L) u)"
      if "t + 1 \<le> u" "u < FB_PAGE_TABLE_COUNT" for e u
      using Cons.prems(5) [of u e] that by (auto simp: table_addr_def)
    have "\<exists>T'. kmap L T' (map_fb L ds (t + 1) (add_table L d ?pt fb_flags mem))
      \<and> kfull T' (map_fb L ds (t + 1) (add_table L d ?pt fb_flags mem)) 
      \<and> dom T' = dom ?T \<union> set (take (FB_PAGE_TABLE_COUNT - (t + 1)) (filter (\<lambda>d. d \<noteq> 0) ds))"
      by (rule Cons.IH [OF ds step]) (rule T')
    moreover have "FB_PAGE_TABLE_COUNT - t = Suc (FB_PAGE_TABLE_COUNT - (t + 1))" using t by simp
    ultimately show ?thesis using False by (simp add: map_fb_Cons insert_commute del: map_fb.simps(2))
  qed
qed

lemma append_string_mem [simp]: "m_mem (append_string t s) = m_mem s"
  by (induction t arbitrary: s) (simp_all add: append_char_def)

lemma emit_dest_mem [simp]: "m_mem (emit_dest t d s) = m_mem s"
  by (simp add: emit_dest_def emit_serial_def emit_screen_def)

lemma log_serial_raw_mem [simp]: "m_mem (log_serial_raw t s) = m_mem s"
  by (simp add: log_serial_raw_def write_string_emit)

lemma log_print_hex_mem [simp]: "m_mem (log_print_hex n s) = m_mem s"
  by (simp add: log_print_hex_def emit_serial_def)

text \<open>The boot loader's frame buffer description, and the directory entries it needs.\<close>

definition boot_fb_size :: "'a machine_scheme \<Rightarrow> u32" where
  "boot_fb_size s =
     (if read_phys_u8 BOOT_VIDEO_FLAG_ADDR s = 1
      then ucast (read_phys_u16 BOOT_VIDEO_HEIGHT_ADDR s) * ucast (read_phys_u16 BOOT_VIDEO_PITCH_ADDR s) else 0)"

definition boot_fb_pds :: "'a machine_scheme \<Rightarrow> nat list" where
  "boot_fb_pds s =
     (let fb = read_phys_u32 BOOT_VIDEO_FB_ADDR s; n = boot_fb_size s in
      if fb \<noteq> 0 \<and> n \<noteq> 0 then [pd_index fb..<pd_index (fb + n - 1) + 1] else [])"

lemma boot_fb_size_source:
  "(if read_phys_u8 BOOT_VIDEO_FLAG_ADDR t = 1
    then let height = (ucast (read_phys_u16 BOOT_VIDEO_HEIGHT_ADDR t) :: u32);
             pitch = (ucast (read_phys_u16 BOOT_VIDEO_PITCH_ADDR t) :: u32)
         in if height \<noteq> 0 \<and> pitch \<noteq> 0 then height * pitch else 0 else 0) = boot_fb_size t"
  by (auto simp: boot_fb_size_def Let_def)

lemma setup_structures_mem:
  "m_mem (paging_setup_structures L s) =
     (let s1 = s\<lparr>m_mem := clear_fb_tables L FB_PAGE_TABLE_COUNT
         (setup_lowmem L LOWMEM_PAGE_TABLE_COUNT
           (store_range (lm_page_directory L) 1024 (\<lambda>_. 0) (m_mem s)))\<rparr>
      in map_fb L (boot_fb_pds s1) 0 (m_mem s1))"
  unfolding paging_setup_structures_def boot_fb_size_source unfolding Let_def boot_fb_pds_def
  by (simp add: pd_index_word del: upt_Suc)

lemma boot_fb_pds_range: "(\<forall>d \<in> set (boot_fb_pds s). d < 1024) \<and> sorted_wrt (<) (boot_fb_pds s)"
proof -
  have "d < 1024" if "d < pd_index va + 1" for d va
    using that pd_index_less [of va] by linarith
  then show ?thesis by (auto simp: boot_fb_pds_def Let_def simp del: upt_Suc)
qed

text \<open>The boot data at 0x510 is in the first page, which holds no table.\<close>

lemma store_range_low: "4096 \<le> base \<Longrightarrow> a < 4096 \<Longrightarrow> store_range base n f mem a = mem a"
  by (rule store_range_out) auto

lemma setup_lowmem_low:
  assumes L: "layout_ok L" and a: "a < 4096"
  shows "n \<le> LOWMEM_PAGE_TABLE_COUNT \<Longrightarrow> setup_lowmem L n mem a = mem a"
proof (induction n)
  case (Suc n)
  then show ?case using layout_pt [OF L low_pt [of n]] L a
    by (auto simp: Let_def store_range_low layout_ok_def kernel_tables_def)
qed simp

lemma clear_fb_low:
  assumes L: "layout_ok L" and a: "a < 4096"
  shows "n \<le> FB_PAGE_TABLE_COUNT \<Longrightarrow> clear_fb_tables L n mem a = mem a"
proof (induction n)
  case (Suc n)
  then show ?case using layout_pt [OF L fb_pt [of n]] a by (simp add: store_range_low)
qed simp

lemma boot_fb_pds_cong:
  "(\<And>a. a < 4096 \<Longrightarrow> m_mem s a = m_mem t a) \<Longrightarrow> boot_fb_pds s = boot_fb_pds t"
  by (simp add: boot_fb_pds_def boot_fb_size_def read_phys_u32_def read_phys_u16_def read_phys_u8_def
      load_word_def BOOT_VIDEO_FLAG_ADDR_def BOOT_VIDEO_HEIGHT_ADDR_def BOOT_VIDEO_PITCH_ADDR_def
      BOOT_VIDEO_FB_ADDR_def)

lemma setup_structures_kmap:
  assumes L: "layout_ok L"
  shows "\<exists>T. kmap L T (m_mem (paging_setup_structures L s)) \<and> kfull T (m_mem (paging_setup_structures L s))
    \<and> dom T = {0..<LOWMEM_PAGE_TABLE_COUNT}
        \<union> set (take FB_PAGE_TABLE_COUNT (filter (\<lambda>d. d \<noteq> 0) (boot_fb_pds s)))"
proof -
  let ?m0 = "store_range (lm_page_directory L) 1024 (\<lambda>_. 0) (m_mem s)"
  let ?m1 = "setup_lowmem L LOWMEM_PAGE_TABLE_COUNT ?m0"
  let ?m2 = "clear_fb_tables L FB_PAGE_TABLE_COUNT ?m1"
  let ?T = "low_T L LOWMEM_PAGE_TABLE_COUNT"
  have "?m0 (lm_page_directory L + 4 * d) = 0" if "d < 1024" for d using that by (simp add: store_range_in)
  then have k1: "kmap L ?T ?m1" "kfull ?T ?m1" using setup_lowmem_kmap [OF L, of ?m0] by simp_all
  have T: "?T d \<noteq> Some (table_addr (lm_fb_page_tables L) u)" if "u < FB_PAGE_TABLE_COUNT" for d u
    using low_fb_distinct [OF L _ that] by (auto simp: low_T_def)
  have k2: "kmap L ?T ?m2" "kfull ?T ?m2" using clear_fb_kmap [OF L k1 T] by simp_all
  have "boot_fb_pds (s\<lparr>m_mem := ?m2\<rparr>) = boot_fb_pds s"
    using L by (intro boot_fb_pds_cong)
      (simp add: clear_fb_low setup_lowmem_low store_range_low layout_ok_def kernel_tables_def)
  then have m: "m_mem (paging_setup_structures L s) = map_fb L (boot_fb_pds s) 0 ?m2"
    by (simp add: setup_structures_mem)
  have ds: "\<forall>d \<in> set (boot_fb_pds s). d < 1024" "sorted_wrt (<) (boot_fb_pds s)"
    using boot_fb_pds_range by auto
  have "\<exists>T'. kmap L T' (map_fb L (boot_fb_pds s) 0 ?m2) \<and> kfull T' (map_fb L (boot_fb_pds s) 0 ?m2) 
     \<and> dom T' = dom ?T \<union> set (take (FB_PAGE_TABLE_COUNT - 0) (filter (\<lambda>d. d \<noteq> 0) (boot_fb_pds s)))"
    by (rule map_fb_kmap [OF L ds k2]) (rule T)
  moreover have "dom ?T = {0..<LOWMEM_PAGE_TABLE_COUNT}" by (auto simp: low_T_def dom_def split: if_splits)
  ultimately show ?thesis unfolding m by simp
qed

section \<open>Unmapping a page\<close>

lemma present_bit: "e AND PAGE_PRESENT \<noteq> 0 \<longleftrightarrow> bit (e :: u32) 0"
  by (simp add: PAGE_PRESENT_def and_one_eq bit_0 odd_iff_mod_2_eq_one)

lemma lookup_pte_kmap:
  assumes k: "kmap L T (m_mem s)"
  shows "paging_lookup_pte L va s = map_option (\<lambda>pt. pt + 4 * pt_index va) (T (pd_index va))"
proof (cases "T (pd_index va)")
  case None
  then show ?thesis using kmap_none [OF k pd_index_less None]
    by (simp add: paging_lookup_pte_def pd_index_word)
next
  case (Some pt)
  let ?e = "m_mem s (lm_page_directory L + 4 * pd_index va)"
  have e: "bit ?e 0" "unat (?e AND NOT 0xFFF) = pt"
    using kmap_pde [OF k Some refl] by (simp_all add: frame_of_def)
  then have "?e AND PAGE_PRESENT \<noteq> 0"
    using present_bit by blast
  then show ?thesis using e Some by (simp add: paging_lookup_pte_def pd_index_word pt_index_word)
qed

definition same_page :: "u32 \<Rightarrow> u32 \<Rightarrow> bool" where
  "same_page a b \<longleftrightarrow> pd_index a = pd_index b \<and> pt_index a = pt_index b"

lemma unmap_page_kmap:
  assumes L: "layout_ok L" and k: "kmap L T (m_mem s)" and T: "T (pd_index va) = Some pt"
  shows "\<exists>s'. paging_unmap_page L va s = (True, s') \<and> s' = s\<lparr>m_mem := m_mem s'\<rparr> \<and> kmap L T (m_mem s')
    \<and> (\<forall>vb. walk (m_mem s') (lm_page_directory L) vb =
           (if same_page va vb then None else walk (m_mem s) (lm_page_directory L) vb))
    \<and> (\<forall>a. a \<noteq> pt + 4 * pt_index va \<longrightarrow> m_mem s' a = m_mem s a)"
proof -
  let ?p = "pt + 4 * pt_index va"
  let ?m = "(m_mem s)(?p := 0)" and ?PD = "lm_page_directory L"
  have pt: "is_pt L pt" using kmap_pt [OF k T] by simp
  note al = layout_pd [OF L] layout_pt [OF L pt]
  have pd: "?m (?PD + 4 * d) = m_mem s (?PD + 4 * d)" if "d < 1024" for d
    using al that by auto
  have tab: "?m (a + 4 * i) = (if a = pt \<and> i = pt_index va then 0 else m_mem s (a + 4 * i))"
    if "is_pt L a" "i < 1024" for a i
    using al that layout_pt [OF L that(1)] by auto
  have k': "kmap L T ?m" unfolding kmap_def
    using k pd tab kmap_pt [OF k] by (auto simp: kmap_def Let_def pte_ident_def simp del: fun_upd_apply)
  have "walk ?m ?PD vb = (if same_page va vb then None else walk (m_mem s) ?PD vb)" for vb
  proof (cases "T (pd_index vb)")
    case None
    then show ?thesis using T by (auto simp: kmap_walk [OF k'] kmap_walk [OF k] same_page_def)
  next
    case (Some a)
    have "same_page va vb \<longleftrightarrow> a = pt \<and> pt_index vb = pt_index va"
      using Some T kmap_inj [OF k, of "pd_index va" pt "pd_index vb"] by (auto simp: same_page_def)
    then show ?thesis using Some kmap_pt [OF k Some]
      by (simp add: kmap_walk [OF k'] kmap_walk [OF k] tab pd del: fun_upd_apply)
  qed
  then show ?thesis using k' T
    by (simp add: paging_unmap_page_def lookup_pte_kmap [OF k])
qed

lemma page_present_kmap:
  assumes k: "kmap L T (m_mem s)"
  shows "paging_page_present L va s \<longleftrightarrow> walk (m_mem s) (lm_page_directory L) va \<noteq> None"
proof -
  show ?thesis
    by (simp add: paging_page_present_def lookup_pte_kmap [OF k] kmap_walk [OF k] present_bit split: option.splits)
qed

section \<open>The directory of an application\<close>

lemma copy_clear_cell:
  assumes al: "page_aligned src" "page_aligned p" "page_aligned u" "page_aligned b"
    and ne: "src \<noteq> p" "src \<noteq> u" "p \<noteq> u" and j: "j < 1024"
  shows "n \<le> 1024 \<Longrightarrow> copy_clear src p u n mem (b + 4 * j) =
    (if b = p \<and> j < n then mem (src + 4 * j) else if b = u \<and> j < n then 0 else mem (b + 4 * j))"
  using al(4) j
proof (induction n arbitrary: b j)
  case (Suc n)
  have src: "copy_clear src p u n mem (src + 4 * n) = mem (src + 4 * n)"
    using Suc.IH [of src n] Suc.prems al ne by simp
  have cells: "b + 4 * j = p + 4 * n \<longleftrightarrow> b = p \<and> j = n" "b + 4 * j = u + 4 * n \<longleftrightarrow> b = u \<and> j = n"
    using Suc.prems al by simp_all
  have "copy_clear src p u (Suc n) mem (b + 4 * j) =
    (if b = u \<and> j = n then 0 else if b = p \<and> j = n then mem (src + 4 * n) else copy_clear src p u n mem (b + 4 * j))"
    by (simp add: Let_def src cells)
  then show ?case using Suc.IH [of b j] Suc.prems ne(3) by (auto simp: less_Suc_eq)
qed simp

lemma store_sub_table:
  assumes "page_aligned u" "page_aligned b" "j < 1024" "first + n \<le> 1024"
  shows "store_range (u + 4 * first) n f mem (b + 4 * j) =
    (if b = u \<and> first \<le> j \<and> j < first + n then f (j - first) else mem (b + 4 * j))"
proof (cases "b = u \<and> first \<le> j \<and> j < first + n")
  case True
  then have e: "b + 4 * j = (u + 4 * first) + 4 * (j - first)" by linarith
  have "store_range (u + 4 * first) n f mem (b + 4 * j) = f (j - first)"
    unfolding e by (rule store_range_in) (use True in linarith)
  with True show ?thesis by simp
next
  case False
  have "b + 4 * j \<noteq> u + 4 * first + 4 * i" if "i < n" for i
  proof -
    have "b + 4 * j = u + 4 * (first + i) \<longleftrightarrow> b = u \<and> j = first + i"
      by (rule table_cell_eq) (use assms that in auto)
    then show ?thesis using False that by (auto simp: distrib_left)
  qed
  then have "store_range (u + 4 * first) n f mem (b + 4 * j) = mem (b + 4 * j)" by (rule store_range_out)
  with False show ?thesis by (simp only: if_False)
qed

lemma user_flags:
  assumes "x AND 0xFFF = 0" and e: "e = x OR PAGE_PRESENT OR PAGE_RW OR PAGE_USER"
  shows "frame_of e = unat x \<and> bit e 0 \<and> bit e 1 \<and> bit e 2"
proof -
  have e': "e = x OR 7" by (simp add: e page_flags or.assoc)
  show ?thesis using frame_of_or [OF assms(1), of 7] bit_or_low [OF assms(1), of 0 7]
    bit_or_low [OF assms(1), of 1 7] bit_or_low [OF assms(1), of 2 7] unfolding e'
    by (simp add: bit_numeral_rec)
qed

lemma window_index:
  assumes "pd_index va = pd_index vb" "page_aligned (unat vb)" "pt_index vb + n \<le> 1024"
  shows "unat vb \<le> unat va \<and> unat va < unat vb + 4096 * n \<longleftrightarrow>
      pt_index vb \<le> pt_index va \<and> pt_index va < pt_index vb + n"
    and "pt_index vb \<le> pt_index va \<Longrightarrow> unat va - unat vb = (pt_index va - pt_index vb) * 4096 + unat va mod 4096"
proof -
  have vb: "unat vb = pd_index va * 4194304 + pt_index vb * 4096"
    using va_split [of vb] assms(1,2) by (simp add: page_aligned_def)
  have va: "unat va = pd_index va * 4194304 + pt_index va * 4096 + unat va mod 4096" by (rule va_split)
  have m: "unat va mod 4096 < 4096" by simp
  show "unat vb \<le> unat va \<and> unat va < unat vb + 4096 * n \<longleftrightarrow>
      pt_index vb \<le> pt_index va \<and> pt_index va < pt_index vb + n"
    using va vb m by linarith
  show "pt_index vb \<le> pt_index va \<Longrightarrow> unat va - unat vb = (pt_index va - pt_index vb) * 4096 + unat va mod 4096"
    using va vb by (simp add: diff_mult_distrib)
qed

definition app_pages :: "u32 \<Rightarrow> nat" where
  "app_pages app_bytes = unat (drop_bit 12 (app_bytes + 0xFFF))"

text \<open>The two pages a task owns for its directory and its page table.\<close>

definition task_tables_ok :: "'l link_map_scheme \<Rightarrow> nat \<Rightarrow> nat \<Rightarrow> bool" where
  "task_tables_ok L out_pd out_user_pt \<longleftrightarrow> page_aligned out_pd \<and> page_aligned out_user_pt
     \<and> 0 < out_pd \<and> 0 < out_user_pt \<and> out_user_pt < 4294967296 \<and> out_pd \<noteq> out_user_pt
     \<and> out_pd \<notin> set (kernel_tables L) \<and> out_user_pt \<notin> set (kernel_tables L)"

definition app_view :: "u32 \<Rightarrow> u32 \<Rightarrow> nat \<Rightarrow> u32 \<Rightarrow> page_view option" where
  "app_view phys virt n va =
     (if unat virt \<le> unat va \<and> unat va < unat virt + 4096 * n
      then Some \<lparr>pv_phys = unat phys + (unat va - unat virt), pv_user = True, pv_write = True\<rparr>
      else None)"

lemma app_page_word:
  assumes "(phys :: u32) AND 0xFFF = 0" "unat phys + 4096 * n \<le> 4294967296" "i < n"
  shows "unat (phys + of_nat i * 0x1000) = unat phys + 4096 * i" "(phys + of_nat i * 0x1000) AND 0xFFF = 0"
proof -
  have e: "phys + of_nat i * 0x1000 = (of_nat (unat phys + 4096 * i) :: u32)" by simp
  show u: "unat (phys + of_nat i * 0x1000) = unat phys + 4096 * i"
    unfolding e by (rule unat_of_nat32) (use assms in linarith)
  have "page_aligned (unat phys + 4096 * i)" using assms(1) unfolding aligned_word_iff
    by (simp add: page_aligned_def)
  then show "(phys + of_nat i * 0x1000) AND 0xFFF = 0" unfolding e by (rule aligned_word)
qed

lemma build_app_directory_cells:
  assumes L: "layout_ok L" and tt: "task_tables_ok L out_pd out_user_pt"
    and ok: "paging_build_app_directory L out_pd out_user_pt phys virt bytes s = (True, s')"
    and b: "page_aligned b" and j: "j < 1024"
  shows "m_mem s' (b + 4 * j) =
    (if b = out_pd then if j = pd_index virt then of_nat out_user_pt OR PAGE_PRESENT OR PAGE_RW OR PAGE_USER
        else m_mem s (lm_page_directory L + 4 * j)
     else if b = out_user_pt then if pt_index virt \<le> j \<and> j < pt_index virt + app_pages bytes
        then (phys + of_nat (j - pt_index virt) * 0x1000) OR PAGE_PRESENT OR PAGE_RW OR PAGE_USER else 0
     else m_mem s (b + 4 * j))"
proof -
  have fit: "pt_index virt + app_pages bytes \<le> 1024" and s': "s' = s\<lparr>m_mem :=
      (store_range (out_user_pt + 4 * pt_index virt) (app_pages bytes)
        (\<lambda>i. (phys + of_nat i * 0x1000) OR PAGE_PRESENT OR PAGE_RW OR PAGE_USER)
        (copy_clear (lm_page_directory L) out_pd out_user_pt 1024 (m_mem s)))
      (out_pd + 4 * pd_index virt := of_nat out_user_pt OR PAGE_PRESENT OR PAGE_RW OR PAGE_USER)\<rparr>"
    using ok unfolding paging_build_app_directory_def pd_index_word pt_index_word app_pages_def [symmetric] Let_def
    by (auto split: if_splits)
  have al: "page_aligned (lm_page_directory L)" "page_aligned out_pd" "page_aligned out_user_pt"
    and ne: "lm_page_directory L \<noteq> out_pd" "lm_page_directory L \<noteq> out_user_pt" "out_pd \<noteq> out_user_pt"
    using tt layout_pd [OF L] by (auto simp: task_tables_ok_def kernel_tables_def)
  note cells = copy_clear_cell [OF al b ne j, of 1024] store_sub_table [OF al(3) b j fit]
  have e: "b + 4 * j = out_pd + 4 * pd_index virt \<longleftrightarrow> b = out_pd \<and> j = pd_index virt"
    using al(2) b j by simp
  have m: "m_mem s' (b + 4 * j) = (if b = out_pd \<and> j = pd_index virt
      then of_nat out_user_pt OR PAGE_PRESENT OR PAGE_RW OR PAGE_USER
      else store_range (out_user_pt + 4 * pt_index virt) (app_pages bytes)
        (\<lambda>i. (phys + of_nat i * 0x1000) OR PAGE_PRESENT OR PAGE_RW OR PAGE_USER)
        (copy_clear (lm_page_directory L) out_pd out_user_pt 1024 (m_mem s)) (b + 4 * j))"
    unfolding s' by (simp add: e)
  show ?thesis unfolding m cells(2) cells(1) [OF order_refl] using ne(3) j by presburger
qed

lemma build_app_directory_translate:
  assumes L: "layout_ok L" and k: "kmap L T (m_mem s)" and tt: "task_tables_ok L out_pd out_user_pt"
    and ok: "paging_build_app_directory L out_pd out_user_pt phys virt bytes s = (True, s')"
    and fits: "unat phys + 4096 * app_pages bytes \<le> 4294967296"
  shows "translate (m_mem s') out_pd va =
    (if pd_index va = pd_index virt then app_view phys virt (app_pages bytes) va
     else translate (m_mem s) (lm_page_directory L) va)"
proof -
  note cell = build_app_directory_cells [OF L tt ok]
  have al: "page_aligned out_pd" "page_aligned out_user_pt" "out_pd \<noteq> out_user_pt" "out_user_pt < 4294967296"
    using tt by (auto simp: task_tables_ok_def)
  have g: "virt AND 0xFFF = 0" "phys AND 0xFFF = 0" "pt_index virt + app_pages bytes \<le> 1024"
    using ok unfolding paging_build_app_directory_def pd_index_word pt_index_word app_pages_def [symmetric] Let_def
    by (auto split: if_splits)
  have virt: "page_aligned (unat virt)" using g(1) by (simp only: aligned_word_iff)
  let ?e = "of_nat out_user_pt OR PAGE_PRESENT OR PAGE_RW OR PAGE_USER :: u32"
  show ?thesis
  proof (cases "pd_index va = pd_index virt")
    case True
    have pde: "frame_of ?e = out_user_pt" "bit ?e 0" "bit ?e 1" "bit ?e 2"
      using user_flags [OF aligned_word [OF al(2)] refl] al(4) by (simp_all add: unat_of_nat32)
    have m1: "m_mem s' (out_pd + 4 * pd_index va) = ?e"
      using cell [OF al(1) pd_index_less [of va]] True by simp
    note win = window_index [OF True virt g(3)]
    show ?thesis
    proof (cases "pt_index virt \<le> pt_index va \<and> pt_index va < pt_index virt + app_pages bytes")
      case inside: True
      let ?i = "pt_index va - pt_index virt"
      let ?x = "phys + of_nat ?i * 0x1000"
      let ?pte = "?x OR PAGE_PRESENT OR PAGE_RW OR PAGE_USER"
      have i: "?i < app_pages bytes" using inside by linarith
      note x = app_page_word [OF g(2) fits i]
      have pte: "frame_of ?pte = unat phys + 4096 * ?i" "bit ?pte 0" "bit ?pte 1" "bit ?pte 2"
        using user_flags [OF x(2) refl] unfolding x(1) by simp_all
      have m2: "m_mem s' (out_user_pt + 4 * pt_index va) = ?pte"
        using cell [OF al(2) pt_index_less [of va]] al(3) inside by simp
      have "app_view phys virt (app_pages bytes) va = Some \<lparr>pv_phys = unat phys + (?i * 4096 + unat va mod 4096),
          pv_user = True, pv_write = True\<rparr>"
        using inside win(1) win(2) [OF conjunct1 [OF inside]] by (simp add: app_view_def)
      moreover have "translate (m_mem s') out_pd va = Some \<lparr>pv_phys = unat phys + (?i * 4096 + unat va mod 4096),
          pv_user = True, pv_write = True\<rparr>"
        by (simp add: translate_def walk_def m1 pde m2 pte Let_def mult.commute [of 4096] del: One_nat_def)
      ultimately show ?thesis using True by simp
    next
      case False
      have m2: "m_mem s' (out_user_pt + 4 * pt_index va) = 0"
        using cell [OF al(2) pt_index_less [of va]] al(3) False by auto
      have "app_view phys virt (app_pages bytes) va = None"
        using False win(1) by (simp add: app_view_def)
      moreover have "translate (m_mem s') out_pd va = None"
        by (simp add: translate_def walk_def m1 pde m2 Let_def)
      ultimately show ?thesis using True by simp
    qed
  next
    case False
    let ?pde = "m_mem s (lm_page_directory L + 4 * pd_index va)"
    have m1: "m_mem s' (out_pd + 4 * pd_index va) = ?pde"
      using cell [OF al(1) pd_index_less [of va]] False by simp
    have m2: "m_mem s' (frame_of ?pde + 4 * pt_index va) = m_mem s (frame_of ?pde + 4 * pt_index va)" if p: "bit ?pde 0"
    proof -
      obtain pt where pt: "T (pd_index va) = Some pt"
        using kmap_none [OF k pd_index_less [of va]] p by (cases "T (pd_index va)") auto
      have "frame_of ?pde = pt" using kmap_pde [OF k pt refl] by simp
      moreover have "is_pt L pt" "page_aligned pt" using kmap_pt [OF k pt] layout_pt [OF L] by auto
      moreover from this have "pt \<noteq> out_pd" "pt \<noteq> out_user_pt"
        using tt by (auto simp: task_tables_ok_def dest: is_pt_tables)
      ultimately show ?thesis using cell [OF _ pt_index_less [of va], of pt] by simp
    qed
    show ?thesis using False m2 by (simp add: translate_def walk_def m1 Let_def)
  qed
qed

lemma build_app_directory_kmap:
  assumes L: "layout_ok L" and k: "kmap L T (m_mem s)" and tt: "task_tables_ok L out_pd out_user_pt"
    and ok: "paging_build_app_directory L out_pd out_user_pt phys virt bytes s = (True, s')"
  shows "kmap L T (m_mem s')"
proof -
  have same: "m_mem s' (b + 4 * j) = m_mem s (b + 4 * j)" if "b \<in> set (kernel_tables L)" "j < 1024" for b j
    using build_app_directory_cells [OF L tt ok _ that(2), of b] tt L that(1)
    by (auto simp: task_tables_ok_def layout_ok_def)
  have "m_mem s' (lm_page_directory L + 4 * d) = m_mem s (lm_page_directory L + 4 * d)" if "d < 1024" for d
    using same [OF _ that] by (simp add: kernel_tables_def)
  moreover have "m_mem s' (pt + 4 * i) = m_mem s (pt + 4 * i)" if "T d = Some pt" "i < 1024" for d pt i
    using same [OF _ that(2), of pt] kmap_pt [OF k that(1)] by (auto dest: is_pt_tables)
  moreover have "d < 1024" if "T d = Some pt" for d pt using kmap_pt [OF k that] by simp
  ultimately show ?thesis using k by (simp add: kmap_def Let_def)
qed

section \<open>The interrupt descriptor table\<close>

definition gate_handler :: "idt_entry \<Rightarrow> u32" where
  "gate_handler g = ucast (offset_low g) OR push_bit 16 (ucast (offset_high g))"

definition gate_dpl :: "idt_entry \<Rightarrow> nat" where
  "gate_dpl g = unat (drop_bit 5 (type_attr g) AND 3)"

definition gate_present :: "idt_entry \<Rightarrow> bool" where
  "gate_present g = bit (type_attr g) 7"

lemma gate_handler_set:
  "gate_handler \<lparr>offset_low = ucast (h AND 0xFFFF), selector = a, gate_zero = b, type_attr = c,
     offset_high = ucast (drop_bit 16 h AND 0xFFFF)\<rparr> = h"
proof -
  have m: "(0xFFFF :: u32) = mask 16" by (simp add: mask_eq_exp_minus_1)
  show ?thesis unfolding gate_handler_def m
    by (rule bit_word_eqI) (auto simp: bit_simps)
qed

lemma fold_gates:
  "length tab = 256 \<Longrightarrow> n \<le> 256 \<Longrightarrow> v < 256 \<Longrightarrow>
   length (fold (\<lambda>v. idt_set_gate v (h v) sel fl) [0..<n] tab) = 256 \<and>
   fold (\<lambda>v. idt_set_gate v (h v) sel fl) [0..<n] tab ! v =
     (if v < n then \<lparr>offset_low = ucast (h v AND 0xFFFF), selector = sel, gate_zero = 0, type_attr = fl,
        offset_high = ucast (drop_bit 16 (h v) AND 0xFFFF)\<rparr> else tab ! v)"
  by (induction n) (auto simp: idt_set_gate_def nth_list_update less_Suc_eq)

definition wired_vectors :: "nat set" where
  "wired_vectors = {0..<48} \<union> {128, 129}"

lemma setup_idt_gate:
  assumes "v < 256" and g_def: "g = idt (paging_setup_idt L s) ! v"
  shows "gate_present g \<longleftrightarrow> v \<in> wired_vectors"
    and "v \<in> wired_vectors \<Longrightarrow> gate_handler g = lm_isr L v \<and> selector g = 0x08
      \<and> gate_dpl g = (if v = 128 then 3 else 0)"
proof -
  let ?z = "\<lparr>offset_low = 0, selector = 0, gate_zero = 0, type_attr = 0, offset_high = 0\<rparr> :: idt_entry"
  have g: "g = (if v = 129 then \<lparr>offset_low = ucast (lm_isr L 129 AND 0xFFFF), selector = 0x08, gate_zero = 0,
      type_attr = 0x8E, offset_high = ucast (drop_bit 16 (lm_isr L 129) AND 0xFFFF)\<rparr>
    else if v = 128 then \<lparr>offset_low = ucast (lm_isr L 128 AND 0xFFFF), selector = 0x08, gate_zero = 0,
      type_attr = 0xEE, offset_high = ucast (drop_bit 16 (lm_isr L 128) AND 0xFFFF)\<rparr>
    else if v < 48 then \<lparr>offset_low = ucast (lm_isr L v AND 0xFFFF), selector = 0x08, gate_zero = 0,
      type_attr = 0x8E, offset_high = ucast (drop_bit 16 (lm_isr L v) AND 0xFFFF)\<rparr>
    else ?z)"
    using assms(1) fold_gates [of "replicate 256 ?z" 48 v "lm_isr L" "0x08" "0x8E"]
    unfolding g_def paging_setup_idt_def Let_def
    by (simp add: idt_set_gate_def [of 128] idt_set_gate_def [of 129] nth_list_update del: upt_Suc)
  show "gate_present g \<longleftrightarrow> v \<in> wired_vectors"
    unfolding g by (auto simp: gate_present_def wired_vectors_def bit_numeral_rec)
  show "v \<in> wired_vectors \<Longrightarrow> gate_handler g = lm_isr L v \<and> selector g = 0x08
      \<and> gate_dpl g = (if v = 128 then 3 else 0)"
    unfolding g by (auto simp: gate_handler_set wired_vectors_def gate_dpl_def)
qed

lemma setup_idt_mem: "m_mem (paging_setup_idt L s) = m_mem s"
  by (simp add: paging_setup_idt_def Let_def del: upt_Suc)

section \<open>Frame facts of the log writers\<close>

lemma append_string_frame [simp]:
  "m_cr0 (append_string t s) = m_cr0 s" "m_cr3 (append_string t s) = m_cr3 s"
  "m_eflags (append_string t s) = m_eflags s" "m_tr (append_string t s) = m_tr s"
  "m_out (append_string t s) = m_out s"
  by (induction t arbitrary: s) (simp_all add: append_char_def)

lemma append_string_paging [simp]:
  "idt (append_string t s) = idt s" "g_tss (append_string t s) = g_tss s"
  "g_timer_ticks (append_string t s) = g_timer_ticks s" "g_timer_ready (append_string t s) = g_timer_ready s"
  by (induction t arbitrary: s) (simp_all add: append_char_def)

lemma log_serial_raw_frame [simp]:
  "m_cr0 (log_serial_raw t s) = m_cr0 s" "m_cr3 (log_serial_raw t s) = m_cr3 s"
  "m_eflags (log_serial_raw t s) = m_eflags s" "m_tr (log_serial_raw t s) = m_tr s"
  "m_out (log_serial_raw t s) = m_out s"
  by (simp_all add: log_serial_raw_def write_string_emit emit_dest_def emit_serial_def emit_screen_def)

lemma log_serial_raw_paging [simp]:
  "idt (log_serial_raw t s) = idt s" "g_tss (log_serial_raw t s) = g_tss s"
  "g_timer_ticks (log_serial_raw t s) = g_timer_ticks s" "g_timer_ready (log_serial_raw t s) = g_timer_ready s"
  by (simp_all add: log_serial_raw_def write_string_emit emit_dest_def emit_serial_def emit_screen_def)

section \<open>Properties of paging\<close>

text \<open>
  C20: After \<open>paging_init\<close> the processor runs on the kernel directory, with paging on. The directory
  maps exactly the first 16 MB and the first two 4 MB regions of the boot frame buffer, each
  address to itself, writable and for the supervisor only; every other address faults.
\<close>

theorem paging_init_identity_map:
  assumes L: "layout_ok L" and init: "paging_init L s = (r, s')"
  shows "r = 0 \<and> m_cr3 s' = of_nat (lm_page_directory L) \<and> bit (m_cr0 s') 31
    \<and> (\<forall>va. translate (m_mem s') (lm_page_directory L) va =
         (if unat va < 0x1000000 \<or> pd_index va \<in> set (take 2 (filter (\<lambda>d. d \<noteq> 0) (boot_fb_pds s)))
          then Some \<lparr>pv_phys = unat va, pv_user = False, pv_write = True\<rparr> else None))"
proof -
  define s0 where "s0 = log_serial_raw (ascii ''[paging] init'' @ [newline]) s"
  have fb: "boot_fb_pds s0 = boot_fb_pds s" by (rule boot_fb_pds_cong) (simp add: s0_def)
  obtain T where k: "kmap L T (m_mem (paging_setup_structures L s0))" "kfull T (m_mem (paging_setup_structures L s0))"
    and domT: "dom T = {0..<LOWMEM_PAGE_TABLE_COUNT}
        \<union> set (take FB_PAGE_TABLE_COUNT (filter (\<lambda>d. d \<noteq> 0) (boot_fb_pds s)))"
    using setup_structures_kmap [OF L, of s0] unfolding fb by blast
  have "0 \<in> dom T" unfolding domT by (simp add: LOWMEM_PAGE_TABLE_COUNT_def)
  then obtain pt where "T 0 = Some pt" by auto
  then have "m_mem (paging_setup_structures L s0) (lm_page_directory L) \<noteq> 0"
    using kmap_pde [OF k(1) _ refl, of 0 pt] by auto
  moreover have "selector (idt (paging_setup_idt L (paging_setup_structures L s0)) ! 14) \<noteq> 0"
    using setup_idt_gate(2) [OF _ refl, of 14 L "paging_setup_structures L s0"] by (simp add: wired_vectors_def)
  ultimately have r: "r = 0" and cr: "m_cr3 s' = of_nat (lm_page_directory L)" "bit (m_cr0 s') 31"
    and mem: "m_mem s' = m_mem (paging_setup_structures L s0)"
    using init unfolding paging_init_def s0_def [symmetric] Let_def
    by (auto simp: setup_idt_mem paging_self_test_def paging_install_tss_def enable_paging_def load_page_directory_def
        bit_or_iff bit_numeral_rec Let_def split: if_splits)
  have full: "translate (m_mem s') (lm_page_directory L) va = Some \<lparr>pv_phys = unat va, pv_user = False, pv_write = True\<rparr>"
    if dom: "pd_index va \<in> dom T" for va
  proof -
    obtain v where v: "translate (m_mem s') (lm_page_directory L) va = Some v"
      using dom kmap_mapped [OF k] unfolding mem by blast
    with kmap_translate [OF k(1) v [unfolded mem]] show ?thesis by (cases v) auto
  qed
  have none: "translate (m_mem s') (lm_page_directory L) va = None" if "pd_index va \<notin> dom T" for va
    using that kmap_none [OF k(1) pd_index_less, of va]
    by (simp add: mem domIff translate_def walk_def Let_def)
  have low: "pd_index va < LOWMEM_PAGE_TABLE_COUNT \<longleftrightarrow> unat va < 0x1000000" for va
    unfolding pd_index_def LOWMEM_PAGE_TABLE_COUNT_def by linarith
  have "pd_index va \<in> dom T \<longleftrightarrow>
      unat va < 0x1000000 \<or> pd_index va \<in> set (take 2 (filter (\<lambda>d. d \<noteq> 0) (boot_fb_pds s)))" for va
    unfolding domT by (simp add: FB_PAGE_TABLE_COUNT_def low)
  then show ?thesis using r cr full none by simp
qed

text \<open>A link map that satisfies the layout: the tables in consecutive pages from 2 MB.\<close>

definition demo_link :: link_map where
  "demo_link = \<lparr>lm_page_directory = 0x200000, lm_lowmem_page_tables = 0x201000, lm_fb_page_tables = 0x205000,
     lm_idt = 0x207000, lm_tss = 0x208000, lm_isr = (\<lambda>v. 0x100000 + of_nat v * 16)\<rparr>"

definition paging_boot :: paging_state where
  "paging_boot = timer_state.extend timer_boot
     \<lparr>idt = [], idtp = \<lparr>idt_limit = 0, idt_base = 0\<rparr>,
      g_tss = \<lparr>tss_prev = 0, tss_esp0 = 0, tss_ss0 = 0, tss_esp1 = 0, tss_ss1 = 0, tss_esp2 = 0, tss_ss2 = 0,
        tss_cr3 = 0, tss_eip = 0, tss_eflags = 0, tss_regs = [], tss_ldt = 0, tss_trap = 0, tss_iomap = 0\<rparr>,
      thunk_gdt_tss = [], interrupt_handlers_ready = False, page_fault_in_progress = False\<rparr>"

lemma demo_layout: "layout_ok demo_link"
  by (simp add: layout_ok_def kernel_tables_def demo_link_def page_aligned_def table_addr_def
      LOWMEM_PAGE_TABLE_COUNT_def FB_PAGE_TABLE_COUNT_def upt_rec)

lemma paging_boot_fb: "boot_fb_pds paging_boot = []"
proof -
  have "m_mem paging_boot a = 0" for a
    by (simp add: paging_boot_def timer_boot_def log_boot_def timer_state.defs log_state.defs)
  then show ?thesis by (simp add: boot_fb_pds_def read_phys_u32_def load_word_def)
qed

theorem paging_init_identity_map_witness:
  "translate (m_mem (snd (paging_init demo_link paging_boot))) 0x200000 0x601234
     = Some \<lparr>pv_phys = 0x601234, pv_user = False, pv_write = True\<rparr>
   \<and> translate (m_mem (snd (paging_init demo_link paging_boot))) 0x200000 0x1000000 = None"
proof -
  obtain r s where i: "paging_init demo_link paging_boot = (r, s)" by fastforce
  show ?thesis using paging_init_identity_map [OF demo_layout i] unfolding i
    by (simp add: demo_link_def paging_boot_fb)
qed

text \<open>
  C21: \<open>paging_build_app_directory\<close> isolates the application: under the directory it builds, an
  address of the 4 MB region of the application translates exactly when it lies in the window of
  the application's pages, which is backed by consecutive physical pages from its physical base, for
  user access; every other address translates exactly as in the kernel directory, so never for user
  mode. Everything the kernel maps stays mapped, and the kernel's own directory stays intact.
\<close>

theorem app_directory_isolation:
  assumes "layout_ok L" "kmap L T (m_mem s)" "task_tables_ok L out_pd out_user_pt"
    and "paging_build_app_directory L out_pd out_user_pt phys virt bytes s = (True, s')"
    and "unat phys + 4096 * app_pages bytes \<le> 4294967296"
  shows "(\<forall>va. translate (m_mem s') out_pd va =
         (if pd_index va = pd_index virt then app_view phys virt (app_pages bytes) va
          else translate (m_mem s) (lm_page_directory L) va))
    \<and> (\<forall>va v. translate (m_mem s') out_pd va = Some v \<and> pv_user v \<longleftrightarrow> app_view phys virt (app_pages bytes) va = Some v)
    \<and> (\<forall>va v. translate (m_mem s) (lm_page_directory L) va = Some v \<longrightarrow> translate (m_mem s') out_pd va = Some v)
    \<and> kmap L T (m_mem s')"
proof -
  note tr = build_app_directory_translate [OF assms]
  have g: "virt AND 0xFFF = 0" "pt_index virt + app_pages bytes \<le> 1024"
    using assms(4) unfolding paging_build_app_directory_def pd_index_word pt_index_word app_pages_def [symmetric] Let_def
    by (auto split: if_splits)
  have "m_mem s (lm_page_directory L + 4 * pd_index virt) = 0"
    using assms(4) unfolding paging_build_app_directory_def pd_index_word Let_def by (auto split: if_splits)
  then have free: "translate (m_mem s) (lm_page_directory L) va = None" if "pd_index va = pd_index virt" for va
    using that by (simp add: translate_def walk_def Let_def)
  have other: "app_view phys virt (app_pages bytes) va = None" if "pd_index va \<noteq> pd_index virt" for va
  proof (rule ccontr)
    assume "app_view phys virt (app_pages bytes) va \<noteq> None"
    then have in_win: "unat virt \<le> unat va" "unat va < unat virt + 4096 * app_pages bytes"
      by (auto simp: app_view_def split: if_splits)
    have "unat virt mod 4096 = 0" using g(1) unfolding aligned_word_iff page_aligned_def .
    then have "unat virt = pd_index virt * 4194304 + pt_index virt * 4096" using va_split [of virt] by simp
    moreover have "pt_index va < 1024" "unat va mod 4096 < 4096" by simp_all
    ultimately have "pd_index virt = pd_index va" using in_win g(2) va_split [of va] by linarith
    with that show False by simp
  qed
  have user: "pv_user v" if "app_view phys virt (app_pages bytes) va = Some v" for va v
    using that by (auto simp: app_view_def split: if_splits)
  have keep: "translate (m_mem s') out_pd va = Some v" if "translate (m_mem s) (lm_page_directory L) va = Some v" for va v
    using that tr free by (metis option.distinct(1))
  have reach: "translate (m_mem s') out_pd va = Some v \<and> pv_user v \<longleftrightarrow> app_view phys virt (app_pages bytes) va = Some v" for va v
    using tr [of va] other [of va] user kmap_translate [OF assms(2)] by (metis option.distinct(1))
  show ?thesis using tr reach keep build_app_directory_kmap [OF assms(1-4)] by blast
qed

text \<open>The map of a machine that boots without a frame buffer.\<close>

definition demo_kernel :: paging_state where
  "demo_kernel = paging_setup_structures demo_link paging_boot"

lemma demo_kernel_kmap: "\<exists>T. kmap demo_link T (m_mem demo_kernel) \<and> dom T = {0..<4}"
proof -
  show ?thesis using setup_structures_kmap [OF demo_layout, of paging_boot] paging_boot_fb
    by (auto simp: demo_kernel_def LOWMEM_PAGE_TABLE_COUNT_def)
qed

theorem app_directory_isolation_witness:
  "\<exists>s'. paging_build_app_directory demo_link 0x300000 0x301000 0x800000 0x40000000 0x1800 demo_kernel = (True, s')
    \<and> translate (m_mem s') 0x300000 0x40001004 = Some \<lparr>pv_phys = 0x801004, pv_user = True, pv_write = True\<rparr>
    \<and> translate (m_mem s') 0x300000 0x40002000 = None"
proof -
  obtain T where k: "kmap demo_link T (m_mem demo_kernel)" and d: "dom T = {0..<4}"
    using demo_kernel_kmap by blast
  have "256 \<notin> dom T" unfolding d by simp
  then have "T 256 = None" by (simp add: domIff)
  then have z: "m_mem demo_kernel (0x200000 + 4 * 256) = 0"
    using kmap_none [OF k, of 256] by (simp add: demo_link_def)
  have ix: "unat (drop_bit 22 (0x40000000 :: u32)) = 256" "unat (drop_bit 12 (0x40000000 :: u32) AND 0x3FF) = 0"
    "unat (drop_bit 12 ((0x1800 :: u32) + 0xFFF)) = 2" by simp_all
  obtain s' where b: "paging_build_app_directory demo_link 0x300000 0x301000 0x800000 0x40000000 0x1800 demo_kernel = (True, s')"
    using z by (simp add: paging_build_app_directory_def ix APP_SLOT_BYTES_def LOWMEM_PAGE_TABLE_COUNT_def demo_link_def Let_def)
  have tt: "task_tables_ok demo_link 0x300000 0x301000"
    by (simp add: task_tables_ok_def page_aligned_def kernel_tables_def demo_link_def table_addr_def
        LOWMEM_PAGE_TABLE_COUNT_def FB_PAGE_TABLE_COUNT_def upt_rec)
  have n: "app_pages 0x1800 = 2" by (simp add: app_pages_def)
  have fits: "unat (0x800000 :: u32) + 4096 * app_pages 0x1800 \<le> 4294967296" unfolding n by simp
  have pd: "pd_index 0x40001004 = pd_index 0x40000000" "pd_index 0x40002000 = pd_index 0x40000000"
    by (simp_all add: pd_index_def)
  have "translate (m_mem s') 0x300000 0x40001004 = Some \<lparr>pv_phys = 0x801004, pv_user = True, pv_write = True\<rparr>"
    "translate (m_mem s') 0x300000 0x40002000 = None"
    using app_directory_isolation [OF demo_layout k tt b fits, THEN conjunct1] by (simp_all add: pd n app_view_def)
  with b show ?thesis by blast
qed

text \<open>
  Unmapping a page of the kernel map makes exactly the addresses of that page fault: it
  reports success, the page is then reported absent, every other address translates as before.
\<close>

theorem unmap_page_exact:
  assumes "layout_ok L" "kmap L T (m_mem s)" "T (pd_index va) = Some pt"
  shows "\<exists>s'. paging_unmap_page L va s = (True, s') \<and> kmap L T (m_mem s') \<and> \<not> paging_page_present L va s'
    \<and> (\<forall>vb. translate (m_mem s') (lm_page_directory L) vb =
          (if same_page va vb then None else translate (m_mem s) (lm_page_directory L) vb))"
  using unmap_page_kmap [OF assms]
  by (force simp: translate_def page_present_kmap same_page_def)

theorem unmap_page_exact_witness:
  "\<exists>s'. paging_unmap_page demo_link 0x600000 demo_kernel = (True, s') \<and> \<not> paging_page_present demo_link 0x600000 s'"
proof -
  obtain T where k: "kmap demo_link T (m_mem demo_kernel)" and d: "dom T = {0..<4}"
    using demo_kernel_kmap by blast
  have "1 \<in> dom T" unfolding d by simp
  then obtain pt where "T (pd_index 0x600000) = Some pt" by (auto simp: pd_index_def)
  from unmap_page_exact [OF demo_layout k this] show ?thesis by blast
qed

text \<open>
  C22: The interrupt table wires vectors 0 to 47, 128 and 129 to their own stubs and leaves every
  other vector not present; the system call gate 128 is the only one user mode may invoke, so an
  application can neither forge a device interrupt nor call the yield vector 129.
\<close>

theorem idt_gates:
  assumes "v < 256" and "g = idt (paging_setup_idt L s) ! v"
  shows "(gate_present g \<longleftrightarrow> v \<in> wired_vectors)
    \<and> (v \<in> wired_vectors \<longrightarrow> gate_handler g = lm_isr L v \<and> selector g = 0x08)
    \<and> (gate_present g \<and> gate_dpl g = 3 \<longleftrightarrow> v = 128)"
  using setup_idt_gate [OF assms] by (auto simp: wired_vectors_def)

theorem idt_gates_witness:
  "gate_dpl (idt (paging_setup_idt demo_link paging_boot) ! 129) \<noteq> 3
   \<and> gate_handler (idt (paging_setup_idt demo_link paging_boot) ! 14) = 0x1000E0"
  using idt_gates [of 129, OF _ refl, of demo_link paging_boot] idt_gates [of 14, OF _ refl, of demo_link paging_boot]
  by (auto simp: wired_vectors_def demo_link_def)

end
