(* ===== verification/Scheduler_Inv.thy ===== *)
theory Scheduler_Inv
  imports Scheduler Paging_Map
begin

text \<open>
  The invariant of the scheduler and the step relation of the events that act on it. A state is
  reachable when the runtime has been initialised and events have happened in any order: timer
  ticks, yields, the two halves of a sleep (an interrupt may fall between them), exits,
  terminations, spawns and the setters.
\<close>

unbundle bit_operations_syntax

section \<open>Updating slots\<close>

lemma slot_at_upd [simp]:
  "slot_at i (upd_slot j f s) = (if i = j \<and> j < length (g_slots s) then f (slot_at j s) else slot_at i s)"
  by (cases "j < length (g_slots s)") (auto simp: slot_at_def upd_slot_def nth_list_update list_update_beyond)

lemma upd_slot_fields [simp]:
  "length (g_slots (upd_slot j f s)) = length (g_slots s)"
  "g_current (upd_slot j f s) = g_current s"
  "g_runtime_ready (upd_slot j f s) = g_runtime_ready s"
  "g_preemption_enabled (upd_slot j f s) = g_preemption_enabled s"
  "g_quantum_ticks (upd_slot j f s) = g_quantum_ticks s"
  "g_slice_ticks_left (upd_slot j f s) = g_slice_ticks_left s"
  by (simp_all add: upd_slot_def)

lemma upd_slot_machine [simp]:
  "m_mem (upd_slot j f s) = m_mem s" "m_cr3 (upd_slot j f s) = m_cr3 s"
  "m_eflags (upd_slot j f s) = m_eflags s" "g_tss (upd_slot j f s) = g_tss s"
  "g_timer_ticks (upd_slot j f s) = g_timer_ticks s" "g_timer_ready (upd_slot j f s) = g_timer_ready s"
  by (simp_all add: upd_slot_def)

lemma current_ok_upd [simp]: "current_ok (upd_slot j f s) = current_ok s"
  by (simp add: current_ok_def)

abbreviation cur :: "'a sched_state_scheme \<Rightarrow> nat" where
  "cur s \<equiv> nat (g_current s)"

abbreviation st :: "'a sched_state_scheme \<Rightarrow> nat \<Rightarrow> process_state_t" where
  "st s i \<equiv> p_state (slot_at i s)"

abbreviation fr :: "'a sched_state_scheme \<Rightarrow> nat \<Rightarrow> u32" where
  "fr s i \<equiv> irq_frame (p_context (slot_at i s))"

lemma current_ok_iff: "current_ok s \<longleftrightarrow> 0 \<le> g_current s \<and> cur s < 8"
  by (auto simp: current_ok_def sched_consts)

section \<open>The invariant\<close>

definition waiting :: "process_state_t \<Rightarrow> bool" where
  "waiting x \<longleftrightarrow> x = PROCESS_READY \<or> x = PROCESS_BLOCKED"

definition stacks_ok :: "'a sched_state_scheme \<Rightarrow> bool" where
  "stacks_ok s \<longleftrightarrow> (\<forall>i \<in> {1..<8}. let c = p_context (slot_at i s) in
     guard_page_base c = sched_slot_guard_base i
     \<and> kernel_stack_base c = sched_slot_guard_base i + SCHED_GUARD_BYTES
     \<and> kernel_stack_top c = sched_slot_guard_base i + SCHED_STACK_REGION_BYTES)"

definition sched_inv :: "'a sched_state_scheme \<Rightarrow> bool" where
  "sched_inv s \<longleftrightarrow> length (g_slots s) = 8 \<and> g_runtime_ready s \<and> current_ok s
     \<and> (\<forall>i < 8. p_pid (slot_at i s) = int i)
     \<and> stacks_ok s
     \<and> (st s 1 = PROCESS_READY \<or> st s 1 = PROCESS_RUNNING)
     \<and> (\<forall>i < 8. i \<noteq> cur s \<longrightarrow> st s i \<noteq> PROCESS_RUNNING)
     \<and> (\<forall>i < 8. i \<noteq> cur s \<longrightarrow> waiting (st s i) \<longrightarrow> fr s i \<noteq> 0)"

lemma sched_invD:
  assumes "sched_inv s"
  shows "length (g_slots s) = 8" "g_runtime_ready s" "current_ok s" "0 \<le> g_current s" "cur s < 8"
    "i < 8 \<Longrightarrow> p_pid (slot_at i s) = int i" "stacks_ok s"
    "st s 1 = PROCESS_READY \<or> st s 1 = PROCESS_RUNNING"
    "i < 8 \<Longrightarrow> i \<noteq> cur s \<Longrightarrow> st s i \<noteq> PROCESS_RUNNING"
    "i < 8 \<Longrightarrow> i \<noteq> cur s \<Longrightarrow> waiting (st s i) \<Longrightarrow> fr s i \<noteq> 0"
  using assms by (auto simp: sched_inv_def current_ok_iff)

text \<open>An update of one slot keeps the invariant when it keeps what the invariant says of that slot.\<close>

definition keeps_slot :: "nat \<Rightarrow> bool \<Rightarrow> process \<Rightarrow> process \<Rightarrow> bool" where
  "keeps_slot i is_cur p q \<longleftrightarrow> p_pid q = p_pid p
     \<and> guard_page_base (p_context q) = guard_page_base (p_context p)
     \<and> kernel_stack_base (p_context q) = kernel_stack_base (p_context p)
     \<and> kernel_stack_top (p_context q) = kernel_stack_top (p_context p)
     \<and> (i = 1 \<longrightarrow> p_state q = PROCESS_READY \<or> p_state q = PROCESS_RUNNING)
     \<and> (\<not> is_cur \<longrightarrow> p_state q \<noteq> PROCESS_RUNNING \<and> (waiting (p_state q) \<longrightarrow> irq_frame (p_context q) \<noteq> 0))"

lemma stacks_ok_upd:
  assumes "stacks_ok s" "guard_page_base (p_context (f (slot_at j s))) = guard_page_base (p_context (slot_at j s))"
    "kernel_stack_base (p_context (f (slot_at j s))) = kernel_stack_base (p_context (slot_at j s))"
    "kernel_stack_top (p_context (f (slot_at j s))) = kernel_stack_top (p_context (slot_at j s))"
  shows "stacks_ok (upd_slot j f s)"
  using assms by (auto simp: stacks_ok_def Let_def)

lemma sched_inv_upd:
  assumes inv: "sched_inv s" and j: "j < 8" and k: "keeps_slot j (j = cur s) (slot_at j s) (f (slot_at j s))"
  shows "sched_inv (upd_slot j f s)"
proof -
  note i = sched_invD [OF inv]
  have "stacks_ok (upd_slot j f s)" using k by (intro stacks_ok_upd i(7)) (auto simp: keeps_slot_def)
  then show ?thesis unfolding sched_inv_def using i j k by (auto simp: keeps_slot_def)
qed

text \<open>Changes outside the slots.\<close>

lemma sched_inv_frame:
  "sched_inv s \<Longrightarrow> g_slots t = g_slots s \<Longrightarrow> g_current t = g_current s \<Longrightarrow> g_runtime_ready t = g_runtime_ready s
   \<Longrightarrow> sched_inv t"
  by (simp add: sched_inv_def stacks_ok_def slot_at_def current_ok_def)

section \<open>Choosing the next thread\<close>

lemma find_Some: "find P xs = Some x \<Longrightarrow> x \<in> set xs \<and> P x"
  by (induction xs) (auto split: if_splits)

lemma find_None: "find P xs = None \<longleftrightarrow> (\<forall>x \<in> set xs. \<not> P x)"
  by (induction xs) auto

lemma ring_ne:
  assumes "c < 8" "k \<in> {1..<8}" shows "(c + k) mod 8 \<noteq> (c :: nat)"
proof
  assume e: "(c + k) mod 8 = c"
  show False using assms e by (cases "c + k < 8") (auto simp: mod_if split: if_splits)
qed

lemma find_ready_Some:
  assumes "current_ok s" "sched_find_ready_non_idle s = Some n"
  shows "n < 8 \<and> n \<noteq> 1 \<and> n \<noteq> cur s \<and> st s n = PROCESS_READY"
proof -
  have c: "cur s < 8" "\<not> g_current s < 0" using assms(1) by (auto simp: current_ok_iff)
  have "find (\<lambda>idx. idx \<noteq> 1 \<and> st s idx = PROCESS_READY) (map (\<lambda>step. (cur s + step) mod 8) [1..<8]) = Some n"
    using assms(2) c by (simp add: sched_find_ready_non_idle_def sched_consts del: upt_Suc)
  from find_Some [OF this] obtain k where "k \<in> {1..<8}" "n = (cur s + k) mod 8" "n \<noteq> 1 \<and> st s n = PROCESS_READY"
    by auto
  then show ?thesis using ring_ne [OF c(1)] by auto
qed

lemma ring_all:
  assumes "c < 8" "p < 8" "p \<noteq> (c :: nat)"
  shows "\<exists>k \<in> {1..<8}. (c + k) mod 8 = p"
proof (cases "c < p")
  case True
  then show ?thesis using assms by (intro bexI [of _ "p - c"]) auto
next
  case False
  then show ?thesis using assms by (intro bexI [of _ "p + 8 - c"]) (auto simp: mod_if)
qed

lemma find_ready_None:
  assumes "current_ok s" "sched_find_ready_non_idle s = None" "p < 8" "p \<noteq> 1" "p \<noteq> cur s"
  shows "st s p \<noteq> PROCESS_READY"
proof -
  obtain k where k: "k \<in> {1..<8}" "(cur s + k) mod 8 = p"
    using ring_all [of "cur s" p] assms by (auto simp: current_ok_iff)
  then have p: "p \<in> set (map (\<lambda>step. (cur s + step) mod 8) [1..<8])" by auto
  have "find (\<lambda>idx. idx \<noteq> 1 \<and> st s idx = PROCESS_READY) (map (\<lambda>step. (cur s + step) mod 8) [1..<8]) = None"
    using assms(1,2) by (simp add: sched_find_ready_non_idle_def sched_consts current_ok_iff del: upt_Suc)
  with p assms(4) show ?thesis unfolding find_None by blast
qed

lemma pick_next_inv:
  assumes inv: "sched_inv s"
  shows "\<exists>n < 8. sched_pick_next s = Some n \<and> (n \<noteq> cur s \<longrightarrow> st s n = PROCESS_READY)
     \<and> (n = cur s \<longrightarrow> st s n = PROCESS_RUNNING \<or> n = 1)"
proof (cases "sched_find_ready_non_idle s")
  case (Some n)
  then show ?thesis using find_ready_Some [OF sched_invD(3) [OF inv] Some] by (simp add: sched_pick_next_def)
next
  case None
  note i = sched_invD [OF inv]
  show ?thesis
  proof (cases "st s (cur s) = PROCESS_RUNNING")
    case True
    then show ?thesis using None i by (simp add: sched_pick_next_def)
  next
    case False
    then show ?thesis using None i(8) i(9) [of 1]
      by (auto simp: sched_pick_next_def SCHED_IDLE_PID_def)
  qed
qed

section \<open>Switching\<close>

text \<open>What a switch to slot \<open>n\<close> does.\<close>

definition switched :: "'l sched_link_scheme \<Rightarrow> nat \<Rightarrow> 'a sched_state_scheme \<Rightarrow> 'a sched_state_scheme \<Rightarrow> bool" where
  "switched L n s t \<longleftrightarrow> g_current t = int n \<and> g_slice_ticks_left t = g_quantum_ticks t
     \<and> m_cr3 t = (if page_directory (p_context (slot_at n s)) = 0 then of_nat (lm_page_directory L)
                  else page_directory (p_context (slot_at n s)))
     \<and> tss_esp0 (g_tss t) = kernel_stack_top (p_context (slot_at n s))
     \<and> st t n = PROCESS_RUNNING \<and> m_mem t = m_mem s"

lemma activate_slot_state:
  "n < length (g_slots s) \<Longrightarrow> sched_activate_slot L n s = (fr s n,
     (upd_slot n (\<lambda>p. p\<lparr>p_state := PROCESS_RUNNING, p_switch_count := p_switch_count p + 1\<rparr>) s)
       \<lparr>g_current := int n, g_slice_ticks_left := g_quantum_ticks s,
        m_cr3 := (if page_directory (p_context (slot_at n s)) = 0 then of_nat (lm_page_directory L)
                  else page_directory (p_context (slot_at n s))),
        g_tss := (g_tss s)\<lparr>tss_esp0 := kernel_stack_top (p_context (slot_at n s))\<rparr>\<rparr>)"
  by (simp add: sched_activate_slot_def Let_def paging_activate_directory_def load_page_directory_def
      paging_set_kernel_stack_top_def slot_at_def upd_slot_def)

lemma slot_at_frame [simp]:
  "slot_at i (s\<lparr>g_current := c\<rparr>) = slot_at i s" "slot_at i (s\<lparr>g_slice_ticks_left := q\<rparr>) = slot_at i s"
  "slot_at i (s\<lparr>m_cr3 := r\<rparr>) = slot_at i s" "slot_at i (s\<lparr>g_tss := v\<rparr>) = slot_at i s"
  "slot_at i (s\<lparr>m_mem := m\<rparr>) = slot_at i s" "slot_at i (s\<lparr>m_eflags := e\<rparr>) = slot_at i s"
  "slot_at i (s\<lparr>g_timer_ticks := k\<rparr>) = slot_at i s"
  by (simp_all add: slot_at_def)

lemma activate_slot_inv:
  assumes len: "length (g_slots s) = 8" and n: "n < 8" and rdy: "g_runtime_ready s"
    and pid: "\<forall>i < 8. p_pid (slot_at i s) = int i" and stk: "stacks_ok s"
    and idle: "st s 1 = PROCESS_READY \<or> st s 1 = PROCESS_RUNNING"
    and run: "\<forall>i < 8. i \<noteq> n \<longrightarrow> st s i \<noteq> PROCESS_RUNNING"
    and frs: "\<forall>i < 8. i \<noteq> n \<longrightarrow> waiting (st s i) \<longrightarrow> fr s i \<noteq> 0"
  shows "sched_inv (snd (sched_activate_slot L n s))"
  using assms unfolding activate_slot_state [of n s L, unfolded len, OF n] sched_inv_def
  by (auto simp: current_ok_def sched_consts stacks_ok_def Let_def)

lemma pick_next_cong:
  assumes "\<And>i. st s i = st t i" "g_current s = g_current t"
  shows "sched_pick_next s = sched_pick_next t"
  unfolding sched_pick_next_def sched_find_ready_non_idle_def by (simp only: assms)

lemma find_ready_cong:
  assumes "\<And>i. st s i = st t i" "g_current s = g_current t"
  shows "sched_find_ready_non_idle s = sched_find_ready_non_idle t"
  unfolding sched_find_ready_non_idle_def by (simp only: assms)

abbreviation save_frame :: "u32 \<Rightarrow> process \<Rightarrow> process" where
  "save_frame f p \<equiv> p\<lparr>p_context := (p_context p)\<lparr>irq_frame := f\<rparr>\<rparr>"

text \<open>The interrupted thread keeps running.\<close>

definition stays :: "u32 \<Rightarrow> 'a sched_state_scheme \<Rightarrow> u32 \<times> 'a sched_state_scheme \<Rightarrow> bool" where
  "stays f s r \<longleftrightarrow> sched_pick_next s = Some (cur s) \<and> fst r = 0 \<and> g_current (snd r) = g_current s \<and> sched_inv (snd r) \<and> m_mem (snd r) = m_mem s
     \<and> g_timer_ticks (snd r) = g_timer_ticks s \<and> g_timer_ready (snd r) = g_timer_ready s
     \<and> (\<forall>i. i \<noteq> cur s \<longrightarrow> slot_at i (snd r) = slot_at i s)
     \<and> st (snd r) (cur s) = (if st s (cur s) = PROCESS_READY then PROCESS_RUNNING else st s (cur s))"

text \<open>Thread \<open>n\<close> takes over, and the interrupted one can be resumed at \<open>f\<close>.\<close>

definition switches :: "'l sched_link_scheme \<Rightarrow> u32 \<Rightarrow> nat \<Rightarrow> 'a sched_state_scheme \<Rightarrow> u32 \<times> 'a sched_state_scheme \<Rightarrow> bool" where
  "switches L f n s r \<longleftrightarrow> n < 8 \<and> n \<noteq> cur s \<and> st s n = PROCESS_READY \<and> sched_pick_next s = Some n
     \<and> fst r = fr s n \<and> fr s n \<noteq> 0 \<and> switched L n s (snd r) \<and> sched_inv (snd r)
     \<and> g_timer_ticks (snd r) = g_timer_ticks s \<and> g_timer_ready (snd r) = g_timer_ready s
     \<and> (\<forall>i. i \<noteq> cur s \<longrightarrow> i \<noteq> n \<longrightarrow> slot_at i (snd r) = slot_at i s)
     \<and> fr (snd r) n = fr s n
     \<and> fr (snd r) (cur s) = f
     \<and> st (snd r) (cur s) = (if st s (cur s) = PROCESS_RUNNING then PROCESS_READY else st s (cur s))"

lemma switchesD:
  assumes "switches L f n s r"
  shows "n < 8" "n \<noteq> cur s" "st s n = PROCESS_READY" "sched_pick_next s = Some n" "fst r = fr s n" "fr s n \<noteq> 0"
    "g_current (snd r) = int n" "sched_inv (snd r)" "fr (snd r) (cur s) = f"
    "st (snd r) (cur s) = (if st s (cur s) = PROCESS_RUNNING then PROCESS_READY else st s (cur s))"
    "i \<noteq> cur s \<Longrightarrow> i \<noteq> n \<Longrightarrow> slot_at i (snd r) = slot_at i s" "st (snd r) n = PROCESS_RUNNING"
  using assms unfolding switches_def switched_def by blast+

lemma staysD:
  assumes "stays f s r" shows "fst r = 0" "g_current (snd r) = g_current s" "sched_pick_next s = Some (cur s)"
  using assms unfolding stays_def by blast+

lemma switch_from_frame_cases:
  assumes inv: "sched_inv s" and f: "f \<noteq> 0"
  shows "stays f s (sched_switch_from_frame L f s) \<or> (\<exists>n. switches L f n s (sched_switch_from_frame L f s))"
proof -
  note i = sched_invD [OF inv]
  let ?c = "cur s" and ?s1 = "upd_slot (cur s) (save_frame f) s"
  obtain n where n: "n < 8" "sched_pick_next s = Some n" "n \<noteq> ?c \<longrightarrow> st s n = PROCESS_READY"
    "n = ?c \<longrightarrow> st s n = PROCESS_RUNNING \<or> n = 1" using pick_next_inv [OF inv] by blast
  have p1: "sched_pick_next ?s1 = Some n" using n(2) pick_next_cong [of ?s1 s] by simp
  have inv1: "sched_inv ?s1" by (rule sched_inv_upd [OF inv i(5)]) (use i f in \<open>auto simp: keeps_slot_def\<close>)
  show ?thesis
  proof (cases "n = ?c")
    case True
    let ?t = "if st ?s1 ?c = PROCESS_READY then upd_slot ?c (\<lambda>p. p\<lparr>p_state := PROCESS_RUNNING\<rparr>) ?s1 else ?s1"
    have eq: "sched_switch_from_frame L f s = (0, ?t)"
      using i True p1 by (simp add: sched_switch_from_frame_def Let_def del: slot_at_upd)
    have "sched_inv (upd_slot ?c (\<lambda>p. p\<lparr>p_state := PROCESS_RUNNING\<rparr>) ?s1)"
      by (rule sched_inv_upd [OF inv1 i(5)]) (use i in \<open>auto simp: keeps_slot_def\<close>)
    then have "sched_inv ?t" using inv1 by simp
    then show ?thesis using i n(2) True unfolding eq by (intro disjI1) (auto simp: stays_def)
  next
    case False
    define s2 where "s2 = (if st ?s1 ?c = PROCESS_RUNNING then upd_slot ?c (\<lambda>p. p\<lparr>p_state := PROCESS_READY\<rparr>) ?s1 else ?s1)"
    have ne: "int n \<noteq> g_current s" using False i(4) by auto
    have eq: "sched_switch_from_frame L f s = sched_activate_slot L n s2"
      using i(3) ne p1 by (simp add: sched_switch_from_frame_def Let_def s2_def del: slot_at_upd)
    have len: "length (g_slots s2) = 8" "g_runtime_ready s2" using i(1,2) by (simp_all add: s2_def)
    have keep: "m_mem s2 = m_mem s" "g_timer_ticks s2 = g_timer_ticks s" "g_timer_ready s2 = g_timer_ready s"
      "g_quantum_ticks s2 = g_quantum_ticks s" "g_tss s2 = g_tss s" by (simp_all add: s2_def)
    have other: "slot_at j s2 = slot_at j s" if "j \<noteq> ?c" for j using that by (simp add: s2_def)
    have cst: "st s2 ?c = (if st s ?c = PROCESS_RUNNING then PROCESS_READY else st s ?c)" "fr s2 ?c = f"
      using i by (simp_all add: s2_def)
    have stk: "stacks_ok s2" using i(7) by (auto simp: stacks_ok_def Let_def s2_def)
    have "p_pid (slot_at ?c s2) = int ?c" using i(1,5,6) by (simp add: s2_def)
    then have pid: "\<forall>j < 8. p_pid (slot_at j s2) = int j" using i(6) other by metis
    have idle: "st s2 1 = PROCESS_READY \<or> st s2 1 = PROCESS_RUNNING"
      using i(8) cst(1) other [of 1] by (cases "?c = 1") (auto split: if_splits)
    have run: "\<forall>j < 8. j \<noteq> n \<longrightarrow> st s2 j \<noteq> PROCESS_RUNNING"
      using i(9) cst(1) other by (metis process_state_t.distinct(9))
    have frs: "\<forall>j < 8. j \<noteq> n \<longrightarrow> waiting (st s2 j) \<longrightarrow> fr s2 j \<noteq> 0"
      using i(10) cst(2) other f by metis
    have inv2: "sched_inv (snd (sched_activate_slot L n s2))"
      by (rule activate_slot_inv [OF len(1) n(1) len(2) pid stk idle run frs])
    have n0: "fr s n \<noteq> 0" "st s n = PROCESS_READY" using i(10) [OF n(1) False] n(3) False by (simp_all add: waiting_def)
    have on: "slot_at n s2 = slot_at n s" using other False by blast
    have "n < length (g_slots s2)" using len n(1) by simp
    note act = activate_slot_state [OF this, of L]
    have "switched L n s (snd (sched_activate_slot L n s2))"
      using len n(1) by (simp add: switched_def act on keep)
    moreover have "slot_at j (snd (sched_activate_slot L n s2)) = slot_at j s2" if "j \<noteq> n" for j
      using that by (simp add: act)
    moreover have "fr (snd (sched_activate_slot L n s2)) n = fr s n" using len n(1) by (simp add: act on)
    ultimately have "switches L f n s (sched_activate_slot L n s2)"
      unfolding switches_def using inv2 n(1,2) n0 False cst other
      by (simp add: act on keep)
    then show ?thesis unfolding eq by blast
  qed
qed

section \<open>Each operation keeps the invariant\<close>

lemma log_slots [simp]:
  "g_slots (log_serial_raw m s) = g_slots s" "g_current (log_serial_raw m s) = g_current s"
  "g_runtime_ready (log_serial_raw m s) = g_runtime_ready s" "g_quantum_ticks (log_serial_raw m s) = g_quantum_ticks s"
  "g_preemption_enabled (log_serial_raw m s) = g_preemption_enabled s"
proof -
  have a: "g_slots (append_string t u) = g_slots u \<and> g_current (append_string t u) = g_current u
    \<and> g_runtime_ready (append_string t u) = g_runtime_ready u \<and> g_quantum_ticks (append_string t u) = g_quantum_ticks u
    \<and> g_preemption_enabled (append_string t u) = g_preemption_enabled u"
    for t and u :: "'a sched_state_scheme"
    by (induction t arbitrary: u) (simp_all add: append_char_def)
  show "g_slots (log_serial_raw m s) = g_slots s" "g_current (log_serial_raw m s) = g_current s"
    "g_runtime_ready (log_serial_raw m s) = g_runtime_ready s" "g_quantum_ticks (log_serial_raw m s) = g_quantum_ticks s"
    "g_preemption_enabled (log_serial_raw m s) = g_preemption_enabled s"
    using a by (simp_all add: log_serial_raw_def write_string_emit emit_dest_def emit_serial_def emit_screen_def)
qed

lemma slot_at_log [simp]:
  "slot_at i (log_serial_raw m s) = slot_at i s" "slot_at i (s\<lparr>g_quantum_ticks := q\<rparr>) = slot_at i s"
  "slot_at i (s\<lparr>g_preemption_enabled := b\<rparr>) = slot_at i s"
  by (simp_all add: slot_at_def)

lemma fold_upd_slot:
  "distinct is \<Longrightarrow> (\<forall>i \<in> set is. i < length (g_slots s)) \<Longrightarrow>
   slot_at j (fold (\<lambda>i. upd_slot i f) is s) = (if j \<in> set is then f (slot_at j s) else slot_at j s)"
  by (induction "is" arbitrary: s) auto

lemma fold_upd_slot_fields:
  "length (g_slots (fold (\<lambda>i. upd_slot i f) is s)) = length (g_slots s)
   \<and> g_current (fold (\<lambda>i. upd_slot i f) is s) = g_current s
   \<and> g_runtime_ready (fold (\<lambda>i. upd_slot i f) is s) = g_runtime_ready s
   \<and> g_preemption_enabled (fold (\<lambda>i. upd_slot i f) is s) = g_preemption_enabled s
   \<and> g_quantum_ticks (fold (\<lambda>i. upd_slot i f) is s) = g_quantum_ticks s
   \<and> g_slice_ticks_left (fold (\<lambda>i. upd_slot i f) is s) = g_slice_ticks_left s
   \<and> m_mem (fold (\<lambda>i. upd_slot i f) is s) = m_mem s
   \<and> g_timer_ticks (fold (\<lambda>i. upd_slot i f) is s) = g_timer_ticks s
   \<and> g_timer_ready (fold (\<lambda>i. upd_slot i f) is s) = g_timer_ready s"
  by (induction "is" arbitrary: s) auto

lemma wake_sleepers_slot:
  "length (g_slots s) = 8 \<Longrightarrow> i < 8 \<Longrightarrow> slot_at i (sched_wake_sleepers now s) = wake_process now (slot_at i s)"
  unfolding sched_wake_sleepers_def sched_consts by (subst fold_upd_slot) auto

lemma wake_sleepers_fields [simp]:
  "length (g_slots (sched_wake_sleepers now s)) = length (g_slots s)"
  "g_current (sched_wake_sleepers now s) = g_current s"
  "g_runtime_ready (sched_wake_sleepers now s) = g_runtime_ready s"
  "g_preemption_enabled (sched_wake_sleepers now s) = g_preemption_enabled s"
  "g_quantum_ticks (sched_wake_sleepers now s) = g_quantum_ticks s"
  "g_slice_ticks_left (sched_wake_sleepers now s) = g_slice_ticks_left s"
  "m_mem (sched_wake_sleepers now s) = m_mem s"
  "g_timer_ticks (sched_wake_sleepers now s) = g_timer_ticks s"
  "g_timer_ready (sched_wake_sleepers now s) = g_timer_ready s"
  by (simp_all add: sched_wake_sleepers_def fold_upd_slot_fields)

lemma wake_process_keeps:
  "p_pid (wake_process now p) = p_pid p" "p_context (wake_process now p) = p_context p"
  "p_state (wake_process now p) = PROCESS_RUNNING \<longleftrightarrow> p_state p = PROCESS_RUNNING"
  "waiting (p_state (wake_process now p)) \<longleftrightarrow> waiting (p_state p)"
  "p_state p = PROCESS_READY \<Longrightarrow> wake_process now p = p"
  by (auto simp: wake_process_def waiting_def)

lemma wake_sleepers_inv:
  assumes inv: "sched_inv s" shows "sched_inv (sched_wake_sleepers now s)"
proof -
  note i = sched_invD [OF inv]
  have sl: "slot_at j (sched_wake_sleepers now s) = wake_process now (slot_at j s)" if "j < 8" for j
    using wake_sleepers_slot [OF i(1) that] .
  have "stacks_ok (sched_wake_sleepers now s)"
    using i(7) by (simp add: stacks_ok_def sl wake_process_keeps)
  moreover have "st (sched_wake_sleepers now s) 1 = st s 1"
    using i(8) by (auto simp: sl wake_process_def)
  ultimately show ?thesis using i
    by (auto simp: sched_inv_def sl wake_process_keeps current_ok_def)
qed

lemma timer_on_tick_fields [simp]:
  "g_slots (timer_on_tick s) = g_slots s" "g_current (timer_on_tick s) = g_current s"
  "g_runtime_ready (timer_on_tick s) = g_runtime_ready s" "g_quantum_ticks (timer_on_tick s) = g_quantum_ticks s"
  "g_preemption_enabled (timer_on_tick s) = g_preemption_enabled s"
  "g_slice_ticks_left (timer_on_tick s) = g_slice_ticks_left s"
  "m_mem (timer_on_tick s) = m_mem s" "g_timer_ready (timer_on_tick s) = g_timer_ready s"
  by (simp_all add: timer_on_tick_def)

lemma timer_on_tick_slots [simp]: "slot_at i (timer_on_tick s) = slot_at i s"
  by (simp add: slot_at_def)

text \<open>The state at the point of a tick where the decision to switch is taken.\<close>

definition tick_prefix :: "'a sched_state_scheme \<Rightarrow> 'a sched_state_scheme" where
  "tick_prefix s =
     (let s = timer_on_tick s;
          s = upd_slot (cur s) (\<lambda>p. p\<lparr>p_runtime_ticks := p_runtime_ticks p + 1\<rparr>) s
      in sched_wake_sleepers (timer_get_ticks s) s)"

lemma tick_prefix_inv: "sched_inv s \<Longrightarrow> sched_inv (tick_prefix s)"
proof -
  assume inv: "sched_inv s"
  then have inv1: "sched_inv (timer_on_tick s)" by (rule sched_inv_frame) simp_all
  note i = sched_invD [OF inv1]
  have "sched_inv (upd_slot (cur s) (\<lambda>p. p\<lparr>p_runtime_ticks := p_runtime_ticks p + 1\<rparr>) (timer_on_tick s))"
    using i by (intro sched_inv_upd [OF inv1]) (auto simp: keeps_slot_def)
  then show ?thesis unfolding tick_prefix_def Let_def by (simp add: wake_sleepers_inv)
qed

lemma tick_prefix_slot:
  assumes "sched_inv s" "i < 8"
  shows "slot_at i (tick_prefix s) = wake_process (g_timer_ticks (timer_on_tick s))
    (if i = cur s then (slot_at i s)\<lparr>p_runtime_ticks := p_runtime_ticks (slot_at i s) + 1\<rparr> else slot_at i s)"
  using assms sched_invD [OF assms(1)]
  by (simp add: tick_prefix_def Let_def wake_sleepers_slot timer_get_ticks_def)

lemma tick_prefix_fields [simp]:
  "g_current (tick_prefix s) = g_current s" "m_mem (tick_prefix s) = m_mem s"
  "g_timer_ticks (tick_prefix s) = g_timer_ticks (timer_on_tick s)" "g_timer_ready (tick_prefix s) = g_timer_ready s"
  "g_quantum_ticks (tick_prefix s) = g_quantum_ticks s" "g_preemption_enabled (tick_prefix s) = g_preemption_enabled s"
  "g_slice_ticks_left (tick_prefix s) = g_slice_ticks_left s"
  by (simp_all add: tick_prefix_def Let_def)

text \<open>A tick is the prefix, a new slice counter, and then a switch or nothing.\<close>

lemma timer_tick_cases:
  assumes inv: "sched_inv s" and f: "f \<noteq> 0"
  shows "\<exists>q. scheduler_on_timer_tick L f s = (0, (tick_prefix s)\<lparr>g_slice_ticks_left := q\<rparr>)
    \<or> scheduler_on_timer_tick L f s = sched_switch_from_frame L f ((tick_prefix s)\<lparr>g_slice_ticks_left := q\<rparr>)"
proof -
  note i = sched_invD [OF inv]
  have ok: "current_ok (timer_on_tick s)" using i(3) by (simp add: current_ok_def)
  have cond: "\<not> (f = 0 \<or> \<not> g_runtime_ready (timer_on_tick s) \<or> \<not> current_ok (timer_on_tick s))"
    using ok f i(2) by simp
  define u where "u = tick_prefix s"
  define forced where "forced = (if g_current u = int SCHED_IDLE_PID then sched_find_ready_non_idle u else None)"
  define v where "v = (if forced = None \<and> g_slice_ticks_left u > 0
    then u\<lparr>g_slice_ticks_left := g_slice_ticks_left u - 1\<rparr> else u)"
  have eq: "scheduler_on_timer_tick L f s =
    (if \<not> g_preemption_enabled u \<or> g_quantum_ticks u = 0
     then (if forced \<noteq> None then sched_switch_from_frame L f u else (0, u))
     else if forced = None \<and> g_slice_ticks_left v > 0 then (0, v)
     else sched_switch_from_frame L f (v\<lparr>g_slice_ticks_left := g_quantum_ticks v\<rparr>))"
    unfolding scheduler_on_timer_tick_def v_def forced_def u_def tick_prefix_def Let_def if_not_P [OF cond]
    by (rule refl)
  have "v = u\<lparr>g_slice_ticks_left := (if forced = None \<and> g_slice_ticks_left u > 0
      then g_slice_ticks_left u - 1 else g_slice_ticks_left u)\<rparr>" unfolding v_def by simp
  then obtain q where v: "v = u\<lparr>g_slice_ticks_left := q\<rparr>" by blast
  have "v\<lparr>g_slice_ticks_left := k\<rparr> = u\<lparr>g_slice_ticks_left := k\<rparr>" for k unfolding v by simp
  then have "scheduler_on_timer_tick L f s \<in> {sched_switch_from_frame L f u, (0, u), (0, v),
      sched_switch_from_frame L f (u\<lparr>g_slice_ticks_left := g_quantum_ticks v\<rparr>)}"
    unfolding eq by (auto split: if_splits)
  then consider "scheduler_on_timer_tick L f s = sched_switch_from_frame L f u"
    | "scheduler_on_timer_tick L f s = (0, u)" | "scheduler_on_timer_tick L f s = (0, v)"
    | "scheduler_on_timer_tick L f s = sched_switch_from_frame L f (u\<lparr>g_slice_ticks_left := g_quantum_ticks v\<rparr>)"
    by blast
  then show ?thesis
  proof cases
    case 1
    then show ?thesis by (intro exI [of _ "g_slice_ticks_left u"] disjI2) (simp add: u_def del: tick_prefix_fields)
  next
    case 2
    then show ?thesis by (intro exI [of _ "g_slice_ticks_left u"] disjI1) (simp add: u_def del: tick_prefix_fields)
  next
    case 3
    then show ?thesis unfolding v u_def by blast
  next
    case 4
    then show ?thesis unfolding u_def by blast
  qed
qed

lemma slice_inv: "sched_inv s \<Longrightarrow> sched_inv (s\<lparr>g_slice_ticks_left := q\<rparr>)"
  by (rule sched_inv_frame) simp_all

lemma switch_from_frame_inv:
  "sched_inv s \<Longrightarrow> f \<noteq> 0 \<Longrightarrow> sched_inv (snd (sched_switch_from_frame L f s))"
  using switch_from_frame_cases [of s f L] by (auto simp: stays_def switches_def)

lemma timer_tick_inv:
  assumes inv: "sched_inv s" and f: "f \<noteq> 0"
  shows "sched_inv (snd (scheduler_on_timer_tick L f s))"
  using timer_tick_cases [OF inv f, of L] switch_from_frame_inv [OF slice_inv [OF tick_prefix_inv [OF inv]] f]
    slice_inv [OF tick_prefix_inv [OF inv]]
  by (metis snd_conv)

lemma on_yield_eq:
  "sched_inv s \<Longrightarrow> f \<noteq> 0 \<Longrightarrow> scheduler_on_yield L f s = sched_switch_from_frame L f s"
  using sched_invD(2,3) [of s] by (simp add: scheduler_on_yield_def)

lemma yield_eq: "sched_inv s \<Longrightarrow> f \<noteq> 0 \<Longrightarrow> scheduler_yield L f s = sched_switch_from_frame L f s"
  using sched_invD(2) [of s] by (simp add: scheduler_yield_def on_yield_eq)

lemma sleep_block_inv: "sched_inv s \<Longrightarrow> cur s \<noteq> 1 \<Longrightarrow> sched_inv (sleep_block ticks s)"
  using sched_invD [of s] by (auto simp: sleep_block_def keeps_slot_def intro!: sched_inv_upd)

lemma mark_terminated_keeps:
  "i \<noteq> 1 \<Longrightarrow> keeps_slot i b p (sched_mark_terminated L p)"
  by (simp add: keeps_slot_def sched_mark_terminated_def waiting_def)

lemma terminate_inv: "sched_inv s \<Longrightarrow> sched_inv (snd (scheduler_terminate_process L pid s))"
  unfolding scheduler_terminate_process_def
  by (auto simp: sched_consts intro!: sched_inv_upd mark_terminated_keeps)

section \<open>Exit\<close>

lemma exit_pick_next:
  assumes inv: "sched_inv s" and c: "cur s \<noteq> 1" and t: "st s (cur s) \<noteq> PROCESS_RUNNING"
  shows "\<exists>n < 8. sched_pick_next s = Some n \<and> n \<noteq> cur s \<and> st s n = PROCESS_READY \<and> fr s n \<noteq> 0"
proof -
  obtain n where n: "n < 8" "sched_pick_next s = Some n" "n \<noteq> cur s \<longrightarrow> st s n = PROCESS_READY"
    "n = cur s \<longrightarrow> st s n = PROCESS_RUNNING \<or> n = 1" using pick_next_inv [OF inv] by blast
  have "n \<noteq> cur s" using n(4) c t by auto
  then show ?thesis using n sched_invD(10) [OF inv n(1)] by (auto simp: waiting_def)
qed

lemma exit_from_interrupt_ok:
  assumes inv: "sched_inv s" and f: "f \<noteq> 0" and c: "cur s \<noteq> 1"
  shows "\<exists>n t. scheduler_exit_current_from_interrupt L f s = (fr s n, t) \<and> n < 8 \<and> n \<noteq> cur s
    \<and> st s n = PROCESS_READY \<and> fr s n \<noteq> 0 \<and> switched L n s t \<and> sched_inv t \<and> st t (cur s) = PROCESS_TERMINATED
    \<and> (\<forall>i. i \<noteq> cur s \<longrightarrow> i \<noteq> n \<longrightarrow> slot_at i t = slot_at i s)"
proof -
  note i = sched_invD [OF inv]
  define s1 where "s1 = upd_slot (cur s) (save_frame f) s"
  have inv1: "sched_inv s1" unfolding s1_def
    by (rule sched_inv_upd [OF inv i(5)]) (use i f in \<open>auto simp: keeps_slot_def\<close>)
  define s2 where "s2 = upd_slot (cur s) (sched_mark_terminated L) s1"
  have inv2: "sched_inv s2" unfolding s2_def
    by (rule sched_inv_upd [OF inv1 i(5)]) (rule mark_terminated_keeps [OF c])
  have cs: "cur s2 = cur s" "g_current s2 = g_current s" "m_mem s2 = m_mem s" "g_tss s2 = g_tss s"
    by (simp_all add: s1_def s2_def)
  have ter: "st s2 (cur s) = PROCESS_TERMINATED"
    using i by (simp add: s1_def s2_def sched_mark_terminated_def)
  have other: "slot_at j s2 = slot_at j s" if "j \<noteq> cur s" for j using that by (simp add: s1_def s2_def)
  obtain n where n: "n < 8" "sched_pick_next s2 = Some n" "n \<noteq> cur s" "st s2 n = PROCESS_READY" "fr s2 n \<noteq> 0"
    using exit_pick_next [OF inv2] ter c unfolding cs by auto
  note i2 = sched_invD [OF inv2]
  have eq: "scheduler_exit_current_from_interrupt L f s = sched_activate_slot L n s2"
    using i(2,3) f n(2) by (simp add: scheduler_exit_current_from_interrupt_def Let_def s1_def s2_def)
  have lt: "n < length (g_slots s2)" using i2(1) n(1) by simp
  note act = activate_slot_state [OF lt, of L]
  have ter2: "st s2 (cur s) \<noteq> PROCESS_RUNNING" "\<not> waiting (st s2 (cur s))" using ter by (simp_all add: waiting_def)
  have run: "\<forall>j < 8. j \<noteq> n \<longrightarrow> st s2 j \<noteq> PROCESS_RUNNING" using i2(9) ter2(1) unfolding cs by metis
  have frs: "\<forall>j < 8. j \<noteq> n \<longrightarrow> waiting (st s2 j) \<longrightarrow> fr s2 j \<noteq> 0" using i2(10) ter2(2) unfolding cs by metis
  have "sched_inv (snd (sched_activate_slot L n s2))"
    by (rule activate_slot_inv [OF i2(1) n(1) i2(2) _ i2(7,8) run frs]) (use i2(6) in blast)
  then show ?thesis unfolding eq using n ter other [OF n(3)] other lt
    by (intro exI [of _ n] exI [of _ "snd (sched_activate_slot L n s2)"]) (simp add: act switched_def cs)
qed

end
