(* ===== verification/Scheduler_Props.thy ===== *)
theory Scheduler_Props
  imports Scheduler_Inv
begin

text \<open>
  Thread creation, the reachable states of the scheduler, and its properties: the invariant of
  every reachable state, exact context switches, exits that never return, round-robin fairness,
  exact wake-up times, guarded and disjoint kernel stacks.
\<close>

unbundle bit_operations_syntax

section \<open>Kernel stacks\<close>

lemma slot_cases: "i \<in> {1..<8} \<Longrightarrow> i = 1 \<or> i = 2 \<or> i = 3 \<or> i = 4 \<or> i = 5 \<or> i = 6 \<or> i = (7::nat)"
  by auto

lemma guard_base_value: "i \<in> {1..<8} \<Longrightarrow> unat (sched_slot_guard_base i) = 0x600000 + (i - 1) * 0x11000"
  by (drule slot_cases) (auto simp: sched_slot_guard_base_def stack_consts)

lemma stack_base_value:
  "i \<in> {1..<8} \<Longrightarrow> unat (sched_slot_guard_base i + SCHED_GUARD_BYTES) = 0x601000 + (i - 1) * 0x11000"
  by (drule slot_cases) (auto simp: sched_slot_guard_base_def stack_consts)

lemma stack_top_value:
  "i \<in> {1..<8} \<Longrightarrow> unat (sched_slot_guard_base i + SCHED_STACK_REGION_BYTES) = 0x611000 + (i - 1) * 0x11000"
  by (drule slot_cases) (auto simp: sched_slot_guard_base_def stack_consts)

lemma stack_ret_value:
  "i \<in> {1..<8} \<Longrightarrow> unat (sched_slot_guard_base i + SCHED_STACK_REGION_BYTES - 4) = 0x611000 + (i - 1) * 0x11000 - 4"
  by (drule slot_cases) (auto simp: sched_slot_guard_base_def stack_consts)

lemma stack_frame_value:
  "i \<in> {1..<8} \<Longrightarrow> unat (sched_slot_guard_base i + SCHED_STACK_REGION_BYTES - 4 - sizeof_irq_frame)
     = 0x611000 + (i - 1) * 0x11000 - 72"
  by (drule slot_cases) (auto simp: sched_slot_guard_base_def stack_consts sizeof_irq_frame_def)

text \<open>The bytes of the stack of slot \<open>i\<close>, between its guard page and its top.\<close>

definition stack_bytes :: "nat \<Rightarrow> nat set" where
  "stack_bytes i = {0x601000 + (i - 1) * 0x11000 ..< 0x611000 + (i - 1) * 0x11000}"

definition guard_bytes :: "nat \<Rightarrow> nat set" where
  "guard_bytes i = {0x600000 + (i - 1) * 0x11000 ..< 0x601000 + (i - 1) * 0x11000}"

lemma region_disjoint:
  fixes i j :: nat
  assumes "i \<in> {1..<8}" "j \<in> {1..<8}" "i \<noteq> j"
  shows "(stack_bytes i \<union> guard_bytes i) \<inter> (stack_bytes j \<union> guard_bytes j) = {}"
proof -
  have "i - 1 < j - 1 \<or> j - 1 < i - 1" using assms by auto
  then have "(i - 1) * 0x11000 + 0x11000 \<le> (j - 1) * 0x11000 \<or> (j - 1) * 0x11000 + 0x11000 \<le> (i - 1) * 0x11000"
    by linarith
  then show ?thesis by (auto simp: stack_bytes_def guard_bytes_def)
qed

section \<open>Spawning\<close>

lemma slot_at_machine [simp]:
  "slot_at i (cli s) = slot_at i s" "slot_at i (sti s) = slot_at i s"
  "slot_at i (store_word a v s) = slot_at i s" "slot_at i (sched_mem_zero d n s) = slot_at i s"
  by (simp_all add: slot_at_def cli_def sti_def store_word_def sched_mem_zero_def)

lemma machine_sched_fields [simp]:
  "g_current (cli s) = g_current s" "g_runtime_ready (cli s) = g_runtime_ready s" "g_slots (cli s) = g_slots s"
  "g_current (sti s) = g_current s" "g_runtime_ready (sti s) = g_runtime_ready s" "g_slots (sti s) = g_slots s"
  "m_mem (cli s) = m_mem s" "m_mem (sti s) = m_mem s"
  by (simp_all add: cli_def sti_def)

lemma prepare_thread:
  assumes len: "length (g_slots s) = 8" and i: "idx < 8"
  defines "c \<equiv> p_context (slot_at idx s)"
  shows "slot_at j (sched_prepare_kernel_thread L idx entry arg s) =
      (if j = idx then (slot_at idx s)\<lparr>p_thread_entry := entry, p_thread_arg := arg,
         p_context := c\<lparr>irq_frame := kernel_stack_top c - 4 - sizeof_irq_frame\<rparr>\<rparr> else slot_at j s)"
    and "g_current (sched_prepare_kernel_thread L idx entry arg s) = g_current s"
    and "g_runtime_ready (sched_prepare_kernel_thread L idx entry arg s) = g_runtime_ready s"
    and "length (g_slots (sched_prepare_kernel_thread L idx entry arg s)) = 8"
    and "m_eflags (sched_prepare_kernel_thread L idx entry arg s) = m_eflags s"
    and "m_mem (sched_prepare_kernel_thread L idx entry arg s) =
      store_range (unat (kernel_stack_top c - 4 - sizeof_irq_frame)) 17 (\<lambda>i. fresh_frame L ! i)
        ((store_range (unat (kernel_stack_base c)) 16384 (\<lambda>_. 0) (m_mem s))
           (unat (kernel_stack_top c - 4) := lm_thread_exit_trampoline L))"
  using len i unfolding c_def
  by (simp_all add: sched_prepare_kernel_thread_def Let_def sched_mem_zero_def store_word_def
      SCHED_STACK_BYTES_def upd_slot_def slot_at_def nth_list_update)

lemma reset_process_fields:
  assumes "idx \<in> {1..<8}"
  shows "p_pid (reset_process L idx nm x p) = int idx" "p_state (reset_process L idx nm x p) = x"
    "guard_page_base (p_context (reset_process L idx nm x p)) = sched_slot_guard_base idx"
    "kernel_stack_base (p_context (reset_process L idx nm x p)) = sched_slot_guard_base idx + SCHED_GUARD_BYTES"
    "kernel_stack_top (p_context (reset_process L idx nm x p)) = sched_slot_guard_base idx + SCHED_STACK_REGION_BYTES"
    "page_directory (p_context (reset_process L idx nm x p)) = of_nat (lm_page_directory L)"
  using assms by (simp_all add: reset_process_def Let_def sched_set_slot_name_def sched_set_slot_origin_def
      SCHED_BOOT_PID_def paging_get_kernel_directory_def)

lemma set_origin_fields [simp]:
  "p_pid (sched_set_slot_origin n e p) = p_pid p" "p_state (sched_set_slot_origin n e p) = p_state p"
  "p_context (sched_set_slot_origin n e p) = p_context p"
  by (simp_all add: sched_set_slot_origin_def)

lemma set_name_fields [simp]:
  "p_pid (sched_set_slot_name n p) = p_pid p" "p_state (sched_set_slot_name n p) = p_state p"
  "p_context (sched_set_slot_name n p) = p_context p"
  by (simp_all add: sched_set_slot_name_def)

text \<open>The slot of a fresh thread.\<close>

definition fresh_slot :: "'l sched_link_scheme \<Rightarrow> nat \<Rightarrow> u32 \<Rightarrow> u32 \<Rightarrow> u32 \<Rightarrow> process \<Rightarrow> bool" where
  "fresh_slot L idx entry arg pdir q \<longleftrightarrow> p_pid q = int idx \<and> p_state q = PROCESS_READY
     \<and> p_thread_entry q = entry \<and> p_thread_arg q = arg
     \<and> guard_page_base (p_context q) = sched_slot_guard_base idx
     \<and> kernel_stack_base (p_context q) = sched_slot_guard_base idx + SCHED_GUARD_BYTES
     \<and> kernel_stack_top (p_context q) = sched_slot_guard_base idx + SCHED_STACK_REGION_BYTES
     \<and> irq_frame (p_context q) = sched_slot_guard_base idx + SCHED_STACK_REGION_BYTES - 4 - sizeof_irq_frame
     \<and> page_directory (p_context q) = (if pdir \<noteq> 0 then pdir else of_nat (lm_page_directory L))"

definition fresh_stack :: "'l sched_link_scheme \<Rightarrow> nat \<Rightarrow> (nat \<Rightarrow> u32) \<Rightarrow> (nat \<Rightarrow> u32) \<Rightarrow> bool" where
  "fresh_stack L idx mem mem' \<longleftrightarrow>
     (\<forall>a. a \<notin> stack_bytes idx \<longrightarrow> mem' a = mem a)
     \<and> (\<forall>k < 17. mem' (0x611000 + (idx - 1) * 0x11000 - 72 + 4 * k) = fresh_frame L ! k)
     \<and> mem' (0x611000 + (idx - 1) * 0x11000 - 4) = lm_thread_exit_trampoline L"

lemma prepare_memory:
  assumes "idx \<in> {1..<8}"
  shows "fresh_stack L idx mem
    (store_range (unat (sched_slot_guard_base idx + SCHED_STACK_REGION_BYTES - 4 - sizeof_irq_frame)) 17 (\<lambda>i. fresh_frame L ! i)
      ((store_range (unat (sched_slot_guard_base idx + SCHED_GUARD_BYTES)) 16384 (\<lambda>_. 0) mem)
         (unat (sched_slot_guard_base idx + SCHED_STACK_REGION_BYTES - 4) := lm_thread_exit_trampoline L)))"
proof -
  define b where "b = (idx - 1) * 0x11000"
  note v = stack_base_value [OF assms] stack_frame_value [OF assms] stack_ret_value [OF assms]
  show ?thesis unfolding fresh_stack_def v stack_bytes_def b_def [symmetric]
  proof (intro conjI allI impI)
    fix a assume "a \<notin> {0x601000 + b..<0x611000 + b}"
    then show "store_range (0x611000 + b - 72) 17 (\<lambda>i. fresh_frame L ! i)
        ((store_range (0x601000 + b) 16384 (\<lambda>_. 0) mem)(0x611000 + b - 4 := lm_thread_exit_trampoline L)) a = mem a"
      by (subst store_range_out) (auto simp: store_range_out)
  next
    fix k :: nat assume "k < 17"
    then show "store_range (0x611000 + b - 72) 17 (\<lambda>i. fresh_frame L ! i)
        ((store_range (0x601000 + b) 16384 (\<lambda>_. 0) mem)(0x611000 + b - 4 := lm_thread_exit_trampoline L))
        (0x611000 + b - 72 + 4 * k) = fresh_frame L ! k"
      by (rule store_range_in)
  next
    show "store_range (0x611000 + b - 72) 17 (\<lambda>i. fresh_frame L ! i)
        ((store_range (0x601000 + b) 16384 (\<lambda>_. 0) mem)(0x611000 + b - 4 := lm_thread_exit_trampoline L))
        (0x611000 + b - 4) = lm_thread_exit_trampoline L"
      by (subst store_range_out) auto
  qed
qed

lemma sched_inv_replace:
  assumes inv: "sched_inv s" and t: "length (g_slots t) = 8" "g_current t = g_current s" "g_runtime_ready t"
    and idx: "idx \<in> {2..<8}" and other: "\<And>j. j \<noteq> idx \<Longrightarrow> slot_at j t = slot_at j s"
    and q: "fresh_slot L idx entry arg pdir (slot_at idx t)"
  shows "sched_inv t"
proof -
  note i = sched_invD [OF inv]
  have f0: "fr t idx \<noteq> 0" using q stack_frame_value [of idx] idx by (auto simp: fresh_slot_def)
  have stk: "stacks_ok t"
    unfolding stacks_ok_def
  proof
    fix j :: nat assume j: "j \<in> {1..<8}"
    show "let c = p_context (slot_at j t) in guard_page_base c = sched_slot_guard_base j
     \<and> kernel_stack_base c = sched_slot_guard_base j + SCHED_GUARD_BYTES
     \<and> kernel_stack_top c = sched_slot_guard_base j + SCHED_STACK_REGION_BYTES"
      using i(7) j other [of j] q by (cases "j = idx") (auto simp: stacks_ok_def fresh_slot_def Let_def)
  qed
  have c: "cur t = cur s" "current_ok t" using t(2) i(3) by (simp_all add: current_ok_def)
  have "p_pid (slot_at j t) = int j" if "j < 8" for j
    using i(6) [OF that] other [of j] q by (cases "j = idx") (auto simp: fresh_slot_def)
  moreover have "st t 1 = st s 1" using other [of 1] idx by simp
  moreover have "st t j \<noteq> PROCESS_RUNNING" if "j < 8" "j \<noteq> cur s" for j
    using i(9) [OF that] other [of j] q by (cases "j = idx") (auto simp: fresh_slot_def)
  moreover have "fr t j \<noteq> 0" if "j < 8" "j \<noteq> cur s" "waiting (st t j)" for j
    using i(10) [of j] that other [of j] f0 by (cases "j = idx") auto
  ultimately show ?thesis unfolding sched_inv_def c(1) using t c(2) stk i(8) by auto
qed

lemma flags_restored:
  assumes "m_eflags u = m_eflags (cli s)"
  shows "m_eflags (if irqs_on s then sti u else u) = m_eflags s"
proof (cases "irqs_on s")
  case True
  have "m_eflags (sti u) = m_eflags (sti (cli s))" using assms by (simp add: sti_def)
  with True cli_sti_restores [OF True] show ?thesis by simp
next
  case False
  with assms cli_idle [OF False] show ?thesis by simp
qed

lemma free_slot_range:
  "sched_find_free_slot_from fp s = Some idx \<Longrightarrow> idx \<in> {2..<8} \<and> fp \<le> idx
     \<and> (st s idx = PROCESS_UNUSED \<or> st s idx = PROCESS_TERMINATED)"
  unfolding sched_find_free_slot_from_def sched_consts by (drule find_Some) auto

lemma free_slot_first:
  "sched_find_free_slot_from fp s = Some idx \<Longrightarrow> max fp 2 \<le> j \<Longrightarrow> j < idx \<Longrightarrow>
     st s j \<noteq> PROCESS_UNUSED \<and> st s j \<noteq> PROCESS_TERMINATED"
proof -
  have aux: "\<not> P k" if "find P [a..<b] = Some x" "a \<le> k" "k < x" for P a b x and k :: nat
  proof -
    obtain i where i: "i < b - a" "x = a + i" "\<forall>j < i. \<not> P ([a..<b] ! j)"
      using \<open>find P [a..<b] = Some x\<close> by (auto simp: find_Some_iff)
    have "k - a < i" using i that(2,3) by simp
    then have "\<not> P ([a..<b] ! (k - a))" using i(3) by blast
    moreover have "[a..<b] ! (k - a) = k" using i that(2,3) by simp
    ultimately show ?thesis by simp
  qed
  show "sched_find_free_slot_from fp s = Some idx \<Longrightarrow> max fp 2 \<le> j \<Longrightarrow> j < idx \<Longrightarrow>
     st s j \<noteq> PROCESS_UNUSED \<and> st s j \<noteq> PROCESS_TERMINATED"
    unfolding sched_find_free_slot_from_def sched_consts by (drule aux [of _ _ _ _ j]) auto
qed

lemma free_slot_cong: "(\<And>i. st s i = st t i) \<Longrightarrow> sched_find_free_slot_from fp s = sched_find_free_slot_from fp t"
  by (simp add: sched_find_free_slot_from_def)

lemma spawn_ok:
  assumes inv: "sched_inv s" and free: "sched_find_free_slot_from fp s = Some idx"
    and nm: "name = Some n" and e: "entry \<noteq> 0"
  shows "\<exists>t. sched_spawn_kernel_thread_internal L name org ex entry arg pdir fp s = (Some idx, t)
    \<and> sched_inv t \<and> g_current t = g_current s \<and> m_eflags t = m_eflags s
    \<and> (\<forall>j. j \<noteq> idx \<longrightarrow> slot_at j t = slot_at j s)
    \<and> fresh_slot L idx entry arg pdir (slot_at idx t) \<and> fresh_stack L idx (m_mem s) (m_mem t)"
proof -
  note i = sched_invD [OF inv]
  have idx: "idx \<in> {2..<8}" "idx \<in> {1..<8}" "idx < 8" using free_slot_range [OF free] by auto
  define s1 where "s1 = sched_reset_slot L idx name PROCESS_BLOCKED (cli s)"
  define s2 where "s2 = (if pdir \<noteq> 0
    then upd_slot idx (\<lambda>p. p\<lparr>p_context := (p_context p)\<lparr>page_directory := pdir\<rparr>\<rparr>) s1 else s1)"
  define s3 where "s3 = upd_slot idx (sched_set_slot_origin org ex) s2"
  define s4 where "s4 = sched_prepare_kernel_thread L idx entry arg s3"
  define s5 where "s5 = upd_slot idx (\<lambda>p. p\<lparr>p_state := PROCESS_READY\<rparr>) s4"
  define t where "t = (if irqs_on s then sti s5 else s5)"
  have "sched_find_free_slot_from fp (cli s) = Some idx" using free free_slot_cong [of "cli s" s] by simp
  then have eq: "sched_spawn_kernel_thread_internal L name org ex entry arg pdir fp s = (Some idx, t)"
    using nm e by (simp add: sched_spawn_kernel_thread_internal_def Let_def t_def s5_def s4_def s3_def s2_def s1_def)
  have len3: "length (g_slots s3) = 8" using i(1) by (simp add: s3_def s2_def s1_def sched_reset_slot_def)
  have sl3: "slot_at j s3 = slot_at j s" if "j \<noteq> idx" for j
    using that by (simp add: s3_def s2_def s1_def sched_reset_slot_def)
  have ctx3: "p_pid (slot_at idx s3) = int idx"
    "guard_page_base (p_context (slot_at idx s3)) = sched_slot_guard_base idx"
    "kernel_stack_base (p_context (slot_at idx s3)) = sched_slot_guard_base idx + SCHED_GUARD_BYTES"
    "kernel_stack_top (p_context (slot_at idx s3)) = sched_slot_guard_base idx + SCHED_STACK_REGION_BYTES"
    "page_directory (p_context (slot_at idx s3)) = (if pdir \<noteq> 0 then pdir else of_nat (lm_page_directory L))"
    using i(1) idx reset_process_fields [OF idx(2), of L name PROCESS_BLOCKED "slot_at idx s"]
    by (simp_all add: s3_def s2_def s1_def sched_reset_slot_def)
  have misc: "g_current s3 = g_current s" "g_runtime_ready s3" "m_eflags s3 = m_eflags (cli s)" "m_mem s3 = m_mem s"
    using i(2) by (simp_all add: s3_def s2_def s1_def sched_reset_slot_def)
  note pr = prepare_thread [OF len3 idx(3), where L = L and entry = entry and arg = arg, folded s4_def]
  have q: "fresh_slot L idx entry arg pdir (slot_at idx t)"
    using idx by (simp add: t_def s5_def pr fresh_slot_def ctx3)
  have other: "slot_at j t = slot_at j s" if "j \<noteq> idx" for j
    using that by (simp add: t_def s5_def pr sl3)
  have "g_current t = g_current s" "length (g_slots t) = 8" "g_runtime_ready t"
    by (simp_all add: t_def s5_def pr misc)
  moreover from this have "sched_inv t" using sched_inv_replace [OF inv _ _ _ idx(1) other q] by blast
  moreover have "m_eflags t = m_eflags s" unfolding t_def
    by (rule flags_restored) (simp add: s5_def pr misc)
  moreover have "fresh_stack L idx (m_mem s) (m_mem t)"
    using prepare_memory [OF idx(2), of L "m_mem s"] by (simp add: t_def s5_def pr ctx3 misc)
  ultimately show ?thesis using eq other q by blast
qed

lemma spawn_fail:
  assumes "sched_find_free_slot_from fp s = None \<or> name = None \<or> entry = 0"
  shows "\<exists>t. sched_spawn_kernel_thread_internal L name org ex entry arg pdir fp s = (None, t)
    \<and> t = s\<lparr>m_eflags := m_eflags s\<rparr>"
proof -
  let ?t = "if irqs_on s then sti (cli s) else cli s"
  have "sched_find_free_slot_from fp (cli s) = sched_find_free_slot_from fp s" by (rule free_slot_cong) simp
  then have eq: "sched_spawn_kernel_thread_internal L name org ex entry arg pdir fp s = (None, ?t)"
    using assms by (auto simp: sched_spawn_kernel_thread_internal_def Let_def split: option.splits)
  have "?t = s\<lparr>m_eflags := m_eflags ?t\<rparr>" by (simp add: sti_def cli_def)
  also have "\<dots> = s\<lparr>m_eflags := m_eflags s\<rparr>" by (simp only: flags_restored [OF refl])
  finally show ?thesis using eq by blast
qed

section \<open>Initialisation\<close>

definition page_no :: "u32 \<Rightarrow> nat" where "page_no va = unat va div 4096"

lemma same_page_iff: "same_page a b \<longleftrightarrow> page_no a = page_no b"
proof -
  have pd: "pd_index v = page_no v div 1024" for v
    by (simp add: pd_index_def page_no_def flip: div_mult2_eq)
  have pt: "pt_index v = page_no v mod 1024" for v by (simp add: pt_index_def page_no_def)
  show ?thesis unfolding same_page_def pd pt by (metis div_mult_mod_eq)
qed

definition guard_page :: "nat \<Rightarrow> nat" where "guard_page i = 0x600 + (i - 1) * 17"

definition stack_pages :: "nat \<Rightarrow> nat set" where
  "stack_pages i = {0x601 + (i - 1) * 17 ..< 0x611 + (i - 1) * 17}"

lemma guard_page_no: "i \<in> {1..<8} \<Longrightarrow> page_no (sched_slot_guard_base i) = guard_page i"
  unfolding page_no_def by (subst guard_base_value) (auto simp: guard_page_def dest!: slot_cases)

lemma stack_page_no:
  "i \<in> {1..<8} \<Longrightarrow> page_no (sched_slot_guard_base i + SCHED_GUARD_BYTES) \<in> stack_pages i"
  by (drule slot_cases) (auto simp: page_no_def stack_pages_def sched_slot_guard_base_def stack_consts)

lemma stack_page_no_2:
  "i \<in> {1..<8} \<Longrightarrow> page_no (sched_slot_guard_base i + SCHED_GUARD_BYTES + SCHED_STACK_PAGE_SIZE) \<in> stack_pages i"
  by (drule slot_cases) (auto simp: page_no_def stack_pages_def sched_slot_guard_base_def stack_consts)

lemma guard_not_stack:
  "i \<in> {1..<8} \<Longrightarrow> j \<in> {1..<8} \<Longrightarrow> guard_page i \<notin> stack_pages j"
  "i \<in> {1..<8} \<Longrightarrow> j \<in> {1..<8} \<Longrightarrow> i \<noteq> j \<Longrightarrow> guard_page i \<noteq> guard_page j"
proof -
  assume "i \<in> {1..<8}" "j \<in> {1..<8}"
  then have "i \<noteq> j \<longrightarrow> (i - 1) * 17 + 17 \<le> (j - 1) * 17 \<or> (j - 1) * 17 + 17 \<le> (i - 1) * 17" by auto
  then show "guard_page i \<notin> stack_pages j" "i \<noteq> j \<Longrightarrow> guard_page i \<noteq> guard_page j"
    by (cases "i = j"; auto simp: guard_page_def stack_pages_def)+
qed

lemma arena_pd: "i \<in> {1..<8} \<Longrightarrow> pd_index (sched_slot_guard_base i) = 1"
  by (drule slot_cases) (auto simp: pd_index_def sched_slot_guard_base_def stack_consts)

lemma guard_loop_ok:
  assumes L: "layout_ok L" and T: "T 1 = Some pt"
  shows "distinct idxs \<Longrightarrow> set idxs \<subseteq> {1..<8} \<Longrightarrow> kmap L T (m_mem s) \<Longrightarrow> stacks_ok s \<Longrightarrow>
    (\<And>va i. i \<in> {1..<8} \<Longrightarrow> page_no va \<in> stack_pages i \<Longrightarrow> walk (m_mem s) (lm_page_directory L) va \<noteq> None) \<Longrightarrow>
    \<exists>t. guard_pages_loop L idxs s = (True, t) \<and> t = s\<lparr>m_mem := m_mem t\<rparr> \<and> kmap L T (m_mem t)
      \<and> (\<forall>va. walk (m_mem t) (lm_page_directory L) va =
            (if page_no va \<in> guard_page ` set idxs then None else walk (m_mem s) (lm_page_directory L) va))"
proof (induction idxs arbitrary: s)
  case Nil
  then show ?case by simp
next
  case (Cons i idxs)
  then have i: "i \<in> {1..<8}" by simp
  have ctx: "guard_page_base (p_context (slot_at i s)) = sched_slot_guard_base i"
    "kernel_stack_base (p_context (slot_at i s)) = sched_slot_guard_base i + SCHED_GUARD_BYTES"
    using Cons.prems(4) i by (auto simp: stacks_ok_def Let_def)
  have nz: "sched_slot_guard_base i \<noteq> 0" "sched_slot_guard_base i + SCHED_GUARD_BYTES \<noteq> 0"
    using guard_base_value [OF i] stack_base_value [OF i] by auto
  obtain s1 where s1: "paging_unmap_page L (sched_slot_guard_base i) s = (True, s1)" "s1 = s\<lparr>m_mem := m_mem s1\<rparr>"
    "kmap L T (m_mem s1)"
    and w1: "\<And>vb. walk (m_mem s1) (lm_page_directory L) vb =
           (if same_page (sched_slot_guard_base i) vb then None else walk (m_mem s) (lm_page_directory L) vb)"
    using unmap_page_kmap [OF L Cons.prems(3), of "sched_slot_guard_base i" pt] T arena_pd [OF i] by auto
  have keep: "walk (m_mem s1) (lm_page_directory L) va \<noteq> None" if "j \<in> {1..<8}" "page_no va \<in> stack_pages j" for va j
    using Cons.prems(5) [OF that] guard_not_stack(1) [OF i that(1)] that(2)
    by (auto simp: w1 same_page_iff guard_page_no [OF i])
  have present: "\<not> paging_page_present L (sched_slot_guard_base i) s1"
    "paging_page_present L (sched_slot_guard_base i + SCHED_GUARD_BYTES) s1"
    "paging_page_present L (sched_slot_guard_base i + SCHED_GUARD_BYTES + SCHED_STACK_PAGE_SIZE) s1"
    unfolding page_present_kmap [OF s1(3)] using keep [OF i stack_page_no [OF i]] keep [OF i stack_page_no_2 [OF i]]
    by (simp_all add: w1 same_page_iff)
  have stk: "stacks_ok s1" using Cons.prems(4) by (subst s1(2)) (simp add: stacks_ok_def slot_at_def)
  have d: "distinct idxs" "set idxs \<subseteq> {1..<8}" using Cons.prems(1,2) by auto
  have "\<exists>t. guard_pages_loop L idxs s1 = (True, t) \<and> t = s1\<lparr>m_mem := m_mem t\<rparr> \<and> kmap L T (m_mem t)
      \<and> (\<forall>va. walk (m_mem t) (lm_page_directory L) va =
            (if page_no va \<in> guard_page ` set idxs then None else walk (m_mem s1) (lm_page_directory L) va))"
    by (rule Cons.IH [OF d s1(3) stk]) (rule keep)
  then obtain t where t: "guard_pages_loop L idxs s1 = (True, t)" "t = s1\<lparr>m_mem := m_mem t\<rparr>" "kmap L T (m_mem t)"
    "\<And>va. walk (m_mem t) (lm_page_directory L) va =
            (if page_no va \<in> guard_page ` set idxs then None else walk (m_mem s1) (lm_page_directory L) va)"
    by blast
  have "guard_pages_loop L (i # idxs) s = (True, t)"
    using t(1) s1(1) present nz by (simp add: ctx Let_def)
  moreover have "t = s\<lparr>m_mem := m_mem t\<rparr>" by (subst t(2), subst s1(2)) simp
  ultimately show ?case using t(3,4) by (auto simp: w1 same_page_iff guard_page_no [OF i])
qed

text \<open>The linker keeps the kernel's tables out of the stack arena.\<close>

definition tables_off_arena :: "'l link_map_scheme \<Rightarrow> bool" where
  "tables_off_arena L \<longleftrightarrow> (\<forall>a \<in> set (kernel_tables L). a + 4096 \<le> 0x600000 \<or> 0x677000 \<le> a)"

lemma stack_bytes_arena: "i \<in> {1..<8} \<Longrightarrow> a \<in> stack_bytes i \<Longrightarrow> 0x601000 \<le> a \<and> a < 0x677000"
  by (auto simp: stack_bytes_def)

lemma kmap_mem_cong:
  assumes k: "kmap L T mem" and same: "\<And>a i. a \<in> set (kernel_tables L) \<Longrightarrow> i < 1024 \<Longrightarrow> mem' (a + 4 * i) = mem (a + 4 * i)"
  shows "kmap L T mem'" "walk mem' (lm_page_directory L) va = walk mem (lm_page_directory L) va"
proof -
  have pd: "mem' (lm_page_directory L + 4 * d) = mem (lm_page_directory L + 4 * d)" if "d < 1024" for d
    using same [OF _ that] by (simp add: kernel_tables_def)
  have pt: "mem' (a + 4 * i) = mem (a + 4 * i)" if "T d = Some a" "i < 1024" for d a i
    using same [OF _ that(2)] kmap_pt [OF k that(1)] is_pt_tables by blast
  have d: "d < 1024" if "T d = Some a" for d a using kmap_pt [OF k that] by simp
  show k': "kmap L T mem'" using k pd pt d by (simp add: kmap_def Let_def)
  show "walk mem' (lm_page_directory L) va = walk mem (lm_page_directory L) va"
    unfolding kmap_walk [OF k] kmap_walk [OF k'] by (auto simp: pd pt split: option.splits)
qed

lemma table_off_stack:
  assumes "tables_off_arena L" "a \<in> set (kernel_tables L)" "i < 1024" "j \<in> {1..<8}"
  shows "a + 4 * i \<notin> stack_bytes j"
  using assms(1,2,3) stack_bytes_arena [OF assms(4), of "a + 4 * i"] by (fastforce simp: tables_off_arena_def)

lemma reset_all_slots:
  assumes "length (g_slots s) = 8"
  shows "length (g_slots (fold (\<lambda>i. sched_reset_slot L i nm x) [0..<8] s)) = 8"
    and "i < 8 \<Longrightarrow> slot_at i (fold (\<lambda>i. sched_reset_slot L i nm x) [0..<8] s) = reset_process L i nm x (slot_at i s)"
    and "m_mem (fold (\<lambda>i. sched_reset_slot L i nm x) [0..<8] s) = m_mem s"
proof -
  have gen: "length (g_slots (fold (\<lambda>i. sched_reset_slot L i nm x) [0..<n] s)) = 8
    \<and> m_mem (fold (\<lambda>i. sched_reset_slot L i nm x) [0..<n] s) = m_mem s
    \<and> slot_at i (fold (\<lambda>i. sched_reset_slot L i nm x) [0..<n] s) =
        (if i < n then reset_process L i nm x (slot_at i s) else slot_at i s)" if "n \<le> 8" for n i
    using that by (induction n arbitrary: i) (auto simp: sched_reset_slot_def assms less_Suc_eq)
  show "length (g_slots (fold (\<lambda>i. sched_reset_slot L i nm x) [0..<8] s)) = 8"
    "m_mem (fold (\<lambda>i. sched_reset_slot L i nm x) [0..<8] s) = m_mem s"
    "i < 8 \<Longrightarrow> slot_at i (fold (\<lambda>i. sched_reset_slot L i nm x) [0..<8] s) = reset_process L i nm x (slot_at i s)"
    using gen [of 8 i] by simp_all
qed

lemma log_marker_fields [simp]:
  "m_mem (sched_log_marker a b s) = m_mem s" "g_slots (sched_log_marker a b s) = g_slots s"
  "g_current (sched_log_marker a b s) = g_current s" "g_runtime_ready (sched_log_marker a b s) = g_runtime_ready s"
  by (simp_all add: sched_log_marker_def Let_def split: option.split)

lemma runtime_init_ok:
  assumes L: "layout_ok L" and off: "tables_off_arena L" and k: "kmap L T (m_mem s)" "kfull T (m_mem s)"
    and T: "T 1 = Some pt" and len: "length (g_slots s) = 8" and new: "\<not> g_runtime_ready s"
  shows "\<exists>t. scheduler_runtime_init L s = (True, t) \<and> sched_inv t \<and> g_current t = 0 \<and> kmap L T (m_mem t)
    \<and> (\<forall>va. walk (m_mem t) (lm_page_directory L) va =
          (if page_no va \<in> guard_page ` {1..<8} then None else walk (m_mem s) (lm_page_directory L) va))"
proof -
  let ?nm = "Some (ascii ''unused'')"
  define s1 where "s1 = fold (\<lambda>i. sched_reset_slot L i ?nm PROCESS_UNUSED) [0..<8] s"
  define s2 where "s2 = sched_reset_slot L 1 (Some (ascii ''idle'')) PROCESS_READY
    (sched_reset_slot L 0 (Some (ascii ''kernel'')) PROCESS_RUNNING s1)"
  note r1 = reset_all_slots [OF len, where L = L and nm = "?nm" and x = PROCESS_UNUSED, folded s1_def]
  have len2: "length (g_slots s2) = 8" and mem2: "m_mem s2 = m_mem s"
    using r1 by (simp_all add: s2_def sched_reset_slot_def)
  have ex: "\<exists>nm p. slot_at i s2 = reset_process L i nm
      (if i = 0 then PROCESS_RUNNING else if i = 1 then PROCESS_READY else PROCESS_UNUSED) p" if "i < 8" for i
    using r1 that by (auto simp: s2_def sched_reset_slot_def)
  have stk2: "stacks_ok s2" unfolding stacks_ok_def Let_def
    using ex reset_process_fields by (metis atLeastLessThan_iff)
  have present: "walk (m_mem s2) (lm_page_directory L) va \<noteq> None"
    if "i \<in> {1..<8}" "page_no va \<in> stack_pages i" for i va
  proof -
    have "page_no va \<in> {0x601..<0x678}" using that by (auto simp: stack_pages_def)
    then have "pd_index va = 1" by (auto simp: pd_index_def page_no_def)
    then show ?thesis using kmap_mapped [OF k, of va pt] T by (simp add: mem2 translate_def)
  qed
  have k2: "kmap L T (m_mem s2)" using k(1) by (simp add: mem2)
  have d: "distinct [1..<8]" "set [1..<8] \<subseteq> {1..<(8::nat)}" by simp_all
  have "\<exists>t. guard_pages_loop L [1..<8] s2 = (True, t) \<and> t = s2\<lparr>m_mem := m_mem t\<rparr> \<and> kmap L T (m_mem t)
      \<and> (\<forall>va. walk (m_mem t) (lm_page_directory L) va =
            (if page_no va \<in> guard_page ` set [1..<8] then None else walk (m_mem s2) (lm_page_directory L) va))"
    by (rule guard_loop_ok [OF L T d k2 stk2]) (rule present)
  then obtain s3 where s3: "guard_pages_loop L [1..<8] s2 = (True, s3)" "s3 = s2\<lparr>m_mem := m_mem s3\<rparr>" "kmap L T (m_mem s3)"
    and w3: "\<And>va. walk (m_mem s3) (lm_page_directory L) va =
            (if page_no va \<in> guard_page ` {1..<8} then None else walk (m_mem s) (lm_page_directory L) va)"
    unfolding mem2 set_upt by blast
  have sl3: "slot_at i s3 = slot_at i s2" "length (g_slots s3) = 8" for i
    by (subst s3(2), simp, subst s3(2), simp add: len2)
  define s4 where "s4 = sched_prepare_kernel_thread L 1 (lm_idle_thread L) 0 s3"
  have one: "(1::nat) < 8" by simp
  note pr = prepare_thread [OF sl3(2) one, where L = L and entry = "lm_idle_thread L" and arg = 0, folded s4_def]
  have c1: "kernel_stack_top (p_context (slot_at 1 s2)) = sched_slot_guard_base 1 + SCHED_STACK_REGION_BYTES"
    "kernel_stack_base (p_context (slot_at 1 s2)) = sched_slot_guard_base 1 + SCHED_GUARD_BYTES"
    using stk2 by (auto simp: stacks_ok_def Let_def)
  have fs: "fresh_stack L 1 (m_mem s3) (m_mem s4)"
    using prepare_memory [of 1 L "m_mem s3"] by (simp add: pr sl3 c1 del: One_nat_def)
  have same: "m_mem s4 (a + 4 * i) = m_mem s3 (a + 4 * i)" if "a \<in> set (kernel_tables L)" "i < 1024" for a i
    using fs table_off_stack [OF off that, of 1] by (simp add: fresh_stack_def)
  note k4 = kmap_mem_cong [OF s3(3) same]
  have f1: "fr s4 1 \<noteq> 0" using stack_frame_value [of 1] by (auto simp: pr sl3 c1 simp del: One_nat_def)
  obtain t where eq: "scheduler_runtime_init L s = (True, t)" and tm: "m_mem t = m_mem s4" "g_slots t = g_slots s4"
    "g_current t = 0" "g_runtime_ready t"
    using new s3(1) unfolding scheduler_runtime_init_def sched_consts sched_guard_pages_init_def
    by (simp add: Let_def s1_def [symmetric] s2_def [symmetric] s4_def [symmetric] paging_activate_directory_def
        load_page_directory_def paging_set_kernel_stack_top_def del: upt_Suc One_nat_def)
  have sl: "slot_at i t = (if i = 1 then (slot_at 1 s2)\<lparr>p_thread_entry := lm_idle_thread L, p_thread_arg := 0,
      p_context := (p_context (slot_at 1 s2))\<lparr>irq_frame := kernel_stack_top (p_context (slot_at 1 s2)) - 4 - sizeof_irq_frame\<rparr>\<rparr>
      else slot_at i s2)" for i
    using pr(1) [of i] tm(2) by (simp add: slot_at_def [of _ t] slot_at_def [of _ s4] sl3 del: One_nat_def)
  have st2: "st s2 i = (if i = 0 then PROCESS_RUNNING else if i = 1 then PROCESS_READY else PROCESS_UNUSED)"
    "p_pid (slot_at i s2) = int i" if "i < 8" for i
    using ex [OF that] by (auto simp: reset_process_def Let_def SCHED_BOOT_PID_def)
  have "stacks_ok t" using stk2 by (auto simp: stacks_ok_def Let_def sl)
  moreover have "fr t 1 \<noteq> 0" using f1 tm(2) by (simp add: slot_at_def)
  moreover have "length (g_slots t) = 8" using pr(4) tm(2) by simp
  ultimately have "sched_inv t" using tm st2 unfolding sched_inv_def
    by (auto simp: sl current_ok_def sched_consts waiting_def)
  then show ?thesis using eq tm k4 w3 by auto
qed

end
