(* ===== verification/Scheduler_Run.thy ===== *)
theory Scheduler_Run
  imports Scheduler_Props
begin

text \<open>
  The scheduler as a state machine. An event is an interrupt or a call that acts on the scheduler; a
  trace is any sequence of events, so every interleaving of interrupts and calls is covered. The
  guards of the step relation say who may act: interrupt frames are never at address 0, and the
  idle thread only waits for interrupts (it never sleeps and never exits).
\<close>

unbundle bit_operations_syntax

section \<open>Events and steps\<close>

datatype sched_event =
  Tick u32
| Yield u32
| Block u32
| Exit u32
| ExitIrq u32
| Terminate int
| Spawn "cstr option" "cstr option" bool u32 u32 u32
| SetName "cstr option"
| SetOrigin "cstr option" bool
| EnablePreemption u32
| DisablePreemption
| EnterUser u32 u32

inductive sched_step :: "'l sched_link_scheme \<Rightarrow> 'a sched_state_scheme \<Rightarrow> sched_event \<Rightarrow> 'a sched_state_scheme \<Rightarrow> bool"
  for L :: "'l sched_link_scheme" where
  tick: "f \<noteq> 0 \<Longrightarrow> sched_step L s (Tick f) (snd (scheduler_on_timer_tick L f s))"
| yield_irq: "f \<noteq> 0 \<Longrightarrow> sched_step L s (Yield f) (snd (scheduler_on_yield L f s))"
| block: "cur s \<noteq> 1 \<Longrightarrow> ticks \<noteq> 0 \<Longrightarrow> sched_step L s (Block ticks) (sleep_block ticks s)"
| exit_task: "f \<noteq> 0 \<Longrightarrow> cur s \<noteq> 1 \<Longrightarrow> sched_step L s (Exit f) (snd (sched_exit_current L f s))"
| exit_irq: "f \<noteq> 0 \<Longrightarrow> cur s \<noteq> 1 \<Longrightarrow> sched_step L s (ExitIrq f) (snd (scheduler_exit_current_from_interrupt L f s))"
| terminate: "sched_step L s (Terminate pid) (snd (scheduler_terminate_process L pid s))"
| spawn: "sched_step L s (Spawn nm org ex entry arg pdir) (snd (scheduler_spawn_kernel_task L nm org ex entry arg pdir s))"
| set_name: "sched_step L s (SetName nm) (scheduler_set_current_name nm s)"
| set_origin: "sched_step L s (SetOrigin org ex) (scheduler_set_current_origin org ex s)"
| enable: "sched_step L s (EnablePreemption q) (scheduler_enable_preemption q s)"
| disable: "sched_step L s DisablePreemption (scheduler_disable_preemption s)"
| enter_user: "sched_step L s (EnterUser e u) (snd (scheduler_enter_current_user_mode e u s))"

inductive_cases sched_stepE: "sched_step L s e t"

fun trace_ok :: "'l sched_link_scheme \<Rightarrow> 'a sched_state_scheme \<Rightarrow> (sched_event \<times> 'a sched_state_scheme) list \<Rightarrow> bool" where
  "trace_ok L s [] = True"
| "trace_ok L s ((e, t) # tr) = (sched_step L s e t \<and> trace_ok L t tr)"

fun trace_end :: "'a sched_state_scheme \<Rightarrow> (sched_event \<times> 'a sched_state_scheme) list \<Rightarrow> 'a sched_state_scheme" where
  "trace_end s [] = s"
| "trace_end s ((e, t) # tr) = trace_end t tr"

section \<open>Steps keep the invariant\<close>

lemma switches_inv: "switches L f n s r \<Longrightarrow> sched_inv (snd r)"
  unfolding switches_def by (elim conjE)

lemma exit_current_ok:
  assumes inv: "sched_inv s" and f: "f \<noteq> 0" and c: "cur s \<noteq> 1"
    and s1_def: "s1 = upd_slot (cur s) (sched_mark_terminated L) s"
  shows "\<exists>n t. sched_exit_current L f s = (Some (fr s n), t) \<and> switches L f n s1 (fr s n, t)"
proof -
  note i = sched_invD [OF inv]
  have inv1: "sched_inv s1" unfolding s1_def
    by (rule sched_inv_upd [OF inv i(5)]) (rule mark_terminated_keeps [OF c])
  have cs: "cur s1 = cur s" by (simp add: s1_def)
  have ter: "st s1 (cur s1) = PROCESS_TERMINATED" using i by (simp add: s1_def sched_mark_terminated_def)
  obtain n where n: "sched_pick_next s1 = Some n" "n \<noteq> cur s1"
    using exit_pick_next [OF inv1] ter c by (auto simp: cs)
  then have "\<not> stays f s1 r" for r by (auto simp: stays_def)
  then obtain m where m: "switches L f m s1 (sched_switch_from_frame L f s1)"
    using switch_from_frame_cases [OF inv1 f, of L] by blast
  then have fm: "fst (sched_switch_from_frame L f s1) = fr s m" "fr s m \<noteq> 0"
    by (auto simp: switches_def s1_def split: if_splits)
  have "sched_exit_current L f s = (Some (fr s m), snd (sched_switch_from_frame L f s1))"
    using i(3) fm by (simp add: sched_exit_current_def Let_def yield_eq [OF inv1 f] split_beta flip: s1_def)
  then show ?thesis using m fm(1) by (metis prod.collapse)
qed

lemma set_name_inv: "sched_inv s \<Longrightarrow> sched_inv (scheduler_set_current_name nm s)"
  using sched_invD [of s]
  by (auto simp: scheduler_set_current_name_def keeps_slot_def intro!: sched_inv_upd)

lemma set_origin_inv: "sched_inv s \<Longrightarrow> sched_inv (scheduler_set_current_origin org ex s)"
  using sched_invD [of s]
  by (auto simp: scheduler_set_current_origin_def keeps_slot_def intro!: sched_inv_upd)

lemma enter_user_inv: "sched_inv s \<Longrightarrow> sched_inv (snd (scheduler_enter_current_user_mode e u s))"
proof -
  assume inv: "sched_inv s"
  note i = sched_invD [OF inv]
  have inv1: "sched_inv (upd_slot (cur s) (\<lambda>p. p\<lparr>p_context := (p_context p)\<lparr>user_esp := u\<rparr>\<rparr>) s)"
    using i by (intro sched_inv_upd [OF inv]) (auto simp: keeps_slot_def)
  show ?thesis
  proof (cases "e = 0 \<or> u = 0")
    case True
    then show ?thesis unfolding scheduler_enter_current_user_mode_def
      by (intro sched_inv_frame [OF inv]) auto
  next
    case False
    then show ?thesis using i(2,3) unfolding scheduler_enter_current_user_mode_def
      by (intro sched_inv_frame [OF inv1]) (simp_all add: Let_def paging_set_kernel_stack_top_def)
  qed
qed

lemma spawn_task_inv: "sched_inv s \<Longrightarrow> sched_inv (snd (scheduler_spawn_kernel_task L nm org ex entry arg pdir s))"
proof -
  assume inv: "sched_inv s"
  show ?thesis
  proof (cases "sched_find_free_slot_from SCHED_EXTERNAL_PID_MIN s = None \<or> nm = None \<or> entry = 0")
    case True
    then show ?thesis using spawn_fail [OF True, of L org ex arg pdir] inv
      by (auto simp: scheduler_spawn_kernel_task_def)
  next
    case False
    then obtain idx n where "sched_find_free_slot_from SCHED_EXTERNAL_PID_MIN s = Some idx" "nm = Some n" "entry \<noteq> 0"
      by auto
    from spawn_ok [OF inv this, of L org ex arg pdir] show ?thesis
      using sched_invD(2) [OF inv] by (auto simp: scheduler_spawn_kernel_task_def)
  qed
qed

lemma sched_step_inv:
  assumes "sched_step L s e t" and inv: "sched_inv s"
  shows "sched_inv t"
  using assms(1)
proof cases
  case (tick f)
  show ?thesis unfolding tick(2) by (rule timer_tick_inv [OF inv tick(3)])
next
  case (yield_irq f)
  show ?thesis unfolding yield_irq(2) on_yield_eq [OF inv yield_irq(3)]
    by (rule switch_from_frame_inv [OF inv yield_irq(3)])
next
  case (block ticks)
  show ?thesis unfolding block(2) by (rule sleep_block_inv [OF inv block(3)])
next
  case (exit_task f)
  obtain n u where u: "sched_exit_current L f s = (Some (fr s n), u)"
    "switches L f n (upd_slot (cur s) (sched_mark_terminated L) s) (fr s n, u)"
    using exit_current_ok [OF inv exit_task(3,4) refl, of L] by (elim exE conjE)
  show ?thesis unfolding exit_task(2) u(1) using switches_inv [OF u(2)] by simp
next
  case (exit_irq f)
  show ?thesis unfolding exit_irq(2) using exit_from_interrupt_ok [OF inv exit_irq(3,4), of L] by (elim exE conjE) simp
next
  case (terminate pid)
  show ?thesis unfolding terminate(2) by (rule terminate_inv [OF inv])
next
  case (spawn nm org ex entry arg pdir)
  show ?thesis unfolding spawn(2) by (rule spawn_task_inv [OF inv])
next
  case (set_name nm)
  show ?thesis unfolding set_name(2) by (rule set_name_inv [OF inv])
next
  case (set_origin org ex)
  show ?thesis unfolding set_origin(2) by (rule set_origin_inv [OF inv])
next
  case (enable q)
  show ?thesis unfolding enable(2) scheduler_enable_preemption_def Let_def
    by (rule sched_inv_frame [OF inv]) simp_all
next
  case disable
  show ?thesis unfolding disable(2) scheduler_disable_preemption_def
    by (rule sched_inv_frame [OF inv]) simp_all
next
  case (enter_user e u)
  show ?thesis unfolding enter_user(2) by (rule enter_user_inv [OF inv])
qed

lemma trace_inv: "trace_ok L s tr \<Longrightarrow> sched_inv s \<Longrightarrow> sched_inv (trace_end s tr) \<and> (\<forall>(e, t) \<in> set tr. sched_inv t)"
proof (induction tr arbitrary: s)
  case (Cons x tr)
  then show ?case by (cases x) (auto dest: sched_step_inv)
qed simp

section \<open>Round robin\<close>

text \<open>How many slots the search starting after \<open>c\<close> visits up to \<open>p\<close>.\<close>

definition ring_dist :: "nat \<Rightarrow> nat \<Rightarrow> nat" where
  "ring_dist c p = (if c < p then p - c else p + 8 - c)"

lemma mod8: "x < 16 \<Longrightarrow> x mod 8 = (if x < 8 then x else x - (8::nat))"
proof (cases "x < 8")
  case False
  assume "x < 16"
  have "x mod 8 = (x - 8) mod 8" by (rule le_mod_geq) (use False in simp)
  also have "\<dots> = x - 8" by (rule mod_less) (use \<open>x < 16\<close> in simp)
  finally show ?thesis using False by simp
qed simp

lemma ring_dist_step:
  assumes "c < 8" "p < 8" "p \<noteq> c" "k \<in> {1..<8}" "k \<le> ring_dist c p" "n = (c + k) mod 8"
  shows "n = p \<or> ring_dist n p < ring_dist c p"
proof -
  have n: "n = (if c + k < 8 then c + k else c + k - 8)" unfolding assms(6) by (rule mod8) (use assms in simp)
  show ?thesis using n assms(1-5) unfolding ring_dist_def atLeastLessThan_iff
    by (cases "c + k < 8"; cases "c < p"; cases "n < p"; simp only: if_True if_False; linarith)
qed

lemma ring_dist_target:
  assumes "c < 8" "p < 8" "p \<noteq> c"
  shows "(c + ring_dist c p) mod 8 = p \<and> ring_dist c p \<noteq> 0 \<and> ring_dist c p < 8"
proof -
  have "(c + ring_dist c p) mod 8 = (if c + ring_dist c p < 8 then c + ring_dist c p else c + ring_dist c p - 8)"
    by (rule mod8) (use assms in \<open>simp add: ring_dist_def\<close>)
  then show ?thesis using assms by (cases "c < p") (simp_all add: ring_dist_def)
qed

lemma find_ready_dist:
  assumes c: "current_ok s" and p: "p < 8" "p \<noteq> 1" "p \<noteq> cur s" "st s p = PROCESS_READY"
  shows "\<exists>n k. sched_find_ready_non_idle s = Some n \<and> k \<in> {1..<8} \<and> n = (cur s + k) mod 8 \<and> k \<le> ring_dist (cur s) p"
proof -
  have c8: "cur s < 8" "\<not> g_current s < 0" using c by (auto simp: current_ok_iff)
  obtain n where n: "sched_find_ready_non_idle s = Some n"
    using find_ready_None [OF c] p by (cases "sched_find_ready_non_idle s") auto
  define xs where "xs = map (\<lambda>step. (cur s + step) mod 8) [1..<8]"
  have xs: "length xs = 7" "\<And>j. j < 7 \<Longrightarrow> xs ! j = (cur s + (1 + j)) mod 8" by (simp_all add: xs_def del: upt_Suc)
  have "find (\<lambda>idx. idx \<noteq> 1 \<and> st s idx = PROCESS_READY) xs = Some n"
    using n c8 by (simp add: sched_find_ready_non_idle_def sched_consts xs_def del: upt_Suc)
  then obtain i where i0: "i < length xs" "n = xs ! i"
    "\<forall>j < i. \<not> (xs ! j \<noteq> 1 \<and> st s (xs ! j) = PROCESS_READY)"
    unfolding find_Some_iff by (elim exE conjE) blast
  have i: "i < 7" using i0(1) xs(1) by simp
  have ni: "n = (cur s + (1 + i)) mod 8" unfolding i0(2) by (rule xs(2) [OF i])
  let ?d = "ring_dist (cur s) p"
  note d = ring_dist_target [OF c8(1) p(1,3)]
  have "\<not> ?d - 1 < i"
  proof
    assume lt: "?d - 1 < i"
    have "xs ! (?d - 1) = (cur s + (1 + (?d - 1))) mod 8" by (rule xs(2)) (use lt i in linarith)
    also have "1 + (?d - 1) = ?d" using d by linarith
    finally have "xs ! (?d - 1) = p" using d by metis
    then show False using i0(3) lt p(2,4) by metis
  qed
  then have "1 + i \<le> ?d" using d by linarith
  moreover have "1 + i \<in> {1..<8}" using i by (simp only: atLeastLessThan_iff) linarith
  ultimately show ?thesis using n ni by blast
qed

lemma pick_dist:
  assumes c: "current_ok s" and p: "p < 8" "p \<noteq> 1" "p \<noteq> cur s" "st s p = PROCESS_READY"
    and n: "sched_pick_next s = Some n"
  shows "n \<noteq> cur s \<and> (n = p \<or> ring_dist n p < ring_dist (cur s) p)"
proof -
  have c8: "cur s < 8" using c by (auto simp: current_ok_iff)
  obtain k where k: "sched_find_ready_non_idle s = Some n" "k \<in> {1..<8}" "n = (cur s + k) mod 8" "k \<le> ring_dist (cur s) p"
    using find_ready_dist [OF c p] n by (auto simp: sched_pick_next_def)
  show ?thesis using ring_dist_step [OF c8 p(1,3) k(2,4,3)] ring_ne [OF c8 k(2)] k(3) by simp
qed

text \<open>What a step may do to a ready thread \<open>p\<close>: run it, or leave it ready and no further from its turn.\<close>

definition progress :: "nat \<Rightarrow> 'a sched_state_scheme \<Rightarrow> 'a sched_state_scheme \<Rightarrow> bool" where
  "progress p s t \<longleftrightarrow> cur t = p \<or>
     (st t p = PROCESS_READY \<and> (g_current t = g_current s \<or> ring_dist (cur t) p < ring_dist (cur s) p))"

lemma switches_progress:
  assumes sw: "switches L f n s r" and c: "current_ok s"
    and p: "p < 8" "p \<noteq> 1" "p \<noteq> cur s" "st s p = PROCESS_READY"
  shows "progress p s (snd r)"
proof -
  have n: "sched_pick_next s = Some n" "g_current (snd r) = int n"
    and other: "p \<noteq> n \<Longrightarrow> slot_at p (snd r) = slot_at p s"
    using sw p(3) unfolding switches_def switched_def by blast+
  from pick_dist [OF c p n(1)] show ?thesis unfolding progress_def n(2) using other p(4) by auto
qed

lemma switch_progress:
  assumes inv: "sched_inv s" and f: "f \<noteq> 0" and p: "p < 8" "p \<noteq> 1" "p \<noteq> cur s" "st s p = PROCESS_READY"
  shows "progress p s (snd (sched_switch_from_frame L f s))"
proof -
  have c: "current_ok s" by (rule sched_invD(3) [OF inv])
  have "\<not> stays f s r" for r using pick_dist [OF c p, of "cur s"] by (auto simp: stays_def)
  then show ?thesis using switch_from_frame_cases [OF inv f, of L] switches_progress [OF _ c p] by blast
qed

lemma progress_cong:
  "progress p s t \<Longrightarrow> g_current s = g_current s' \<Longrightarrow> progress p s' t"
  by (simp add: progress_def)

lemma tick_progress:
  assumes inv: "sched_inv s" and f: "f \<noteq> 0" and p: "p < 8" "p \<noteq> 1" "p \<noteq> cur s" "st s p = PROCESS_READY"
  shows "progress p s (snd (scheduler_on_timer_tick L f s))"
proof -
  obtain q where q: "scheduler_on_timer_tick L f s = (0, (tick_prefix s)\<lparr>g_slice_ticks_left := q\<rparr>)
    \<or> scheduler_on_timer_tick L f s = sched_switch_from_frame L f ((tick_prefix s)\<lparr>g_slice_ticks_left := q\<rparr>)"
    using timer_tick_cases [OF inv f, of L] by blast
  let ?u = "(tick_prefix s)\<lparr>g_slice_ticks_left := q\<rparr>"
  have rdy: "st ?u p = PROCESS_READY"
    using tick_prefix_slot [OF inv p(1)] p by (simp add: wake_process_keeps)
  have "progress p ?u (snd (sched_switch_from_frame L f ?u))"
    by (rule switch_progress [OF slice_inv [OF tick_prefix_inv [OF inv]] f p(1,2) _ rdy]) (use p in simp)
  then have "progress p s (snd (sched_switch_from_frame L f ?u))" by (rule progress_cong) simp
  with q rdy show ?thesis by (auto simp: progress_def)
qed

lemma sched_step_progress:
  assumes step: "sched_step L s e t" and inv: "sched_inv s" and ter: "e \<noteq> Terminate (int p)"
    and p: "p < 8" "p \<noteq> 1" "p \<noteq> cur s" "st s p = PROCESS_READY"
  shows "progress p s t"
  using step
proof cases
  case (tick f)
  show ?thesis unfolding tick(2) by (rule tick_progress [OF inv tick(3) p])
next
  case (yield_irq f)
  show ?thesis unfolding yield_irq(2) on_yield_eq [OF inv yield_irq(3)] by (rule switch_progress [OF inv yield_irq(3) p])
next
  case (exit_task f)
  let ?s1 = "upd_slot (cur s) (sched_mark_terminated L) s"
  obtain n u where u: "sched_exit_current L f s = (Some (fr s n), u)" "switches L f n ?s1 (fr s n, u)"
    using exit_current_ok [OF inv exit_task(3,4) refl, of L] by (elim exE conjE)
  have "progress p ?s1 (snd (fr s n, u))"
    by (rule switches_progress [OF u(2)]) (use p sched_invD(3) [OF inv] in simp_all)
  then show ?thesis unfolding exit_task(2) u(1) by (simp add: progress_def)
next
  case (exit_irq f)
  let ?s1 = "upd_slot (cur s) (sched_mark_terminated L) (upd_slot (cur s) (save_frame f) s)"
  have c: "current_ok ?s1" "p \<noteq> cur ?s1" "st ?s1 p = PROCESS_READY" using p sched_invD(3) [OF inv] by simp_all
  obtain n u where u: "scheduler_exit_current_from_interrupt L f s = (fr s n, u)" "g_current u = int n"
      "p \<noteq> n \<Longrightarrow> slot_at p u = slot_at p s"
    using exit_from_interrupt_ok [OF inv exit_irq(3,4), of L] p(3) unfolding switched_def by blast
  have "sched_pick_next ?s1 = Some n"
  proof -
    obtain m where m: "sched_pick_next ?s1 = Some m"
      using find_ready_dist [OF c(1) p(1,2) c(2,3)] by (auto simp: sched_pick_next_def)
    have "g_current (snd (sched_activate_slot L m ?s1)) = int m"
      by (simp add: sched_activate_slot_def Let_def paging_activate_directory_def load_page_directory_def paging_set_kernel_stack_top_def)
    moreover have "scheduler_exit_current_from_interrupt L f s = sched_activate_slot L m ?s1"
      using m sched_invD(2,3) [OF inv] exit_irq(3) by (simp add: scheduler_exit_current_from_interrupt_def Let_def)
    ultimately have "g_current u = int m" using u(1) by (metis snd_conv)
    then show ?thesis using u(2) m by simp
  qed
  from pick_dist [OF c(1) p(1,2) c(2,3) this] show ?thesis
    unfolding exit_irq(2) u(1) using u(2,3) p(4) by (auto simp: progress_def)
next
  case (terminate pid)
  then have "nat pid \<noteq> p \<or> pid < 0" using ter by (cases "pid < 0") auto
  then show ?thesis unfolding terminate(2) using p
    by (auto simp: progress_def scheduler_terminate_process_def sched_consts)
next
  case (spawn nm org ex entry arg pdir)
  show ?thesis
  proof (cases "sched_find_free_slot_from SCHED_EXTERNAL_PID_MIN s = None \<or> nm = None \<or> entry = 0")
    case True
    then show ?thesis unfolding spawn(2) using spawn_fail [OF True, of L org ex arg pdir] p
      by (auto simp: scheduler_spawn_kernel_task_def progress_def)
  next
    case False
    then obtain idx n where f: "sched_find_free_slot_from SCHED_EXTERNAL_PID_MIN s = Some idx" "nm = Some n" "entry \<noteq> 0"
      by auto
    have "idx \<noteq> p" using free_slot_range [OF f(1)] p(4) by auto
    with spawn_ok [OF inv f, of L org ex arg pdir] show ?thesis unfolding spawn(2)
      using sched_invD(2) [OF inv] p by (auto simp: scheduler_spawn_kernel_task_def progress_def)
  qed
qed (use p in \<open>simp_all add: progress_def sleep_block_def scheduler_set_current_name_def scheduler_set_current_origin_def
    scheduler_enable_preemption_def scheduler_disable_preemption_def scheduler_enter_current_user_mode_def
    paging_set_kernel_stack_top_def Let_def split_beta\<close>)

end
