(* ===== verification/Scheduler_Thms.thy ===== *)
theory Scheduler_Thms
  imports Scheduler_Run
begin

text \<open>
  What a step does to a thread that is not running, and the properties of the scheduler.
\<close>

unbundle bit_operations_syntax

section \<open>A thread that waits\<close>

text \<open>The slot of a waiting thread after an event: a tick may wake it, nothing else touches it.\<close>

definition aged :: "sched_event \<Rightarrow> 'a sched_state_scheme \<Rightarrow> nat \<Rightarrow> process" where
  "aged e s p = (case e of Tick f \<Rightarrow> wake_process (g_timer_ticks (timer_on_tick s)) (slot_at p s) | _ \<Rightarrow> slot_at p s)"

definition untouched :: "sched_event \<Rightarrow> nat \<Rightarrow> 'a sched_state_scheme \<Rightarrow> 'a sched_state_scheme \<Rightarrow> bool" where
  "untouched e p s t \<longleftrightarrow> (cur t \<noteq> p \<and> slot_at p t = aged e s p)
     \<or> (cur t = p \<and> p_state (aged e s p) = PROCESS_READY \<and> st t p = PROCESS_RUNNING)"

lemma switches_other:
  assumes sw: "switches L f n s r" and p: "p \<noteq> cur s"
  shows "(cur (snd r) \<noteq> p \<and> slot_at p (snd r) = slot_at p s)
     \<or> (cur (snd r) = p \<and> st s p = PROCESS_READY \<and> st (snd r) p = PROCESS_RUNNING)"
  using assms unfolding switches_def switched_def by (cases "p = n") simp_all

lemma switch_other:
  assumes inv: "sched_inv s" and f: "f \<noteq> 0" and p: "p \<noteq> cur s"
  shows "(cur (snd (sched_switch_from_frame L f s)) \<noteq> p \<and> slot_at p (snd (sched_switch_from_frame L f s)) = slot_at p s)
     \<or> (cur (snd (sched_switch_from_frame L f s)) = p \<and> st s p = PROCESS_READY
        \<and> st (snd (sched_switch_from_frame L f s)) p = PROCESS_RUNNING)"
  using switch_from_frame_cases [OF inv f, of L]
proof
  assume "stays f s (sched_switch_from_frame L f s)"
  then show ?thesis using p unfolding stays_def by metis
next
  assume "\<exists>n. switches L f n s (sched_switch_from_frame L f s)"
  then show ?thesis using switches_other [OF _ p] by blast
qed

lemma tick_other:
  assumes inv: "sched_inv s" and f: "f \<noteq> 0" and p: "p < 8" "p \<noteq> cur s"
  shows "untouched (Tick f) p s (snd (scheduler_on_timer_tick L f s))"
proof -
  obtain q where q: "scheduler_on_timer_tick L f s = (0, (tick_prefix s)\<lparr>g_slice_ticks_left := q\<rparr>)
    \<or> scheduler_on_timer_tick L f s = sched_switch_from_frame L f ((tick_prefix s)\<lparr>g_slice_ticks_left := q\<rparr>)"
    using timer_tick_cases [OF inv f, of L] by blast
  let ?u = "(tick_prefix s)\<lparr>g_slice_ticks_left := q\<rparr>"
  have a: "slot_at p ?u = aged (Tick f) s p" using tick_prefix_slot [OF inv p(1)] p(2) by (simp add: aged_def)
  have c: "cur ?u = cur s" by simp
  from q show ?thesis
  proof
    assume "scheduler_on_timer_tick L f s = (0, ?u)"
    then show ?thesis using a p(2) c by (simp add: untouched_def)
  next
    assume e: "scheduler_on_timer_tick L f s = sched_switch_from_frame L f ?u"
    have "p \<noteq> cur ?u" using p(2) by simp
    from switch_other [OF slice_inv [OF tick_prefix_inv [OF inv]] f this, of L] show ?thesis
      unfolding e untouched_def a by blast
  qed
qed

lemma step_other:
  assumes step: "sched_step L s e t" and inv: "sched_inv s" and ter: "e \<noteq> Terminate (int p)"
    and p: "p < 8" "p \<noteq> cur s" "waiting (st s p)"
  shows "untouched e p s t"
  using step
proof cases
  case (tick f)
  show ?thesis unfolding tick(1,2) by (rule tick_other [OF inv tick(3) p(1,2)])
next
  case (yield_irq f)
  show ?thesis unfolding yield_irq(1,2) on_yield_eq [OF inv yield_irq(3)] untouched_def
    using switch_other [OF inv yield_irq(3) p(2), of L] by (simp add: aged_def)
next
  case (exit_task f)
  let ?s1 = "upd_slot (cur s) (sched_mark_terminated L) s"
  obtain n u where u: "sched_exit_current L f s = (Some (fr s n), u)" "switches L f n ?s1 (fr s n, u)"
    using exit_current_ok [OF inv exit_task(3,4) refl, of L] by (elim exE conjE)
  have "p \<noteq> cur ?s1" "slot_at p ?s1 = slot_at p s" using p(2) by simp_all
  with switches_other [OF u(2)] show ?thesis unfolding exit_task(1,2) u(1) untouched_def by (simp add: aged_def)
next
  case (exit_irq f)
  obtain n u where u: "scheduler_exit_current_from_interrupt L f s = (fr s n, u)" "g_current u = int n"
      "st s n = PROCESS_READY" "st u n = PROCESS_RUNNING" "p \<noteq> n \<Longrightarrow> slot_at p u = slot_at p s"
    using exit_from_interrupt_ok [OF inv exit_irq(3,4), of L] p(2) unfolding switched_def by blast
  show ?thesis unfolding exit_irq(1,2) u(1) untouched_def using u(2-5) by (cases "p = n") (simp_all add: aged_def)
next
  case (terminate pid)
  then have "nat pid \<noteq> p \<or> pid < 0" using ter by (cases "pid < 0") auto
  then show ?thesis unfolding terminate(1,2) using p
    by (auto simp: untouched_def aged_def scheduler_terminate_process_def sched_consts)
next
  case (spawn nm org ex entry arg pdir)
  show ?thesis
  proof (cases "sched_find_free_slot_from SCHED_EXTERNAL_PID_MIN s = None \<or> nm = None \<or> entry = 0")
    case True
    then show ?thesis unfolding spawn(1,2) using spawn_fail [OF True, of L org ex arg pdir] p
      by (auto simp: scheduler_spawn_kernel_task_def untouched_def aged_def)
  next
    case False
    then obtain idx n where f: "sched_find_free_slot_from SCHED_EXTERNAL_PID_MIN s = Some idx" "nm = Some n" "entry \<noteq> 0"
      by auto
    have "idx \<noteq> p" using free_slot_range [OF f(1)] p(3) by (auto simp: waiting_def)
    with spawn_ok [OF inv f, of L org ex arg pdir] show ?thesis unfolding spawn(1,2)
      using sched_invD(2) [OF inv] p by (auto simp: scheduler_spawn_kernel_task_def untouched_def aged_def)
  qed
qed (use p in \<open>simp_all add: untouched_def aged_def sleep_block_def scheduler_set_current_name_def scheduler_set_current_origin_def
    scheduler_enable_preemption_def scheduler_disable_preemption_def scheduler_enter_current_user_mode_def
    paging_set_kernel_stack_top_def Let_def split_beta\<close>)

section \<open>Timer and events\<close>

fun is_tick :: "sched_event \<Rightarrow> bool" where
  "is_tick (Tick f) = True"
| "is_tick e = False"

lemma machine_timer [simp]:
  "g_timer_ticks (cli s) = g_timer_ticks s" "g_timer_ticks (sti s) = g_timer_ticks s"
  "g_timer_ready (cli s) = g_timer_ready s" "g_timer_ready (sti s) = g_timer_ready s"
  by (simp_all add: cli_def sti_def)

lemma switch_timer:
  assumes "sched_inv s" "f \<noteq> 0"
  shows "g_timer_ticks (snd (sched_switch_from_frame L f s)) = g_timer_ticks s
    \<and> g_timer_ready (snd (sched_switch_from_frame L f s)) = g_timer_ready s"
  using switch_from_frame_cases [OF assms, of L] unfolding stays_def switches_def by blast

lemma activate_timer [simp]:
  "g_timer_ticks (snd (sched_activate_slot L n s)) = g_timer_ticks s"
  "g_timer_ready (snd (sched_activate_slot L n s)) = g_timer_ready s"
  by (simp_all add: sched_activate_slot_def Let_def paging_activate_directory_def load_page_directory_def
      paging_set_kernel_stack_top_def)

lemma spawn_timer [simp]:
  "g_timer_ticks (snd (scheduler_spawn_kernel_task L nm org ex entry arg pdir s)) = g_timer_ticks s"
  "g_timer_ready (snd (scheduler_spawn_kernel_task L nm org ex entry arg pdir s)) = g_timer_ready s"
  by (simp_all add: scheduler_spawn_kernel_task_def sched_spawn_kernel_thread_internal_def Let_def
      sched_reset_slot_def sched_prepare_kernel_thread_def sched_mem_zero_def store_word_def split: option.split)

lemma step_timer:
  assumes step: "sched_step L s e t" and inv: "sched_inv s"
  shows "g_timer_ready t = g_timer_ready s \<and>
    g_timer_ticks t = (if is_tick e then g_timer_ticks (timer_on_tick s) else g_timer_ticks s)"
  using step
proof cases
  case (tick f)
  obtain q where q: "scheduler_on_timer_tick L f s = (0, (tick_prefix s)\<lparr>g_slice_ticks_left := q\<rparr>)
    \<or> scheduler_on_timer_tick L f s = sched_switch_from_frame L f ((tick_prefix s)\<lparr>g_slice_ticks_left := q\<rparr>)"
    using timer_tick_cases [OF inv tick(3), of L] by blast
  then show ?thesis unfolding tick(1,2)
    using switch_timer [OF slice_inv [OF tick_prefix_inv [OF inv]] tick(3), of L q] by auto
next
  case (yield_irq f)
  show ?thesis unfolding yield_irq(1,2) on_yield_eq [OF inv yield_irq(3)]
    using switch_timer [OF inv yield_irq(3), of L] by simp
next
  case (exit_task f)
  obtain n u where u: "sched_exit_current L f s = (Some (fr s n), u)"
    "switches L f n (upd_slot (cur s) (sched_mark_terminated L) s) (fr s n, u)"
    using exit_current_ok [OF inv exit_task(3,4) refl, of L] by (elim exE conjE)
  have "g_timer_ticks u = g_timer_ticks s" "g_timer_ready u = g_timer_ready s"
    using u(2) unfolding switches_def by simp_all
  then show ?thesis unfolding exit_task(1,2) u(1) by simp
next
  case (exit_irq f)
  show ?thesis unfolding exit_irq(1,2)
    by (simp add: scheduler_exit_current_from_interrupt_def Let_def split: option.split)
qed (simp_all add: sleep_block_def scheduler_set_current_name_def scheduler_set_current_origin_def
    scheduler_enable_preemption_def scheduler_disable_preemption_def scheduler_enter_current_user_mode_def
    paging_set_kernel_stack_top_def scheduler_terminate_process_def Let_def split_beta)

section \<open>Lifting to traces\<close>

lemma trace_frame_kept:
  assumes "trace_ok L s tr" "sched_inv s" "p < 8" "p \<noteq> cur s" "waiting (st s p)"
    "\<forall>(e, t) \<in> set tr. e \<noteq> Terminate (int p) \<and> cur t \<noteq> p"
  shows "waiting (st (trace_end s tr) p) \<and> fr (trace_end s tr) p = fr s p \<and> p \<noteq> cur (trace_end s tr)"
  using assms
proof (induction tr arbitrary: s)
  case (Cons x tr)
  obtain e t where x: "x = (e, t)" by (cases x)
  have step: "sched_step L s e t" and tr: "trace_ok L t tr" using Cons.prems(1) by (auto simp: x)
  have ne: "e \<noteq> Terminate (int p)" "cur t \<noteq> p" using Cons.prems(6) by (auto simp: x)
  have "slot_at p t = aged e s p"
    using step_other [OF step Cons.prems(2) ne(1) Cons.prems(3-5)] ne(2) by (simp add: untouched_def)
  then have "waiting (st t p)" "fr t p = fr s p"
    using Cons.prems(5) wake_process_keeps(2,4) by (auto simp: aged_def split: sched_event.splits)
  then show ?case using Cons.IH [OF tr sched_step_inv [OF step Cons.prems(2)] Cons.prems(3)] ne(2) Cons.prems(6)
    by (auto simp: x)
qed simp

fun switch_total :: "'a sched_state_scheme \<Rightarrow> (sched_event \<times> 'a sched_state_scheme) list \<Rightarrow> nat" where
  "switch_total s [] = 0"
| "switch_total s ((e, t) # tr) = (if g_current t \<noteq> g_current s then 1 else 0) + switch_total t tr"

lemma trace_wait:
  assumes "trace_ok L s tr" "sched_inv s" "p < 8" "p \<noteq> 1" "p \<noteq> cur s" "st s p = PROCESS_READY"
    "\<forall>(e, t) \<in> set tr. e \<noteq> Terminate (int p) \<and> cur t \<noteq> p"
  shows "st (trace_end s tr) p = PROCESS_READY \<and> p \<noteq> cur (trace_end s tr)
    \<and> switch_total s tr + ring_dist (cur (trace_end s tr)) p \<le> ring_dist (cur s) p"
  using assms
proof (induction tr arbitrary: s)
  case (Cons x tr)
  obtain e t where x: "x = (e, t)" by (cases x)
  have step: "sched_step L s e t" and tr: "trace_ok L t tr" using Cons.prems(1) by (auto simp: x)
  have ne: "e \<noteq> Terminate (int p)" "cur t \<noteq> p" using Cons.prems(7) by (auto simp: x)
  have pr: "st t p = PROCESS_READY" "g_current t = g_current s \<or> ring_dist (cur t) p < ring_dist (cur s) p"
    using sched_step_progress [OF step Cons.prems(2) ne(1) Cons.prems(3-6)] ne(2) by (auto simp: progress_def)
  have "st (trace_end t tr) p = PROCESS_READY \<and> p \<noteq> cur (trace_end t tr)
    \<and> switch_total t tr + ring_dist (cur (trace_end t tr)) p \<le> ring_dist (cur t) p"
    using Cons.IH [OF tr sched_step_inv [OF step Cons.prems(2)] Cons.prems(3,4) _ pr(1)] ne(2) Cons.prems(7) by (auto simp: x)
  then show ?case using pr(2) by (auto simp: x)
qed simp

lemma word_sleep:
  fixes n k :: nat
  assumes "k < n" "n \<le> 2 ^ 31"
  shows "(of_nat k - of_nat n :: u32) \<ge> 0x80000000"
proof -
  have "(of_nat k - of_nat n :: u32) = of_nat 4294967296 - of_nat (n - k)" using assms(1) by simp
  also have "\<dots> = of_nat (4294967296 - (n - k))" by (rule of_nat_diff [symmetric]) (use assms in simp)
  finally have "unat (of_nat k - of_nat n :: u32) = 4294967296 - (n - k)"
    using assms by (simp add: unat_of_nat32 del: of_nat_diff)
  then show ?thesis using assms by (simp add: word_le_nat_alt)
qed

fun tick_count :: "(sched_event \<times> 'a) list \<Rightarrow> nat" where
  "tick_count [] = 0"
| "tick_count ((e, t) # tr) = (if is_tick e then 1 else 0) + tick_count tr"

lemma trace_sleep:
  assumes "trace_ok L s tr" "sched_inv s" "g_timer_ready s" "p < 8" "p \<noteq> cur s" "st s p = PROCESS_BLOCKED"
    "\<forall>(e, t) \<in> set tr. e \<noteq> Terminate (int p)" "p_wake_tick (slot_at p s) = g_timer_ticks s + of_nat n"
    "tick_count tr < n" "n \<le> 2 ^ 31"
  shows "st (trace_end s tr) p = PROCESS_BLOCKED \<and> p \<noteq> cur (trace_end s tr) \<and> g_timer_ready (trace_end s tr)
    \<and> p_wake_tick (slot_at p (trace_end s tr)) = g_timer_ticks s + of_nat n
    \<and> g_timer_ticks (trace_end s tr) = g_timer_ticks s + of_nat (tick_count tr)"
  using assms
proof (induction tr arbitrary: s n)
  case (Cons x tr)
  obtain e t where x: "x = (e, t)" by (cases x)
  have step: "sched_step L s e t" and tr: "trace_ok L t tr" using Cons.prems(1) by (auto simp: x)
  have ne: "e \<noteq> Terminate (int p)" using Cons.prems(7) by (auto simp: x)
  have w: "waiting (st s p)" using Cons.prems(6) by (simp add: waiting_def)
  note oth = step_other [OF step Cons.prems(2) ne Cons.prems(4,5) w]
  note tim = step_timer [OF step Cons.prems(2)]
  have keep: "aged e s p = slot_at p s"
  proof (cases e)
    case (Tick f)
    have n1: "1 < n" using Cons.prems(9) Tick by (simp add: x)
    have "g_timer_ticks (timer_on_tick s) - p_wake_tick (slot_at p s) = of_nat 1 - of_nat n"
      using Cons.prems(3,8) by (simp add: timer_on_tick_def)
    then show ?thesis using word_sleep [OF n1 Cons.prems(10)] Tick by (simp add: aged_def wake_process_def)
  qed (simp_all add: aged_def)
  have t: "slot_at p t = slot_at p s" "cur t \<noteq> p"
    using oth Cons.prems(6) by (auto simp: untouched_def keep)
  let ?k = "if is_tick e then 1 else 0 :: nat"
  have tt: "g_timer_ticks t = g_timer_ticks s + of_nat ?k" "g_timer_ready t"
    using tim Cons.prems(3) by (simp_all add: timer_on_tick_def)
  have nk: "?k \<le> n" using Cons.prems(9) by (auto simp: x)
  have wk: "p_wake_tick (slot_at p t) = g_timer_ticks t + of_nat (n - ?k)"
    using Cons.prems(8) nk by (simp add: t tt)
  have "tick_count tr < n - ?k" "n - ?k \<le> 2 ^ 31" using Cons.prems(9,10) by (auto simp: x)
  from Cons.IH [OF tr sched_step_inv [OF step Cons.prems(2)] tt(2) Cons.prems(4) _ _ _ wk this] show ?case
    using Cons.prems(6,7) t tt nk by (auto simp: x)
qed simp

end
