(* ===== verification/Scheduler_Main.thy ===== *)
theory Scheduler_Main
  imports Scheduler_Thms
begin

text \<open>
  The properties of the scheduler, over all traces of events, with witnesses on a concrete process
  table: the boot thread is running, the idle thread and slot 3 are ready, slot 4 sleeps for three
  more ticks.
\<close>

unbundle bit_operations_syntax

section \<open>A concrete process table\<close>

definition demo_sched_link :: sched_link where
  "demo_sched_link = link_map.extend demo_link
     \<lparr>lm_thread_bootstrap = 0x108000, lm_thread_exit_trampoline = 0x108100, lm_idle_thread = 0x108200\<rparr>"

definition blank_process :: process where
  "blank_process = \<lparr>p_pid = 0, p_name = None, p_origin_name = None, p_origin_is_executable = False,
     p_state = PROCESS_UNUSED,
     p_context = \<lparr>irq_frame = 0, user_esp = 0, kernel_stack_base = 0, kernel_stack_top = 0,
       user_stack_base = 0, user_stack_top = 0, guard_page_base = 0, page_directory = 0\<rparr>,
     p_wake_tick = 0, p_runtime_ticks = 0, p_switch_count = 0, p_thread_entry = 0, p_thread_arg = 0\<rparr>"

definition sched_boot :: sched_state where
  "sched_boot = paging_state.extend paging_boot
     \<lparr>g_slots = replicate 8 blank_process, g_current = -1, g_runtime_ready = False,
      g_preemption_enabled = False, g_quantum_ticks = 0, g_slice_ticks_left = 0\<rparr>"

text \<open>The state after \<open>paging_setup_structures\<close>, from which the runtime is initialised.\<close>

definition sched_booted :: sched_state where
  "sched_booted = paging_setup_structures demo_sched_link sched_boot"

definition demo_process :: "nat \<Rightarrow> process_state_t \<Rightarrow> u32 \<Rightarrow> process" where
  "demo_process i x wake = blank_process\<lparr>p_pid := int i, p_name := Some (ascii ''demo''), p_state := x,
     p_wake_tick := wake,
     p_context := \<lparr>irq_frame = sched_slot_guard_base i + SCHED_STACK_REGION_BYTES - 4 - sizeof_irq_frame,
       user_esp = 0,
       kernel_stack_base = sched_slot_guard_base i + SCHED_GUARD_BYTES,
       kernel_stack_top = sched_slot_guard_base i + SCHED_STACK_REGION_BYTES,
       user_stack_base = 0, user_stack_top = 0,
       guard_page_base = sched_slot_guard_base i, page_directory = 0x200000\<rparr>\<rparr>"

definition demo_sched :: sched_state where
  "demo_sched = paging_state.extend paging_boot
     \<lparr>g_slots = [demo_process 0 PROCESS_RUNNING 0, demo_process 1 PROCESS_READY 0, demo_process 2 PROCESS_UNUSED 0,
        demo_process 3 PROCESS_READY 0, demo_process 4 PROCESS_BLOCKED 1, demo_process 5 PROCESS_UNUSED 0,
        demo_process 6 PROCESS_UNUSED 0, demo_process 7 PROCESS_UNUSED 0],
      g_current = 0, g_runtime_ready = True, g_preemption_enabled = True, g_quantum_ticks = 5, g_slice_ticks_left = 5\<rparr>"

lemma demo_sched_fields:
  "g_slots demo_sched = [demo_process 0 PROCESS_RUNNING 0, demo_process 1 PROCESS_READY 0, demo_process 2 PROCESS_UNUSED 0,
     demo_process 3 PROCESS_READY 0, demo_process 4 PROCESS_BLOCKED 1, demo_process 5 PROCESS_UNUSED 0,
     demo_process 6 PROCESS_UNUSED 0, demo_process 7 PROCESS_UNUSED 0]"
  "g_current demo_sched = 0" "g_runtime_ready demo_sched" "g_timer_ticks demo_sched = 0xFFFFFFFE" "g_timer_ready demo_sched"
  by (simp_all add: demo_sched_def paging_state.defs paging_boot_def timer_state.defs timer_boot_def log_state.defs)

lemma less8: "(i :: nat) < 8 \<longleftrightarrow> i = 0 \<or> i = 1 \<or> i = 2 \<or> i = 3 \<or> i = 4 \<or> i = 5 \<or> i = 6 \<or> i = 7"
  by linarith

lemma demo_slot:
  "slot_at 0 demo_sched = demo_process 0 PROCESS_RUNNING 0" "slot_at 1 demo_sched = demo_process 1 PROCESS_READY 0"
  "slot_at 2 demo_sched = demo_process 2 PROCESS_UNUSED 0" "slot_at 3 demo_sched = demo_process 3 PROCESS_READY 0"
  "slot_at 4 demo_sched = demo_process 4 PROCESS_BLOCKED 1" "slot_at 5 demo_sched = demo_process 5 PROCESS_UNUSED 0"
  "slot_at 6 demo_sched = demo_process 6 PROCESS_UNUSED 0" "slot_at 7 demo_sched = demo_process 7 PROCESS_UNUSED 0"
  by (simp_all add: slot_at_def demo_sched_fields)

lemma demo_process_fields:
  "p_pid (demo_process i x w) = int i" "p_state (demo_process i x w) = x" "p_wake_tick (demo_process i x w) = w"
  by (simp_all add: demo_process_def)

lemma demo_frame: "i \<in> {1..<8} \<Longrightarrow> irq_frame (p_context (demo_process i x w)) \<noteq> 0"
  using stack_frame_value [of i] by (auto simp: demo_process_def)

lemma demo_sched_inv: "sched_inv demo_sched"
proof -
  have ex: "\<exists>x w. slot_at i demo_sched = demo_process i x w" if "i < 8" for i
    using that demo_slot unfolding less8 by metis
  have "stacks_ok demo_sched"
    unfolding stacks_ok_def Let_def
  proof
    fix i :: nat assume "i \<in> {1..<8}"
    then obtain x w where "slot_at i demo_sched = demo_process i x w" using ex [of i] by auto
    then show "guard_page_base (p_context (slot_at i demo_sched)) = sched_slot_guard_base i
      \<and> kernel_stack_base (p_context (slot_at i demo_sched)) = sched_slot_guard_base i + SCHED_GUARD_BYTES
      \<and> kernel_stack_top (p_context (slot_at i demo_sched)) = sched_slot_guard_base i + SCHED_STACK_REGION_BYTES"
      by (simp add: demo_process_def)
  qed
  moreover have "p_pid (slot_at i demo_sched) = int i" if "i < 8" for i
    using ex [OF that] demo_process_fields(1) by metis
  moreover have "irq_frame (p_context (slot_at i demo_sched)) \<noteq> 0" if "i < 8" "i \<noteq> 0" for i
    using ex [OF that(1)] demo_frame [of i] that by fastforce
  moreover have "st demo_sched i \<noteq> PROCESS_RUNNING" if "i < 8" "i \<noteq> 0" for i
    using that demo_slot unfolding less8 by (auto simp: demo_process_fields)
  ultimately show ?thesis unfolding sched_inv_def
    using demo_slot(2) by (simp add: demo_sched_fields current_ok_def sched_consts demo_process_fields)
qed

lemma demo_sched_layout: "layout_ok demo_sched_link"
  by (simp add: layout_ok_def kernel_tables_def demo_sched_link_def demo_link_def link_map.defs page_aligned_def
      table_addr_def LOWMEM_PAGE_TABLE_COUNT_def FB_PAGE_TABLE_COUNT_def upt_rec)

lemma demo_sched_off_arena: "tables_off_arena demo_sched_link"
  by (simp add: tables_off_arena_def kernel_tables_def demo_sched_link_def demo_link_def link_map.defs
      table_addr_def LOWMEM_PAGE_TABLE_COUNT_def FB_PAGE_TABLE_COUNT_def upt_rec)

lemma g_slots_setup [simp]:
  "g_slots (paging_setup_structures L s) = g_slots s" "g_runtime_ready (paging_setup_structures L s) = g_runtime_ready s"
  by (simp_all add: paging_setup_structures_def Let_def log_print_hex_def emit_serial_def del: upt_Suc)

lemma sched_booted_ok:
  "\<exists>T pt. kmap demo_sched_link T (m_mem sched_booted) \<and> kfull T (m_mem sched_booted) \<and> T 1 = Some pt"
  "length (g_slots sched_booted) = 8" "\<not> g_runtime_ready sched_booted"
proof -
  obtain T where T: "kmap demo_sched_link T (m_mem sched_booted)" "kfull T (m_mem sched_booted)"
    "dom T = {0..<LOWMEM_PAGE_TABLE_COUNT}
        \<union> set (take FB_PAGE_TABLE_COUNT (filter (\<lambda>d. d \<noteq> 0) (boot_fb_pds sched_boot)))"
    using setup_structures_kmap [OF demo_sched_layout, of sched_boot] unfolding sched_booted_def by blast
  have "1 \<in> dom T" unfolding T(3) by (simp add: LOWMEM_PAGE_TABLE_COUNT_def)
  with T(1,2) show "\<exists>T pt. kmap demo_sched_link T (m_mem sched_booted) \<and> kfull T (m_mem sched_booted) \<and> T 1 = Some pt"
    by blast
  show "length (g_slots sched_booted) = 8" "\<not> g_runtime_ready sched_booted"
    by (simp_all add: sched_booted_def sched_boot_def paging_state.defs)
qed

section \<open>The invariant of every reachable state\<close>

text \<open>
  C23: On the kernel map that \<open>paging_init\<close> builds, \<open>scheduler_runtime_init\<close> succeeds, and after any
  sequence of ticks, yields, sleeps, exits, terminations and spawns the process table is consistent: at
  most the current slot is running, the idle thread is always runnable, every other runnable or
  sleeping slot has a saved frame to resume from, and pids and stacks belong to their slots.
\<close>

theorem sched_trace_invariant:
  assumes "layout_ok L" "tables_off_arena L" "kmap L T (m_mem s)" "kfull T (m_mem s)" "T 1 = Some pt"
    "length (g_slots s) = 8" "\<not> g_runtime_ready s"
    and init: "scheduler_runtime_init L s = (ok, t)" and tr: "trace_ok L t tr"
  shows "ok \<and> sched_inv (trace_end t tr) \<and> (\<forall>(e, u) \<in> set tr. sched_inv u)"
proof -
  have "ok \<and> sched_inv t" using runtime_init_ok [OF assms(1-7)] init by auto
  then show ?thesis using trace_inv [OF tr] by blast
qed

theorem sched_trace_invariant_witness:
  "\<exists>t. scheduler_runtime_init demo_sched_link sched_booted = (True, t)
     \<and> sched_inv (snd (scheduler_on_yield demo_sched_link 0x9000 t))"
proof -
  obtain T pt where T: "kmap demo_sched_link T (m_mem sched_booted)" "kfull T (m_mem sched_booted)" "T 1 = Some pt"
    using sched_booted_ok(1) by blast
  obtain ok t where i: "scheduler_runtime_init demo_sched_link sched_booted = (ok, t)" by fastforce
  let ?u = "snd (scheduler_on_yield demo_sched_link 0x9000 t)"
  have "trace_ok demo_sched_link t [(Yield 0x9000, ?u)]" by (simp add: sched_step.yield_irq)
  from sched_trace_invariant [OF demo_sched_layout demo_sched_off_arena T sched_booted_ok(2,3) i this] i
  show ?thesis by simp
qed

section \<open>Context switches\<close>

lemma yield_cases:
  assumes "sched_inv s" "f \<noteq> 0"
  shows "stays f s (scheduler_on_yield L f s) \<or> (\<exists>n. switches L f n s (scheduler_on_yield L f s))"
  unfolding on_yield_eq [OF assms] by (rule switch_from_frame_cases [OF assms])

text \<open>The calls by which the running thread can lose the processor, each with the frame returned to
  the interrupt stub (0: resume the interrupted thread).\<close>

datatype switch_cause = By_Tick | By_Yield | By_Sleep u32 | By_Exit | By_Exit_Irq

fun switch_by :: "'l sched_link_scheme \<Rightarrow> switch_cause \<Rightarrow> u32 \<Rightarrow> 'a sched_state_scheme \<Rightarrow> u32 \<times> 'a sched_state_scheme" where
  "switch_by L By_Tick f s = scheduler_on_timer_tick L f s"
| "switch_by L By_Yield f s = scheduler_on_yield L f s"
| "switch_by L (By_Sleep n) f s = scheduler_sleep_ticks L f n s"
| "switch_by L By_Exit f s = (case sched_exit_current L f s of (Some r, t) \<Rightarrow> (r, t) | (None, t) \<Rightarrow> (0, t))"
| "switch_by L By_Exit_Irq f s = scheduler_exit_current_from_interrupt L f s"

text \<open>The idle thread neither sleeps nor exits.\<close>

definition may_call :: "switch_cause \<Rightarrow> 'a sched_state_scheme \<Rightarrow> bool" where
  "may_call c s \<longleftrightarrow> c = By_Tick \<or> c = By_Yield \<or> cur s \<noteq> SCHED_IDLE_PID"

definition hands_over :: "u32 \<Rightarrow> 'a sched_state_scheme \<Rightarrow> u32 \<times> 'a sched_state_scheme \<Rightarrow> bool" where
  "hands_over f s r \<longleftrightarrow> cur (snd r) \<noteq> cur s \<and> fst r = fr s (cur (snd r)) \<and> sched_inv (snd r)
     \<and> (waiting (st (snd r) (cur s)) \<longrightarrow> fr (snd r) (cur s) = f)"

definition carries_on :: "'a sched_state_scheme \<Rightarrow> u32 \<times> 'a sched_state_scheme \<Rightarrow> bool" where
  "carries_on s r \<longleftrightarrow> fst r = 0 \<and> cur (snd r) = cur s"

lemma switches_hands_over:
  assumes "switches L f n u r" "cur u = cur s" "\<And>i. i < 8 \<Longrightarrow> i \<noteq> cur s \<Longrightarrow> fr u i = fr s i"
  shows "hands_over f s r"
  using switchesD(1,2,5,7,8,9) [OF assms(1)] assms(2,3) by (simp add: hands_over_def)

lemma switch_hands_over:
  assumes "sched_inv u" "f \<noteq> 0" "cur u = cur s" "\<And>i. i < 8 \<Longrightarrow> i \<noteq> cur s \<Longrightarrow> fr u i = fr s i"
  shows "carries_on s (sched_switch_from_frame L f u) \<or> hands_over f s (sched_switch_from_frame L f u)"
  using switch_from_frame_cases [OF assms(1,2), of L] switches_hands_over [OF _ assms(3,4)] staysD(1,2) assms(3)
  by (metis carries_on_def)

lemma switch_by_cases:
  assumes inv: "sched_inv s" and f: "f \<noteq> 0" and m: "may_call c s"
  shows "carries_on s (switch_by L c f s) \<or> hands_over f s (switch_by L c f s)"
proof (cases c)
  case By_Tick
  obtain q where q: "scheduler_on_timer_tick L f s = (0, (tick_prefix s)\<lparr>g_slice_ticks_left := q\<rparr>)
    \<or> scheduler_on_timer_tick L f s = sched_switch_from_frame L f ((tick_prefix s)\<lparr>g_slice_ticks_left := q\<rparr>)"
    using timer_tick_cases [OF inv f, of L] by blast
  have "fr (tick_prefix s) i = fr s i" if "i < 8" for i
    using tick_prefix_slot [OF inv that] by (simp add: wake_process_keeps)
  then have "carries_on s (sched_switch_from_frame L f ((tick_prefix s)\<lparr>g_slice_ticks_left := q\<rparr>))
      \<or> hands_over f s (sched_switch_from_frame L f ((tick_prefix s)\<lparr>g_slice_ticks_left := q\<rparr>))"
    by (intro switch_hands_over [OF slice_inv [OF tick_prefix_inv [OF inv]] f]) simp_all
  with q show ?thesis by (auto simp: By_Tick carries_on_def)
next
  case By_Yield
  then show ?thesis using switch_hands_over [OF inv f, of s L] by (simp add: on_yield_eq [OF inv f])
next
  case (By_Sleep n)
  have c1: "cur s \<noteq> 1" using m By_Sleep by (simp add: may_call_def SCHED_IDLE_PID_def)
  show ?thesis
  proof (cases "n = 0")
    case True
    then show ?thesis using switch_hands_over [OF inv f, of s L] sched_invD(2,3) [OF inv]
      by (simp add: By_Sleep scheduler_sleep_ticks_def yield_eq [OF inv f])
  next
    case False
    have "carries_on s (sched_switch_from_frame L f (sleep_block n s)) \<or> hands_over f s (sched_switch_from_frame L f (sleep_block n s))"
      by (rule switch_hands_over [OF sleep_block_inv [OF inv c1] f]) (simp_all add: sleep_block_def)
    then show ?thesis using False sched_invD(2,3) [OF inv]
      by (simp add: By_Sleep scheduler_sleep_ticks_def yield_eq [OF sleep_block_inv [OF inv c1] f])
  qed
next
  case By_Exit
  have c1: "cur s \<noteq> 1" using m By_Exit by (simp add: may_call_def SCHED_IDLE_PID_def)
  obtain n u where u: "sched_exit_current L f s = (Some (fr s n), u)"
    "switches L f n (upd_slot (cur s) (sched_mark_terminated L) s) (fr s n, u)"
    using exit_current_ok [OF inv f c1 refl, of L] by (elim exE conjE)
  show ?thesis using switches_hands_over [OF u(2), of s] by (simp add: By_Exit u(1))
next
  case By_Exit_Irq
  have c1: "cur s \<noteq> 1" using m By_Exit_Irq by (simp add: may_call_def SCHED_IDLE_PID_def)
  obtain n u where "scheduler_exit_current_from_interrupt L f s = (fr s n, u)" "n \<noteq> cur s" "switched L n s u" "sched_inv u"
    "st u (cur s) = PROCESS_TERMINATED"
    using exit_from_interrupt_ok [OF inv f c1, of L] by (elim exE conjE)
  then show ?thesis by (simp add: By_Exit_Irq hands_over_def switched_def waiting_def)
qed

text \<open>
  C24: A thread is resumed exactly where it was interrupted: when the running thread \<open>p\<close> is switched
  out by a timer tick, a yield or a sleep whose frame is at \<open>f\<close>, then whatever happens before \<open>p\<close> runs
  again (ticks, sleeps, exits and spawns of others, wake-ups of \<open>p\<close>, but no termination of \<open>p\<close>), the
  tick, yield, sleep or exit that switches back to it makes the interrupt stub load precisely \<open>f\<close>.
\<close>

theorem context_switch_resumes:
  assumes inv: "sched_inv s" and f: "f \<noteq> 0" and c: "may_call c s"
    and out: "switch_by L c f s = (r1, s1)" "cur s1 \<noteq> cur s"
    and w: "waiting (st s1 (cur s))" and tr: "trace_ok L s1 tr"
    and quiet: "\<forall>(e, t) \<in> set tr. e \<noteq> Terminate (int (cur s)) \<and> cur t \<noteq> cur s"
    and g: "g \<noteq> 0" and d: "may_call d (trace_end s1 tr)"
    and ret: "switch_by L d g (trace_end s1 tr) = (r2, s2)" "cur s2 = cur s"
  shows "r2 = f"
proof -
  have c8: "cur s < 8" by (rule sched_invD(5) [OF inv])
  have s1: "sched_inv s1" "fr s1 (cur s) = f"
    using switch_by_cases [OF inv f c, of L] out w by (simp_all add: carries_on_def hands_over_def)
  note kept = trace_frame_kept [OF tr s1(1) c8 out(2) [symmetric] w quiet]
  have inv2: "sched_inv (trace_end s1 tr)" using trace_inv [OF tr s1(1)] by blast
  show ?thesis using switch_by_cases [OF inv2 g d, of L] ret kept s1(2)
    by (simp add: carries_on_def hands_over_def)
qed

lemma demo_pick: "sched_pick_next demo_sched = Some 3"
  by (simp add: sched_pick_next_def sched_find_ready_non_idle_def sched_consts upt_rec slot_at_def demo_sched_fields
      demo_process_fields)

lemma demo_switch:
  "switches demo_sched_link 0x9000 3 demo_sched (scheduler_on_yield demo_sched_link 0x9000 demo_sched)"
proof -
  have "\<not> stays 0x9000 demo_sched r" for r using staysD(3) [of _ demo_sched r] demo_pick by (auto simp: demo_sched_fields)
  then obtain n where n: "switches demo_sched_link 0x9000 n demo_sched (scheduler_on_yield demo_sched_link 0x9000 demo_sched)"
    using yield_cases [OF demo_sched_inv, of "0x9000" demo_sched_link] by auto
  then show ?thesis using switchesD(4) [OF n] demo_pick by simp
qed

lemma demo_exit_back:
  "cur (snd (switch_by demo_sched_link By_Exit 0xA000 (snd (scheduler_on_yield demo_sched_link 0x9000 demo_sched)))) = 0"
proof -
  let ?s1 = "snd (scheduler_on_yield demo_sched_link 0x9000 demo_sched)"
  let ?s2 = "upd_slot (cur ?s1) (sched_mark_terminated demo_sched_link) ?s1"
  have inv1: "sched_inv ?s1" and c1: "g_current ?s1 = 3" "st ?s1 0 = PROCESS_READY" "st ?s1 4 = PROCESS_BLOCKED"
    "st ?s1 5 = PROCESS_UNUSED" "st ?s1 6 = PROCESS_UNUSED" "st ?s1 7 = PROCESS_UNUSED"
    using switchesD(7,8,10) [OF demo_switch] switchesD(11) [OF demo_switch]
    by (simp_all add: demo_sched_fields demo_slot demo_process_fields)
  obtain n u where u: "sched_exit_current demo_sched_link 0xA000 ?s1 = (Some (fr ?s1 n), u)"
    "switches demo_sched_link 0xA000 n ?s2 (fr ?s1 n, u)"
    using exit_current_ok [OF inv1 _ _ refl, of "0xA000" demo_sched_link] c1(1) by auto
  have "sched_pick_next ?s2 = Some 0"
    using c1 by (simp add: sched_pick_next_def sched_find_ready_non_idle_def sched_consts upt_rec)
  then show ?thesis using switchesD(4,7) [OF u(2)] by (simp add: u(1))
qed

theorem context_switch_resumes_witness:
  "fst (switch_by demo_sched_link By_Exit 0xA000 (snd (scheduler_on_yield demo_sched_link 0x9000 demo_sched))) = 0x9000"
proof -
  let ?s1 = "snd (scheduler_on_yield demo_sched_link 0x9000 demo_sched)"
  have out: "switch_by demo_sched_link By_Yield 0x9000 demo_sched = (fst (scheduler_on_yield demo_sched_link 0x9000 demo_sched), ?s1)"
    "cur ?s1 \<noteq> cur demo_sched" "may_call By_Exit (trace_end ?s1 [])"
    using switchesD(7) [OF demo_switch] by (simp_all add: demo_sched_fields may_call_def SCHED_IDLE_PID_def)
  have w: "waiting (st ?s1 (cur demo_sched))"
    using switchesD(10) [OF demo_switch] by (simp add: demo_sched_fields demo_slot demo_process_fields waiting_def)
  have m: "may_call By_Yield demo_sched" by (simp add: may_call_def)
  show ?thesis
    by (rule context_switch_resumes [OF demo_sched_inv _ m out(1,2) w, of "[]" "0xA000" By_Exit _ "snd (switch_by demo_sched_link By_Exit 0xA000 ?s1)"])
       (use demo_exit_back out(3) in \<open>simp_all add: demo_sched_fields\<close>)
qed

text \<open>
  A thread that exits never runs again on its stack: \<open>sched_exit_current\<close> always resumes the
  saved, non-null frame of another ready thread, so the halt after an unexpected return of the yield
  is unreachable; the exiting slot is left terminated and the table consistent.
\<close>

theorem exit_never_returns:
  assumes inv: "sched_inv s" and f: "f \<noteq> 0" and c: "cur s \<noteq> SCHED_IDLE_PID"
  shows "\<exists>n t. sched_exit_current L f s = (Some (fr s n), t) \<and> fr s n \<noteq> 0 \<and> n \<noteq> cur s \<and> st s n = PROCESS_READY
    \<and> g_current t = int n \<and> st t (cur s) = PROCESS_TERMINATED \<and> sched_inv t"
proof -
  have c1: "cur s \<noteq> 1" using c by (simp add: SCHED_IDLE_PID_def)
  note i = sched_invD [OF inv]
  let ?s1 = "upd_slot (cur s) (sched_mark_terminated L) s"
  obtain n u where u: "sched_exit_current L f s = (Some (fr s n), u)" and sw: "switches L f n ?s1 (fr s n, u)"
    using exit_current_ok [OF inv f c1 refl, of L] by (elim exE conjE)
  have n: "n \<noteq> cur s" "st ?s1 n = PROCESS_READY" "fr ?s1 n \<noteq> 0" "g_current u = int n" "sched_inv u"
    "st u (cur ?s1) = (if st ?s1 (cur ?s1) = PROCESS_RUNNING then PROCESS_READY else st ?s1 (cur ?s1))"
    using switchesD [OF sw] by simp_all
  have "st ?s1 (cur s) = PROCESS_TERMINATED" using i by (simp add: sched_mark_terminated_def)
  then show ?thesis using u n by (intro exI [of _ n] exI [of _ u]) (simp add: n(1))
qed

theorem exit_never_returns_witness:
  "\<exists>n t. sched_exit_current demo_sched_link 0x9000 demo_sched = (Some (fr demo_sched n), t)
     \<and> st t 0 = PROCESS_TERMINATED \<and> g_current t = int n \<and> n \<noteq> 0"
proof -
  have c: "cur demo_sched \<noteq> SCHED_IDLE_PID" by (simp add: demo_sched_fields SCHED_IDLE_PID_def)
  from exit_never_returns [OF demo_sched_inv _ c, of "0x9000" demo_sched_link] show ?thesis
    by (auto simp: demo_sched_fields)
qed

section \<open>Fairness and sleeping\<close>

text \<open>
  C25: No ready thread starves: from any consistent table, a ready thread other than the idle one waits
  for at most six switches to other threads before it gets the processor, whatever events happen.
\<close>

theorem bounded_waiting:
  assumes inv: "sched_inv s" and p: "p < 8" "p \<noteq> SCHED_IDLE_PID" "p \<noteq> cur s" "st s p = PROCESS_READY"
    and tr: "trace_ok L s tr" and quiet: "\<forall>(e, t) \<in> set tr. e \<noteq> Terminate (int p) \<and> cur t \<noteq> p"
  shows "switch_total s tr \<le> 6"
proof -
  have p1: "p \<noteq> 1" using p(2) by (simp add: SCHED_IDLE_PID_def)
  note w = trace_wait [OF tr inv p(1) p1 p(3,4) quiet]
  have inv2: "sched_inv (trace_end s tr)" using trace_inv [OF tr inv] by blast
  have "ring_dist (cur s) p < 8" using ring_dist_target [OF sched_invD(5) [OF inv] p(1,3)] by simp
  moreover have "ring_dist (cur (trace_end s tr)) p \<noteq> 0"
    using ring_dist_target [OF sched_invD(5) [OF inv2] p(1)] w by simp
  ultimately show ?thesis using w by linarith
qed

theorem bounded_waiting_witness:
  "switch_total demo_sched [(Block 7, sleep_block 7 demo_sched)] \<le> 6 \<and> st demo_sched 3 = PROCESS_READY"
proof -
  have tr: "trace_ok demo_sched_link demo_sched [(Block 7, sleep_block 7 demo_sched)]"
    by (simp add: sched_step.block demo_sched_fields)
  show ?thesis
    using bounded_waiting [OF demo_sched_inv _ _ _ _ tr, of 3]
    by (simp add: demo_sched_fields demo_slot demo_process_fields sleep_block_def SCHED_IDLE_PID_def)
qed

lemma switch_wake_tick:
  "p_wake_tick (slot_at i (snd (sched_switch_from_frame L f s))) = p_wake_tick (slot_at i s)"
  by (simp add: sched_switch_from_frame_def sched_activate_slot_def Let_def paging_activate_directory_def
      load_page_directory_def paging_set_kernel_stack_top_def split: option.split)

lemma sleep_ticks_ok:
  assumes inv: "sched_inv s" and f: "f \<noteq> 0" and c: "cur s \<noteq> 1" and k: "k \<noteq> 0"
  shows "\<exists>n. switches L f n (sleep_block k s) (scheduler_sleep_ticks L f k s)"
    "scheduler_sleep_ticks L f k s = sched_switch_from_frame L f (sleep_block k s)"
proof -
  note i = sched_invD [OF inv]
  let ?s = "sleep_block k s"
  have inv1: "sched_inv ?s" by (rule sched_step_inv [OF sched_step.block [OF c k] inv])
  have cs: "cur ?s = cur s" by (simp add: sleep_block_def)
  have bl: "st ?s (cur s) = PROCESS_BLOCKED" using i by (simp add: sleep_block_def)
  obtain n where n: "sched_pick_next ?s = Some n" "n \<noteq> cur ?s"
    using exit_pick_next [OF inv1] c bl by (auto simp: cs)
  then have "\<not> stays f ?s r" for r using staysD(3) by fastforce
  then obtain m where m: "switches L f m ?s (sched_switch_from_frame L f ?s)"
    using switch_from_frame_cases [OF inv1 f, of L] by blast
  show eq: "scheduler_sleep_ticks L f k s = sched_switch_from_frame L f ?s"
    using i k by (simp add: scheduler_sleep_ticks_def yield_eq [OF inv1 f])
  show "\<exists>n. switches L f n ?s (scheduler_sleep_ticks L f k s)" using m unfolding eq by blast
qed

text \<open>The state in which another thread takes over from the sleeper.\<close>

lemma slept_state:
  assumes inv: "sched_inv s" "g_timer_ready s" and c: "cur s \<noteq> 1" and f: "f \<noteq> 0" and k: "k \<noteq> 0"
    and sl: "scheduler_sleep_ticks L f k s = (r, s1)"
  shows "sched_inv s1" "cur s \<noteq> cur s1" "st s1 (cur s) = PROCESS_BLOCKED"
    "p_wake_tick (slot_at (cur s) s1) = g_timer_ticks s + k" "g_timer_ready s1" "g_timer_ticks s1 = g_timer_ticks s" "r \<noteq> 0"
proof -
  obtain m where sw: "switches L f m (sleep_block k s) (r, s1)"
    using sleep_ticks_ok(1) [OF inv(1) f c k, of L] sl by auto
  have cs: "cur (sleep_block k s) = cur s" by (simp add: sleep_block_def)
  have bl: "slot_at (cur s) (sleep_block k s) = (slot_at (cur s) s)\<lparr>p_wake_tick := g_timer_ticks s + k, p_state := PROCESS_BLOCKED\<rparr>"
    using sched_invD(1,5) [OF inv(1)] by (simp add: sleep_block_def timer_get_ticks_def)
  note S = switchesD [OF sw, unfolded cs]
  show "p_wake_tick (slot_at (cur s) s1) = g_timer_ticks s + k"
    using switch_wake_tick [of "cur s" L f "sleep_block k s"] bl
    unfolding sleep_ticks_ok(2) [OF inv(1) f c k, of L, symmetric] sl by simp
  show "g_timer_ready s1" "g_timer_ticks s1 = g_timer_ticks s"
    using sw inv(2) unfolding switches_def by (simp_all add: sleep_block_def)
  show "sched_inv s1" "cur s \<noteq> cur s1" "st s1 (cur s) = PROCESS_BLOCKED" "r \<noteq> 0"
    using S(2,5,6,7,8,10) by (simp_all add: bl)
qed

text \<open>
  C26: A sleeping thread wakes exactly on time: \<open>scheduler_sleep_ticks n\<close> (at most \<open>2 ^ 31\<close> ticks) hands
  the processor to another thread, the sleeper stays blocked through the next \<open>n - 1\<close> timer
  interrupts whatever else happens, and the \<open>n\<close>-th makes it runnable, also when the 32-bit tick
  counter wraps in between.
\<close>

theorem sleep_wakes_on_time:
  assumes inv: "sched_inv s" "g_timer_ready s" and p: "p = cur s" "p \<noteq> SCHED_IDLE_PID"
    and n: "0 < n" "n \<le> 2 ^ 31" and f: "f \<noteq> 0" and sl: "scheduler_sleep_ticks L f (of_nat n) s = (r, s1)"
    and tr: "trace_ok L s1 tr" "\<forall>(e, t) \<in> set tr. e \<noteq> Terminate (int p)" "tick_count tr = n - 1"
    and g: "g \<noteq> 0" and u: "u = snd (scheduler_on_timer_tick L g (trace_end s1 tr))"
  shows "r \<noteq> 0 \<and> st (trace_end s1 tr) p = PROCESS_BLOCKED \<and> (st u p = PROCESS_READY \<or> st u p = PROCESS_RUNNING)"
proof -
  have p1: "cur s \<noteq> 1" and p8: "p < 8" using p sched_invD(5) [OF inv(1)] by (simp_all add: SCHED_IDLE_PID_def)
  have nz: "of_nat n \<noteq> (0 :: u32)" using n unat_of_nat32 [of n] by auto
  note sb = slept_state [OF inv p1 f nz sl, folded p(1)]
  have T: "st (trace_end s1 tr) p = PROCESS_BLOCKED" "p \<noteq> cur (trace_end s1 tr)" "g_timer_ready (trace_end s1 tr)"
    "p_wake_tick (slot_at p (trace_end s1 tr)) = g_timer_ticks s1 + of_nat n"
    "g_timer_ticks (trace_end s1 tr) = g_timer_ticks s1 + of_nat (n - 1)"
    using trace_sleep [OF tr(1) sb(1,5) p8 sb(2,3) tr(2), of n] sb(4,6) n tr(3) by simp_all
  have inv2: "sched_inv (trace_end s1 tr)" using trace_inv [OF tr(1) sb(1)] by blast
  have "g_timer_ticks (timer_on_tick (trace_end s1 tr)) = p_wake_tick (slot_at p (trace_end s1 tr))"
    using n T(3-5) by (simp add: timer_on_tick_def of_nat_diff)
  then have "p_state (aged (Tick g) (trace_end s1 tr) p) = PROCESS_READY"
    using T(1) by (simp add: aged_def wake_process_def)
  then have "st u p = PROCESS_READY \<or> st u p = PROCESS_RUNNING"
    using tick_other [OF inv2 g p8 T(2), of L] unfolding u untouched_def by metis
  then show ?thesis using sb(7) T(1) by simp
qed

theorem sleep_wakes_on_time_witness:
  "\<exists>s1 s2 u. scheduler_sleep_ticks demo_sched_link 0x9000 2 demo_sched = s1
     \<and> s2 = snd (scheduler_on_timer_tick demo_sched_link 0x9100 (snd s1))
     \<and> u = snd (scheduler_on_timer_tick demo_sched_link 0x9200 s2)
     \<and> fst s1 \<noteq> 0 \<and> st s2 0 = PROCESS_BLOCKED \<and> (st u 0 = PROCESS_READY \<or> st u 0 = PROCESS_RUNNING)"
proof -
  let ?r = "scheduler_sleep_ticks demo_sched_link 0x9000 2 demo_sched"
  let ?s2 = "snd (scheduler_on_timer_tick demo_sched_link 0x9100 (snd ?r))"
  have tr: "trace_ok demo_sched_link (snd ?r) [(Tick 0x9100, ?s2)]" by (simp add: sched_step.tick)
  have c: "0 = cur demo_sched" "0 \<noteq> SCHED_IDLE_PID" by (simp_all add: demo_sched_fields SCHED_IDLE_PID_def)
  have eq: "scheduler_sleep_ticks demo_sched_link 0x9000 (of_nat 2) demo_sched = (fst ?r, snd ?r)" by simp
  from sleep_wakes_on_time [OF demo_sched_inv demo_sched_fields(5) c _ _ _ eq tr _ _ _ refl, of "0x9200"]
  show ?thesis by simp
qed

text \<open>
  The wake-up test compares 32-bit tick distances, so a sleep of more than \<open>2 ^ 31 + 1\<close> ticks does
  not last: the sleeper is runnable again after the very next timer interrupt.
\<close>

theorem long_sleep_wakes_at_once:
  assumes inv: "sched_inv s" "g_timer_ready s" and p: "p = cur s" "p \<noteq> SCHED_IDLE_PID"
    and n: "2 ^ 31 + 1 < n" "n < 2 ^ 32" and f: "f \<noteq> 0" and sl: "scheduler_sleep_ticks L f (of_nat n) s = (r, s1)"
    and g: "g \<noteq> 0"
  shows "st (snd (scheduler_on_timer_tick L g s1)) p \<noteq> PROCESS_BLOCKED"
proof -
  have p1: "cur s \<noteq> 1" and p8: "p < 8" using p sched_invD(5) [OF inv(1)] by (simp_all add: SCHED_IDLE_PID_def)
  have nz: "of_nat n \<noteq> (0 :: u32)" using n unat_of_nat32 [of n] by auto
  note sb = slept_state [OF inv p1 f nz sl, folded p(1)]
  have "(1 - of_nat n :: u32) < 0x80000000"
  proof -
    have "(1 - of_nat n :: u32) = of_nat 4294967297 - of_nat n" by simp
    also have "\<dots> = of_nat (4294967297 - n)" by (rule of_nat_diff [symmetric]) (use n in simp)
    finally have "unat (1 - of_nat n :: u32) = 4294967297 - n" using n by (simp add: unat_of_nat32 del: of_nat_diff)
    then show ?thesis using n by (simp add: word_less_nat_alt)
  qed
  then have "p_state (aged (Tick g) s1 p) = PROCESS_READY"
    using sb inv(2) by (simp add: aged_def wake_process_def timer_on_tick_def)
  then show ?thesis using tick_other [OF sb(1) g p8 sb(2), of L] by (auto simp: untouched_def)
qed

theorem long_sleep_wakes_at_once_witness:
  "st (snd (scheduler_on_timer_tick demo_sched_link 0x9100 (snd (scheduler_sleep_ticks demo_sched_link 0x9000 0xC0000000 demo_sched)))) 0
     \<noteq> PROCESS_BLOCKED"
proof -
  let ?r = "scheduler_sleep_ticks demo_sched_link 0x9000 0xC0000000 demo_sched"
  have c: "0 = cur demo_sched" "0 \<noteq> SCHED_IDLE_PID" by (simp_all add: demo_sched_fields SCHED_IDLE_PID_def)
  have eq: "scheduler_sleep_ticks demo_sched_link 0x9000 (of_nat 0xC0000000) demo_sched = (fst ?r, snd ?r)" by simp
  show ?thesis by (rule long_sleep_wakes_at_once [OF demo_sched_inv demo_sched_fields(5) c _ _ _ eq]) simp_all
qed

section \<open>Stacks and their guard pages\<close>

lemma stack_bytes_pages: "unat va \<in> stack_bytes i \<Longrightarrow> page_no va \<in> stack_pages i"
  unfolding stack_bytes_def stack_pages_def page_no_def
  by (simp add: less_eq_div_iff_mult_less_eq div_less_iff_less_mult algebra_simps)

lemma guard_bytes_page: "unat va \<in> guard_bytes i \<longleftrightarrow> page_no va = guard_page i"
proof -
  have "page_no va = guard_page i \<longleftrightarrow> guard_page i \<le> page_no va \<and> page_no va < Suc (guard_page i)" by linarith
  also have "\<dots> \<longleftrightarrow> unat va \<in> guard_bytes i"
    unfolding guard_bytes_def guard_page_def page_no_def
    by (simp add: less_eq_div_iff_mult_less_eq div_less_iff_less_mult algebra_simps)
  finally show ?thesis ..
qed

text \<open>
  C28: Initialising the runtime arms the stack guards: the guard page below each of the seven kernel
  stacks is not mapped any more, every page of the stacks is still mapped, and no other translation
  of the kernel directory changes.
\<close>

theorem init_arms_guards:
  assumes "layout_ok L" "tables_off_arena L" "kmap L T (m_mem s)" "kfull T (m_mem s)" "T 1 = Some pt"
    "length (g_slots s) = 8" "\<not> g_runtime_ready s"
    and init: "scheduler_runtime_init L s = (ok, t)"
  shows "ok \<and> (\<forall>i va. i \<in> {1..<8} \<longrightarrow> unat va \<in> guard_bytes i \<longrightarrow> walk (m_mem t) (lm_page_directory L) va = None)
    \<and> (\<forall>i va. i \<in> {1..<8} \<longrightarrow> unat va \<in> stack_bytes i \<longrightarrow> walk (m_mem t) (lm_page_directory L) va \<noteq> None)
    \<and> (\<forall>va. (\<forall>i \<in> {1..<8}. unat va \<notin> guard_bytes i) \<longrightarrow>
          walk (m_mem t) (lm_page_directory L) va = walk (m_mem s) (lm_page_directory L) va)"
proof -
  obtain u where u: "scheduler_runtime_init L s = (True, u)" and inv: "sched_inv u"
    and w: "\<And>va. walk (m_mem u) (lm_page_directory L) va =
          (if page_no va \<in> guard_page ` {1..<8} then None else walk (m_mem s) (lm_page_directory L) va)"
    using runtime_init_ok [OF assms(1-7)] by blast
  have eq: "ok" "t = u" using u init by simp_all
  have stk: "walk (m_mem u) (lm_page_directory L) va \<noteq> None" if "i \<in> {1..<8}" "unat va \<in> stack_bytes i" for i va
  proof -
    have p: "page_no va \<in> stack_pages i" using that(2) by (rule stack_bytes_pages)
    have "page_no va \<in> {0x601..<0x678}" using that(1) p by (auto simp: stack_pages_def)
    then have "pd_index va = 1" by (auto simp: pd_index_def page_no_def)
    then have "walk (m_mem s) (lm_page_directory L) va \<noteq> None"
      using kmap_mapped [OF assms(3,4), of va pt] assms(5) by (simp add: translate_def)
    moreover have "page_no va \<notin> guard_page ` {1..<8}" using guard_not_stack(1) [OF _ that(1)] p by auto
    ultimately show ?thesis by (simp add: w)
  qed
  have oth: "walk (m_mem u) (lm_page_directory L) va = walk (m_mem s) (lm_page_directory L) va"
    if "\<forall>i \<in> {1..<8}. unat va \<notin> guard_bytes i" for va
    using that guard_bytes_page by (auto simp: w)
  have grd: "walk (m_mem u) (lm_page_directory L) va = None" if "i \<in> {1..<8}" "unat va \<in> guard_bytes i" for i va
    using that guard_bytes_page by (auto simp: w)
  show ?thesis unfolding eq(2) using eq(1) stk oth grd by blast
qed

theorem init_arms_guards_witness:
  "\<exists>t. scheduler_runtime_init demo_sched_link sched_booted = (True, t)
     \<and> walk (m_mem t) (lm_page_directory demo_sched_link) 0x600FFC = None
     \<and> walk (m_mem t) (lm_page_directory demo_sched_link) 0x601000 \<noteq> None"
proof -
  obtain T pt where T: "kmap demo_sched_link T (m_mem sched_booted)" "kfull T (m_mem sched_booted)" "T 1 = Some pt"
    using sched_booted_ok(1) by blast
  obtain ok t where i: "scheduler_runtime_init demo_sched_link sched_booted = (ok, t)" by fastforce
  note A = init_arms_guards [OF demo_sched_layout demo_sched_off_arena T sched_booted_ok(2,3) i]
  have "walk (m_mem t) (lm_page_directory demo_sched_link) 0x600FFC = None"
    using A [THEN conjunct2, THEN conjunct1, rule_format, of 1 "0x600FFC"] by (simp add: guard_bytes_def)
  moreover have "walk (m_mem t) (lm_page_directory demo_sched_link) 0x601000 \<noteq> None"
    using A [THEN conjunct2, THEN conjunct2, THEN conjunct1, rule_format, of 1 "0x601000"] by (simp add: stack_bytes_def)
  ultimately show ?thesis using A i by simp
qed

lemma page_base_unat: "unat (a AND - 4096 :: u32) = 4096 * (unat a div 4096)"
proof -
  have n: "- 4096 = NOT (mask 12 :: u32)" using minus_exp_eq_not_mask [of 12, where 'a = u32] by simp
  have "a = (a AND NOT (mask 12)) + (a AND mask 12)"
    by (subst disjunctive_add) (auto simp: bit_simps bit_eq_iff)
  then have d: "a - (a AND mask 12) = a AND - 4096" unfolding n by (metis add_diff_cancel_right')
  have m: "unat (a AND mask 12) = unat a mod 4096"
    unfolding take_bit_eq_mask [symmetric] by (simp add: take_bit_eq_mod unat_mod)
  have "unat (a - (a AND mask 12)) = unat a - unat (a AND mask 12)"
    by (rule unat_sub) (simp add: word_le_nat_alt m)
  then show ?thesis unfolding d m by (simp add: minus_mod_eq_mult_div)
qed

text \<open>
  A fault in a guard page is attributed to the thread whose stack overflowed, and to no thread
  for any other address.
\<close>

theorem guard_fault_identified:
  assumes inv: "sched_inv s"
  shows "scheduler_describe_guard_fault a s = Some (pid, nm) \<longleftrightarrow>
    (\<exists>i \<in> {1..<8}. unat a \<in> guard_bytes i \<and> pid = int i \<and> nm = p_name (slot_at i s))"
proof -
  have g: "guard_page_base (p_context (slot_at i s)) = sched_slot_guard_base i" "p_pid (slot_at i s) = int i"
    if "i \<in> {1..<8}" for i
    using sched_invD(6,7) [OF inv] that by (auto simp: stacks_ok_def Let_def)
  have pg: "guard_page_base (p_context (slot_at i s)) = a AND NOT (SCHED_STACK_PAGE_SIZE - 1) \<longleftrightarrow> unat a \<in> guard_bytes i"
    if "i \<in> {1..<8}" for i
    using guard_base_value [OF that] unfolding g(1) [OF that]
    by (auto simp: word_unat_eq_iff page_base_unat SCHED_STACK_PAGE_SIZE_def guard_bytes_page page_no_def guard_page_def)
  let ?P = "\<lambda>i. guard_page_base (p_context (slot_at i s)) = a AND NOT (SCHED_STACK_PAGE_SIZE - 1)"
  have u: "i = j" if "i \<in> {1..<8}" "j \<in> {1..<8}" "unat a \<in> guard_bytes i" "unat a \<in> guard_bytes j" for i j
    using region_disjoint [OF that(1,2)] that(3,4) by blast
  have "find ?P [1..<8] = Some i \<longleftrightarrow> i \<in> {1..<8} \<and> unat a \<in> guard_bytes i" for i
  proof
    assume "find ?P [1..<8] = Some i"
    then show "i \<in> {1..<8} \<and> unat a \<in> guard_bytes i" using pg by (auto dest!: find_Some)
  next
    assume i: "i \<in> {1..<8} \<and> unat a \<in> guard_bytes i"
    then obtain j where j: "find ?P [1..<8] = Some j" using pg by (cases "find ?P [1..<8]") (auto simp: find_None_iff)
    then show "find ?P [1..<8] = Some i" using u [of i j] i pg by (auto dest!: find_Some)
  qed
  then show ?thesis using g(2) unfolding scheduler_describe_guard_fault_def sched_consts Let_def
    by (fastforce simp: map_option_eq_Some)
qed

theorem guard_fault_identified_witness:
  "scheduler_describe_guard_fault 0x622800 demo_sched = Some (3, Some (ascii ''demo''))"
proof -
  have "p_name (slot_at 3 demo_sched) = Some (ascii ''demo'')" by (simp add: demo_slot demo_process_def)
  then show ?thesis unfolding guard_fault_identified [OF demo_sched_inv]
    by (intro bexI [of _ 3]) (simp_all add: guard_bytes_def)
qed

section \<open>Spawning\<close>

text \<open>
  C27: Spawning takes the lowest free slot from pid 3 on and fails without any change when there is none
  (or no name or entry is given); otherwise the new thread is ready, its saved frame lies inside its
  own stack and resumes the bootstrap code with interrupts enabled, its stack returns into the exit
  trampoline, and nothing outside the slot and its stack changes, the interrupt flag included.
\<close>

theorem spawn_task_exact:
  assumes inv: "sched_inv s" and sp: "scheduler_spawn_kernel_task L name org ex entry arg pdir s = (r, t)"
  shows "sched_inv t \<and> m_eflags t = m_eflags s \<and>
    (case r of
       None \<Rightarrow> (name = None \<or> entry = 0 \<or> (\<forall>i \<in> {3..<8}. st s i \<noteq> PROCESS_UNUSED \<and> st s i \<noteq> PROCESS_TERMINATED))
         \<and> g_slots t = g_slots s \<and> m_mem t = m_mem s
     | Some i \<Rightarrow> i \<in> {3..<8} \<and> (st s i = PROCESS_UNUSED \<or> st s i = PROCESS_TERMINATED)
         \<and> (\<forall>j \<in> {3..<i}. st s j \<noteq> PROCESS_UNUSED \<and> st s j \<noteq> PROCESS_TERMINATED)
         \<and> (\<forall>j. j \<noteq> i \<longrightarrow> slot_at j t = slot_at j s)
         \<and> fresh_slot L i entry arg pdir (slot_at i t) \<and> fresh_stack L i (m_mem s) (m_mem t))"
proof -
  have eq: "sched_spawn_kernel_thread_internal L name org ex entry arg pdir 3 s = (r, t)"
    using sp sched_invD(2) [OF inv] by (simp add: scheduler_spawn_kernel_task_def SCHED_EXTERNAL_PID_MIN_def)
  show ?thesis
  proof (cases "sched_find_free_slot_from 3 s = None \<or> name = None \<or> entry = 0")
    case True
    have "r = None" "t = s\<lparr>m_eflags := m_eflags s\<rparr>"
      using spawn_fail [OF True, of L org ex arg pdir] eq by simp_all
    moreover have "\<forall>i \<in> {3..<8}. st s i \<noteq> PROCESS_UNUSED \<and> st s i \<noteq> PROCESS_TERMINATED"
      if "sched_find_free_slot_from 3 s = None"
      using that unfolding sched_find_free_slot_from_def sched_consts by (auto simp: find_None_iff)
    ultimately show ?thesis using True inv by auto
  next
    case False
    then obtain i n where i: "sched_find_free_slot_from 3 s = Some i" and n: "name = Some n" "entry \<noteq> 0" by auto
    have rng: "i \<in> {3..<8} \<and> (st s i = PROCESS_UNUSED \<or> st s i = PROCESS_TERMINATED)"
      "\<forall>j \<in> {3..<i}. st s j \<noteq> PROCESS_UNUSED \<and> st s j \<noteq> PROCESS_TERMINATED"
      using free_slot_range [OF i] free_slot_first [OF i] by auto
    obtain u where u: "sched_spawn_kernel_thread_internal L name org ex entry arg pdir 3 s = (Some i, u)"
      "sched_inv u" "m_eflags u = m_eflags s" "\<forall>j. j \<noteq> i \<longrightarrow> slot_at j u = slot_at j s"
      "fresh_slot L i entry arg pdir (slot_at i u)" "fresh_stack L i (m_mem s) (m_mem u)"
      using spawn_ok [OF inv i n, of L org ex arg pdir] by (elim exE conjE)
    have e: "r = Some i" "t = u" using u(1) eq by simp_all
    show ?thesis unfolding e option.case using u(2-6) rng by (intro conjI) simp_all
  qed
qed

theorem spawn_task_exact_witness:
  "\<exists>t. scheduler_spawn_kernel_task demo_sched_link (Some (ascii ''edit'')) None False 0x120000 0 0 demo_sched = (Some 5, t)
     \<and> st t 5 = PROCESS_READY \<and> sched_inv t"
proof -
  obtain r t where e: "scheduler_spawn_kernel_task demo_sched_link (Some (ascii ''edit'')) None False 0x120000 0 0 demo_sched = (r, t)"
    by fastforce
  note X = spawn_task_exact [OF demo_sched_inv e]
  show ?thesis
  proof (cases r)
    case None
    then show ?thesis using X by (auto simp: demo_slot demo_process_fields dest!: bspec [of _ _ 5])
  next
    case (Some i)
    then have i: "i \<in> {3..<8}" "st demo_sched i = PROCESS_UNUSED \<or> st demo_sched i = PROCESS_TERMINATED"
      "\<forall>j \<in> {3..<i}. st demo_sched j \<noteq> PROCESS_UNUSED" "fresh_slot demo_sched_link i 0x120000 0 0 (slot_at i t)" "sched_inv t"
      using X by auto
    have "i = 3 \<or> i = 4 \<or> i = 5 \<or> i = 6 \<or> i = 7" using i(1) by auto
    then have "i = 5" using i(2) bspec [OF i(3), of 5] by (auto simp: demo_slot demo_process_fields)
    then show ?thesis using i(4,5) e Some by (simp add: fresh_slot_def)
  qed
qed

end
