(* ===== verification/App_Layout.thy ===== *)
theory App_Layout
  imports Scheduler_Main
begin

text \<open>
  The address space of applications, first part of \<^verbatim>\<open>src/kernel/shell/shell_apps.c\<close>: the task structure, the
  slot of memory an application runs in (image, thread stacks, runtime block), and the checks of
  addresses that come from user mode. Everything here is 32-bit unsigned arithmetic, so the checks
  are modelled on words, and the lemmas say what they mean for numbers.

  A task structure lives at a fixed address; its two page tables are arrays in the memory of the machine
  (\<open>task_page_directory\<close>, \<open>task_user_pt\<close>), its other fields are the record \<open>shell_app_task\<close>. Function pointers are
  words with 0 for the null pointer.
\<close>

unbundle bit_operations_syntax

section \<open>Constants and the task structure\<close>

definition APP_PAGE_SIZE :: u32 where "APP_PAGE_SIZE = 0x00001000"
definition APP_LOAD_VIRT_BASE :: u32 where "APP_LOAD_VIRT_BASE = 0x01000000"
definition APP_SLOT_FIRST_PID :: int where "APP_SLOT_FIRST_PID = 3"
definition APP_SLOT_MAX_SIZE :: u32 where "APP_SLOT_MAX_SIZE = 0x00400000"
definition APP_ARENA_PHYS_BASE :: u32 where "APP_ARENA_PHYS_BASE = 0x00700000"
definition APP_ARENA_SIZE :: u32 where "APP_ARENA_SIZE = APP_SLOT_MAX_SIZE"
definition APP_ARENA_PAGE_COUNT :: u32 where "APP_ARENA_PAGE_COUNT = APP_ARENA_SIZE div APP_PAGE_SIZE"
definition APP_THREAD_SLOT_COUNT :: u32 where "APP_THREAD_SLOT_COUNT = 5"
definition APP_THREAD_STACK_BYTES :: u32 where "APP_THREAD_STACK_BYTES = 0x00004000"
definition APP_RUNTIME_BLOCK_BYTES :: u32 where "APP_RUNTIME_BLOCK_BYTES = APP_PAGE_SIZE"
definition APP_RUNTIME_RESERVED_BYTES :: u32 where
  "APP_RUNTIME_RESERVED_BYTES = APP_RUNTIME_BLOCK_BYTES + APP_THREAD_STACK_BYTES * APP_THREAD_SLOT_COUNT"
definition APP_SYSCALL_STUB_OFFSET :: u32 where "APP_SYSCALL_STUB_OFFSET = 0x20"
definition APP_EXIT_STUB_OFFSET :: u32 where "APP_EXIT_STUB_OFFSET = 0x40"
definition APP_THREAD_STUB_OFFSET :: u32 where "APP_THREAD_STUB_OFFSET = 0x60"
definition APP_GFX_MAX_DIMENSION :: int where "APP_GFX_MAX_DIMENSION = 16384"
definition APP_GFX_COORD_LIMIT :: int where "APP_GFX_COORD_LIMIT = 32768"
definition APP_TASK_TABLE_PHYS :: nat where "APP_TASK_TABLE_PHYS = 0x00340000"

lemmas app_consts = APP_PAGE_SIZE_def APP_LOAD_VIRT_BASE_def APP_SLOT_FIRST_PID_def APP_SLOT_MAX_SIZE_def
  APP_ARENA_PHYS_BASE_def APP_ARENA_SIZE_def APP_ARENA_PAGE_COUNT_def APP_THREAD_SLOT_COUNT_def
  APP_THREAD_STACK_BYTES_def APP_RUNTIME_BLOCK_BYTES_def APP_RUNTIME_RESERVED_BYTES_def
  APP_SYSCALL_STUB_OFFSET_def APP_EXIT_STUB_OFFSET_def APP_THREAD_STUB_OFFSET_def

record shell_app_task =
  in_use :: bool
  t_pid :: int
  leader_pid :: int
  t_drive :: int
  t_fat16_initialized :: bool
  app_clip_mode :: int
  background :: bool
  serial_only :: bool
  join_on_exit :: bool
  input_ready_logged :: bool
  t_current_dir_cluster :: u32
  app_clip_src_cluster :: u32
  app_phys_base :: u32
  app_slot_bytes :: u32
  entry_virtual :: u32
  thread_arg :: u32
  owns_app_memory :: bool
  t_current_path :: cstr
  app_clip_name :: cstr
  task_name :: cstr
  origin_name :: cstr
  t_out_both :: u32
  t_str_to_upper :: u32
  t_path_reset :: u32
  t_path_pop :: u32
  t_path_push :: u32

text \<open>The structure takes three pages: the fields, then the two page tables, which are aligned.\<close>

definition sizeof_task :: nat where "sizeof_task = 12288"

definition task_page_directory :: "nat \<Rightarrow> nat" where
  "task_page_directory pid = APP_TASK_TABLE_PHYS + pid * sizeof_task + 4096"

definition task_user_pt :: "nat \<Rightarrow> nat" where
  "task_user_pt pid = APP_TASK_TABLE_PHYS + pid * sizeof_task + 8192"

section \<open>The slot of an application\<close>

definition shell_apps_align_up :: "u32 \<Rightarrow> u32 \<Rightarrow> u32" where
  "shell_apps_align_up v al =
     (if al = 0 \<or> al AND (al - 1) \<noteq> 0 then 0
      else let mask = al - 1 in
      if v > 0xFFFFFFFF - mask then 0 else (v + mask) AND NOT mask)"

definition shell_apps_runtime_block_virt_for_slot :: "u32 \<Rightarrow> u32" where
  "shell_apps_runtime_block_virt_for_slot slot_bytes =
     (if slot_bytes < APP_RUNTIME_RESERVED_BYTES \<or> slot_bytes > APP_SLOT_MAX_SIZE then 0
      else APP_LOAD_VIRT_BASE + slot_bytes - APP_RUNTIME_BLOCK_BYTES)"

definition shell_apps_runtime_block_virt :: "shell_app_task \<Rightarrow> u32" where
  "shell_apps_runtime_block_virt task = shell_apps_runtime_block_virt_for_slot (app_slot_bytes task)"

definition shell_apps_user_image_limit_for_slot :: "u32 \<Rightarrow> u32" where
  "shell_apps_user_image_limit_for_slot slot_bytes =
     (if slot_bytes < APP_RUNTIME_RESERVED_BYTES \<or> slot_bytes > APP_SLOT_MAX_SIZE then 0
      else APP_LOAD_VIRT_BASE + slot_bytes - APP_RUNTIME_RESERVED_BYTES)"

definition shell_apps_user_image_limit :: "shell_app_task \<Rightarrow> u32" where
  "shell_apps_user_image_limit task = shell_apps_user_image_limit_for_slot (app_slot_bytes task)"

definition shell_apps_required_slot_bytes :: "u32 \<Rightarrow> u32" where
  "shell_apps_required_slot_bytes image_bytes =
     (if image_bytes = 0 \<or> image_bytes > APP_SLOT_MAX_SIZE - APP_RUNTIME_RESERVED_BYTES then 0
      else let rounded_image = shell_apps_align_up image_bytes APP_PAGE_SIZE in
      if rounded_image = 0 \<or> rounded_image > APP_SLOT_MAX_SIZE - APP_RUNTIME_RESERVED_BYTES then 0
      else shell_apps_align_up (rounded_image + APP_RUNTIME_RESERVED_BYTES) APP_PAGE_SIZE)"

definition shell_apps_user_stack_top_for_pid :: "shell_app_task \<Rightarrow> int \<Rightarrow> u32" where
  "shell_apps_user_stack_top_for_pid task pid =
     (if pid < APP_SLOT_FIRST_PID \<or> pid \<ge> int SCHEDULER_MAX_PROCESSES then 0
      else let runtime_block = shell_apps_runtime_block_virt task in
      if runtime_block = 0 then 0
      else runtime_block - of_int (pid - APP_SLOT_FIRST_PID) * APP_THREAD_STACK_BYTES)"

definition shell_apps_syscall_stub_virt :: "shell_app_task \<Rightarrow> u32" where
  "shell_apps_syscall_stub_virt task = (let runtime_block = shell_apps_runtime_block_virt task in
     if runtime_block \<noteq> 0 then runtime_block + APP_SYSCALL_STUB_OFFSET else 0)"

definition shell_apps_exit_stub_virt :: "shell_app_task \<Rightarrow> u32" where
  "shell_apps_exit_stub_virt task = (let runtime_block = shell_apps_runtime_block_virt task in
     if runtime_block \<noteq> 0 then runtime_block + APP_EXIT_STUB_OFFSET else 0)"

definition shell_apps_thread_stub_virt :: "shell_app_task \<Rightarrow> u32" where
  "shell_apps_thread_stub_virt task = (let runtime_block = shell_apps_runtime_block_virt task in
     if runtime_block \<noteq> 0 then runtime_block + APP_THREAD_STUB_OFFSET else 0)"

definition shell_apps_phys_addr_for_virtual :: "shell_app_task \<Rightarrow> u32 \<Rightarrow> u32" where
  "shell_apps_phys_addr_for_virtual task virt =
     (if app_phys_base task = 0 then 0
      else if app_slot_bytes task = 0 \<or> app_slot_bytes task > APP_SLOT_MAX_SIZE then 0
      else let limit = APP_LOAD_VIRT_BASE + app_slot_bytes task in
      if virt < APP_LOAD_VIRT_BASE \<or> virt \<ge> limit then 0
      else app_phys_base task + (virt - APP_LOAD_VIRT_BASE))"

section \<open>Checks of user addresses and coordinates\<close>

definition shell_apps_user_range_valid :: "shell_app_task \<Rightarrow> u32 \<Rightarrow> u32 \<Rightarrow> bool" where
  "shell_apps_user_range_valid task addr n =
     (if \<not> in_use task then False
      else if n = 0 then True
      else if app_slot_bytes task = 0 \<or> app_slot_bytes task > APP_SLOT_MAX_SIZE then False
      else let limit = APP_LOAD_VIRT_BASE + app_slot_bytes task in
      if addr < APP_LOAD_VIRT_BASE \<or> addr \<ge> limit then False
      else let end_addr = addr + n in
      if end_addr < addr \<or> end_addr > limit then False else True)"

definition shell_apps_user_exec_ptr_valid :: "shell_app_task \<Rightarrow> u32 \<Rightarrow> bool" where
  "shell_apps_user_exec_ptr_valid task addr =
     (let image_limit = shell_apps_user_image_limit task in
      image_limit \<noteq> 0 \<and> addr \<ge> APP_LOAD_VIRT_BASE \<and> addr < image_limit)"

text \<open>Coordinates are signed; the fields of a rectangle are read from user memory as 32-bit words.\<close>

record app_gfx_rect =
  gr_x :: u32
  gr_y :: u32
  gr_w :: u32
  gr_h :: u32
  gr_color :: u32

definition shell_apps_gfx_position_valid :: "int \<Rightarrow> bool" where
  "shell_apps_gfx_position_valid v \<longleftrightarrow> v \<ge> - APP_GFX_COORD_LIMIT \<and> v \<le> APP_GFX_COORD_LIMIT"

definition shell_apps_gfx_extent_valid :: "int \<Rightarrow> int \<Rightarrow> bool" where
  "shell_apps_gfx_extent_valid origin ext =
     (if \<not> shell_apps_gfx_position_valid origin \<or> ext \<le> 0 \<or> ext > APP_GFX_MAX_DIMENSION then False
      else origin \<le> 0x7FFFFFFF - ext)"

definition shell_apps_gfx_rect_valid :: "app_gfx_rect \<Rightarrow> bool" where
  "shell_apps_gfx_rect_valid rect \<longleftrightarrow>
     shell_apps_gfx_extent_valid (sint (gr_x rect)) (sint (gr_w rect))
     \<and> shell_apps_gfx_extent_valid (sint (gr_y rect)) (sint (gr_h rect))"

definition shell_apps_gfx_legacy_rect_safe :: "app_gfx_rect \<Rightarrow> bool" where
  "shell_apps_gfx_legacy_rect_safe rect =
     (if sint (gr_w rect) \<le> 0 \<or> sint (gr_h rect) \<le> 0 then True
      else sint (gr_x rect) \<le> 0x7FFFFFFF - sint (gr_w rect)
           \<and> sint (gr_y rect) \<le> 0x7FFFFFFF - sint (gr_h rect))"

section \<open>What the arithmetic means\<close>

text \<open>A slot is a whole number of pages, large enough for the runtime area and at most 4 MB.\<close>

definition slot_ok :: "u32 \<Rightarrow> bool" where
  "slot_ok n \<longleftrightarrow> 0x15000 \<le> unat n \<and> unat n \<le> 0x400000 \<and> unat n mod 4096 = 0"

lemma unat_reserved [simp]: "unat APP_RUNTIME_RESERVED_BYTES = 0x15000"
  by (simp add: app_consts)

lemma page_align_power: "(0x1000 :: u32) AND (0x1000 - 1) = 0"
  by simp

lemma page_round: "n \<le> 4096 * k \<Longrightarrow> 4096 * ((n + 4095) div 4096) \<le> 4096 * (k :: nat)"
  using div_le_mono [of "n + 4095" "4096 * k + 4095" 4096] by simp

lemma align_up_page:
  "unat (shell_apps_align_up v 0x1000) = (if unat v + 4095 < 4294967296 then 4096 * ((unat v + 4095) div 4096) else 0)"
proof -
  have n: "NOT (0xFFF :: u32) = - 4096" by simp
  have c: "v > 0xFFFFF000 \<longleftrightarrow> \<not> unat v + 4095 < 4294967296" by (simp add: word_less_nat_alt) linarith
  have "unat (v + 0xFFF) = unat v + 4095" if "unat v + 4095 < 4294967296"
    using that by (subst unat_add_lem [THEN iffD1]) simp_all
  then show ?thesis using c by (simp add: shell_apps_align_up_def Let_def n page_base_unat)
qed

lemma align_up_aligned: "unat v mod 4096 = 0 \<Longrightarrow> shell_apps_align_up v 0x1000 = v"
proof -
  assume a: "unat v mod 4096 = 0"
  then have d: "unat v = 4096 * (unat v div 4096)" using mult_div_mod_eq [of 4096 "unat v"] by simp
  moreover have "unat v div 4096 < 1048576" using unat_u32_bound [of v] by (simp add: less_mult_imp_div_less)
  then have "unat v + 4095 < 4294967296" using d by linarith
  moreover have "(unat v + 4095) div 4096 = unat v div 4096" using d by linarith
  ultimately have "unat (shell_apps_align_up v 0x1000) = unat v" by (simp add: align_up_page)
  then show ?thesis by (simp add: word_unat_eq_iff)
qed

text \<open>The slot computed for an image: the image rounded up to pages, and the runtime area.\<close>

lemma required_slot_bytes:
  "shell_apps_required_slot_bytes n =
     (if 0 < unat n \<and> unat n \<le> 0x3EB000 then of_nat (4096 * ((unat n + 4095) div 4096) + 0x15000) else 0)"
proof (cases "0 < unat n \<and> unat n \<le> 0x3EB000")
  case True
  let ?r = "shell_apps_align_up n 0x1000"
  have r: "unat ?r = 4096 * ((unat n + 4095) div 4096)" using True by (simp add: align_up_page)
  have b: "0 < unat ?r" "unat ?r \<le> 0x3EB000" using True page_round [of "unat n" 1003] unfolding r by (linarith, simp)
  have c: "\<not> (n = 0 \<or> n > APP_SLOT_MAX_SIZE - APP_RUNTIME_RESERVED_BYTES)"
    "\<not> (?r = 0 \<or> ?r > APP_SLOT_MAX_SIZE - APP_RUNTIME_RESERVED_BYTES)"
    using True b by (auto simp: app_consts word_less_nat_alt)
  have s: "unat (?r + APP_RUNTIME_RESERVED_BYTES) = unat ?r + 0x15000"
    using b by (subst unat_add_lem [THEN iffD1]) simp_all
  then have "unat (?r + APP_RUNTIME_RESERVED_BYTES) mod 4096 = 0" by (simp add: r)
  then have "shell_apps_required_slot_bytes n = ?r + APP_RUNTIME_RESERVED_BYTES"
    using c align_up_aligned unfolding shell_apps_required_slot_bytes_def APP_PAGE_SIZE_def Let_def by simp
  also have "\<dots> = of_nat (unat (?r + APP_RUNTIME_RESERVED_BYTES))" by simp
  finally show ?thesis using True unfolding s r by simp
next
  case False
  then have "n = 0 \<or> n > APP_SLOT_MAX_SIZE - APP_RUNTIME_RESERVED_BYTES"
    by (auto simp: app_consts word_less_nat_alt unat_eq_zero)
  then show ?thesis using False by (auto simp: shell_apps_required_slot_bytes_def)
qed

lemma required_slot_ok:
  assumes "shell_apps_required_slot_bytes n \<noteq> 0"
  shows "0 < unat n" "unat n \<le> 0x3EB000" "slot_ok (shell_apps_required_slot_bytes n)"
    and "unat (shell_apps_required_slot_bytes n) = 4096 * ((unat n + 4095) div 4096) + 0x15000"
proof -
  show n: "0 < unat n" "unat n \<le> 0x3EB000" using assms by (auto simp: required_slot_bytes split: if_splits)
  have "4096 * ((unat n + 4095) div 4096) \<le> 0x3EB000" using page_round [of "unat n" 1003] n by simp
  then show u: "unat (shell_apps_required_slot_bytes n) = 4096 * ((unat n + 4095) div 4096) + 0x15000"
    using n unat_of_nat32 [of "4096 * ((unat n + 4095) div 4096) + 0x15000"] unfolding required_slot_bytes by simp
  then show "slot_ok (shell_apps_required_slot_bytes n)"
    using \<open>4096 * _ \<le> _\<close> by (simp add: slot_ok_def)
qed

lemma image_limit:
  assumes "slot_ok n"
  shows "unat (shell_apps_user_image_limit_for_slot n) = 0x1000000 + unat n - 0x15000"
    and "unat (shell_apps_runtime_block_virt_for_slot n) = 0x1000000 + unat n - 0x1000"
proof -
  have n: "0x15000 \<le> unat n" "unat n \<le> 0x400000" using assms by (simp_all add: slot_ok_def)
  have s: "unat (APP_LOAD_VIRT_BASE + n) = 0x1000000 + unat n"
    using n by (subst unat_add_lem [THEN iffD1]) (simp_all add: app_consts)
  have c: "\<not> (n < APP_RUNTIME_RESERVED_BYTES \<or> n > APP_SLOT_MAX_SIZE)"
    using n by (simp add: word_less_nat_alt app_consts)
  show "unat (shell_apps_user_image_limit_for_slot n) = 0x1000000 + unat n - 0x15000"
    unfolding shell_apps_user_image_limit_for_slot_def if_not_P [OF c] using n s
    by (subst unat_sub) (simp_all add: word_le_nat_alt)
  show "unat (shell_apps_runtime_block_virt_for_slot n) = 0x1000000 + unat n - 0x1000"
    unfolding shell_apps_runtime_block_virt_for_slot_def if_not_P [OF c] using n s
    by (subst unat_sub) (simp_all add: word_le_nat_alt app_consts)
qed

text \<open>The address range \<open>[a, a + n)\<close> lies in the slot of the task.\<close>

definition in_slot :: "shell_app_task \<Rightarrow> nat \<Rightarrow> nat \<Rightarrow> bool" where
  "in_slot task a n \<longleftrightarrow> 0x1000000 \<le> a \<and> a + n \<le> 0x1000000 + unat (app_slot_bytes task)"

lemma user_range_valid:
  "shell_apps_user_range_valid task addr n \<longleftrightarrow> in_use task \<and>
     (n = 0 \<or> unat (app_slot_bytes task) \<le> 0x400000 \<and> in_slot task (unat addr) (unat n))"
proof (cases "in_use task \<and> n \<noteq> 0 \<and> unat (app_slot_bytes task) \<le> 0x400000")
  case True
  then have s: "unat (app_slot_bytes task) \<le> 0x400000" "0 < unat n" by (simp_all add: unat_gt_0)
  have l: "unat (APP_LOAD_VIRT_BASE + app_slot_bytes task) = 0x1000000 + unat (app_slot_bytes task)"
    using s by (subst unat_add_lem [THEN iffD1]) (simp_all add: app_consts)
  have e: "unat (addr + n) = (if unat addr + unat n < 4294967296 then unat addr + unat n else unat addr + unat n - 4294967296)"
    using unat_plus_if' [of addr n] by (simp add: unat_u32_bound)
  have "shell_apps_user_range_valid task addr n \<longleftrightarrow> \<not> (app_slot_bytes task = 0 \<or> app_slot_bytes task > APP_SLOT_MAX_SIZE)
      \<and> \<not> (unat addr < 0x1000000 \<or> unat addr \<ge> 0x1000000 + unat (app_slot_bytes task))
      \<and> \<not> (unat (addr + n) < unat addr \<or> unat (addr + n) > 0x1000000 + unat (app_slot_bytes task))"
    using True unfolding shell_apps_user_range_valid_def Let_def word_less_nat_alt word_le_nat_alt l
    by (simp add: APP_LOAD_VIRT_BASE_def)
  also have "\<dots> \<longleftrightarrow> in_slot task (unat addr) (unat n)"
    using s unat_u32_bound [of addr] unat_u32_bound [of n] unfolding e in_slot_def
    by (auto simp: app_consts word_less_nat_alt)
  finally show ?thesis using True by simp
next
  case False
  then show ?thesis by (auto simp: shell_apps_user_range_valid_def app_consts word_less_nat_alt)
qed

end
