(* ===== verification/App_Image.thy ===== *)
theory App_Image
  imports App_Layout
begin

text \<open>
  Loading a program into the slot of an application, \<^verbatim>\<open>shell_apps_launch.inc\<close>: the checks on an ELF file,
  the size of the slot it needs, and the copy of its segments; the same for flat \<^verbatim>\<open>.COM\<close> images.

  The file is a list of bytes, the contents of the staging buffer at \<^verbatim>\<open>APP_ELF_BUFFER_PHYS\<close>, which no
  slot overlaps. Images are copied byte by byte into physical memory, which the machine keeps as
  32-bit cells; \<open>get_byte\<close> and \<open>put_byte\<close> are the byte view of it.
\<close>

unbundle bit_operations_syntax

section \<open>Bytes in memory\<close>

definition get_byte :: "(nat \<Rightarrow> u32) \<Rightarrow> nat \<Rightarrow> u8" where
  "get_byte mem a = ucast (drop_bit (8 * (a mod 4)) (mem (a - a mod 4)))"

definition put_byte :: "nat \<Rightarrow> u8 \<Rightarrow> (nat \<Rightarrow> u32) \<Rightarrow> nat \<Rightarrow> u32" where
  "put_byte a v mem =
     mem(a - a mod 4 := (mem (a - a mod 4) AND NOT (push_bit (8 * (a mod 4)) 0xFF)) OR push_bit (8 * (a mod 4)) (ucast v))"

fun store_bytes :: "nat \<Rightarrow> nat \<Rightarrow> (nat \<Rightarrow> u8) \<Rightarrow> (nat \<Rightarrow> u32) \<Rightarrow> nat \<Rightarrow> u32" where
  "store_bytes base 0 f mem = mem"
| "store_bytes base (Suc n) f mem = put_byte (base + n) (f n) (store_bytes base n f mem)"

definition shell_apps_mem_copy :: "u32 \<Rightarrow> (nat \<Rightarrow> u8) \<Rightarrow> u32 \<Rightarrow> (nat \<Rightarrow> u32) \<Rightarrow> nat \<Rightarrow> u32" where
  "shell_apps_mem_copy dst src n mem = store_bytes (unat dst) (unat n) src mem"

definition shell_apps_mem_zero :: "u32 \<Rightarrow> u32 \<Rightarrow> (nat \<Rightarrow> u32) \<Rightarrow> nat \<Rightarrow> u32" where
  "shell_apps_mem_zero dst n mem = store_bytes (unat dst) (unat n) (\<lambda>_. 0) mem"

lemma get_put_byte: "get_byte (put_byte a v mem) b = (if a = b then v else get_byte mem b)"
proof (cases "a - a mod 4 = b - b mod 4")
  case same: True
  have eq: "a = b \<longleftrightarrow> a mod 4 = b mod 4" using same by (metis le_add_diff_inverse2 mod_less_eq_dividend)
  have r: "a mod 4 < 4" "b mod 4 < 4" by simp_all
  show ?thesis
  proof (rule bit_word_eqI)
    fix n assume n: "n < LENGTH(8)"
    have "bit (get_byte (put_byte a v mem) b) n \<longleftrightarrow>
        (if 8 * (a mod 4) \<le> 8 * (b mod 4) + n \<and> 8 * (b mod 4) + n < 8 * (a mod 4) + 8
         then bit v (8 * (b mod 4) + n - 8 * (a mod 4)) else bit (mem (b - b mod 4)) (8 * (b mod 4) + n))"
      using n r same unfolding get_byte_def put_byte_def mask_0xFF
      by (auto simp: bit_simps dest: bit_imp_le_length)
    moreover have "8 * (a mod 4) \<le> 8 * (b mod 4) + n \<and> 8 * (b mod 4) + n < 8 * (a mod 4) + 8 \<longleftrightarrow> a mod 4 = b mod 4"
      using n by auto
    ultimately show "bit (get_byte (put_byte a v mem) b) n = bit (if a = b then v else get_byte mem b) n"
      using n r eq by (auto simp: get_byte_def bit_simps)
  qed
next
  case False
  then show ?thesis by (auto simp: get_byte_def put_byte_def)
qed

lemma get_store_bytes:
  "get_byte (store_bytes base n f mem) a = (if base \<le> a \<and> a < base + n then f (a - base) else get_byte mem a)"
  by (induction n) (auto simp: get_put_byte less_Suc_eq)

text \<open>Cells that hold no byte of the range keep their word.\<close>

lemma put_byte_cell: "c \<noteq> a - a mod 4 \<Longrightarrow> put_byte a v mem c = mem c"
  by (simp add: put_byte_def)

lemma store_bytes_cell:
  assumes "c mod 4 = 0" "c + 4 \<le> base \<or> base + n \<le> c"
  shows "store_bytes base n f mem c = mem c"
  using assms(2)
proof (induction n)
  case (Suc n)
  have "c \<noteq> (base + n) - (base + n) mod 4"
  proof
    assume c: "c = (base + n) - (base + n) mod 4"
    moreover have "(base + n) mod 4 < 4" "(base + n) mod 4 \<le> base + n" by simp_all
    ultimately have "c \<le> base + n" "base + n < c + 4" by linarith+
    then show False using Suc.prems by linarith
  qed
  then show ?case using Suc by (auto simp: put_byte_cell)
qed simp

section \<open>ELF files\<close>

record elf32_header =
  eh_ident :: "u8 list"
  eh_type :: u16
  eh_machine :: u16
  eh_version :: u32
  eh_entry :: u32
  eh_phoff :: u32
  eh_phentsize :: u16
  eh_phnum :: u16

record elf32_program_header =
  ph_type :: u32
  ph_offset :: u32
  ph_vaddr :: u32
  ph_filesz :: u32
  ph_memsz :: u32

text \<open>The fields the loader reads, at their offsets in the packed structures of 52 and 32 bytes.\<close>

definition elf_header :: "u8 list \<Rightarrow> elf32_header" where
  "elf_header d = \<lparr>eh_ident = take 16 d, eh_type = load16 d 16, eh_machine = load16 d 18, eh_version = load32 d 20,
     eh_entry = load32 d 24, eh_phoff = load32 d 28, eh_phentsize = load16 d 42, eh_phnum = load16 d 44\<rparr>"

definition program_header :: "u8 list \<Rightarrow> elf32_header \<Rightarrow> nat \<Rightarrow> elf32_program_header" where
  "program_header d ehdr i = (let a = unat (eh_phoff ehdr + of_nat i * ucast (eh_phentsize ehdr)) in
     \<lparr>ph_type = load32 d a, ph_offset = load32 d (a + 4), ph_vaddr = load32 d (a + 8),
      ph_filesz = load32 d (a + 16), ph_memsz = load32 d (a + 20)\<rparr>)"

definition program_headers :: "u8 list \<Rightarrow> elf32_program_header list" where
  "program_headers d = (let ehdr = elf_header d in map (program_header d ehdr) [0..<unat (eh_phnum ehdr)])"

text \<open>The loop over the program headers: \<open>None\<close> is the return value -1.\<close>

fun probe_segments :: "u32 \<Rightarrow> u32 \<Rightarrow> elf32_program_header list \<Rightarrow> u32 \<Rightarrow> bool \<Rightarrow> (u32 \<times> bool) option" where
  "probe_segments elf_size max_limit [] highest_end saw_load = Some (highest_end, saw_load)"
| "probe_segments elf_size max_limit (phdr # rest) highest_end saw_load =
     (if ph_type phdr \<noteq> 1 then probe_segments elf_size max_limit rest highest_end saw_load
      else if ph_memsz phdr = 0 then probe_segments elf_size max_limit rest highest_end saw_load
      else if ph_memsz phdr < ph_filesz phdr then None
      else if ph_offset phdr > elf_size \<or> ph_filesz phdr > elf_size - ph_offset phdr then None
      else if ph_vaddr phdr < APP_LOAD_VIRT_BASE \<or> ph_memsz phdr > 0xFFFFFFFF - ph_vaddr phdr then None
      else let segment_end = ph_vaddr phdr + ph_memsz phdr in
      if segment_end > max_limit then None
      else probe_segments elf_size max_limit rest
             (if segment_end > highest_end then segment_end else highest_end) True)"

definition shell_apps_probe_elf_image :: "u8 list \<Rightarrow> int \<Rightarrow> (u32 \<times> u32) option" where
  "shell_apps_probe_elf_image elf_data elf_size =
     (let max_user_image_limit = shell_apps_user_image_limit_for_slot APP_SLOT_MAX_SIZE in
      if elf_size < 52 then None
      else let ehdr = elf_header elf_data in
      if eh_ident ehdr ! 0 \<noteq> 0x7F \<or> eh_ident ehdr ! 1 \<noteq> 0x45 \<or> eh_ident ehdr ! 2 \<noteq> 0x4C \<or> eh_ident ehdr ! 3 \<noteq> 0x46 then None
      else if eh_ident ehdr ! 4 \<noteq> 1 \<or> eh_ident ehdr ! 5 \<noteq> 1 \<or> eh_version ehdr \<noteq> 1 then None
      else if eh_type ehdr \<noteq> 2 \<or> eh_machine ehdr \<noteq> 3 then None
      else if eh_phentsize ehdr \<noteq> 32 then None
      else if eh_phnum ehdr = 0 \<or> eh_phnum ehdr > 16 then None
      else if eh_phoff ehdr > of_int elf_size then None
      else let ph_table_bytes = ucast (eh_phnum ehdr) * ucast (eh_phentsize ehdr) :: u32 in
      if ph_table_bytes > of_int elf_size - eh_phoff ehdr then None
      else case probe_segments (of_int elf_size) max_user_image_limit (program_headers elf_data) APP_LOAD_VIRT_BASE False of
        None \<Rightarrow> None
      | Some (highest_end, saw_load) \<Rightarrow>
          if \<not> saw_load then None
          else let slot_bytes = shell_apps_required_slot_bytes (highest_end - APP_LOAD_VIRT_BASE);
                   image_limit = shell_apps_user_image_limit_for_slot slot_bytes in
          if slot_bytes = 0 \<or> image_limit = 0 \<or> highest_end > image_limit then None
          else if eh_entry ehdr < APP_LOAD_VIRT_BASE \<or> eh_entry ehdr \<ge> image_limit then None
          else Some (eh_entry ehdr, slot_bytes))"

text \<open>Loading: the result is the entry point (\<open>None\<close> for -1) and the memory, which a failure may leave
  partly written.\<close>

fun load_segments ::
    "u8 list \<Rightarrow> u32 \<Rightarrow> u32 \<Rightarrow> elf32_program_header list \<Rightarrow> (nat \<Rightarrow> u32) \<Rightarrow> bool \<times> (nat \<Rightarrow> u32)" where
  "load_segments elf_data load_phys_base image_limit [] mem = (True, mem)"
| "load_segments elf_data load_phys_base image_limit (phdr # rest) mem =
     (if ph_type phdr \<noteq> 1 \<or> ph_memsz phdr = 0 then load_segments elf_data load_phys_base image_limit rest mem
      else let segment_end = ph_vaddr phdr + ph_memsz phdr in
      if ph_vaddr phdr < APP_LOAD_VIRT_BASE \<or> segment_end > image_limit then (False, mem)
      else let dst = load_phys_base + (ph_vaddr phdr - APP_LOAD_VIRT_BASE);
               mem = shell_apps_mem_copy dst (\<lambda>k. elf_data ! (unat (ph_offset phdr) + k)) (ph_filesz phdr) mem;
               mem = (if ph_memsz phdr > ph_filesz phdr
                      then shell_apps_mem_zero (dst + ph_filesz phdr) (ph_memsz phdr - ph_filesz phdr) mem else mem)
           in load_segments elf_data load_phys_base image_limit rest mem)"

definition shell_apps_load_elf_image ::
    "u8 list \<Rightarrow> int \<Rightarrow> u32 \<Rightarrow> u32 \<Rightarrow> (nat \<Rightarrow> u32) \<Rightarrow> u32 option \<times> (nat \<Rightarrow> u32)" where
  "shell_apps_load_elf_image elf_data elf_size load_phys_base slot_bytes mem =
     (if elf_size < 52 then (None, mem)
      else let ehdr = elf_header elf_data;
               image_limit = shell_apps_user_image_limit_for_slot slot_bytes in
      if image_limit = 0 then (None, mem)
      else case shell_apps_probe_elf_image elf_data elf_size of
        None \<Rightarrow> (None, mem)
      | Some (_, required_slot_bytes) \<Rightarrow>
          if required_slot_bytes > slot_bytes then (None, mem)
          else case load_segments elf_data load_phys_base image_limit (program_headers elf_data) mem of
            (False, mem) \<Rightarrow> (None, mem)
          | (True, mem) \<Rightarrow>
              if eh_entry ehdr < APP_LOAD_VIRT_BASE \<or> eh_entry ehdr \<ge> image_limit then (None, mem)
              else (Some (eh_entry ehdr), mem))"

section \<open>Flat images\<close>

definition APP_MAX_COM_SIZE :: int where "APP_MAX_COM_SIZE = 65536"

definition shell_apps_plan_com_image :: "int \<Rightarrow> u32 option" where
  "shell_apps_plan_com_image com_size =
     (if com_size \<le> 0 \<or> com_size > APP_MAX_COM_SIZE then None
      else let slot_bytes = shell_apps_required_slot_bytes (of_int com_size) in
      if slot_bytes = 0 then None else Some slot_bytes)"

definition shell_apps_load_com_image ::
    "u8 list \<Rightarrow> int \<Rightarrow> u32 \<Rightarrow> u32 \<Rightarrow> (nat \<Rightarrow> u32) \<Rightarrow> u32 option \<times> (nat \<Rightarrow> u32)" where
  "shell_apps_load_com_image com_data com_size load_phys_base slot_bytes mem =
     (case shell_apps_plan_com_image com_size of
        None \<Rightarrow> (None, mem)
      | Some required_slot_bytes \<Rightarrow>
          if required_slot_bytes > slot_bytes then (None, mem)
          else let image_limit = shell_apps_user_image_limit_for_slot slot_bytes in
          if image_limit = 0 \<or> APP_LOAD_VIRT_BASE + of_int com_size > image_limit then (None, mem)
          else (Some APP_LOAD_VIRT_BASE,
                shell_apps_mem_copy load_phys_base (\<lambda>k. com_data ! k) (of_int com_size) mem))"

section \<open>What the loader accepts\<close>

definition is_load :: "elf32_program_header \<Rightarrow> bool" where
  "is_load p \<longleftrightarrow> ph_type p = 1 \<and> ph_memsz p \<noteq> 0"

text \<open>A segment that is inside the file, and inside the largest image an application may have.\<close>

definition seg_ok :: "int \<Rightarrow> elf32_program_header \<Rightarrow> bool" where
  "seg_ok n p \<longleftrightarrow> unat (ph_filesz p) \<le> unat (ph_memsz p) \<and> unat (ph_offset p) + unat (ph_filesz p) \<le> nat n
     \<and> 0x1000000 \<le> unat (ph_vaddr p) \<and> unat (ph_vaddr p) + unat (ph_memsz p) \<le> 0x13EB000"

definition image_end :: "elf32_program_header list \<Rightarrow> nat" where
  "image_end ps = fold (\<lambda>p. max (unat (ph_vaddr p) + unat (ph_memsz p))) (filter is_load ps) 0x1000000"

lemma unat_max_limit: "unat (shell_apps_user_image_limit_for_slot APP_SLOT_MAX_SIZE) = 0x13EB000"
  using image_limit(1) [of APP_SLOT_MAX_SIZE] by (simp add: slot_ok_def APP_SLOT_MAX_SIZE_def)

lemma probe_segments_step:
  assumes "0 \<le> n" "n < 2 ^ 31"
  shows "ph_memsz p < ph_filesz p \<or> ph_offset p > of_int n \<or> ph_filesz p > of_int n - ph_offset p
      \<or> ph_vaddr p < APP_LOAD_VIRT_BASE \<or> ph_memsz p > 0xFFFFFFFF - ph_vaddr p
      \<or> ph_vaddr p + ph_memsz p > shell_apps_user_image_limit_for_slot APP_SLOT_MAX_SIZE
    \<longleftrightarrow> \<not> seg_ok n p"
proof -
  define N where "N = nat n"
  have N: "n = int N" "N < 2147483648" using assms by (simp_all add: N_def)
  have un: "unat (of_int n :: u32) = N" using N by (simp add: unat_of_nat32)
  have d: "unat (of_int n - ph_offset p) = N - unat (ph_offset p)" if "unat (ph_offset p) \<le> N"
    using that un by (subst unat_sub) (simp_all add: word_le_nat_alt)
  have v: "unat (0xFFFFFFFF - ph_vaddr p) = 4294967295 - unat (ph_vaddr p)"
    using unat_u32_bound [of "ph_vaddr p"] by (subst unat_sub) (simp_all add: word_le_nat_alt)
  have a: "unat (ph_vaddr p + ph_memsz p) = unat (ph_vaddr p) + unat (ph_memsz p)"
    if "unat (ph_vaddr p) + unat (ph_memsz p) < 4294967296"
    using that by (subst unat_add_lem [THEN iffD1]) simp_all
  have off: "ph_offset p > of_int n \<or> ph_filesz p > of_int n - ph_offset p \<longleftrightarrow> \<not> unat (ph_offset p) + unat (ph_filesz p) \<le> N"
    using d by (cases "unat (ph_offset p) \<le> N") (auto simp: word_less_nat_alt un)
  have e: "ph_memsz p > 0xFFFFFFFF - ph_vaddr p \<or> ph_vaddr p + ph_memsz p > shell_apps_user_image_limit_for_slot APP_SLOT_MAX_SIZE
      \<longleftrightarrow> \<not> unat (ph_vaddr p) + unat (ph_memsz p) \<le> 0x13EB000"
    using a unat_u32_bound [of "ph_vaddr p"] unfolding word_less_nat_alt v unat_max_limit
    by (cases "unat (ph_vaddr p) + unat (ph_memsz p) < 4294967296") auto
  have "ph_vaddr p < APP_LOAD_VIRT_BASE \<longleftrightarrow> \<not> 0x1000000 \<le> unat (ph_vaddr p)" "ph_memsz p < ph_filesz p \<longleftrightarrow> \<not> unat (ph_filesz p) \<le> unat (ph_memsz p)"
    by (auto simp: word_less_nat_alt APP_LOAD_VIRT_BASE_def)
  then show ?thesis using off e unfolding seg_ok_def N_def [symmetric] by blast
qed

lemma probe_segments_exact:
  assumes n: "0 \<le> n" "n < 2 ^ 31" and h: "unat h \<le> 0x13EB000"
  shows "probe_segments (of_int n) (shell_apps_user_image_limit_for_slot APP_SLOT_MAX_SIZE) ps h saw =
    (if \<forall>p\<in>set ps. is_load p \<longrightarrow> seg_ok n p
     then Some (of_nat (fold (\<lambda>p. max (unat (ph_vaddr p) + unat (ph_memsz p))) (filter is_load ps) (unat h)),
       saw \<or> filter is_load ps \<noteq> [])
     else None)"
  using h
proof (induction ps arbitrary: h saw)
  case (Cons p ps)
  note step = probe_segments_step [OF n, of p]
  show ?case
  proof (cases "is_load p")
    case load: True
    show ?thesis
    proof (cases "seg_ok n p")
      case ok: True
      let ?h = "if ph_vaddr p + ph_memsz p > h then ph_vaddr p + ph_memsz p else h"
      have b: "unat (ph_vaddr p) + unat (ph_memsz p) \<le> 0x13EB000" using ok by (simp add: seg_ok_def)
      then have a: "unat (ph_vaddr p + ph_memsz p) = unat (ph_vaddr p) + unat (ph_memsz p)"
        by (subst unat_add_lem [THEN iffD1]) simp_all
      have h: "unat ?h = max (unat (ph_vaddr p) + unat (ph_memsz p)) (unat h)"
        by (auto simp: word_less_nat_alt a max_def)
      then have "unat ?h \<le> 0x13EB000" using b Cons.prems by simp
      note IH = Cons.IH [OF this, of True]
      have "ph_type p = 1" "ph_memsz p \<noteq> 0" using load by (simp_all add: is_load_def)
      then have "probe_segments (of_int n) (shell_apps_user_image_limit_for_slot APP_SLOT_MAX_SIZE) (p # ps) h saw =
          probe_segments (of_int n) (shell_apps_user_image_limit_for_slot APP_SLOT_MAX_SIZE) ps ?h True"
        using ok step by (simp add: Let_def)
      then show ?thesis using load ok IH unfolding h by simp
    next
      case False
      then have "probe_segments (of_int n) (shell_apps_user_image_limit_for_slot APP_SLOT_MAX_SIZE) (p # ps) h saw = None"
        using load step by (auto simp: is_load_def Let_def)
      then show ?thesis using load False by simp
    qed
  next
    case False
    then have "probe_segments (of_int n) (shell_apps_user_image_limit_for_slot APP_SLOT_MAX_SIZE) (p # ps) h saw =
        probe_segments (of_int n) (shell_apps_user_image_limit_for_slot APP_SLOT_MAX_SIZE) ps h saw"
      by (auto simp: is_load_def)
    then show ?thesis using False Cons.IH [OF Cons.prems, of saw] by simp
  qed
qed simp

text \<open>The files the loader accepts.\<close>

definition elf_ok :: "u8 list \<Rightarrow> int \<Rightarrow> bool" where
  "elf_ok d n \<longleftrightarrow> 52 \<le> n \<and> take 4 d = [0x7F, 0x45, 0x4C, 0x46] \<and> d ! 4 = 1 \<and> d ! 5 = 1 \<and> load32 d 20 = 1
     \<and> load16 d 16 = 2 \<and> load16 d 18 = 3 \<and> load16 d 42 = 32
     \<and> 0 < unat (load16 d 44) \<and> unat (load16 d 44) \<le> 16
     \<and> unat (load32 d 28) + 32 * unat (load16 d 44) \<le> nat n
     \<and> (\<forall>p\<in>set (program_headers d). is_load p \<longrightarrow> seg_ok n p) \<and> (\<exists>p\<in>set (program_headers d). is_load p)
     \<and> 0x1000000 \<le> unat (load32 d 24)
     \<and> unat (load32 d 24) < 0x1000000 + 4096 * ((image_end (program_headers d) - 0x1000000 + 4095) div 4096)"

definition elf_slot :: "u8 list \<Rightarrow> nat" where
  "elf_slot d = 4096 * ((image_end (program_headers d) - 0x1000000 + 4095) div 4096) + 0x15000"

lemma fold_max_bounds:
  fixes f :: "'a \<Rightarrow> nat"
  assumes "\<forall>p\<in>set ps. f p \<le> hi" "h \<le> hi"
  shows "h \<le> fold (\<lambda>p. max (f p)) ps h \<and> fold (\<lambda>p. max (f p)) ps h \<le> hi \<and> (\<forall>p\<in>set ps. f p \<le> fold (\<lambda>p. max (f p)) ps h)"
  using assms
proof (induction ps arbitrary: h)
  case (Cons q ps)
  have "\<forall>p\<in>set ps. f p \<le> hi" "max (f q) h \<le> hi" using Cons.prems by simp_all
  from Cons.IH [OF this] show ?case by (simp add: max.bounded_iff)
qed simp

lemma image_end_bounds:
  assumes "\<forall>p\<in>set ps. is_load p \<longrightarrow> seg_ok n p"
  shows "0x1000000 \<le> image_end ps" "image_end ps \<le> 0x13EB000"
    and "p \<in> set ps \<Longrightarrow> is_load p \<Longrightarrow> unat (ph_vaddr p) + unat (ph_memsz p) \<le> image_end ps"
proof -
  have "\<forall>p\<in>set (filter is_load ps). unat (ph_vaddr p) + unat (ph_memsz p) \<le> 0x13EB000"
    using assms by (auto simp: seg_ok_def)
  from fold_max_bounds [OF this, where h = "0x1000000"]
  show "0x1000000 \<le> image_end ps" "image_end ps \<le> 0x13EB000"
    "p \<in> set ps \<Longrightarrow> is_load p \<Longrightarrow> unat (ph_vaddr p) + unat (ph_memsz p) \<le> image_end ps"
    by (simp_all add: image_end_def)
qed

lemma image_end_pos:
  assumes ok: "\<forall>p\<in>set ps. is_load p \<longrightarrow> seg_ok n p" and ex: "\<exists>p\<in>set ps. is_load p"
  shows "0x1000000 < image_end ps"
proof -
  obtain p where p: "p \<in> set ps" "is_load p" using ex by blast
  then have "0x1000000 \<le> unat (ph_vaddr p)" "0 < unat (ph_memsz p)" using ok by (auto simp: seg_ok_def is_load_def unat_gt_0)
  then show ?thesis using image_end_bounds(3) [OF ok p] by linarith
qed

lemma probe_slot:
  assumes n: "0 \<le> n" "n < 2 ^ 31"
  shows "(case probe_segments (of_int n) (shell_apps_user_image_limit_for_slot APP_SLOT_MAX_SIZE) (program_headers d) APP_LOAD_VIRT_BASE False of
        None \<Rightarrow> None
      | Some (highest_end, saw_load) \<Rightarrow>
          if \<not> saw_load then None
          else let slot_bytes = shell_apps_required_slot_bytes (highest_end - APP_LOAD_VIRT_BASE);
                   image_limit = shell_apps_user_image_limit_for_slot slot_bytes in
          if slot_bytes = 0 \<or> image_limit = 0 \<or> highest_end > image_limit then None
          else if eh_entry (elf_header d) < APP_LOAD_VIRT_BASE \<or> eh_entry (elf_header d) \<ge> image_limit then None
          else Some (eh_entry (elf_header d), slot_bytes)) =
      (if (\<forall>p\<in>set (program_headers d). is_load p \<longrightarrow> seg_ok n p) \<and> (\<exists>p\<in>set (program_headers d). is_load p)
          \<and> 0x1000000 \<le> unat (load32 d 24)
          \<and> unat (load32 d 24) < 0x1000000 + 4096 * ((image_end (program_headers d) - 0x1000000 + 4095) div 4096)
       then Some (load32 d 24, of_nat (elf_slot d)) else None)"
proof -
  let ?ps = "program_headers d"
  have b: "unat APP_LOAD_VIRT_BASE = 0x1000000" by (simp add: APP_LOAD_VIRT_BASE_def)
  have probe: "probe_segments (of_int n) (shell_apps_user_image_limit_for_slot APP_SLOT_MAX_SIZE) ?ps APP_LOAD_VIRT_BASE False =
      (if \<forall>p\<in>set ?ps. is_load p \<longrightarrow> seg_ok n p then Some (of_nat (image_end ?ps), \<exists>p\<in>set ?ps. is_load p) else None)"
    using probe_segments_exact [OF n, of APP_LOAD_VIRT_BASE ?ps False] b by (auto simp: image_end_def filter_empty_conv)
  show ?thesis
  proof (cases "(\<forall>p\<in>set ?ps. is_load p \<longrightarrow> seg_ok n p) \<and> (\<exists>p\<in>set ?ps. is_load p)")
    case True
    let ?h = "of_nat (image_end ?ps) :: u32"
    have e: "0x1000000 < image_end ?ps" "image_end ?ps \<le> 0x13EB000"
      using True image_end_bounds(2) [of ?ps n] image_end_pos [of ?ps n] by blast+
    have h: "unat ?h = image_end ?ps" using e by (simp add: unat_of_nat32)
    then have m: "unat (?h - APP_LOAD_VIRT_BASE) = image_end ?ps - 0x1000000"
      using b e by (subst unat_sub) (simp_all add: word_le_nat_alt)
    define sb where "sb = shell_apps_required_slot_bytes (?h - APP_LOAD_VIRT_BASE)"
    have sb: "sb = of_nat (elf_slot d)" unfolding sb_def required_slot_bytes m elf_slot_def using e by simp
    have c: "4096 * ((image_end ?ps - 0x1000000 + 4095) div 4096) \<le> 0x3EB000"
      using page_round [of "image_end ?ps - 0x1000000" 1003] e by simp
    then have u: "unat sb = elf_slot d" unfolding sb elf_slot_def by (subst unat_of_nat32) simp_all
    then have "sb \<noteq> 0" by (auto simp: elf_slot_def)
    moreover have "slot_ok sb" unfolding slot_ok_def u elf_slot_def using c by simp
    note lim = image_limit(1) [OF this, unfolded u elf_slot_def]
    moreover have "shell_apps_user_image_limit_for_slot sb \<noteq> 0" using lim by (auto simp: word_unat_eq_iff)
    moreover have "image_end ?ps - 0x1000000 \<le> 4096 * ((image_end ?ps - 0x1000000 + 4095) div 4096)"
      using mult_div_mod_eq [of 4096 "image_end ?ps - 0x1000000 + 4095"] mod_less_divisor [of 4096 "image_end ?ps - 0x1000000 + 4095"]
      by linarith
    then have "\<not> ?h > shell_apps_user_image_limit_for_slot sb" unfolding word_less_nat_alt h lim using e by linarith
    ultimately show ?thesis unfolding probe if_P [OF True [THEN conjunct1]] option.case prod.case sb_def [symmetric] Let_def
      using True sb lim b by (auto simp: elf_header_def word_less_nat_alt word_le_nat_alt)
  next
    case False
    then show ?thesis unfolding probe by auto
  qed
qed

lemma probe_elf_exact:
  assumes n: "n < 2 ^ 31" and len: "n \<le> int (length d)"
  shows "shell_apps_probe_elf_image d n = (if elf_ok d n then Some (load32 d 24, of_nat (elf_slot d)) else None)"
proof (cases "52 \<le> n")
  case True
  let ?ps = "program_headers d"
  have n0: "0 \<le> n" using True by simp
  have un: "unat (of_int n :: u32) = nat n" using n0 n by (subst unat_of_nat32 [symmetric]) simp_all
  have id: "eh_ident (elf_header d) ! k = d ! k" if "k < 16" for k using that by (simp add: elf_header_def)
  have magic: "take 4 d = [0x7F, 0x45, 0x4C, 0x46] \<longleftrightarrow> d ! 0 = 0x7F \<and> d ! 1 = 0x45 \<and> d ! 2 = 0x4C \<and> d ! 3 = 0x46"
  proof -
    have "take 4 d = [d ! 0, d ! 1, d ! 2, d ! 3]"
      using True len by (intro nth_equalityI) (auto simp: nth_Cons numeral_2_eq_2 numeral_3_eq_3 split: nat.split)
    then show ?thesis by simp
  qed
  have tab: "eh_phoff (elf_header d) > of_int n \<or> ucast (eh_phnum (elf_header d)) * ucast (eh_phentsize (elf_header d)) > (of_int n - eh_phoff (elf_header d) :: u32)
      \<longleftrightarrow> \<not> unat (load32 d 28) + 32 * unat (load16 d 44) \<le> nat n"
    if "load16 d 42 = 32" "unat (load16 d 44) \<le> 16"
  proof -
    have "unat (ucast (load16 d 44) * 32 :: u32) = 32 * unat (load16 d 44)"
      using that(2) by (subst unat_mult_lem [THEN iffD1]) simp_all
    moreover have "unat (of_int n - load32 d 28) = nat n - unat (load32 d 28)" if "unat (load32 d 28) \<le> nat n"
      using that un by (subst unat_sub) (simp_all add: word_le_nat_alt)
    ultimately show ?thesis using that(1) un
      by (cases "unat (load32 d 28) \<le> nat n") (auto simp: elf_header_def word_less_nat_alt)
  qed
  have fin: "(case probe_segments (of_int n) (shell_apps_user_image_limit_for_slot APP_SLOT_MAX_SIZE) ?ps APP_LOAD_VIRT_BASE False of
        None \<Rightarrow> None
      | Some (highest_end, saw_load) \<Rightarrow>
          if \<not> saw_load then None
          else let slot_bytes = shell_apps_required_slot_bytes (highest_end - APP_LOAD_VIRT_BASE);
                   image_limit = shell_apps_user_image_limit_for_slot slot_bytes in
          if slot_bytes = 0 \<or> image_limit = 0 \<or> highest_end > image_limit then None
          else if eh_entry (elf_header d) < APP_LOAD_VIRT_BASE \<or> eh_entry (elf_header d) \<ge> image_limit then None
          else Some (eh_entry (elf_header d), slot_bytes)) =
      (if (\<forall>p\<in>set ?ps. is_load p \<longrightarrow> seg_ok n p) \<and> (\<exists>p\<in>set ?ps. is_load p) \<and> 0x1000000 \<le> unat (load32 d 24)
          \<and> unat (load32 d 24) < 0x1000000 + 4096 * ((image_end ?ps - 0x1000000 + 4095) div 4096)
       then Some (load32 d 24, of_nat (elf_slot d)) else None)"
    by (rule probe_slot [OF n0 n])
  show ?thesis
    unfolding shell_apps_probe_elf_image_def Let_def fin [unfolded Let_def]
    using True tab id magic by (auto simp: elf_ok_def elf_header_def word_less_nat_alt unat_gt_0)
next
  case False
  then show ?thesis by (simp add: shell_apps_probe_elf_image_def elf_ok_def)
qed

section \<open>What loading writes\<close>

definition seg_covers :: "nat \<Rightarrow> elf32_program_header \<Rightarrow> bool" where
  "seg_covers a p \<longleftrightarrow> unat (ph_vaddr p) \<le> a \<and> a < unat (ph_vaddr p) + unat (ph_memsz p)"

definition seg_byte :: "u8 list \<Rightarrow> nat \<Rightarrow> elf32_program_header \<Rightarrow> u8" where
  "seg_byte d a p = (let k = a - unat (ph_vaddr p) in
     if k < unat (ph_filesz p) then d ! (unat (ph_offset p) + k) else 0)"

text \<open>The byte at virtual address \<open>a\<close> of the loaded program: that of the last segment that covers it.\<close>

definition image_byte :: "u8 list \<Rightarrow> elf32_program_header list \<Rightarrow> nat \<Rightarrow> u8 option" where
  "image_byte d ps a = map_option (seg_byte d a) (find (seg_covers a) (rev (filter is_load ps)))"

lemma find_snoc:
  "find P (ys @ [x]) = (case find P ys of None \<Rightarrow> if P x then Some x else None | Some y \<Rightarrow> Some y)"
  by (induction ys) auto

lemma load_segment_bytes:
  assumes p: "seg_ok n p" and lim: "unat (ph_vaddr p) + unat (ph_memsz p) \<le> lim" and fit: "unat base + (lim - 0x1000000) < 4294967296"
  shows "get_byte
    (let dst = base + (ph_vaddr p - APP_LOAD_VIRT_BASE);
         mem = shell_apps_mem_copy dst (\<lambda>k. d ! (unat (ph_offset p) + k)) (ph_filesz p) mem
     in if ph_memsz p > ph_filesz p
        then shell_apps_mem_zero (dst + ph_filesz p) (ph_memsz p - ph_filesz p) mem else mem) a =
    (if unat base \<le> a \<and> seg_covers (a - unat base + 0x1000000) p then seg_byte d (a - unat base + 0x1000000) p else get_byte mem a)"
proof -
  let ?dst = "base + (ph_vaddr p - APP_LOAD_VIRT_BASE)"
  have v: "0x1000000 \<le> unat (ph_vaddr p)" "unat (ph_filesz p) \<le> unat (ph_memsz p)" using p by (simp_all add: seg_ok_def)
  have o1: "unat (ph_vaddr p - APP_LOAD_VIRT_BASE) = unat (ph_vaddr p) - 0x1000000"
    using v by (subst unat_sub) (simp_all add: word_le_nat_alt APP_LOAD_VIRT_BASE_def)
  have dst: "unat ?dst = unat base + (unat (ph_vaddr p) - 0x1000000)"
    using v lim fit o1 by (subst unat_add_lem [THEN iffD1]) simp_all
  have dst2: "unat (?dst + ph_filesz p) = unat ?dst + unat (ph_filesz p)"
    using v lim fit dst by (subst unat_add_lem [THEN iffD1]) simp_all
  have sz: "unat (ph_memsz p - ph_filesz p) = unat (ph_memsz p) - unat (ph_filesz p)"
    using v by (subst unat_sub) (simp_all add: word_le_nat_alt)
  have cov: "unat base \<le> a \<and> seg_covers (a - unat base + 0x1000000) p \<longleftrightarrow> unat ?dst \<le> a \<and> a < unat ?dst + unat (ph_memsz p)"
    unfolding seg_covers_def dst using v by linarith
  have idx: "a - unat base + 0x1000000 - unat (ph_vaddr p) = a - unat ?dst" if "unat ?dst \<le> a"
    using that v unfolding dst by linarith
  show ?thesis
    unfolding Let_def shell_apps_mem_copy_def shell_apps_mem_zero_def cov using v(2)
    by (auto simp: get_store_bytes word_less_nat_alt dst2 sz seg_byte_def Let_def idx split: if_splits)
qed

lemma load_segments_exact:
  assumes ok: "\<forall>p\<in>set ps. is_load p \<longrightarrow> seg_ok n p \<and> unat (ph_vaddr p) + unat (ph_memsz p) \<le> unat lim"
    and fit: "unat base + (unat lim - 0x1000000) < 4294967296"
  shows "\<exists>mem'. load_segments d base lim ps mem = (True, mem')
    \<and> (\<forall>a. get_byte mem' a = (if unat base \<le> a then case image_byte d ps (a - unat base + 0x1000000) of
          None \<Rightarrow> get_byte mem a | Some v \<Rightarrow> v else get_byte mem a))"
  using ok
proof (induction ps arbitrary: mem)
  case (Cons p ps)
  have ps: "\<forall>p\<in>set ps. is_load p \<longrightarrow> seg_ok n p \<and> unat (ph_vaddr p) + unat (ph_memsz p) \<le> unat lim" using Cons.prems by simp
  show ?case
  proof (cases "is_load p")
    case True
    then have p: "seg_ok n p" "unat (ph_vaddr p) + unat (ph_memsz p) \<le> unat lim" "ph_type p = 1" "ph_memsz p \<noteq> 0"
      using Cons.prems by (simp_all add: is_load_def)
    let ?m = "let dst = base + (ph_vaddr p - APP_LOAD_VIRT_BASE);
         mem = shell_apps_mem_copy dst (\<lambda>k. d ! (unat (ph_offset p) + k)) (ph_filesz p) mem
     in if ph_memsz p > ph_filesz p
        then shell_apps_mem_zero (dst + ph_filesz p) (ph_memsz p - ph_filesz p) mem else mem"
    have v: "0x1000000 \<le> unat (ph_vaddr p)" "unat (ph_vaddr p) + unat (ph_memsz p) \<le> 0x13EB000" using p(1) by (simp_all add: seg_ok_def)
    then have "unat (ph_vaddr p + ph_memsz p) = unat (ph_vaddr p) + unat (ph_memsz p)"
      by (subst unat_add_lem [THEN iffD1]) simp_all
    then have "\<not> (ph_vaddr p < APP_LOAD_VIRT_BASE \<or> ph_vaddr p + ph_memsz p > lim)"
      using v p(2) by (simp add: word_less_nat_alt APP_LOAD_VIRT_BASE_def)
    then have "load_segments d base lim (p # ps) mem = load_segments d base lim ps ?m" using p(3,4) by (simp add: Let_def)
    moreover note bytes = load_segment_bytes [OF p(1,2) fit, of d mem]
    have cons: "image_byte d (p # ps) a = (case image_byte d ps a of None \<Rightarrow> if seg_covers a p then Some (seg_byte d a p) else None | Some v \<Rightarrow> Some v)" for a
      using True by (simp add: image_byte_def find_snoc split: option.split)
    from Cons.IH [OF ps, of ?m] obtain mem' where m: "load_segments d base lim ps ?m = (True, mem')"
      "\<And>a. get_byte mem' a = (if unat base \<le> a then case image_byte d ps (a - unat base + 0x1000000) of
          None \<Rightarrow> get_byte ?m a | Some v \<Rightarrow> v else get_byte ?m a)" by blast
    have "get_byte mem' a = (if unat base \<le> a then case image_byte d (p # ps) (a - unat base + 0x1000000) of
          None \<Rightarrow> get_byte mem a | Some v \<Rightarrow> v else get_byte mem a)" for a
      unfolding m(2) bytes cons by (cases "unat base \<le> a"; cases "image_byte d ps (a - unat base + 0x1000000)") simp_all
    then show ?thesis using m(1) calculation by (intro exI [of _ mem']) simp
  next
    case False
    then have "load_segments d base lim (p # ps) mem = load_segments d base lim ps mem" by (auto simp: is_load_def)
    moreover have "image_byte d (p # ps) = image_byte d ps" using False by (simp add: image_byte_def fun_eq_iff)
    ultimately show ?thesis using Cons.IH [OF ps, of mem] by (simp only:)
  qed
qed (simp add: image_byte_def)

lemma elf_load_image:
  assumes "n < 2 ^ 31" "n \<le> int (length d)" "slot_ok slot" "elf_slot d \<le> unat slot"
    and "unat base + unat slot < 4294967296"
  shows "\<exists>mem'. shell_apps_load_elf_image d n base slot mem = (if elf_ok d n then Some (load32 d 24) else None, mem')
    \<and> shell_apps_probe_elf_image d n = (if elf_ok d n then Some (load32 d 24, of_nat (elf_slot d)) else None)
    \<and> (elf_ok d n \<longrightarrow> (\<forall>a. get_byte mem' a =
          (if unat base \<le> a \<and> a < unat base + (unat slot - 0x15000)
           then case image_byte d (program_headers d) (a - unat base + 0x1000000) of None \<Rightarrow> get_byte mem a | Some v \<Rightarrow> v
           else get_byte mem a)))
    \<and> (\<not> elf_ok d n \<longrightarrow> mem' = mem)"
proof -
  note probe = probe_elf_exact [OF assms(1,2)]
  show ?thesis
  proof (cases "elf_ok d n")
    case ok: True
    let ?ps = "program_headers d" and ?lim = "shell_apps_user_image_limit_for_slot slot"
    have segs: "\<forall>p\<in>set ?ps. is_load p \<longrightarrow> seg_ok n p" and n: "52 \<le> n" using ok by (simp_all add: elf_ok_def)
    have s: "0x15000 \<le> unat slot" "unat slot \<le> 0x400000" using assms(3) by (simp_all add: slot_ok_def)
    note lim = image_limit(1) [OF assms(3)]
    have "image_end ?ps - 0x1000000 \<le> elf_slot d - 0x15000" unfolding elf_slot_def by simp
    then have le: "image_end ?ps \<le> unat ?lim" "unat (load32 d 24) < unat ?lim" unfolding lim using assms(4) s ok image_end_bounds(1) [OF segs]
      by (auto simp: elf_ok_def elf_slot_def)
    have "\<forall>p\<in>set ?ps. is_load p \<longrightarrow> seg_ok n p \<and> unat (ph_vaddr p) + unat (ph_memsz p) \<le> unat ?lim"
      using segs image_end_bounds(3) [OF segs] le by (meson order_trans)
    moreover have "unat base + (unat ?lim - 0x1000000) < 4294967296" unfolding lim using assms(5) s by linarith
    ultimately obtain mem' where
      m: "load_segments d base ?lim ?ps mem = (True, mem')" and
      b: "\<And>a. get_byte mem' a = (if unat base \<le> a then case image_byte d ?ps (a - unat base + 0x1000000) of
          None \<Rightarrow> get_byte mem a | Some v \<Rightarrow> v else get_byte mem a)"
      using load_segments_exact [of ?ps n ?lim base d mem] by blast
    have none: "image_byte d ?ps (a - unat base + 0x1000000) = None" if "unat base + (unat slot - 0x15000) \<le> a" for a
    proof -
      have "\<not> seg_covers (a - unat base + 0x1000000) p" if "p \<in> set ?ps" "is_load p" for p
        using image_end_bounds(3) [OF segs that] le(1) \<open>unat base + _ \<le> a\<close> s unfolding lim seg_covers_def by linarith
      then show ?thesis by (auto simp: image_byte_def find_None_iff)
    qed
    have r: "unat (of_nat (elf_slot d) :: u32) = elf_slot d" using assms(4) s by (intro unat_of_nat32) simp
    have "?lim \<noteq> 0" "\<not> of_nat (elf_slot d) > slot" "\<not> (load32 d 24 < APP_LOAD_VIRT_BASE \<or> load32 d 24 \<ge> ?lim)"
      using lim s r assms(4) ok le(2) by (auto simp: word_less_nat_alt word_le_nat_alt APP_LOAD_VIRT_BASE_def elf_ok_def word_unat_eq_iff)
    then have "shell_apps_load_elf_image d n base slot mem = (Some (load32 d 24), mem')"
      using n ok m probe by (simp add: shell_apps_load_elf_image_def Let_def elf_header_def)
    then show ?thesis using ok probe b none by (intro exI [of _ mem']) (auto split: option.split)
  next
    case False
    then show ?thesis using probe by (auto simp: shell_apps_load_elf_image_def Let_def)
  qed
qed

lemma elf_load_small:
  assumes n: "n < 2 ^ 31" "n \<le> int (length d)" and ok: "elf_ok d n" and small: "unat slot < elf_slot d"
  shows "shell_apps_load_elf_image d n base slot mem = (None, mem)"
proof -
  have "\<forall>p\<in>set (program_headers d). is_load p \<longrightarrow> seg_ok n p" using ok by (simp add: elf_ok_def)
  then have "image_end (program_headers d) \<le> 0x13EB000" by (rule image_end_bounds(2))
  then have "4096 * ((image_end (program_headers d) - 0x1000000 + 4095) div 4096) \<le> 0x3EB000"
    using page_round [of "image_end (program_headers d) - 0x1000000" 1003] by simp
  then have "unat (of_nat (elf_slot d) :: u32) = elf_slot d" by (intro unat_of_nat32) (simp add: elf_slot_def)
  then have "of_nat (elf_slot d) > slot" using small by (simp add: word_less_nat_alt)
  then show ?thesis using probe_elf_exact [OF n] ok by (simp add: shell_apps_load_elf_image_def Let_def)
qed

text \<open>
  C40: Loading an ELF program. Whatever the bytes of a file, it is accepted exactly when its header and
  program headers are well formed, the entry point is in the image and every loadable segment lies inside
  the file and, added up without wrap-around, between the load address and the end of the largest
  image; the slot size reported is that of the image. Loading into a slot of whole pages, from 84 KB to 4 MB, succeeds exactly
  when the file is accepted and the slot has at least the size reported. Then every byte of the slot
  holds the byte of the last segment that covers it (file contents, then zeros), every byte no
  segment covers is as before, and nothing outside the image area of the slot is written; a failure
  writes nothing.
\<close>

theorem elf_load_exact:
  assumes "n < 2 ^ 31" "n \<le> int (length d)" "slot_ok slot" "unat base + unat slot < 4294967296"
  shows "shell_apps_probe_elf_image d n = (if elf_ok d n then Some (load32 d 24, of_nat (elf_slot d)) else None)
    \<and> (\<exists>mem'. shell_apps_load_elf_image d n base slot mem =
          (if elf_ok d n \<and> elf_slot d \<le> unat slot then Some (load32 d 24) else None, mem')
        \<and> (elf_ok d n \<and> elf_slot d \<le> unat slot \<longrightarrow> (\<forall>a. get_byte mem' a =
            (if unat base \<le> a \<and> a < unat base + (unat slot - 0x15000)
             then case image_byte d (program_headers d) (a - unat base + 0x1000000) of None \<Rightarrow> get_byte mem a | Some v \<Rightarrow> v
             else get_byte mem a)))
        \<and> (\<not> (elf_ok d n \<and> elf_slot d \<le> unat slot) \<longrightarrow> mem' = mem))"
proof (cases "elf_slot d \<le> unat slot")
  case True
  then have c: "(elf_ok d n \<and> elf_slot d \<le> unat slot) = elf_ok d n" by simp
  show ?thesis unfolding c using elf_load_image [OF assms(1-3) True assms(4), of mem] by blast
next
  case False
  have "shell_apps_load_elf_image d n base slot mem = (None, mem)"
  proof (cases "elf_ok d n")
    case True
    show ?thesis by (rule elf_load_small [OF assms(1,2) True]) (use False in simp)
  next
    case False
    then show ?thesis using probe_elf_exact [OF assms(1,2)] by (simp add: shell_apps_load_elf_image_def Let_def)
  qed
  with False show ?thesis using probe_elf_exact [OF assms(1,2)] by simp
qed

text \<open>A program of four bytes at the load address, followed by twelve bytes of zeros.\<close>

definition tiny_elf :: "u8 list" where
  "tiny_elf = [0x7F, 0x45, 0x4C, 0x46, 1, 1, 1, 0, 0, 0, 0, 0, 0, 0, 0, 0,
     2, 0, 3, 0, 1, 0, 0, 0, 0, 0, 0, 1, 52, 0, 0, 0, 0, 0, 0, 0, 0, 0, 0, 0, 52, 0, 32, 0, 1, 0, 0, 0, 0, 0, 0, 0,
     1, 0, 0, 0, 84, 0, 0, 0, 0, 0, 0, 1, 0, 0, 0, 0, 4, 0, 0, 0, 16, 0, 0, 0, 5, 0, 0, 0, 0, 16, 0, 0,
     0xB8, 0x20, 0xCD, 0x80]"

theorem elf_load_exact_witness:
  "\<exists>mem'. shell_apps_load_elf_image tiny_elf 88 0x700000 0x16000 (\<lambda>_. 0xFFFFFFFF) = (Some 0x1000000, mem')
    \<and> get_byte mem' 0x700002 = 0xCD \<and> get_byte mem' 0x70000F = 0 \<and> get_byte mem' 0x700010 = 0xFF
    \<and> fst (shell_apps_load_elf_image tiny_elf 88 0x700000 0x15000 (\<lambda>_. 0xFFFFFFFF)) = None"
proof -
  have ps: "program_headers tiny_elf = [\<lparr>ph_type = 1, ph_offset = 84, ph_vaddr = 0x1000000, ph_filesz = 4, ph_memsz = 16\<rparr>]"
    by code_simp
  have w: "take 4 tiny_elf = [0x7F, 0x45, 0x4C, 0x46]" "tiny_elf ! 4 = 1" "tiny_elf ! 5 = 1" "load32 tiny_elf 20 = 1"
    "load16 tiny_elf 16 = 2" "load16 tiny_elf 18 = 3" "load16 tiny_elf 42 = 32" "load16 tiny_elf 44 = 1" "load32 tiny_elf 28 = 52"
    "load32 tiny_elf 24 = 0x1000000" "tiny_elf ! 86 = 0xCD" "length tiny_elf = 88"
    by code_simp+
  have e: "image_end (program_headers tiny_elf) = 0x1000010" by (simp add: ps image_end_def is_load_def)
  have ok: "elf_ok tiny_elf 88" "elf_slot tiny_elf = 0x16000"
    using w by (simp_all add: elf_ok_def elf_slot_def e) (simp_all add: ps is_load_def seg_ok_def)
  have s: "slot_ok 0x16000" "slot_ok 0x15000" by (simp_all add: slot_ok_def)
  have b: "image_byte tiny_elf (program_headers tiny_elf) 0x1000002 = Some 0xCD"
    "image_byte tiny_elf (program_headers tiny_elf) 0x100000F = Some 0"
    "image_byte tiny_elf (program_headers tiny_elf) 0x1000010 = None"
    using w by (simp_all add: ps image_byte_def is_load_def seg_covers_def seg_byte_def Let_def)
  have f: "get_byte (\<lambda>_. 0xFFFFFFFF) 0x700010 = 0xFF" by (simp add: get_byte_def)
  show ?thesis
    using elf_load_exact [of 88 tiny_elf "0x16000" "0x700000" "\<lambda>_. 0xFFFFFFFF"]
      elf_load_exact [of 88 tiny_elf "0x15000" "0x700000" "\<lambda>_. 0xFFFFFFFF"] s ok w b f by auto
qed

end
