(* ===== verification/App_Tasks.thy ===== *)
theory App_Tasks
  imports App_Image
begin

text \<open>
  The table of application tasks, \<^verbatim>\<open>shell_apps.c\<close>: the arena of physical pages the slots come from, creation
  and release of tasks, threads of an application, and what happens when a task exits, faults or is stopped. The state
  extends that of the scheduler, whose processes the tasks belong to.

  \<^verbatim>\<open>cli\<close> and \<^verbatim>\<open>sti\<close> of the critical sections act on the flags of the machine. Pointers to task
  structures are their process numbers.
\<close>

unbundle bit_operations_syntax

section \<open>State\<close>

record app_state = sched_state +
  g_app_tasks :: "shell_app_task list"
  g_app_phys_page_used :: "bool list"
  g_elf_buffer :: "u8 list"
  app_rng_state :: u32

record app_link = sched_link +
  lm_background_thread :: u32

text \<open>What the shell passes to the application layer: its variables and functions.\<close>

record shell_app_host =
  h_current_dir_cluster :: u32
  h_current_path :: cstr
  h_current_path_size :: int
  h_fat16_initialized :: bool
  h_app_clip_src_cluster :: u32
  h_app_clip_name :: cstr
  h_app_clip_name_size :: int
  h_app_clip_mode :: int
  h_out_both :: u32
  h_str_to_upper :: u32
  h_path_reset :: u32
  h_path_pop :: u32
  h_path_push :: u32

definition APP_PATH_MAX :: int where "APP_PATH_MAX = 64"
definition APP_CLIP_NAME_MAX :: int where "APP_CLIP_NAME_MAX = 64"
definition TASK_NAME_MAX :: int where "TASK_NAME_MAX = 24"

definition task_at :: "nat \<Rightarrow> 'a app_state_scheme \<Rightarrow> shell_app_task" where
  "task_at pid s = g_app_tasks s ! pid"

definition upd_task :: "nat \<Rightarrow> (shell_app_task \<Rightarrow> shell_app_task) \<Rightarrow> 'a app_state_scheme \<Rightarrow> 'a app_state_scheme" where
  "upd_task pid f s = s\<lparr>g_app_tasks := (g_app_tasks s)[pid := f (g_app_tasks s ! pid)]\<rparr>"

definition APP_PIDS :: "nat list" where
  "APP_PIDS = [3..<8]"

section \<open>Small helpers\<close>

definition shell_apps_enter_critical :: "'a machine_scheme \<Rightarrow> u32 \<times> 'a machine_scheme" where
  "shell_apps_enter_critical s = (m_eflags s, cli s)"

definition shell_apps_leave_critical :: "u32 \<Rightarrow> 'a machine_scheme \<Rightarrow> 'a machine_scheme" where
  "shell_apps_leave_critical flags s = (if flags AND EFLAGS_IF \<noteq> 0 then sti s else s)"

definition shell_apps_ensure_interrupts_enabled :: "'a machine_scheme \<Rightarrow> 'a machine_scheme" where
  "shell_apps_ensure_interrupts_enabled s = (if m_eflags s AND EFLAGS_IF = 0 then sti s else s)"

text \<open>The text copied and whether it was copied whole.\<close>

definition shell_apps_copy_string :: "cstr \<Rightarrow> int \<Rightarrow> bool \<times> cstr" where
  "shell_apps_copy_string input out_size =
     (if out_size \<le> 0 then (False, [])
      else (int (length input) \<le> out_size - 1, take (nat (out_size - 1)) input))"

definition shell_apps_set_task_label :: "int \<Rightarrow> cstr \<Rightarrow> cstr \<Rightarrow> cstr" where
  "shell_apps_set_task_label dst_size label fallback =
     (case shell_apps_copy_string (if label \<noteq> [] then label else fallback) dst_size of
        (True, t) \<Rightarrow> t
      | (False, _) \<Rightarrow> snd (shell_apps_copy_string fallback dst_size))"

definition shell_apps_host_valid :: "shell_app_host \<Rightarrow> bool" where
  "shell_apps_host_valid host \<longleftrightarrow> h_current_path_size host > 0 \<and> h_app_clip_name_size host > 0
     \<and> h_out_both host \<noteq> 0 \<and> h_str_to_upper host \<noteq> 0 \<and> h_path_reset host \<noteq> 0
     \<and> h_path_pop host \<noteq> 0 \<and> h_path_push host \<noteq> 0"

definition shell_apps_task_valid :: "shell_app_task \<Rightarrow> bool" where
  "shell_apps_task_valid task \<longleftrightarrow> t_str_to_upper task \<noteq> 0 \<and> t_path_reset task \<noteq> 0
     \<and> t_path_pop task \<noteq> 0 \<and> t_path_push task \<noteq> 0"

definition shell_apps_find_task :: "int \<Rightarrow> 'a app_state_scheme \<Rightarrow> nat option" where
  "shell_apps_find_task pid s =
     (if pid < 0 \<or> pid \<ge> int SCHEDULER_MAX_PROCESSES then None
      else if \<not> in_use (task_at (nat pid) s) then None else Some (nat pid))"

definition shell_apps_active_task :: "'a app_state_scheme \<Rightarrow> nat option" where
  "shell_apps_active_task s = shell_apps_find_task (scheduler_get_current_pid s) s"

definition shell_apps_group_leader_pid :: "shell_app_task \<Rightarrow> int" where
  "shell_apps_group_leader_pid task =
     (if leader_pid task \<ge> APP_SLOT_FIRST_PID then leader_pid task else t_pid task)"

definition shell_apps_log_task_marker :: "cstr \<Rightarrow> shell_app_task \<Rightarrow> 'a log_state_scheme \<Rightarrow> 'a log_state_scheme" where
  "shell_apps_log_task_marker marker task s =
     (let s = log_serial_raw marker s;
          s = log_serial_raw (ascii '' pid='') s;
          s = log_print_hex (of_int (t_pid task)) s;
          s = log_serial_raw (ascii '' leader='') s;
          s = log_print_hex (of_int (shell_apps_group_leader_pid task)) s;
          s = log_serial_raw (ascii '' entry='') s;
          s = log_print_hex (entry_virtual task) s;
          s = log_serial_raw (ascii '' base='') s;
          s = log_print_hex (app_phys_base task) s;
          s = log_serial_raw (ascii '' bytes='') s;
          s = log_print_hex (app_slot_bytes task) s
      in log_serial_raw [newline] s)"

section \<open>The arena\<close>

definition set_pages :: "nat \<Rightarrow> nat \<Rightarrow> bool \<Rightarrow> bool list \<Rightarrow> bool list" where
  "set_pages first n v used = map (\<lambda>k. if first \<le> k \<and> k < first + n then v else used ! k) [0..<length used]"

definition shell_apps_release_phys_range :: "u32 \<Rightarrow> u32 \<Rightarrow> 'a app_state_scheme \<Rightarrow> 'a app_state_scheme" where
  "shell_apps_release_phys_range phys_base slot_bytes s =
     (if phys_base < APP_ARENA_PHYS_BASE \<or> phys_base \<ge> APP_ARENA_PHYS_BASE + APP_ARENA_SIZE \<or> slot_bytes = 0 then s
      else let slot_bytes = shell_apps_align_up slot_bytes APP_PAGE_SIZE in
      if slot_bytes = 0 \<or> phys_base AND (APP_PAGE_SIZE - 1) \<noteq> 0 then s
      else let first_page = (phys_base - APP_ARENA_PHYS_BASE) div APP_PAGE_SIZE;
               page_count = slot_bytes div APP_PAGE_SIZE in
      if first_page \<ge> APP_ARENA_PAGE_COUNT \<or> page_count > APP_ARENA_PAGE_COUNT - first_page then s
      else let (flags, s) = shell_apps_enter_critical s;
               s = s\<lparr>g_app_phys_page_used := set_pages (unat first_page) (unat page_count) False (g_app_phys_page_used s)\<rparr>
           in shell_apps_leave_critical flags s)"

text \<open>The search for a run of free pages skips past the used page that ends a run that is too short.\<close>

function find_run :: "bool list \<Rightarrow> nat \<Rightarrow> nat \<Rightarrow> nat option" where
  "find_run used n start =
     (if start + n \<le> length used then
        (case find (\<lambda>i. used ! (start + i)) [0..<n] of
           Some i \<Rightarrow> find_run used n (start + i + 1)
         | None \<Rightarrow> Some start)
      else None)"
  by auto
termination by (relation "measure (\<lambda>(used, n, start). length used - start)") (auto simp: find_Some_iff)

declare find_run.simps [simp del]

definition arena_take :: "nat \<Rightarrow> 'a app_state_scheme \<Rightarrow> u32 \<times> 'a app_state_scheme" where
  "arena_take n s =
     (let (flags, s) = shell_apps_enter_critical s in
      case find_run (g_app_phys_page_used s) n 0 of
        None \<Rightarrow> (0, shell_apps_leave_critical flags s)
      | Some start \<Rightarrow>
          (APP_ARENA_PHYS_BASE + of_nat start * APP_PAGE_SIZE,
           shell_apps_leave_critical flags
             (s\<lparr>g_app_phys_page_used := set_pages start n True (g_app_phys_page_used s)\<rparr>)))"

section \<open>Releasing tasks\<close>

definition zero_task :: shell_app_task where
  "zero_task = \<lparr>in_use = False, t_pid = 0, leader_pid = 0, t_drive = 0, t_fat16_initialized = False,
     app_clip_mode = 0, background = False, serial_only = False, join_on_exit = False, input_ready_logged = False,
     t_current_dir_cluster = 0, app_clip_src_cluster = 0, app_phys_base = 0, app_slot_bytes = 0, entry_virtual = 0,
     thread_arg = 0, owns_app_memory = False, t_current_path = [], app_clip_name = [], task_name = [], origin_name = [],
     t_out_both = 0, t_str_to_upper = 0, t_path_reset = 0, t_path_pop = 0, t_path_push = 0\<rparr>"

text \<open>Zeroing a task structure also zeroes its two page tables, which follow each other in memory.\<close>

definition zero_task_mem :: "nat \<Rightarrow> 'a app_state_scheme \<Rightarrow> 'a app_state_scheme" where
  "zero_task_mem pid s =
     upd_task pid (\<lambda>_. zero_task) (s\<lparr>m_mem := store_range (task_page_directory pid) 2048 (\<lambda>_. 0) (m_mem s)\<rparr>)"

definition shell_apps_release_task :: "nat \<Rightarrow> 'a app_state_scheme \<Rightarrow> 'a app_state_scheme" where
  "shell_apps_release_task pid s =
     (let task = task_at pid s;
          s = zero_task_mem pid s
      in if owns_app_memory task then shell_apps_release_phys_range (app_phys_base task) (app_slot_bytes task) s else s)"

definition reap_one :: "nat \<Rightarrow> 'a app_state_scheme \<Rightarrow> 'a app_state_scheme" where
  "reap_one pid s =
     (let task = task_at pid s in
      if \<not> in_use task then s
      else let state = scheduler_get_process_state (int pid) s in
      if state = PROCESS_UNUSED \<or> state = PROCESS_TERMINATED
      then if join_on_exit task then s else shell_apps_release_task pid s
      else s)"

definition shell_apps_reap_terminated_tasks :: "'a app_state_scheme \<Rightarrow> 'a app_state_scheme" where
  "shell_apps_reap_terminated_tasks s = fold reap_one APP_PIDS s"

definition shell_apps_find_free_pid :: "'a app_state_scheme \<Rightarrow> nat option \<times> 'a app_state_scheme" where
  "shell_apps_find_free_pid s =
     (let s = shell_apps_reap_terminated_tasks s in (find (\<lambda>pid. \<not> in_use (task_at pid s)) APP_PIDS, s))"

definition shell_apps_allocate_phys_base :: "u32 \<Rightarrow> 'a app_state_scheme \<Rightarrow> u32 \<times> 'a app_state_scheme" where
  "shell_apps_allocate_phys_base slot_bytes s =
     (let s = shell_apps_reap_terminated_tasks s;
          slot_bytes = shell_apps_align_up slot_bytes APP_PAGE_SIZE in
      if slot_bytes = 0 \<or> slot_bytes > APP_ARENA_SIZE then (0, s)
      else let page_count = slot_bytes div APP_PAGE_SIZE in
      if page_count = 0 \<or> page_count > APP_ARENA_PAGE_COUNT then (0, s)
      else arena_take (unat page_count) s)"

section \<open>Creating tasks\<close>

text \<open>\<open>drive\<close> is the value of \<^verbatim>\<open>drive_get_current()\<close>.\<close>

definition shell_apps_copy_host_state ::
    "nat \<Rightarrow> shell_app_host \<Rightarrow> int \<Rightarrow> bool \<Rightarrow> bool \<Rightarrow> 'a app_state_scheme \<Rightarrow> 'a app_state_scheme" where
  "shell_apps_copy_host_state pid host drive bg serial s =
     (let s = zero_task_mem pid s;
          cur_pid = scheduler_get_current_pid s
      in upd_task pid (\<lambda>task. task\<lparr>in_use := True, t_pid := cur_pid, leader_pid := cur_pid, t_drive := drive,
           t_fat16_initialized := h_fat16_initialized host, app_clip_mode := h_app_clip_mode host,
           background := bg, serial_only := serial, t_current_dir_cluster := h_current_dir_cluster host,
           app_clip_src_cluster := h_app_clip_src_cluster host, t_out_both := h_out_both host,
           t_str_to_upper := h_str_to_upper host, t_path_reset := h_path_reset host,
           t_path_pop := h_path_pop host, t_path_push := h_path_push host,
           t_current_path := snd (shell_apps_copy_string (h_current_path host) APP_PATH_MAX),
           app_clip_name := snd (shell_apps_copy_string (h_app_clip_name host) APP_CLIP_NAME_MAX)\<rparr>) s)"

definition shell_apps_sync_host_state :: "shell_app_task \<Rightarrow> shell_app_host \<Rightarrow> shell_app_host" where
  "shell_apps_sync_host_state task host =
     host\<lparr>h_fat16_initialized := t_fat16_initialized task, h_app_clip_src_cluster := app_clip_src_cluster task,
       h_app_clip_mode := app_clip_mode task,
       h_app_clip_name := snd (shell_apps_copy_string (app_clip_name task) (h_app_clip_name_size host))\<rparr>"

definition shell_apps_prepare_app_task ::
    "'l app_link_scheme \<Rightarrow> nat \<Rightarrow> shell_app_host \<Rightarrow> int \<Rightarrow> u32 \<Rightarrow> u32 \<Rightarrow> bool \<Rightarrow> bool \<Rightarrow> bool
     \<Rightarrow> 'a app_state_scheme \<Rightarrow> bool \<times> 'a app_state_scheme" where
  "shell_apps_prepare_app_task L pid host drive phys_base slot_bytes bg serial join s =
     (if int pid < APP_SLOT_FIRST_PID \<or> pid \<ge> SCHEDULER_MAX_PROCESSES \<or> phys_base = 0 \<or> slot_bytes = 0
         \<or> slot_bytes > APP_SLOT_MAX_SIZE then (False, s)
      else let slot_bytes = shell_apps_align_up slot_bytes APP_PAGE_SIZE in
      if slot_bytes = 0 \<or> slot_bytes > APP_SLOT_MAX_SIZE then (False, s)
      else let s = log_serial_raw (ascii ''APPBG051'' @ [newline]) s;
               s = shell_apps_copy_host_state pid host drive bg serial s;
               s = log_serial_raw (ascii ''APPBG052'' @ [newline]) s;
               s = upd_task pid (\<lambda>task. task\<lparr>t_pid := int pid, leader_pid := int pid, app_phys_base := phys_base,
                     app_slot_bytes := slot_bytes, owns_app_memory := True, join_on_exit := join\<rparr>) s;
               s = s\<lparr>m_mem := shell_apps_mem_zero phys_base slot_bytes (m_mem s)\<rparr>
      in case paging_build_app_directory L (task_page_directory pid) (task_user_pt pid) phys_base
                APP_LOAD_VIRT_BASE slot_bytes s of
           (False, s) \<Rightarrow> (False, s)
         | (True, s) \<Rightarrow> (True, log_serial_raw (ascii ''APPBG053'' @ [newline]) s))"

text \<open>A thread of an application starts as a copy of the structure of its parent, page tables included.
  \<open>[]\<close> stands for a missing name.\<close>

definition shell_apps_clone_background_task ::
    "'l app_link_scheme \<Rightarrow> nat \<Rightarrow> nat \<Rightarrow> nat \<Rightarrow> u32 \<Rightarrow> u32 \<Rightarrow> cstr \<Rightarrow> 'a app_state_scheme \<Rightarrow> bool \<times> 'a app_state_scheme" where
  "shell_apps_clone_background_task L dst src pid entry arg name s =
     (let s = upd_task dst (\<lambda>_. task_at src s)
            (s\<lparr>m_mem := store_range (task_page_directory dst) 2048 (\<lambda>i. m_mem s (task_page_directory src + 4 * i)) (m_mem s)\<rparr>);
          s = upd_task dst (\<lambda>task. task\<lparr>in_use := True, t_pid := int pid,
                leader_pid := shell_apps_group_leader_pid (task_at src s), entry_virtual := entry, thread_arg := arg,
                owns_app_memory := False, join_on_exit := False, input_ready_logged := False,
                task_name := shell_apps_set_task_label TASK_NAME_MAX name (ascii ''thread'')\<rparr>) s
      in paging_build_app_directory L (task_page_directory dst) (task_user_pt dst) (app_phys_base (task_at dst s))
           APP_LOAD_VIRT_BASE (app_slot_bytes (task_at dst s)) s)"

section \<open>Entering user mode\<close>

definition g_app_syscall_stub :: "u8 list" where
  "g_app_syscall_stub = [0x53, 0x8B, 0x44, 0x24, 0x08, 0x8B, 0x5C, 0x24, 0x0C, 0x8B, 0x4C, 0x24, 0x10,
     0x8B, 0x54, 0x24, 0x14, 0xCD, 0x80, 0x5B, 0xC3]"

definition g_app_exit_stub :: "u8 list" where
  "g_app_exit_stub = [0x89, 0xC3, 0xB8, 32, 0x00, 0x00, 0x00, 0xCD, 0x80, 0xEB, 0xFE]"

definition g_app_thread_stub :: "u8 list" where
  "g_app_thread_stub = [0x8B, 0x44, 0x24, 0x04, 0x8B, 0x4C, 0x24, 0x08, 0x8B, 0x54, 0x24, 0x0C, 0x52, 0x51,
     0xFF, 0xD0, 0x83, 0xC4, 0x08, 0xC3]"

definition copy_stub :: "u32 \<Rightarrow> u8 list \<Rightarrow> (nat \<Rightarrow> u32) \<Rightarrow> nat \<Rightarrow> u32" where
  "copy_stub a bs mem = shell_apps_mem_copy a (\<lambda>k. bs ! k) (of_nat (length bs)) mem"

definition shell_apps_prepare_runtime_block :: "shell_app_task \<Rightarrow> 'a machine_scheme \<Rightarrow> bool \<times> 'a machine_scheme" where
  "shell_apps_prepare_runtime_block task s =
     (let runtime_block = shell_apps_runtime_block_virt task in
      if runtime_block = 0 then (False, s)
      else let base_phys = shell_apps_phys_addr_for_virtual task runtime_block in
      if base_phys = 0 then (False, s)
      else let mem = (m_mem s)(unat base_phys := shell_apps_syscall_stub_virt task);
               mem = copy_stub (base_phys + APP_SYSCALL_STUB_OFFSET) g_app_syscall_stub mem;
               mem = copy_stub (base_phys + APP_EXIT_STUB_OFFSET) g_app_exit_stub mem;
               mem = copy_stub (base_phys + APP_THREAD_STUB_OFFSET) g_app_thread_stub mem
           in (True, s\<lparr>m_mem := mem\<rparr>))"

text \<open>Entry point and stack pointer of the task in user mode.\<close>

definition shell_apps_prepare_user_launch :: "shell_app_task \<Rightarrow> 'a machine_scheme \<Rightarrow> (u32 \<times> u32) option \<times> 'a machine_scheme" where
  "shell_apps_prepare_user_launch task s =
     (case shell_apps_prepare_runtime_block task s of
        (False, s) \<Rightarrow> (None, s)
      | (True, s) \<Rightarrow>
        (let runtime_block = shell_apps_runtime_block_virt task;
             exit_stub = shell_apps_exit_stub_virt task;
             thread_stub = shell_apps_thread_stub_virt task in
         if runtime_block = 0 \<or> exit_stub = 0 \<or> thread_stub = 0 then (None, s)
         else let stack_top = shell_apps_user_stack_top_for_pid task (t_pid task);
                  stack_base_phys = shell_apps_phys_addr_for_virtual task (stack_top - APP_THREAD_STACK_BYTES) in
         if stack_top = 0 \<or> stack_base_phys = 0 then (None, s)
         else let mem = shell_apps_mem_zero stack_base_phys APP_THREAD_STACK_BYTES (m_mem s);
                  top_phys = shell_apps_phys_addr_for_virtual task stack_top in
         if t_pid task = shell_apps_group_leader_pid task
         then let words = unat (top_phys - 8)
              in (Some (entry_virtual task, stack_top - 8),
                  s\<lparr>m_mem := mem(words := exit_stub, words + 4 := runtime_block)\<rparr>)
         else let words = unat (top_phys - 16)
              in (Some (thread_stub, stack_top - 16),
                  s\<lparr>m_mem := mem(words := exit_stub, words + 4 := entry_virtual task, words + 8 := runtime_block,
                                 words + 12 := thread_arg task)\<rparr>)))"

section \<open>Groups\<close>

definition release_member :: "'l app_link_scheme \<Rightarrow> int \<Rightarrow> int \<Rightarrow> bool \<Rightarrow> nat \<Rightarrow> 'a app_state_scheme \<Rightarrow> 'a app_state_scheme" where
  "release_member L leader skip_pid terminate_first pid s =
     (let task = task_at pid s in
      if \<not> in_use task \<or> shell_apps_group_leader_pid task \<noteq> leader \<or> t_pid task = skip_pid then s
      else if terminate_first then snd (scheduler_terminate_process L (t_pid task) s)
      else shell_apps_release_task pid s)"

definition shell_apps_release_group_members ::
    "'l app_link_scheme \<Rightarrow> int \<Rightarrow> int \<Rightarrow> bool \<Rightarrow> 'a app_state_scheme \<Rightarrow> 'a app_state_scheme" where
  "shell_apps_release_group_members L leader skip_pid terminate_first s =
     fold (release_member L leader skip_pid terminate_first) APP_PIDS s"

definition shell_apps_stop_background :: "'l app_link_scheme \<Rightarrow> int \<Rightarrow> 'a app_state_scheme \<Rightarrow> bool \<times> 'a app_state_scheme" where
  "shell_apps_stop_background L pid s =
     (let s = shell_apps_reap_terminated_tasks s in
      case shell_apps_find_task pid s of
        None \<Rightarrow> (False, s)
      | Some idx \<Rightarrow>
          let leader = shell_apps_group_leader_pid (task_at idx s) in
          if leader < APP_SLOT_FIRST_PID then (False, s)
          else scheduler_terminate_process L leader (shell_apps_release_group_members L leader leader True s))"

end
