(* ===== verification/App_Arena.thy ===== *)
theory App_Arena
  imports App_Tasks
begin

text \<open>
  The arena of application memory: the search of \<^verbatim>\<open>shell_apps_allocate_phys_base\<close> is first fit, pages are
  taken and given back exactly, and the critical sections restore the interrupt flag.
\<close>

unbundle bit_operations_syntax

section \<open>First fit\<close>

definition free_run :: "bool list \<Rightarrow> nat \<Rightarrow> nat \<Rightarrow> bool" where
  "free_run used n k \<longleftrightarrow> k + n \<le> length used \<and> (\<forall>i<n. \<not> used ! (k + i))"

lemma find_run_spec:
  assumes "0 < n"
  shows "case find_run used n start of
      Some k \<Rightarrow> start \<le> k \<and> free_run used n k \<and> (\<forall>j. start \<le> j \<and> j < k \<longrightarrow> \<not> free_run used n j)
    | None \<Rightarrow> (\<forall>j\<ge>start. \<not> free_run used n j)"
  using assms
proof (induction used n start rule: find_run.induct)
  case (1 used n start)
  show ?case
  proof (cases "start + n \<le> length used")
    case fits: True
    show ?thesis
    proof (cases "find (\<lambda>i. used ! (start + i)) [0..<n]")
      case None
      then have "free_run used n start" using fits by (auto simp: free_run_def find_None_iff)
      then show ?thesis using fits None by (auto simp: find_run.simps [of used n start])
    next
      case (Some i)
      then have i: "i < n" "used ! (start + i)" by (auto simp: find_Some_iff)
      have skip: "\<not> free_run used n j" if "start \<le> j" "j < start + i + 1" for j
      proof
        assume "free_run used n j"
        moreover have "start + i - j < n" using that i(1) by linarith
        ultimately have "\<not> used ! (j + (start + i - j))" by (simp add: free_run_def)
        then show False using i(2) that by simp
      qed
      have eq: "find_run used n start = find_run used n (start + i + 1)"
        using fits Some by (simp add: find_run.simps [of used n start])
      show ?thesis
      proof (cases "find_run used n (start + i + 1)")
        case None
        then have "\<not> free_run used n j" if "start \<le> j" for j
          using 1(1) [OF fits Some 1(2)] skip that by (cases "j < start + i + 1") auto
        then show ?thesis using None eq by simp
      next
        case (Some k)
        then have k: "start + i + 1 \<le> k" "free_run used n k" "\<And>j. start + i + 1 \<le> j \<Longrightarrow> j < k \<Longrightarrow> \<not> free_run used n j"
          using 1(1) [OF fits \<open>find _ _ = Some i\<close> 1(2)] by auto
        have "\<not> free_run used n j" if "start \<le> j" "j < k" for j
          using k(3) skip that by (cases "j < start + i + 1") auto
        then show ?thesis using k(1,2) Some eq by simp
      qed
    qed
  next
    case False
    then have "\<not> free_run used n j" if "start \<le> j" for j using that by (simp add: free_run_def)
    then show ?thesis using False by (simp add: find_run.simps [of used n start])
  qed
qed

lemma find_run_SomeD:
  assumes "find_run used n 0 = Some k" "0 < n"
  shows "free_run used n k" "j < k \<Longrightarrow> \<not> free_run used n j"
  using find_run_spec [OF assms(2), where used = used and start = 0] assms(1) by auto

lemma find_run_None: "0 < n \<Longrightarrow> find_run used n 0 = None \<longleftrightarrow> (\<forall>k. \<not> free_run used n k)"
  using find_run_spec [where n = n and used = used and start = 0] by (auto split: option.splits)

section \<open>Pages\<close>

lemma length_set_pages [simp]: "length (set_pages a n v used) = length used"
  by (simp add: set_pages_def)

lemma nth_set_pages: "k < length used \<Longrightarrow> set_pages a n v used ! k = (if a \<le> k \<and> k < a + n then v else used ! k)"
  by (simp add: set_pages_def)

text \<open>The flags after a critical section are those before it.\<close>

lemma critical_flags:
  "shell_apps_leave_critical (m_eflags s) (cli s) = s"
proof (cases "irqs_on s")
  case True
  then have "m_eflags (sti (cli s)) = m_eflags s" by (rule cli_sti_restores)
  then have "sti (cli s) = s" by (simp add: sti_def cli_def)
  then show ?thesis using True by (simp add: shell_apps_leave_critical_def irqs_on_def)
next
  case False
  then have "m_eflags (cli s) = m_eflags s" by (rule cli_idle)
  then have "cli s = s" by (simp add: cli_def)
  then show ?thesis using False by (simp add: shell_apps_leave_critical_def irqs_on_def)
qed

lemma critical_update:
  "shell_apps_leave_critical (m_eflags s) ((cli s)\<lparr>g_app_phys_page_used := u\<rparr>) = s\<lparr>g_app_phys_page_used := u\<rparr>"
proof -
  have "(cli s)\<lparr>g_app_phys_page_used := u\<rparr> = cli (s\<lparr>g_app_phys_page_used := u\<rparr>)" by (simp add: cli_def)
  then show ?thesis using critical_flags [of "s\<lparr>g_app_phys_page_used := u\<rparr>"] by simp
qed

lemma cli_pages [simp]: "g_app_phys_page_used (cli s) = g_app_phys_page_used s"
  by (simp add: cli_def)

lemma arena_take_eq:
  "arena_take n s = (case find_run (g_app_phys_page_used s) n 0 of
     None \<Rightarrow> (0, s)
   | Some k \<Rightarrow> (APP_ARENA_PHYS_BASE + of_nat k * APP_PAGE_SIZE,
       s\<lparr>g_app_phys_page_used := set_pages k n True (g_app_phys_page_used s)\<rparr>))"
  by (auto simp: arena_take_def shell_apps_enter_critical_def critical_flags critical_update split: option.split)

text \<open>A range of physical memory that is a run of arena pages.\<close>

definition arena_range :: "u32 \<Rightarrow> u32 \<Rightarrow> nat \<Rightarrow> nat \<Rightarrow> bool" where
  "arena_range base bytes first n \<longleftrightarrow> unat base = 0x700000 + 4096 * first \<and> unat bytes = 4096 * n \<and> 0 < n \<and> first + n \<le> 1024"

lemma unat_arena_base: "k < 1024 \<Longrightarrow> unat (APP_ARENA_PHYS_BASE + of_nat k * APP_PAGE_SIZE) = 0x700000 + 4096 * k"
proof -
  assume k: "k < 1024"
  have "APP_ARENA_PHYS_BASE + of_nat k * APP_PAGE_SIZE = of_nat (0x700000 + 4096 * k)"
    by (simp add: app_consts mult.commute)
  then show ?thesis using k unat_of_nat32 [of "0x700000 + 4096 * k"] by simp
qed

lemma release_range:
  assumes r: "arena_range base bytes first n"
  shows "shell_apps_release_phys_range base bytes s =
    s\<lparr>g_app_phys_page_used := set_pages first n False (g_app_phys_page_used s)\<rparr>"
proof -
  have b: "unat base = 0x700000 + 4096 * first" "unat bytes = 4096 * n" "0 < n" "first + n \<le> 1024"
    using r by (simp_all add: arena_range_def)
  have end_a: "APP_ARENA_PHYS_BASE + APP_ARENA_SIZE = 0xB00000" by (simp add: app_consts)
  have c1: "\<not> (base < APP_ARENA_PHYS_BASE \<or> base \<ge> APP_ARENA_PHYS_BASE + APP_ARENA_SIZE \<or> bytes = 0)"
    unfolding end_a using b by (auto simp: word_less_nat_alt word_le_nat_alt APP_ARENA_PHYS_BASE_def unat_eq_zero [symmetric])
  have al: "shell_apps_align_up bytes APP_PAGE_SIZE = bytes"
    using align_up_aligned [of bytes] b(2) by (simp add: APP_PAGE_SIZE_def)
  have "base AND 0xFFF = 0" using b(1) unfolding aligned_word_iff page_aligned_def by simp
  then have c2: "\<not> (bytes = 0 \<or> base AND (APP_PAGE_SIZE - 1) \<noteq> 0)"
    using b by (auto simp: APP_PAGE_SIZE_def unat_eq_zero [symmetric])
  have d: "unat (base - APP_ARENA_PHYS_BASE) = 4096 * first"
    using b by (subst unat_sub) (simp_all add: word_le_nat_alt APP_ARENA_PHYS_BASE_def)
  have f: "unat ((base - APP_ARENA_PHYS_BASE) div APP_PAGE_SIZE) = first" "unat (bytes div APP_PAGE_SIZE) = n"
    by (simp_all add: unat_div d b APP_PAGE_SIZE_def)
  have pc: "unat APP_ARENA_PAGE_COUNT = 1024" by (simp add: app_consts unat_div)
  have c3: "\<not> ((base - APP_ARENA_PHYS_BASE) div APP_PAGE_SIZE \<ge> APP_ARENA_PAGE_COUNT
      \<or> bytes div APP_PAGE_SIZE > APP_ARENA_PAGE_COUNT - (base - APP_ARENA_PHYS_BASE) div APP_PAGE_SIZE)"
  proof -
    have "unat (APP_ARENA_PAGE_COUNT - (base - APP_ARENA_PHYS_BASE) div APP_PAGE_SIZE) = 1024 - first"
      using b f(1) pc by (subst unat_sub) (simp_all add: word_le_nat_alt)
    then show ?thesis using b f pc by (simp add: word_less_nat_alt word_le_nat_alt)
  qed
  show ?thesis
    unfolding shell_apps_release_phys_range_def Let_def if_not_P [OF c1] al if_not_P [OF c2] if_not_P [OF c3]
      shell_apps_enter_critical_def prod.case f by (simp add: critical_update)
qed

section \<open>Allocation\<close>

lemma allocate_eq:
  assumes bytes: "0 < unat bytes" "unat bytes \<le> 0x400000" "n = (unat bytes + 4095) div 4096"
  shows "shell_apps_allocate_phys_base bytes s = arena_take n (shell_apps_reap_terminated_tasks s)"
proof -
  let ?b = "shell_apps_align_up bytes APP_PAGE_SIZE"
  have n: "0 < n" "n \<le> 1024" using bytes page_round [of "unat bytes" 1024] by (linarith, simp)
  have b: "unat ?b = 4096 * n" using bytes by (simp add: align_up_page APP_PAGE_SIZE_def)
  then have d: "unat (?b div APP_PAGE_SIZE) = n" by (simp add: unat_div APP_PAGE_SIZE_def)
  have pc: "unat APP_ARENA_PAGE_COUNT = 1024" "unat APP_ARENA_SIZE = 0x400000" by (simp_all add: app_consts unat_div)
  have c: "\<not> (?b = 0 \<or> ?b > APP_ARENA_SIZE)" "\<not> (?b div APP_PAGE_SIZE = 0 \<or> ?b div APP_PAGE_SIZE > APP_ARENA_PAGE_COUNT)"
    using n b d pc by (auto simp: word_less_nat_alt unat_eq_zero [symmetric])
  show ?thesis unfolding shell_apps_allocate_phys_base_def Let_def if_not_P [OF c(1)] if_not_P [OF c(2)] d ..
qed

text \<open>
  Application memory is allocated first fit. After the terminated tasks have been reaped, a request of up to 4 MB takes the
  lowest run of free pages that is long enough and marks exactly those pages, and fails exactly when
  there is no such run. Skipping past a used page never misses a run, and the interrupt flag is restored.
\<close>

theorem arena_first_fit:
  assumes u: "g_app_phys_page_used (shell_apps_reap_terminated_tasks s) = u" "length u = 1024"
    and bytes: "0 < unat bytes" "unat bytes \<le> 0x400000" "n = (unat bytes + 4095) div 4096"
  shows "(\<exists>k. shell_apps_allocate_phys_base bytes s =
        (of_nat (0x700000 + 4096 * k), (shell_apps_reap_terminated_tasks s)\<lparr>g_app_phys_page_used := set_pages k n True u\<rparr>)
      \<and> free_run u n k \<and> (\<forall>j<k. \<not> free_run u n j))
    \<or> shell_apps_allocate_phys_base bytes s = (0, shell_apps_reap_terminated_tasks s) \<and> (\<forall>k. \<not> free_run u n k)"
proof -
  have n: "0 < n" using bytes by linarith
  note eq = allocate_eq [OF bytes, of s]
  show ?thesis
  proof (cases "find_run u n 0")
    case None
    then have "\<forall>k. \<not> free_run u n k" using find_run_None [OF n, of u] by blast
    then show ?thesis unfolding eq arena_take_eq u(1) None option.case by blast
  next
    case (Some k)
    have a: "APP_ARENA_PHYS_BASE + of_nat k * APP_PAGE_SIZE = of_nat (0x700000 + 4096 * k)"
      by (simp add: app_consts mult.commute)
    show ?thesis using find_run_SomeD [OF Some n] unfolding eq arena_take_eq u(1) Some option.case a by blast
  qed
qed

text \<open>An application table with no task and the first page of the arena in use.\<close>

definition demo_apps :: app_state where
  "demo_apps = sched_state.extend demo_sched
     \<lparr>g_app_tasks = replicate 8 zero_task, g_app_phys_page_used = True # replicate 1023 False, g_elf_buffer = [],
       app_rng_state = 0xA5F21C3D\<rparr>"

lemma demo_apps_fields:
  "g_app_tasks demo_apps = replicate 8 zero_task" "g_app_phys_page_used demo_apps = True # replicate 1023 False"
  by (simp_all add: demo_apps_def sched_state.defs)

lemma demo_apps_reap: "shell_apps_reap_terminated_tasks demo_apps = demo_apps"
proof -
  have "reap_one pid demo_apps = demo_apps" if "pid < 8" for pid
    using that by (simp add: reap_one_def task_at_def demo_apps_fields zero_task_def)
  then show ?thesis by (simp add: shell_apps_reap_terminated_tasks_def APP_PIDS_def upt_rec)
qed

theorem arena_first_fit_witness:
  "shell_apps_allocate_phys_base 0x1800 demo_apps =
     (0x701000, demo_apps\<lparr>g_app_phys_page_used := set_pages 1 2 True (g_app_phys_page_used demo_apps)\<rparr>)"
proof -
  let ?u = "True # replicate 1023 False"
  have f: "free_run ?u 2 1" "\<not> free_run ?u 2 0" by (auto simp: free_run_def less_Suc_eq numeral_2_eq_2)
  have k: "k = 1" if "free_run ?u 2 k" "\<forall>j<k. \<not> free_run ?u 2 j" for k
  proof -
    have "k \<noteq> 0" using that(1) f(2) by metis
    moreover have "\<not> 1 < k" using that(2) f(1) by blast
    ultimately show ?thesis by simp
  qed
  have u: "g_app_phys_page_used (shell_apps_reap_terminated_tasks demo_apps) = ?u"
    by (simp add: demo_apps_reap demo_apps_fields)
  have b: "0 < unat (0x1800 :: u32)" "unat (0x1800 :: u32) \<le> 0x400000" "2 = (unat (0x1800 :: u32) + 4095) div 4096" by simp_all
  have l: "length ?u = 1024" by simp
  have "\<not> (\<forall>k. \<not> free_run ?u 2 k)" using f(1) by blast
  then obtain k where "shell_apps_allocate_phys_base 0x1800 demo_apps = (of_nat (0x700000 + 4096 * k),
      demo_apps\<lparr>g_app_phys_page_used := set_pages k 2 True ?u\<rparr>)" "k = 1"
    using arena_first_fit [OF u l b] k unfolding demo_apps_reap by blast
  then show ?thesis by (simp add: demo_apps_fields)
qed

end
