(* ===== verification/Ps2.thy ===== *)
theory Ps2
  imports Serial Timer
begin

text \<open>
  The PS/2 controller primitives, \<^verbatim>\<open>src/kernel/input/ps2_controller.h\<close>, over the port primitives. The
  polling loops are bounded by the source (100000 polls, or the number of reads to drain), so every
  function here is total.

  The locale \<open>i8042\<close> states what the drivers rely on: the two status bits describe the head of the
  queue of received bytes, and reading the data port removes that byte.
\<close>

unbundle bit_operations_syntax

definition PS2_PORT_DATA :: u16 where "PS2_PORT_DATA = 0x60"
definition PS2_PORT_STATUS :: u16 where "PS2_PORT_STATUS = 0x64"
definition PS2_STATUS_OUTPUT_FULL :: u8 where "PS2_STATUS_OUTPUT_FULL = 0x01"
definition PS2_STATUS_INPUT_FULL :: u8 where "PS2_STATUS_INPUT_FULL = 0x02"
definition PS2_STATUS_AUX_DATA :: u8 where "PS2_STATUS_AUX_DATA = 0x20"
definition PS2_CMD_READ_COMMAND_BYTE :: u8 where "PS2_CMD_READ_COMMAND_BYTE = 0x20"
definition PS2_CMD_WRITE_COMMAND_BYTE :: u8 where "PS2_CMD_WRITE_COMMAND_BYTE = 0x60"
definition PS2_CMD_ENABLE_AUX_PORT :: u8 where "PS2_CMD_ENABLE_AUX_PORT = 0xA8"
definition PS2_CMD_WRITE_AUX_DATA :: u8 where "PS2_CMD_WRITE_AUX_DATA = 0xD4"

lemmas ps2_consts = PS2_PORT_DATA_def PS2_PORT_STATUS_def PS2_STATUS_OUTPUT_FULL_def PS2_STATUS_INPUT_FULL_def
  PS2_STATUS_AUX_DATA_def PS2_CMD_READ_COMMAND_BYTE_def PS2_CMD_WRITE_COMMAND_BYTE_def PS2_CMD_ENABLE_AUX_PORT_def
  PS2_CMD_WRITE_AUX_DATA_def

text \<open>The kernel state as far as the input drivers see it; \<open>ps2_hw\<close> is the controller.\<close>

record 'h ps2_state = timer_state +
  ps2_hw :: 'h

definition ps2_inb :: "'h port_io \<Rightarrow> u16 \<Rightarrow> ('h, 'a) ps2_state_scheme \<Rightarrow> u8 \<times> ('h, 'a) ps2_state_scheme" where
  "ps2_inb io port s = (let (v, h) = pio_inb io port (ps2_hw s) in (v, s\<lparr>ps2_hw := h\<rparr>))"

definition ps2_outb :: "'h port_io \<Rightarrow> u16 \<Rightarrow> u8 \<Rightarrow> ('h, 'a) ps2_state_scheme \<Rightarrow> ('h, 'a) ps2_state_scheme" where
  "ps2_outb io port v s = s\<lparr>ps2_hw := pio_outb io port v (ps2_hw s)\<rparr>"

definition ps2_read_status :: "'h port_io \<Rightarrow> ('h, 'a) ps2_state_scheme \<Rightarrow> u8 \<times> ('h, 'a) ps2_state_scheme" where
  "ps2_read_status io s = ps2_inb io PS2_PORT_STATUS s"

fun wait_input_loop :: "'h port_io \<Rightarrow> nat \<Rightarrow> ('h, 'a) ps2_state_scheme \<Rightarrow> bool \<times> ('h, 'a) ps2_state_scheme" where
  "wait_input_loop io 0 s = (False, s)"
| "wait_input_loop io (Suc n) s =
     (let (v, s) = ps2_read_status io s in
      if v AND PS2_STATUS_INPUT_FULL = 0 then (True, s) else wait_input_loop io n s)"

definition ps2_wait_input_empty :: "'h port_io \<Rightarrow> ('h, 'a) ps2_state_scheme \<Rightarrow> bool \<times> ('h, 'a) ps2_state_scheme" where
  "ps2_wait_input_empty io s = wait_input_loop io 100000 s"

fun wait_output_loop :: "'h port_io \<Rightarrow> nat \<Rightarrow> ('h, 'a) ps2_state_scheme \<Rightarrow> bool \<times> ('h, 'a) ps2_state_scheme" where
  "wait_output_loop io 0 s = (False, s)"
| "wait_output_loop io (Suc n) s =
     (let (v, s) = ps2_read_status io s in
      if v AND PS2_STATUS_OUTPUT_FULL \<noteq> 0 then (True, s) else wait_output_loop io n s)"

definition ps2_wait_output_full :: "'h port_io \<Rightarrow> ('h, 'a) ps2_state_scheme \<Rightarrow> bool \<times> ('h, 'a) ps2_state_scheme" where
  "ps2_wait_output_full io s = wait_output_loop io 100000 s"

fun ps2_drain_output :: "'h port_io \<Rightarrow> nat \<Rightarrow> ('h, 'a) ps2_state_scheme \<Rightarrow> ('h, 'a) ps2_state_scheme" where
  "ps2_drain_output io 0 s = s"
| "ps2_drain_output io (Suc max_reads) s =
     (let (v, s) = ps2_read_status io s in
      if v AND PS2_STATUS_OUTPUT_FULL = 0 then s
      else ps2_drain_output io max_reads (snd (ps2_inb io PS2_PORT_DATA s)))"

definition ps2_read_data :: "'h port_io \<Rightarrow> ('h, 'a) ps2_state_scheme \<Rightarrow> u8 option \<times> ('h, 'a) ps2_state_scheme" where
  "ps2_read_data io s =
     (let (ok, s) = ps2_wait_output_full io s in
      if \<not> ok then (None, s)
      else let (v, s) = ps2_inb io PS2_PORT_DATA s in (Some v, s))"

definition ps2_read_controller_command_byte ::
  "'h port_io \<Rightarrow> u8 \<Rightarrow> ('h, 'a) ps2_state_scheme \<Rightarrow> u8 \<times> ('h, 'a) ps2_state_scheme" where
  "ps2_read_controller_command_byte io fallback s =
     (let (ok, s) = ps2_wait_input_empty io s in
      if \<not> ok then (fallback, s)
      else let s = ps2_outb io PS2_PORT_STATUS PS2_CMD_READ_COMMAND_BYTE s;
               (ok, s) = ps2_wait_output_full io s in
      if \<not> ok then (fallback, s) else ps2_inb io PS2_PORT_DATA s)"

text \<open>The two writers: a command byte on the status port, then the value on the data port.\<close>

definition ps2_write_after ::
  "'h port_io \<Rightarrow> u8 \<Rightarrow> u8 \<Rightarrow> ('h, 'a) ps2_state_scheme \<Rightarrow> bool \<times> ('h, 'a) ps2_state_scheme" where
  "ps2_write_after io cmd v s =
     (let (ok, s) = ps2_wait_input_empty io s in
      if \<not> ok then (False, s)
      else let s = ps2_outb io PS2_PORT_STATUS cmd s;
               (ok, s) = ps2_wait_input_empty io s in
      if \<not> ok then (False, s) else (True, ps2_outb io PS2_PORT_DATA v s))"

definition ps2_write_controller_command_byte ::
  "'h port_io \<Rightarrow> u8 \<Rightarrow> ('h, 'a) ps2_state_scheme \<Rightarrow> bool \<times> ('h, 'a) ps2_state_scheme" where
  "ps2_write_controller_command_byte io v s = ps2_write_after io PS2_CMD_WRITE_COMMAND_BYTE v s"

definition ps2_write_aux_device ::
  "'h port_io \<Rightarrow> u8 \<Rightarrow> ('h, 'a) ps2_state_scheme \<Rightarrow> bool \<times> ('h, 'a) ps2_state_scheme" where
  "ps2_write_aux_device io v s = ps2_write_after io PS2_CMD_WRITE_AUX_DATA v s"

section \<open>What the drivers rely on\<close>

text \<open>The queue holds the received bytes with their origin: \<open>True\<close> for the auxiliary device.\<close>

locale i8042 =
  fixes io :: "'h port_io"
    and ps2_queue :: "'h \<Rightarrow> (bool \<times> u8) list"
  assumes status: "pio_inb io PS2_PORT_STATUS h = (v, h') \<Longrightarrow> ps2_queue h' = ps2_queue h
      \<and> (v AND PS2_STATUS_OUTPUT_FULL \<noteq> 0 \<longleftrightarrow> ps2_queue h \<noteq> [])
      \<and> (v AND PS2_STATUS_AUX_DATA \<noteq> 0 \<longleftrightarrow> ps2_queue h \<noteq> [] \<and> fst (hd (ps2_queue h)))"
    and data: "ps2_queue h = (aux, b) # q \<Longrightarrow> pio_inb io PS2_PORT_DATA h = (v, h') \<Longrightarrow> v = b \<and> ps2_queue h' = q"
begin

lemma read_status:
  assumes "ps2_read_status io s = (v, s')"
  shows "\<exists>h. s' = s\<lparr>ps2_hw := h\<rparr> \<and> ps2_queue h = ps2_queue (ps2_hw s)"
    "v AND PS2_STATUS_OUTPUT_FULL \<noteq> 0 \<longleftrightarrow> ps2_queue (ps2_hw s) \<noteq> []"
    "v AND PS2_STATUS_AUX_DATA \<noteq> 0 \<longleftrightarrow> ps2_queue (ps2_hw s) \<noteq> [] \<and> fst (hd (ps2_queue (ps2_hw s)))"
  using assms status by (auto simp: ps2_read_status_def ps2_inb_def split: prod.splits)

lemma read_data_port:
  assumes "ps2_queue (ps2_hw s) = (aux, b) # q"
  shows "\<exists>h. ps2_inb io PS2_PORT_DATA s = (b, s\<lparr>ps2_hw := h\<rparr>) \<and> ps2_queue h = q"
proof -
  obtain v h where e: "pio_inb io PS2_PORT_DATA (ps2_hw s) = (v, h)" by fastforce
  show ?thesis using data [OF assms e] by (intro exI [of _ h]) (simp add: ps2_inb_def e)
qed

text \<open>Draining removes at most the given number of bytes, from either device.\<close>

lemma drain:
  "\<exists>h. ps2_drain_output io n s = s\<lparr>ps2_hw := h\<rparr> \<and> ps2_queue h = drop n (ps2_queue (ps2_hw s))"
proof (induction n arbitrary: s)
  case 0
  show ?case by (intro exI [of _ "ps2_hw s"]) simp
next
  case (Suc n)
  obtain v s1 where s1: "ps2_read_status io s = (v, s1)" by fastforce
  obtain h1 where h1: "s1 = s\<lparr>ps2_hw := h1\<rparr>" "ps2_queue h1 = ps2_queue (ps2_hw s)" using read_status(1) [OF s1] by blast
  show ?case
  proof (cases "ps2_queue (ps2_hw s)")
    case Nil
    then show ?thesis using read_status(2) [OF s1] h1 by (auto simp: s1)
  next
    case (Cons p q)
    obtain h2 where h2: "ps2_inb io PS2_PORT_DATA s1 = (snd p, s1\<lparr>ps2_hw := h2\<rparr>)" "ps2_queue h2 = q"
      using read_data_port [of s1 "fst p" "snd p" q] h1 Cons by auto
    obtain h3 where "ps2_drain_output io n (s1\<lparr>ps2_hw := h2\<rparr>) = s1\<lparr>ps2_hw := h2, ps2_hw := h3\<rparr>" "ps2_queue h3 = drop n q"
      using Suc.IH [of "s1\<lparr>ps2_hw := h2\<rparr>"] h2(2) by auto
    then show ?thesis using read_status(2) [OF s1] Cons h1 h2 by (auto simp: s1)
  qed
qed

end

text \<open>A controller that is never busy, over a queue of bytes and a log of what is written.\<close>

record i8042_chip =
  chip_queue :: "(bool \<times> u8) list"
  chip_written :: "(u16 \<times> u8) list"

definition i8042_io :: "i8042_chip port_io" where
  "i8042_io = \<lparr>
     pio_inb = (\<lambda>port h.
       if port = PS2_PORT_STATUS
       then (case chip_queue h of [] \<Rightarrow> 0 | (aux, _) # _ \<Rightarrow> (if aux then 0x21 else 0x01), h)
       else if port = PS2_PORT_DATA then (case chip_queue h of [] \<Rightarrow> (0, h) | (_, b) # q \<Rightarrow> (b, h\<lparr>chip_queue := q\<rparr>))
       else (0xFF, h)),
     pio_outb = (\<lambda>port v h. h\<lparr>chip_written := chip_written h @ [(port, v)]\<rparr>)\<rparr>"

interpretation kbc: i8042 i8042_io chip_queue
  by unfold_locales (auto simp: i8042_io_def ps2_consts split: if_splits list.splits prod.splits)

end
