(* ===== verification/Keyboard.thy ===== *)
theory Keyboard
  imports Ps2
begin

text \<open>
  The keyboard driver, \<^verbatim>\<open>src/kernel/input/keyboard.c\<close>: the decoders of scan code sets 1 and 2 with
  their modifier state, the filter of duplicated make codes, the ring buffer of decoded characters,
  the interrupt handler, the polling fallback, and the blocking readers.

  A C \<^verbatim>\<open>char\<close> is its byte. The blocking readers wait for interrupts; which interrupt ends each wait
  is decided by the hardware and is a list here, as in the timer theory. A reader for which the list
  is too short has not returned yet and is \<open>None\<close>.
\<close>

unbundle bit_operations_syntax

section \<open>State\<close>

definition KEY_ALT_EVENT :: u8 where "KEY_ALT_EVENT = 0x14"
definition KEYBOARD_POLL_FALLBACK_IDLE_TICKS :: u32 where "KEYBOARD_POLL_FALLBACK_IDLE_TICKS = 2"
definition KEYBOARD_DUPLICATE_MAKE_TICKS :: u32 where "KEYBOARD_DUPLICATE_MAKE_TICKS = 2"
definition KEY_BUFFER_SIZE :: nat where "KEY_BUFFER_SIZE = 128"

record 'h kbd_state = "'h ps2_state" +
  shift_pressed :: bool
  ctrl_pressed :: bool
  alt_pressed :: bool
  caps_lock :: bool
  break_code :: bool
  extended_code :: bool
  scancode_set :: nat
  irq_mode :: bool
  last_irq_tick :: u32
  irq_seen :: bool
  last_make_scancode :: u8
  last_make_extended :: bool
  last_make_tick :: u32
  last_make_valid :: bool
  poll_fallback_reported :: bool
  key_buffer :: "u8 list"
  key_head :: nat
  key_tail :: nat

section \<open>Scan codes to characters\<close>

text \<open>The designated initialisers of the set 2 tables are pairs of index and value; every other entry is 0.\<close>

definition scancode_map_lower :: "u8 list" where
  "scancode_map_lower =
    [0, 27, 49, 50, 51, 52, 53, 54, 55, 56, 57, 48, 45, 61,
     8, 9, 113, 119, 101, 114, 116, 121, 117, 105, 111, 112, 91, 93,
     10, 0, 97, 115, 100, 102, 103, 104, 106, 107, 108, 59, 39, 96,
     0, 92, 122, 120, 99, 118, 98, 110, 109, 44, 46, 47, 0, 42,
     0, 32]"

definition scancode_map_upper :: "u8 list" where
  "scancode_map_upper =
    [0, 27, 33, 64, 35, 36, 37, 94, 38, 42, 40, 41, 95, 43,
     8, 9, 81, 87, 69, 82, 84, 89, 85, 73, 79, 80, 123, 125,
     10, 0, 65, 83, 68, 70, 71, 72, 74, 75, 76, 58, 34, 126,
     0, 124, 90, 88, 67, 86, 66, 78, 77, 60, 62, 63, 0, 42,
     0, 32]"

definition scancode_set2_map_lower :: "(u8 \<times> u8) list" where
  "scancode_set2_map_lower =
    [(0x0D, 9), (0x0E, 96), (0x15, 113), (0x16, 49), (0x1A, 122), (0x1B, 115), (0x1C, 97), (0x1D, 119),
     (0x1E, 50), (0x21, 99), (0x22, 120), (0x23, 100), (0x24, 101), (0x25, 52), (0x26, 51), (0x29, 32),
     (0x2A, 118), (0x2B, 102), (0x2C, 116), (0x2D, 114), (0x2E, 53), (0x31, 110), (0x32, 98), (0x33, 104),
     (0x34, 103), (0x35, 121), (0x36, 54), (0x3A, 109), (0x3B, 106), (0x3C, 117), (0x3D, 55), (0x3E, 56),
     (0x41, 44), (0x42, 107), (0x43, 105), (0x44, 111), (0x45, 48), (0x46, 57), (0x49, 46), (0x4A, 47),
     (0x4B, 108), (0x4C, 59), (0x4D, 112), (0x4E, 45), (0x52, 39), (0x54, 91), (0x55, 61), (0x5A, 10),
     (0x5B, 93), (0x5D, 92), (0x66, 8), (0x76, 27)]"

definition scancode_set2_map_upper :: "(u8 \<times> u8) list" where
  "scancode_set2_map_upper =
    [(0x0D, 9), (0x0E, 126), (0x15, 81), (0x16, 33), (0x1A, 90), (0x1B, 83), (0x1C, 65), (0x1D, 87),
     (0x1E, 64), (0x21, 67), (0x22, 88), (0x23, 68), (0x24, 69), (0x25, 36), (0x26, 35), (0x29, 32),
     (0x2A, 86), (0x2B, 70), (0x2C, 84), (0x2D, 82), (0x2E, 37), (0x31, 78), (0x32, 66), (0x33, 72),
     (0x34, 71), (0x35, 89), (0x36, 94), (0x3A, 77), (0x3B, 74), (0x3C, 85), (0x3D, 38), (0x3E, 42),
     (0x41, 60), (0x42, 75), (0x43, 73), (0x44, 79), (0x45, 41), (0x46, 40), (0x49, 62), (0x4A, 63),
     (0x4B, 76), (0x4C, 58), (0x4D, 80), (0x4E, 95), (0x52, 34), (0x54, 123), (0x55, 43), (0x5A, 10),
     (0x5B, 125), (0x5D, 124), (0x66, 8), (0x76, 27)]"

definition scancode_set1_to_char :: "u8 \<Rightarrow> bool \<Rightarrow> u8" where
  "scancode_set1_to_char scancode shift =
     (let m = (if shift then scancode_map_upper else scancode_map_lower) in
      if unat scancode < length scancode_map_lower then m ! unat scancode else 0)"

definition scancode_set2_to_char :: "u8 \<Rightarrow> bool \<Rightarrow> u8" where
  "scancode_set2_to_char scancode shift =
     (let m = (if shift then scancode_set2_map_upper else scancode_set2_map_lower) in
      if scancode < 128 then (case map_of m scancode of None \<Rightarrow> 0 | Some c \<Rightarrow> c) else 0)"

definition apply_caps :: "u8 \<Rightarrow> bool \<Rightarrow> bool \<Rightarrow> u8" where
  "apply_caps c shift caps =
     (if c \<ge> 97 \<and> c \<le> 122 then (if caps \<and> \<not> shift then c - 97 + 65 else c)
      else if c \<ge> 65 \<and> c \<le> 90 then (if caps \<and> shift then c - 65 + 97 else c)
      else c)"

definition to_lower_char :: "u8 \<Rightarrow> u8" where
  "to_lower_char c = (if c \<ge> 65 \<and> c \<le> 90 then c - 65 + 97 else c)"

text \<open>The block at the end of both decoders: an ALT combination of a letter sets bit 7.\<close>

definition key_char :: "u8 \<Rightarrow> ('h, 'a) kbd_state_scheme \<Rightarrow> u8" where
  "key_char c s =
     (let c = apply_caps c (shift_pressed s) (caps_lock s) in
      if c \<noteq> 0 \<and> alt_pressed s
      then let lower = to_lower_char c in if lower \<ge> 97 \<and> lower \<le> 122 then 0x80 OR lower else c
      else c)"

section \<open>Ring buffer\<close>

definition push_char :: "u8 \<Rightarrow> ('h, 'a) kbd_state_scheme \<Rightarrow> ('h, 'a) kbd_state_scheme" where
  "push_char c s =
     (let nxt = (key_head s + 1) mod KEY_BUFFER_SIZE in
      if nxt = key_tail s then s
      else s\<lparr>key_buffer := (key_buffer s)[key_head s := c], key_head := nxt\<rparr>)"

definition pop_char :: "('h, 'a) kbd_state_scheme \<Rightarrow> u8 option \<times> ('h, 'a) kbd_state_scheme" where
  "pop_char s =
     (if key_tail s = key_head s then (None, s)
      else (Some (key_buffer s ! key_tail s), s\<lparr>key_tail := (key_tail s + 1) mod KEY_BUFFER_SIZE\<rparr>))"

section \<open>Decoders\<close>

definition keyboard_allow_poll_fallback :: "('h, 'a) kbd_state_scheme \<Rightarrow> bool" where
  "keyboard_allow_poll_fallback s =
     (if \<not> irq_mode s then True
      else if \<not> irq_seen s then True
      else if \<not> timer_is_ready s then False
      else timer_get_ticks s - last_irq_tick s \<ge> KEYBOARD_POLL_FALLBACK_IDLE_TICKS)"

definition keyboard_is_duplicate_make ::
  "u8 \<Rightarrow> bool \<Rightarrow> bool \<Rightarrow> ('h, 'a) kbd_state_scheme \<Rightarrow> bool \<times> ('h, 'a) kbd_state_scheme" where
  "keyboard_is_duplicate_make scancode extended break_event s =
     (let same = last_make_valid s \<and> last_make_scancode s = scancode \<and> last_make_extended s = extended in
      if break_event then (False, if same then s\<lparr>last_make_valid := False\<rparr> else s)
      else if same \<and> timer_is_ready s \<and> timer_get_ticks s - last_make_tick s \<le> KEYBOARD_DUPLICATE_MAKE_TICKS
      then (True, s)
      else (False, s\<lparr>last_make_scancode := scancode, last_make_extended := extended, last_make_valid := True,
                     last_make_tick := (if timer_is_ready s then timer_get_ticks s else 0)\<rparr>))"

definition keyboard_process_scancode_set1 ::
  "u8 \<Rightarrow> ('h, 'a) kbd_state_scheme \<Rightarrow> u8 \<times> ('h, 'a) kbd_state_scheme" where
  "keyboard_process_scancode_set1 scancode s =
     (if scancode = 0xE0 then (0, s\<lparr>extended_code := True\<rparr>)
      else if extended_code s then
        (if scancode = 0x48 then (0x11, s\<lparr>extended_code := False\<rparr>)
         else if scancode = 0x50 then (0x12, s\<lparr>extended_code := False\<rparr>)
         else if scancode = 0x4B then (0x15, s\<lparr>extended_code := False\<rparr>)
         else if scancode = 0x4D then (0x16, s\<lparr>extended_code := False\<rparr>)
         else if scancode = 0x1D then (0, s\<lparr>ctrl_pressed := True, extended_code := False\<rparr>)
         else if scancode = 0x9D then (0, s\<lparr>ctrl_pressed := False, extended_code := False\<rparr>)
         else if scancode = 0x38 then (KEY_ALT_EVENT, s\<lparr>alt_pressed := True, extended_code := False\<rparr>)
         else if scancode = 0xB8 then (0, s\<lparr>alt_pressed := False, extended_code := False\<rparr>)
         else (0, s\<lparr>extended_code := False\<rparr>))
      else if scancode = 0x2A \<or> scancode = 0x36 then (0, s\<lparr>shift_pressed := True\<rparr>)
      else if scancode = 0xAA \<or> scancode = 0xB6 then (0, s\<lparr>shift_pressed := False\<rparr>)
      else if scancode = 0x1D then (0, s\<lparr>ctrl_pressed := True\<rparr>)
      else if scancode = 0x9D then (0, s\<lparr>ctrl_pressed := False\<rparr>)
      else if scancode = 0x38 then (KEY_ALT_EVENT, s\<lparr>alt_pressed := True\<rparr>)
      else if scancode = 0xB8 then (0, s\<lparr>alt_pressed := False\<rparr>)
      else if scancode = 0x3A then (0, s\<lparr>caps_lock := \<not> caps_lock s\<rparr>)
      else if scancode AND 0x80 \<noteq> 0 then (0, s)
      else (key_char (scancode_set1_to_char scancode (shift_pressed s)) s, s))"

definition keyboard_process_scancode_set2 ::
  "u8 \<Rightarrow> ('h, 'a) kbd_state_scheme \<Rightarrow> u8 \<times> ('h, 'a) kbd_state_scheme" where
  "keyboard_process_scancode_set2 scancode s =
     (if scancode = 0xE0 then (0, s\<lparr>extended_code := True\<rparr>)
      else if scancode = 0xF0 then (0, s\<lparr>break_code := True\<rparr>)
      else if extended_code s then
        (if scancode = 0x11 then
           (if break_code s then 0 else KEY_ALT_EVENT,
            s\<lparr>alt_pressed := \<not> break_code s, break_code := False, extended_code := False\<rparr>)
         else if scancode = 0x14 then
           (0, s\<lparr>ctrl_pressed := \<not> break_code s, break_code := False, extended_code := False\<rparr>)
         else if \<not> break_code s \<and> scancode = 0x75 then (0x11, s\<lparr>extended_code := False\<rparr>)
         else if \<not> break_code s \<and> scancode = 0x72 then (0x12, s\<lparr>extended_code := False\<rparr>)
         else if \<not> break_code s \<and> scancode = 0x6B then (0x15, s\<lparr>extended_code := False\<rparr>)
         else if \<not> break_code s \<and> scancode = 0x74 then (0x16, s\<lparr>extended_code := False\<rparr>)
         else if \<not> break_code s \<and> scancode = 0x5A then (10, s\<lparr>extended_code := False\<rparr>)
         else (0, s\<lparr>break_code := False, extended_code := False\<rparr>))
      else if scancode = 0x12 \<or> scancode = 0x59 then
        (0, s\<lparr>shift_pressed := \<not> break_code s, break_code := False\<rparr>)
      else if scancode = 0x14 then (0, s\<lparr>ctrl_pressed := \<not> break_code s, break_code := False\<rparr>)
      else if scancode = 0x11 then
        (if break_code s then 0 else KEY_ALT_EVENT, s\<lparr>alt_pressed := \<not> break_code s, break_code := False\<rparr>)
      else if scancode = 0x58 then
        (0, s\<lparr>caps_lock := (if break_code s then caps_lock s else \<not> caps_lock s), break_code := False\<rparr>)
      else if break_code s then (0, s\<lparr>break_code := False\<rparr>)
      else (key_char (scancode_set2_to_char scancode (shift_pressed s)) s, s))"

definition keyboard_process_scancode ::
  "u8 \<Rightarrow> ('h, 'a) kbd_state_scheme \<Rightarrow> u8 \<times> ('h, 'a) kbd_state_scheme" where
  "keyboard_process_scancode scancode s =
     (if scancode_set s = 2 then keyboard_process_scancode_set2 scancode s
      else keyboard_process_scancode_set1 scancode s)"

text \<open>The classification of a byte that the interrupt handler and the poller share: whether it is a
  release, and whether the duplicate filter looks at it.\<close>

definition scancode_events :: "u8 \<Rightarrow> ('h, 'a) kbd_state_scheme \<Rightarrow> bool \<times> bool" where
  "scancode_events scancode s =
     (if scancode_set s = 2 then (if scancode \<noteq> 0xE0 \<and> scancode \<noteq> 0xF0 then (break_code s, True) else (False, False))
      else if scancode \<noteq> 0xE0 then (scancode AND 0x80 \<noteq> 0, True)
      else (False, False))"

section \<open>Interrupt handler and poller\<close>

definition keyboard_poll_one_char ::
  "'h port_io \<Rightarrow> ('h, 'a) kbd_state_scheme \<Rightarrow> u8 option \<times> ('h, 'a) kbd_state_scheme" where
  "keyboard_poll_one_char io s =
     (if \<not> keyboard_allow_poll_fallback s then (None, s)
      else let (status, s) = ps2_read_status io s in
      if status AND PS2_STATUS_OUTPUT_FULL = 0 \<or> status AND PS2_STATUS_AUX_DATA \<noteq> 0 then (None, s)
      else let (scancode, s) = ps2_inb io PS2_PORT_DATA s;
               extended = extended_code s;
               (break_event, track_scancode) = scancode_events scancode s;
               (c, s) = keyboard_process_scancode scancode s;
               (dup, s) = (if track_scancode then keyboard_is_duplicate_make scancode extended break_event s
                           else (False, s))
           in if c \<noteq> 0 \<and> \<not> dup
              then (Some c,
                    if poll_fallback_reported s then s
                    else (log_serial_raw (ascii ''KBD200 keyboard polling fallback active'' @ [newline]) s)
                           \<lparr>poll_fallback_reported := True\<rparr>)
              else (None, s))"

definition keyboard_handle_irq :: "'h port_io \<Rightarrow> ('h, 'a) kbd_state_scheme \<Rightarrow> ('h, 'a) kbd_state_scheme" where
  "keyboard_handle_irq io s =
     (let (status, s) = ps2_read_status io s in
      if status AND PS2_STATUS_OUTPUT_FULL \<noteq> 0 \<and> status AND PS2_STATUS_AUX_DATA = 0
      then let (scancode, s) = ps2_inb io PS2_PORT_DATA s;
               extended = extended_code s;
               (break_event, track_scancode) = scancode_events scancode s;
               (c, s) = keyboard_process_scancode scancode s;
               s = s\<lparr>irq_seen := True\<rparr>;
               s = (if timer_is_ready s then s\<lparr>last_irq_tick := timer_get_ticks s\<rparr> else s);
               (dup, s) = (if track_scancode then keyboard_is_duplicate_make scancode extended break_event s
                           else (False, s))
           in if c \<noteq> 0 \<and> \<not> dup then push_char c s else s
      else s)"

section \<open>Set-up\<close>

definition keyboard_init :: "'h port_io \<Rightarrow> ('h, 'a) kbd_state_scheme \<Rightarrow> ('h, 'a) kbd_state_scheme" where
  "keyboard_init io s =
     (let (command_byte, s) = ps2_read_controller_command_byte io 0x40 s;
          s = s\<lparr>shift_pressed := False, ctrl_pressed := False, alt_pressed := False, caps_lock := False,
                break_code := False, extended_code := False,
                scancode_set := (if command_byte AND 0x40 \<noteq> 0 then 1 else 2),
                irq_mode := False, last_irq_tick := 0, irq_seen := False, last_make_scancode := 0,
                last_make_extended := False, last_make_tick := 0, last_make_valid := False,
                poll_fallback_reported := False, key_head := 0, key_tail := 0\<rparr>
      in if scancode_set s = 2 then log_serial_raw (ascii ''[kbd] scan set 2'' @ [newline]) s
         else log_serial_raw (ascii ''[kbd] scan set 1'' @ [newline]) s)"

definition keyboard_flush :: "'h port_io \<Rightarrow> ('h, 'a) kbd_state_scheme \<Rightarrow> ('h, 'a) kbd_state_scheme" where
  "keyboard_flush io s =
     (let s = ps2_drain_output io 512 s
      in s\<lparr>key_head := 0, key_tail := 0, shift_pressed := False, ctrl_pressed := False, alt_pressed := False,
           break_code := False, extended_code := False, last_make_valid := False\<rparr>)"

definition keyboard_set_irq_mode :: "bool \<Rightarrow> ('h, 'a) kbd_state_scheme \<Rightarrow> ('h, 'a) kbd_state_scheme" where
  "keyboard_set_irq_mode enabled s = s\<lparr>irq_mode := enabled\<rparr>"

section \<open>Readers\<close>

definition keyboard_try_get_char ::
  "'h port_io \<Rightarrow> ('h, 'a) kbd_state_scheme \<Rightarrow> u8 option \<times> ('h, 'a) kbd_state_scheme" where
  "keyboard_try_get_char io s =
     (let (r, s) = pop_char s in
      case r of Some c \<Rightarrow> (Some c, s) | None \<Rightarrow> keyboard_poll_one_char io s)"

definition keyboard_has_input :: "'h port_io \<Rightarrow> ('h, 'a) kbd_state_scheme \<Rightarrow> bool \<times> ('h, 'a) kbd_state_scheme" where
  "keyboard_has_input io s =
     (if key_tail s \<noteq> key_head s then (True, s)
      else let (r, s) = keyboard_poll_one_char io s in
      case r of Some c \<Rightarrow> (True, push_char c s) | None \<Rightarrow> (False, s))"

text \<open>The interrupt that ends a wait, and what the kernel does before the waiting code continues.\<close>

datatype irq = IrqTimer | IrqKeyboard | IrqOther

definition wait_irq :: "'h port_io \<Rightarrow> irq \<Rightarrow> ('h, 'a) kbd_state_scheme \<Rightarrow> ('h, 'a) kbd_state_scheme" where
  "wait_irq io i s =
     (case i of
        IrqKeyboard \<Rightarrow> if \<not> g_timer_ready s \<or> \<not> irqs_on s then s else keyboard_handle_irq io s
      | _ \<Rightarrow> timer_wait_for_interrupt (i = IrqTimer) s)"

fun keyboard_get_char ::
  "'h port_io \<Rightarrow> irq list \<Rightarrow> ('h, 'a) kbd_state_scheme \<Rightarrow> (u8 \<times> irq list \<times> ('h, 'a) kbd_state_scheme) option" where
  "keyboard_get_char io [] s =
     (case keyboard_try_get_char io s of (Some c, s) \<Rightarrow> Some (c, [], s) | (None, s) \<Rightarrow> None)"
| "keyboard_get_char io (i # irqs) s =
     (case keyboard_try_get_char io s of
        (Some c, s) \<Rightarrow> Some (c, i # irqs, s)
      | (None, s) \<Rightarrow> keyboard_get_char io irqs (wait_irq io i s))"

text \<open>\<open>line\<close> is the part of the buffer filled so far; the source stores the NUL after it.\<close>

partial_function (option) kbd_read_line_loop ::
  "'h port_io \<Rightarrow> int \<Rightarrow> cstr \<Rightarrow> irq list \<Rightarrow> ('h, 'a) kbd_state_scheme \<Rightarrow> (cstr \<times> irq list \<times> ('h, 'a) kbd_state_scheme) option" where
  "kbd_read_line_loop io max_len line irqs s =
     (if int (length line) < max_len - 1
      then do {
        (c, irqs, s) \<leftarrow> keyboard_get_char io irqs s;
        if c = 10 then Some (line, irqs, emit_screen [10] s)
        else if c = 8 then
          (if line \<noteq> [] then kbd_read_line_loop io max_len (butlast line) irqs (emit_screen [8] s)
           else kbd_read_line_loop io max_len line irqs s)
        else kbd_read_line_loop io max_len (line @ [c]) irqs (emit_screen [c] s) }
      else Some (line, irqs, s))"

definition keyboard_read_line ::
  "'h port_io \<Rightarrow> int \<Rightarrow> irq list \<Rightarrow> ('h, 'a) kbd_state_scheme \<Rightarrow> (cstr \<times> irq list \<times> ('h, 'a) kbd_state_scheme) option" where
  "keyboard_read_line io max_len irqs s = kbd_read_line_loop io max_len [] irqs s"

end
