(* ===== verification/Keyboard_Queue.thy ===== *)
theory Keyboard_Queue
  imports Keyboard
begin

text \<open>
  The keyboard driver as a consumer of bytes: its ring buffer is a bounded first-in first-out queue
  (locale \<open>bounded_fifo\<close>), and the bytes of one key stroke put exactly one character into it.
\<close>

unbundle bit_operations_syntax

section \<open>The ring buffer is a bounded queue\<close>

locale bounded_fifo =
  fixes push :: "'x \<Rightarrow> 's \<Rightarrow> 's"
    and pop :: "'s \<Rightarrow> 'x option \<times> 's"
    and contents :: "'s \<Rightarrow> 'x list"
    and valid :: "'s \<Rightarrow> bool"
    and capacity :: nat
  assumes push: "valid s \<Longrightarrow> valid (push x s)
      \<and> contents (push x s) = (if length (contents s) < capacity then contents s @ [x] else contents s)"
    and pop_empty: "valid s \<Longrightarrow> contents s = [] \<Longrightarrow> pop s = (None, s)"
    and pop_head: "valid s \<Longrightarrow> contents s = x # xs \<Longrightarrow> fst (pop s) = Some x \<and> valid (snd (pop s)) \<and> contents (snd (pop s)) = xs"
    and bounded: "valid s \<Longrightarrow> length (contents s) \<le> capacity"
begin

text \<open>What does not fit is dropped, what was stored keeps its order.\<close>

lemma push_all:
  "valid s \<Longrightarrow> valid (fold push xs s) \<and> contents (fold push xs s) = take capacity (contents s @ xs)"
proof (induction xs arbitrary: s)
  case Nil
  then show ?case using bounded by simp
next
  case (Cons x xs)
  have p: "valid (push x s)" "contents (push x s) = (if length (contents s) < capacity then contents s @ [x] else contents s)"
    using push [OF Cons.prems] by auto
  have "take capacity (contents (push x s) @ xs) = take capacity (contents s @ x # xs)"
    using p(2) bounded [OF Cons.prems] by (auto simp: take_Cons')
  then show ?case using Cons.IH [OF p(1)] by simp
qed

end

definition ring_ok :: "('h, 'a) kbd_state_scheme \<Rightarrow> bool" where
  "ring_ok s \<longleftrightarrow> length (key_buffer s) = 128 \<and> key_head s < 128 \<and> key_tail s < 128"

definition ring_len :: "('h, 'a) kbd_state_scheme \<Rightarrow> nat" where
  "ring_len s = (key_head s + 128 - key_tail s) mod 128"

definition key_queue :: "('h, 'a) kbd_state_scheme \<Rightarrow> u8 list" where
  "key_queue s = map (\<lambda>i. key_buffer s ! ((key_tail s + i) mod 128)) [0..<ring_len s]"

lemma ring_len_cases:
  "key_head s < 128 \<Longrightarrow> key_tail s < 128 \<Longrightarrow>
     ring_len s = (if key_tail s \<le> key_head s then key_head s - key_tail s else key_head s + 128 - key_tail s)"
  by (auto simp: ring_len_def mod_if)

lemma mod128: "x < 256 \<Longrightarrow> x mod 128 = (if x < 128 then x else x - (128::nat))"
  by (simp add: mod_if)

lemma length_key_queue [simp]: "length (key_queue s) = ring_len s"
  by (simp add: key_queue_def)

lemma ring_len_bound: "ring_len s < 128"
  by (simp add: ring_len_def)

lemma push_full: "ring_ok s \<Longrightarrow> (key_head s + 1) mod 128 = key_tail s \<longleftrightarrow> ring_len s = 127"
  unfolding ring_ok_def using ring_len_cases [of s] mod128 [of "key_head s + 1"] by (auto split: if_splits)

lemma push_queue:
  assumes ok: "ring_ok s"
  shows "ring_ok (push_char c s) \<and> key_queue (push_char c s) = (if length (key_queue s) < 127 then key_queue s @ [c] else key_queue s)"
proof (cases "ring_len s = 127")
  case True
  then show ?thesis using ok push_full [OF ok] by (simp add: push_char_def KEY_BUFFER_SIZE_def)
next
  case False
  let ?t = "push_char c s"
  have ne: "(key_head s + 1) mod 128 \<noteq> key_tail s" using False push_full [OF ok] by simp
  then have t: "key_buffer ?t = (key_buffer s)[key_head s := c]" "key_head ?t = (key_head s + 1) mod 128" "key_tail ?t = key_tail s"
    by (simp_all add: push_char_def KEY_BUFFER_SIZE_def Let_def)
  have b: "key_head s < 128" "key_tail s < 128" "length (key_buffer s) = 128" using ok by (auto simp: ring_ok_def)
  have len: "ring_len ?t = Suc (ring_len s)"
    using ne b ring_len_cases [of ?t] ring_len_cases [of s] mod128 [of "key_head s + 1"] t(2,3) by (auto split: if_splits)
  have pos: "(key_tail s + i) mod 128 \<noteq> key_head s" if "i < ring_len s" for i
    using that b ring_len_cases [of s] mod128 [of "key_tail s + i"] ring_len_bound [of s] by (auto split: if_splits)
  have last: "(key_tail s + ring_len s) mod 128 = key_head s"
    using b ring_len_cases [of s] mod128 [of "key_tail s + ring_len s"] ring_len_bound [of s] by (auto split: if_splits)
  have old: "(key_buffer s)[key_head s := c] ! ((key_tail s + i) mod 128) = key_buffer s ! ((key_tail s + i) mod 128)"
    if "i < ring_len s" for i using pos [OF that] by (metis nth_list_update_neq)
  have "key_queue ?t = key_queue s @ [c]"
    unfolding key_queue_def len upt_Suc_append [OF le0] map_append
    by (rule arg_cong2 [where f = "(@)"]) (use old last b in \<open>simp_all add: t\<close>)
  then show ?thesis using False ring_len_bound [of s] b by (simp add: ring_ok_def t)
qed

lemma pop_queue:
  assumes ok: "ring_ok s"
  shows "key_queue s = [] \<Longrightarrow> pop_char s = (None, s)"
    "key_queue s = x # xs \<Longrightarrow> pop_char s = (Some x, s\<lparr>key_tail := (key_tail s + 1) mod 128\<rparr>)"
    "key_queue s = x # xs \<Longrightarrow> ring_ok (s\<lparr>key_tail := (key_tail s + 1) mod 128\<rparr>)
       \<and> key_queue (s\<lparr>key_tail := (key_tail s + 1) mod 128\<rparr>) = xs"
proof -
  have b: "key_head s < 128" "key_tail s < 128" "length (key_buffer s) = 128" using ok by (auto simp: ring_ok_def)
  show "pop_char s = (None, s)" if "key_queue s = []"
  proof -
    have "ring_len s = 0" using that length_key_queue [of s] by simp
    then have "key_tail s = key_head s" using ring_len_cases [OF b(1,2)] b by (auto split: if_splits)
    then show ?thesis by (simp add: pop_char_def)
  qed
  assume q: "key_queue s = x # xs"
  have l: "ring_len s = Suc (length xs)" using q length_key_queue [of s] by simp
  have ne: "key_tail s \<noteq> key_head s" using l b by (auto simp: ring_len_def)
  let ?t = "s\<lparr>key_tail := (key_tail s + 1) mod 128\<rparr>"
  have lt: "ring_len ?t = length xs"
    using l ne b ring_len_cases [of ?t] ring_len_cases [of s] mod128 [of "key_tail s + 1"] by (auto split: if_splits)
  have "x = key_queue s ! 0" using q by simp
  then have x: "x = key_buffer s ! key_tail s" using l b by (simp add: key_queue_def del: upt_Suc)
  then show "pop_char s = (Some x, ?t)" using ne by (simp add: pop_char_def KEY_BUFFER_SIZE_def)
  have "key_queue ?t = xs"
  proof (rule nth_equalityI)
    show "length (key_queue ?t) = length xs" using lt by simp
    fix i assume "i < length (key_queue ?t)"
    then have i: "i < length xs" using lt by simp
    have "xs ! i = key_queue s ! Suc i" using q by simp
    also have "\<dots> = key_buffer s ! ((key_tail s + Suc i) mod 128)" using i l by (simp add: key_queue_def del: upt_Suc)
    also have "\<dots> = key_queue ?t ! i" using i lt by (simp add: key_queue_def mod_simps)
    finally show "key_queue ?t ! i = xs ! i" ..
  qed
  then show "ring_ok ?t \<and> key_queue ?t = xs" using b by (simp add: ring_ok_def)
qed

interpretation ring: bounded_fifo "push_char :: u8 \<Rightarrow> ('h, 'a) kbd_state_scheme \<Rightarrow> ('h, 'a) kbd_state_scheme" pop_char key_queue ring_ok 127
proof unfold_locales
  fix s :: "('h, 'a) kbd_state_scheme" and c :: u8 and cs
  assume ok: "ring_ok s"
  show "ring_ok (push_char c s) \<and> key_queue (push_char c s) = (if length (key_queue s) < 127 then key_queue s @ [c] else key_queue s)"
    by (rule push_queue [OF ok])
  show "key_queue s = [] \<Longrightarrow> pop_char s = (None, s)" by (rule pop_queue(1) [OF ok])
  show "key_queue s = c # cs \<Longrightarrow> fst (pop_char s) = Some c \<and> ring_ok (snd (pop_char s)) \<and> key_queue (snd (pop_char s)) = cs"
    using pop_queue(2,3) [OF ok] by simp
  show "length (key_queue s) \<le> 127" using ring_len_bound [of s] by simp
qed

section \<open>One byte\<close>

text \<open>What the interrupt handler does with a byte once it is read.\<close>

definition kbd_byte :: "u8 \<Rightarrow> ('h, 'a) kbd_state_scheme \<Rightarrow> ('h, 'a) kbd_state_scheme" where
  "kbd_byte scancode s =
     (let extended = extended_code s;
          (break_event, track_scancode) = scancode_events scancode s;
          (c, s) = keyboard_process_scancode scancode s;
          s = s\<lparr>irq_seen := True\<rparr>;
          s = (if timer_is_ready s then s\<lparr>last_irq_tick := timer_get_ticks s\<rparr> else s);
          (dup, s) = (if track_scancode then keyboard_is_duplicate_make scancode extended break_event s else (False, s))
      in if c \<noteq> 0 \<and> \<not> dup then push_char c s else s)"

context i8042
begin

lemma handle_irq_byte:
  assumes "ps2_queue (ps2_hw s) = (False, b) # q"
  shows "\<exists>h. ps2_queue h = q \<and> keyboard_handle_irq io s = kbd_byte b (s\<lparr>ps2_hw := h\<rparr>)"
proof -
  obtain v s1 where s1: "ps2_read_status io s = (v, s1)" by fastforce
  obtain h1 where h1: "s1 = s\<lparr>ps2_hw := h1\<rparr>" "ps2_queue h1 = ps2_queue (ps2_hw s)" using read_status(1) [OF s1] by blast
  have st: "v AND PS2_STATUS_OUTPUT_FULL \<noteq> 0" "v AND PS2_STATUS_AUX_DATA = 0" using read_status(2,3) [OF s1] assms by auto
  obtain h where h: "ps2_inb io PS2_PORT_DATA s1 = (b, s1\<lparr>ps2_hw := h\<rparr>)" "ps2_queue h = q"
    using read_data_port [of s1 False b q] h1 assms by auto
  have "keyboard_handle_irq io s = kbd_byte b (s1\<lparr>ps2_hw := h\<rparr>)"
    using st unfolding keyboard_handle_irq_def kbd_byte_def s1 h(1) Let_def prod.case by simp
  then show ?thesis using h(2) h1(1) by (intro exI [of _ h]) simp
qed

end

text \<open>The parts of the state the argument is about.\<close>

definition same_ring :: "('h, 'a) kbd_state_scheme \<Rightarrow> ('h, 'a) kbd_state_scheme \<Rightarrow> bool" where
  "same_ring s t \<longleftrightarrow> key_buffer t = key_buffer s \<and> key_head t = key_head s \<and> key_tail t = key_tail s"

definition last_key :: "('h, 'a) kbd_state_scheme \<Rightarrow> (u8 \<times> bool) option" where
  "last_key s = (if last_make_valid s then Some (last_make_scancode s, last_make_extended s) else None)"

lemma same_ringD: "same_ring s t \<Longrightarrow> ring_ok s \<Longrightarrow> ring_ok t \<and> key_queue t = key_queue s"
  by (simp add: same_ring_def ring_ok_def key_queue_def ring_len_def)

lemma push_char_fields [simp]:
  "scancode_set (push_char c s) = scancode_set s" "shift_pressed (push_char c s) = shift_pressed s"
  "alt_pressed (push_char c s) = alt_pressed s" "caps_lock (push_char c s) = caps_lock s"
  "break_code (push_char c s) = break_code s" "extended_code (push_char c s) = extended_code s"
  "ps2_hw (push_char c s) = ps2_hw s" "last_key (push_char c s) = last_key s"
  "g_timer_ready (push_char c s) = g_timer_ready s" "g_timer_ticks (push_char c s) = g_timer_ticks s"
  by (simp_all add: push_char_def Let_def last_key_def)

text \<open>At rest: no prefix is pending and no modifier but possibly shift is down.\<close>

definition at_rest :: "nat \<Rightarrow> bool \<Rightarrow> ('h, 'a) kbd_state_scheme \<Rightarrow> bool" where
  "at_rest k sh s \<longleftrightarrow> (k = 1 \<or> k = 2) \<and> scancode_set s = k \<and> \<not> break_code s \<and> \<not> extended_code s \<and> \<not> alt_pressed s
     \<and> \<not> caps_lock s \<and> shift_pressed s = sh"

definition plain_key :: "nat \<Rightarrow> u8 \<Rightarrow> bool" where
  "plain_key k sc \<longleftrightarrow> sc < 0x80 \<and> sc \<notin> (if k = 1 then {0x2A, 0x36, 0x1D, 0x38, 0x3A, 0x60} else {0x12, 0x59, 0x14, 0x11, 0x58})"

definition to_char :: "nat \<Rightarrow> u8 \<Rightarrow> bool \<Rightarrow> u8" where
  "to_char k sc sh = (if k = 1 then scancode_set1_to_char sc sh else scancode_set2_to_char sc sh)"

lemma less_0x80: "(sc :: u8) < 0x80 \<Longrightarrow> sc AND 0x80 = 0 \<and> sc \<noteq> 0xE0 \<and> sc \<noteq> 0xF0 \<and> sc \<noteq> 0xAA \<and> sc \<noteq> 0xB6 \<and> sc \<noteq> 0x9D \<and> sc \<noteq> 0xB8"
proof -
  assume "sc < 0x80"
  then have l: "unat sc < 128" by (simp add: word_less_nat_alt)
  have "\<forall>n \<in> set [0..<128]. (of_nat n :: u8) AND 0x80 = 0" by code_simp
  from bspec [OF this, of "unat sc"] l have "sc AND 0x80 = 0" by simp
  then show ?thesis using l by auto
qed

lemma high_code:
  "(sc :: u8) < 0x80 \<Longrightarrow> sc \<notin> {0x2A, 0x36, 0x1D, 0x38, 0x3A, 0x60} \<Longrightarrow>
     sc OR 0x80 \<noteq> 0xE0 \<and> sc OR 0x80 \<noteq> 0xAA \<and> sc OR 0x80 \<noteq> 0xB6 \<and> sc OR 0x80 \<noteq> 0x9D \<and> sc OR 0x80 \<noteq> 0xB8
     \<and> (sc OR 0x80) AND 0x80 \<noteq> 0 \<and> sc OR 0x80 \<noteq> sc \<and> sc OR 0x80 \<notin> {0x2A, 0x36, 0x1D, 0x38, 0x3A}"
proof -
  assume "sc < 0x80" and n: "sc \<notin> {0x2A, 0x36, 0x1D, 0x38, 0x3A, 0x60}"
  then have l: "unat sc < 128" by (simp add: word_less_nat_alt)
  have "\<forall>n \<in> set [0..<128]. let sc = of_nat n :: u8 in sc \<in> set [0x2A, 0x36, 0x1D, 0x38, 0x3A, 0x60] \<or>
     sc OR 0x80 \<noteq> 0xE0 \<and> sc OR 0x80 \<noteq> 0xAA \<and> sc OR 0x80 \<noteq> 0xB6 \<and> sc OR 0x80 \<noteq> 0x9D \<and> sc OR 0x80 \<noteq> 0xB8
     \<and> (sc OR 0x80) AND 0x80 \<noteq> 0 \<and> sc OR 0x80 \<noteq> sc \<and> sc OR 0x80 \<notin> set [0x2A, 0x36, 0x1D, 0x38, 0x3A]" by code_simp
  from bspec [OF this, of "unat sc"] l n show ?thesis by (simp add: Let_def)
qed

lemmas byte_defs = kbd_byte_def Let_def scancode_events_def keyboard_process_scancode_def keyboard_is_duplicate_make_def
  at_rest_def timer_is_ready_def timer_get_ticks_def

lemma make_key:
  assumes r: "at_rest k sh s" and p: "plain_key k sc" and c: "c = apply_caps (to_char k sc sh) sh False" "c \<noteq> 0"
    and new: "last_key s \<noteq> Some (sc, False)" and ok: "ring_ok s"
  shows "at_rest k sh (kbd_byte sc s) \<and> last_key (kbd_byte sc s) = Some (sc, False) \<and> ring_ok (kbd_byte sc s)
    \<and> key_queue (kbd_byte sc s) = take 127 (key_queue s @ [c])"
proof -
  have b: "sc AND 0x80 = 0" "sc \<noteq> 0xE0" "sc \<noteq> 0xF0" "sc \<noteq> 0xAA" "sc \<noteq> 0xB6" "sc \<noteq> 0x9D" "sc \<noteq> 0xB8"
    using p less_0x80 [of sc] by (auto simp: plain_key_def)
  define t where "t = (let t = s\<lparr>irq_seen := True\<rparr> in (if g_timer_ready s then t\<lparr>last_irq_tick := g_timer_ticks s\<rparr> else t)
     \<lparr>last_make_scancode := sc, last_make_extended := False, last_make_valid := True,
      last_make_tick := (if g_timer_ready s then g_timer_ticks s else 0)\<rparr>)"
  have "kbd_byte sc s = push_char c t"
    using r p b c new
    by (cases "k = 1") (auto simp: byte_defs plain_key_def to_char_def last_key_def t_def key_char_def
        keyboard_process_scancode_set1_def keyboard_process_scancode_set2_def)
  moreover have "same_ring s t" "at_rest k sh t" "last_key t = Some (sc, False)"
    using r by (auto simp: t_def Let_def same_ring_def at_rest_def last_key_def)
  ultimately show ?thesis using same_ringD [of s t] ok push_queue [of t c] ring.bounded [OF ok]
    by (auto simp: at_rest_def)
qed

section \<open>Key strokes\<close>

text \<open>The bytes a keyboard sends when a key is pressed and released, with shift held if needed.\<close>

definition release_bytes :: "nat \<Rightarrow> u8 \<Rightarrow> u8 list" where
  "release_bytes k sc = (if k = 1 then [sc OR 0x80] else [0xF0, sc])"

definition shift_code :: "nat \<Rightarrow> u8" where "shift_code k = (if k = 1 then 0x2A else 0x12)"

definition stroke :: "nat \<Rightarrow> u8 \<times> bool \<Rightarrow> u8 list" where
  "stroke k p = (let (sc, sh) = p in
     if sh then shift_code k # sc # release_bytes k sc @ release_bytes k (shift_code k) else sc # release_bytes k sc)"

lemma release_key:
  assumes r: "at_rest k sh s" and p: "plain_key k sc" and l: "last_key s = Some (sc, False)" and ok: "ring_ok s"
  shows "at_rest k sh (fold kbd_byte (release_bytes k sc) s) \<and> ring_ok (fold kbd_byte (release_bytes k sc) s)
    \<and> key_queue (fold kbd_byte (release_bytes k sc) s) = key_queue s
    \<and> last_key (fold kbd_byte (release_bytes k sc) s) = (if k = 1 then Some (sc, False) else None)"
proof -
  have b: "sc AND 0x80 = 0" "sc \<noteq> 0xE0" "sc \<noteq> 0xF0" using p less_0x80 [of sc] by (auto simp: plain_key_def)
  have lm: "last_make_valid s" "last_make_scancode s = sc" "\<not> last_make_extended s"
    using l by (simp_all add: last_key_def split: if_splits)
  let ?t = "fold kbd_byte (release_bytes k sc) s"
  have "same_ring s ?t \<and> at_rest k sh ?t \<and> last_key ?t = (if k = 1 then Some (sc, False) else None)"
  proof (cases "k = 1")
    case True
    have hi: "sc OR 0x80 \<noteq> 0xE0" "sc OR 0x80 \<noteq> 0xAA" "sc OR 0x80 \<noteq> 0xB6" "sc OR 0x80 \<noteq> 0x9D" "sc OR 0x80 \<noteq> 0xB8"
      "(sc OR 0x80) AND 0x80 \<noteq> 0" "sc OR 0x80 \<noteq> sc" "sc OR 0x80 \<noteq> 0x2A" "sc OR 0x80 \<noteq> 0x36" "sc OR 0x80 \<noteq> 0x1D"
      "sc OR 0x80 \<noteq> 0x38" "sc OR 0x80 \<noteq> 0x3A"
      using p True high_code [of sc] by (auto simp: plain_key_def)
    then show ?thesis using r lm True hi(7) [symmetric]
      by (auto simp: byte_defs release_bytes_def last_key_def same_ring_def keyboard_process_scancode_set1_def)
  next
    case False
    then have "k = 2" using r by (auto simp: at_rest_def)
    then show ?thesis using r lm b p
      by (auto simp: byte_defs release_bytes_def last_key_def same_ring_def keyboard_process_scancode_set2_def plain_key_def)
  qed
  then show ?thesis using same_ringD [of s ?t] ok by blast
qed

lemma shift_down:
  assumes r: "at_rest k sh s" and ok: "ring_ok s"
  shows "at_rest k True (kbd_byte (shift_code k) s) \<and> ring_ok (kbd_byte (shift_code k) s)
    \<and> key_queue (kbd_byte (shift_code k) s) = key_queue s \<and> last_key (kbd_byte (shift_code k) s) = Some (shift_code k, False)"
proof -
  let ?t = "kbd_byte (shift_code k) s"
  have "same_ring s ?t \<and> at_rest k True ?t \<and> last_key ?t = Some (shift_code k, False)"
  proof (cases "k = 1")
    case True
    then show ?thesis using r
      by (auto simp: byte_defs shift_code_def last_key_def same_ring_def keyboard_process_scancode_set1_def)
  next
    case False
    then have "k = 2" using r by (auto simp: at_rest_def)
    then show ?thesis using r
      by (auto simp: byte_defs shift_code_def last_key_def same_ring_def keyboard_process_scancode_set2_def)
  qed
  then show ?thesis using same_ringD [of s ?t] ok by blast
qed

lemma shift_up:
  assumes r: "at_rest k sh s" and ok: "ring_ok s" and l: "last_key s \<noteq> Some (shift_code k, False)" "last_key s \<noteq> Some (0xAA, False)"
  shows "at_rest k False (fold kbd_byte (release_bytes k (shift_code k)) s) \<and> ring_ok (fold kbd_byte (release_bytes k (shift_code k)) s)
    \<and> key_queue (fold kbd_byte (release_bytes k (shift_code k)) s) = key_queue s
    \<and> last_key (fold kbd_byte (release_bytes k (shift_code k)) s) = last_key s"
proof -
  let ?t = "fold kbd_byte (release_bytes k (shift_code k)) s"
  have "same_ring s ?t \<and> at_rest k False ?t \<and> last_key ?t = last_key s"
  proof (cases "k = 1")
    case True
    then show ?thesis using r l
      by (auto simp: byte_defs release_bytes_def shift_code_def last_key_def same_ring_def keyboard_process_scancode_set1_def)
  next
    case False
    then have "k = 2" using r by (auto simp: at_rest_def)
    then show ?thesis using r l
      by (auto simp: byte_defs release_bytes_def shift_code_def last_key_def same_ring_def keyboard_process_scancode_set2_def)
  qed
  then show ?thesis using same_ringD [of s ?t] ok by blast
qed

lemma stroke_types:
  assumes r: "at_rest k False s" and ok: "ring_ok s" and p: "plain_key k sc"
    and c: "c = apply_caps (to_char k sc sh) sh False" "c \<noteq> 0" and l: "last_key s \<noteq> Some (sc, False)"
  shows "at_rest k False (fold kbd_byte (stroke k (sc, sh)) s) \<and> ring_ok (fold kbd_byte (stroke k (sc, sh)) s)
    \<and> key_queue (fold kbd_byte (stroke k (sc, sh)) s) = take 127 (key_queue s @ [c])
    \<and> last_key (fold kbd_byte (stroke k (sc, sh)) s) = (if k = 1 then Some (sc, False) else None)"
proof (cases sh)
  case False
  note m = make_key [OF r p _ c(2) _ ok]
  show ?thesis using m [of] release_key [of k False "kbd_byte sc s" sc] p c l False by (simp add: stroke_def)
next
  case True
  define s1 where "s1 = kbd_byte (shift_code k) s"
  define s2 where "s2 = kbd_byte sc s1"
  define s3 where "s3 = fold kbd_byte (release_bytes k sc) s2"
  have eq: "fold kbd_byte (stroke k (sc, sh)) s = fold kbd_byte (release_bytes k (shift_code k)) s3"
    using True by (simp add: stroke_def s1_def s2_def s3_def)
  have n: "sc \<noteq> shift_code k" "sc \<noteq> 0xAA" using p less_0x80 [of sc] by (auto simp: plain_key_def shift_code_def split: if_splits)
  note 1 = shift_down [OF r ok, folded s1_def]
  have 2: "at_rest k True s2 \<and> last_key s2 = Some (sc, False) \<and> ring_ok s2 \<and> key_queue s2 = take 127 (key_queue s @ [c])"
    using make_key [of k True s1 sc c] 1 p c n True by (simp add: s2_def)
  have 3: "at_rest k True s3 \<and> ring_ok s3 \<and> key_queue s3 = key_queue s2 \<and> last_key s3 = (if k = 1 then Some (sc, False) else None)"
    using release_key [of k True s2 sc] 2 p by (simp add: s3_def)
  show ?thesis unfolding eq using shift_up [of k True s3] 3 2 n by (auto split: if_splits)
qed

end
