(* ===== verification/Keyboard_Layout.thy ===== *)
theory Keyboard_Layout
  imports Keyboard_Queue
begin

text \<open>
  The layout of a US keyboard in both scan code sets, and the agreement of the driver's tables with it.
\<close>

section \<open>Typing text\<close>

text \<open>
  The layout of the keyboard: for each of the characters \<open>typeable\<close> (backspace, tab, newline, escape and
  the printable ASCII characters in order) the scan code of its key and whether shift is held.
\<close>

definition typeable :: "u8 list" where
  "typeable = [8, 9, 10, 27] @ map of_nat [32..<127]"

definition layout1 :: "(u8 \<times> bool) list" where
  "layout1 =
    [(0x0E, False), (0x0F, False), (0x1C, False), (0x01, False), (0x39, False), (0x02, True), (0x28, True), (0x04, True),
     (0x05, True), (0x06, True), (0x08, True), (0x28, False), (0x0A, True), (0x0B, True), (0x37, False), (0x0D, True),
     (0x33, False), (0x0C, False), (0x34, False), (0x35, False), (0x0B, False), (0x02, False), (0x03, False), (0x04, False),
     (0x05, False), (0x06, False), (0x07, False), (0x08, False), (0x09, False), (0x0A, False), (0x27, True), (0x27, False),
     (0x33, True), (0x0D, False), (0x34, True), (0x35, True), (0x03, True), (0x1E, True), (0x30, True), (0x2E, True),
     (0x20, True), (0x12, True), (0x21, True), (0x22, True), (0x23, True), (0x17, True), (0x24, True), (0x25, True),
     (0x26, True), (0x32, True), (0x31, True), (0x18, True), (0x19, True), (0x10, True), (0x13, True), (0x1F, True),
     (0x14, True), (0x16, True), (0x2F, True), (0x11, True), (0x2D, True), (0x15, True), (0x2C, True), (0x1A, False),
     (0x2B, False), (0x1B, False), (0x07, True), (0x0C, True), (0x29, False), (0x1E, False), (0x30, False), (0x2E, False),
     (0x20, False), (0x12, False), (0x21, False), (0x22, False), (0x23, False), (0x17, False), (0x24, False), (0x25, False),
     (0x26, False), (0x32, False), (0x31, False), (0x18, False), (0x19, False), (0x10, False), (0x13, False), (0x1F, False),
     (0x14, False), (0x16, False), (0x2F, False), (0x11, False), (0x2D, False), (0x15, False), (0x2C, False), (0x1A, True),
     (0x2B, True), (0x1B, True), (0x29, True)]"

definition layout2 :: "(u8 \<times> bool) list" where
  "layout2 =
    [(0x66, False), (0x0D, False), (0x5A, False), (0x76, False), (0x29, False), (0x16, True), (0x52, True), (0x26, True),
     (0x25, True), (0x2E, True), (0x3D, True), (0x52, False), (0x46, True), (0x45, True), (0x3E, True), (0x55, True),
     (0x41, False), (0x4E, False), (0x49, False), (0x4A, False), (0x45, False), (0x16, False), (0x1E, False), (0x26, False),
     (0x25, False), (0x2E, False), (0x36, False), (0x3D, False), (0x3E, False), (0x46, False), (0x4C, True), (0x4C, False),
     (0x41, True), (0x55, False), (0x49, True), (0x4A, True), (0x1E, True), (0x1C, True), (0x32, True), (0x21, True),
     (0x23, True), (0x24, True), (0x2B, True), (0x34, True), (0x33, True), (0x43, True), (0x3B, True), (0x42, True),
     (0x4B, True), (0x3A, True), (0x31, True), (0x44, True), (0x4D, True), (0x15, True), (0x2D, True), (0x1B, True),
     (0x2C, True), (0x3C, True), (0x2A, True), (0x1D, True), (0x22, True), (0x35, True), (0x1A, True), (0x54, False),
     (0x5D, False), (0x5B, False), (0x36, True), (0x4E, True), (0x0E, False), (0x1C, False), (0x32, False), (0x21, False),
     (0x23, False), (0x24, False), (0x2B, False), (0x34, False), (0x33, False), (0x43, False), (0x3B, False), (0x42, False),
     (0x4B, False), (0x3A, False), (0x31, False), (0x44, False), (0x4D, False), (0x15, False), (0x2D, False), (0x1B, False),
     (0x2C, False), (0x3C, False), (0x2A, False), (0x1D, False), (0x22, False), (0x35, False), (0x1A, False), (0x54, True),
     (0x5D, True), (0x5B, True), (0x0E, True)]"

definition layout :: "nat \<Rightarrow> (u8 \<times> bool) list" where
  "layout k = (if k = 1 then layout1 else layout2)"

definition key_of :: "nat \<Rightarrow> u8 \<Rightarrow> u8 \<times> bool" where
  "key_of k c = (case map_of (zip typeable (layout k)) c of Some p \<Rightarrow> p | None \<Rightarrow> (0, False))"

definition keystrokes :: "nat \<Rightarrow> u8 list \<Rightarrow> u8 list" where
  "keystrokes k text = concat (map (\<lambda>c. stroke k (key_of k c)) text)"

lemma layout1_chars: "map (\<lambda>(sc, sh). apply_caps (to_char 1 sc sh) sh False) layout1 = typeable"
  by code_simp

lemma layout2_chars: "map (\<lambda>(sc, sh). apply_caps (to_char 2 sc sh) sh False) layout2 = typeable"
  by code_simp

lemma layout1_plain: "list_all (\<lambda>(sc, sh). plain_key 1 sc) layout1"
  by code_simp

lemma layout2_plain: "list_all (\<lambda>(sc, sh). plain_key 2 sc) layout2"
  by code_simp

lemma typeable_nonzero: "0 \<notin> set typeable"
  by code_simp

end
