(* ===== verification/Keyboard_Props.thy ===== *)
theory Keyboard_Props
  imports Keyboard_Layout
begin

text \<open>
  Typed text arrives through the interrupt handler, and the releases that set 1 does not recognise.
\<close>

unbundle bit_operations_syntax

section \<open>Text through the interrupt handler\<close>

lemma key_of_props:
  assumes k: "k = 1 \<or> k = 2" and c: "c \<in> set typeable" and e: "key_of k c = (sc, sh)"
  shows "plain_key k sc" "c = apply_caps (to_char k sc sh) sh False" "c \<noteq> 0"
proof -
  have ch: "map (\<lambda>(sc, sh). apply_caps (to_char k sc sh) sh False) (layout k) = typeable"
    and pl: "list_all (\<lambda>(sc, sh). plain_key k sc) (layout k)"
    using k layout1_chars layout2_chars layout1_plain layout2_plain by (auto simp: layout_def)
  have len: "length typeable = length (layout k)" unfolding ch [symmetric] by simp
  obtain p where p: "map_of (zip typeable (layout k)) c = Some p"
    using c len by (cases "map_of (zip typeable (layout k)) c") (auto simp: map_of_eq_None_iff simp flip: set_map)
  obtain i where i: "i < length (layout k)" "typeable ! i = c" "layout k ! i = p"
    using map_of_SomeD [OF p] by (auto simp: in_set_zip)
  have sp: "layout k ! i = (sc, sh)" using p e i(3) by (simp add: key_of_def)
  have "typeable ! i = apply_caps (to_char k sc sh) sh False"
    using i(1) sp unfolding ch [symmetric] by simp
  then show "plain_key k sc" "c = apply_caps (to_char k sc sh) sh False" "c \<noteq> 0"
    using i sp pl c typeable_nonzero by (auto simp: list_all_length)
qed

lemma type_text:
  assumes "k = 1 \<or> k = 2" "at_rest k False s" "ring_ok s" "set msg \<subseteq> set typeable"
    "msg \<noteq> [] \<Longrightarrow> last_key s \<noteq> Some (fst (key_of k (hd msg)), False)"
    "k = 1 \<Longrightarrow> distinct_adj (map (\<lambda>c. fst (key_of 1 c)) msg)" "k = 2 \<Longrightarrow> last_key s = None"
  shows "at_rest k False (fold kbd_byte (keystrokes k msg) s) \<and> ring_ok (fold kbd_byte (keystrokes k msg) s)
    \<and> key_queue (fold kbd_byte (keystrokes k msg) s) = take 127 (key_queue s @ msg)"
  using assms
proof (induction msg arbitrary: s)
  case Nil
  then show ?case using ring.bounded [of s] by (simp add: keystrokes_def)
next
  case (Cons c msg)
  obtain sc sh where e: "key_of k c = (sc, sh)" by fastforce
  have c: "c \<in> set typeable" using Cons.prems(4) by simp
  note p = key_of_props [OF Cons.prems(1) c e]
  define s1 where "s1 = fold kbd_byte (stroke k (sc, sh)) s"
  have n: "last_key s \<noteq> Some (sc, False)" using Cons.prems(5) e by simp
  have s1: "at_rest k False s1" "ring_ok s1" "key_queue s1 = take 127 (key_queue s @ [c])"
    "last_key s1 = (if k = 1 then Some (sc, False) else None)"
    using stroke_types [OF Cons.prems(2,3) p n] by (simp_all add: s1_def)
  have "msg \<noteq> [] \<Longrightarrow> last_key s1 \<noteq> Some (fst (key_of k (hd msg)), False)"
    using Cons.prems(6) e s1(4) by (cases msg) (auto simp: distinct_adj_Cons)
  moreover have "k = 1 \<Longrightarrow> distinct_adj (map (\<lambda>c. fst (key_of 1 c)) msg)"
    using Cons.prems(6) by (cases msg) (auto simp: distinct_adj_Cons)
  ultimately have IH: "at_rest k False (fold kbd_byte (keystrokes k msg) s1) \<and> ring_ok (fold kbd_byte (keystrokes k msg) s1)
    \<and> key_queue (fold kbd_byte (keystrokes k msg) s1) = take 127 (key_queue s1 @ msg)"
    using Cons.IH [OF Cons.prems(1) s1(1,2)] Cons.prems(1,4) s1(4) by auto
  have "fold kbd_byte (keystrokes k (c # msg)) s = fold kbd_byte (keystrokes k msg) s1"
    by (simp add: keystrokes_def e s1_def)
  moreover have "take 127 (key_queue s1 @ msg) = take 127 (key_queue s @ c # msg)"
    using ring.bounded [OF Cons.prems(3)] by (cases "length (key_queue s) = 127") (auto simp: s1(3) take_Cons')
  ultimately show ?case using IH by simp
qed

lemma kbd_byte_hw: "kbd_byte b (s\<lparr>ps2_hw := h\<rparr>) = (kbd_byte b s)\<lparr>ps2_hw := h\<rparr>"
proof -
  have 1: "keyboard_process_scancode b (s\<lparr>ps2_hw := h\<rparr>)
      = (fst (keyboard_process_scancode b s), (snd (keyboard_process_scancode b s))\<lparr>ps2_hw := h\<rparr>)" for s
    by (simp add: keyboard_process_scancode_def keyboard_process_scancode_set1_def keyboard_process_scancode_set2_def key_char_def Let_def)
  have 2: "keyboard_is_duplicate_make b x y (s\<lparr>ps2_hw := h\<rparr>)
      = (fst (keyboard_is_duplicate_make b x y s), (snd (keyboard_is_duplicate_make b x y s))\<lparr>ps2_hw := h\<rparr>)" for x y s
    by (simp add: keyboard_is_duplicate_make_def Let_def timer_is_ready_def timer_get_ticks_def)
  have 3: "push_char c (s\<lparr>ps2_hw := h\<rparr>) = (push_char c s)\<lparr>ps2_hw := h\<rparr>" for c s
    by (simp add: push_char_def Let_def)
  have 4: "scancode_events b (s\<lparr>ps2_hw := h\<rparr>) = scancode_events b s" by (simp add: scancode_events_def)
  define c t where "c = fst (keyboard_process_scancode b s)" and "t = snd (keyboard_process_scancode b s)"
  define u where "u = (if timer_is_ready t then t\<lparr>irq_seen := True, last_irq_tick := timer_get_ticks t\<rparr> else t\<lparr>irq_seen := True\<rparr>)"
  let ?rest = "\<lambda>u. let (dup, v) = (if snd (scancode_events b s)
      then keyboard_is_duplicate_make b (extended_code s) (fst (scancode_events b s)) u else (False, u))
      in if c \<noteq> 0 \<and> \<not> dup then push_char c v else v"
  have A: "kbd_byte b s = ?rest u"
    by (simp add: kbd_byte_def Let_def split_beta c_def t_def u_def timer_is_ready_def timer_get_ticks_def)
  have uh: "(if timer_is_ready (t\<lparr>ps2_hw := h\<rparr>\<lparr>irq_seen := True\<rparr>)
      then t\<lparr>ps2_hw := h\<rparr>\<lparr>irq_seen := True\<rparr>\<lparr>last_irq_tick := timer_get_ticks (t\<lparr>ps2_hw := h\<rparr>\<lparr>irq_seen := True\<rparr>)\<rparr>
      else t\<lparr>ps2_hw := h\<rparr>\<lparr>irq_seen := True\<rparr>) = u\<lparr>ps2_hw := h\<rparr>"
    by (simp add: u_def timer_is_ready_def timer_get_ticks_def)
  have B: "kbd_byte b (s\<lparr>ps2_hw := h\<rparr>) = ?rest (u\<lparr>ps2_hw := h\<rparr>)"
    unfolding kbd_byte_def Let_def 1 4 split_beta fst_conv snd_conv c_def [symmetric] t_def [symmetric] uh by simp
  show ?thesis unfolding A B 2 Let_def by (simp add: 3 split_beta)
qed

context i8042
begin

lemma irq_bytes:
  "ps2_queue (ps2_hw s) = map (Pair False) bs @ q \<Longrightarrow>
     \<exists>h. ps2_queue h = q \<and> (keyboard_handle_irq io ^^ length bs) s = (fold kbd_byte bs s)\<lparr>ps2_hw := h\<rparr>"
proof (induction bs arbitrary: s)
  case Nil
  then show ?case by (intro exI [of _ "ps2_hw s"]) simp
next
  case (Cons b bs)
  obtain h where h: "ps2_queue h = map (Pair False) bs @ q" "keyboard_handle_irq io s = kbd_byte b (s\<lparr>ps2_hw := h\<rparr>)"
    using handle_irq_byte [of s b "map (Pair False) bs @ q"] Cons.prems by auto
  have hw: "ps2_hw (kbd_byte b (s\<lparr>ps2_hw := h\<rparr>)) = h" by (simp add: kbd_byte_hw)
  obtain g where g: "ps2_queue g = q"
    "(keyboard_handle_irq io ^^ length bs) (kbd_byte b (s\<lparr>ps2_hw := h\<rparr>)) = (fold kbd_byte bs (kbd_byte b (s\<lparr>ps2_hw := h\<rparr>)))\<lparr>ps2_hw := g\<rparr>"
    using Cons.IH [of "kbd_byte b (s\<lparr>ps2_hw := h\<rparr>)"] h(1) hw by auto
  have f: "fold kbd_byte bs (t\<lparr>ps2_hw := x\<rparr>) = (fold kbd_byte bs t)\<lparr>ps2_hw := x\<rparr>" for t x
    by (induction bs arbitrary: t) (simp_all add: kbd_byte_hw)
  have "(keyboard_handle_irq io ^^ length (b # bs)) s = (fold kbd_byte (b # bs) s)\<lparr>ps2_hw := g\<rparr>"
    using g(2) by (simp add: funpow_Suc_right h(2) kbd_byte_hw f del: funpow.simps)
  then show ?case using g(1) by blast
qed

end

text \<open>
  C29: What is typed arrives: when the controller queues the bytes of the key strokes of a text (any
  printable ASCII characters, newline, tab, backspace, escape; at most 127 of them), handling one
  interrupt per byte leaves exactly that text in the key buffer, in order, and the driver at rest.
  In scan code set 1 this needs that no key is struck twice in a row, where a quick second stroke is lost.
\<close>

theorem typed_text_arrives:
  assumes c: "i8042 io ps2_queue" and k: "k = 1 \<or> k = 2" and s: "at_rest k False s" "ring_ok s" "key_queue s = []" "\<not> last_make_valid s"
    and m: "set msg \<subseteq> set typeable" "length msg \<le> 127" "k = 1 \<longrightarrow> distinct_adj (map (\<lambda>c. fst (key_of 1 c)) msg)"
    and q: "ps2_queue (ps2_hw s) = map (Pair False) (keystrokes k msg) @ q"
    and t: "t = (keyboard_handle_irq io ^^ length (keystrokes k msg)) s"
  shows "key_queue t = msg \<and> at_rest k False t \<and> ring_ok t \<and> ps2_queue (ps2_hw t) = q"
proof -
  obtain h where h: "ps2_queue h = q" "t = (fold kbd_byte (keystrokes k msg) s)\<lparr>ps2_hw := h\<rparr>"
    using i8042.irq_bytes [OF c q] t by blast
  have l: "last_key s = None" using s(4) by (simp add: last_key_def)
  note T = type_text [OF k s(1,2) m(1), unfolded l s(3)]
  let ?u = "fold kbd_byte (keystrokes k msg) s"
  have u: "at_rest k False ?u" "ring_ok ?u" "key_queue ?u = msg" using T m by auto
  have "same_ring ?u t" "at_rest k False t" using u(1) by (simp_all add: h(2) same_ring_def at_rest_def)
  then show ?thesis using same_ringD [of ?u t] u h by simp
qed

definition kbd_boot :: "nat \<Rightarrow> (bool \<times> u8) list \<Rightarrow> i8042_chip kbd_state" where
  "kbd_boot k q = ps2_state.extend (timer_state.extend timer_boot \<lparr>ps2_hw = \<lparr>chip_queue = q, chip_written = []\<rparr>\<rparr>)
     \<lparr>shift_pressed = False, ctrl_pressed = False, alt_pressed = False, caps_lock = False, break_code = False,
      extended_code = False, scancode_set = k, irq_mode = True, last_irq_tick = 0, irq_seen = False,
      last_make_scancode = 0, last_make_extended = False, last_make_tick = 0, last_make_valid = False,
      poll_fallback_reported = False, key_buffer = replicate 128 0, key_head = 0, key_tail = 0\<rparr>"

lemma kbd_boot_fields:
  "k = 1 \<or> k = 2 \<Longrightarrow> at_rest k False (kbd_boot k q)" "ring_ok (kbd_boot k q)" "key_queue (kbd_boot k q) = []"
  "\<not> last_make_valid (kbd_boot k q)" "chip_queue (ps2_hw (kbd_boot k q)) = q" "g_timer_ready (kbd_boot k q)"
  by (simp_all add: kbd_boot_def ps2_state.defs timer_state.defs at_rest_def ring_ok_def key_queue_def ring_len_def
      timer_boot_def log_state.defs)

theorem typed_text_arrives_witness:
  "key_queue ((keyboard_handle_irq i8042_io ^^ length (keystrokes 2 (ascii ''All'')))
      (kbd_boot 2 (map (Pair False) (keystrokes 2 (ascii ''All''))))) = ascii ''All''
   \<and> key_queue ((keyboard_handle_irq i8042_io ^^ length (keystrokes 1 (ascii ''Dir'')))
      (kbd_boot 1 (map (Pair False) (keystrokes 1 (ascii ''Dir''))))) = ascii ''Dir''"
proof
  have "set (ascii ''All'') \<subseteq> set typeable" by code_simp
  then show "key_queue ((keyboard_handle_irq i8042_io ^^ length (keystrokes 2 (ascii ''All'')))
      (kbd_boot 2 (map (Pair False) (keystrokes 2 (ascii ''All''))))) = ascii ''All''"
    using typed_text_arrives [OF kbc.i8042_axioms _ kbd_boot_fields(1-4) , where k = 2 and msg = "ascii ''All''" and q = "[]"]
    by (simp add: kbd_boot_fields ascii_def)
  have "set (ascii ''Dir'') \<subseteq> set typeable" "map (\<lambda>c. fst (key_of 1 c)) (ascii ''Dir'') = [0x20, 0x17, 0x13]" by code_simp+
  then show "key_queue ((keyboard_handle_irq i8042_io ^^ length (keystrokes 1 (ascii ''Dir'')))
      (kbd_boot 1 (map (Pair False) (keystrokes 1 (ascii ''Dir''))))) = ascii ''Dir''"
    using typed_text_arrives [OF kbc.i8042_axioms _ kbd_boot_fields(1-4) , where k = 1 and msg = "ascii ''Dir''" and q = "[]"]
    by (simp add: kbd_boot_fields ascii_def)
qed

section \<open>Repeated keys\<close>

lemma make_again:
  assumes r: "at_rest 1 sh s" and p: "plain_key 1 sc" and l: "last_key s = Some (sc, False)"
    and t: "g_timer_ready s" "g_timer_ticks s - last_make_tick s \<le> 2"
  shows "same_ring s (kbd_byte sc s)"
proof -
  have b: "sc AND 0x80 = 0" "sc \<noteq> 0xE0" "sc \<noteq> 0xF0" "sc \<noteq> 0xAA" "sc \<noteq> 0xB6" "sc \<noteq> 0x9D" "sc \<noteq> 0xB8"
    using p less_0x80 [of sc] by (auto simp: plain_key_def)
  have lm: "last_make_valid s" "last_make_scancode s = sc" "\<not> last_make_extended s"
    using l by (simp_all add: last_key_def split: if_splits)
  show ?thesis using r p b lm t
    by (auto simp: byte_defs plain_key_def same_ring_def KEYBOARD_DUPLICATE_MAKE_TICKS_def keyboard_process_scancode_set1_def)
qed

lemma make_again_rest:
  assumes r: "at_rest 1 sh s" and p: "plain_key 1 sc" and l: "last_key s = Some (sc, False)"
  shows "at_rest 1 sh (kbd_byte sc s) \<and> last_key (kbd_byte sc s) = Some (sc, False)"
proof -
  have b: "sc AND 0x80 = 0" "sc \<noteq> 0xE0" "sc \<noteq> 0xF0" "sc \<noteq> 0xAA" "sc \<noteq> 0xB6" "sc \<noteq> 0x9D" "sc \<noteq> 0xB8"
    using p less_0x80 [of sc] by (auto simp: plain_key_def)
  have lm: "last_make_valid s" "last_make_scancode s = sc" "\<not> last_make_extended s"
    using l by (simp_all add: last_key_def split: if_splits)
  show ?thesis using r p b lm
    by (auto simp: byte_defs plain_key_def last_key_def keyboard_process_scancode_set1_def push_char_def)
qed

lemma make_tick:
  assumes r: "at_rest 1 sh s" and p: "plain_key 1 sc" and l: "last_key s \<noteq> Some (sc, False)" and t: "g_timer_ready s"
  shows "last_make_tick (kbd_byte sc s) = g_timer_ticks s" "g_timer_ticks (kbd_byte sc s) = g_timer_ticks s"
    "g_timer_ready (kbd_byte sc s)"
proof -
  have b: "sc AND 0x80 = 0" "sc \<noteq> 0xE0" "sc \<noteq> 0xF0" "sc \<noteq> 0xAA" "sc \<noteq> 0xB6" "sc \<noteq> 0x9D" "sc \<noteq> 0xB8"
    using p less_0x80 [of sc] by (auto simp: plain_key_def)
  show "last_make_tick (kbd_byte sc s) = g_timer_ticks s" "g_timer_ticks (kbd_byte sc s) = g_timer_ticks s"
    "g_timer_ready (kbd_byte sc s)"
    using r p b l t
    by (auto simp: byte_defs plain_key_def last_key_def keyboard_process_scancode_set1_def push_char_def)
qed

lemma release_tick:
  assumes r: "at_rest 1 sh s" and p: "plain_key 1 sc" and l: "last_key s = Some (sc, False)" and sl: "s' = fold kbd_byte (release_bytes 1 sc) s"
  shows "same_ring s s'" "last_make_tick s' = last_make_tick s" "g_timer_ticks s' = g_timer_ticks s" "g_timer_ready s' = g_timer_ready s"
proof -
  have lm: "last_make_valid s" "last_make_scancode s = sc" "\<not> last_make_extended s"
    using l by (simp_all add: last_key_def split: if_splits)
  have hi: "sc OR 0x80 \<noteq> 0xE0" "sc OR 0x80 \<noteq> 0xAA" "sc OR 0x80 \<noteq> 0xB6" "sc OR 0x80 \<noteq> 0x9D" "sc OR 0x80 \<noteq> 0xB8"
    "(sc OR 0x80) AND 0x80 \<noteq> 0" "sc \<noteq> sc OR 0x80" "sc OR 0x80 \<noteq> 0x2A" "sc OR 0x80 \<noteq> 0x36" "sc OR 0x80 \<noteq> 0x1D"
    "sc OR 0x80 \<noteq> 0x38" "sc OR 0x80 \<noteq> 0x3A"
    using p high_code [of sc] by (auto simp: plain_key_def)
  show "same_ring s s'" "last_make_tick s' = last_make_tick s" "g_timer_ticks s' = g_timer_ticks s" "g_timer_ready s' = g_timer_ready s"
    using r lm hi unfolding sl
    by (auto simp: byte_defs release_bytes_def same_ring_def keyboard_process_scancode_set1_def)
qed

lemma same_ring_trans: "same_ring a b \<Longrightarrow> same_ring b c \<Longrightarrow> same_ring a c"
  by (simp add: same_ring_def)

lemma make_late:
  assumes r: "at_rest 1 sh s" and p: "plain_key 1 sc" and c: "c = apply_caps (to_char 1 sc sh) sh False" "c \<noteq> 0"
    and late: "\<not> g_timer_ticks s - last_make_tick s \<le> 2" and t: "g_timer_ready s" and ok: "ring_ok s"
  shows "key_queue (kbd_byte sc s) = take 127 (key_queue s @ [c])"
proof -
  have b: "sc AND 0x80 = 0" "sc \<noteq> 0xE0" "sc \<noteq> 0xF0" "sc \<noteq> 0xAA" "sc \<noteq> 0xB6" "sc \<noteq> 0x9D" "sc \<noteq> 0xB8"
    using p less_0x80 [of sc] by (auto simp: plain_key_def)
  define u where "u = s\<lparr>irq_seen := True, last_irq_tick := g_timer_ticks s, last_make_scancode := sc,
    last_make_extended := False, last_make_valid := True, last_make_tick := g_timer_ticks s\<rparr>"
  have "kbd_byte sc s = push_char c u" using r p b c late t
    by (auto simp: byte_defs plain_key_def to_char_def u_def key_char_def keyboard_process_scancode_set1_def
        KEYBOARD_DUPLICATE_MAKE_TICKS_def)
  moreover have "same_ring s u" by (simp add: u_def same_ring_def)
  ultimately show ?thesis using same_ringD [of s u] ok push_queue [of u c] ring.bounded [OF ok] by auto
qed

text \<open>Timer interrupts and changes of the controller between two bytes.\<close>

lemma ticks_state: "(timer_on_tick ^^ n) s = s\<lparr>g_timer_ticks := g_timer_ticks s + (if g_timer_ready s then of_nat n else 0)\<rparr>"
  by (induction n) (simp_all add: timer_on_tick_def add.assoc add.commute)

lemma pause_keeps:
  assumes "t = ((timer_on_tick ^^ n) s)\<lparr>ps2_hw := h\<rparr>"
  shows "at_rest k sh t = at_rest k sh s" "last_key t = last_key s" "same_ring s t" "ring_ok t = ring_ok s"
    "key_queue t = key_queue s" "g_timer_ready t = g_timer_ready s" "last_make_tick t = last_make_tick s"
    "g_timer_ticks t = g_timer_ticks s + (if g_timer_ready s then of_nat n else 0)"
proof -
  show r: "same_ring s t" by (simp add: assms ticks_state same_ring_def)
  show "ring_ok t = ring_ok s" "key_queue t = key_queue s"
    by (simp_all add: assms ticks_state ring_ok_def key_queue_def ring_len_def)
qed (simp_all add: assms ticks_state at_rest_def last_key_def)

context i8042
begin

lemma irq_after_ticks:
  assumes "ps2_queue (ps2_hw s) = (False, b) # q"
  shows "\<exists>h. ps2_queue h = q
    \<and> keyboard_handle_irq io ((timer_on_tick ^^ n) s) = kbd_byte b (((timer_on_tick ^^ n) s)\<lparr>ps2_hw := h\<rparr>)
    \<and> ps2_hw (keyboard_handle_irq io ((timer_on_tick ^^ n) s)) = h"
proof -
  have "ps2_queue (ps2_hw ((timer_on_tick ^^ n) s)) = (False, b) # q" using assms by (simp add: ticks_state)
  from handle_irq_byte [OF this] show ?thesis by (auto simp: kbd_byte_hw)
qed

end

text \<open>
  C34: In scan code set 1 the driver does not recognise the release of a key in its duplicate filter (it
  compares the release code, with bit 7 set, with the make code): of a key that is pressed, released
  \<open>j\<close> timer ticks later and pressed again \<open>k\<close> ticks after that, with shift held or not all the while, the
  second press is lost exactly when \<open>j + k\<close> is at most two.
\<close>

theorem repeated_key_dropped_set1:
  assumes ctl: "i8042 io ps2_queue"
    and s: "at_rest 1 sh s" "ring_ok s" "\<not> last_make_valid s" "g_timer_ready s" "length (key_queue s) < 126"
    and c: "c \<in> set typeable" "key_of 1 c = (sc, sh)"
    and q: "ps2_queue (ps2_hw s) = [(False, sc), (False, sc OR 0x80), (False, sc)] @ q"
    and n: "j + k < 2 ^ 32"
    and s1: "s1 = keyboard_handle_irq io s"
    and s2: "s2 = keyboard_handle_irq io ((timer_on_tick ^^ j) s1)"
    and s3: "s3 = keyboard_handle_irq io ((timer_on_tick ^^ k) s2)"
  shows "key_queue s3 = key_queue s @ (if j + k \<le> 2 then [c] else [c, c])"
proof -
  have one: "(1::nat) = 1 \<or> (1::nat) = 2" by simp
  note p = key_of_props [OF one c]
  obtain h1 where h1: "ps2_queue h1 = [(False, sc OR 0x80), (False, sc)] @ q" "s1 = kbd_byte sc (s\<lparr>ps2_hw := h1\<rparr>)" "ps2_hw s1 = h1"
    using i8042.irq_after_ticks [OF ctl, of s sc _ 0] q s1 by auto
  obtain h2 where h2: "ps2_queue h2 = (False, sc) # q" "s2 = kbd_byte (sc OR 0x80) (((timer_on_tick ^^ j) s1)\<lparr>ps2_hw := h2\<rparr>)" "ps2_hw s2 = h2"
    using i8042.irq_after_ticks [OF ctl, of s1 _ _ j] h1 s2 by auto
  obtain h3 where h3: "s3 = kbd_byte sc (((timer_on_tick ^^ k) s2)\<lparr>ps2_hw := h3\<rparr>)"
    using i8042.irq_after_ticks [OF ctl, of s2 _ _ k] h2 s3 by auto
  define t0 where "t0 = ((timer_on_tick ^^ 0) s)\<lparr>ps2_hw := h1\<rparr>"
  define t1 where "t1 = ((timer_on_tick ^^ j) s1)\<lparr>ps2_hw := h2\<rparr>"
  define t2 where "t2 = ((timer_on_tick ^^ k) s2)\<lparr>ps2_hw := h3\<rparr>"
  note k0 = pause_keeps [OF t0_def] and k1 = pause_keeps [OF t1_def] and k2 = pause_keeps [OF t2_def]
  have e1: "s1 = kbd_byte sc t0" by (simp add: h1(2) t0_def)
  have e2: "s2 = fold kbd_byte (release_bytes 1 sc) t1" by (simp add: h2(2) t1_def release_bytes_def)
  have l: "last_key t0 \<noteq> Some (sc, False)" using s(3) unfolding k0(2) by (simp add: last_key_def)
  have r0: "at_rest 1 sh t0" "ring_ok t0" "g_timer_ready t0" using s by (simp_all add: k0)
  have m1: "at_rest 1 sh s1" "last_key s1 = Some (sc, False)" "ring_ok s1" "key_queue s1 = key_queue s @ [c]"
    using make_key [OF r0(1) p l r0(2)] s(5) by (simp_all add: e1 k0)
  note u1 = make_tick [OF r0(1) p(1) l r0(3), folded e1]
  have r1: "at_rest 1 sh t1" "last_key t1 = Some (sc, False)" "ring_ok t1" using m1 by (simp_all add: k1)
  note u2 = release_tick [OF r1(1) p(1) r1(2) e2]
  note m2 = release_key [OF r1(1) p(1) r1(2,3), folded e2]
  have r2: "at_rest 1 sh t2" "last_key t2 = Some (sc, False)" "ring_ok t2" "key_queue t2 = key_queue s @ [c]" "g_timer_ready t2"
    using m2 m1(4) u1 u2 by (simp_all add: k2 k1)
  have d: "g_timer_ticks t2 - last_make_tick t2 = of_nat (j + k)" using u1 u2 by (simp add: k2 k1)
  have due: "g_timer_ticks t2 - last_make_tick t2 \<le> 2 \<longleftrightarrow> j + k \<le> 2"
    unfolding d word_le_nat_alt using n by (simp only: unat_of_nat) simp
  show ?thesis
  proof (cases "j + k \<le> 2")
    case True
    have "same_ring t2 s3" using make_again [OF r2(1) p(1) r2(2,5)] due True by (simp add: h3 t2_def)
    then show ?thesis using same_ringD [of t2 s3] r2 True by simp
  next
    case False
    have "key_queue s3 = take 127 (key_queue t2 @ [c])"
      using make_late [OF r2(1) p _ r2(5,3)] due False by (simp add: h3 t2_def)
    then show ?thesis using r2(4) s(5) False by simp
  qed
qed

definition demo_repeat :: "nat \<Rightarrow> nat \<Rightarrow> u8 list" where
  "demo_repeat j k = key_queue (keyboard_handle_irq i8042_io ((timer_on_tick ^^ k)
     (keyboard_handle_irq i8042_io ((timer_on_tick ^^ j)
       (keyboard_handle_irq i8042_io (kbd_boot 1 [(False, 0x26), (False, 0xA6), (False, 0x26)]))))))"

theorem repeated_key_dropped_set1_witness: "demo_repeat 1 1 = [108] \<and> demo_repeat 2 1 = [108, 108]"
proof -
  have c: "108 \<in> set typeable" "key_of 1 108 = (0x26, False)" by code_simp+
  have q: "chip_queue (ps2_hw (kbd_boot 1 [(False, 0x26), (False, 0xA6), (False, 0x26)]))
      = [(False, 0x26), (False, 0x26 OR 0x80), (False, 0x26)] @ []"
    by (simp add: kbd_boot_fields)
  have len: "length (key_queue (kbd_boot 1 [(False, 0x26), (False, 0xA6), (False, 0x26)])) < 126"
    by (simp add: kbd_boot_fields)
  have one: "(1::nat) = 1 \<or> (1::nat) = 2" by simp
  note rep = repeated_key_dropped_set1 [OF kbc.i8042_axioms kbd_boot_fields(1) [OF one] kbd_boot_fields(2,4,6) len c q _ refl refl refl,
      folded demo_repeat_def, unfolded kbd_boot_fields(3)]
  show ?thesis using rep [of 1 1] rep [of 2 1] by simp
qed

end
