(* ===== verification/Keyboard_Main.thy ===== *)
theory Keyboard_Main
  imports Keyboard_Props
begin

text \<open>
  The case of letters, the prefix bytes of the scan codes, and the editing of lines.
\<close>

unbundle bit_operations_syntax

section \<open>Letters\<close>

definition is_letter :: "u8 \<Rightarrow> bool" where
  "is_letter c \<longleftrightarrow> 97 \<le> c \<and> c \<le> 122"

lemma letters_set1: "list_all2 (\<lambda>l u. is_letter l \<longrightarrow> u = l - 32) scancode_map_lower scancode_map_upper"
  by code_simp

lemma letters_set2:
  "list_all2 (\<lambda>(a, l) (b, u). a = b \<and> (is_letter l \<longrightarrow> u = l - 32)) scancode_set2_map_lower scancode_set2_map_upper"
  by code_simp

lemma map_of_all2:
  "list_all2 (\<lambda>(a, l) (b, u). a = b \<and> P l u) xs ys \<Longrightarrow> map_of xs k = Some l \<Longrightarrow> \<exists>u. map_of ys k = Some u \<and> P l u"
  by (induction xs ys rule: list_all2_induct) (auto split: if_splits)

lemma to_char_shift:
  assumes "k = 1 \<or> k = 2" "is_letter (to_char k sc False)"
  shows "to_char k sc True = to_char k sc False - 32"
proof (cases "k = 1")
  case True
  have i: "unat sc < length scancode_map_lower" using assms True
    by (auto simp: to_char_def scancode_set1_to_char_def is_letter_def split: if_splits)
  show ?thesis using list_all2_nthD [OF letters_set1 i] assms True i
    by (simp add: to_char_def scancode_set1_to_char_def Let_def)
next
  case False
  then have c: "to_char k sc sh = scancode_set2_to_char sc sh" for sh using assms by (simp add: to_char_def)
  obtain l where l: "map_of scancode_set2_map_lower sc = Some l" "sc < 128" "to_char k sc False = l"
    using assms by (auto simp: c scancode_set2_to_char_def is_letter_def split: if_splits option.splits)
  obtain u where "map_of scancode_set2_map_upper sc = Some u" "is_letter l \<longrightarrow> u = l - 32"
    using map_of_all2 [where P = "\<lambda>l u. is_letter l \<longrightarrow> u = l - 32", OF letters_set2 l(1)] by blast
  then show ?thesis using l assms(2) by (simp add: c scancode_set2_to_char_def)
qed

lemma letter_arith:
  assumes "is_letter c"
  shows "65 \<le> c - 32" "c - 32 \<le> 90" "\<not> 97 \<le> c - 32" "c - 97 + 65 = c - 32" "c - 32 - 65 + 97 = c" "c - 32 \<noteq> 0" "c \<noteq> 0"
    "\<not> c \<le> 90"
proof -
  have c: "97 \<le> unat c" "unat c \<le> 122" using assms by (simp_all add: is_letter_def word_le_nat_alt)
  have u: "unat (c - 32) = unat c - 32" by (subst unat_sub) (use c in \<open>simp_all add: word_le_nat_alt\<close>)
  show "65 \<le> c - 32" "c - 32 \<le> 90" "\<not> 97 \<le> c - 32" "c - 32 \<noteq> 0" "c \<noteq> 0" "\<not> c \<le> 90"
    using c u by (auto simp: word_le_nat_alt)
  show "c - 97 + 65 = c - 32" "c - 32 - 65 + 97 = c" by simp_all
qed

text \<open>
  Letter keys follow shift and caps lock: in both scan code sets, pressing the key of a letter yields
  the capital letter exactly when one of shift and caps lock is active but not both, and with ALT
  held the lower-case letter with bit 7 set, whatever the case.
\<close>

theorem letter_case:
  assumes k: "k = 1 \<or> k = 2" "scancode_set s = k" and p: "plain_key k sc" "\<not> break_code s" "\<not> extended_code s"
    and c: "c = to_char k sc False" "is_letter c"
  shows "fst (keyboard_process_scancode sc s) =
    (if alt_pressed s then 0x80 OR c else if shift_pressed s \<noteq> caps_lock s then c - 32 else c)"
proof -
  have b: "sc AND 0x80 = 0" "sc \<noteq> 0xE0" "sc \<noteq> 0xF0" "sc \<noteq> 0xAA" "sc \<noteq> 0xB6" "sc \<noteq> 0x9D" "sc \<noteq> 0xB8"
    using p less_0x80 [of sc] by (auto simp: plain_key_def)
  note la = letter_arith [OF c(2)]
  have t: "to_char k sc True = c - 32" using to_char_shift [OF k(1)] c by simp
  have r: "fst (keyboard_process_scancode sc s) = key_char (to_char k sc (shift_pressed s)) s"
    using k p b by (auto simp: keyboard_process_scancode_def keyboard_process_scancode_set1_def
        keyboard_process_scancode_set2_def plain_key_def to_char_def)
  have v: "key_char (if shift_pressed s then c - 32 else c) s =
      (if alt_pressed s then 0x80 OR c else if shift_pressed s \<noteq> caps_lock s then c - 32 else c)"
    using la c(2) by (simp add: key_char_def Let_def apply_caps_def to_lower_char_def is_letter_def)
  show ?thesis using r v t c(1) by (cases "shift_pressed s") simp_all
qed

theorem letter_case_witness:
  "fst (keyboard_process_scancode 0x1C ((kbd_boot 2 [])\<lparr>caps_lock := True\<rparr>)) = 65"
proof -
  have p: "plain_key 2 0x1C" "97 = to_char 2 0x1C False" "is_letter 97" by code_simp+
  have f: "scancode_set (kbd_boot 2 []) = 2" "\<not> break_code (kbd_boot 2 [])" "\<not> extended_code (kbd_boot 2 [])"
    "\<not> shift_pressed (kbd_boot 2 [])" "\<not> alt_pressed (kbd_boot 2 [])"
    by (simp_all add: kbd_boot_def ps2_state.defs)
  show ?thesis using letter_case [of 2 "(kbd_boot 2 [])\<lparr>caps_lock := True\<rparr>" "0x1C" 97] p f by simp
qed

section \<open>Prefix bytes\<close>

text \<open>
  Prefix bytes never leak into later keys: after any sequence of bytes, the extended flag is set
  exactly when an 0xE0 has arrived since the last byte that is not a prefix, and in set 2 the break
  flag exactly when an 0xF0 has.
\<close>

definition is_prefix_byte :: "nat \<Rightarrow> u8 \<Rightarrow> bool" where
  "is_prefix_byte k b \<longleftrightarrow> b = 0xE0 \<or> k = 2 \<and> b = 0xF0"

theorem prefix_bytes_exact:
  assumes k: "k = 1 \<or> k = 2" "scancode_set s = k" and s: "\<not> extended_code s" "\<not> break_code s"
    and t: "t = fold (\<lambda>b s. snd (keyboard_process_scancode b s)) bs s"
    and tail: "tail = takeWhile (is_prefix_byte k) (rev bs)"
  shows "scancode_set t = k \<and> (extended_code t \<longleftrightarrow> 0xE0 \<in> set tail) \<and> (break_code t \<longleftrightarrow> k = 2 \<and> 0xF0 \<in> set tail)"
  unfolding t tail
proof (induction bs rule: rev_induct)
  case Nil
  then show ?case using k s by simp
next
  case (snoc b bs)
  let ?u = "fold (\<lambda>b s. snd (keyboard_process_scancode b s)) bs s"
  show ?case
  proof (cases "k = 1")
    case True
    then show ?thesis using snoc
      by (auto simp: keyboard_process_scancode_def keyboard_process_scancode_set1_def is_prefix_byte_def)
  next
    case False
    then have "k = 2" using k by simp
    then show ?thesis using snoc
      by (auto simp: keyboard_process_scancode_def keyboard_process_scancode_set2_def is_prefix_byte_def)
  qed
qed

theorem prefix_bytes_exact_witness:
  "extended_code (fold (\<lambda>b s. snd (keyboard_process_scancode b s)) [0xE0, 0xF0] (kbd_boot 2 []))
   \<and> \<not> extended_code (fold (\<lambda>b s. snd (keyboard_process_scancode b s)) [0xE0, 0xF0, 0x75] (kbd_boot 2 []))"
proof -
  have f: "scancode_set (kbd_boot 2 []) = 2" "\<not> extended_code (kbd_boot 2 [])" "\<not> break_code (kbd_boot 2 [])"
    by (simp_all add: kbd_boot_def ps2_state.defs)
  show ?thesis
    using prefix_bytes_exact [OF _ f refl refl, of "[0xE0, 0xF0]"] prefix_bytes_exact [OF _ f refl refl, of "[0xE0, 0xF0, 0x75]"]
    by (simp add: is_prefix_byte_def)
qed

section \<open>Editing a line\<close>

definition edit :: "cstr \<Rightarrow> u8 \<Rightarrow> cstr" where
  "edit line c = (if c = 8 then butlast line else line @ [c])"

lemma get_char_queued:
  assumes "ring_ok s" "key_queue s = c # q"
  shows "\<exists>t. keyboard_get_char io irqs s = Some (c, irqs, t) \<and> ring_ok t \<and> key_queue t = q \<and> m_screen t = m_screen s"
proof -
  let ?t = "s\<lparr>key_tail := (key_tail s + 1) mod 128\<rparr>"
  have "keyboard_try_get_char io s = (Some c, ?t)"
    using pop_queue(2) [OF assms] by (simp add: keyboard_try_get_char_def)
  then show ?thesis using pop_queue(3) [OF assms]
    by (cases irqs) auto
qed

lemma emit_screen_ring: "ring_ok (emit_screen x s) = ring_ok s" "key_queue (emit_screen x s) = key_queue s"
  by (simp_all add: emit_screen_def ring_ok_def key_queue_def ring_len_def)

lemma read_line_queued:
  assumes "ring_ok s" "key_queue s = typed @ 10 # rest" "10 \<notin> set typed" "int (length line + length typed) < max_len - 1"
  shows "\<exists>t. kbd_read_line_loop io max_len line irqs s = Some (foldl edit line typed, irqs, t)
    \<and> ring_ok t \<and> key_queue t = rest"
  using assms
proof (induction typed arbitrary: s line)
  case Nil
  obtain t where t: "keyboard_get_char io irqs s = Some (10, irqs, t)" "ring_ok t" "key_queue t = rest"
    using get_char_queued [of s 10 rest io irqs] Nil by auto
  then show ?case using Nil by (subst kbd_read_line_loop.simps) (simp add: emit_screen_ring)
next
  case (Cons c typed)
  obtain t where t: "keyboard_get_char io irqs s = Some (c, irqs, t)" "ring_ok t" "key_queue t = typed @ 10 # rest"
    using get_char_queued [of s c "typed @ 10 # rest" io irqs] Cons.prems(1,2) by auto
  have c10: "c \<noteq> 10" using Cons.prems(3) by auto
  let ?u = "if c = 8 then (if line \<noteq> [] then emit_screen [8] t else t) else emit_screen [c] t"
  have "kbd_read_line_loop io max_len line irqs s = kbd_read_line_loop io max_len (edit line c) irqs ?u"
    using Cons.prems(4) t(1) c10 by (subst kbd_read_line_loop.simps) (simp add: edit_def)
  moreover have "ring_ok ?u" "key_queue ?u = typed @ 10 # rest" using t by (simp_all add: emit_screen_ring)
  moreover have "int (length (edit line c) + length typed) < max_len - 1" 
  proof -
    have "length (edit line c) \<le> length line + 1" by (simp add: edit_def le_diff_conv)
    then show ?thesis using Cons.prems(4) by simp
  qed
  ultimately show ?case using Cons.IH [of ?u "edit line c"] Cons.prems(3) by simp
qed

text \<open>The NUL that the source stores after the line always fits into the buffer.\<close>

lemma read_line_fits:
  assumes "kbd_read_line_loop io max_len line irqs s = Some (r, irqs', t)" "int (length line) < max_len"
  shows "int (length r) < max_len"
proof -
  have "int (length line) < max_len \<longrightarrow> int (length (fst out)) < max_len"
    if "kbd_read_line_loop io max_len line irqs s = Some out" for out
  proof (rule kbd_read_line_loop.raw_induct [where P = "\<lambda>io max_len line irqs s out. int (length line) < max_len
      \<longrightarrow> int (length (fst out)) < max_len", OF _ that], goal_cases)
    case (1 loop io max_len line irqs s out)
    show ?case
    proof (cases "int (length line) < max_len - 1")
      case True
      obtain c irqs' s' where g: "keyboard_get_char io irqs s = Some (c, irqs', s')"
        using 1(2) True by (cases "keyboard_get_char io irqs s") auto
      consider "out = (line, irqs', emit_screen [10] s')" | "loop io max_len (butlast line) irqs' (emit_screen [8] s') = Some out"
        | "loop io max_len line irqs' s' = Some out" | "loop io max_len (line @ [c]) irqs' (emit_screen [c] s') = Some out"
      proof -
        have "(if c = 10 then Some (line, irqs', emit_screen [10] s')
            else if c = 8 then (if line \<noteq> [] then loop io max_len (butlast line) irqs' (emit_screen [8] s') else loop io max_len line irqs' s')
            else loop io max_len (line @ [c]) irqs' (emit_screen [c] s')) = Some out"
          using 1(2) by (simp only: True g if_True Option.bind_lunit prod.case)
        then show thesis using that by (metis option.inject)
      qed
      then show ?thesis
        using True 1(1) [of io max_len "butlast line"] 1(1) [of io max_len line] 1(1) [of io max_len "line @ [c]"] by cases simp_all
    qed (use 1(2) in auto)
  qed
  from this [OF assms(1)] assms(2) show ?thesis by simp
qed

text \<open>
  C33: Reading a line returns the line as edited: if a newline is among the buffered characters and the
  characters before it fit into the buffer, \<open>keyboard_read_line\<close> returns without waiting, each
  backspace has removed the character before it, and the characters after the newline stay in the
  buffer.
\<close>

theorem read_line_edits:
  assumes s: "ring_ok s" "10 \<in> set (key_queue s)"
    and typed: "typed = takeWhile (\<lambda>c. c \<noteq> 10) (key_queue s)" "int (length typed) < max_len - 1"
  shows "\<exists>t. keyboard_read_line io max_len irqs s = Some (foldl edit [] typed, irqs, t) \<and> ring_ok t
    \<and> key_queue s = typed @ 10 # key_queue t \<and> int (length (foldl edit [] typed)) < max_len"
proof -
  obtain a b where ab: "key_queue s = a @ 10 # b" "10 \<notin> set a" using split_list_first [OF s(2)] by blast
  have ty: "typed = a" unfolding typed(1) ab(1) using ab(2) by (subst takeWhile_append2) auto
  obtain t where t: "kbd_read_line_loop io max_len [] irqs s = Some (foldl edit [] a, irqs, t)" "ring_ok t" "key_queue t = b"
    using read_line_queued [OF s(1) ab, of "[]" max_len io irqs] typed(2) ty by auto
  then show ?thesis using read_line_fits [OF t(1)] typed(2) ab ty by (simp add: keyboard_read_line_def)
qed

theorem read_line_edits_witness:
  "\<exists>t. keyboard_read_line i8042_io 80 [] (fold push_char (ascii ''dirr'' @ [8, 10]) (kbd_boot 2 [])) = Some (ascii ''dir'', [], t)"
proof -
  let ?s = "fold push_char (ascii ''dirr'' @ [8, 10]) (kbd_boot 2 [])"
  have q: "ring_ok ?s" "key_queue ?s = ascii ''dirr'' @ [8, 10]"
    using ring.push_all [OF kbd_boot_fields(2), of "ascii ''dirr'' @ [8, 10]" 2 "[]"] kbd_boot_fields(3) [of 2 "[]"]
    by (simp_all add: ascii_def)
  have t: "ascii ''dirr'' @ [8] = takeWhile (\<lambda>c. c \<noteq> 10) (key_queue ?s)" unfolding q(2) by (simp add: ascii_def)
  show ?thesis using read_line_edits [OF q(1) _ t, of 80 i8042_io "[]"] unfolding q(2)
    by (auto simp: ascii_def edit_def)
qed

end
