(* ===== verification/Mouse.thy ===== *)
theory Mouse
  imports Keyboard_Main
begin

text \<open>
  The PS/2 mouse driver, \<^verbatim>\<open>src/kernel/input/mouse.c\<close>: the initialisation dialogue, the assembly of
  three-byte packets in the interrupt handler, and the cursor, which is kept inside the screen. The
  size of the screen is what \<^verbatim>\<open>video_get_width\<close> and \<^verbatim>\<open>video_get_height\<close> return once the video driver
  is initialised, which the kernel does before it enables interrupts.
\<close>

unbundle bit_operations_syntax

section \<open>State and operations\<close>

record mouse_state_t =
  ms_x :: int
  ms_y :: int
  ms_dx :: int
  ms_dy :: int
  ms_buttons :: u32
  ms_seq :: u32
  ms_present :: bool

record 'h mouse_kernel = "'h kbd_state" +
  g_mouse_state :: mouse_state_t
  g_packet :: "u8 list"
  g_packet_index :: nat
  g_packet_logged :: bool
  graphics_mode :: bool
  fb_width :: int
  fb_height :: int

definition TEXT_SCREEN_WIDTH :: int where "TEXT_SCREEN_WIDTH = 80"
definition TEXT_SCREEN_HEIGHT :: int where "TEXT_SCREEN_HEIGHT = 25"
definition FONT_W :: int where "FONT_W = 8"
definition FONT_H :: int where "FONT_H = 8"

definition video_get_width :: "('h, 'a) mouse_kernel_scheme \<Rightarrow> int" where
  "video_get_width s = (if graphics_mode s then fb_width s else TEXT_SCREEN_WIDTH * FONT_W)"

definition video_get_height :: "('h, 'a) mouse_kernel_scheme \<Rightarrow> int" where
  "video_get_height s = (if graphics_mode s then fb_height s else TEXT_SCREEN_HEIGHT * FONT_H)"

definition mouse_expect_ack :: "'h port_io \<Rightarrow> ('h, 'a) mouse_kernel_scheme \<Rightarrow> bool \<times> ('h, 'a) mouse_kernel_scheme" where
  "mouse_expect_ack io s =
     (case ps2_read_data io s of (None, s) \<Rightarrow> (False, s) | (Some data, s) \<Rightarrow> (data = 0xFA, s))"

definition mouse_apply_packet :: "('h, 'a) mouse_kernel_scheme \<Rightarrow> ('h, 'a) mouse_kernel_scheme" where
  "mouse_apply_packet s =
     (let b0 = g_packet s ! 0; b1 = g_packet s ! 1; b2 = g_packet s ! 2 in
      if b0 AND 0xC0 \<noteq> 0 then s
      else let dx = (if b0 AND 0x10 \<noteq> 0 then uint b1 - 256 else uint b1);
               dy = (if b0 AND 0x20 \<noteq> 0 then uint b2 - 256 else uint b2);
               width = (if video_get_width s < 1 then 1 else video_get_width s);
               height = (if video_get_height s < 1 then 1 else video_get_height s);
               m = g_mouse_state s;
               x = ms_x m + dx;
               y = ms_y m - dy;
               x = (if x < 0 then 0 else if x \<ge> width then width - 1 else x);
               y = (if y < 0 then 0 else if y \<ge> height then height - 1 else y);
               s = s\<lparr>g_mouse_state := m\<lparr>ms_dx := dx, ms_dy := - dy, ms_x := x, ms_y := y,
                       ms_buttons := ucast (b0 AND 0x07), ms_seq := ms_seq m + 1\<rparr>\<rparr>
           in if g_packet_logged s then s
              else (log_serial_raw (ascii ''[mouse] first packet received'' @ [newline]) s)\<lparr>g_packet_logged := True\<rparr>)"

definition mouse_fail :: "string \<Rightarrow> string \<Rightarrow> ('h, 'a) mouse_kernel_scheme \<Rightarrow> ('h, 'a) mouse_kernel_scheme" where
  "mouse_fail code msg s = log_serial_raw (ascii msg @ [newline]) (log_serial_raw (ascii code @ [newline]) s)"

definition mouse_init :: "'h port_io \<Rightarrow> ('h, 'a) mouse_kernel_scheme \<Rightarrow> ('h, 'a) mouse_kernel_scheme" where
  "mouse_init io s =
     (let s = s\<lparr>g_mouse_state := \<lparr>ms_x = video_get_width s div 2, ms_y = video_get_height s div 2, ms_dx = 0, ms_dy = 0,
                  ms_buttons = 0, ms_seq = 0, ms_present = False\<rparr>,
                g_packet_index := 0, g_packet_logged := False\<rparr>;
          s = ps2_drain_output io 32 s;
          (ok, s) = ps2_wait_input_empty io s in
      if \<not> ok then mouse_fail ''MOUSE201 controller-busy'' ''[mouse] controller busy, mouse disabled'' s
      else let s = ps2_outb io PS2_PORT_STATUS PS2_CMD_ENABLE_AUX_PORT s;
               (command_byte, s) = ps2_read_controller_command_byte io 0x00 s;
               command_byte = (command_byte OR 0x02) AND NOT 0x20;
               (ok, s) = ps2_write_controller_command_byte io command_byte s in
      if \<not> ok then mouse_fail ''MOUSE202 command-byte-update-failed'' ''[mouse] command byte update failed'' s
      else let s = ps2_drain_output io 32 s;
               (ok, s) = ps2_write_aux_device io 0xF6 s;
               (ok, s) = (if ok then mouse_expect_ack io s else (False, s)) in
      if \<not> ok then mouse_fail ''MOUSE203 default-settings-ack-missing'' ''[mouse] default-settings ACK missing'' s
      else let (ok, s) = ps2_write_aux_device io 0xF4 s;
               (ok, s) = (if ok then mouse_expect_ack io s else (False, s)) in
      if \<not> ok then mouse_fail ''MOUSE204 enable-data-ack-missing'' ''[mouse] enable-data ACK missing'' s
      else log_serial_raw (ascii ''[mouse] PS/2 mouse enabled on IRQ12'' @ [newline])
             (s\<lparr>g_mouse_state := (g_mouse_state s)\<lparr>ms_present := True\<rparr>\<rparr>))"

definition mouse_handle_irq :: "'h port_io \<Rightarrow> ('h, 'a) mouse_kernel_scheme \<Rightarrow> ('h, 'a) mouse_kernel_scheme" where
  "mouse_handle_irq io s =
     (let (status, s) = ps2_read_status io s in
      if status AND PS2_STATUS_OUTPUT_FULL = 0 then s
      else let (data, s) = ps2_inb io PS2_PORT_DATA s in
      if status AND PS2_STATUS_AUX_DATA = 0 then s
      else if \<not> ms_present (g_mouse_state s) then s
      else if g_packet_index s = 0 \<and> data AND 0x08 = 0 then s
      else let s = s\<lparr>g_packet := (g_packet s)[g_packet_index s := data], g_packet_index := g_packet_index s + 1\<rparr> in
      if g_packet_index s = 3 then mouse_apply_packet (s\<lparr>g_packet_index := 0\<rparr>) else s)"

definition mouse_get_state :: "bool \<Rightarrow> ('h, 'a) mouse_kernel_scheme \<Rightarrow> mouse_state_t option" where
  "mouse_get_state out_ok s = (if out_ok then Some (g_mouse_state s) else None)"

section \<open>The cursor stays on the screen\<close>

definition mouse_ok :: "('h, 'a) mouse_kernel_scheme \<Rightarrow> bool" where
  "mouse_ok s \<longleftrightarrow> 1 \<le> video_get_width s \<and> 1 \<le> video_get_height s \<and> length (g_packet s) = 3 \<and> g_packet_index s < 3
     \<and> 0 \<le> ms_x (g_mouse_state s) \<and> ms_x (g_mouse_state s) < video_get_width s
     \<and> 0 \<le> ms_y (g_mouse_state s) \<and> ms_y (g_mouse_state s) < video_get_height s"

lemma ps2_keeps_mouse [simp]:
  "snd (ps2_inb io p s) = s\<lparr>ps2_hw := snd (pio_inb io p (ps2_hw s))\<rparr>"
  "snd (ps2_read_status io s) = s\<lparr>ps2_hw := snd (pio_inb io PS2_PORT_STATUS (ps2_hw s))\<rparr>"
  by (simp_all add: ps2_inb_def ps2_read_status_def split_beta)

lemma mouse_ok_hw [simp]: "mouse_ok (s\<lparr>ps2_hw := h\<rparr>) = mouse_ok s"
  by (simp add: mouse_ok_def video_get_width_def video_get_height_def)

lemma append_string_mouse:
  "g_mouse_state (append_string t s) = g_mouse_state s" "g_packet (append_string t s) = g_packet s"
  "g_packet_index (append_string t s) = g_packet_index s" "graphics_mode (append_string t s) = graphics_mode s"
  "fb_width (append_string t s) = fb_width s" "fb_height (append_string t s) = fb_height s"
  "ps2_hw (append_string t s) = ps2_hw s"
  by (induction t arbitrary: s) (simp_all add: append_char_def)

lemma log_mouse [simp]:
  "g_mouse_state (log_serial_raw t s) = g_mouse_state s" "g_packet (log_serial_raw t s) = g_packet s"
  "g_packet_index (log_serial_raw t s) = g_packet_index s" "graphics_mode (log_serial_raw t s) = graphics_mode s"
  "fb_width (log_serial_raw t s) = fb_width s" "fb_height (log_serial_raw t s) = fb_height s"
  "ps2_hw (log_serial_raw t s) = ps2_hw s"
  by (simp_all add: log_serial_raw_def write_string_emit emit_dest_def emit_serial_def emit_screen_def append_string_mouse)

text \<open>The nearest coordinate inside the screen, and the signed nine-bit movements of a packet.\<close>

definition clamp :: "int \<Rightarrow> int \<Rightarrow> int" where
  "clamp n v = max 0 (min (n - 1) v)"

definition move9 :: "bool \<Rightarrow> u8 \<Rightarrow> int" where
  "move9 neg b = (if neg then uint b - 256 else uint b)"

lemma clamp_range: "1 \<le> n \<Longrightarrow> 0 \<le> clamp n v \<and> clamp n v < n"
  by (simp add: clamp_def)

lemma clamp_if: "1 \<le> n \<Longrightarrow> (if v < 0 then 0 else if v \<ge> n then n - 1 else v) = clamp n v"
  by (simp add: clamp_def)

lemma apply_packet_state:
  assumes d: "1 \<le> video_get_width s" "1 \<le> video_get_height s" and ov: "g_packet s ! 0 AND 0xC0 = 0"
  shows "g_mouse_state (mouse_apply_packet s) = (g_mouse_state s)\<lparr>
      ms_dx := move9 (g_packet s ! 0 AND 0x10 \<noteq> 0) (g_packet s ! 1),
      ms_dy := - move9 (g_packet s ! 0 AND 0x20 \<noteq> 0) (g_packet s ! 2),
      ms_x := clamp (video_get_width s) (ms_x (g_mouse_state s) + move9 (g_packet s ! 0 AND 0x10 \<noteq> 0) (g_packet s ! 1)),
      ms_y := clamp (video_get_height s) (ms_y (g_mouse_state s) - move9 (g_packet s ! 0 AND 0x20 \<noteq> 0) (g_packet s ! 2)),
      ms_buttons := ucast (g_packet s ! 0 AND 0x07), ms_seq := ms_seq (g_mouse_state s) + 1\<rparr>"
proof -
  have w: "(if video_get_width s < 1 then 1 else video_get_width s) = video_get_width s"
    "(if video_get_height s < 1 then 1 else video_get_height s) = video_get_height s" using d by simp_all
  show ?thesis
    unfolding mouse_apply_packet_def Let_def w clamp_if [OF d(1)] clamp_if [OF d(2)] move9_def [symmetric]
    using ov by simp
qed

lemma apply_packet_frame:
  "g_packet (mouse_apply_packet s) = g_packet s" "g_packet_index (mouse_apply_packet s) = g_packet_index s"
  "video_get_width (mouse_apply_packet s) = video_get_width s" "video_get_height (mouse_apply_packet s) = video_get_height s"
  "g_packet s ! 0 AND 0xC0 \<noteq> 0 \<Longrightarrow> mouse_apply_packet s = s"
  unfolding mouse_apply_packet_def Let_def video_get_width_def video_get_height_def by simp_all

lemma apply_packet_ok: "mouse_ok s \<Longrightarrow> mouse_ok (mouse_apply_packet s)"
  using apply_packet_state [of s] apply_packet_frame [of s] clamp_range [of "video_get_width s"] clamp_range [of "video_get_height s"]
  by (cases "g_packet s ! 0 AND 0xC0 = 0") (simp_all add: mouse_ok_def)

lemma store_byte_ok:
  assumes "mouse_ok s"
  shows "g_packet_index s \<noteq> 2 \<Longrightarrow> mouse_ok (s\<lparr>g_packet := (g_packet s)[g_packet_index s := b], g_packet_index := g_packet_index s + 1\<rparr>)"
    "mouse_ok (s\<lparr>g_packet := (g_packet s)[g_packet_index s := b], g_packet_index := 0\<rparr>)"
  using assms by (auto simp: mouse_ok_def video_get_width_def video_get_height_def)

lemma handle_irq_ok:
  assumes ok: "mouse_ok s" shows "mouse_ok (mouse_handle_irq io s)"
proof -
  obtain v s1 where s1: "ps2_read_status io s = (v, s1)" by fastforce
  obtain d s2 where s2: "ps2_inb io PS2_PORT_DATA s1 = (d, s2)" by fastforce
  have ok1: "mouse_ok s1" using ok ps2_keeps_mouse(2) [of io s] by (simp add: s1)
  have ok2: "mouse_ok s2" using ok1 ps2_keeps_mouse(1) [of io PS2_PORT_DATA s1] by (simp add: s2)
  show ?thesis unfolding mouse_handle_irq_def s1 s2 Let_def prod.case
    using ok1 ok2 store_byte_ok(1) [OF ok2, of d] apply_packet_ok [OF store_byte_ok(2) [OF ok2, of d]] by auto
qed

text \<open>
  C32: The mouse cursor never leaves the screen: whatever bytes the controller delivers, in any order and
  however the stream is cut or corrupted, after any number of interrupts the cursor is inside the
  screen and the packet buffer is within bounds.
\<close>

theorem mouse_stays_on_screen:
  assumes "mouse_ok s" shows "mouse_ok ((mouse_handle_irq io ^^ n) s)"
  using assms handle_irq_ok by (induction n) auto

section \<open>Packets\<close>

definition mouse_byte :: "u8 \<Rightarrow> ('h, 'a) mouse_kernel_scheme \<Rightarrow> ('h, 'a) mouse_kernel_scheme" where
  "mouse_byte data s =
     (if \<not> ms_present (g_mouse_state s) then s
      else if g_packet_index s = 0 \<and> data AND 0x08 = 0 then s
      else let s = s\<lparr>g_packet := (g_packet s)[g_packet_index s := data], g_packet_index := g_packet_index s + 1\<rparr> in
      if g_packet_index s = 3 then mouse_apply_packet (s\<lparr>g_packet_index := 0\<rparr>) else s)"

context i8042
begin

lemma mouse_irq_byte:
  assumes "ps2_queue (ps2_hw s) = (True, b) # q"
  shows "\<exists>h. ps2_queue h = q \<and> mouse_handle_irq io s = mouse_byte b (s\<lparr>ps2_hw := h\<rparr>)"
proof -
  obtain v s1 where s1: "ps2_read_status io s = (v, s1)" by fastforce
  obtain h1 where h1: "s1 = s\<lparr>ps2_hw := h1\<rparr>" "ps2_queue h1 = ps2_queue (ps2_hw s)" using read_status(1) [OF s1] by blast
  have st: "v AND PS2_STATUS_OUTPUT_FULL \<noteq> 0" "v AND PS2_STATUS_AUX_DATA \<noteq> 0" using read_status(2,3) [OF s1] assms by auto
  obtain h where h: "ps2_inb io PS2_PORT_DATA s1 = (b, s1\<lparr>ps2_hw := h\<rparr>)" "ps2_queue h = q"
    using read_data_port [of s1 True b q] h1 assms by auto
  have "mouse_handle_irq io s = mouse_byte b (s1\<lparr>ps2_hw := h\<rparr>)"
    using st unfolding mouse_handle_irq_def mouse_byte_def s1 h(1) Let_def prod.case by simp
  then show ?thesis using h(2) h1(1) by (intro exI [of _ h]) simp
qed

lemma mouse_skip:
  "g_packet_index s = 0 \<Longrightarrow> \<forall>b \<in> set junk. b AND 0x08 = 0 \<Longrightarrow> ps2_queue (ps2_hw s) = map (Pair True) junk @ q \<Longrightarrow>
     \<exists>h. (mouse_handle_irq io ^^ length junk) s = s\<lparr>ps2_hw := h\<rparr> \<and> ps2_queue h = q"
proof (induction junk arbitrary: s)
  case Nil
  then show ?case by (intro exI [of _ "ps2_hw s"]) simp
next
  case (Cons b junk)
  obtain h where h: "ps2_queue h = map (Pair True) junk @ q" "mouse_handle_irq io s = mouse_byte b (s\<lparr>ps2_hw := h\<rparr>)"
    using mouse_irq_byte [of s b "map (Pair True) junk @ q"] Cons.prems(3) by auto
  have "mouse_byte b (s\<lparr>ps2_hw := h\<rparr>) = s\<lparr>ps2_hw := h\<rparr>" using Cons.prems(1,2) by (simp add: mouse_byte_def)
  moreover obtain g where "(mouse_handle_irq io ^^ length junk) (s\<lparr>ps2_hw := h\<rparr>) = s\<lparr>ps2_hw := h, ps2_hw := g\<rparr>" "ps2_queue g = q"
    using Cons.IH [of "s\<lparr>ps2_hw := h\<rparr>"] Cons.prems h(1) by auto
  ultimately have "(mouse_handle_irq io ^^ length (b # junk)) s = s\<lparr>ps2_hw := g\<rparr> \<and> ps2_queue g = q"
    using h(2) by (simp add: funpow_Suc_right del: funpow.simps)
  then show ?case by blast
qed

end

lemma apply_packet_hw: "ps2_hw (mouse_apply_packet s) = ps2_hw s"
  unfolding mouse_apply_packet_def Let_def by simp

text \<open>
  A mouse packet moves the cursor by exactly its two signed nine-bit counts, clamped to the screen (up
  is negative), and reports the three buttons: three interrupts with the bytes of a packet, starting at
  a packet boundary, take the state to that result and leave the driver at the next boundary; bytes
  that cannot start a packet are skipped before it.
\<close>

theorem mouse_packet_exact:
  assumes c: "i8042 io ps2_queue" and s: "mouse_ok s" "ms_present (g_mouse_state s)" "g_packet_index s = 0"
    and j: "\<forall>b \<in> set junk. b AND 0x08 = 0" and b: "b0 AND 0x08 \<noteq> 0" "b0 AND 0xC0 = 0"
    and q: "ps2_queue (ps2_hw s) = map (Pair True) (junk @ [b0, b1, b2]) @ q"
    and t: "t = (mouse_handle_irq io ^^ (length junk + 3)) s"
  shows "g_mouse_state t = (g_mouse_state s)\<lparr>
      ms_dx := move9 (b0 AND 0x10 \<noteq> 0) b1, ms_dy := - move9 (b0 AND 0x20 \<noteq> 0) b2,
      ms_x := clamp (video_get_width s) (ms_x (g_mouse_state s) + move9 (b0 AND 0x10 \<noteq> 0) b1),
      ms_y := clamp (video_get_height s) (ms_y (g_mouse_state s) - move9 (b0 AND 0x20 \<noteq> 0) b2),
      ms_buttons := ucast (b0 AND 0x07), ms_seq := ms_seq (g_mouse_state s) + 1\<rparr>
    \<and> g_packet_index t = 0 \<and> ps2_queue (ps2_hw t) = q"
proof -
  note irq = i8042.mouse_irq_byte [OF c]
  obtain h0 where h0: "(mouse_handle_irq io ^^ length junk) s = s\<lparr>ps2_hw := h0\<rparr>" "ps2_queue h0 = [(True, b0), (True, b1), (True, b2)] @ q"
    using i8042.mouse_skip [OF c s(3) j, of "[(True, b0), (True, b1), (True, b2)] @ q"] q by auto
  have len: "length (g_packet s) = 3" using s(1) by (simp add: mouse_ok_def)
  obtain h1 where h1: "ps2_queue h1 = [(True, b1), (True, b2)] @ q"
    "mouse_handle_irq io (s\<lparr>ps2_hw := h0\<rparr>) = mouse_byte b0 (s\<lparr>ps2_hw := h1\<rparr>)"
    using irq [of "s\<lparr>ps2_hw := h0\<rparr>" b0 "[(True, b1), (True, b2)] @ q"] h0(2) by auto
  define s1 where "s1 = s\<lparr>ps2_hw := h1, g_packet := (g_packet s)[0 := b0], g_packet_index := 1\<rparr>"
  have e1: "mouse_byte b0 (s\<lparr>ps2_hw := h1\<rparr>) = s1" using s b by (simp add: mouse_byte_def s1_def Let_def)
  obtain h2 where h2: "ps2_queue h2 = [(True, b2)] @ q" "mouse_handle_irq io s1 = mouse_byte b1 (s1\<lparr>ps2_hw := h2\<rparr>)"
    using irq [of s1 b1 "[(True, b2)] @ q"] h1(1) by (auto simp: s1_def)
  define s2 where "s2 = s\<lparr>ps2_hw := h2, g_packet := (g_packet s)[0 := b0, 1 := b1], g_packet_index := 2\<rparr>"
  have e2: "mouse_byte b1 (s1\<lparr>ps2_hw := h2\<rparr>) = s2" using s by (simp add: mouse_byte_def s1_def s2_def Let_def)
  obtain h3 where h3: "ps2_queue h3 = q" "mouse_handle_irq io s2 = mouse_byte b2 (s2\<lparr>ps2_hw := h3\<rparr>)"
    using irq [of s2 b2 q] h2(1) by (auto simp: s2_def)
  define s3 where "s3 = s\<lparr>ps2_hw := h3, g_packet := (g_packet s)[0 := b0, 1 := b1, 2 := b2], g_packet_index := 0\<rparr>"
  have e3: "mouse_byte b2 (s2\<lparr>ps2_hw := h3\<rparr>) = mouse_apply_packet s3" using s by (simp add: mouse_byte_def s2_def s3_def Let_def)
  have "(mouse_handle_irq io ^^ (length junk + 3)) s
      = mouse_handle_irq io (mouse_handle_irq io (mouse_handle_irq io ((mouse_handle_irq io ^^ length junk) s)))"
    by (simp add: eval_nat_numeral)
  then have t3: "t = mouse_apply_packet s3" unfolding t h0 h1(2) e1 h2(2) e2 h3(2) e3 .
  have p: "g_packet s3 ! 0 = b0" "g_packet s3 ! 1 = b1" "g_packet s3 ! 2 = b2" "g_mouse_state s3 = g_mouse_state s"
    "video_get_width s3 = video_get_width s" "video_get_height s3 = video_get_height s" "g_packet_index s3 = 0" "ps2_hw s3 = h3"
    using len by (simp_all add: s3_def video_get_width_def video_get_height_def)
  have d: "1 \<le> video_get_width s3" "1 \<le> video_get_height s3" "g_packet s3 ! 0 AND 0xC0 = 0"
    using s(1) b(2) by (simp_all add: p mouse_ok_def)
  show ?thesis unfolding t3 apply_packet_state [OF d] p apply_packet_frame(2) apply_packet_hw h3(1) by simp
qed

definition mouse_boot :: "(bool \<times> u8) list \<Rightarrow> i8042_chip mouse_kernel" where
  "mouse_boot q = kbd_state.extend (kbd_boot 2 q)
     \<lparr>g_mouse_state = \<lparr>ms_x = 10, ms_y = 10, ms_dx = 0, ms_dy = 0, ms_buttons = 0, ms_seq = 0, ms_present = True\<rparr>,
      g_packet = [0, 0, 0], g_packet_index = 0, g_packet_logged = False, graphics_mode = True, fb_width = 800, fb_height = 600\<rparr>"

lemma mouse_boot_fields:
  "mouse_ok (mouse_boot q)" "ms_present (g_mouse_state (mouse_boot q))" "g_packet_index (mouse_boot q) = 0"
  "chip_queue (ps2_hw (mouse_boot q)) = q" "video_get_width (mouse_boot q) = 800" "video_get_height (mouse_boot q) = 600"
  "ms_x (g_mouse_state (mouse_boot q)) = 10" "ms_y (g_mouse_state (mouse_boot q)) = 10"
  by (simp_all add: mouse_boot_def kbd_state.defs mouse_ok_def video_get_width_def video_get_height_def kbd_boot_def ps2_state.defs
      timer_state.defs)

theorem mouse_stays_on_screen_witness:
  "mouse_ok ((mouse_handle_irq i8042_io ^^ 5) (mouse_boot [(True, 0x18), (False, 0x1C), (True, 0x01), (True, 0xFF), (True, 0x29)]))"
  by (rule mouse_stays_on_screen [OF mouse_boot_fields(1)])

theorem mouse_packet_exact_witness:
  "ms_x (g_mouse_state ((mouse_handle_irq i8042_io ^^ 4) (mouse_boot (map (Pair True) [0x07, 0x19, 0xF0, 0x05])))) = 0"
proof -
  have b: "\<forall>b \<in> set [0x07 :: u8]. b AND 0x08 = 0" "(0x19 :: u8) AND 0x08 \<noteq> 0" "(0x19 :: u8) AND 0xC0 = 0" by simp_all
  have "g_mouse_state ((mouse_handle_irq i8042_io ^^ (length [0x07 :: u8] + 3)) (mouse_boot (map (Pair True) [0x07, 0x19, 0xF0, 0x05])))
      = (g_mouse_state (mouse_boot (map (Pair True) [0x07, 0x19, 0xF0, 0x05])))\<lparr>
      ms_dx := -16, ms_dy := -5, ms_x := 0, ms_y := 5, ms_buttons := 1, ms_seq := ms_seq (g_mouse_state (mouse_boot (map (Pair True) [0x07, 0x19, 0xF0, 0x05]))) + 1\<rparr>"
    using mouse_packet_exact [OF kbc.i8042_axioms mouse_boot_fields(1-3) b _ refl, of "map (Pair True) [0x07, 0x19, 0xF0, 0x05]" "0xF0" "0x05" "[]"]
    by (simp add: mouse_boot_fields move9_def clamp_def)
  then show ?thesis by simp
qed

end
