(* ===== verification/Rtc.thy ===== *)
theory Rtc
  imports Serial
begin

text \<open>
  The real-time clock driver, \<^verbatim>\<open>src/kernel/time/rtc.c\<close>, over the port primitives. The driver reads the
  clock registers twice and starts over while the two readings differ; that loop has no bound of its
  own (its counter only counts polls of the update flag), so it is a partial function.

  The locale \<open>cmos\<close> states what the driver relies on in the MC146818: register selection, reading and
  writing, and that the registers only change when the clock is updated.
\<close>

unbundle bit_operations_syntax

section \<open>Registers and calendar\<close>

record rtc_time =
  rt_hours :: u8
  rt_minutes :: u8
  rt_seconds :: u8

record rtc_date =
  rd_year :: u16
  rd_month :: u8
  rd_day :: u8

definition CMOS_ADDR_PORT :: u16 where "CMOS_ADDR_PORT = 0x70"
definition CMOS_DATA_PORT :: u16 where "CMOS_DATA_PORT = 0x71"

definition rtc_read_reg :: "'h port_io \<Rightarrow> u8 \<Rightarrow> 'h \<Rightarrow> u8 \<times> 'h" where
  "rtc_read_reg io reg h = pio_inb io CMOS_DATA_PORT (pio_outb io CMOS_ADDR_PORT (0x80 OR reg) h)"

definition rtc_write_reg :: "'h port_io \<Rightarrow> u8 \<Rightarrow> u8 \<Rightarrow> 'h \<Rightarrow> 'h" where
  "rtc_write_reg io reg v h = pio_outb io CMOS_DATA_PORT v (pio_outb io CMOS_ADDR_PORT (0x80 OR reg) h)"

definition rtc_is_updating :: "'h port_io \<Rightarrow> 'h \<Rightarrow> bool \<times> 'h" where
  "rtc_is_updating io h = (let (v, h) = rtc_read_reg io 0x0A h in (v AND 0x80 \<noteq> 0, h))"

definition bcd_to_bin :: "u8 \<Rightarrow> u8" where
  "bcd_to_bin bcd = drop_bit 4 bcd * 10 + (bcd AND 0x0F)"

definition bin_to_bcd :: "u8 \<Rightarrow> u8" where
  "bin_to_bcd bin = push_bit 4 (bin div 10) OR (bin mod 10)"

definition is_leap_year :: "u16 \<Rightarrow> bool" where
  "is_leap_year year =
     (if year mod 400 = 0 then True
      else if year mod 100 = 0 then False
      else year mod 4 = 0)"

definition days_in_month :: "u16 \<Rightarrow> u8 \<Rightarrow> u8" where
  "days_in_month year month =
     (if month < 1 \<or> month > 12 then 0
      else if month = 2 \<and> is_leap_year year then 29
      else [31, 28, 31, 30, 31, 30, 31, 31, 30, 31, 30, 31] ! (unat month - 1))"

section \<open>Time\<close>

text \<open>\<^verbatim>\<open>while (rtc_is_updating() && --safety > 0) { }\<close>: the counter and the hardware afterwards.\<close>

fun rtc_wait :: "'h port_io \<Rightarrow> nat \<Rightarrow> 'h \<Rightarrow> nat \<times> 'h" where
  "rtc_wait io 0 h = (0, snd (rtc_is_updating io h))"
| "rtc_wait io (Suc safety) h =
     (let (busy, h) = rtc_is_updating io h in
      if \<not> busy then (Suc safety, h)
      else if safety > 0 then rtc_wait io safety h
      else (0, h))"

definition rtc_time_regs :: "'h port_io \<Rightarrow> 'h \<Rightarrow> (u8 \<times> u8 \<times> u8) \<times> 'h" where
  "rtc_time_regs io h =
     (let (sec, h) = rtc_read_reg io 0x00 h;
          (min, h) = rtc_read_reg io 0x02 h;
          (hour, h) = rtc_read_reg io 0x04 h
      in ((sec, min, hour), h))"

text \<open>The conversion and the checks after the loop; \<open>None\<close> is the return value 0. The byte of the hours
  carries the PM flag in bit 7 in 12-hour mode.\<close>

definition rtc_decode_hours :: "u8 \<Rightarrow> u8 \<Rightarrow> u8" where
  "rtc_decode_hours status_b hours =
     (let hours = (if status_b AND 0x04 = 0 then bcd_to_bin (hours AND 0x7F) OR (hours AND 0x80) else hours)
      in if status_b AND 0x02 = 0
         then let pm = (hours AND 0x80 \<noteq> 0); hours = hours AND 0x7F
              in if pm \<and> hours < 12 then hours + 12 else if \<not> pm \<and> hours = 12 then 0 else hours
         else hours AND 0x7F)"

definition rtc_decode_time :: "u8 \<Rightarrow> u8 \<times> u8 \<times> u8 \<Rightarrow> rtc_time option" where
  "rtc_decode_time status_b raw =
     (let (seconds, minutes, hours) = raw;
          hours = rtc_decode_hours status_b hours;
          (seconds, minutes) =
            (if status_b AND 0x04 = 0 then (bcd_to_bin seconds, bcd_to_bin minutes) else (seconds, minutes))
      in if hours > 23 \<or> minutes > 59 \<or> seconds > 59 then None
         else Some \<lparr>rt_hours = hours, rt_minutes = minutes, rt_seconds = seconds\<rparr>)"

text \<open>The loop of \<^verbatim>\<open>rtc_read_time\<close> and \<^verbatim>\<open>rtc_read_date\<close>, which only differ in the registers they read.\<close>

partial_function (option) rtc_read_loop ::
  "'h port_io \<Rightarrow> ('h \<Rightarrow> 'r \<times> 'h) \<Rightarrow> nat \<Rightarrow> 'h \<Rightarrow> ((u8 \<times> 'r) option \<times> 'h) option" where
  "rtc_read_loop io regs safety h =
     (let (safety, h) = rtc_wait io safety h in
      if safety = 0 then Some (None, h)
      else let (r1, h) = regs h;
               (status_b, h) = rtc_read_reg io 0x0B h;
               (safety, h) = rtc_wait io safety h in
      if safety = 0 then Some (None, h)
      else let (r2, h) = regs h in
      if r1 \<noteq> r2 then rtc_read_loop io regs safety h
      else Some (Some (status_b, r2), h))"

text \<open>\<open>out_ok\<close> says that the pointer is not null.\<close>

definition rtc_read_time :: "'h port_io \<Rightarrow> bool \<Rightarrow> 'h \<Rightarrow> (rtc_time option \<times> 'h) option" where
  "rtc_read_time io out_ok h =
     (if \<not> out_ok then Some (None, h)
      else map_option (\<lambda>(r, h). (case r of None \<Rightarrow> None | Some (status_b, raw) \<Rightarrow> rtc_decode_time status_b raw, h))
        (rtc_read_loop io (rtc_time_regs io) 100000 h))"

definition rtc_encode_hours :: "u8 \<Rightarrow> u8 \<Rightarrow> u8" where
  "rtc_encode_hours status_b h =
     (let hours = (if status_b AND 0x02 = 0
            then let hour12 = (if h mod 12 = 0 then 12 else h mod 12) in if h \<ge> 12 then hour12 OR 0x80 else hour12
            else h)
      in if status_b AND 0x04 = 0 then bin_to_bcd (hours AND 0x7F) OR (hours AND 0x80) else hours)"

definition rtc_encode_time :: "u8 \<Rightarrow> rtc_time \<Rightarrow> u8 \<times> u8 \<times> u8" where
  "rtc_encode_time status_b t =
     (let hours = rtc_encode_hours status_b (rt_hours t)
      in if status_b AND 0x04 = 0 then (bin_to_bcd (rt_seconds t), bin_to_bcd (rt_minutes t), hours)
         else (rt_seconds t, rt_minutes t, hours))"

definition rtc_set_time :: "'h port_io \<Rightarrow> rtc_time option \<Rightarrow> 'h \<Rightarrow> bool \<times> 'h" where
  "rtc_set_time io time h =
     (case time of None \<Rightarrow> (False, h)
      | Some t \<Rightarrow>
        if rt_hours t > 23 \<or> rt_minutes t > 59 \<or> rt_seconds t > 59 then (False, h)
        else let (status_b, h) = rtc_read_reg io 0x0B h;
                 (new_seconds, new_minutes, new_hours) = rtc_encode_time status_b t;
                 h = rtc_write_reg io 0x0B (status_b OR 0x80) h;
                 h = rtc_write_reg io 0x00 new_seconds h;
                 h = rtc_write_reg io 0x02 new_minutes h;
                 h = rtc_write_reg io 0x04 new_hours h;
                 h = rtc_write_reg io 0x0B status_b h
             in (True, h))"

section \<open>Date\<close>

definition rtc_date_regs :: "'h port_io \<Rightarrow> 'h \<Rightarrow> (u8 \<times> u8 \<times> u8 \<times> u8) \<times> 'h" where
  "rtc_date_regs io h =
     (let (day, h) = rtc_read_reg io 0x07 h;
          (month, h) = rtc_read_reg io 0x08 h;
          (year, h) = rtc_read_reg io 0x09 h;
          (century, h) = rtc_read_reg io 0x32 h
      in ((day, month, year, century), h))"

definition rtc_decode_date :: "u8 \<Rightarrow> u8 \<times> u8 \<times> u8 \<times> u8 \<Rightarrow> rtc_date option" where
  "rtc_decode_date status_b raw =
     (let (day, month, year, century) = raw;
          (day, month, year, century) =
            (if status_b AND 0x04 = 0
             then (bcd_to_bin day, bcd_to_bin month, bcd_to_bin year, bcd_to_bin century)
             else (day, month, year, century));
          full_year = (if century \<ge> 19 \<and> century \<le> 99 then ucast century * 100 + ucast year
                       else 2000 + ucast year)
      in if month < 1 \<or> month > 12 then None
         else if day < 1 \<or> day > days_in_month full_year month then None
         else Some \<lparr>rd_year = full_year, rd_month = month, rd_day = day\<rparr>)"

definition rtc_read_date :: "'h port_io \<Rightarrow> bool \<Rightarrow> 'h \<Rightarrow> (rtc_date option \<times> 'h) option" where
  "rtc_read_date io out_ok h =
     (if \<not> out_ok then Some (None, h)
      else map_option (\<lambda>(r, h). (case r of None \<Rightarrow> None | Some (status_b, raw) \<Rightarrow> rtc_decode_date status_b raw, h))
        (rtc_read_loop io (rtc_date_regs io) 100000 h))"

definition rtc_encode_date :: "u8 \<Rightarrow> rtc_date \<Rightarrow> u8 \<times> u8 \<times> u8 \<times> u8" where
  "rtc_encode_date status_b d =
     (let year = ucast (rd_year d mod 100); century = ucast (rd_year d div 100)
      in if status_b AND 0x04 = 0
         then (bin_to_bcd (rd_day d), bin_to_bcd (rd_month d), bin_to_bcd year, bin_to_bcd century)
         else (rd_day d, rd_month d, year, century))"

definition rtc_set_date :: "'h port_io \<Rightarrow> rtc_date option \<Rightarrow> 'h \<Rightarrow> bool \<times> 'h" where
  "rtc_set_date io date h =
     (case date of None \<Rightarrow> (False, h)
      | Some d \<Rightarrow>
        if rd_year d < 1980 \<or> rd_year d > 2099 then (False, h)
        else if rd_month d < 1 \<or> rd_month d > 12 then (False, h)
        else if rd_day d < 1 \<or> rd_day d > days_in_month (rd_year d) (rd_month d) then (False, h)
        else let (status_b, h) = rtc_read_reg io 0x0B h;
                 (day, month, year, century) = rtc_encode_date status_b d;
                 h = rtc_write_reg io 0x0B (status_b OR 0x80) h;
                 h = rtc_write_reg io 0x07 day h;
                 h = rtc_write_reg io 0x08 month h;
                 h = rtc_write_reg io 0x09 year h;
                 h = rtc_write_reg io 0x32 century h;
                 h = rtc_write_reg io 0x0B status_b h
             in (True, h))"

section \<open>Encoding and decoding\<close>

lemma bcd_roundtrip: "x < 100 \<Longrightarrow> bcd_to_bin (bin_to_bcd x) = x"
proof -
  have "\<forall>n \<in> set [0..<100]. bcd_to_bin (bin_to_bcd (of_nat n)) = of_nat n" by code_simp
  then have "n < 100 \<Longrightarrow> bcd_to_bin (bin_to_bcd (of_nat n)) = of_nat n" for n by (simp only: set_upt) auto
  from this [of "unat x"] show "x < 100 \<Longrightarrow> bcd_to_bin (bin_to_bcd x) = x" by (simp add: word_less_nat_alt)
qed

lemma hours_roundtrip:
  assumes "h < 24" shows "rtc_decode_hours sb (rtc_encode_hours sb h) = h"
proof -
  have e: "\<forall>n \<in> set [0..<24]. rtc_decode_hours 0 (rtc_encode_hours 0 (of_nat n)) = of_nat n
      \<and> rtc_decode_hours 2 (rtc_encode_hours 2 (of_nat n)) = of_nat n
      \<and> rtc_decode_hours 4 (rtc_encode_hours 4 (of_nat n)) = of_nat n
      \<and> rtc_decode_hours 6 (rtc_encode_hours 6 (of_nat n)) = of_nat n" by code_simp
  have "n < 24 \<Longrightarrow> c \<in> {0, 2, 4, 6} \<Longrightarrow> rtc_decode_hours c (rtc_encode_hours c (of_nat n)) = of_nat n" for n c
    using e by (simp only: set_upt) auto
  from this [of "unat h"] have e: "c \<in> {0, 2, 4, 6} \<Longrightarrow> rtc_decode_hours c (rtc_encode_hours c h) = h" for c
    using assms by (simp add: word_less_nat_alt)
  let ?c = "(if sb AND 2 = 0 then 0 else 2) OR (if sb AND 4 = 0 then 0 else 4 :: u8)"
  have "?c AND 2 = 0 \<longleftrightarrow> sb AND 2 = 0" "?c AND 4 = 0 \<longleftrightarrow> sb AND 4 = 0" "?c \<in> {0, 2, 4, 6}" by simp_all
  then show ?thesis using e [of ?c] by (simp add: rtc_decode_hours_def rtc_encode_hours_def cong: if_cong)
qed

lemma time_roundtrip:
  assumes "rt_hours t \<le> 23" "rt_minutes t \<le> 59" "rt_seconds t \<le> 59"
  shows "rtc_decode_time sb (rtc_encode_time sb t) = Some t"
proof -
  have "rt_hours t < 24" "rt_minutes t < 100" "rt_seconds t < 100" using assms by (simp_all add: word_less_nat_alt word_le_nat_alt)
  then show ?thesis using assms
    by (cases "sb AND 4 = 0") (simp_all add: rtc_decode_time_def rtc_encode_time_def hours_roundtrip bcd_roundtrip not_less Let_def)
qed

text \<open>The civil calendar, on natural numbers.\<close>

definition leap :: "nat \<Rightarrow> bool" where
  "leap y \<longleftrightarrow> 4 dvd y \<and> (\<not> 100 dvd y \<or> 400 dvd y)"

definition month_length :: "nat \<Rightarrow> nat \<Rightarrow> nat" where
  "month_length y m = (if m \<in> {4, 6, 9, 11} then 30 else if m = 2 then (if leap y then 29 else 28) else 31)"

lemma is_leap_year_eq: "is_leap_year y \<longleftrightarrow> leap (unat y)"
proof -
  have "y mod 400 = 0 \<longleftrightarrow> 400 dvd unat y" "y mod 100 = 0 \<longleftrightarrow> 100 dvd unat y" "y mod 4 = 0 \<longleftrightarrow> 4 dvd unat y"
    by (simp_all add: word_unat_eq_iff unat_mod dvd_eq_mod_eq_0)
  moreover have "400 dvd unat y \<Longrightarrow> 4 dvd unat y" by (erule dvd_trans [rotated]) simp
  ultimately show ?thesis by (auto simp: is_leap_year_def leap_def)
qed

lemma days_in_month_eq: "1 \<le> m \<Longrightarrow> m \<le> 12 \<Longrightarrow> unat (days_in_month y m) = month_length (unat y) (unat m)"
proof -
  assume m: "1 \<le> m" "m \<le> 12"
  have "unat m \<in> {1..12}" using m by (simp add: word_le_nat_alt)
  then have "m \<in> {1, 2, 3, 4, 5, 6, 7, 8, 9, 10, 11, 12}"
    by (simp add: word_unat_eq_iff) presburger
  then show ?thesis by (auto simp: days_in_month_def is_leap_year_eq month_length_def)
qed

lemma date_roundtrip:
  assumes "1980 \<le> rd_year d" "rd_year d \<le> 2099" "1 \<le> rd_month d" "rd_month d \<le> 12"
    "1 \<le> rd_day d" "rd_day d \<le> days_in_month (rd_year d) (rd_month d)"
  shows "rtc_decode_date sb (rtc_encode_date sb d) = Some d"
proof -
  have y: "unat (rd_year d) \<ge> 1980" "unat (rd_year d) \<le> 2099" using assms(1,2) by (simp_all add: word_le_nat_alt)
  let ?y = "ucast (rd_year d mod 100) :: u8" and ?c = "ucast (rd_year d div 100) :: u8"
  have uy: "unat ?y = unat (rd_year d) mod 100" "unat ?c = unat (rd_year d) div 100"
    using y by (simp_all add: unsigned_ucast_eq unat_mod unat_div take_bit_nat_eq_self)
  have c: "19 \<le> ?c" "?c \<le> 99" "?c < 100" "?y < 100"
    using y uy by (simp_all add: word_le_nat_alt word_less_nat_alt)
  have "unat (rd_day d) \<le> 31" using assms(6) days_in_month_eq [OF assms(3,4), of "rd_year d"]
    by (simp add: word_le_nat_alt month_length_def split: if_splits)
  then have dm: "rd_day d < 100" "rd_month d < 100" using assms(4) by (simp_all add: word_less_nat_alt word_le_nat_alt)
  have yr: "ucast ?c * 100 + ucast ?y = rd_year d"
    using y uy by (simp add: word_unat_eq_iff unat_word_ariths)
  have nz: "rd_day d \<noteq> 0" "rd_month d \<noteq> 0" using assms(3,5) by auto
  show ?thesis using assms c dm nz
    by (cases "sb AND 4 = 0") (simp_all add: rtc_decode_date_def rtc_encode_date_def bcd_roundtrip yr not_less Let_def)
qed

section \<open>What the driver relies on\<close>

text \<open>
  \<open>cmos_updates\<close> counts the updates of the clock: registers other than status A only change with an
  update or a write, and updates leave status B alone. \<open>cmos_idle\<close> says that no update is in progress
  or due while the driver runs.
\<close>

locale cmos =
  fixes io :: "'h port_io"
    and cmos_ok :: "'h \<Rightarrow> bool"
    and cmos_index :: "'h \<Rightarrow> u8"
    and cmos_regs :: "'h \<Rightarrow> u8 \<Rightarrow> u8"
    and cmos_updates :: "'h \<Rightarrow> nat"
    and cmos_idle :: "'h \<Rightarrow> bool"
  assumes select: "cmos_ok h \<Longrightarrow> cmos_ok (pio_outb io CMOS_ADDR_PORT b h)
      \<and> cmos_index (pio_outb io CMOS_ADDR_PORT b h) = b AND 0x7F
      \<and> cmos_regs (pio_outb io CMOS_ADDR_PORT b h) = cmos_regs h
      \<and> cmos_updates (pio_outb io CMOS_ADDR_PORT b h) = cmos_updates h
      \<and> (cmos_idle h \<longrightarrow> cmos_idle (pio_outb io CMOS_ADDR_PORT b h))"
    and read_data: "cmos_ok h \<Longrightarrow> pio_inb io CMOS_DATA_PORT h = (v, h') \<Longrightarrow> cmos_ok h'
      \<and> (cmos_index h \<noteq> 0x0A \<longrightarrow> v = cmos_regs h (cmos_index h))
      \<and> cmos_updates h \<le> cmos_updates h' \<and> (cmos_updates h' = cmos_updates h \<longrightarrow> cmos_regs h' = cmos_regs h)
      \<and> cmos_regs h' 0x0B = cmos_regs h 0x0B
      \<and> (cmos_idle h \<longrightarrow> cmos_idle h' \<and> cmos_updates h' = cmos_updates h \<and> (cmos_index h = 0x0A \<longrightarrow> v AND 0x80 = 0))"
    and write_data: "cmos_ok h \<Longrightarrow> cmos_ok (pio_outb io CMOS_DATA_PORT v h)
      \<and> cmos_regs (pio_outb io CMOS_DATA_PORT v h) = (cmos_regs h)(cmos_index h := v)
      \<and> cmos_updates (pio_outb io CMOS_DATA_PORT v h) = cmos_updates h
      \<and> (cmos_idle h \<longrightarrow> cmos_idle (pio_outb io CMOS_DATA_PORT v h))"
begin

text \<open>The hardware only moves forward while the driver reads.\<close>

definition adv :: "'h \<Rightarrow> 'h \<Rightarrow> bool" where
  "adv h h' \<longleftrightarrow> cmos_ok h \<and> cmos_ok h' \<and> cmos_updates h \<le> cmos_updates h'
     \<and> (cmos_updates h' = cmos_updates h \<longrightarrow> cmos_regs h' = cmos_regs h) \<and> cmos_regs h' 0x0B = cmos_regs h 0x0B
     \<and> (cmos_idle h \<longrightarrow> cmos_idle h' \<and> cmos_updates h' = cmos_updates h)"

lemma adv_trans: "adv a b \<Longrightarrow> adv b c \<Longrightarrow> adv a c"
  by (auto simp: adv_def)

lemma read_reg:
  assumes ok: "cmos_ok h" and r: "r AND 0x80 = 0" and e: "rtc_read_reg io r h = (v, h')"
  shows "adv h h' \<and> (r \<noteq> 0x0A \<longrightarrow> v = cmos_regs h r) \<and> (cmos_idle h \<longrightarrow> r = 0x0A \<longrightarrow> v AND 0x80 = 0)"
proof -
  let ?h = "pio_outb io CMOS_ADDR_PORT (0x80 OR r) h"
  have "bit r 7 = bit (r AND 0x80) 7" by (simp add: bit_and_iff bit_numeral_rec)
  then have b7: "\<not> bit r 7" using r by simp
  have i: "(0x80 OR r) AND 0x7F = r"
  proof (rule bit_word_eqI)
    fix n assume "n < LENGTH(8)"
    then have "n = 0 \<or> n = 1 \<or> n = 2 \<or> n = 3 \<or> n = 4 \<or> n = 5 \<or> n = 6 \<or> n = 7" by auto
    then show "bit ((0x80 OR r) AND 0x7F) n = bit r n"
      using b7 by (elim disjE) (simp_all add: bit_and_iff bit_or_iff bit_numeral_rec)
  qed
  show ?thesis using select [OF ok, of "0x80 OR r"] read_data [of ?h v h'] e i ok
    by (auto simp: rtc_read_reg_def adv_def)
qed

lemma is_updating:
  assumes "cmos_ok h" "rtc_is_updating io h = (b, h')" shows "adv h h'" "cmos_idle h \<Longrightarrow> \<not> b"
  using read_reg [of h "0x0A"] assms by (auto simp: rtc_is_updating_def split: prod.splits)

lemma wait_adv: "cmos_ok h \<Longrightarrow> rtc_wait io n h = (m, h') \<Longrightarrow> adv h h'"
proof (induction n arbitrary: h)
  case 0
  then show ?case using is_updating(1) [OF 0(1)] by (cases "rtc_is_updating io h") auto
next
  case (Suc n)
  obtain b g where g: "rtc_is_updating io h = (b, g)" by fastforce
  have a: "adv h g" "cmos_ok g" using is_updating(1) [OF Suc.prems(1) g] by (auto simp: adv_def)
  show ?case using Suc.IH [OF a(2)] Suc.prems(2) a by (auto simp: g intro: adv_trans split: if_splits)
qed

lemma wait_idle: "cmos_ok h \<Longrightarrow> cmos_idle h \<Longrightarrow> \<exists>h'. rtc_wait io (Suc n) h = (Suc n, h')"
  using is_updating(2) [of h] by (cases "rtc_is_updating io h") auto

text \<open>A reading of several registers is coherent unless an update happens inside it.\<close>

definition coherent :: "('h \<Rightarrow> 'r \<times> 'h) \<Rightarrow> ((u8 \<Rightarrow> u8) \<Rightarrow> 'r) \<Rightarrow> bool" where
  "coherent regs proj \<longleftrightarrow> (\<forall>h r h'. cmos_ok h \<longrightarrow> regs h = (r, h') \<longrightarrow>
     adv h h' \<and> (cmos_updates h' = cmos_updates h \<longrightarrow> r = proj (cmos_regs h)))"

lemma coherentD:
  assumes "coherent regs proj" "cmos_ok h" "regs h = (r, h')"
  shows "adv h h'" "cmos_updates h' = cmos_updates h \<Longrightarrow> r = proj (cmos_regs h)"
  using assms unfolding coherent_def by blast+

definition snapshot_ok :: "((u8 \<Rightarrow> u8) \<Rightarrow> 'r) \<Rightarrow> 'h \<Rightarrow> (u8 \<times> 'r) option \<times> 'h \<Rightarrow> bool" where
  "snapshot_ok proj h out \<longleftrightarrow> adv h (snd out) \<and> (\<forall>sb r. fst out = Some (sb, r) \<longrightarrow> sb = cmos_regs h 0x0B \<and>
     (cmos_updates (snd out) \<le> cmos_updates h + 1 \<longrightarrow> (\<exists>g. adv h g \<and> adv g (snd out) \<and> r = proj (cmos_regs g))))"

lemma snapshot_ok_prefix:
  assumes "adv h g" "snapshot_ok proj g out" shows "snapshot_ok proj h out"
  unfolding snapshot_ok_def
proof (intro conjI allI impI)
  show "adv h (snd out)" using assms adv_trans by (auto simp: snapshot_ok_def)
next
  fix sb r assume o: "fst out = Some (sb, r)"
  show "sb = cmos_regs h 0x0B" using assms o by (auto simp: snapshot_ok_def adv_def)
next
  fix sb r assume o: "fst out = Some (sb, r)" "cmos_updates (snd out) \<le> cmos_updates h + 1"
  have "cmos_updates h \<le> cmos_updates g" using assms(1) by (simp add: adv_def)
  then obtain k where k: "adv g k" "adv k (snd out)" "r = proj (cmos_regs k)"
    using assms(2) o unfolding snapshot_ok_def by fastforce
  then show "\<exists>k. adv h k \<and> adv k (snd out) \<and> r = proj (cmos_regs k)" using adv_trans [OF assms(1)] by blast
qed

lemma snapshot_okD:
  assumes "snapshot_ok proj h (Some (sb, r), h')"
  shows "adv h h'" "sb = cmos_regs h 0x0B"
    "cmos_updates h' \<le> cmos_updates h + 1 \<Longrightarrow> \<exists>g. adv h g \<and> adv g h' \<and> r = proj (cmos_regs g)"
  using assms by (auto simp: snapshot_ok_def)

lemma two_readings:
  assumes c: "coherent regs proj" and a: "adv h h1" "regs h1 = (r, h2)" "adv h2 h3" "regs h3 = (r, h4)"
    and sb: "sb = cmos_regs h 0x0B"
  shows "snapshot_ok proj h (Some (sb, r), h4)"
proof -
  have ok: "cmos_ok h1" "cmos_ok h3" using a by (auto simp: adv_def)
  note c1 = coherentD [OF c ok(1) a(2)] and c2 = coherentD [OF c ok(2) a(4)]
  have adv: "adv h h4" "adv h1 h4" "adv h h3" "adv h2 h4" using a(1,3) c1(1) c2(1) adv_trans by blast+
  have "\<exists>g. adv h g \<and> adv g h4 \<and> r = proj (cmos_regs g)" if u: "cmos_updates h4 \<le> cmos_updates h + 1"
  proof (cases "cmos_updates h2 = cmos_updates h1")
    case True
    then show ?thesis using c1(2) a(1) adv(2) by blast
  next
    case False
    have "cmos_updates h \<le> cmos_updates h1" "cmos_updates h1 \<le> cmos_updates h2" "cmos_updates h2 \<le> cmos_updates h3"
      "cmos_updates h3 \<le> cmos_updates h4"
      using a(1,3) c1(1) c2(1) by (auto simp: adv_def)
    with False u have "cmos_updates h4 = cmos_updates h3" by linarith
    then show ?thesis using c2 adv(3) by blast
  qed
  then show ?thesis using adv(1) sb by (simp add: snapshot_ok_def)
qed

lemma read_loop_coherent:
  assumes c: "coherent regs proj" and run: "rtc_read_loop io regs n h = Some out" and ok: "cmos_ok h"
  shows "snapshot_ok proj h out"
proof -
  have "regs' = regs \<longrightarrow> io' = io \<longrightarrow> cmos_ok h \<longrightarrow> snapshot_ok proj h out"
    if "rtc_read_loop io' regs' n h = Some out" for io' regs'
  proof (rule rtc_read_loop.raw_induct [where P = "\<lambda>io' regs' n h out. regs' = regs \<longrightarrow> io' = io \<longrightarrow> cmos_ok h
      \<longrightarrow> snapshot_ok proj h out", OF _ that], goal_cases)
    case (1 loop io' regs' n h out)
    show ?case
    proof (intro impI)
      assume eq: "regs' = regs" "io' = io" and ok: "cmos_ok h"
      obtain n1 h1 where w1: "rtc_wait io n h = (n1, h1)" by fastforce
      obtain r1 h2 where g1: "regs h1 = (r1, h2)" by fastforce
      obtain sb h3 where s: "rtc_read_reg io 0x0B h2 = (sb, h3)" by fastforce
      obtain n2 h4 where w2: "rtc_wait io n1 h3 = (n2, h4)" by fastforce
      obtain r2 h5 where g2: "regs h4 = (r2, h5)" by fastforce
      have a1: "adv h h1" using wait_adv [OF ok w1] .
      then have a2: "adv h1 h2" using coherentD(1) [OF c _ g1] by (simp add: adv_def)
      then have a3: "adv h2 h3" "sb = cmos_regs h2 0x0B" using read_reg [OF _ _ s] by (auto simp: adv_def)
      then have a4: "adv h3 h4" using wait_adv [OF _ w2] by (simp add: adv_def)
      then have a5: "adv h4 h5" using coherentD(1) [OF c _ g2] by (simp add: adv_def)
      have all: "adv h h4" "adv h h5" using a1 a2 a3(1) a4 a5 adv_trans by blast+
      have sb: "sb = cmos_regs h 0x0B" using a1 a2 a3(2) by (simp add: adv_def)
      have none: "snapshot_ok proj h (None, h1)" "snapshot_ok proj h (None, h4)" using a1 all by (auto simp: snapshot_ok_def)
      have body: "(if n1 = 0 then Some (None, h1) else if n2 = 0 then Some (None, h4)
          else if r1 \<noteq> r2 then loop io regs n2 h5 else Some (Some (sb, r2), h5)) = Some out"
        using 1(2) by (simp only: eq w1 g1 s w2 g2 Let_def prod.case)
      consider "out = (None, h1)" | "out = (None, h4)" | "loop io regs n2 h5 = Some out"
        | "r1 = r2" "out = (Some (sb, r2), h5)"
        using body by (metis option.inject)
      then show "snapshot_ok proj h out"
      proof cases
        case 3
        have "snapshot_ok proj h5 out" using 1(1) [OF 3] a5 by (simp add: adv_def)
        then show ?thesis by (rule snapshot_ok_prefix [OF all(2)])
      next
        case 4
        have "adv h2 h4" using a3(1) a4 adv_trans by blast
        from two_readings [OF c a1 _ this g2 sb] g1 4 show ?thesis by simp
      qed (use none in simp_all)
    qed
  qed
  then show ?thesis using run ok by blast
qed

text \<open>An idle clock is read at the first attempt.\<close>

lemma read_loop_idle:
  assumes c: "coherent regs proj" and h: "cmos_ok h" "cmos_idle h"
  shows "\<exists>h'. rtc_read_loop io regs (Suc n) h = Some (Some (cmos_regs h 0x0B, proj (cmos_regs h)), h') \<and> adv h h'"
proof -
  obtain h1 where w1: "rtc_wait io (Suc n) h = (Suc n, h1)" using wait_idle [OF h] by blast
  obtain r1 h2 where g1: "regs h1 = (r1, h2)" by fastforce
  obtain sb h3 where s: "rtc_read_reg io 0x0B h2 = (sb, h3)" by fastforce
  have a1: "adv h h1" using wait_adv [OF h(1) w1] .
  then have a2: "adv h1 h2" "cmos_idle h1" using coherentD(1) [OF c _ g1] h by (simp_all add: adv_def)
  then have a3: "adv h2 h3" "sb = cmos_regs h2 0x0B" using read_reg [OF _ _ s] by (auto simp: adv_def)
  have i3: "cmos_ok h3" "cmos_idle h3" using a2 a3 by (auto simp: adv_def)
  obtain h4 where w2: "rtc_wait io (Suc n) h3 = (Suc n, h4)" using wait_idle [OF i3] by blast
  obtain r2 h5 where g2: "regs h4 = (r2, h5)" by fastforce
  have a4: "adv h3 h4" using wait_adv [OF i3(1) w2] .
  then have a5: "adv h4 h5" using coherentD(1) [OF c _ g2] by (simp add: adv_def)
  have same: "cmos_regs h1 = cmos_regs h" "cmos_regs h2 = cmos_regs h" "cmos_regs h4 = cmos_regs h"
    "cmos_updates h2 = cmos_updates h1" "cmos_updates h5 = cmos_updates h4"
    using a1 a2 a3 a4 a5 h(2) by (auto simp: adv_def)
  have r: "r1 = proj (cmos_regs h)" "r2 = proj (cmos_regs h)"
    using coherentD(2) [OF c _ g1] coherentD(2) [OF c _ g2] a1 a4 same by (simp_all add: adv_def)
  have "adv h h5" using a1 a2(1) a3(1) a4 a5 adv_trans by blast
  then show ?thesis using a3(2) r same
    by (subst rtc_read_loop.simps) (simp add: w1 g1 s w2 g2 del: rtc_wait.simps)
qed

definition time_proj :: "(u8 \<Rightarrow> u8) \<Rightarrow> u8 \<times> u8 \<times> u8" where
  "time_proj R = (R 0x00, R 0x02, R 0x04)"

definition date_proj :: "(u8 \<Rightarrow> u8) \<Rightarrow> u8 \<times> u8 \<times> u8 \<times> u8" where
  "date_proj R = (R 0x07, R 0x08, R 0x09, R 0x32)"

lemma then_read:
  assumes a: "adv h g" and e: "rtc_read_reg io r g = (v, g')" and r: "r AND 0x80 = 0" "r \<noteq> 0x0A"
  shows "adv h g'" "cmos_updates g' = cmos_updates h \<Longrightarrow> v = cmos_regs h r"
proof -
  have ok: "cmos_ok g" using a by (simp add: adv_def)
  note rr = read_reg [OF ok r(1) e]
  show "adv h g'" using a rr adv_trans by blast
  show "v = cmos_regs h r" if "cmos_updates g' = cmos_updates h"
    using that a rr r(2) by (auto simp: adv_def)
qed

lemma adv_refl: "cmos_ok h \<Longrightarrow> adv h h"
  by (simp add: adv_def)

lemma adv_updates_le: "adv h g \<Longrightarrow> adv g k \<Longrightarrow> cmos_updates k = cmos_updates h \<Longrightarrow> cmos_updates g = cmos_updates h"
  by (simp add: adv_def)

lemma time_coherent: "coherent (rtc_time_regs io) time_proj"
  unfolding coherent_def
proof (intro allI impI)
  fix h r h' assume ok: "cmos_ok h" and e: "rtc_time_regs io h = (r, h')"
  obtain a h1 where 1: "rtc_read_reg io 0 h = (a, h1)" by fastforce
  obtain b h2 where 2: "rtc_read_reg io 2 h1 = (b, h2)" by fastforce
  obtain c h3 where 3: "rtc_read_reg io 4 h2 = (c, h3)" by fastforce
  note t1 = then_read [OF adv_refl [OF ok] 1] and k2 = then_read(1) [OF adv_refl 2] and k3 = then_read(1) [OF adv_refl 3]
  have a1: "adv h h1" using t1 by simp
  note t2 = then_read [OF a1 2]
  have a2: "adv h h2" using t2 by simp
  note t3 = then_read [OF a2 3]
  have k: "adv h1 h3" "adv h2 h3" using k2 k3 a1 a2 adv_trans by (auto simp: adv_def)
  have rh: "r = (a, b, c)" "h' = h3" using e by (simp_all add: rtc_time_regs_def 1 2 3)
  have "a = cmos_regs h 0 \<and> b = cmos_regs h 2 \<and> c = cmos_regs h 4" if u: "cmos_updates h3 = cmos_updates h"
    using t1(2) t2(2) t3(2) u adv_updates_le [OF a1 k(1) u] adv_updates_le [OF a2 k(2) u] by simp
  then show "adv h h' \<and> (cmos_updates h' = cmos_updates h \<longrightarrow> r = time_proj (cmos_regs h))"
    using t3(1) by (simp add: rh time_proj_def)
qed

lemma date_coherent: "coherent (rtc_date_regs io) date_proj"
  unfolding coherent_def
proof (intro allI impI)
  fix h r h' assume ok: "cmos_ok h" and e: "rtc_date_regs io h = (r, h')"
  obtain a h1 where 1: "rtc_read_reg io 7 h = (a, h1)" by fastforce
  obtain b h2 where 2: "rtc_read_reg io 8 h1 = (b, h2)" by fastforce
  obtain c h3 where 3: "rtc_read_reg io 9 h2 = (c, h3)" by fastforce
  obtain d h4 where 4: "rtc_read_reg io 0x32 h3 = (d, h4)" by fastforce
  have a1: "adv h h1" using then_read(1) [OF adv_refl [OF ok] 1] by simp
  have a2: "adv h h2" using then_read(1) [OF a1 2] by simp
  have a3: "adv h h3" using then_read(1) [OF a2 3] by simp
  have oks: "cmos_ok h1" "cmos_ok h2" "cmos_ok h3" using a1 a2 a3 by (auto simp: adv_def)
  have k3: "adv h3 h4" using then_read(1) [OF adv_refl [OF oks(3)] 4] by simp
  have k2: "adv h2 h4" using then_read(1) [OF adv_refl [OF oks(2)] 3] k3 adv_trans by simp
  have k1: "adv h1 h4" using then_read(1) [OF adv_refl [OF oks(1)] 2] k2 adv_trans by simp
  have rh: "r = (a, b, c, d)" "h' = h4" using e by (simp_all add: rtc_date_regs_def 1 2 3 4)
  have "r = date_proj (cmos_regs h)" if u: "cmos_updates h4 = cmos_updates h"
    using then_read(2) [OF adv_refl [OF ok] 1] then_read(2) [OF a1 2] then_read(2) [OF a2 3] then_read(2) [OF a3 4] u
      adv_updates_le [OF a1 k1 u] adv_updates_le [OF a2 k2 u] adv_updates_le [OF a3 k3 u] by (simp add: rh date_proj_def)
  then show "adv h h' \<and> (cmos_updates h' = cmos_updates h \<longrightarrow> r = date_proj (cmos_regs h))"
    using a3 k3 adv_trans by (auto simp: rh)
qed

text \<open>With at most one update between \<open>h\<close> and \<open>h'\<close> the registers only ever had two values.\<close>

lemma between_regs:
  assumes "adv h g" "adv g h'" "cmos_updates h' \<le> cmos_updates h + 1"
  shows "cmos_regs g = cmos_regs h \<or> cmos_regs g = cmos_regs h'"
proof -
  have "cmos_updates g = cmos_updates h \<or> cmos_updates h' = cmos_updates g" using assms by (auto simp: adv_def)
  then show ?thesis using assms by (auto simp: adv_def)
qed

lemma read_time_coherent:
  assumes ok: "cmos_ok h" and run: "rtc_read_time io True h = Some (Some t, h')"
    and u: "cmos_updates h' \<le> cmos_updates h + 1"
  shows "\<exists>R \<in> {cmos_regs h, cmos_regs h'}. rtc_decode_time (cmos_regs h 0x0B) (time_proj R) = Some t"
proof -
  obtain sb raw where l: "rtc_read_loop io (rtc_time_regs io) 100000 h = Some (Some (sb, raw), h')"
    and t: "rtc_decode_time sb raw = Some t"
    using run by (auto simp: rtc_read_time_def split: option.splits)
  note s = snapshot_okD [OF read_loop_coherent [OF time_coherent l ok]]
  obtain g where g: "adv h g" "adv g h'" "raw = time_proj (cmos_regs g)" and sb: "sb = cmos_regs h 0x0B"
    using s u by blast
  show ?thesis using between_regs [OF g(1,2) u] t g(3) sb by auto
qed

lemma read_time_adv:
  assumes ok: "cmos_ok h" and run: "rtc_read_time io True h = Some (Some t, h')"
  shows "cmos_regs h' 0x0B = cmos_regs h 0x0B" "cmos_idle h \<Longrightarrow> cmos_regs h' = cmos_regs h \<and> cmos_updates h' = cmos_updates h"
proof -
  obtain sb raw where l: "rtc_read_loop io (rtc_time_regs io) 100000 h = Some (Some (sb, raw), h')"
    using run by (auto simp: rtc_read_time_def split: option.splits)
  show "cmos_regs h' 0x0B = cmos_regs h 0x0B" "cmos_idle h \<Longrightarrow> cmos_regs h' = cmos_regs h \<and> cmos_updates h' = cmos_updates h"
    using snapshot_okD(1) [OF read_loop_coherent [OF time_coherent l ok]] by (auto simp: adv_def)
qed

lemma read_time_idle:
  assumes "cmos_ok h" "cmos_idle h"
  shows "\<exists>h'. rtc_read_time io True h = Some (rtc_decode_time (cmos_regs h 0x0B) (time_proj (cmos_regs h)), h')"
proof -
  have n: "(100000 :: nat) = Suc 99999" by simp
  show ?thesis using read_loop_idle [OF time_coherent assms, of 99999]
    by (auto simp: rtc_read_time_def simp flip: n)
qed

lemma read_date_idle:
  assumes "cmos_ok h" "cmos_idle h"
  shows "\<exists>h'. rtc_read_date io True h = Some (rtc_decode_date (cmos_regs h 0x0B) (date_proj (cmos_regs h)), h')"
proof -
  have n: "(100000 :: nat) = Suc 99999" by simp
  show ?thesis using read_loop_idle [OF date_coherent assms, of 99999]
    by (auto simp: rtc_read_date_def simp flip: n)
qed

definition settled :: "'h \<Rightarrow> (u8 \<Rightarrow> u8) \<Rightarrow> bool" where
  "settled h R \<longleftrightarrow> cmos_ok h \<and> cmos_idle h \<and> cmos_regs h = R"

lemma write_reg:
  assumes "settled h R" "(0x80 OR r) AND 0x7F = r"
  shows "settled (rtc_write_reg io r v h) (R(r := v))"
  using assms select [of h "0x80 OR r"] write_data [of "pio_outb io CMOS_ADDR_PORT (0x80 OR r) h" v]
  by (simp add: rtc_write_reg_def settled_def)

lemma read_reg_settled:
  assumes "settled h R" "r AND 0x80 = 0" "r \<noteq> 0x0A"
  shows "\<exists>h'. rtc_read_reg io r h = (R r, h') \<and> settled h' R"
proof -
  obtain v h' where e: "rtc_read_reg io r h = (v, h')" by fastforce
  show ?thesis using read_reg [OF _ assms(2) e] assms e by (auto simp: settled_def adv_def)
qed

lemma set_time_ok:
  assumes h: "settled h R" and set: "rtc_set_time io (Some t) h = (True, h1)"
  shows "\<exists>s m ho. rtc_encode_time (R 0x0B) t = (s, m, ho) \<and> settled h1 (R(0 := s, 2 := m, 4 := ho))
    \<and> rt_hours t \<le> 23 \<and> rt_minutes t \<le> 59 \<and> rt_seconds t \<le> 59"
proof -
  obtain g where g: "rtc_read_reg io 0x0B h = (R 0x0B, g)" "settled g R" using read_reg_settled [OF h, of "0x0B"] by auto
  obtain s m ho where e: "rtc_encode_time (R 0x0B) t = (s, m, ho)" by (metis prod_cases3)
  have v: "\<not> (rt_hours t > 23 \<or> rt_minutes t > 59 \<or> rt_seconds t > 59)" using set by (auto simp: rtc_set_time_def)
  have h1: "h1 = rtc_write_reg io 0x0B (R 0x0B) (rtc_write_reg io 4 ho (rtc_write_reg io 2 m (rtc_write_reg io 0 s
      (rtc_write_reg io 0x0B (R 0x0B OR 0x80) g))))"
    using set v by (simp add: rtc_set_time_def g e)
  have "settled h1 (R(0x0B := R 0x0B OR 0x80, 0 := s, 2 := m, 4 := ho, 0x0B := R 0x0B))"
    unfolding h1 by (intro write_reg g(2)) simp_all
  moreover have "R(0x0B := R 0x0B OR 0x80, 0 := s, 2 := m, 4 := ho, 0x0B := R 0x0B) = R(0 := s, 2 := m, 4 := ho)"
    by (rule ext) simp
  ultimately show ?thesis using e v by (auto simp: not_less)
qed

lemma set_date_ok:
  assumes h: "settled h R" and set: "rtc_set_date io (Some d) h = (True, h1)"
  shows "\<exists>da mo y c. rtc_encode_date (R 0x0B) d = (da, mo, y, c) \<and> settled h1 (R(7 := da, 8 := mo, 9 := y, 0x32 := c))
    \<and> 1980 \<le> rd_year d \<and> rd_year d \<le> 2099 \<and> 1 \<le> rd_month d \<and> rd_month d \<le> 12
    \<and> 1 \<le> rd_day d \<and> rd_day d \<le> days_in_month (rd_year d) (rd_month d)"
proof -
  obtain g where g: "rtc_read_reg io 0x0B h = (R 0x0B, g)" "settled g R" using read_reg_settled [OF h, of "0x0B"] by auto
  obtain da mo y c where e: "rtc_encode_date (R 0x0B) d = (da, mo, y, c)" by (metis prod_cases4)
  have v: "\<not> (rd_year d < 1980 \<or> rd_year d > 2099)" "\<not> (rd_month d < 1 \<or> rd_month d > 12)"
    "\<not> (rd_day d < 1 \<or> rd_day d > days_in_month (rd_year d) (rd_month d))"
    using set by (auto simp: rtc_set_date_def split: if_splits)
  have h1: "h1 = rtc_write_reg io 0x0B (R 0x0B) (rtc_write_reg io 0x32 c (rtc_write_reg io 9 y (rtc_write_reg io 8 mo
      (rtc_write_reg io 7 da (rtc_write_reg io 0x0B (R 0x0B OR 0x80) g)))))"
    using set v by (simp add: rtc_set_date_def g e)
  have "settled h1 (R(0x0B := R 0x0B OR 0x80, 7 := da, 8 := mo, 9 := y, 0x32 := c, 0x0B := R 0x0B))"
    unfolding h1 by (intro write_reg g(2)) simp_all
  moreover have "R(0x0B := R 0x0B OR 0x80, 7 := da, 8 := mo, 9 := y, 0x32 := c, 0x0B := R 0x0B)
      = R(7 := da, 8 := mo, 9 := y, 0x32 := c)"
    by (rule ext) simp
  moreover have "1 \<le> rd_month d" "1 \<le> rd_day d" using v(2,3) by (simp_all only: not_less de_Morgan_disj)
  ultimately show ?thesis using e v by (auto simp: not_less)
qed

lemma set_time_step:
  assumes h: "settled h R" and st: "rtc_set_time io (Some t) h = (ok, h1)"
  shows "ok \<longleftrightarrow> rt_hours t \<le> 23 \<and> rt_minutes t \<le> 59 \<and> rt_seconds t \<le> 59"
    "\<exists>R1. settled h1 R1 \<and> (ok \<longrightarrow> time_proj R1 = rtc_encode_time (R 0x0B) t) \<and> (\<forall>r. r \<notin> {0, 2, 4} \<longrightarrow> R1 r = R r)"
proof -
  show k: "ok \<longleftrightarrow> rt_hours t \<le> 23 \<and> rt_minutes t \<le> 59 \<and> rt_seconds t \<le> 59"
    using st by (auto simp: rtc_set_time_def Let_def not_less split: if_splits prod.splits)
  show "\<exists>R1. settled h1 R1 \<and> (ok \<longrightarrow> time_proj R1 = rtc_encode_time (R 0x0B) t) \<and> (\<forall>r. r \<notin> {0, 2, 4} \<longrightarrow> R1 r = R r)"
  proof (cases ok)
    case True
    obtain s m ho where e: "rtc_encode_time (R 0x0B) t = (s, m, ho)" "settled h1 (R(0 := s, 2 := m, 4 := ho))"
      using set_time_ok [OF h, of t h1] st True by auto
    then show ?thesis by (intro exI [of _ "R(0 := s, 2 := m, 4 := ho)"]) (simp add: time_proj_def)
  next
    case False
    then have "h1 = h" using st k by (auto simp: rtc_set_time_def not_le split: if_splits)
    then show ?thesis using False h by blast
  qed
qed

lemma set_date_step:
  assumes h: "settled h R" and st: "rtc_set_date io (Some d) h = (ok, h1)"
  shows "ok \<longleftrightarrow> 1980 \<le> rd_year d \<and> rd_year d \<le> 2099 \<and> 1 \<le> rd_month d \<and> rd_month d \<le> 12
      \<and> 1 \<le> rd_day d \<and> rd_day d \<le> days_in_month (rd_year d) (rd_month d)"
    "\<exists>R1. settled h1 R1 \<and> (ok \<longrightarrow> date_proj R1 = rtc_encode_date (R 0x0B) d) \<and> (\<forall>r. r \<notin> {7, 8, 9, 0x32} \<longrightarrow> R1 r = R r)"
proof -
  have l1: "x < 1 \<longleftrightarrow> \<not> 1 \<le> x" for x :: u8 by (simp only: not_le)
  show k: "ok \<longleftrightarrow> 1980 \<le> rd_year d \<and> rd_year d \<le> 2099 \<and> 1 \<le> rd_month d \<and> rd_month d \<le> 12
      \<and> 1 \<le> rd_day d \<and> rd_day d \<le> days_in_month (rd_year d) (rd_month d)"
    using st by (auto simp: rtc_set_date_def Let_def not_less simp flip: l1 not_less split: if_splits prod.splits)
  show "\<exists>R1. settled h1 R1 \<and> (ok \<longrightarrow> date_proj R1 = rtc_encode_date (R 0x0B) d) \<and> (\<forall>r. r \<notin> {7, 8, 9, 0x32} \<longrightarrow> R1 r = R r)"
  proof (cases ok)
    case True
    obtain a m y c where e: "rtc_encode_date (R 0x0B) d = (a, m, y, c)" "settled h1 (R(7 := a, 8 := m, 9 := y, 0x32 := c))"
      using set_date_ok [OF h, of d h1] st True by auto
    then show ?thesis by (intro exI [of _ "R(7 := a, 8 := m, 9 := y, 0x32 := c)"]) (simp add: date_proj_def)
  next
    case False
    then have "h1 = h" using st k by (auto simp: rtc_set_date_def Let_def split: if_splits prod.splits)
    then show ?thesis using False h by blast
  qed
qed

lemma set_read:
  assumes h: "cmos_ok h" "cmos_idle h"
    and st: "rtc_set_time io (Some t) h = (ok_t, h1)" and sd: "rtc_set_date io (Some d) h1 = (ok_d, h2)"
  shows "(ok_t \<longrightarrow> (\<exists>h'. rtc_read_time io True h2 = Some (Some t, h')))
    \<and> (ok_d \<longrightarrow> (\<exists>h'. rtc_read_date io True h2 = Some (Some d, h')))
    \<and> (\<forall>r. r \<notin> {0, 2, 4, 7, 8, 9, 0x32} \<longrightarrow> cmos_regs h2 r = cmos_regs h r)"
proof -
  have s0: "settled h (cmos_regs h)" using h by (simp add: settled_def)
  note t = set_time_step [OF s0 st]
  obtain R1 where R1: "settled h1 R1" "ok_t \<longrightarrow> time_proj R1 = rtc_encode_time (cmos_regs h 0x0B) t"
    "\<forall>r. r \<notin> {0, 2, 4} \<longrightarrow> R1 r = cmos_regs h r" using t(2) by blast
  note d = set_date_step [OF R1(1) sd]
  obtain R2 where R2: "settled h2 R2" "ok_d \<longrightarrow> date_proj R2 = rtc_encode_date (R1 0x0B) d"
    "\<forall>r. r \<notin> {7, 8, 9, 0x32} \<longrightarrow> R2 r = R1 r" using d(2) by blast
  have b: "R1 0x0B = cmos_regs h 0x0B" "R2 0x0B = cmos_regs h 0x0B" "time_proj R2 = time_proj R1"
    using R1(3) R2(3) by (simp_all add: time_proj_def)
  have s2: "cmos_ok h2" "cmos_idle h2" "cmos_regs h2 = R2" using R2(1) by (simp_all add: settled_def)
  have "\<exists>h'. rtc_read_time io True h2 = Some (Some t, h')" if ok_t
    using read_time_idle [OF s2(1,2)] time_roundtrip [of t] t(1) that R1(2) b s2(3) by simp
  moreover have "\<exists>h'. rtc_read_date io True h2 = Some (Some d, h')" if ok_d
    using read_date_idle [OF s2(1,2)] date_roundtrip [of d] d(1) that R2(2) b s2(3) by simp
  ultimately show ?thesis using R1(3) R2(3) s2(3) by simp
qed

end

section \<open>A chip\<close>

text \<open>A chip whose clock is updated after \<open>chip_due\<close> more reads, once (the seconds advance).\<close>

record cmos_chip =
  chip_index :: u8
  chip_regs :: "u8 \<Rightarrow> u8"
  chip_due :: "nat option"
  chip_updates :: nat

definition chip_tick :: "cmos_chip \<Rightarrow> cmos_chip" where
  "chip_tick h = (case chip_due h of
      None \<Rightarrow> h
    | Some (Suc n) \<Rightarrow> h\<lparr>chip_due := Some n\<rparr>
    | Some 0 \<Rightarrow> h\<lparr>chip_due := None, chip_updates := chip_updates h + 1,
        chip_regs := (chip_regs h)(0 := bin_to_bcd ((bcd_to_bin (chip_regs h 0) + 1) mod 60))\<rparr>)"

definition chip_io :: "cmos_chip port_io" where
  "chip_io = \<lparr>
     pio_inb = (\<lambda>port h.
       if port = CMOS_DATA_PORT then (if chip_index h = 0x0A then 0x26 else chip_regs h (chip_index h), chip_tick h) else (0xFF, h)),
     pio_outb = (\<lambda>port v h.
       if port = CMOS_ADDR_PORT then h\<lparr>chip_index := v AND 0x7F\<rparr>
       else if port = CMOS_DATA_PORT then h\<lparr>chip_regs := (chip_regs h)(chip_index h := v)\<rparr> else h)\<rparr>"

lemma chip_tick_props:
  "chip_updates h \<le> chip_updates (chip_tick h)"
  "chip_updates (chip_tick h) = chip_updates h \<Longrightarrow> chip_regs (chip_tick h) = chip_regs h"
  "chip_regs (chip_tick h) 0x0B = chip_regs h 0x0B"
  "chip_due h = None \<Longrightarrow> chip_tick h = h"
  by (auto simp: chip_tick_def split: option.splits nat.splits)

interpretation chip: cmos chip_io "\<lambda>_. True" chip_index chip_regs chip_updates "\<lambda>h. chip_due h = None"
  by unfold_locales (auto simp: chip_io_def CMOS_ADDR_PORT_def CMOS_DATA_PORT_def chip_tick_props split: if_splits)

definition demo_chip :: "u8 \<Rightarrow> nat option \<Rightarrow> cmos_chip" where
  "demo_chip sb due = \<lparr>chip_index = 0, chip_regs = (\<lambda>_. 0)(0 := 0x41, 2 := 0x30, 4 := 0x91, 0x0B := sb),
     chip_due = due, chip_updates = 0\<rparr>"

section \<open>Properties of the clock driver\<close>

text \<open>
  C30: \<open>rtc_read_time\<close> never returns a torn time: if the clock is updated at most once while it runs, the
  result is the decoded contents of the registers before or after that update, not a mixture.
\<close>

theorem rtc_time_not_torn:
  assumes c: "cmos io cmos_ok cmos_index cmos_regs cmos_updates cmos_idle" and ok: "cmos_ok h"
    and run: "rtc_read_time io True h = Some (Some t, h')" and u: "cmos_updates h' \<le> cmos_updates h + 1"
  shows "\<exists>R \<in> {cmos_regs h, cmos_regs h'}. rtc_decode_time (R 0x0B) (R 0x00, R 0x02, R 0x04) = Some t"
proof -
  have "cmos_regs h' 0x0B = cmos_regs h 0x0B" using cmos.read_time_adv(1) [OF c ok run] .
  then show ?thesis using cmos.read_time_coherent [OF c ok run u] by (auto simp: cmos.time_proj_def [OF c])
qed

lemma chip_read_reg: "rtc_read_reg chip_io r h =
    (if r AND 0x7F = 0x0A then 0x26 else chip_regs h (r AND 0x7F), chip_tick (h\<lparr>chip_index := r AND 0x7F\<rparr>))"
proof -
  have "(0x80 OR r) AND 0x7F = r AND 0x7F" by (simp add: bit.conj_disj_distrib2)
  then show ?thesis by (simp add: rtc_read_reg_def chip_io_def CMOS_ADDR_PORT_def CMOS_DATA_PORT_def)
qed

lemma chip_wait: "rtc_wait chip_io 100000 h = (100000, chip_tick (h\<lparr>chip_index := 0x0A\<rparr>))"
proof -
  have "rtc_wait chip_io (Suc 99999) h = (Suc 99999, chip_tick (h\<lparr>chip_index := 0x0A\<rparr>))"
    by (simp add: rtc_is_updating_def chip_read_reg del: Suc_numeral)
  then show ?thesis by simp
qed

lemma chip_tick_simps:
  "chip_tick \<lparr>chip_index = i, chip_regs = R, chip_due = None, chip_updates = u\<rparr>
     = \<lparr>chip_index = i, chip_regs = R, chip_due = None, chip_updates = u\<rparr>"
  "chip_tick \<lparr>chip_index = i, chip_regs = R, chip_due = Some (Suc n), chip_updates = u\<rparr>
     = \<lparr>chip_index = i, chip_regs = R, chip_due = Some n, chip_updates = u\<rparr>"
  "chip_tick \<lparr>chip_index = i, chip_regs = R, chip_due = Some 0, chip_updates = u\<rparr>
     = \<lparr>chip_index = i, chip_regs = R(0 := bin_to_bcd ((bcd_to_bin (R 0) + 1) mod 60)), chip_due = None, chip_updates = u + 1\<rparr>"
  by (simp_all add: chip_tick_def)

lemmas chip_eval = chip_wait rtc_time_regs_def chip_read_reg chip_tick_simps

text \<open>An update falls into the first reading of the witness; the driver notices and reads again.\<close>

theorem rtc_time_not_torn_witness:
  "\<exists>h'. rtc_read_time chip_io True (demo_chip 0 (Some (Suc (Suc (Suc 0)))))
       = Some (Some \<lparr>rt_hours = 23, rt_minutes = 30, rt_seconds = 42\<rparr>, h')
     \<and> (\<exists>R \<in> {chip_regs (demo_chip 0 (Some (Suc (Suc (Suc 0))))), chip_regs h'}.
          rtc_decode_time (R 0x0B) (R 0x00, R 0x02, R 0x04) = Some \<lparr>rt_hours = 23, rt_minutes = 30, rt_seconds = 42\<rparr>)"
proof -
  have d: "rtc_decode_time 0 (0x42, 0x30, 0x91) = Some \<lparr>rt_hours = 23, rt_minutes = 30, rt_seconds = 42\<rparr>" by code_simp
  have b: "bin_to_bcd ((bcd_to_bin 0x41 + 1) mod 60) = 0x42" by code_simp
  define R0 :: "u8 \<Rightarrow> u8" where "R0 = (\<lambda>_. 0)(0 := 0x41, 2 := 0x30, 4 := 0x91, 0x0B := 0)"
  have R0: "R0 0 = 0x41" "R0 2 = 0x30" "R0 4 = 0x91" "R0 0x0B = 0" by (simp_all add: R0_def)
  let ?s = "\<lambda>i u D R. \<lparr>chip_index = i, chip_regs = R, chip_due = D, chip_updates = u\<rparr>"
  have 2: "rtc_read_loop chip_io (rtc_time_regs chip_io) 100000 (?s 4 1 None (R0(0 := 0x42)))
      = Some (Some (0, 0x42, 0x30, 0x91), ?s 4 1 None (R0(0 := 0x42)))"
    by (subst rtc_read_loop.simps) (simp add: chip_eval R0)
  have 1: "rtc_read_loop chip_io (rtc_time_regs chip_io) 100000 (?s 0 0 (Some (Suc (Suc (Suc 0)))) R0)
      = rtc_read_loop chip_io (rtc_time_regs chip_io) 100000 (?s 4 1 None (R0(0 := 0x42)))"
    by (subst rtc_read_loop.simps) (simp add: chip_eval R0 b)
  have r: "rtc_read_time chip_io True (demo_chip 0 (Some (Suc (Suc (Suc 0)))))
      = Some (Some \<lparr>rt_hours = 23, rt_minutes = 30, rt_seconds = 42\<rparr>, ?s 4 1 None (R0(0 := 0x42)))"
    using 1 2 d by (simp add: rtc_read_time_def demo_chip_def flip: R0_def)
  then show ?thesis using rtc_time_not_torn [OF chip.cmos_axioms TrueI r] by (simp add: demo_chip_def)
qed

text \<open>
  C31: Setting the time or the date and reading it back returns the same value, in every mode of the
  chip (12 or 24 hours, binary or BCD); setting succeeds exactly for times of day and for the dates
  of the civil calendar from 1980 to 2099, and changes no other register.
\<close>

theorem rtc_set_read_roundtrip:
  assumes c: "cmos io cmos_ok cmos_index cmos_regs cmos_updates cmos_idle" and h: "cmos_ok h" "cmos_idle h"
    and st: "rtc_set_time io (Some t) h = (ok_t, h1)" and sd: "rtc_set_date io (Some d) h1 = (ok_d, h2)"
  shows "(ok_t \<longleftrightarrow> unat (rt_hours t) < 24 \<and> unat (rt_minutes t) < 60 \<and> unat (rt_seconds t) < 60)
    \<and> (ok_d \<longleftrightarrow> unat (rd_year d) \<in> {1980..2099} \<and> unat (rd_month d) \<in> {1..12}
         \<and> unat (rd_day d) \<in> {1..month_length (unat (rd_year d)) (unat (rd_month d))})
    \<and> (ok_t \<longrightarrow> (\<exists>h'. rtc_read_time io True h2 = Some (Some t, h')))
    \<and> (ok_d \<longrightarrow> (\<exists>h'. rtc_read_date io True h2 = Some (Some d, h')))
    \<and> (\<forall>r. r \<notin> {0, 2, 4, 7, 8, 9, 0x32} \<longrightarrow> cmos_regs h2 r = cmos_regs h r)"
proof -
  have s0: "cmos.settled cmos_ok cmos_regs cmos_idle h (cmos_regs h)" using h by (simp add: cmos.settled_def [OF c])
  obtain R1 where R1: "cmos.settled cmos_ok cmos_regs cmos_idle h1 R1" using cmos.set_time_step(2) [OF c s0 st] by blast
  have "ok_t \<longleftrightarrow> unat (rt_hours t) \<le> 23 \<and> unat (rt_minutes t) \<le> 59 \<and> unat (rt_seconds t) \<le> 59"
    using cmos.set_time_step(1) [OF c s0 st] by (simp add: word_le_nat_alt)
  then have A: "ok_t \<longleftrightarrow> unat (rt_hours t) < 24 \<and> unat (rt_minutes t) < 60 \<and> unat (rt_seconds t) < 60" by linarith
  have m: "unat (days_in_month (rd_year d) (rd_month d)) = month_length (unat (rd_year d)) (unat (rd_month d))"
    if "1 \<le> rd_month d" "rd_month d \<le> 12" using that by (rule days_in_month_eq)
  have B: "ok_d \<longleftrightarrow> unat (rd_year d) \<in> {1980..2099} \<and> unat (rd_month d) \<in> {1..12}
         \<and> unat (rd_day d) \<in> {1..month_length (unat (rd_year d)) (unat (rd_month d))}"
    using cmos.set_date_step(1) [OF c R1 sd] m by (auto simp: word_le_nat_alt)
  from cmos.set_read [OF c h st sd] A B show ?thesis by blast
qed

theorem rtc_set_read_roundtrip_witness:
  "\<exists>h1 h2 h'. rtc_set_time chip_io (Some \<lparr>rt_hours = 12, rt_minutes = 59, rt_seconds = 7\<rparr>) (demo_chip 0 None) = (True, h1)
     \<and> rtc_set_date chip_io (Some \<lparr>rd_year = 2000, rd_month = 2, rd_day = 29\<rparr>) h1 = (True, h2)
     \<and> rtc_read_date chip_io True h2 = Some (Some \<lparr>rd_year = 2000, rd_month = 2, rd_day = 29\<rparr>, h')"
proof -
  let ?t = "\<lparr>rt_hours = 12, rt_minutes = 59, rt_seconds = 7\<rparr>" and ?d = "\<lparr>rd_year = 2000, rd_month = 2, rd_day = 29\<rparr>"
  obtain a h1 where 1: "rtc_set_time chip_io (Some ?t) (demo_chip 0 None) = (a, h1)" by fastforce
  obtain b h2 where 2: "rtc_set_date chip_io (Some ?d) h1 = (b, h2)" by fastforce
  have i: "chip_due (demo_chip 0 None) = None" by (simp add: demo_chip_def)
  show ?thesis using rtc_set_read_roundtrip [OF chip.cmos_axioms TrueI i 1 2] 1 2
    by (auto simp: month_length_def leap_def)
qed

end
