(* ===== verification/Sector_Device.thy ===== *)
theory Sector_Device
  imports Minidos_Prelude
begin

text \<open>
  The interface between the FAT driver (\<^verbatim>\<open>storage/fat16*.c\<close>) and the drive layer
  (\<^verbatim>\<open>storage/drive.c\<close>): the two calls \<^verbatim>\<open>drive_read_sector\<close> and \<^verbatim>\<open>drive_write_sector\<close>. A read that
  fails leaves the caller's buffer alone, so it is \<open>None\<close>; a write returns whether it
  succeeded. The locale \<open>sector_device\<close> states what a working drive promises: its sectors
  are windows of one byte image, a read returns the window, a write replaces it.
\<close>

definition SECTOR_SIZE :: nat where "SECTOR_SIZE = 512"

record 'd sector_io =
  io_read :: "int \<Rightarrow> u32 \<Rightarrow> 'd \<Rightarrow> u8 list option \<times> 'd"
  io_write :: "int \<Rightarrow> u32 \<Rightarrow> u8 list \<Rightarrow> 'd \<Rightarrow> bool \<times> 'd"

section \<open>Byte images\<close>

type_synonym image = "nat \<Rightarrow> u8"

definition sector_at :: "image \<Rightarrow> nat \<Rightarrow> u8 list" where
  "sector_at m n = map (\<lambda>i. m (512 * n + i)) [0..<512]"

definition put_sector :: "image \<Rightarrow> nat \<Rightarrow> u8 list \<Rightarrow> image" where
  "put_sector m n b = (\<lambda>a. if a div 512 = n then b ! (a mod 512) else m a)"

lemma length_sector_at [simp]: "length (sector_at m n) = 512"
  by (simp add: sector_at_def)

lemma nth_sector_at [simp]: "i < 512 \<Longrightarrow> sector_at m n ! i = m (512 * n + i)"
  by (simp add: sector_at_def)

lemma sector_at_eqI:
  "(\<And>a. a div 512 = n \<Longrightarrow> m a = m' a) \<Longrightarrow> sector_at m n = sector_at m' n"
  by (auto simp: sector_at_def)

lemma sector_at_put_same [simp]: "length b = 512 \<Longrightarrow> sector_at (put_sector m n b) n = b"
  by (rule nth_equalityI) (auto simp: put_sector_def)

lemma sector_at_put_other [simp]: "n \<noteq> k \<Longrightarrow> sector_at (put_sector m n b) k = sector_at m k"
  by (auto simp: sector_at_def put_sector_def)

lemma put_sector_id [simp]: "put_sector m n (sector_at m n) = m"
  by (rule ext) (auto simp: put_sector_def)

text \<open>Rewriting a sector with one byte changed changes that byte of the image.\<close>

lemma put_sector_update:
  assumes "i < 512" "length b = 512"
  shows "put_sector m n (b[i := v]) = (put_sector m n b)(512 * n + i := v)"
proof (rule ext)
  fix a :: nat
  have "a = 512 * (a div 512) + a mod 512" by simp
  then show "put_sector m n (b[i := v]) a = ((put_sector m n b)(512 * n + i := v)) a"
    using assms by (auto simp: put_sector_def nth_list_update)
qed

section \<open>The contract of a working drive\<close>

locale sector_device =
  fixes io :: "'d sector_io"
    and letter :: int
    and dev_ok :: "'d \<Rightarrow> bool"
    and img :: "'d \<Rightarrow> image"
    and cap :: nat
  assumes cap_le: "cap \<le> 2 ^ 32"
    and read_dev: "dev_ok d \<Longrightarrow> unat lba < cap \<Longrightarrow>
      \<exists>d'. io_read io letter lba d = (Some (sector_at (img d) (unat lba)), d')
         \<and> dev_ok d' \<and> img d' = img d"
    and write_dev: "dev_ok d \<Longrightarrow> unat lba < cap \<Longrightarrow> length b = 512 \<Longrightarrow>
      \<exists>d'. io_write io letter lba b d = (True, d')
         \<and> dev_ok d' \<and> img d' = put_sector (img d) (unat lba) b"
begin

lemma read_devE:
  assumes "dev_ok d" "unat lba < cap"
  obtains d' where "io_read io letter lba d = (Some (sector_at (img d) (unat lba)), d')"
    and "dev_ok d'" and "img d' = img d"
  using read_dev [OF assms] by blast

lemma write_devE:
  assumes "dev_ok d" "unat lba < cap" "length b = 512"
  obtains d' where "io_write io letter lba b d = (True, d')"
    and "dev_ok d'" and "img d' = put_sector (img d) (unat lba) b"
  using write_dev [OF assms] by blast

text \<open>A sector that was written is read back, every other sector is as before.\<close>

lemma read_after_write:
  assumes "dev_ok d" "unat lba < cap" "length b = 512" "io_write io letter lba b d = (r, d')"
  shows "fst (io_read io letter lba d') = Some b"
proof -
  from write_dev [OF assms(1-3)] assms(4)
  have "dev_ok d'" and "img d' = put_sector (img d) (unat lba) b" by auto
  with read_dev [of d' lba] assms(2,3) show ?thesis by auto
qed

end

end
