(* ===== verification/Fat.thy ===== *)
theory Fat
  imports Sector_Device
begin

text \<open>
  The core of the FAT driver, \<^verbatim>\<open>src/src/kernel/storage/fat16.c\<close>: mounting a volume, the geometry
  derived from the BIOS parameter block, reading and writing FAT12 and FAT16 entries (on every
  copy of the table), allocating a cluster, zeroing it and freeing a chain.

  The file-scope variables of the C file are the record \<open>fat_state\<close>. \<^verbatim>\<open>fat16_debug_enabled\<close> is a
  static that is 0 and never assigned, so its serial traces are dead code and are left out.
\<close>

section \<open>State\<close>

record FAT16_BPB =
  bytes_per_sector :: u16
  sectors_per_cluster :: u8
  reserved_sectors :: u16
  fat_count :: u8
  root_entries :: u16
  total_sectors_16 :: u16
  media_type :: u8
  sectors_per_fat :: u16
  sectors_per_track :: u16
  heads :: u16
  hidden_sectors :: u32
  total_sectors_32 :: u32

definition FAT_TYPE_12 :: nat where "FAT_TYPE_12 = 12"
definition FAT_TYPE_16 :: nat where "FAT_TYPE_16 = 16"

record 'd fat_state =
  f_dev :: 'd                        \<comment> \<open>the drives below the driver\<close>
  bpb :: FAT16_BPB
  sector_buffer :: "u8 list"
  fat_sector_buffer_aux :: "u8 list"
  current_drive_letter :: int
  current_fat_type :: nat
  f_screen :: "string list"          \<comment> \<open>\<^verbatim>\<open>print_string\<close> calls, oldest first\<close>
  f_serial :: "string list"          \<comment> \<open>\<^verbatim>\<open>serial_print\<close> and \<^verbatim>\<open>serial_putchar\<close> calls, oldest first\<close>

text \<open>Every message of the driver ends in a newline.\<close>

definition f_print :: "string \<Rightarrow> 'd fat_state \<Rightarrow> 'd fat_state" where
  "f_print msg s = s\<lparr>f_screen := f_screen s @ [msg @ [CHR 0x0A]]\<rparr>"

section \<open>Sector access\<close>

definition disk_read_sector :: "'d sector_io \<Rightarrow> u32 \<Rightarrow> 'd fat_state \<Rightarrow> u8 list option \<times> 'd fat_state" where
  "disk_read_sector io lba s =
     (case io_read io (current_drive_letter s) lba (f_dev s) of (r, d) \<Rightarrow> (r, s\<lparr>f_dev := d\<rparr>))"

definition disk_write_sector :: "'d sector_io \<Rightarrow> u32 \<Rightarrow> u8 list \<Rightarrow> 'd fat_state \<Rightarrow> bool \<times> 'd fat_state" where
  "disk_write_sector io lba b s =
     (case io_write io (current_drive_letter s) lba b (f_dev s) of (r, d) \<Rightarrow> (r, s\<lparr>f_dev := d\<rparr>))"

text \<open>Sector numbers are computed in \<^verbatim>\<open>unsigned int\<close> from 8- and 16-bit fields, far below \<open>2 ^ 32\<close>,
  and passed through casts to \<^verbatim>\<open>int\<close> and back.\<close>

definition lba_of :: "nat \<Rightarrow> u32" where
  "lba_of n = of_nat n"

text \<open>The calls with \<^verbatim>\<open>sector_buffer\<close> or \<^verbatim>\<open>fat_sector_buffer_aux\<close> as the destination or the source.\<close>

definition read_buf :: "'d sector_io \<Rightarrow> u32 \<Rightarrow> 'd fat_state \<Rightarrow> bool \<times> 'd fat_state" where
  "read_buf io lba s =
     (case disk_read_sector io lba s of
        (None, s1) \<Rightarrow> (False, s1)
      | (Some b, s1) \<Rightarrow> (True, s1\<lparr>sector_buffer := b\<rparr>))"

definition read_aux :: "'d sector_io \<Rightarrow> u32 \<Rightarrow> 'd fat_state \<Rightarrow> bool \<times> 'd fat_state" where
  "read_aux io lba s =
     (case disk_read_sector io lba s of
        (None, s1) \<Rightarrow> (False, s1)
      | (Some b, s1) \<Rightarrow> (True, s1\<lparr>fat_sector_buffer_aux := b\<rparr>))"

definition write_buf :: "'d sector_io \<Rightarrow> u32 \<Rightarrow> 'd fat_state \<Rightarrow> bool \<times> 'd fat_state" where
  "write_buf io lba s = disk_write_sector io lba (sector_buffer s) s"

definition write_aux :: "'d sector_io \<Rightarrow> u32 \<Rightarrow> 'd fat_state \<Rightarrow> bool \<times> 'd fat_state" where
  "write_aux io lba s = disk_write_sector io lba (fat_sector_buffer_aux s) s"

definition fat16_set_drive :: "int \<Rightarrow> 'd fat_state \<Rightarrow> 'd fat_state" where
  "fat16_set_drive letter s = s\<lparr>current_drive_letter := letter\<rparr>"

section \<open>Geometry\<close>

definition get_root_dir_start :: "FAT16_BPB \<Rightarrow> nat" where
  "get_root_dir_start p = unat (reserved_sectors p) + unat (fat_count p) * unat (sectors_per_fat p)"

text \<open>An \<^verbatim>\<open>int\<close> division; \<^verbatim>\<open>bytes_per_sector == 0\<close> traps.\<close>

definition get_root_dir_sectors :: "FAT16_BPB \<Rightarrow> nat option" where
  "get_root_dir_sectors p =
     (if bytes_per_sector p = 0 then None
      else Some ((unat (root_entries p) * 32 + (unat (bytes_per_sector p) - 1))
                 div unat (bytes_per_sector p)))"

definition get_data_start :: "FAT16_BPB \<Rightarrow> nat option" where
  "get_data_start p = map_option (\<lambda>n. get_root_dir_start p + n) (get_root_dir_sectors p)"

definition get_total_sectors :: "FAT16_BPB \<Rightarrow> u32" where
  "get_total_sectors p =
     (if total_sectors_16 p \<noteq> 0 then ucast (total_sectors_16 p) else total_sectors_32 p)"

text \<open>Unsigned subtraction, which wraps when the metadata is larger than the volume.\<close>

definition get_total_clusters :: "FAT16_BPB \<Rightarrow> u32 option" where
  "get_total_clusters p = do {
     n \<leftarrow> get_root_dir_sectors p;
     let data_sectors = get_total_sectors p - of_nat (get_root_dir_start p + n);
     udiv32 data_sectors (ucast (sectors_per_cluster p))
   }"

definition fat_is_data_cluster :: "FAT16_BPB \<Rightarrow> u32 \<Rightarrow> bool option" where
  "fat_is_data_cluster p cluster = do {
     n \<leftarrow> get_total_clusters p;
     let max_cluster = n + 1;
     Some (cluster \<ge> 2 \<and> cluster \<le> max_cluster)
   }"

definition fat_end_of_chain_value :: "'d fat_state \<Rightarrow> u16" where
  "fat_end_of_chain_value s = (if current_fat_type s = FAT_TYPE_12 then 0x0FFF else 0xFFFF)"

section \<open>Mounting\<close>

definition parse_bpb :: "u8 list \<Rightarrow> FAT16_BPB" where
  "parse_bpb b = \<lparr>
     bytes_per_sector = load16 b 11,
     sectors_per_cluster = b ! 13,
     reserved_sectors = load16 b 14,
     fat_count = b ! 16,
     root_entries = load16 b 17,
     total_sectors_16 = load16 b 19,
     media_type = b ! 21,
     sectors_per_fat = load16 b 22,
     sectors_per_track = load16 b 24,
     heads = load16 b 26,
     hidden_sectors = load32 b 28,
     total_sectors_32 = load32 b 32\<rparr>"

text \<open>\<open>None\<close> is the divide error of \<open>get_total_clusters\<close> when \<^verbatim>\<open>sectors_per_cluster\<close> is 0.\<close>

definition fat16_init :: "'d sector_io \<Rightarrow> 'd fat_state \<Rightarrow> (bool \<times> 'd fat_state) option" where
  "fat16_init io s = (case read_buf io 0 s of
     (False, s1) \<Rightarrow> Some (False, f_print ''[FAT16] Warning: No disk or FAT16 partition found'' s1)
   | (True, s1) \<Rightarrow>
      (let b = sector_buffer s1 in
       if b ! 510 \<noteq> 0x55 \<or> b ! 511 \<noteq> 0xAA
       then Some (False, f_print ''[FAT16] Warning: Invalid boot sector signature'' s1)
       else
        (let p = parse_bpb b; s2 = s1\<lparr>bpb := p\<rparr> in
         if bytes_per_sector p = 0 \<or> sectors_per_fat p = 0 \<or> root_entries p = 0
         then Some (False, f_print ''[FAT16] Warning: Invalid BPB values'' s2)
         else do {
           total_clusters \<leftarrow> get_total_clusters p;
           if total_clusters < 4085 then Some (True, s2\<lparr>current_fat_type := FAT_TYPE_12\<rparr>)
           else if total_clusters < 65525 then Some (True, s2\<lparr>current_fat_type := FAT_TYPE_16\<rparr>)
           else Some (False, f_print ''[FAT16] Warning: Unsupported FAT type'' s2)
         })))"

section \<open>Entries of the file allocation table\<close>

text \<open>The two bytes of a FAT12 entry and the value packed in them.\<close>

definition fat12_unpack :: "u16 \<Rightarrow> u16 \<Rightarrow> u16" where
  "fat12_unpack cluster pair =
     (if cluster AND 1 \<noteq> 0 then drop_bit 4 pair else pair AND 0x0FFF) AND 0x0FFF"

definition fat12_pack :: "u16 \<Rightarrow> u16 \<Rightarrow> u16 \<Rightarrow> u16" where
  "fat12_pack cluster pair masked_value =
     (if cluster AND 1 \<noteq> 0 then (pair AND 0x000F) OR push_bit 4 masked_value
      else (pair AND 0xF000) OR masked_value)"

definition fat16_read_fat_entry :: "'d sector_io \<Rightarrow> u16 \<Rightarrow> 'd fat_state \<Rightarrow> u16 \<times> 'd fat_state" where
  "fat16_read_fat_entry io cluster s =
     (if current_fat_type s = FAT_TYPE_12 then
        (let fat_offset = unat cluster + unat cluster div 2;
             fat_sector = unat (reserved_sectors (bpb s)) + fat_offset div SECTOR_SIZE;
             fat_byte_offset = fat_offset mod SECTOR_SIZE
         in case read_buf io (lba_of fat_sector) s of
              (False, s1) \<Rightarrow> (fat_end_of_chain_value s1, s1)
            | (True, s1) \<Rightarrow>
               (if fat_byte_offset = SECTOR_SIZE - 1 then
                  (case read_aux io (lba_of (fat_sector + 1)) s1 of
                     (False, s2) \<Rightarrow> (fat_end_of_chain_value s2, s2)
                   | (True, s2) \<Rightarrow>
                       (fat12_unpack cluster
                          (le16 (sector_buffer s2 ! fat_byte_offset) (fat_sector_buffer_aux s2 ! 0)), s2))
                else
                  (fat12_unpack cluster
                     (le16 (sector_buffer s1 ! fat_byte_offset) (sector_buffer s1 ! (fat_byte_offset + 1))), s1)))
      else
        (let fat_sector = unat (reserved_sectors (bpb s)) + (unat cluster * 2) div SECTOR_SIZE;
             fat_offset = (unat cluster * 2) mod SECTOR_SIZE
         in case read_buf io (lba_of fat_sector) s of
              (False, s1) \<Rightarrow> (fat_end_of_chain_value s1, s1)
            | (True, s1) \<Rightarrow> (load16 (sector_buffer s1) fat_offset, s1)))"

text \<open>One round of the loop over the copies of the table, FAT12 and FAT16.\<close>

definition write_fat12_copy ::
    "'d sector_io \<Rightarrow> u16 \<Rightarrow> u16 \<Rightarrow> nat \<Rightarrow> 'd fat_state \<Rightarrow> bool \<times> 'd fat_state" where
  "write_fat12_copy io cluster value fat s =
     (let masked_value = value AND 0x0FFF;
          fat_offset = unat cluster + unat cluster div 2;
          fat_sector_index = fat_offset div SECTOR_SIZE;
          fat_byte_offset = fat_offset mod SECTOR_SIZE;
          fat_sector = unat (reserved_sectors (bpb s)) + fat * unat (sectors_per_fat (bpb s)) + fat_sector_index
      in case read_buf io (lba_of fat_sector) s of
           (False, s1) \<Rightarrow> (False, s1)
         | (True, s1) \<Rightarrow>
            (if fat_byte_offset = SECTOR_SIZE - 1 then
               (case read_aux io (lba_of (fat_sector + 1)) s1 of
                  (False, s2) \<Rightarrow> (False, s2)
                | (True, s2) \<Rightarrow>
                   (let pair = fat12_pack cluster
                          (le16 (sector_buffer s2 ! fat_byte_offset) (fat_sector_buffer_aux s2 ! 0)) masked_value;
                        s3 = s2\<lparr>sector_buffer := (sector_buffer s2)[fat_byte_offset := lo8 pair],
                                fat_sector_buffer_aux := (fat_sector_buffer_aux s2)[0 := hi8 pair]\<rparr>
                    in case write_buf io (lba_of fat_sector) s3 of
                         (False, s4) \<Rightarrow> (False, s4)
                       | (True, s4) \<Rightarrow> write_aux io (lba_of (fat_sector + 1)) s4))
             else
               (let pair = fat12_pack cluster
                      (le16 (sector_buffer s1 ! fat_byte_offset) (sector_buffer s1 ! (fat_byte_offset + 1))) masked_value;
                    s2 = s1\<lparr>sector_buffer := (sector_buffer s1)[fat_byte_offset := lo8 pair,
                                                              fat_byte_offset + 1 := hi8 pair]\<rparr>
                in write_buf io (lba_of fat_sector) s2)))"

definition write_fat16_copy ::
    "'d sector_io \<Rightarrow> u16 \<Rightarrow> u16 \<Rightarrow> nat \<Rightarrow> 'd fat_state \<Rightarrow> bool \<times> 'd fat_state" where
  "write_fat16_copy io cluster value fat s =
     (let fat_offset = (unat cluster * 2) mod SECTOR_SIZE;
          fat_sector_index = (unat cluster * 2) div SECTOR_SIZE;
          fat_sector = unat (reserved_sectors (bpb s)) + fat * unat (sectors_per_fat (bpb s)) + fat_sector_index
      in case read_buf io (lba_of fat_sector) s of
           (False, s1) \<Rightarrow> (False, s1)
         | (True, s1) \<Rightarrow>
             write_buf io (lba_of fat_sector)
               (s1\<lparr>sector_buffer := store16 (sector_buffer s1) fat_offset value\<rparr>))"

fun write_fat_copies ::
    "(nat \<Rightarrow> 'd fat_state \<Rightarrow> bool \<times> 'd fat_state) \<Rightarrow> nat list \<Rightarrow> 'd fat_state \<Rightarrow> bool \<times> 'd fat_state" where
  "write_fat_copies f [] s = (True, s)"
| "write_fat_copies f (k # ks) s =
     (case f k s of (False, s1) \<Rightarrow> (False, s1) | (True, s1) \<Rightarrow> write_fat_copies f ks s1)"

definition fat16_write_fat_entry ::
    "'d sector_io \<Rightarrow> u16 \<Rightarrow> u16 \<Rightarrow> 'd fat_state \<Rightarrow> bool \<times> 'd fat_state" where
  "fat16_write_fat_entry io cluster value s =
     write_fat_copies
       (if current_fat_type s = FAT_TYPE_12 then write_fat12_copy io cluster value
        else write_fat16_copy io cluster value)
       [0..<unat (fat_count (bpb s))] s"

definition fat16_get_next_cluster :: "'d sector_io \<Rightarrow> u16 \<Rightarrow> 'd fat_state \<Rightarrow> u16 \<times> 'd fat_state" where
  "fat16_get_next_cluster io cluster s = fat16_read_fat_entry io cluster s"

section \<open>Allocating, zeroing and freeing clusters\<close>

partial_function (option) alloc_scan ::
    "'d sector_io \<Rightarrow> u32 \<Rightarrow> u32 \<Rightarrow> 'd fat_state \<Rightarrow> (u16 option \<times> 'd fat_state) option" where
  "alloc_scan io cluster max_cluster s =
     (if cluster \<le> max_cluster then
        (case fat16_read_fat_entry io (ucast cluster) s of (v, s1) \<Rightarrow>
           if v = 0 then
             (case fat16_write_fat_entry io (ucast cluster) (fat_end_of_chain_value s1) s1 of
                (False, s2) \<Rightarrow> Some (None, s2)
              | (True, s2) \<Rightarrow> Some (Some (ucast cluster), s2))
           else alloc_scan io (cluster + 1) max_cluster s1)
      else Some (None, s))"

text \<open>\<open>Some c\<close> is the return value 1 with \<^verbatim>\<open>*out_cluster = c\<close>, \<open>None\<close> is 0.\<close>

definition fat16_alloc_cluster_internal ::
    "'d sector_io \<Rightarrow> 'd fat_state \<Rightarrow> (u16 option \<times> 'd fat_state) option" where
  "fat16_alloc_cluster_internal io s = do {
     total_clusters \<leftarrow> get_total_clusters (bpb s);
     alloc_scan io 2 (total_clusters + 1) s
   }"

fun zero_sectors :: "'d sector_io \<Rightarrow> int \<Rightarrow> nat list \<Rightarrow> 'd fat_state \<Rightarrow> bool \<times> 'd fat_state" where
  "zero_sectors io cluster_sector [] s = (True, s)"
| "zero_sectors io cluster_sector (k # ks) s =
     (case write_buf io (of_int (cluster_sector + int k)) (s\<lparr>sector_buffer := replicate SECTOR_SIZE 0\<rparr>) of
        (False, s1) \<Rightarrow> (False, s1)
      | (True, s1) \<Rightarrow> zero_sectors io cluster_sector ks s1)"

definition cluster_sector :: "FAT16_BPB \<Rightarrow> nat \<Rightarrow> u16 \<Rightarrow> int" where
  "cluster_sector p data_start cluster =
     int data_start + (int (unat cluster) - 2) * int (unat (sectors_per_cluster p))"

definition fat16_zero_cluster :: "'d sector_io \<Rightarrow> u16 \<Rightarrow> 'd fat_state \<Rightarrow> (bool \<times> 'd fat_state) option" where
  "fat16_zero_cluster io cluster s = do {
     data_start \<leftarrow> get_data_start (bpb s);
     Some (zero_sectors io (cluster_sector (bpb s) data_start cluster)
             [0..<unat (sectors_per_cluster (bpb s))] s)
   }"

text \<open>The loop of \<^verbatim>\<open>fat16_free_cluster_chain_internal\<close>; the fuel is the code's own \<^verbatim>\<open>max_steps\<close>.\<close>

fun free_chain_loop :: "'d sector_io \<Rightarrow> nat \<Rightarrow> u16 \<Rightarrow> 'd fat_state \<Rightarrow> (bool \<times> 'd fat_state) option" where
  "free_chain_loop io max_steps cluster s =
     do { ok \<leftarrow> fat_is_data_cluster (bpb s) (ucast cluster);
          if \<not> ok then Some (True, s)
          else (case max_steps of
             0 \<Rightarrow> Some (True, s)
           | Suc steps \<Rightarrow>
              (case fat16_get_next_cluster io cluster s of (next, s1) \<Rightarrow>
                 (case fat16_write_fat_entry io cluster 0 s1 of
                    (False, s2) \<Rightarrow> Some (False, s2)
                  | (True, s2) \<Rightarrow>
                      if next = cluster then Some (True, s2)
                      else free_chain_loop io steps next s2))) }"

declare free_chain_loop.simps [simp del]

definition fat16_free_cluster_chain_internal ::
    "'d sector_io \<Rightarrow> u16 \<Rightarrow> 'd fat_state \<Rightarrow> (bool \<times> 'd fat_state) option" where
  "fat16_free_cluster_chain_internal io start_cluster s =
     (if start_cluster < 2 then Some (False, s)
      else do {
        n \<leftarrow> get_total_clusters (bpb s);
        free_chain_loop io (unat (n + 2)) start_cluster s
      })"

definition fat16_alloc_cluster :: "'d sector_io \<Rightarrow> 'd fat_state \<Rightarrow> (u16 option \<times> 'd fat_state) option" where
  "fat16_alloc_cluster io s = fat16_alloc_cluster_internal io s"

definition fat16_free_cluster_chain :: "'d sector_io \<Rightarrow> u16 \<Rightarrow> 'd fat_state \<Rightarrow> (bool \<times> 'd fat_state) option" where
  "fat16_free_cluster_chain io start_cluster s = fat16_free_cluster_chain_internal io start_cluster s"

end
