(* ===== verification/Fat_Name.thy ===== *)
theory Fat_Name
  imports Fat
begin

text \<open>
  Names in FAT directories, from \<^verbatim>\<open>fat16_dir_lookup.inc\<close> and \<^verbatim>\<open>fat16_dir_mutation.inc\<close>: the directory
  entry, the conversion of a file name to its padded 8.3 form, the comparison of a name with an
  entry, the name shown for an entry, and wildcard patterns.

  A C string that the code walks with an index or a pointer is the list of the characters still to
  come; the terminating NUL is the end of the list.
\<close>

unbundle bit_operations_syntax

section \<open>Directory entries\<close>

definition FAT16_ATTR_READ_ONLY :: u8 where "FAT16_ATTR_READ_ONLY = 0x01"
definition FAT16_ATTR_VOLUME_ID :: u8 where "FAT16_ATTR_VOLUME_ID = 0x08"
definition FAT16_ATTR_DIRECTORY :: u8 where "FAT16_ATTR_DIRECTORY = 0x10"
definition FAT16_ATTR_ARCHIVE :: u8 where "FAT16_ATTR_ARCHIVE = 0x20"

record FAT16_DirectoryEntry =
  de_name :: "u8 list"           \<comment> \<open>11 bytes\<close>
  de_attributes :: u8
  de_reserved :: u8
  de_creation_time_ms :: u8
  de_creation_time :: u16
  de_creation_date :: u16
  de_access_date :: u16
  de_cluster_high :: u16
  de_modified_time :: u16
  de_modified_date :: u16
  de_cluster_low :: u16
  de_file_size :: u32

definition DIR_ENTRY_SIZE :: nat where "DIR_ENTRY_SIZE = 32"

text \<open>\<^verbatim>\<open>((FAT16_DirectoryEntry*)buffer)[i]\<close>: a packed structure of 32 bytes, read and assigned.\<close>

definition entry_at :: "u8 list \<Rightarrow> nat \<Rightarrow> FAT16_DirectoryEntry" where
  "entry_at b i = (let k = DIR_ENTRY_SIZE * i in
     \<lparr>de_name = take 11 (drop k b), de_attributes = b ! (k + 11), de_reserved = b ! (k + 12),
      de_creation_time_ms = b ! (k + 13), de_creation_time = load16 b (k + 14),
      de_creation_date = load16 b (k + 16), de_access_date = load16 b (k + 18),
      de_cluster_high = load16 b (k + 20), de_modified_time = load16 b (k + 22),
      de_modified_date = load16 b (k + 24), de_cluster_low = load16 b (k + 26),
      de_file_size = load32 b (k + 28)\<rparr>)"

definition bytes16 :: "u16 \<Rightarrow> u8 list" where
  "bytes16 v = [lo8 v, hi8 v]"

definition bytes32 :: "u32 \<Rightarrow> u8 list" where
  "bytes32 v = [byte32 0 v, byte32 1 v, byte32 2 v, byte32 3 v]"

definition entry_bytes :: "FAT16_DirectoryEntry \<Rightarrow> u8 list" where
  "entry_bytes e = de_name e @ [de_attributes e, de_reserved e, de_creation_time_ms e]
     @ bytes16 (de_creation_time e) @ bytes16 (de_creation_date e) @ bytes16 (de_access_date e)
     @ bytes16 (de_cluster_high e) @ bytes16 (de_modified_time e) @ bytes16 (de_modified_date e)
     @ bytes16 (de_cluster_low e) @ bytes32 (de_file_size e)"

definition set_entry :: "u8 list \<Rightarrow> nat \<Rightarrow> FAT16_DirectoryEntry \<Rightarrow> u8 list" where
  "set_entry b i e = take (DIR_ENTRY_SIZE * i) b @ entry_bytes e @ drop (DIR_ENTRY_SIZE * i + DIR_ENTRY_SIZE) b"

section \<open>Comparing a name with an entry\<close>

definition DOT :: u8 where "DOT = 0x2E"
definition SPACE :: u8 where "SPACE = 0x20"
definition STAR :: u8 where "STAR = 0x2A"
definition QMARK :: u8 where "QMARK = 0x3F"

text \<open>\<^verbatim>\<open>while (end > lo && name[end - 1] == ' ') end--\<close>\<close>

fun trim_end :: "u8 list \<Rightarrow> nat \<Rightarrow> nat \<Rightarrow> nat" where
  "trim_end nm lo 0 = 0"
| "trim_end nm lo (Suc k) = (if lo < Suc k \<and> nm ! k = SPACE then trim_end nm lo k else Suc k)"

text \<open>The loop over the base name: how many characters were compared and what is left of the file
  name, or \<open>None\<close> at a mismatch.\<close>

fun match_base :: "cstr \<Rightarrow> u8 list \<Rightarrow> nat \<Rightarrow> (nat \<times> cstr) option" where
  "match_base [] nm j = Some (j, [])"
| "match_base (c # cs) nm j =
     (if j \<ge> 8 \<or> c = DOT then Some (j, c # cs)
      else if nm ! j \<noteq> c then None
      else match_base cs nm (Suc j))"

fun match_ext :: "cstr \<Rightarrow> u8 list \<Rightarrow> nat \<Rightarrow> cstr option" where
  "match_ext [] nm ext_pos = Some []"
| "match_ext (c # cs) nm ext_pos =
     (if ext_pos \<ge> 11 then Some (c # cs)
      else if nm ! ext_pos \<noteq> c then None
      else match_ext cs nm (Suc ext_pos))"

definition all_spaces :: "u8 list \<Rightarrow> nat \<Rightarrow> nat \<Rightarrow> bool" where
  "all_spaces nm i j \<longleftrightarrow> list_all (\<lambda>k. nm ! k = SPACE) [i..<j]"

definition fat16_match_name :: "cstr \<Rightarrow> FAT16_DirectoryEntry \<Rightarrow> bool" where
  "fat16_match_name filename entry = (let nm = de_name entry in
     if filename = [DOT] then nm ! 0 = DOT \<and> nm ! 1 = SPACE \<and> all_spaces nm 2 11
     else if filename = [DOT, DOT] then nm ! 0 = DOT \<and> nm ! 1 = DOT \<and> all_spaces nm 2 11
     else case match_base filename nm 0 of
       None \<Rightarrow> False
     | Some (name_len, rest) \<Rightarrow>
        (let dir_name_end = trim_end nm 0 8 in
         if name_len \<noteq> dir_name_end then False
         else case rest of
           [] \<Rightarrow> (if dir_name_end < 8 then all_spaces nm 8 11 else True)
         | c # cs \<Rightarrow>
            (if c = DOT then match_ext cs nm 8 = Some []
             else False)))"

text \<open>In the last branch the code falls through to \<^verbatim>\<open>filename[name_len] != '\0'\<close>, which holds there.\<close>

definition fat16_entry_is_visible :: "FAT16_DirectoryEntry \<Rightarrow> bool" where
  "fat16_entry_is_visible entry \<longleftrightarrow>
     (if de_name entry ! 0 = 0 then False
      else if de_name entry ! 0 = 0xE5 then False
      else if de_attributes entry AND FAT16_ATTR_VOLUME_ID \<noteq> 0 then False
      else if de_attributes entry AND 0x0F = 0x0F then False
      else True)"

definition fat16_build_display_name :: "FAT16_DirectoryEntry \<Rightarrow> cstr" where
  "fat16_build_display_name entry =
     (let nm = de_name entry; name_end = trim_end nm 0 8; ext_end = trim_end nm 8 11 in
      map (\<lambda>i. nm ! i) [0..<name_end] @
      (if ext_end > 8 then DOT # map (\<lambda>i. nm ! i) [8..<ext_end] else []))"

section \<open>Patterns\<close>

definition fat16_upper_char :: "u8 \<Rightarrow> u8" where
  "fat16_upper_char c = (if 0x61 \<le> c \<and> c \<le> 0x7A then c - 0x61 + 0x41 else c)"

text \<open>\<open>wildcard_star\<close> is the loop over the suffixes of the text after a run of stars.\<close>

function (sequential) fat16_wildcard_match :: "cstr \<Rightarrow> cstr \<Rightarrow> bool"
  and wildcard_star :: "cstr \<Rightarrow> cstr \<Rightarrow> bool" where
  "fat16_wildcard_match [] t = (t = [])"
| "fat16_wildcard_match (p # ps) t =
     (if p = STAR then
        (let qs = dropWhile (\<lambda>c. c = STAR) ps in if qs = [] then True else wildcard_star qs t)
      else case t of
        [] \<Rightarrow> False
      | c # cs \<Rightarrow>
          (if p = QMARK then fat16_wildcard_match ps cs
           else if fat16_upper_char p \<noteq> fat16_upper_char c then False
           else fat16_wildcard_match ps cs))"
| "wildcard_star qs [] = fat16_wildcard_match qs []"
| "wildcard_star qs (c # cs) = (if fat16_wildcard_match qs (c # cs) then True else wildcard_star qs cs)"
  by pat_completeness auto

termination
proof (relation "measures [\<lambda>x. case x of Inl (p, t) \<Rightarrow> 2 * length p | Inr (q, t) \<Rightarrow> 2 * length q + 1,
    \<lambda>x. case x of Inl (p, t) \<Rightarrow> length t | Inr (q, t) \<Rightarrow> length t]", goal_cases)
  case (2 p ps t qs)
  have "length qs \<le> length ps" using 2(2) by (simp add: length_dropWhile_le)
  then show ?case by simp
qed auto

declare fat16_wildcard_match.simps [simp del] wildcard_star.simps [simp del]

definition fat16_match_pattern :: "cstr option \<Rightarrow> FAT16_DirectoryEntry \<Rightarrow> bool" where
  "fat16_match_pattern pattern entry = (case pattern of
     None \<Rightarrow> True
   | Some p \<Rightarrow>
      (if p = [] then True
       else if p = [STAR] \<or> p = [STAR, DOT, STAR] then True
       else fat16_wildcard_match p (fat16_build_display_name entry)))"

section \<open>The 8.3 form of a name\<close>

definition invalid_chars :: cstr where
  "invalid_chars = [0x22, 0x2A, 0x2F, 0x3A, 0x3C, 0x3E, 0x3F, 0x5C, 0x7C, 0x2B, 0x3B, 0x2C, 0x3D, 0x5B, 0x5D]"

text \<open>One part of the name: characters are written to \<open>out\<close> from \<open>pos\<close> on, at most up to \<open>lim\<close>. The
  base name stops at a dot, the extension at the end. \<open>None\<close> is the return value 0.\<close>

fun format_part :: "bool \<Rightarrow> nat \<Rightarrow> cstr \<Rightarrow> nat \<Rightarrow> u8 list \<Rightarrow> (cstr \<times> u8 list) option" where
  "format_part base lim [] pos out_name = Some ([], out_name)"
| "format_part base lim (x # xs) pos out_name =
     (if base \<and> x = DOT then Some (x # xs, out_name)
      else if pos \<ge> lim then None
      else (let c = fat16_upper_char x in
        if c = SPACE then None
        else if c \<in> set invalid_chars then None
        else format_part base lim xs (Suc pos) (out_name[pos := c])))"

definition fat16_format_name :: "cstr \<Rightarrow> u8 list option" where
  "fat16_format_name input =
     (if input = [] then None
      else if input = [DOT] then None
      else if input = [DOT, DOT] then None
      else case format_part True 8 input 0 (replicate 11 SPACE) of
        None \<Rightarrow> None
      | Some (rest, out_name) \<Rightarrow>
         (case rest of
            [] \<Rightarrow> Some out_name
          | _ # ext \<Rightarrow> map_option snd (format_part False 11 ext 8 out_name)))"

section \<open>What the name operations compute\<close>

definition base_of :: "cstr \<Rightarrow> cstr" where
  "base_of f = takeWhile (\<lambda>c. c \<noteq> DOT) f"

definition ext_of :: "cstr \<Rightarrow> cstr option" where
  "ext_of f = (case dropWhile (\<lambda>c. c \<noteq> DOT) f of [] \<Rightarrow> None | _ # x \<Rightarrow> Some x)"

definition pad :: "nat \<Rightarrow> u8 list \<Rightarrow> u8 list" where
  "pad n xs = xs @ replicate (n - length xs) SPACE"

definition legal_char :: "u8 \<Rightarrow> bool" where
  "legal_char c \<longleftrightarrow> fat16_upper_char c \<noteq> SPACE \<and> fat16_upper_char c \<notin> set invalid_chars"

text \<open>The names DOS accepts: not empty, not a dot name, a base of at most 8 and an extension of at
  most 3 legal characters.\<close>

definition legal_name :: "cstr \<Rightarrow> bool" where
  "legal_name f \<longleftrightarrow> f \<noteq> [] \<and> f \<noteq> [DOT] \<and> f \<noteq> [DOT, DOT]
     \<and> length (base_of f) \<le> 8 \<and> list_all legal_char (base_of f)
     \<and> (case ext_of f of None \<Rightarrow> True | Some x \<Rightarrow> length x \<le> 3 \<and> list_all legal_char x)"

definition padded_name :: "cstr \<Rightarrow> u8 list" where
  "padded_name f = pad 8 (map fat16_upper_char (base_of f))
     @ pad 3 (map fat16_upper_char (case ext_of f of None \<Rightarrow> [] | Some x \<Rightarrow> x))"

definition upper_name :: "cstr \<Rightarrow> bool" where
  "upper_name f \<longleftrightarrow> list_all (\<lambda>c. fat16_upper_char c = c) f"

lemma name_split: "f = base_of f @ (case ext_of f of None \<Rightarrow> [] | Some x \<Rightarrow> DOT # x)"
proof -
  have "f = base_of f @ dropWhile (\<lambda>c. c \<noteq> DOT) f" by (simp add: base_of_def)
  moreover have "dropWhile (\<lambda>c. c \<noteq> DOT) f = (case ext_of f of None \<Rightarrow> [] | Some x \<Rightarrow> DOT # x)"
    by (auto simp: ext_of_def dropWhile_eq_Cons_conv split: list.split)
  ultimately show ?thesis by simp
qed

lemma base_no_dot: "DOT \<notin> set (base_of f)"
  unfolding base_of_def using set_takeWhileD by fastforce

text \<open>Writing a run of characters into the padded name.\<close>

fun put_run :: "u8 list \<Rightarrow> nat \<Rightarrow> u8 list \<Rightarrow> u8 list" where
  "put_run out_name pos [] = out_name"
| "put_run out_name pos (c # cs) = put_run (out_name[pos := c]) (Suc pos) cs"

lemma put_run_append:
  "length a = pos \<Longrightarrow> length cs \<le> length b \<Longrightarrow> put_run (a @ b) pos cs = a @ cs @ drop (length cs) b"
proof (induction cs arbitrary: a b pos)
  case (Cons c cs)
  then obtain x b' where b: "b = x # b'" by (cases b) auto
  with Cons.prems have "put_run (a @ b) pos (c # cs) = put_run ((a @ [c]) @ b') (Suc pos) cs"
    by (simp add: list_update_append)
  also have "\<dots> = (a @ [c]) @ cs @ drop (length cs) b'"
    using Cons.prems b by (intro Cons.IH) auto
  finally show ?case using b by simp
qed simp

lemma format_part_base:
  assumes "DOT \<notin> set b" "r = [] \<or> hd r = DOT"
  shows "format_part True lim (b @ r) pos out_name =
     (if pos + length b \<le> lim \<or> b = [] then
        (if list_all legal_char b then Some (r, put_run out_name pos (map fat16_upper_char b)) else None)
      else None)"
  using assms
proof (induction b arbitrary: pos out_name)
  case Nil
  then show ?case by (cases r) auto
next
  case (Cons c b)
  then show ?case by (auto simp: Let_def legal_char_def [of c] Suc_le_eq)
qed

lemma format_part_ext:
  "format_part False lim x pos out_name =
     (if pos + length x \<le> lim \<or> x = [] then
        (if list_all legal_char x then Some ([], put_run out_name pos (map fat16_upper_char x)) else None)
      else None)"
  by (induction x arbitrary: pos out_name) (auto simp: Let_def legal_char_def Suc_le_eq)

lemma format_name_exact: "fat16_format_name f = (if legal_name f then Some (padded_name f) else None)"
proof (cases "f = [] \<or> f = [DOT] \<or> f = [DOT, DOT]")
  case True
  then show ?thesis by (auto simp: fat16_format_name_def legal_name_def)
next
  case False
  let ?b = "base_of f" and ?r = "case ext_of f of None \<Rightarrow> [] | Some x \<Rightarrow> DOT # x"
  have r83: "n \<le> 8 \<Longrightarrow> replicate (11 - n) SPACE = replicate (8 - n) SPACE @ replicate 3 SPACE" for n
    by (simp flip: replicate_add)
  have run: "length ?b \<le> 8 \<Longrightarrow> put_run (replicate 11 SPACE) 0 (map fat16_upper_char ?b)
      = pad 8 (map fat16_upper_char ?b) @ replicate 3 SPACE"
    using put_run_append [of "[]" 0 "map fat16_upper_char ?b" "replicate 11 SPACE"] by (simp add: pad_def r83)
  have base: "format_part True 8 f 0 (replicate 11 SPACE) =
      (if length ?b \<le> 8 \<and> list_all legal_char ?b then Some (?r, pad 8 (map fat16_upper_char ?b) @ replicate 3 SPACE)
       else None)"
    by (subst name_split, subst format_part_base [OF base_no_dot]) (auto simp: run split: option.split)
  have ext: "length ?b \<le> 8 \<Longrightarrow> length x \<le> 3 \<Longrightarrow>
      put_run (pad 8 (map fat16_upper_char ?b) @ replicate 3 SPACE) 8 (map fat16_upper_char x)
      = pad 8 (map fat16_upper_char ?b) @ pad 3 (map fat16_upper_char x)" for x
    by (subst put_run_append) (auto simp: pad_def)
  show ?thesis
  proof (cases "ext_of f")
    case None
    then show ?thesis using False
      by (auto simp: fat16_format_name_def legal_name_def base padded_name_def pad_def)
  next
    case (Some x)
    then show ?thesis using False ext [of x]
      by (auto simp: fat16_format_name_def legal_name_def base format_part_ext padded_name_def)
  qed
qed

lemma trim_end_iff:
  "lo \<le> n \<Longrightarrow> lo \<le> k \<Longrightarrow> trim_end nm lo k = n \<longleftrightarrow>
     n \<le> k \<and> (\<forall>i. n \<le> i \<and> i < k \<longrightarrow> nm ! i = SPACE) \<and> (n = lo \<or> nm ! (n - 1) \<noteq> SPACE)"
proof (induction k)
  case (Suc k)
  show ?case
  proof (cases "lo < Suc k \<and> nm ! k = SPACE")
    case True
    then show ?thesis using Suc by (auto simp: less_Suc_eq le_Suc_eq)
  next
    case False
    then show ?thesis using Suc.prems by (auto simp: less_Suc_eq le_Suc_eq)
  qed
qed auto

lemma match_base_exact:
  assumes "DOT \<notin> set b" "r = [] \<or> hd r = DOT" "j + length b \<le> 8"
  shows "match_base (b @ r) nm j =
     (if \<forall>i<length b. nm ! (j + i) = b ! i then Some (j + length b, r) else None)"
  using assms
proof (induction b arbitrary: j)
  case Nil
  then show ?case by (cases r) auto
next
  case (Cons c b)
  have "(\<forall>i<length (c # b). nm ! (j + i) = (c # b) ! i) \<longleftrightarrow> nm ! j = c \<and> (\<forall>i<length b. nm ! (Suc j + i) = b ! i)"
    by (auto simp: nth_Cons less_Suc_eq_0_disj)
  with Cons show ?case by auto
qed

lemma match_ext_exact:
  "pos \<le> 11 \<Longrightarrow> match_ext x nm pos = Some [] \<longleftrightarrow> pos + length x \<le> 11 \<and> (\<forall>i<length x. nm ! (pos + i) = x ! i)"
proof (induction x arbitrary: pos)
  case (Cons c x)
  have "(\<forall>i<length (c # x). nm ! (pos + i) = (c # x) ! i) \<longleftrightarrow> nm ! pos = c \<and> (\<forall>i<length x. nm ! (Suc pos + i) = x ! i)"
    by (auto simp: nth_Cons less_Suc_eq_0_disj)
  with Cons show ?case by auto
qed simp

lemma take_eq_pad:
  assumes "length nm \<ge> k" "length b \<le> k"
  shows "take k nm = pad k b \<longleftrightarrow> (\<forall>i<length b. nm ! i = b ! i) \<and> (\<forall>i. length b \<le> i \<and> i < k \<longrightarrow> nm ! i = SPACE)"
proof -
  have "take k nm = pad k b \<longleftrightarrow> (\<forall>i<k. nm ! i = pad k b ! i)"
    using assms by (auto simp: list_eq_iff_nth_eq pad_def)
  also have "\<dots> \<longleftrightarrow> (\<forall>i<length b. nm ! i = b ! i) \<and> (\<forall>i. length b \<le> i \<and> i < k \<longrightarrow> nm ! i = SPACE)"
    using assms(2) by (auto simp: pad_def nth_append not_less split: if_splits)
  finally show ?thesis .
qed

text \<open>What a legal upper-case name matches: the entries with the same base name, and, without an
  extension, those with a blank extension (any extension after a base of 8 characters); with an
  extension, those whose extension begins with it.\<close>

definition name_matches :: "cstr \<Rightarrow> u8 list \<Rightarrow> bool" where
  "name_matches f nm \<longleftrightarrow> take 8 nm = pad 8 (base_of f) \<and> (case ext_of f of
       None \<Rightarrow> length (base_of f) = 8 \<or> drop 8 nm = replicate 3 SPACE
     | Some x \<Rightarrow> take (length x) (drop 8 nm) = x)"

lemma drop_8_name: "length nm = 11 \<Longrightarrow> drop 8 nm = [nm ! 8, nm ! 9, nm ! 10]"
  by (simp add: Cons_nth_drop_Suc [symmetric])

lemma legal_no_space: "legal_char c \<Longrightarrow> c \<noteq> SPACE"
  by (auto simp: legal_char_def fat16_upper_char_def SPACE_def)

lemma match_name_exact:
  assumes legal: "legal_name f" and len: "length (de_name e) = 11"
  shows "fat16_match_name f e \<longleftrightarrow> name_matches f (de_name e)"
proof -
  let ?b = "base_of f" and ?nm = "de_name e"
  let ?r = "case ext_of f of None \<Rightarrow> [] | Some x \<Rightarrow> DOT # x"
  have l: "length ?b \<le> 8" "list_all legal_char ?b" "f \<noteq> [DOT]" "f \<noteq> [DOT, DOT]" using legal by (auto simp: legal_name_def)
  have "match_base (?b @ ?r) ?nm 0 = (if \<forall>i<length ?b. ?nm ! i = ?b ! i then Some (length ?b, ?r) else None)"
    using match_base_exact [OF base_no_dot, of ?r 0 f ?nm] l(1) by (auto split: option.split)
  then have mb: "match_base f ?nm 0 = (if \<forall>i<length ?b. ?nm ! i = ?b ! i then Some (length ?b, ?r) else None)"
    unfolding name_split [of f, symmetric] .
  have te: "trim_end ?nm 0 8 = length ?b \<longleftrightarrow> (\<forall>i. length ?b \<le> i \<and> i < 8 \<longrightarrow> ?nm ! i = SPACE)"
    if eq: "\<forall>i<length ?b. ?nm ! i = ?b ! i"
  proof -
    have "?b = [] \<or> ?nm ! (length ?b - 1) \<noteq> SPACE"
    proof (cases "?b = []")
      case False
      then have "?nm ! (length ?b - 1) = last ?b" using eq by (simp add: last_conv_nth)
      moreover have "legal_char (last ?b)" using l(2) False by (simp add: list_all_iff)
      ultimately show ?thesis using legal_no_space by simp
    qed simp
    then show ?thesis using l(1) by (auto simp: trim_end_iff)
  qed
  have base: "take 8 ?nm = pad 8 ?b \<longleftrightarrow> (\<forall>i<length ?b. ?nm ! i = ?b ! i) \<and> trim_end ?nm 0 8 = length ?b"
    using take_eq_pad [of 8 ?nm ?b] te len l(1) by auto
  have sp: "all_spaces ?nm 8 11 \<longleftrightarrow> drop 8 ?nm = replicate 3 SPACE"
    unfolding drop_8_name [OF len] by (simp add: all_spaces_def upt_rec numeral_3_eq_3)
  show ?thesis
  proof (cases "ext_of f")
    case None
    then show ?thesis using l base sp
      by (auto simp: fat16_match_name_def name_matches_def mb Let_def)
  next
    case (Some x)
    then have x: "length x \<le> 3" using legal by (auto simp: legal_name_def)
    have "match_ext x ?nm 8 = Some [] \<longleftrightarrow> take (length x) (drop 8 ?nm) = x"
      using x len by (auto simp: match_ext_exact list_eq_iff_nth_eq)
    with Some l base show ?thesis
      by (auto simp: fat16_match_name_def name_matches_def mb Let_def)
  qed
qed

section \<open>Patterns as a language\<close>

text \<open>The texts a pattern stands for: a star is any text, a question mark any character, every other
  character itself in either case.\<close>

inductive glob :: "cstr \<Rightarrow> cstr \<Rightarrow> bool" where
  glob_empty: "glob [] []"
| glob_any_text: "glob p t \<Longrightarrow> glob (STAR # p) (u @ t)"
| glob_any_char: "glob p t \<Longrightarrow> glob (QMARK # p) (c # t)"
| glob_char: "glob p t \<Longrightarrow> x \<noteq> STAR \<Longrightarrow> x \<noteq> QMARK \<Longrightarrow> fat16_upper_char x = fat16_upper_char c \<Longrightarrow> glob (x # p) (c # t)"

inductive_simps glob_Nil [simp]: "glob [] t"
inductive_simps glob_Cons: "glob (x # p) t"

lemma star_not_qmark [simp]: "STAR \<noteq> QMARK" "QMARK \<noteq> STAR"
  by (simp_all add: STAR_def QMARK_def)

lemma glob_star: "glob (STAR # p) t \<longleftrightarrow> (\<exists>u v. t = u @ v \<and> glob p v)"
  by (subst glob_Cons) auto

lemma glob_stars: "glob (STAR # p) t \<longleftrightarrow> glob (STAR # dropWhile (\<lambda>c. c = STAR) p) t"
proof (induction p arbitrary: t)
  case (Cons x p)
  have "glob (STAR # STAR # p) t \<longleftrightarrow> glob (STAR # p) t" for t
    unfolding glob_star [of "STAR # p"] unfolding glob_star by (metis append.assoc append_Nil)
  with Cons show ?case by simp
qed simp

lemma wildcard_glob:
  shows "fat16_wildcard_match p t \<longleftrightarrow> glob p t"
    and "wildcard_star q t \<longleftrightarrow> (\<exists>u v. t = u @ v \<and> glob q v)"
proof (induction p t and q t rule: fat16_wildcard_match_wildcard_star.induct)
  case (2 p ps t)
  show ?case
  proof (cases "p = STAR")
    case True
    have any: "glob (STAR # []) t" by (auto simp: glob_star)
    show ?thesis
    proof (cases "dropWhile (\<lambda>c. c = STAR) ps = []")
      case star: True
      have "glob (p # ps) t" unfolding True glob_stars [of ps] star by (rule any)
      then show ?thesis using True star by (simp add: fat16_wildcard_match.simps)
    next
      case False
      have "glob (p # ps) t \<longleftrightarrow> wildcard_star (dropWhile (\<lambda>c. c = STAR) ps) t"
        unfolding 2(1) [OF True refl False] True glob_stars [of ps t] glob_star [of "dropWhile _ _"] ..
      then show ?thesis using True False by (simp only: fat16_wildcard_match.simps Let_def if_True if_False refl)
    qed
  next
    case False
    then show ?thesis using 2(2,3)
      by (cases t) (auto simp: fat16_wildcard_match.simps glob_Cons [of p])
  qed
next
  case (4 qs c cs)
  have "(\<exists>u v. c # cs = u @ v \<and> glob qs v) \<longleftrightarrow> glob qs (c # cs) \<or> (\<exists>u v. cs = u @ v \<and> glob qs v)"
    by (auto simp: Cons_eq_append_conv)
  with 4 show ?case by (auto simp: wildcard_star.simps)
qed (auto simp: fat16_wildcard_match.simps wildcard_star.simps)

text \<open>The name shown for the entry of a legal upper-case name is the name, without a final dot.\<close>

lemma map_nth_upt: "k \<le> length nm \<Longrightarrow> map (\<lambda>i. nm ! i) [j..<k] = drop j (take k nm)"
  by (rule nth_equalityI) auto

lemma upper_map: "upper_name f \<Longrightarrow> map fat16_upper_char (base_of f) = base_of f"
  "upper_name f \<Longrightarrow> ext_of f = Some x \<Longrightarrow> map fat16_upper_char x = x"
proof -
  assume u: "upper_name f"
  have s: "set (base_of f) \<subseteq> set f" "ext_of f = Some x \<Longrightarrow> set x \<subseteq> set f"
    using arg_cong [OF name_split [of f], of set] by auto
  show "map fat16_upper_char (base_of f) = base_of f"
    using u s(1) by (intro map_idI) (auto simp: upper_name_def list_all_iff)
  show "ext_of f = Some x \<Longrightarrow> map fat16_upper_char x = x"
    using u s(2) by (intro map_idI) (auto simp: upper_name_def list_all_iff)
qed

lemma length_padded_name: "legal_name f \<Longrightarrow> length (padded_name f) = 11"
  by (auto simp: legal_name_def padded_name_def pad_def split: option.splits)

lemma own_name_matches:
  assumes "legal_name f" "upper_name f"
  shows "name_matches f (padded_name f)"
  using assms
  by (auto simp: name_matches_def padded_name_def legal_name_def upper_map pad_def split: option.splits)

lemma trim_end_pad:
  assumes "list_all legal_char b" "length a = lo" "length b \<le> n"
  shows "trim_end (a @ pad n b @ c) lo (lo + n) = lo + length b"
proof -
  have "(a @ pad n b @ c) ! (lo + length b - 1) \<noteq> SPACE" if "b \<noteq> []"
  proof -
    have "(a @ pad n b @ c) ! (lo + (length b - 1)) = last b"
      using assms(2) that unfolding pad_def nth_append_length_plus append_assoc
      by (simp add: nth_append last_conv_nth flip: assms(2))
    moreover have "legal_char (last b)" using assms(1) that by (simp add: list_all_iff)
    moreover have "lo + length b - 1 = lo + (length b - 1)" using that by (cases b) auto
    ultimately show ?thesis using legal_no_space by simp
  qed
  moreover have "(a @ pad n b @ c) ! i = SPACE" if "lo + length b \<le> i" "i < lo + n" for i
  proof -
    have "i - lo - length b < n - length b" using that by arith
    then show ?thesis using that assms(2) by (auto simp: pad_def nth_append)
  qed
  ultimately show ?thesis using assms(3)
    by (subst trim_end_iff) auto
qed

lemma display_name_exact:
  assumes f: "legal_name f" "upper_name f" and e: "de_name e = padded_name f"
  shows "fat16_build_display_name e = base_of f @ (case ext_of f of None \<Rightarrow> [] | Some x \<Rightarrow> if x = [] then [] else DOT # x)"
proof -
  let ?b = "base_of f" and ?x = "case ext_of f of None \<Rightarrow> [] | Some x \<Rightarrow> x"
  have nm: "de_name e = pad 8 ?b @ pad 3 ?x"
    using upper_map [OF f(2)] by (simp add: e padded_name_def split: option.split)
  have l: "list_all legal_char ?b" "length ?b \<le> 8" "list_all legal_char ?x" "length ?x \<le> 3"
    using f(1) by (auto simp: legal_name_def split: option.split)
  have len: "length (pad 8 ?b) = 8" "length (pad 3 ?x) = 3" using l by (simp_all add: pad_def)
  have t1: "trim_end (de_name e) 0 8 = length ?b"
    using trim_end_pad [OF l(1), of "[]" 0 8 "pad 3 ?x"] l(2) by (simp add: nm)
  have t2: "trim_end (de_name e) 8 11 = 8 + length ?x"
    using trim_end_pad [OF l(3) len(1), of 3 "[]"] l(4) by (simp add: nm)
  have m1: "map (\<lambda>i. de_name e ! i) [0..<length ?b] = ?b"
    using l(2) len by (subst map_nth_upt) (auto simp: nm pad_def)
  have m2: "map (\<lambda>i. de_name e ! i) [8..<8 + length ?x] = ?x"
    using l(4) len by (subst map_nth_upt) (auto simp: nm pad_def)
  show ?thesis
    unfolding fat16_build_display_name_def Let_def t1 t2 m1 m2
    by (auto split: option.split)
qed

section \<open>The name operations\<close>

text \<open>
  C15: short names. \<^verbatim>\<open>fat16_format_name\<close> accepts exactly the 8.3 names DOS allows and
  stores them in upper case, padded with blanks; a legal name is found in an entry exactly when its base is
  the entry's base and its extension is a prefix of the entry's; and an upper-case name matches the entry
  stored for it, which is displayed as that name (without a trailing dot).
\<close>

theorem short_names_exact:
  "fat16_format_name f = (if legal_name f then Some (padded_name f) else None)
   \<and> (legal_name f \<and> length (de_name e) = 11 \<longrightarrow> fat16_match_name f e = name_matches f (de_name e))
   \<and> (legal_name f \<and> upper_name f \<and> fat16_format_name f = Some (de_name e) \<longrightarrow>
      fat16_match_name f e \<and> fat16_build_display_name e =
        base_of f @ (case ext_of f of None \<Rightarrow> [] | Some x \<Rightarrow> if x = [] then [] else DOT # x))"
proof -
  have "fat16_match_name f e \<and> fat16_build_display_name e =
      base_of f @ (case ext_of f of None \<Rightarrow> [] | Some x \<Rightarrow> if x = [] then [] else DOT # x)"
    if f: "legal_name f" "upper_name f" and e: "fat16_format_name f = Some (de_name e)"
  proof -
    have nm: "de_name e = padded_name f" using e f(1) by (simp add: format_name_exact)
    then have "fat16_match_name f e" using match_name_exact [OF f(1)] own_name_matches [OF f] length_padded_name [OF f(1)] by simp
    then show ?thesis using display_name_exact [OF f nm] by simp
  qed
  then show ?thesis using match_name_exact [of f e] format_name_exact [of f] by blast
qed

text \<open>The entry of \<^verbatim>\<open>READ.ME\<close> as a file of 5 bytes in cluster 2.\<close>

definition read_me :: cstr where
  "read_me = ascii ''READ.ME''"

definition read_me_entry :: FAT16_DirectoryEntry where
  "read_me_entry = \<lparr>de_name = ascii ''READ    ME '', de_attributes = FAT16_ATTR_ARCHIVE, de_reserved = 0,
     de_creation_time_ms = 0, de_creation_time = 0, de_creation_date = 0, de_access_date = 0, de_cluster_high = 0,
     de_modified_time = 0, de_modified_date = 0, de_cluster_low = 2, de_file_size = 5\<rparr>"

theorem short_names_exact_witness:
  "fat16_format_name read_me = Some (de_name read_me_entry) \<and> fat16_match_name read_me read_me_entry
    \<and> fat16_build_display_name read_me_entry = read_me"
proof -
  have p: "legal_name read_me" "upper_name read_me" "padded_name read_me = de_name read_me_entry" by code_simp+
  have "base_of read_me @ (case ext_of read_me of None \<Rightarrow> [] | Some x \<Rightarrow> if x = [] then [] else DOT # x) = read_me"
    by code_simp
  then show ?thesis using short_names_exact [of read_me read_me_entry] p by simp
qed

text \<open>
  C16: file name patterns. The recursive matcher decides the language of the pattern: an entry matches
  exactly when the pattern is empty, is \<^verbatim>\<open>*.*\<close>, or its displayed name is in the language where
  a star stands for any text, a question mark for any character and other characters for themselves in
  either case.
\<close>

theorem match_pattern_exact:
  "fat16_match_pattern (Some p) e \<longleftrightarrow> p = [] \<or> p = [STAR, DOT, STAR] \<or> glob p (fat16_build_display_name e)"
proof -
  have "glob [STAR] (fat16_build_display_name e)" by (auto simp: glob_star)
  then show ?thesis by (auto simp: fat16_match_pattern_def wildcard_glob(1))
qed

end
