(* ===== verification/Fat_Dir.thy ===== *)
theory Fat_Dir
  imports Fat_Name
begin

text \<open>
  Directories of a FAT volume, \<^verbatim>\<open>fat16_dir_lookup.inc\<close> and \<^verbatim>\<open>fat16_dir_mutation.inc\<close>: listing, lookup,
  creation, update and deletion of entries, and directories inside directories.

  Every function of these files that visits a directory has the same two loops: over the sectors of
  the root area when \<^verbatim>\<open>dir_cluster\<close> is 0, and otherwise over the sectors of the clusters of a chain,
  which may be cyclic on a damaged volume, so that the walk may never end (\<open>None\<close>). They are
  \<open>over_sectors\<close> and \<open>over_clusters\<close>, with the body of the innermost loop as an argument; the body either
  goes on with new values of the loop variables or returns from the function.

  The code reads entries through a pointer into \<^verbatim>\<open>sector_buffer\<close>, which calls in the loop body may
  overwrite: the model reads them from the buffer of the current state.

  Pointers are not null: the checks \<^verbatim>\<open>!name\<close> are left out, those for the empty string are there.
\<close>

unbundle bit_operations_syntax

section \<open>Walking a directory\<close>

datatype ('a, 'r) step = Continue 'a | Return 'r

fun over_sectors ::
    "(u32 \<Rightarrow> 'a \<Rightarrow> 'd fat_state \<Rightarrow> (('a, 'r) step \<times> 'd fat_state) option)
     \<Rightarrow> u32 list \<Rightarrow> 'a \<Rightarrow> 'd fat_state \<Rightarrow> (('a, 'r) step \<times> 'd fat_state) option" where
  "over_sectors body [] a s = Some (Continue a, s)"
| "over_sectors body (x # xs) a s = (case body x a s of
     None \<Rightarrow> None
   | Some (Return r, s1) \<Rightarrow> Some (Return r, s1)
   | Some (Continue a1, s1) \<Rightarrow> over_sectors body xs a1 s1)"

text \<open>\<^verbatim>\<open>data_start + (cluster - 2) * bpb.sectors_per_cluster + s\<close> in unsigned arithmetic.\<close>

definition dir_sector :: "FAT16_BPB \<Rightarrow> nat \<Rightarrow> u32 \<Rightarrow> nat \<Rightarrow> u32" where
  "dir_sector p data_start cluster k = of_nat data_start + (cluster - 2) * ucast (sectors_per_cluster p) + of_nat k"

definition cluster_sectors :: "FAT16_BPB \<Rightarrow> nat \<Rightarrow> u32 \<Rightarrow> u32 list" where
  "cluster_sectors p data_start cluster = map (dir_sector p data_start cluster) [0..<unat (sectors_per_cluster p)]"

partial_function (option) over_clusters ::
    "'d sector_io \<Rightarrow> (u32 \<Rightarrow> 'a \<Rightarrow> 'd fat_state \<Rightarrow> (('a, 'r) step \<times> 'd fat_state) option)
     \<Rightarrow> nat \<Rightarrow> u32 \<Rightarrow> 'a \<Rightarrow> 'd fat_state \<Rightarrow> (('a, 'r) step \<times> 'd fat_state) option" where
  "over_clusters io body data_start cluster a s =
     Option.bind (fat_is_data_cluster (bpb s) cluster) (\<lambda>ok.
       if \<not> ok then Some (Continue a, s)
       else Option.bind (over_sectors body (cluster_sectors (bpb s) data_start cluster) a s) (\<lambda>(r, s1).
         case r of
           Return x \<Rightarrow> Some (Return x, s1)
         | Continue a1 \<Rightarrow>
             (case fat16_get_next_cluster io (ucast cluster) s1 of (nxt, s2) \<Rightarrow>
                over_clusters io body data_start (ucast nxt) a1 s2)))"

definition root_sectors :: "FAT16_BPB \<Rightarrow> nat \<Rightarrow> u32 list" where
  "root_sectors p n = map (\<lambda>k. of_nat (get_root_dir_start p + k)) [0..<n]"

definition over_dir ::
    "'d sector_io \<Rightarrow> (u32 \<Rightarrow> 'a \<Rightarrow> 'd fat_state \<Rightarrow> (('a, 'r) step \<times> 'd fat_state) option)
     \<Rightarrow> u32 \<Rightarrow> 'a \<Rightarrow> 'd fat_state \<Rightarrow> (('a, 'r) step \<times> 'd fat_state) option" where
  "over_dir io body dir_cluster a s =
     (if dir_cluster = 0 then do {
        n \<leftarrow> get_root_dir_sectors (bpb s);
        over_sectors body (root_sectors (bpb s) n) a s
      } else do {
        data_start \<leftarrow> get_data_start (bpb s);
        over_clusters io body data_start dir_cluster a s
      })"

text \<open>\<^verbatim>\<open>SECTOR_SIZE / sizeof(FAT16_DirectoryEntry)\<close> entries fit in a sector.\<close>

definition SLOTS :: "nat list" where
  "SLOTS = [0..<16]"

section \<open>Listing\<close>

definition print_both_char :: "u8 \<Rightarrow> 'd fat_state \<Rightarrow> 'd fat_state" where
  "print_both_char c s = (let ch = [char_of (unat c)] in
     s\<lparr>f_screen := f_screen s @ [ch], f_serial := f_serial s @ [ch]\<rparr>)"

definition print_both_string :: "string \<Rightarrow> 'd fat_state \<Rightarrow> 'd fat_state" where
  "print_both_string msg s = s\<lparr>f_screen := f_screen s @ [msg], f_serial := f_serial s @ [msg]\<rparr>"

definition print_entry_name :: "FAT16_DirectoryEntry \<Rightarrow> 'd fat_state \<Rightarrow> 'd fat_state" where
  "print_entry_name entry s =
     (let nm = de_name entry;
          ext_present = list_ex (\<lambda>j. nm ! j \<noteq> SPACE) [8..<11];
          s1 = fold (\<lambda>j. print_both_char (nm ! j)) [0..<8] s
      in if ext_present then fold (\<lambda>j. print_both_char (nm ! j)) [8..<11] (print_both_char DOT s1)
         else print_both_string ''    '' s1)"

fun list_entries :: "cstr option \<Rightarrow> nat list \<Rightarrow> 'd fat_state \<Rightarrow> (unit, unit) step \<times> 'd fat_state" where
  "list_entries pattern [] s = (Continue (), s)"
| "list_entries pattern (i # is) s =
     (let e = entry_at (sector_buffer s) i in
      if de_name e ! 0 = 0 then (Return (), s)
      else if \<not> fat16_entry_is_visible e then list_entries pattern is s
      else if \<not> fat16_match_pattern pattern e then list_entries pattern is s
      else list_entries pattern is (print_both_char 0x0A
        (print_both_string (if de_attributes e AND FAT16_ATTR_DIRECTORY \<noteq> 0 then ''<DIR>'' else ''     '')
          (print_both_string ''  '' (print_entry_name e s)))))"

definition list_body ::
    "'d sector_io \<Rightarrow> string \<Rightarrow> cstr option \<Rightarrow> u32 \<Rightarrow> unit \<Rightarrow> 'd fat_state \<Rightarrow> ((unit, unit) step \<times> 'd fat_state) option" where
  "list_body io err pattern sector _ s = (case read_buf io sector s of
     (False, s1) \<Rightarrow> Some (Return (), print_both_string err s1)
   | (True, s1) \<Rightarrow> Some (list_entries pattern SLOTS s1))"

definition fat16_list_dir_filtered :: "'d sector_io \<Rightarrow> u32 \<Rightarrow> cstr option \<Rightarrow> 'd fat_state \<Rightarrow> 'd fat_state option" where
  "fat16_list_dir_filtered io dir_cluster pattern s =
     map_option snd (over_dir io
       (list_body io (if dir_cluster = 0 then ''[FAT16] Error reading root directory'' @ [CHR 0x0A]
                      else ''[FAT16] Error reading directory'' @ [CHR 0x0A]) pattern) dir_cluster () s)"

definition fat16_list_root_filtered :: "'d sector_io \<Rightarrow> cstr option \<Rightarrow> 'd fat_state \<Rightarrow> 'd fat_state option" where
  "fat16_list_root_filtered io pattern s = fat16_list_dir_filtered io 0 pattern s"

definition fat16_list_root :: "'d sector_io \<Rightarrow> 'd fat_state \<Rightarrow> 'd fat_state option" where
  "fat16_list_root io s = fat16_list_root_filtered io None s"

definition fat16_list_dir :: "'d sector_io \<Rightarrow> u32 \<Rightarrow> 'd fat_state \<Rightarrow> 'd fat_state option" where
  "fat16_list_dir io dir_cluster s = fat16_list_dir_filtered io dir_cluster None s"

section \<open>Lookup\<close>

type_synonym found = "(FAT16_DirectoryEntry \<times> u32 \<times> nat) option"  \<comment> \<open>entry, sector, index\<close>

fun find_slot :: "cstr \<Rightarrow> u8 list \<Rightarrow> nat list \<Rightarrow> (unit, (FAT16_DirectoryEntry \<times> nat) option) step" where
  "find_slot name b [] = Continue ()"
| "find_slot name b (i # is) =
     (let e = entry_at b i in
      if de_name e ! 0 = 0 then Return None
      else if de_name e ! 0 = 0xE5 then find_slot name b is
      else if de_attributes e AND FAT16_ATTR_VOLUME_ID \<noteq> 0 then find_slot name b is
      else if de_attributes e AND 0x0F = 0x0F then find_slot name b is
      else if \<not> fat16_match_name name e then find_slot name b is
      else Return (Some (e, i)))"

definition find_body :: "'d sector_io \<Rightarrow> cstr \<Rightarrow> u32 \<Rightarrow> unit \<Rightarrow> 'd fat_state \<Rightarrow> ((unit, found) step \<times> 'd fat_state) option" where
  "find_body io name sector _ s = (case read_buf io sector s of
     (False, s1) \<Rightarrow> Some (Return None, s1)
   | (True, s1) \<Rightarrow> Some (case find_slot name (sector_buffer s1) SLOTS of
        Continue _ \<Rightarrow> (Continue (), s1)
      | Return r \<Rightarrow> (Return (map_option (\<lambda>(e, i). (e, sector, i)) r), s1)))"

definition fat16_find_entry_internal ::
    "'d sector_io \<Rightarrow> u32 \<Rightarrow> cstr \<Rightarrow> 'd fat_state \<Rightarrow> (found \<times> 'd fat_state) option" where
  "fat16_find_entry_internal io dir_cluster name s = do {
     (r, s1) \<leftarrow> over_dir io (find_body io name) dir_cluster () s;
     Some (case r of Continue _ \<Rightarrow> None | Return x \<Rightarrow> x, s1)
   }"

definition fat16_find_entry :: "'d sector_io \<Rightarrow> u32 \<Rightarrow> cstr \<Rightarrow> 'd fat_state \<Rightarrow> (found \<times> 'd fat_state) option" where
  "fat16_find_entry io dir_cluster name s =
     (if name = [] then Some (None, s) else fat16_find_entry_internal io dir_cluster name s)"

definition fat16_find_dir_cluster :: "'d sector_io \<Rightarrow> u32 \<Rightarrow> cstr \<Rightarrow> 'd fat_state \<Rightarrow> (u32 option \<times> 'd fat_state) option" where
  "fat16_find_dir_cluster io dir_cluster name s = do {
     (r, s1) \<leftarrow> fat16_find_entry_internal io dir_cluster name s;
     Some (case r of
         None \<Rightarrow> None
       | Some (e, _, _) \<Rightarrow>
           if de_attributes e AND FAT16_ATTR_DIRECTORY = 0 then None else Some (ucast (de_cluster_low e)), s1)
   }"

definition fat16_get_parent_cluster :: "'d sector_io \<Rightarrow> u32 \<Rightarrow> 'd fat_state \<Rightarrow> (u32 option \<times> 'd fat_state) option" where
  "fat16_get_parent_cluster io dir_cluster s =
     (if dir_cluster = 0 then Some (Some 0, s) else fat16_find_dir_cluster io dir_cluster [DOT, DOT] s)"

text \<open>The entry with a given number among the visible ones: display name, whether it is a directory, size.\<close>

fun nth_visible :: "u32 \<Rightarrow> u8 list \<Rightarrow> nat list \<Rightarrow> u32 \<Rightarrow> (u32, (cstr \<times> bool \<times> u32) option) step" where
  "nth_visible index b [] current = Continue current"
| "nth_visible index b (i # is) current =
     (let e = entry_at b i in
      if de_name e ! 0 = 0 then Return None
      else if \<not> fat16_entry_is_visible e then nth_visible index b is current
      else if current = index then
        Return (Some (fat16_build_display_name e, de_attributes e AND FAT16_ATTR_DIRECTORY \<noteq> 0, de_file_size e))
      else nth_visible index b is (current + 1))"

definition index_body ::
    "'d sector_io \<Rightarrow> u32 \<Rightarrow> u32 \<Rightarrow> u32 \<Rightarrow> 'd fat_state \<Rightarrow> ((u32, (cstr \<times> bool \<times> u32) option) step \<times> 'd fat_state) option" where
  "index_body io index sector current s = (case read_buf io sector s of
     (False, s1) \<Rightarrow> Some (Return None, s1)
   | (True, s1) \<Rightarrow> Some (nth_visible index (sector_buffer s1) SLOTS current, s1))"

definition fat16_get_entry_by_index ::
    "'d sector_io \<Rightarrow> u32 \<Rightarrow> u32 \<Rightarrow> int \<Rightarrow> 'd fat_state \<Rightarrow> ((cstr \<times> bool \<times> u32) option \<times> 'd fat_state) option" where
  "fat16_get_entry_by_index io dir_cluster index out_name_size s =
     (if out_name_size < 2 then Some (None, s)
      else do {
        (r, s1) \<leftarrow> over_dir io (index_body io index) dir_cluster 0 s;
        Some (case r of Continue _ \<Rightarrow> None | Return x \<Rightarrow> x, s1)
      })"

section \<open>Creating entries\<close>

definition slot_free :: "u8 list \<Rightarrow> nat \<Rightarrow> bool" where
  "slot_free b i \<longleftrightarrow> de_name (entry_at b i) ! 0 = 0 \<or> de_name (entry_at b i) ! 0 = 0xE5"

definition free_slot_body :: "'d sector_io \<Rightarrow> u32 \<Rightarrow> unit \<Rightarrow> 'd fat_state \<Rightarrow> ((unit, (u32 \<times> nat) option) step \<times> 'd fat_state) option" where
  "free_slot_body io sector _ s = (case read_buf io sector s of
     (False, s1) \<Rightarrow> Some (Return None, s1)
   | (True, s1) \<Rightarrow> Some (case find (slot_free (sector_buffer s1)) SLOTS of
        None \<Rightarrow> (Continue (), s1)
      | Some i \<Rightarrow> (Return (Some (sector, i)), s1)))"

definition fat16_find_free_root_entry :: "'d sector_io \<Rightarrow> 'd fat_state \<Rightarrow> ((u32 \<times> nat) option \<times> 'd fat_state) option" where
  "fat16_find_free_root_entry io s = do {
     n \<leftarrow> get_root_dir_sectors (bpb s);
     (r, s1) \<leftarrow> over_sectors (free_slot_body io) (root_sectors (bpb s) n) () s;
     Some (case r of Continue _ \<Rightarrow> None | Return x \<Rightarrow> x, s1)
   }"

definition fat16_write_dir_entry_at :: "'d sector_io \<Rightarrow> u32 \<Rightarrow> nat \<Rightarrow> FAT16_DirectoryEntry \<Rightarrow> 'd fat_state \<Rightarrow> bool \<times> 'd fat_state" where
  "fat16_write_dir_entry_at io sector index entry s = (case read_buf io sector s of
     (False, s1) \<Rightarrow> (False, s1)
   | (True, s1) \<Rightarrow> write_buf io sector (s1\<lparr>sector_buffer := set_entry (sector_buffer s1) index entry\<rparr>))"

definition new_entry :: "u8 list \<Rightarrow> u16 \<Rightarrow> u32 \<Rightarrow> u8 \<Rightarrow> FAT16_DirectoryEntry" where
  "new_entry name_83 cluster file_size attr =
     \<lparr>de_name = name_83, de_attributes = attr, de_reserved = 0, de_creation_time_ms = 0,
      de_creation_time = 0, de_creation_date = 0, de_access_date = 0, de_cluster_high = 0,
      de_modified_time = 0, de_modified_date = 0, de_cluster_low = cluster, de_file_size = file_size\<rparr>"

definition fat16_init_dir_entries :: "'d sector_io \<Rightarrow> u16 \<Rightarrow> u32 \<Rightarrow> 'd fat_state \<Rightarrow> (bool \<times> 'd fat_state) option" where
  "fat16_init_dir_entries io dir_cluster parent_cluster s = do {
     data_start \<leftarrow> get_data_start (bpb s);
     let first_sector = of_int (cluster_sector (bpb s) data_start dir_cluster);
     Some (case read_buf io first_sector s of
       (False, s1) \<Rightarrow> (False, s1)
     | (True, s1) \<Rightarrow>
        (let dot = new_entry (DOT # replicate 10 SPACE) dir_cluster 0 FAT16_ATTR_DIRECTORY;
             dotdot = new_entry (DOT # DOT # replicate 9 SPACE) (ucast parent_cluster) 0 FAT16_ATTR_DIRECTORY
         in write_buf io first_sector
              (s1\<lparr>sector_buffer := set_entry (set_entry (sector_buffer s1) 0 dot) 1 dotdot\<rparr>)))
   }"

text \<open>The loop over a directory that is a chain: the entry goes into the first free slot; \<open>Continue c\<close> is
  the last cluster of the chain when there is none.\<close>

definition add_body ::
    "'d sector_io \<Rightarrow> FAT16_DirectoryEntry \<Rightarrow> u32 \<Rightarrow> unit \<Rightarrow> 'd fat_state \<Rightarrow> ((unit, bool) step \<times> 'd fat_state) option" where
  "add_body io entry sector _ s = (case read_buf io sector s of
     (False, s1) \<Rightarrow> Some (Return False, s1)
   | (True, s1) \<Rightarrow> Some (case find (slot_free (sector_buffer s1)) SLOTS of
        None \<Rightarrow> (Continue (), s1)
      | Some i \<Rightarrow>
         (case write_buf io sector (s1\<lparr>sector_buffer := set_entry (sector_buffer s1) i entry\<rparr>) of
            (ok, s2) \<Rightarrow> (Return ok, s2))))"

partial_function (option) add_walk ::
    "'d sector_io \<Rightarrow> FAT16_DirectoryEntry \<Rightarrow> nat \<Rightarrow> u32 \<Rightarrow> 'd fat_state \<Rightarrow> ((u32, bool) step \<times> 'd fat_state) option" where
  "add_walk io entry data_start cluster_iter s =
     Option.bind (fat_is_data_cluster (bpb s) cluster_iter) (\<lambda>ok.
       if \<not> ok then Some (Continue cluster_iter, s)
       else Option.bind (over_sectors (add_body io entry) (cluster_sectors (bpb s) data_start cluster_iter) () s)
         (\<lambda>(r, s1). case r of
           Return x \<Rightarrow> Some (Return x, s1)
         | Continue _ \<Rightarrow>
             (case fat16_get_next_cluster io (ucast cluster_iter) s1 of (nxt, s2) \<Rightarrow>
                Option.bind (fat_is_data_cluster (bpb s2) (ucast nxt)) (\<lambda>ok2.
                  if \<not> ok2 then Some (Continue cluster_iter, s2)
                  else add_walk io entry data_start (ucast nxt) s2))))"

text \<open>A full directory that is a chain grows by a cluster.\<close>

definition extend_dir ::
    "'d sector_io \<Rightarrow> FAT16_DirectoryEntry \<Rightarrow> nat \<Rightarrow> u32 \<Rightarrow> 'd fat_state \<Rightarrow> (bool \<times> 'd fat_state) option" where
  "extend_dir io entry data_start cluster_iter s = do {
     (r, s1) \<leftarrow> fat16_alloc_cluster_internal io s;
     case r of
       None \<Rightarrow> Some (False, s1)
     | Some new_cluster \<Rightarrow>
        (case fat16_write_fat_entry io (ucast cluster_iter) new_cluster s1 of
           (False, s2) \<Rightarrow> Some (False, s2)
         | (True, s2) \<Rightarrow>
            (case fat16_write_fat_entry io new_cluster (fat_end_of_chain_value s2) s2 of
               (False, s3) \<Rightarrow> Some (False, s3)
             | (True, s3) \<Rightarrow> do {
                 (ok, s4) \<leftarrow> fat16_zero_cluster io new_cluster s3;
                 if \<not> ok then Some (False, s4)
                 else Some (fat16_write_dir_entry_at io
                        (of_int (cluster_sector (bpb s4) data_start new_cluster)) 0 entry s4)
               }))
   }"

definition fat16_add_dir_entry_internal ::
    "'d sector_io \<Rightarrow> u32 \<Rightarrow> u8 list \<Rightarrow> u16 \<Rightarrow> u32 \<Rightarrow> u8 \<Rightarrow> 'd fat_state \<Rightarrow> (bool \<times> 'd fat_state) option" where
  "fat16_add_dir_entry_internal io dir_cluster name_83 cluster file_size attr s =
     (let entry = new_entry name_83 cluster file_size attr in
      if dir_cluster = 0 then do {
        (r, s1) \<leftarrow> fat16_find_free_root_entry io s;
        case r of
          None \<Rightarrow> Some (False, s1)
        | Some (sector, index) \<Rightarrow> Some (fat16_write_dir_entry_at io sector index entry s1)
      } else do {
        data_start \<leftarrow> get_data_start (bpb s);
        (r, s1) \<leftarrow> add_walk io entry data_start dir_cluster s;
        case r of
          Return ok \<Rightarrow> Some (ok, s1)
        | Continue cluster_iter \<Rightarrow> extend_dir io entry data_start cluster_iter s1
      })"

definition fat16_create_entry ::
    "'d sector_io \<Rightarrow> u32 \<Rightarrow> cstr \<Rightarrow> u16 \<Rightarrow> u32 \<Rightarrow> u8 \<Rightarrow> 'd fat_state \<Rightarrow> (bool \<times> 'd fat_state) option" where
  "fat16_create_entry io dir_cluster name first_cluster file_size attr s =
     (if name = [] then Some (False, s)
      else case fat16_format_name name of
        None \<Rightarrow> Some (False, s)
      | Some name_83 \<Rightarrow> do {
          (r, s1) \<leftarrow> fat16_find_entry_internal io dir_cluster name s;
          if r \<noteq> None then Some (False, s1)
          else fat16_add_dir_entry_internal io dir_cluster name_83 first_cluster file_size attr s1
        })"

section \<open>Updating and deleting entries\<close>

definition fat16_update_entry ::
    "'d sector_io \<Rightarrow> u32 \<Rightarrow> cstr \<Rightarrow> cstr \<Rightarrow> u16 \<Rightarrow> u32 \<Rightarrow> u8 \<Rightarrow> 'd fat_state \<Rightarrow> (bool \<times> 'd fat_state) option" where
  "fat16_update_entry io dir_cluster old_name new_name first_cluster file_size attr s =
     (if old_name = [] \<or> new_name = [] then Some (False, s)
      else case fat16_format_name new_name of
        None \<Rightarrow> Some (False, s)
      | Some name_83 \<Rightarrow> do {
          (r, s1) \<leftarrow> fat16_find_entry_internal io dir_cluster old_name s;
          case r of
            None \<Rightarrow> Some (False, s1)
          | Some (current_entry, sector, index) \<Rightarrow> do {
              (conflict, s2) \<leftarrow> (if de_name current_entry = name_83 then Some (None, s1)
                                else fat16_find_entry_internal io dir_cluster new_name s1);
              if conflict \<noteq> None then Some (False, s2)
              else Some (case read_buf io sector s2 of
                (False, s3) \<Rightarrow> (False, s3)
              | (True, s3) \<Rightarrow>
                 (let e = entry_at (sector_buffer s3) index;
                      e' = e\<lparr>de_name := name_83, de_attributes := attr, de_cluster_high := 0,
                              de_cluster_low := first_cluster, de_file_size := file_size\<rparr>
                  in write_buf io sector (s3\<lparr>sector_buffer := set_entry (sector_buffer s3) index e'\<rparr>)))
            }
        })"

text \<open>\<^verbatim>\<open>entries[index].name[0] = 0xE5\<close> and the write of the sector.\<close>

definition mark_deleted :: "nat \<Rightarrow> 'd fat_state \<Rightarrow> 'd fat_state" where
  "mark_deleted index s = s\<lparr>sector_buffer := (sector_buffer s)[DIR_ENTRY_SIZE * index := 0xE5]\<rparr>"

definition delete_slot :: "'d sector_io \<Rightarrow> u32 \<Rightarrow> nat \<Rightarrow> 'd fat_state \<Rightarrow> bool \<times> 'd fat_state" where
  "delete_slot io sector index s = (case read_buf io sector s of
     (False, s1) \<Rightarrow> (False, s1)
   | (True, s1) \<Rightarrow> write_buf io sector (mark_deleted index s1))"

definition fat16_delete_entry :: "'d sector_io \<Rightarrow> u32 \<Rightarrow> cstr \<Rightarrow> bool \<Rightarrow> 'd fat_state \<Rightarrow> (bool \<times> 'd fat_state) option" where
  "fat16_delete_entry io dir_cluster name free_cluster_chain s =
     (if name = [] then Some (False, s)
      else if name = [DOT] then Some (False, s)
      else if name = [DOT, DOT] then Some (False, s)
      else do {
        (r, s1) \<leftarrow> fat16_find_entry_internal io dir_cluster name s;
        case r of
          None \<Rightarrow> Some (False, s1)
        | Some (target, sector, index) \<Rightarrow>
           (if de_attributes target AND FAT16_ATTR_DIRECTORY \<noteq> 0 then Some (False, s1)
            else do {
              (ok, s2) \<leftarrow> (if free_cluster_chain \<and> de_cluster_low target \<ge> 2
                           then fat16_free_cluster_chain_internal io (de_cluster_low target) s1
                           else Some (True, s1));
              if \<not> ok then Some (False, s2) else Some (delete_slot io sector index s2)
            })
      })"

text \<open>The result of \<^verbatim>\<open>fat16_delete_matching\<close> and what it stores in \<^verbatim>\<open>*deleted_count\<close> (nothing after an error).\<close>

fun delete_entries ::
    "'d sector_io \<Rightarrow> cstr \<Rightarrow> bool \<Rightarrow> nat list \<Rightarrow> nat \<Rightarrow> 'd fat_state
     \<Rightarrow> ((nat, bool \<times> nat option) step \<times> 'd fat_state) option" where
  "delete_entries io pattern free_cluster_chain [] deleted s = Some (Continue deleted, s)"
| "delete_entries io pattern free_cluster_chain (i # is) deleted s =
     (let e = entry_at (sector_buffer s) i in
      if de_name e ! 0 = 0 then Some (Return (True, Some deleted), s)
      else if \<not> fat16_entry_is_visible e then delete_entries io pattern free_cluster_chain is deleted s
      else if de_attributes e AND FAT16_ATTR_DIRECTORY \<noteq> 0 then delete_entries io pattern free_cluster_chain is deleted s
      else if \<not> fat16_match_pattern (Some pattern) e then delete_entries io pattern free_cluster_chain is deleted s
      else do {
        (ok, s1) \<leftarrow> (if free_cluster_chain \<and> de_cluster_low e \<ge> 2
                     then fat16_free_cluster_chain_internal io (de_cluster_low e) s else Some (True, s));
        if \<not> ok then Some (Return (False, None), s1)
        else delete_entries io pattern free_cluster_chain is (deleted + 1) (mark_deleted i s1)
      })"

definition delete_body ::
    "'d sector_io \<Rightarrow> cstr \<Rightarrow> bool \<Rightarrow> u32 \<Rightarrow> nat \<Rightarrow> 'd fat_state \<Rightarrow> ((nat, bool \<times> nat option) step \<times> 'd fat_state) option" where
  "delete_body io pattern free_cluster_chain sector deleted s = (case read_buf io sector s of
     (False, s1) \<Rightarrow> Some (Return (False, None), s1)
   | (True, s1) \<Rightarrow> do {
       (r, s2) \<leftarrow> delete_entries io pattern free_cluster_chain SLOTS deleted s1;
       case r of
         Return x \<Rightarrow> Some (Return x, s2)
       | Continue n \<Rightarrow> Some (case write_buf io sector s2 of
            (False, s3) \<Rightarrow> (Return (False, None), s3)
          | (True, s3) \<Rightarrow> (Continue n, s3))
     })"

definition fat16_delete_matching ::
    "'d sector_io \<Rightarrow> u32 \<Rightarrow> cstr \<Rightarrow> bool \<Rightarrow> 'd fat_state \<Rightarrow> ((bool \<times> nat option) \<times> 'd fat_state) option" where
  "fat16_delete_matching io dir_cluster pattern free_cluster_chain s =
     (if pattern = [] then Some ((False, Some 0), s)
      else do {
        (r, s1) \<leftarrow> over_dir io (delete_body io pattern free_cluster_chain) dir_cluster 0 s;
        Some (case r of Return x \<Rightarrow> x | Continue n \<Rightarrow> (True, Some n), s1)
      })"

section \<open>Directories in directories\<close>

fun empty_slots :: "u8 list \<Rightarrow> nat list \<Rightarrow> (unit, bool) step" where
  "empty_slots b [] = Continue ()"
| "empty_slots b (i # is) =
     (let e = entry_at b i in
      if de_name e ! 0 = 0 then Return True
      else if de_name e ! 0 = 0xE5 then empty_slots b is
      else if de_attributes e AND 0x0F = 0x0F then empty_slots b is
      else if de_attributes e AND FAT16_ATTR_VOLUME_ID \<noteq> 0 then empty_slots b is
      else if fat16_match_name [DOT] e then empty_slots b is
      else if fat16_match_name [DOT, DOT] e then empty_slots b is
      else Return False)"

definition empty_body :: "'d sector_io \<Rightarrow> u32 \<Rightarrow> unit \<Rightarrow> 'd fat_state \<Rightarrow> ((unit, bool) step \<times> 'd fat_state) option" where
  "empty_body io sector _ s = (case read_buf io sector s of
     (False, s1) \<Rightarrow> Some (Return False, s1)
   | (True, s1) \<Rightarrow> Some (empty_slots (sector_buffer s1) SLOTS, s1))"

definition fat16_is_directory_empty :: "'d sector_io \<Rightarrow> u16 \<Rightarrow> 'd fat_state \<Rightarrow> (bool \<times> 'd fat_state) option" where
  "fat16_is_directory_empty io dir_cluster s =
     (if dir_cluster < 2 then Some (False, s)
      else do {
        data_start \<leftarrow> get_data_start (bpb s);
        (r, s1) \<leftarrow> over_clusters io (empty_body io) data_start (ucast dir_cluster) () s;
        Some (case r of Continue _ \<Rightarrow> True | Return x \<Rightarrow> x, s1)
      })"

definition fat16_mkdir :: "'d sector_io \<Rightarrow> u32 \<Rightarrow> cstr \<Rightarrow> 'd fat_state \<Rightarrow> (bool \<times> 'd fat_state) option" where
  "fat16_mkdir io dir_cluster name s = (case fat16_format_name name of
     None \<Rightarrow> Some (False, s)
   | Some name_83 \<Rightarrow> do {
       (existing, s1) \<leftarrow> fat16_find_dir_cluster io dir_cluster name s;
       if existing \<noteq> None then Some (False, s1)
       else do {
         (r, s2) \<leftarrow> fat16_alloc_cluster_internal io s1;
         case r of
           None \<Rightarrow> Some (False, s2)
         | Some new_cluster \<Rightarrow> do {
             (ok, s3) \<leftarrow> fat16_zero_cluster io new_cluster s2;
             if \<not> ok then Some (False, s3)
             else do {
               (ok, s4) \<leftarrow> fat16_init_dir_entries io new_cluster dir_cluster s3;
               if \<not> ok then Some (False, s4)
               else fat16_add_dir_entry_internal io dir_cluster name_83 new_cluster 0 FAT16_ATTR_DIRECTORY s4
             }
           }
       }
     })"

definition fat16_rmdir :: "'d sector_io \<Rightarrow> u32 \<Rightarrow> cstr \<Rightarrow> 'd fat_state \<Rightarrow> (bool \<times> 'd fat_state) option" where
  "fat16_rmdir io dir_cluster name s =
     (if name = [] then Some (False, s)
      else if name = [DOT] then Some (False, s)
      else if name = [DOT, DOT] then Some (False, s)
      else do {
        (r, s1) \<leftarrow> fat16_find_entry_internal io dir_cluster name s;
        case r of
          None \<Rightarrow> Some (False, s1)
        | Some (target, sector, index) \<Rightarrow>
           (if de_attributes target AND FAT16_ATTR_DIRECTORY = 0 then Some (False, s1)
            else if de_cluster_low target < 2 then Some (False, s1)
            else do {
              (empty, s2) \<leftarrow> fat16_is_directory_empty io (de_cluster_low target) s1;
              if \<not> empty then Some (False, s2)
              else do {
                (ok, s3) \<leftarrow> fat16_free_cluster_chain_internal io (de_cluster_low target) s2;
                if \<not> ok then Some (False, s3) else Some (delete_slot io sector index s3)
              }
            })
      })"

end
