(* ===== verification/Fat_File.thy ===== *)
theory Fat_File
  imports Fat_Dir
begin

text \<open>
  Files of a FAT volume, \<^verbatim>\<open>storage/fat16_file.c\<close>: replacing the contents of a file, reading it and copying
  it. Writing and copying are bounded by the code's own \<^verbatim>\<open>max_steps\<close>, the fuel of the loops here.
  The caller's buffer is a list; the bytes stored by \<^verbatim>\<open>fat16_read_file_from_dir\<close> are its result, and
  their number is the return value.
\<close>

unbundle bit_operations_syntax

section \<open>Writing\<close>

text \<open>\<^verbatim>\<open>fat16_free_cluster_chain_internal\<close> with its result ignored.\<close>

definition free_ignore :: "'d sector_io \<Rightarrow> u16 \<Rightarrow> 'd fat_state \<Rightarrow> 'd fat_state option" where
  "free_ignore io cluster s = map_option snd (fat16_free_cluster_chain_internal io cluster s)"

definition free_if_any :: "'d sector_io \<Rightarrow> u16 \<Rightarrow> 'd fat_state \<Rightarrow> 'd fat_state option" where
  "free_if_any io cluster s = (if cluster \<ge> 2 then free_ignore io cluster s else Some s)"

text \<open>The sectors of one cluster: data while there is some, zeros after it.\<close>

fun write_sectors ::
    "'d sector_io \<Rightarrow> u8 list \<Rightarrow> int \<Rightarrow> nat list \<Rightarrow> nat \<Rightarrow> nat \<Rightarrow> 'd fat_state \<Rightarrow> (bool \<times> nat \<times> nat) \<times> 'd fat_state" where
  "write_sectors io buffer base [] remaining offset s = ((True, remaining, offset), s)"
| "write_sectors io buffer base (k # ks) remaining offset s =
     (let chunk = (if remaining > SECTOR_SIZE then SECTOR_SIZE else remaining);
          s1 = s\<lparr>sector_buffer := map (\<lambda>i. if i < chunk then buffer ! (offset + i) else 0) [0..<SECTOR_SIZE]\<rparr>
      in case write_buf io (of_int (base + int k)) s1 of
           (False, s2) \<Rightarrow> ((False, remaining - chunk, offset + chunk), s2)
         | (True, s2) \<Rightarrow> write_sectors io buffer base ks (remaining - chunk) (offset + chunk) s2)"

text \<open>Linking a new cluster to the one written before it.\<close>

definition link_cluster :: "'d sector_io \<Rightarrow> u16 \<Rightarrow> u16 \<Rightarrow> 'd fat_state \<Rightarrow> bool \<times> 'd fat_state" where
  "link_cluster io prev_cluster write_cluster s =
     (if prev_cluster \<ge> 2 then
        (case fat16_write_fat_entry io prev_cluster write_cluster s of
           (False, s1) \<Rightarrow> (False, s1)
         | (True, s1) \<Rightarrow> fat16_write_fat_entry io write_cluster (fat_end_of_chain_value s1) s1)
      else (True, s))"

text \<open>The loop of \<^verbatim>\<open>fat16_write_file_from_dir\<close>: \<open>None\<close> after an error (the clusters written so far have been
  freed), otherwise the first cluster and what remains when the loop ends.\<close>

fun write_clusters ::
    "'d sector_io \<Rightarrow> u8 list \<Rightarrow> nat \<Rightarrow> u16 \<Rightarrow> u16 \<Rightarrow> nat \<Rightarrow> nat \<Rightarrow> 'd fat_state
     \<Rightarrow> ((u16 \<times> nat) option \<times> 'd fat_state) option" where
  "write_clusters io buffer max_steps new_first prev remaining offset s =
     (if remaining = 0 then Some (Some (new_first, remaining), s)
      else case max_steps of
        0 \<Rightarrow> Some (Some (new_first, remaining), s)
      | Suc steps \<Rightarrow> do {
          (r, s1) \<leftarrow> fat16_alloc_cluster_internal io s;
          case r of
            None \<Rightarrow> do { s2 \<leftarrow> free_if_any io new_first s1; Some (None, s2) }
          | Some write_cluster \<Rightarrow>
             (let new_first' = (if new_first = 0 then write_cluster else new_first) in
              case link_cluster io prev write_cluster s1 of
                (False, s2) \<Rightarrow> do { s3 \<leftarrow> free_ignore io new_first' s2; Some (None, s3) }
              | (True, s2) \<Rightarrow> do {
                  data_start \<leftarrow> get_data_start (bpb s2);
                  (case write_sectors io buffer (cluster_sector (bpb s2) data_start write_cluster)
                          [0..<unat (sectors_per_cluster (bpb s2))] remaining offset s2 of
                     ((False, _, _), s3) \<Rightarrow> do { s4 \<leftarrow> free_ignore io new_first' s3; Some (None, s4) }
                   | ((True, remaining', offset'), s3) \<Rightarrow>
                       write_clusters io buffer steps new_first' write_cluster remaining' offset' s3)
                })
        })"

declare write_clusters.simps [simp del]

text \<open>Entering the new contents in the directory, the last part of \<^verbatim>\<open>fat16_write_file_from_dir\<close>.\<close>

definition enter_file ::
    "'d sector_io \<Rightarrow> u32 \<Rightarrow> cstr \<Rightarrow> found \<Rightarrow> u16 \<Rightarrow> int \<Rightarrow> 'd fat_state \<Rightarrow> (bool \<times> 'd fat_state) option" where
  "enter_file io dir_cluster filename existing new_first file_len s = do {
     (ok, s1) \<leftarrow> (case existing of
         Some (e, _, _) \<Rightarrow> fat16_update_entry io dir_cluster filename filename new_first (of_int file_len)
           ((de_attributes e AND FAT16_ATTR_READ_ONLY) OR FAT16_ATTR_ARCHIVE) s
       | None \<Rightarrow> fat16_create_entry io dir_cluster filename new_first (of_int file_len) FAT16_ATTR_ARCHIVE s);
     if \<not> ok then do { s2 \<leftarrow> free_if_any io new_first s1; Some (False, s2) }
     else
      (let old_first = (case existing of Some (e, _, _) \<Rightarrow> de_cluster_low e | None \<Rightarrow> 0) in
       if old_first \<ge> 2 \<and> old_first \<noteq> new_first then fat16_free_cluster_chain_internal io old_first s1
       else Some (True, s1))
   }"

definition fat16_write_file_from_dir ::
    "'d sector_io \<Rightarrow> u32 \<Rightarrow> cstr \<Rightarrow> u8 list \<Rightarrow> int \<Rightarrow> 'd fat_state \<Rightarrow> (bool \<times> 'd fat_state) option" where
  "fat16_write_file_from_dir io dir_cluster filename buffer file_len s =
     (if filename = [] \<or> file_len < 0 then Some (False, s)
      else if sectors_per_cluster (bpb s) = 0 then Some (False, s)
      else do {
        (existing, s1) \<leftarrow> fat16_find_entry_internal io dir_cluster filename s;
        if (case existing of Some (e, _, _) \<Rightarrow> de_attributes e AND FAT16_ATTR_DIRECTORY \<noteq> 0 | None \<Rightarrow> False)
        then Some (False, s1)
        else do {
          total_clusters \<leftarrow> get_total_clusters (bpb s1);
          (r, s2) \<leftarrow> write_clusters io buffer (unat (total_clusters + 2)) 0 0 (nat file_len) 0 s1;
          case r of
            None \<Rightarrow> Some (False, s2)
          | Some (new_first, remaining) \<Rightarrow>
             (if remaining \<noteq> 0 then do { s3 \<leftarrow> free_if_any io new_first s2; Some (False, s3) }
              else enter_file io dir_cluster filename existing new_first file_len s2)
        }
      })"

definition fat16_write_file :: "'d sector_io \<Rightarrow> cstr \<Rightarrow> u8 list \<Rightarrow> int \<Rightarrow> 'd fat_state \<Rightarrow> (bool \<times> 'd fat_state) option" where
  "fat16_write_file io filename buffer file_len s = fat16_write_file_from_dir io 0 filename buffer file_len s"

section \<open>Reading\<close>

text \<open>The result of \<^verbatim>\<open>disk_read_sector\<close> is not looked at: after an error the buffer still holds what it held.\<close>

fun read_sectors ::
    "'d sector_io \<Rightarrow> nat \<Rightarrow> u32 \<Rightarrow> nat \<Rightarrow> nat list \<Rightarrow> nat \<Rightarrow> u8 list \<Rightarrow> 'd fat_state \<Rightarrow> nat \<times> u8 list \<times> 'd fat_state" where
  "read_sectors io data_start cluster max_size [] file_size out s = (file_size, out, s)"
| "read_sectors io data_start cluster max_size (k # ks) file_size out s =
     (if file_size = 0 then (file_size, out, s)
      else
       (let bytes_to_read = (if file_size > 512 then 512 else file_size);
            s1 = snd (read_buf io (dir_sector (bpb s) data_start cluster k) s);
            n = min bytes_to_read (max_size - length out)
        in read_sectors io data_start cluster max_size ks (file_size - bytes_to_read)
             (out @ take n (sector_buffer s1)) s1))"

partial_function (option) read_clusters ::
    "'d sector_io \<Rightarrow> nat \<Rightarrow> nat \<Rightarrow> u32 \<Rightarrow> nat \<Rightarrow> u8 list \<Rightarrow> 'd fat_state \<Rightarrow> (u8 list \<times> 'd fat_state) option" where
  "read_clusters io data_start max_size cluster file_size out s =
     Option.bind (fat_is_data_cluster (bpb s) cluster) (\<lambda>ok.
       if ok \<and> length out < max_size \<and> file_size > 0 then
         (case read_sectors io data_start cluster max_size [0..<unat (sectors_per_cluster (bpb s))] file_size out s of
            (file_size', out', s1) \<Rightarrow>
              (case fat16_get_next_cluster io (ucast cluster) s1 of (nxt, s2) \<Rightarrow>
                 read_clusters io data_start max_size (ucast nxt) file_size' out' s2))
       else Some (out, s))"

text \<open>The entry to read: directories and long names are passed over. \<open>Return None\<close> is the end of the directory.\<close>

fun read_slot :: "cstr \<Rightarrow> u8 list \<Rightarrow> nat list \<Rightarrow> (unit, FAT16_DirectoryEntry option) step" where
  "read_slot filename b [] = Continue ()"
| "read_slot filename b (i # is) =
     (let e = entry_at b i in
      if de_name e ! 0 = 0 then Return None
      else if de_name e ! 0 = 0xE5 then read_slot filename b is
      else if de_attributes e AND FAT16_ATTR_DIRECTORY \<noteq> 0 then read_slot filename b is
      else if de_attributes e AND 0x0F = 0x0F then read_slot filename b is
      else if \<not> fat16_match_name filename e then read_slot filename b is
      else Return (Some e))"

definition read_body ::
    "'d sector_io \<Rightarrow> cstr \<Rightarrow> nat \<Rightarrow> u32 \<Rightarrow> unit \<Rightarrow> 'd fat_state \<Rightarrow> ((unit, u8 list) step \<times> 'd fat_state) option" where
  "read_body io filename max_size sector _ s =
     (let s1 = snd (read_buf io sector s) in
      case read_slot filename (sector_buffer s1) SLOTS of
        Continue _ \<Rightarrow> Some (Continue (), s1)
      | Return None \<Rightarrow> Some (Return [], s1)
      | Return (Some e) \<Rightarrow> do {
          data_start \<leftarrow> get_data_start (bpb s1);
          (out, s2) \<leftarrow> read_clusters io data_start max_size (ucast (de_cluster_low e)) (unat (de_file_size e)) [] s1;
          Some (Return out, s2)
        })"

definition fat16_read_file_from_dir ::
    "'d sector_io \<Rightarrow> u32 \<Rightarrow> cstr \<Rightarrow> int \<Rightarrow> 'd fat_state \<Rightarrow> (u8 list \<times> 'd fat_state) option" where
  "fat16_read_file_from_dir io dir_cluster filename max_size s = do {
     (r, s1) \<leftarrow> over_dir io (read_body io filename (unat (of_int max_size :: u32))) dir_cluster () s;
     Some (case r of Continue _ \<Rightarrow> [] | Return out \<Rightarrow> out, s1)
   }"

definition fat16_read_file :: "'d sector_io \<Rightarrow> cstr \<Rightarrow> int \<Rightarrow> 'd fat_state \<Rightarrow> (u8 list \<times> 'd fat_state) option" where
  "fat16_read_file io filename max_size s = fat16_read_file_from_dir io 0 filename max_size s"

section \<open>Copying\<close>

text \<open>The sectors of one cluster; whole sectors are copied.\<close>

fun copy_sectors ::
    "'d sector_io \<Rightarrow> int \<Rightarrow> int \<Rightarrow> nat list \<Rightarrow> nat \<Rightarrow> 'd fat_state \<Rightarrow> (bool \<times> nat) \<times> 'd fat_state" where
  "copy_sectors io src_base dst_base [] remaining s = ((True, remaining), s)"
| "copy_sectors io src_base dst_base (k # ks) remaining s =
     (if remaining = 0 then ((True, remaining), s)
      else
       (let bytes_this_sector = (if remaining > SECTOR_SIZE then SECTOR_SIZE else remaining) in
        case read_buf io (of_int (src_base + int k)) s of
          (False, s1) \<Rightarrow> ((False, remaining), s1)
        | (True, s1) \<Rightarrow>
           (case write_buf io (of_int (dst_base + int k)) s1 of
              (False, s2) \<Rightarrow> ((False, remaining), s2)
            | (True, s2) \<Rightarrow> copy_sectors io src_base dst_base ks (remaining - bytes_this_sector) s2)))"

text \<open>The next pair of clusters; \<open>None\<close> after an error, when everything copied so far has been freed.\<close>

definition copy_next ::
    "'d sector_io \<Rightarrow> u16 \<Rightarrow> u16 \<Rightarrow> u16 \<Rightarrow> 'd fat_state \<Rightarrow> ((u16 \<times> u16) option \<times> 'd fat_state) option" where
  "copy_next io dst_first src_cluster dst_cluster s =
     (case fat16_get_next_cluster io src_cluster s of (next_src, s1) \<Rightarrow> do {
        ok \<leftarrow> fat_is_data_cluster (bpb s1) (ucast next_src);
        if \<not> ok then do { s2 \<leftarrow> free_if_any io dst_first s1; Some (None, s2) }
        else do {
          (r, s2) \<leftarrow> fat16_alloc_cluster_internal io s1;
          case r of
            None \<Rightarrow> do { s3 \<leftarrow> free_if_any io dst_first s2; Some (None, s3) }
          | Some next_dst \<Rightarrow>
             (case fat16_write_fat_entry io dst_cluster next_dst s2 of
                (False, s3) \<Rightarrow> do {
                  s4 \<leftarrow> free_ignore io next_dst s3; s5 \<leftarrow> free_if_any io dst_first s4; Some (None, s5) }
              | (True, s3) \<Rightarrow>
                 (case fat16_write_fat_entry io next_dst (fat_end_of_chain_value s3) s3 of
                    (False, s4) \<Rightarrow> do {
                      s5 \<leftarrow> free_ignore io next_dst s4; s6 \<leftarrow> free_if_any io dst_first s5; Some (None, s6) }
                  | (True, s4) \<Rightarrow> Some (Some (next_src, next_dst), s4)))
        }
      })"

fun copy_clusters ::
    "'d sector_io \<Rightarrow> nat \<Rightarrow> u16 \<Rightarrow> nat \<Rightarrow> u16 \<Rightarrow> u16 \<Rightarrow> nat \<Rightarrow> 'd fat_state \<Rightarrow> (nat option \<times> 'd fat_state) option" where
  "copy_clusters io data_start dst_first max_steps src_cluster dst_cluster remaining s =
     (if remaining = 0 then Some (Some remaining, s)
      else case max_steps of
        0 \<Rightarrow> Some (Some remaining, s)
      | Suc steps \<Rightarrow>
         (case copy_sectors io (cluster_sector (bpb s) data_start src_cluster) (cluster_sector (bpb s) data_start dst_cluster)
                 [0..<unat (sectors_per_cluster (bpb s))] remaining s of
            ((False, _), s1) \<Rightarrow> do { s2 \<leftarrow> free_if_any io dst_first s1; Some (None, s2) }
          | ((True, remaining'), s1) \<Rightarrow>
             (if remaining' = 0 then Some (Some remaining', s1)
              else do {
                (r, s2) \<leftarrow> copy_next io dst_first src_cluster dst_cluster s1;
                case r of
                  None \<Rightarrow> Some (None, s2)
                | Some (next_src, next_dst) \<Rightarrow> copy_clusters io data_start dst_first steps next_src next_dst remaining' s2
              })))"

declare copy_clusters.simps [simp del]

definition fat16_copy_file_between_dirs ::
    "'d sector_io \<Rightarrow> u32 \<Rightarrow> cstr \<Rightarrow> u32 \<Rightarrow> cstr \<Rightarrow> 'd fat_state \<Rightarrow> (bool \<times> 'd fat_state) option" where
  "fat16_copy_file_between_dirs io src_dir_cluster src_name dst_dir_cluster dst_name s = do {
     data_start \<leftarrow> get_data_start (bpb s);
     if src_name = [] \<or> dst_name = [] then Some (False, s)
     else case (fat16_format_name src_name, fat16_format_name dst_name) of
       (Some src_83, Some dst_83) \<Rightarrow>
         (if src_83 = dst_83 \<and> src_dir_cluster = dst_dir_cluster then Some (False, s)
          else do {
            (src, s1) \<leftarrow> fat16_find_entry_internal io src_dir_cluster src_name s;
            case src of
              None \<Rightarrow> Some (False, s1)
            | Some (src_entry, _, _) \<Rightarrow>
               (if de_attributes src_entry AND FAT16_ATTR_DIRECTORY \<noteq> 0 then Some (False, s1)
                else do {
                  (dst, s2) \<leftarrow> fat16_find_entry_internal io dst_dir_cluster dst_name s1;
                  if dst \<noteq> None then Some (False, s2)
                  else do {
                    total_clusters \<leftarrow> get_total_clusters (bpb s2);
                    let remaining = unat (de_file_size src_entry);
                    let src_cluster = de_cluster_low src_entry;
                    (r, s3) \<leftarrow>
                      (if remaining > 0 then
                         (if src_cluster < 2 then Some (None, s2) else fat16_alloc_cluster_internal io s2)
                       else Some (Some 0, s2));
                    case r of
                      None \<Rightarrow> Some (False, s3)
                    | Some dst_first \<Rightarrow> do {
                        (r2, s4) \<leftarrow> copy_clusters io data_start dst_first (unat (total_clusters + 2))
                          src_cluster dst_first remaining s3;
                        case r2 of
                          None \<Rightarrow> Some (False, s4)
                        | Some rest \<Rightarrow>
                           (if rest \<noteq> 0 then do { s5 \<leftarrow> free_if_any io dst_first s4; Some (False, s5) }
                            else do {
                              (ok, s5) \<leftarrow> fat16_create_entry io dst_dir_cluster dst_name dst_first
                                (de_file_size src_entry) (de_attributes src_entry) s4;
                              if \<not> ok then do { s6 \<leftarrow> free_if_any io dst_first s5; Some (False, s6) }
                              else Some (True, s5)
                            })
                      }
                  }
                })
          })
     | _ \<Rightarrow> Some (False, s)
   }"

definition fat16_copy_file :: "'d sector_io \<Rightarrow> u32 \<Rightarrow> cstr \<Rightarrow> cstr \<Rightarrow> 'd fat_state \<Rightarrow> (bool \<times> 'd fat_state) option" where
  "fat16_copy_file io dir_cluster src_name dst_name s =
     fat16_copy_file_between_dirs io dir_cluster src_name dir_cluster dst_name s"

end
