(* ===== verification/Fat_Table.thy ===== *)
theory Fat_Table
  imports Fat
begin

text \<open>
  The file allocation table as an abstract map from clusters to values, and the proof that the
  driver of theory \<open>Fat\<close> implements it on any drive that keeps the \<open>sector_device\<close> contract:
  entries are read and written exactly (the nibble a FAT12 entry shares with its neighbour and
  entries that straddle two sectors included), all copies of the table are kept equal, bytes
  outside the tables are never touched, allocation is first fit, and freeing a chain clears
  exactly the chain.
\<close>

section \<open>The table as a map from clusters to values\<close>

definition fat_addr :: "nat \<Rightarrow> FAT16_BPB \<Rightarrow> nat \<Rightarrow> u16 \<Rightarrow> nat" where
  "fat_addr ty p k c =
     512 * (unat (reserved_sectors p) + k * unat (sectors_per_fat p)) +
     (if ty = FAT_TYPE_12 then unat c + unat c div 2 else 2 * unat c)"

definition pair_at :: "image \<Rightarrow> nat \<Rightarrow> u16" where
  "pair_at m a = le16 (m a) (m (a + 1))"

definition put_pair :: "image \<Rightarrow> nat \<Rightarrow> u16 \<Rightarrow> image" where
  "put_pair m a w = m(a := lo8 w, a + 1 := hi8 w)"

definition fat_get :: "nat \<Rightarrow> FAT16_BPB \<Rightarrow> image \<Rightarrow> nat \<Rightarrow> u16 \<Rightarrow> u16" where
  "fat_get ty p m k c =
     (if ty = FAT_TYPE_12 then fat12_unpack c (pair_at m (fat_addr ty p k c))
      else pair_at m (fat_addr ty p k c))"

definition fat_put :: "nat \<Rightarrow> FAT16_BPB \<Rightarrow> u16 \<Rightarrow> u16 \<Rightarrow> nat \<Rightarrow> image \<Rightarrow> image" where
  "fat_put ty p c v k m =
     put_pair m (fat_addr ty p k c)
       (if ty = FAT_TYPE_12 then fat12_pack c (pair_at m (fat_addr ty p k c)) (v AND 0x0FFF) else v)"

definition fat_mask :: "nat \<Rightarrow> u16 \<Rightarrow> u16" where
  "fat_mask ty v = (if ty = FAT_TYPE_12 then v AND 0x0FFF else v)"

text \<open>The entry of cluster \<open>c\<close> lies inside one copy of the table.\<close>

definition fat_covers :: "nat \<Rightarrow> FAT16_BPB \<Rightarrow> u16 \<Rightarrow> bool" where
  "fat_covers ty p c \<longleftrightarrow>
     (if ty = FAT_TYPE_12 then unat c + unat c div 2 else 2 * unat c) + 1
       < 512 * unat (sectors_per_fat p)"

lemma masks12: "(0x0FFF :: u16) = mask 12" "(0xF000 :: u16) = push_bit 12 (mask 4)" "(0x000F :: u16) = mask 4"
  by (simp_all add: mask_eq_exp_minus_1)

lemma unpack_pack_same: "fat12_unpack c (fat12_pack c pair (v AND 0x0FFF)) = v AND 0x0FFF"
  unfolding fat12_unpack_def fat12_pack_def masks12
  by (rule bit_word_eqI) (auto simp: bit_simps)

lemma and_1_odd: "(c AND 1 = (0::u16)) = even (unat c)"
proof -
  have "odd (unat c) = odd c"
    by transfer (simp add: even_nat_iff even_take_bit_eq)
  then show ?thesis by (simp add: and_one_eq mod_2_eq_odd)
qed

lemma le16_pack_even:
  "\<lbrakk> c AND 1 = 0; d AND 1 \<noteq> 0 \<rbrakk> \<Longrightarrow>
   fat12_unpack d (le16 (hi8 (fat12_pack c (le16 x y) (v AND 0x0FFF))) z) = fat12_unpack d (le16 y z)"
  unfolding fat12_unpack_def fat12_pack_def masks12 le16_def hi8_def mask_0xFF
  by (rule bit_word_eqI) (auto simp: bit_simps dest: bit_imp_le_length)

lemma le16_pack_odd:
  "\<lbrakk> c AND 1 \<noteq> 0; d AND 1 = 0 \<rbrakk> \<Longrightarrow>
   fat12_unpack d (le16 x (lo8 (fat12_pack c (le16 y z) (v AND 0x0FFF)))) = fat12_unpack d (le16 x y)"
  unfolding fat12_unpack_def fat12_pack_def masks12 le16_def lo8_def mask_0xFF
  by (rule bit_word_eqI) (auto simp: bit_simps dest: bit_imp_le_length)

lemma pair_put_same [simp]: "pair_at (put_pair m a w) a = w"
  by (simp add: pair_at_def put_pair_def bytes_simps)

lemma pair_put_disjoint: "a + 1 < b \<or> b + 1 < a \<Longrightarrow> pair_at (put_pair m b w) a = pair_at m a"
  by (auto simp: pair_at_def put_pair_def)

lemma put_pair_below: "x < a \<Longrightarrow> put_pair m a w x = m x"
  and put_pair_above: "a + 1 < x \<Longrightarrow> put_pair m a w x = m x"
  by (simp_all add: put_pair_def)

lemma fat_get_put_same: "fat_get ty p (fat_put ty p c v k m) k c = fat_mask ty v"
  by (simp add: fat_get_def fat_put_def fat_mask_def unpack_pack_same)

lemma fat12_neighbours:
  fixes c d A B :: nat
  assumes "c \<noteq> d" and "A + (d + d div 2) = B + (c + c div 2)"
  shows "(even c \<and> d = c + 1) \<or> (odd c \<and> c = d + 1) \<or> B + 1 < A \<or> A + 1 < B"
proof (cases "even c"; cases "even d")
  assume "even c" "even d"
  then obtain a b where "c = 2 * a" "d = 2 * b" by (auto elim!: evenE)
  with assms show ?thesis by (cases a b rule: linorder_cases) simp_all
next
  assume "even c" "odd d"
  then obtain a b where "c = 2 * a" "d = 2 * b + 1" by (auto elim!: evenE oddE)
  with assms show ?thesis by (cases a b rule: linorder_cases) simp_all
next
  assume "odd c" "even d"
  then obtain a b where "c = 2 * a + 1" "d = 2 * b" by (auto elim!: evenE oddE)
  with assms show ?thesis by (cases a b rule: linorder_cases) simp_all
next
  assume "odd c" "odd d"
  then obtain a b where "c = 2 * a + 1" "d = 2 * b + 1" by (auto elim!: oddE)
  with assms show ?thesis by (cases a b rule: linorder_cases) simp_all
qed

lemma fat_get_put_other_cluster:
  assumes "c \<noteq> d"
  shows "fat_get ty p (fat_put ty p c v k m) k d = fat_get ty p m k d"
proof (cases "ty = FAT_TYPE_12")
  case False
  from assms have "unat c \<noteq> unat d" by (simp add: word_unat_eq_iff)
  then have "2 * unat d + 1 < 2 * unat c \<or> 2 * unat c + 1 < 2 * unat d" by linarith
  with False show ?thesis
    by (auto simp: fat_get_def fat_put_def fat_addr_def intro!: pair_put_disjoint)
next
  case True
  let ?a = "fat_addr ty p k c" and ?b = "fat_addr ty p k d"
  from assms have ne: "unat c \<noteq> unat d" by (simp add: word_unat_eq_iff)
  have ab: "?a + (unat d + unat d div 2) = ?b + (unat c + unat c div 2)"
    using True by (simp add: fat_addr_def)
  consider (succ) "even (unat c)" "unat d = unat c + 1"
    | (pred) "odd (unat c)" "unat c = unat d + 1"
    | (far) "?b + 1 < ?a \<or> ?a + 1 < ?b"
    using fat12_neighbours [OF ne ab] by blast
  then show ?thesis
  proof cases
    case succ
    then have "odd (unat d)" "?b = ?a + 1" using ab by (auto elim!: evenE)
    then show ?thesis using True succ(1)
      by (simp add: fat_get_def fat_put_def pair_at_def put_pair_def le16_pack_even and_1_odd [symmetric])
  next
    case pred
    then have "even (unat d)" "?a = ?b + 1" using ab by (auto elim!: evenE)
    then show ?thesis using True pred(1)
      by (simp add: fat_get_def fat_put_def pair_at_def put_pair_def le16_pack_odd and_1_odd [symmetric])
  next
    case far
    then show ?thesis using True
      by (simp add: fat_get_def fat_put_def pair_put_disjoint)
  qed
qed

text \<open>Entries inside one copy of the table do not touch another copy.\<close>

lemma fat_addr_copy_bounds:
  assumes "fat_covers ty p c"
  shows "512 * unat (reserved_sectors p) + 512 * (k * unat (sectors_per_fat p)) \<le> fat_addr ty p k c"
    and "fat_addr ty p k c + 1 <
         512 * unat (reserved_sectors p) + 512 * (k * unat (sectors_per_fat p) + unat (sectors_per_fat p))"
  using assms by (auto simp: fat_addr_def fat_covers_def algebra_simps split: if_splits)

lemma copy_step: "(j::nat) < k \<Longrightarrow> j * n + n \<le> k * n"
  using mult_le_mono1 [of "Suc j" k n] by simp

lemma copy_gap:
  "\<lbrakk> x + 1 < 512 * r + 512 * (a + s); a + s \<le> b; 512 * r + 512 * b \<le> (y::nat) \<rbrakk> \<Longrightarrow> x + 1 < y"
  by simp

lemma fat_addr_other_copy:
  assumes "fat_covers ty p c" "fat_covers ty p d" "j \<noteq> k"
  shows "fat_addr ty p j c + 1 < fat_addr ty p k d \<or> fat_addr ty p k d + 1 < fat_addr ty p j c"
proof (cases "j < k")
  case True
  then have "j * unat (sectors_per_fat p) + unat (sectors_per_fat p) \<le> k * unat (sectors_per_fat p)"
    by (rule copy_step)
  from copy_gap [OF fat_addr_copy_bounds(2) [OF assms(1), of j] this
      fat_addr_copy_bounds(1) [OF assms(2), of k]]
  show ?thesis by blast
next
  case False
  then have "k * unat (sectors_per_fat p) + unat (sectors_per_fat p) \<le> j * unat (sectors_per_fat p)"
    using assms(3) by (intro copy_step) simp
  from copy_gap [OF fat_addr_copy_bounds(2) [OF assms(2), of k] this
      fat_addr_copy_bounds(1) [OF assms(1), of j]]
  show ?thesis by blast
qed

lemma fat_get_put_other_copy:
  assumes "fat_covers ty p c" "fat_covers ty p d" "j \<noteq> k"
  shows "fat_get ty p (fat_put ty p c v j m) k d = fat_get ty p m k d"
  using fat_addr_other_copy [OF assms]
  by (auto simp: fat_get_def fat_put_def pair_put_disjoint)

lemma fat_get_put:
  assumes "fat_covers ty p c" "fat_covers ty p d"
  shows "fat_get ty p (fat_put ty p c v j m) k d =
           (if j = k \<and> c = d then fat_mask ty v else fat_get ty p m k d)"
  using fat_get_put_other_copy [OF assms, of j k] fat_get_put_other_cluster [of c d] fat_get_put_same
  by (cases "j = k"; cases "c = d") simp_all

text \<open>Writing every copy of the table, as the loop of \<open>fat16_write_fat_entry\<close> does.\<close>

definition fat_put_all :: "nat \<Rightarrow> FAT16_BPB \<Rightarrow> u16 \<Rightarrow> u16 \<Rightarrow> image \<Rightarrow> image" where
  "fat_put_all ty p c v m = fold (fat_put ty p c v) [0..<unat (fat_count p)] m"

lemma fat_get_fold_put:
  assumes "fat_covers ty p c" "fat_covers ty p d"
  shows "fat_get ty p (fold (fat_put ty p c v) ks m) k d =
           (if k \<in> set ks \<and> c = d then fat_mask ty v else fat_get ty p m k d)"
proof (induction ks arbitrary: m)
  case (Cons j ks)
  then show ?case by (cases "j = k \<and> c = d") (auto simp: fat_get_put [OF assms] fat_get_put_same)
qed simp

lemma fat_get_put_all:
  assumes "fat_covers ty p c" "fat_covers ty p d" "k < unat (fat_count p)"
  shows "fat_get ty p (fat_put_all ty p c v m) k d = (if c = d then fat_mask ty v else fat_get ty p m k d)"
  using assms(3) by (simp add: fat_put_all_def fat_get_fold_put [OF assms(1,2)])

text \<open>Bytes outside the area of the tables are not touched.\<close>

lemma fat_put_frame:
  assumes "fat_covers ty p c" "k < n"
    and "a < 512 * unat (reserved_sectors p) \<or>
         512 * (unat (reserved_sectors p) + n * unat (sectors_per_fat p)) \<le> a"
  shows "fat_put ty p c v k m a = m a"
proof -
  have "k * unat (sectors_per_fat p) + unat (sectors_per_fat p) \<le> n * unat (sectors_per_fat p)"
    using assms(2) by (rule copy_step)
  note gap = copy_gap [OF fat_addr_copy_bounds(2) [OF assms(1), of k] this, of a]
  from fat_addr_copy_bounds(1) [OF assms(1), of k]
  have "512 * unat (reserved_sectors p) \<le> fat_addr ty p k c" by (rule add_leD1)
  with assms(3) gap have "\<not> (fat_addr ty p k c \<le> a \<and> a \<le> fat_addr ty p k c + 1)"
    by (auto simp: distrib_left)
  then show ?thesis by (auto simp: fat_put_def put_pair_def)
qed

lemma fat_put_all_frame:
  assumes "fat_covers ty p c"
    and "a < 512 * unat (reserved_sectors p) \<or> 512 * get_root_dir_start p \<le> a"
  shows "fat_put_all ty p c v m a = m a"
proof -
  have "fold (fat_put ty p c v) ks m a = m a" if "set ks \<subseteq> {0..<unat (fat_count p)}" for ks
    using that assms by (induction ks arbitrary: m) (auto simp: fat_put_frame get_root_dir_start_def)
  then show ?thesis by (simp add: fat_put_all_def)
qed


section \<open>The driver's entry operations implement the table\<close>

definition fat_ready :: "('d \<Rightarrow> bool) \<Rightarrow> int \<Rightarrow> 'd fat_state \<Rightarrow> bool" where
  "fat_ready ok letter s \<longleftrightarrow> ok (f_dev s) \<and> current_drive_letter s = letter"

text \<open>What no table operation changes.\<close>

definition fat_frame :: "'d fat_state \<Rightarrow> 'd fat_state \<Rightarrow> bool" where
  "fat_frame s s' \<longleftrightarrow> bpb s' = bpb s \<and> current_fat_type s' = current_fat_type s
     \<and> current_drive_letter s' = current_drive_letter s \<and> f_screen s' = f_screen s \<and> f_serial s' = f_serial s"

lemma fat_frame_refl [simp]: "fat_frame s s"
  by (simp add: fat_frame_def)

lemma fat_frame_trans [trans]: "fat_frame s t \<Longrightarrow> fat_frame t u \<Longrightarrow> fat_frame s u"
  by (simp add: fat_frame_def)

lemmas fat_frameD = fat_frame_def [THEN iffD1]

lemma fat_frame_eoc: "fat_frame s t \<Longrightarrow> fat_end_of_chain_value t = fat_end_of_chain_value s"
  by (simp add: fat_frame_def fat_end_of_chain_value_def)

text \<open>The tables of the volume lie inside the device.\<close>

definition fat_fits :: "FAT16_BPB \<Rightarrow> nat \<Rightarrow> bool" where
  "fat_fits p cap \<longleftrightarrow> get_root_dir_start p \<le> cap \<and> 0 < unat (fat_count p)"

lemma fat_fits_sector:
  assumes "fat_fits p cap" "k < unat (fat_count p)" "i < unat (sectors_per_fat p)"
  shows "unat (reserved_sectors p) + k * unat (sectors_per_fat p) + i < cap"
  using copy_step [OF assms(2), of "unat (sectors_per_fat p)"] assms(1,3)
  by (auto simp: fat_fits_def get_root_dir_start_def)

lemma div_512_less: "(n::nat) + 1 < 512 * k \<Longrightarrow> n div 512 < k"
  by (simp add: div_less_iff_less_mult mult.commute)

lemma div_512_last: "(n::nat) + 1 < 512 * k \<Longrightarrow> n mod 512 = 511 \<Longrightarrow> n div 512 + 1 < k"
  using div_mult_mod_eq [of n 512] by linarith

lemma even_512: "even (n::nat) \<Longrightarrow> n < 512 \<Longrightarrow> n + 1 < 512"
  by (cases "n = 511") auto

lemma covers_sector12:
  assumes "fat_covers ty p c" "ty = FAT_TYPE_12"
  shows "(unat c + unat c div 2) div 512 < unat (sectors_per_fat p)"
    and "(unat c + unat c div 2) mod 512 = 511 \<Longrightarrow> (unat c + unat c div 2) div 512 + 1 < unat (sectors_per_fat p)"
  using div_512_less div_512_last assms by (simp_all add: fat_covers_def)

lemma covers_sector16:
  assumes "fat_covers ty p c" "ty \<noteq> FAT_TYPE_12"
  shows "(unat c * 2) div 512 < unat (sectors_per_fat p)"
  using assms unfolding fat_covers_def by (auto intro!: div_512_less simp: mult.commute)

lemma fat_addr_div_mod:
  "fat_addr ty p k c =
     512 * (unat (reserved_sectors p) + k * unat (sectors_per_fat p) +
       (if ty = FAT_TYPE_12 then unat c + unat c div 2 else unat c * 2) div 512) +
     (if ty = FAT_TYPE_12 then unat c + unat c div 2 else unat c * 2) mod 512"
  by (simp add: fat_addr_def distrib_left mult.commute)

text \<open>Two bytes changed inside a sector, or across two sectors, are one \<open>put_pair\<close>.\<close>

lemma put_pair_inside:
  "i + 1 < 512 \<Longrightarrow> put_sector m n ((sector_at m n)[i := lo8 w, i + 1 := hi8 w]) = put_pair m (512 * n + i) w"
  by (simp add: put_sector_update put_pair_def)

lemma put_pair_across:
  "put_sector (put_sector m n ((sector_at m n)[511 := lo8 w])) (n + 1) ((sector_at m (n + 1))[0 := hi8 w])
     = put_pair m (512 * n + 511) w"
proof -
  have "sector_at (m(512 * n + 511 := x)) (n + 1) = sector_at m (n + 1)" for x
    by (rule sector_at_eqI) auto
  then have "put_sector (m(512 * n + 511 := x)) (n + 1) (sector_at m (n + 1)) = m(512 * n + 511 := x)" for x
    by (metis put_sector_id)
  then show ?thesis by (simp add: put_sector_update put_pair_def)
qed

context sector_device
begin

lemma unat_lba: "n < cap \<Longrightarrow> unat (lba_of n) = n"
  using cap_le by (simp add: lba_of_def unat_of_nat take_bit_nat_eq_self_iff)

lemma read_bufE:
  assumes "fat_ready dev_ok letter s" "n < cap"
  obtains d where "read_buf io (lba_of n) s =
      (True, s\<lparr>f_dev := d, sector_buffer := sector_at (img (f_dev s)) n\<rparr>)"
    and "dev_ok d" and "img d = img (f_dev s)"
proof -
  from assms have ok: "dev_ok (f_dev s)" and letter: "current_drive_letter s = letter"
    by (auto simp: fat_ready_def)
  from read_devE [OF ok, of "lba_of n"] assms(2) obtain d where
    "io_read io letter (lba_of n) (f_dev s) = (Some (sector_at (img (f_dev s)) n), d)"
    "dev_ok d" "img d = img (f_dev s)"
    by (auto simp: unat_lba)
  with letter that show thesis
    by (simp add: read_buf_def disk_read_sector_def)
qed

lemma read_auxE:
  assumes "fat_ready dev_ok letter s" "n < cap"
  obtains d where "read_aux io (lba_of n) s =
      (True, s\<lparr>f_dev := d, fat_sector_buffer_aux := sector_at (img (f_dev s)) n\<rparr>)"
    and "dev_ok d" and "img d = img (f_dev s)"
proof -
  from assms have ok: "dev_ok (f_dev s)" and letter: "current_drive_letter s = letter"
    by (auto simp: fat_ready_def)
  from read_devE [OF ok, of "lba_of n"] assms(2) obtain d where
    "io_read io letter (lba_of n) (f_dev s) = (Some (sector_at (img (f_dev s)) n), d)"
    "dev_ok d" "img d = img (f_dev s)"
    by (auto simp: unat_lba)
  with letter that show thesis
    by (simp add: read_aux_def disk_read_sector_def)
qed

lemma disk_write_sectorE:
  assumes "fat_ready dev_ok letter s" "n < cap" "length b = 512"
  obtains d where "disk_write_sector io (lba_of n) b s = (True, s\<lparr>f_dev := d\<rparr>)"
    and "dev_ok d" and "img d = put_sector (img (f_dev s)) n b"
proof -
  from assms have ok: "dev_ok (f_dev s)" and letter: "current_drive_letter s = letter"
    by (auto simp: fat_ready_def)
  from write_devE [OF ok, of "lba_of n" b] assms(2,3) obtain d where
    "io_write io letter (lba_of n) b (f_dev s) = (True, d)"
    "dev_ok d" "img d = put_sector (img (f_dev s)) n b"
    by (auto simp: unat_lba)
  with letter that show thesis
    by (simp add: disk_write_sector_def)
qed

lemmas sector_steps = read_buf_def read_aux_def write_buf_def write_aux_def

text \<open>Reading an entry returns the value in the first copy of the table.\<close>

lemma read_fat_entry_ok:
  assumes ready: "fat_ready dev_ok letter s" and fits: "fat_fits (bpb s) cap"
    and cov: "fat_covers (current_fat_type s) (bpb s) c"
  shows "\<exists>s'. fat16_read_fat_entry io c s =
      (fat_get (current_fat_type s) (bpb s) (img (f_dev s)) 0 c, s')
    \<and> fat_ready dev_ok letter s' \<and> fat_frame s s' \<and> img (f_dev s') = img (f_dev s)"
proof (cases "current_fat_type s = FAT_TYPE_12")
  case False
  define e where "e = unat c * 2"
  define n where "n = unat (reserved_sectors (bpb s)) + e div 512"
  have n: "n < cap"
    using fat_fits_sector [OF fits, of 0] covers_sector16 [OF cov False] fits
    by (simp add: fat_fits_def n_def e_def)
  have "even (e mod 512)" by (simp add: e_def dvd_mod)
  then have e: "e mod 512 + 1 < 512" by (rule even_512) simp
  have addr: "fat_addr (current_fat_type s) (bpb s) 0 c = 512 * n + e mod 512"
    using False by (simp add: fat_addr_div_mod n_def e_def)
  from read_bufE [OF ready n] obtain d where
    d: "read_buf io (lba_of n) s = (True, s\<lparr>f_dev := d, sector_buffer := sector_at (img (f_dev s)) n\<rparr>)"
    "dev_ok d" "img d = img (f_dev s)" .
  have "fat16_read_fat_entry io c s =
      (le16 (sector_at (img (f_dev s)) n ! (e mod 512)) (sector_at (img (f_dev s)) n ! (e mod 512 + 1)),
       s\<lparr>f_dev := d, sector_buffer := sector_at (img (f_dev s)) n\<rparr>)"
    using False by (simp add: fat16_read_fat_entry_def Let_def SECTOR_SIZE_def load16_def d(1)
        flip: e_def n_def)
  then show ?thesis using d e False ready
    by (simp add: fat_get_def pair_at_def addr fat_ready_def fat_frame_def)
next
  case True
  define e where "e = unat c + unat c div 2"
  define n where "n = unat (reserved_sectors (bpb s)) + e div 512"
  have n: "n < cap"
    using fat_fits_sector [OF fits, of 0] covers_sector12(1) [OF cov True] fits
    by (simp add: fat_fits_def n_def e_def)
  have addr: "fat_addr (current_fat_type s) (bpb s) 0 c = 512 * n + e mod 512"
    using True by (simp add: fat_addr_div_mod n_def e_def)
  from read_bufE [OF ready n] obtain d where
    d: "read_buf io (lba_of n) s = (True, s\<lparr>f_dev := d, sector_buffer := sector_at (img (f_dev s)) n\<rparr>)"
    "dev_ok d" "img d = img (f_dev s)" .
  let ?s1 = "s\<lparr>f_dev := d, sector_buffer := sector_at (img (f_dev s)) n\<rparr>"
  show ?thesis
  proof (cases "e mod 512 = 511")
    case False
    then have e: "e mod 512 + 1 < 512" using mod_less_divisor [of 512 e] by linarith
    have "fat16_read_fat_entry io c s =
      (fat12_unpack c (le16 (sector_at (img (f_dev s)) n ! (e mod 512))
         (sector_at (img (f_dev s)) n ! (e mod 512 + 1))), ?s1)"
      using True False by (simp add: fat16_read_fat_entry_def Let_def SECTOR_SIZE_def d(1)
          flip: e_def n_def)
    then show ?thesis using d e True ready addr
      by (simp add: fat_get_def pair_at_def fat_ready_def fat_frame_def)
  next
    case e: True
    have n1: "n + 1 < cap"
      using fat_fits_sector [OF fits, of 0 "e div 512 + 1"] covers_sector12(2) [OF cov True] e fits
      by (simp add: fat_fits_def n_def e_def)
    have r1: "fat_ready dev_ok letter ?s1" using ready d by (simp add: fat_ready_def)
    from read_auxE [OF r1 n1] obtain d' where
      d': "read_aux io (lba_of (n + 1)) ?s1 =
         (True, ?s1\<lparr>f_dev := d', fat_sector_buffer_aux := sector_at (img (f_dev ?s1)) (n + 1)\<rparr>)"
      "dev_ok d'" "img d' = img (f_dev ?s1)" .
    have "fat16_read_fat_entry io c s =
      (fat12_unpack c (le16 (sector_at (img (f_dev s)) n ! 511) (sector_at (img d) (n + 1) ! 0)),
       ?s1\<lparr>f_dev := d', fat_sector_buffer_aux := sector_at (img d) (n + 1)\<rparr>)"
      using True d'(1) by (simp add: fat16_read_fat_entry_def Let_def SECTOR_SIZE_def d(1) e
          flip: e_def n_def)
    then show ?thesis using d d' True ready addr
      by (simp add: fat_get_def pair_at_def fat_ready_def fat_frame_def e)
  qed
qed

text \<open>Writing an entry in copy \<open>k\<close> of the table.\<close>

lemma write_fat16_copy_ok:
  assumes ready: "fat_ready dev_ok letter s" and fits: "fat_fits (bpb s) cap"
    and cov: "fat_covers (current_fat_type s) (bpb s) c" and ty: "current_fat_type s \<noteq> FAT_TYPE_12"
    and k: "k < unat (fat_count (bpb s))"
  shows "\<exists>s'. write_fat16_copy io c v k s = (True, s')
    \<and> fat_ready dev_ok letter s' \<and> fat_frame s s'
    \<and> img (f_dev s') = fat_put (current_fat_type s) (bpb s) c v k (img (f_dev s))"
proof -
  define e where "e = unat c * 2"
  define n where "n = unat (reserved_sectors (bpb s)) + k * unat (sectors_per_fat (bpb s)) + e div 512"
  define m where "m = img (f_dev s)"
  have n: "n < cap"
    using fat_fits_sector [OF fits k] covers_sector16 [OF cov ty] by (simp add: n_def e_def)
  have "even (e mod 512)" by (simp add: e_def dvd_mod)
  then have e: "e mod 512 + 1 < 512" by (rule even_512) simp
  have addr: "fat_addr (current_fat_type s) (bpb s) k c = 512 * n + e mod 512"
    using ty by (simp add: fat_addr_div_mod n_def e_def)
  from read_bufE [OF ready n] obtain d where
    d: "read_buf io (lba_of n) s = (True, s\<lparr>f_dev := d, sector_buffer := sector_at m n\<rparr>)"
    "dev_ok d" "img d = m" unfolding m_def .
  let ?b = "store16 (sector_at m n) (e mod 512) v"
  let ?s1 = "s\<lparr>f_dev := d, sector_buffer := ?b\<rparr>"
  have r1: "fat_ready dev_ok letter ?s1" using ready d by (simp add: fat_ready_def)
  have "length ?b = 512" by (simp add: store16_def)
  from disk_write_sectorE [OF r1 n this] obtain d' where
    d': "disk_write_sector io (lba_of n) ?b ?s1 = (True, ?s1\<lparr>f_dev := d'\<rparr>)"
    "dev_ok d'" "img d' = put_sector m n ?b" using d by auto
  have "write_fat16_copy io c v k s = (True, ?s1\<lparr>f_dev := d'\<rparr>)"
    using d(1) d'(1) by (simp add: write_fat16_copy_def Let_def SECTOR_SIZE_def write_buf_def flip: e_def n_def)
  moreover have "img d' = fat_put (current_fat_type s) (bpb s) c v k m"
    using ty put_pair_inside [OF e, of m n v] by (simp add: d' fat_put_def addr store16_def)
  ultimately show ?thesis using d' ready
    by (simp add: fat_ready_def fat_frame_def flip: m_def)
qed

lemma write_fat12_copy_ok:
  assumes ready: "fat_ready dev_ok letter s" and fits: "fat_fits (bpb s) cap"
    and cov: "fat_covers (current_fat_type s) (bpb s) c" and ty: "current_fat_type s = FAT_TYPE_12"
    and k: "k < unat (fat_count (bpb s))"
  shows "\<exists>s'. write_fat12_copy io c v k s = (True, s')
    \<and> fat_ready dev_ok letter s' \<and> fat_frame s s'
    \<and> img (f_dev s') = fat_put (current_fat_type s) (bpb s) c v k (img (f_dev s))"
proof -
  define e where "e = unat c + unat c div 2"
  define n where "n = unat (reserved_sectors (bpb s)) + k * unat (sectors_per_fat (bpb s)) + e div 512"
  define m where "m = img (f_dev s)"
  define w where "w = fat12_pack c (pair_at m (512 * n + e mod 512)) (v AND 0x0FFF)"
  have n: "n < cap"
    using fat_fits_sector [OF fits k] covers_sector12(1) [OF cov ty] by (simp add: n_def e_def)
  have addr: "fat_addr (current_fat_type s) (bpb s) k c = 512 * n + e mod 512"
    using ty by (simp add: fat_addr_div_mod n_def e_def)
  have put: "fat_put (current_fat_type s) (bpb s) c v k m = put_pair m (512 * n + e mod 512) w"
    using ty addr by (simp add: fat_put_def w_def)
  from read_bufE [OF ready n] obtain d where
    d: "read_buf io (lba_of n) s = (True, s\<lparr>f_dev := d, sector_buffer := sector_at m n\<rparr>)"
    "dev_ok d" "img d = m" unfolding m_def .
  show ?thesis
  proof (cases "e mod 512 = 511")
    case False
    then have e: "e mod 512 + 1 < 512" using mod_less_divisor [of 512 e] by linarith
    let ?b = "(sector_at m n)[e mod 512 := lo8 w, e mod 512 + 1 := hi8 w]"
    let ?s1 = "s\<lparr>f_dev := d, sector_buffer := ?b\<rparr>"
    have r1: "fat_ready dev_ok letter ?s1" using ready d by (simp add: fat_ready_def)
    from disk_write_sectorE [OF r1 n, of ?b] obtain d' where
      d': "disk_write_sector io (lba_of n) ?b ?s1 = (True, ?s1\<lparr>f_dev := d'\<rparr>)"
      "dev_ok d'" "img d' = put_sector m n ?b" using d by auto
    have "write_fat12_copy io c v k s = (True, ?s1\<lparr>f_dev := d'\<rparr>)"
      using d(1) d'(1) e False
      by (simp add: write_fat12_copy_def Let_def SECTOR_SIZE_def write_buf_def w_def pair_at_def
          flip: e_def n_def)
    with d' ready show ?thesis
      using put_pair_inside [OF e, of m n w] put
      by (simp add: fat_ready_def fat_frame_def flip: m_def)
  next
    case e: True
    have n1: "n + 1 < cap"
      using fat_fits_sector [OF fits k, of "e div 512 + 1"] covers_sector12(2) [OF cov ty] e
      by (simp add: n_def e_def)
    let ?s1 = "s\<lparr>f_dev := d, sector_buffer := sector_at m n\<rparr>"
    have r1: "fat_ready dev_ok letter ?s1" using ready d by (simp add: fat_ready_def)
    from read_auxE [OF r1 n1] obtain d1 where
      d1: "read_aux io (lba_of (n + 1)) ?s1 =
         (True, ?s1\<lparr>f_dev := d1, fat_sector_buffer_aux := sector_at m (n + 1)\<rparr>)"
      "dev_ok d1" "img d1 = m" using d by auto
    let ?b = "(sector_at m n)[511 := lo8 w]" and ?x = "(sector_at m (n + 1))[0 := hi8 w]"
    let ?s2 = "s\<lparr>f_dev := d1, sector_buffer := ?b, fat_sector_buffer_aux := ?x\<rparr>"
    have r2: "fat_ready dev_ok letter ?s2" using ready d1 by (simp add: fat_ready_def)
    from disk_write_sectorE [OF r2 n, of ?b] obtain d2 where
      d2: "disk_write_sector io (lba_of n) ?b ?s2 = (True, ?s2\<lparr>f_dev := d2\<rparr>)"
      "dev_ok d2" "img d2 = put_sector m n ?b" using d1 by auto
    have r3: "fat_ready dev_ok letter (?s2\<lparr>f_dev := d2\<rparr>)" using ready d2 by (simp add: fat_ready_def)
    from disk_write_sectorE [OF r3 n1, of ?x] obtain d3 where
      d3: "disk_write_sector io (lba_of (n + 1)) ?x (?s2\<lparr>f_dev := d2\<rparr>) = (True, ?s2\<lparr>f_dev := d3\<rparr>)"
      "dev_ok d3" "img d3 = put_sector (put_sector m n ?b) (n + 1) ?x" using d2 by auto
    have "write_fat12_copy io c v k s = (True, ?s2\<lparr>f_dev := d3\<rparr>)"
      using d(1) d1(1) d2(1) d3(1) e
      by (simp add: write_fat12_copy_def Let_def SECTOR_SIZE_def write_buf_def write_aux_def w_def pair_at_def
          flip: e_def n_def)
    with d3 ready show ?thesis
      using put_pair_across [of m n w] put e
      by (simp add: fat_ready_def fat_frame_def flip: m_def)
  qed
qed

lemma write_fat_copies_ok:
  assumes step: "\<And>k s. k \<in> set ks \<Longrightarrow> Q s \<Longrightarrow>
      \<exists>s'. f k s = (True, s') \<and> Q s' \<and> img (f_dev s') = g k (img (f_dev s))"
    and "Q s"
  shows "\<exists>s'. write_fat_copies f ks s = (True, s') \<and> Q s' \<and> img (f_dev s') = fold g ks (img (f_dev s))"
  using assms
proof (induction ks arbitrary: s)
  case (Cons k ks)
  from Cons.prems obtain s1 where "f k s = (True, s1)" "Q s1" "img (f_dev s1) = g k (img (f_dev s))"
    by (metis list.set_intros(1))
  moreover from Cons.IH [OF _ \<open>Q s1\<close>] Cons.prems(1)
  obtain s2 where "write_fat_copies f ks s1 = (True, s2)" "Q s2" "img (f_dev s2) = fold g ks (img (f_dev s1))"
    by (metis list.set_intros(2))
  ultimately show ?case by simp
qed simp

lemma write_fat_entry_ok:
  assumes ready: "fat_ready dev_ok letter s" and fits: "fat_fits (bpb s) cap"
    and cov: "fat_covers (current_fat_type s) (bpb s) c"
  shows "\<exists>s'. fat16_write_fat_entry io c v s = (True, s')
    \<and> fat_ready dev_ok letter s' \<and> fat_frame s s'
    \<and> img (f_dev s') = fat_put_all (current_fat_type s) (bpb s) c v (img (f_dev s))"
proof -
  let ?f = "if current_fat_type s = FAT_TYPE_12 then write_fat12_copy io c v else write_fat16_copy io c v"
  let ?Q = "\<lambda>t. fat_ready dev_ok letter t \<and> fat_frame s t"
  have "\<exists>t'. ?f k t = (True, t') \<and> ?Q t'
      \<and> img (f_dev t') = fat_put (current_fat_type s) (bpb s) c v k (img (f_dev t))"
    if "k \<in> set [0..<unat (fat_count (bpb s))]" "?Q t" for k t
    using write_fat12_copy_ok [of t c k v] write_fat16_copy_ok [of t c k v] that fits cov
    by (auto simp: fat_frame_def)
  from write_fat_copies_ok [of "[0..<unat (fat_count (bpb s))]" ?Q ?f
      "fat_put (current_fat_type s) (bpb s) c v" s, OF this] ready
  show ?thesis by (simp add: fat16_write_fat_entry_def fat_put_all_def)
qed

end


section \<open>Well-formed volumes\<close>

text \<open>
  A mounted volume with \<open>n\<close> data clusters, numbered 2 to \<open>n + 1\<close>: the tables lie inside the
  device and every data cluster has its entry inside each copy of the table.
\<close>

definition fat_vol :: "nat \<Rightarrow> nat \<Rightarrow> 'd fat_state \<Rightarrow> bool" where
  "fat_vol cap n s \<longleftrightarrow> fat_fits (bpb s) cap \<and> n < 65525
     \<and> get_total_clusters (bpb s) = Some (of_nat n)
     \<and> fat_covers (current_fat_type s) (bpb s) (of_nat (n + 1))"

abbreviation fat_entry :: "('d \<Rightarrow> image) \<Rightarrow> 'd fat_state \<Rightarrow> nat \<Rightarrow> u16" where
  "fat_entry view s c \<equiv> fat_get (current_fat_type s) (bpb s) (view (f_dev s)) 0 (of_nat c)"

lemma fat_vol_frame: "fat_vol cap n s \<Longrightarrow> fat_frame s t \<Longrightarrow> fat_vol cap n t"
  by (simp add: fat_vol_def fat_frame_def)

lemma unat_u16: "c < 65536 \<Longrightarrow> unat (of_nat c :: u16) = c"
  by (simp add: unat_of_nat take_bit_nat_eq_self)

lemma fat_covers_mono: "fat_covers ty p d \<Longrightarrow> unat c \<le> unat d \<Longrightarrow> fat_covers ty p c"
  using div_le_mono [of "unat c" "unat d" 2] by (auto simp: fat_covers_def split: if_splits)

lemma fat_vol_covers:
  assumes "fat_vol cap n s" "2 \<le> c" "c \<le> n + 1"
  shows "fat_covers (current_fat_type s) (bpb s) (of_nat c)"
  by (rule fat_covers_mono [of _ _ "of_nat (n + 1)"])
    (use assms in \<open>auto simp: fat_vol_def unat_u16 simp del: of_nat_Suc of_nat_add\<close>)

lemma fat_vol_data_cluster:
  assumes "fat_vol cap n s"
  shows "fat_is_data_cluster (bpb s) (ucast (c :: u16)) = Some (2 \<le> unat c \<and> unat c \<le> n + 1)"
proof -
  have n: "n < 65525" and t: "get_total_clusters (bpb s) = Some (of_nat n)"
    using assms by (auto simp: fat_vol_def)
  have "unat (of_nat n + 1 :: u32) = n + 1"
    using n by (simp add: unat_word_ariths unat_of_nat take_bit_nat_eq_self)
  then show ?thesis
    by (simp add: fat_is_data_cluster_def t word_le_nat_alt)
qed

lemma of_nat_u16_eq: "c < 65536 \<Longrightarrow> d < 65536 \<Longrightarrow> (of_nat c :: u16) = of_nat d \<longleftrightarrow> c = d"
  by (auto simp: word_unat_eq_iff unat_u16)

text \<open>The effect of writing one entry, on the table as a map.\<close>

lemma fat_entry_put_all:
  assumes vol: "fat_vol cap n s" and c: "2 \<le> c" "c \<le> n + 1" and d: "2 \<le> d" "d \<le> n + 1"
    and fr: "fat_frame s t"
    and m: "view (f_dev t) = fat_put_all (current_fat_type s) (bpb s) (of_nat c) v (view (f_dev s))"
  shows "fat_entry view t d = (if d = c then fat_mask (current_fat_type s) v else fat_entry view s d)"
proof -
  have "0 < unat (fat_count (bpb s))" and n: "n < 65525"
    using vol by (auto simp: fat_vol_def fat_fits_def)
  moreover have "(of_nat c :: u16) = of_nat d \<longleftrightarrow> c = d"
    using c d n by (intro of_nat_u16_eq) auto
  ultimately show ?thesis
    using fat_get_put_all [OF fat_vol_covers [OF vol c] fat_vol_covers [OF vol d]] fr m
    by (auto simp: fat_frame_def)
qed

section \<open>Allocation is first fit\<close>

definition first_free :: "(nat \<Rightarrow> u16) \<Rightarrow> nat \<Rightarrow> nat \<Rightarrow> nat option" where
  "first_free F i n = find (\<lambda>c. F c = 0) [i..<n + 2]"

lemma first_free_step:
  "i \<le> n + 1 \<Longrightarrow> first_free F i n = (if F i = 0 then Some i else first_free F (Suc i) n)"
  by (simp add: first_free_def upt_conv_Cons del: upt_Suc)

lemma first_free_end: "n + 1 < i \<Longrightarrow> first_free F i n = None"
  by (simp add: first_free_def)

lemma first_free_SomeD:
  assumes "first_free F i n = Some c"
  shows "i \<le> c \<and> c \<le> n + 1 \<and> F c = 0 \<and> (\<forall>d. i \<le> d \<and> d < c \<longrightarrow> F d \<noteq> 0)"
proof -
  from assms obtain k where k: "k < n + 2 - i" "F (i + k) = 0" "c = i + k"
    "\<forall>j<k. F (i + j) \<noteq> 0"
    by (auto simp: first_free_def find_Some_iff simp del: upt_Suc)
  have "F d \<noteq> 0" if "i \<le> d" "d < c" for d
    using that k(3,4) by (metis add_less_cancel_left le_Suc_ex)
  with k show ?thesis by auto
qed

lemma first_free_None: "first_free F i n = None \<longleftrightarrow> (\<forall>c. i \<le> c \<and> c \<le> n + 1 \<longrightarrow> F c \<noteq> 0)"
  by (auto simp: first_free_def find_None_iff simp del: upt_Suc)

context sector_device
begin

lemma alloc_scan_ok:
  assumes "fat_ready dev_ok letter s" "fat_vol cap n s" "2 \<le> i" "i \<le> n + 2"
  shows "\<exists>s'. alloc_scan io (of_nat i) (of_nat n + 1) s =
       Some (map_option of_nat (first_free (fat_entry img s) i n), s')
     \<and> fat_ready dev_ok letter s' \<and> fat_frame s s'
     \<and> img (f_dev s') = (case first_free (fat_entry img s) i n of None \<Rightarrow> img (f_dev s)
         | Some c \<Rightarrow> fat_put_all (current_fat_type s) (bpb s) (of_nat c) (fat_end_of_chain_value s) (img (f_dev s)))"
  using assms
proof (induction "n + 2 - i" arbitrary: i s)
  case 0
  then have "i = n + 2" by simp
  moreover have "\<not> (of_nat (n + 2) :: u32) \<le> of_nat n + 1"
    using "0.prems"(2) by (simp add: fat_vol_def word_le_nat_alt unat_word_ariths unat_of_nat take_bit_nat_eq_self)
  ultimately show ?case using "0.prems"
    by (auto simp: alloc_scan.simps first_free_end)
next
  case (Suc k)
  have n: "n < 65525" and i: "i \<le> n + 1" using Suc by (auto simp: fat_vol_def)
  have le: "(of_nat i :: u32) \<le> of_nat n + 1"
    using n i by (simp add: word_le_nat_alt unat_word_ariths unat_of_nat take_bit_nat_eq_self)
  have uc: "(ucast (of_nat i :: u32) :: u16) = of_nat i"
    using n i by (simp add: unsigned_of_nat take_bit_nat_eq_self)
  have cov: "fat_covers (current_fat_type s) (bpb s) (of_nat i)"
    using fat_vol_covers [OF Suc.prems(2,3) i] .
  have fits: "fat_fits (bpb s) cap" using Suc.prems(2) by (simp add: fat_vol_def)
  from read_fat_entry_ok [OF Suc.prems(1) fits cov] obtain s1 where
    s1: "fat16_read_fat_entry io (of_nat i) s = (fat_entry img s i, s1)"
      "fat_ready dev_ok letter s1" "fat_frame s s1" "img (f_dev s1) = img (f_dev s)" by blast
  have same: "fat_entry img s1 = fat_entry img s" using s1 by (auto simp: fat_frame_def)
  show ?case
  proof (cases "fat_entry img s i = 0")
    case True
    have "fat_fits (bpb s1) cap" "fat_covers (current_fat_type s1) (bpb s1) (of_nat i)"
      using s1(3) fits cov by (simp_all add: fat_frame_def)
    from write_fat_entry_ok [OF s1(2) this, of "fat_end_of_chain_value s1"] obtain s2 where
      s2: "fat16_write_fat_entry io (of_nat i) (fat_end_of_chain_value s1) s1 = (True, s2)"
        "fat_ready dev_ok letter s2" "fat_frame s1 s2"
        "img (f_dev s2) = fat_put_all (current_fat_type s) (bpb s) (of_nat i) (fat_end_of_chain_value s) (img (f_dev s))"
      using s1 by (auto simp: fat_frame_def fat_end_of_chain_value_def)
    have "alloc_scan io (of_nat i) (of_nat n + 1) s = Some (Some (of_nat i), s2)"
      using s1(1) s2(1) True le by (simp add: alloc_scan.simps [of io "of_nat i"] uc)
    moreover have "first_free (fat_entry img s) i n = Some i"
      using True i by (simp add: first_free_step)
    ultimately show ?thesis
      using s2 fat_frame_trans [OF s1(3) s2(3)] by simp
  next
    case False
    have "k = n + 2 - Suc i" using Suc.hyps(2) by simp
    from Suc.hyps(1) [OF this s1(2) fat_vol_frame [OF Suc.prems(2) s1(3)]] i Suc.prems(3)
    obtain s2 where
      "alloc_scan io (of_nat (Suc i)) (of_nat n + 1) s1 =
         Some (map_option of_nat (first_free (fat_entry img s) (Suc i) n), s2)"
      "fat_ready dev_ok letter s2" "fat_frame s1 s2"
      "img (f_dev s2) = (case first_free (fat_entry img s) (Suc i) n of None \<Rightarrow> img (f_dev s1)
         | Some c \<Rightarrow> fat_put_all (current_fat_type s1) (bpb s1) (of_nat c) (fat_end_of_chain_value s1) (img (f_dev s1)))"
      by (auto simp: same)
    moreover have "alloc_scan io (of_nat i) (of_nat n + 1) s = alloc_scan io (of_nat (Suc i)) (of_nat n + 1) s1"
      using s1(1) False le by (simp add: alloc_scan.simps [of io "of_nat i"] uc add.commute)
    moreover have "first_free (fat_entry img s) i n = first_free (fat_entry img s) (Suc i) n"
      using False i by (simp add: first_free_step)
    moreover have "current_fat_type s1 = current_fat_type s" "bpb s1 = bpb s"
      using s1(3) by (simp_all add: fat_frame_def)
    ultimately show ?thesis
      using s1(4) fat_frame_trans [OF s1(3)] fat_frame_eoc [OF s1(3)] by (simp cong: option.case_cong)
  qed
qed

lemma alloc_cluster_ok:
  assumes "fat_ready dev_ok letter s" "fat_vol cap n s"
  shows "\<exists>s'. fat16_alloc_cluster_internal io s =
       Some (map_option of_nat (first_free (fat_entry img s) 2 n), s')
     \<and> fat_ready dev_ok letter s' \<and> fat_frame s s'
     \<and> img (f_dev s') = (case first_free (fat_entry img s) 2 n of None \<Rightarrow> img (f_dev s)
         | Some c \<Rightarrow> fat_put_all (current_fat_type s) (bpb s) (of_nat c) (fat_end_of_chain_value s) (img (f_dev s)))"
  using alloc_scan_ok [OF assms, of 2] assms(2)
  by (simp add: fat16_alloc_cluster_internal_def fat_vol_def)

end

section \<open>Chains\<close>

text \<open>A chain: distinct data clusters linked by their entries, the last entry is no data cluster.\<close>

definition is_data :: "nat \<Rightarrow> u16 \<Rightarrow> bool" where
  "is_data n c \<longleftrightarrow> 2 \<le> unat c \<and> unat c \<le> n + 1"

fun linked :: "(nat \<Rightarrow> u16) \<Rightarrow> nat \<Rightarrow> u16 \<Rightarrow> u16 list \<Rightarrow> bool" where
  "linked F n c [] \<longleftrightarrow> \<not> is_data n c"
| "linked F n c (x # xs) \<longleftrightarrow> c = x \<and> is_data n c \<and> linked F n (F (unat c)) xs"

definition fat_chain :: "(nat \<Rightarrow> u16) \<Rightarrow> nat \<Rightarrow> u16 \<Rightarrow> u16 list \<Rightarrow> bool" where
  "fat_chain F n c cs \<longleftrightarrow> linked F n c cs \<and> distinct cs"

lemma linked_data: "linked F n c cs \<Longrightarrow> x \<in> set cs \<Longrightarrow> is_data n x"
  by (induction cs arbitrary: c) auto

lemma linked_cong: "\<lbrakk> linked F n c cs; \<And>x. x \<in> set cs \<Longrightarrow> G (unat x) = F (unat x) \<rbrakk> \<Longrightarrow> linked G n c cs"
  by (induction cs arbitrary: c) auto

lemma fat_chain_length: "fat_chain F n c cs \<Longrightarrow> length cs \<le> n"
proof -
  assume ch: "fat_chain F n c cs"
  then have d: "distinct (map unat cs)"
    by (auto simp: fat_chain_def distinct_map inj_on_def word_unat_eq_iff)
  have "set (map unat cs) \<subseteq> {2..<n + 2}"
    using ch linked_data by (fastforce simp: fat_chain_def is_data_def)
  then have "card (set (map unat cs)) \<le> card {2..<n + 2}" by (intro card_mono) auto
  with distinct_card [OF d] show ?thesis by simp
qed

context sector_device
begin

text \<open>Freeing a chain clears exactly its entries; the code's step bound is large enough.\<close>

lemma free_chain_loop_ok:
  assumes "fat_ready dev_ok letter s" "fat_vol cap n s"
    "linked (fat_entry img s) n c cs" "distinct cs" "length cs \<le> steps"
  shows "\<exists>s'. free_chain_loop io steps c s = Some (True, s')
     \<and> fat_ready dev_ok letter s' \<and> fat_frame s s'
     \<and> img (f_dev s') = fold (\<lambda>c. fat_put_all (current_fat_type s) (bpb s) c 0) cs (img (f_dev s))"
  using assms
proof (induction cs arbitrary: c s steps)
  case Nil
  then show ?case
    by (simp add: free_chain_loop.simps [of io steps] fat_vol_data_cluster is_data_def)
next
  case (Cons x cs)
  then obtain st where st: "steps = Suc st" by (cases steps) auto
  have x: "x = c" and data: "is_data n c" and rest: "linked (fat_entry img s) n (fat_entry img s (unat c)) cs"
    and notin: "c \<notin> set cs"
    using Cons.prems by auto
  have cr: "2 \<le> unat c" "unat c \<le> n + 1" using data by (auto simp: is_data_def)
  have cov: "fat_covers (current_fat_type s) (bpb s) c"
    using fat_vol_covers [OF Cons.prems(2) cr] by simp
  have fits: "fat_fits (bpb s) cap" using Cons.prems(2) by (simp add: fat_vol_def)
  from read_fat_entry_ok [OF Cons.prems(1) fits cov] obtain s1 where
    s1: "fat16_read_fat_entry io c s = (fat_entry img s (unat c), s1)"
      "fat_ready dev_ok letter s1" "fat_frame s s1" "img (f_dev s1) = img (f_dev s)" by auto
  have eq1: "bpb s1 = bpb s" "current_fat_type s1 = current_fat_type s" using s1(3) by (simp_all add: fat_frame_def)
  from write_fat_entry_ok [OF s1(2), of c 0] fits cov obtain s2 where
    s2: "fat16_write_fat_entry io c 0 s1 = (True, s2)"
      "fat_ready dev_ok letter s2" "fat_frame s1 s2"
      "img (f_dev s2) = fat_put_all (current_fat_type s) (bpb s) c 0 (img (f_dev s))"
    by (auto simp: eq1 s1(4))
  have fr: "fat_frame s s2" using fat_frame_trans [OF s1(3) s2(3)] .
  have eq2: "bpb s2 = bpb s" "current_fat_type s2 = current_fat_type s" using fr by (simp_all add: fat_frame_def)
  let ?next = "fat_entry img s (unat c)"
  have unf: "free_chain_loop io steps c s =
      (if ?next = c then Some (True, s2) else free_chain_loop io st ?next s2)"
    using s1(1) s2(1) cr by (simp add: free_chain_loop.simps [of io "Suc st"] st fat_vol_data_cluster [OF Cons.prems(2)]
        fat16_get_next_cluster_def)
  have ne: "?next = c \<Longrightarrow> cs = []"
    using rest notin by (cases cs) auto
  have link2: "linked (fat_entry img s2) n ?next cs"
  proof (rule linked_cong [OF rest])
    fix y assume y: "y \<in> set cs"
    then have "is_data n y" using linked_data [OF rest] by blast
    then have "2 \<le> unat y" "unat y \<le> n + 1" by (auto simp: is_data_def)
    moreover have "y \<noteq> c" using y notin by auto
    then have "unat y \<noteq> unat c" by (simp add: word_unat_eq_iff)
    ultimately show "fat_entry img s2 (unat y) = fat_entry img s (unat y)"
      using fat_entry_put_all [OF Cons.prems(2) cr, of "unat y" s2 img 0] fr s2(4) by simp
  qed
  show ?case
  proof (cases "?next = c")
    case True
    then have "cs = []" by (rule ne)
    with rest data True show ?thesis by simp
  next
    case False
    from Cons.IH [OF s2(2) fat_vol_frame [OF Cons.prems(2) fr] link2, of st] Cons.prems(4,5)
    obtain s3 where "free_chain_loop io st ?next s2 = Some (True, s3)"
      "fat_ready dev_ok letter s3" "fat_frame s2 s3"
      "img (f_dev s3) = fold (\<lambda>c. fat_put_all (current_fat_type s) (bpb s) c 0) cs (img (f_dev s2))"
      by (auto simp: st eq2)
    then show ?thesis
      using False unf fat_frame_trans [OF fr] by (simp add: x s2(4))
  qed
qed

lemma free_chain_ok:
  assumes "fat_ready dev_ok letter s" "fat_vol cap n s" "fat_chain (fat_entry img s) n c cs" "cs \<noteq> []"
  shows "\<exists>s'. fat16_free_cluster_chain_internal io c s = Some (True, s')
     \<and> fat_ready dev_ok letter s' \<and> fat_frame s s'
     \<and> img (f_dev s') = fold (\<lambda>c. fat_put_all (current_fat_type s) (bpb s) c 0) cs (img (f_dev s))"
proof -
  have n: "n < 65525" "get_total_clusters (bpb s) = Some (of_nat n)" using assms(2) by (auto simp: fat_vol_def)
  have "unat (of_nat n + 2 :: u32) = n + 2"
    using n by (simp add: unat_word_ariths unat_of_nat take_bit_nat_eq_self)
  moreover have "length cs \<le> n + 2" using fat_chain_length [OF assms(3)] by simp
  moreover have "is_data n c" using assms(3,4) by (cases cs) (auto simp: fat_chain_def)
  then have "\<not> c < 2" by (simp add: is_data_def word_less_nat_alt)
  ultimately show ?thesis
    using free_chain_loop_ok [OF assms(1,2), of c cs "n + 2"] assms(3) n
    by (simp add: fat16_free_cluster_chain_internal_def fat_chain_def)
qed

end

lemma fold_put_frame:
  assumes "\<And>x. x \<in> set cs \<Longrightarrow> fat_covers ty p x"
    and "a < 512 * unat (reserved_sectors p) \<or> 512 * get_root_dir_start p \<le> a"
  shows "fold (\<lambda>c. fat_put_all ty p c v) cs m a = m a"
  using assms by (induction cs arbitrary: m) (auto simp: fat_put_all_frame)

lemma fold_put_get:
  assumes "\<And>x. x \<in> set cs \<Longrightarrow> fat_covers ty p x" "fat_covers ty p d" "k < unat (fat_count p)"
  shows "fat_get ty p (fold (\<lambda>c. fat_put_all ty p c v) cs m) k d =
     (if d \<in> set cs then fat_mask ty v else fat_get ty p m k d)"
  using assms(1)
proof (induction cs arbitrary: m)
  case (Cons x cs)
  then show ?case
    using fat_get_put_all [OF _ assms(2,3), of x v m] by auto
qed simp

end
