(* ===== verification/Fat_Walk.thy ===== *)
theory Fat_Walk
  imports Fat_File Fat_Table
begin

text \<open>
  Directories as lists of slots: what a walk over a directory sees on a drive that keeps the
  \<open>sector_device\<close> contract, and what lookup, creation and update of an entry do to the slots.
\<close>

unbundle bit_operations_syntax

section \<open>Entries in a sector\<close>

lemma le32_split: "le32 (byte32 0 v) (byte32 1 v) (byte32 2 v) (byte32 3 v) = v"
proof (rule bit_word_eqI)
  fix n assume "n < LENGTH(32)"
  then consider "n < 8" | "8 \<le> n" "n < 16" | "16 \<le> n" "n < 24" | "24 \<le> n" "n < 32" by fastforce
  then show "bit (le32 (byte32 0 v) (byte32 1 v) (byte32 2 v) (byte32 3 v)) n = bit v n"
    unfolding le32_def byte32_def mask_0xFF by cases (auto simp: bit_simps)
qed

lemma length_bytes [simp]: "length (bytes16 v) = 2" "length (bytes32 w) = 4"
  by (simp_all add: bytes16_def bytes32_def)

lemma length_entry_bytes: "length (de_name e) = 11 \<Longrightarrow> length (entry_bytes e) = 32"
  by (simp add: entry_bytes_def)

lemma length_set_entry:
  "length b = 512 \<Longrightarrow> i < 16 \<Longrightarrow> length (de_name e) = 11 \<Longrightarrow> length (set_entry b i e) = 512"
  by (simp add: set_entry_def length_entry_bytes DIR_ENTRY_SIZE_def)

text \<open>An entry depends on its 32 bytes only.\<close>

definition decode_entry :: "u8 list \<Rightarrow> FAT16_DirectoryEntry" where
  "decode_entry w = entry_at w 0"

lemma entry_at_window:
  assumes "32 * i + 32 \<le> length b"
  shows "entry_at b i = decode_entry (take 32 (drop (32 * i) b))"
proof -
  let ?w = "take 32 (drop (32 * i) b)"
  have n: "?w ! k = b ! (32 * i + k)" if "k < 32" for k using that assms by (simp add: nth_drop)
  have "take 11 (drop (32 * i) b) = take 11 ?w" by (simp add: min_def)
  then show ?thesis
    using assms by (simp add: decode_entry_def entry_at_def DIR_ENTRY_SIZE_def load16_def load32_def n add.commute Let_def
        del: nth_take)
qed

lemma decode_encode:
  assumes "length (de_name e) = 11"
  shows "decode_entry (entry_bytes e) = e"
proof -
  have l: "de_creation_time e = load16 (entry_bytes e) 14" "de_creation_date e = load16 (entry_bytes e) 16"
    "de_access_date e = load16 (entry_bytes e) 18" "de_cluster_high e = load16 (entry_bytes e) 20"
    "de_modified_time e = load16 (entry_bytes e) 22" "de_modified_date e = load16 (entry_bytes e) 24"
    "de_cluster_low e = load16 (entry_bytes e) 26" "de_file_size e = load32 (entry_bytes e) 28"
    using assms by (simp_all add: entry_bytes_def load16_def load32_def bytes16_def bytes32_def nth_append bytes_simps le32_split [unfolded One_nat_def])
  have "entry_bytes e ! 11 = de_attributes e" "entry_bytes e ! 12 = de_reserved e"
    "entry_bytes e ! 13 = de_creation_time_ms e" "take 11 (entry_bytes e) = de_name e"
    using assms by (simp_all add: entry_bytes_def nth_append)
  then show ?thesis
    by (simp add: decode_entry_def entry_at_def DIR_ENTRY_SIZE_def flip: l)
qed

lemma entry_at_set_entry:
  assumes "length b = 512" "i < 16" "j < 16" "length (de_name e) = 11"
  shows "entry_at (set_entry b i e) j = (if j = i then e else entry_at b j)"
proof -
  let ?b = "set_entry b i e"
  have len: "length ?b = 512" using assms by (intro length_set_entry)
  have le: "length (entry_bytes e) = 32" using assms(4) by (rule length_entry_bytes)
  have w: "take 32 (drop (32 * j) ?b) = (if j = i then entry_bytes e else take 32 (drop (32 * j) b))"
  proof -
    consider "j = i" | "j < i" | "i < j" by linarith
    then show ?thesis
    proof cases
      case 1
      then show ?thesis using assms le by (simp add: set_entry_def DIR_ENTRY_SIZE_def)
    next
      case 2
      then have "32 * j + 32 \<le> 32 * i" by simp
      then have cut: "take 32 (drop (32 * j) (take (32 * i) b @ ys)) = take 32 (drop (32 * j) b)" for ys
        using assms(1,2) \<open>32 * j + 32 \<le> 32 * i\<close> by (simp add: drop_take min_def le_diff_conv2)
      have "j \<noteq> i" using 2 by simp
      then show ?thesis unfolding set_entry_def DIR_ENTRY_SIZE_def cut by (rule if_not_P [symmetric])
    next
      case 3
      then have "32 * j = 32 * i + 32 + (32 * j - (32 * i + 32))" by simp
      then have "drop (32 * j) ?b = drop (32 * j - (32 * i + 32)) (drop (32 * i + 32) ?b)" by (simp add: add.commute)
      also have "drop (32 * i + 32) ?b = drop (32 * i + 32) b"
        using assms le by (simp add: set_entry_def DIR_ENTRY_SIZE_def)
      finally show ?thesis using 3 by (simp add: add.commute)
    qed
  qed
  show ?thesis
    using entry_at_window [of j ?b] entry_at_window [of j b] assms len w by (simp add: decode_encode)
qed

lemma length_entry_name: "length b = 512 \<Longrightarrow> i < 16 \<Longrightarrow> length (de_name (entry_at b i)) = 11"
  by (simp add: entry_at_def DIR_ENTRY_SIZE_def Let_def)

section \<open>Slots\<close>

text \<open>A slot is a sector number and an index; the slots of a directory in the order of the walk.\<close>

definition slots :: "nat list \<Rightarrow> (nat \<times> nat) list" where
  "slots secs = concat (map (\<lambda>x. map (Pair x) SLOTS) secs)"

definition slot_entry :: "image \<Rightarrow> nat \<times> nat \<Rightarrow> FAT16_DirectoryEntry" where
  "slot_entry m q = entry_at (sector_at m (fst q)) (snd q)"

lemma set_slots: "set (slots secs) = set secs \<times> {0..<16}"
  by (auto simp: slots_def SLOTS_def)

lemma find_map_Pair: "find P (map (Pair x) is) = map_option (Pair x) (find (\<lambda>i. P (x, i)) is)"
  by (induction "is") auto

lemma find_append: "find P (xs @ ys) = (case find P xs of None \<Rightarrow> find P ys | Some x \<Rightarrow> Some x)"
  by (induction xs) auto

lemma find_slots_Cons:
  "find P (slots (x # xs)) =
     (case find (\<lambda>i. P (x, i)) SLOTS of Some i \<Rightarrow> Some (x, i) | None \<Rightarrow> find P (slots xs))"
  by (simp add: slots_def find_append find_map_Pair split: option.split)

lemma find_slots_Nil [simp]: "find P (slots []) = None"
  by (simp add: slots_def)

lemma slot_entry_put:
  assumes "i < 16" "j < 16" "length (de_name e) = 11"
  shows "slot_entry (put_sector m x (set_entry (sector_at m x) i e)) (y, j) =
     (if (y, j) = (x, i) then e else slot_entry m (y, j))"
proof (cases "y = x")
  case True
  then show ?thesis using assms
    by (simp add: slot_entry_def length_set_entry entry_at_set_entry)
next
  case False
  then have "sector_at (put_sector m x (set_entry (sector_at m x) i e)) y = sector_at m y" by simp
  with False show ?thesis by (simp add: slot_entry_def)
qed

section \<open>The geometry of a volume with files\<close>

text \<open>
  A mounted volume with \<open>n\<close> data clusters whose data area starts at sector \<open>ds\<close> and lies inside the
  device. A FAT12 volume has fewer than 4085 clusters, as \<open>fat16_init\<close> makes sure.
\<close>

definition fs_vol :: "nat \<Rightarrow> nat \<Rightarrow> nat \<Rightarrow> 'd fat_state \<Rightarrow> bool" where
  "fs_vol cap n ds s \<longleftrightarrow> fat_vol cap n s \<and> get_data_start (bpb s) = Some ds
     \<and> 0 < unat (sectors_per_cluster (bpb s)) \<and> ds + n * unat (sectors_per_cluster (bpb s)) \<le> cap
     \<and> (current_fat_type s = FAT_TYPE_12 \<longrightarrow> n < 4085)"

lemma fs_vol_frame: "fs_vol cap n ds s \<Longrightarrow> fat_frame s t \<Longrightarrow> fs_vol cap n ds t"
  using fat_vol_frame [of cap n s t] by (auto simp: fs_vol_def fat_frame_def)

lemma fs_volD: "fs_vol cap n ds s \<Longrightarrow> fat_vol cap n s" "fs_vol cap n ds s \<Longrightarrow> get_data_start (bpb s) = Some ds"
  "fs_vol cap n ds s \<Longrightarrow> fat_fits (bpb s) cap"
  by (simp_all add: fs_vol_def fat_vol_def)

lemma fs_vol_root:
  assumes "fs_vol cap n ds s"
  obtains r where "get_root_dir_sectors (bpb s) = Some r" "ds = get_root_dir_start (bpb s) + r"
  using assms by (auto simp: fs_vol_def get_data_start_def)

text \<open>The first sector of a cluster and its bytes.\<close>

definition cl_base :: "FAT16_BPB \<Rightarrow> nat \<Rightarrow> nat \<Rightarrow> nat" where
  "cl_base p ds c = ds + (c - 2) * unat (sectors_per_cluster p)"

definition cluster_data :: "FAT16_BPB \<Rightarrow> nat \<Rightarrow> image \<Rightarrow> nat \<Rightarrow> u8 list" where
  "cluster_data p ds m c = map (\<lambda>i. m (512 * cl_base p ds c + i)) [0..<512 * unat (sectors_per_cluster p)]"

lemma length_cluster_data [simp]: "length (cluster_data p ds m c) = 512 * unat (sectors_per_cluster p)"
  by (simp add: cluster_data_def)

lemma cl_base_bound:
  assumes "fs_vol cap n ds s" "2 \<le> c" "c \<le> n + 1" "k < unat (sectors_per_cluster (bpb s))"
  shows "cl_base (bpb s) ds c + k < cap"
proof -
  let ?z = "unat (sectors_per_cluster (bpb s))"
  have "Suc (c - 2) * ?z \<le> n * ?z" using assms(2,3) by (intro mult_le_mono1) simp
  then show ?thesis using assms by (simp add: cl_base_def fs_vol_def)
qed

text \<open>Different clusters share no sector.\<close>

lemma cl_base_disjoint:
  assumes "2 \<le> c" "2 \<le> d" "c \<noteq> d" "j < unat (sectors_per_cluster p)" "k < unat (sectors_per_cluster p)"
  shows "cl_base p ds c + j \<noteq> cl_base p ds d + k"
proof -
  let ?z = "unat (sectors_per_cluster p)"
  have *: "(a - 2) * ?z + i < (b - 2) * ?z + i'" if "2 \<le> a" "a < b" "i < ?z" for a b i i'
  proof -
    have "Suc (a - 2) * ?z \<le> (b - 2) * ?z" using that by (intro mult_le_mono1) simp
    with that(3) show ?thesis by simp
  qed
  show ?thesis using assms * [of c d j k] * [of d c k j] by (cases c d rule: linorder_cases) (auto simp: cl_base_def)
qed

lemma lba_dir_sector:
  assumes "2 \<le> c"
  shows "dir_sector p ds (of_nat c) k = lba_of (cl_base p ds c + k)"
proof -
  have "(of_nat c :: u32) - 2 = of_nat (c - 2)" using assms by (simp add: of_nat_diff)
  then show ?thesis by (simp add: dir_sector_def lba_of_def cl_base_def)
qed

lemma lba_cluster_sector:
  assumes "2 \<le> unat c"
  shows "of_int (cluster_sector p ds c + int k) = lba_of (cl_base p ds (unat c) + k)"
proof -
  have "cluster_sector p ds c + int k = int (cl_base p ds (unat c) + k)"
    using assms by (simp add: cluster_sector_def cl_base_def of_nat_diff)
  then show ?thesis by (simp only: of_int_of_nat_eq lba_of_def)
qed

lemma lba_cluster_sectors:
  "2 \<le> c \<Longrightarrow> cluster_sectors p ds (of_nat c) = map (\<lambda>k. lba_of (cl_base p ds c + k)) [0..<unat (sectors_per_cluster p)]"
  by (simp add: cluster_sectors_def lba_dir_sector)

lemma ucast_u16_u32: "(ucast (c :: u16) :: u32) = of_nat (unat c)"
  by (simp add: word_unat_eq_iff unat_of_nat take_bit_nat_eq_self unat_u16_bound order.strict_trans [OF unat_u16_bound])

lemma ucast_ucast_u16 [simp]: "(ucast (ucast (c :: u16) :: u32) :: u16) = c"
  by (simp add: word_unat_eq_iff unat_ucast_32_16 unat_u16_bound)

section \<open>The sectors of a directory\<close>

definition chain_sectors :: "FAT16_BPB \<Rightarrow> nat \<Rightarrow> u16 list \<Rightarrow> nat list" where
  "chain_sectors p ds cs = concat (map (\<lambda>c. map (\<lambda>k. cl_base p ds (unat c) + k) [0..<unat (sectors_per_cluster p)]) cs)"

lemma chain_sectorsE:
  assumes "x \<in> set (chain_sectors p ds cs)"
  obtains c k where "c \<in> set cs" "k < unat (sectors_per_cluster p)" "x = cl_base p ds (unat c) + k"
proof -
  from assms obtain c where "c \<in> set cs" "x \<in> (\<lambda>k. cl_base p ds (unat c) + k) ` {0..<unat (sectors_per_cluster p)}"
    by (auto simp: chain_sectors_def)
  then show thesis using that [of c "x - cl_base p ds (unat c)"] by auto
qed

text \<open>\<open>dir_secs F n ds p dir cs secs\<close>: the directory \<open>dir\<close> is the root area and \<open>cs\<close> is empty, or \<open>cs\<close> is its chain of clusters.\<close>

definition dir_secs :: "(nat \<Rightarrow> u16) \<Rightarrow> nat \<Rightarrow> nat \<Rightarrow> FAT16_BPB \<Rightarrow> u32 \<Rightarrow> u16 list \<Rightarrow> nat list \<Rightarrow> bool" where
  "dir_secs F n ds p dir cs secs \<longleftrightarrow>
     (if dir = 0 then cs = [] \<and> secs = [get_root_dir_start p..<ds]
      else cs \<noteq> [] \<and> dir = ucast (hd cs) \<and> linked F n (hd cs) cs \<and> secs = chain_sectors p ds cs)"

lemma dir_secs_bound:
  assumes vol: "fs_vol cap n ds s" and dir: "dir_secs F n ds (bpb s) dir cs secs" and x: "x \<in> set secs"
  shows "x < cap" "get_root_dir_start (bpb s) \<le> x"
proof -
  obtain r where r: "ds = get_root_dir_start (bpb s) + r" using fs_vol_root [OF vol] .
  have "x < cap \<and> get_root_dir_start (bpb s) \<le> x"
  proof (cases "dir = 0")
    case True
    moreover have "ds \<le> cap" using vol by (simp add: fs_vol_def)
    ultimately show ?thesis using dir x by (auto simp: dir_secs_def)
  next
    case False
    then obtain c k where c: "c \<in> set cs" "k < unat (sectors_per_cluster (bpb s))"
      "x = cl_base (bpb s) ds (unat c) + k" "linked F n (hd cs) cs"
      using dir x by (auto simp: dir_secs_def elim: chain_sectorsE)
    then have "is_data n c" using linked_data by blast
    then show ?thesis using cl_base_bound [OF vol, of "unat c" k] c r by (auto simp: is_data_def cl_base_def)
  qed
  then show "x < cap" "get_root_dir_start (bpb s) \<le> x" by auto
qed

section \<open>Walks\<close>

context sector_device
begin

text \<open>The states during a walk that only reads: the volume and the image are those of the start.\<close>

definition quiet :: "'d fat_state \<Rightarrow> 'd fat_state \<Rightarrow> bool" where
  "quiet s t \<longleftrightarrow> fat_ready dev_ok letter t \<and> fat_frame s t \<and> img (f_dev t) = img (f_dev s)"

lemma quiet_refl: "fat_ready dev_ok letter s \<Longrightarrow> quiet s s"
  by (simp add: quiet_def)

lemma quiet_trans: "quiet s t \<Longrightarrow> quiet t u \<Longrightarrow> quiet s u"
  using fat_frame_trans by (auto simp: quiet_def)

lemma quietD: "quiet s t \<Longrightarrow> fat_ready dev_ok letter t" "quiet s t \<Longrightarrow> bpb t = bpb s"
  "quiet s t \<Longrightarrow> img (f_dev t) = img (f_dev s)" "quiet s t \<Longrightarrow> current_fat_type t = current_fat_type s"
  "quiet s t \<Longrightarrow> fat_frame s t"
  by (simp_all add: quiet_def fat_frame_def)

lemma quiet_vol: "quiet s t \<Longrightarrow> fs_vol cap n ds s \<Longrightarrow> fs_vol cap n ds t"
  using fs_vol_frame by (auto simp: quiet_def)

lemma read_buf_quiet:
  assumes "quiet s t" "x < cap"
  obtains t' where "read_buf io (lba_of x) t = (True, t')" "quiet s t'"
    "sector_buffer t' = sector_at (img (f_dev s)) x"
proof -
  from read_bufE [OF quietD(1) [OF assms(1)] assms(2)] obtain d where
    d: "read_buf io (lba_of x) t = (True, t\<lparr>f_dev := d, sector_buffer := sector_at (img (f_dev t)) x\<rparr>)"
      "dev_ok d" "img d = img (f_dev t)" .
  then show thesis using assms(1) that by (simp add: quiet_def fat_ready_def fat_frame_def)
qed

lemma next_cluster_quiet:
  assumes "fs_vol cap n ds s" "quiet s t" "is_data n c"
  obtains t' where "fat16_get_next_cluster io c t = (fat_entry img s (unat c), t')" "quiet s t'"
proof -
  have "fat_vol cap n t" using quiet_vol [OF assms(2,1)] by (rule fs_volD)
  then have "fat_covers (current_fat_type t) (bpb t) (of_nat (unat c))"
    using assms(3) by (intro fat_vol_covers) (auto simp: is_data_def)
  moreover have "fat_fits (bpb t) cap" using quiet_vol [OF assms(2,1)] by (rule fs_volD)
  ultimately obtain t' where "fat16_read_fat_entry io c t = (fat_entry img t (unat c), t')" "quiet t t'"
    using read_fat_entry_ok [OF quietD(1) [OF assms(2)], of c] by (auto simp: quiet_def)
  then show thesis using that quiet_trans [OF assms(2)] quietD [OF assms(2)]
    by (simp add: fat16_get_next_cluster_def)
qed

text \<open>The outcome of a search: the walk ends, or the body returns at the first slot with the property.\<close>

definition outcome ::
    "(nat \<times> nat \<Rightarrow> bool) \<Rightarrow> nat list \<Rightarrow> 'd fat_state \<Rightarrow> (nat \<Rightarrow> nat \<Rightarrow> 'r \<Rightarrow> 'd fat_state \<Rightarrow> bool)
     \<Rightarrow> ((unit, 'r) step \<times> 'd fat_state) option \<Rightarrow> bool" where
  "outcome P secs s R res = (case find P (slots secs) of
      None \<Rightarrow> \<exists>t'. res = Some (Continue (), t') \<and> quiet s t'
    | Some (x, i) \<Rightarrow> \<exists>r t'. res = Some (Return r, t') \<and> R x i r t')"

lemma outcome_Continue: "find P (slots secs) = None \<Longrightarrow> quiet s t' \<Longrightarrow> outcome P secs s R (Some (Continue (), t'))"
  and outcome_Return: "find P (slots secs) = Some (x, i) \<Longrightarrow> R x i r t' \<Longrightarrow> outcome P secs s R (Some (Return r, t'))"
  by (simp_all add: outcome_def)

lemma outcomeE:
  assumes "outcome P secs s R res"
  obtains t' where "find P (slots secs) = None" "res = Some (Continue (), t')" "quiet s t'"
  | x i r t' where "find P (slots secs) = Some (x, i)" "res = Some (Return r, t')" "R x i r t'"
  using assms by (auto simp: outcome_def split: option.splits)

lemma outcome_cong: "find P (slots secs) = find P (slots secs') \<Longrightarrow> outcome P secs s R = outcome P secs' s R"
  by (intro ext) (simp add: outcome_def)

text \<open>A body that goes on through sectors without such a slot and returns at the first one.\<close>

definition searches ::
    "(nat \<times> nat \<Rightarrow> bool) \<Rightarrow> nat list \<Rightarrow> 'd fat_state \<Rightarrow> (nat \<Rightarrow> nat \<Rightarrow> 'r \<Rightarrow> 'd fat_state \<Rightarrow> bool)
     \<Rightarrow> (u32 \<Rightarrow> unit \<Rightarrow> 'd fat_state \<Rightarrow> ((unit, 'r) step \<times> 'd fat_state) option) \<Rightarrow> bool" where
  "searches P secs s R body \<longleftrightarrow>
     (\<forall>y t. y \<in> set secs \<longrightarrow> find (\<lambda>j. P (y, j)) SLOTS = None \<longrightarrow> quiet s t
        \<longrightarrow> (\<exists>t'. body (lba_of y) () t = Some (Continue (), t') \<and> quiet s t'))
   \<and> (\<forall>x i t. find P (slots secs) = Some (x, i) \<longrightarrow> x \<in> set secs \<longrightarrow> find (\<lambda>j. P (x, j)) SLOTS = Some i \<longrightarrow> quiet s t
        \<longrightarrow> (\<exists>r t'. body (lba_of x) () t = Some (Return r, t') \<and> R x i r t'))"

lemma searchesD1: "searches P secs s R body \<Longrightarrow> y \<in> set secs \<Longrightarrow> find (\<lambda>j. P (y, j)) SLOTS = None \<Longrightarrow> quiet s t
    \<Longrightarrow> \<exists>t'. body (lba_of y) () t = Some (Continue (), t') \<and> quiet s t'"
  and searchesD2: "searches P secs s R body \<Longrightarrow> find P (slots secs) = Some (x, i) \<Longrightarrow> x \<in> set secs
    \<Longrightarrow> find (\<lambda>j. P (x, j)) SLOTS = Some i \<Longrightarrow> quiet s t
    \<Longrightarrow> \<exists>r t'. body (lba_of x) () t = Some (Return r, t') \<and> R x i r t'"
  unfolding searches_def by blast+

lemma slots_append: "slots (xs @ ys) = slots xs @ slots ys"
  by (simp add: slots_def)

lemma find_slots_append:
  "find P (slots (xs @ ys)) = (case find P (slots xs) of None \<Rightarrow> find P (slots ys) | Some r \<Rightarrow> Some r)"
  by (simp add: slots_append find_append)

lemma searches_left: "searches P (xs @ ys) s R body \<Longrightarrow> searches P xs s R body"
  unfolding searches_def find_slots_append by auto

lemma searches_right: "searches P (xs @ ys) s R body \<Longrightarrow> find P (slots xs) = None \<Longrightarrow> searches P ys s R body"
  unfolding searches_def find_slots_append by auto

lemma over_sectors_search:
  assumes "searches P secs s R body" "quiet s t"
  shows "outcome P secs s R (over_sectors body (map lba_of secs) () t)"
  using assms
proof (induction secs arbitrary: t)
  case Nil
  then show ?case by (simp add: outcome_Continue)
next
  case (Cons y secs)
  show ?case
  proof (cases "find (\<lambda>j. P (y, j)) SLOTS")
    case None
    from searchesD1 [OF Cons.prems(1) _ None Cons.prems(2)] obtain t1 where
      t1: "body (lba_of y) () t = Some (Continue (), t1)" "quiet s t1" by auto
    have f: "find P (slots [y]) = None" "find P (slots (y # secs)) = find P (slots secs)"
      using None by (simp_all add: find_slots_Cons)
    have "searches P secs s R body" using searches_right [of P "[y]" secs] Cons.prems(1) f(1) by simp
    from Cons.IH [OF this t1(2)] show ?thesis
      unfolding outcome_cong [OF f(2)] by (simp only: list.map over_sectors.simps t1(1) option.case prod.case step.case)
  next
    case (Some i)
    then have f: "find P (slots (y # secs)) = Some (y, i)" by (simp add: find_slots_Cons)
    from searchesD2 [OF Cons.prems(1) f _ Some Cons.prems(2)] obtain r t1 where
      "body (lba_of y) () t = Some (Return r, t1)" "R y i r t1" by auto
    with f show ?thesis by (simp add: outcome_Return)
  qed
qed

lemma data_cluster_quiet:
  assumes "fs_vol cap n ds s" "quiet s t"
  shows "fat_is_data_cluster (bpb t) (ucast (c :: u16)) = Some (is_data n c)"
  using fat_vol_data_cluster [OF fs_volD(1) [OF quiet_vol [OF assms(2,1)]], of c] by (simp add: is_data_def)

lemma cluster_sectors_quiet:
  assumes "quiet s t" "is_data n c"
  shows "cluster_sectors (bpb t) ds (ucast c) =
    map lba_of (map (\<lambda>k. cl_base (bpb s) ds (unat c) + k) [0..<unat (sectors_per_cluster (bpb s))])"
proof -
  have "2 \<le> unat c" using assms(2) by (simp add: is_data_def)
  from lba_cluster_sectors [OF this] show ?thesis
    unfolding ucast_u16_u32 quietD(2) [OF assms(1)] map_map comp_def .
qed

lemma over_clusters_search:
  assumes vol: "fs_vol cap n ds s"
    and chain: "linked (fat_entry img s) n c cs"
    and body: "searches P (chain_sectors (bpb s) ds cs) s R body"
    and q: "quiet s t"
  shows "outcome P (chain_sectors (bpb s) ds cs) s R (over_clusters io body ds (ucast c) () t)"
  using chain body q
proof (induction cs arbitrary: c t)
  case Nil
  have "fat_is_data_cluster (bpb t) (ucast c) = Some False"
    using Nil(1) data_cluster_quiet [OF vol Nil(3), of c] by simp
  then have "over_clusters io body ds (ucast c) () t = Some (Continue (), t)"
    by (subst over_clusters.simps) simp
  then show ?case using Nil(3) by (simp add: chain_sectors_def outcome_Continue)
next
  case (Cons x cs)
  let ?z = "map (\<lambda>k. cl_base (bpb s) ds (unat c) + k) [0..<unat (sectors_per_cluster (bpb s))]"
  let ?nx = "fat_entry img s (unat c)"
  have x: "x = c" and d: "is_data n c" and rest: "linked (fat_entry img s) n ?nx cs"
    using Cons.prems(1) by auto
  have secs: "chain_sectors (bpb s) ds (x # cs) = ?z @ chain_sectors (bpb s) ds cs"
    by (simp add: chain_sectors_def x)
  have ok: "fat_is_data_cluster (bpb t) (ucast c) = Some True"
    using d data_cluster_quiet [OF vol Cons.prems(3), of c] by simp
  note cl = cluster_sectors_quiet [OF Cons.prems(3) d, of ds]
  have "searches P ?z s R body" using Cons.prems(2) unfolding secs by (rule searches_left)
  from over_sectors_search [OF this Cons.prems(3)]
  show ?case
  proof (cases rule: outcomeE)
    case (1 t1)
    from next_cluster_quiet [OF vol 1(3) d] obtain t2 where
      t2: "fat16_get_next_cluster io c t1 = (?nx, t2)" "quiet s t2" .
    have step: "over_clusters io body ds (ucast c) () t = over_clusters io body ds (ucast ?nx) () t2"
      using t2(1) by (subst over_clusters.simps) (simp add: ok cl 1(2) del: map_map)
    have f: "find P (slots (chain_sectors (bpb s) ds (x # cs))) = find P (slots (chain_sectors (bpb s) ds cs))"
      unfolding secs find_slots_append 1(1) by simp
    have "searches P (chain_sectors (bpb s) ds cs) s R body"
      using Cons.prems(2) 1(1) unfolding secs by (rule searches_right)
    from Cons.IH [OF rest this t2(2)] show ?thesis unfolding step outcome_cong [OF f] .
  next
    case (2 y i r t1)
    then have "over_clusters io body ds (ucast c) () t = Some (Return r, t1)"
      by (subst over_clusters.simps) (simp add: ok cl del: map_map)
    moreover have "find P (slots (chain_sectors (bpb s) ds (x # cs))) = Some (y, i)"
      unfolding secs find_slots_append 2(1) by simp
    ultimately show ?thesis using 2(3) by (simp add: outcome_Return)
  qed
qed

lemma over_dir_search:
  assumes vol: "fs_vol cap n ds s"
    and dir: "dir_secs (fat_entry img s) n ds (bpb s) dir cs secs"
    and body: "searches P secs s R body"
    and q: "quiet s t"
  shows "outcome P secs s R (over_dir io body dir () t)"
proof (cases "dir = 0")
  case True
  obtain r where r: "get_root_dir_sectors (bpb s) = Some r" "ds = get_root_dir_start (bpb s) + r" using fs_vol_root [OF vol] .
  have "secs = map (\<lambda>k. k + get_root_dir_start (bpb s)) [0..<r]"
    using dir True r(2) by (simp add: dir_secs_def map_add_upt add.commute)
  then have "map lba_of secs = root_sectors (bpb s) r"
    by (simp add: root_sectors_def lba_of_def add.commute)
  then have "over_dir io body dir () t = over_sectors body (map lba_of secs) () t"
    using True r(1) quietD(2) [OF q] by (simp add: over_dir_def)
  then show ?thesis using over_sectors_search [OF body q] by simp
next
  case False
  then have *: "dir = ucast (hd cs)" "linked (fat_entry img s) n (hd cs) cs" "secs = chain_sectors (bpb s) ds cs"
    using dir by (auto simp: dir_secs_def)
  have "over_dir io body dir () t = over_clusters io body ds (ucast (hd cs)) () t"
    using False *(1) fs_volD(2) [OF vol] quietD(2) [OF q] by (simp add: over_dir_def)
  then show ?thesis using over_clusters_search [OF vol *(2) body [unfolded *(3)] q] *(3) by simp
qed

end

end
