(* ===== verification/Fat_Lookup.thy ===== *)
theory Fat_Lookup
  imports Fat_Walk
begin

text \<open>
  What lookup and reading return on a drive that keeps the \<open>sector_device\<close> contract: the first slot
  with the name, and the bytes of the clusters of its chain, cut to the size of the file.
\<close>

unbundle bit_operations_syntax

section \<open>Lookup\<close>

text \<open>Where the search for a name ends: at the end mark, or at an entry that is not deleted, no volume
  label and no long name, and has the name.\<close>

definition stop_find :: "cstr \<Rightarrow> FAT16_DirectoryEntry \<Rightarrow> bool" where
  "stop_find f e \<longleftrightarrow> de_name e ! 0 = 0 \<or>
     (de_name e ! 0 \<noteq> 0xE5 \<and> de_attributes e AND FAT16_ATTR_VOLUME_ID = 0
      \<and> de_attributes e AND 0x0F \<noteq> 0x0F \<and> fat16_match_name f e)"

definition lookup :: "cstr \<Rightarrow> image \<Rightarrow> nat list \<Rightarrow> (nat \<times> nat) option" where
  "lookup f m secs = (case find (\<lambda>q. stop_find f (slot_entry m q)) (slots secs) of
     None \<Rightarrow> None
   | Some q \<Rightarrow> if de_name (slot_entry m q) ! 0 = 0 then None else Some q)"

definition found_at :: "image \<Rightarrow> nat \<times> nat \<Rightarrow> FAT16_DirectoryEntry \<times> u32 \<times> nat" where
  "found_at m q = (slot_entry m q, lba_of (fst q), snd q)"

lemma find_slot_exact:
  "find_slot f b is = (case find (\<lambda>i. stop_find f (entry_at b i)) is of
     None \<Rightarrow> Continue ()
   | Some i \<Rightarrow> Return (if de_name (entry_at b i) ! 0 = 0 then None else Some (entry_at b i, i)))"
  by (induction "is") (auto simp: Let_def stop_find_def)

context sector_device
begin

lemma find_body_searches:
  assumes vol: "fs_vol cap n ds s" and dir: "dir_secs (fat_entry img s) n ds (bpb s) dir cs secs"
  shows "searches (\<lambda>q. stop_find f (slot_entry (img (f_dev s)) q)) secs s
     (\<lambda>x i r t. r = (if de_name (slot_entry (img (f_dev s)) (x, i)) ! 0 = 0 then None
                     else Some (found_at (img (f_dev s)) (x, i))) \<and> quiet s t)
     (find_body io f)"
proof -
  let ?m = "img (f_dev s)"
  have step: "\<exists>t'. find_body io f (lba_of y) () t = Some (case find (\<lambda>j. stop_find f (slot_entry ?m (y, j))) SLOTS of
        None \<Rightarrow> Continue ()
      | Some i \<Rightarrow> Return (if de_name (slot_entry ?m (y, i)) ! 0 = 0 then None else Some (found_at ?m (y, i))), t') \<and> quiet s t'"
    if y: "y \<in> set secs" and q: "quiet s t" for y t
  proof -
    from read_buf_quiet [OF q dir_secs_bound(1) [OF vol dir y]] obtain t' where
      t': "read_buf io (lba_of y) t = (True, t')" "quiet s t'" "sector_buffer t' = sector_at ?m y" .
    then show ?thesis
      by (auto simp: find_body_def find_slot_exact slot_entry_def found_at_def split: option.split)
  qed
  show ?thesis unfolding searches_def using step by fastforce
qed

lemma find_entry_ok:
  assumes vol: "fs_vol cap n ds s" and dir: "dir_secs (fat_entry img s) n ds (bpb s) dir cs secs" and q: "quiet s t"
  shows "\<exists>t'. fat16_find_entry_internal io dir f t =
      Some (map_option (found_at (img (f_dev s))) (lookup f (img (f_dev s)) secs), t') \<and> quiet s t'"
  using over_dir_search [OF vol dir find_body_searches [OF vol dir] q, of f]
proof (cases rule: outcomeE)
  case (1 t')
  then show ?thesis by (simp add: fat16_find_entry_internal_def lookup_def)
next
  case (2 x i r t')
  then show ?thesis by (simp add: fat16_find_entry_internal_def lookup_def)
qed

end

section \<open>Reading\<close>

definition stop_read :: "cstr \<Rightarrow> FAT16_DirectoryEntry \<Rightarrow> bool" where
  "stop_read f e \<longleftrightarrow> de_name e ! 0 = 0 \<or>
     (de_name e ! 0 \<noteq> 0xE5 \<and> de_attributes e AND FAT16_ATTR_DIRECTORY = 0
      \<and> de_attributes e AND 0x0F \<noteq> 0x0F \<and> fat16_match_name f e)"

lemma read_slot_exact:
  "read_slot f b is = (case find (\<lambda>i. stop_read f (entry_at b i)) is of
     None \<Rightarrow> Continue ()
   | Some i \<Rightarrow> Return (if de_name (entry_at b i) ! 0 = 0 then None else Some (entry_at b i)))"
  by (induction "is") (auto simp: Let_def stop_read_def)

text \<open>The contents of a file: its size, and the clusters of its chain.\<close>

definition file_bytes :: "FAT16_BPB \<Rightarrow> nat \<Rightarrow> image \<Rightarrow> u16 list \<Rightarrow> nat \<Rightarrow> u8 list" where
  "file_bytes p ds m cs len = take len (concat (map (\<lambda>c. cluster_data p ds m (unat c)) cs))"

lemma sector_of_cluster:
  assumes "k < unat (sectors_per_cluster p)"
  shows "sector_at m (cl_base p ds c + k) = take 512 (drop (512 * k) (cluster_data p ds m c))"
proof -
  have "512 * k + 512 \<le> 512 * unat (sectors_per_cluster p)" using assms by simp
  then show ?thesis
    by (intro nth_equalityI) (auto simp: cluster_data_def distrib_left add.assoc min_def)
qed

lemma take_take_append: "take mx (take mx xs @ ys) = take mx (xs @ ys)"
  by (cases "mx \<le> length xs") (auto simp: min_def)

lemma take_out_step:
  assumes "length out \<le> mx"
  shows "out @ take (min b (mx - length out)) xs = take mx (out @ take b xs)"
  using assms by (simp add: min_def take_all)

context sector_device
begin

lemma read_sectors_ok:
  assumes vol: "fs_vol cap n ds s" and c: "is_data n c" and q: "quiet s t" and k: "k \<le> unat (sectors_per_cluster (bpb s))"
    and out: "length out \<le> mx"
  shows "\<exists>t'. read_sectors io ds (ucast c) mx [k..<unat (sectors_per_cluster (bpb s))] len out t =
      (len - 512 * (unat (sectors_per_cluster (bpb s)) - k),
       take mx (out @ take len (drop (512 * k) (cluster_data (bpb s) ds (img (f_dev s)) (unat c)))), t') \<and> quiet s t'"
  using q k out
proof (induction "unat (sectors_per_cluster (bpb s)) - k" arbitrary: k len out t)
  case 0
  then show ?case by simp
next
  case (Suc d)
  let ?z = "unat (sectors_per_cluster (bpb s))" and ?D = "cluster_data (bpb s) ds (img (f_dev s)) (unat c)"
  have k: "k < ?z" and c2: "2 \<le> unat c" "unat c \<le> n + 1" using Suc c by (auto simp: is_data_def)
  have up: "[k..<?z] = k # [Suc k..<?z]" using k by (simp add: upt_conv_Cons)
  show ?case
  proof (cases "len = 0")
    case True
    then show ?thesis using Suc.prems by (simp add: up)
  next
    case False
    let ?b = "if len > 512 then 512 else len"
    have lba: "dir_sector (bpb t) ds (ucast c) k = lba_of (cl_base (bpb s) ds (unat c) + k)"
      using lba_dir_sector [OF c2(1), of "bpb s" ds k] unfolding ucast_u16_u32 quietD(2) [OF Suc.prems(1)] .
    from read_buf_quiet [OF Suc.prems(1) cl_base_bound [OF vol c2 k]] obtain t1 where
      t1: "read_buf io (lba_of (cl_base (bpb s) ds (unat c) + k)) t = (True, t1)" "quiet s t1"
        "sector_buffer t1 = take 512 (drop (512 * k) ?D)" unfolding sector_of_cluster [OF k] .
    have out1: "out @ take (min ?b (mx - length out)) (sector_buffer t1) = take mx (out @ take ?b (drop (512 * k) ?D))"
      unfolding take_out_step [OF Suc.prems(3)] t1(3) by (simp add: min_def)
    have "\<exists>t'. read_sectors io ds (ucast c) mx [Suc k..<?z] (len - ?b) (take mx (out @ take ?b (drop (512 * k) ?D))) t1 =
      (len - ?b - 512 * (?z - Suc k),
       take mx (take mx (out @ take ?b (drop (512 * k) ?D)) @ take (len - ?b) (drop (512 * Suc k) ?D)), t') \<and> quiet s t'"
      using Suc k t1(2) by (intro Suc.hyps(1)) auto
    then obtain t' where
      t': "read_sectors io ds (ucast c) mx [Suc k..<?z] (len - ?b) (take mx (out @ take ?b (drop (512 * k) ?D))) t1 =
      (len - ?b - 512 * (?z - Suc k),
       take mx (take mx (out @ take ?b (drop (512 * k) ?D)) @ take (len - ?b) (drop (512 * Suc k) ?D)), t')" "quiet s t'"
      by blast
    have dat: "take ?b (drop (512 * k) ?D) @ take (len - ?b) (drop (512 * Suc k) ?D) = take len (drop (512 * k) ?D)"
    proof (cases "len > 512")
      case True
      have "take len (drop (512 * k) ?D) = take 512 (drop (512 * k) ?D) @ take (len - 512) (drop 512 (drop (512 * k) ?D))"
        using take_add [of 512 "len - 512" "drop (512 * k) ?D"] True by simp
      then show ?thesis using True by (simp add: add.commute)
    qed simp
    have len: "len - ?b - 512 * (?z - Suc k) = len - 512 * (?z - k)" using k by auto
    have step: "read_sectors io ds (ucast c) mx [k..<?z] len out t =
        read_sectors io ds (ucast c) mx [Suc k..<?z] (len - ?b) (take mx (out @ take ?b (drop (512 * k) ?D))) t1"
      unfolding up read_sectors.simps Let_def if_not_P [OF False] lba t1(1) snd_conv out1 ..
    have res: "take mx (take mx (out @ take ?b (drop (512 * k) ?D)) @ take (len - ?b) (drop (512 * Suc k) ?D)) =
        take mx (out @ take len (drop (512 * k) ?D))"
      unfolding take_take_append append_assoc dat ..
    show ?thesis using t' unfolding step res len by blast
  qed
qed

lemma read_clusters_ok:
  assumes vol: "fs_vol cap n ds s" and chain: "linked (fat_entry img s) n c cs"
    and q: "quiet s t" and out: "length out \<le> mx"
  shows "\<exists>t'. read_clusters io ds mx (ucast c) len out t =
      Some (take mx (out @ file_bytes (bpb s) ds (img (f_dev s)) cs len), t') \<and> quiet s t'"
  using chain q out
proof (induction cs arbitrary: c len out t)
  case Nil
  have "fat_is_data_cluster (bpb t) (ucast c) = Some False"
    using Nil(1) data_cluster_quiet [OF vol Nil(2), of c] by simp
  then have "read_clusters io ds mx (ucast c) len out t = Some (out, t)"
    by (subst read_clusters.simps) simp
  then show ?case using Nil by (auto simp: file_bytes_def)
next
  case (Cons x cs)
  let ?z = "unat (sectors_per_cluster (bpb s))" and ?D = "cluster_data (bpb s) ds (img (f_dev s)) (unat c)"
  let ?nx = "fat_entry img s (unat c)" and ?F = "file_bytes (bpb s) ds (img (f_dev s))"
  have x: "x = c" and d: "is_data n c" and rest: "linked (fat_entry img s) n ?nx cs" using Cons.prems(1) by auto
  have ok: "fat_is_data_cluster (bpb t) (ucast c) = Some True"
    using d data_cluster_quiet [OF vol Cons.prems(2), of c] by simp
  show ?case
  proof (cases "length out < mx \<and> len > 0")
    case False
    then have "read_clusters io ds mx (ucast c) len out t = Some (out, t)"
      by (subst read_clusters.simps) (auto simp: ok)
    moreover have "take mx (out @ ?F (x # cs) len) = out" using False Cons.prems(3) by (auto simp: file_bytes_def)
    ultimately show ?thesis using Cons.prems(2) by auto
  next
    case True
    from read_sectors_ok [OF vol d Cons.prems(2) _ Cons.prems(3), of 0 len] obtain t1 where
      t1: "read_sectors io ds (ucast c) mx [0..<?z] len out t = (len - 512 * ?z, take mx (out @ take len ?D), t1)" "quiet s t1"
      by auto
    from next_cluster_quiet [OF vol t1(2) d] obtain t2 where
      t2: "fat16_get_next_cluster io c t1 = (?nx, t2)" "quiet s t2" .
    have step: "read_clusters io ds mx (ucast c) len out t =
        read_clusters io ds mx (ucast ?nx) (len - 512 * ?z) (take mx (out @ take len ?D)) t2"
      by (subst read_clusters.simps)
        (simp only: ok [unfolded quietD(2) [OF Cons.prems(2)]] Option.bind.simps True simp_thms if_True quietD(2) [OF Cons.prems(2)] t1(1) prod.case ucast_ucast_u16 t2(1))
    have "length (take mx (out @ take len ?D)) \<le> mx" by simp
    from Cons.IH [OF rest t2(2) this, of "len - 512 * ?z"] obtain t' where
      t': "read_clusters io ds mx (ucast ?nx) (len - 512 * ?z) (take mx (out @ take len ?D)) t2 =
        Some (take mx (take mx (out @ take len ?D) @ ?F cs (len - 512 * ?z)), t')" "quiet s t'" by blast
    have "take len ?D @ ?F cs (len - 512 * ?z) = ?F (x # cs) len" by (simp add: file_bytes_def x)
    then have "take mx (take mx (out @ take len ?D) @ ?F cs (len - 512 * ?z)) = take mx (out @ ?F (x # cs) len)"
      unfolding take_take_append append_assoc by simp
    with t' show ?thesis unfolding step by auto
  qed
qed

text \<open>Reading a file: the entry the search stops at, and the bytes of its chain.\<close>

lemma read_file_ok:
  assumes vol: "fs_vol cap n ds s" and dir: "dir_secs (fat_entry img s) n ds (bpb s) dir cs secs" and q: "quiet s t"
    and hit: "find (\<lambda>q. stop_read f (slot_entry (img (f_dev s)) q)) (slots secs) = Some h"
    and live: "de_name (slot_entry (img (f_dev s)) h) ! 0 \<noteq> 0"
    and chain: "linked (fat_entry img s) n (de_cluster_low (slot_entry (img (f_dev s)) h)) fcs"
    and max: "0 \<le> max_size" "max_size < 2 ^ 32"
  shows "\<exists>t'. fat16_read_file_from_dir io dir f max_size t =
      Some (take (nat max_size) (file_bytes (bpb s) ds (img (f_dev s)) fcs
        (unat (de_file_size (slot_entry (img (f_dev s)) h)))), t') \<and> quiet s t'"
proof -
  let ?m = "img (f_dev s)" and ?mx = "nat max_size"
  let ?P = "\<lambda>q. stop_read f (slot_entry ?m q)"
  let ?out = "take ?mx (file_bytes (bpb s) ds ?m fcs (unat (de_file_size (slot_entry ?m h))))"
  have mx: "unat (of_int max_size :: u32) = ?mx"
    using max by (simp add: unat_eq_nat_uint take_bit_int_eq_self uint_word_of_int_eq)
  have body: "searches ?P secs s (\<lambda>x i r t. r = ?out \<and> quiet s t) (read_body io f ?mx)"
    unfolding searches_def
  proof (intro conjI allI impI)
    fix y t assume y: "y \<in> set secs" "find (\<lambda>j. ?P (y, j)) SLOTS = None" "quiet s t"
    from read_buf_quiet [OF y(3) dir_secs_bound(1) [OF vol dir y(1)]] obtain t' where
      "read_buf io (lba_of y) t = (True, t')" "quiet s t'" "sector_buffer t' = sector_at ?m y" .
    then show "\<exists>t'. read_body io f ?mx (lba_of y) () t = Some (Continue (), t') \<and> quiet s t'"
      using y(2) by (simp add: read_body_def read_slot_exact slot_entry_def)
  next
    fix x i t assume x: "find ?P (slots secs) = Some (x, i)" "x \<in> set secs" "find (\<lambda>j. ?P (x, j)) SLOTS = Some i" "quiet s t"
    have h: "h = (x, i)" using hit x(1) by simp
    from read_buf_quiet [OF x(4) dir_secs_bound(1) [OF vol dir x(2)]] obtain t1 where
      t1: "read_buf io (lba_of x) t = (True, t1)" "quiet s t1" "sector_buffer t1 = sector_at ?m x" .
    have ds: "get_data_start (bpb t1) = Some ds" using fs_volD(2) [OF vol] quietD(2) [OF t1(2)] by simp
    from read_clusters_ok [OF vol chain t1(2), of "[]" ?mx "unat (de_file_size (slot_entry ?m h))"] obtain t2 where
      "read_clusters io ds ?mx (ucast (de_cluster_low (slot_entry ?m h))) (unat (de_file_size (slot_entry ?m h))) [] t1 =
        Some (?out, t2)" "quiet s t2" by auto
    then show "\<exists>r t'. read_body io f ?mx (lba_of x) () t = Some (Return r, t') \<and> r = ?out \<and> quiet s t'"
      using x(3) live t1(1) ds by (simp add: read_body_def read_slot_exact t1(3) slot_entry_def h)
  qed
  from over_dir_search [OF vol dir body q] show ?thesis
  proof (cases rule: outcomeE)
    case (1 t')
    then show ?thesis using hit by simp
  next
    case (2 x i r t')
    then show ?thesis by (simp add: fat16_read_file_from_dir_def mx)
  qed
qed

end

end
