(* ===== verification/Fat_Store.thy ===== *)
theory Fat_Store
  imports Fat_Lookup
begin

text \<open>
  Writing the clusters of a file: they are the first free clusters of the table in ascending order,
  linked into a chain, and their bytes are the data followed by zeros. Nothing else changes.
\<close>

unbundle bit_operations_syntax

section \<open>Free clusters and links\<close>

definition free_list :: "(nat \<Rightarrow> u16) \<Rightarrow> nat \<Rightarrow> nat list" where
  "free_list F n = filter (\<lambda>c. F c = 0) [2..<n + 2]"

lemma first_free_list: "first_free F 2 n = (case free_list F n of [] \<Rightarrow> None | c # _ \<Rightarrow> Some c)"
proof -
  have "find P xs = (case filter P xs of [] \<Rightarrow> None | x # _ \<Rightarrow> Some x)" for P and xs :: "nat list"
    by (induction xs) auto
  then show ?thesis by (simp add: first_free_def free_list_def)
qed

lemma set_free_list: "c \<in> set (free_list F n) \<longleftrightarrow> 2 \<le> c \<and> c \<le> n + 1 \<and> F c = 0"
  by (auto simp: free_list_def)

lemma distinct_free_list: "distinct (free_list F n)"
  by (simp add: free_list_def)

lemma free_list_cong: "(\<And>c. 2 \<le> c \<Longrightarrow> c \<le> n + 1 \<Longrightarrow> (F c = 0) = (G c = 0)) \<Longrightarrow> free_list F n = free_list G n"
  by (auto simp: free_list_def intro!: filter_cong)

lemma free_list_take:
  assumes "free_list F n = c # cs" "\<And>d. 2 \<le> d \<Longrightarrow> d \<le> n + 1 \<Longrightarrow> (G d = 0) = (F d = 0 \<and> d \<noteq> c)"
  shows "free_list G n = cs"
proof -
  have "c \<notin> set cs" using distinct_free_list [of F n] assms(1) by simp
  have "free_list G n = filter (\<lambda>d. d \<noteq> c) (free_list F n)"
    unfolding free_list_def filter_filter by (rule filter_cong) (use assms(2) in auto)
  also have "\<dots> = cs" using \<open>c \<notin> set cs\<close> by (auto simp: assms(1) intro!: filter_True)
  finally show ?thesis .
qed

text \<open>The table after the clusters \<open>cs\<close> have been appended to the cluster \<open>prev\<close> (0 for none).\<close>

fun link_fat :: "u16 \<Rightarrow> nat \<Rightarrow> nat list \<Rightarrow> (nat \<Rightarrow> u16) \<Rightarrow> (nat \<Rightarrow> u16)" where
  "link_fat eoc prev [] F = F"
| "link_fat eoc prev (c # cs) F = link_fat eoc c cs ((if 2 \<le> prev then F(prev := of_nat c) else F)(c := eoc))"

lemma link_fat_other: "d \<noteq> prev \<Longrightarrow> d \<notin> set cs \<Longrightarrow> link_fat eoc prev cs F d = F d"
  by (induction cs arbitrary: prev F) auto

lemma link_fat_prev: "prev \<notin> set cs \<Longrightarrow> 2 \<le> prev \<Longrightarrow> link_fat eoc prev cs F prev = (if cs = [] then F prev else of_nat (hd cs))"
  by (cases cs) (auto simp: link_fat_other)

lemma link_fat_cong: "F d = G d \<Longrightarrow> link_fat eoc prev cs F d = link_fat eoc prev cs G d"
proof (induction cs arbitrary: prev F G)
  case (Cons c cs)
  show ?case unfolding link_fat.simps by (rule Cons.IH) (use Cons.prems in auto)
qed simp

lemma link_fat_nonzero:
  assumes "eoc \<noteq> 0" "\<And>c. c \<in> set cs \<Longrightarrow> 2 \<le> c \<and> c \<le> n + 1" "n < 65525" "F d \<noteq> 0 \<or> d \<in> set cs"
  shows "link_fat eoc prev cs F d \<noteq> 0"
  using assms(2,4)
proof (induction cs arbitrary: prev F)
  case (Cons c cs)
  have "(of_nat c :: u16) \<noteq> 0"
    using Cons.prems(1) [of c] assms(3) by (simp add: word_unat_eq_iff unat_u16)
  with Cons assms(1) show ?case by auto
qed simp

lemma link_fat_linked:
  assumes "distinct (c # cs)" "\<And>d. d \<in> set (c # cs) \<Longrightarrow> 2 \<le> d \<and> d \<le> n + 1" "n < 65525" "\<not> is_data n eoc" "prev \<notin> set (c # cs)"
  shows "linked (link_fat eoc prev (c # cs) F) n (of_nat c) (map of_nat (c # cs))"
  using assms(1,2,5)
proof (induction cs arbitrary: c prev F)
  case Nil
  then have "unat (of_nat c :: u16) = c" using assms(3) by (simp add: unat_u16)
  with Nil assms(4) show ?case by (auto simp: is_data_def)
next
  case (Cons d cs)
  let ?F = "(if 2 \<le> prev then F(prev := of_nat c) else F)(c := eoc)"
  have u: "unat (of_nat c :: u16) = c" using Cons.prems(2) [of c] assms(3) by (simp add: unat_u16)
  have "link_fat eoc prev (c # d # cs) F c = of_nat d"
    using Cons.prems link_fat_prev [of c "d # cs" eoc ?F] by auto
  moreover have "linked (link_fat eoc c (d # cs) ?F) n (of_nat d) (map of_nat (d # cs))"
    using Cons.prems by (intro Cons.IH) auto
  ultimately show ?case using u Cons.prems(2) [of c] by (simp add: is_data_def)
qed

section \<open>Tables and images\<close>

text \<open>The table is the part of the image below the root directory.\<close>

lemma fat_entry_image:
  assumes vol: "fat_vol cap n s" and fr: "fat_frame s t" and c: "2 \<le> c" "c \<le> n + 1"
    and eq: "\<And>a. a < 512 * get_root_dir_start (bpb s) \<Longrightarrow> view (f_dev t) a = view (f_dev s) a"
  shows "fat_entry view t c = fat_entry view s c"
proof -
  let ?a = "fat_addr (current_fat_type s) (bpb s) 0 (of_nat c)"
  have cov: "fat_covers (current_fat_type s) (bpb s) (of_nat c)" using fat_vol_covers [OF vol c] .
  define spf where "spf = unat (sectors_per_fat (bpb s))"
  define area where "area = unat (fat_count (bpb s)) * spf"
  have "0 < unat (fat_count (bpb s))" using vol by (simp add: fat_vol_def fat_fits_def)
  then have "spf \<le> area" by (simp add: area_def)
  moreover have "?a + 1 < 512 * unat (reserved_sectors (bpb s)) + 512 * spf"
    using fat_addr_copy_bounds(2) [OF cov, of 0] by (simp add: spf_def)
  moreover have "get_root_dir_start (bpb s) = unat (reserved_sectors (bpb s)) + area"
    by (simp add: get_root_dir_start_def area_def spf_def)
  ultimately have "?a + 1 < 512 * get_root_dir_start (bpb s)" by linarith
  then have "pair_at (view (f_dev t)) ?a = pair_at (view (f_dev s)) ?a" using eq by (simp add: pair_at_def)
  then show ?thesis using fr by (auto simp: fat_get_def fat_frame_def)
qed

definition in_cluster :: "FAT16_BPB \<Rightarrow> nat \<Rightarrow> nat \<Rightarrow> nat \<Rightarrow> bool" where
  "in_cluster p ds c a \<longleftrightarrow> 512 * cl_base p ds c \<le> a \<and> a < 512 * (cl_base p ds c + unat (sectors_per_cluster p))"

lemma in_cluster_disjoint:
  assumes "2 \<le> c" "2 \<le> d" "c \<noteq> d" "in_cluster p ds c a"
  shows "\<not> in_cluster p ds d a"
proof
  assume d: "in_cluster p ds d a"
  have *: "a div 512 = cl_base p ds e + (a div 512 - cl_base p ds e)
      \<and> a div 512 - cl_base p ds e < unat (sectors_per_cluster p)" if "in_cluster p ds e a" for e
  proof -
    have "cl_base p ds e \<le> a div 512" "a div 512 < cl_base p ds e + unat (sectors_per_cluster p)"
      using that by (simp_all add: in_cluster_def div_less_iff_less_mult less_eq_div_iff_mult_less_eq mult.commute)
    then show ?thesis by simp
  qed
  show False using cl_base_disjoint [OF assms(1-3), of _ p _ ds] * [OF assms(4)] * [OF d] by metis
qed

lemma in_cluster_above: "in_cluster p ds c a \<Longrightarrow> 512 * ds \<le> a"
  by (simp add: in_cluster_def cl_base_def)

lemma cluster_data_cong: "(\<And>a. in_cluster p ds c a \<Longrightarrow> m a = m' a) \<Longrightarrow> cluster_data p ds m c = cluster_data p ds m' c"
  by (auto simp: cluster_data_def in_cluster_def)

text \<open>The effect of a step on the table, with everything outside the table unchanged.\<close>

definition outside_table :: "FAT16_BPB \<Rightarrow> nat \<Rightarrow> bool" where
  "outside_table p a \<longleftrightarrow> a < 512 * unat (reserved_sectors p) \<or> 512 * get_root_dir_start p \<le> a"

lemma eoc_props:
  assumes "fs_vol cap n ds s"
  shows "\<not> is_data n (fat_end_of_chain_value s)" "fat_end_of_chain_value s \<noteq> 0"
    "fat_mask (current_fat_type s) (fat_end_of_chain_value s) = fat_end_of_chain_value s"
  using assms by (auto simp: fs_vol_def fat_vol_def is_data_def fat_end_of_chain_value_def fat_mask_def)

lemma fat_mask_cluster:
  assumes "fs_vol cap n ds s" "c \<le> n + 1"
  shows "fat_mask (current_fat_type s) (of_nat c) = of_nat c"
proof (cases "current_fat_type s = FAT_TYPE_12")
  case True
  then have "c < 2 ^ 12" using assms by (simp add: fs_vol_def)
  then have "take_bit 12 (of_nat c :: u16) = of_nat c" by (simp add: take_bit_of_nat take_bit_nat_eq_self)
  then show ?thesis using True by (simp add: fat_mask_def masks12(1) flip: take_bit_eq_mask)
next
  case False
  then show ?thesis by (simp add: fat_mask_def)
qed

context sector_device
begin

definition table_step :: "nat \<Rightarrow> 'd fat_state \<Rightarrow> (nat \<Rightarrow> u16) \<Rightarrow> 'd fat_state \<Rightarrow> bool" where
  "table_step n s F t \<longleftrightarrow> fat_ready dev_ok letter t \<and> fat_frame s t
     \<and> (\<forall>d. 2 \<le> d \<and> d \<le> n + 1 \<longrightarrow> fat_entry img t d = F d)
     \<and> (\<forall>a. outside_table (bpb s) a \<longrightarrow> img (f_dev t) a = img (f_dev s) a)"

lemma table_stepD: "table_step n s F t \<Longrightarrow> fat_ready dev_ok letter t" "table_step n s F t \<Longrightarrow> fat_frame s t"
  "table_step n s F t \<Longrightarrow> 2 \<le> d \<Longrightarrow> d \<le> n + 1 \<Longrightarrow> fat_entry img t d = F d"
  "table_step n s F t \<Longrightarrow> outside_table (bpb s) a \<Longrightarrow> img (f_dev t) a = img (f_dev s) a"
  by (simp_all add: table_step_def)

lemma alloc_step:
  assumes vol: "fs_vol cap n ds s" and ready: "fat_ready dev_ok letter s"
    and free: "free_list (fat_entry img s) n = c # cs"
  shows "\<exists>t. fat16_alloc_cluster_internal io s = Some (Some (of_nat c), t)
    \<and> table_step n s ((fat_entry img s)(c := fat_end_of_chain_value s)) t"
proof -
  note v = fs_volD(1) [OF vol]
  have c: "2 \<le> c" "c \<le> n + 1" using set_free_list [of c "fat_entry img s" n] free by auto
  have ff: "first_free (fat_entry img s) 2 n = Some c" by (simp add: first_free_list free)
  from alloc_cluster_ok [OF ready v] obtain t where
    t: "fat16_alloc_cluster_internal io s = Some (Some (of_nat c), t)" "fat_ready dev_ok letter t" "fat_frame s t"
      "img (f_dev t) = fat_put_all (current_fat_type s) (bpb s) (of_nat c) (fat_end_of_chain_value s) (img (f_dev s))"
    unfolding ff by auto
  show ?thesis
    using t fat_entry_put_all [where view = img, OF v c _ _ t(3,4)] eoc_props(3) [OF vol]
      fat_put_all_frame [OF fat_vol_covers [OF v c]]
    by (auto simp: table_step_def outside_table_def)
qed

lemma write_entry_step:
  assumes vol: "fs_vol cap n ds s" and ready: "fat_ready dev_ok letter s"
    and c: "2 \<le> c" "c \<le> n + 1" and v: "fat_mask (current_fat_type s) v = v"
  shows "\<exists>t. fat16_write_fat_entry io (of_nat c) v s = (True, t) \<and> table_step n s ((fat_entry img s)(c := v)) t"
proof -
  note vl = fs_volD(1) [OF vol]
  from write_fat_entry_ok [OF ready fs_volD(3) [OF vol] fat_vol_covers [OF vl c]] obtain t where
    t: "fat16_write_fat_entry io (of_nat c) v s = (True, t)" "fat_ready dev_ok letter t" "fat_frame s t"
      "img (f_dev t) = fat_put_all (current_fat_type s) (bpb s) (of_nat c) v (img (f_dev s))" by blast
  show ?thesis
    using t fat_entry_put_all [where view = img, OF vl c _ _ t(3,4)] v fat_put_all_frame [OF fat_vol_covers [OF vl c]]
    by (auto simp: table_step_def outside_table_def)
qed

lemma table_step_trans:
  assumes "table_step n s F t" "table_step n t G u"
  shows "table_step n s G u"
  using assms fat_frame_trans [of s t u] by (auto simp: table_step_def fat_frame_def)

text \<open>The sectors of a cluster from \<open>k\<close> on.\<close>

lemma write_buf_step:
  assumes "fat_ready dev_ok letter s" "x < cap" "length b = 512"
  obtains t where "write_buf io (lba_of x) (s\<lparr>sector_buffer := b\<rparr>) = (True, t)" "fat_ready dev_ok letter t"
    "fat_frame s t" "img (f_dev t) = put_sector (img (f_dev s)) x b"
proof -
  have r: "fat_ready dev_ok letter (s\<lparr>sector_buffer := b\<rparr>)" using assms(1) by (simp add: fat_ready_def)
  from disk_write_sectorE [OF r assms(2,3)] obtain d where
    "disk_write_sector io (lba_of x) b (s\<lparr>sector_buffer := b\<rparr>) = (True, s\<lparr>sector_buffer := b, f_dev := d\<rparr>)"
    "dev_ok d" "img d = put_sector (img (f_dev s)) x b" by auto
  then show thesis using assms(1) that by (simp add: write_buf_def fat_ready_def fat_frame_def)
qed

lemma write_sectors_ok:
  assumes vol: "fs_vol cap n ds s" and c: "is_data n c" and ready: "fat_ready dev_ok letter t" and fr: "fat_frame s t"
    and k: "k \<le> unat (sectors_per_cluster (bpb s))"
  shows "\<exists>u. write_sectors io buffer (cluster_sector (bpb s) ds c) [k..<unat (sectors_per_cluster (bpb s))] remaining offset t =
      ((True, remaining - 512 * (unat (sectors_per_cluster (bpb s)) - k),
        offset + min remaining (512 * (unat (sectors_per_cluster (bpb s)) - k))), u)
    \<and> fat_ready dev_ok letter u \<and> fat_frame s u
    \<and> (\<forall>a. img (f_dev u) a =
         (if 512 * (cl_base (bpb s) ds (unat c) + k) \<le> a
             \<and> a < 512 * (cl_base (bpb s) ds (unat c) + unat (sectors_per_cluster (bpb s)))
          then (let i = a - 512 * (cl_base (bpb s) ds (unat c) + k) in if i < remaining then buffer ! (offset + i) else 0)
          else img (f_dev t) a))"
  using ready fr k
proof (induction "unat (sectors_per_cluster (bpb s)) - k" arbitrary: k remaining offset t)
  case 0
  then show ?case by auto
next
  case (Suc d)
  let ?z = "unat (sectors_per_cluster (bpb s))" and ?B = "cl_base (bpb s) ds (unat c)"
  have k: "k < ?z" and c2: "2 \<le> unat c" "unat c \<le> n + 1" using Suc c by (auto simp: is_data_def)
  have up: "[k..<?z] = k # [Suc k..<?z]" using k by (simp add: upt_conv_Cons)
  define ch where "ch = (if remaining > SECTOR_SIZE then SECTOR_SIZE else remaining)"
  define b where "b = map (\<lambda>i. if i < ch then buffer ! (offset + i) else 0) [0..<SECTOR_SIZE]"
  have lb: "length b = 512" by (simp add: b_def SECTOR_SIZE_def)
  have chm: "ch = min remaining 512" by (simp add: ch_def SECTOR_SIZE_def)
  from write_buf_step [OF Suc.prems(1) cl_base_bound [OF vol c2 k] lb] obtain t1 where
    t1: "write_buf io (lba_of (?B + k)) (t\<lparr>sector_buffer := b\<rparr>) = (True, t1)" "fat_ready dev_ok letter t1"
      "fat_frame t t1" "img (f_dev t1) = put_sector (img (f_dev t)) (?B + k) b" .
  have lba: "of_int (cluster_sector (bpb s) ds c + int k) = lba_of (?B + k)"
    using lba_cluster_sector [OF c2(1)] .
  have step: "write_sectors io buffer (cluster_sector (bpb s) ds c) [k..<?z] remaining offset t =
      write_sectors io buffer (cluster_sector (bpb s) ds c) [Suc k..<?z] (remaining - ch) (offset + ch) t1"
    unfolding up write_sectors.simps Let_def ch_def [symmetric] b_def [symmetric] lba t1(1) by simp
  have d: "d = ?z - Suc k" and k1: "Suc k \<le> ?z" using Suc.hyps(2) k by auto
  from Suc.hyps(1) [OF d t1(2) fat_frame_trans [OF Suc.prems(2) t1(3)] k1, of "remaining - ch" "offset + ch"]
  obtain u where
    u: "write_sectors io buffer (cluster_sector (bpb s) ds c) [Suc k..<?z] (remaining - ch) (offset + ch) t1 =
      ((True, remaining - ch - 512 * (?z - Suc k), offset + ch + min (remaining - ch) (512 * (?z - Suc k))), u)"
      "fat_ready dev_ok letter u" "fat_frame s u"
      and im: "\<And>a. img (f_dev u) a = (if 512 * (?B + Suc k) \<le> a \<and> a < 512 * (?B + ?z)
          then (let i = a - 512 * (?B + Suc k) in if i < remaining - ch then buffer ! (offset + ch + i) else 0)
          else img (f_dev t1) a)" by blast
  have r1: "remaining - ch - 512 * (?z - Suc k) = remaining - 512 * (?z - k)"
    and r2: "offset + ch + min (remaining - ch) (512 * (?z - Suc k)) = offset + min remaining (512 * (?z - k))"
    using k by (auto simp: chm)
  have "img (f_dev u) a = (if 512 * (?B + k) \<le> a \<and> a < 512 * (?B + ?z)
      then (let i = a - 512 * (?B + k) in if i < remaining then buffer ! (offset + i) else 0) else img (f_dev t) a)" for a
  proof -
    consider "512 * (?B + Suc k) \<le> a" "a < 512 * (?B + ?z)" | "512 * (?B + k) \<le> a" "a < 512 * (?B + Suc k)"
      | "a < 512 * (?B + k) \<or> 512 * (?B + ?z) \<le> a" by linarith
    then show ?thesis
    proof cases
      case 1
      define i where "i = a - 512 * (?B + Suc k)"
      have a: "a - 512 * (?B + k) = i + 512" "512 * (?B + k) \<le> a" using 1(1) by (simp_all add: i_def)
      show ?thesis using 1 a by (auto simp: im Let_def i_def [symmetric] chm min_def add.assoc)
    next
      case 2
      define i where "i = a - 512 * (?B + k)"
      have i: "i < 512" "a = 512 * (?B + k) + i" using 2 by (simp_all add: i_def)
      have "(512 * x + i) div 512 = x" "(512 * x + i) mod 512 = i" for x using i(1) by simp_all
      then have "a div 512 = ?B + k" "a mod 512 = i" unfolding i(2) by blast+
      then have "img (f_dev t1) a = (if i < ch then buffer ! (offset + i) else 0)"
        using i(1) by (simp add: t1(4) put_sector_def b_def SECTOR_SIZE_def)
      moreover have inr: "512 * (?B + k) \<le> a \<and> a < 512 * (?B + ?z)" using 2 k by simp
      moreover have nor: "\<not> (512 * (?B + Suc k) \<le> a \<and> a < 512 * (?B + ?z))" using 2 by simp
      ultimately show ?thesis
        unfolding im if_P [OF inr] if_not_P [OF nor] Let_def i_def [symmetric] using i(1) by (simp add: chm)
    next
      case 3
      then have "a div 512 \<noteq> ?B + k" using k by (auto simp: div_nat_eqI)
      moreover have "a < 512 * (?B + Suc k) \<or> 512 * (?B + ?z) \<le> a" using 3 by auto
      ultimately show ?thesis using 3 by (auto simp: im t1(4) put_sector_def)
    qed
  qed
  then show ?case using u unfolding step u(1) r1 r2 by blast
qed

lemma table_step_refl: "fat_ready dev_ok letter s \<Longrightarrow> table_step n s (fat_entry img s) s"
  by (simp add: table_step_def)

lemma table_step_cong:
  "table_step n s F t \<Longrightarrow> (\<And>d. 2 \<le> d \<Longrightarrow> d \<le> n + 1 \<Longrightarrow> F d = G d) \<Longrightarrow> table_step n s G t"
  by (simp add: table_step_def)

lemma alloc_link_step:
  assumes vol: "fs_vol cap n ds s" and ready: "fat_ready dev_ok letter s"
    and free: "free_list (fat_entry img s) n = c # cs"
    and prev: "prev = 0 \<or> is_data n prev \<and> fat_entry img s (unat prev) \<noteq> 0"
  shows "\<exists>s1 t. fat16_alloc_cluster_internal io s = Some (Some (of_nat c), s1)
    \<and> link_cluster io prev (of_nat c) s1 = (True, t) \<and> fat_frame s s1
    \<and> table_step n s (link_fat (fat_end_of_chain_value s) (unat prev) [c] (fat_entry img s)) t"
proof -
  let ?F = "fat_entry img s" and ?eoc = "fat_end_of_chain_value s"
  have c: "2 \<le> c" "c \<le> n + 1" "?F c = 0" using set_free_list [of c ?F n] free by auto
  from alloc_step [OF vol ready free] obtain s1 where
    s1: "fat16_alloc_cluster_internal io s = Some (Some (of_nat c), s1)" "table_step n s (?F(c := ?eoc)) s1" by blast
  note v1 = fs_vol_frame [OF vol table_stepD(2) [OF s1(2)]]
  have e1: "fat_end_of_chain_value s1 = ?eoc" using fat_frame_eoc [OF table_stepD(2) [OF s1(2)]] .
  show ?thesis
  proof (cases "prev = 0")
    case True
    then have "link_cluster io prev (of_nat c) s1 = (True, s1)" by (simp add: link_cluster_def)
    then show ?thesis using s1 True table_stepD(2) [OF s1(2)] by auto
  next
    case False
    then have p: "2 \<le> unat prev" "unat prev \<le> n + 1" "unat prev \<noteq> c"
      using prev c(3) by (auto simp: is_data_def)
    from write_entry_step [OF v1 table_stepD(1) [OF s1(2)] p(1,2) fat_mask_cluster [OF v1 c(2)]] obtain s2 where
      s2: "fat16_write_fat_entry io prev (of_nat c) s1 = (True, s2)"
        "table_step n s1 ((fat_entry img s1)(unat prev := of_nat c)) s2" by auto
    note v2 = fs_vol_frame [OF v1 table_stepD(2) [OF s2(2)]]
    have e2: "fat_end_of_chain_value s2 = ?eoc" using fat_frame_eoc [OF table_stepD(2) [OF s2(2)]] e1 by simp
    from write_entry_step [OF v2 table_stepD(1) [OF s2(2)] c(1,2) eoc_props(3) [OF v2]] obtain t where
      t: "fat16_write_fat_entry io (of_nat c) ?eoc s2 = (True, t)"
        "table_step n s2 ((fat_entry img s2)(c := ?eoc)) t" by (auto simp: e2)
    have "link_cluster io prev (of_nat c) s1 = (True, t)"
      using p(1) s2(1) t(1) by (simp add: link_cluster_def word_le_nat_alt e2)
    moreover have "table_step n s (link_fat ?eoc (unat prev) [c] ?F) t"
    proof (rule table_step_cong [OF table_step_trans [OF table_step_trans [OF s1(2) s2(2)] t(2)]])
      fix d assume d: "2 \<le> d" "d \<le> n + 1"
      show "((fat_entry img s2)(c := ?eoc)) d = link_fat ?eoc (unat prev) [c] ?F d"
        using table_stepD(3) [OF s2(2) d] table_stepD(3) [OF s1(2) d] p by auto
    qed
    ultimately show ?thesis using s1 table_stepD(2) [OF s1(2)] by auto
  qed
qed

end

section \<open>All clusters of a file\<close>

text \<open>\<open>cs\<close> has as many clusters of \<open>z\<close> bytes as \<open>len\<close> bytes need.\<close>

fun holds_bytes :: "nat \<Rightarrow> nat \<Rightarrow> nat list \<Rightarrow> bool" where
  "holds_bytes z len [] \<longleftrightarrow> len = 0"
| "holds_bytes z len (c # cs) \<longleftrightarrow> 0 < len \<and> holds_bytes z (len - z) cs"

lemma holds_bytes_take:
  assumes "0 < z" "len \<le> z * length cs"
  obtains k where "k \<le> length cs" "holds_bytes z len (take k cs)"
proof -
  have "\<exists>k\<le>length cs. holds_bytes z len (take k cs)"
    using assms(2)
  proof (induction cs arbitrary: len)
    case (Cons c cs)
    show ?case
    proof (cases "len = 0")
      case True
      then show ?thesis by (intro exI [of _ 0]) simp
    next
      case False
      from Cons.prems have "len - z \<le> z * length cs" by simp
      from Cons.IH [OF this] obtain k where "k \<le> length cs" "holds_bytes z (len - z) (take k cs)" by blast
      with False show ?thesis by (intro exI [of _ "Suc k"]) simp
    qed
  qed simp
  with that show thesis by blast
qed

definition in_clusters :: "FAT16_BPB \<Rightarrow> nat \<Rightarrow> nat list \<Rightarrow> nat \<Rightarrow> bool" where
  "in_clusters p ds cs a \<longleftrightarrow> (\<exists>c\<in>set cs. in_cluster p ds c a)"

text \<open>The bytes of \<open>cs\<close> begin with \<open>xs\<close>.\<close>

definition clusters_hold :: "FAT16_BPB \<Rightarrow> nat \<Rightarrow> image \<Rightarrow> nat list \<Rightarrow> u8 list \<Rightarrow> bool" where
  "clusters_hold p ds m cs xs \<longleftrightarrow> take (length xs) (concat (map (cluster_data p ds m) cs)) = xs"

context sector_device
begin

definition store_step :: "nat \<Rightarrow> nat \<Rightarrow> 'd fat_state \<Rightarrow> (nat \<Rightarrow> u16) \<Rightarrow> nat list \<Rightarrow> 'd fat_state \<Rightarrow> bool" where
  "store_step n ds s F cs t \<longleftrightarrow> fat_ready dev_ok letter t \<and> fat_frame s t
     \<and> (\<forall>d. 2 \<le> d \<and> d \<le> n + 1 \<longrightarrow> fat_entry img t d = F d)
     \<and> (\<forall>a. outside_table (bpb s) a \<and> \<not> in_clusters (bpb s) ds cs a \<longrightarrow> img (f_dev t) a = img (f_dev s) a)"

lemma store_stepD: "store_step n ds s F cs t \<Longrightarrow> fat_ready dev_ok letter t" "store_step n ds s F cs t \<Longrightarrow> fat_frame s t"
  "store_step n ds s F cs t \<Longrightarrow> 2 \<le> d \<Longrightarrow> d \<le> n + 1 \<Longrightarrow> fat_entry img t d = F d"
  "store_step n ds s F cs t \<Longrightarrow> outside_table (bpb s) a \<Longrightarrow> \<not> in_clusters (bpb s) ds cs a \<Longrightarrow> img (f_dev t) a = img (f_dev s) a"
  by (simp_all add: store_step_def)

lemma in_cluster_outside: "fs_vol cap n ds s \<Longrightarrow> in_cluster (bpb s) ds c a \<Longrightarrow> outside_table (bpb s) a"
proof -
  assume "fs_vol cap n ds s" and a: "in_cluster (bpb s) ds c a"
  then obtain r where "ds = get_root_dir_start (bpb s) + r" by (elim fs_vol_root)
  then show ?thesis using in_cluster_above [OF a] by (simp add: outside_table_def)
qed

text \<open>One round of the loop: a cluster is allocated, linked and filled.\<close>

lemma write_round:
  assumes vol: "fs_vol cap n ds s" and ready: "fat_ready dev_ok letter s"
    and free: "free_list (fat_entry img s) n = c # cs"
    and prev: "prev = 0 \<or> is_data n prev \<and> fat_entry img s (unat prev) \<noteq> 0"
    and rem: "0 < remaining" "remaining = length buffer - offset" "offset \<le> length buffer"
  shows "\<exists>t. write_clusters io buffer (Suc steps) new_first prev remaining offset s =
        write_clusters io buffer steps (if new_first = 0 then of_nat c else new_first) (of_nat c)
          (remaining - 512 * unat (sectors_per_cluster (bpb s)))
          (offset + min remaining (512 * unat (sectors_per_cluster (bpb s)))) t
    \<and> store_step n ds s (link_fat (fat_end_of_chain_value s) (unat prev) [c] (fat_entry img s)) [c] t
    \<and> (\<forall>i<512 * unat (sectors_per_cluster (bpb s)).
         cluster_data (bpb s) ds (img (f_dev t)) c ! i = (if i < remaining then buffer ! (offset + i) else 0))"
proof -
  let ?z = "unat (sectors_per_cluster (bpb s))" and ?B = "cl_base (bpb s) ds c"
  let ?F = "link_fat (fat_end_of_chain_value s) (unat prev) [c] (fat_entry img s)"
  have n: "n < 65525" using fs_volD(1) [OF vol] by (simp add: fat_vol_def)
  have c: "2 \<le> c" "c \<le> n + 1" using set_free_list [of c "fat_entry img s" n] free by auto
  then have u: "unat (of_nat c :: u16) = c" using n by (simp add: unat_u16)
  then have dc: "is_data n (of_nat c)" using c by (simp add: is_data_def)
  from alloc_link_step [OF vol ready free prev] obtain s1 s2 where
    s1: "fat16_alloc_cluster_internal io s = Some (Some (of_nat c), s1)"
      and s2: "link_cluster io prev (of_nat c) s1 = (True, s2)" "table_step n s ?F s2" by blast
  note fr2 = table_stepD(2) [OF s2(2)]
  have b2: "bpb s2 = bpb s" using fr2 by (simp add: fat_frame_def)
  from write_sectors_ok [OF vol dc table_stepD(1) [OF s2(2)] fr2, of 0 buffer remaining offset] obtain t where
    t: "write_sectors io buffer (cluster_sector (bpb s) ds (of_nat c)) [0..<?z] remaining offset s2 =
      ((True, remaining - 512 * ?z, offset + min remaining (512 * ?z)), t)"
      "fat_ready dev_ok letter t" "fat_frame s t"
      and im: "\<And>a. img (f_dev t) a = (if 512 * ?B \<le> a \<and> a < 512 * (?B + ?z)
          then (let i = a - 512 * ?B in if i < remaining then buffer ! (offset + i) else 0) else img (f_dev s2) a)"
    unfolding u by auto
  have step: "write_clusters io buffer (Suc steps) new_first prev remaining offset s =
        write_clusters io buffer steps (if new_first = 0 then of_nat c else new_first) (of_nat c)
          (remaining - 512 * ?z) (offset + min remaining (512 * ?z)) t"
    using rem(1) s1 s2(1) t(1) fs_volD(2) [OF vol]
    by (subst write_clusters.simps) (simp add: b2 Let_def)
  obtain r where r: "ds = get_root_dir_start (bpb s) + r" using fs_vol_root [OF vol] .
  have tab: "fat_entry img t d = ?F d" if d: "2 \<le> d" "d \<le> n + 1" for d
  proof -
    have low: "img (f_dev t) a = img (f_dev s2) a" if "a < 512 * get_root_dir_start (bpb s)" for a
      using that r by (simp add: im cl_base_def)
    have fr: "fat_frame s2 t" using fr2 t(3) by (simp add: fat_frame_def)
    from fat_entry_image [where view = img, OF fs_volD(1) [OF fs_vol_frame [OF vol fr2]] fr d] low
    have "fat_entry img t d = fat_entry img s2 d" by (simp add: b2)
    then show ?thesis using table_stepD(3) [OF s2(2) d] by simp
  qed
  have "store_step n ds s ?F [c] t"
    using t(2,3) tab table_stepD(4) [OF s2(2)] by (auto simp: store_step_def im in_clusters_def in_cluster_def)
  moreover have "cluster_data (bpb s) ds (img (f_dev t)) c ! i = (if i < remaining then buffer ! (offset + i) else 0)"
    if "i < 512 * ?z" for i
    using that by (simp add: cluster_data_def im distrib_left)
  ultimately show ?thesis using step by blast
qed

lemma store_step_chain:
  assumes s: "store_step n ds s F xs t" and u: "store_step n ds t G ys u"
  shows "store_step n ds s G (xs @ ys) u"
proof -
  have "bpb t = bpb s" using store_stepD(2) [OF s] by (simp add: fat_frame_def)
  then show ?thesis
    using s u fat_frame_trans [of s t u] by (auto simp: store_step_def in_clusters_def)
qed

lemma store_step_cong:
  "store_step n ds s F cs t \<Longrightarrow> (\<And>d. 2 \<le> d \<Longrightarrow> d \<le> n + 1 \<Longrightarrow> F d = G d) \<Longrightarrow> store_step n ds s G cs t"
  by (simp add: store_step_def)

lemma clusters_hold_Cons:
  assumes D: "length D = w" "\<And>i. i < w \<Longrightarrow> D ! i = (if i < length xs then xs ! i else 0)"
    and rest: "take (length xs - w) R = drop w xs"
  shows "take (length xs) (D @ R) = xs"
proof (cases "length xs \<le> w")
  case True
  then have "take (length xs) D = xs" using D by (intro nth_equalityI) auto
  with True D(1) show ?thesis by simp
next
  case False
  then have "D = take w xs" using D by (intro nth_equalityI) auto
  then show ?thesis using False D(1) rest by simp
qed

lemma write_clusters_ok:
  assumes "fs_vol cap n ds s" "fat_ready dev_ok letter s"
    and "free_list (fat_entry img s) n = cs @ rest"
    and "holds_bytes (512 * unat (sectors_per_cluster (bpb s))) remaining cs" "length cs \<le> steps"
    and "prev = 0 \<or> is_data n prev \<and> fat_entry img s (unat prev) \<noteq> 0"
    and "remaining = length buffer - offset" "offset \<le> length buffer"
  shows "\<exists>t. write_clusters io buffer steps new_first prev remaining offset s =
        Some (Some (if new_first = 0 \<and> cs \<noteq> [] then of_nat (hd cs) else new_first, 0), t)
    \<and> store_step n ds s (link_fat (fat_end_of_chain_value s) (unat prev) cs (fat_entry img s)) cs t
    \<and> clusters_hold (bpb s) ds (img (f_dev t)) cs (drop offset buffer)"
  using assms
proof (induction cs arbitrary: s steps new_first prev remaining offset)
  case Nil
  then show ?case
    by (subst write_clusters.simps) (auto simp: store_step_def clusters_hold_def in_clusters_def)
next
  case (Cons c cs)
  let ?z = "unat (sectors_per_cluster (bpb s))" and ?F = "fat_entry img s" and ?eoc = "fat_end_of_chain_value s"
  let ?F1 = "link_fat ?eoc (unat prev) [c] ?F"
  note vol = Cons.prems(1)
  have n: "n < 65525" using fs_volD(1) [OF vol] by (simp add: fat_vol_def)
  obtain st where st: "steps = Suc st" "length cs \<le> st" using Cons.prems(5) by (cases steps) auto
  have free: "free_list ?F n = c # cs @ rest" using Cons.prems(3) by simp
  have c: "2 \<le> c" "c \<le> n + 1" using set_free_list [of c ?F n] free by auto
  have u: "unat (of_nat c :: u16) = c" using n c by (simp add: unat_u16)
  have c0: "(of_nat c :: u16) \<noteq> 0" using u c by auto
  have hb: "0 < remaining" "holds_bytes (512 * ?z) (remaining - 512 * ?z) cs" using Cons.prems(4) by auto
  from write_round [OF vol Cons.prems(2) free Cons.prems(6) hb(1) Cons.prems(7,8), of st new_first] obtain t1 where
    step: "write_clusters io buffer (Suc st) new_first prev remaining offset s =
        write_clusters io buffer st (if new_first = 0 then of_nat c else new_first) (of_nat c)
          (remaining - 512 * ?z) (offset + min remaining (512 * ?z)) t1"
      and t1: "store_step n ds s ?F1 [c] t1"
      and D: "\<And>i. i < 512 * ?z \<Longrightarrow>
        cluster_data (bpb s) ds (img (f_dev t1)) c ! i = (if i < remaining then buffer ! (offset + i) else 0)" by blast
  note fr1 = store_stepD(2) [OF t1] and F1 = store_stepD(3) [OF t1]
  have b1: "bpb t1 = bpb s" using fr1 by (simp add: fat_frame_def)
  have e1: "fat_end_of_chain_value t1 = ?eoc" using fat_frame_eoc [OF fr1] .
  have fr: "free_list (fat_entry img t1) n = cs @ rest"
  proof (rule free_list_take [OF free])
    fix d assume d: "2 \<le> d" "d \<le> n + 1"
    show "(fat_entry img t1 d = 0) = (?F d = 0 \<and> d \<noteq> c)"
      using F1 [OF d] eoc_props(2) [OF vol] c0 Cons.prems(6) by auto
  qed
  have prev: "of_nat c = (0 :: u16) \<or> is_data n (of_nat c) \<and> fat_entry img t1 (unat (of_nat c :: u16)) \<noteq> 0"
    using F1 [OF c] c eoc_props(2) [OF vol] unfolding u by (simp add: is_data_def u)
  have "\<exists>t. write_clusters io buffer st (if new_first = 0 then of_nat c else new_first) (of_nat c)
          (remaining - 512 * ?z) (offset + min remaining (512 * ?z)) t1 =
        Some (Some (if (if new_first = 0 then of_nat c else new_first) = 0 \<and> cs \<noteq> [] then of_nat (hd cs)
          else (if new_first = 0 then of_nat c else new_first), 0), t)
    \<and> store_step n ds t1 (link_fat (fat_end_of_chain_value t1) (unat (of_nat c :: u16)) cs (fat_entry img t1)) cs t
    \<and> clusters_hold (bpb t1) ds (img (f_dev t)) cs (drop (offset + min remaining (512 * ?z)) buffer)"
    using fs_vol_frame [OF vol fr1] store_stepD(1) [OF t1] fr hb(2) st(2) prev Cons.prems(7,8)
    by (intro Cons.IH) (auto simp: b1)
  then obtain t where
    t: "write_clusters io buffer st (if new_first = 0 then of_nat c else new_first) (of_nat c)
          (remaining - 512 * ?z) (offset + min remaining (512 * ?z)) t1 =
        Some (Some (if new_first = 0 then of_nat c else new_first, 0), t)"
      "store_step n ds t1 (link_fat ?eoc c cs (fat_entry img t1)) cs t"
      "clusters_hold (bpb s) ds (img (f_dev t)) cs (drop (offset + min remaining (512 * ?z)) buffer)"
    using c0 unfolding e1 u b1 by (auto split: if_splits)
  have st1: "store_step n ds s (link_fat ?eoc (unat prev) (c # cs) ?F) (c # cs) t"
  proof (rule store_step_cong [OF store_step_chain [OF t1 t(2), simplified]])
    fix d assume "2 \<le> d" "d \<le> n + 1"
    from F1 [OF this] have "link_fat ?eoc c cs (fat_entry img t1) d = link_fat ?eoc c cs ?F1 d" by (rule link_fat_cong)
    then show "link_fat ?eoc c cs (fat_entry img t1) d = link_fat ?eoc (unat prev) (c # cs) ?F d" by simp
  qed
  have keep: "cluster_data (bpb s) ds (img (f_dev t)) c = cluster_data (bpb s) ds (img (f_dev t1)) c"
  proof (rule cluster_data_cong)
    fix a assume a: "in_cluster (bpb s) ds c a"
    have "c \<notin> set cs" "\<And>d. d \<in> set cs \<Longrightarrow> 2 \<le> d"
      using distinct_free_list [of ?F n] set_free_list [of _ ?F n] unfolding free by auto
    then have "\<not> in_clusters (bpb s) ds cs a"
      using in_cluster_disjoint [OF c(1) _ _ a] by (auto simp: in_clusters_def)
    then show "img (f_dev t) a = img (f_dev t1) a"
      using store_stepD(4) [OF t(2), of a] in_cluster_outside [OF vol a] by (simp add: b1)
  qed
  have "clusters_hold (bpb s) ds (img (f_dev t)) (c # cs) (drop offset buffer)"
  proof -
    let ?R = "concat (map (cluster_data (bpb s) ds (img (f_dev t))) cs)"
    have R: "take (length (drop offset buffer) - 512 * ?z) ?R = drop (512 * ?z) (drop offset buffer)"
    proof (cases "remaining \<le> 512 * ?z")
      case True
      then show ?thesis using Cons.prems(7) by simp
    next
      case False
      then show ?thesis using t(3) Cons.prems(7) by (simp add: clusters_hold_def min_def add.commute)
    qed
    have "take (length (drop offset buffer)) (cluster_data (bpb s) ds (img (f_dev t)) c @ ?R) = drop offset buffer"
    proof (rule clusters_hold_Cons [OF _ _ R])
      show "cluster_data (bpb s) ds (img (f_dev t)) c ! i =
          (if i < length (drop offset buffer) then drop offset buffer ! i else 0)" if "i < 512 * ?z" for i
        unfolding keep D [OF that] using Cons.prems(7,8) by simp
    qed simp
    then show ?thesis unfolding clusters_hold_def list.map concat.simps .
  qed
  then show ?case using st1 t(1) c0 unfolding st(1) step by auto
qed

end

end

