(* ===== verification/Fat_Enter.thy ===== *)
theory Fat_Enter
  imports Fat_Store
begin

text \<open>
  Entering a file in its directory: the effect of creating and updating an entry on the slots, and of
  freeing the clusters of the old contents.
\<close>

unbundle bit_operations_syntax

lemma find_SomeE:
  assumes "find P xs = Some q"
  obtains pre post where "xs = pre @ q # post" "\<And>p. p \<in> set pre \<Longrightarrow> \<not> P p" "P q"
proof -
  from assms obtain i where i: "i < length xs" "P (xs ! i)" "q = xs ! i" "\<And>j. j < i \<Longrightarrow> \<not> P (xs ! j)"
    by (auto simp: find_Some_iff)
  show thesis
  proof (rule that [of "take i xs" "drop (Suc i) xs"])
    show "xs = take i xs @ q # drop (Suc i) xs" using id_take_nth_drop [OF i(1)] i(3) by simp
    show "\<not> P p" if "p \<in> set (take i xs)" for p using that i by (auto simp: in_set_conv_nth)
  qed (use i in simp)
qed

lemma find_in_set: "find P xs = Some q \<Longrightarrow> q \<in> set xs"
  by (erule find_SomeE) simp

lemma find_SomeI: "xs = pre @ q # post \<Longrightarrow> (\<And>p. p \<in> set pre \<Longrightarrow> \<not> P p) \<Longrightarrow> P q \<Longrightarrow> find P xs = Some q"
proof -
  assume "xs = pre @ q # post" "P q" and *: "\<And>p. p \<in> set pre \<Longrightarrow> \<not> P p"
  moreover from * have "find P pre = None" by (simp add: find_None_iff)
  ultimately show ?thesis by (simp add: find_append)
qed

lemma lookup_slot:
  assumes "lookup f m secs = Some h"
  shows "h \<in> set (slots secs)" "stop_find f (slot_entry m h)" "de_name (slot_entry m h) ! 0 \<noteq> 0"
proof -
  have h: "find (\<lambda>q. stop_find f (slot_entry m q)) (slots secs) = Some h" "de_name (slot_entry m h) ! 0 \<noteq> 0"
    using assms by (auto simp: lookup_def split: option.splits if_splits)
  from h(1) show "h \<in> set (slots secs)" "stop_find f (slot_entry m h)" by (auto elim!: find_SomeE)
  show "de_name (slot_entry m h) ! 0 \<noteq> 0" by (rule h(2))
qed

text \<open>An entry with new contents.\<close>

definition renewed :: "FAT16_DirectoryEntry \<Rightarrow> cstr \<Rightarrow> u16 \<Rightarrow> u32 \<Rightarrow> u8 \<Rightarrow> FAT16_DirectoryEntry" where
  "renewed e f cl len attr = e\<lparr>de_name := padded_name f, de_attributes := attr, de_cluster_high := 0,
     de_cluster_low := cl, de_file_size := len\<rparr>"

section \<open>Writing a slot\<close>

definition free_entry :: "FAT16_DirectoryEntry \<Rightarrow> bool" where
  "free_entry e \<longleftrightarrow> de_name e ! 0 = 0 \<or> de_name e ! 0 = 0xE5"

lemma slot_free_entry: "slot_free (sector_at m x) i = free_entry (slot_entry m (x, i))"
  by (simp add: slot_free_def free_entry_def slot_entry_def)

context sector_device
begin

definition written :: "'d fat_state \<Rightarrow> nat \<times> nat \<Rightarrow> FAT16_DirectoryEntry \<Rightarrow> 'd fat_state \<Rightarrow> bool" where
  "written s q e t \<longleftrightarrow> fat_ready dev_ok letter t \<and> fat_frame s t
     \<and> img (f_dev t) = put_sector (img (f_dev s)) (fst q) (set_entry (sector_at (img (f_dev s)) (fst q)) (snd q) e)"

lemma write_slot:
  assumes "quiet s t" "x < cap" "i < 16" "length (de_name e) = 11" "sector_buffer t = sector_at (img (f_dev s)) x"
  obtains u where "write_buf io (lba_of x) (t\<lparr>sector_buffer := set_entry (sector_buffer t) i e\<rparr>) = (True, u)"
    "written s (x, i) e u"
proof -
  have len: "length (set_entry (sector_buffer t) i e) = 512" using assms by (simp add: length_set_entry)
  from write_buf_step [OF quietD(1) [OF assms(1)] assms(2) len] obtain u where
    u: "write_buf io (lba_of x) (t\<lparr>sector_buffer := set_entry (sector_buffer t) i e\<rparr>) = (True, u)"
      "fat_ready dev_ok letter u" "fat_frame t u" "img (f_dev u) = put_sector (img (f_dev t)) x (set_entry (sector_buffer t) i e)" .
  have "written s (x, i) e u"
    using u(2,4) fat_frame_trans [OF quietD(5) [OF assms(1)] u(3)] quietD(3) [OF assms(1)] assms(5)
    by (simp add: written_def)
  with u(1) show thesis by (rule that)
qed

lemma write_dir_entry_ok:
  assumes "quiet s t" "x < cap" "i < 16" "length (de_name e) = 11"
  shows "\<exists>u. fat16_write_dir_entry_at io (lba_of x) i e t = (True, u) \<and> written s (x, i) e u"
proof -
  from read_buf_quiet [OF assms(1,2)] obtain t1 where
    t1: "read_buf io (lba_of x) t = (True, t1)" "quiet s t1" "sector_buffer t1 = sector_at (img (f_dev s)) x" .
  from write_slot [OF t1(2) assms(2-4) t1(3)] obtain u where
    "write_buf io (lba_of x) (t1\<lparr>sector_buffer := set_entry (sector_buffer t1) i e\<rparr>) = (True, u)" "written s (x, i) e u" .
  then show ?thesis using t1(1) by (simp add: fat16_write_dir_entry_at_def)
qed

section \<open>Creating an entry\<close>

lemma find_SLOTS_less: "find P SLOTS = Some i \<Longrightarrow> i < 16"
  by (auto simp: SLOTS_def find_Some_iff)

lemma free_root_searches:
  assumes vol: "fs_vol cap n ds s" and dir: "dir_secs (fat_entry img s) n ds (bpb s) dir cs secs"
  shows "searches (\<lambda>q. free_entry (slot_entry (img (f_dev s)) q)) secs s
     (\<lambda>x i r t. r = Some (lba_of x, i) \<and> quiet s t) (free_slot_body io)"
proof -
  have "\<exists>t'. free_slot_body io (lba_of y) () t =
      Some (case find (\<lambda>j. free_entry (slot_entry (img (f_dev s)) (y, j))) SLOTS of
        None \<Rightarrow> Continue () | Some i \<Rightarrow> Return (Some (lba_of y, i)), t') \<and> quiet s t'"
    if y: "y \<in> set secs" and q: "quiet s t" for y t
  proof -
    from read_buf_quiet [OF q dir_secs_bound(1) [OF vol dir y]] obtain t' where
      t': "read_buf io (lba_of y) t = (True, t')" "quiet s t'" "sector_buffer t' = sector_at (img (f_dev s)) y" .
    then show ?thesis
      by (auto simp: free_slot_body_def slot_free_entry [abs_def] split: option.split)
  qed
  then show ?thesis unfolding searches_def by fastforce
qed

lemma add_searches:
  assumes vol: "fs_vol cap n ds s" and dir: "dir_secs (fat_entry img s) n ds (bpb s) dir cs secs"
    and e: "length (de_name e) = 11"
  shows "searches (\<lambda>q. free_entry (slot_entry (img (f_dev s)) q)) secs s
     (\<lambda>x i r t. r = True \<and> written s (x, i) e t) (add_body io e)"
  unfolding searches_def
proof (intro conjI allI impI)
  let ?m = "img (f_dev s)"
  fix y t assume y: "y \<in> set secs" "find (\<lambda>j. free_entry (slot_entry ?m (y, j))) SLOTS = None" "quiet s t"
  from read_buf_quiet [OF y(3) dir_secs_bound(1) [OF vol dir y(1)]] obtain t' where
    "read_buf io (lba_of y) t = (True, t')" "quiet s t'" "sector_buffer t' = sector_at ?m y" .
  then show "\<exists>t'. add_body io e (lba_of y) () t = Some (Continue (), t') \<and> quiet s t'"
    using y(2) by (simp add: add_body_def slot_free_entry [abs_def])
next
  let ?m = "img (f_dev s)"
  fix x i t assume x: "x \<in> set secs" "find (\<lambda>j. free_entry (slot_entry ?m (x, j))) SLOTS = Some i" "quiet s t"
  from read_buf_quiet [OF x(3) dir_secs_bound(1) [OF vol dir x(1)]] obtain t1 where
    t1: "read_buf io (lba_of x) t = (True, t1)" "quiet s t1" "sector_buffer t1 = sector_at ?m x" .
  from write_slot [OF t1(2) dir_secs_bound(1) [OF vol dir x(1)] find_SLOTS_less [OF x(2)] e t1(3)] obtain u where
    "write_buf io (lba_of x) (t1\<lparr>sector_buffer := set_entry (sector_buffer t1) i e\<rparr>) = (True, u)" "written s (x, i) e u" .
  then show "\<exists>r t'. add_body io e (lba_of x) () t = Some (Return r, t') \<and> r = True \<and> written s (x, i) e t'"
    using x(2) t1(1,3) by (auto simp: add_body_def slot_free_entry [abs_def])
qed

lemma add_walk_search:
  assumes vol: "fs_vol cap n ds s" and chain: "linked (fat_entry img s) n c cs"
    and body: "searches P (chain_sectors (bpb s) ds cs) s R (add_body io e)"
    and q: "quiet s t" and hit: "find P (slots (chain_sectors (bpb s) ds cs)) = Some (x, i)"
  shows "\<exists>r t'. add_walk io e ds (ucast c) t = Some (Return r, t') \<and> R x i r t'"
  using chain body q hit
proof (induction cs arbitrary: c t)
  case Nil
  then show ?case by (simp add: chain_sectors_def)
next
  case (Cons y cs)
  let ?z = "map (\<lambda>k. cl_base (bpb s) ds (unat c) + k) [0..<unat (sectors_per_cluster (bpb s))]"
  let ?nx = "fat_entry img s (unat c)"
  have x: "y = c" and d: "is_data n c" and rest: "linked (fat_entry img s) n ?nx cs"
    using Cons.prems(1) by auto
  have secs: "chain_sectors (bpb s) ds (y # cs) = ?z @ chain_sectors (bpb s) ds cs"
    by (simp add: chain_sectors_def x)
  have ok: "fat_is_data_cluster (bpb t) (ucast c) = Some True"
    using d data_cluster_quiet [OF vol Cons.prems(3), of c] by simp
  note cl = cluster_sectors_quiet [OF Cons.prems(3) d, of ds]
  have "searches P ?z s R (add_body io e)" using Cons.prems(2) unfolding secs by (rule searches_left)
  from over_sectors_search [OF this Cons.prems(3)]
  show ?case
  proof (cases rule: outcomeE)
    case (1 t1)
    from next_cluster_quiet [OF vol 1(3) d] obtain t2 where
      t2: "fat16_get_next_cluster io c t1 = (?nx, t2)" "quiet s t2" .
    have hit: "find P (slots (chain_sectors (bpb s) ds cs)) = Some (x, i)"
      using Cons.prems(4) unfolding secs find_slots_append 1(1) by simp
    then have "is_data n ?nx" using rest by (cases cs) (auto simp: chain_sectors_def)
    then have ok2: "fat_is_data_cluster (bpb t2) (ucast ?nx) = Some True"
      using data_cluster_quiet [OF vol t2(2), of ?nx] by simp
    have step: "add_walk io e ds (ucast c) t = add_walk io e ds (ucast ?nx) t2"
      using t2(1) ok2 by (subst add_walk.simps) (simp add: ok cl 1(2) del: map_map)
    have "searches P (chain_sectors (bpb s) ds cs) s R (add_body io e)"
      using Cons.prems(2) 1(1) unfolding secs by (rule searches_right)
    from Cons.IH [OF rest this t2(2) hit] show ?thesis unfolding step .
  next
    case (2 y' i' r t1)
    then have "add_walk io e ds (ucast c) t = Some (Return r, t1)"
      by (subst add_walk.simps) (simp add: ok cl del: map_map)
    moreover have "(y', i') = (x, i)"
      using Cons.prems(4) unfolding secs find_slots_append 2(1) by simp
    ultimately show ?thesis using 2(3) by auto
  qed
qed

lemma add_entry_ok:
  assumes vol: "fs_vol cap n ds s" and dir: "dir_secs (fat_entry img s) n ds (bpb s) dir cs secs" and q: "quiet s t"
    and nm: "length nm = 11" and hit: "find (\<lambda>q. free_entry (slot_entry (img (f_dev s)) q)) (slots secs) = Some h"
  shows "\<exists>u. fat16_add_dir_entry_internal io dir nm cl len attr t = Some (True, u)
     \<and> written s h (new_entry nm cl len attr) u"
proof -
  obtain x i where h: "h = (x, i)" by (cases h)
  let ?e = "new_entry nm cl len attr"
  have e: "length (de_name ?e) = 11" using nm by (simp add: new_entry_def)
  show ?thesis
  proof (cases "dir = 0")
    case True
    obtain r where r: "get_root_dir_sectors (bpb s) = Some r" "ds = get_root_dir_start (bpb s) + r" using fs_vol_root [OF vol] .
    have "secs = map (\<lambda>k. k + get_root_dir_start (bpb s)) [0..<r]"
      using dir True r(2) by (simp add: dir_secs_def map_add_upt add.commute)
    then have "map lba_of secs = root_sectors (bpb t) r"
      by (simp add: root_sectors_def lba_of_def add.commute quietD(2) [OF q])
    then have fr: "fat16_find_free_root_entry io t = Option.bind (over_sectors (free_slot_body io) (map lba_of secs) () t)
        (\<lambda>(r, s1). Some (case r of Continue _ \<Rightarrow> None | Return x \<Rightarrow> x, s1))"
      using r(1) quietD(2) [OF q] by (simp add: fat16_find_free_root_entry_def)
    from over_sectors_search [OF free_root_searches [OF vol dir] q] have
      "\<exists>t1. fat16_find_free_root_entry io t = Some (Some (lba_of x, i), t1) \<and> quiet s t1"
    proof (cases rule: outcomeE)
      case (1 t')
      then show ?thesis using hit by simp
    next
      case (2 x' i' r' t')
      then show ?thesis using hit by (simp add: fr h)
    qed
    then obtain t1 where t1: "fat16_find_free_root_entry io t = Some (Some (lba_of x, i), t1)" "quiet s t1" by blast
    have q: "(x, i) \<in> set (slots secs)" using hit h by (auto simp: find_Some_iff)
    then have "x \<in> set secs" "i < 16" by (auto simp: set_slots)
    from write_dir_entry_ok [OF t1(2) dir_secs_bound(1) [OF vol dir this(1)] this(2) e] obtain u where
      "fat16_write_dir_entry_at io (lba_of x) i ?e t1 = (True, u)" "written s (x, i) ?e u" by blast
    then show ?thesis using True t1(1) by (simp add: fat16_add_dir_entry_internal_def h)
  next
    case False
    then have *: "dir = ucast (hd cs)" "linked (fat_entry img s) n (hd cs) cs" "secs = chain_sectors (bpb s) ds cs"
      using dir by (auto simp: dir_secs_def)
    from add_walk_search [OF vol *(2) add_searches [OF vol dir e, unfolded *(3)] q hit [unfolded *(3) h]]
    obtain u where "add_walk io ?e ds (ucast (hd cs)) t = Some (Return True, u)" "written s (x, i) ?e u" by blast
    then show ?thesis using False fs_volD(2) [OF vol] quietD(2) [OF q]
      by (simp add: fat16_add_dir_entry_internal_def h *(1))
  qed
qed

lemma create_entry_ok:
  assumes vol: "fs_vol cap n ds s" and dir: "dir_secs (fat_entry img s) n ds (bpb s) dir cs secs" and q: "quiet s t"
    and f: "legal_name f" and none: "lookup f (img (f_dev s)) secs = None"
    and hit: "find (\<lambda>q. free_entry (slot_entry (img (f_dev s)) q)) (slots secs) = Some h"
  shows "\<exists>u. fat16_create_entry io dir f cl len attr t = Some (True, u)
     \<and> written s h (new_entry (padded_name f) cl len attr) u"
proof -
  from find_entry_ok [OF vol dir q, of f] none obtain t1 where
    t1: "fat16_find_entry_internal io dir f t = Some (None, t1)" "quiet s t1" by auto
  from add_entry_ok [OF vol dir t1(2) length_padded_name [OF f] hit] obtain u where
    "fat16_add_dir_entry_internal io dir (padded_name f) cl len attr t1 = Some (True, u)"
    "written s h (new_entry (padded_name f) cl len attr) u" by blast
  moreover have "f \<noteq> []" using f by (simp add: legal_name_def)
  ultimately show ?thesis using t1(1) f by (simp add: fat16_create_entry_def format_name_exact)
qed

text \<open>The contents of a file are replaced in place when the entry found has exactly its name.\<close>

lemma update_entry_ok:
  assumes vol: "fs_vol cap n ds s" and dir: "dir_secs (fat_entry img s) n ds (bpb s) dir cs secs" and q: "quiet s t"
    and f: "legal_name f" and hit: "lookup f (img (f_dev s)) secs = Some h"
    and nm: "de_name (slot_entry (img (f_dev s)) h) = padded_name f"
  shows "\<exists>u. fat16_update_entry io dir f f cl len attr t = Some (True, u)
     \<and> written s h (renewed (slot_entry (img (f_dev s)) h) f cl len attr) u"
proof -
  obtain x i where h: "h = (x, i)" by (cases h)
  let ?e = "slot_entry (img (f_dev s)) h"
  have x: "x \<in> set secs" "i < 16" using lookup_slot(1) [OF hit] by (auto simp: set_slots h)
  from find_entry_ok [OF vol dir q, of f] hit obtain t1 where
    t1: "fat16_find_entry_internal io dir f t = Some (Some (?e, lba_of x, i), t1)" "quiet s t1"
    by (auto simp: found_at_def h)
  note b = dir_secs_bound(1) [OF vol dir x(1)]
  from read_buf_quiet [OF t1(2) b] obtain t2 where
    t2: "read_buf io (lba_of x) t1 = (True, t2)" "quiet s t2" "sector_buffer t2 = sector_at (img (f_dev s)) x" .
  have len: "length (de_name (renewed ?e f cl len attr)) = 11"
    using length_padded_name [OF f] by (simp add: renewed_def)
  have e: "entry_at (sector_buffer t2) i = ?e" by (simp add: t2(3) slot_entry_def h)
  from write_slot [OF t2(2) b x(2) len t2(3)] obtain u where
    u: "write_buf io (lba_of x) (t2\<lparr>sector_buffer := set_entry (sector_buffer t2) i (renewed ?e f cl len attr)\<rparr>) = (True, u)"
      "written s (x, i) (renewed ?e f cl len attr) u" .
  have "f \<noteq> []" using f by (simp add: legal_name_def)
  then have "fat16_update_entry io dir f f cl len attr t = Some (True, u)"
    using t1(1) t2(1) u(1) f nm by (simp add: fat16_update_entry_def format_name_exact e renewed_def Let_def)
  then show ?thesis using u(2) h by blast
qed

text \<open>What a written slot leaves alone.\<close>

lemma written_slots:
  assumes "written s h e t" "snd h < 16" "snd p < 16" "length (de_name e) = 11"
  shows "slot_entry (img (f_dev t)) p = (if p = h then e else slot_entry (img (f_dev s)) p)"
proof -
  obtain x i where h: "h = (x, i)" by (cases h)
  obtain y j where p: "p = (y, j)" by (cases p)
  have "i < 16" "j < 16" using assms h p by auto
  from slot_entry_put [OF this assms(4), of "img (f_dev s)" x y] show ?thesis
    using assms(1) by (auto simp: written_def h p)
qed

lemma written_other: "written s h e t \<Longrightarrow> a div 512 \<noteq> fst h \<Longrightarrow> img (f_dev t) a = img (f_dev s) a"
  by (simp add: written_def put_sector_def)

lemma written_table:
  assumes vol: "fs_vol cap n ds s" and w: "written s h e t" and x: "get_root_dir_start (bpb s) \<le> fst h"
    and d: "2 \<le> d" "d \<le> n + 1"
  shows "fat_entry img t d = fat_entry img s d"
proof (rule fat_entry_image [OF fs_volD(1) [OF vol] _ d])
  show "fat_frame s t" using w by (simp add: written_def)
  fix a assume "a < 512 * get_root_dir_start (bpb s)"
  then have "a div 512 < get_root_dir_start (bpb s)" by (simp add: div_less_iff_less_mult mult.commute)
  with x show "img (f_dev t) a = img (f_dev s) a" by (intro written_other [OF w]) simp
qed

section \<open>Freeing the old contents\<close>

lemma free_old_ok:
  assumes vol: "fs_vol cap n ds s" and ready: "fat_ready dev_ok letter s"
    and ch: "fat_chain (fat_entry img s) n c ocs" and c: "2 \<le> unat c"
  shows "\<exists>t. fat16_free_cluster_chain_internal io c s = Some (True, t)
    \<and> table_step n s (\<lambda>d. if of_nat d \<in> set ocs then 0 else fat_entry img s d) t"
proof -
  note v = fs_volD(1) [OF vol]
  have n: "n < 65525" "get_total_clusters (bpb s) = Some (of_nat n)" using v by (auto simp: fat_vol_def)
  have u: "unat (of_nat n + 2 :: u32) = n + 2"
    using n by (simp add: unat_word_ariths unat_of_nat take_bit_nat_eq_self)
  have len: "length ocs \<le> n + 2" using fat_chain_length [OF ch] by simp
  have ch': "linked (fat_entry img s) n c ocs" "distinct ocs" using ch by (auto simp: fat_chain_def)
  from free_chain_loop_ok [OF ready v ch' len] obtain t where
    t: "free_chain_loop io (n + 2) c s = Some (True, t)" "fat_ready dev_ok letter t" "fat_frame s t"
      "img (f_dev t) = fold (\<lambda>c. fat_put_all (current_fat_type s) (bpb s) c 0) ocs (img (f_dev s))" by blast
  have "\<not> c < 2" using c by (simp add: word_less_nat_alt)
  then have run: "fat16_free_cluster_chain_internal io c s = Some (True, t)"
    using t(1) n u by (simp add: fat16_free_cluster_chain_internal_def)
  have cov: "fat_covers (current_fat_type s) (bpb s) x" if "x \<in> set ocs" for x
  proof -
    have "is_data n x" using linked_data [OF ch'(1) that] .
    then show ?thesis using fat_vol_covers [OF v, of "unat x"] by (simp add: is_data_def)
  qed
  have tab: "fat_entry img t d = (if of_nat d \<in> set ocs then 0 else fat_entry img s d)" if d: "2 \<le> d" "d \<le> n + 1" for d
  proof -
    have "0 < unat (fat_count (bpb s))" using v by (simp add: fat_vol_def fat_fits_def)
    from fold_put_get [OF cov fat_vol_covers [OF v d] this, where v = 0 and m = "img (f_dev s)"] t(3)
    show ?thesis by (simp add: t(4) fat_frame_def fat_mask_def)
  qed
  have "table_step n s (\<lambda>d. if of_nat d \<in> set ocs then 0 else fat_entry img s d) t"
    using t(2,3) tab fold_put_frame [OF cov, where v = 0 and m = "img (f_dev s)"]
    by (simp add: table_step_def outside_table_def t(4))
  with run show ?thesis by blast
qed

end

end

