(* ===== verification/Disk.thy ===== *)
theory Disk
  imports Sector_Device
begin

text \<open>
  The disk driver, \<^verbatim>\<open>src/src/kernel/storage/disk.c\<close>: programmed I/O on the four ATA targets and the
  BIOS thunk for the boot volume, with its LBA to CHS translation.

  The hardware is a parameter: \<open>'h\<close> is the state of the machine outside the kernel (ATA
  controllers, BIOS, low memory, splash animation) and \<open>'h hw\<close> holds the primitive operations
  the driver performs on it: port input and output (\<^verbatim>\<open>inb\<close>, \<^verbatim>\<open>outb\<close>, \<^verbatim>\<open>insw\<close>, \<^verbatim>\<open>outsw\<close>), physical memory
  reads, the BIOS sector thunks of \<^verbatim>\<open>entry.asm\<close> with their shared transfer buffer, and the splash
  pump called while waiting. \<^verbatim>\<open>log_serial_raw\<close> lines are recorded in the state.
\<close>

section \<open>Hardware interface and state\<close>

record 'h hw =
  hw_inb :: "u16 \<Rightarrow> 'h \<Rightarrow> u8 \<times> 'h"
  hw_outb :: "u16 \<Rightarrow> u8 \<Rightarrow> 'h \<Rightarrow> 'h"
  hw_insw :: "u16 \<Rightarrow> nat \<Rightarrow> 'h \<Rightarrow> u8 list \<times> 'h"     \<comment> \<open>count is in 16-bit words\<close>
  hw_outsw :: "u16 \<Rightarrow> u8 list \<Rightarrow> 'h \<Rightarrow> 'h"
  hw_phys :: "u32 \<Rightarrow> 'h \<Rightarrow> u8"
  hw_bios_read :: "u32 \<Rightarrow> u32 \<Rightarrow> u32 \<Rightarrow> u32 \<Rightarrow> 'h \<Rightarrow> (int \<times> u8 list) \<times> 'h"
    \<comment> \<open>\<^verbatim>\<open>biosdisk_boot_read_sector\<close>: return code, transfer buffer afterwards\<close>
  hw_bios_write :: "u32 \<Rightarrow> u32 \<Rightarrow> u32 \<Rightarrow> u32 \<Rightarrow> u8 list \<Rightarrow> 'h \<Rightarrow> int \<times> 'h"
    \<comment> \<open>\<^verbatim>\<open>biosdisk_boot_write_sector\<close> with the transfer buffer to write\<close>
  hw_splash_pump :: "'h \<Rightarrow> 'h"

record boot_media_t =
  drive_number :: u8
  bm_sectors_per_track :: u16
  bm_heads :: u16
  bm_total_sectors :: u32
  is_boot_volume :: bool
  geometry_valid :: bool

record ata_target_t =
  io_base :: u16
  ctrl_base :: u16
  drive_sel :: u8

record 'h disk_state =
  mach :: 'h
  boot_media :: boot_media_t
  ata_presence_mask :: u8
  ata_identify_buffer :: "u8 list"
  disk_log :: "string list"

definition ATA_PRIMARY_IO :: u16 where "ATA_PRIMARY_IO = 0x1F0"
definition ATA_PRIMARY_CTRL :: u16 where "ATA_PRIMARY_CTRL = 0x3F6"
definition ATA_SECONDARY_IO :: u16 where "ATA_SECONDARY_IO = 0x170"
definition ATA_SECONDARY_CTRL :: u16 where "ATA_SECONDARY_CTRL = 0x376"

definition ATA_SR_BSY :: u8 where "ATA_SR_BSY = 0x80"
definition ATA_SR_DRDY :: u8 where "ATA_SR_DRDY = 0x40"
definition ATA_SR_DRQ :: u8 where "ATA_SR_DRQ = 0x08"
definition ATA_SR_ERR :: u8 where "ATA_SR_ERR = 0x01"

definition d_log :: "string \<Rightarrow> 'h disk_state \<Rightarrow> 'h disk_state" where
  "d_log msg s = s\<lparr>disk_log := disk_log s @ [msg @ [CHR 0x0A]]\<rparr>"

definition d_outb :: "'h hw \<Rightarrow> u16 \<Rightarrow> u8 \<Rightarrow> 'h disk_state \<Rightarrow> 'h disk_state" where
  "d_outb hw port v s = s\<lparr>mach := hw_outb hw port v (mach s)\<rparr>"

definition d_inb :: "'h hw \<Rightarrow> u16 \<Rightarrow> 'h disk_state \<Rightarrow> u8 \<times> 'h disk_state" where
  "d_inb hw port s = (case hw_inb hw port (mach s) of (v, h) \<Rightarrow> (v, s\<lparr>mach := h\<rparr>))"

definition io_wait :: "'h hw \<Rightarrow> 'h disk_state \<Rightarrow> 'h disk_state" where
  "io_wait hw s = d_outb hw 0x80 0 s"

definition io_wait4 :: "'h hw \<Rightarrow> 'h disk_state \<Rightarrow> 'h disk_state" where
  "io_wait4 hw s = io_wait hw (io_wait hw (io_wait hw (io_wait hw s)))"

section \<open>Targets\<close>

definition ata_decode_physical_target :: "u8 \<Rightarrow> ata_target_t option" where
  "ata_decode_physical_target ata_id =
     (if ata_id > 3 then None
      else Some \<lparr>io_base = (if ata_id < 2 then ATA_PRIMARY_IO else ATA_SECONDARY_IO),
                 ctrl_base = (if ata_id < 2 then ATA_PRIMARY_CTRL else ATA_SECONDARY_CTRL),
                 drive_sel = (if ata_id AND 1 \<noteq> 0 then 0x10 else 0x00)\<rparr>)"

definition ata_disk_id_to_physical :: "boot_media_t \<Rightarrow> u8 \<Rightarrow> u8 option" where
  "ata_disk_id_to_physical bm disk_id =
     (if is_boot_volume bm \<and> disk_id = 0 then None
      else (let physical_id = (if is_boot_volume bm then disk_id - 1 else disk_id)
            in if physical_id > 3 then None else Some physical_id))"

definition ata_decode_target :: "boot_media_t \<Rightarrow> u8 \<Rightarrow> ata_target_t option" where
  "ata_decode_target bm disk_id =
     (case ata_disk_id_to_physical bm disk_id of None \<Rightarrow> None
      | Some ata_id \<Rightarrow> ata_decode_physical_target ata_id)"

section \<open>Polling loops\<close>

text \<open>\<^verbatim>\<open>ATA_STATUS\<close> is register 7 of the target.\<close>

definition ata_status :: "'h hw \<Rightarrow> ata_target_t \<Rightarrow> 'h disk_state \<Rightarrow> u8 \<times> 'h disk_state" where
  "ata_status hw t s = d_inb hw (io_base t + 7) s"

definition ata_has_error :: "'h hw \<Rightarrow> ata_target_t \<Rightarrow> 'h disk_state \<Rightarrow> bool \<times> 'h disk_state" where
  "ata_has_error hw t s = (case ata_status hw t s of (v, s1) \<Rightarrow> (v AND ATA_SR_ERR \<noteq> 0, s1))"

definition ata_wait_pump :: "'h hw \<Rightarrow> nat \<Rightarrow> 'h disk_state \<Rightarrow> 'h disk_state" where
  "ata_wait_pump hw timeout s =
     (if (of_nat timeout :: u32) AND 0x0FFF = 0 then s\<lparr>mach := hw_splash_pump hw (mach s)\<rparr> else s)"

text \<open>The status is read once more when the counter reaches 0.\<close>

fun wait_bsy_loop :: "'h hw \<Rightarrow> ata_target_t \<Rightarrow> nat \<Rightarrow> 'h disk_state \<Rightarrow> bool \<times> 'h disk_state" where
  "wait_bsy_loop hw t timeout s =
     (case ata_status hw t s of (v, s1) \<Rightarrow>
        if v AND ATA_SR_BSY \<noteq> 0 \<and> 0 < timeout
        then wait_bsy_loop hw t (timeout - 1) (ata_wait_pump hw timeout s1)
        else (0 < timeout, s1))"

fun wait_drdy_loop :: "'h hw \<Rightarrow> ata_target_t \<Rightarrow> nat \<Rightarrow> 'h disk_state \<Rightarrow> bool \<times> 'h disk_state" where
  "wait_drdy_loop hw t timeout s =
     (case ata_status hw t s of (v, s1) \<Rightarrow>
        if v AND ATA_SR_DRDY = 0 \<and> 0 < timeout
        then wait_drdy_loop hw t (timeout - 1) (ata_wait_pump hw timeout s1)
        else (0 < timeout, s1))"

fun wait_drq_loop :: "'h hw \<Rightarrow> ata_target_t \<Rightarrow> nat \<Rightarrow> 'h disk_state \<Rightarrow> bool \<times> 'h disk_state" where
  "wait_drq_loop hw t timeout s =
     (if 0 < timeout then
        (case ata_status hw t s of (v, s1) \<Rightarrow>
           if v AND ATA_SR_ERR \<noteq> 0 then (False, s1)
           else if v AND ATA_SR_BSY = 0 \<and> v AND ATA_SR_DRQ \<noteq> 0 then (True, s1)
           else wait_drq_loop hw t (timeout - 1) (ata_wait_pump hw timeout s1))
      else (False, s))"

declare wait_bsy_loop.simps [simp del] wait_drdy_loop.simps [simp del] wait_drq_loop.simps [simp del]

definition ATA_TIMEOUT :: nat where "ATA_TIMEOUT = 1000000"

definition ata_wait_bsy where "ata_wait_bsy hw t s = wait_bsy_loop hw t ATA_TIMEOUT s"
definition ata_wait_drdy where "ata_wait_drdy hw t s = wait_drdy_loop hw t ATA_TIMEOUT s"
definition ata_wait_drq where "ata_wait_drq hw t s = wait_drq_loop hw t ATA_TIMEOUT s"

section \<open>Probing and resetting a target\<close>

definition ata_probe_physical_target :: "'h hw \<Rightarrow> u8 \<Rightarrow> 'h disk_state \<Rightarrow> bool \<times> 'h disk_state" where
  "ata_probe_physical_target hw ata_id s =
     (case ata_decode_physical_target ata_id of None \<Rightarrow> (False, s) | Some t \<Rightarrow>
      let s1 = io_wait4 hw (d_outb hw (io_base t + 6) (0xE0 OR drive_sel t) s);
          (st1, s2) = ata_status hw t s1
      in if st1 = 0 \<or> st1 = 0xFF then (False, s2) else
      let (ok1, s3) = ata_wait_bsy hw t s2
      in if \<not> ok1 then (False, s3) else
      let s4 = io_wait4 hw (d_outb hw (io_base t + 7) 0xEC
                 (d_outb hw (io_base t + 5) 0 (d_outb hw (io_base t + 4) 0
                 (d_outb hw (io_base t + 3) 0 (d_outb hw (io_base t + 2) 0 s3)))));
          (st2, s5) = ata_status hw t s4
      in if st2 = 0 \<or> st2 = 0xFF then (False, s5) else
      let (ok2, s6) = ata_wait_bsy hw t s5
      in if \<not> ok2 then (False, s6) else
      let (mid, s7) = d_inb hw (io_base t + 4) s6
      in if mid \<noteq> 0 then (False, s7) else
      let (hi, s8) = d_inb hw (io_base t + 5) s7
      in if hi \<noteq> 0 then (False, s8) else
      let (ok3, s9) = ata_wait_drq hw t s8
      in if \<not> ok3 then (False, s9) else
      let (err, s10) = ata_has_error hw t s9
      in if err then (False, s10) else
      let (b, h) = hw_insw hw (io_base t) 256 (mach s10)
      in (True, s10\<lparr>mach := h, ata_identify_buffer := b\<rparr>))"

definition ata_soft_reset :: "'h hw \<Rightarrow> ata_target_t \<Rightarrow> 'h disk_state \<Rightarrow> 'h disk_state" where
  "ata_soft_reset hw t s =
     io_wait4 hw (d_outb hw (ctrl_base t) 0 (io_wait4 hw (d_outb hw (ctrl_base t) 0x04 s)))"

section \<open>The BIOS boot volume\<close>

text \<open>\<open>None\<close> is the error return \<open>-1\<close>, otherwise (cylinder, head, sector).\<close>

definition boot_floppy_lba_to_chs :: "boot_media_t \<Rightarrow> u32 \<Rightarrow> (u16 \<times> u16 \<times> u16) option" where
  "boot_floppy_lba_to_chs bm lba =
     (let sectors_per_track = ucast (bm_sectors_per_track bm) :: u32;
          heads = ucast (bm_heads bm) :: u32
      in if \<not> is_boot_volume bm \<or> sectors_per_track = 0 \<or> heads = 0 then None
         else if bm_total_sectors bm \<noteq> 0 \<and> lba \<ge> bm_total_sectors bm then None
         else (let tmp = lba div sectors_per_track
               in Some (ucast (tmp div heads), ucast (tmp mod heads), ucast (lba mod sectors_per_track + 1))))"

definition boot_floppy_read :: "'h hw \<Rightarrow> u32 \<Rightarrow> 'h disk_state \<Rightarrow> u8 list option \<times> 'h disk_state" where
  "boot_floppy_read hw lba s =
     (case boot_floppy_lba_to_chs (boot_media s) lba of None \<Rightarrow> (None, s)
      | Some (c, h, sec) \<Rightarrow>
        (case hw_bios_read hw (ucast (drive_number (boot_media s))) (ucast c) (ucast h) (ucast sec) (mach s) of
           ((rc, b), m) \<Rightarrow>
             if rc \<noteq> 0 then (None, d_log ''DISK102 bios-read-fail'' (s\<lparr>mach := m\<rparr>))
             else (Some b, s\<lparr>mach := m\<rparr>)))"

definition boot_floppy_write :: "'h hw \<Rightarrow> u32 \<Rightarrow> u8 list \<Rightarrow> 'h disk_state \<Rightarrow> bool \<times> 'h disk_state" where
  "boot_floppy_write hw lba b s =
     (case boot_floppy_lba_to_chs (boot_media s) lba of None \<Rightarrow> (False, s)
      | Some (c, h, sec) \<Rightarrow>
        (let s1 = d_log ''DISK111 floppy-write-start'' s in
         case hw_bios_write hw (ucast (drive_number (boot_media s))) (ucast c) (ucast h) (ucast sec) b (mach s1) of
           (rc, m) \<Rightarrow>
             (rc = 0, d_log (if rc = 0 then ''DISK112 floppy-write-ok'' else ''DISK113 floppy-write-fail'')
                (s1\<lparr>mach := m\<rparr>))))"

section \<open>ATA transfers\<close>

definition ata_select :: "'h hw \<Rightarrow> ata_target_t \<Rightarrow> u32 \<Rightarrow> 'h disk_state \<Rightarrow> 'h disk_state" where
  "ata_select hw t lba s =
     io_wait4 hw (d_outb hw (io_base t + 6)
       (ucast (0xE0 OR ucast (drive_sel t) OR (drop_bit 24 lba AND 0x0F) :: u32)) s)"

definition ata_command :: "'h hw \<Rightarrow> ata_target_t \<Rightarrow> u32 \<Rightarrow> u8 \<Rightarrow> 'h disk_state \<Rightarrow> 'h disk_state" where
  "ata_command hw t lba cmd s =
     io_wait hw (d_outb hw (io_base t + 7) cmd
       (d_outb hw (io_base t + 5) (ucast (drop_bit 16 lba AND 0xFF))
       (d_outb hw (io_base t + 4) (ucast (drop_bit 8 lba AND 0xFF))
       (d_outb hw (io_base t + 3) (ucast (lba AND 0xFF))
       (d_outb hw (io_base t + 2) 1 s)))))"

definition disk_read_lba_internal ::
    "'h hw \<Rightarrow> ata_target_t \<Rightarrow> u32 \<Rightarrow> 'h disk_state \<Rightarrow> u8 list option \<times> 'h disk_state" where
  "disk_read_lba_internal hw t lba s =
     (let (ok1, s1) = ata_wait_bsy hw t (ata_select hw t lba s)
      in if \<not> ok1 then (None, s1) else
      let (ok2, s2) = ata_wait_drdy hw t s1
      in if \<not> ok2 then (None, s2) else
      let (ok3, s3) = ata_wait_drq hw t (ata_command hw t lba 0x20 s2)
      in if \<not> ok3 then (None, s3) else
      let (err, s4) = ata_has_error hw t s3
      in if err then (None, s4) else
      let (b, h) = hw_insw hw (io_base t) 256 (mach s4)
      in (Some b, s4\<lparr>mach := h\<rparr>))"

definition disk_write_lba_internal ::
    "'h hw \<Rightarrow> ata_target_t \<Rightarrow> u32 \<Rightarrow> u8 list \<Rightarrow> 'h disk_state \<Rightarrow> bool \<times> 'h disk_state" where
  "disk_write_lba_internal hw t lba b s =
     (let (ok1, s1) = ata_wait_bsy hw t (ata_select hw t lba s)
      in if \<not> ok1 then (False, s1) else
      let (ok2, s2) = ata_wait_drdy hw t s1
      in if \<not> ok2 then (False, s2) else
      let (ok3, s3) = ata_wait_drq hw t (ata_command hw t lba 0x30 s2)
      in if \<not> ok3 then (False, s3) else
      let (err, s4) = ata_has_error hw t s3
      in if err then (False, s4) else
      let s5 = d_outb hw (io_base t + 7) 0xE7 (s4\<lparr>mach := hw_outsw hw (io_base t) b (mach s4)\<rparr>);
          (ok4, s6) = ata_wait_bsy hw t s5
      in if \<not> ok4 then (False, s6) else
      let (ok5, s7) = ata_wait_drdy hw t s6
      in if \<not> ok5 then (False, s7) else
      let (err2, s8) = ata_has_error hw t s7
      in (\<not> err2, s8))"

section \<open>Initialisation\<close>

definition disk_init_bios_boot_volume :: "'h hw \<Rightarrow> 'h disk_state \<Rightarrow> 'h disk_state" where
  "disk_init_bios_boot_volume hw s =
     (let bm = boot_media s;
          s1 = (if \<not> geometry_valid bm
                then s\<lparr>boot_media := bm\<lparr>bm_sectors_per_track := 18, bm_heads := 2, geometry_valid := True\<rparr>\<rparr>
                else s)
      in case boot_floppy_read hw 0 s1 of
           (None, s2) \<Rightarrow> s2
         | (Some b, s2) \<Rightarrow>
            (let s3 = d_log ''DISK120 bios-boot-sector-ready'' s2;
                 bm3 = boot_media s3;
                 total16 = ucast (load16 b 19) :: u32;
                 total32 = load32 b 32
             in s3\<lparr>boot_media := bm3\<lparr>
                  bm_sectors_per_track := (if bm_sectors_per_track bm3 = 0 then load16 b 24 else bm_sectors_per_track bm3),
                  bm_heads := (if bm_heads bm3 = 0 then load16 b 26 else bm_heads bm3),
                  bm_total_sectors := (if total16 \<noteq> 0 then total16 else total32)\<rparr>\<rparr>))"

definition ata_primary_matches_boot_sector :: "'h hw \<Rightarrow> 'h disk_state \<Rightarrow> bool \<times> 'h disk_state" where
  "ata_primary_matches_boot_sector hw s =
     (if ata_presence_mask s AND 1 = 0 then (False, s)
      else case ata_decode_physical_target 0 of None \<Rightarrow> (False, s) | Some t \<Rightarrow>
        (case disk_read_lba_internal hw t 0 s of
           (None, s1) \<Rightarrow> (False, s1)
         | (Some b, s1) \<Rightarrow>
             (list_all (\<lambda>i. b ! i = hw_phys hw (0x7C00 + of_nat i) (mach s1)) [0..<512], s1)))"

fun probe_targets :: "'h hw \<Rightarrow> u8 list \<Rightarrow> 'h disk_state \<Rightarrow> 'h disk_state" where
  "probe_targets hw [] s = s"
| "probe_targets hw (k # ks) s =
     (case ata_probe_physical_target hw k (d_log ''DISK130 ata-probe'' s) of (found, s1) \<Rightarrow>
        probe_targets hw ks
          (if found then s1\<lparr>ata_presence_mask := ata_presence_mask s1 OR push_bit (unat k) 1\<rparr> else s1))"

definition disk_init :: "'h hw \<Rightarrow> 'h disk_state \<Rightarrow> 'h disk_state" where
  "disk_init hw s =
     (let s0 = d_log ''DISK100 disk-init-start'' s;
          ph = (\<lambda>a. hw_phys hw a (mach s0));
          boot_flags = ph 0x0505;
          s1 = s0\<lparr>boot_media := \<lparr>drive_number = ph 0x0504,
                   bm_sectors_per_track = le16 (ph 0x0506) (ph 0x0507),
                   bm_heads = le16 (ph 0x0508) (ph 0x0509),
                   bm_total_sectors = 0,
                   is_boot_volume = (boot_flags AND 0x04 \<noteq> 0),
                   geometry_valid = (boot_flags AND 0x02 \<noteq> 0)\<rparr>,
                 ata_presence_mask := 0\<rparr>;
          s2 = (if is_boot_volume (boot_media s1) then disk_init_bios_boot_volume hw s1 else s1);
          s3 = probe_targets hw [0, 1, 2, 3] s2;
          s5 = (if is_boot_volume (boot_media s3) then s3
                else case ata_primary_matches_boot_sector hw s3 of
                   (True, s4) \<Rightarrow> s4
                 | (False, s4) \<Rightarrow>
                     disk_init_bios_boot_volume hw
                       (s4\<lparr>boot_media := (boot_media s4)\<lparr>is_boot_volume := True\<rparr>\<rparr>))
      in d_log ''DISK190 disk-init-ok'' s5)"

section \<open>The interface of the driver\<close>

definition disk_boot_media_is_floppy :: "'h disk_state \<Rightarrow> bool" where
  "disk_boot_media_is_floppy s = is_boot_volume (boot_media s)"

definition disk_boot_media_total_sectors :: "'h disk_state \<Rightarrow> u32" where
  "disk_boot_media_total_sectors s = bm_total_sectors (boot_media s)"

definition disk_is_present :: "u8 \<Rightarrow> 'h disk_state \<Rightarrow> bool" where
  "disk_is_present disk_id s =
     (if is_boot_volume (boot_media s) \<and> disk_id = 0 then True
      else case ata_disk_id_to_physical (boot_media s) disk_id of
        None \<Rightarrow> False
      | Some ata_id \<Rightarrow> ata_presence_mask s AND push_bit (unat ata_id) 1 \<noteq> 0)"

fun read_attempts :: "'h hw \<Rightarrow> ata_target_t \<Rightarrow> u32 \<Rightarrow> nat \<Rightarrow> 'h disk_state \<Rightarrow> u8 list option \<times> 'h disk_state" where
  "read_attempts hw t lba 0 s = (None, s)"
| "read_attempts hw t lba (Suc k) s =
     (case disk_read_lba_internal hw t lba s of
        (Some b, s1) \<Rightarrow> (Some b, s1)
      | (None, s1) \<Rightarrow> read_attempts hw t lba k (ata_soft_reset hw t s1))"

fun write_attempts :: "'h hw \<Rightarrow> ata_target_t \<Rightarrow> u32 \<Rightarrow> u8 list \<Rightarrow> nat \<Rightarrow> 'h disk_state \<Rightarrow> bool \<times> 'h disk_state" where
  "write_attempts hw t lba b 0 s = (False, s)"
| "write_attempts hw t lba b (Suc k) s =
     (case disk_write_lba_internal hw t lba b s of
        (True, s1) \<Rightarrow> (True, s1)
      | (False, s1) \<Rightarrow> write_attempts hw t lba b k (ata_soft_reset hw t s1))"

definition disk_read_lba_from_disk ::
    "'h hw \<Rightarrow> u8 \<Rightarrow> u32 \<Rightarrow> 'h disk_state \<Rightarrow> u8 list option \<times> 'h disk_state" where
  "disk_read_lba_from_disk hw disk_id lba s =
     (if is_boot_volume (boot_media s) \<and> disk_id = 0 then boot_floppy_read hw lba s
      else if \<not> disk_is_present disk_id s then (None, s)
      else case ata_decode_target (boot_media s) disk_id of
        None \<Rightarrow> (None, s)
      | Some t \<Rightarrow> read_attempts hw t lba 3 s)"

definition disk_write_lba_from_disk ::
    "'h hw \<Rightarrow> u8 \<Rightarrow> u32 \<Rightarrow> u8 list \<Rightarrow> 'h disk_state \<Rightarrow> bool \<times> 'h disk_state" where
  "disk_write_lba_from_disk hw disk_id lba b s =
     (if is_boot_volume (boot_media s) \<and> disk_id = 0 then boot_floppy_write hw lba b s
      else if \<not> disk_is_present disk_id s then (False, s)
      else case ata_decode_target (boot_media s) disk_id of
        None \<Rightarrow> (False, s)
      | Some t \<Rightarrow> write_attempts hw t lba b 3 s)"

definition disk_read_lba :: "'h hw \<Rightarrow> u32 \<Rightarrow> 'h disk_state \<Rightarrow> u8 list option \<times> 'h disk_state" where
  "disk_read_lba hw lba s = disk_read_lba_from_disk hw 0 lba s"

definition disk_write_lba :: "'h hw \<Rightarrow> u32 \<Rightarrow> u8 list \<Rightarrow> 'h disk_state \<Rightarrow> bool \<times> 'h disk_state" where
  "disk_write_lba hw lba b s = disk_write_lba_from_disk hw 0 lba b s"

end
