(* ===== verification/Drive.thy ===== *)
theory Drive
  imports Disk
begin

text \<open>
  The drive layer, \<^verbatim>\<open>src/src/kernel/storage/drive.c\<close>: the table of drive letters, detection of FAT
  volumes and MBR partitions on the boot medium and the ATA disks, and sector access through a
  letter. Screen and serial output is recorded; \<^verbatim>\<open>splash_active\<close> stands for the value of
  \<^verbatim>\<open>boot_splash_is_active()\<close>, which suppresses the boot messages.
\<close>

definition MAX_DRIVES :: nat where "MAX_DRIVES = 26"

record DriveInfo =
  valid :: bool
  disk_id :: u8
  partition_num :: int
  lba_start :: u32
  sector_count :: u32
  fs_type :: u8

record 'h drive_state =
  disk :: "'h disk_state"
  drives :: "DriveInfo list"
  current_drive :: int
  mbr_buffer :: "u8 list"
  splash_active :: bool
  dr_screen :: string
  dr_serial :: string

section \<open>Output helpers\<close>

text \<open>\<open>newline\<close> is the byte the C literals write as a backslash-n.\<close>

abbreviation newline :: string where "newline \<equiv> [CHR 0x0A]"

definition dr_print :: "string \<Rightarrow> 'h drive_state \<Rightarrow> 'h drive_state" where
  "dr_print str s = s\<lparr>dr_screen := dr_screen s @ str\<rparr>"

definition dr_serial_print :: "string \<Rightarrow> 'h drive_state \<Rightarrow> 'h drive_state" where
  "dr_serial_print str s = s\<lparr>dr_serial := dr_serial s @ str\<rparr>"

definition drive_boot_print :: "string \<Rightarrow> 'h drive_state \<Rightarrow> 'h drive_state" where
  "drive_boot_print str s = (if splash_active s then s else dr_print str s)"

definition hex_digit :: "nat \<Rightarrow> char" where
  "hex_digit n = ''0123456789ABCDEF'' ! n"

definition print_hex_byte :: "u8 \<Rightarrow> 'h drive_state \<Rightarrow> 'h drive_state" where
  "print_hex_byte val s =
     dr_print [hex_digit (unat (drop_bit 4 val)), hex_digit (unat (val AND 0x0F))] s"

text \<open>The digits of a number, least significant first, as \<^verbatim>\<open>print_num\<close> fills its buffer.\<close>

fun num_digits :: "nat \<Rightarrow> string" where
  "num_digits num = (if num = 0 then [] else char_of (48 + num mod 10 :: nat) # num_digits (num div 10))"

declare num_digits.simps [simp del]

definition print_num :: "u32 \<Rightarrow> 'h drive_state \<Rightarrow> 'h drive_state" where
  "print_num num s = dr_print (if num = 0 then ''0'' else rev (num_digits (unat num))) s"

definition drive_boot_print_num :: "u32 \<Rightarrow> 'h drive_state \<Rightarrow> 'h drive_state" where
  "drive_boot_print_num num s = (if splash_active s then s else print_num num s)"

section \<open>Slots\<close>

definition drive_reset_slots :: "'h drive_state \<Rightarrow> 'h drive_state" where
  "drive_reset_slots s = s\<lparr>drives := map (\<lambda>d. d\<lparr>valid := False\<rparr>) (drives s), current_drive := 0\<rparr>"

text \<open>The first slot from \<open>i\<close> on that is not valid, \<^verbatim>\<open>MAX_DRIVES\<close> if there is none.\<close>

definition drive_next_letter_index :: "'h drive_state \<Rightarrow> nat" where
  "drive_next_letter_index s = length (takeWhile valid (drives s))"

definition first_valid :: "DriveInfo list \<Rightarrow> nat option" where
  "first_valid ds = find (\<lambda>i. valid (ds ! i)) [0..<length ds]"

definition drive_select_first_valid :: "'h drive_state \<Rightarrow> 'h drive_state" where
  "drive_select_first_valid s =
     s\<lparr>current_drive := (case first_valid (drives s) of None \<Rightarrow> 0 | Some i \<Rightarrow> int i)\<rparr>"

section \<open>Detecting volumes\<close>

text \<open>0 for no FAT volume, 0x01 for FAT12, 0x06 for FAT16.\<close>

definition detect_fat_type :: "u8 list \<Rightarrow> u8" where
  "detect_fat_type b =
     (let bytes_per_sector = load16 b 11;
          sectors_per_cluster = b ! 13;
          reserved_sectors = load16 b 14;
          fat_count = b ! 16;
          root_entries = load16 b 17;
          total_sectors_16 = load16 b 19;
          sectors_per_fat = load16 b 22;
          total_sectors_32 = load32 b 32;
          total_sectors = (if total_sectors_16 \<noteq> 0 then ucast total_sectors_16 else total_sectors_32)
      in if bytes_per_sector \<noteq> 512 \<or> sectors_per_cluster = 0 \<or> reserved_sectors = 0 \<or> fat_count = 0
            \<or> sectors_per_fat = 0 \<or> root_entries = 0 \<or> total_sectors = 0 then 0
         else (let root_dir_sectors = (ucast root_entries * 32 + (ucast bytes_per_sector - 1))
                     div (ucast bytes_per_sector :: u32);
                   meta = ucast reserved_sectors + ucast fat_count * ucast sectors_per_fat + root_dir_sectors
               in if total_sectors \<le> meta then 0
                  else (let data_sectors = total_sectors - meta;
                            cluster_count = data_sectors div ucast sectors_per_cluster
                        in if cluster_count < 4085 then 0x01
                           else if cluster_count < 65525 then 0x06 else 0)))"

text \<open>\<^verbatim>\<open>disk_read_lba_from_disk(disk_id, 0, mbr_buffer)\<close>.\<close>

definition read_mbr :: "'h hw \<Rightarrow> u8 \<Rightarrow> 'h drive_state \<Rightarrow> bool \<times> 'h drive_state" where
  "read_mbr hw did s =
     (case disk_read_lba_from_disk hw did 0 (disk s) of
        (None, d) \<Rightarrow> (False, s\<lparr>disk := d\<rparr>)
      | (Some b, d) \<Rightarrow> (True, s\<lparr>disk := d, mbr_buffer := b\<rparr>))"

definition set_drive :: "nat \<Rightarrow> DriveInfo \<Rightarrow> 'h drive_state \<Rightarrow> 'h drive_state" where
  "set_drive k info s = s\<lparr>drives := (drives s)[k := info]\<rparr>"

text \<open>The results are the return value, \<^verbatim>\<open>*next_letter\<close> afterwards and the state.\<close>

definition detect_whole_disk_volume ::
    "'h hw \<Rightarrow> u8 \<Rightarrow> nat \<Rightarrow> 'h drive_state \<Rightarrow> bool \<times> nat \<times> 'h drive_state" where
  "detect_whole_disk_volume hw did next_letter s =
     (if next_letter \<ge> MAX_DRIVES then (False, next_letter, s)
      else case read_mbr hw did s of
        (False, s1) \<Rightarrow> (False, next_letter, s1)
      | (True, s1) \<Rightarrow>
         (let b = mbr_buffer s1 in
          if b ! 510 \<noteq> 0x55 \<or> b ! 511 \<noteq> 0xAA then (False, next_letter, s1)
          else (let ty = detect_fat_type b in
            if ty = 0 then (False, next_letter, s1)
            else (let t16 = load16 b 19; t32 = load32 b 32;
                      t = (if t16 \<noteq> 0 then ucast t16 else t32);
                      total = (if t = 0 \<and> did = 0 then disk_boot_media_total_sectors (disk s1) else t)
                  in if total = 0 then (False, next_letter, s1)
                     else (True, next_letter + 1,
                           set_drive next_letter \<lparr>valid = True, disk_id = did, partition_num = - 1,
                              lba_start = 0, sector_count = total, fs_type = ty\<rparr> s1)))))"

record MBR_PartitionEntry =
  partition_type :: u8
  part_lba_start :: u32
  part_sector_count :: u32

text \<open>Entry \<open>i\<close> of the partition table at offset 446; the CHS fields of the entry are never used.\<close>

definition mbr_partition :: "u8 list \<Rightarrow> nat \<Rightarrow> MBR_PartitionEntry" where
  "mbr_partition b i =
     \<lparr>partition_type = b ! (446 + 16 * i + 4),
      part_lba_start = load32 b (446 + 16 * i + 8),
      part_sector_count = load32 b (446 + 16 * i + 12)\<rparr>"

fun scan_partitions ::
    "u8 \<Rightarrow> nat list \<Rightarrow> nat \<Rightarrow> nat \<Rightarrow> 'h drive_state \<Rightarrow> nat \<times> nat \<times> 'h drive_state" where
  "scan_partitions did [] next_letter found s = (found, next_letter, s)"
| "scan_partitions did (i # is) next_letter found s =
     (let p = mbr_partition (mbr_buffer s) i in
      if partition_type p = 0 \<or> part_sector_count p = 0 then scan_partitions did is next_letter found s
      else if partition_type p = 0x05 \<or> partition_type p = 0x0F then scan_partitions did is next_letter found s
      else if next_letter < MAX_DRIVES then
        scan_partitions did is (next_letter + 1) (found + 1)
          (set_drive next_letter \<lparr>valid = True, disk_id = did, partition_num = int i,
             lba_start = part_lba_start p, sector_count = part_sector_count p,
             fs_type = partition_type p\<rparr> s)
      else scan_partitions did is next_letter found s)"

definition detect_disk_partitions ::
    "'h hw \<Rightarrow> u8 \<Rightarrow> nat \<Rightarrow> 'h drive_state \<Rightarrow> nat \<times> nat \<times> 'h drive_state" where
  "detect_disk_partitions hw did next_letter s =
     (case read_mbr hw did s of
        (False, s1) \<Rightarrow> (0, next_letter, s1)
      | (True, s1) \<Rightarrow>
          if load16 (mbr_buffer s1) 510 \<noteq> 0xAA55 then (0, next_letter, s1)
          else scan_partitions did [0, 1, 2, 3] next_letter 0 s1)"

section \<open>Initialisation\<close>

definition drive_init_boot_media :: "'h hw \<Rightarrow> 'h drive_state \<Rightarrow> 'h drive_state" where
  "drive_init_boot_media hw s =
     (let s1 = drive_reset_slots s;
          s2 = (if disk_boot_media_is_floppy (disk s1) then
                  (case detect_whole_disk_volume hw 0 0 s1 of
                     (True, _, t) \<Rightarrow> drive_boot_print (''  Boot floppy: whole-disk volume'' @ newline) t
                   | (False, _, t) \<Rightarrow> t)
                else s1)
      in drive_select_first_valid s2)"

fun probe_disks :: "'h hw \<Rightarrow> u8 list \<Rightarrow> nat \<Rightarrow> 'h drive_state \<Rightarrow> nat \<times> 'h drive_state" where
  "probe_disks hw [] next_letter s = (next_letter, s)"
| "probe_disks hw (d # ds) next_letter s =
     (if \<not> disk_is_present d (disk s) then probe_disks hw ds next_letter s
      else case detect_disk_partitions hw d next_letter s of (found, n1, s1) \<Rightarrow>
        if found > 0 then
          probe_disks hw ds n1
            (drive_boot_print ('' partition(s)'' @ newline) (drive_boot_print_num (of_nat found)
               (drive_boot_print '': '' (drive_boot_print_num (ucast d) (drive_boot_print ''  Disk '' s1)))))
        else (case detect_whole_disk_volume hw d n1 s1 of
            (True, n2, s2) \<Rightarrow>
              probe_disks hw ds n2
                (drive_boot_print ('': whole disk volume'' @ newline)
                   (drive_boot_print_num (ucast d) (drive_boot_print ''  Disk '' s2)))
          | (False, n2, s2) \<Rightarrow> probe_disks hw ds n2 s2))"

definition drive_probe_additional :: "'h hw \<Rightarrow> 'h drive_state \<Rightarrow> 'h drive_state" where
  "drive_probe_additional hw s =
     (let next0 = drive_next_letter_index s;
          s1 = drive_boot_print (''Detecting drives...'' @ newline) s;
          (n2, s2) = probe_disks hw (if disk_boot_media_is_floppy (disk s1) then [1, 2, 3] else [0, 1, 2, 3]) next0 s1;
          no_volume = (\<lambda>n t. (n, drive_boot_print (''  No boot volume or partitions found'' @ newline)
                              (dr_serial_print (''DISK021 no-boot-volume'' @ newline) t)));
          (n3, s3) = (if n2 \<noteq> 0 then (n2, s2)
                      else if disk_boot_media_is_floppy (disk s2) then
                        (case detect_whole_disk_volume hw 0 n2 s2 of
                           (True, n, t) \<Rightarrow> (n, drive_boot_print (''  Boot floppy fallback mounted as A:'' @ newline) t)
                         | (False, n, t) \<Rightarrow> no_volume n t)
                      else no_volume n2 s2)
      in drive_boot_print (newline @ newline) (drive_boot_print_num (of_nat n3)
           (drive_boot_print ''Total drives: '' (drive_select_first_valid s3))))"

definition drive_init :: "'h hw \<Rightarrow> 'h drive_state \<Rightarrow> 'h drive_state" where
  "drive_init hw s = drive_probe_additional hw (drive_init_boot_media hw s)"

section \<open>Using drives\<close>

definition drive_get_info :: "int \<Rightarrow> 'h drive_state \<Rightarrow> DriveInfo option" where
  "drive_get_info letter s =
     (if letter < 0 \<or> letter \<ge> int MAX_DRIVES then None
      else if \<not> valid (drives s ! nat letter) then None
      else Some (drives s ! nat letter))"

definition drive_read_sector :: "'h hw \<Rightarrow> int \<Rightarrow> u32 \<Rightarrow> 'h drive_state \<Rightarrow> u8 list option \<times> 'h drive_state" where
  "drive_read_sector hw letter lba s =
     (case drive_get_info letter s of None \<Rightarrow> (None, s)
      | Some info \<Rightarrow>
         (case disk_read_lba_from_disk hw (disk_id info) (lba_start info + lba) (disk s) of
            (r, d) \<Rightarrow> (r, s\<lparr>disk := d\<rparr>)))"

definition drive_write_sector :: "'h hw \<Rightarrow> int \<Rightarrow> u32 \<Rightarrow> u8 list \<Rightarrow> 'h drive_state \<Rightarrow> bool \<times> 'h drive_state" where
  "drive_write_sector hw letter lba b s =
     (case drive_get_info letter s of None \<Rightarrow> (False, s)
      | Some info \<Rightarrow>
         (case disk_write_lba_from_disk hw (disk_id info) (lba_start info + lba) b (disk s) of
            (r, d) \<Rightarrow> (r, s\<lparr>disk := d\<rparr>)))"

definition drive_get_current :: "'h drive_state \<Rightarrow> int \<times> 'h drive_state" where
  "drive_get_current s =
     (if current_drive s < 0 \<or> current_drive s \<ge> int MAX_DRIVES
         \<or> \<not> valid (drives s ! nat (current_drive s))
      then (case first_valid (drives s) of
              Some i \<Rightarrow> (int i, s\<lparr>current_drive := int i\<rparr>)
            | None \<Rightarrow> (0, s\<lparr>current_drive := 0\<rparr>))
      else (current_drive s, s))"

definition drive_set_current :: "int \<Rightarrow> 'h drive_state \<Rightarrow> 'h drive_state" where
  "drive_set_current letter s =
     (if letter \<ge> 0 \<and> letter < int MAX_DRIVES \<and> valid (drives s ! nat letter)
      then s\<lparr>current_drive := letter\<rparr> else s)"

definition drive_line :: "nat \<Rightarrow> DriveInfo \<Rightarrow> 'h drive_state \<Rightarrow> 'h drive_state" where
  "drive_line i d s =
     (let size_mb = sector_count d div 2048;
          s1 = dr_print '' '' (print_hex_byte (fs_type d) (dr_print ''Type 0x'' (dr_print '': ''
                 (dr_print [char_of (65 + i)] s))));
          s2 = (if size_mb > 0 then dr_print '' MB)'' (print_num size_mb (dr_print ''('' s1)) else s1);
          s3 = print_num (ucast (disk_id d)) (dr_print '' [Disk '' s2);
          s4 = (if partition_num d \<ge> 0
                then print_num (of_int (partition_num d + 1)) (dr_print '', Partition '' s3) else s3)
      in dr_print newline (dr_print '']'' s4))"

definition drive_list_all :: "'h drive_state \<Rightarrow> 'h drive_state" where
  "drive_list_all s =
     fold (\<lambda>i t. if valid (drives t ! i) then drive_line i (drives t ! i) t else t)
       [0..<MAX_DRIVES]
       (dr_print (''Available drives:'' @ newline @ newline)
          (dr_serial_print (''Available drives:'' @ newline) s))"

definition drive_get_count :: "'h drive_state \<Rightarrow> nat" where
  "drive_get_count s = length (filter valid (drives s))"

section \<open>The sector interface the FAT driver uses\<close>

definition drive_io :: "'h hw \<Rightarrow> 'h drive_state sector_io" where
  "drive_io hw = \<lparr>io_read = drive_read_sector hw, io_write = drive_write_sector hw\<rparr>"


section \<open>The volumes of the machine\<close>

text \<open>
  What the drive table should hold, given the sector 0 of every disk (\<open>None\<close>: it cannot be read). A
  disk holds the non-empty, non-extended entries of its partition table or, when there are none, one
  volume over the whole disk if its boot sector is that of a FAT volume. The boot floppy comes first
  and is never searched for partitions.
\<close>

definition is_volume :: "u8 list \<Rightarrow> nat \<Rightarrow> bool" where
  "is_volume b i \<longleftrightarrow> b ! (450 + 16 * i) \<notin> {0x00, 0x05, 0x0F} \<and> load32 b (458 + 16 * i) \<noteq> 0"

definition partition_volume :: "u8 \<Rightarrow> u8 list \<Rightarrow> nat \<Rightarrow> DriveInfo" where
  "partition_volume did b i =
     \<lparr>valid = True, disk_id = did, partition_num = int i, lba_start = load32 b (454 + 16 * i),
      sector_count = load32 b (458 + 16 * i), fs_type = b ! (450 + 16 * i)\<rparr>"

definition partition_volumes :: "u8 \<Rightarrow> u8 list option \<Rightarrow> DriveInfo list" where
  "partition_volumes did sector = (case sector of None \<Rightarrow> []
     | Some b \<Rightarrow> if load16 b 510 = 0xAA55 then map (partition_volume did b) (filter (is_volume b) [0..<4]) else [])"

definition whole_volume :: "u8 \<Rightarrow> u8 list option \<Rightarrow> DriveInfo list" where
  "whole_volume did sector = (case sector of None \<Rightarrow> []
     | Some b \<Rightarrow> if b ! 510 = 0x55 \<and> b ! 511 = 0xAA \<and> detect_fat_type b \<noteq> 0
         then [\<lparr>valid = True, disk_id = did, partition_num = - 1, lba_start = 0,
                sector_count = (if load16 b 19 \<noteq> 0 then ucast (load16 b 19) else load32 b 32), fs_type = detect_fat_type b\<rparr>]
         else [])"

definition disk_volumes :: "(u8 \<Rightarrow> u8 list option) \<Rightarrow> u8 \<Rightarrow> DriveInfo list" where
  "disk_volumes mbr did =
     (if partition_volumes did (mbr did) \<noteq> [] then partition_volumes did (mbr did) else whole_volume did (mbr did))"

definition machine_volumes :: "(u8 \<Rightarrow> u8 list option) \<Rightarrow> 'h disk_state \<Rightarrow> DriveInfo list" where
  "machine_volumes mbr ds =
     (let floppy = is_boot_volume (boot_media ds) in
      (if floppy then whole_volume 0 (mbr 0) else [])
      @ concat (map (disk_volumes mbr) (filter (\<lambda>did. disk_is_present did ds) (if floppy then [1, 2, 3] else [0, 1, 2, 3]))))"

lemma whole_volume_length: "length (whole_volume did sector) \<le> 1"
  by (simp add: whole_volume_def split: option.split)

lemma disk_volumes_length: "length (disk_volumes mbr did) \<le> 4"
  using whole_volume_length [of did "mbr did"]
  by (auto simp: disk_volumes_def partition_volumes_def simp del: upt_Suc split: option.splits
      intro!: order_trans [OF length_filter_le])

lemma volumes_valid:
  "v \<in> set (whole_volume did sector) \<Longrightarrow> valid v" "v \<in> set (partition_volumes did sector) \<Longrightarrow> valid v"
  by (auto simp: whole_volume_def partition_volumes_def partition_volume_def split: option.splits if_splits)

section \<open>Reading a sector keeps the disk configuration\<close>

definition same_media :: "'h disk_state \<Rightarrow> 'h disk_state \<Rightarrow> bool" where
  "same_media s t \<longleftrightarrow> boot_media t = boot_media s \<and> ata_presence_mask t = ata_presence_mask s"

lemma media_steps [simp]:
  "boot_media (d_outb hw port v s) = boot_media s" "ata_presence_mask (d_outb hw port v s) = ata_presence_mask s"
  "boot_media (snd (d_inb hw port s)) = boot_media s" "ata_presence_mask (snd (d_inb hw port s)) = ata_presence_mask s"
  "boot_media (d_log msg s) = boot_media s" "ata_presence_mask (d_log msg s) = ata_presence_mask s"
  "boot_media (ata_wait_pump hw n s) = boot_media s" "ata_presence_mask (ata_wait_pump hw n s) = ata_presence_mask s"
  by (simp_all add: d_outb_def d_inb_def d_log_def ata_wait_pump_def split_beta)

lemma media_io [simp]:
  "boot_media (io_wait4 hw s) = boot_media s" "ata_presence_mask (io_wait4 hw s) = ata_presence_mask s"
  "boot_media (io_wait hw s) = boot_media s" "ata_presence_mask (io_wait hw s) = ata_presence_mask s"
  "boot_media (ata_soft_reset hw t s) = boot_media s" "ata_presence_mask (ata_soft_reset hw t s) = ata_presence_mask s"
  "boot_media (ata_select hw t lba s) = boot_media s" "ata_presence_mask (ata_select hw t lba s) = ata_presence_mask s"
  "boot_media (ata_command hw t lba c s) = boot_media s" "ata_presence_mask (ata_command hw t lba c s) = ata_presence_mask s"
  by (simp_all add: io_wait4_def io_wait_def ata_soft_reset_def ata_select_def ata_command_def)

lemma media_status [simp]:
  "boot_media (snd (ata_status hw t s)) = boot_media s" "ata_presence_mask (snd (ata_status hw t s)) = ata_presence_mask s"
  "boot_media (snd (ata_has_error hw t s)) = boot_media s" "ata_presence_mask (snd (ata_has_error hw t s)) = ata_presence_mask s"
  by (simp_all add: ata_status_def ata_has_error_def split_beta)

lemma media_bsy: "same_media s (snd (wait_bsy_loop hw t n s))"
proof (induction hw t n s rule: wait_bsy_loop.induct)
  case (1 hw t n s)
  then show ?case unfolding wait_bsy_loop.simps [of hw t n s]
    by (auto simp: same_media_def split_beta prod_eq_iff)
qed

lemma media_drdy: "same_media s (snd (wait_drdy_loop hw t n s))"
proof (induction hw t n s rule: wait_drdy_loop.induct)
  case (1 hw t n s)
  then show ?case unfolding wait_drdy_loop.simps [of hw t n s]
    by (auto simp: same_media_def split_beta prod_eq_iff)
qed

lemma media_drq: "same_media s (snd (wait_drq_loop hw t n s))"
proof (induction hw t n s rule: wait_drq_loop.induct)
  case (1 hw t n s)
  then show ?case unfolding wait_drq_loop.simps [of hw t n s]
    by (auto simp: same_media_def split_beta prod_eq_iff)
qed

lemma media_wait [simp]:
  "boot_media (snd (ata_wait_bsy hw t s)) = boot_media s" "ata_presence_mask (snd (ata_wait_bsy hw t s)) = ata_presence_mask s"
  "boot_media (snd (ata_wait_drdy hw t s)) = boot_media s" "ata_presence_mask (snd (ata_wait_drdy hw t s)) = ata_presence_mask s"
  "boot_media (snd (ata_wait_drq hw t s)) = boot_media s" "ata_presence_mask (snd (ata_wait_drq hw t s)) = ata_presence_mask s"
  by (simp_all add: ata_wait_bsy_def ata_wait_drdy_def ata_wait_drq_def
      media_bsy [unfolded same_media_def] media_drdy [unfolded same_media_def] media_drq [unfolded same_media_def])

lemma media_read_internal: "same_media s (snd (disk_read_lba_internal hw t lba s))"
  by (simp add: disk_read_lba_internal_def Let_def split_beta same_media_def)

lemma media_read_attempts: "same_media s (snd (read_attempts hw t lba k s))"
proof (induction k arbitrary: s)
  case (Suc k)
  have m: "same_media s (snd (disk_read_lba_internal hw t lba s))" by (rule media_read_internal)
  then show ?case
    using Suc.IH [of "ata_soft_reset hw t (snd (disk_read_lba_internal hw t lba s))"]
    by (auto simp: same_media_def split: prod.splits option.splits)
qed (simp add: same_media_def)

lemma media_read: "same_media s (snd (disk_read_lba_from_disk hw did lba s))"
  by (simp add: disk_read_lba_from_disk_def boot_floppy_read_def same_media_def split_beta
      media_read_attempts [unfolded same_media_def] split: option.split)

section \<open>Drive letters\<close>

text \<open>The 26 slots of the table hold the volumes \<open>vs\<close>, in order and without gaps.\<close>

definition holds_table :: "DriveInfo list \<Rightarrow> DriveInfo list \<Rightarrow> bool" where
  "holds_table vs ds \<longleftrightarrow> length ds = MAX_DRIVES \<and> (\<forall>v \<in> set vs. valid v)
     \<and> (\<exists>rest. ds = vs @ rest \<and> (\<forall>d \<in> set rest. \<not> valid d))"

lemma holds_add:
  assumes "holds_table vs ds" "length vs < MAX_DRIVES" "valid info"
  shows "holds_table (vs @ [info]) (ds[length vs := info])"
proof -
  obtain rest where r: "ds = vs @ rest" "\<forall>d \<in> set rest. \<not> valid d" "length ds = MAX_DRIVES" "\<forall>v \<in> set vs. valid v"
    using assms(1) by (auto simp: holds_table_def)
  then obtain x xs where "rest = x # xs" using assms(2) by (cases rest) auto
  with r assms(3) show ?thesis by (auto simp: holds_table_def)
qed

lemma holds_reset: "length (drives s) = MAX_DRIVES \<Longrightarrow> holds_table [] (drives (drive_reset_slots s))"
  by (simp add: holds_table_def drive_reset_slots_def)

lemma holds_next: "holds_table vs (drives s) \<Longrightarrow> drive_next_letter_index s = length vs"
proof -
  assume "holds_table vs (drives s)"
  then obtain rest where r: "drives s = vs @ rest" "\<forall>d \<in> set rest. \<not> valid d" "\<forall>v \<in> set vs. valid v"
    by (auto simp: holds_table_def)
  have "takeWhile valid rest = []" using r(2) by (cases rest) simp_all
  with r show ?thesis by (simp add: drive_next_letter_index_def)
qed

lemma holds_count: "holds_table vs (drives s) \<Longrightarrow> drive_get_count s = length vs"
  by (auto simp: holds_table_def drive_get_count_def filter_empty_conv filter_id_conv)

lemma holds_first: "holds_table vs ds \<Longrightarrow> first_valid ds = (if vs = [] then None else Some 0)"
  by (cases vs) (auto simp: holds_table_def first_valid_def MAX_DRIVES_def find_None_iff upt_conv_Cons simp del: upt_Suc)

lemma holds_info:
  "holds_table vs (drives s) \<Longrightarrow> drive_get_info (int i) s = (if i < length vs then Some (vs ! i) else None)"
proof -
  assume h: "holds_table vs (drives s)"
  then obtain rest where r: "drives s = vs @ rest" "\<forall>d \<in> set rest. \<not> valid d" "\<forall>v \<in> set vs. valid v"
    "length vs + length rest = MAX_DRIVES"
    by (auto simp: holds_table_def)
  show ?thesis using r by (auto simp: drive_get_info_def nth_append)
qed

named_theorems drive_frame \<open>operations that leave the drive table alone\<close>

lemma drives_print [drive_frame, simp]:
  "drives (dr_print str s) = drives s" "drives (dr_serial_print str s) = drives s"
  "drives (drive_boot_print str s) = drives s" "drives (print_num n s) = drives s"
  "drives (drive_boot_print_num n s) = drives s"
  by (simp_all add: dr_print_def dr_serial_print_def drive_boot_print_def print_num_def drive_boot_print_num_def)

lemma disk_print [drive_frame, simp]:
  "disk (dr_print str s) = disk s" "disk (dr_serial_print str s) = disk s"
  "disk (drive_boot_print str s) = disk s" "disk (print_num n s) = disk s"
  "disk (drive_boot_print_num n s) = disk s"
  by (simp_all add: dr_print_def dr_serial_print_def drive_boot_print_def print_num_def drive_boot_print_num_def)

text \<open>Sector 0 of every disk reads the same each time: reading changes neither the media nor the
  readiness of the machine.\<close>

locale boot_sectors =
  fixes hw :: "'h hw" and ready :: "'h disk_state \<Rightarrow> bool" and mbr :: "u8 \<Rightarrow> u8 list option"
  assumes read_sector0: "ready ds \<Longrightarrow> \<exists>ds'. disk_read_lba_from_disk hw did 0 ds = (mbr did, ds') \<and> ready ds'"

text \<open>The state of the search: the volumes found so far are in the table, the disks are as in \<open>ds\<close>.\<close>

definition probing :: "('h disk_state \<Rightarrow> bool) \<Rightarrow> 'h disk_state \<Rightarrow> DriveInfo list \<Rightarrow> 'h drive_state \<Rightarrow> bool" where
  "probing ready ds vs s \<longleftrightarrow> holds_table vs (drives s) \<and> ready (disk s) \<and> same_media ds (disk s)"

lemma probing_print [simp]:
  "probing ready ds vs (drive_boot_print str s) = probing ready ds vs s"
  "probing ready ds vs (drive_boot_print_num n s) = probing ready ds vs s"
  "probing ready ds vs (dr_serial_print str s) = probing ready ds vs s"
  by (simp_all add: probing_def)

lemma probing_present: "probing ready ds vs s \<Longrightarrow> disk_is_present did (disk s) = disk_is_present did ds"
  by (simp add: probing_def same_media_def disk_is_present_def split: option.split)

lemma probing_add:
  "probing ready ds vs s \<Longrightarrow> length vs < MAX_DRIVES \<Longrightarrow> valid info \<Longrightarrow> probing ready ds (vs @ [info]) (set_drive (length vs) info s)"
  by (simp add: probing_def set_drive_def holds_add)

lemma scan_partitions_volumes:
  assumes "probing ready ds vs s" "length vs + length is \<le> MAX_DRIVES"
  shows "\<exists>s'. let ps = map (partition_volume did (mbr_buffer s)) (filter (is_volume (mbr_buffer s)) is) in
     scan_partitions did is (length vs) k s = (k + length ps, length (vs @ ps), s') \<and> probing ready ds (vs @ ps) s'"
  using assms
proof (induction "is" arbitrary: vs k s)
  case (Cons i "is")
  let ?b = "mbr_buffer s"
  have p: "mbr_partition ?b i = \<lparr>partition_type = ?b ! (450 + 16 * i), part_lba_start = load32 ?b (454 + 16 * i),
      part_sector_count = load32 ?b (458 + 16 * i)\<rparr>"
    by (simp add: mbr_partition_def add.commute [of _ "16 * i"])
  show ?case
  proof (cases "is_volume ?b i")
    case True
    let ?v = "partition_volume did ?b i"
    let ?t = "set_drive (length vs) ?v s"
    have t: "probing ready ds (vs @ [?v]) ?t" "mbr_buffer ?t = ?b"
      using probing_add [OF Cons.prems(1), of ?v] Cons.prems(2) by (simp_all add: partition_volume_def set_drive_def)
    have "scan_partitions did (i # is) (length vs) k s = scan_partitions did is (length (vs @ [?v])) (k + 1) ?t"
      using True Cons.prems(2) by (simp add: p is_volume_def partition_volume_def Let_def)
    with Cons.IH [OF t(1), of "k + 1"] Cons.prems(2) t(2) True show ?thesis by (simp add: Let_def)
  next
    case False
    then have "scan_partitions did (i # is) (length vs) k s = scan_partitions did is (length vs) k s"
      by (auto simp: p is_volume_def Let_def)
    with Cons.IH [OF Cons.prems(1), of k] Cons.prems(2) False show ?thesis by simp
  qed
qed simp

lemma fat_total: "detect_fat_type b \<noteq> 0 \<Longrightarrow> (if load16 b 19 \<noteq> 0 then ucast (load16 b 19) else load32 b 32) \<noteq> (0 :: u32)"
  by (auto simp: detect_fat_type_def Let_def split: if_splits)

context boot_sectors
begin

lemma read_mbr_sector:
  assumes "probing ready ds vs s"
  shows "\<exists>s'. read_mbr hw did s = (mbr did \<noteq> None, s') \<and> probing ready ds vs s' \<and> (\<forall>b. mbr did = Some b \<longrightarrow> mbr_buffer s' = b)"
proof -
  obtain d where d: "disk_read_lba_from_disk hw did 0 (disk s) = (mbr did, d)" "ready d"
    using read_sector0 [of "disk s"] assms by (auto simp: probing_def)
  have "same_media ds d" using media_read [of "disk s" hw did 0] assms by (simp add: d probing_def same_media_def)
  with d assms show ?thesis
    by (cases "mbr did") (auto simp: read_mbr_def probing_def)
qed

lemma whole_disk_volumes:
  assumes s: "probing ready ds vs s" and n: "length vs < MAX_DRIVES"
  shows "\<exists>s'. detect_whole_disk_volume hw did (length vs) s
      = (whole_volume did (mbr did) \<noteq> [], length (vs @ whole_volume did (mbr did)), s')
    \<and> probing ready ds (vs @ whole_volume did (mbr did)) s'"
proof -
  obtain s1 where s1: "read_mbr hw did s = (mbr did \<noteq> None, s1)" "probing ready ds vs s1" "\<And>b. mbr did = Some b \<Longrightarrow> mbr_buffer s1 = b"
    using read_mbr_sector [OF s] by blast
  show ?thesis
  proof (cases "whole_volume did (mbr did)")
    case Nil
    have "detect_whole_disk_volume hw did (length vs) s = (False, length vs, s1)"
      using n s1 Nil fat_total
      by (cases "mbr did") (auto simp: detect_whole_disk_volume_def whole_volume_def Let_def split: if_splits)
    with Nil s1(2) show ?thesis by simp
  next
    case (Cons v rest)
    then obtain b where b: "mbr did = Some b" "b ! 510 = 0x55" "b ! 511 = 0xAA" "detect_fat_type b \<noteq> 0"
      and v: "v = \<lparr>valid = True, disk_id = did, partition_num = - 1, lba_start = 0,
        sector_count = (if load16 b 19 \<noteq> 0 then ucast (load16 b 19) else load32 b 32), fs_type = detect_fat_type b\<rparr>" "rest = []"
      by (auto simp: whole_volume_def split: option.splits if_splits)
    have "detect_whole_disk_volume hw did (length vs) s = (True, length vs + 1, set_drive (length vs) v s1)"
      using n s1 b fat_total [OF b(4)] v(1) by (simp add: detect_whole_disk_volume_def Let_def split del: if_split)
    with Cons v(2) probing_add [OF s1(2) n, of v] v(1) show ?thesis by simp
  qed
qed

lemma partitions_volumes:
  assumes s: "probing ready ds vs s" and n: "length vs + 4 \<le> MAX_DRIVES"
  shows "\<exists>s'. detect_disk_partitions hw did (length vs) s
      = (length (partition_volumes did (mbr did)), length (vs @ partition_volumes did (mbr did)), s')
    \<and> probing ready ds (vs @ partition_volumes did (mbr did)) s'"
proof -
  obtain s1 where s1: "read_mbr hw did s = (mbr did \<noteq> None, s1)" "probing ready ds vs s1" "\<And>b. mbr did = Some b \<Longrightarrow> mbr_buffer s1 = b"
    using read_mbr_sector [OF s] by blast
  have four: "[0..<4] = [0, 1, 2, 3::nat]" by (simp add: upt_rec)
  show ?thesis
  proof (cases "\<exists>b. mbr did = Some b \<and> load16 b 510 = 0xAA55")
    case True
    then obtain b where b: "mbr did = Some b" "load16 b 510 = 0xAA55" by blast
    have "partition_volumes did (mbr did) = map (partition_volume did (mbr_buffer s1)) (filter (is_volume (mbr_buffer s1)) [0, 1, 2, 3])"
      using b s1(3) by (simp add: partition_volumes_def four)
    then show ?thesis using scan_partitions_volumes [OF s1(2), of "[0, 1, 2, 3]" did 0] n s1 b
      by (simp add: detect_disk_partitions_def Let_def)
  next
    case False
    then show ?thesis using s1 by (cases "mbr did") (auto simp: detect_disk_partitions_def partition_volumes_def)
  qed
qed

lemma probe_disks_volumes:
  assumes "probing ready ds vs s" "length vs + 4 * length dids < MAX_DRIVES"
  shows "\<exists>s'. let us = concat (map (disk_volumes mbr) (filter (\<lambda>did. disk_is_present did ds) dids)) in
     probe_disks hw dids (length vs) s = (length (vs @ us), s') \<and> probing ready ds (vs @ us) s'"
  using assms
proof (induction dids arbitrary: vs s)
  case (Cons d dids)
  show ?case
  proof (cases "disk_is_present d ds")
    case False
    then show ?thesis using Cons.IH [OF Cons.prems(1)] Cons.prems(2) probing_present [OF Cons.prems(1), of d] by simp
  next
    case True
    obtain s1 where s1: "detect_disk_partitions hw d (length vs) s
        = (length (partition_volumes d (mbr d)), length (vs @ partition_volumes d (mbr d)), s1)"
      "probing ready ds (vs @ partition_volumes d (mbr d)) s1"
      using partitions_volumes [OF Cons.prems(1), of d] Cons.prems(2) by auto
    have "\<exists>t. probe_disks hw (d # dids) (length vs) s = probe_disks hw dids (length (vs @ disk_volumes mbr d)) t
        \<and> probing ready ds (vs @ disk_volumes mbr d) t"
    proof (cases "partition_volumes d (mbr d) = []")
      case no: True
      obtain s2 where s2: "detect_whole_disk_volume hw d (length vs) s1
          = (whole_volume d (mbr d) \<noteq> [], length (vs @ whole_volume d (mbr d)), s2)"
        "probing ready ds (vs @ whole_volume d (mbr d)) s2"
        using whole_disk_volumes [of ds vs s1 d] s1(2) no Cons.prems(2) by auto
      show ?thesis
      proof (cases "whole_volume d (mbr d) = []")
        case none: True
        show ?thesis by (rule exI [of _ s2])
          (use s1(1) s2 no none True probing_present [OF Cons.prems(1), of d] in \<open>simp add: disk_volumes_def\<close>)
      next
        case False
        show ?thesis by (rule exI [of _ "drive_boot_print ('': whole disk volume'' @ newline)
            (drive_boot_print_num (ucast d) (drive_boot_print ''  Disk '' s2))"])
          (use s1(1) s2 no False True probing_present [OF Cons.prems(1), of d] in \<open>simp add: disk_volumes_def\<close>)
      qed
    next
      case False
      show ?thesis by (rule exI [of _ "drive_boot_print ('' partition(s)'' @ newline)
            (drive_boot_print_num (of_nat (length (partition_volumes d (mbr d))))
              (drive_boot_print '': '' (drive_boot_print_num (ucast d) (drive_boot_print ''  Disk '' s1))))"])
        (use s1 False True probing_present [OF Cons.prems(1), of d] in \<open>simp add: disk_volumes_def\<close>)
    qed
    then obtain t where t: "probe_disks hw (d # dids) (length vs) s = probe_disks hw dids (length (vs @ disk_volumes mbr d)) t"
      "probing ready ds (vs @ disk_volumes mbr d) t" by blast
    have "length (vs @ disk_volumes mbr d) + 4 * length dids < MAX_DRIVES"
      using Cons.prems(2) disk_volumes_length [of mbr d] by simp
    from Cons.IH [OF t(2) this] True show ?thesis by (simp add: t(1) Let_def del: probe_disks.simps)
  qed
qed simp

lemma boot_media_volumes:
  assumes len: "length (drives s) = MAX_DRIVES" and r: "ready (disk s)"
  shows "probing ready (disk s) (if is_boot_volume (boot_media (disk s)) then whole_volume 0 (mbr 0) else []) (drive_init_boot_media hw s)"
proof -
  let ?s1 = "drive_reset_slots s"
  have s1: "probing ready (disk s) [] ?s1"
    using holds_reset [OF len] r by (simp add: probing_def drive_reset_slots_def same_media_def)
  obtain t where t: "detect_whole_disk_volume hw 0 0 ?s1 = (whole_volume 0 (mbr 0) \<noteq> [], length (whole_volume 0 (mbr 0)), t)"
    "probing ready (disk s) (whole_volume 0 (mbr 0)) t"
    using whole_disk_volumes [OF s1, of 0] by (auto simp: MAX_DRIVES_def)
  have keep: "probing ready (disk s) vs (drive_select_first_valid u) = probing ready (disk s) vs u" for vs u
    by (simp add: probing_def drive_select_first_valid_def)
  have fl: "disk_boot_media_is_floppy (disk ?s1) = is_boot_volume (boot_media (disk s))"
    by (simp add: disk_boot_media_is_floppy_def drive_reset_slots_def)
  show ?thesis using s1 t
    by (cases "whole_volume 0 (mbr 0) = []") (simp_all add: drive_init_boot_media_def Let_def keep fl)
qed

lemma additional_volumes:
  assumes s: "probing ready ds (if is_boot_volume (boot_media ds) then whole_volume 0 (mbr 0) else []) s"
  shows "probing ready ds (machine_volumes mbr ds) (drive_probe_additional hw s)
    \<and> current_drive (drive_probe_additional hw s) = 0"
proof -
  define fl where "fl = is_boot_volume (boot_media ds)"
  define vs where "vs = (if fl then whole_volume 0 (mbr 0) else [])"
  define dids where "dids = (if fl then [1, 2, 3] else [0, 1, 2, 3 :: u8])"
  let ?s1 = "drive_boot_print (''Detecting drives...'' @ newline) s"
  have s1: "probing ready ds vs ?s1" using s by (simp add: vs_def fl_def)
  have "length vs + 4 * length dids < MAX_DRIVES"
    using whole_volume_length [of 0 "mbr 0"] by (simp add: vs_def dids_def MAX_DRIVES_def)
  from probe_disks_volumes [OF s1 this] obtain s2 where
    s2: "probe_disks hw dids (length vs) ?s1 = (length (machine_volumes mbr ds), s2)" "probing ready ds (machine_volumes mbr ds) s2"
    by (auto simp: machine_volumes_def Let_def fl_def vs_def dids_def)
  have f: "disk_boot_media_is_floppy (disk t) = fl" if "probing ready ds us t" for us t
    using that by (simp add: probing_def same_media_def disk_boot_media_is_floppy_def fl_def)
  have nxt: "drive_next_letter_index s = length vs" using holds_next s1 by (auto simp: probing_def)
  have w: "\<exists>t. detect_whole_disk_volume hw 0 (length (machine_volumes mbr ds)) s2 = (False, length (machine_volumes mbr ds), t)
      \<and> probing ready ds (machine_volumes mbr ds) t" if "fl" "machine_volumes mbr ds = []"
    using whole_disk_volumes [OF s2(2), of 0] that by (auto simp: machine_volumes_def MAX_DRIVES_def fl_def Let_def)
  have sel: "probing ready ds us (drive_select_first_valid t) = probing ready ds us t"
    "probing ready ds us t \<Longrightarrow> current_drive (drive_select_first_valid t) = 0" for us t
    using holds_first [of us "drives t"] by (simp_all add: probing_def drive_select_first_valid_def)
  have cur: "current_drive (drive_boot_print str t) = current_drive t"
    "current_drive (drive_boot_print_num k t) = current_drive t" for str k t
    by (simp_all add: drive_boot_print_def drive_boot_print_num_def dr_print_def print_num_def)
  have fin: "probing ready ds (machine_volumes mbr ds) t \<Longrightarrow>
    drive_probe_additional hw s = drive_boot_print (newline @ newline) (drive_boot_print_num ka
      (drive_boot_print ''Total drives: '' (drive_select_first_valid t))) \<Longrightarrow> ?thesis" for t ka
    by (simp add: cur sel)
  show ?thesis
  proof (cases "machine_volumes mbr ds = [] \<and> fl")
    case True
    obtain t where t: "detect_whole_disk_volume hw 0 (length (machine_volumes mbr ds)) s2 = (False, length (machine_volumes mbr ds), t)"
      "probing ready ds (machine_volumes mbr ds) t" using w True by blast
    show ?thesis
      by (rule fin) (use t s2 True f [OF s1] f [OF s2(2)] in
        \<open>auto simp: drive_probe_additional_def nxt Let_def dids_def\<close>)
  next
    case False
    show ?thesis
    proof (cases "machine_volumes mbr ds = []")
      case True
      show ?thesis
        by (rule fin) (use s2 True False f [OF s1] f [OF s2(2)] in
          \<open>auto simp: drive_probe_additional_def nxt Let_def dids_def\<close>)
    next
      case ne: False
      show ?thesis
        by (rule fin)
          (use s2 ne f [OF s1] in \<open>auto simp: drive_probe_additional_def nxt Let_def dids_def\<close>)
    qed
  qed
qed

lemma drive_init_volumes:
  assumes "length (drives s) = MAX_DRIVES" "ready (disk s)"
  shows "holds_table (machine_volumes mbr (disk s)) (drives (drive_init hw s)) \<and> current_drive (drive_init hw s) = 0"
  using additional_volumes [OF boot_media_volumes [OF assms]] by (simp add: drive_init_def probing_def)

end

section \<open>Geometry of the boot volume\<close>

text \<open>
  What the translation returns: the sector within the track (from 1) and the head are in range,
  and the cylinder is exact as long as it fits in 16 bits.
\<close>

lemma lba_to_chs_SomeD:
  assumes "boot_floppy_lba_to_chs bm lba = Some (c, h, sec)"
  shows "unat sec = unat lba mod unat (bm_sectors_per_track bm) + 1"
    and "unat h = unat lba div unat (bm_sectors_per_track bm) mod unat (bm_heads bm)"
    and "unat lba div unat (bm_sectors_per_track bm) div unat (bm_heads bm) < 65536 \<Longrightarrow>
         unat c = unat lba div unat (bm_sectors_per_track bm) div unat (bm_heads bm)"
    and "0 < unat (bm_sectors_per_track bm)" "0 < unat (bm_heads bm)"
proof -
  let ?S = "bm_sectors_per_track bm" and ?H = "bm_heads bm"
  have nz: "?S \<noteq> 0" "?H \<noteq> 0" and
    eq: "c = ucast (lba div ucast ?S div ucast ?H :: u32)" "h = ucast (lba div ucast ?S mod ucast ?H :: u32)"
      "sec = ucast (lba mod ucast ?S + 1 :: u32)"
    using assms by (auto simp: boot_floppy_lba_to_chs_def Let_def split: if_splits)
  from nz show pos: "0 < unat ?S" "0 < unat ?H" by (simp_all add: word_unat_eq_iff)
  have md: "unat lba mod unat ?S < unat ?S" "unat lba div unat ?S mod unat ?H < unat ?H"
    using pos by simp_all
  have "unat (lba mod ucast ?S + 1 :: u32) = unat lba mod unat ?S + 1"
    using md unat_u16_bound [of ?S] by (simp add: unat_word_ariths)
  then show "unat sec = unat lba mod unat ?S + 1"
    using md unat_u16_bound [of ?S] unfolding eq by (subst unat_ucast_32_16) auto
  show "unat h = unat lba div unat ?S mod unat ?H"
    using md unat_u16_bound [of ?H] unfolding eq
    by (subst unat_ucast_32_16) (auto simp: unat_div_distrib unat_mod_distrib)
  show "unat c = unat lba div unat ?S div unat ?H"
    if "unat lba div unat ?S div unat ?H < 65536"
    using that unfolding eq by (subst unat_ucast_32_16) (auto simp: unat_div_distrib)
qed

definition chs_to_lba :: "u16 \<Rightarrow> u16 \<Rightarrow> nat \<Rightarrow> nat \<Rightarrow> nat \<Rightarrow> nat" where
  "chs_to_lba spt nheads c h sec = (c * unat nheads + h) * unat spt + sec - 1"

lemma lba_to_chs_inverse:
  assumes chs: "boot_floppy_lba_to_chs bm lba = Some (c, h, sec)"
    and small: "unat lba < 65536 * unat (bm_heads bm) * unat (bm_sectors_per_track bm)"
  shows "chs_to_lba (bm_sectors_per_track bm) (bm_heads bm) (unat c) (unat h) (unat sec) = unat lba"
    and "unat h < unat (bm_heads bm)" and "1 \<le> unat sec" and "unat sec \<le> unat (bm_sectors_per_track bm)"
proof -
  note d = lba_to_chs_SomeD [OF chs]
  let ?S = "unat (bm_sectors_per_track bm)" and ?H = "unat (bm_heads bm)"
  have "unat lba div ?S < 65536 * ?H" using small d(4) by (simp add: div_less_iff_less_mult mult.assoc mult.commute)
  then have "unat lba div ?S div ?H < 65536" using d(5) by (simp add: div_less_iff_less_mult)
  from d(3) [OF this] have "unat c * ?H + unat h = unat lba div ?S" by (simp add: d(2))
  then show "chs_to_lba (bm_sectors_per_track bm) (bm_heads bm) (unat c) (unat h) (unat sec) = unat lba"
    by (simp add: chs_to_lba_def d(1))
  show "unat h < ?H" "1 \<le> unat sec" "unat sec \<le> ?S"
    using d(1,2,4,5) mod_less_divisor [OF d(4), of "unat lba"] by simp_all
qed

lemma lba_to_chs_total:
  assumes "is_boot_volume bm" "bm_sectors_per_track bm \<noteq> 0" "bm_heads bm \<noteq> 0"
    "bm_total_sectors bm = 0 \<or> lba < bm_total_sectors bm"
  shows "\<exists>c h sec. boot_floppy_lba_to_chs bm lba = Some (c, h, sec)"
  using assms by (auto simp: boot_floppy_lba_to_chs_def Let_def word_unat_eq_iff)

section \<open>The BIOS disk service as a sector device\<close>

text \<open>
  What the driver relies on from the BIOS disk service (INT 13h through the thunk of
  \<^verbatim>\<open>entry.asm\<close>) for one boot drive: a transfer at a valid CHS address of the medium returns 0,
  a read delivers the sector of the medium, a write replaces it.
\<close>

locale bios_service =
  fixes hw :: "'h hw"
    and drv :: u8 and spt :: u16 and nheads :: u16 and cap :: nat
    and bios_ok :: "'h \<Rightarrow> bool" and medium :: "'h \<Rightarrow> image"
  assumes geometry: "0 < unat spt" "0 < unat nheads" "cap \<le> 2 ^ 32" "cap \<le> 65536 * unat nheads * unat spt"
    and bios_read: "\<lbrakk> bios_ok m; unat h < unat nheads; 1 \<le> unat sec; unat sec \<le> unat spt;
        chs_to_lba spt nheads (unat c) (unat h) (unat sec) < cap \<rbrakk> \<Longrightarrow>
      \<exists>m'. hw_bios_read hw (ucast drv) (ucast (c :: u16)) (ucast (h :: u16)) (ucast (sec :: u16)) m
           = ((0, sector_at (medium m) (chs_to_lba spt nheads (unat c) (unat h) (unat sec))), m')
         \<and> bios_ok m' \<and> medium m' = medium m"
    and bios_write: "\<lbrakk> bios_ok m; unat h < unat nheads; 1 \<le> unat sec; unat sec \<le> unat spt;
        chs_to_lba spt nheads (unat c) (unat h) (unat sec) < cap; length b = 512 \<rbrakk> \<Longrightarrow>
      \<exists>m'. hw_bios_write hw (ucast drv) (ucast (c :: u16)) (ucast (h :: u16)) (ucast (sec :: u16)) b m
           = (0, m')
         \<and> bios_ok m' \<and> medium m' = put_sector (medium m) (chs_to_lba spt nheads (unat c) (unat h) (unat sec)) b"

text \<open>The boot volume is mounted as a whole-disk drive at \<open>letter\<close>.\<close>

definition boot_drive_mounted ::
    "u8 \<Rightarrow> u16 \<Rightarrow> u16 \<Rightarrow> nat \<Rightarrow> ('h \<Rightarrow> bool) \<Rightarrow> int \<Rightarrow> 'h drive_state \<Rightarrow> bool" where
  "boot_drive_mounted drv spt nheads cap ok letter s \<longleftrightarrow>
     (case drive_get_info letter s of None \<Rightarrow> False
      | Some info \<Rightarrow> disk_id info = 0 \<and> lba_start info = 0)
     \<and> is_boot_volume (boot_media (disk s)) \<and> drive_number (boot_media (disk s)) = drv
     \<and> bm_sectors_per_track (boot_media (disk s)) = spt \<and> bm_heads (boot_media (disk s)) = nheads
     \<and> (bm_total_sectors (boot_media (disk s)) = 0 \<or> cap \<le> unat (bm_total_sectors (boot_media (disk s))))
     \<and> ok (mach (disk s))"

lemma mounted_access:
  assumes "boot_drive_mounted drv spt nheads cap ok letter s"
  shows "drive_read_sector hw letter lba s =
      (case boot_floppy_read hw lba (disk s) of (r, d) \<Rightarrow> (r, s\<lparr>disk := d\<rparr>))"
    and "drive_write_sector hw letter lba b s =
      (case boot_floppy_write hw lba b (disk s) of (r, d) \<Rightarrow> (r, s\<lparr>disk := d\<rparr>))"
  using assms
  by (auto simp: boot_drive_mounted_def drive_read_sector_def drive_write_sector_def
      disk_read_lba_from_disk_def disk_write_lba_from_disk_def split: option.splits)

lemma drive_get_info_disk [simp]: "drive_get_info letter (s\<lparr>disk := d\<rparr>) = drive_get_info letter s"
  by (simp add: drive_get_info_def)

lemma mounted_disk_update:
  assumes "boot_drive_mounted drv spt nheads cap ok letter s" "boot_media d = boot_media (disk s)" "ok (mach d)"
  shows "boot_drive_mounted drv spt nheads cap ok letter (s\<lparr>disk := d\<rparr>)"
  using assms by (simp add: boot_drive_mounted_def)

context bios_service
begin

lemma chs_of_lba:
  assumes "boot_drive_mounted drv spt nheads cap bios_ok letter s" "unat lba < cap"
  obtains c h sec where "boot_floppy_lba_to_chs (boot_media (disk s)) lba = Some (c, h, sec)"
    "chs_to_lba spt nheads (unat c) (unat h) (unat sec) = unat lba"
    "unat h < unat nheads" "1 \<le> unat sec" "unat sec \<le> unat spt"
proof -
  let ?bm = "boot_media (disk s)"
  have bm: "is_boot_volume ?bm" "bm_sectors_per_track ?bm = spt" "bm_heads ?bm = nheads"
    "bm_total_sectors ?bm = 0 \<or> lba < bm_total_sectors ?bm"
    using assms by (auto simp: boot_drive_mounted_def word_less_nat_alt)
  then obtain c h sec where chs: "boot_floppy_lba_to_chs ?bm lba = Some (c, h, sec)"
    using lba_to_chs_total [of ?bm lba] geometry(1,2) by (auto simp: unat_gt_0)
  moreover have "unat lba < 65536 * unat (bm_heads ?bm) * unat (bm_sectors_per_track ?bm)"
    using assms(2) geometry(4) bm by simp
  ultimately show thesis using lba_to_chs_inverse [OF chs] that bm by simp
qed

lemma boot_floppy_read_ok:
  assumes "boot_drive_mounted drv spt nheads cap bios_ok letter s" "unat lba < cap"
  shows "\<exists>m. boot_floppy_read hw lba (disk s) =
       (Some (sector_at (medium (mach (disk s))) (unat lba)), (disk s)\<lparr>mach := m\<rparr>)
     \<and> bios_ok m \<and> medium m = medium (mach (disk s))"
proof -
  from chs_of_lba [OF assms] obtain c h sec where
    chs: "boot_floppy_lba_to_chs (boot_media (disk s)) lba = Some (c, h, sec)"
      "chs_to_lba spt nheads (unat c) (unat h) (unat sec) = unat lba"
      "unat h < unat nheads" "1 \<le> unat sec" "unat sec \<le> unat spt" .
  have "bios_ok (mach (disk s))" "drive_number (boot_media (disk s)) = drv"
    using assms by (auto simp: boot_drive_mounted_def)
  with bios_read [of "mach (disk s)" h sec c] chs assms(2) show ?thesis
    by (auto simp: boot_floppy_read_def)
qed

lemma boot_floppy_write_ok:
  assumes "boot_drive_mounted drv spt nheads cap bios_ok letter s" "unat lba < cap" "length b = 512"
  shows "\<exists>d. boot_floppy_write hw lba b (disk s) = (True, d)
     \<and> boot_media d = boot_media (disk s)
     \<and> bios_ok (mach d) \<and> medium (mach d) = put_sector (medium (mach (disk s))) (unat lba) b"
proof -
  from chs_of_lba [OF assms(1,2)] obtain c h sec where
    chs: "boot_floppy_lba_to_chs (boot_media (disk s)) lba = Some (c, h, sec)"
      "chs_to_lba spt nheads (unat c) (unat h) (unat sec) = unat lba"
      "unat h < unat nheads" "1 \<le> unat sec" "unat sec \<le> unat spt" .
  have "bios_ok (mach (disk s))" "drive_number (boot_media (disk s)) = drv"
    using assms by (auto simp: boot_drive_mounted_def)
  with bios_write [of "mach (disk s)" h sec c b] chs assms(2,3) show ?thesis
    by (auto simp: boot_floppy_write_def d_log_def Let_def)
qed

end

sublocale bios_service \<subseteq> drive: sector_device "drive_io hw" letter
  "boot_drive_mounted drv spt nheads cap bios_ok letter" "\<lambda>s. medium (mach (disk s))" cap for letter
proof unfold_locales
  show "cap \<le> 2 ^ 32" by (rule geometry(3))
next
  fix d :: "'h drive_state" and lba :: u32
  assume ok: "boot_drive_mounted drv spt nheads cap bios_ok letter d" and lba: "unat lba < cap"
  from boot_floppy_read_ok [OF ok lba] mounted_disk_update [OF ok]
  show "\<exists>d'. io_read (drive_io hw) letter lba d = (Some (sector_at (medium (mach (disk d))) (unat lba)), d')
      \<and> boot_drive_mounted drv spt nheads cap bios_ok letter d' \<and> medium (mach (disk d')) = medium (mach (disk d))"
    by (fastforce simp: drive_io_def mounted_access [OF ok])
next
  fix d :: "'h drive_state" and lba :: u32 and b :: "u8 list"
  assume ok: "boot_drive_mounted drv spt nheads cap bios_ok letter d" and lba: "unat lba < cap" and b: "length b = 512"
  from boot_floppy_write_ok [OF ok lba b] mounted_disk_update [OF ok]
  show "\<exists>d'. io_write (drive_io hw) letter lba b d = (True, d')
      \<and> boot_drive_mounted drv spt nheads cap bios_ok letter d'
      \<and> medium (mach (disk d')) = put_sector (medium (mach (disk d))) (unat lba) b"
    by (fastforce simp: drive_io_def mounted_access [OF ok])
qed

context bios_service
begin

lemma drive_device:
  "sector_device (drive_io hw) letter (boot_drive_mounted drv spt nheads cap bios_ok letter)
     (\<lambda>s. medium (mach (disk s))) cap"
  by (rule drive.sector_device_axioms)

end

section \<open>A floppy image behind the BIOS\<close>

text \<open>The service on a 1.44 MB image (2 heads, 18 sectors per track, 2880 sectors), drive 0.\<close>

definition image_hw :: "image hw" where
  "image_hw = \<lparr>hw_inb = (\<lambda>_ h. (0xFF, h)), hw_outb = (\<lambda>_ _ h. h),
     hw_insw = (\<lambda>_ n h. (replicate (2 * n) 0xFF, h)), hw_outsw = (\<lambda>_ _ h. h), hw_phys = (\<lambda>_ _. 0),
     hw_bios_read = (\<lambda>_ c h sec m. ((0, sector_at m (chs_to_lba 18 2 (unat c) (unat h) (unat sec))), m)),
     hw_bios_write = (\<lambda>_ c h sec b m. (0, put_sector m (chs_to_lba 18 2 (unat c) (unat h) (unat sec)) b)),
     hw_splash_pump = (\<lambda>h. h)\<rparr>"

interpretation floppy: bios_service image_hw 0 18 2 2880 "\<lambda>_. True" "\<lambda>m. m"
  by unfold_locales (simp_all add: image_hw_def)

text \<open>The machine whose only disk is the boot floppy.\<close>

definition floppy_only :: "image \<Rightarrow> image disk_state \<Rightarrow> bool" where
  "floppy_only m ds \<longleftrightarrow> mach ds = m \<and> ata_presence_mask ds = 0
     \<and> boot_media ds = \<lparr>drive_number = 0, bm_sectors_per_track = 18, bm_heads = 2, bm_total_sectors = 2880,
         is_boot_volume = True, geometry_valid = True\<rparr>"

interpretation floppy0: boot_sectors image_hw "floppy_only m" "\<lambda>did. if did = 0 then Some (sector_at m 0) else None"
  by unfold_locales (auto simp: disk_read_lba_from_disk_def disk_is_present_def boot_floppy_read_def floppy_only_def
      boot_floppy_lba_to_chs_def image_hw_def chs_to_lba_def split: option.split)

end
