(* ===== verification/Mount.thy ===== *)
theory Mount
  imports Drive Fat_Table
begin

text \<open>
  The FAT driver on top of the drive layer: what the detection of \<^verbatim>\<open>drive.c\<close> promises to
  \<^verbatim>\<open>fat16_init\<close> of \<^verbatim>\<open>fat16.c\<close>, and the first properties of the whole storage stack.
\<close>

lemma detect_fat_type_geometry:
  assumes "detect_fat_type b \<noteq> 0"
  shows "bytes_per_sector (parse_bpb b) = 512 \<and> sectors_per_fat (parse_bpb b) \<noteq> 0
    \<and> root_entries (parse_bpb b) \<noteq> 0 \<and> sectors_per_cluster (parse_bpb b) \<noteq> 0
    \<and> (\<exists>n. get_total_clusters (parse_bpb b) = Some n
        \<and> (if detect_fat_type b = 0x01 then n < 4085 else 4085 \<le> n \<and> n < 65525))"
proof -
  define p where "p = parse_bpb b"
  have f: "bytes_per_sector p = load16 b 11" "sectors_per_cluster p = b ! 13"
    "reserved_sectors p = load16 b 14" "fat_count p = b ! 16" "root_entries p = load16 b 17"
    "total_sectors_16 p = load16 b 19" "sectors_per_fat p = load16 b 22" "total_sectors_32 p = load32 b 32"
    by (simp_all add: p_def parse_bpb_def)
  have nz: "bytes_per_sector p = 512" "sectors_per_fat p \<noteq> 0" "root_entries p \<noteq> 0" "sectors_per_cluster p \<noteq> 0"
    using assms by (auto simp: detect_fat_type_def Let_def f split: if_splits)
  let ?m = "ucast (reserved_sectors p) + ucast (fat_count p) * ucast (sectors_per_fat p)
     + (ucast (root_entries p) * 32 + (ucast (bytes_per_sector p) - 1)) div (ucast (bytes_per_sector p) :: u32)"
  have root: "get_root_dir_sectors p = Some (unat ((ucast (root_entries p) * 32 + (ucast (bytes_per_sector p) - 1))
      div (ucast (bytes_per_sector p) :: u32)))"
  proof -
    have "unat (ucast (root_entries p) * 32 + 511 :: u32) = unat (root_entries p) * 32 + 511"
      using unat_u16_bound [of "root_entries p"] by (simp add: unat_word_ariths)
    then show ?thesis
      using nz(1) by (simp add: get_root_dir_sectors_def unat_div_distrib)
  qed
  have meta: "of_nat (get_root_dir_start p + the (get_root_dir_sectors p)) = ?m"
    by (simp add: root get_root_dir_start_def)
  have tot: "get_total_clusters p = Some ((get_total_sectors p - ?m) div ucast (sectors_per_cluster p))"
    using nz meta by (simp add: get_total_clusters_def root get_total_sectors_def)
  have "detect_fat_type b \<noteq> 0 \<Longrightarrow> detect_fat_type b = (if (get_total_sectors p - ?m) div ucast (sectors_per_cluster p) < 4085
     then 1 else 6) \<and> (get_total_sectors p - ?m) div ucast (sectors_per_cluster p) < 65525"
    by (auto simp: detect_fat_type_def Let_def f get_total_sectors_def split: if_splits
        intro: order.strict_trans [where b = "4085 :: u32"])
  with assms tot nz show ?thesis unfolding p_def [symmetric] by auto
qed

section \<open>A mounted 1.44 MB floppy\<close>

text \<open>
  The boot medium of the default build: the geometry \<^verbatim>\<open>scripts/build_disk.sh\<close> formats, mounted as
  drive A: by the drive layer and as a FAT12 volume with 2847 clusters by the FAT driver.
\<close>

definition floppy_bpb :: FAT16_BPB where
  "floppy_bpb = \<lparr>bytes_per_sector = 512, sectors_per_cluster = 1, reserved_sectors = 1, fat_count = 2,
     root_entries = 224, total_sectors_16 = 2880, media_type = 0xF0, sectors_per_fat = 9,
     sectors_per_track = 18, heads = 2, hidden_sectors = 0, total_sectors_32 = 0\<rparr>"

definition floppy_slot :: DriveInfo where
  "floppy_slot = \<lparr>valid = True, disk_id = 0, partition_num = - 1, lba_start = 0, sector_count = 2880, fs_type = 0x01\<rparr>"

definition floppy_drives :: "image \<Rightarrow> image drive_state" where
  "floppy_drives m =
     \<lparr>disk = \<lparr>mach = m,
        boot_media = \<lparr>drive_number = 0, bm_sectors_per_track = 18, bm_heads = 2, bm_total_sectors = 2880,
                      is_boot_volume = True, geometry_valid = True\<rparr>,
        ata_presence_mask = 0, ata_identify_buffer = [], disk_log = []\<rparr>,
      drives = floppy_slot # replicate 25 (floppy_slot\<lparr>valid := False\<rparr>),
      current_drive = 0, mbr_buffer = [], splash_active = False, dr_screen = [], dr_serial = []\<rparr>"

definition floppy_fat :: "image \<Rightarrow> image drive_state fat_state" where
  "floppy_fat m =
     \<lparr>f_dev = floppy_drives m, bpb = floppy_bpb, sector_buffer = [], fat_sector_buffer_aux = [],
      current_drive_letter = 0, current_fat_type = FAT_TYPE_12, f_screen = [], f_serial = []\<rparr>"

abbreviation floppy_ok :: "image drive_state \<Rightarrow> bool" where
  "floppy_ok \<equiv> boot_drive_mounted 0 18 2 2880 (\<lambda>_. True) 0"

abbreviation drive_image :: "image drive_state \<Rightarrow> image" where
  "drive_image \<equiv> \<lambda>s. mach (disk s)"

lemma floppy_mounted: "floppy_ok (floppy_drives m)"
  by (simp add: boot_drive_mounted_def floppy_drives_def floppy_slot_def drive_get_info_def MAX_DRIVES_def)

lemma floppy_ready: "fat_ready floppy_ok 0 (floppy_fat m)"
  using floppy_mounted by (simp add: fat_ready_def floppy_fat_def)

lemma floppy_vol: "fat_vol 2880 2847 (floppy_fat m)"
  by (simp add: fat_vol_def floppy_fat_def floppy_bpb_def fat_fits_def get_root_dir_start_def
      get_total_clusters_def get_root_dir_sectors_def get_total_sectors_def fat_covers_def)

lemma floppy_device: "sector_device (drive_io image_hw) letter (boot_drive_mounted 0 18 2 2880 (\<lambda>_. True) letter)
    drive_image 2880"
  using floppy.drive.sector_device_axioms by blast

section \<open>Properties of the storage stack\<close>

text \<open>
  C7: writing an entry of the file allocation table and reading the table back. On a drive that
  keeps its sectors, the write succeeds, reading the same cluster returns the value (12 bits of it
  on FAT12), reading any other data cluster returns what it returned before, and no byte outside
  the tables has changed.
\<close>

theorem fat_entry_write_read:
  assumes "sector_device io letter ok view cap" "fat_ready ok letter s" "fat_vol cap n s"
    and "2 \<le> c" "c \<le> n + 1" "2 \<le> d" "d \<le> n + 1"
  shows "\<exists>s1 s2. fat16_write_fat_entry io (of_nat c) v s = (True, s1)
    \<and> fat16_read_fat_entry io (of_nat d) s1 =
        (if d = c then fat_mask (current_fat_type s) v else fst (fat16_read_fat_entry io (of_nat d) s), s2)
    \<and> (\<forall>a. a < 512 * unat (reserved_sectors (bpb s)) \<or> 512 * get_root_dir_start (bpb s) \<le> a
          \<longrightarrow> view (f_dev s1) a = view (f_dev s) a)"
proof -
  note cov = fat_vol_covers [OF assms(3)]
  have fits: "fat_fits (bpb s) cap" using assms(3) by (simp add: fat_vol_def)
  from sector_device.write_fat_entry_ok [OF assms(1,2) fits cov [OF assms(4,5)], of v] obtain s1 where
    s1: "fat16_write_fat_entry io (of_nat c) v s = (True, s1)" "fat_ready ok letter s1" "fat_frame s s1"
      "view (f_dev s1) = fat_put_all (current_fat_type s) (bpb s) (of_nat c) v (view (f_dev s))" by blast
  have fits1: "fat_fits (bpb s1) cap" and cov1: "fat_covers (current_fat_type s1) (bpb s1) (of_nat d)"
    using fits cov [OF assms(6,7)] s1(3) by (simp_all add: fat_frame_def)
  from sector_device.read_fat_entry_ok [OF assms(1) s1(2) fits1 cov1] obtain s2 where
    "fat16_read_fat_entry io (of_nat d) s1 = (fat_entry view s1 d, s2)" by blast
  moreover from sector_device.read_fat_entry_ok [OF assms(1,2) fits cov [OF assms(6,7)]]
  have "fst (fat16_read_fat_entry io (of_nat d) s) = fat_entry view s d" by auto
  ultimately show ?thesis
    using s1 fat_entry_put_all [where view = view, OF assms(3-7) s1(3,4)]
      fat_put_all_frame [OF cov [OF assms(4,5)]]
    by auto
qed

theorem fat_entry_write_read_witness:
  "\<exists>s1 s2. fat16_write_fat_entry (drive_io image_hw) (of_nat 341) 0xABC (floppy_fat (\<lambda>_. 0)) = (True, s1)
    \<and> fat16_read_fat_entry (drive_io image_hw) (of_nat 341) s1 = (0xABC, s2)"
  using fat_entry_write_read [OF floppy_device floppy_ready [of "\<lambda>_. 0"] floppy_vol,
    where c = 341 and d = 341 and v = "0xABC"]
  by (auto simp: fat_mask_def floppy_fat_def)

text \<open>
  C8: allocation is first fit. The driver returns the lowest free data cluster, or fails when
  there is none; the cluster it returns is marked end of chain, every other entry keeps its value,
  and no byte outside the tables changes.
\<close>

theorem alloc_cluster_first_fit:
  assumes "sector_device io letter ok view cap" "fat_ready ok letter s" "fat_vol cap n s"
  shows "\<exists>s'. fat16_alloc_cluster io s = Some (map_option of_nat (first_free (fat_entry view s) 2 n), s')
    \<and> (\<forall>d. 2 \<le> d \<and> d \<le> n + 1 \<longrightarrow> fat_entry view s' d =
          (if first_free (fat_entry view s) 2 n = Some d then fat_end_of_chain_value s else fat_entry view s d))
    \<and> (\<forall>a. a < 512 * unat (reserved_sectors (bpb s)) \<or> 512 * get_root_dir_start (bpb s) \<le> a
          \<longrightarrow> view (f_dev s') a = view (f_dev s) a)"
proof -
  have eoc: "fat_mask (current_fat_type s) (fat_end_of_chain_value s) = fat_end_of_chain_value s"
    by (simp add: fat_mask_def fat_end_of_chain_value_def)
  from sector_device.alloc_cluster_ok [OF assms] obtain s' where
    s': "fat16_alloc_cluster io s = Some (map_option of_nat (first_free (fat_entry view s) 2 n), s')"
      "fat_frame s s'" "view (f_dev s') = (case first_free (fat_entry view s) 2 n of None \<Rightarrow> view (f_dev s)
         | Some c \<Rightarrow> fat_put_all (current_fat_type s) (bpb s) (of_nat c) (fat_end_of_chain_value s) (view (f_dev s)))"
    by (auto simp: fat16_alloc_cluster_def)
  show ?thesis
  proof (cases "first_free (fat_entry view s) 2 n")
    case None
    with s' show ?thesis by (auto simp: fat_frame_def)
  next
    case (Some c)
    then have c: "2 \<le> c" "c \<le> n + 1" using first_free_SomeD by blast+
    have put: "view (f_dev s') = fat_put_all (current_fat_type s) (bpb s) (of_nat c) (fat_end_of_chain_value s) (view (f_dev s))"
      using s'(3) Some by simp
    show ?thesis
      using s'(1) Some fat_entry_put_all [where view = view, OF assms(3) c _ _ s'(2) put] eoc
        fat_put_all_frame [OF fat_vol_covers [OF assms(3) c]] put by auto
  qed
qed

theorem alloc_cluster_first_fit_witness:
  "\<exists>s'. fat16_alloc_cluster (drive_io image_hw) (floppy_fat (\<lambda>_. 0)) = Some (Some 2, s')"
proof -
  have "first_free (fat_entry drive_image (floppy_fat (\<lambda>_. 0))) 2 2847 = Some 2"
    by (subst first_free_step) (simp_all add: fat_get_def pair_at_def le16_def fat12_unpack_def
        floppy_fat_def floppy_drives_def)
  then show ?thesis
    using alloc_cluster_first_fit [OF floppy_device floppy_ready [of "\<lambda>_. 0"] floppy_vol] by auto
qed

text \<open>
  C9: freeing a chain. For a chain of distinct data clusters linked through the table, the driver
  returns success within its own step bound, clears exactly the entries of the chain, keeps every
  other entry, and changes no byte outside the tables.
\<close>

theorem free_chain_clears_chain:
  assumes "sector_device io letter ok view cap" "fat_ready ok letter s" "fat_vol cap n s"
    and "fat_chain (fat_entry view s) n c cs" "cs \<noteq> []"
  shows "\<exists>s'. fat16_free_cluster_chain io c s = Some (True, s')
    \<and> (\<forall>d. 2 \<le> d \<and> d \<le> n + 1 \<longrightarrow>
          fat_entry view s' d = (if of_nat d \<in> set cs then 0 else fat_entry view s d))
    \<and> (\<forall>a. a < 512 * unat (reserved_sectors (bpb s)) \<or> 512 * get_root_dir_start (bpb s) \<le> a
          \<longrightarrow> view (f_dev s') a = view (f_dev s) a)"
proof -
  have cov: "fat_covers (current_fat_type s) (bpb s) x" if "x \<in> set cs" for x
  proof -
    have "is_data n x" using assms(4) that linked_data by (auto simp: fat_chain_def)
    then show ?thesis using fat_vol_covers [OF assms(3), of "unat x"] by (simp add: is_data_def)
  qed
  from sector_device.free_chain_ok [OF assms] obtain s' where
    s': "fat16_free_cluster_chain io c s = Some (True, s')" "fat_frame s s'"
      "view (f_dev s') = fold (\<lambda>c. fat_put_all (current_fat_type s) (bpb s) c 0) cs (view (f_dev s))"
    by (auto simp: fat16_free_cluster_chain_def)
  have "0 < unat (fat_count (bpb s))" using assms(3) by (simp add: fat_vol_def fat_fits_def)
  then have "fat_entry view s' d = (if of_nat d \<in> set cs then 0 else fat_entry view s d)"
    if "2 \<le> d" "d \<le> n + 1" for d
    using fold_put_get [where v = 0 and k = 0 and m = "view (f_dev s)", OF cov fat_vol_covers [OF assms(3) that]] s'(2,3)
    by (simp add: fat_frame_def fat_mask_def)
  then show ?thesis
    using s' fold_put_frame [where m = "view (f_dev s)" and v = 0, OF cov] by auto
qed

definition two_cluster_image :: image where
  "two_cluster_image = (\<lambda>_. 0)(515 := 0x03, 516 := 0xF0, 517 := 0xFF)"

theorem free_chain_clears_chain_witness:
  "\<exists>s'. fat16_free_cluster_chain (drive_io image_hw) 2 (floppy_fat two_cluster_image) = Some (True, s')
    \<and> fat_entry drive_image s' 3 = 0"
proof -
  let ?s = "floppy_fat two_cluster_image"
  have "fat_entry drive_image ?s 2 = 3" "fat_entry drive_image ?s 3 = 0xFFF"
    by (simp_all add: fat_get_def pair_at_def fat_addr_def le16_def fat12_unpack_def floppy_fat_def
        floppy_drives_def floppy_bpb_def two_cluster_image_def)
  then have "fat_chain (fat_entry drive_image ?s) 2847 2 [2, 3]"
    by (simp add: fat_chain_def is_data_def)
  note clears = free_chain_clears_chain [OF floppy_device floppy_ready floppy_vol this list.distinct(2)]
  then obtain s' where s': "fat16_free_cluster_chain (drive_io image_hw) 2 ?s = Some (True, s')"
    and "\<forall>d. 2 \<le> d \<and> d \<le> 2847 + 1 \<longrightarrow> fat_entry drive_image s' d =
      (if of_nat d \<in> set [2, 3 :: u16] then 0 else fat_entry drive_image ?s d)"
    by (elim exE conjE)
  from this(2) [rule_format, of 3] have "fat_entry drive_image s' 3 = 0" by simp
  with s' show ?thesis by blast
qed

text \<open>The boot sector of the floppy, and an image that holds it.\<close>

definition floppy_boot_sector :: "u8 list" where
  "floppy_boot_sector = (replicate 512 0)[12 := 2, 13 := 1, 14 := 1, 16 := 2, 17 := 224, 19 := 0x40, 20 := 0x0B,
     21 := 0xF0, 22 := 9, 24 := 18, 26 := 2, 510 := 0x55, 511 := 0xAA]"

definition boot_image :: "u8 list \<Rightarrow> image" where
  "boot_image b = put_sector (\<lambda>_. 0) 0 b"

lemma boot_image_sector: "length b = 512 \<Longrightarrow> sector_at (boot_image b) 0 = b"
  by (simp add: boot_image_def)

text \<open>
  C10: drive letters after initialisation. Given the sector 0 of every disk of the machine, the letters
  from A: on name exactly the volumes of the machine, in order: the FAT volume of the boot floppy,
  then disk by disk the non-empty, non-extended primary partitions with start, size and type from the
  partition table or, on a disk without any, the FAT volume over the whole disk. No other letter is
  in use, \<^verbatim>\<open>drive_get_count\<close> is their number, and the current drive is A:.
\<close>

theorem drive_init_letters:
  assumes "length (drives s) = MAX_DRIVES" "boot_sectors hw ready mbr" "ready (disk s)"
    and vs: "vs = machine_volumes mbr (disk s)" and s': "s' = drive_init hw s"
  shows "drive_get_count s' = length vs \<and> current_drive s' = 0
   \<and> (\<forall>i. drive_get_info (int i) s' = (if i < length vs then Some (vs ! i) else None))"
  using boot_sectors.drive_init_volumes [OF assms(2,1,3)] holds_info holds_count unfolding vs s' by blast

theorem drive_init_letters_witness:
  "drive_get_info 0 (drive_init image_hw (floppy_drives (boot_image floppy_boot_sector)))
     = Some \<lparr>valid = True, disk_id = 0, partition_num = - 1, lba_start = 0, sector_count = 2880, fs_type = 0x01\<rparr>
   \<and> drive_get_info 1 (drive_init image_hw (floppy_drives (boot_image floppy_boot_sector))) = None"
proof -
  let ?m = "boot_image floppy_boot_sector" and ?s = "floppy_drives (boot_image floppy_boot_sector)"
  let ?mbr = "\<lambda>did. if did = 0 then Some (sector_at ?m 0) else None"
  have sec: "sector_at ?m 0 = floppy_boot_sector"
    by (rule boot_image_sector) (simp add: floppy_boot_sector_def)
  have ready: "floppy_only ?m (disk ?s)" and len: "length (drives ?s) = MAX_DRIVES"
    by (simp_all add: floppy_only_def floppy_drives_def MAX_DRIVES_def)
  have ty: "detect_fat_type floppy_boot_sector = 0x01"
    by (simp add: detect_fat_type_def floppy_boot_sector_def load16_def load32_def le16_def le32_def Let_def)
  have b: "floppy_boot_sector ! 510 = 0x55" "floppy_boot_sector ! 511 = 0xAA" "load16 floppy_boot_sector 19 = 2880"
    by (simp_all add: floppy_boot_sector_def load16_def le16_def)
  have absent: "\<not> disk_is_present 1 (disk ?s)" "\<not> disk_is_present 2 (disk ?s)" "\<not> disk_is_present 3 (disk ?s)"
    by (simp_all add: floppy_drives_def disk_is_present_def split: option.split)
  have fl: "is_boot_volume (boot_media (disk ?s))" by (simp add: floppy_drives_def)
  have "machine_volumes ?mbr (disk ?s) =
      [\<lparr>valid = True, disk_id = 0, partition_num = - 1, lba_start = 0, sector_count = 2880, fs_type = 0x01\<rparr>]"
    using absent fl by (simp add: machine_volumes_def whole_volume_def sec ty b)
  from drive_init_letters [OF len floppy0.boot_sectors_axioms ready this [symmetric] refl]
  have i: "\<forall>i. drive_get_info (int i) (drive_init image_hw ?s) = (if i < 1 then Some
      \<lparr>valid = True, disk_id = 0, partition_num = - 1, lba_start = 0, sector_count = 2880, fs_type = 0x01\<rparr> else None)"
    by simp
  show ?thesis using i [rule_format, of 0] i [rule_format, of 1] by simp
qed

text \<open>
  C11: the LBA to CHS translation of the boot volume is exact. Below \<open>65536\<close> cylinders the triple it
  returns is in range (head below the number of heads, sector from 1 to sectors per track) and
  addresses exactly the requested sector.
\<close>

theorem lba_to_chs_exact:
  assumes "boot_floppy_lba_to_chs bm lba = Some (c, h, sec)"
    and "unat lba < 65536 * unat (bm_heads bm) * unat (bm_sectors_per_track bm)"
  shows "(unat c * unat (bm_heads bm) + unat h) * unat (bm_sectors_per_track bm) + unat sec = unat lba + 1
    \<and> unat h < unat (bm_heads bm) \<and> 1 \<le> unat sec \<and> unat sec \<le> unat (bm_sectors_per_track bm)"
  using lba_to_chs_inverse [OF assms] by (simp add: chs_to_lba_def)

theorem lba_to_chs_exact_witness:
  "boot_floppy_lba_to_chs (boot_media (disk (floppy_drives (\<lambda>_. 0)))) 2879 = Some (79, 1, 18)
   \<and> (unat (79::u16) * 2 + unat (1::u16)) * 18 + unat (18::u16) = 2880"
proof -
  have "boot_floppy_lba_to_chs (boot_media (disk (floppy_drives (\<lambda>_. 0)))) 2879 = Some (79, 1, 18)"
    by (simp add: boot_floppy_lba_to_chs_def floppy_drives_def)
  from this lba_to_chs_exact [OF this] show ?thesis by (simp add: floppy_drives_def)
qed

text \<open>
  C12: sectors survive the whole stack. Through \<^verbatim>\<open>drive_write_sector\<close>, the disk driver, the CHS
  translation and a BIOS that honours INT 13h, a sector written to the mounted boot volume reads
  back, and every other sector of the volume reads as before.
\<close>

theorem boot_volume_read_after_write:
  assumes "bios_service hw drv spt nheads cap bios_ok medium"
    and "boot_drive_mounted drv spt nheads cap bios_ok letter s"
    and "unat lba < cap" "unat lba' < cap" "length b = 512"
  shows "\<exists>s'. drive_write_sector hw letter lba b s = (True, s')
    \<and> boot_drive_mounted drv spt nheads cap bios_ok letter s'
    \<and> fst (drive_read_sector hw letter lba' s') =
        (if lba' = lba then Some b else fst (drive_read_sector hw letter lba' s))"
proof -
  have dev: "sector_device (drive_io hw) letter (boot_drive_mounted drv spt nheads cap bios_ok letter)
      (\<lambda>s. medium (mach (disk s))) cap"
    using assms(1) by (rule bios_service.drive_device)
  from sector_device.write_dev [OF dev assms(2,3,5)] obtain s' where
    s': "drive_write_sector hw letter lba b s = (True, s')"
      "boot_drive_mounted drv spt nheads cap bios_ok letter s'"
      "medium (mach (disk s')) = put_sector (medium (mach (disk s))) (unat lba) b"
    by (auto simp: drive_io_def)
  have "fst (drive_read_sector hw letter lba' t) = Some (sector_at (medium (mach (disk t))) (unat lba'))"
    if "boot_drive_mounted drv spt nheads cap bios_ok letter t" for t
    using sector_device.read_dev [OF dev that assms(4)] by (auto simp: drive_io_def)
  with s' assms(2,5) show ?thesis by (auto simp: word_unat_eq_iff)
qed

theorem boot_volume_read_after_write_witness:
  "\<exists>s'. drive_write_sector image_hw 0 33 (replicate 512 7) (floppy_drives (\<lambda>_. 0)) = (True, s')
    \<and> fst (drive_read_sector image_hw 0 33 s') = Some (replicate 512 7)"
  using boot_volume_read_after_write [OF floppy.bios_service_axioms floppy_mounted,
      of 33 33 "replicate 512 7" "\<lambda>_. 0"] by auto

text \<open>
  C13: detection and mounting agree. When the drive layer recognises the boot sector of a drive as
  FAT, mounting that drive with \<^verbatim>\<open>fat16_init\<close> succeeds, does not trap, selects the same FAT type, and
  leaves a volume of fewer than 65525 clusters described by that boot sector.
\<close>

theorem detected_volume_mounts:
  assumes "io_read io (current_drive_letter s) 0 (f_dev s) = (Some b, d)"
    and "b ! 510 = 0x55" "b ! 511 = 0xAA" "detect_fat_type b \<noteq> 0"
  shows "\<exists>s' n. fat16_init io s = Some (True, s') \<and> bpb s' = parse_bpb b
    \<and> current_fat_type s' = (if detect_fat_type b = 0x01 then FAT_TYPE_12 else FAT_TYPE_16)
    \<and> get_total_clusters (bpb s') = Some n \<and> n < 65525"
proof -
  from detect_fat_type_geometry [OF assms(4)] obtain n where
    g: "bytes_per_sector (parse_bpb b) = 512" "sectors_per_fat (parse_bpb b) \<noteq> 0" "root_entries (parse_bpb b) \<noteq> 0"
      "get_total_clusters (parse_bpb b) = Some n"
    and n: "if detect_fat_type b = 0x01 then n < 4085 else 4085 \<le> n \<and> n < 65525" by blast
  let ?s = "s\<lparr>f_dev := d, sector_buffer := b, bpb := parse_bpb b,
    current_fat_type := if detect_fat_type b = 0x01 then FAT_TYPE_12 else FAT_TYPE_16\<rparr>"
  have "fat16_init io s = Some (True, ?s)"
    using assms(1-3) g n
    by (auto simp: fat16_init_def read_buf_def disk_read_sector_def Let_def split: if_splits)
  moreover have "n < 65525"
    using n by (auto split: if_splits intro: order.strict_trans [where b = "4085 :: u32"])
  ultimately show ?thesis using g(4) by auto
qed

lemma boot_image_read:
  assumes "length b = 512"
  shows "\<exists>d. io_read (drive_io image_hw) (current_drive_letter (floppy_fat (boot_image b))) 0
      (f_dev (floppy_fat (boot_image b))) = (Some b, d)"
proof -
  have "floppy_ok (f_dev (floppy_fat (boot_image b)))" using floppy_ready by (simp add: fat_ready_def)
  from sector_device.read_dev [OF floppy_device this, of 0]
  show ?thesis using assms by (auto simp: floppy_fat_def floppy_drives_def boot_image_def)
qed

theorem detected_volume_mounts_witness:
  "\<exists>s'. fat16_init (drive_io image_hw) (floppy_fat (boot_image floppy_boot_sector)) = Some (True, s')
    \<and> current_fat_type s' = FAT_TYPE_12"
proof -
  have len: "length floppy_boot_sector = 512" by (simp add: floppy_boot_sector_def)
  have sig: "floppy_boot_sector ! 510 = 0x55" "floppy_boot_sector ! 511 = 0xAA"
    by (simp_all add: floppy_boot_sector_def)
  have ty: "detect_fat_type floppy_boot_sector = 0x01"
    by (simp add: detect_fat_type_def floppy_boot_sector_def load16_def load32_def le16_def le32_def Let_def)
  obtain d where "io_read (drive_io image_hw) (current_drive_letter (floppy_fat (boot_image floppy_boot_sector))) 0
      (f_dev (floppy_fat (boot_image floppy_boot_sector))) = (Some floppy_boot_sector, d)"
    using boot_image_read [OF len] by blast
  from detected_volume_mounts [OF this sig] ty show ?thesis by auto
qed

text \<open>
  C14: mounting traps on a zero cluster size. \<^verbatim>\<open>fat16_init\<close> validates the sector size, the table size
  and the root directory but not \<^verbatim>\<open>sectors_per_cluster\<close>: for a signed boot sector whose cluster size is
  0 the division in \<^verbatim>\<open>get_total_clusters\<close> raises the divide error instead of a mount failure.
\<close>

theorem fat16_init_zero_cluster_size_traps:
  assumes "io_read io (current_drive_letter s) 0 (f_dev s) = (Some b, d)"
    and "b ! 510 = 0x55" "b ! 511 = 0xAA"
    and "bytes_per_sector (parse_bpb b) \<noteq> 0" "sectors_per_fat (parse_bpb b) \<noteq> 0" "root_entries (parse_bpb b) \<noteq> 0"
    and "b ! 13 = 0"
  shows "fat16_init io s = None"
proof -
  have "sectors_per_cluster (parse_bpb b) = 0" using assms(7) by (simp add: parse_bpb_def)
  then show ?thesis
    using assms by (simp add: fat16_init_def read_buf_def disk_read_sector_def Let_def
        get_total_clusters_def get_root_dir_sectors_def)
qed

theorem fat16_init_zero_cluster_size_traps_witness:
  "fat16_init (drive_io image_hw) (floppy_fat (boot_image (floppy_boot_sector[13 := 0]))) = None"
proof -
  let ?b = "floppy_boot_sector[13 := 0]"
  have len: "length ?b = 512" by (simp add: floppy_boot_sector_def)
  have f: "?b ! 510 = 0x55" "?b ! 511 = 0xAA" "bytes_per_sector (parse_bpb ?b) \<noteq> 0"
    "sectors_per_fat (parse_bpb ?b) \<noteq> 0" "root_entries (parse_bpb ?b) \<noteq> 0" "?b ! 13 = 0"
    by (simp_all add: floppy_boot_sector_def parse_bpb_def load16_def le16_def)
  obtain d where "io_read (drive_io image_hw) (current_drive_letter (floppy_fat (boot_image ?b))) 0
      (f_dev (floppy_fat (boot_image ?b))) = (Some ?b, d)"
    using boot_image_read [OF len] by blast
  from fat16_init_zero_cluster_size_traps [OF this f] show ?thesis .
qed

end
