(* ===== verification/Fat_Files.thy ===== *)
theory Fat_Files
  imports Fat_Enter Mount
begin

text \<open>
  Files: what is written is read back. The theorem of this theory composes the file layer
  (\<^verbatim>\<open>fat16_file.c\<close>), the directory layer (\<^verbatim>\<open>fat16_dir_*.inc\<close>), the table (\<^verbatim>\<open>fat16.c\<close>) and any drive that keeps
  its sectors.
\<close>

unbundle bit_operations_syntax

section \<open>What a directory must be like\<close>

text \<open>The slots before the end mark.\<close>

definition live_slots :: "image \<Rightarrow> nat list \<Rightarrow> (nat \<times> nat) list" where
  "live_slots m secs = takeWhile (\<lambda>q. de_name (slot_entry m q) ! 0 \<noteq> 0) (slots secs)"

text \<open>Every entry the name matches is a file with exactly this name.\<close>

definition name_clear :: "cstr \<Rightarrow> image \<Rightarrow> nat list \<Rightarrow> bool" where
  "name_clear f m secs \<longleftrightarrow> (\<forall>q\<in>set (live_slots m secs).
     de_name (slot_entry m q) ! 0 \<noteq> 0xE5 \<and> fat16_match_name f (slot_entry m q) \<longrightarrow>
       de_name (slot_entry m q) = padded_name f \<and> de_attributes (slot_entry m q) AND FAT16_ATTR_VOLUME_ID = 0
       \<and> de_attributes (slot_entry m q) AND FAT16_ATTR_DIRECTORY = 0)"

text \<open>A name whose entry is not taken for the end mark or a deleted entry.\<close>

definition storable_name :: "cstr \<Rightarrow> bool" where
  "storable_name f \<longleftrightarrow> legal_name f \<and> upper_name f \<and> padded_name f ! 0 \<noteq> 0 \<and> padded_name f ! 0 \<noteq> 0xE5"

text \<open>\<open>ocs\<close> are the clusters of the file the name has now: a chain of its own.\<close>

definition old_contents :: "(nat \<Rightarrow> u16) \<Rightarrow> nat \<Rightarrow> cstr \<Rightarrow> image \<Rightarrow> nat list \<Rightarrow> u16 list \<Rightarrow> u16 list \<Rightarrow> bool" where
  "old_contents F n f m secs dcs ocs \<longleftrightarrow> (case lookup f m secs of
     None \<Rightarrow> ocs = []
   | Some h \<Rightarrow>
      (if 2 \<le> unat (de_cluster_low (slot_entry m h)) then
         fat_chain F n (de_cluster_low (slot_entry m h)) ocs \<and> (\<forall>x\<in>set ocs. F (unat x) \<noteq> 0) \<and> set ocs \<inter> set dcs = {}
       else ocs = []))"

section \<open>The entry is found again\<close>

definition plain_file :: "cstr \<Rightarrow> FAT16_DirectoryEntry \<Rightarrow> bool" where
  "plain_file f e \<longleftrightarrow> de_name e = padded_name f \<and> de_attributes e AND FAT16_ATTR_DIRECTORY = 0
     \<and> de_attributes e AND 0x0F \<noteq> 0x0F"

lemma live_prefix:
  assumes "slots secs = pre @ post" "\<And>p. p \<in> set pre \<Longrightarrow> de_name (slot_entry m p) ! 0 \<noteq> 0"
  shows "set pre \<subseteq> set (live_slots m secs)"
  using assms by (auto simp: live_slots_def takeWhile_append2)

lemma lookup_clear:
  assumes look: "lookup f m secs = Some h" and clear: "name_clear f m secs"
  shows "de_name (slot_entry m h) = padded_name f \<and> de_attributes (slot_entry m h) AND FAT16_ATTR_DIRECTORY = 0"
proof -
  have hs: "stop_find f (slot_entry m h)" "de_name (slot_entry m h) ! 0 \<noteq> 0" using lookup_slot [OF look] by auto
  have "find (\<lambda>q. stop_find f (slot_entry m q)) (slots secs) = Some h"
    using look by (auto simp: lookup_def split: option.splits if_splits)
  then obtain pre post where s: "slots secs = pre @ h # post" "\<And>p. p \<in> set pre \<Longrightarrow> \<not> stop_find f (slot_entry m p)"
    by (rule find_SomeE) blast
  have "set (pre @ [h]) \<subseteq> set (live_slots m secs)"
  proof (rule live_prefix)
    show "slots secs = (pre @ [h]) @ post" using s(1) by simp
    show "de_name (slot_entry m p) ! 0 \<noteq> 0" if "p \<in> set (pre @ [h])" for p
      using that s(2) hs(2) by (metis Un_iff empty_iff insert_iff list.set set_append stop_find_def)
  qed
  then show ?thesis using clear hs by (auto simp: name_clear_def stop_find_def)
qed

lemma read_hit:
  assumes f: "storable_name f" and clear: "name_clear f m secs"
    and h: "lookup f m secs = Some h \<or>
       (lookup f m secs = None \<and> find (\<lambda>q. free_entry (slot_entry m q)) (slots secs) = Some h)"
    and m': "\<And>p. p \<in> set (slots secs) \<Longrightarrow> slot_entry m' p = (if p = h then e else slot_entry m p)"
    and e: "plain_file f e"
  shows "find (\<lambda>q. stop_read f (slot_entry m' q)) (slots secs) = Some h"
proof -
  have "\<exists>pre post. slots secs = pre @ h # post \<and> h \<notin> set pre
      \<and> (\<forall>p\<in>set pre. de_name (slot_entry m p) ! 0 \<noteq> 0 \<and> \<not> stop_find f (slot_entry m p))"
    using h
  proof
    assume "lookup f m secs = Some h"
    then have "find (\<lambda>q. stop_find f (slot_entry m q)) (slots secs) = Some h"
      by (auto simp: lookup_def split: option.splits if_splits)
    then obtain pre post where s: "slots secs = pre @ h # post" and pre: "\<And>p. p \<in> set pre \<Longrightarrow> \<not> stop_find f (slot_entry m p)"
      and fh: "stop_find f (slot_entry m h)" by (rule find_SomeE) blast
    have "h \<notin> set pre" using pre fh by blast
    moreover have "\<forall>p\<in>set pre. de_name (slot_entry m p) ! 0 \<noteq> 0 \<and> \<not> stop_find f (slot_entry m p)"
      using pre by (metis stop_find_def)
    ultimately show ?thesis using s by blast
  next
    assume *: "lookup f m secs = None \<and> find (\<lambda>q. free_entry (slot_entry m q)) (slots secs) = Some h"
    then have "find (\<lambda>q. free_entry (slot_entry m q)) (slots secs) = Some h" by blast
    then obtain pre post where s: "slots secs = pre @ h # post" and pre: "\<And>p. p \<in> set pre \<Longrightarrow> \<not> free_entry (slot_entry m p)"
      and fh: "free_entry (slot_entry m h)" by (rule find_SomeE) blast
    have "find (\<lambda>q. stop_find f (slot_entry m q)) pre = None"
    proof (rule ccontr)
      assume "find (\<lambda>q. stop_find f (slot_entry m q)) pre \<noteq> None"
      then obtain p where p: "find (\<lambda>q. stop_find f (slot_entry m q)) pre = Some p" by auto
      then have "p \<in> set pre" by (rule find_in_set)
      then have "de_name (slot_entry m p) ! 0 \<noteq> 0" using pre by (auto simp: free_entry_def)
      with p have "lookup f m secs = Some p" by (simp add: lookup_def s find_append)
      with * show False by simp
    qed
    then have "\<forall>p\<in>set pre. \<not> stop_find f (slot_entry m p)" unfolding find_None_iff by blast
    moreover have "h \<notin> set pre" using pre fh by blast
    moreover have "\<forall>p\<in>set pre. de_name (slot_entry m p) ! 0 \<noteq> 0" using pre by (metis free_entry_def)
    ultimately show ?thesis using s by blast
  qed
  then obtain pre post where s: "slots secs = pre @ h # post" "h \<notin> set pre"
    and pre: "\<And>p. p \<in> set pre \<Longrightarrow> de_name (slot_entry m p) ! 0 \<noteq> 0 \<and> \<not> stop_find f (slot_entry m p)" by blast
  have live: "set pre \<subseteq> set (live_slots m secs)" using live_prefix [OF s(1)] pre by blast
  have len: "length (de_name e) = 11"
    using e f length_padded_name by (auto simp: plain_file_def storable_name_def)
  have "stop_read f e"
    using e f own_name_matches match_name_exact [of f e] len
    by (auto simp: stop_read_def plain_file_def storable_name_def)
  moreover have "\<not> stop_read f (slot_entry m p)" if "p \<in> set pre" for p
    using pre [OF that] clear live that by (auto simp: stop_read_def stop_find_def name_clear_def)
  ultimately show ?thesis using m' s by (intro find_SomeI [OF s(1)]) auto
qed

lemma archive_attr:
  "FAT16_ATTR_ARCHIVE AND FAT16_ATTR_DIRECTORY = 0" "FAT16_ATTR_ARCHIVE AND 0x0F \<noteq> 0x0F"
  "((a AND FAT16_ATTR_READ_ONLY) OR FAT16_ATTR_ARCHIVE) AND FAT16_ATTR_DIRECTORY = 0"
  "((a AND FAT16_ATTR_READ_ONLY) OR FAT16_ATTR_ARCHIVE) AND 0x0F \<noteq> 0x0F"
proof -
  have "a AND 1 = 0 \<or> a AND 1 = 1" by (simp add: and_one_eq mod_2_eq_odd)
  then show "((a AND FAT16_ATTR_READ_ONLY) OR FAT16_ATTR_ARCHIVE) AND FAT16_ATTR_DIRECTORY = 0"
    "((a AND FAT16_ATTR_READ_ONLY) OR FAT16_ATTR_ARCHIVE) AND 0x0F \<noteq> 0x0F"
    by (auto simp: FAT16_ATTR_ARCHIVE_def FAT16_ATTR_DIRECTORY_def FAT16_ATTR_READ_ONLY_def)
qed (simp_all add: FAT16_ATTR_ARCHIVE_def FAT16_ATTR_DIRECTORY_def)

lemma plain_new: "plain_file f (new_entry (padded_name f) cl len FAT16_ATTR_ARCHIVE)"
  by (simp add: plain_file_def new_entry_def archive_attr)

section \<open>Directories and clusters share no sector\<close>

lemma dir_sector_safe:
  assumes vol: "fs_vol cap n ds s" and dir: "dir_secs F n ds (bpb s) dir dcs secs"
    and x: "a div 512 \<in> set secs" and c: "2 \<le> c" "\<And>x. x \<in> set dcs \<Longrightarrow> unat x \<noteq> c"
  shows "\<not> in_cluster (bpb s) ds c a"
proof
  assume a: "in_cluster (bpb s) ds c a"
  show False
  proof (cases "dir = 0")
    case True
    then have "a div 512 < ds" using dir x by (simp add: dir_secs_def)
    then have "a < 512 * ds" by (simp add: div_less_iff_less_mult mult.commute)
    with in_cluster_above [OF a] show False by simp
  next
    case False
    then obtain y k where y: "y \<in> set dcs" "k < unat (sectors_per_cluster (bpb s))"
      "a div 512 = cl_base (bpb s) ds (unat y) + k" "linked F n (hd dcs) dcs"
      using dir x by (auto simp: dir_secs_def elim: chain_sectorsE)
    have "2 \<le> unat y" using linked_data [OF y(4,1)] by (simp add: is_data_def)
    moreover have "in_cluster (bpb s) ds (unat y) a"
    proof -
      have "512 * (a div 512) \<le> a" "a < 512 * (a div 512) + 512" by simp_all
      then show ?thesis using y(2) unfolding y(3) in_cluster_def by simp
    qed
    ultimately show False using in_cluster_disjoint [OF _ c(1) _, of "unat y"] c(2) [OF y(1)] a by blast
  qed
qed

lemma dir_secs_cong:
  assumes "dir_secs F n ds p dir dcs secs" "\<And>c. c \<in> set dcs \<Longrightarrow> G (unat c) = F (unat c)"
  shows "dir_secs G n ds p dir dcs secs"
  using assms linked_cong [of F n "hd dcs" dcs G] by (auto simp: dir_secs_def)

lemma above_root: "get_root_dir_start p \<le> a div 512 \<Longrightarrow> outside_table p a"
proof -
  assume "get_root_dir_start p \<le> a div 512"
  then have "512 * get_root_dir_start p \<le> 512 * (a div 512)" by simp
  then have "512 * get_root_dir_start p \<le> a" using times_div_less_eq_dividend [of 512 a] by (rule order_trans)
  then show ?thesis by (simp add: outside_table_def)
qed

lemma slot_entry_image:
  assumes "\<And>a. a div 512 = fst p \<Longrightarrow> m a = m' a"
  shows "slot_entry m p = slot_entry m' p"
  using sector_at_eqI [of "fst p" m m'] assms by (simp add: slot_entry_def)

lemma name_clear_cong:
  assumes "name_clear f m secs" and same: "\<And>p. p \<in> set (slots secs) \<Longrightarrow> slot_entry m' p = slot_entry m p"
  shows "name_clear f m' secs"
proof -
  have live: "live_slots m' secs = live_slots m secs"
    unfolding live_slots_def using same by (intro takeWhile_cong) auto
  have "slot_entry m' q = slot_entry m q" if "q \<in> set (live_slots m secs)" for q
    using that same set_takeWhileD unfolding live_slots_def by fast
  then show ?thesis using assms(1) unfolding name_clear_def live by simp
qed

lemma lookup_cong:
  assumes "\<And>p. p \<in> set (slots secs) \<Longrightarrow> slot_entry m p = slot_entry m' p"
  shows "lookup f m secs = lookup f m' secs"
    and "find (\<lambda>q. free_entry (slot_entry m q)) (slots secs) = find (\<lambda>q. free_entry (slot_entry m' q)) (slots secs)"
proof -
  have *: "find (\<lambda>q. P (slot_entry m q)) (slots secs) = find (\<lambda>q. P (slot_entry m' q)) (slots secs)" for P
    using assms by (intro find_cong) auto
  have "de_name (slot_entry m q) = de_name (slot_entry m' q)"
    if "find (\<lambda>q. stop_find f (slot_entry m' q)) (slots secs) = Some q" for q
    using assms [OF find_in_set [OF that]] by simp
  then show "lookup f m secs = lookup f m' secs" by (auto simp: lookup_def * split: option.split)
qed (use assms in \<open>intro find_cong, auto\<close>)

section \<open>Writing a file\<close>

text \<open>Clusters that were free.\<close>

definition fresh :: "nat \<Rightarrow> (nat \<Rightarrow> u16) \<Rightarrow> nat list \<Rightarrow> bool" where
  "fresh n F cs \<longleftrightarrow> distinct cs \<and> (\<forall>c\<in>set cs. 2 \<le> c \<and> c \<le> n + 1 \<and> F c = 0)"

lemma dir_cluster_data:
  assumes "dir_secs F n ds p dir dcs secs" "c \<in> set dcs"
  shows "2 \<le> unat c" "unat c \<le> n + 1"
  using assms linked_data [of F n "hd dcs" dcs c] by (auto simp: dir_secs_def is_data_def split: if_splits)

context sector_device
begin

lemma store_step_quiet:
  assumes "quiet s s1" "store_step n ds s1 F cs t"
  shows "store_step n ds s F cs t"
  using assms fat_frame_trans [of s s1 t] by (auto simp: store_step_def quietD(2,3))
    (auto simp: quiet_def)

text \<open>The clusters are written first; the directory and everything allocated stay as they were.\<close>

lemma write_data_ok:
  assumes vol: "fs_vol cap n ds s" and q: "quiet s s1"
    and room: "length data \<le> 512 * unat (sectors_per_cluster (bpb s)) * length (free_list (fat_entry img s) n)"
  shows "\<exists>cs t. write_clusters io data (n + 2) 0 0 (length data) 0 s1 =
        Some (Some (if cs = [] then 0 else of_nat (hd cs), 0), t)
    \<and> store_step n ds s (link_fat (fat_end_of_chain_value s) 0 cs (fat_entry img s)) cs t
    \<and> clusters_hold (bpb s) ds (img (f_dev t)) cs data
    \<and> distinct cs \<and> (\<forall>c\<in>set cs. 2 \<le> c \<and> c \<le> n + 1 \<and> fat_entry img s c = 0)"
proof -
  let ?w = "512 * unat (sectors_per_cluster (bpb s))" and ?fl = "free_list (fat_entry img s) n"
  have "0 < ?w" using vol by (simp add: fs_vol_def)
  from holds_bytes_take [OF this room] obtain k where k: "k \<le> length ?fl" "holds_bytes ?w (length data) (take k ?fl)" .
  define cs where "cs = take k ?fl"
  have sub: "set cs \<subseteq> set ?fl" by (simp add: cs_def set_take_subset)
  have "length ?fl \<le> n" using length_filter_le [of _ "[2..<n + 2]"] by (simp add: free_list_def del: upt_Suc)
  then have len: "length cs \<le> n + 2" using k(1) by (simp add: cs_def)
  have same: "fat_entry img s1 = fat_entry img s" "bpb s1 = bpb s" "fat_end_of_chain_value s1 = fat_end_of_chain_value s"
    using quietD [OF q] fat_frame_eoc by auto
  have "\<exists>t. write_clusters io data (n + 2) 0 0 (length data) 0 s1 =
        Some (Some (if (0 :: u16) = 0 \<and> cs \<noteq> [] then of_nat (hd cs) else 0, 0), t)
    \<and> store_step n ds s1 (link_fat (fat_end_of_chain_value s1) (unat (0 :: u16)) cs (fat_entry img s1)) cs t
    \<and> clusters_hold (bpb s1) ds (img (f_dev t)) cs (drop 0 data)"
    using quiet_vol [OF q vol] quietD(1) [OF q] k(2) len
    by (intro write_clusters_ok [where rest = "drop k ?fl"]) (auto simp: cs_def same(2,3) quietD(3,4) [OF q])
  then obtain t where
    t: "write_clusters io data (n + 2) 0 0 (length data) 0 s1 = Some (Some (if cs = [] then 0 else of_nat (hd cs), 0), t)"
      "store_step n ds s1 (link_fat (fat_end_of_chain_value s) 0 cs (fat_entry img s)) cs t"
      "clusters_hold (bpb s) ds (img (f_dev t)) cs data"
    unfolding same(2,3) quietD(3,4) [OF q] by (auto split: if_splits)
  have "distinct cs" by (simp add: cs_def distinct_free_list)
  moreover have "\<forall>c\<in>set cs. 2 \<le> c \<and> c \<le> n + 1 \<and> fat_entry img s c = 0"
    using sub set_free_list [of _ "fat_entry img s" n] by blast
  ultimately show ?thesis using t store_step_quiet [OF q t(2)] by blast
qed

text \<open>Entering it in the directory: the slot written is found again by its name.\<close>

lemma enter_slot_ok:
  assumes vol: "fs_vol cap n ds t" and ready: "fat_ready dev_ok letter t"
    and dir: "dir_secs (fat_entry img t) n ds (bpb t) dir dcs secs"
    and f: "storable_name f" and clear: "name_clear f (img (f_dev t)) secs"
    and slot: "lookup f (img (f_dev t)) secs = None \<Longrightarrow> \<exists>q\<in>set (slots secs). free_entry (slot_entry (img (f_dev t)) q)"
  shows "\<exists>u h e. (case map_option (found_at (img (f_dev t))) (lookup f (img (f_dev t)) secs) of
         Some (e, _, _) \<Rightarrow> fat16_update_entry io dir f f nf len
           ((de_attributes e AND FAT16_ATTR_READ_ONLY) OR FAT16_ATTR_ARCHIVE) t
       | None \<Rightarrow> fat16_create_entry io dir f nf len FAT16_ATTR_ARCHIVE t) = Some (True, u)
     \<and> written t h e u \<and> h \<in> set (slots secs) \<and> length (de_name e) = 11
     \<and> de_cluster_low e = nf \<and> de_file_size e = len \<and> de_name e ! 0 \<noteq> 0
     \<and> find (\<lambda>q. stop_read f (slot_entry (img (f_dev u)) q)) (slots secs) = Some h"
proof -
  let ?m = "img (f_dev t)"
  have legal: "legal_name f" using f by (simp add: storable_name_def)
  have nm0: "padded_name f ! 0 \<noteq> 0" using f by (simp add: storable_name_def)
  note q = quiet_refl [OF ready] and lp = length_padded_name [OF legal]
  have fin: ?thesis
    if run: "(case map_option (found_at ?m) (lookup f ?m secs) of
         Some (e, _, _) \<Rightarrow> fat16_update_entry io dir f f nf len
           ((de_attributes e AND FAT16_ATTR_READ_ONLY) OR FAT16_ATTR_ARCHIVE) t
       | None \<Rightarrow> fat16_create_entry io dir f nf len FAT16_ATTR_ARCHIVE t) = Some (True, u)"
      and w: "written t h e u" and e: "plain_file f e" "de_cluster_low e = nf" "de_file_size e = len"
      and h: "lookup f ?m secs = Some h \<or> (lookup f ?m secs = None \<and> find (\<lambda>q. free_entry (slot_entry ?m q)) (slots secs) = Some h)"
      and hs: "h \<in> set (slots secs)" for u h e
  proof -
    have n: "de_name e = padded_name f" using e(1) by (simp add: plain_file_def)
    have "slot_entry (img (f_dev u)) p = (if p = h then e else slot_entry ?m p)" if "p \<in> set (slots secs)" for p
      using that hs lp n by (intro written_slots [OF w]) (auto simp: set_slots)
    from read_hit [OF f clear h this e(1)] show ?thesis using run w hs e(2,3) lp n nm0 by metis
  qed
  show ?thesis
  proof (cases "lookup f ?m secs")
    case None
    then obtain h where h: "find (\<lambda>q. free_entry (slot_entry ?m q)) (slots secs) = Some h"
      using slot by (cases "find (\<lambda>q. free_entry (slot_entry ?m q)) (slots secs)") (auto simp: find_None_iff)
    from create_entry_ok [OF vol dir q legal None h] obtain u where
      u: "fat16_create_entry io dir f nf len FAT16_ATTR_ARCHIVE t = Some (True, u)"
        "written t h (new_entry (padded_name f) nf len FAT16_ATTR_ARCHIVE) u" by blast
    have "de_cluster_low (new_entry (padded_name f) nf len FAT16_ATTR_ARCHIVE) = nf"
      "de_file_size (new_entry (padded_name f) nf len FAT16_ATTR_ARCHIVE) = len" by (simp_all add: new_entry_def)
    then show ?thesis using u None h find_in_set [OF h] plain_new by (intro fin [OF _ u(2)]) auto
  next
    case (Some h)
    let ?e = "slot_entry ?m h" and ?a = "(de_attributes (slot_entry ?m h) AND FAT16_ATTR_READ_ONLY) OR FAT16_ATTR_ARCHIVE"
    have hs: "h \<in> set (slots secs)" using lookup_slot [OF Some] by blast
    have nm: "de_name ?e = padded_name f" using lookup_clear [OF Some clear] by blast
    from update_entry_ok [OF vol dir q legal Some nm] obtain u where
      u: "fat16_update_entry io dir f f nf len ?a t = Some (True, u)" "written t h (renewed ?e f nf len ?a) u" by blast
    have "plain_file f (renewed ?e f nf len ?a)" "de_cluster_low (renewed ?e f nf len ?a) = nf"
      "de_file_size (renewed ?e f nf len ?a) = len"
      by (simp_all add: plain_file_def renewed_def archive_attr)
    then show ?thesis using u Some hs by (intro fin [OF _ u(2)]) (auto simp: found_at_def)
  qed
qed

text \<open>Freeing the old contents, when there are any.\<close>

lemma drop_old_ok:
  assumes vol: "fs_vol cap n ds u" and ready: "fat_ready dev_ok letter u"
    and old: "case existing of None \<Rightarrow> ocs = []
       | Some (e, _, _) \<Rightarrow> if 2 \<le> unat (de_cluster_low e) then fat_chain (fat_entry img u) n (de_cluster_low e) ocs else ocs = []"
    and ne: "case existing of None \<Rightarrow> True | Some (e, _, _) \<Rightarrow> 2 \<le> unat (de_cluster_low e) \<longrightarrow> de_cluster_low e \<noteq> nf"
  shows "\<exists>v. (let old_first = (case existing of Some (e, _, _) \<Rightarrow> de_cluster_low e | None \<Rightarrow> 0) in
       if old_first \<ge> 2 \<and> old_first \<noteq> nf then fat16_free_cluster_chain_internal io old_first u
       else Some (True, u)) = Some (True, v)
     \<and> table_step n u (\<lambda>d. if of_nat d \<in> set ocs then 0 else fat_entry img u d) v"
proof (cases "\<exists>e x. existing = Some (e, x) \<and> 2 \<le> unat (de_cluster_low e)")
  case True
  then obtain e x where e: "existing = Some (e, x)" "2 \<le> unat (de_cluster_low e)" by blast
  obtain y z where x: "x = (y, z)" by (cases x)
  have ch: "fat_chain (fat_entry img u) n (de_cluster_low e) ocs" and "de_cluster_low e \<noteq> nf"
    using old ne e by (auto simp: x)
  then show ?thesis using free_old_ok [OF vol ready ch e(2)] e by (simp add: x word_le_nat_alt)
next
  case False
  then have "ocs = []" "\<not> (case existing of Some (e, _, _) \<Rightarrow> de_cluster_low e | None \<Rightarrow> 0) \<ge> 2"
    using old by (auto simp: word_le_nat_alt split: option.splits prod.splits)
  then show ?thesis using table_step_refl [OF ready, of n] by simp
qed

text \<open>What the directory sees of the new clusters: nothing.\<close>

lemma after_data:
  assumes vol: "fs_vol cap n ds s" and dir: "dir_secs (fat_entry img s) n ds (bpb s) dir dcs secs"
    and alloc: "\<forall>c\<in>set dcs. fat_entry img s (unat c) \<noteq> 0" and cs: "fresh n (fat_entry img s) cs"
    and t: "store_step n ds s (link_fat (fat_end_of_chain_value s) 0 cs (fat_entry img s)) cs t"
  shows "2 \<le> d \<Longrightarrow> d \<le> n + 1 \<Longrightarrow> fat_entry img s d \<noteq> 0 \<Longrightarrow> fat_entry img t d = fat_entry img s d"
    and "dir_secs (fat_entry img t) n ds (bpb t) dir dcs secs"
    and "\<And>p. p \<in> set (slots secs) \<Longrightarrow> slot_entry (img (f_dev t)) p = slot_entry (img (f_dev s)) p"
proof -
  let ?F = "fat_entry img s"
  have keep: "fat_entry img t d = ?F d" if "2 \<le> d" "d \<le> n + 1" "?F d \<noteq> 0" for d
    using store_stepD(3) [OF t that(1,2)] link_fat_other [of d 0 cs] cs that by (auto simp: fresh_def)
  then show "2 \<le> d \<Longrightarrow> d \<le> n + 1 \<Longrightarrow> ?F d \<noteq> 0 \<Longrightarrow> fat_entry img t d = ?F d" .
  have "dir_secs (fat_entry img t) n ds (bpb s) dir dcs secs"
  proof (rule dir_secs_cong [OF dir])
    show "fat_entry img t (unat c) = ?F (unat c)" if "c \<in> set dcs" for c
      using keep [OF dir_cluster_data [OF dir that]] alloc that by blast
  qed
  moreover have "bpb t = bpb s" using store_stepD(2) [OF t] by (simp add: fat_frame_def)
  ultimately show "dir_secs (fat_entry img t) n ds (bpb t) dir dcs secs" by simp
  have "img (f_dev t) a = img (f_dev s) a" if a: "a div 512 \<in> set secs" for a
  proof (rule store_stepD(4) [OF t above_root [OF dir_secs_bound(2) [OF vol dir a]]])
    show "\<not> in_clusters (bpb s) ds cs a"
      using dir_sector_safe [OF vol dir a] cs alloc by (fastforce simp: in_clusters_def fresh_def)
  qed
  then show "slot_entry (img (f_dev t)) p = slot_entry (img (f_dev s)) p" if "p \<in> set (slots secs)" for p
    using that by (intro slot_entry_image) (auto simp: set_slots)
qed

text \<open>The rest of the volume during the entry of the file and the release of the old clusters.\<close>

lemma after_enter:
  assumes vol: "fs_vol cap n ds t" and dir: "dir_secs (fat_entry img t) n ds (bpb t) dir dcs secs"
    and w: "written t h e u" and h: "h \<in> set (slots secs)"
    and v: "table_step n u (\<lambda>d. if of_nat d \<in> set ocs then 0 else fat_entry img u d) v"
  shows "\<And>d. 2 \<le> d \<Longrightarrow> d \<le> n + 1 \<Longrightarrow> fat_entry img u d = fat_entry img t d"
    and "\<And>d. 2 \<le> d \<Longrightarrow> d \<le> n + 1 \<Longrightarrow> fat_entry img v d = (if of_nat d \<in> set ocs then 0 else fat_entry img t d)"
    and "\<And>p. p \<in> set (slots secs) \<Longrightarrow> slot_entry (img (f_dev v)) p = slot_entry (img (f_dev u)) p"
    and "\<And>c. 2 \<le> c \<Longrightarrow> (\<forall>x\<in>set dcs. unat x \<noteq> c)
      \<Longrightarrow> cluster_data (bpb t) ds (img (f_dev v)) c = cluster_data (bpb t) ds (img (f_dev t)) c"
proof -
  have hs: "fst h \<in> set secs" using h by (simp add: set_slots mem_Times_iff)
  have bu: "bpb u = bpb t" using w by (simp add: written_def fat_frame_def)
  show tab: "fat_entry img u d = fat_entry img t d" if "2 \<le> d" "d \<le> n + 1" for d
    using written_table [OF vol w dir_secs_bound(2) [OF vol dir hs] that] .
  then show "fat_entry img v d = (if of_nat d \<in> set ocs then 0 else fat_entry img t d)" if "2 \<le> d" "d \<le> n + 1" for d
    using table_stepD(3) [OF v that] that by simp
  show "slot_entry (img (f_dev v)) p = slot_entry (img (f_dev u)) p" if "p \<in> set (slots secs)" for p
  proof (rule slot_entry_image)
    fix a assume "a div 512 = fst p"
    then have "a div 512 \<in> set secs" using that by (simp add: set_slots mem_Times_iff)
    then show "img (f_dev v) a = img (f_dev u) a"
      using table_stepD(4) [OF v] above_root [OF dir_secs_bound(2) [OF vol dir]] by (simp add: bu)
  qed
  fix c assume c: "2 \<le> c" "\<forall>x\<in>set dcs. unat x \<noteq> c"
  show "cluster_data (bpb t) ds (img (f_dev v)) c = cluster_data (bpb t) ds (img (f_dev t)) c"
  proof (rule cluster_data_cong)
    fix a assume a: "in_cluster (bpb t) ds c a"
    then have "a div 512 \<noteq> fst h" using dir_sector_safe [OF vol dir _ c(1)] c(2) hs by metis
    then show "img (f_dev v) a = img (f_dev t) a"
      using table_stepD(4) [OF v] in_cluster_outside [OF vol a] written_other [OF w] by (simp add: bu)
  qed
qed

text \<open>The new chain, and the file it holds.\<close>

lemma new_chain:
  assumes vol: "fs_vol cap n ds s" and cs: "fresh n (fat_entry img s) cs"
    and F: "\<And>d. d \<in> set cs \<Longrightarrow> G d = link_fat (fat_end_of_chain_value s) 0 cs (fat_entry img s) d"
  shows "linked G n (if cs = [] then 0 else of_nat (hd cs)) (map of_nat cs)"
proof (cases cs)
  case Nil
  then show ?thesis by (simp add: is_data_def)
next
  case (Cons c cs')
  have n: "n < 65525" using fs_volD(1) [OF vol] by (simp add: fat_vol_def)
  have l: "linked (link_fat (fat_end_of_chain_value s) 0 cs (fat_entry img s)) n (of_nat c) (map of_nat cs)"
    unfolding Cons using cs n eoc_props(1) [OF vol] by (intro link_fat_linked) (auto simp: fresh_def Cons)
  have "linked G n (of_nat c) (map of_nat cs)"
  proof (rule linked_cong [OF l])
    fix x :: u16 assume "x \<in> set (map of_nat cs)"
    then obtain d where d: "d \<in> set cs" "x = of_nat d" by auto
    then have "unat x = d" using cs n by (auto simp: fresh_def unat_u16)
    then show "G (unat x) = link_fat (fat_end_of_chain_value s) 0 cs (fat_entry img s) (unat x)" using F d(1) by simp
  qed
  then show ?thesis by (simp add: Cons)
qed

lemma file_bytes_new:
  assumes "n < 65525" "fresh n F cs" "clusters_hold p ds m cs data"
    and "\<And>c. c \<in> set cs \<Longrightarrow> cluster_data p ds m' c = cluster_data p ds m c"
  shows "file_bytes p ds m' (map of_nat cs) (length data) = data"
proof -
  have "cluster_data p ds m' (unat (of_nat c :: u16)) = cluster_data p ds m c" if "c \<in> set cs" for c
    using that assms(1,2,4) by (auto simp: fresh_def unat_u16)
  then have eq: "map (\<lambda>c. cluster_data p ds m' (unat c)) (map (of_nat :: nat \<Rightarrow> u16) cs) = map (cluster_data p ds m) cs" by simp
  show ?thesis using assms(3) unfolding file_bytes_def clusters_hold_def eq .
qed

lemma old_chain_kept:
  assumes old: "old_contents F n f m secs dcs ocs" and G: "\<And>d. 2 \<le> d \<Longrightarrow> d \<le> n + 1 \<Longrightarrow> F d \<noteq> 0 \<Longrightarrow> G d = F d"
    and nf: "nf = 0 \<or> is_data n nf \<and> F (unat nf) = 0"
  shows "case map_option (found_at m) (lookup f m secs) of None \<Rightarrow> ocs = []
      | Some (e, _, _) \<Rightarrow> if 2 \<le> unat (de_cluster_low e) then fat_chain G n (de_cluster_low e) ocs else ocs = []"
    and "case map_option (found_at m) (lookup f m secs) of None \<Rightarrow> True
      | Some (e, _, _) \<Rightarrow> 2 \<le> unat (de_cluster_low e) \<longrightarrow> de_cluster_low e \<noteq> nf"
proof -
  have ch: "fat_chain G n c ocs" if "fat_chain F n c ocs" "\<forall>x\<in>set ocs. F (unat x) \<noteq> 0" for c
    using that linked_cong [of F n c ocs G] linked_data [of F n c ocs] G by (auto simp: fat_chain_def is_data_def)
  have ne: "c \<noteq> nf" if "fat_chain F n c ocs" "\<forall>x\<in>set ocs. F (unat x) \<noteq> 0" "2 \<le> unat c" for c
    using that nf by (cases ocs) (auto simp: fat_chain_def)
  show "case map_option (found_at m) (lookup f m secs) of None \<Rightarrow> ocs = []
      | Some (e, _, _) \<Rightarrow> if 2 \<le> unat (de_cluster_low e) then fat_chain G n (de_cluster_low e) ocs else ocs = []"
    using old ch by (auto simp: old_contents_def found_at_def split: option.splits)
  show "case map_option (found_at m) (lookup f m secs) of None \<Rightarrow> True
      | Some (e, _, _) \<Rightarrow> 2 \<le> unat (de_cluster_low e) \<longrightarrow> de_cluster_low e \<noteq> nf"
    using old ne by (auto simp: old_contents_def found_at_def split: option.splits if_splits)
qed

text \<open>The run of a successful write: the clusters \<open>cs\<close> are written (\<open>t\<close>), slot \<open>h\<close> gets the entry \<open>e\<close> (\<open>u\<close>),
  and the old clusters \<open>ocs\<close> are freed (\<open>v\<close>).\<close>

definition stored :: "nat \<Rightarrow> nat \<Rightarrow> cstr \<Rightarrow> u8 list \<Rightarrow> nat list \<Rightarrow> u16 list \<Rightarrow> 'd fat_state \<Rightarrow> nat list \<Rightarrow> 'd fat_state
    \<Rightarrow> nat \<times> nat \<Rightarrow> FAT16_DirectoryEntry \<Rightarrow> 'd fat_state \<Rightarrow> 'd fat_state \<Rightarrow> bool" where
  "stored n ds f data secs ocs s cs t h e u v \<longleftrightarrow>
     store_step n ds s (link_fat (fat_end_of_chain_value s) 0 cs (fat_entry img s)) cs t
     \<and> fresh n (fat_entry img s) cs \<and> clusters_hold (bpb s) ds (img (f_dev t)) cs data
     \<and> written t h e u \<and> h \<in> set (slots secs) \<and> length (de_name e) = 11
     \<and> de_cluster_low e = (if cs = [] then 0 else of_nat (hd cs)) \<and> de_file_size e = of_int (int (length data))
     \<and> de_name e ! 0 \<noteq> 0 \<and> find (\<lambda>q. stop_read f (slot_entry (img (f_dev u)) q)) (slots secs) = Some h
     \<and> table_step n u (\<lambda>d. if of_nat d \<in> set ocs then 0 else fat_entry img u d) v"

lemma write_file_ok:
  assumes vol: "fs_vol cap n ds s" and ready: "fat_ready dev_ok letter s"
    and dir: "dir_secs (fat_entry img s) n ds (bpb s) dir dcs secs"
    and alloc: "\<forall>c\<in>set dcs. fat_entry img s (unat c) \<noteq> 0"
    and f: "storable_name f" and clear: "name_clear f (img (f_dev s)) secs"
    and slot: "lookup f (img (f_dev s)) secs = None \<Longrightarrow> \<exists>q\<in>set (slots secs). free_entry (slot_entry (img (f_dev s)) q)"
    and room: "length data \<le> 512 * unat (sectors_per_cluster (bpb s)) * length (free_list (fat_entry img s) n)"
    and old: "old_contents (fat_entry img s) n f (img (f_dev s)) secs dcs ocs"
  shows "\<exists>t u v h e cs. fat16_write_file_from_dir io dir f data (int (length data)) s = Some (True, v)
    \<and> stored n ds f data secs ocs s cs t h e u v"
proof -
  let ?m = "img (f_dev s)" and ?F = "fat_entry img s"
  let ?L = "lookup f ?m secs" and ?len = "of_int (int (length data)) :: u32"
  have n: "n < 65525" "get_total_clusters (bpb s) = Some (of_nat n)" using fs_volD(1) [OF vol] by (auto simp: fat_vol_def)
  have steps: "unat (of_nat n + 2 :: u32) = n + 2"
    using n by (simp add: unat_word_ariths unat_of_nat take_bit_nat_eq_self)
  from find_entry_ok [OF vol dir quiet_refl [OF ready], of f] obtain s1 where
    s1: "fat16_find_entry_internal io dir f s = Some (map_option (found_at ?m) ?L, s1)" "quiet s s1" by blast
  from write_data_ok [OF vol s1(2) room] obtain cs t where
    wc: "write_clusters io data (n + 2) 0 0 (length data) 0 s1 = Some (Some (if cs = [] then 0 else of_nat (hd cs), 0), t)"
      and t: "store_step n ds s (link_fat (fat_end_of_chain_value s) 0 cs ?F) cs t"
      and hold: "clusters_hold (bpb s) ds (img (f_dev t)) cs data" and cs: "fresh n ?F cs" by (auto simp: fresh_def)
  define nf :: u16 where "nf = (if cs = [] then 0 else of_nat (hd cs))"
  note volt = fs_vol_frame [OF vol store_stepD(2) [OF t]]
  note ad = after_data [OF vol dir alloc cs t]
  have look: "lookup f (img (f_dev t)) secs = ?L" using ad(3) by (intro lookup_cong(1)) auto
  have found: "map_option (found_at (img (f_dev t))) (lookup f (img (f_dev t)) secs) = map_option (found_at ?m) ?L"
    using ad(3) lookup_slot(1) [of f ?m secs] by (cases ?L) (auto simp: look found_at_def)
  have slot_t: "\<exists>q\<in>set (slots secs). free_entry (slot_entry (img (f_dev t)) q)" if "lookup f (img (f_dev t)) secs = None"
    using slot that ad(3) unfolding look by metis
  from enter_slot_ok [OF volt store_stepD(1) [OF t] ad(2) f name_clear_cong [OF clear ad(3)] slot_t, of nf ?len, unfolded found]
  obtain u h e where
    enter: "(case map_option (found_at ?m) ?L of
         Some (e, _, _) \<Rightarrow> fat16_update_entry io dir f f nf ?len
           ((de_attributes e AND FAT16_ATTR_READ_ONLY) OR FAT16_ATTR_ARCHIVE) t
       | None \<Rightarrow> fat16_create_entry io dir f nf ?len FAT16_ATTR_ARCHIVE t) = Some (True, u)"
      and w: "written t h e u" and h: "h \<in> set (slots secs)" and e: "length (de_name e) = 11" "de_cluster_low e = nf"
        "de_file_size e = ?len" "de_name e ! 0 \<noteq> 0"
      and hit: "find (\<lambda>q. stop_read f (slot_entry (img (f_dev u)) q)) (slots secs) = Some h" by blast
  have hs: "fst h \<in> set secs" using h by (simp add: set_slots mem_Times_iff)
  have ru: "fat_ready dev_ok letter u" and fu: "fat_frame t u" using w by (simp_all add: written_def)
  have G: "fat_entry img u d = ?F d" if "2 \<le> d" "d \<le> n + 1" "?F d \<noteq> 0" for d
    using written_table [OF volt w dir_secs_bound(2) [OF volt ad(2) hs] that(1,2)] ad(1) [OF that] by simp
  have "nf = 0 \<or> is_data n nf \<and> ?F (unat nf) = 0"
    using cs n(1) by (cases cs) (auto simp: nf_def fresh_def is_data_def unat_u16)
  note oc = old_chain_kept [OF old G this]
  from drop_old_ok [OF fs_vol_frame [OF volt fu] ru oc] obtain v where
    v: "(let old_first = (case map_option (found_at ?m) ?L of Some (e, _, _) \<Rightarrow> de_cluster_low e | None \<Rightarrow> 0) in
       if old_first \<ge> 2 \<and> old_first \<noteq> nf then fat16_free_cluster_chain_internal io old_first u
       else Some (True, u)) = Some (True, v)"
      "table_step n u (\<lambda>d. if of_nat d \<in> set ocs then 0 else fat_entry img u d) v" by blast
  have "enter_file io dir f (map_option (found_at ?m) ?L) nf (int (length data)) t = Some (True, v)"
    unfolding enter_file_def enter by (simp only: Option.bind.simps prod.case not_True_eq_False if_False v(1))
  moreover have "\<not> (case map_option (found_at ?m) ?L of Some (e, _, _) \<Rightarrow> de_attributes e AND FAT16_ATTR_DIRECTORY \<noteq> 0 | None \<Rightarrow> False)"
    using lookup_clear [OF _ clear] by (auto simp: found_at_def split: option.split)
  moreover have "f \<noteq> []" "sectors_per_cluster (bpb s) \<noteq> 0"
    using f vol by (auto simp: storable_name_def legal_name_def fs_vol_def)
  ultimately have "fat16_write_file_from_dir io dir f data (int (length data)) s = Some (True, v)"
    using s1(1) quietD(2) [OF s1(2)] n(2) wc steps
    by (simp add: fat16_write_file_from_dir_def nf_def del: de_Morgan_conj)
  then show ?thesis using t cs hold w h e hit v(2) unfolding nf_def stored_def by blast
qed

lemma stored_other_clusters:
  assumes vol: "fs_vol cap n ds s" and dir: "dir_secs (fat_entry img s) n ds (bpb s) dir dcs secs"
    and alloc: "\<forall>c\<in>set dcs. fat_entry img s (unat c) \<noteq> 0"
    and st: "stored n ds f data secs ocs s cs t h e u v"
    and d: "2 \<le> d" "d \<le> n + 1" "fat_entry img s d \<noteq> 0" "of_nat d \<notin> set ocs"
  shows "fat_entry img v d = fat_entry img s d"
    and "of_nat d \<notin> set dcs \<Longrightarrow> cluster_data (bpb s) ds (img (f_dev v)) d = cluster_data (bpb s) ds (img (f_dev s)) d"
proof -
  have t: "store_step n ds s (link_fat (fat_end_of_chain_value s) 0 cs (fat_entry img s)) cs t" and cs: "fresh n (fat_entry img s) cs"
    and w: "written t h e u" and h: "h \<in> set (slots secs)"
    and v: "table_step n u (\<lambda>d. if of_nat d \<in> set ocs then 0 else fat_entry img u d) v"
    using st by (auto simp: stored_def)
  note volt = fs_vol_frame [OF vol store_stepD(2) [OF t]] and ad = after_data [OF vol dir alloc cs t]
  note ae = after_enter [OF volt ad(2) w h v]
  have bt: "bpb t = bpb s" using store_stepD(2) [OF t] by (simp add: fat_frame_def)
  show "fat_entry img v d = fat_entry img s d" using ae(2) [OF d(1,2)] ad(1) [OF d(1-3)] d(4) by simp
  assume nd: "of_nat d \<notin> set dcs"
  have "\<forall>x\<in>set dcs. unat x \<noteq> d" using nd by auto
  from ae(4) [OF d(1) this]
  have "cluster_data (bpb s) ds (img (f_dev v)) d = cluster_data (bpb s) ds (img (f_dev t)) d" by (simp add: bt)
  also have "\<dots> = cluster_data (bpb s) ds (img (f_dev s)) d"
  proof (rule cluster_data_cong)
    fix a assume a: "in_cluster (bpb s) ds d a"
    have "\<not> in_cluster (bpb s) ds c a" if "c \<in> set cs" for c
      using in_cluster_disjoint [OF d(1) _ _ a, of c] that cs d(3) by (auto simp: fresh_def)
    then show "img (f_dev t) a = img (f_dev s) a"
      using store_stepD(4) [OF t in_cluster_outside [OF vol a]] by (auto simp: in_clusters_def)
  qed
  finally show "cluster_data (bpb s) ds (img (f_dev v)) d = cluster_data (bpb s) ds (img (f_dev s)) d" .
qed

lemma stored_slots:
  assumes vol: "fs_vol cap n ds s" and dir: "dir_secs (fat_entry img s) n ds (bpb s) dir dcs secs"
    and alloc: "\<forall>c\<in>set dcs. fat_entry img s (unat c) \<noteq> 0"
    and st: "stored n ds f data secs ocs s cs t h e u v" and p: "p \<in> set (slots secs)"
  shows "slot_entry (img (f_dev v)) p = (if p = h then e else slot_entry (img (f_dev s)) p)"
    and "slot_entry (img (f_dev v)) p = slot_entry (img (f_dev u)) p"
proof -
  have t: "store_step n ds s (link_fat (fat_end_of_chain_value s) 0 cs (fat_entry img s)) cs t" and cs: "fresh n (fat_entry img s) cs"
    and w: "written t h e u" and h: "h \<in> set (slots secs)" "length (de_name e) = 11"
    and v: "table_step n u (\<lambda>d. if of_nat d \<in> set ocs then 0 else fat_entry img u d) v"
    using st by (auto simp: stored_def)
  note volt = fs_vol_frame [OF vol store_stepD(2) [OF t]] and ad = after_data [OF vol dir alloc cs t]
  note ae = after_enter [OF volt ad(2) w h(1) v]
  show "slot_entry (img (f_dev v)) p = slot_entry (img (f_dev u)) p" using ae(3) [OF p] .
  then show "slot_entry (img (f_dev v)) p = (if p = h then e else slot_entry (img (f_dev s)) p)"
    using written_slots [OF w _ _ h(2), of p] ad(3) [OF p] p h(1) by (simp add: set_slots mem_Times_iff)
qed

text \<open>After the write the chain of the entry holds the data.\<close>

lemma stored_file:
  assumes vol: "fs_vol cap n ds s" and dir: "dir_secs (fat_entry img s) n ds (bpb s) dir dcs secs"
    and alloc: "\<forall>c\<in>set dcs. fat_entry img s (unat c) \<noteq> 0"
    and old: "\<And>x. x \<in> set ocs \<Longrightarrow> fat_entry img s (unat x) \<noteq> 0"
    and st: "stored n ds f data secs ocs s cs t h e u v"
  shows "linked (fat_entry img v) n (de_cluster_low e) (map of_nat cs)"
    and "file_bytes (bpb s) ds (img (f_dev v)) (map of_nat cs) (length data) = data"
proof -
  have t: "store_step n ds s (link_fat (fat_end_of_chain_value s) 0 cs (fat_entry img s)) cs t" and cs: "fresh n (fat_entry img s) cs"
    and hold: "clusters_hold (bpb s) ds (img (f_dev t)) cs data"
    and w: "written t h e u" and h: "h \<in> set (slots secs)" and e: "de_cluster_low e = (if cs = [] then 0 else of_nat (hd cs))"
    and v: "table_step n u (\<lambda>d. if of_nat d \<in> set ocs then 0 else fat_entry img u d) v"
    using st by (auto simp: stored_def)
  note volt = fs_vol_frame [OF vol store_stepD(2) [OF t]] and ad = after_data [OF vol dir alloc cs t]
  note ae = after_enter [OF volt ad(2) w h v]
  have n: "n < 65525" using fs_volD(1) [OF vol] by (simp add: fat_vol_def)
  have bt: "bpb t = bpb s" using store_stepD(2) [OF t] by (simp add: fat_frame_def)
  have r: "2 \<le> c" "c \<le> n + 1" "fat_entry img s c = 0" "unat (of_nat c :: u16) = c" if "c \<in> set cs" for c
    using cs that n by (auto simp: fresh_def unat_u16)
  have no: "of_nat c \<notin> set ocs" if "c \<in> set cs" for c
    using old [of "of_nat c"] r(3,4) [OF that] by auto
  have nd: "\<forall>x\<in>set dcs. unat x \<noteq> c" if "c \<in> set cs" for c using alloc r(3) [OF that] by auto
  show "linked (fat_entry img v) n (de_cluster_low e) (map of_nat cs)"
    unfolding e
  proof (rule new_chain [OF vol cs])
    fix d assume d: "d \<in> set cs"
    show "fat_entry img v d = link_fat (fat_end_of_chain_value s) 0 cs (fat_entry img s) d"
      using ae(2) [OF r(1,2) [OF d]] store_stepD(3) [OF t r(1,2) [OF d]] no [OF d] by simp
  qed
  show "file_bytes (bpb s) ds (img (f_dev v)) (map of_nat cs) (length data) = data"
  proof (rule file_bytes_new [OF n cs hold])
    show "cluster_data (bpb s) ds (img (f_dev v)) c = cluster_data (bpb s) ds (img (f_dev t)) c" if "c \<in> set cs" for c
      using ae(4) [OF r(1) [OF that] nd [OF that]] by (simp add: bt)
  qed
qed

text \<open>The old chain is given back, and no cluster outside the new chain is taken.\<close>

lemma stored_free:
  assumes vol: "fs_vol cap n ds s" and dir: "dir_secs (fat_entry img s) n ds (bpb s) dir dcs secs"
    and alloc: "\<forall>c\<in>set dcs. fat_entry img s (unat c) \<noteq> 0"
    and old: "old_contents (fat_entry img s) n f (img (f_dev s)) secs dcs ocs"
    and st: "stored n ds f data secs ocs s cs t h e u v"
  shows "x \<in> set ocs \<Longrightarrow> fat_entry img v (unat x) = 0"
    and "2 \<le> d \<Longrightarrow> d \<le> n + 1 \<Longrightarrow> fat_entry img s d = 0 \<Longrightarrow> d \<notin> set cs \<Longrightarrow> fat_entry img v d = 0"
proof -
  have t: "store_step n ds s (link_fat (fat_end_of_chain_value s) 0 cs (fat_entry img s)) cs t" and cs: "fresh n (fat_entry img s) cs"
    and w: "written t h e u" and h: "h \<in> set (slots secs)"
    and v: "table_step n u (\<lambda>d. if of_nat d \<in> set ocs then 0 else fat_entry img u d) v"
    using st by (auto simp: stored_def)
  note volt = fs_vol_frame [OF vol store_stepD(2) [OF t]] and ad = after_data [OF vol dir alloc cs t]
  note ae = after_enter [OF volt ad(2) w h v]
  show "fat_entry img v (unat x) = 0" if x: "x \<in> set ocs"
  proof -
    obtain c where "linked (fat_entry img s) n c ocs"
      using old x by (auto simp: old_contents_def fat_chain_def split: option.splits if_splits)
    from linked_data [OF this x] have "2 \<le> unat x" "unat x \<le> n + 1" by (simp_all add: is_data_def)
    from ae(2) [OF this] x show ?thesis by simp
  qed
  show "fat_entry img v d = 0" if "2 \<le> d" "d \<le> n + 1" "fat_entry img s d = 0" "d \<notin> set cs"
    using ae(2) [OF that(1,2)] store_stepD(3) [OF t that(1,2)] link_fat_other [of d 0 cs] that by auto
qed

lemma write_read_ok:
  assumes vol: "fs_vol cap n ds s" and ready: "fat_ready dev_ok letter s"
    and dir: "dir_secs (fat_entry img s) n ds (bpb s) dir dcs secs"
    and alloc: "\<forall>c\<in>set dcs. fat_entry img s (unat c) \<noteq> 0"
    and f: "storable_name f" and clear: "name_clear f (img (f_dev s)) secs"
    and slot: "lookup f (img (f_dev s)) secs = None \<Longrightarrow> \<exists>q\<in>set (slots secs). free_entry (slot_entry (img (f_dev s)) q)"
    and room: "length data \<le> 512 * unat (sectors_per_cluster (bpb s)) * length (free_list (fat_entry img s) n)"
    and old: "old_contents (fat_entry img s) n f (img (f_dev s)) secs dcs ocs"
    and len: "length data < 2 ^ 31" and mx: "0 \<le> max_size" "max_size < 2 ^ 31"
  shows "\<exists>v w h cs. fat16_write_file_from_dir io dir f data (int (length data)) s = Some (True, v)
    \<and> fat16_read_file_from_dir io dir f max_size v = Some (take (nat max_size) data, w)
    \<and> linked (fat_entry img v) n (de_cluster_low (slot_entry (img (f_dev v)) h)) (map of_nat cs)
    \<and> (\<forall>x\<in>set ocs. fat_entry img v (unat x) = 0)
    \<and> (\<forall>d. 2 \<le> d \<and> d \<le> n + 1 \<and> fat_entry img s d = 0 \<and> d \<notin> set cs \<longrightarrow> fat_entry img v d = 0)
    \<and> (\<forall>d. 2 \<le> d \<and> d \<le> n + 1 \<and> fat_entry img s d \<noteq> 0 \<and> of_nat d \<notin> set ocs \<longrightarrow>
          fat_entry img v d = fat_entry img s d
          \<and> (of_nat d \<notin> set dcs \<longrightarrow> cluster_data (bpb s) ds (img (f_dev v)) d = cluster_data (bpb s) ds (img (f_dev s)) d))
    \<and> (\<forall>p\<in>set (slots secs). p \<noteq> h \<longrightarrow> slot_entry (img (f_dev v)) p = slot_entry (img (f_dev s)) p)"
proof -
  from write_file_ok [OF vol ready dir alloc f clear slot room old] obtain t u v h e cs where
    run: "fat16_write_file_from_dir io dir f data (int (length data)) s = Some (True, v)"
      and st: "stored n ds f data secs ocs s cs t h e u v" by blast
  have h: "h \<in> set (slots secs)" and e: "de_file_size e = of_int (int (length data))" "de_name e ! 0 \<noteq> 0"
    and hit: "find (\<lambda>q. stop_read f (slot_entry (img (f_dev u)) q)) (slots secs) = Some h"
    using st by (auto simp: stored_def)
  have frames: "fat_frame s t" "fat_frame t u" "fat_frame u v" and ready_v: "fat_ready dev_ok letter v"
    using st by (auto simp: stored_def store_step_def written_def table_step_def)
  then have frv: "fat_frame s v" by (blast intro: fat_frame_trans)
  have ocs: "fat_entry img s (unat x) \<noteq> 0 \<and> x \<notin> set dcs" if "x \<in> set ocs" for x
    using old that by (auto simp: old_contents_def split: option.splits if_splits)
  note slots = stored_slots [OF vol dir alloc st] and other = stored_other_clusters [OF vol dir alloc st]
  note sf = stored_file [OF vol dir alloc _ st]
  have bv: "bpb v = bpb s" using frv by (simp add: fat_frame_def)
  have "dir_secs (fat_entry img v) n ds (bpb s) dir dcs secs"
  proof (rule dir_secs_cong [OF dir])
    fix c assume c: "c \<in> set dcs"
    show "fat_entry img v (unat c) = fat_entry img s (unat c)"
      using other(1) [OF dir_cluster_data [OF dir c]] alloc c ocs [of c] by auto
  qed
  then have dir_v: "dir_secs (fat_entry img v) n ds (bpb v) dir dcs secs" by (simp add: bv)
  have hit_v: "find (\<lambda>q. stop_read f (slot_entry (img (f_dev v)) q)) (slots secs) = Some h"
    using hit slots(2) by (metis (no_types, lifting) find_cong)
  have se: "slot_entry (img (f_dev v)) h = e" using slots(1) [OF h] by simp
  have size_eq: "unat (de_file_size e) = length data" using len by (simp add: e(1) unat_of_nat take_bit_nat_eq_self)
  have live: "de_name (slot_entry (img (f_dev v)) h) ! 0 \<noteq> 0" using e(2) by (simp add: se)
  have chain: "linked (fat_entry img v) n (de_cluster_low (slot_entry (img (f_dev v)) h)) (map of_nat cs)"
    unfolding se using sf(1) ocs by blast
  have "max_size < 2 ^ 32" using mx(2) by simp
  from read_file_ok [OF fs_vol_frame [OF vol frv] dir_v quiet_refl [OF ready_v] hit_v live chain mx(1) this] obtain w where
    w: "fat16_read_file_from_dir io dir f max_size v =
      Some (take (nat max_size) (file_bytes (bpb s) ds (img (f_dev v)) (map of_nat cs) (length data)), w)"
    unfolding se size_eq bv by blast
  have bytes: "file_bytes (bpb s) ds (img (f_dev v)) (map of_nat cs) (length data) = data" using sf(2) ocs by blast
  have "\<forall>p\<in>set (slots secs). p \<noteq> h \<longrightarrow> slot_entry (img (f_dev v)) p = slot_entry (img (f_dev s)) p"
    using slots(1) by simp
  with run w [unfolded bytes] chain show ?thesis
    using other stored_free [OF vol dir alloc old st]
    by (intro exI [of _ v] exI [of _ w] exI [of _ h] exI [of _ cs] conjI allI impI ballI) blast+
qed

end

section \<open>Properties\<close>


text \<open>An empty floppy.\<close>

lemma blank_slot: "snd q < 16 \<Longrightarrow> de_name (slot_entry (\<lambda>_. 0) q) ! 0 = 0"
  by (simp add: slot_entry_def entry_at_def DIR_ENTRY_SIZE_def Let_def)

lemma blank_lookup: "lookup f (\<lambda>_. 0) secs = None"
proof -
  have "de_name (slot_entry (\<lambda>_. 0) q) ! 0 = 0" if "find P (slots secs) = Some q" for P q
    using find_in_set [OF that] by (intro blank_slot) (auto simp: set_slots)
  then show ?thesis by (auto simp: lookup_def split: option.split)
qed

lemma blank_clear: "name_clear f (\<lambda>_. 0) secs"
proof -
  have "takeWhile (\<lambda>q. de_name (slot_entry (\<lambda>_. 0) q) ! 0 \<noteq> 0) (slots secs) = takeWhile (\<lambda>_. False) (slots secs)"
    by (rule takeWhile_cong) (auto simp: set_slots blank_slot)
  then have "live_slots (\<lambda>_. 0) secs = []" by (simp add: live_slots_def takeWhile_eq_Nil_iff)
  then show ?thesis by (simp add: name_clear_def)
qed

lemma blank_fat: "fat_entry drive_image (floppy_fat (\<lambda>_. 0)) c = 0"
  by (simp add: floppy_fat_def floppy_drives_def fat_get_def pair_at_def le16_def fat12_unpack_def)

lemma blank_free: "free_list (fat_entry drive_image (floppy_fat (\<lambda>_. 0))) n = [2..<n + 2]"
  by (simp add: free_list_def blank_fat del: upt_Suc)

lemma floppy_fs_vol: "fs_vol 2880 2847 33 (floppy_fat m)"
  using floppy_vol by (simp add: fs_vol_def floppy_fat_def floppy_bpb_def get_data_start_def get_root_dir_start_def
      get_root_dir_sectors_def)

lemma floppy_root: "dir_secs F n 33 (bpb (floppy_fat m)) 0 [] [19..<33]"
  by (simp add: dir_secs_def floppy_fat_def floppy_bpb_def get_root_dir_start_def)

lemma demo_name: "storable_name [0x41, 0x2E, 0x54, 0x58, 0x54]"
  by code_simp

text \<open>A floppy with the file A.TXT of 600 bytes in the clusters 2 and 3.\<close>

definition demo_floppy :: image where
  "demo_floppy = (\<lambda>_. 0)(515 := 0x03, 516 := 0xF0, 517 := 0xFF,
     9728 := 0x41, 9729 := 0x20, 9730 := 0x20, 9731 := 0x20, 9732 := 0x20, 9733 := 0x20, 9734 := 0x20, 9735 := 0x20,
     9736 := 0x54, 9737 := 0x58, 9738 := 0x54, 9739 := 0x20, 9754 := 2, 9756 := 0x58, 9757 := 2)"

lemma demo_floppy_slot0:
  "de_name (slot_entry demo_floppy (19, 0)) = [0x41, 0x20, 0x20, 0x20, 0x20, 0x20, 0x20, 0x20, 0x54, 0x58, 0x54]"
  "de_attributes (slot_entry demo_floppy (19, 0)) = 0x20" "de_cluster_low (slot_entry demo_floppy (19, 0)) = 2"
  by (simp_all add: slot_entry_def entry_at_def sector_at_def DIR_ENTRY_SIZE_def demo_floppy_def take_map load16_def le16_def
      Let_def upt_rec [of _ 11])

lemma demo_floppy_slot1: "de_name (slot_entry demo_floppy (19, Suc 0)) ! 0 = 0"
  by (simp add: slot_entry_def entry_at_def sector_at_def DIR_ENTRY_SIZE_def demo_floppy_def Let_def)

lemma demo_slots: "\<exists>rest. slots [19..<33] = (19, 0) # (19, Suc 0) # rest"
proof -
  have "[19..<33] = 19 # [20..<33]" "[0..<16] = 0 # Suc 0 # [2..<16]" by (simp_all add: upt_conv_Cons)
  then show ?thesis by (simp add: slots_def SLOTS_def del: upt_Suc)
qed

lemma demo_floppy_fat:
  "fat_entry drive_image (floppy_fat demo_floppy) 2 = 3" "fat_entry drive_image (floppy_fat demo_floppy) 3 = 0xFFF"
  "4 \<le> c \<Longrightarrow> c < 2849 \<Longrightarrow> fat_entry drive_image (floppy_fat demo_floppy) c = 0"
proof -
  show "fat_entry drive_image (floppy_fat demo_floppy) 2 = 3" "fat_entry drive_image (floppy_fat demo_floppy) 3 = 0xFFF"
    by (simp_all add: floppy_fat_def floppy_drives_def floppy_bpb_def fat_get_def fat_addr_def pair_at_def le16_def
        fat12_unpack_def demo_floppy_def)
  assume c: "4 \<le> c" "c < 2849"
  then have u: "unat (of_nat c :: u16) = c" by (simp add: unat_u16)
  have z: "demo_floppy a = 0" if "518 \<le> a" "a < 9728" for a
    using that by (simp add: demo_floppy_def)
  have "c div 2 < 1425" using c by simp
  with c u z show "fat_entry drive_image (floppy_fat demo_floppy) c = 0"
    by (simp add: floppy_fat_def floppy_drives_def floppy_bpb_def fat_get_def fat_addr_def pair_at_def le16_def fat12_unpack_def)
qed


end
