(* ===== verification/Fat_Delete.thy ===== *)
theory Fat_Delete
  imports Fat_Files
begin

text \<open>
  Deleting the files that match a pattern, \<open>fat16_delete_matching\<close>. The function returns at the end mark of
  the directory without writing the sector it has been marking entries in.
\<close>

unbundle bit_operations_syntax

text \<open>The entries the function means to delete.\<close>

definition deletable :: "cstr \<Rightarrow> FAT16_DirectoryEntry \<Rightarrow> bool" where
  "deletable pattern e \<longleftrightarrow> fat16_entry_is_visible e \<and> de_attributes e AND FAT16_ATTR_DIRECTORY = 0
     \<and> fat16_match_pattern (Some pattern) e"

lemma entry_at_mark:
  assumes "length b = 512" "i < 16" "j < 16" "i \<noteq> j"
  shows "entry_at (b[32 * i := v]) j = entry_at b j"
proof -
  have "take 32 (drop (32 * j) (b[32 * i := v])) = take 32 (drop (32 * j) b)"
  proof (cases "i < j")
    case True
    then show ?thesis by (simp add: drop_update_cancel)
  next
    case False
    then have "32 \<le> 32 * i - 32 * j" using assms(4) by arith
    then show ?thesis using False by (simp add: drop_update_swap take_update_cancel)
  qed
  then show ?thesis using entry_at_window [of j b] entry_at_window [of j "b[32 * i := v]"] assms by simp
qed

lemma delete_entries_unwritten:
  assumes "distinct is" "set is \<subseteq> {0..<16}" "\<exists>i\<in>set is. de_name (entry_at b i) ! 0 = 0"
    and "length (sector_buffer t) = 512" "\<And>i. i \<in> set is \<Longrightarrow> entry_at (sector_buffer t) i = entry_at b i"
    and "\<And>i. i \<in> set is \<Longrightarrow> deletable pattern (entry_at b i) \<Longrightarrow> \<not> (fr \<and> de_cluster_low (entry_at b i) \<ge> 2)"
  shows "\<exists>b'. delete_entries io pattern fr is k t =
     Some (Return (True, Some (k + length (filter (\<lambda>i. deletable pattern (entry_at b i))
       (takeWhile (\<lambda>i. de_name (entry_at b i) ! 0 \<noteq> 0) is)))), t\<lparr>sector_buffer := b'\<rparr>)"
  using assms
proof (induction "is" arbitrary: k t)
  case (Cons i "is")
  have e: "entry_at (sector_buffer t) i = entry_at b i" using Cons.prems(5) by simp
  show ?case
  proof (cases "de_name (entry_at b i) ! 0 = 0")
    case True
    then show ?thesis by (intro exI [of _ "sector_buffer t"]) (simp add: e Let_def)
  next
    case False
    then have ex: "\<exists>i\<in>set is. de_name (entry_at b i) ! 0 = 0" using Cons.prems(3) by auto
    show ?thesis
    proof (cases "deletable pattern (entry_at b i)")
      case True
      then have nf: "\<not> (fr \<and> de_cluster_low (entry_at b i) \<ge> 2)" using Cons.prems(6) by simp
      let ?t = "mark_deleted i t"
      have "\<exists>b'. delete_entries io pattern fr is (k + 1) ?t =
         Some (Return (True, Some (k + 1 + length (filter (\<lambda>i. deletable pattern (entry_at b i))
           (takeWhile (\<lambda>i. de_name (entry_at b i) ! 0 \<noteq> 0) is)))), ?t\<lparr>sector_buffer := b'\<rparr>)"
      proof (rule Cons.IH [OF _ _ ex])
        show "entry_at (sector_buffer ?t) j = entry_at b j" if j: "j \<in> set is" for j
        proof -
          have "i < 16" "j < 16" "i \<noteq> j" using j Cons.prems(1,2) by auto
          with entry_at_mark [OF Cons.prems(4), of i j] show ?thesis using j Cons.prems(5) [of j]
            by (simp add: mark_deleted_def DIR_ENTRY_SIZE_def mult.commute)
        qed
      qed (use Cons.prems in \<open>auto simp: mark_deleted_def\<close>)
      then obtain b' where "delete_entries io pattern fr is (k + 1) ?t =
         Some (Return (True, Some (k + 1 + length (filter (\<lambda>i. deletable pattern (entry_at b i))
           (takeWhile (\<lambda>i. de_name (entry_at b i) ! 0 \<noteq> 0) is)))), ?t\<lparr>sector_buffer := b'\<rparr>)" by blast
      moreover have "delete_entries io pattern fr (i # is) k t = delete_entries io pattern fr is (k + 1) ?t"
        using False True nf by (auto simp: e Let_def deletable_def)
      ultimately show ?thesis using False True by (intro exI [of _ b']) (simp add: mark_deleted_def)
    next
      case nd: False
      have "delete_entries io pattern fr (i # is) k t = delete_entries io pattern fr is k t"
        using False nd by (simp add: e Let_def deletable_def)
      moreover have "\<exists>b'. delete_entries io pattern fr is k t =
         Some (Return (True, Some (k + length (filter (\<lambda>i. deletable pattern (entry_at b i))
           (takeWhile (\<lambda>i. de_name (entry_at b i) ! 0 \<noteq> 0) is)))), t\<lparr>sector_buffer := b'\<rparr>)"
        using Cons.prems by (intro Cons.IH [OF _ _ ex]) auto
      ultimately show ?thesis using False nd by simp
    qed
  qed
qed simp

context sector_device
begin

lemma over_dir_first:
  assumes vol: "fs_vol cap n ds s" and dir: "dir_secs (fat_entry img s) n ds (bpb s) dir dcs (x # secs)"
    and body: "body (lba_of x) a s = Some (Return r, t)"
  shows "over_dir io body dir a s = Some (Return r, t)"
proof (cases "dir = 0")
  case True
  obtain k where k: "get_root_dir_sectors (bpb s) = Some k" "ds = get_root_dir_start (bpb s) + k" using fs_vol_root [OF vol] .
  have "x # secs = map (\<lambda>j. j + get_root_dir_start (bpb s)) [0..<k]"
    using dir True k(2) by (simp add: dir_secs_def map_add_upt add.commute)
  then have "root_sectors (bpb s) k = map lba_of (x # secs)"
    by (simp add: root_sectors_def lba_of_def add.commute)
  then show ?thesis using True k(1) body by (simp add: over_dir_def)
next
  case False
  then obtain c cs where c: "dcs = c # cs" "dir = ucast c" "is_data n c" "x # secs = chain_sectors (bpb s) ds (c # cs)"
    using dir by (cases dcs) (auto simp: dir_secs_def)
  let ?z = "map (\<lambda>k. cl_base (bpb s) ds (unat c) + k) [0..<unat (sectors_per_cluster (bpb s))]"
  have "?z \<noteq> []" using vol by (simp add: fs_vol_def)
  moreover have "x # secs = ?z @ chain_sectors (bpb s) ds cs" using c(4) by (simp add: chain_sectors_def)
  ultimately obtain zs where z: "?z = x # zs" by (cases ?z) auto
  have "2 \<le> unat c" using c(3) by (simp add: is_data_def)
  from lba_cluster_sectors [OF this] have cl: "cluster_sectors (bpb s) ds (ucast c) = map lba_of ?z"
    unfolding ucast_u16_u32 map_map comp_def .
  have "fat_is_data_cluster (bpb s) (ucast c) = Some True"
    using fat_vol_data_cluster [OF fs_volD(1) [OF vol], of c] c(3) by (simp add: is_data_def)
  then have "over_clusters io body ds dir a s = Some (Return r, t)"
    unfolding c(2) using body by (subst over_clusters.simps) (simp add: cl z del: map_map)
  then show ?thesis using False fs_volD(2) [OF vol] by (simp add: over_dir_def)
qed

lemma delete_matching_unwritten:
  assumes vol: "fs_vol cap n ds s" and ready: "fat_ready dev_ok letter s"
    and dir: "dir_secs (fat_entry img s) n ds (bpb s) dir dcs (x # secs)" and p: "pattern \<noteq> []"
    and stop: "\<exists>i<16. de_name (slot_entry (img (f_dev s)) (x, i)) ! 0 = 0"
    and nofree: "\<And>i. i < 16 \<Longrightarrow> deletable pattern (slot_entry (img (f_dev s)) (x, i))
      \<Longrightarrow> \<not> fr \<or> de_cluster_low (slot_entry (img (f_dev s)) (x, i)) < 2"
  shows "\<exists>t. fat16_delete_matching io dir pattern fr s =
      Some ((True, Some (length (filter (deletable pattern)
        (takeWhile (\<lambda>e. de_name e ! 0 \<noteq> 0) (map (\<lambda>i. slot_entry (img (f_dev s)) (x, i)) [0..<16]))))), t)
    \<and> img (f_dev t) = img (f_dev s)"
proof -
  let ?b = "sector_at (img (f_dev s)) x"
  let ?n = "length (filter (\<lambda>i. deletable pattern (entry_at ?b i)) (takeWhile (\<lambda>i. de_name (entry_at ?b i) ! 0 \<noteq> 0) SLOTS))"
  have "x < cap" using dir_secs_bound(1) [OF vol dir, of x] by simp
  from read_buf_quiet [OF quiet_refl [OF ready] this] obtain t1 where
    t1: "read_buf io (lba_of x) s = (True, t1)" "quiet s t1" "sector_buffer t1 = ?b" .
  have "\<exists>b'. delete_entries io pattern fr SLOTS 0 t1 = Some (Return (True, Some (0 + ?n)), t1\<lparr>sector_buffer := b'\<rparr>)"
    using stop nofree t1(3) by (intro delete_entries_unwritten) (auto simp: SLOTS_def slot_entry_def not_le)
  then obtain b' where "delete_entries io pattern fr SLOTS 0 t1 = Some (Return (True, Some ?n), t1\<lparr>sector_buffer := b'\<rparr>)" by auto
  then have "delete_body io pattern fr (lba_of x) 0 s = Some (Return (True, Some ?n), t1\<lparr>sector_buffer := b'\<rparr>)"
    using t1(1) by (simp add: delete_body_def)
  from over_dir_first [where body = "delete_body io pattern fr", OF vol dir this]
  have "fat16_delete_matching io dir pattern fr s = Some ((True, Some ?n), t1\<lparr>sector_buffer := b'\<rparr>)"
    using p by (simp add: fat16_delete_matching_def)
  moreover have "?n = length (filter (deletable pattern)
      (takeWhile (\<lambda>e. de_name e ! 0 \<noteq> 0) (map (\<lambda>i. slot_entry (img (f_dev s)) (x, i)) [0..<16])))"
    by (simp only: SLOTS_def takeWhile_map filter_map length_map comp_def slot_entry_def fst_conv snd_conv)
  ultimately show ?thesis using quietD(3) [OF t1(2)] by (intro exI [of _ "t1\<lparr>sector_buffer := b'\<rparr>"]) simp
qed

end

text \<open>
  C17: deletion by pattern is lost in the last sector of a directory. When the end mark of the
  directory lies in its first sector, and no clusters have to be freed, \<^verbatim>\<open>fat16_delete_matching\<close> reports
  the number of matching files as deleted and leaves the drive exactly as it was.
\<close>

theorem delete_matching_keeps_files:
  assumes "sector_device io letter ok view cap" "fat_ready ok letter s" "fs_vol cap n ds s"
    and "dir_secs (fat_entry view s) n ds (bpb s) dir dcs (x # secs)" "pattern \<noteq> []"
    and "\<exists>i<16. de_name (slot_entry (view (f_dev s)) (x, i)) ! 0 = 0"
    and "\<And>i. i < 16 \<Longrightarrow> deletable pattern (slot_entry (view (f_dev s)) (x, i))
      \<Longrightarrow> \<not> fr \<or> de_cluster_low (slot_entry (view (f_dev s)) (x, i)) < 2"
  shows "\<exists>t. fat16_delete_matching io dir pattern fr s =
      Some ((True, Some (length (filter (deletable pattern)
        (takeWhile (\<lambda>e. de_name e ! 0 \<noteq> 0) (map (\<lambda>i. slot_entry (view (f_dev s)) (x, i)) [0..<16]))))), t)
    \<and> view (f_dev t) = view (f_dev s)"
  by (rule sector_device.delete_matching_unwritten [OF assms(1,3,2,4-)])

text \<open>A floppy whose only file is the empty file \<^verbatim>\<open>A.TXT\<close>.\<close>

definition txt_entry :: FAT16_DirectoryEntry where
  "txt_entry = new_entry (padded_name (ascii ''A.TXT'')) 0 0 FAT16_ATTR_ARCHIVE"

definition txt_image :: image where
  "txt_image = put_sector (\<lambda>_. 0) 19 (set_entry (sector_at (\<lambda>_. 0) 19) 0 txt_entry)"

lemma txt_entry_props: "length (de_name txt_entry) = 11" "de_name txt_entry ! 0 \<noteq> 0" "de_cluster_low txt_entry = 0"
  "deletable (ascii ''*.TXT'') txt_entry" "ascii ''*.TXT'' \<noteq> []"
  by code_simp+

lemma txt_slot: "i < 16 \<Longrightarrow> slot_entry txt_image (19, i) = (if i = 0 then txt_entry else slot_entry (\<lambda>_. 0) (19, i))"
  unfolding txt_image_def by (subst slot_entry_put) (simp_all add: txt_entry_props)

lemma txt_live: "takeWhile (\<lambda>e. de_name e ! 0 \<noteq> 0) (map (\<lambda>i. slot_entry txt_image (19, i)) [0..<16]) = [txt_entry]"
proof -
  have u: "[0..<16] = 0 # 1 # [Suc 1..<16]"
    using upt_conv_Cons [of 0 16] upt_conv_Cons [of "Suc 0" 16] by simp
  have "de_name (slot_entry txt_image (19, 1)) ! 0 = 0" using blank_slot [of "(19, 1)"] by (simp add: txt_slot)
  moreover have "slot_entry txt_image (19, 0) = txt_entry" by (simp add: txt_slot)
  ultimately show ?thesis by (simp only: u list.map takeWhile.simps txt_entry_props if_True if_False not_not simp_thms)
qed

theorem delete_matching_keeps_files_witness:
  "\<exists>t. fat16_delete_matching (drive_io image_hw) 0 (ascii ''*.TXT'') True (floppy_fat txt_image) = Some ((True, Some 1), t)
    \<and> drive_image (f_dev t) = txt_image"
proof -
  have m: "drive_image (f_dev (floppy_fat txt_image)) = txt_image" by (simp add: floppy_fat_def floppy_drives_def)
  have dir: "dir_secs F 2847 33 (bpb (floppy_fat txt_image)) 0 [] (19 # [20..<33])" for F
    using floppy_root [of F 2847 txt_image] by (simp add: upt_conv_Cons)
  have stop: "\<exists>i<16. de_name (slot_entry (drive_image (f_dev (floppy_fat txt_image))) (19, i)) ! 0 = 0"
    unfolding m using blank_slot [of "(19, 1)"] by (intro exI [of _ 1]) (simp add: txt_slot)
  have nofree: "\<not> True \<or> de_cluster_low (slot_entry (drive_image (f_dev (floppy_fat txt_image))) (19, i)) < 2"
    if "i < 16" "deletable (ascii ''*.TXT'') (slot_entry (drive_image (f_dev (floppy_fat txt_image))) (19, i))" for i
    using that blank_slot [of "(19, i)"] unfolding m
    by (cases "i = 0") (simp_all add: txt_slot txt_entry_props deletable_def fat16_entry_is_visible_def)
  from delete_matching_keeps_files [OF floppy_device floppy_ready floppy_fs_vol dir txt_entry_props(5) stop nofree]
  show ?thesis unfolding m txt_live by (simp add: txt_entry_props)
qed

end
