(* ===== verification/App_Os.thy ===== *)
theory App_Os
  imports App_Arena Mouse Rtc Fat_Delete
begin

text \<open>
  The state of the kernel as the application layer sees it: the tasks and the scheduler (\<open>app_state\<close>), the file system on
  its drives, the input drivers and the ports. Drawing is a transcript of the calls of \<^verbatim>\<open>video.c\<close>; what such a call
  returns is a parameter, a function of the calls made so far.

  The input drivers extend the same \<open>timer_state\<close> as the scheduler. A call of one of them runs on a state with that
  common part, and the common part is copied back.
\<close>

unbundle bit_operations_syntax

section \<open>State\<close>

record video_rect =
  vr_x :: int
  vr_y :: int
  vr_w :: int
  vr_h :: int
  vr_rgb :: u32

record video_surface_blit =
  vs_buffer :: u32
  vs_width :: int
  vs_height :: int
  vs_stride :: int
  vs_format :: int
  vs_dest_x :: int
  vs_dest_y :: int
  vs_clip_x :: int
  vs_clip_y :: int
  vs_clip_w :: int
  vs_clip_h :: int
  vs_dest_w :: int
  vs_dest_h :: int

datatype video_call =
  Video_cursor_suspend_graphics
| Video_set_deferred_present bool
| Video_present_pending
| Video_clear_color u32
| Video_fill_rect int int int int u32
| Video_fill_rect_batch "video_rect list"
| Video_draw_text_at int int cstr u32 u32
| Video_draw_text_clipped int int cstr u32 u32 int int int int u32
| Video_blit_surface video_surface_blit

record ('h, 'p) os_state = app_state +
  os_fat :: "'h drive_state fat_state"
  os_input :: "'p mouse_kernel"
  os_serial_ready :: bool
  os_hw :: 'p
  os_video :: "video_call list"

text \<open>What is outside: the drives, the ports, and the return values of drawing calls.\<close>

record ('h, 'p) os_env =
  env_io :: "'h drive_state sector_io"
  env_ports :: "'p port_io"
  env_video :: "video_call list \<Rightarrow> int"

definition os_video_call :: "('h, 'p) os_env \<Rightarrow> video_call \<Rightarrow> ('h, 'p, 'a) os_state_scheme \<Rightarrow> int \<times> ('h, 'p, 'a) os_state_scheme" where
  "os_video_call E c s = (env_video E (os_video s @ [c]), s\<lparr>os_video := os_video s @ [c]\<rparr>)"

definition input_view :: "('h, 'p, 'a) os_state_scheme \<Rightarrow> 'p mouse_kernel" where
  "input_view s = (timer_state.extend (timer_state.truncate s) (timer_state.more (os_input s)))\<lparr>ps2_hw := os_hw s\<rparr>"

definition input_back :: "'p mouse_kernel \<Rightarrow> ('h, 'p, 'a) os_state_scheme \<Rightarrow> ('h, 'p, 'a) os_state_scheme" where
  "input_back i s = (timer_state.extend (timer_state.truncate i) (timer_state.more s))\<lparr>os_input := i, os_hw := ps2_hw i\<rparr>"

definition with_input :: "('p mouse_kernel \<Rightarrow> 'r \<times> 'p mouse_kernel) \<Rightarrow> ('h, 'p, 'a) os_state_scheme \<Rightarrow> 'r \<times> ('h, 'p, 'a) os_state_scheme" where
  "with_input f s = (let (r, i) = f (input_view s) in (r, input_back i s))"

section \<open>Functions of the shell\<close>

definition str_to_upper :: "cstr \<Rightarrow> cstr" where
  "str_to_upper = map (\<lambda>c. if 0x61 \<le> c \<and> c \<le> 0x7A then c - 0x61 + 0x41 else c)"

definition BACKSLASH :: u8 where "BACKSLASH = 0x5C"

definition path_reset :: cstr where
  "path_reset = [BACKSLASH]"

text \<open>The path up to its last separator, which the search from the end finds first.\<close>

definition path_pop :: "cstr \<Rightarrow> cstr" where
  "path_pop path =
     (if length path \<le> 1 then path_reset
      else case find (\<lambda>i. path ! i = BACKSLASH) (rev [1..<length path]) of
             Some i \<Rightarrow> take i path
           | None \<Rightarrow> path_reset)"

definition path_push :: "cstr \<Rightarrow> int \<Rightarrow> cstr \<Rightarrow> cstr option" where
  "path_push path max_len name =
     (if length path = 1 \<and> path ! 0 = BACKSLASH
      then (if 1 + int (length name) + 1 > max_len then None else Some (path @ name))
      else if int (length path) + 1 + int (length name) + 1 > max_len then None
      else Some (if path ! (length path - 1) \<noteq> BACKSLASH then path @ [BACKSLASH] @ name else path @ name))"

text \<open>The two output functions a host can carry; \<open>lm_out_serial_only\<close> is the address of the second.\<close>

record os_link = app_link +
  lm_out_serial_only :: u32

definition shell_out_both :: "cstr \<Rightarrow> 'a log_state_scheme \<Rightarrow> 'a log_state_scheme" where
  "shell_out_both text s = log_serial_raw text (emit_screen text s)"

definition shell_out_serial_only :: "cstr \<Rightarrow> 'a log_state_scheme \<Rightarrow> 'a log_state_scheme" where
  "shell_out_serial_only text s = log_serial_raw text s"

definition call_out_both :: "'l os_link_scheme \<Rightarrow> u32 \<Rightarrow> cstr \<Rightarrow> 'a log_state_scheme \<Rightarrow> 'a log_state_scheme" where
  "call_out_both L fp text s = (if fp = lm_out_serial_only L then shell_out_serial_only text s else shell_out_both text s)"

definition shell_apps_out_both :: "'l os_link_scheme \<Rightarrow> shell_app_host \<Rightarrow> cstr \<Rightarrow> 'a log_state_scheme \<Rightarrow> 'a log_state_scheme" where
  "shell_apps_out_both L host text s = (if h_out_both host \<noteq> 0 then call_out_both L (h_out_both host) text s else s)"

definition shell_apps_task_out :: "'l os_link_scheme \<Rightarrow> shell_app_task \<Rightarrow> cstr \<Rightarrow> 'a log_state_scheme \<Rightarrow> 'a log_state_scheme" where
  "shell_apps_task_out L task text s =
     (if serial_only task \<or> t_out_both task = 0 then log_serial_raw text s else call_out_both L (t_out_both task) text s)"

section \<open>Graphics and input sessions\<close>

definition shell_apps_flush_graphics :: "('h, 'p) os_env \<Rightarrow> ('h, 'p, 'a) os_state_scheme \<Rightarrow> ('h, 'p, 'a) os_state_scheme" where
  "shell_apps_flush_graphics E s = snd (os_video_call E Video_present_pending s)"

definition shell_apps_begin_foreground_graphics ::
    "('h, 'p) os_env \<Rightarrow> nat \<Rightarrow> ('h, 'p, 'a) os_state_scheme \<Rightarrow> ('h, 'p, 'a) os_state_scheme" where
  "shell_apps_begin_foreground_graphics E pid s =
     (if background (task_at pid s) then s
      else snd (os_video_call E (Video_set_deferred_present True) (snd (os_video_call E Video_cursor_suspend_graphics s))))"

definition shell_apps_end_foreground_graphics ::
    "('h, 'p) os_env \<Rightarrow> nat \<Rightarrow> ('h, 'p, 'a) os_state_scheme \<Rightarrow> ('h, 'p, 'a) os_state_scheme" where
  "shell_apps_end_foreground_graphics E pid s =
     (if background (task_at pid s) then s else snd (os_video_call E (Video_set_deferred_present False) s))"

definition shell_apps_begin_input_session :: "nat \<Rightarrow> 'a app_state_scheme \<Rightarrow> 'a app_state_scheme" where
  "shell_apps_begin_input_session pid s = upd_task pid (\<lambda>t. t\<lparr>input_ready_logged := False\<rparr>) s"

definition shell_apps_note_input_ready :: "nat \<Rightarrow> 'a app_state_scheme \<Rightarrow> 'a app_state_scheme" where
  "shell_apps_note_input_ready pid s =
     (if \<not> input_ready_logged (task_at pid s)
      then upd_task pid (\<lambda>t. t\<lparr>input_ready_logged := True\<rparr>) (log_serial_raw (ascii ''APPIN001'' @ [Logger.newline]) s)
      else s)"

definition shell_apps_note_session_return ::
    "('h, 'p) os_env \<Rightarrow> nat \<Rightarrow> ('h, 'p, 'a) os_state_scheme \<Rightarrow> ('h, 'p, 'a) os_state_scheme" where
  "shell_apps_note_session_return E pid s =
     (let s = snd (with_input (\<lambda>i. ((), keyboard_flush (env_ports E) i)) s);
          s = log_serial_raw (ascii ''APPRET001'' @ [Logger.newline]) s
      in upd_task pid (\<lambda>t. t\<lparr>input_ready_logged := False\<rparr>) s)"

definition shell_apps_begin_scheduler_origin :: "cstr \<Rightarrow> 'a sched_state_scheme \<Rightarrow> 'a sched_state_scheme" where
  "shell_apps_begin_scheduler_origin origin s = scheduler_set_current_origin (Some origin) True s"

section \<open>User memory\<close>

text \<open>The kernel reads user memory through the page directory in use. \<open>None\<close> is a page fault in kernel mode, which stops
  the machine.\<close>

definition load_virt :: "'a machine_scheme \<Rightarrow> u32 \<Rightarrow> u8 option" where
  "load_virt s va = map_option (\<lambda>v. get_byte (m_mem s) (pv_phys v)) (translate (m_mem s) (unat (m_cr3 s)) va)"

definition load_virts :: "'a machine_scheme \<Rightarrow> u32 \<Rightarrow> nat \<Rightarrow> u8 list option" where
  "load_virts s va n = those (map (\<lambda>i. load_virt s (va + of_nat i)) [0..<n])"

text \<open>The inner \<open>None\<close> is the error return of the function.\<close>

definition shell_apps_copy_user_bytes :: "shell_app_task \<Rightarrow> u32 \<Rightarrow> u32 \<Rightarrow> 'a machine_scheme \<Rightarrow> u8 list option option" where
  "shell_apps_copy_user_bytes task addr n s =
     (if n = 0 then Some (Some [])
      else if \<not> shell_apps_user_range_valid task addr n then Some None
      else map_option Some (load_virts s addr (unat n)))"

text \<open>The loop of \<^verbatim>\<open>shell_apps_copy_user_string\<close> with \<open>room\<close> characters left; success only at a zero byte.\<close>

fun copy_user_chars :: "'a machine_scheme \<Rightarrow> u32 \<Rightarrow> nat \<Rightarrow> u32 \<Rightarrow> cstr \<Rightarrow> cstr option option" where
  "copy_user_chars s limit 0 addr out = Some None"
| "copy_user_chars s limit (Suc room) addr out =
     (if addr < limit
      then case load_virt s addr of
             None \<Rightarrow> None
           | Some c \<Rightarrow> if c = 0 then Some (Some out) else copy_user_chars s limit room (addr + 1) (out @ [c])
      else Some None)"

definition shell_apps_copy_user_string :: "shell_app_task \<Rightarrow> u32 \<Rightarrow> int \<Rightarrow> 'a machine_scheme \<Rightarrow> cstr option option" where
  "shell_apps_copy_user_string task input out_size s =
     (if input = 0 \<or> out_size \<le> 0 then Some None
      else if app_slot_bytes task = 0 \<or> app_slot_bytes task > APP_SLOT_MAX_SIZE then Some None
      else let limit = APP_LOAD_VIRT_BASE + app_slot_bytes task in
      if input < APP_LOAD_VIRT_BASE \<or> input \<ge> limit then Some None
      else copy_user_chars s limit (nat (out_size - 1)) input [])"

definition shell_apps_copy_user_upper :: "shell_app_task \<Rightarrow> u32 \<Rightarrow> int \<Rightarrow> 'a machine_scheme \<Rightarrow> cstr option option" where
  "shell_apps_copy_user_upper task input out_size s =
     map_option (map_option str_to_upper) (shell_apps_copy_user_string task input out_size s)"

text \<open>Writing user memory, as the system calls do after they have checked the range. The kernel runs with the write
  protection of CR0 off, so only a missing page faults.\<close>

definition store_virt :: "u32 \<Rightarrow> u8 \<Rightarrow> 'a machine_scheme \<Rightarrow> 'a machine_scheme option" where
  "store_virt va v s =
     map_option (\<lambda>p. s\<lparr>m_mem := put_byte (pv_phys p) v (m_mem s)\<rparr>) (translate (m_mem s) (unat (m_cr3 s)) va)"

fun store_virts :: "u32 \<Rightarrow> u8 list \<Rightarrow> 'a machine_scheme \<Rightarrow> 'a machine_scheme option" where
  "store_virts va [] s = Some s"
| "store_virts va (v # vs) s = (case store_virt va v s of None \<Rightarrow> None | Some s \<Rightarrow> store_virts (va + 1) vs s)"

section \<open>Names of programs\<close>

definition shell_apps_ascii_tolower :: "u8 \<Rightarrow> u8" where
  "shell_apps_ascii_tolower c = (if 0x41 \<le> c \<and> c \<le> 0x5A then c - 0x41 + 0x61 else c)"

definition shell_apps_has_extension :: "cstr \<Rightarrow> cstr \<Rightarrow> bool" where
  "shell_apps_has_extension name ext =
     (if ext = [] then True
      else if length name < length ext then False
      else \<forall>i\<in>{0..<length ext}.
        shell_apps_ascii_tolower (name ! (length name - length ext + i)) = shell_apps_ascii_tolower (ext ! i))"

definition shell_apps_append_extension :: "cstr \<Rightarrow> cstr \<Rightarrow> bool \<Rightarrow> int \<Rightarrow> cstr option" where
  "shell_apps_append_extension command ext only_if_missing out_size =
     (if out_size \<le> 0 then None
      else if int (length command) > out_size - 1 then None
      else if only_if_missing \<and> shell_apps_has_extension command ext then Some command
      else if int (length command + length ext) \<ge> out_size then None
      else Some (command @ ext))"

fun normalize_from :: "int \<Rightarrow> int \<Rightarrow> cstr \<Rightarrow> cstr" where
  "normalize_from out_size j [] = []"
| "normalize_from out_size j (c # input) =
     (if \<not> j < out_size - 1 then []
      else if c = DOT then []
      else if c = 0x5F \<or> c = 0x20 \<or> c = 0x09 then normalize_from out_size j input
      else (if 0x61 \<le> c \<and> c \<le> 0x7A then c - 0x61 + 0x41 else c)
             # (if j + 1 \<ge> 8 then [] else normalize_from out_size (j + 1) input))"

definition shell_apps_normalize_app_name :: "cstr \<Rightarrow> int \<Rightarrow> cstr" where
  "shell_apps_normalize_app_name input out_size = normalize_from out_size 0 input"

end
