(* ===== verification/App_Launch.thy ===== *)
theory App_Launch
  imports App_Os
begin

text \<open>
  Starting and ending applications: finding and staging a program file, running it in the foreground or in the background
  (\<^verbatim>\<open>shell_apps_launch.inc\<close>), threads of an application, and the ends of a task by exit or fault
  (\<^verbatim>\<open>shell_apps.c\<close>).

  A foreground launch stops at the point where the shell waits for the application; \<open>finish_foreground\<close> is what it
  does after that. The outer \<open>None\<close> of a result is a trap in kernel mode (a division by zero when a volume is mounted,
  or a page fault), which stops the machine.
\<close>

unbundle bit_operations_syntax

section \<open>Staging a program\<close>

datatype shell_app_format = APP_FORMAT_ELF | APP_FORMAT_COM

definition APP_MAX_ELF_SIZE :: int where "APP_MAX_ELF_SIZE = 0x00100000"

abbreviation line :: "string \<Rightarrow> cstr" where
  "line t \<equiv> ascii t @ [Logger.newline]"

definition os_drive_get_current :: "('h, 'p, 'a) os_state_scheme \<Rightarrow> int \<times> ('h, 'p, 'a) os_state_scheme" where
  "os_drive_get_current s =
     (let (d, dev) = drive_get_current (f_dev (os_fat s)) in (d, s\<lparr>os_fat := (os_fat s)\<lparr>f_dev := dev\<rparr>\<rparr>))"

definition os_drive_set_current :: "int \<Rightarrow> ('h, 'p, 'a) os_state_scheme \<Rightarrow> ('h, 'p, 'a) os_state_scheme" where
  "os_drive_set_current d s = s\<lparr>os_fat := (os_fat s)\<lparr>f_dev := drive_set_current d (f_dev (os_fat s))\<rparr>\<rparr>"

definition os_set_drive :: "int \<Rightarrow> ('h, 'p, 'a) os_state_scheme \<Rightarrow> ('h, 'p, 'a) os_state_scheme" where
  "os_set_drive d s = s\<lparr>os_fat := fat16_set_drive d (os_fat s)\<rparr>"

text \<open>A call of the file system.\<close>

definition os_fat_call ::
    "('h drive_state fat_state \<Rightarrow> ('r \<times> 'h drive_state fat_state) option)
     \<Rightarrow> ('h, 'p, 'a) os_state_scheme \<Rightarrow> ('r \<times> ('h, 'p, 'a) os_state_scheme) option" where
  "os_fat_call f s = map_option (\<lambda>(r, fs). (r, s\<lparr>os_fat := fs\<rparr>)) (f (os_fat s))"

definition shell_apps_ensure_host_fat16_ready ::
    "('h, 'p) os_env \<Rightarrow> shell_app_host \<Rightarrow> ('h, 'p, 'a) os_state_scheme
     \<Rightarrow> (bool \<times> shell_app_host \<times> ('h, 'p, 'a) os_state_scheme) option" where
  "shell_apps_ensure_host_fat16_ready E host s =
     (if h_fat16_initialized host then Some (True, host, s)
      else let (d, s) = os_drive_get_current s;
               s = os_set_drive d s in
           do { (ok, s) \<leftarrow> os_fat_call (fat16_init (env_io E)) s;
                Some (ok, host\<lparr>h_fat16_initialized := ok\<rparr>, s) })"

text \<open>Reading a file into the staging buffer; \<open>None\<close> when there is nothing to read, else the number of bytes.\<close>

definition stage_file ::
    "('h, 'p) os_env \<Rightarrow> u32 \<Rightarrow> cstr \<Rightarrow> int \<Rightarrow> ('h, 'p, 'a) os_state_scheme \<Rightarrow> (int option \<times> ('h, 'p, 'a) os_state_scheme) option" where
  "stage_file E dir_cluster filename max_size s =
     do { (data, s) \<leftarrow> os_fat_call (fat16_read_file_from_dir (env_io E) dir_cluster filename max_size) s;
          let s = s\<lparr>g_elf_buffer := data @ drop (length data) (g_elf_buffer s)\<rparr>;
          Some (if data = [] then None else Some (int (length data)), s) }"

text \<open>File name and number of bytes.\<close>

definition shell_apps_stage_elf_candidate ::
    "('h, 'p) os_env \<Rightarrow> shell_app_host \<Rightarrow> cstr \<Rightarrow> int \<Rightarrow> ('h, 'p, 'a) os_state_scheme
     \<Rightarrow> ((cstr \<times> int) option \<times> ('h, 'p, 'a) os_state_scheme) option" where
  "shell_apps_stage_elf_candidate E host command filename_size s =
     (if \<not> shell_apps_host_valid host then Some (None, s)
      else let normalized = shell_apps_normalize_app_name command 64 in
      if normalized = [] then Some (None, s)
      else case shell_apps_append_extension normalized (ascii ''.elf'') False filename_size of
             None \<Rightarrow> Some (None, s)
           | Some filename \<Rightarrow>
             let filename = str_to_upper filename in
             do { (r, s) \<leftarrow> stage_file E (h_current_dir_cluster host) filename APP_MAX_ELF_SIZE s;
                  Some (map_option (Pair filename) r, s) })"

definition shell_apps_stage_com_candidate ::
    "('h, 'p) os_env \<Rightarrow> shell_app_host \<Rightarrow> cstr \<Rightarrow> int \<Rightarrow> ('h, 'p, 'a) os_state_scheme
     \<Rightarrow> ((cstr \<times> int) option \<times> ('h, 'p, 'a) os_state_scheme) option" where
  "shell_apps_stage_com_candidate E host command filename_size s =
     (if \<not> shell_apps_host_valid host then Some (None, s)
      else case shell_apps_append_extension command (ascii ''.com'') True filename_size of
             None \<Rightarrow> Some (None, s)
           | Some filename \<Rightarrow>
             let filename = str_to_upper filename in
             do { (r, s) \<leftarrow> stage_file E (h_current_dir_cluster host) filename APP_MAX_COM_SIZE s;
                  Some (map_option (Pair filename) r, s) })"

section \<open>Starting a task\<close>

definition task_addr :: "nat \<Rightarrow> u32" where
  "task_addr pid = of_nat (APP_TASK_TABLE_PHYS + pid * sizeof_task)"

definition plan_image :: "shell_app_format \<Rightarrow> int \<Rightarrow> 'a app_state_scheme \<Rightarrow> u32 option" where
  "plan_image fmt n s = (case fmt of
     APP_FORMAT_ELF \<Rightarrow> map_option snd (shell_apps_probe_elf_image (g_elf_buffer s) n)
   | APP_FORMAT_COM \<Rightarrow> shell_apps_plan_com_image n)"

definition load_image :: "shell_app_format \<Rightarrow> int \<Rightarrow> nat \<Rightarrow> 'a app_state_scheme \<Rightarrow> u32 option \<times> 'a app_state_scheme" where
  "load_image fmt n pid s =
     (let task = task_at pid s;
          (e, mem) = (case fmt of
            APP_FORMAT_ELF \<Rightarrow> shell_apps_load_elf_image (g_elf_buffer s) n (app_phys_base task) (app_slot_bytes task) (m_mem s)
          | APP_FORMAT_COM \<Rightarrow> shell_apps_load_com_image (g_elf_buffer s) n (app_phys_base task) (app_slot_bytes task) (m_mem s))
      in (e, s\<lparr>m_mem := mem\<rparr>))"

definition default_origin :: "shell_app_format \<Rightarrow> cstr" where
  "default_origin fmt = (case fmt of APP_FORMAT_COM \<Rightarrow> ascii ''APP.COM'' | APP_FORMAT_ELF \<Rightarrow> ascii ''APP.ELF'')"

definition label_task :: "nat \<Rightarrow> u32 \<Rightarrow> cstr \<Rightarrow> cstr \<Rightarrow> cstr \<Rightarrow> 'a app_state_scheme \<Rightarrow> 'a app_state_scheme" where
  "label_task pid entry normalized filename fallback s =
     upd_task pid (\<lambda>t. t\<lparr>entry_virtual := entry, task_name := shell_apps_set_task_label TASK_NAME_MAX normalized (ascii ''app''),
       origin_name := shell_apps_set_task_label TASK_NAME_MAX filename fallback\<rparr>) s"

text \<open>The call of the scheduler and the check that it gave the slot the task was prepared for.\<close>

definition start_task :: "'l app_link_scheme \<Rightarrow> nat \<Rightarrow> cstr \<Rightarrow> cstr \<Rightarrow> 'a app_state_scheme \<Rightarrow> bool \<times> 'a app_state_scheme" where
  "start_task L pid name origin s =
     (case scheduler_spawn_kernel_task L (Some name) (Some origin) True (lm_background_thread L) (task_addr pid)
             (of_nat (task_page_directory pid)) s of
        (None, s) \<Rightarrow> (False, shell_apps_release_task pid s)
      | (Some actual_pid, s) \<Rightarrow>
          if actual_pid \<noteq> pid
          then (False, snd (scheduler_terminate_process L (int actual_pid) (shell_apps_release_task pid s)))
          else (True, s))"

text \<open>\<^verbatim>\<open>shell_apps_prepare_app_task\<close> with the drive that \<^verbatim>\<open>drive_get_current\<close> returns.\<close>

definition prepare_task ::
    "'l app_link_scheme \<Rightarrow> nat \<Rightarrow> shell_app_host \<Rightarrow> u32 \<Rightarrow> u32 \<Rightarrow> bool \<Rightarrow> bool \<Rightarrow> bool
     \<Rightarrow> ('h, 'p, 'a) os_state_scheme \<Rightarrow> bool \<times> ('h, 'p, 'a) os_state_scheme" where
  "prepare_task L pid host phys_base slot_bytes bg serial join s =
     (let (d, s) = os_drive_get_current s in shell_apps_prepare_app_task L pid host d phys_base slot_bytes bg serial join s)"

section \<open>Foreground\<close>

text \<open>From the reaping of old tasks to the start of the new one, as in \<^verbatim>\<open>shell_apps_try_execute_com\<close> and
  \<^verbatim>\<open>shell_apps_try_execute_elf\<close>; \<open>Some pid\<close> when the shell goes on to wait for \<open>pid\<close>.\<close>

definition launch_foreground ::
    "'l os_link_scheme \<Rightarrow> shell_app_host \<Rightarrow> shell_app_format \<Rightarrow> cstr \<Rightarrow> cstr \<Rightarrow> int \<Rightarrow> u32
     \<Rightarrow> ('h, 'p, 'a) os_state_scheme \<Rightarrow> nat option \<times> ('h, 'p, 'a) os_state_scheme" where
  "launch_foreground L host fmt normalized filename n slot_bytes s =
     (let s = shell_apps_reap_terminated_tasks s;
          bad = (case fmt of APP_FORMAT_COM \<Rightarrow> line ''Invalid COM or load error'' | APP_FORMAT_ELF \<Rightarrow> line ''Invalid ELF or load error'') in
      case shell_apps_find_free_pid s of
        (None, s) \<Rightarrow> (None, shell_apps_out_both L host (line ''No scheduler slot available'') s)
      | (Some pid, s) \<Rightarrow>
        (case shell_apps_allocate_phys_base slot_bytes s of (phys_base, s) \<Rightarrow>
         if phys_base = 0 then (None, shell_apps_out_both L host (line ''No app memory slot available'') s)
         else case prepare_task L pid host phys_base slot_bytes False False True s of
           (False, s) \<Rightarrow> (None, shell_apps_out_both L host (line ''Unable to prepare app task'') (shell_apps_release_task pid s))
         | (True, s) \<Rightarrow>
           (case load_image fmt n pid s of
              (None, s) \<Rightarrow> (None, shell_apps_out_both L host bad (shell_apps_release_task pid s))
            | (Some entry, s) \<Rightarrow>
                let s = label_task pid entry normalized filename (default_origin fmt) s in
                (case start_task L pid (if normalized \<noteq> [] then normalized else ascii ''app'') filename s of
                   (False, s) \<Rightarrow> (None, shell_apps_out_both L host (line ''Unable to start app task'') s)
                 | (True, s) \<Rightarrow> (Some pid, s)))))"

definition announce :: "'l os_link_scheme \<Rightarrow> shell_app_host \<Rightarrow> cstr \<Rightarrow> cstr \<Rightarrow> 'a log_state_scheme \<Rightarrow> 'a log_state_scheme" where
  "announce L host verb filename s =
     shell_apps_out_both L host (line ''...'') (shell_apps_out_both L host filename (shell_apps_out_both L host verb s))"

text \<open>How a command ends: not a program; handled at once; or waiting for a task.\<close>

datatype outcome = Not_found | Handled | Waiting nat

definition shell_apps_try_execute_com ::
    "('h, 'p) os_env \<Rightarrow> 'l os_link_scheme \<Rightarrow> shell_app_host \<Rightarrow> cstr \<Rightarrow> cstr \<Rightarrow> ('h, 'p, 'a) os_state_scheme
     \<Rightarrow> (outcome \<times> shell_app_host \<times> ('h, 'p, 'a) os_state_scheme) option" where
  "shell_apps_try_execute_com E L host command args s =
     (if \<not> shell_apps_host_valid host then Some (Not_found, host, s)
      else if command = [] \<or> args \<noteq> [] then Some (Not_found, host, s)
      else do {
        (ok, host, s) \<leftarrow> shell_apps_ensure_host_fat16_ready E host s;
        if \<not> ok then Some (Not_found, host, s)
        else do {
          (r, s) \<leftarrow> shell_apps_stage_com_candidate E host command 64 s;
          case r of
            None \<Rightarrow> Some (Not_found, host, s)
          | Some (filename, n) \<Rightarrow>
              let s = announce L host (ascii ''Executing '') filename s in
              (case plan_image APP_FORMAT_COM n s of
                 None \<Rightarrow> Some (Handled, host, shell_apps_out_both L host (line ''Invalid COM or load error'') s)
               | Some slot_bytes \<Rightarrow>
                   let (r, s) = launch_foreground L host APP_FORMAT_COM (shell_apps_normalize_app_name command 64) filename n slot_bytes s
                   in Some (case r of None \<Rightarrow> Handled | Some pid \<Rightarrow> Waiting pid, host, s))
        }
      })"

definition shell_apps_try_execute_elf ::
    "('h, 'p) os_env \<Rightarrow> 'l os_link_scheme \<Rightarrow> shell_app_host \<Rightarrow> cstr \<Rightarrow> cstr \<Rightarrow> ('h, 'p, 'a) os_state_scheme
     \<Rightarrow> (outcome \<times> shell_app_host \<times> ('h, 'p, 'a) os_state_scheme) option" where
  "shell_apps_try_execute_elf E L host command args s =
     (if \<not> shell_apps_host_valid host then Some (Not_found, host, s)
      else if command = [] \<or> args \<noteq> [] then Some (Not_found, host, s)
      else let normalized = shell_apps_normalize_app_name command 64 in
      if normalized = [] then Some (Not_found, host, s)
      else case (if shell_apps_has_extension normalized (ascii ''.elf'')
                 then shell_apps_append_extension normalized [] False 64
                 else shell_apps_append_extension normalized (ascii ''.elf'') False 64) of
        None \<Rightarrow> Some (Not_found, host, s)
      | Some filename \<Rightarrow> do {
        (ok, host, s) \<leftarrow> shell_apps_ensure_host_fat16_ready E host s;
        if \<not> ok then Some (Not_found, host, s)
        else let filename = str_to_upper filename in do {
          (r, s) \<leftarrow> stage_file E (h_current_dir_cluster host) filename APP_MAX_ELF_SIZE s;
          case r of
            None \<Rightarrow> Some (Not_found, host, s)
          | Some n \<Rightarrow>
              let s = announce L host (ascii ''Executing '') filename s in
              (case plan_image APP_FORMAT_ELF n s of
                 None \<Rightarrow> Some (Handled, host, shell_apps_out_both L host (line ''Invalid ELF or load error'') s)
               | Some slot_bytes \<Rightarrow>
                   let (r, s) = launch_foreground L host APP_FORMAT_ELF normalized filename n slot_bytes s
                   in Some (case r of None \<Rightarrow> Handled | Some pid \<Rightarrow> Waiting pid, host, s))
        }
      })"

definition shell_apps_try_execute_program ::
    "('h, 'p) os_env \<Rightarrow> 'l os_link_scheme \<Rightarrow> shell_app_host \<Rightarrow> cstr \<Rightarrow> cstr \<Rightarrow> ('h, 'p, 'a) os_state_scheme
     \<Rightarrow> (outcome \<times> shell_app_host \<times> ('h, 'p, 'a) os_state_scheme) option" where
  "shell_apps_try_execute_program E L host command args s =
     (if shell_apps_has_extension command (ascii ''.com'') then shell_apps_try_execute_com E L host command args s
      else if shell_apps_has_extension command (ascii ''.elf'') then shell_apps_try_execute_elf E L host command args s
      else do {
        (r, host, s) \<leftarrow> shell_apps_try_execute_elf E L host command args s;
        if r \<noteq> Not_found then Some (r, host, s) else shell_apps_try_execute_com E L host command args s
      })"

text \<open>The condition on which \<^verbatim>\<open>shell_apps_wait_for_task_exit\<close> returns, and what follows it.\<close>

definition task_exited :: "int \<Rightarrow> 'a sched_state_scheme \<Rightarrow> bool" where
  "task_exited pid s \<longleftrightarrow> \<not> (pid \<ge> APP_SLOT_FIRST_PID \<and> pid < int SCHEDULER_MAX_PROCESSES)
     \<or> scheduler_get_process_state pid s = PROCESS_TERMINATED \<or> scheduler_get_process_state pid s = PROCESS_UNUSED"

definition finish_foreground ::
    "('h, 'p) os_env \<Rightarrow> nat \<Rightarrow> shell_app_host \<Rightarrow> ('h, 'p, 'a) os_state_scheme \<Rightarrow> shell_app_host \<times> ('h, 'p, 'a) os_state_scheme" where
  "finish_foreground E pid host s =
     (let s = shell_apps_end_foreground_graphics E pid s;
          host = shell_apps_sync_host_state (task_at pid s) host
      in (host, shell_apps_release_task pid s))"

section \<open>Background\<close>

definition launch_background ::
    "'l app_link_scheme \<Rightarrow> shell_app_host \<Rightarrow> shell_app_format \<Rightarrow> cstr \<Rightarrow> cstr \<Rightarrow> int \<Rightarrow> u32
     \<Rightarrow> ('h, 'p, 'a) os_state_scheme \<Rightarrow> nat option \<times> ('h, 'p, 'a) os_state_scheme" where
  "launch_background L host fmt normalized filename n slot_bytes s =
     (case shell_apps_find_free_pid s of
        (None, s) \<Rightarrow> (None, s)
      | (Some pid, s) \<Rightarrow>
        let s = log_serial_raw (line ''APPBG004'') s in
        (case shell_apps_allocate_phys_base slot_bytes s of (phys_base, s) \<Rightarrow>
         if phys_base = 0 then (None, s)
         else let s = log_serial_raw (line ''APPBG005'') s in
         case prepare_task L pid host phys_base slot_bytes True True False s of
           (False, s) \<Rightarrow> (None, shell_apps_release_task pid s)
         | (True, s) \<Rightarrow>
           let s = log_serial_raw (line ''APPBG006'') s;
               s = log_serial_raw (line ''APPBG007'') s in
           (case load_image fmt n pid s of
              (None, s) \<Rightarrow> (None, shell_apps_release_task pid s)
            | (Some entry, s) \<Rightarrow>
                let s = log_serial_raw (line ''APPBG008'') s;
                    s = label_task pid entry normalized filename (default_origin fmt) s;
                    s = shell_apps_log_task_marker (ascii ''APPBG010'') (task_at pid s) s in
                (case start_task L pid (if normalized \<noteq> [] then normalized else ascii ''app'') filename s of
                   (False, s) \<Rightarrow> (None, s)
                 | (True, s) \<Rightarrow> (Some pid, s)))))"

text \<open>The search for the file of a background command, ELF first.\<close>

definition bg_search :: "('h, 'p) os_env \<Rightarrow> shell_app_host \<Rightarrow> cstr \<Rightarrow> ('h, 'p, 'a) os_state_scheme
    \<Rightarrow> ((shell_app_format \<times> cstr \<times> int) option \<times> ('h, 'p, 'a) os_state_scheme) option" where
  "bg_search E host command s = do {
     (elf, s) \<leftarrow> (if shell_apps_has_extension command (ascii ''.com'') then Some (None, s)
                  else shell_apps_stage_elf_candidate E host command 64 s);
     case elf of
       Some x \<Rightarrow> Some (Some (APP_FORMAT_ELF, x), s)
     | None \<Rightarrow> if shell_apps_has_extension command (ascii ''.elf'') then Some (None, s)
               else do { (com, s) \<leftarrow> shell_apps_stage_com_candidate E host command 64 s;
                         Some (map_option (Pair APP_FORMAT_COM) com, s) } }"

definition shell_apps_run_background ::
    "('h, 'p) os_env \<Rightarrow> 'l app_link_scheme \<Rightarrow> shell_app_host \<Rightarrow> cstr \<Rightarrow> ('h, 'p, 'a) os_state_scheme
     \<Rightarrow> (nat option \<times> shell_app_host \<times> ('h, 'p, 'a) os_state_scheme) option" where
  "shell_apps_run_background E L host command s =
     (if \<not> shell_apps_host_valid host \<or> command = [] then Some (None, host, s)
      else let s = shell_apps_reap_terminated_tasks s;
               s = log_serial_raw (line ''APPBG001'') s;
               normalized = shell_apps_normalize_app_name command 64 in
      if normalized = [] then Some (None, host, s)
      else let s = log_serial_raw (line ''APPBG002'') s in do {
        (ok, host, s) \<leftarrow> shell_apps_ensure_host_fat16_ready E host s;
        if \<not> ok then Some (None, host, s)
        else let s = log_serial_raw (line ''APPBG003'') s in do {
          (r, s) \<leftarrow> bg_search E host command s;
          case r of
            None \<Rightarrow> Some (None, host, s)
          | Some (fmt, filename, n) \<Rightarrow>
              (case plan_image fmt n s of
                 None \<Rightarrow> Some (None, host, s)
               | Some slot_bytes \<Rightarrow>
                   let (r, s) = launch_background L host fmt normalized filename n slot_bytes s
                   in Some (r, host, s))
        }
      })"

section \<open>Ends of a task\<close>

definition shell_apps_on_current_task_exit ::
    "('h, 'p) os_env \<Rightarrow> 'l app_link_scheme \<Rightarrow> ('h, 'p, 'a) os_state_scheme \<Rightarrow> ('h, 'p, 'a) os_state_scheme" where
  "shell_apps_on_current_task_exit E L s =
     (case shell_apps_active_task s of
        None \<Rightarrow> s
      | Some idx \<Rightarrow>
        if \<not> shell_apps_task_valid (task_at idx s) then s
        else let leader = shell_apps_group_leader_pid (task_at idx s);
                 pid = t_pid (task_at idx s);
                 s = shell_apps_log_task_marker (ascii ''APPBG190'') (task_at idx s) s;
                 s = (if \<not> background (task_at idx s) \<and> pid = leader
                      then shell_apps_note_session_return E idx (shell_apps_end_foreground_graphics E idx s) else s)
             in if pid = leader then shell_apps_release_group_members L leader pid True s else s)"

definition log_fault :: "shell_app_task \<Rightarrow> u32 \<Rightarrow> u32 \<Rightarrow> u32 \<Rightarrow> 'a log_state_scheme \<Rightarrow> 'a log_state_scheme" where
  "log_fault task vector error_code eip s =
     (let s = log_serial_raw (ascii ''APPFLT900 pid='') s;
          s = log_print_hex (of_int (t_pid task)) s;
          s = log_serial_raw (ascii '' leader='') s;
          s = log_print_hex (of_int (shell_apps_group_leader_pid task)) s;
          s = log_serial_raw (ascii '' vector='') s;
          s = log_print_hex vector s;
          s = log_serial_raw (ascii '' error='') s;
          s = log_print_hex error_code s;
          s = log_serial_raw (ascii '' eip='') s;
          s = log_print_hex eip s
      in log_serial_raw [Logger.newline] s)"

definition shell_apps_on_current_task_fault ::
    "('h, 'p) os_env \<Rightarrow> 'l os_link_scheme \<Rightarrow> u32 \<Rightarrow> u32 \<Rightarrow> u32 \<Rightarrow> ('h, 'p, 'a) os_state_scheme \<Rightarrow> ('h, 'p, 'a) os_state_scheme" where
  "shell_apps_on_current_task_fault E L vector error_code eip s =
     (case shell_apps_active_task s of
        None \<Rightarrow> s
      | Some idx \<Rightarrow>
        if \<not> shell_apps_task_valid (task_at idx s) then s
        else let leader = shell_apps_group_leader_pid (task_at idx s);
                 pid = t_pid (task_at idx s);
                 s = log_fault (task_at idx s) vector error_code eip s;
                 s = (if \<not> background (task_at idx s) \<and> pid = leader
                      then let s = shell_apps_end_foreground_graphics E idx s;
                               s = shell_apps_task_out L (task_at idx s) (line ''App faulted and was terminated'') s
                           in shell_apps_note_session_return E idx s
                      else s)
             in shell_apps_release_group_members L leader pid True s)"

text \<open>The first code of a task, in kernel mode: \<open>Inl\<close> is the entry to user mode, \<open>Inr\<close> the exit of a task whose runtime
  area could not be set up, and \<open>None\<close> the return of the thread function, which ends the thread too. \<open>frame\<close> is the
  interrupt frame of the yield inside that exit.\<close>

definition shell_apps_background_thread ::
    "('h, 'p) os_env \<Rightarrow> 'l os_link_scheme \<Rightarrow> nat \<Rightarrow> u32 \<Rightarrow> ('h, 'p, 'a) os_state_scheme
     \<Rightarrow> (user_entry option + u32 option) option \<times> ('h, 'p, 'a) os_state_scheme" where
  "shell_apps_background_thread E L pid frame s =
     (if \<not> in_use (task_at pid s) then (None, s)
      else let s = shell_apps_begin_input_session pid s;
               s = (if origin_name (task_at pid s) \<noteq> [] then shell_apps_begin_scheduler_origin (origin_name (task_at pid s)) s else s);
               s = shell_apps_ensure_interrupts_enabled s;
               s = shell_apps_begin_foreground_graphics E pid s;
               s = shell_apps_log_task_marker (ascii ''APPBG100'') (task_at pid s) s in
      case shell_apps_prepare_user_launch (task_at pid s) s of
        (None, s) \<Rightarrow>
          (let s = shell_apps_task_out L (task_at pid s) (line ''User runtime setup failed'') s;
               s = shell_apps_on_current_task_exit E L s;
               (r, s) = scheduler_exit_current_task L frame s
           in (Some (Inr r), s))
      | (Some (entry, esp), s) \<Rightarrow>
          (let (r, s) = scheduler_enter_current_user_mode entry esp s in (Some (Inl r), s)))"

section \<open>Threads\<close>

text \<open>The part from the search for a free pid on.\<close>

definition fork_task ::
    "'l app_link_scheme \<Rightarrow> nat \<Rightarrow> u32 \<Rightarrow> u32 \<Rightarrow> cstr \<Rightarrow> 'a app_state_scheme \<Rightarrow> int \<times> 'a app_state_scheme" where
  "fork_task L parent entry arg child_name s =
     (case shell_apps_find_free_pid s of
        (None, s) \<Rightarrow> (-1, s)
      | (Some pid, s) \<Rightarrow>
        (case shell_apps_clone_background_task L pid parent pid entry arg child_name s of
           (False, s) \<Rightarrow> (-1, shell_apps_release_task pid s)
         | (True, s) \<Rightarrow>
           let child = task_at pid s;
               s = shell_apps_log_task_marker (ascii ''APPTH100'') child s in
           case start_task L pid (if task_name child \<noteq> [] then task_name child else ascii ''thread'')
                  (if origin_name (task_at parent s) \<noteq> [] then origin_name (task_at parent s) else task_name (task_at parent s)) s of
             (False, s) \<Rightarrow> (-1, s)
           | (True, s) \<Rightarrow> (int pid, s)))"

text \<open>\<open>spec\<close> is the user address of the structure with name, entry and argument. The result is the new pid or -1.\<close>

definition shell_apps_spawn_app_thread ::
    "'l app_link_scheme \<Rightarrow> nat \<Rightarrow> u32 \<Rightarrow> 'a app_state_scheme \<Rightarrow> (int \<times> 'a app_state_scheme) option" where
  "shell_apps_spawn_app_thread L parent spec s =
     (let task = task_at parent s in
      if \<not> shell_apps_task_valid task \<or> spec = 0 \<or> \<not> background task then Some (-1, s)
      else do {
        copy \<leftarrow> shell_apps_copy_user_bytes task spec 12 s;
        case copy of
          None \<Rightarrow> Some (-1, s)
        | Some b \<Rightarrow>
          let nm = load32 b 0; entry = load32 b 4; arg = load32 b 8 in
          if entry = 0 \<or> \<not> shell_apps_user_exec_ptr_valid task entry then Some (-1, s)
          else do {
            name \<leftarrow> (if nm = 0 then Some (Some []) else shell_apps_copy_user_string task nm 24 s);
            case name of
              None \<Rightarrow> Some (-1, s)
            | Some child_name \<Rightarrow> Some (fork_task L parent entry arg child_name s)
          }
      })"

end
