(* ===== verification/App_Frame.thy ===== *)
theory App_Frame
  imports App_Launch
begin

text \<open>
  What the operations below the application layer leave alone. The scheduler, the log and the machine never touch the
  fields of the application layer, which are the extension of their records; logging and output touch nothing that the
  invariant of the application layer speaks about.
\<close>

unbundle bit_operations_syntax

named_theorems frame_simps \<open>operations and the parts of the state they keep\<close>

section \<open>The scheduler keeps its extension\<close>

lemma upd_slot_more [frame_simps]: "sched_state.more (upd_slot i f s) = sched_state.more s"
  by (simp add: upd_slot_def)

lemma machine_more [frame_simps]:
  "sched_state.more (cli s) = sched_state.more s" "sched_state.more (sti s) = sched_state.more s"
  "sched_state.more (s\<lparr>m_mem := m\<rparr>) = sched_state.more s" "sched_state.more (s\<lparr>m_cr3 := c\<rparr>) = sched_state.more s"
  "sched_state.more (s\<lparr>g_tss := w\<rparr>) = sched_state.more s" "sched_state.more (s\<lparr>g_current := k\<rparr>) = sched_state.more s"
  "sched_state.more (s\<lparr>g_slice_ticks_left := q\<rparr>) = sched_state.more s"
  "sched_state.more (s\<lparr>g_quantum_ticks := q\<rparr>) = sched_state.more s"
  "sched_state.more (s\<lparr>g_preemption_enabled := b\<rparr>) = sched_state.more s"
  "sched_state.more (store_word a v s) = sched_state.more s" "sched_state.more (sched_mem_zero d n s) = sched_state.more s"
  "sched_state.more (timer_on_tick s) = sched_state.more s"
  by (simp_all add: cli_def sti_def store_word_def sched_mem_zero_def timer_on_tick_def)

lemma log_more [frame_simps]:
  "sched_state.more (log_serial_raw t s) = sched_state.more s" "sched_state.more (log_print_hex n s) = sched_state.more s"
  "sched_state.more (emit_screen t s) = sched_state.more s"
proof -
  have a: "sched_state.more (append_string t u) = sched_state.more u" for t and u :: "'a sched_state_scheme"
    by (induction t arbitrary: u) (simp_all add: append_char_def)
  show "sched_state.more (log_serial_raw t s) = sched_state.more s" "sched_state.more (log_print_hex n s) = sched_state.more s"
    "sched_state.more (emit_screen t s) = sched_state.more s"
    by (simp_all add: log_serial_raw_def write_string_emit emit_dest_def emit_serial_def emit_screen_def log_print_hex_def a)
qed

lemma wake_sleepers_more [frame_simps]: "sched_state.more (sched_wake_sleepers now s) = sched_state.more s"
proof -
  have "sched_state.more (fold (\<lambda>i. upd_slot i f) xs s) = sched_state.more s" for f xs
    by (induction xs arbitrary: s) (simp_all add: frame_simps)
  then show ?thesis by (simp add: sched_wake_sleepers_def)
qed

lemma activate_more [frame_simps]: "sched_state.more (snd (sched_activate_slot L n s)) = sched_state.more s"
  by (simp add: sched_activate_slot_def Let_def paging_activate_directory_def load_page_directory_def
      paging_set_kernel_stack_top_def frame_simps)

lemma switch_more [frame_simps]: "sched_state.more (snd (sched_switch_from_frame L f s)) = sched_state.more s"
  by (simp add: sched_switch_from_frame_def Let_def frame_simps split: option.split)

lemma yield_more [frame_simps]: "sched_state.more (snd (scheduler_on_yield L f s)) = sched_state.more s"
  by (simp add: scheduler_on_yield_def frame_simps)

lemma tick_more [frame_simps]: "sched_state.more (snd (scheduler_on_timer_tick L f s)) = sched_state.more s"
  by (simp add: scheduler_on_timer_tick_def Let_def frame_simps)

lemma exit_irq_more [frame_simps]: "sched_state.more (snd (scheduler_exit_current_from_interrupt L f s)) = sched_state.more s"
  by (simp add: scheduler_exit_current_from_interrupt_def Let_def frame_simps split: option.split)

lemma exit_current_more [frame_simps]: "sched_state.more (snd (sched_exit_current L f s)) = sched_state.more s"
  by (simp add: sched_exit_current_def Let_def scheduler_yield_def split_beta frame_simps)

lemma terminate_more [frame_simps]: "sched_state.more (snd (scheduler_terminate_process L pid s)) = sched_state.more s"
  by (simp add: scheduler_terminate_process_def frame_simps)

lemma sleep_block_more [frame_simps]: "sched_state.more (sleep_block n s) = sched_state.more s"
  by (simp add: sleep_block_def frame_simps)

lemma set_origin_more [frame_simps]: "sched_state.more (scheduler_set_current_origin n e s) = sched_state.more s"
  by (simp add: scheduler_set_current_origin_def frame_simps)

lemma enter_user_more [frame_simps]: "sched_state.more (snd (scheduler_enter_current_user_mode e u s)) = sched_state.more s"
  by (simp add: scheduler_enter_current_user_mode_def Let_def paging_set_kernel_stack_top_def frame_simps)

lemma spawn_more [frame_simps]:
  "sched_state.more (snd (scheduler_spawn_kernel_task L nm org ex entry arg pdir s)) = sched_state.more s"
  by (simp add: scheduler_spawn_kernel_task_def sched_spawn_kernel_thread_internal_def Let_def sched_reset_slot_def
      sched_prepare_kernel_thread_def frame_simps split: option.split)

lemma more_app:
  assumes "sched_state.more s = sched_state.more (t :: 'a app_state_scheme)"
  shows "g_app_tasks s = g_app_tasks t" "g_app_phys_page_used s = g_app_phys_page_used t"
  using assms by (cases s; cases t; simp)+

section \<open>The part of the state the invariant speaks about\<close>

definition core :: "'a app_state_scheme \<Rightarrow> shell_app_task list \<times> bool list \<times> process list \<times> int \<times> bool \<times> (nat \<Rightarrow> u32) \<times> u32" where
  "core s = (g_app_tasks s, g_app_phys_page_used s, g_slots s, g_current s, g_runtime_ready s, m_mem s, m_cr3 s)"

lemma core_eqD:
  assumes "core t = core s"
  shows "g_app_tasks t = g_app_tasks s" "g_app_phys_page_used t = g_app_phys_page_used s" "g_slots t = g_slots s"
    "g_current t = g_current s" "g_runtime_ready t = g_runtime_ready s" "m_mem t = m_mem s" "m_cr3 t = m_cr3 s"
  using assms by (simp_all add: core_def)

lemma log_app [simp]:
  "g_app_tasks (log_serial_raw t s) = g_app_tasks s" "g_app_phys_page_used (log_serial_raw t s) = g_app_phys_page_used s"
  "g_app_tasks (log_print_hex n s) = g_app_tasks s" "g_app_phys_page_used (log_print_hex n s) = g_app_phys_page_used s"
  by (rule more_app, simp add: frame_simps)+

lemma core_log [frame_simps]:
  "core (log_serial_raw t s) = core s" "core (log_print_hex n s) = core s" "core (emit_screen t s) = core s"
  by (simp_all add: core_def) (simp_all add: log_print_hex_def emit_serial_def emit_screen_def)

lemma core_machine [frame_simps]: "core (cli s) = core s" "core (sti s) = core s"
  by (simp_all add: core_def cli_def sti_def)

lemma core_os [frame_simps]:
  "core (s\<lparr>os_fat := fs\<rparr>) = core s" "core (s\<lparr>os_input := i\<rparr>) = core s" "core (s\<lparr>os_video := w\<rparr>) = core s"
  "core (s\<lparr>os_hw := h\<rparr>) = core s" "core (s\<lparr>g_elf_buffer := b\<rparr>) = core s" "core (s\<lparr>app_rng_state := r\<rparr>) = core s"
  by (cases s; simp add: core_def)+

lemma core_out [frame_simps]:
  "core (shell_apps_log_task_marker m t s) = core s" "core (log_fault t v e i s) = core s"
  "core (shell_apps_out_both L host x s) = core s" "core (shell_apps_task_out L t x s) = core s"
  "core (announce L host verb f s) = core s"
  by (simp_all add: shell_apps_log_task_marker_def log_fault_def Let_def frame_simps shell_apps_out_both_def
      shell_apps_task_out_def call_out_both_def shell_out_both_def shell_out_serial_only_def announce_def)

lemma core_video [frame_simps]:
  "core (snd (os_video_call E c s)) = core s" "core (shell_apps_flush_graphics E s) = core s"
  "core (shell_apps_begin_foreground_graphics E pid s) = core s" "core (shell_apps_end_foreground_graphics E pid s) = core s"
  by (simp_all add: os_video_call_def frame_simps shell_apps_flush_graphics_def shell_apps_begin_foreground_graphics_def
      shell_apps_end_foreground_graphics_def)

lemma core_drive [frame_simps]:
  "core (snd (os_drive_get_current s)) = core s" "core (os_set_drive d s) = core s" "core (os_drive_set_current d s) = core s"
  by (simp_all add: os_drive_get_current_def split_beta os_set_drive_def os_drive_set_current_def frame_simps)

lemma core_fat_call: "os_fat_call f s = Some (r, t) \<Longrightarrow> core t = core s"
  by (auto simp: os_fat_call_def frame_simps)

text \<open>Draining the keyboard only reads the controller.\<close>

lemma ps2_drain_base: "timer_state.truncate (ps2_drain_output io n s) = timer_state.truncate s"
  by (induction io n s rule: ps2_drain_output.induct)
    (simp_all add: ps2_read_status_def ps2_inb_def split_beta Let_def timer_state.truncate_def)

lemma keyboard_flush_base: "timer_state.truncate (keyboard_flush io s) = timer_state.truncate s"
  using ps2_drain_base [of io 512 s] by (simp add: keyboard_flush_def Let_def timer_state.truncate_def)

lemma input_back_core:
  assumes "timer_state.truncate i = timer_state.truncate s"
  shows "core (input_back i s) = core s"
proof -
  have "timer_state.extend (timer_state.truncate s) (timer_state.more s) = s" by (cases s) (simp add: timer_state.defs)
  then show ?thesis by (simp add: input_back_def assms frame_simps)
qed

lemma input_view_base: "timer_state.truncate (input_view s) = timer_state.truncate s"
  by (simp add: input_view_def timer_state.defs)

lemma core_session_return [frame_simps]:
  "core (shell_apps_note_session_return E pid s) = core (upd_task pid (\<lambda>t. t\<lparr>input_ready_logged := False\<rparr>) s)"
proof -
  let ?s = "snd (with_input (\<lambda>i. ((), keyboard_flush (env_ports E) i)) s)"
  have "core ?s = core s"
    by (simp add: with_input_def input_back_core keyboard_flush_base input_view_base)
  then have "core (log_serial_raw (ascii ''APPRET001'' @ [Logger.newline]) ?s) = core s" by (simp add: frame_simps)
  from core_eqD [OF this] show ?thesis unfolding shell_apps_note_session_return_def Let_def
    by (simp add: core_def upd_task_def)
qed

end
