(* ===== verification/App_Inv.thy ===== *)
theory App_Inv
  imports App_Frame
begin

text \<open>
  The invariant of the application layer. Every page of the arena that is marked belongs to exactly one task that owns its memory; every thread
  that runs on the page directory of a task has a task with that directory, its memory is owned by it or by
  the living leader of its group, and the directory maps exactly that memory. So no living thread can reach memory that is free or
  belongs to another application, and the kernel tables stay intact.

  The lemmas say which changes of the state keep the invariant: threads may die in groups, dead tasks may be released, memory may
  be given to a new task, a prepared task may become a thread, and memory outside the tables may change.
\<close>

unbundle bit_operations_syntax

section \<open>The invariant\<close>

definition live :: "process_state_t \<Rightarrow> bool" where
  "live x \<longleftrightarrow> x \<noteq> PROCESS_UNUSED \<and> x \<noteq> PROCESS_TERMINATED"

abbreviation pdir :: "'a sched_state_scheme \<Rightarrow> nat \<Rightarrow> u32" where
  "pdir s p \<equiv> page_directory (p_context (slot_at p s))"

abbreviation kdir :: "'l link_map_scheme \<Rightarrow> u32" where
  "kdir L \<equiv> of_nat (lm_page_directory L)"

abbreviation tdir :: "nat \<Rightarrow> u32" where
  "tdir p \<equiv> of_nat (task_page_directory p)"

text \<open>A living thread in the address space of task \<open>p\<close>.\<close>

definition app_thread :: "'a sched_state_scheme \<Rightarrow> nat \<Rightarrow> bool" where
  "app_thread s p \<longleftrightarrow> live (st s p) \<and> pdir s p = tdir p"

definition pages_of :: "shell_app_task \<Rightarrow> nat set" where
  "pages_of t = {(unat (app_phys_base t) - 0x700000) div 4096 ..< (unat (app_phys_base t) - 0x700000 + unat (app_slot_bytes t)) div 4096}"

definition task_ok :: "nat \<Rightarrow> shell_app_task \<Rightarrow> bool" where
  "task_ok p t \<longleftrightarrow> t_pid t = int p \<and> (\<exists>first n. arena_range (app_phys_base t) (app_slot_bytes t) first n)
     \<and> slot_ok (app_slot_bytes t) \<and> 3 \<le> leader_pid t \<and> leader_pid t < 8 \<and> shell_apps_task_valid t
     \<and> (owns_app_memory t \<longrightarrow> leader_pid t = int p) \<and> (\<not> owns_app_memory t \<longrightarrow> \<not> join_on_exit t)"

definition owns :: "'a app_state_scheme \<Rightarrow> nat \<Rightarrow> nat \<Rightarrow> bool" where
  "owns s p k \<longleftrightarrow> in_use (task_at p s) \<and> owns_app_memory (task_at p s) \<and> k \<in> pages_of (task_at p s)"

definition tasks_inv :: "'a app_state_scheme \<Rightarrow> bool" where
  "tasks_inv s \<longleftrightarrow> length (g_app_tasks s) = 8
     \<and> (\<forall>p < 8. if in_use (task_at p s) then 3 \<le> p \<and> task_ok p (task_at p s) else \<not> owns_app_memory (task_at p s))"

definition arena_inv :: "'a app_state_scheme \<Rightarrow> bool" where
  "arena_inv s \<longleftrightarrow> length (g_app_phys_page_used s) = 1024
     \<and> (\<forall>k < 1024. g_app_phys_page_used s ! k \<longleftrightarrow> (\<exists>p < 8. owns s p k))
     \<and> (\<forall>p < 8. \<forall>q < 8. \<forall>k. owns s p k \<longrightarrow> owns s q k \<longrightarrow> p = q)"

text \<open>The owner of the memory a task runs in.\<close>

definition owner_ok :: "'a app_state_scheme \<Rightarrow> nat \<Rightarrow> bool" where
  "owner_ok s p \<longleftrightarrow> in_use (task_at p s) \<and>
     (let l = nat (leader_pid (task_at p s)) in in_use (task_at l s) \<and> owns_app_memory (task_at l s) \<and> app_thread s l
        \<and> app_phys_base (task_at l s) = app_phys_base (task_at p s) \<and> app_slot_bytes (task_at l s) = app_slot_bytes (task_at p s))"

definition threads_inv :: "'l link_map_scheme \<Rightarrow> 'a app_state_scheme \<Rightarrow> bool" where
  "threads_inv L s \<longleftrightarrow> sched_inv s \<and> (\<forall>p < 8. pdir s p = kdir L \<or> pdir s p = tdir p)
     \<and> (\<forall>p < 8. app_thread s p \<longrightarrow> owner_ok s p)
     \<and> m_cr3 s = pdir s (cur s) \<and> live (st s (cur s))"

definition APP_FLAGS :: u32 where
  "APP_FLAGS = PAGE_PRESENT OR PAGE_RW OR PAGE_USER"

definition dir_cells :: "'l link_map_scheme \<Rightarrow> (nat \<Rightarrow> u32) \<Rightarrow> nat \<Rightarrow> u32 \<Rightarrow> nat \<Rightarrow> bool" where
  "dir_cells L mem p base n \<longleftrightarrow>
     (\<forall>j < 1024. mem (task_page_directory p + 4 * j) =
        (if j = 4 then of_nat (task_user_pt p) OR APP_FLAGS else mem (lm_page_directory L + 4 * j)))
     \<and> (\<forall>j < 1024. mem (task_user_pt p + 4 * j) = (if j < n then (base + of_nat j * 0x1000) OR APP_FLAGS else 0))"

definition dirs_inv :: "'l link_map_scheme \<Rightarrow> (nat \<rightharpoonup> nat) \<Rightarrow> 'a app_state_scheme \<Rightarrow> bool" where
  "dirs_inv L T s \<longleftrightarrow> kmap L T (m_mem s) \<and> (\<forall>p < 8. app_thread s p \<longrightarrow>
     dir_cells L (m_mem s) p (app_phys_base (task_at p s)) (unat (app_slot_bytes (task_at p s)) div 4096))"

definition app_inv :: "'l link_map_scheme \<Rightarrow> (nat \<rightharpoonup> nat) \<Rightarrow> 'a app_state_scheme \<Rightarrow> bool" where
  "app_inv L T s \<longleftrightarrow> tasks_inv s \<and> arena_inv s \<and> threads_inv L s \<and> dirs_inv L T s"

text \<open>The kernel image lies outside the task table, the stacks and the arena.\<close>

definition app_layout :: "'l link_map_scheme \<Rightarrow> bool" where
  "app_layout L \<longleftrightarrow> layout_ok L \<and> (\<forall>a \<in> set (kernel_tables L). a + 4096 \<le> 0x340000 \<or> 0xB00000 \<le> a)"

lemma app_inv_core:
  assumes "core t = core s" shows "app_inv L T t \<longleftrightarrow> app_inv L T s"
proof -
  note c = core_eqD [OF assms]
  have t: "task_at p t = task_at p s" "slot_at p t = slot_at p s" for p using c by (simp_all add: task_at_def slot_at_def)
  have o: "owns t p k = owns s p k" "app_thread t p = app_thread s p" "owner_ok t p = owner_ok s p" for p k
    by (simp_all add: owns_def app_thread_def owner_ok_def t)
  have "sched_inv t \<longleftrightarrow> sched_inv s" using sched_inv_frame [of s t] sched_inv_frame [of t s] c by auto
  then show ?thesis
    by (simp add: app_inv_def tasks_inv_def arena_inv_def threads_inv_def dirs_inv_def c t o)
qed

section \<open>Addresses\<close>

lemma task_tables_range:
  "p < 8 \<Longrightarrow> 0x341000 \<le> task_page_directory p \<and> task_page_directory p + 8192 \<le> 0x358000 \<and> task_user_pt p = task_page_directory p + 4096"
  by (simp add: task_page_directory_def task_user_pt_def APP_TASK_TABLE_PHYS_def sizeof_task_def)

lemma task_tables_apart:
  assumes "p < q" shows "task_page_directory p + 12288 \<le> task_page_directory q"
proof -
  have "(p + 1) * 12288 \<le> q * 12288" using assms by (intro mult_le_mono1) simp
  then show ?thesis by (simp add: task_page_directory_def sizeof_task_def)
qed

lemma tdir_unat: "p < 8 \<Longrightarrow> unat (tdir p) = task_page_directory p"
  using task_tables_range [of p] by (intro unat_of_nat32) simp

lemma tdir_inj: "p < 8 \<Longrightarrow> q < 8 \<Longrightarrow> tdir p = tdir q \<longleftrightarrow> p = q"
proof -
  assume "p < 8" "q < 8"
  then have "tdir p = tdir q \<longleftrightarrow> task_page_directory p = task_page_directory q"
    by (metis tdir_unat)
  also have "\<dots> \<longleftrightarrow> p = q" by (simp add: task_page_directory_def sizeof_task_def)
  finally show ?thesis .
qed

lemma kdir_unat: "app_layout L \<Longrightarrow> unat (kdir L) = lm_page_directory L"
  using layout_pd [of L] by (simp add: app_layout_def unat_of_nat32)

lemma kernel_table_range:
  "app_layout L \<Longrightarrow> a \<in> set (kernel_tables L) \<Longrightarrow> j < 1024 \<Longrightarrow>
     page_aligned a \<and> 4096 \<le> a \<and> (a + 4 * j < 0x340000 \<or> 0xB00000 \<le> a + 4 * j)"
  by (auto simp: app_layout_def layout_ok_def)

lemma kdir_table [simp]: "lm_page_directory L \<in> set (kernel_tables L)"
  by (simp add: kernel_tables_def)

lemma kdir_range: "app_layout L \<Longrightarrow> 0 < lm_page_directory L \<and> (lm_page_directory L < 0x340000 \<or> 0xB00000 \<le> lm_page_directory L)"
  using kernel_table_range [of L "lm_page_directory L" 0] by simp

lemma kdir_nz: "app_layout L \<Longrightarrow> kdir L \<noteq> 0"
  using kdir_unat [of L] kdir_range [of L] by (metis unat_0 less_irrefl)

lemma tdir_nz: "p < 8 \<Longrightarrow> tdir p \<noteq> 0"
  using tdir_unat [of p] task_tables_range [of p] by (metis unat_0 not_numeral_le_zero)

lemma tdir_kdir:
  assumes "app_layout L" "p < 8" shows "tdir p \<noteq> kdir L"
proof
  assume "tdir p = kdir L"
  then have "task_page_directory p = lm_page_directory L" using assms by (metis tdir_unat kdir_unat)
  then show False using kdir_range [OF assms(1)] task_tables_range [OF assms(2)] by linarith
qed

lemma tdir_aligned: "page_aligned (task_page_directory p)" "page_aligned (task_user_pt p)"
  by (simp_all add: page_aligned_def task_page_directory_def task_user_pt_def APP_TASK_TABLE_PHYS_def sizeof_task_def)

lemma task_tables: "app_layout L \<Longrightarrow> p < 8 \<Longrightarrow> task_tables_ok L (task_page_directory p) (task_user_pt p)"
proof -
  assume L: "app_layout L" and p: "p < 8"
  have "a \<notin> set (kernel_tables L)" if "0x341000 \<le> a" "a < 0x358000" for a
    using kernel_table_range [OF L, of a 0] that by auto
  then show ?thesis using task_tables_range [OF p] tdir_aligned [of p] by (simp add: task_tables_ok_def)
qed

section \<open>Changes of memory\<close>

text \<open>Memory may change where the stacks and slots are, and in the tables of the tasks in \<open>P\<close>.\<close>

definition loose :: "nat set \<Rightarrow> nat \<Rightarrow> bool" where
  "loose P a \<longleftrightarrow> 0x600000 \<le> a \<and> a < 0xB00000 \<or> (\<exists>p \<in> P. task_page_directory p \<le> a \<and> a < task_page_directory p + 8192)"

definition calm :: "nat set \<Rightarrow> (nat \<Rightarrow> u32) \<Rightarrow> (nat \<Rightarrow> u32) \<Rightarrow> bool" where
  "calm P mem mem' \<longleftrightarrow> (\<forall>a. a mod 4 = 0 \<longrightarrow> mem' a \<noteq> mem a \<longrightarrow> loose P a)"

lemma calmD: "calm P mem mem' \<Longrightarrow> a mod 4 = 0 \<Longrightarrow> \<not> loose P a \<Longrightarrow> mem' a = mem a"
  unfolding calm_def by metis

lemma calm_refl [simp]: "calm P mem mem"
  by (simp add: calm_def)

lemma calm_trans: "calm P a b \<Longrightarrow> calm P b c \<Longrightarrow> calm P a c"
  unfolding calm_def by metis

lemma calm_mono:
  assumes "calm P a b" "P \<subseteq> Q" shows "calm Q a b"
proof -
  have "loose P x \<Longrightarrow> loose Q x" for x using assms(2) unfolding loose_def by (elim disjE bexE) auto
  then show ?thesis using assms(1) unfolding calm_def by metis
qed

lemma mod4_page: "page_aligned a \<Longrightarrow> (a + 4 * j) mod 4 = 0"
  by (auto simp: page_aligned_def elim!: mod_eqE)

lemma calm_kernel:
  assumes "calm P mem mem'" "app_layout L" "P \<subseteq> {..<8}" "a \<in> set (kernel_tables L)" "j < 1024"
  shows "mem' (a + 4 * j) = mem (a + 4 * j)"
proof (rule calmD [OF assms(1)])
  note k = kernel_table_range [OF assms(2,4,5)]
  show "(a + 4 * j) mod 4 = 0" using k by (intro mod4_page) simp
  have "\<not> (task_page_directory p \<le> a + 4 * j \<and> a + 4 * j < task_page_directory p + 8192)" if "p \<in> P" for p
  proof -
    have "p < 8" using that assms(3) by auto
    then show ?thesis using task_tables_range [of p] k by linarith
  qed
  then show "\<not> loose P (a + 4 * j)" using k unfolding loose_def by auto
qed

lemma calm_task:
  assumes "calm P mem mem'" "P \<subseteq> {..<8}" "p < 8" "p \<notin> P" "j < 1024"
  shows "mem' (task_page_directory p + 4 * j) = mem (task_page_directory p + 4 * j)"
    "mem' (task_user_pt p + 4 * j) = mem (task_user_pt p + 4 * j)"
proof -
  have tight: "\<not> loose P a" if a: "task_page_directory p \<le> a" "a < task_page_directory p + 8192" for a
  proof -
    have "\<not> (task_page_directory q \<le> a \<and> a < task_page_directory q + 8192)" if "q \<in> P" for q
    proof -
      have "p < q \<or> q < p" using that assms(4) by (metis nat_neq_iff)
      then show ?thesis using a task_tables_apart [of p q] task_tables_apart [of q p] by linarith
    qed
    then show ?thesis using a task_tables_range [OF assms(3)] unfolding loose_def by auto
  qed
  show "mem' (task_page_directory p + 4 * j) = mem (task_page_directory p + 4 * j)"
    using assms(5) by (intro calmD [OF assms(1)] mod4_page tdir_aligned tight) auto
  show "mem' (task_user_pt p + 4 * j) = mem (task_user_pt p + 4 * j)"
    using assms(5) task_tables_range [OF assms(3)] by (intro calmD [OF assms(1)] mod4_page tdir_aligned tight) auto
qed

lemma calm_kmap:
  assumes "calm P mem mem'" "app_layout L" "P \<subseteq> {..<8}" "kmap L T mem"
  shows "kmap L T mem'"
  by (rule kmap_mem_cong(1) [OF assms(4)]) (rule calm_kernel [OF assms(1-3)])

lemma calm_dir_cells:
  assumes "calm P mem mem'" "app_layout L" "P \<subseteq> {..<8}" "p < 8" "p \<notin> P" "dir_cells L mem p base n"
  shows "dir_cells L mem' p base n"
  using assms(6) calm_task [OF assms(1,3,4,5)] calm_kernel [OF assms(1-3) kdir_table]
  by (simp add: dir_cells_def)

lemma dirs_inv_calm:
  assumes inv: "dirs_inv L T s" and L: "app_layout L" and q: "calm P (m_mem s) (m_mem t)" "P \<subseteq> {..<8}"
    and keep: "\<And>p. p < 8 \<Longrightarrow> app_thread t p \<Longrightarrow> p \<notin> P \<and> app_thread s p
      \<and> app_phys_base (task_at p t) = app_phys_base (task_at p s) \<and> app_slot_bytes (task_at p t) = app_slot_bytes (task_at p s)"
  shows "dirs_inv L T t"
  using inv calm_kmap [OF q(1) L q(2)] calm_dir_cells [OF q(1) L q(2)] keep unfolding dirs_inv_def by metis

text \<open>Writes of bytes in the stacks and slots.\<close>

lemma calm_store_bytes:
  assumes "0x600000 \<le> base" "base + n \<le> 0xB00000" "base mod 4 = 0"
  shows "calm P mem (store_bytes base n f mem)"
  unfolding calm_def
proof (intro allI impI)
  fix a assume a: "a mod 4 = 0" "store_bytes base n f mem a \<noteq> mem a"
  then have out: "\<not> (a + 4 \<le> base \<or> base + n \<le> a)" using store_bytes_cell [of a base n f mem] by metis
  have "a + 4 \<le> base" if "a < base" using that a(1) assms(3) by presburger
  then show "loose P a" using out assms unfolding loose_def by linarith
qed

lemma calm_cell: "0x600000 \<le> a \<Longrightarrow> a < 0xB00000 \<Longrightarrow> calm P mem (mem(a := v))"
  by (simp add: calm_def loose_def)

lemma calm_fun_upd: "calm P mem m \<Longrightarrow> 0x600000 \<le> a \<Longrightarrow> a < 0xB00000 \<Longrightarrow> calm P mem (m(a := v))"
  using calm_trans calm_cell by blast

end
