(* ===== verification/App_Keep.thy ===== *)
theory App_Keep
  imports App_Inv
begin

text \<open>Changes of the state that keep the invariant of the application layer.\<close>

unbundle bit_operations_syntax

section \<open>Reading the invariant\<close>

lemma app_invD:
  assumes "app_inv L T s"
  shows "tasks_inv s" "arena_inv s" "threads_inv L s" "dirs_inv L T s" "sched_inv s" "length (g_app_tasks s) = 8"
    "length (g_app_phys_page_used s) = 1024" "kmap L T (m_mem s)" "m_cr3 s = pdir s (cur s)" "live (st s (cur s))"
  using assms by (simp_all add: app_inv_def tasks_inv_def arena_inv_def threads_inv_def dirs_inv_def)

lemma tasks_invD:
  assumes "tasks_inv s" "p < 8"
  shows "in_use (task_at p s) \<Longrightarrow> 3 \<le> p \<and> task_ok p (task_at p s)" "\<not> in_use (task_at p s) \<Longrightarrow> \<not> owns_app_memory (task_at p s)"
  using assms by (auto simp: tasks_inv_def split: if_splits)

lemma arena_invD:
  assumes "arena_inv s"
  shows "k < 1024 \<Longrightarrow> g_app_phys_page_used s ! k \<longleftrightarrow> (\<exists>p < 8. owns s p k)"
    "p < 8 \<Longrightarrow> q < 8 \<Longrightarrow> owns s p k \<Longrightarrow> owns s q k \<Longrightarrow> p = q"
  using assms by (auto simp: arena_inv_def)

lemma arena_inv_same:
  assumes "arena_inv s" "\<And>p k. owns t p k = owns s p k" "g_app_phys_page_used t = g_app_phys_page_used s"
  shows "arena_inv t"
  using assms(1) unfolding arena_inv_def assms(2,3) .

lemma threads_invD:
  assumes "threads_inv L s"
  shows "p < 8 \<Longrightarrow> pdir s p = kdir L \<or> pdir s p = tdir p" "p < 8 \<Longrightarrow> app_thread s p \<Longrightarrow> owner_ok s p"
  using assms by (auto simp: threads_inv_def)

lemma dirs_invD:
  "dirs_inv L T s \<Longrightarrow> p < 8 \<Longrightarrow> app_thread s p \<Longrightarrow>
   dir_cells L (m_mem s) p (app_phys_base (task_at p s)) (unat (app_slot_bytes (task_at p s)) div 4096)"
  by (simp add: dirs_inv_def)

lemma task_okD:
  assumes "task_ok p t"
  shows "t_pid t = int p" "slot_ok (app_slot_bytes t)" "3 \<le> leader_pid t" "leader_pid t < 8" "shell_apps_task_valid t"
    "owns_app_memory t \<Longrightarrow> leader_pid t = int p" "\<not> owns_app_memory t \<Longrightarrow> \<not> join_on_exit t"
    "\<exists>first n. arena_range (app_phys_base t) (app_slot_bytes t) first n"
  using assms by (auto simp: task_ok_def)

lemma pages_of_range:
  "arena_range (app_phys_base t) (app_slot_bytes t) first n \<Longrightarrow> pages_of t = {first ..< first + n}"
proof -
  assume "arena_range (app_phys_base t) (app_slot_bytes t) first n"
  then have "unat (app_phys_base t) - 0x700000 = 4096 * first"
    "unat (app_phys_base t) - 0x700000 + unat (app_slot_bytes t) = 4096 * (first + n)"
    by (simp_all add: arena_range_def)
  then show ?thesis by (simp add: pages_of_def)
qed

lemma task_pages:
  assumes "task_ok p t"
  obtains first n where "arena_range (app_phys_base t) (app_slot_bytes t) first n" "pages_of t = {first ..< first + n}"
    "first + n \<le> 1024" "0 < n" "unat (app_slot_bytes t) div 4096 = n"
  using task_okD(8) [OF assms] pages_of_range that by (auto simp: arena_range_def)

lemma task_at_upd [simp]:
  "task_at p (upd_task q f s) = (if p = q \<and> q < length (g_app_tasks s) then f (task_at q s) else task_at p s)"
  by (cases "q < length (g_app_tasks s)") (auto simp: task_at_def upd_task_def nth_list_update list_update_beyond)

lemma upd_task_fields [simp]:
  "length (g_app_tasks (upd_task q f s)) = length (g_app_tasks s)"
  "g_app_phys_page_used (upd_task q f s) = g_app_phys_page_used s" "g_slots (upd_task q f s) = g_slots s"
  "g_current (upd_task q f s) = g_current s" "g_runtime_ready (upd_task q f s) = g_runtime_ready s"
  "m_mem (upd_task q f s) = m_mem s" "m_cr3 (upd_task q f s) = m_cr3 s" "slot_at i (upd_task q f s) = slot_at i s"
  by (simp_all add: upd_task_def slot_at_def)

text \<open>Two states with the same threads.\<close>

definition same_threads :: "'a app_state_scheme \<Rightarrow> 'a app_state_scheme \<Rightarrow> bool" where
  "same_threads s t \<longleftrightarrow> g_slots t = g_slots s \<and> g_current t = g_current s \<and> g_runtime_ready t = g_runtime_ready s \<and> m_cr3 t = m_cr3 s"

lemma same_threadsD:
  assumes "same_threads s t"
  shows "slot_at i t = slot_at i s" "g_current t = g_current s" "m_cr3 t = m_cr3 s" "app_thread t i = app_thread s i"
    "sched_inv s \<Longrightarrow> sched_inv t"
proof -
  have e: "g_slots t = g_slots s" "g_current t = g_current s" "g_runtime_ready t = g_runtime_ready s" "m_cr3 t = m_cr3 s"
    using assms by (simp_all add: same_threads_def)
  then show "slot_at i t = slot_at i s" by (simp add: slot_at_def)
  then show "app_thread t i = app_thread s i" by (simp add: app_thread_def)
  show "g_current t = g_current s" "m_cr3 t = m_cr3 s" using e by simp_all
  show "sched_inv s \<Longrightarrow> sched_inv t" by (rule sched_inv_frame) (use e in simp_all)
qed

text \<open>The threads part when tasks may have changed, but not the ones a living thread depends on.\<close>

lemma threads_inv_tasks:
  assumes inv: "threads_inv L s" and th: "same_threads s t"
    and keep: "\<And>p. p < 8 \<Longrightarrow> owner_ok s p \<Longrightarrow> app_thread s p \<Longrightarrow> owner_ok t p"
  shows "threads_inv L t"
  using inv keep same_threadsD [OF th] unfolding threads_inv_def by simp

section \<open>Dying threads\<close>

lemma kill_inv:
  assumes inv: "app_inv L T s"
    and same: "g_app_tasks t = g_app_tasks s" "g_app_phys_page_used t = g_app_phys_page_used s" "m_mem t = m_mem s"
    and sch: "sched_inv t"
    and dead: "\<And>p. p < 8 \<Longrightarrow> p \<in> K \<Longrightarrow> \<not> live (st t p) \<and> (pdir t p = kdir L \<or> pdir t p = pdir s p)"
    and rest: "\<And>p. p < 8 \<Longrightarrow> p \<notin> K \<Longrightarrow> (live (st t p) \<longleftrightarrow> live (st s p)) \<and> pdir t p = pdir s p"
    and closed: "\<And>p. p < 8 \<Longrightarrow> app_thread s p \<Longrightarrow> nat (leader_pid (task_at p s)) \<in> K \<Longrightarrow> p \<in> K"
    and now: "m_cr3 t = pdir t (cur t)" "live (st t (cur t))"
  shows "app_inv L T t"
proof -
  note i = app_invD [OF inv]
  have ta: "task_at p t = task_at p s" for p using same(1) by (simp add: task_at_def)
  have th: "app_thread t p \<longleftrightarrow> app_thread s p \<and> p \<notin> K" if "p < 8" for p
    using dead [OF that] rest [OF that] by (cases "p \<in> K") (auto simp: app_thread_def)
  have own: "owner_ok t p" if p: "p < 8" "app_thread t p" for p
  proof -
    have s: "app_thread s p" "p \<notin> K" "owner_ok s p" using th p threads_invD(2) [OF i(3) p(1)] by auto
    have "nat (leader_pid (task_at p s)) < 8"
      using s(3) tasks_invD(1) [OF i(1) p(1)] by (auto simp: owner_ok_def task_ok_def)
    moreover have "nat (leader_pid (task_at p s)) \<notin> K" using closed [OF p(1) s(1)] s(2) by blast
    ultimately show ?thesis using s(3) th by (simp add: owner_ok_def ta Let_def)
  qed
  have "threads_inv L t" unfolding threads_inv_def using sch own now threads_invD(1) [OF i(3)] dead rest by metis
  moreover have "tasks_inv t" using i(1) same by (simp add: tasks_inv_def ta)
  moreover have "arena_inv t" by (rule arena_inv_same [OF i(2) _ same(2)]) (simp add: owns_def ta)
  moreover have "dirs_inv L T t" using i(4) th by (simp add: dirs_inv_def same ta)
  ultimately show ?thesis by (simp add: app_inv_def)
qed

text \<open>Scheduling alone changes neither who lives nor the address spaces.\<close>

lemma sched_only_inv:
  assumes "app_inv L T s" "sched_state.more t = sched_state.more s" "m_mem t = m_mem s" "sched_inv t"
    and "\<And>p. p < 8 \<Longrightarrow> (live (st t p) \<longleftrightarrow> live (st s p)) \<and> pdir t p = pdir s p"
    and "m_cr3 t = pdir t (cur t)" "live (st t (cur t))"
  shows "app_inv L T t"
  by (rule kill_inv [OF assms(1) more_app [OF assms(2)] assms(3,4), where K = "{}"]) (use assms(5-7) in auto)

section \<open>Memory and labels\<close>

lemma calm_inv:
  assumes inv: "app_inv L T s" and L: "app_layout L" and th: "same_threads s t"
    and same: "g_app_tasks t = g_app_tasks s" "g_app_phys_page_used t = g_app_phys_page_used s"
    and q: "calm P (m_mem s) (m_mem t)" "P \<subseteq> {..<8}" "\<And>p. p \<in> P \<Longrightarrow> \<not> app_thread s p"
  shows "app_inv L T t"
proof -
  note i = app_invD [OF inv]
  have ta: "task_at p t = task_at p s" for p using same(1) by (simp add: task_at_def)
  have "threads_inv L t" by (rule threads_inv_tasks [OF i(3) th]) (simp add: owner_ok_def ta same_threadsD [OF th])
  moreover have "tasks_inv t" using i(1) same by (simp add: tasks_inv_def ta)
  moreover have "arena_inv t" by (rule arena_inv_same [OF i(2) _ same(2)]) (simp add: owns_def ta)
  moreover have "dirs_inv L T t"
    by (rule dirs_inv_calm [OF i(4) L q(1,2)]) (use q(3) same_threadsD [OF th] ta in auto)
  ultimately show ?thesis by (simp add: app_inv_def)
qed

text \<open>Fields of a task the invariant does not depend on.\<close>

definition relabels :: "(shell_app_task \<Rightarrow> shell_app_task) \<Rightarrow> bool" where
  "relabels f \<longleftrightarrow> (\<forall>t. in_use (f t) = in_use t \<and> t_pid (f t) = t_pid t \<and> leader_pid (f t) = leader_pid t
     \<and> app_phys_base (f t) = app_phys_base t \<and> app_slot_bytes (f t) = app_slot_bytes t
     \<and> owns_app_memory (f t) = owns_app_memory t \<and> join_on_exit (f t) = join_on_exit t
     \<and> shell_apps_task_valid (f t) = shell_apps_task_valid t)"

lemma relabel_inv:
  assumes inv: "app_inv L T s" and f: "relabels f"
  shows "app_inv L T (upd_task p f s)"
proof -
  note i = app_invD [OF inv]
  let ?t = "upd_task p f s"
  have f': "in_use (f t) = in_use t" "t_pid (f t) = t_pid t" "leader_pid (f t) = leader_pid t"
    "app_phys_base (f t) = app_phys_base t" "app_slot_bytes (f t) = app_slot_bytes t" "owns_app_memory (f t) = owns_app_memory t"
    "join_on_exit (f t) = join_on_exit t" "shell_apps_task_valid (f t) = shell_apps_task_valid t" for t
    using f by (simp_all add: relabels_def)
  have v: "in_use (task_at q ?t) = in_use (task_at q s)" "leader_pid (task_at q ?t) = leader_pid (task_at q s)"
    "app_phys_base (task_at q ?t) = app_phys_base (task_at q s)" "app_slot_bytes (task_at q ?t) = app_slot_bytes (task_at q s)"
    "owns_app_memory (task_at q ?t) = owns_app_memory (task_at q s)" "task_ok q (task_at q ?t) = task_ok q (task_at q s)"
    "pages_of (task_at q ?t) = pages_of (task_at q s)" for q
    by (simp_all add: f' task_ok_def pages_of_def)
  have th: "same_threads s ?t" by (simp add: same_threads_def)
  note st = same_threadsD [OF th]
  have own: "owner_ok ?t q = owner_ok s q" for q unfolding owner_ok_def v st(4) ..
  have "threads_inv L ?t" by (rule threads_inv_tasks [OF i(3) th]) (simp only: own)
  moreover have "tasks_inv ?t" using i(1) unfolding tasks_inv_def v by simp
  moreover have "owns ?t q k = owns s q k" for q k unfolding owns_def v ..
  then have "arena_inv ?t" by (rule arena_inv_same [OF i(2)]) simp
  moreover have "dirs_inv L T ?t" using i(4) unfolding dirs_inv_def v st(4) by simp
  ultimately show ?thesis by (simp add: app_inv_def)
qed

end
