(* ===== verification/App_Release.thy ===== *)
theory App_Release
  imports App_Keep
begin

text \<open>Releasing dead tasks and giving memory to new ones keeps the invariant.\<close>

unbundle bit_operations_syntax

section \<open>Releasing\<close>

lemma zero_task_fields [simp]: "\<not> in_use zero_task" "\<not> owns_app_memory zero_task"
  by (simp_all add: zero_task_def)

lemma zero_task_mem_simps [simp]:
  "length (g_app_tasks s) = 8 \<Longrightarrow> p < 8 \<Longrightarrow> task_at q (zero_task_mem p s) = (if q = p then zero_task else task_at q s)"
  "length (g_app_tasks (zero_task_mem p s)) = length (g_app_tasks s)"
  "g_app_phys_page_used (zero_task_mem p s) = g_app_phys_page_used s"
  "m_mem (zero_task_mem p s) = store_range (task_page_directory p) 2048 (\<lambda>_. 0) (m_mem s)"
  by (simp_all add: zero_task_mem_def task_at_def upd_task_def)

lemma zero_task_mem_threads: "same_threads s (zero_task_mem p s)"
  by (simp add: same_threads_def zero_task_mem_def upd_task_def)

lemma calm_tables: "calm {p} mem (store_range (task_page_directory p) 2048 f mem)"
  unfolding calm_def loose_def by (auto simp: store_range_iff)

lemma same_threads_trans: "same_threads s t \<Longrightarrow> same_threads t u \<Longrightarrow> same_threads s u"
  by (simp add: same_threads_def)

lemma same_threads_core: "core t = core s \<Longrightarrow> same_threads s t"
  using core_eqD [of t s] by (simp add: same_threads_def)

text \<open>What releasing a task does.\<close>

lemma release_task_effect:
  assumes inv: "app_inv L T s" and p: "p < 8"
  shows "task_at q (shell_apps_release_task p s) = (if q = p then zero_task else task_at q s)"
    "length (g_app_tasks (shell_apps_release_task p s)) = 8"
    "same_threads s (shell_apps_release_task p s)"
    "m_mem (shell_apps_release_task p s) = store_range (task_page_directory p) 2048 (\<lambda>_. 0) (m_mem s)"
    "length (g_app_phys_page_used (shell_apps_release_task p s)) = 1024"
    "k < 1024 \<Longrightarrow> g_app_phys_page_used (shell_apps_release_task p s) ! k \<longleftrightarrow> g_app_phys_page_used s ! k \<and> \<not> owns s p k"
proof -
  note i = app_invD [OF inv]
  obtain u where u: "shell_apps_release_task p s = (zero_task_mem p s)\<lparr>g_app_phys_page_used := u\<rparr>" "length u = 1024"
    "\<And>k. k < 1024 \<Longrightarrow> u ! k \<longleftrightarrow> g_app_phys_page_used s ! k \<and> \<not> owns s p k"
  proof (cases "owns_app_memory (task_at p s)")
    case True
    then have use: "in_use (task_at p s)" using tasks_invD(2) [OF i(1) p] by blast
    then have ok: "task_ok p (task_at p s)" using tasks_invD(1) [OF i(1) p] by blast
    then obtain first n where r: "arena_range (app_phys_base (task_at p s)) (app_slot_bytes (task_at p s)) first n"
      "pages_of (task_at p s) = {first ..< first + n}" by (rule task_pages)
    let ?u = "set_pages first n False (g_app_phys_page_used s)"
    have "shell_apps_release_task p s = (zero_task_mem p s)\<lparr>g_app_phys_page_used := ?u\<rparr>"
      using True release_range [OF r(1), of "zero_task_mem p s"] by (simp add: shell_apps_release_task_def Let_def)
    moreover have "?u ! k \<longleftrightarrow> g_app_phys_page_used s ! k \<and> \<not> owns s p k" if "k < 1024" for k
      using that True use i(7) by (simp add: nth_set_pages owns_def r(2))
    ultimately show ?thesis using i(7) by (intro that [of ?u]) simp_all
  next
    case False
    have "zero_task_mem p s = (zero_task_mem p s)\<lparr>g_app_phys_page_used := g_app_phys_page_used s\<rparr>"
      by (simp add: zero_task_mem_def upd_task_def)
    then show ?thesis using False i(7) by (intro that [of "g_app_phys_page_used s"]) (simp_all add: shell_apps_release_task_def Let_def owns_def)
  qed
  have "same_threads s ((zero_task_mem p s)\<lparr>g_app_phys_page_used := u\<rparr>)"
    by (simp add: same_threads_def zero_task_mem_def upd_task_def)
  moreover have "task_at q ((zero_task_mem p s)\<lparr>g_app_phys_page_used := u\<rparr>) = task_at q (zero_task_mem p s)"
    by (simp add: task_at_def)
  ultimately show "task_at q (shell_apps_release_task p s) = (if q = p then zero_task else task_at q s)"
    "length (g_app_tasks (shell_apps_release_task p s)) = 8" "same_threads s (shell_apps_release_task p s)"
    "m_mem (shell_apps_release_task p s) = store_range (task_page_directory p) 2048 (\<lambda>_. 0) (m_mem s)"
    "length (g_app_phys_page_used (shell_apps_release_task p s)) = 1024"
    "k < 1024 \<Longrightarrow> g_app_phys_page_used (shell_apps_release_task p s) ! k \<longleftrightarrow> g_app_phys_page_used s ! k \<and> \<not> owns s p k"
    unfolding u(1) using u(2,3) i(6) p by simp_all
qed

lemma release_inv:
  assumes inv: "app_inv L T s" and L: "app_layout L" and p: "p < 8" and dead: "\<not> app_thread s p"
  shows "app_inv L T (shell_apps_release_task p s)"
proof -
  note i = app_invD [OF inv]
  let ?t = "shell_apps_release_task p s"
  note e = release_task_effect [OF inv p]
  have own: "owns ?t q k \<longleftrightarrow> q \<noteq> p \<and> owns s q k" for q k by (simp add: owns_def e(1))
  have "tasks_inv ?t" using i(1) by (simp add: tasks_inv_def e(1,2))
  moreover have "arena_inv ?t"
    unfolding arena_inv_def own
  proof (intro conjI allI impI)
    show "length (g_app_phys_page_used ?t) = 1024" by (rule e(5))
    show "g_app_phys_page_used ?t ! k \<longleftrightarrow> (\<exists>q < 8. q \<noteq> p \<and> owns s q k)" if "k < 1024" for k
      using e(6) [OF that] arena_invD(1) [OF i(2) that] arena_invD(2) [OF i(2) _ p] by metis
    show "q = r" if "q < 8" "r < 8" "q \<noteq> p \<and> owns s q k" "r \<noteq> p \<and> owns s r k" for q r k
      using arena_invD(2) [OF i(2)] that by blast
  qed
  moreover have "threads_inv L ?t"
  proof (rule threads_inv_tasks [OF i(3) e(3)])
    fix q assume q: "q < 8" "owner_ok s q" "app_thread s q"
    then have "q \<noteq> p" "nat (leader_pid (task_at q s)) \<noteq> p" using dead by (auto simp: owner_ok_def Let_def)
    then show "owner_ok ?t q" using q(2) by (simp add: owner_ok_def Let_def e(1) same_threadsD(4) [OF e(3)])
  qed
  moreover have "dirs_inv L T ?t"
    by (rule dirs_inv_calm [OF i(4) L, of "{p}"]) (use p dead in \<open>auto simp: e(1,4) calm_tables same_threadsD(4) [OF e(3)]\<close>)
  ultimately show ?thesis by (simp add: app_inv_def)
qed

lemma process_state: "sched_inv s \<Longrightarrow> p < 8 \<Longrightarrow> scheduler_get_process_state (int p) s = st s p"
  using sched_invD(2) [of s] by (simp add: scheduler_get_process_state_def SCHEDULER_MAX_PROCESSES_def)

lemma reap_one_inv:
  assumes "app_inv L T s" "app_layout L" "p < 8"
  shows "app_inv L T (reap_one p s)"
proof -
  have "\<not> app_thread s p" if "st s p = PROCESS_UNUSED \<or> st s p = PROCESS_TERMINATED"
    using that by (auto simp: app_thread_def live_def)
  then show ?thesis using release_inv [OF assms] assms(1) process_state [OF app_invD(5) [OF assms(1)] assms(3)]
    by (auto simp: reap_one_def Let_def)
qed

lemma reap_one_threads:
  assumes "app_inv L T s" "p < 8" shows "same_threads s (reap_one p s)"
  using release_task_effect(3) [OF assms] by (auto simp: reap_one_def Let_def same_threads_def)

text \<open>A task that is in use after reaping was in use before, with the same fields.\<close>

lemma reap_one_tasks:
  assumes "app_inv L T s" "p < 8"
  shows "task_at q (reap_one p s) = task_at q s \<or> task_at q (reap_one p s) = zero_task \<and> \<not> app_thread s q"
  using release_task_effect(1) [OF assms, of q] process_state [OF app_invD(5) [OF assms(1)] assms(2)]
  by (auto simp: reap_one_def Let_def app_thread_def live_def)

lemma reap_inv:
  assumes inv: "app_inv L T s" and L: "app_layout L"
  shows "app_inv L T (shell_apps_reap_terminated_tasks s)" "same_threads s (shell_apps_reap_terminated_tasks s)"
    "task_at q (shell_apps_reap_terminated_tasks s) = task_at q s
      \<or> task_at q (shell_apps_reap_terminated_tasks s) = zero_task \<and> \<not> app_thread s q"
proof -
  have "app_inv L T (fold reap_one ps u) \<and> same_threads u (fold reap_one ps u)
      \<and> (task_at q (fold reap_one ps u) = task_at q u \<or> task_at q (fold reap_one ps u) = zero_task \<and> \<not> app_thread u q)"
    if "app_inv L T u" "set ps \<subseteq> {..<8}" for ps u
    using that
  proof (induction ps arbitrary: u)
    case Nil
    then show ?case by (simp add: same_threads_def)
  next
    case (Cons p ps)
    have p: "p < 8" using Cons.prems by simp
    note one = reap_one_inv [OF Cons.prems(1) L p] reap_one_threads [OF Cons.prems(1) p] reap_one_tasks [OF Cons.prems(1) p, of q]
    have "set ps \<subseteq> {..<8}" using Cons.prems by simp
    from Cons.IH [OF one(1) this] one(2,3) same_threadsD(4) [OF one(2), of q] show ?case
      by (auto intro: same_threads_trans)
  qed
  from this [OF inv, of APP_PIDS] show "app_inv L T (shell_apps_reap_terminated_tasks s)"
    "same_threads s (shell_apps_reap_terminated_tasks s)"
    "task_at q (shell_apps_reap_terminated_tasks s) = task_at q s
      \<or> task_at q (shell_apps_reap_terminated_tasks s) = zero_task \<and> \<not> app_thread s q"
    by (auto simp: shell_apps_reap_terminated_tasks_def APP_PIDS_def)
qed

lemma find_free_pid:
  assumes "shell_apps_find_free_pid s = (r, t)"
  shows "t = shell_apps_reap_terminated_tasks s" "r = Some p \<Longrightarrow> 3 \<le> p \<and> p < 8 \<and> \<not> in_use (task_at p t)"
  using assms find_Some [of "\<lambda>pid. \<not> in_use (task_at pid t)" APP_PIDS p]
  by (auto simp: shell_apps_find_free_pid_def Let_def APP_PIDS_def)

section \<open>Allocating\<close>

lemma slot_pages: "slot_ok b \<Longrightarrow> (unat b + 4095) div 4096 = unat b div 4096 \<and> unat b = 4096 * (unat b div 4096) \<and> 0 < unat b div 4096"
proof -
  assume "slot_ok b"
  then have "unat b = 4096 * (unat b div 4096)" "0x15000 \<le> unat b" using mult_div_mod_eq [of 4096 "unat b"] by (simp_all add: slot_ok_def)
  then show ?thesis by linarith
qed

text \<open>Memory for a slot: a free run of pages, marked as used.\<close>

lemma allocate_cases:
  assumes b: "slot_ok b" and len: "length (g_app_phys_page_used (shell_apps_reap_terminated_tasks s)) = 1024"
    and a: "shell_apps_allocate_phys_base b s = (base, t)"
  shows "base = 0 \<and> t = shell_apps_reap_terminated_tasks s \<or>
    (\<exists>k. arena_range base b k (unat b div 4096) \<and> free_run (g_app_phys_page_used (shell_apps_reap_terminated_tasks s)) (unat b div 4096) k
      \<and> t = (shell_apps_reap_terminated_tasks s)\<lparr>g_app_phys_page_used :=
          set_pages k (unat b div 4096) True (g_app_phys_page_used (shell_apps_reap_terminated_tasks s))\<rparr>)"
proof -
  let ?n = "unat b div 4096" and ?r = "shell_apps_reap_terminated_tasks s"
  have n: "0 < ?n" "unat b = 4096 * ?n" and bb: "0 < unat b" "unat b \<le> 0x400000" "?n = (unat b + 4095) div 4096"
    using slot_pages [OF b] b by (auto simp: slot_ok_def)
  have eq: "arena_take ?n ?r = (base, t)" using allocate_eq [OF bb, of s] a by simp
  show ?thesis
  proof (cases "find_run (g_app_phys_page_used ?r) ?n 0")
    case None
    then show ?thesis using eq by (simp add: arena_take_eq)
  next
    case (Some k)
    have f: "free_run (g_app_phys_page_used ?r) ?n k" using find_run_SomeD(1) [OF Some n(1)] .
    then have k: "k + ?n \<le> 1024" using len by (simp add: free_run_def)
    then have "unat (APP_ARENA_PHYS_BASE + of_nat k * APP_PAGE_SIZE) = 0x700000 + 4096 * k"
      using n(1) by (intro unat_arena_base) simp
    then have "arena_range (APP_ARENA_PHYS_BASE + of_nat k * APP_PAGE_SIZE) b k ?n"
      using n k by (simp add: arena_range_def)
    moreover have "base = APP_ARENA_PHYS_BASE + of_nat k * APP_PAGE_SIZE"
      "t = ?r\<lparr>g_app_phys_page_used := set_pages k ?n True (g_app_phys_page_used ?r)\<rparr>"
      using eq Some by (simp_all add: arena_take_eq)
    ultimately show ?thesis using f by auto
  qed
qed

text \<open>A task that was free gets new fields and new tables: no thread is concerned.\<close>

lemma new_task_rest:
  assumes inv: "app_inv L T s" and L: "app_layout L" and p: "p < 8" and free: "\<not> in_use (task_at p s)"
    and th: "same_threads s t" and ta: "\<And>q. q \<noteq> p \<Longrightarrow> task_at q t = task_at q s" and q: "calm {p} (m_mem s) (m_mem t)"
  shows "threads_inv L t" "dirs_inv L T t"
proof -
  note i = app_invD [OF inv]
  have no: "\<not> app_thread s p" using threads_invD(2) [OF i(3) p] free by (auto simp: owner_ok_def)
  show "threads_inv L t"
  proof (rule threads_inv_tasks [OF i(3) th])
    fix q assume q: "q < 8" "owner_ok s q" "app_thread s q"
    then have "q \<noteq> p" "nat (leader_pid (task_at q s)) \<noteq> p" using no by (auto simp: owner_ok_def Let_def)
    then show "owner_ok t q" using q(2) by (simp add: owner_ok_def Let_def ta same_threadsD(4) [OF th])
  qed
  show "dirs_inv L T t"
  proof (rule dirs_inv_calm [OF i(4) L q])
    show "{p} \<subseteq> {..<8}" using p by simp
    fix x assume "x < 8" "app_thread t x"
    then have "app_thread s x" "x \<noteq> p" using no same_threadsD(4) [OF th] by metis+
    then show "x \<notin> {p} \<and> app_thread s x \<and> app_phys_base (task_at x t) = app_phys_base (task_at x s)
        \<and> app_slot_bytes (task_at x t) = app_slot_bytes (task_at x s)"
      using ta [of x] by simp
  qed
qed

text \<open>A task that gets a free run of pages.\<close>

lemma add_owner_inv:
  assumes inv: "app_inv L T s" and L: "app_layout L" and p: "p < 8" "3 \<le> p" and free: "\<not> in_use (task_at p s)"
    and th: "same_threads s t" and len: "length (g_app_tasks t) = 8"
    and ta: "\<And>q. q \<noteq> p \<Longrightarrow> task_at q t = task_at q s" and new: "in_use (task_at p t)" "task_ok p (task_at p t)" "owns_app_memory (task_at p t)"
    and r: "arena_range (app_phys_base (task_at p t)) (app_slot_bytes (task_at p t)) k n"
    and run: "free_run (g_app_phys_page_used s) n k" and u: "g_app_phys_page_used t = set_pages k n True (g_app_phys_page_used s)"
    and q: "calm {p} (m_mem s) (m_mem t)"
  shows "app_inv L T t"
proof -
  note i = app_invD [OF inv]
  have pg: "pages_of (task_at p t) = {k ..< k + n}" using pages_of_range [OF r] .
  have own: "owns t q x \<longleftrightarrow> (if q = p then x \<in> {k ..< k + n} else owns s q x)" for q x
    using ta new pg by (simp add: owns_def)
  have clash: "\<not> owns s q x" if "x \<in> {k ..< k + n}" "q < 8" for q x
  proof -
    have "x < 1024" "\<not> g_app_phys_page_used s ! x"
      using that run i(7) unfolding free_run_def by (auto dest: spec [of _ "x - k"])
    then show ?thesis using arena_invD(1) [OF i(2)] that(2) by blast
  qed
  have nop: "\<not> owns s p x" for x using free by (simp add: owns_def)
  have "tasks_inv t" unfolding tasks_inv_def
  proof (intro conjI allI impI)
    show "length (g_app_tasks t) = 8" by (rule len)
    show "if in_use (task_at q t) then 3 \<le> q \<and> task_ok q (task_at q t) else \<not> owns_app_memory (task_at q t)" if "q < 8" for q
      using ta [of q] new p tasks_invD [OF i(1) that] by (cases "q = p") auto
  qed
  moreover have "arena_inv t" unfolding arena_inv_def own u
  proof (intro conjI allI impI)
    show "length (set_pages k n True (g_app_phys_page_used s)) = 1024" using i(7) by simp
    show "set_pages k n True (g_app_phys_page_used s) ! x \<longleftrightarrow> (\<exists>q < 8. if q = p then x \<in> {k ..< k + n} else owns s q x)"
      if "x < 1024" for x
    proof (cases "x \<in> {k ..< k + n}")
      case True
      then have "set_pages k n True (g_app_phys_page_used s) ! x" using that i(7) by (simp add: nth_set_pages)
      then show ?thesis using True p(1) by auto
    next
      case False
      then have "set_pages k n True (g_app_phys_page_used s) ! x \<longleftrightarrow> (\<exists>q < 8. owns s q x)"
        using that i(7) arena_invD(1) [OF i(2) that] by (auto simp: nth_set_pages)
      then show ?thesis using False nop by metis
    qed
    show "q = q'" if "q < 8" "q' < 8" "if q = p then x \<in> {k ..< k + n} else owns s q x"
      "if q' = p then x \<in> {k ..< k + n} else owns s q' x" for q q' x
      using that clash [of x q] clash [of x q'] arena_invD(2) [OF i(2), of q q' x] by (auto split: if_splits)
  qed
  moreover have "threads_inv L t" "dirs_inv L T t" by (rule new_task_rest [OF inv L p(1) free th _ q], erule ta)+
  ultimately show ?thesis by (simp add: app_inv_def)
qed

end
