(* ===== verification/App_Start.thy ===== *)
theory App_Start
  imports App_Release
begin

text \<open>Preparing a task, loading its program and making a thread of it keep the invariant.\<close>

unbundle bit_operations_syntax

section \<open>Address spaces\<close>

lemma app_pages_slot: "slot_ok b \<Longrightarrow> app_pages b = unat b div 4096"
proof -
  assume b: "slot_ok b"
  then have "unat b \<le> 0x400000" by (simp add: slot_ok_def)
  then have "unat (b + 0xFFF) = unat b + 4095" by (subst unat_add_lem [THEN iffD1]) simp_all
  then show ?thesis using slot_pages [OF b] by (simp add: app_pages_def drop_bit_eq_div unat_div)
qed

lemma load_base_index: "pd_index APP_LOAD_VIRT_BASE = 4" "pt_index APP_LOAD_VIRT_BASE = 0"
  by (simp_all add: pd_index_def pt_index_def APP_LOAD_VIRT_BASE_def)

lemma build_frame:
  "paging_build_app_directory L pd pt phys virt bytes s = (r, t) \<Longrightarrow> t = s\<lparr>m_mem := m_mem t\<rparr> \<and> (\<not> r \<longrightarrow> t = s)"
  unfolding paging_build_app_directory_def Let_def by (auto split: if_splits)

lemma build_calm:
  assumes L: "app_layout L" and p: "p < 8"
    and b: "paging_build_app_directory L (task_page_directory p) (task_user_pt p) phys virt bytes s = (r, t)"
  shows "calm {p} (m_mem s) (m_mem t)"
proof (cases r)
  case True
  have ly: "layout_ok L" using L by (simp add: app_layout_def)
  have bt: "paging_build_app_directory L (task_page_directory p) (task_user_pt p) phys virt bytes s = (True, t)"
    using b True by simp
  note cell = build_app_directory_cells [OF ly task_tables [OF L p] bt]
  show ?thesis unfolding calm_def
  proof (intro allI impI)
    fix a assume a: "a mod 4 = 0" "m_mem t a \<noteq> m_mem s a"
    let ?b = "a - a mod 4096" and ?j = "a mod 4096 div 4"
    have m: "a mod 4096 mod 4 = 0" using a(1) by (simp add: mod_mod_cancel)
    have eq: "?b + 4 * ?j = a" using m by (metis mult_div_mod_eq add.right_neutral le_add_diff_inverse2 mod_less_eq_dividend)
    have "?j < 1024" by simp
    moreover have "page_aligned ?b" by (simp add: page_aligned_def)
    ultimately have "?b = task_page_directory p \<or> ?b = task_user_pt p"
      using cell [of ?b ?j] a(2) unfolding eq by (auto split: if_splits)
    then have "task_page_directory p \<le> a \<and> a < task_page_directory p + 8192"
      using task_tables_range [OF p] eq \<open>?j < 1024\<close> by linarith
    then show "loose {p} a" by (simp add: loose_def)
  qed
next
  case False
  then show ?thesis using build_frame [OF b] by simp
qed

lemma build_dir_cells:
  assumes L: "app_layout L" and p: "p < 8" and bytes: "slot_ok bytes"
    and b: "paging_build_app_directory L (task_page_directory p) (task_user_pt p) phys APP_LOAD_VIRT_BASE bytes s = (True, t)"
  shows "dir_cells L (m_mem t) p phys (unat bytes div 4096)"
proof -
  have ly: "layout_ok L" using L by (simp add: app_layout_def)
  note cell = build_app_directory_cells [OF ly task_tables [OF L p] b, unfolded load_base_index app_pages_slot [OF bytes]]
  have k: "m_mem t (lm_page_directory L + 4 * j) = m_mem s (lm_page_directory L + 4 * j)" if "j < 1024" for j
    by (rule calm_kernel [OF build_calm [OF L p b] L _ kdir_table that]) (use p in simp)
  have "task_page_directory p \<noteq> task_user_pt p" using task_tables_range [OF p] by simp
  then show ?thesis using cell [OF tdir_aligned(1)] cell [OF tdir_aligned(2)] k
    by (simp add: dir_cells_def APP_FLAGS_def or.assoc)
qed

section \<open>Slots in the arena\<close>

lemma arena_range_bounds:
  assumes "arena_range base b k n"
  shows "0x700000 \<le> unat base" "unat base + unat b \<le> 0xB00000" "unat base mod 4096 = 0" "base \<noteq> 0" "b \<noteq> 0"
  using assms by (auto simp: arena_range_def unat_eq_zero [symmetric])

lemma mod4_of_page: "unat x mod 4096 = 0 \<Longrightarrow> unat x mod 4 = 0"
  using mod_mod_cancel [of 4 4096 "unat x"] by simp

lemma calm_mem_zero: "arena_range base b k n \<Longrightarrow> calm P mem (shell_apps_mem_zero base b mem)"
  unfolding shell_apps_mem_zero_def using arena_range_bounds [of base b k n] mod4_of_page [of base]
  by (intro calm_store_bytes) auto

text \<open>A cell is determined by its bytes.\<close>

lemma cell_bytes:
  assumes "a mod 4 = 0" "\<And>i. i < 4 \<Longrightarrow> get_byte m (a + i) = get_byte m' (a + i)"
  shows "m a = m' a"
proof (rule bit_word_eqI)
  fix n assume "n < LENGTH(32)"
  then have n: "n div 8 < 4" by simp
  have am: "(a + n div 8) mod 4 = n div 8" "a + n div 8 - (a + n div 8) mod 4 = a"
    using assms(1) n by (simp_all add: mod_add_left_eq [symmetric])
  have "bit (get_byte x (a + n div 8)) (n mod 8) = bit (x a) n" for x
    unfolding get_byte_def am by (simp add: bit_ucast_iff bit_drop_bit_eq)
  then show "bit (m a) n = bit (m' a) n" using assms(2) [OF n] by metis
qed

lemma calm_bytes:
  assumes "arena_range base b k n" "\<And>a. a < unat base \<or> unat base + unat b \<le> a \<Longrightarrow> get_byte mem' a = get_byte mem a"
  shows "calm P mem mem'"
  unfolding calm_def
proof (intro allI impI)
  fix a assume a: "a mod 4 = 0" "mem' a \<noteq> mem a"
  note r = arena_range_bounds [OF assms(1)]
  have "unat base mod 4 = 0" using mod4_of_page [OF r(3)] .
  then have low: "a + 4 \<le> unat base" if "a < unat base" using that a(1) by presburger
  have "unat b mod 4 = 0" using assms(1) by (simp add: arena_range_def)
  show "loose P a"
  proof (rule ccontr)
    assume "\<not> loose P a"
    then have "a < unat base \<or> unat base + unat b \<le> a" using r unfolding loose_def by linarith
    then have "mem' a = mem a" using low by (intro cell_bytes [OF a(1)] assms(2)) auto
    with a(2) show False by simp
  qed
qed

lemma load_elf_calm:
  assumes r: "arena_range base slot k m" and s: "slot_ok slot" and n: "n < 2 ^ 31" "n \<le> int (length d)"
  shows "calm P mem (snd (shell_apps_load_elf_image d n base slot mem))"
proof (cases "elf_slot d \<le> unat slot")
  case True
  note b = arena_range_bounds [OF r]
  have fit: "unat base + unat slot < 4294967296" using b by simp
  obtain mem' where m: "snd (shell_apps_load_elf_image d n base slot mem) = mem'"
    "elf_ok d n \<longrightarrow> (\<forall>a. get_byte mem' a = (if unat base \<le> a \<and> a < unat base + (unat slot - 0x15000)
           then case image_byte d (program_headers d) (a - unat base + 0x1000000) of None \<Rightarrow> get_byte mem a | Some v \<Rightarrow> v
           else get_byte mem a))" "\<not> elf_ok d n \<longrightarrow> mem' = mem"
    using elf_load_image [OF n s True fit, of mem] by force
  show ?thesis
  proof (cases "elf_ok d n")
    case True
    show ?thesis unfolding m(1) by (rule calm_bytes [OF r]) (use m(2) True in auto)
  next
    case False
    then show ?thesis using m by simp
  qed
next
  case False
  have "snd (shell_apps_load_elf_image d n base slot mem) = mem"
  proof (cases "elf_ok d n")
    case True
    then have "image_end (program_headers d) \<le> 0x13EB000" using image_end_bounds(2) by (auto simp: elf_ok_def)
    then have "4096 * ((image_end (program_headers d) - 0x1000000 + 4095) div 4096) \<le> 4096 * 1003"
      by (intro page_round) simp
    then have "unat (of_nat (elf_slot d) :: u32) = elf_slot d" unfolding elf_slot_def by (intro unat_of_nat32) simp
    then have "(of_nat (elf_slot d) :: u32) > slot" using False by (simp add: word_less_nat_alt)
    then show ?thesis using probe_elf_exact [OF n] True by (simp add: shell_apps_load_elf_image_def Let_def)
  next
    case False
    then show ?thesis using probe_elf_exact [OF n] by (simp add: shell_apps_load_elf_image_def Let_def)
  qed
  then show ?thesis by simp
qed

lemma required_size: "shell_apps_plan_com_image n = Some b \<Longrightarrow> slot_ok b \<and> 0 < n \<and> n \<le> 65536 \<and> nat n \<le> unat b"
proof -
  assume a: "shell_apps_plan_com_image n = Some b"
  then have n: "0 < n" "n \<le> 65536" "b = shell_apps_required_slot_bytes (of_int n)" "b \<noteq> 0"
    by (auto simp: shell_apps_plan_com_image_def APP_MAX_COM_SIZE_def Let_def split: if_splits)
  define N where "N = nat n"
  have N: "(of_int n :: u32) = of_nat N" "int N = n" "N \<le> 65536" using n by (simp_all add: N_def)
  then have "unat (of_int n :: u32) = N" by (simp add: unat_of_nat32)
  then show ?thesis using required_slot_ok [of "of_int n"] n N by (auto simp del: of_int_of_nat_eq)
qed

lemma load_com_calm:
  assumes r: "arena_range base slot k m" and s: "slot_ok slot"
  shows "calm P mem (snd (shell_apps_load_com_image d n base slot mem))"
proof (cases "shell_apps_plan_com_image n")
  case (Some b)
  note q = required_size [OF Some] and bd = arena_range_bounds [OF r]
  have un: "unat (of_int n :: u32) = nat n"
  proof -
    have "(of_int n :: u32) = of_nat (nat n)" "nat n < 4294967296" using q by (simp, linarith)
    then show ?thesis using unat_of_nat32 [of "nat n"] by (simp del: of_nat_nat)
  qed
  have "calm P mem (shell_apps_mem_copy base (\<lambda>k. d ! k) (of_int n) mem)" if "\<not> b > slot"
    unfolding shell_apps_mem_copy_def un using q that bd mod4_of_page [OF bd(3)]
    by (intro calm_store_bytes) (auto simp: word_less_nat_alt)
  then show ?thesis using Some by (simp add: shell_apps_load_com_image_def Let_def)
qed (simp add: shell_apps_load_com_image_def)

lemma load_image_calm:
  assumes "load_image fmt n p s = (e, t)" and ok: "task_ok p (task_at p s)"
    and n: "n < 2 ^ 31" "n \<le> int (length (g_elf_buffer s))"
  shows "t = s\<lparr>m_mem := m_mem t\<rparr>" "calm P (m_mem s) (m_mem t)"
proof -
  obtain k m where r: "arena_range (app_phys_base (task_at p s)) (app_slot_bytes (task_at p s)) k m"
    using ok by (rule task_pages)
  note q = load_elf_calm [OF r task_okD(2) [OF ok] n, of P "m_mem s"] load_com_calm [OF r task_okD(2) [OF ok], of P "m_mem s"]
  show "t = s\<lparr>m_mem := m_mem t\<rparr>" using assms(1) by (auto simp: load_image_def Let_def split_beta)
  show "calm P (m_mem s) (m_mem t)"
    using assms(1) q by (auto simp: load_image_def Let_def split_beta split: shell_app_format.splits)
qed

lemma plan_image_slot:
  assumes "plan_image fmt n s = Some b" "n < 2 ^ 31" "n \<le> int (length (g_elf_buffer s))"
  shows "slot_ok b"
proof (cases fmt)
  case APP_FORMAT_ELF
  let ?d = "g_elf_buffer s"
  have ok: "elf_ok ?d n" "b = of_nat (elf_slot ?d)"
    using assms probe_elf_exact [OF assms(2,3)] by (auto simp: plan_image_def APP_FORMAT_ELF split: if_splits)
  then have "image_end (program_headers ?d) \<le> 0x13EB000" using image_end_bounds(2) by (auto simp: elf_ok_def)
  then have le: "4096 * ((image_end (program_headers ?d) - 0x1000000 + 4095) div 4096) \<le> 4096 * 1003"
    by (intro page_round) simp
  then have "unat b = elf_slot ?d" unfolding ok(2) elf_slot_def by (intro unat_of_nat32) simp
  then show ?thesis using le by (simp add: slot_ok_def elf_slot_def)
next
  case APP_FORMAT_COM
  then show ?thesis using assms(1) required_size by (simp add: plan_image_def)
qed

end
