(* ===== verification/App_Spawn.thy ===== *)
theory App_Spawn
  imports App_Start
begin

text \<open>Tasks that are prepared, cloned and made into threads; the staging buffer stays as it is.\<close>

unbundle bit_operations_syntax

section \<open>The staging buffer\<close>

lemma more_buffer: "sched_state.more s = sched_state.more (t :: 'a app_state_scheme) \<Longrightarrow> g_elf_buffer s = g_elf_buffer t"
  by (cases s; cases t; simp)

lemma buffer_log [frame_simps]:
  "g_elf_buffer (log_serial_raw x s) = g_elf_buffer s" "g_elf_buffer (log_print_hex k s) = g_elf_buffer s"
  "g_elf_buffer (cli s) = g_elf_buffer s" "g_elf_buffer (sti s) = g_elf_buffer s"
  by (rule more_buffer, simp add: frame_simps)+

lemma buffer_task [frame_simps]:
  "g_elf_buffer (upd_task p f s) = g_elf_buffer s" "g_elf_buffer (zero_task_mem p s) = g_elf_buffer s"
  "g_elf_buffer (shell_apps_leave_critical fl s) = g_elf_buffer s"
  by (simp_all add: upd_task_def zero_task_mem_def shell_apps_leave_critical_def frame_simps)

lemma buffer_release [frame_simps]: "g_elf_buffer (shell_apps_release_task p s) = g_elf_buffer s"
  by (simp add: shell_apps_release_task_def shell_apps_release_phys_range_def shell_apps_enter_critical_def Let_def frame_simps)

lemma buffer_reap [frame_simps]: "g_elf_buffer (shell_apps_reap_terminated_tasks s) = g_elf_buffer s"
proof -
  have "g_elf_buffer (fold reap_one ps u) = g_elf_buffer u" for ps and u :: "'a app_state_scheme"
    by (induction ps arbitrary: u) (simp_all add: reap_one_def Let_def frame_simps)
  then show ?thesis by (simp add: shell_apps_reap_terminated_tasks_def)
qed

lemma buffer_free_pid [frame_simps]: "g_elf_buffer (snd (shell_apps_find_free_pid s)) = g_elf_buffer s"
  by (simp add: shell_apps_find_free_pid_def Let_def frame_simps)

lemma buffer_allocate [frame_simps]: "g_elf_buffer (snd (shell_apps_allocate_phys_base b s)) = g_elf_buffer s"
  by (simp add: shell_apps_allocate_phys_base_def Let_def arena_take_eq frame_simps split: option.split)

lemma buffer_build [frame_simps]:
  "g_elf_buffer (snd (paging_build_app_directory L pd pt phys virt bytes s)) = g_elf_buffer s"
  by (simp add: paging_build_app_directory_def Let_def)

lemma buffer_prepare [frame_simps]:
  "g_elf_buffer (snd (shell_apps_prepare_app_task L p host d base b bg ser join s)) = g_elf_buffer s"
  using buffer_build [of L "task_page_directory p" "task_user_pt p" base APP_LOAD_VIRT_BASE]
  by (auto simp: shell_apps_prepare_app_task_def shell_apps_copy_host_state_def Let_def frame_simps
      split: prod.split bool.split dest: arg_cong [where f = "\<lambda>x. g_elf_buffer (snd x)"])

section \<open>Preparing\<close>

lemma same_threads_mem: "same_threads s (s\<lparr>m_mem := m\<rparr>)" "same_threads s (upd_task p f s)"
  by (simp_all add: same_threads_def)

lemma task_at_mem [simp]: "task_at p (s\<lparr>m_mem := m\<rparr>) = task_at p s" "task_at p (s\<lparr>g_app_phys_page_used := u\<rparr>) = task_at p s"
  by (simp_all add: task_at_def)

lemma core_task_at: "core t = core s \<Longrightarrow> task_at p t = task_at p s"
  using core_eqD(1) [of t s] by (simp add: task_at_def)

definition new_task :: "nat \<Rightarrow> shell_app_host \<Rightarrow> int \<Rightarrow> u32 \<Rightarrow> u32 \<Rightarrow> bool \<Rightarrow> bool \<Rightarrow> bool \<Rightarrow> shell_app_task" where
  "new_task p host d base b bg ser join =
     zero_task\<lparr>in_use := True, t_pid := int p, leader_pid := int p, t_drive := d,
       t_fat16_initialized := h_fat16_initialized host, app_clip_mode := h_app_clip_mode host, background := bg, serial_only := ser,
       t_current_dir_cluster := h_current_dir_cluster host, app_clip_src_cluster := h_app_clip_src_cluster host,
       t_out_both := h_out_both host, t_str_to_upper := h_str_to_upper host, t_path_reset := h_path_reset host,
       t_path_pop := h_path_pop host, t_path_push := h_path_push host,
       t_current_path := snd (shell_apps_copy_string (h_current_path host) APP_PATH_MAX),
       app_clip_name := snd (shell_apps_copy_string (h_app_clip_name host) APP_CLIP_NAME_MAX),
       app_phys_base := base, app_slot_bytes := b, owns_app_memory := True, join_on_exit := join\<rparr>"

lemma copy_host_task:
  assumes "length (g_app_tasks s) = 8" "p < 8"
  shows "task_at q (upd_task p (\<lambda>t. t\<lparr>t_pid := int p, leader_pid := int p, app_phys_base := base,
       app_slot_bytes := b, owns_app_memory := True, join_on_exit := join\<rparr>)
      (log_serial_raw m (shell_apps_copy_host_state p host d bg ser s)))
     = (if q = p then new_task p host d base b bg ser join else task_at q s)"
proof -
  let ?c = "shell_apps_copy_host_state p host d bg ser s"
  have l: "length (g_app_tasks ?c) = 8" using assms by (simp add: shell_apps_copy_host_state_def Let_def)
  have t: "task_at q (log_serial_raw m ?c) = task_at q ?c" for q by (rule core_task_at) (simp add: frame_simps)
  show ?thesis using assms l by (simp add: t) (simp add: shell_apps_copy_host_state_def Let_def new_task_def)
qed

lemma copy_host_frame:
  "same_threads s (shell_apps_copy_host_state p host d bg ser s)"
  "g_app_phys_page_used (shell_apps_copy_host_state p host d bg ser s) = g_app_phys_page_used s"
  "length (g_app_tasks (shell_apps_copy_host_state p host d bg ser s)) = length (g_app_tasks s)"
  "m_mem (shell_apps_copy_host_state p host d bg ser s) = store_range (task_page_directory p) 2048 (\<lambda>_. 0) (m_mem s)"
  by (simp_all add: shell_apps_copy_host_state_def Let_def same_threads_def zero_task_mem_def upd_task_def)

lemma new_task_ok:
  "arena_range base b k n \<Longrightarrow> slot_ok b \<Longrightarrow> 3 \<le> p \<Longrightarrow> p < 8 \<Longrightarrow> shell_apps_host_valid host \<Longrightarrow>
   task_ok p (new_task p host d base b bg ser join)"
  by (auto simp: task_ok_def new_task_def shell_apps_task_valid_def shell_apps_host_valid_def)

text \<open>The state in which the address space is built.\<close>

lemma prepare_steps:
  assumes p: "3 \<le> p" "p < 8" and len: "length (g_app_tasks s) = 8" and b: "slot_ok b" and r: "arena_range base b k n"
  obtains v where
    "shell_apps_prepare_app_task L p host d base b bg ser join s =
      (case paging_build_app_directory L (task_page_directory p) (task_user_pt p) base APP_LOAD_VIRT_BASE b v of
         (False, t) \<Rightarrow> (False, t) | (True, t) \<Rightarrow> (True, log_serial_raw (ascii ''APPBG053'' @ [Logger.newline]) t))"
    "length (g_app_tasks v) = 8" "\<And>q. task_at q v = (if q = p then new_task p host d base b bg ser join else task_at q s)"
    "g_app_phys_page_used v = g_app_phys_page_used s" "same_threads s v" "calm {p} (m_mem s) (m_mem v)"
proof -
  define c where "c = shell_apps_copy_host_state p host d bg ser (log_serial_raw (ascii ''APPBG051'' @ [Logger.newline]) s)"
  define w where "w = upd_task p (\<lambda>t. t\<lparr>t_pid := int p, leader_pid := int p, app_phys_base := base,
       app_slot_bytes := b, owns_app_memory := True, join_on_exit := join\<rparr>) (log_serial_raw (ascii ''APPBG052'' @ [Logger.newline]) c)"
  define v where "v = w\<lparr>m_mem := shell_apps_mem_zero base b (m_mem w)\<rparr>"
  have al: "shell_apps_align_up b APP_PAGE_SIZE = b"
    using align_up_aligned [of b] b by (simp add: APP_PAGE_SIZE_def slot_ok_def)
  have g: "\<not> (int p < APP_SLOT_FIRST_PID \<or> p \<ge> SCHEDULER_MAX_PROCESSES \<or> base = 0 \<or> b = 0 \<or> b > APP_SLOT_MAX_SIZE)"
    "\<not> (b = 0 \<or> b > APP_SLOT_MAX_SIZE)"
    using p b arena_range_bounds [OF r]
    by (auto simp: APP_SLOT_FIRST_PID_def SCHEDULER_MAX_PROCESSES_def APP_SLOT_MAX_SIZE_def slot_ok_def word_less_nat_alt)
  have "shell_apps_prepare_app_task L p host d base b bg ser join s =
      (case paging_build_app_directory L (task_page_directory p) (task_user_pt p) base APP_LOAD_VIRT_BASE b v of
         (False, t) \<Rightarrow> (False, t) | (True, t) \<Rightarrow> (True, log_serial_raw (ascii ''APPBG053'' @ [Logger.newline]) t))"
    unfolding shell_apps_prepare_app_task_def if_not_P [OF g(1)] Let_def al if_not_P [OF g(2)] v_def w_def c_def ..
  moreover have l: "length (g_app_tasks (log_serial_raw m s)) = 8" for m using len by simp
  have "length (g_app_tasks v) = 8" using len by (simp add: v_def w_def c_def copy_host_frame(3))
  moreover have "task_at q v = (if q = p then new_task p host d base b bg ser join else task_at q s)" for q
    using copy_host_task [OF l p(2)] core_task_at [of "log_serial_raw m s" s for m]
    by (simp add: v_def w_def c_def frame_simps)
  moreover have "g_app_phys_page_used v = g_app_phys_page_used s" by (simp add: v_def w_def c_def copy_host_frame(2))
  moreover have "same_threads s c" unfolding c_def
    by (rule same_threads_trans [OF same_threads_core copy_host_frame(1)]) (simp add: frame_simps)
  then have "same_threads s v" by (simp add: v_def w_def same_threads_def)
  moreover have "calm {p} (m_mem s) (m_mem v)"
    using calm_trans [OF calm_tables calm_mem_zero [OF r]] by (simp add: v_def w_def c_def copy_host_frame(4))
  ultimately show ?thesis by (rule that)
qed

lemma prepare_inv:
  assumes inv: "app_inv L T s" and L: "app_layout L" and p: "3 \<le> p" "p < 8" and free: "\<not> in_use (task_at p s)"
    and b: "slot_ok b" and r: "arena_range base b k (unat b div 4096)"
    and run: "free_run (g_app_phys_page_used s) (unat b div 4096) k"
    and u: "core u = core (s\<lparr>g_app_phys_page_used := set_pages k (unat b div 4096) True (g_app_phys_page_used s)\<rparr>)"
    and host: "shell_apps_host_valid host"
    and prep: "shell_apps_prepare_app_task L p host d base b bg ser join u = (ok, t)"
  shows "app_inv L T t" "same_threads s t" "task_at p t = new_task p host d base b bg ser join"
    "ok \<Longrightarrow> dir_cells L (m_mem t) p base (unat b div 4096)"
proof -
  note i = app_invD [OF inv] and c = core_eqD [OF u]
  have len: "length (g_app_tasks u) = 8" using c(1) i(6) by simp
  have tu: "task_at q u = task_at q s" for q using c(1) by (simp add: task_at_def)
  obtain v where v: "shell_apps_prepare_app_task L p host d base b bg ser join u =
      (case paging_build_app_directory L (task_page_directory p) (task_user_pt p) base APP_LOAD_VIRT_BASE b v of
         (False, t) \<Rightarrow> (False, t) | (True, t) \<Rightarrow> (True, log_serial_raw (ascii ''APPBG053'' @ [Logger.newline]) t))"
    "length (g_app_tasks v) = 8" "\<And>q. task_at q v = (if q = p then new_task p host d base b bg ser join else task_at q u)"
    "g_app_phys_page_used v = g_app_phys_page_used u" "same_threads u v" "calm {p} (m_mem u) (m_mem v)"
    by (rule prepare_steps [OF p len b r]) blast
  obtain r' w where w: "paging_build_app_directory L (task_page_directory p) (task_user_pt p) base APP_LOAD_VIRT_BASE b v = (r', w)"
    by (cases "paging_build_app_directory L (task_page_directory p) (task_user_pt p) base APP_LOAD_VIRT_BASE b v")
  have t: "ok = r'" "core t = core w" using prep v(1) w by (auto simp: frame_simps split: bool.splits)
  obtain m where wm: "w = v\<lparr>m_mem := m\<rparr>" using build_frame [OF w] by blast
  have tw: "task_at q w = (if q = p then new_task p host d base b bg ser join else task_at q s)" for q
    using v(3) tu by (simp add: wm)
  have th: "same_threads s w" using v(5) c by (simp add: same_threads_def wm)
  note nt = new_task_ok [OF r b p host, of d bg ser join]
  have "app_inv L T w"
  proof (rule add_owner_inv [OF inv L p(2,1) free th, where k = k and n = "unat b div 4096"])
    show "length (g_app_tasks w) = 8" using v(2) by (simp add: wm)
    show "task_at q w = task_at q s" if "q \<noteq> p" for q using tw that by simp
    show "in_use (task_at p w)" "owns_app_memory (task_at p w)" by (simp_all add: tw new_task_def)
    show "task_ok p (task_at p w)" using nt by (simp add: tw)
    show "arena_range (app_phys_base (task_at p w)) (app_slot_bytes (task_at p w)) k (unat b div 4096)"
      using r by (simp add: tw new_task_def)
    show "g_app_phys_page_used w = set_pages k (unat b div 4096) True (g_app_phys_page_used s)" using v(4) c(2) by (simp add: wm)
    show "calm {p} (m_mem s) (m_mem w)" using calm_trans [OF v(6) build_calm [OF L p(2) w]] c(6) by simp
  qed (rule run)
  then show "app_inv L T t" by (rule iffD2 [OF app_inv_core [OF t(2)]])
  show "same_threads s t" using th same_threads_core [OF t(2)] by (rule same_threads_trans)
  show "task_at p t = new_task p host d base b bg ser join" using core_task_at [OF t(2)] tw by simp
  show "dir_cells L (m_mem t) p base (unat b div 4096)" if ok
    using build_dir_cells [OF L p(2) b, of base v w] w that t core_eqD(6) [OF t(2)] by simp
qed

end
