(* ===== verification/App_Live.thy ===== *)
theory App_Live
  imports App_Spawn
begin

text \<open>A prepared task becomes a thread; launching programs and creating threads keep the invariant.\<close>

unbundle bit_operations_syntax

section \<open>Spawning\<close>

lemma spawn_cr3 [frame_simps]:
  "m_cr3 (snd (scheduler_spawn_kernel_task L nm org ex entry arg pd s)) = m_cr3 s"
  by (simp add: scheduler_spawn_kernel_task_def sched_spawn_kernel_thread_internal_def Let_def sched_reset_slot_def
      sched_prepare_kernel_thread_def cli_def sti_def store_word_def sched_mem_zero_def split: option.split)

lemma fresh_stack_calm:
  assumes "fresh_stack L i mem mem'" "i \<in> {1..<8}" shows "calm P mem mem'"
  unfolding calm_def
proof (intro allI impI)
  fix a assume "mem' a \<noteq> mem a"
  then have "a \<in> stack_bytes i" using assms(1) by (auto simp: fresh_stack_def)
  then show "loose P a" using stack_bytes_arena [OF assms(2)] unfolding loose_def by fastforce
qed

text \<open>What a spawn with a name and an entry does: nothing, or a new thread in a slot that was dead.\<close>

lemma spawn_cases:
  assumes inv: "app_inv L T s" and e: "entry \<noteq> 0"
    and sp: "scheduler_spawn_kernel_task L (Some nm) org ex entry arg pd s = (r, t)"
  shows "r = None \<and> core t = core s \<or>
    (\<exists>i. r = Some i \<and> 3 \<le> i \<and> i < 8 \<and> \<not> live (st s i) \<and> i \<noteq> cur s \<and> sched_inv t \<and> g_current t = g_current s \<and> m_cr3 t = m_cr3 s
      \<and> (\<forall>j. j \<noteq> i \<longrightarrow> slot_at j t = slot_at j s) \<and> live (st t i) \<and> pdir t i = (if pd \<noteq> 0 then pd else kdir L)
      \<and> g_app_tasks t = g_app_tasks s \<and> g_app_phys_page_used t = g_app_phys_page_used s \<and> calm {} (m_mem s) (m_mem t))"
proof -
  note i = app_invD [OF inv]
  note sched = i(5)
  let ?int = "sched_spawn_kernel_thread_internal L (Some nm) org ex entry arg pd SCHED_EXTERNAL_PID_MIN s"
  have sp': "?int = (r, t)" using sp sched_invD(2) [OF sched] by (simp add: scheduler_spawn_kernel_task_def)
  have more: "sched_state.more t = sched_state.more s" "m_cr3 t = m_cr3 s"
    using spawn_more [of L "Some nm" org ex entry arg pd s] spawn_cr3 [of L "Some nm" org ex entry arg pd s] sp by simp_all
  show ?thesis
  proof (cases "sched_find_free_slot_from SCHED_EXTERNAL_PID_MIN s")
    case None
    then obtain u where "?int = (None, u)" "u = s\<lparr>m_eflags := m_eflags s\<rparr>" using spawn_fail by blast
    then show ?thesis using sp' by (simp add: core_def)
  next
    case (Some idx)
    obtain u where u: "?int = (Some idx, u)" "sched_inv u" "g_current u = g_current s"
      "\<forall>j. j \<noteq> idx \<longrightarrow> slot_at j u = slot_at j s" "fresh_slot L idx entry arg pd (slot_at idx u)"
      "fresh_stack L idx (m_mem s) (m_mem u)"
      using spawn_ok [OF sched Some refl e] by blast
    have rt: "r = Some idx" "t = u" using u(1) sp' by simp_all
    have idx: "idx \<in> {1..<8}" "3 \<le> idx" "\<not> live (st s idx)"
      using free_slot_range [OF Some] by (auto simp: SCHED_EXTERNAL_PID_MIN_def live_def)
    have "idx \<noteq> cur s" using idx(3) i(10) by auto
    moreover have "live (st t idx)" "pdir t idx = (if pd \<noteq> 0 then pd else kdir L)"
      using u(5) by (simp_all add: rt fresh_slot_def live_def)
    ultimately show ?thesis using u idx more_app [OF more(1)] more(2) fresh_stack_calm [OF u(6) idx(1)]
      by (intro disjI2 exI [of _ idx]) (simp add: rt)
  qed
qed

text \<open>A thread that ends where it was before, dead.\<close>

lemma dead_slot_inv:
  assumes inv: "app_inv L T s" and L: "app_layout L" and i: "i < 8" "\<not> live (st s i)"
    and same: "g_app_tasks t = g_app_tasks s" "g_app_phys_page_used t = g_app_phys_page_used s" "calm {} (m_mem s) (m_mem t)"
    and sch: "sched_inv t" "g_current t = g_current s" "m_cr3 t = m_cr3 s" "\<And>j. j \<noteq> i \<Longrightarrow> slot_at j t = slot_at j s"
    and dead: "\<not> live (st t i)" "pdir t i = kdir L"
  shows "app_inv L T t"
proof -
  let ?u = "t\<lparr>m_mem := m_mem s\<rparr>"
  note iv = app_invD [OF inv]
  have sl: "slot_at j ?u = slot_at j t" for j by simp
  have ic: "i \<noteq> cur s" using i(2) iv(10) by auto
  have "app_inv L T ?u"
  proof (rule kill_inv [OF inv, where K = "{i}"])
    show "sched_inv ?u" by (rule sched_inv_frame [OF sch(1)]) simp_all
    show "p \<in> {i}" if "p < 8" "app_thread s p" "nat (leader_pid (task_at p s)) \<in> {i}" for p
      using threads_invD(2) [OF iv(3) that(1,2)] that(3) i(2) by (auto simp: owner_ok_def app_thread_def Let_def)
    show "m_cr3 ?u = pdir ?u (cur ?u)" using sch(2-4) iv(9) ic by simp
    show "live (st ?u (cur ?u))" using sch(2,4) iv(10) ic by simp
  qed (use same dead sch(4) in simp_all)
  then show ?thesis
    by (rule calm_inv [OF _ L _ _ _ _, where P = "{}"]) (use same in \<open>simp_all add: same_threads_def\<close>)
qed

text \<open>Releasing a task and ending a thread commute.\<close>

lemma slots_commute:
  "(shell_apps_leave_critical fl s)\<lparr>g_slots := g\<rparr> = shell_apps_leave_critical fl (s\<lparr>g_slots := g\<rparr>)"
  "(cli s)\<lparr>g_slots := g\<rparr> = cli (s\<lparr>g_slots := g\<rparr>)" "m_eflags (s\<lparr>g_slots := g\<rparr>) = m_eflags s"
  "(s\<lparr>g_app_phys_page_used := m\<rparr>)\<lparr>g_slots := g\<rparr> = (s\<lparr>g_slots := g\<rparr>)\<lparr>g_app_phys_page_used := m\<rparr>"
  "g_app_phys_page_used (cli u) = g_app_phys_page_used u" "g_app_phys_page_used (u\<lparr>g_slots := g\<rparr>) = g_app_phys_page_used u"
  by (simp_all add: shell_apps_leave_critical_def cli_def sti_def)

lemma release_range_slots:
  "shell_apps_release_phys_range base b (s\<lparr>g_slots := g\<rparr>) = (shell_apps_release_phys_range base b s)\<lparr>g_slots := g\<rparr>"
  unfolding shell_apps_release_phys_range_def shell_apps_enter_critical_def Let_def prod.case
  by (simp only: if_distrib [where f = "g_slots_update (\<lambda>_. g)"] slots_commute)

lemma release_slots: "shell_apps_release_task p (s\<lparr>g_slots := g\<rparr>) = (shell_apps_release_task p s)\<lparr>g_slots := g\<rparr>"
proof -
  have "task_at p (s\<lparr>g_slots := g\<rparr>) = task_at p s" "zero_task_mem p (s\<lparr>g_slots := g\<rparr>) = (zero_task_mem p s)\<lparr>g_slots := g\<rparr>"
    by (simp_all add: task_at_def zero_task_mem_def upd_task_def)
  then show ?thesis
    unfolding shell_apps_release_task_def Let_def by (simp only: if_distrib [where f = "g_slots_update (\<lambda>_. g)"] release_range_slots)
qed

lemma release_frame: "g_slots (shell_apps_release_task p s) = g_slots s" "g_runtime_ready (shell_apps_release_task p s) = g_runtime_ready s"
  by (simp_all add: shell_apps_release_task_def shell_apps_release_phys_range_def zero_task_mem_def upd_task_def
      shell_apps_enter_critical_def shell_apps_leave_critical_def cli_def sti_def Let_def)

lemma release_terminate:
  "snd (scheduler_terminate_process L q (shell_apps_release_task p s)) = shell_apps_release_task p (snd (scheduler_terminate_process L q s))"
  by (simp add: scheduler_terminate_process_def slot_at_def upd_slot_def release_frame release_slots)

text \<open>A task that is ready to run: not yet a thread, with an owner and a complete address space.\<close>

definition startable :: "'l link_map_scheme \<Rightarrow> 'a app_state_scheme \<Rightarrow> nat \<Rightarrow> bool" where
  "startable L s p \<longleftrightarrow> 3 \<le> p \<and> p < 8 \<and> \<not> app_thread s p \<and> in_use (task_at p s)
     \<and> (owns_app_memory (task_at p s) \<or> owner_ok s p)
     \<and> dir_cells L (m_mem s) p (app_phys_base (task_at p s)) (unat (app_slot_bytes (task_at p s)) div 4096)"

lemma new_thread_inv:
  assumes inv: "app_inv L T s" and L: "app_layout L" and st: "startable L s p"
    and i: "\<not> live (st s p)" "p \<noteq> cur s"
    and same: "g_app_tasks t = g_app_tasks s" "g_app_phys_page_used t = g_app_phys_page_used s" "calm {} (m_mem s) (m_mem t)"
    and sch: "sched_inv t" "g_current t = g_current s" "m_cr3 t = m_cr3 s" "\<And>j. j \<noteq> p \<Longrightarrow> slot_at j t = slot_at j s"
    and new: "live (st t p)" "pdir t p = tdir p"
  shows "app_inv L T t" "app_thread t p"
proof -
  note iv = app_invD [OF inv]
  have p: "p < 8" "3 \<le> p" "in_use (task_at p s)" using st by (simp_all add: startable_def)
  have ta: "task_at q t = task_at q s" for q using same(1) by (simp add: task_at_def)
  have th: "app_thread t q \<longleftrightarrow> q = p \<or> app_thread s q" for q
    using new sch(4) [of q] by (cases "q = p") (auto simp: app_thread_def)
  then show "app_thread t p" by simp
  have up: "owner_ok s q \<Longrightarrow> owner_ok t q" for q by (auto simp: owner_ok_def Let_def ta th)
  have "task_ok p (task_at p s)" using tasks_invD(1) [OF iv(1) p(1)] p(3) by blast
  then have "owns_app_memory (task_at p s) \<Longrightarrow> owner_ok t p"
    using task_okD(6) p(3) by (auto simp: owner_ok_def Let_def ta th)
  then have own_p: "owner_ok t p" using st up by (auto simp: startable_def)
  have "tasks_inv t" using iv(1) same by (simp add: tasks_inv_def ta)
  moreover have "arena_inv t" by (rule arena_inv_same [OF iv(2) _ same(2)]) (simp add: owns_def ta)
  moreover have "threads_inv L t" unfolding threads_inv_def
  proof (intro conjI allI impI)
    show "sched_inv t" by (rule sch(1))
    show "pdir t q = kdir L \<or> pdir t q = tdir q" if "q < 8" for q
      using new(2) sch(4) [of q] threads_invD(1) [OF iv(3) that] by (cases "q = p") simp_all
    show "owner_ok t q" if "q < 8" "app_thread t q" for q
      using own_p up threads_invD(2) [OF iv(3) that(1)] that(2) th by (cases "q = p") simp_all
    show "m_cr3 t = pdir t (cur t)" "live (st t (cur t))" using sch iv(9,10) i(2) by simp_all
  qed
  moreover have "dirs_inv L T t" unfolding dirs_inv_def
  proof (intro conjI allI impI)
    show "kmap L T (m_mem t)" by (rule calm_kmap [OF same(3) L _ iv(8)]) simp
    show "dir_cells L (m_mem t) q (app_phys_base (task_at q t)) (unat (app_slot_bytes (task_at q t)) div 4096)"
      if "q < 8" "app_thread t q" for q
    proof -
      have "dir_cells L (m_mem s) q (app_phys_base (task_at q s)) (unat (app_slot_bytes (task_at q s)) div 4096)"
        using st dirs_invD [OF iv(4) that(1)] that(2) th by (cases "q = p") (simp_all add: startable_def)
      then show ?thesis unfolding ta by (intro calm_dir_cells [OF same(3) L _ that(1)]) simp_all
    qed
  qed
  ultimately show "app_inv L T t" by (simp add: app_inv_def)
qed

lemma start_task_inv:
  assumes inv: "app_inv L T s" and L: "app_layout L" and e: "lm_background_thread L \<noteq> 0" and st: "startable L s p"
    and start: "start_task L p nm org s = (ok, t)"
  shows "app_inv L T t" "ok \<Longrightarrow> app_thread t p"
proof -
  have p: "p < 8" "\<not> app_thread s p" using st by (simp_all add: startable_def)
  obtain r u where u: "scheduler_spawn_kernel_task L (Some nm) (Some org) True (lm_background_thread L) (task_addr p) (tdir p) s = (r, u)"
    by (cases "scheduler_spawn_kernel_task L (Some nm) (Some org) True (lm_background_thread L) (task_addr p) (tdir p) s")
  note sp = spawn_cases [OF inv e u]
  have "app_inv L T t \<and> (ok \<longrightarrow> app_thread t p)"
  proof (cases r)
    case None
    then have c: "core u = core s" using sp by simp
    then have "app_inv L T u" "\<not> app_thread u p"
      using inv p(2) same_threadsD(4) [OF same_threads_core [OF c]] by (simp_all add: app_inv_core [OF c])
    then show ?thesis using release_inv [OF _ L p(1)] start u None by (auto simp: start_task_def)
  next
    case (Some i)
    then have i: "3 \<le> i" "i < 8" "\<not> live (st s i)" "i \<noteq> cur s" "sched_inv u" "g_current u = g_current s" "m_cr3 u = m_cr3 s"
      "\<And>j. j \<noteq> i \<Longrightarrow> slot_at j u = slot_at j s" "live (st u i)" "pdir u i = tdir p" "g_app_tasks u = g_app_tasks s"
      "g_app_phys_page_used u = g_app_phys_page_used s" "calm {} (m_mem s) (m_mem u)"
      using sp tdir_nz [OF p(1)] by auto
    show ?thesis
    proof (cases "i = p")
      case True
      then have "t = u" "ok" using start u Some by (simp_all add: start_task_def)
      then show ?thesis
        using new_thread_inv [OF inv L st i(3,4) [unfolded True] i(11,12,13,5,6,7) i(8) [unfolded True] i(9,10) [unfolded True]] by blast
    next
      case False
      let ?k = "snd (scheduler_terminate_process L (int i) u)"
      have t: "t = shell_apps_release_task p ?k" "\<not> ok"
        using start u Some False by (simp_all add: start_task_def release_terminate)
      have k: "?k = upd_slot i (sched_mark_terminated L) u"
        using i(1,2,9) sched_invD(2) [OF i(5)] by (simp add: scheduler_terminate_process_def sched_consts live_def)
      have "app_inv L T ?k"
      proof (rule dead_slot_inv [OF inv L i(2,3)])
        show "sched_inv ?k" by (rule terminate_inv [OF i(5)])
        show "\<not> live (st ?k i)" "pdir ?k i = kdir L"
          using i(2) sched_invD(1) [OF i(5)] unfolding k
          by (simp_all add: sched_mark_terminated_def live_def paging_get_kernel_directory_def)
        show "g_app_tasks ?k = g_app_tasks s" "g_app_phys_page_used ?k = g_app_phys_page_used s"
          using more_app [OF terminate_more [of L "int i" u]] i(11,12) by simp_all
      qed (use i k in simp_all)
      moreover have "\<not> app_thread ?k p" using p(2) i(8) [of p] False by (simp add: k app_thread_def)
      ultimately show ?thesis using release_inv [OF _ L p(1)] t by simp
    qed
  qed
  then show "app_inv L T t" "ok \<Longrightarrow> app_thread t p" by simp_all
qed

end
