(* ===== verification/App_Begin.thy ===== *)
theory App_Begin
  imports App_Live
begin

text \<open>Launching a program in the foreground or the background keeps the invariant of the application layer, on every path.\<close>

unbundle bit_operations_syntax

lemma app_thread_task [simp]: "app_thread (upd_task p f s) x = app_thread s x"
  by (rule same_threadsD(4) [OF same_threads_mem(2)])

lemma app_inv_out [simp]:
  "app_inv L T (log_serial_raw x s) = app_inv L T s" "app_inv L T (shell_apps_out_both L' host x s) = app_inv L T s"
  "app_inv L T (shell_apps_log_task_marker m k s) = app_inv L T s" "app_inv L T (shell_apps_task_out L' k x s) = app_inv L T s"
  "app_inv L T (announce L' host x y s) = app_inv L T s"
  by (rule app_inv_core, simp add: frame_simps)+

text \<open>From a free pid to a prepared task.\<close>

lemma ready_task:
  fixes s s2 s3 s4 :: "'a app_state_scheme"
  assumes inv: "app_inv L T s" and L: "app_layout L" and b: "slot_ok b" and host: "shell_apps_host_valid host"
    and pid: "shell_apps_find_free_pid s = (Some p, s1)" and c1: "core s2 = core s1"
    and al: "shell_apps_allocate_phys_base b s2 = (base, s3)" and base: "base \<noteq> 0" and c3: "core s4 = core s3"
    and prep: "shell_apps_prepare_app_task L p host d base b bg ser join s4 = (ok, t)"
  shows "3 \<le> p" "p < 8" "app_inv L T t" "\<not> app_thread t p" "task_at p t = new_task p host d base b bg ser join"
    "ok \<Longrightarrow> startable L t p"
proof -
  note f = find_free_pid [OF pid]
  show p: "3 \<le> p" "p < 8" using f(2) by auto
  have i1: "app_inv L T s2" using reap_inv(1) [OF inv L] f(1) app_inv_core [OF c1] by blast
  let ?r = "shell_apps_reap_terminated_tasks s2"
  note ir = reap_inv [OF i1 L]
  have free: "\<not> in_use (task_at p ?r)"
    using ir(3) [of p] f(2) core_task_at [OF c1, of p] by (auto simp: zero_task_def)
  obtain k where k: "arena_range base b k (unat b div 4096)" "free_run (g_app_phys_page_used ?r) (unat b div 4096) k"
    "s3 = ?r\<lparr>g_app_phys_page_used := set_pages k (unat b div 4096) True (g_app_phys_page_used ?r)\<rparr>"
    using allocate_cases [OF b app_invD(7) [OF ir(1)] al] base by blast
  note pr = prepare_inv [OF ir(1) L p free b k(1,2) c3 [unfolded k(3)] host prep]
  show "app_inv L T t" "task_at p t = new_task p host d base b bg ser join" by (rule pr)+
  have "\<not> app_thread ?r p" using free threads_invD(2) [OF app_invD(3) [OF ir(1)] p(2)] by (auto simp: owner_ok_def)
  then show no: "\<not> app_thread t p" using same_threadsD(4) [OF pr(2)] by simp
  show "startable L t p" if ok using p no pr(4) [OF that] by (simp add: startable_def pr(3) new_task_def)
qed

text \<open>From a prepared task to a thread.\<close>

lemma run_task:
  fixes s s2 s3 :: "'a app_state_scheme"
  assumes inv: "app_inv L T s" and L: "app_layout L" and e: "lm_background_thread L \<noteq> 0" and st: "startable L s p" "owns_app_memory (task_at p s)"
    and n: "n < 2 ^ 31" "n \<le> int (length (g_elf_buffer s))" and ld: "load_image fmt n p s = (r, s1)"
  shows "app_inv L T s1" "\<not> app_thread s1 p"
    "core s2 = core s1 \<Longrightarrow> core s3 = core (label_task p entry nm fname fb s2) \<Longrightarrow> start_task L p nm' org s3 = (ok, t) \<Longrightarrow>
     app_inv L T t"
proof -
  have p: "p < 8" "\<not> app_thread s p" "in_use (task_at p s)" using st(1) by (simp_all add: startable_def)
  have "task_ok p (task_at p s)" using tasks_invD(1) [OF app_invD(1) [OF inv] p(1)] p(3) by blast
  note q = load_image_calm [OF ld this n]
  obtain m where s1: "s1 = s\<lparr>m_mem := m\<rparr>" using q(1) by blast
  have qm: "calm P (m_mem s) m" for P using q(2) [of P] by (simp add: s1)
  have th: "same_threads s s1" by (simp add: s1 same_threads_def)
  show i1: "app_inv L T s1" by (rule calm_inv [OF inv L th, where P = "{}"]) (simp_all add: s1 qm)
  show "\<not> app_thread s1 p" using p(2) same_threadsD(4) [OF th] by simp
  assume c2: "core s2 = core s1" and c3: "core s3 = core (label_task p entry nm fname fb s2)" and go: "start_task L p nm' org s3 = (ok, t)"
  have "app_inv L T s2" using i1 app_inv_core [OF c2] by blast
  then have "app_inv L T (label_task p entry nm fname fb s2)"
    unfolding label_task_def by (rule relabel_inv) (simp add: relabels_def shell_apps_task_valid_def)
  then have i3: "app_inv L T s3" using app_inv_core [OF c3] by blast
  have len: "length (g_app_tasks s2) = 8" using app_invD(6) [OF i1] core_eqD(1) [OF c2] by simp
  have ta: "task_at p s3 = (task_at p s)\<lparr>entry_virtual := entry, task_name := shell_apps_set_task_label TASK_NAME_MAX nm (ascii ''app''),
       origin_name := shell_apps_set_task_label TASK_NAME_MAX fname fb\<rparr>"
    using core_task_at [OF c3] core_task_at [OF c2] len p(1) by (simp add: label_task_def s1)
  have mem: "m_mem s3 = m" using core_eqD(6) [OF c2] core_eqD(6) [OF c3] by (simp add: label_task_def upd_task_def s1)
  have thr: "app_thread s3 x = app_thread s x" for x
    using same_threadsD(4) [OF same_threads_core [OF c3]]
      same_threadsD(4) [OF same_threads_core [OF c2]] same_threadsD(4) [OF th] by (simp add: label_task_def)
  have "startable L s3 p"
    using st calm_dir_cells [OF qm [of "{}"] L _ p(1)]
    by (simp add: startable_def ta mem thr)
  then show "app_inv L T t" using start_task_inv(1) [OF i3 L e _ go] by blast
qed

text \<open>The two ways to launch.\<close>

lemma buffer_drive [frame_simps]: "g_elf_buffer (snd (os_drive_get_current s)) = g_elf_buffer s"
  by (simp add: os_drive_get_current_def split_beta)

lemma prepare_task_split:
  assumes "prepare_task L p host base b bg ser join s = (ok, t)"
  obtains d u where "core u = core s" "g_elf_buffer u = g_elf_buffer s"
    "shell_apps_prepare_app_task L p host d base b bg ser join u = (ok, t)"
proof -
  obtain d u where u: "os_drive_get_current s = (d, u)" by (cases "os_drive_get_current s")
  then have "core u = core s" "g_elf_buffer u = g_elf_buffer s"
    using core_drive(1) [of s] buffer_drive [of s] by simp_all
  then show ?thesis using assms u by (intro that [of u d]) (simp_all add: prepare_task_def)
qed

lemma buffer_core_steps:
  assumes "shell_apps_find_free_pid s = (r, s1)" "g_elf_buffer s2 = g_elf_buffer s1" "shell_apps_allocate_phys_base b s2 = (base, s3)"
    "g_elf_buffer s4 = g_elf_buffer s3" "shell_apps_prepare_app_task L p host d base b bg ser join s4 = (ok, t)"
  shows "g_elf_buffer t = g_elf_buffer s"
  using assms buffer_free_pid [of s] buffer_allocate [of b s2] buffer_prepare [of L p host d base b bg ser join s4] by simp

text \<open>The launch with everything but its messages.\<close>

lemma launch_steps:
  fixes s s2 s4 s6 s8 s9 :: "('h, 'p, 'a) os_state_scheme"
  assumes inv: "app_inv L T s" and L: "app_layout L" and e: "lm_background_thread L \<noteq> 0" and host: "shell_apps_host_valid host"
    and n: "n < 2 ^ 31" "n \<le> int (length (g_elf_buffer s))" and b: "slot_ok b"
    and pid: "shell_apps_find_free_pid s = (Some p, s1)" and c1: "core s2 = core s1" "g_elf_buffer s2 = g_elf_buffer s1"
    and al: "shell_apps_allocate_phys_base b s2 = (base, s3)" and base: "base \<noteq> 0" and c3: "core s4 = core s3" "g_elf_buffer s4 = g_elf_buffer s3"
    and prep: "prepare_task L p host base b bg ser join s4 = (ok, s5)"
  shows "app_inv L T (shell_apps_release_task p s5)"
    "ok \<Longrightarrow> core s6 = core s5 \<Longrightarrow> g_elf_buffer s6 = g_elf_buffer s5 \<Longrightarrow> load_image fmt n p s6 = (r, s7) \<Longrightarrow>
      app_inv L T (shell_apps_release_task p s7) \<and>
      (core s8 = core s7 \<longrightarrow> core s9 = core (label_task p entry nm fname fb s8) \<longrightarrow> start_task L p nm' org s9 = (ok', t) \<longrightarrow> app_inv L T t)"
proof -
  obtain d u where u: "core u = core s4" "g_elf_buffer u = g_elf_buffer s4"
    "shell_apps_prepare_app_task L p host d base b bg ser join u = (ok, s5)" using prep by (rule prepare_task_split)
  note r = ready_task [OF inv L b host pid c1(1) al base _ u(3)]
  have c: "core u = core s3" using u(1) c3(1) by simp
  show "app_inv L T (shell_apps_release_task p s5)" by (rule release_inv [OF r(3) [OF c] L r(2) [OF c] r(4) [OF c]])
  assume ok: ok and c6: "core s6 = core s5" "g_elf_buffer s6 = g_elf_buffer s5" and ld: "load_image fmt n p s6 = (r, s7)"
  have i6: "app_inv L T s6" using r(3) [OF c] app_inv_core [OF c6(1)] by blast
  have st: "startable L s6 p" "owns_app_memory (task_at p s6)"
    using r(5) [OF c] r(6) [OF c ok] core_task_at [OF c6(1)] core_eqD(6) [OF c6(1)] same_threadsD(4) [OF same_threads_core [OF c6(1)]]
    by (simp_all add: startable_def new_task_def)
  have "g_elf_buffer s6 = g_elf_buffer s"
    using buffer_core_steps [OF pid c1(2) al _ u(3)] u(2) c3(2) c6(2) by simp
  then have n6: "n \<le> int (length (g_elf_buffer s6))" using n(2) by simp
  note rt = run_task [OF i6 L e st n(1) n6 ld]
  show "app_inv L T (shell_apps_release_task p s7) \<and>
      (core s8 = core s7 \<longrightarrow> core s9 = core (label_task p entry nm fname fb s8) \<longrightarrow> start_task L p nm' org s9 = (ok', t) \<longrightarrow> app_inv L T t)"
    using release_inv [OF rt(1) L r(2) [OF c] rt(2)] rt(3) by blast
qed

lemma buffer_log_line [frame_simps]:
  "g_elf_buffer (shell_apps_log_task_marker m t s) = g_elf_buffer s"
  by (simp add: shell_apps_log_task_marker_def Let_def frame_simps)

theorem launch_background_inv:
  assumes inv: "app_inv L T s" and L: "app_layout L" and e: "lm_background_thread L \<noteq> 0" and host: "shell_apps_host_valid host"
    and n: "n < 2 ^ 31" "n \<le> int (length (g_elf_buffer s))" and b: "slot_ok b"
  shows "app_inv L T (snd (launch_background L host fmt nm fname n b s))"
proof -
  obtain r1 s1 where f: "shell_apps_find_free_pid s = (r1, s1)" by (cases "shell_apps_find_free_pid s")
  show ?thesis
  proof (cases r1)
    case None
    then show ?thesis using f reap_inv(1) [OF inv L] find_free_pid(1) [OF f] by (simp add: launch_background_def)
  next
    case (Some p)
    define s2 where "s2 = log_serial_raw (line ''APPBG004'') s1"
    obtain base s3 where a: "shell_apps_allocate_phys_base b s2 = (base, s3)" by (cases "shell_apps_allocate_phys_base b s2")
    have i2: "app_inv L T s2" using reap_inv(1) [OF inv L] find_free_pid(1) [OF f] by (simp add: s2_def)
    show ?thesis
    proof (cases "base = 0")
      case True
      then have "s3 = shell_apps_reap_terminated_tasks s2"
        using allocate_cases [OF b app_invD(7) [OF reap_inv(1) [OF i2 L]] a] arena_range_bounds(1) by fastforce
      then show ?thesis using True f Some a reap_inv(1) [OF i2 L] by (simp add: launch_background_def s2_def)
    next
      case False
      define s4 where "s4 = log_serial_raw (line ''APPBG005'') s3"
      obtain ok s5 where pr: "prepare_task L p host base b True True False s4 = (ok, s5)"
        by (cases "prepare_task L p host base b True True False s4")
      note st = launch_steps [OF inv L e host n b f [unfolded Some] _ _ a False _ _ pr]
      define s6 where "s6 = log_serial_raw (line ''APPBG007'') (log_serial_raw (line ''APPBG006'') s5)"
      obtain r s7 where ld: "load_image fmt n p s6 = (r, s7)" by (cases "load_image fmt n p s6")
      define s8 where "s8 = log_serial_raw (line ''APPBG008'') s7"
      define s9 where "s9 = (let s = label_task p (the r) nm fname (default_origin fmt) s8
        in shell_apps_log_task_marker (ascii ''APPBG010'') (task_at p s) s)"
      obtain ok' t where go: "start_task L p (if nm \<noteq> [] then nm else ascii ''app'') fname s9 = (ok', t)"
        by (cases "start_task L p (if nm \<noteq> [] then nm else ascii ''app'') fname s9")
      have "app_inv L T (shell_apps_release_task p s5)" by (rule st(1)) (simp_all add: s2_def s4_def frame_simps)
      moreover have "app_inv L T (shell_apps_release_task p s7) \<and> app_inv L T t" if ok
        using st(2) [OF _ _ _ _ that _ _ ld, of s8 s9 "the r" nm fname "default_origin fmt"] go
        by (simp add: s2_def s4_def s6_def s8_def s9_def Let_def frame_simps)
      ultimately show ?thesis
        using f Some a False pr ld go
        by (cases ok; cases r; cases ok') (simp_all add: launch_background_def Let_def s2_def s4_def s6_def s8_def s9_def)
    qed
  qed
qed

theorem launch_foreground_inv:
  assumes inv: "app_inv L T s" and L: "app_layout L" and e: "lm_background_thread L \<noteq> 0" and host: "shell_apps_host_valid host"
    and n: "n < 2 ^ 31" "n \<le> int (length (g_elf_buffer s))" and b: "slot_ok b"
  shows "app_inv L T (snd (launch_foreground L host fmt nm fname n b s))"
proof -
  define s0 where "s0 = shell_apps_reap_terminated_tasks s"
  have i0: "app_inv L T s0" and n0: "n \<le> int (length (g_elf_buffer s0))"
    using reap_inv(1) [OF inv L] n(2) by (simp_all add: s0_def frame_simps)
  obtain r1 s1 where f: "shell_apps_find_free_pid s0 = (r1, s1)" by (cases "shell_apps_find_free_pid s0")
  have i1: "app_inv L T s1" using reap_inv(1) [OF i0 L] find_free_pid(1) [OF f] by simp
  show ?thesis
  proof (cases r1)
    case None
    then show ?thesis using f i1 by (simp add: launch_foreground_def Let_def s0_def)
  next
    case (Some p)
    obtain base s3 where a: "shell_apps_allocate_phys_base b s1 = (base, s3)" by (cases "shell_apps_allocate_phys_base b s1")
    show ?thesis
    proof (cases "base = 0")
      case True
      then have "s3 = shell_apps_reap_terminated_tasks s1"
        using allocate_cases [OF b app_invD(7) [OF reap_inv(1) [OF i1 L]] a] arena_range_bounds(1) by fastforce
      then show ?thesis using True f Some a reap_inv(1) [OF i1 L] by (simp add: launch_foreground_def Let_def s0_def)
    next
      case False
      obtain ok s5 where pr: "prepare_task L p host base b False False True s3 = (ok, s5)"
        by (cases "prepare_task L p host base b False False True s3")
      note st = launch_steps [OF i0 L e host n(1) n0 b f [unfolded Some] refl refl a False refl refl pr]
      obtain r s7 where ld: "load_image fmt n p s5 = (r, s7)" by (cases "load_image fmt n p s5")
      define s9 where "s9 = label_task p (the r) nm fname (default_origin fmt) s7"
      obtain ok' t where go: "start_task L p (if nm \<noteq> [] then nm else ascii ''app'') fname s9 = (ok', t)"
        by (cases "start_task L p (if nm \<noteq> [] then nm else ascii ''app'') fname s9")
      have "app_inv L T (shell_apps_release_task p s7) \<and> app_inv L T t" if ok
        using st(2) [OF that refl refl ld, of s7 s9 "the r" nm fname "default_origin fmt"] go by (simp add: s9_def)
      then show ?thesis
        using f Some a False pr ld go st(1)
        by (cases ok; cases r; cases ok') (simp_all add: launch_foreground_def Let_def s0_def s9_def)
    qed
  qed
qed

end
