(* ===== verification/App_Switch.thy ===== *)
theory App_Switch
  imports App_Begin
begin

text \<open>Switches between threads and the ends of threads keep the invariant of the application layer.\<close>

unbundle bit_operations_syntax

section \<open>Switches\<close>

text \<open>No thread starts or ends, and no thread changes its address space.\<close>

definition same_spaces :: "'a sched_state_scheme \<Rightarrow> 'a sched_state_scheme \<Rightarrow> bool" where
  "same_spaces s t \<longleftrightarrow> sched_state.more t = sched_state.more s \<and> m_mem t = m_mem s
     \<and> (\<forall>p < 8. (live (st t p) \<longleftrightarrow> live (st s p)) \<and> pdir t p = pdir s p)"

text \<open>The current thread lives and runs in its own address space.\<close>

definition settled :: "'a sched_state_scheme \<Rightarrow> bool" where
  "settled s \<longleftrightarrow> m_cr3 s = pdir s (cur s) \<and> live (st s (cur s))"

lemma same_spaces_trans: "same_spaces s t \<Longrightarrow> same_spaces t u \<Longrightarrow> same_spaces s u"
  by (simp add: same_spaces_def)

lemma same_spaces_inv: "app_inv L T s \<Longrightarrow> same_spaces s t \<Longrightarrow> sched_inv t \<Longrightarrow> settled t \<Longrightarrow> app_inv L T t"
  by (rule sched_only_inv) (simp_all add: same_spaces_def settled_def)

lemma same_spaces_upd:
  assumes "length (g_slots s) = 8" "live (p_state (f (slot_at i s))) \<longleftrightarrow> live (st s i)"
    "page_directory (p_context (f (slot_at i s))) = pdir s i"
  shows "same_spaces s (upd_slot i f s)"
  using assms by (simp add: same_spaces_def frame_simps)

lemma pdir_nz: "app_inv L T s \<Longrightarrow> app_layout L \<Longrightarrow> p < 8 \<Longrightarrow> pdir s p \<noteq> 0"
  using threads_invD(1) [OF app_invD(3)] tdir_nz kdir_nz by metis

lemma activate_settled:
  assumes len: "length (g_slots s) = 8" and n: "n < 8" and lv: "live (st s n)" and nz: "pdir s n \<noteq> 0"
  shows "same_spaces s (snd (sched_activate_slot L n s))" "settled (snd (sched_activate_slot L n s))"
proof -
  have l: "n < length (g_slots s)" using len n by simp
  show "same_spaces s (snd (sched_activate_slot L n s))"
    unfolding same_spaces_def using activate_more [of L n s] lv len n by (simp add: activate_slot_state [OF l] live_def)
  show "settled (snd (sched_activate_slot L n s))"
    using nz len n by (simp add: settled_def activate_slot_state [OF l] live_def)
qed

lemma switch_settled:
  assumes inv: "sched_inv s" and f: "f \<noteq> 0" and nz: "\<And>p. p < 8 \<Longrightarrow> pdir s p \<noteq> 0"
    and now: "settled s \<or> cur s \<noteq> 1 \<and> st s (cur s) = PROCESS_TERMINATED"
  shows "same_spaces s (snd (sched_switch_from_frame L f s))" "settled (snd (sched_switch_from_frame L f s))"
proof -
  note i = sched_invD [OF inv]
  let ?c = "cur s" and ?s1 = "upd_slot (cur s) (save_frame f) s"
  obtain n where n: "n < 8" "sched_pick_next s = Some n" "n \<noteq> ?c \<longrightarrow> st s n = PROCESS_READY"
    "n = ?c \<longrightarrow> st s n = PROCESS_RUNNING \<or> n = 1" using pick_next_inv [OF inv] by blast
  have p1: "sched_pick_next ?s1 = Some n" using n(2) pick_next_cong [of ?s1 s] by simp
  have sp1: "same_spaces s ?s1" by (rule same_spaces_upd [OF i(1)]) simp_all
  have "same_spaces s (snd (sched_switch_from_frame L f s)) \<and> settled (snd (sched_switch_from_frame L f s))"
  proof (cases "n = ?c")
    case True
    let ?t = "if st ?s1 ?c = PROCESS_READY then upd_slot ?c (\<lambda>p. p\<lparr>p_state := PROCESS_RUNNING\<rparr>) ?s1 else ?s1"
    have eq: "sched_switch_from_frame L f s = (0, ?t)"
      using i True p1 by (simp add: sched_switch_from_frame_def Let_def del: slot_at_upd)
    have "settled s" using now n(4) True by auto
    then have "settled ?t" using i by (simp add: settled_def live_def)
    moreover have "same_spaces s ?t"
    proof (cases "st ?s1 ?c = PROCESS_READY")
      case ready: True
      then have "same_spaces ?s1 (upd_slot ?c (\<lambda>p. p\<lparr>p_state := PROCESS_RUNNING\<rparr>) ?s1)"
        using i by (intro same_spaces_upd) (simp_all add: live_def)
      then show ?thesis using same_spaces_trans [OF sp1] ready by simp
    qed (use sp1 in simp)
    ultimately show ?thesis unfolding eq by simp
  next
    case False
    define s2 where "s2 = (if st ?s1 ?c = PROCESS_RUNNING then upd_slot ?c (\<lambda>p. p\<lparr>p_state := PROCESS_READY\<rparr>) ?s1 else ?s1)"
    have ne: "int n \<noteq> g_current s" using False i(4) by auto
    have eq: "sched_switch_from_frame L f s = sched_activate_slot L n s2"
      using i(3) ne p1 by (simp add: sched_switch_from_frame_def Let_def s2_def del: slot_at_upd)
    have len: "length (g_slots s2) = 8" using i(1) by (simp add: s2_def)
    have sp2: "same_spaces s s2"
    proof (cases "st ?s1 ?c = PROCESS_RUNNING")
      case run: True
      then have "same_spaces ?s1 (upd_slot ?c (\<lambda>p. p\<lparr>p_state := PROCESS_READY\<rparr>) ?s1)"
        using i by (intro same_spaces_upd) (simp_all add: live_def)
      then show ?thesis using same_spaces_trans [OF sp1] run by (simp add: s2_def)
    qed (use sp1 in \<open>simp add: s2_def\<close>)
    have "slot_at n s2 = slot_at n s" using False by (simp add: s2_def)
    then have "live (st s2 n)" "pdir s2 n \<noteq> 0" using n(1,3) False nz by (simp_all add: live_def)
    note a = activate_settled [OF len n(1) this, of L]
    show ?thesis unfolding eq using same_spaces_trans [OF sp2 a(1)] a(2) by blast
  qed
  then show "same_spaces s (snd (sched_switch_from_frame L f s))" "settled (snd (sched_switch_from_frame L f s))" by blast+
qed

lemma app_settled: "app_inv L T s \<Longrightarrow> settled s"
  using app_invD(9,10) [of L T s] by (simp add: settled_def)

lemma switch_inv:
  assumes inv: "app_inv L T s" and L: "app_layout L" and f: "f \<noteq> 0"
  shows "app_inv L T (snd (sched_switch_from_frame L' f s))"
proof (rule same_spaces_inv [OF inv])
  note sw = switch_settled [OF app_invD(5) [OF inv] f pdir_nz [OF inv L] disjI1 [OF app_settled [OF inv]], of L']
  show "same_spaces s (snd (sched_switch_from_frame L' f s))" "settled (snd (sched_switch_from_frame L' f s))" by (rule sw, assumption?)+
  show "sched_inv (snd (sched_switch_from_frame L' f s))" by (rule switch_from_frame_inv [OF app_invD(5) [OF inv] f])
qed

lemma yield_inv: "app_inv L T s \<Longrightarrow> app_layout L \<Longrightarrow> f \<noteq> 0 \<Longrightarrow> app_inv L T (snd (scheduler_on_yield L' f s))"
  by (simp add: on_yield_eq [OF app_invD(5)] switch_inv)

text \<open>A change of the slot of a thread that leaves its life and its address space.\<close>

lemma upd_slot_inv:
  assumes inv: "app_inv L T s" and k: "sched_inv (upd_slot i f s)"
    and "live (p_state (f (slot_at i s))) \<longleftrightarrow> live (st s i)" "page_directory (p_context (f (slot_at i s))) = pdir s i"
  shows "app_inv L T (upd_slot i f s)"
  using assms sched_invD(1) [OF app_invD(5) [OF inv]] app_settled [OF inv]
  by (intro same_spaces_inv [OF inv same_spaces_upd k]) (auto simp: settled_def)

lemma block_inv:
  assumes "app_inv L T s" "cur s \<noteq> 1" shows "app_inv L T (sleep_block ticks s)"
  using assms app_settled [OF assms(1)] sleep_block_inv [OF app_invD(5) [OF assms(1)] assms(2), of ticks]
  unfolding sleep_block_def by (intro upd_slot_inv) (auto simp: settled_def live_def)

lemma tick_cr3: "m_cr3 (tick_prefix s) = m_cr3 s"
proof -
  have "m_cr3 (fold (\<lambda>i. upd_slot i g) is u) = m_cr3 u" for g "is" and u :: "'a sched_state_scheme"
    by (induction "is" arbitrary: u) simp_all
  then show ?thesis by (simp add: tick_prefix_def Let_def sched_wake_sleepers_def timer_on_tick_def)
qed

lemma tick_inv:
  assumes inv: "app_inv L T s" and L: "app_layout L" and f: "f \<noteq> 0"
  shows "app_inv L T (snd (scheduler_on_timer_tick L' f s))"
proof -
  note sched = app_invD(5) [OF inv]
  have i: "app_inv L T ((tick_prefix s)\<lparr>g_slice_ticks_left := q\<rparr>)" (is "app_inv L T ?t") for q
  proof (rule same_spaces_inv [OF inv])
    have sl: "live (st ?t p) \<longleftrightarrow> live (st s p)" "pdir ?t p = pdir s p" if "p < 8" for p
      using that by (simp_all add: tick_prefix_slot [OF sched] wake_process_def live_def)
    have "sched_state.more ?t = sched_state.more s"
      by (simp add: tick_prefix_def Let_def frame_simps)
    then show "same_spaces s ?t" using sl by (simp add: same_spaces_def)
    show "sched_inv ?t" by (rule slice_inv [OF tick_prefix_inv [OF sched]])
    show "settled ?t" using sl [OF sched_invD(5) [OF sched]] app_settled [OF inv] tick_cr3 [of s] by (simp add: settled_def)
  qed
  obtain q where "scheduler_on_timer_tick L' f s = (0, (tick_prefix s)\<lparr>g_slice_ticks_left := q\<rparr>)
    \<or> scheduler_on_timer_tick L' f s = sched_switch_from_frame L' f ((tick_prefix s)\<lparr>g_slice_ticks_left := q\<rparr>)"
    using timer_tick_cases [OF sched f] by blast
  then show ?thesis using i [of q] switch_inv [OF i L f] by auto
qed

end
