(* ===== verification/App_End.thy ===== *)
theory App_End
  imports App_Switch
begin

text \<open>The ends of tasks: exit, fault and stop keep the invariant of the application layer, because a group dies as a whole
  and the memory of a task is released when its threads are dead.\<close>

unbundle bit_operations_syntax

section \<open>The members of a group\<close>

definition member :: "'a app_state_scheme \<Rightarrow> int \<Rightarrow> nat \<Rightarrow> bool" where
  "member s leader p \<longleftrightarrow> 3 \<le> p \<and> p < 8 \<and> in_use (task_at p s) \<and> leader_pid (task_at p s) = leader"

lemma group_leader: "task_ok p t \<Longrightarrow> shell_apps_group_leader_pid t = leader_pid t"
  by (simp add: shell_apps_group_leader_pid_def APP_SLOT_FIRST_PID_def task_ok_def)

lemma terminate_slot:
  assumes inv: "sched_inv s" and q: "3 \<le> q" "q < 8"
  shows "slot_at p (snd (scheduler_terminate_process L (int q) s)) =
      (if p = q \<and> live (st s q) then sched_mark_terminated L (slot_at q s) else slot_at p s)"
    "g_current (snd (scheduler_terminate_process L (int q) s)) = g_current s"
    "m_cr3 (snd (scheduler_terminate_process L (int q) s)) = m_cr3 s"
    "m_mem (snd (scheduler_terminate_process L (int q) s)) = m_mem s"
  using sched_invD(1,2) [OF inv] q by (auto simp: scheduler_terminate_process_def sched_consts live_def)

text \<open>Everything but the slots of the members stays.\<close>

lemma members_effect:
  assumes inv: "sched_inv s" and tasks: "tasks_inv s" and ps: "distinct ps" "set ps \<subseteq> {3..<8}"
    and u_def: "u = fold (release_member L leader skip True) ps s"
  shows "sched_inv u" "sched_state.more u = sched_state.more s" "m_mem u = m_mem s" "m_cr3 u = m_cr3 s" "g_current u = g_current s"
    "slot_at p u = (if p \<in> set ps \<and> member s leader p \<and> int p \<noteq> skip \<and> live (st s p)
       then sched_mark_terminated L (slot_at p s) else slot_at p s)"
proof -
  have "sched_inv (fold (release_member L leader skip True) ps s) \<and> sched_state.more (fold (release_member L leader skip True) ps s) = sched_state.more s
    \<and> m_mem (fold (release_member L leader skip True) ps s) = m_mem s \<and> m_cr3 (fold (release_member L leader skip True) ps s) = m_cr3 s
    \<and> g_current (fold (release_member L leader skip True) ps s) = g_current s
    \<and> slot_at p (fold (release_member L leader skip True) ps s) = (if p \<in> set ps \<and> member s leader p \<and> int p \<noteq> skip \<and> live (st s p)
       then sched_mark_terminated L (slot_at p s) else slot_at p s)"
    using inv tasks ps
  proof (induction ps arbitrary: s)
    case (Cons q ps)
    have q: "3 \<le> q" "q < 8" using Cons.prems(4) by auto
    let ?r = "release_member L leader skip True q s"
    have ok: "in_use (task_at q s) \<Longrightarrow> task_ok q (task_at q s)" using tasks_invD(1) [OF Cons.prems(2) q(2)] by blast
    have eq: "?r = (if member s leader q \<and> int q \<noteq> skip then snd (scheduler_terminate_process L (int q) s) else s)"
    proof (cases "in_use (task_at q s)")
      case True
      have "t_pid (task_at q s) = int q" "shell_apps_group_leader_pid (task_at q s) = leader_pid (task_at q s)"
        using ok [OF True] by (rule task_okD, rule group_leader)
      then show ?thesis using True q by (simp add: release_member_def Let_def member_def)
    qed (simp add: release_member_def member_def)
    note ts = terminate_slot [OF Cons.prems(1) q, where L = L]
    have inv': "sched_inv ?r" using Cons.prems(1) by (simp add: eq terminate_inv)
    have m: "sched_state.more ?r = sched_state.more s" "m_mem ?r = m_mem s" "m_cr3 ?r = m_cr3 s" "g_current ?r = g_current s"
      using ts(2-4) by (simp_all add: eq terminate_more)
    have ta: "task_at x ?r = task_at x s" for x using more_app(1) [OF m(1)] by (simp add: task_at_def)
    have tasks': "tasks_inv ?r" using Cons.prems(2) more_app(1) [OF m(1)] by (simp add: tasks_inv_def ta)
    have me: "member ?r leader x = member s leader x" for x by (simp add: member_def ta)
    have "slot_at p ?r = (if p = q \<and> member s leader p \<and> int p \<noteq> skip \<and> live (st s p)
       then sched_mark_terminated L (slot_at p s) else slot_at p s)" using ts(1) [of p] by (auto simp: eq)
    then show ?case using Cons.IH [OF inv' tasks'] Cons.prems(3,4) m me by (cases "p = q") auto
  qed simp
  then show "sched_inv u" "sched_state.more u = sched_state.more s" "m_mem u = m_mem s" "m_cr3 u = m_cr3 s" "g_current u = g_current s"
    "slot_at p u = (if p \<in> set ps \<and> member s leader p \<and> int p \<noteq> skip \<and> live (st s p)
       then sched_mark_terminated L (slot_at p s) else slot_at p s)"
    unfolding u_def by blast+
qed

lemma group_effect:
  assumes inv: "sched_inv s" and tasks: "tasks_inv s"
    and u_def: "u = shell_apps_release_group_members L leader skip True s"
  shows "sched_inv u" "sched_state.more u = sched_state.more s" "m_mem u = m_mem s" "m_cr3 u = m_cr3 s" "g_current u = g_current s"
    "slot_at p u = (if member s leader p \<and> int p \<noteq> skip \<and> live (st s p) then sched_mark_terminated L (slot_at p s) else slot_at p s)"
proof -
  have ps: "distinct APP_PIDS" "set APP_PIDS \<subseteq> {3..<8}" by (simp_all add: APP_PIDS_def)
  note m = members_effect [OF inv tasks ps u_def [unfolded shell_apps_release_group_members_def]]
  show "sched_inv u" "sched_state.more u = sched_state.more s" "m_mem u = m_mem s" "m_cr3 u = m_cr3 s" "g_current u = g_current s"
    by (rule m)+
  show "slot_at p u = (if member s leader p \<and> int p \<noteq> skip \<and> live (st s p) then sched_mark_terminated L (slot_at p s) else slot_at p s)"
    unfolding m(6) by (auto simp: member_def APP_PIDS_def)
qed

lemma terminated_fields [simp]:
  "p_state (sched_mark_terminated L p) = PROCESS_TERMINATED" "page_directory (p_context (sched_mark_terminated L p)) = kdir L"
  by (simp_all add: sched_mark_terminated_def paging_get_kernel_directory_def)

text \<open>A group is closed: whoever runs in the memory of a member is a member.\<close>

lemma group_closed:
  assumes inv: "app_inv L T s" and p: "p < 8" "app_thread s p" and m: "member s leader (nat (leader_pid (task_at p s)))"
  shows "member s leader p"
proof -
  let ?l = "nat (leader_pid (task_at p s))"
  note i = app_invD [OF inv]
  have o: "owner_ok s p" by (rule threads_invD(2) [OF i(3) p])
  then have ok: "3 \<le> p" "task_ok p (task_at p s)" "task_ok ?l (task_at ?l s)" "owns_app_memory (task_at ?l s)"
    using tasks_invD(1) [OF i(1) p(1)] tasks_invD(1) [OF i(1), of ?l] m by (auto simp: owner_ok_def member_def Let_def)
  then have "leader_pid (task_at ?l s) = leader_pid (task_at p s)" using ok(2) by (simp add: task_ok_def)
  then show ?thesis using m o ok p(1) by (simp add: member_def owner_ok_def)
qed

section \<open>The end of the current thread\<close>

definition ended :: "'l link_map_scheme \<Rightarrow> 'a sched_state_scheme \<Rightarrow> 'a sched_state_scheme \<Rightarrow> bool" where
  "ended L s t \<longleftrightarrow> sched_inv t \<and> sched_state.more t = sched_state.more s \<and> m_mem t = m_mem s \<and> settled t
     \<and> \<not> live (st t (cur s)) \<and> pdir t (cur s) = kdir L
     \<and> (\<forall>p < 8. p \<noteq> cur s \<longrightarrow> (live (st t p) \<longleftrightarrow> live (st s p)) \<and> pdir t p = pdir s p)"

lemma ended_via:
  assumes "length (g_slots s) = 8" "cur s < 8" and u: "u = upd_slot (cur s) (sched_mark_terminated L) s" and t: "same_spaces u t" "sched_inv t" "settled t"
  shows "ended L s t"
  using t assms(1,2) by (simp add: ended_def same_spaces_def u frame_simps) (simp add: live_def)

lemma exit_irq_ended:
  assumes inv: "sched_inv s" and f: "f \<noteq> 0" and c: "cur s \<noteq> 1" and nz: "\<And>p. p < 8 \<Longrightarrow> pdir s p \<noteq> 0"
  shows "ended L s (snd (scheduler_exit_current_from_interrupt L f s))"
proof -
  note i = sched_invD [OF inv]
  define s1 where "s1 = upd_slot (cur s) (save_frame f) s"
  have inv1: "sched_inv s1" unfolding s1_def by (rule sched_inv_upd [OF inv i(5)]) (use i f in \<open>auto simp: keeps_slot_def\<close>)
  define s2 where "s2 = upd_slot (cur s) (sched_mark_terminated L) s1"
  have inv2: "sched_inv s2" unfolding s2_def by (rule sched_inv_upd [OF inv1 i(5)]) (rule mark_terminated_keeps [OF c])
  have sl: "slot_at (cur s) s2 = sched_mark_terminated L (save_frame f (slot_at (cur s) s))"
    "g_current s2 = g_current s" "length (g_slots s2) = 8" using i(1,5) by (simp_all add: s2_def s1_def)
  have other: "slot_at p s2 = slot_at p s" if "p \<noteq> cur s" for p using that by (simp add: s1_def s2_def)
  obtain n where n: "n < 8" "sched_pick_next s2 = Some n" "n \<noteq> cur s" "st s2 n = PROCESS_READY"
    using exit_pick_next [OF inv2] c sl by auto
  have t: "scheduler_exit_current_from_interrupt L f s = sched_activate_slot L n s2"
    using i(2,3) f n(2) by (simp add: scheduler_exit_current_from_interrupt_def Let_def s1_def s2_def)
  have "live (st s2 n)" "pdir s2 n \<noteq> 0" using n nz other by (simp_all add: live_def)
  note a = activate_settled [OF sl(3) n(1) this, of L]
  have "sched_inv (snd (scheduler_exit_current_from_interrupt L f s))"
    using exit_from_interrupt_ok [OF inv f c, of L] by auto
  moreover have "sched_state.more s2 = sched_state.more s" "m_mem s2 = m_mem s" by (simp_all add: s1_def s2_def frame_simps)
  ultimately show ?thesis
    using a other sl n(3) i(5) unfolding t same_spaces_def ended_def by (simp add: live_def)
qed

lemma exit_task_ended:
  assumes inv: "sched_inv s" and f: "f \<noteq> 0" and c: "cur s \<noteq> 1" and L: "app_layout L" and nz: "\<And>p. p < 8 \<Longrightarrow> pdir s p \<noteq> 0"
  shows "ended L s (snd (sched_exit_current L f s))"
proof -
  note i = sched_invD [OF inv]
  define s1 where "s1 = upd_slot (cur s) (sched_mark_terminated L) s"
  have inv1: "sched_inv s1" unfolding s1_def by (rule sched_inv_upd [OF inv i(5)]) (rule mark_terminated_keeps [OF c])
  have "pdir s1 p \<noteq> 0" if "p < 8" for p using nz [OF that] kdir_nz [OF L] by (simp add: s1_def)
  moreover have "cur s1 \<noteq> 1 \<and> st s1 (cur s1) = PROCESS_TERMINATED" using c i by (simp add: s1_def)
  ultimately have w: "same_spaces s1 (snd (sched_switch_from_frame L f s1))" "settled (snd (sched_switch_from_frame L f s1))"
    using switch_settled [OF inv1 f, of L] by blast+
  obtain n t where "sched_exit_current L f s = (Some (fr s n), t)" "switches L f n s1 (fr s n, t)"
    using exit_current_ok [OF inv f c s1_def] by blast
  moreover have "snd (sched_exit_current L f s) = snd (sched_switch_from_frame L f s1)" if "fst (sched_switch_from_frame L f s1) \<noteq> 0"
    using i(3) that by (simp add: sched_exit_current_def Let_def yield_eq [OF inv1 f] split_beta flip: s1_def)
  moreover have "fst (sched_exit_current L f s) = None" if "fst (sched_switch_from_frame L f s1) = 0"
    using i(3) that by (simp add: sched_exit_current_def Let_def yield_eq [OF inv1 f] split_beta flip: s1_def)
  ultimately have "snd (sched_exit_current L f s) = snd (sched_switch_from_frame L f s1)" by fastforce
  then show ?thesis using ended_via [OF i(1,5) s1_def w(1) switch_from_frame_inv [OF inv1 f] w(2)] by simp
qed

text \<open>The current thread ends after its group, or alone when nobody depends on it.\<close>

lemma ended_group_inv:
  assumes inv: "app_inv L T s" and c: "member s leader (cur s)"
    and e: "ended L (shell_apps_release_group_members L' leader (int (cur s)) True s) t" and L': "kdir L' = kdir L"
  shows "app_inv L T t"
proof (rule kill_inv [OF inv, where K = "Collect (member s leader)"])
  note i = app_invD [OF inv]
  note g = group_effect [OF i(5,1) refl, where L = L' and leader = leader and skip = "int (cur s)"]
  note e = e [unfolded ended_def g(5)]
  show "g_app_tasks t = g_app_tasks s" "g_app_phys_page_used t = g_app_phys_page_used s"
    using more_app [of t s] e g(2) by simp_all
  show "m_mem t = m_mem s" "sched_inv t" "m_cr3 t = pdir t (cur t)" "live (st t (cur t))" using e g(3) by (simp_all add: settled_def)
  show "\<not> live (st t p) \<and> (pdir t p = kdir L \<or> pdir t p = pdir s p)" if "p < 8" "p \<in> Collect (member s leader)" for p
    using e that g(6) [of p] L' by (cases "p = cur s") (auto simp: live_def)
  show "(live (st t p) \<longleftrightarrow> live (st s p)) \<and> pdir t p = pdir s p" if "p < 8" "p \<notin> Collect (member s leader)" for p
    using e that g(6) [of p] c by (cases "p = cur s") auto
  show "p \<in> Collect (member s leader)" if "p < 8" "app_thread s p" "nat (leader_pid (task_at p s)) \<in> Collect (member s leader)" for p
    using group_closed [OF inv that(1,2)] that(3) by blast
qed

lemma ended_alone_inv:
  assumes inv: "app_inv L T s" and c: "\<not> (in_use (task_at (cur s) s) \<and> leader_pid (task_at (cur s) s) = int (cur s))"
    and e: "ended L s t"
  shows "app_inv L T t"
proof (rule kill_inv [OF inv, where K = "{cur s}"])
  note i = app_invD [OF inv] and e = e [unfolded ended_def]
  show "g_app_tasks t = g_app_tasks s" "g_app_phys_page_used t = g_app_phys_page_used s" using more_app [of t s] e by simp_all
  show "m_mem t = m_mem s" "sched_inv t" "m_cr3 t = pdir t (cur t)" "live (st t (cur t))" using e by (simp_all add: settled_def)
  show "\<not> live (st t p) \<and> (pdir t p = kdir L \<or> pdir t p = pdir s p)" if "p < 8" "p \<in> {cur s}" for p using e that by simp
  show "(live (st t p) \<longleftrightarrow> live (st s p)) \<and> pdir t p = pdir s p" if "p < 8" "p \<notin> {cur s}" for p using e that by simp
  show "p \<in> {cur s}" if "p < 8" "app_thread s p" "nat (leader_pid (task_at p s)) \<in> {cur s}" for p
  proof -
    have "in_use (task_at (cur s) s)" "owns_app_memory (task_at (cur s) s)"
      using threads_invD(2) [OF i(3) that(1,2)] that(3) by (auto simp: owner_ok_def Let_def)
    then show ?thesis using c tasks_invD(1) [OF i(1) sched_invD(5) [OF i(5)]] task_okD(6) by blast
  qed
qed

end
