(* ===== verification/App_User.thy ===== *)
theory App_User
  imports App_End
begin

text \<open>What a task sees through its page directory, what it can change in user mode, and what the kernel writes into its slot
  before it enters user mode.\<close>

unbundle bit_operations_syntax

section \<open>Address spaces\<close>

lemma virt_base_index: "pd_index APP_LOAD_VIRT_BASE = 4" "pt_index APP_LOAD_VIRT_BASE = 0" "unat APP_LOAD_VIRT_BASE = 0x1000000"
  by (simp_all add: APP_LOAD_VIRT_BASE_def pd_index_def pt_index_def)

text \<open>The cells of a task directory decide every translation.\<close>

lemma dir_cells_translate:
  assumes d: "dir_cells L mem p base n" and p: "p < 8" and al: "unat base mod 4096 = 0" and fits: "unat base + 4096 * n \<le> 4294967296" "n \<le> 1024"
  shows "translate mem (task_page_directory p) va =
    (if pd_index va = 4 then app_view base APP_LOAD_VIRT_BASE n va else translate mem (lm_page_directory L) va)"
proof (cases "pd_index va = 4")
  case False
  have "mem (task_page_directory p + 4 * pd_index va) = mem (lm_page_directory L + 4 * pd_index va)"
    using d False pd_index_less [of va] by (simp add: dir_cells_def)
  then show ?thesis using False by (simp add: translate_def walk_def)
next
  case True
  let ?e = "of_nat (task_user_pt p) OR PAGE_PRESENT OR PAGE_RW OR PAGE_USER :: u32"
  have u: "unat (of_nat (task_user_pt p) :: u32) = task_user_pt p" using task_tables_range [OF p] by (intro unat_of_nat32) linarith
  have "mem (task_page_directory p + 4 * 4) = ?e"
    using d spec [where x = 4 and P = "\<lambda>j. j < 1024 \<longrightarrow> mem (task_page_directory p + 4 * j) =
      (if j = 4 then of_nat (task_user_pt p) OR APP_FLAGS else mem (lm_page_directory L + 4 * j))"] by (simp add: dir_cells_def APP_FLAGS_def or.assoc)
  then have pde: "mem (task_page_directory p + 4 * pd_index va) = ?e" unfolding True .
  have flags: "frame_of ?e = task_user_pt p" "bit ?e 0" "bit ?e 1" "bit ?e 2"
    using user_flags [OF aligned_word [OF tdir_aligned(2) [of p]] refl] u by simp_all
  have va4: "page_aligned (unat APP_LOAD_VIRT_BASE)" by (simp add: virt_base_index page_aligned_def)
  have sc: "pd_index va = pd_index APP_LOAD_VIRT_BASE" "pt_index APP_LOAD_VIRT_BASE + n \<le> 1024" using True fits(2) by (simp_all add: virt_base_index)
  note win = window_index [OF sc(1) va4 sc(2)]
  show ?thesis
  proof (cases "pt_index va < n")
    case inside: True
    have a: "base AND 0xFFF = 0" using al unfolding aligned_word_iff page_aligned_def .
    note x = app_page_word [OF a fits(1) inside]
    let ?pte = "(base + of_nat (pt_index va) * 0x1000) OR PAGE_PRESENT OR PAGE_RW OR PAGE_USER"
    have pte: "mem (task_user_pt p + 4 * pt_index va) = ?pte" "frame_of ?pte = unat base + 4096 * pt_index va" "bit ?pte 0" "bit ?pte 1" "bit ?pte 2"
      using d inside pt_index_less [of va] user_flags [OF x(2) refl] unfolding x(1) by (simp_all add: dir_cells_def APP_FLAGS_def or.assoc)
    have w: "unat va - unat APP_LOAD_VIRT_BASE = pt_index va * 4096 + unat va mod 4096" using win(2) by (simp add: virt_base_index(2))
    have "app_view base APP_LOAD_VIRT_BASE n va = Some \<lparr>pv_phys = unat base + (pt_index va * 4096 + unat va mod 4096), pv_user = True, pv_write = True\<rparr>"
      using win(1) inside w by (simp add: app_view_def virt_base_index(2))
    moreover have "translate mem (task_page_directory p) va =
        Some \<lparr>pv_phys = unat base + (pt_index va * 4096 + unat va mod 4096), pv_user = True, pv_write = True\<rparr>"
      by (simp add: translate_def walk_def pde flags pte Let_def mult.commute [of 4096] del: One_nat_def)
    ultimately show ?thesis using True by simp
  next
    case False
    then have "mem (task_user_pt p + 4 * pt_index va) = 0" using d pt_index_less [of va] by (simp add: dir_cells_def)
    moreover have "app_view base APP_LOAD_VIRT_BASE n va = None" using False win(1) by (simp add: app_view_def virt_base_index(2))
    moreover have "translate mem (task_page_directory p) va = None" if "mem (task_user_pt p + 4 * pt_index va) = 0"
      by (simp add: translate_def walk_def pde flags that Let_def)
    ultimately show ?thesis using True by simp
  qed
qed

text \<open>In every address space, a user page is a page of the slot of the task; kernel threads have none.\<close>

lemma task_view:
  assumes inv: "app_inv L T s" and p: "p < 8" "app_thread s p"
  shows "translate (m_mem s) (task_page_directory p) va =
    (if pd_index va = 4 then app_view (app_phys_base (task_at p s)) APP_LOAD_VIRT_BASE (unat (app_slot_bytes (task_at p s)) div 4096) va
     else translate (m_mem s) (lm_page_directory L) va)"
proof -
  note i = app_invD [OF inv]
  have "task_ok p (task_at p s)" using threads_invD(2) [OF i(3) p] tasks_invD(1) [OF i(1) p(1)] by (auto simp: owner_ok_def)
  then obtain k n where r: "arena_range (app_phys_base (task_at p s)) (app_slot_bytes (task_at p s)) k n" and b: "slot_ok (app_slot_bytes (task_at p s))"
    by (auto simp: task_ok_def)
  let ?n = "unat (app_slot_bytes (task_at p s)) div 4096"
  have "unat (app_slot_bytes (task_at p s)) = 4096 * ?n" using slot_pages [OF b] by simp
  then show ?thesis using dir_cells_translate [OF dirs_invD [OF i(4) p] p(1), of va] arena_range_bounds [OF r] b
    by (simp add: slot_ok_def)
qed

lemma user_view:
  assumes inv: "app_inv L T s" and p: "p < 8" "app_thread s p" and v: "translate (m_mem s) (task_page_directory p) va = Some v" "pv_user v"
  shows "0x1000000 \<le> unat va" "unat va < 0x1000000 + unat (app_slot_bytes (task_at p s))" "pv_write v"
    "pv_phys v = unat (app_phys_base (task_at p s)) + (unat va - 0x1000000)"
proof -
  note i = app_invD [OF inv]
  have "task_ok p (task_at p s)" using threads_invD(2) [OF i(3) p] tasks_invD(1) [OF i(1) p(1)] by (auto simp: owner_ok_def)
  then have b: "4096 * (unat (app_slot_bytes (task_at p s)) div 4096) = unat (app_slot_bytes (task_at p s))" using slot_pages by (simp add: task_ok_def)
  have "pd_index va = 4" using v kmap_translate [OF i(8), of va v] task_view [OF inv p, of va] by (auto split: if_splits)
  then have "app_view (app_phys_base (task_at p s)) APP_LOAD_VIRT_BASE (unat (app_slot_bytes (task_at p s)) div 4096) va = Some v"
    using v(1) task_view [OF inv p, of va] by simp
  then show "0x1000000 \<le> unat va" "unat va < 0x1000000 + unat (app_slot_bytes (task_at p s))" "pv_write v"
    "pv_phys v = unat (app_phys_base (task_at p s)) + (unat va - 0x1000000)"
    using b by (auto simp: app_view_def virt_base_index(3) split: if_splits)
qed

section \<open>Stores in user mode\<close>

text \<open>The cell that a store to \<open>va\<close> in user mode changes; \<open>None\<close> is a page fault.\<close>

definition user_cell :: "'a machine_scheme \<Rightarrow> u32 \<Rightarrow> nat option" where
  "user_cell s va = (case translate (m_mem s) (unat (m_cr3 s)) va of
     None \<Rightarrow> None
   | Some v \<Rightarrow> if pv_user v \<and> pv_write v then Some (pv_phys v - pv_phys v mod 4) else None)"

lemma cell_floor: "4 * q \<le> 4 * q + x - (4 * q + x) mod (4 :: nat)"
  using mod_less_eq_dividend [of x 4] by simp

lemma user_cell_slot:
  assumes inv: "app_inv L T s" and L: "app_layout L" and a: "user_cell s va = Some a"
  shows "app_thread s (cur s)" "unat (app_phys_base (task_at (cur s) s)) \<le> a" "a < 0xB00000" "0x700000 \<le> a"
    "a < unat (app_phys_base (task_at (cur s) s)) + unat (app_slot_bytes (task_at (cur s) s))"
proof -
  note i = app_invD [OF inv]
  have c: "cur s < 8" by (rule sched_invD(5) [OF i(5)])
  obtain v where v: "translate (m_mem s) (unat (m_cr3 s)) va = Some v" "pv_user v" "a = pv_phys v - pv_phys v mod 4"
    using a by (auto simp: user_cell_def split: option.splits if_splits)
  have "m_cr3 s \<noteq> kdir L" using v(1,2) kmap_translate [OF i(8), of va v] kdir_unat [OF L] by auto
  then have t: "m_cr3 s = tdir (cur s)" using i(9) threads_invD(1) [OF i(3) c] by metis
  then show th: "app_thread s (cur s)" using i(9,10) by (simp add: app_thread_def)
  have ph: "pv_phys v = unat (app_phys_base (task_at (cur s) s)) + (unat va - 0x1000000)"
    "unat va < 0x1000000 + unat (app_slot_bytes (task_at (cur s) s))" "0x1000000 \<le> unat va"
    using user_view [OF inv c th, of va v] v(1,2) t tdir_unat [OF c] by simp_all
  have "task_ok (cur s) (task_at (cur s) s)" using threads_invD(2) [OF i(3) c th] tasks_invD(1) [OF i(1) c] by (auto simp: owner_ok_def)
  then obtain k n where "arena_range (app_phys_base (task_at (cur s) s)) (app_slot_bytes (task_at (cur s) s)) k n" by (auto simp: task_ok_def)
  note r = arena_range_bounds [OF this]
  have "unat (app_phys_base (task_at (cur s) s)) mod 4 = 0" by (rule mod4_of_page [OF r(3)])
  then obtain q where q: "unat (app_phys_base (task_at (cur s) s)) = 4 * q" using mult_div_mod_eq [of 4] by (metis add_0_right)
  show "unat (app_phys_base (task_at (cur s) s)) \<le> a" unfolding v(3) ph(1) q by (rule cell_floor)
  then show "0x700000 \<le> a" "a < 0xB00000"
    "a < unat (app_phys_base (task_at (cur s) s)) + unat (app_slot_bytes (task_at (cur s) s))" using v(3) ph r by linarith+
qed

lemma mem_inv:
  assumes inv: "app_inv L T s" and L: "app_layout L" and q: "calm {} (m_mem s) m"
  shows "app_inv L T (s\<lparr>m_mem := m\<rparr>)"
  by (rule calm_inv [OF inv L, where P = "{}"]) (use q in \<open>simp_all add: same_threads_def\<close>)

lemma user_store_inv:
  assumes "app_inv L T s" "app_layout L" "user_cell s va = Some a"
  shows "app_inv L T (s\<lparr>m_mem := (m_mem s)(a := w)\<rparr>)"
  using user_cell_slot(3,4) [OF assms] by (intro mem_inv [OF assms(1,2)] calm_cell) simp_all

section \<open>Entering user mode\<close>

lemma phys_addr:
  assumes ok: "task_ok p t" and va: "0x1000000 \<le> unat va" "unat va < 0x1000000 + unat (app_slot_bytes t)"
  shows "unat (shell_apps_phys_addr_for_virtual t va) = unat (app_phys_base t) + (unat va - 0x1000000)"
proof -
  obtain k n where r: "arena_range (app_phys_base t) (app_slot_bytes t) k n" and b: "slot_ok (app_slot_bytes t)"
    using ok by (auto simp: task_ok_def)
  note bd = arena_range_bounds [OF r]
  have lim: "unat (APP_LOAD_VIRT_BASE + app_slot_bytes t) = 0x1000000 + unat (app_slot_bytes t)"
    using b by (subst unat_add_lem [THEN iffD1]) (simp_all add: APP_LOAD_VIRT_BASE_def slot_ok_def)
  have off: "unat (va - APP_LOAD_VIRT_BASE) = unat va - 0x1000000"
    using va by (subst unat_sub) (simp_all add: APP_LOAD_VIRT_BASE_def word_le_nat_alt)
  have "unat (app_phys_base t + (va - APP_LOAD_VIRT_BASE)) = unat (app_phys_base t) + (unat va - 0x1000000)"
    using bd va off by (subst unat_add_lem [THEN iffD1]) simp_all
  moreover have "\<not> (va < APP_LOAD_VIRT_BASE \<or> va \<ge> APP_LOAD_VIRT_BASE + app_slot_bytes t)"
    using va lim by (simp add: word_less_nat_alt word_le_nat_alt virt_base_index(3))
  moreover have "\<not> (app_slot_bytes t = 0 \<or> app_slot_bytes t > APP_SLOT_MAX_SIZE)"
    using b bd(5) by (simp add: APP_SLOT_MAX_SIZE_def slot_ok_def word_less_nat_alt)
  ultimately show ?thesis using bd(4) by (simp add: shell_apps_phys_addr_for_virtual_def Let_def)
qed

lemma stack_top:
  assumes ok: "task_ok p t" and p: "3 \<le> p" "p < 8"
  shows "unat (shell_apps_user_stack_top_for_pid t (int p)) = 0x1000000 + unat (app_slot_bytes t) - 0x1000 - (p - 3) * 0x4000"
    "unat (shell_apps_runtime_block_virt t) = 0x1000000 + unat (app_slot_bytes t) - 0x1000"
proof -
  have b: "slot_ok (app_slot_bytes t)" using ok by (simp add: task_ok_def)
  then have rb: "unat (shell_apps_runtime_block_virt t) = 0x1000000 + unat (app_slot_bytes t) - 0x1000"
    using image_limit(2) by (simp add: shell_apps_runtime_block_virt_def)
  then show "unat (shell_apps_runtime_block_virt t) = 0x1000000 + unat (app_slot_bytes t) - 0x1000" .
  have nz: "shell_apps_runtime_block_virt t \<noteq> 0" using rb b by (auto simp: slot_ok_def)
  have off: "unat (of_int (int p - 3) * 0x4000 :: u32) = (p - 3) * 0x4000"
  proof -
    have "of_int (int p - 3) * 0x4000 = (of_nat ((p - 3) * 0x4000) :: u32)" using p by (simp add: of_nat_diff)
    then show ?thesis using p by (simp add: unat_of_nat32 del: of_nat_mult)
  qed
  have "unat (shell_apps_runtime_block_virt t - of_int (int p - 3) * 0x4000) = unat (shell_apps_runtime_block_virt t) - (p - 3) * 0x4000"
    using off rb b p by (subst unat_sub) (auto simp: word_le_nat_alt slot_ok_def)
  then show "unat (shell_apps_user_stack_top_for_pid t (int p)) = 0x1000000 + unat (app_slot_bytes t) - 0x1000 - (p - 3) * 0x4000"
    using p nz rb by (simp add: shell_apps_user_stack_top_for_pid_def APP_SLOT_FIRST_PID_def SCHEDULER_MAX_PROCESSES_def
        APP_THREAD_STACK_BYTES_def Let_def)
qed

text \<open>Setting up the runtime area and the stack succeeds for every task and writes into its slot only.\<close>

lemma calm_stub:
  assumes "0x600000 \<le> unat a" "unat a + length bs \<le> 0xB00000" "unat a mod 4 = 0" "calm P mem m" "length bs < 256"
  shows "calm P mem (copy_stub a bs m)"
proof -
  have "unat (of_nat (length bs) :: u32) = length bs" using assms(5) by (intro unat_of_nat32) simp
  then show ?thesis
    unfolding copy_stub_def shell_apps_mem_copy_def using assms by (intro calm_trans [OF assms(4)] calm_store_bytes) simp_all
qed

lemma stub_lengths: "length g_app_syscall_stub < 32" "length g_app_exit_stub < 32" "length g_app_thread_stub < 32"
  by (simp_all add: g_app_syscall_stub_def g_app_exit_stub_def g_app_thread_stub_def)

lemma unat_plus: "unat (a :: u32) + unat b < 4294967296 \<Longrightarrow> unat (a + b) = unat a + unat b"
  by (rule unat_add_lem [THEN iffD1]) simp

lemma unat_minus: "unat b \<le> unat a \<Longrightarrow> unat (a - b :: u32) = unat a - unat b"
  by (rule unat_sub) (simp add: word_le_nat_alt)

lemma runtime_block_ok:
  assumes ok: "task_ok p t" and p: "3 \<le> p" "p < 8"
  shows "\<exists>m. shell_apps_prepare_runtime_block t s = (True, s\<lparr>m_mem := m\<rparr>) \<and> calm P (m_mem s) m"
proof -
  obtain k n where r: "arena_range (app_phys_base t) (app_slot_bytes t) k n" and b: "slot_ok (app_slot_bytes t)"
    using ok by (auto simp: task_ok_def)
  note bd = arena_range_bounds [OF r]
  let ?rb = "shell_apps_runtime_block_virt t" and ?b = "unat (app_phys_base t)" and ?n = "unat (app_slot_bytes t)"
  let ?a = "shell_apps_phys_addr_for_virtual t ?rb"
  have n: "0x15000 \<le> ?n" "?n mod 4096 = 0" using b by (simp_all add: slot_ok_def)
  have rb: "unat ?rb = 0x1000000 + ?n - 0x1000" by (rule stack_top(2) [OF ok p])
  have a: "unat ?a = ?b + ?n - 0x1000" using phys_addr [OF ok, of ?rb] rb n by simp
  obtain x y where xy: "?b = 4096 * x" "?n = 4096 * y" using bd(3) n(2) mult_div_mod_eq [of 4096] by (metis add_0_right)
  have "unat ?a = 4 * (1024 * (x + y - 1))" using a n(1) unfolding xy by simp
  then have m4: "unat ?a mod 4 = 0" by simp
  have m4s: "(unat ?a + 32) mod 4 = 0" "(unat ?a + 64) mod 4 = 0" "(unat ?a + 96) mod 4 = 0" using m4 by presburger+
  have off: "unat (?a + APP_SYSCALL_STUB_OFFSET) = unat ?a + 32" "unat (?a + APP_EXIT_STUB_OFFSET) = unat ?a + 64"
    "unat (?a + APP_THREAD_STUB_OFFSET) = unat ?a + 96"
    using a bd by (subst unat_plus; simp add: app_consts)+
  have nz: "?rb \<noteq> 0" "?a \<noteq> 0" using rb a bd n by (auto simp: unat_eq_zero [symmetric] simp del: unat_eq_zero)
  have lo: "0x600000 \<le> unat ?a" "unat ?a + 0x1000 \<le> 0xB00000" using a n bd by linarith+
  have q: "calm P (m_mem s) (copy_stub (?a + APP_THREAD_STUB_OFFSET) g_app_thread_stub (copy_stub (?a + APP_EXIT_STUB_OFFSET) g_app_exit_stub
      (copy_stub (?a + APP_SYSCALL_STUB_OFFSET) g_app_syscall_stub ((m_mem s)(unat ?a := shell_apps_syscall_stub_virt t)))))"
    using m4s lo stub_lengths by (intro calm_stub calm_cell; simp only: off; simp)
  then show ?thesis
    unfolding shell_apps_prepare_runtime_block_def Let_def if_not_P [OF nz(1)] if_not_P [OF nz(2)] by blast
qed

lemma user_launch_ok:
  assumes ok: "task_ok p t" and p: "3 \<le> p" "p < 8"
  shows "\<exists>e sp m. shell_apps_prepare_user_launch t s = (Some (e, sp), s\<lparr>m_mem := m\<rparr>) \<and> calm P (m_mem s) m
    \<and> (t_pid t = leader_pid t \<longrightarrow> e = entry_virtual t)"
proof -
  obtain k n where r: "arena_range (app_phys_base t) (app_slot_bytes t) k n" and b: "slot_ok (app_slot_bytes t)"
    using ok by (auto simp: task_ok_def)
  note bd = arena_range_bounds [OF r]
  let ?rb = "shell_apps_runtime_block_virt t" and ?b = "unat (app_phys_base t)" and ?n = "unat (app_slot_bytes t)"
  let ?top = "shell_apps_user_stack_top_for_pid t (t_pid t)"
  let ?low = "shell_apps_phys_addr_for_virtual t (?top - APP_THREAD_STACK_BYTES)" and ?high = "shell_apps_phys_addr_for_virtual t ?top"
  have n: "0x15000 \<le> ?n" "?n \<le> 0x400000" "?n mod 4096 = 0" using b by (simp_all add: slot_ok_def)
  have pid: "t_pid t = int p" by (rule task_okD(1) [OF ok])
  have rb: "unat ?rb = 0x1000000 + ?n - 0x1000" by (rule stack_top(2) [OF ok p])
  have top: "unat ?top = 0x1000000 + ?n - 0x1000 - (p - 3) * 0x4000" unfolding pid by (rule stack_top(1) [OF ok p])
  have p4: "(p - 3) * 0x4000 \<le> 0x10000" using p by simp
  have low: "unat (?top - APP_THREAD_STACK_BYTES) = unat ?top - 0x4000"
    using top p4 n by (subst unat_minus) (simp_all add: APP_THREAD_STACK_BYTES_def)
  have pl: "unat ?low = ?b + ?n - 0x5000 - (p - 3) * 0x4000" "unat ?high = ?b + ?n - 0x1000 - (p - 3) * 0x4000"
    using phys_addr [OF ok, of "?top - APP_THREAD_STACK_BYTES"] phys_addr [OF ok, of ?top] low top p4 n by simp_all
  obtain x y where xy: "?b = 4096 * x" "?n = 4096 * y" using bd(3) n(3) mult_div_mod_eq [of 4096] by (metis add_0_right)
  have "unat ?low = 4 * (1024 * (x + y - 5 - (p - 3) * 4))" using pl(1) unfolding xy by simp
  then have m4: "unat ?low mod 4 = 0" by simp
  have stubs: "shell_apps_exit_stub_virt t \<noteq> 0" "shell_apps_thread_stub_virt t \<noteq> 0" "?rb \<noteq> 0" "?top \<noteq> 0" "?low \<noteq> 0"
  proof -
    have nz: "?rb \<noteq> 0" using rb n by (auto simp: unat_eq_zero [symmetric] simp del: unat_eq_zero)
    moreover have "unat (?rb + APP_EXIT_STUB_OFFSET) = unat ?rb + 64" "unat (?rb + APP_THREAD_STUB_OFFSET) = unat ?rb + 96"
      using rb n by (subst unat_plus; simp add: app_consts)+
    ultimately show "shell_apps_exit_stub_virt t \<noteq> 0" "shell_apps_thread_stub_virt t \<noteq> 0" "?rb \<noteq> 0"
      by (auto simp: shell_apps_exit_stub_virt_def shell_apps_thread_stub_virt_def Let_def unat_eq_zero [symmetric] simp del: unat_eq_zero)
    show "?top \<noteq> 0" "?low \<noteq> 0" using top pl p4 n bd by (auto simp: unat_eq_zero [symmetric] simp del: unat_eq_zero)
  qed
  obtain m where m: "shell_apps_prepare_runtime_block t s = (True, s\<lparr>m_mem := m\<rparr>)" "calm P (m_mem s) m"
    using runtime_block_ok [OF ok p] by blast
  have z: "calm P (m_mem s) (shell_apps_mem_zero ?low APP_THREAD_STACK_BYTES m)"
  proof -
    have "unat APP_THREAD_STACK_BYTES = 0x4000" by (simp add: APP_THREAD_STACK_BYTES_def)
    moreover have "0x600000 \<le> unat ?low" "unat ?low + 0x4000 \<le> 0xB00000" using pl p4 n bd by linarith+
    ultimately show ?thesis
      unfolding shell_apps_mem_zero_def using m4 by (intro calm_trans [OF m(2)] calm_store_bytes) simp_all
  qed
  have sub: "unat (?high - 8) = unat ?high - 8" "unat (?high - 16) = unat ?high - 16"
    using pl p4 n bd by (subst unat_minus; simp)+
  have rng: "0x600000 \<le> unat ?high - 16" "unat ?high < 0xB00000" using pl p4 n bd by linarith+
  have st2: "calm P (m_mem s) ((shell_apps_mem_zero ?low APP_THREAD_STACK_BYTES m)(unat (?high - 8) := w1, unat (?high - 8) + 4 := w2))" for w1 w2
    by (intro calm_fun_upd z) (use rng in \<open>simp_all add: sub\<close>)
  have st4: "calm P (m_mem s) ((shell_apps_mem_zero ?low APP_THREAD_STACK_BYTES m)(unat (?high - 16) := w1, unat (?high - 16) + 4 := w2,
      unat (?high - 16) + 8 := w3, unat (?high - 16) + 12 := w4))" for w1 w2 w3 w4
    by (intro calm_fun_upd z) (use rng in \<open>simp_all add: sub\<close>)
  show ?thesis
  proof (cases "t_pid t = leader_pid t")
    case True
    have "shell_apps_prepare_user_launch t s = (Some (entry_virtual t, ?top - 8), s\<lparr>m_mem := (shell_apps_mem_zero ?low APP_THREAD_STACK_BYTES m)
        (unat (?high - 8) := shell_apps_exit_stub_virt t, unat (?high - 8) + 4 := ?rb)\<rparr>)"
      using stubs m(1) group_leader [OF ok] True by (simp add: shell_apps_prepare_user_launch_def Let_def)
    then show ?thesis using st2 True by blast
  next
    case False
    have "shell_apps_prepare_user_launch t s = (Some (shell_apps_thread_stub_virt t, ?top - 16),
        s\<lparr>m_mem := (shell_apps_mem_zero ?low APP_THREAD_STACK_BYTES m)(unat (?high - 16) := shell_apps_exit_stub_virt t,
          unat (?high - 16) + 4 := entry_virtual t, unat (?high - 16) + 8 := ?rb, unat (?high - 16) + 12 := thread_arg t)\<rparr>)"
      using stubs m(1) group_leader [OF ok] False by (simp add: shell_apps_prepare_user_launch_def Let_def)
    then show ?thesis using st4 False by blast
  qed
qed

end
