(* ===== verification/App_Fork.thy ===== *)
theory App_Fork
  imports App_User
begin

text \<open>New threads of a running application keep the invariant: the child shares the memory of its parent, which the leader of the
  group owns, and gets tables of its own.\<close>

unbundle bit_operations_syntax

lemma add_member_inv:
  assumes inv: "app_inv L T s" and L: "app_layout L" and p: "p < 8" "3 \<le> p" and free: "\<not> in_use (task_at p s)"
    and th: "same_threads s t" and len: "length (g_app_tasks t) = 8"
    and ta: "\<And>q. q \<noteq> p \<Longrightarrow> task_at q t = task_at q s" and new: "in_use (task_at p t)" "task_ok p (task_at p t)" "\<not> owns_app_memory (task_at p t)"
    and u: "g_app_phys_page_used t = g_app_phys_page_used s" and q: "calm {p} (m_mem s) (m_mem t)"
  shows "app_inv L T t"
proof -
  note i = app_invD [OF inv]
  have own: "owns t x k \<longleftrightarrow> owns s x k" for x k using ta new free by (cases "x = p") (simp_all add: owns_def)
  have "tasks_inv t" unfolding tasks_inv_def
  proof (intro conjI allI impI)
    show "if in_use (task_at x t) then 3 \<le> x \<and> task_ok x (task_at x t) else \<not> owns_app_memory (task_at x t)" if "x < 8" for x
      using ta new p tasks_invD [OF i(1) that] by (cases "x = p") simp_all
  qed (rule len)
  moreover have "arena_inv t" by (rule arena_inv_same [OF i(2) own u])
  moreover have "threads_inv L t" "dirs_inv L T t" by (rule new_task_rest [OF inv L p(1) free th _ q], erule ta)+
  ultimately show ?thesis by (simp add: app_inv_def)
qed

lemma startable_core:
  fixes s t :: "'a app_state_scheme"
  shows "core t = core s \<Longrightarrow> startable L s p \<Longrightarrow> startable L t p"
  using core_task_at [of t s] core_eqD(6) [of t s] same_threadsD(4) [OF same_threads_core, of t s]
  by (auto simp: startable_def owner_ok_def Let_def)

lemma clone_inv:
  assumes inv: "app_inv L T s" and L: "app_layout L" and p: "3 \<le> p" "p < 8" and free: "\<not> in_use (task_at p s)"
    and src: "src < 8" "app_thread s src" and cl: "shell_apps_clone_background_task L p src p entry arg nm s = (ok, t)"
  shows "app_inv L T t" "\<not> app_thread t p" "ok \<Longrightarrow> startable L t p" "same_threads s t"
proof -
  note i = app_invD [OF inv]
  have os: "owner_ok s src" by (rule threads_invD(2) [OF i(3) src])
  then have ok_src: "in_use (task_at src s)" "task_ok src (task_at src s)" using tasks_invD(1) [OF i(1) src(1)] by (auto simp: owner_ok_def)
  have ne: "src \<noteq> p" using ok_src(1) free by auto
  define s1 where "s1 = upd_task p (\<lambda>_. task_at src s)
    (s\<lparr>m_mem := store_range (task_page_directory p) 2048 (\<lambda>i. m_mem s (task_page_directory src + 4 * i)) (m_mem s)\<rparr>)"
  define g where "g = (\<lambda>task :: shell_app_task. task\<lparr>in_use := True, t_pid := int p,
    leader_pid := shell_apps_group_leader_pid (task_at src s1), entry_virtual := entry, thread_arg := arg,
    owns_app_memory := False, join_on_exit := False, input_ready_logged := False,
    task_name := shell_apps_set_task_label TASK_NAME_MAX nm (ascii ''thread'')\<rparr>)"
  define s2 where "s2 = upd_task p g s1"
  have l1: "length (g_app_tasks s1) = 8" "length (g_app_tasks s2) = 8" using i(6) by (simp_all add: s1_def s2_def upd_task_def)
  have t1: "task_at x s1 = (if x = p then task_at src s else task_at x s)" for x using i(6) p by (simp add: s1_def)
  have t2: "task_at x s2 = (if x = p then g (task_at src s) else task_at x s)" for x using l1 p t1 by (simp add: s2_def)
  have lead: "leader_pid (g (task_at src s)) = leader_pid (task_at src s)"
    using group_leader [OF ok_src(2)] t1 ne by (simp add: g_def)
  have gf: "in_use (g (task_at src s))" "t_pid (g (task_at src s)) = int p" "\<not> owns_app_memory (g (task_at src s))"
    "\<not> join_on_exit (g (task_at src s))" "app_phys_base (g (task_at src s)) = app_phys_base (task_at src s)"
    "app_slot_bytes (g (task_at src s)) = app_slot_bytes (task_at src s)" "shell_apps_task_valid (g (task_at src s)) = shell_apps_task_valid (task_at src s)"
    by (simp_all add: g_def shell_apps_task_valid_def)
  have "shell_apps_clone_background_task L p src p entry arg nm s = paging_build_app_directory L (task_page_directory p) (task_user_pt p)
      (app_phys_base (task_at p s2)) APP_LOAD_VIRT_BASE (app_slot_bytes (task_at p s2)) s2"
    unfolding shell_apps_clone_background_task_def Let_def s2_def g_def s1_def ..
  then have b: "paging_build_app_directory L (task_page_directory p) (task_user_pt p)
      (app_phys_base (task_at p s2)) APP_LOAD_VIRT_BASE (app_slot_bytes (task_at p s2)) s2 = (ok, t)" using cl by simp
  obtain m where w: "t = s2\<lparr>m_mem := m\<rparr>" using build_frame [OF b] by blast
  have tt: "task_at x t = task_at x s2" for x by (simp add: w)
  show th: "same_threads s t" by (simp add: w s2_def s1_def same_threads_def upd_task_def)
  have q: "calm {p} (m_mem s) (m_mem t)"
    by (rule calm_trans [OF _ build_calm [OF L p(2) b]]) (simp add: s2_def s1_def upd_task_def calm_tables)
  have ok2: "task_ok p (g (task_at src s))" using ok_src(2) gf lead by (simp add: task_ok_def)
  show it: "app_inv L T t"
  proof (rule add_member_inv [OF inv L p(2,1) free th _ _ _ _ _ _ q])
    show "length (g_app_tasks t) = 8" using l1 by (simp add: w)
    show "g_app_phys_page_used t = g_app_phys_page_used s" by (simp add: w s2_def s1_def upd_task_def)
  qed (use gf ok2 in \<open>simp_all add: tt t2\<close>)
  show no: "\<not> app_thread t p" using same_threadsD(4) [OF th] threads_invD(2) [OF i(3) p(2)] free by (auto simp: owner_ok_def)
  show "startable L t p" if ok
  proof -
    have "slot_ok (app_slot_bytes (task_at p s2))" using ok_src(2) gf by (simp add: task_ok_def t2)
    then have dc: "dir_cells L (m_mem t) p (app_phys_base (task_at p t)) (unat (app_slot_bytes (task_at p t)) div 4096)"
      using build_dir_cells [OF L p(2) _ b [unfolded eqTrueI [OF that]]] by (simp add: tt)
    have "nat (leader_pid (task_at src s)) \<noteq> p" using os free by (auto simp: owner_ok_def Let_def)
    then have "owner_ok t p" using os same_threadsD(4) [OF th] gf lead by (simp add: owner_ok_def Let_def tt t2)
    then show ?thesis using p no dc gf by (simp add: startable_def tt t2)
  qed
qed

text \<open>The system call that creates a thread.\<close>

lemma fork_inv:
  assumes inv: "app_inv L T s" and L: "app_layout L" and e: "lm_background_thread L \<noteq> 0" and c: "src < 8" "app_thread s src"
  shows "app_inv L T (snd (fork_task L src entry arg nm s))"
proof -
  obtain fp s1 where f: "shell_apps_find_free_pid s = (fp, s1)" by (cases "shell_apps_find_free_pid s")
  have i1: "app_inv L T s1" and th1: "same_threads s s1" using reap_inv(1,2) [OF inv L] find_free_pid(1) [OF f] by simp_all
  show ?thesis
  proof (cases fp)
    case (Some p)
    have p: "3 \<le> p" "p < 8" "\<not> in_use (task_at p s1)" using find_free_pid(2) [OF f Some] by auto
    have c1: "app_thread s1 src" using c(2) same_threadsD(4) [OF th1] by simp
    obtain ok s2 where cl: "shell_apps_clone_background_task L p src p entry arg nm s1 = (ok, s2)"
      by (cases "shell_apps_clone_background_task L p src p entry arg nm s1")
    note ci = clone_inv [OF i1 L p c(1) c1 cl]
    show ?thesis
    proof (cases ok)
      case True
      define s3 where "s3 = shell_apps_log_task_marker (ascii ''APPTH100'') (task_at p s2) s2"
      have k: "core s3 = core s2" by (simp add: s3_def frame_simps)
      have "startable L s3 p" by (rule startable_core [OF k ci(3) [OF True]])
      then have "app_inv L T (snd (start_task L p n1 n2 s3))" for n1 n2
        using start_task_inv(1) [OF _ L e] ci(1) by (metis app_inv_out(3) prod.collapse s3_def)
      then show ?thesis using f Some cl True
        by (auto simp: fork_task_def Let_def s3_def split: prod.split bool.split dest!: arg_cong [where f = snd])
    next
      case False
      then show ?thesis using f Some cl release_inv [OF ci(1) L p(2) ci(2)] by (simp add: fork_task_def)
    qed
  qed (use f i1 in \<open>simp add: fork_task_def\<close>)
qed

lemma spawn_thread_inv:
  assumes inv: "app_inv L T s" and L: "app_layout L" and e: "lm_background_thread L \<noteq> 0" and c: "app_thread s (cur s)"
    and sp: "shell_apps_spawn_app_thread L (cur s) spec s = Some (r, t)"
  shows "app_inv L T t"
proof -
  have "t = s \<or> (\<exists>entry arg nm. fork_task L (cur s) entry arg nm s = (r, t))"
    using sp unfolding shell_apps_spawn_app_thread_def Let_def
    by (auto split: if_split_asm Option.bind_split_asm option.split_asm)
  then show ?thesis using inv fork_inv [OF inv L e sched_invD(5) [OF app_invD(5) [OF inv]] c] by (metis snd_conv)
qed

end
