(* ===== verification/App_Stage.thy ===== *)
theory App_Stage
  imports App_Fork
begin

text \<open>Reading a program file into the staging buffer, and the commands that launch it: every command keeps the invariant of the
  application layer, whatever is on the disk.\<close>

unbundle bit_operations_syntax

section \<open>A read stays within the buffer\<close>

lemma read_sectors_bound:
  "read_sectors io ds c mx ks fs out s = (fs', out', s') \<Longrightarrow> length out \<le> mx \<Longrightarrow> length out' \<le> mx"
proof (induction io ds c mx ks fs out s rule: read_sectors.induct)
  case (2 io ds c mx k ks fs out s)
  show ?case
  proof (cases "fs = 0")
    case False
    let ?n = "if fs > 512 then 512 else fs" and ?s1 = "snd (read_buf io (dir_sector (bpb s) ds c k) s)"
    have "length (out @ take (min ?n (mx - length out)) (sector_buffer ?s1)) \<le> mx" using 2(3) by simp
    then show ?thesis using 2(1) [OF False refl refl refl] 2(2) False by (simp add: Let_def)
  qed (use 2 in simp)
qed simp

lemma read_clusters_bound:
  assumes "read_clusters io ds mx c fs out s = Some y"
  shows "length out \<le> mx \<longrightarrow> length (fst y) \<le> mx"
  using assms
proof (rule read_clusters.raw_induct [rotated], goal_cases)
  case (1 rec io ds mx c fs out s y)
  show ?case
  proof (cases "fat_is_data_cluster (bpb s) c = Some True \<and> length out < mx \<and> fs > 0")
    case True
    obtain fs1 out1 s1 where r: "read_sectors io ds c mx [0..<unat (sectors_per_cluster (bpb s))] fs out s = (fs1, out1, s1)"
      by (cases "read_sectors io ds c mx [0..<unat (sectors_per_cluster (bpb s))] fs out s")
    have "length out1 \<le> mx" using read_sectors_bound [OF r] True by simp
    then show ?thesis using True 1 r by (auto split: prod.split_asm)
  next
    case False
    then have "fst y = out" using 1(2) by (cases "fat_is_data_cluster (bpb s) c") (auto split: if_split_asm prod.split_asm)
    then show ?thesis by simp
  qed
qed

lemma over_sectors_return:
  assumes "\<And>x a s r t. body x a s = Some (Return r, t) \<Longrightarrow> Q r"
  shows "over_sectors body xs a s = Some (Return r, t) \<Longrightarrow> Q r"
  by (induction xs arbitrary: a s) (auto split: option.split_asm prod.split_asm step.split_asm dest: assms)

lemma over_clusters_return:
  assumes "over_clusters io body ds c a s = Some y"
  shows "(\<forall>x a s r t. body x a s = Some (Return r, t) \<longrightarrow> Q r) \<longrightarrow> (case fst y of Return r \<Rightarrow> Q r | Continue _ \<Rightarrow> True)"
  using assms
proof (rule over_clusters.raw_induct [rotated], goal_cases)
  case (1 rec io body ds c a s y)
  show ?case
  proof (intro impI)
    assume body: "\<forall>x a s r t. body x a s = Some (Return r, t) \<longrightarrow> Q r"
    note os = over_sectors_return [where body = body and Q = Q] 
    show "case fst y of Return r \<Rightarrow> Q r | Continue _ \<Rightarrow> True"
    proof (cases "fat_is_data_cluster (bpb s) c = Some True")
      case True
      then obtain r s1 where r: "over_sectors body (cluster_sectors (bpb s) ds c) a s = Some (r, s1)"
        using 1(2) by (cases "over_sectors body (cluster_sectors (bpb s) ds c) a s") auto
      show ?thesis
      proof (cases r)
        case (Return x)
        then have "Q x" using os r body by blast
        then show ?thesis using 1(2) True r Return by auto
      next
        case (Continue a1)
        then show ?thesis using 1 True r body by (auto split: prod.split_asm)
      qed
    next
      case False
      then show ?thesis using 1(2) by (cases "fat_is_data_cluster (bpb s) c") (auto split: if_split_asm)
    qed
  qed
qed

text \<open>Whatever is on the disk, a read stores at most \<open>max_size\<close> bytes.\<close>

lemma read_file_bound:
  assumes run: "fat16_read_file_from_dir io dir f mx s = Some (data, t)" and mx: "0 \<le> mx" "mx < 2 ^ 32"
  shows "length data \<le> nat mx"
proof -
  let ?n = "unat (of_int mx :: u32)"
  have "(of_int mx :: u32) = of_nat (nat mx)" using mx(1) by simp
  moreover have "nat mx < 4294967296" using mx by simp
  ultimately have n: "?n = nat mx" by (simp only: unat_of_nat32)
  have body: "length out \<le> ?n" if "read_body io f ?n x a s = Some (Return out, t)" for x a s out t
    using that read_clusters_bound [of io _ ?n]
    by (fastforce simp: read_body_def Let_def split: step.split_asm option.split_asm Option.bind_split_asm prod.split_asm)
  obtain r where r: "over_dir io (read_body io f ?n) dir () s = Some (r, t)" "data = (case r of Continue _ \<Rightarrow> [] | Return out \<Rightarrow> out)"
    using run by (auto simp: fat16_read_file_from_dir_def split: Option.bind_split_asm)
  have "case r of Return out \<Rightarrow> length out \<le> ?n | Continue _ \<Rightarrow> True"
    using r(1) over_sectors_return [where body = "read_body io f ?n" and Q = "\<lambda>out. length out \<le> ?n"]
      over_clusters_return [where body = "read_body io f ?n" and Q = "\<lambda>out. length out \<le> ?n"] body
    by (fastforce simp: over_dir_def split: if_split_asm Option.bind_split_asm step.split)
  then show ?thesis using r(2) n by (auto split: step.splits)
qed

end
