(* ===== verification/App_Commands.thy ===== *)
theory App_Commands
  imports App_Stage
begin

text \<open>The commands that launch programs, and the ends of tasks as the shell and the interrupt handlers carry them out, keep the
  invariant of the application layer.\<close>

unbundle bit_operations_syntax

section \<open>Staging\<close>

definition staged :: "int option \<Rightarrow> 'a app_state_scheme \<Rightarrow> bool" where
  "staged r s \<longleftrightarrow> (\<forall>n. r = Some n \<longrightarrow> n < 2 ^ 31 \<and> n \<le> int (length (g_elf_buffer s)))"

lemma ensure_ready_frame:
  assumes "shell_apps_ensure_host_fat16_ready E host s = Some (ok, host', t)"
  shows "core t = core s" "shell_apps_host_valid host' = shell_apps_host_valid host"
proof -
  have "core t = core s \<and> shell_apps_host_valid host' = shell_apps_host_valid host"
  proof (cases "h_fat16_initialized host")
    case False
    then obtain u where "os_fat_call (fat16_init (env_io E)) (os_set_drive (fst (os_drive_get_current s)) (snd (os_drive_get_current s))) = Some (ok, u)"
      "t = u" "host' = host\<lparr>h_fat16_initialized := ok\<rparr>"
      using assms by (auto simp: shell_apps_ensure_host_fat16_ready_def Let_def split_beta split: Option.bind_split_asm)
    then show ?thesis using core_fat_call by (fastforce simp: frame_simps shell_apps_host_valid_def)
  qed (use assms in \<open>auto simp: shell_apps_ensure_host_fat16_ready_def\<close>)
  then show "core t = core s" "shell_apps_host_valid host' = shell_apps_host_valid host" by simp_all
qed

lemma stage_file_frame:
  assumes run: "stage_file E dir f mx s = Some (r, t)" and mx: "0 \<le> mx" "mx < 2 ^ 31"
  shows "core t = core s" "staged r t"
proof -
  obtain data u where u: "os_fat_call (fat16_read_file_from_dir (env_io E) dir f mx) s = Some (data, u)"
    "t = u\<lparr>g_elf_buffer := data @ drop (length data) (g_elf_buffer u)\<rparr>" "r = (if data = [] then None else Some (int (length data)))"
    using run by (auto simp: stage_file_def Let_def split: Option.bind_split_asm)
  show "core t = core s" using core_fat_call [OF u(1)] by (simp add: u(2) frame_simps)
  obtain fs where "fat16_read_file_from_dir (env_io E) dir f mx (os_fat s) = Some (data, fs)" using u(1) by (auto simp: os_fat_call_def)
  then have "length data \<le> nat mx" using mx by (intro read_file_bound) simp_all
  then show "staged r t" using mx(2) by (auto simp: staged_def u(2,3) split: if_splits)
qed

lemma max_sizes: "0 \<le> APP_MAX_ELF_SIZE" "APP_MAX_ELF_SIZE < 2 ^ 31" "0 \<le> APP_MAX_COM_SIZE" "APP_MAX_COM_SIZE < 2 ^ 31"
  by (simp_all add: APP_MAX_ELF_SIZE_def APP_MAX_COM_SIZE_def)

lemma stage_candidate_frame:
  assumes "shell_apps_stage_elf_candidate E host c m s = Some (r, t) \<or> shell_apps_stage_com_candidate E host c m s = Some (r, t)"
  shows "core t = core s" "staged (map_option snd r) t"
proof -
  have "core t = core s \<and> staged (map_option snd r) t"
    using assms
  proof
    assume "shell_apps_stage_elf_candidate E host c m s = Some (r, t)"
    then show ?thesis using stage_file_frame [OF _ max_sizes(1,2)]
      by (auto simp: shell_apps_stage_elf_candidate_def Let_def staged_def option.map_comp comp_def
          split: if_split_asm option.split_asm Option.bind_split_asm; fastforce)
  next
    assume "shell_apps_stage_com_candidate E host c m s = Some (r, t)"
    then show ?thesis using stage_file_frame [OF _ max_sizes(3,4)]
      by (auto simp: shell_apps_stage_com_candidate_def Let_def staged_def option.map_comp comp_def
          split: if_split_asm option.split_asm Option.bind_split_asm; fastforce)
  qed
  then show "core t = core s" "staged (map_option snd r) t" by simp_all
qed

section \<open>Launching\<close>

lemma planned:
  "staged (Some n) s \<Longrightarrow> plan_image fmt n s = Some b \<Longrightarrow> n < 2 ^ 31 \<and> n \<le> int (length (g_elf_buffer s)) \<and> slot_ok b"
  using plan_image_slot [of fmt n s b] by (simp add: staged_def)

lemma buffer_out [frame_simps]: "g_elf_buffer (shell_apps_out_both L host x s) = g_elf_buffer s"
  by (simp add: shell_apps_out_both_def call_out_both_def shell_out_both_def shell_out_serial_only_def emit_screen_def frame_simps)

lemma staged_announce [simp]: "staged r (announce L host x y s) = staged r s"
  by (simp add: staged_def announce_def frame_simps)

lemma staged_log [simp]: "staged r (log_serial_raw x s) = staged r s"
  by (simp add: staged_def frame_simps)

text \<open>The step from the staged file to the launch.\<close>

definition fg_outcome :: "'l os_link_scheme \<Rightarrow> shell_app_host \<Rightarrow> shell_app_format \<Rightarrow> cstr \<Rightarrow> cstr \<Rightarrow> cstr \<Rightarrow> int
    \<Rightarrow> ('h, 'p, 'a) os_state_scheme \<Rightarrow> outcome \<times> shell_app_host \<times> ('h, 'p, 'a) os_state_scheme" where
  "fg_outcome L host fmt msg nm fname n s = (case plan_image fmt n s of
      None \<Rightarrow> (Handled, host, shell_apps_out_both L host msg s)
    | Some b \<Rightarrow> (let (r, s) = launch_foreground L host fmt nm fname n b s
                 in (case r of None \<Rightarrow> Handled | Some pid \<Rightarrow> Waiting pid, host, s)))"

lemma fg_outcome_inv:
  assumes inv: "app_inv L T s" and L: "app_layout L" and e: "lm_background_thread L \<noteq> 0" and host: "shell_apps_host_valid host"
    and st: "staged (Some n) s" and o: "fg_outcome L host fmt msg nm fname n (announce L host x y s) = (r, host', t)"
  shows "app_inv L T t" "host' = host"
proof -
  let ?s = "announce L host x y s"
  have i: "app_inv L T ?s" "staged (Some n) ?s" using inv st by simp_all
  show "app_inv L T t" "host' = host"
    using o i launch_foreground_inv [OF i(1) L e host, of n _ fmt nm fname] planned [OF i(2), of fmt]
    by (auto simp: fg_outcome_def split_beta Let_def split: option.split_asm)
qed

text \<open>The programs that a command name can stand for.\<close>

lemma try_execute_com_inv:
  assumes inv: "app_inv L T s" and L: "app_layout L" and e: "lm_background_thread L \<noteq> 0"
    and run: "shell_apps_try_execute_com E L host command args s = Some (r, host', t)"
  shows "app_inv L T t" "shell_apps_host_valid host' = shell_apps_host_valid host"
proof -
  have "app_inv L T t \<and> shell_apps_host_valid host' = shell_apps_host_valid host"
  proof (cases "\<not> shell_apps_host_valid host \<or> command = [] \<or> args \<noteq> []")
    case True
    then show ?thesis using run inv by (auto simp: shell_apps_try_execute_com_def split: if_splits)
  next
    case False
    then obtain ok h s1 where 1: "shell_apps_ensure_host_fat16_ready E host s = Some (ok, h, s1)"
      using run by (auto simp: shell_apps_try_execute_com_def split: Option.bind_split_asm)
    note r1 = ensure_ready_frame [OF 1]
    have i1: "app_inv L T s1" using inv app_inv_core [OF r1(1)] by blast
    show ?thesis
    proof (cases ok)
      case True
      then obtain c s2 where 2: "shell_apps_stage_com_candidate E h command 64 s1 = Some (c, s2)"
        using run 1 False by (auto simp: shell_apps_try_execute_com_def split: Option.bind_split_asm)
      note r2 = stage_candidate_frame [OF disjI2 [OF 2]]
      have i2: "app_inv L T s2" using i1 app_inv_core [OF r2(1)] by blast
      show ?thesis
      proof (cases c)
        case (Some x)
        obtain fname n where x: "x = (fname, n)" by (cases x)
        have st: "staged (Some n) s2" using r2(2) by (simp add: Some x)
        have "fg_outcome L h APP_FORMAT_COM (line ''Invalid COM or load error'') (shell_apps_normalize_app_name command 64) fname n
            (announce L h (ascii ''Executing '') fname s2) = (r, host', t)"
          using run 1 2 True False Some x
          by (auto simp: shell_apps_try_execute_com_def Let_def fg_outcome_def split: option.splits prod.splits)
        then show ?thesis using fg_outcome_inv [OF i2 L e _ st] False r1(2) by blast
      qed (use run 1 2 True False i2 r1(2) in \<open>auto simp: shell_apps_try_execute_com_def\<close>)
    qed (use run 1 False i1 r1(2) in \<open>auto simp: shell_apps_try_execute_com_def\<close>)
  qed
  then show "app_inv L T t" "shell_apps_host_valid host' = shell_apps_host_valid host" by simp_all
qed

definition elf_filename :: "cstr \<Rightarrow> cstr option" where
  "elf_filename normalized = (if shell_apps_has_extension normalized (ascii ''.elf'')
     then shell_apps_append_extension normalized [] False 64 else shell_apps_append_extension normalized (ascii ''.elf'') False 64)"

lemma try_execute_elf_inv:
  assumes inv: "app_inv L T s" and L: "app_layout L" and e: "lm_background_thread L \<noteq> 0"
    and run: "shell_apps_try_execute_elf E L host command args s = Some (r, host', t)"
  shows "app_inv L T t" "shell_apps_host_valid host' = shell_apps_host_valid host"
proof -
  let ?nm = "shell_apps_normalize_app_name command 64"
  note def = shell_apps_try_execute_elf_def Let_def elf_filename_def [symmetric]
  have "app_inv L T t \<and> shell_apps_host_valid host' = shell_apps_host_valid host"
  proof (cases "\<not> shell_apps_host_valid host \<or> command = [] \<or> args \<noteq> [] \<or> ?nm = [] \<or> elf_filename ?nm = None")
    case True
    then show ?thesis using run inv unfolding def by (auto split: if_splits)
  next
    case False
    then obtain fn where fn: "elf_filename ?nm = Some fn" by auto
    obtain ok h s1 where 1: "shell_apps_ensure_host_fat16_ready E host s = Some (ok, h, s1)"
      using run False fn unfolding def by (auto split: Option.bind_split_asm)
    note r1 = ensure_ready_frame [OF 1]
    have i1: "app_inv L T s1" using inv app_inv_core [OF r1(1)] by blast
    show ?thesis
    proof (cases ok)
      case True
      then obtain c s2 where 2: "stage_file E (h_current_dir_cluster h) (str_to_upper fn) APP_MAX_ELF_SIZE s1 = Some (c, s2)"
        using run 1 False fn unfolding def by (auto split: Option.bind_split_asm)
      note r2 = stage_file_frame [OF 2 max_sizes(1,2)]
      have i2: "app_inv L T s2" using i1 app_inv_core [OF r2(1)] by blast
      show ?thesis
      proof (cases c)
        case (Some n)
        have "fg_outcome L h APP_FORMAT_ELF (line ''Invalid ELF or load error'') ?nm (str_to_upper fn) n
            (announce L h (ascii ''Executing '') (str_to_upper fn) s2) = (r, host', t)"
          using run 1 2 True False Some fn unfolding def by (auto simp: fg_outcome_def Let_def split: option.splits prod.splits)
        then show ?thesis using fg_outcome_inv [OF i2 L e _ r2(2) [unfolded Some]] False r1(2) by blast
      qed (use run 1 2 True False fn i2 r1(2) in \<open>auto simp: def\<close>)
    qed (use run 1 False fn i1 r1(2) in \<open>auto simp: def\<close>)
  qed
  then show "app_inv L T t" "shell_apps_host_valid host' = shell_apps_host_valid host" by simp_all
qed

lemma try_execute_program_inv:
  assumes inv: "app_inv L T s" and L: "app_layout L" and e: "lm_background_thread L \<noteq> 0"
    and run: "shell_apps_try_execute_program E L host command args s = Some (r, host', t)"
  shows "app_inv L T t"
proof -
  consider "shell_apps_try_execute_com E L host command args s = Some (r, host', t)"
    | "shell_apps_try_execute_elf E L host command args s = Some (r, host', t)"
    | h u where "shell_apps_try_execute_elf E L host command args s = Some (Not_found, h, u)"
        "shell_apps_try_execute_com E L h command args u = Some (r, host', t)"
    using run by (auto simp: shell_apps_try_execute_program_def split: if_split_asm Option.bind_split_asm)
  then show ?thesis
    by cases (blast intro: try_execute_com_inv(1) [OF _ L e] try_execute_elf_inv(1) [OF _ L e] inv)+
qed

lemma bg_search_frame:
  assumes "bg_search E host command s = Some (r, t)"
  shows "core t = core s" "staged (map_option (snd \<circ> snd) r) t"
proof -
  obtain elf u where u: "(if shell_apps_has_extension command (ascii ''.com'') then Some (None, s)
      else shell_apps_stage_elf_candidate E host command 64 s) = Some (elf, u)"
    using assms by (auto simp: bg_search_def split: Option.bind_split_asm)
  then have cu: "core u = core s" "staged (map_option snd elf) u"
    using stage_candidate_frame [OF disjI1, of E host command 64 s elf u] by (auto simp: staged_def split: if_splits)
  have "core t = core s \<and> staged (map_option (snd \<circ> snd) r) t"
  proof (cases elf)
    case (Some x)
    then show ?thesis using assms u cu by (auto simp: bg_search_def staged_def)
  next
    case None
    show ?thesis
    proof (cases "shell_apps_has_extension command (ascii ''.elf'')")
      case True
      then show ?thesis using assms u cu None by (auto simp: bg_search_def staged_def)
    next
      case False
      then obtain com where "shell_apps_stage_com_candidate E host command 64 u = Some (com, t)" "r = map_option (Pair APP_FORMAT_COM) com"
        using assms u None by (auto simp: bg_search_def split: Option.bind_split_asm)
      then show ?thesis using stage_candidate_frame [OF disjI2, of E host command 64 u com t] cu
        by (auto simp: staged_def option.map_comp comp_def)
    qed
  qed
  then show "core t = core s" "staged (map_option (snd \<circ> snd) r) t" by simp_all
qed

lemma run_background_inv:
  assumes inv: "app_inv L T s" and L: "app_layout L" and e: "lm_background_thread L \<noteq> 0"
    and run: "shell_apps_run_background E L host command s = Some (r, host', t)"
  shows "app_inv L T t"
proof -
  let ?nm = "shell_apps_normalize_app_name command 64"
  define s0 where "s0 = log_serial_raw (line ''APPBG001'') (shell_apps_reap_terminated_tasks s)"
  have i0: "app_inv L T s0" using reap_inv(1) [OF inv L] by (simp add: s0_def)
  have eq: "shell_apps_run_background E L host command s =
      (if \<not> shell_apps_host_valid host \<or> command = [] then Some (None, host, s)
       else if ?nm = [] then Some (None, host, s0)
       else do {
         (ok, host, s) \<leftarrow> shell_apps_ensure_host_fat16_ready E host (log_serial_raw (line ''APPBG002'') s0);
         if \<not> ok then Some (None, host, s)
         else do {
           (r, s) \<leftarrow> bg_search E host command (log_serial_raw (line ''APPBG003'') s);
           case r of
             None \<Rightarrow> Some (None, host, s)
           | Some (fmt, filename, n) \<Rightarrow>
               (case plan_image fmt n s of
                  None \<Rightarrow> Some (None, host, s)
                | Some b \<Rightarrow> (let (r, s) = launch_background L host fmt ?nm filename n b s in Some (r, host, s))) } })"
    unfolding shell_apps_run_background_def s0_def Let_def ..
  show ?thesis
  proof (cases "\<not> shell_apps_host_valid host \<or> command = [] \<or> ?nm = []")
    case True
    then show ?thesis using run inv i0 by (auto simp: eq split: if_splits)
  next
    case False
    obtain ok h s1 where 1: "shell_apps_ensure_host_fat16_ready E host (log_serial_raw (line ''APPBG002'') s0) = Some (ok, h, s1)"
      using run False by (auto simp: eq split: Option.bind_split_asm)
    note r1 = ensure_ready_frame [OF 1]
    have i1: "app_inv L T s1" using i0 by (simp add: app_inv_core [OF r1(1)])
    show ?thesis
    proof (cases ok)
      case True
      obtain c s2 where 2: "bg_search E h command (log_serial_raw (line ''APPBG003'') s1) = Some (c, s2)"
        using run 1 False True by (auto simp: eq split: Option.bind_split_asm)
      note r2 = bg_search_frame [OF 2]
      have i2: "app_inv L T s2" using i1 by (simp add: app_inv_core [OF r2(1)])
      show ?thesis
      proof (cases c)
        case (Some x)
        obtain fmt fname n where x: "x = (fmt, fname, n)" by (cases x)
        have st: "staged (Some n) s2" using r2(2) by (simp add: Some x)
        have hv: "shell_apps_host_valid h" using False r1(2) by blast
        show ?thesis using run 1 2 True False Some x i2 launch_background_inv [OF i2 L e hv, of n _ fmt ?nm fname] planned [OF st, of fmt]
          by (auto simp: eq Let_def split_beta split: option.split_asm)
      qed (use run 1 2 True False i2 in \<open>auto simp: eq\<close>)
    qed (use run 1 False i1 in \<open>auto simp: eq\<close>)
  qed
qed

end
