(* ===== verification/App_Handlers.thy ===== *)
theory App_Handlers
  imports App_Commands
begin

text \<open>Exit, fault, stop and the return of the shell from a foreground task, and the first code of a task, keep the invariant.\<close>

unbundle bit_operations_syntax

section \<open>The current task\<close>

lemma active_task:
  assumes inv: "app_inv L T s"
  shows "shell_apps_active_task s = (if in_use (task_at (cur s) s) then Some (cur s) else None)"
proof -
  have i: "sched_inv s" by (rule app_invD(5) [OF inv])
  have "scheduler_get_current_pid s = g_current s" "0 \<le> g_current s" "g_current s < 8"
    using sched_invD(2,3,4,5) [OF i] by (simp_all add: scheduler_get_current_pid_def)
  then show ?thesis by (simp add: shell_apps_active_task_def shell_apps_find_task_def SCHEDULER_MAX_PROCESSES_def)
qed

lemma current_task:
  assumes inv: "app_inv L T s" and u: "in_use (task_at (cur s) s)"
  shows "task_ok (cur s) (task_at (cur s) s)" "3 \<le> cur s" "cur s < 8" "shell_apps_task_valid (task_at (cur s) s)"
    "shell_apps_group_leader_pid (task_at (cur s) s) = leader_pid (task_at (cur s) s)" "t_pid (task_at (cur s) s) = int (cur s)"
    "member s (leader_pid (task_at (cur s) s)) (cur s)"
proof -
  note i = app_invD [OF inv]
  show c: "cur s < 8" by (rule sched_invD(5) [OF i(5)])
  show ok: "task_ok (cur s) (task_at (cur s) s)" "3 \<le> cur s" using tasks_invD(1) [OF i(1) c u] by auto
  show "shell_apps_task_valid (task_at (cur s) s)" "t_pid (task_at (cur s) s) = int (cur s)"
    "shell_apps_group_leader_pid (task_at (cur s) s) = leader_pid (task_at (cur s) s)"
    using task_okD [OF ok(1)] group_leader [OF ok(1)] by simp_all
  show "member s (leader_pid (task_at (cur s) s)) (cur s)" using c ok u by (simp add: member_def)
qed

text \<open>A state that differs in labels and output only.\<close>

definition relabelled :: "'a app_state_scheme \<Rightarrow> 'a app_state_scheme \<Rightarrow> bool" where
  "relabelled s t \<longleftrightarrow> core t = core s \<or> core t = core (upd_task (cur s) (\<lambda>k. k\<lparr>input_ready_logged := False\<rparr>) s)"

lemma relabelled_inv:
  fixes s t :: "'a app_state_scheme"
  assumes r: "relabelled s t" and inv: "app_inv L T s"
  shows "app_inv L T t" "g_current t = g_current s" "member t l p = member s l p"
    "leader_pid (task_at p t) = leader_pid (task_at p s)" "in_use (task_at p t) = in_use (task_at p s)"
proof -
  let ?f = "\<lambda>k :: shell_app_task. k\<lparr>input_ready_logged := False\<rparr>"
  have f: "relabels ?f" by (simp add: relabels_def shell_apps_task_valid_def)
  have ta: "task_at p t = task_at p s \<or> task_at p t = ?f (task_at p s)" for p
    using r app_invD(6) [OF inv] core_task_at [of t s p] core_task_at [of t "upd_task (cur s) ?f s" p]
      sched_invD(5) [OF app_invD(5) [OF inv]]
    by (auto simp: relabelled_def split: if_splits)
  have tl: "leader_pid (task_at p t) = leader_pid (task_at p s)" "in_use (task_at p t) = in_use (task_at p s)" for p
    using ta [of p] by auto
  then show "leader_pid (task_at p t) = leader_pid (task_at p s)" "in_use (task_at p t) = in_use (task_at p s)" by blast+
  show "member t l p = member s l p" by (simp add: member_def tl)
  show "app_inv L T t" using r inv relabel_inv [OF inv f, of "cur s"] app_inv_core [of t s] app_inv_core [of t "upd_task (cur s) ?f s"]
    by (auto simp: relabelled_def)
  show "g_current t = g_current s" using r core_eqD(4) [of t s] core_eqD(4) [of t "upd_task (cur s) ?f s"]
    by (auto simp: relabelled_def upd_task_def)
qed

lemma relabelled_trans_core: "relabelled s t \<Longrightarrow> core u = core t \<Longrightarrow> relabelled s u"
  by (simp add: relabelled_def)

lemma relabelled_core: "core t = core s \<Longrightarrow> relabelled s t"
  by (simp add: relabelled_def)

section \<open>Exit and fault\<close>

lemma core_upd_task:
  fixes s v :: "'a app_state_scheme"
  assumes "core v = core s" shows "core (upd_task p f v) = core (upd_task p f s)"
  using core_eqD [OF assms] by (simp add: core_def upd_task_def)

text \<open>The end of a foreground session, where there is one.\<close>

lemma session_end_relabelled:
  assumes "core v = core s"
  shows "relabelled s (if b then shell_apps_note_session_return E (cur s) (shell_apps_end_foreground_graphics E (cur s) v) else v)"
    "relabelled s (if b then shell_apps_note_session_return E (cur s)
        (shell_apps_task_out L' k x (shell_apps_end_foreground_graphics E (cur s) v)) else v)"
proof -
  have "core (shell_apps_end_foreground_graphics E (cur s) v) = core s"
    "core (shell_apps_task_out L' k x (shell_apps_end_foreground_graphics E (cur s) v)) = core s"
    using assms by (simp_all add: frame_simps)
  note c = this [THEN core_upd_task, of "cur s" "\<lambda>k. k\<lparr>input_ready_logged := False\<rparr>"]
  show "relabelled s (if b then shell_apps_note_session_return E (cur s) (shell_apps_end_foreground_graphics E (cur s) v) else v)"
    "relabelled s (if b then shell_apps_note_session_return E (cur s)
        (shell_apps_task_out L' k x (shell_apps_end_foreground_graphics E (cur s) v)) else v)"
    using assms c by (simp_all add: relabelled_def core_session_return)
qed

lemma exit_steps:
  assumes inv: "app_inv L T s"
  shows "\<exists>u. relabelled s u \<and> shell_apps_on_current_task_exit E L' s =
    (if in_use (task_at (cur s) s) \<and> leader_pid (task_at (cur s) s) = int (cur s)
     then shell_apps_release_group_members L' (leader_pid (task_at (cur s) s)) (int (cur s)) True u else u)"
proof (cases "in_use (task_at (cur s) s)")
  case True
  note c = current_task [OF inv True]
  let ?m = "shell_apps_log_task_marker (ascii ''APPBG190'') (task_at (cur s) s) s"
  define u where "u = (if \<not> background (task_at (cur s) ?m) \<and> int (cur s) = leader_pid (task_at (cur s) s)
    then shell_apps_note_session_return E (cur s) (shell_apps_end_foreground_graphics E (cur s) ?m) else ?m)"
  have "relabelled s u"
    unfolding u_def by (rule session_end_relabelled) (simp add: frame_simps)
  moreover have "shell_apps_on_current_task_exit E L' s =
    (if int (cur s) = leader_pid (task_at (cur s) s)
     then shell_apps_release_group_members L' (leader_pid (task_at (cur s) s)) (int (cur s)) True u else u)"
    using True c by (simp add: shell_apps_on_current_task_exit_def active_task [OF inv] Let_def u_def)
  ultimately show ?thesis using True by (intro exI [of _ u]) auto
next
  case False
  then show ?thesis
    by (intro exI [of _ s]) (simp add: shell_apps_on_current_task_exit_def active_task [OF inv] relabelled_def)
qed

text \<open>The current thread ends: its group first when it leads one.\<close>

lemma end_current_inv:
  assumes inv: "app_inv L T s" and L: "app_layout L" and rel: "relabelled s u"
    and grp: "g \<longrightarrow> in_use (task_at (cur s) s)" "in_use (task_at (cur s) s) \<and> leader_pid (task_at (cur s) s) = int (cur s) \<longrightarrow> g"
    and v: "v = (if g then shell_apps_release_group_members L (leader_pid (task_at (cur s) s)) (int (cur s)) True u else u)"
    and e: "ended L v t"
  shows "app_inv L T t"
proof -
  note r = relabelled_inv [OF rel inv]
  show ?thesis
  proof (cases g)
    case True
    have "member u (leader_pid (task_at (cur s) s)) (cur u)"
      using current_task(7) [OF inv] grp(1) True r(2,3) by simp
    moreover have "ended L (shell_apps_release_group_members L (leader_pid (task_at (cur s) s)) (int (cur u)) True u) t"
      using e v True by (simp only: r(2) if_True)
    ultimately show ?thesis by (rule ended_group_inv [OF r(1) _ _ refl])
  next
    case False
    then have "\<not> (in_use (task_at (cur u) u) \<and> leader_pid (task_at (cur u) u) = int (cur u))" using grp(2) r(2,4,5) by simp
    then show ?thesis using ended_alone_inv [OF r(1)] e v False by simp
  qed
qed

lemma group_slots:
  assumes inv: "app_inv L T u" and L: "app_layout L"
    and v: "v = (if g then shell_apps_release_group_members L l k True u else u)"
  shows "sched_inv v" "g_current v = g_current u" "p < 8 \<Longrightarrow> pdir v p \<noteq> 0"
proof -
  note i = app_invD [OF inv] and ge = group_effect [OF app_invD(5,1) [OF inv] refl, where L = L and leader = l and skip = k]
  show "sched_inv v" "g_current v = g_current u" using v i(5) ge(1,5) by simp_all
  show "pdir v p \<noteq> 0" if "p < 8" using v ge(6) [of p] pdir_nz [OF inv L that] kdir_nz [OF L] by auto
qed

lemma exit_irq_inv:
  assumes inv: "app_inv L T s" and L: "app_layout L" and f: "f \<noteq> 0" and c: "cur s \<noteq> 1"
  shows "app_inv L T (snd (scheduler_exit_current_from_interrupt L f (shell_apps_on_current_task_exit E L s)))"
    "app_inv L T (snd (sched_exit_current L f (shell_apps_on_current_task_exit E L s)))"
proof -
  let ?g = "in_use (task_at (cur s) s) \<and> leader_pid (task_at (cur s) s) = int (cur s)"
  obtain u where u: "relabelled s u" "shell_apps_on_current_task_exit E L s =
    (if ?g then shell_apps_release_group_members L (leader_pid (task_at (cur s) s)) (int (cur s)) True u else u)"
    using exit_steps [OF inv] by blast
  note r = relabelled_inv [OF u(1) inv] and gs = group_slots [OF relabelled_inv(1) [OF u(1) inv] L u(2)]
  have c': "cur (shell_apps_on_current_task_exit E L s) \<noteq> 1" using c gs(2) r(2) by simp
  show "app_inv L T (snd (scheduler_exit_current_from_interrupt L f (shell_apps_on_current_task_exit E L s)))"
    by (rule end_current_inv [OF inv L u(1) _ _ u(2) exit_irq_ended [OF gs(1) f c' gs(3)]]) auto
  show "app_inv L T (snd (sched_exit_current L f (shell_apps_on_current_task_exit E L s)))"
    by (rule end_current_inv [OF inv L u(1) _ _ u(2) exit_task_ended [OF gs(1) f c' L gs(3)]]) auto
qed

lemma fault_steps:
  assumes inv: "app_inv L T s"
  shows "\<exists>u. relabelled s u \<and> shell_apps_on_current_task_fault E L' vec err eip s =
    (if in_use (task_at (cur s) s)
     then shell_apps_release_group_members L' (leader_pid (task_at (cur s) s)) (int (cur s)) True u else u)"
proof (cases "in_use (task_at (cur s) s)")
  case True
  note c = current_task [OF inv True]
  let ?m = "log_fault (task_at (cur s) s) vec err eip s"
  let ?x = "line ''App faulted and was terminated''"
  let ?b = "\<not> background (task_at (cur s) ?m) \<and> int (cur s) = leader_pid (task_at (cur s) s)"
  define g where "g = shell_apps_end_foreground_graphics E (cur s) ?m"
  define u where "u = (if ?b then shell_apps_note_session_return E (cur s) (shell_apps_task_out L' (task_at (cur s) g) ?x g) else ?m)"
  have "relabelled s u" unfolding u_def g_def by (rule session_end_relabelled(2)) (simp add: frame_simps)
  moreover have "shell_apps_on_current_task_fault E L' vec err eip s =
     shell_apps_release_group_members L' (leader_pid (task_at (cur s) s)) (int (cur s)) True u"
    using True c by (simp add: shell_apps_on_current_task_fault_def active_task [OF inv] Let_def u_def g_def)
  ultimately show ?thesis using True by (intro exI [of _ u]) simp
next
  case False
  then show ?thesis
    by (intro exI [of _ s]) (simp add: shell_apps_on_current_task_fault_def active_task [OF inv] relabelled_def)
qed

lemma fault_inv:
  assumes inv: "app_inv L T s" and L: "app_layout L" and f: "f \<noteq> 0" and c: "cur s \<noteq> 1"
  shows "app_inv L T (snd (scheduler_exit_current_from_interrupt L f (shell_apps_on_current_task_fault E L vec err eip s)))"
proof -
  obtain u where u: "relabelled s u" "shell_apps_on_current_task_fault E L vec err eip s =
    (if in_use (task_at (cur s) s) then shell_apps_release_group_members L (leader_pid (task_at (cur s) s)) (int (cur s)) True u else u)"
    using fault_steps [OF inv] by blast
  note r = relabelled_inv [OF u(1) inv] and gs = group_slots [OF relabelled_inv(1) [OF u(1) inv] L u(2)]
  have c': "cur (shell_apps_on_current_task_fault E L vec err eip s) \<noteq> 1" using c gs(2) r(2) by simp
  show ?thesis by (rule end_current_inv [OF inv L u(1) _ _ u(2) exit_irq_ended [OF gs(1) f c' gs(3)]]) auto
qed

section \<open>Stopping a task and returning from one\<close>

lemma stop_inv:
  assumes inv: "app_inv L T s" and L: "app_layout L" and c: "cur s < 3"
  shows "app_inv L T (snd (shell_apps_stop_background L pid s))"
proof -
  define u where "u = shell_apps_reap_terminated_tasks s"
  have iu: "app_inv L T u" and th: "same_threads s u" using reap_inv(1,2) [OF inv L] by (simp_all add: u_def)
  note i = app_invD [OF iu]
  show ?thesis
  proof (cases "shell_apps_find_task pid u")
    case None
    then show ?thesis using iu by (simp add: shell_apps_stop_background_def Let_def flip: u_def)
  next
    case (Some x)
    have x: "x < 8" "in_use (task_at x u)"
      using Some by (auto simp: shell_apps_find_task_def SCHEDULER_MAX_PROCESSES_def split: if_splits)
    then have ok: "task_ok x (task_at x u)" using tasks_invD(1) [OF i(1)] by blast
    define l where "l = nat (leader_pid (task_at x u))"
    have l: "leader_pid (task_at x u) = int l" "3 \<le> l" "l < 8" "\<not> int l < APP_SLOT_FIRST_PID"
      using task_okD(3,4) [OF ok] by (simp_all add: l_def APP_SLOT_FIRST_PID_def)
    define v where "v = shell_apps_release_group_members L (int l) (int l) True u"
    note g = group_effect [OF i(5,1) v_def]
    define t where "t = snd (scheduler_terminate_process L (int l) v)"
    note ts = terminate_slot [OF g(1) l(2,3), where L = L, folded t_def]
    have eq: "snd (shell_apps_stop_background L pid s) = t"
      using Some l(1,4) group_leader [OF ok] by (simp add: shell_apps_stop_background_def Let_def v_def t_def flip: u_def)
    have cu: "cur u < 3" using c same_threadsD(2) [OF th] by simp
    have sl: "slot_at p t = (if (member u (int l) p \<or> p = l) \<and> live (st u p) then sched_mark_terminated L (slot_at p u) else slot_at p u)" for p
      using ts(1) [of p] g(6) [of p] by (auto simp: live_def)
    have "app_inv L T t"
    proof (rule kill_inv [OF iu, where K = "insert l (Collect (member u (int l)))"])
      have m: "sched_state.more t = sched_state.more u" using g(2) terminate_more [of L "int l" v] by (simp add: t_def)
      show "g_app_tasks t = g_app_tasks u" "g_app_phys_page_used t = g_app_phys_page_used u" by (rule more_app [OF m])+
      show "m_mem t = m_mem u" using ts(4) g(3) by simp
      show "sched_inv t" unfolding t_def by (rule terminate_inv [OF g(1)])
      have "slot_at (cur u) t = slot_at (cur u) u" using sl [of "cur u"] cu l(2) by (simp add: member_def)
      then show "m_cr3 t = pdir t (cur t)" "live (st t (cur t))" using i(9,10) ts(2,3) g(4,5) by simp_all
      show "\<not> live (st t p) \<and> (pdir t p = kdir L \<or> pdir t p = pdir u p)" if "p < 8" "p \<in> insert l (Collect (member u (int l)))" for p
        using sl [of p] that by (auto simp: live_def)
      show "(live (st t p) \<longleftrightarrow> live (st u p)) \<and> pdir t p = pdir u p" if "p < 8" "p \<notin> insert l (Collect (member u (int l)))" for p
        using sl [of p] that by auto
      show "p \<in> insert l (Collect (member u (int l)))"
        if p: "p < 8" "app_thread u p" and q: "nat (leader_pid (task_at p u)) \<in> insert l (Collect (member u (int l)))" for p
      proof (cases "nat (leader_pid (task_at p u)) = l")
        case True
        have "owner_ok u p" by (rule threads_invD(2) [OF i(3) p])
        then have m: "in_use (task_at p u)" "task_ok p (task_at p u)" "3 \<le> p" using tasks_invD(1) [OF i(1) p(1)] by (auto simp: owner_ok_def)
        have "leader_pid (task_at p u) = int l" using True l(2) by linarith
        then show ?thesis using m p(1) by (simp add: member_def)
      next
        case False
        then show ?thesis using group_closed [OF iu p] q by blast
      qed
    qed
    then show ?thesis using eq by simp
  qed
qed

lemma exited_not_thread:
  assumes "sched_inv s" "3 \<le> p" "p < 8" "task_exited (int p) s" shows "\<not> app_thread s p"
  using assms sched_invD(2) [of s]
  by (auto simp: task_exited_def scheduler_get_process_state_def app_thread_def live_def APP_SLOT_FIRST_PID_def SCHEDULER_MAX_PROCESSES_def)

lemma finish_inv:
  assumes inv: "app_inv L T s" and L: "app_layout L" and p: "3 \<le> p" "p < 8" and ex: "task_exited (int p) s"
  shows "app_inv L T (snd (finish_foreground E p host s))"
proof -
  let ?u = "shell_apps_end_foreground_graphics E p s"
  have k: "core ?u = core s" by (simp add: frame_simps)
  have "app_inv L T ?u" using inv by (simp add: app_inv_core [OF k])
  moreover have "\<not> app_thread ?u p"
    using exited_not_thread [OF app_invD(5) [OF inv] p ex] same_threadsD(4) [OF same_threads_core [OF k]] by simp
  ultimately show ?thesis using release_inv [OF _ L p(2)] by (simp add: finish_foreground_def Let_def)
qed

end
