(* ===== verification/App_Main.thy ===== *)
theory App_Main
  imports App_Handlers Scheduler_Main
begin

text \<open>The steps of the running system that concern applications, and the invariant of every state they reach.\<close>

unbundle bit_operations_syntax

section \<open>The first code of a task\<close>

lemma origin_app_inv: "app_inv L T s \<Longrightarrow> app_inv L T (scheduler_set_current_origin org ex s)"
  using set_origin_inv [OF app_invD(5), of L T s org ex]
  by (auto simp: scheduler_set_current_origin_def sched_set_slot_origin_def intro!: upd_slot_inv split: if_splits)

lemma enter_user_app_inv:
  fixes s :: "'a app_state_scheme"
  assumes inv: "app_inv L T s" shows "app_inv L T (snd (scheduler_enter_current_user_mode e u s))"
proof -
  let ?f = "\<lambda>p :: process. p\<lparr>p_context := (p_context p)\<lparr>user_esp := u\<rparr>\<rparr>"
  let ?t = "snd (scheduler_enter_current_user_mode e u s)"
  note i = sched_invD [OF app_invD(5) [OF inv]]
  have "sched_inv (upd_slot (cur s) ?f s)"
    using i by (intro sched_inv_upd [OF app_invD(5) [OF inv]]) (auto simp: keeps_slot_def)
  then have n: "app_inv L T (upd_slot (cur s) ?f s)" by (intro upd_slot_inv [OF inv]) simp_all
  have "core ?t = core s \<or> core ?t = core (upd_slot (cur s) ?f s)"
  proof (cases "e = 0 \<or> u = 0")
    case False
    have m: "sched_state.more ?t = sched_state.more (upd_slot (cur s) ?f s)" by (simp add: frame_simps)
    have "core ?t = core (upd_slot (cur s) ?f s)" using False i(2,3) more_app [OF m]
      by (simp add: core_def) (simp add: scheduler_enter_current_user_mode_def Let_def paging_set_kernel_stack_top_def cli_def)
    then show ?thesis ..
  qed (auto simp: scheduler_enter_current_user_mode_def frame_simps)
  then show ?thesis
  proof
    assume k: "core ?t = core s"
    show ?thesis using inv by (simp add: app_inv_core [OF k])
  next
    assume k: "core ?t = core (upd_slot (cur s) ?f s)"
    show ?thesis using n by (simp add: app_inv_core [OF k])
  qed
qed

text \<open>Setting up the stack and the runtime area of a task never fails, and the thread enters user mode.\<close>

lemma background_thread_inv:
  fixes s :: "('h, 'p, 'a) os_state_scheme"
  assumes inv: "app_inv L T s" and L: "app_layout L"
  shows "app_inv L T (snd (shell_apps_background_thread E L' (cur s) f s))"
    "fst (shell_apps_background_thread E L' (cur s) f s) = None
      \<longleftrightarrow> \<not> in_use (task_at (cur s) s)" "\<nexists>r. fst (shell_apps_background_thread E L' (cur s) f s) = Some (Inr r)"
proof -
  let ?r = "shell_apps_background_thread E L' (cur s) f s"
  have "app_inv L T (snd ?r) \<and> (fst ?r = None \<longleftrightarrow> \<not> in_use (task_at (cur s) s)) \<and> (\<nexists>r. fst ?r = Some (Inr r))"
  proof (cases "in_use (task_at (cur s) s)")
    case True
    let ?f = "\<lambda>t :: shell_app_task. t\<lparr>input_ready_logged := False\<rparr>"
    define s1 where "s1 = shell_apps_begin_input_session (cur s) s"
    define s2 where "s2 = (if origin_name (task_at (cur s) s1) \<noteq> [] then shell_apps_begin_scheduler_origin (origin_name (task_at (cur s) s1)) s1 else s1)"
    define s3 where "s3 = shell_apps_begin_foreground_graphics E (cur s) (shell_apps_ensure_interrupts_enabled s2)"
    define s4 where "s4 = shell_apps_log_task_marker (ascii ''APPBG100'') (task_at (cur s) s3) s3"
    have "relabelled s s1" by (simp add: relabelled_def s1_def shell_apps_begin_input_session_def)
    note r = relabelled_inv [OF this inv]
    have i2: "app_inv L T s2" using r(1) by (simp add: s2_def shell_apps_begin_scheduler_origin_def origin_app_inv [OF r(1)])
    have m: "sched_state.more s2 = sched_state.more s1" by (simp add: s2_def shell_apps_begin_scheduler_origin_def frame_simps)
    have k: "core s4 = core s2"
      by (simp add: s4_def s3_def shell_apps_ensure_interrupts_enabled_def frame_simps)
    have i4: "app_inv L T s4" using i2 by (simp add: app_inv_core [OF k])
    have u4: "in_use (task_at (cur s) s4)"
      using True r(5) more_app(1) [OF m] core_eqD(1) [OF k] by (simp add: task_at_def)
    have c: "cur s < 8" by (rule sched_invD(5) [OF app_invD(5) [OF inv]])
    have ok: "3 \<le> cur s" "task_ok (cur s) (task_at (cur s) s4)" using tasks_invD(1) [OF app_invD(1) [OF i4] c u4] by auto
    obtain e sp mm where l: "shell_apps_prepare_user_launch (task_at (cur s) s4) s4 = (Some (e, sp), s4\<lparr>m_mem := mm\<rparr>)" "calm {} (m_mem s4) mm"
      using user_launch_ok [OF ok(2,1) c] by blast
    have "app_inv L T (s4\<lparr>m_mem := mm\<rparr>)" by (rule mem_inv [OF i4 L l(2)])
    then have "app_inv L T (snd (scheduler_enter_current_user_mode e sp (s4\<lparr>m_mem := mm\<rparr>)))" by (rule enter_user_app_inv)
    moreover have "?r = (Some (Inl (fst (scheduler_enter_current_user_mode e sp (s4\<lparr>m_mem := mm\<rparr>)))),
        snd (scheduler_enter_current_user_mode e sp (s4\<lparr>m_mem := mm\<rparr>)))"
      using True l(1) by (simp add: shell_apps_background_thread_def Let_def split_beta flip: s1_def s2_def s3_def s4_def)
    ultimately show ?thesis using True by simp
  qed (use inv in \<open>simp add: shell_apps_background_thread_def\<close>)
  then show "app_inv L T (snd ?r)" "fst ?r = None \<longleftrightarrow> \<not> in_use (task_at (cur s) s)" "\<nexists>r. fst ?r = Some (Inr r)" by blast+
qed

section \<open>The start\<close>

lemma unmap_frame: "\<exists>m. snd (paging_unmap_page L va s) = s\<lparr>m_mem := m\<rparr>"
proof (cases "paging_lookup_pte L va s")
  case None
  then show ?thesis by (intro exI [of _ "m_mem s"]) (simp add: paging_unmap_page_def)
qed (auto simp: paging_unmap_page_def)

lemma guard_loop_frame: "\<exists>m. snd (guard_pages_loop L is s) = s\<lparr>m_mem := m\<rparr>"
proof (induction "is" arbitrary: s)
  case Nil
  then show ?case by (intro exI [of _ "m_mem s"]) simp
next
  case (Cons i "is")
  obtain m ok where m: "paging_unmap_page L (guard_page_base (p_context (slot_at i s))) s = (ok, s\<lparr>m_mem := m\<rparr>)"
    using unmap_frame [of L "guard_page_base (p_context (slot_at i s))" s] by (metis prod.collapse)
  obtain m' where m': "snd (guard_pages_loop L is (s\<lparr>m_mem := m\<rparr>)) = s\<lparr>m_mem := m'\<rparr>"
    using Cons.IH [of "s\<lparr>m_mem := m\<rparr>"] by auto
  have "\<exists>k. s = s\<lparr>m_mem := k\<rparr>" by (intro exI [of _ "m_mem s"]) simp
  then show ?case using m m' by (auto simp: Let_def)
qed

lemma reset_fold_more: "sched_state.more (fold (\<lambda>i. sched_reset_slot L i nm x) is s) = sched_state.more s"
  by (induction "is" arbitrary: s) (simp_all add: sched_reset_slot_def frame_simps)

lemma reset_dir: "page_directory (p_context (reset_process L i nm x p)) = kdir L" "p_state (reset_process L i nm x p) = x"
  by (simp_all add: reset_process_def Let_def sched_set_slot_name_def sched_set_slot_origin_def paging_get_kernel_directory_def)

lemma init_spaces:
  assumes len: "length (g_slots s) = 8" and new: "\<not> g_runtime_ready s" and init: "scheduler_runtime_init L s = (True, t)"
  shows "sched_state.more t = sched_state.more s" "p < 8 \<Longrightarrow> pdir t p = kdir L" "m_cr3 t = kdir L" "p < 8 \<Longrightarrow> live (st t p) \<longleftrightarrow> p < 2"
proof -
  let ?nm = "Some (ascii ''unused'')"
  define s1 where "s1 = fold (\<lambda>i. sched_reset_slot L i ?nm PROCESS_UNUSED) [0..<8] s"
  define s2 where "s2 = sched_reset_slot L 1 (Some (ascii ''idle'')) PROCESS_READY
    (sched_reset_slot L 0 (Some (ascii ''kernel'')) PROCESS_RUNNING s1)"
  note r1 = reset_all_slots [OF len, where L = L and nm = "?nm" and x = PROCESS_UNUSED, folded s1_def]
  have len2: "length (g_slots s2) = 8" using r1 by (simp add: s2_def sched_reset_slot_def)
  have d2: "pdir s2 p = kdir L" "st s2 p = (if p = 0 then PROCESS_RUNNING else if p = 1 then PROCESS_READY else PROCESS_UNUSED)" if "p < 8" for p
    using r1 that by (auto simp: s2_def sched_reset_slot_def reset_dir)
  have m2: "sched_state.more s2 = sched_state.more s" by (simp add: s2_def s1_def reset_fold_more sched_reset_slot_def frame_simps)
  obtain ok s3 where g: "guard_pages_loop L [1..<8] s2 = (ok, s3)" by (cases "guard_pages_loop L [1..<8] s2")
  obtain m where s3: "s3 = s2\<lparr>m_mem := m\<rparr>" using guard_loop_frame [of L "[1..<8]" s2] g by auto
  define s4 where "s4 = sched_prepare_kernel_thread L 1 (lm_idle_thread L) 0 s3"
  have len3: "length (g_slots s3) = 8" using len2 by (simp add: s3)
  note pr = prepare_thread [OF len3, where idx = 1 and L = L and entry = "lm_idle_thread L" and arg = 0, folded s4_def]
  have ok: ok
    using init new g unfolding scheduler_runtime_init_def sched_consts sched_guard_pages_init_def
    by (simp add: Let_def s1_def [symmetric] s2_def [symmetric] del: upt_Suc One_nat_def split: if_splits)
  define v where "v = paging_set_kernel_stack_top (kernel_stack_top (p_context (slot_at 0 s4)))
    (paging_activate_directory L (pdir s4 0) (s4\<lparr>g_current := 0, g_runtime_ready := True, g_quantum_ticks := SCHED_DEFAULT_QUANTUM,
       g_slice_ticks_left := SCHED_DEFAULT_QUANTUM\<rparr>))"
  have g0: "slot_at 0 (s4\<lparr>g_current := 0, g_runtime_ready := True\<rparr>) = slot_at 0 s4" by (simp add: slot_at_def)
  have t: "t = log_serial_raw (ascii ''[sched] runtime initialized with guarded kernel stacks'' @ [Logger.newline])
     (sched_log_marker (ascii ''SCHED110'') (Some (ascii '' guarded-kstacks-armed''))
       (sched_log_marker (ascii ''SCHED100'') (Some (ascii '' runtime-init'')) v))"
    using init new g ok unfolding scheduler_runtime_init_def sched_consts sched_guard_pages_init_def
    by (simp add: Let_def s1_def [symmetric] s2_def [symmetric] s4_def [symmetric] v_def g0 del: upt_Suc One_nat_def)
  have sl: "slot_at p t = slot_at p s4" for p
    by (simp add: t v_def paging_set_kernel_stack_top_def paging_activate_directory_def load_page_directory_def slot_at_def)
  have sl4: "pdir s4 p = pdir s2 p" "st s4 p = st s2 p" for p using pr(1) [of p] by (simp_all add: s3)
  show "p < 8 \<Longrightarrow> pdir t p = kdir L" "p < 8 \<Longrightarrow> live (st t p) \<longleftrightarrow> p < 2" using d2 [of p] by (auto simp: sl sl4 live_def)
  have "pdir s4 0 = kdir L" using d2(1) [of 0] sl4 by simp
  then show "m_cr3 t = kdir L"
    by (simp add: t v_def sched_log_marker_def paging_set_kernel_stack_top_def paging_activate_directory_def load_page_directory_def)
  show "sched_state.more t = sched_state.more s"
    using m2 by (simp add: t v_def sched_log_marker_def paging_set_kernel_stack_top_def paging_activate_directory_def load_page_directory_def
        frame_simps s4_def s3 sched_prepare_kernel_thread_def Let_def)
qed

text \<open>The task table and the bitmap are zero when the scheduler starts.\<close>

lemma boot_app_inv:
  assumes L: "app_layout L" and b: "layout_ok L" "tables_off_arena L" "kmap L T (m_mem s)" "kfull T (m_mem s)" "T 1 = Some pt"
    "length (g_slots s) = 8" "\<not> g_runtime_ready s"
    and z: "g_app_tasks s = replicate 8 zero_task" "g_app_phys_page_used s = replicate 1024 False"
    and init: "scheduler_runtime_init L s = (ok, t)"
  shows "ok" "app_inv L T t"
proof -
  have t: "ok" "sched_inv t" "g_current t = 0" "kmap L T (m_mem t)" using runtime_init_ok [OF b] init by auto
  then show ok by blast
  note sp = init_spaces [OF b(6,7) init [unfolded eqTrueI [OF t(1)]]]
  note a = more_app [OF sp(1)]
  have ta: "task_at p t = zero_task" if "p < 8" for p using that a(1) z(1) by (simp add: task_at_def)
  have zt: "\<not> in_use zero_task" "\<not> owns_app_memory zero_task" by (simp_all add: zero_task_def)
  have no: "\<not> app_thread t p" if "p < 8" for p using sp(2) [OF that] tdir_kdir [OF L that] by (auto simp: app_thread_def)
  have "tasks_inv t" using a(1) z(1) ta zt by (simp add: tasks_inv_def)
  moreover have "arena_inv t" using a(2) z(2) ta zt by (auto simp: arena_inv_def owns_def)
  moreover have "threads_inv L t" using t(2,3) sp no by (simp add: threads_inv_def)
  moreover have "dirs_inv L T t" using t(4) no by (simp add: dirs_inv_def)
  ultimately show "app_inv L T t" by (simp add: app_inv_def)
qed

section \<open>Steps\<close>

text \<open>A thread of the kernel takes a free slot.\<close>

lemma kernel_spawn_inv:
  fixes s :: "'a app_state_scheme"
  assumes inv: "app_inv L T s" and L: "app_layout L" and e: "entry \<noteq> 0"
  shows "app_inv L T (snd (scheduler_spawn_kernel_task L (Some nm) org ex entry arg 0 s))"
proof -
  obtain r t where sp: "scheduler_spawn_kernel_task L (Some nm) org ex entry arg 0 s = (r, t)"
    by (cases "scheduler_spawn_kernel_task L (Some nm) org ex entry arg 0 s")
  note iv = app_invD [OF inv]
  consider (none) "core t = core s"
    | (new) i where "3 \<le> i" "i < 8" "\<not> live (st s i)" "i \<noteq> cur s" "sched_inv t" "g_current t = g_current s" "m_cr3 t = m_cr3 s"
        "\<forall>j. j \<noteq> i \<longrightarrow> slot_at j t = slot_at j s" "pdir t i = kdir L"
        "g_app_tasks t = g_app_tasks s" "g_app_phys_page_used t = g_app_phys_page_used s" "calm {} (m_mem s) (m_mem t)"
    using spawn_cases [OF inv e sp] by auto
  then have "app_inv L T t"
  proof cases
    case none
    show ?thesis using inv by (simp add: app_inv_core [OF none])
  next
    case new
    have ta: "task_at p t = task_at p s" for p using new(10) by (simp add: task_at_def)
    have th: "app_thread t p \<longleftrightarrow> app_thread s p" if "p < 8" for p
      using new(3,8,9) tdir_kdir [OF L that] by (cases "p = i") (auto simp: app_thread_def)
    have own: "owner_ok t p" if p: "p < 8" "app_thread s p" for p
    proof -
      have o: "owner_ok s p" by (rule threads_invD(2) [OF iv(3) p])
      then have "nat (leader_pid (task_at p s)) < 8" using tasks_invD(1) [OF iv(1) p(1)] by (auto simp: owner_ok_def task_ok_def)
      then show ?thesis using o th by (simp add: owner_ok_def ta Let_def)
    qed
    have "pdir t p = kdir L \<or> pdir t p = tdir p" if "p < 8" for p
      using new(8,9) threads_invD(1) [OF iv(3) that] by (cases "p = i") simp_all
    then have "threads_inv L t" using new th own iv(9,10) by (simp add: threads_inv_def)
    moreover have "tasks_inv t" using iv(1) new(10) by (simp add: tasks_inv_def ta)
    moreover have "arena_inv t" by (rule arena_inv_same [OF iv(2) _ new(11)]) (simp add: owns_def ta)
    moreover have "dirs_inv L T t" by (rule dirs_inv_calm [OF iv(4) L new(12)]) (simp_all add: th ta)
    ultimately show ?thesis by (simp add: app_inv_def)
  qed
  then show ?thesis by (simp add: sp)
qed

text \<open>
  One step of the system: a timer interrupt, a yield or a sleep; a command of the shell, which runs in one of the first threads;
  the creation of a kernel thread, as the video stress test does it; the start, the exit and the fault of the current thread, and
  a thread it creates; a store in user mode, or by a system call through the same mapping; and kernel code that touches none of this.

  A command of the shell that starts or ends programs (\<open>run\<close>, \<open>joined\<close>, \<open>run_background\<close>, \<open>stop\<close>) is one step, which no other
  thread interrupts. The code does not ensure this: the shell runs with interrupts and preemption on, and only the
  operations of the page bitmap and the creation of the thread itself disable interrupts. What goes wrong when a tick falls between the
  search for a free task and the start of its thread is shown in \<open>App_Boot\<close>.
\<close>

inductive app_step :: "('h, 'p) os_env \<Rightarrow> 'l os_link_scheme \<Rightarrow> ('h, 'p, 'a) os_state_scheme \<Rightarrow> ('h, 'p, 'a) os_state_scheme \<Rightarrow> bool"
  for E :: "('h, 'p) os_env" and L :: "'l os_link_scheme" where
  tick: "f \<noteq> 0 \<Longrightarrow> app_step E L s (snd (scheduler_on_timer_tick L f s))"
| yield_irq: "f \<noteq> 0 \<Longrightarrow> app_step E L s (snd (scheduler_on_yield L f s))"
| sleep: "cur s \<noteq> 1 \<Longrightarrow> app_step E L s (sleep_block ticks s)"
| run: "cur s < 3 \<Longrightarrow> shell_apps_try_execute_program E L host command args s = Some (r, host', t) \<Longrightarrow> app_step E L s t"
| joined: "cur s < 3 \<Longrightarrow> 3 \<le> p \<Longrightarrow> p < 8 \<Longrightarrow> task_exited (int p) s \<Longrightarrow> app_step E L s (snd (finish_foreground E p host s))"
| run_background: "cur s < 3 \<Longrightarrow> shell_apps_run_background E L host command s = Some (r', host', t) \<Longrightarrow> app_step E L s t"
| stop: "cur s < 3 \<Longrightarrow> app_step E L s (snd (shell_apps_stop_background L pid s))"
| reap: "app_step E L s (shell_apps_reap_terminated_tasks s)"
| kernel_thread: "entry \<noteq> 0 \<Longrightarrow> app_step E L s (snd (scheduler_spawn_kernel_task L (Some nm) org ex entry arg 0 s))"
| start: "app_step E L s (snd (shell_apps_background_thread E L (cur s) f s))"
| exit_call: "f \<noteq> 0 \<Longrightarrow> cur s \<noteq> 1 \<Longrightarrow>
    app_step E L s (snd (scheduler_exit_current_from_interrupt L f (shell_apps_on_current_task_exit E L s)))"
| exit_thread: "f \<noteq> 0 \<Longrightarrow> cur s \<noteq> 1 \<Longrightarrow> app_step E L s (snd (sched_exit_current L f (shell_apps_on_current_task_exit E L s)))"
| fault: "f \<noteq> 0 \<Longrightarrow> cur s \<noteq> 1 \<Longrightarrow>
    app_step E L s (snd (scheduler_exit_current_from_interrupt L f (shell_apps_on_current_task_fault E L vec err eip s)))"
| thread_spawn: "app_thread s (cur s) \<Longrightarrow> shell_apps_spawn_app_thread L (cur s) spec s = Some (pid, t) \<Longrightarrow> app_step E L s t"
| user_store: "user_cell s va = Some a \<Longrightarrow> app_step E L s (s\<lparr>m_mem := (m_mem s)(a := w)\<rparr>)"
| other: "core t = core s \<Longrightarrow> app_step E L s t"

inductive_cases app_stepE: "app_step E L s t"

lemma app_step_inv:
  assumes "app_step E L s t" and L: "app_layout L" and e: "lm_background_thread L \<noteq> 0" and inv: "app_inv L T s"
  shows "app_inv L T t"
  using assms(1)
proof cases
  case tick then show ?thesis by (simp add: tick_inv [OF inv L])
next
  case yield_irq then show ?thesis by (simp add: yield_inv [OF inv L])
next
  case sleep then show ?thesis by (simp add: block_inv [OF inv])
next
  case run then show ?thesis by (intro try_execute_program_inv [OF inv L e])
next
  case joined then show ?thesis by (simp add: finish_inv [OF inv L])
next
  case run_background then show ?thesis by (intro run_background_inv [OF inv L e])
next
  case stop then show ?thesis by (simp add: stop_inv [OF inv L])
next
  case reap then show ?thesis by (simp add: reap_inv(1) [OF inv L])
next
  case kernel_thread then show ?thesis by (simp add: kernel_spawn_inv [OF inv L])
next
  case start then show ?thesis by (simp add: background_thread_inv(1) [OF inv L])
next
  case exit_call then show ?thesis by (simp add: exit_irq_inv(1) [OF inv L])
next
  case exit_thread then show ?thesis by (simp add: exit_irq_inv(2) [OF inv L])
next
  case fault then show ?thesis by (simp add: fault_inv [OF inv L])
next
  case thread_spawn then show ?thesis by (intro spawn_thread_inv [OF inv L e])
next
  case user_store then show ?thesis by (simp add: user_store_inv [OF inv L])
next
  case other then show ?thesis using inv by (simp add: app_inv_core [OF other])
qed

lemma reachable_app_inv:
  assumes "(app_step E L)\<^sup>*\<^sup>* s t" "app_layout L" "lm_background_thread L \<noteq> 0" "app_inv L T s"
  shows "app_inv L T t"
  using assms by (induction rule: rtranclp_induct) (auto intro: app_step_inv)

end
