(* ===== verification/App_Props.thy ===== *)
theory App_Props
  imports App_Main
begin

text \<open>What the invariant of the application layer means for programs, a concrete system of two applications, and the end of a group of threads.\<close>

unbundle bit_operations_syntax

section \<open>Consequences of the invariant\<close>

abbreviation arena_page :: "nat \<Rightarrow> nat" where
  "arena_page a \<equiv> (a - 0x700000) div 4096"

text \<open>A user page of a thread is a page that the leader of its group owns.\<close>

lemma thread_page:
  assumes inv: "app_inv L T s" and p: "p < 8" "app_thread s p"
    and v: "translate (m_mem s) (task_page_directory p) va = Some v" "pv_user v"
  shows "0x700000 \<le> pv_phys v" "pv_phys v < 0xB00000" "nat (leader_pid (task_at p s)) < 8"
    "owns s (nat (leader_pid (task_at p s))) (arena_page (pv_phys v))" "arena_page (pv_phys v) < 1024"
    "g_app_phys_page_used s ! arena_page (pv_phys v)" "3 \<le> leader_pid (task_at p s)"
proof -
  note i = app_invD [OF inv]
  let ?l = "nat (leader_pid (task_at p s))"
  have o: "owner_ok s p" by (rule threads_invD(2) [OF i(3) p])
  then have ok: "task_ok p (task_at p s)" using tasks_invD(1) [OF i(1) p(1)] by (auto simp: owner_ok_def)
  then show l: "?l < 8" "3 \<le> leader_pid (task_at p s)" by (auto simp: task_ok_def)
  obtain k n where r: "arena_range (app_phys_base (task_at p s)) (app_slot_bytes (task_at p s)) k n" using ok by (auto simp: task_ok_def)
  then have b: "unat (app_phys_base (task_at p s)) = 0x700000 + 4096 * k" "unat (app_slot_bytes (task_at p s)) = 4096 * n" "k + n \<le> 1024"
    by (simp_all add: arena_range_def)
  obtain x where x: "pv_phys v = 0x700000 + 4096 * k + x" "x < 4096 * n"
    using user_view(1,2,4) [OF inv p v] b by (intro that [of "unat va - 0x1000000"]) linarith+
  then have ar: "arena_page (pv_phys v) = k + x div 4096" "x div 4096 < n" by (simp_all add: less_mult_imp_div_less mult.commute)
  show "0x700000 \<le> pv_phys v" "pv_phys v < 0xB00000" using x b(3) by linarith+
  show lt: "arena_page (pv_phys v) < 1024" using ar b(3) by linarith
  have "app_phys_base (task_at ?l s) = app_phys_base (task_at p s)" "app_slot_bytes (task_at ?l s) = app_slot_bytes (task_at p s)"
    using o by (simp_all add: owner_ok_def Let_def)
  then have "pages_of (task_at ?l s) = {k ..< k + n}" using pages_of_range [of "task_at ?l s" k n] r by simp
  then show ow: "owns s ?l (arena_page (pv_phys v))" using o ar by (simp add: owns_def owner_ok_def Let_def)
  show "g_app_phys_page_used s ! arena_page (pv_phys v)" using arena_invD(1) [OF i(2) lt] ow l(1) by blast
qed

lemma page_apart:
  assumes "arena_page a \<noteq> arena_page b" "0x700000 \<le> a" "0x700000 \<le> b"
  shows "a div 4096 \<noteq> (b :: nat) div 4096"
proof -
  obtain x y where "a = 0x700000 + x" "b = 0x700000 + y" using assms(2,3) le_Suc_ex by metis
  moreover have "(0x700000 + z) div 4096 = 0x700 + z div (4096 :: nat)" for z
    by (subst div_plus_div_distrib_dvd_left) simp_all
  ultimately show ?thesis using assms(1) by simp
qed

lemma groups_apart:
  assumes inv: "app_inv L T s" and p: "p < 8" "app_thread s p" and q: "q < 8" "app_thread s q"
    and ne: "leader_pid (task_at p s) \<noteq> leader_pid (task_at q s)"
    and v: "translate (m_mem s) (task_page_directory p) va = Some v" "pv_user v"
    and w: "translate (m_mem s) (task_page_directory q) wa = Some w" "pv_user w"
  shows "pv_phys v div 4096 \<noteq> pv_phys w div 4096"
proof -
  note a = thread_page [OF inv p v] and b = thread_page [OF inv q w]
  have "nat (leader_pid (task_at p s)) \<noteq> nat (leader_pid (task_at q s))" using ne a(7) b(7) by linarith
  then have "arena_page (pv_phys v) \<noteq> arena_page (pv_phys w)"
    using arena_invD(2) [OF app_invD(2) [OF inv] a(3) b(3) a(4)] b(4) by metis
  then show ?thesis using page_apart a(1) b(1) by blast
qed

section \<open>A system with two applications\<close>

text \<open>The cells of the tables of a task.\<close>

definition task_cells :: "nat \<Rightarrow> nat \<Rightarrow> u32 \<Rightarrow> nat \<Rightarrow> (nat \<Rightarrow> u32) \<Rightarrow> nat \<Rightarrow> u32" where
  "task_cells dir p base n mem = store_range (task_user_pt p) 1024 (\<lambda>j. if j < n then (base + of_nat j * 0x1000) OR APP_FLAGS else 0)
     (store_range (task_page_directory p) 1024 (\<lambda>j. if j = 4 then of_nat (task_user_pt p) OR APP_FLAGS else mem (dir + 4 * j)) mem)"

lemma task_cells_calm: "p < 8 \<Longrightarrow> calm {p} mem (task_cells dir p base n mem)"
  using task_tables_range [of p] unfolding calm_def loose_def task_cells_def by (auto simp: store_range_iff)

lemma task_cells_dir:
  assumes L: "app_layout L" and p: "p < 8" and d: "dir = lm_page_directory L"
  shows "dir_cells L (task_cells dir p base n mem) p base n"
proof -
  note r = task_tables_range [OF p]
  have "task_cells dir p base n mem (lm_page_directory L + 4 * j) = mem (lm_page_directory L + 4 * j)" if "j < 1024" for j
    by (rule calm_kernel [OF task_cells_calm [OF p] L _ kdir_table that]) (use p in simp)
  then show ?thesis using r unfolding dir_cells_def task_cells_def d by (auto simp: store_range_iff)
qed

definition demo_os_link :: os_link where
  "demo_os_link = sched_link.extend demo_sched_link \<lparr>lm_background_thread = 0x109000, lm_out_serial_only = 0x10A000\<rparr>"

lemma demo_os_fields:
  "lm_page_directory demo_os_link = lm_page_directory demo_sched_link" "lm_lowmem_page_tables demo_os_link = lm_lowmem_page_tables demo_sched_link"
  "lm_fb_page_tables demo_os_link = lm_fb_page_tables demo_sched_link" "lm_background_thread demo_os_link = 0x109000"
  by (simp_all add: demo_os_link_def sched_link.defs)

lemma demo_os_tables: "kernel_tables demo_os_link = kernel_tables demo_sched_link"
  by (simp add: kernel_tables_def demo_os_fields)

lemma demo_os_layout: "app_layout demo_os_link" "layout_ok demo_os_link" "tables_off_arena demo_os_link" "lm_background_thread demo_os_link \<noteq> 0"
proof -
  show l: "layout_ok demo_os_link" "tables_off_arena demo_os_link"
    using demo_sched_layout demo_sched_off_arena by (simp_all add: layout_ok_def tables_off_arena_def demo_os_tables)
  have "\<forall>a \<in> set (kernel_tables demo_sched_link). a + 4096 \<le> 0x340000 \<or> 0xB00000 \<le> a"
    by (simp add: kernel_tables_def demo_sched_link_def demo_link_def link_map.defs table_addr_def LOWMEM_PAGE_TABLE_COUNT_def FB_PAGE_TABLE_COUNT_def upt_rec)
  then show "app_layout demo_os_link" using l by (simp add: app_layout_def demo_os_tables)
  show "lm_background_thread demo_os_link \<noteq> 0" by (simp add: demo_os_fields)
qed

lemma demo_os_kmap: "kmap demo_os_link T mem \<longleftrightarrow> kmap demo_sched_link T mem"
  by (simp add: kmap_def is_pt_def demo_os_fields demo_os_tables)

text \<open>The system before the scheduler starts, with any file system, input devices and hardware.\<close>

definition demo_boot :: "'h drive_state fat_state \<Rightarrow> 'p mouse_kernel \<Rightarrow> 'p \<Rightarrow> ('h, 'p) os_state" where
  "demo_boot fs i h = sched_state.extend sched_booted
     \<lparr>g_app_tasks = replicate 8 zero_task, g_app_phys_page_used = replicate 1024 False, g_elf_buffer = [], app_rng_state = 0,
      os_fat = fs, os_input = i, os_serial_ready = True, os_hw = h, os_video = []\<rparr>"

lemma demo_boot_fields:
  "m_mem (demo_boot fs i h) = m_mem sched_booted" "g_slots (demo_boot fs i h) = g_slots sched_booted"
  "g_runtime_ready (demo_boot fs i h) = g_runtime_ready sched_booted"
  "g_app_tasks (demo_boot fs i h) = replicate 8 zero_task" "g_app_phys_page_used (demo_boot fs i h) = replicate 1024 False"
  by (simp_all add: demo_boot_def sched_state.defs)

text \<open>Two applications: threads 3 and 4 in one group, where 3 runs, and thread 5.\<close>

definition demo_task :: "nat \<Rightarrow> nat \<Rightarrow> u32 \<Rightarrow> shell_app_task" where
  "demo_task p l base = zero_task\<lparr>in_use := True, t_pid := int p, leader_pid := int l, background := True, app_phys_base := base,
     app_slot_bytes := 0x15000, entry_virtual := 0x1000000, owns_app_memory := (p = l),
     t_out_both := 1, t_str_to_upper := 1, t_path_reset := 1, t_path_pop := 1, t_path_push := 1\<rparr>"

definition demo_mem :: "nat \<Rightarrow> u32" where
  "demo_mem = task_cells 0x200000 5 0x715000 21 (task_cells 0x200000 4 0x700000 21 (task_cells 0x200000 3 0x700000 21 (m_mem sched_booted)))"

definition app_process :: "nat \<Rightarrow> process_state_t \<Rightarrow> process" where
  "app_process i x = (demo_process i x 0)\<lparr>p_context := (p_context (demo_process i x 0))\<lparr>page_directory := of_nat (task_page_directory i)\<rparr>\<rparr>"

definition demo_system :: "'h drive_state fat_state \<Rightarrow> 'p mouse_kernel \<Rightarrow> 'p \<Rightarrow> ('h, 'p) os_state" where
  "demo_system fs i h = (demo_boot fs i h)\<lparr>m_mem := demo_mem, m_cr3 := of_nat (task_page_directory 3), g_current := 3, g_runtime_ready := True,
     g_slots := [demo_process 0 PROCESS_READY 0, demo_process 1 PROCESS_READY 0, demo_process 2 PROCESS_UNUSED 0, app_process 3 PROCESS_RUNNING,
       app_process 4 PROCESS_READY, app_process 5 PROCESS_READY, demo_process 6 PROCESS_UNUSED 0, demo_process 7 PROCESS_UNUSED 0],
     g_app_tasks := [zero_task, zero_task, zero_task, demo_task 3 3 0x700000, demo_task 4 3 0x700000, demo_task 5 5 0x715000, zero_task, zero_task],
     g_app_phys_page_used := replicate 42 True @ replicate 982 False\<rparr>"

lemma demo_system_fields:
  "m_mem (demo_system fs i h) = demo_mem" "m_cr3 (demo_system fs i h) = tdir 3" "g_current (demo_system fs i h) = 3" "g_runtime_ready (demo_system fs i h)"
  "g_app_phys_page_used (demo_system fs i h) = replicate 42 True @ replicate 982 False"
  "length (g_slots (demo_system fs i h)) = 8" "length (g_app_tasks (demo_system fs i h)) = 8"
  "p < 8 \<Longrightarrow> task_at p (demo_system fs i h) = (if p = 3 \<or> p = 4 then demo_task p 3 0x700000 else if p = 5 then demo_task 5 5 0x715000 else zero_task)"
  "p < 8 \<Longrightarrow> slot_at p (demo_system fs i h) = (if p = 3 then app_process 3 PROCESS_RUNNING
     else if p = 4 \<or> p = 5 then app_process p PROCESS_READY else demo_process p (if p < 2 then PROCESS_READY else PROCESS_UNUSED) 0)"
  unfolding less8 demo_system_def task_at_def slot_at_def by auto

lemma demo_task_fields:
  "in_use (demo_task p l b)" "leader_pid (demo_task p l b) = int l" "app_phys_base (demo_task p l b) = b"
  "app_slot_bytes (demo_task p l b) = 0x15000" "owns_app_memory (demo_task p l b) = (p = l)" "\<not> in_use zero_task" "\<not> owns_app_memory zero_task"
  by (simp_all add: demo_task_def zero_task_def)

lemma app_process_fields:
  "p_pid (app_process i x) = int i" "p_state (app_process i x) = x" "page_directory (p_context (app_process i x)) = tdir i"
  "irq_frame (p_context (app_process i x)) = irq_frame (p_context (demo_process i x 0))"
  "page_directory (p_context (demo_process i x w)) = 0x200000"
  by (simp_all add: app_process_def demo_process_def)

lemma demo_ranges: "arena_range 0x700000 0x15000 0 21" "arena_range 0x715000 0x15000 21 21"
  by (simp_all add: arena_range_def)

lemma demo_task_ok: "task_ok p (demo_task p l b)"
  if "3 \<le> l" "l < 8" "arena_range b 0x15000 k n"
proof -
  have "slot_ok 0x15000" by (simp add: slot_ok_def)
  moreover have "t_pid (demo_task p l b) = int p" "shell_apps_task_valid (demo_task p l b)" "\<not> join_on_exit (demo_task p l b)"
    by (simp_all add: demo_task_def zero_task_def shell_apps_task_valid_def)
  ultimately show ?thesis using that by (auto simp: task_ok_def demo_task_fields)
qed

lemma demo_owns:
  assumes "p < 8" shows "owns (demo_system fs i h) p k \<longleftrightarrow> p = 3 \<and> k < 21 \<or> p = 5 \<and> 21 \<le> k \<and> k < 42"
proof -
  have "pages_of (demo_task 3 3 0x700000) = {0..<21}" "pages_of (demo_task 5 5 0x715000) = {21..<42}"
    by (simp_all add: pages_of_def demo_task_fields)
  then show ?thesis using assms by (auto simp: owns_def demo_system_fields demo_task_fields)
qed

lemma demo_system_sched: "sched_inv (demo_system fs i h)"
proof -
  let ?s = "demo_system fs i h"
  have ex: "\<exists>x w pd. slot_at k ?s = (demo_process k x w)\<lparr>p_context := (p_context (demo_process k x w))\<lparr>page_directory := pd\<rparr>\<rparr>" if "k < 8" for k
  proof -
    have "(demo_process k x w)\<lparr>p_context := (p_context (demo_process k x w))\<lparr>page_directory := 0x200000\<rparr>\<rparr> = demo_process k x w" for x w
      by (simp add: demo_process_def)
    then have "\<exists>x w pd. demo_process k y z = (demo_process k x w)\<lparr>p_context := (p_context (demo_process k x w))\<lparr>page_directory := pd\<rparr>\<rparr>" for y z
      by metis
    moreover have "\<exists>x w pd. app_process k y = (demo_process k x w)\<lparr>p_context := (p_context (demo_process k x w))\<lparr>page_directory := pd\<rparr>\<rparr>" for y
      unfolding app_process_def by blast
    ultimately show ?thesis unfolding demo_system_fields(9) [OF that] by (auto split: if_split)
  qed
  have "stacks_ok ?s"
    unfolding stacks_ok_def Let_def
  proof
    fix k :: nat assume "k \<in> {1..<8}"
    then obtain x w pd where "slot_at k ?s = (demo_process k x w)\<lparr>p_context := (p_context (demo_process k x w))\<lparr>page_directory := pd\<rparr>\<rparr>" using ex [of k] by auto
    then show "guard_page_base (p_context (slot_at k ?s)) = sched_slot_guard_base k
      \<and> kernel_stack_base (p_context (slot_at k ?s)) = sched_slot_guard_base k + SCHED_GUARD_BYTES
      \<and> kernel_stack_top (p_context (slot_at k ?s)) = sched_slot_guard_base k + SCHED_STACK_REGION_BYTES"
      by (simp add: demo_process_def)
  qed
  moreover have "p_pid (slot_at k ?s) = int k" if "k < 8" for k using ex [OF that] by (auto simp: demo_process_fields)
  moreover have "fr ?s k \<noteq> 0" if "k < 8" for k
  proof -
    have "irq_frame (p_context (demo_process 0 PROCESS_READY 0)) \<noteq> 0" by (simp add: demo_process_def sched_slot_guard_base_def sched_consts sizeof_irq_frame_def SCHED_STACK_ARENA_BASE_def)
    then show ?thesis using that demo_frame [of k] by (cases "k = 0") (auto simp: demo_system_fields app_process_fields)
  qed
  moreover have "st ?s k \<noteq> PROCESS_RUNNING" if "k < 8" "k \<noteq> 3" for k
    using that by (simp add: demo_system_fields app_process_fields demo_process_fields)
  moreover have "st ?s 1 = PROCESS_READY" by (simp add: demo_system_fields demo_process_fields)
  ultimately show ?thesis unfolding sched_inv_def by (simp add: demo_system_fields(3,4,6) current_ok_def sched_consts)
qed

lemma demo_threads: "p < 8 \<Longrightarrow> app_thread (demo_system fs i h) p \<longleftrightarrow> p \<in> {3, 4, 5}"
proof -
  assume p: "p < 8"
  have "kdir demo_os_link = 0x200000" by (simp add: demo_os_fields demo_sched_link_def demo_link_def link_map.defs)
  then have "tdir p \<noteq> 0x200000" using tdir_kdir [OF demo_os_layout(1) p] by simp
  then show ?thesis using p by (auto simp: app_thread_def demo_system_fields app_process_fields demo_process_fields live_def)
qed

lemma demo_system_inv: "\<exists>T. app_inv demo_os_link T (demo_system fs i h)"
proof -
  let ?s = "demo_system fs i h" and ?m = "m_mem sched_booted"
  obtain T where T: "kmap demo_os_link T ?m" using sched_booted_ok(1) by (auto simp: demo_os_kmap)
  note L = demo_os_layout(1)
  have pd: "lm_page_directory demo_os_link = 0x200000" by (simp add: demo_os_fields demo_sched_link_def demo_link_def link_map.defs)
  have "tasks_inv ?s" unfolding tasks_inv_def
  proof (intro conjI allI impI)
    show "if in_use (task_at p ?s) then 3 \<le> p \<and> task_ok p (task_at p ?s) else \<not> owns_app_memory (task_at p ?s)" if "p < 8" for p
      using that demo_task_ok [OF _ _ demo_ranges(1), of 3] demo_task_ok [OF _ _ demo_ranges(2), of 5 5]
      by (simp add: demo_system_fields(8) demo_task_fields)
  qed (rule demo_system_fields(7))
  moreover have "arena_inv ?s" unfolding arena_inv_def
  proof (intro conjI allI impI)
    show "length (g_app_phys_page_used ?s) = 1024" by (simp add: demo_system_fields)
    have "g_app_phys_page_used ?s ! k \<longleftrightarrow> k < 42" if "k < 1024" for k using that by (simp add: demo_system_fields nth_append)
    moreover have "(\<exists>p < 8. owns ?s p k) \<longleftrightarrow> k < 42" for k
    proof
      assume k: "k < 42"
      show "\<exists>p < 8. owns ?s p k"
      proof (cases "k < 21")
        case True
        then have "owns ?s 3 k" using demo_owns [of 3 fs i h k] by simp
        then show ?thesis by (intro exI [of _ 3]) simp
      next
        case False
        then have "owns ?s 5 k" using demo_owns [of 5 fs i h k] k by simp
        then show ?thesis by (intro exI [of _ 5]) simp
      qed
    qed (auto simp: demo_owns)
    ultimately show "g_app_phys_page_used ?s ! k \<longleftrightarrow> (\<exists>p < 8. owns ?s p k)" if "k < 1024" for k using that by simp
    show "p = q" if "p < 8" "q < 8" "owns ?s p k" "owns ?s q k" for p q k using that by (auto simp: demo_owns)
  qed
  moreover have "threads_inv demo_os_link ?s" unfolding threads_inv_def
  proof (intro conjI allI impI)
    show "sched_inv ?s" by (rule demo_system_sched)
    show "pdir ?s p = kdir demo_os_link \<or> pdir ?s p = tdir p" if "p < 8" for p
      using that by (auto simp: demo_system_fields app_process_fields pd)
    show "owner_ok ?s p" if "p < 8" "app_thread ?s p" for p
      using that(2) unfolding demo_threads [OF that(1)]
      by (auto simp: owner_ok_def Let_def demo_system_fields(8) demo_task_fields demo_threads)
    show "m_cr3 ?s = pdir ?s (cur ?s)" "live (st ?s (cur ?s))" by (simp_all add: demo_system_fields app_process_fields live_def)
  qed
  moreover have "dirs_inv demo_os_link T ?s"
  proof -
    let ?m3 = "task_cells 0x200000 3 0x700000 21 ?m"
    let ?m4 = "task_cells 0x200000 4 0x700000 21 ?m3"
    have c: "calm {4} ?m3 ?m4" "calm {5} ?m4 demo_mem" "calm {3} ?m ?m3" unfolding demo_mem_def by (rule task_cells_calm, simp)+
    have k: "kmap demo_os_link T demo_mem"
      by (rule calm_kmap [OF c(2) L _ calm_kmap [OF c(1) L _ calm_kmap [OF c(3) L _ T]]]) simp_all
    have d3: "dir_cells demo_os_link ?m3 3 0x700000 21" and d4: "dir_cells demo_os_link ?m4 4 0x700000 21"
      and d5: "dir_cells demo_os_link demo_mem 5 0x715000 21"
      unfolding demo_mem_def by (rule task_cells_dir [OF L _ pd [symmetric]], simp)+
    have "dir_cells demo_os_link demo_mem 3 0x700000 21"
      by (rule calm_dir_cells [OF c(2) L _ _ _ calm_dir_cells [OF c(1) L _ _ _ d3]]) simp_all
    moreover have "dir_cells demo_os_link demo_mem 4 0x700000 21" by (rule calm_dir_cells [OF c(2) L _ _ _ d4]) simp_all
    ultimately have "dir_cells demo_os_link (m_mem ?s) p (app_phys_base (task_at p ?s)) (unat (app_slot_bytes (task_at p ?s)) div 4096)"
      if "p < 8" "app_thread ?s p" for p
      using that(2) d5 unfolding demo_threads [OF that(1)] by (auto simp: demo_system_fields(1,8) demo_task_fields)
    then show ?thesis using k by (simp add: dirs_inv_def demo_system_fields(1))
  qed
  ultimately show ?thesis unfolding app_inv_def by blast
qed

section \<open>Properties\<close>

lemma layout_off_arena: "app_layout L \<Longrightarrow> layout_ok L \<and> tables_off_arena L"
  by (fastforce simp: app_layout_def tables_off_arena_def)

text \<open>The threads that live after the current thread has ended, alone or with its group.\<close>

lemma end_current_live:
  assumes inv: "app_inv L T s" and rel: "relabelled s u" and g: "g \<longrightarrow> member s l (cur s)"
    and v: "v = (if g then shell_apps_release_group_members L l (int (cur s)) True u else u)" and e: "ended L v t" and p: "p < 8"
  shows "live (st t p) \<longleftrightarrow> live (st s p) \<and> (if g then \<not> member s l p else p \<noteq> cur s)"
proof -
  note r = relabelled_inv [OF rel inv]
  have sl: "slot_at q u = slot_at q s" for q
    using rel core_eqD(3) [of u s] core_eqD(3) [of u "upd_task (cur s) (\<lambda>k. k\<lparr>input_ready_logged := False\<rparr>) s"]
    by (auto simp: relabelled_def slot_at_def)
  note ge = group_effect [OF app_invD(5,1) [OF r(1)] refl, where L = L and leader = l and skip = "int (cur s)"]
  have cv: "g_current v = g_current s" using v ge(5) r(2) by simp
  have "\<not> live (st t (cur s))" "q < 8 \<Longrightarrow> q \<noteq> cur s \<Longrightarrow> live (st t q) \<longleftrightarrow> live (st v q)" for q
    using e cv unfolding ended_def by simp_all
  moreover have "q \<noteq> cur s \<Longrightarrow> live (st v q) \<longleftrightarrow> live (st s q) \<and> (g \<longrightarrow> \<not> member s l q)" for q
    using v ge(6) [of q] r(3) [of l q] sl [of q] by (auto simp: live_def)
  ultimately show ?thesis using p g by (cases "p = cur s") auto
qed

text \<open>
  C39: When a thread faults, its whole group ends and no other thread does. When a thread exits, its group ends with it if
  the thread leads it, and otherwise this thread alone.
\<close>

theorem group_ends_together:
  assumes inv: "app_inv L T s" and L: "app_layout L" and f: "f \<noteq> 0" and task: "in_use (task_at (cur s) s)" and p: "p < 8"
  shows "(live (st (snd (scheduler_exit_current_from_interrupt L f (shell_apps_on_current_task_fault E L vec err eip s))) p)
      \<longleftrightarrow> live (st s p) \<and> \<not> member s (leader_pid (task_at (cur s) s)) p)
    \<and> (live (st (snd (scheduler_exit_current_from_interrupt L f (shell_apps_on_current_task_exit E L s))) p)
      \<longleftrightarrow> live (st s p) \<and> (if leader_pid (task_at (cur s) s) = int (cur s) then \<not> member s (int (cur s)) p else p \<noteq> cur s))"
    (is "?F \<and> ?X")
proof
  note c = current_task [OF inv task]
  have c1: "cur s \<noteq> 1" using c(2) by simp
  obtain u where u: "relabelled s u" "shell_apps_on_current_task_fault E L vec err eip s =
      (if True then shell_apps_release_group_members L (leader_pid (task_at (cur s) s)) (int (cur s)) True u else u)"
    using fault_steps [OF inv, of E L vec err eip] task by auto
  note gs = group_slots [OF relabelled_inv(1) [OF u(1) inv] L u(2)]
  have "cur (shell_apps_on_current_task_fault E L vec err eip s) \<noteq> 1" using c1 gs(2) relabelled_inv(2) [OF u(1) inv] by simp
  from end_current_live [OF inv u(1) _ u(2) exit_irq_ended [OF gs(1) f this gs(3)] p] show ?F using c(7) by simp
  let ?g = "leader_pid (task_at (cur s) s) = int (cur s)"
  obtain w where w: "relabelled s w" "shell_apps_on_current_task_exit E L s =
      (if ?g then shell_apps_release_group_members L (int (cur s)) (int (cur s)) True w else w)"
    using exit_steps [OF inv, of E L] task by auto
  note ws = group_slots [OF relabelled_inv(1) [OF w(1) inv] L w(2)]
  have "cur (shell_apps_on_current_task_exit E L s) \<noteq> 1" using c1 ws(2) relabelled_inv(2) [OF w(1) inv] by simp
  moreover have "?g \<longrightarrow> member s (int (cur s)) (cur s)" using c(7) by metis
  ultimately show ?X by (intro end_current_live [OF inv w(1) _ w(2) exit_irq_ended [OF ws(1) f _ ws(3)] p])
qed

theorem group_ends_together_witness:
  "\<forall>E fs i h. let t = snd (scheduler_exit_current_from_interrupt demo_os_link 0x9000 (shell_apps_on_current_task_exit E demo_os_link (demo_system fs i h)))
     in \<not> live (st t 3) \<and> \<not> live (st t 4) \<and> live (st t 5)"
proof (intro allI)
  fix E :: "('h, 'p) os_env" and fs :: "'h drive_state fat_state" and i and h :: 'p
  let ?s = "demo_system fs i h"
  obtain T where inv: "app_inv demo_os_link T ?s" using demo_system_inv [of fs i h] by blast
  have c: "in_use (task_at (cur ?s) ?s)" "leader_pid (task_at (cur ?s) ?s) = int (cur ?s)" "cur ?s = 3"
    by (simp_all add: demo_system_fields(3,8) demo_task_fields)
  have m: "member ?s 3 3" "member ?s 3 4" "\<not> member ?s 3 5" "live (st ?s 5)"
    by (simp_all add: member_def demo_system_fields(8,9) demo_task_fields app_process_fields live_def)
  have f: "(0x9000 :: u32) \<noteq> 0" by simp
  from group_ends_together [OF inv demo_os_layout(1) f c(1), of 3 E 0 0 0] group_ends_together [OF inv demo_os_layout(1) f c(1), of 4 E 0 0 0]
    group_ends_together [OF inv demo_os_layout(1) f c(1), of 5 E 0 0 0] c m
  show "let t = snd (scheduler_exit_current_from_interrupt demo_os_link 0x9000 (shell_apps_on_current_task_exit E demo_os_link ?s))
     in \<not> live (st t 3) \<and> \<not> live (st t 4) \<and> live (st t 5)" by (simp add: Let_def)
qed

text \<open>
  The code that enters user mode succeeds for every task: setting up the stack and the runtime area never
  fails, so the error branch that ends the task is never taken, and the invariant is kept.
\<close>

theorem task_start_succeeds:
  fixes s :: "('h, 'p, 'a) os_state_scheme"
  assumes inv: "app_inv L T s" and L: "app_layout L" and task: "in_use (task_at (cur s) s)"
  shows "\<exists>r t. shell_apps_background_thread E L' (cur s) f s = (Some (Inl r), t) \<and> app_inv L T t"
proof -
  note b = background_thread_inv [OF inv L, of E L' f]
  obtain x t where x: "shell_apps_background_thread E L' (cur s) f s = (Some x, t)" using b(2) task by (metis not_None_eq surj_pair fst_conv)
  then show ?thesis using b(1,3) by (cases x) auto
qed

theorem task_start_succeeds_witness:
  "\<forall>E fs i h. \<exists>r t T. shell_apps_background_thread E demo_os_link 3 0x9000 (demo_system fs i h) = (Some (Inl r), t) \<and> app_inv demo_os_link T t"
proof (intro allI)
  fix E :: "('h, 'p) os_env" and fs :: "'h drive_state fat_state" and i and h :: 'p
  let ?s = "demo_system fs i h"
  obtain T where inv: "app_inv demo_os_link T ?s" using demo_system_inv [of fs i h] by blast
  have c: "in_use (task_at (cur ?s) ?s)" "cur ?s = 3" by (simp_all add: demo_system_fields(3,8) demo_task_fields)
  from task_start_succeeds [OF inv demo_os_layout(1) c(1), of E demo_os_link "0x9000"] c(2)
  show "\<exists>r t T. shell_apps_background_thread E demo_os_link 3 0x9000 ?s = (Some (Inl r), t) \<and> app_inv demo_os_link T t" by auto
qed

text \<open>
  Reading a file stores at most as many bytes as the caller's buffer holds, whatever directory entries,
  sizes and cluster chains are on the disk.
\<close>

theorem read_within_buffer:
  assumes "fat16_read_file_from_dir io dir f max_size s = Some (data, t)" "0 \<le> max_size" "max_size < 2 ^ 32"
  shows "int (length data) \<le> max_size"
  using read_file_bound [OF assms] assms(2) by simp

theorem read_within_buffer_witness:
  "\<exists>v data w. fat16_write_file_from_dir (drive_io image_hw) 0 [0x41, 0x2E, 0x54, 0x58, 0x54] (replicate 600 7) 600 (floppy_fat (\<lambda>_. 0)) = Some (True, v)
    \<and> fat16_read_file_from_dir (drive_io image_hw) 0 [0x41, 0x2E, 0x54, 0x58, 0x54] 100 v = Some (data, w)
    \<and> data \<noteq> [] \<and> int (length data) \<le> 100"
proof -
  let ?s = "floppy_fat (\<lambda>_. 0)" and ?f = "[0x41, 0x2E, 0x54, 0x58, 0x54] :: cstr"
  have m: "drive_image (f_dev ?s) = (\<lambda>_. 0)" by (simp add: floppy_fat_def floppy_drives_def)
  have "(19, 0) \<in> set (slots [19..<33])" by (simp add: set_slots)
  then have slot: "\<exists>q\<in>set (slots [19..<33]). free_entry (slot_entry (drive_image (f_dev ?s)) q)"
    unfolding m using blank_slot [of "(19, 0)"] by (auto simp: free_entry_def)
  have clear: "name_clear ?f (drive_image (f_dev ?s)) [19..<33]" unfolding m by (rule blank_clear)
  have room: "length (replicate 600 (7 :: u8)) \<le> 512 * unat (sectors_per_cluster (bpb ?s)) * length (free_list (fat_entry drive_image ?s) 2847)"
    unfolding blank_free by (simp add: floppy_fat_def floppy_bpb_def del: upt_Suc)
  have old: "old_contents (fat_entry drive_image ?s) 2847 ?f (drive_image (f_dev ?s)) [19..<33] [] []"
    unfolding m by (simp add: old_contents_def blank_lookup)
  obtain v w where r: "fat16_write_file_from_dir (drive_io image_hw) 0 ?f (replicate 600 7) 600 ?s = Some (True, v)"
    "fat16_read_file_from_dir (drive_io image_hw) 0 ?f 100 v = Some (replicate 100 7, w)"
    using sector_device.write_read_ok [OF floppy_device floppy_fs_vol floppy_ready floppy_root _ demo_name clear slot room old, of 100] by auto
  from read_within_buffer [OF r(2)] r show ?thesis by (intro exI [of _ v] exI [of _ "replicate 100 7"] exI [of _ w]) simp
qed

end
