(* ===== verification/App_Syscall.thy ===== *)
theory App_Syscall
  imports App_Props
begin

text \<open>
  The system calls of applications, \<^verbatim>\<open>shell_apps_syscall\<close> in \<^verbatim>\<open>shell_apps.c\<close>, one definition per call or group of
  calls, in the order of the source. \<open>idx\<close> is the index of the calling task. The outer \<open>None\<close> of a result is a trap in
  kernel mode or a device that never answers. A call that waits for input returns to the waiting thread after each
  interrupt: \<open>Sys_poll_char\<close> and \<open>Sys_poll_event\<close> say that its loop body has to run once more.
\<close>

unbundle bit_operations_syntax

type_synonym ('h, 'p, 'a, 'r) os_op = "('h, 'p, 'a) os_state_scheme \<Rightarrow> ('r \<times> ('h, 'p, 'a) os_state_scheme) option"

datatype sys_result =
  Sys_return int
| Sys_poll_char
| Sys_poll_event u32 u32 u32  \<comment> \<open>last mouse sequence number, tick of the call, ticks to wait\<close>
| Sys_switch u32  \<comment> \<open>another thread resumes at this frame\<close>

section \<open>Numbers\<close>

definition MINIDOS_SYSCALL_PUTS :: u32 where "MINIDOS_SYSCALL_PUTS = 1"
definition MINIDOS_SYSCALL_GET_CHAR :: u32 where "MINIDOS_SYSCALL_GET_CHAR = 2"
definition MINIDOS_SYSCALL_FILE_SIZE :: u32 where "MINIDOS_SYSCALL_FILE_SIZE = 3"
definition MINIDOS_SYSCALL_LIST_ENTRY :: u32 where "MINIDOS_SYSCALL_LIST_ENTRY = 4"
definition MINIDOS_SYSCALL_COPY_FILE :: u32 where "MINIDOS_SYSCALL_COPY_FILE = 5"
definition MINIDOS_SYSCALL_MOVE_FILE :: u32 where "MINIDOS_SYSCALL_MOVE_FILE = 6"
definition MINIDOS_SYSCALL_GFX_CLEAR :: u32 where "MINIDOS_SYSCALL_GFX_CLEAR = 7"
definition MINIDOS_SYSCALL_GFX_RECT :: u32 where "MINIDOS_SYSCALL_GFX_RECT = 8"
definition MINIDOS_SYSCALL_GFX_TEXT :: u32 where "MINIDOS_SYSCALL_GFX_TEXT = 9"
definition MINIDOS_SYSCALL_GFX_SIZE :: u32 where "MINIDOS_SYSCALL_GFX_SIZE = 10"
definition MINIDOS_SYSCALL_CHDIR :: u32 where "MINIDOS_SYSCALL_CHDIR = 11"
definition MINIDOS_SYSCALL_MKDIR :: u32 where "MINIDOS_SYSCALL_MKDIR = 12"
definition MINIDOS_SYSCALL_RMDIR :: u32 where "MINIDOS_SYSCALL_RMDIR = 13"
definition MINIDOS_SYSCALL_DELETE_ENTRY :: u32 where "MINIDOS_SYSCALL_DELETE_ENTRY = 14"
definition MINIDOS_SYSCALL_RENAME_ENTRY :: u32 where "MINIDOS_SYSCALL_RENAME_ENTRY = 15"
definition MINIDOS_SYSCALL_COPY_TO_DIR :: u32 where "MINIDOS_SYSCALL_COPY_TO_DIR = 16"
definition MINIDOS_SYSCALL_MOVE_TO_DIR :: u32 where "MINIDOS_SYSCALL_MOVE_TO_DIR = 17"
definition MINIDOS_SYSCALL_CLIP_SET :: u32 where "MINIDOS_SYSCALL_CLIP_SET = 18"
definition MINIDOS_SYSCALL_CLIP_PASTE :: u32 where "MINIDOS_SYSCALL_CLIP_PASTE = 19"
definition MINIDOS_SYSCALL_RANDOM :: u32 where "MINIDOS_SYSCALL_RANDOM = 20"
definition MINIDOS_SYSCALL_FILE_READ :: u32 where "MINIDOS_SYSCALL_FILE_READ = 21"
definition MINIDOS_SYSCALL_FILE_WRITE :: u32 where "MINIDOS_SYSCALL_FILE_WRITE = 22"
definition MINIDOS_SYSCALL_GET_CHAR_NONBLOCK :: u32 where "MINIDOS_SYSCALL_GET_CHAR_NONBLOCK = 23"
definition MINIDOS_SYSCALL_GET_TICKS :: u32 where "MINIDOS_SYSCALL_GET_TICKS = 24"
definition MINIDOS_SYSCALL_GET_MOUSE_STATE :: u32 where "MINIDOS_SYSCALL_GET_MOUSE_STATE = 25"
definition MINIDOS_SYSCALL_WAIT_EVENT :: u32 where "MINIDOS_SYSCALL_WAIT_EVENT = 26"
definition MINIDOS_SYSCALL_GFX_PRESENT :: u32 where "MINIDOS_SYSCALL_GFX_PRESENT = 27"
definition MINIDOS_SYSCALL_GET_TIME :: u32 where "MINIDOS_SYSCALL_GET_TIME = 28"
definition MINIDOS_SYSCALL_THREAD_SPAWN :: u32 where "MINIDOS_SYSCALL_THREAD_SPAWN = 29"
definition MINIDOS_SYSCALL_THREAD_YIELD :: u32 where "MINIDOS_SYSCALL_THREAD_YIELD = 30"
definition MINIDOS_SYSCALL_THREAD_SELF :: u32 where "MINIDOS_SYSCALL_THREAD_SELF = 31"
definition MINIDOS_SYSCALL_EXIT :: u32 where "MINIDOS_SYSCALL_EXIT = 32"
definition MINIDOS_SYSCALL_GFX_SURFACE_BLIT :: u32 where "MINIDOS_SYSCALL_GFX_SURFACE_BLIT = 33"
definition MINIDOS_SYSCALL_DRIVE_VALID :: u32 where "MINIDOS_SYSCALL_DRIVE_VALID = 34"
definition MINIDOS_SYSCALL_GFX_RECT_BATCH :: u32 where "MINIDOS_SYSCALL_GFX_RECT_BATCH = 35"
definition MINIDOS_SYSCALL_GFX_TEXT_CLIPPED :: u32 where "MINIDOS_SYSCALL_GFX_TEXT_CLIPPED = 36"

definition APP_EVENT_KEY :: int where "APP_EVENT_KEY = 1"
definition APP_EVENT_MOUSE :: int where "APP_EVENT_MOUSE = 2"
definition APP_EVENT_TIMER :: int where "APP_EVENT_TIMER = 4"
definition APP_USER_TEXT_MAX :: int where "APP_USER_TEXT_MAX = 256"
definition APP_GFX_RECT_BATCH_MAX :: u32 where "APP_GFX_RECT_BATCH_MAX = 64"
definition APP_GFX_TEXT_TRANSPARENT_BG :: u32 where "APP_GFX_TEXT_TRANSPARENT_BG = 1"

section \<open>Input\<close>

definition with_serial :: "('p serial_state \<Rightarrow> ('r \<times> 'p serial_state) option) \<Rightarrow> ('h, 'p, 'a, 'r) os_op" where
  "with_serial f s = map_option (\<lambda>(r, u). (r, s\<lparr>os_hw := serial_hw u\<rparr>)) (f \<lparr>serial_ready = os_serial_ready s, serial_hw = os_hw s\<rparr>)"

definition shell_apps_try_get_char :: "('h, 'p) os_env \<Rightarrow> ('h, 'p, 'a, u8 option) os_op" where
  "shell_apps_try_get_char E s =
     (case shell_apps_active_task s of
        None \<Rightarrow> Some (None, s)
      | Some idx \<Rightarrow>
        if \<not> shell_apps_task_valid (task_at idx s) \<or> background (task_at idx s) then Some (None, s)
        else let s = shell_apps_ensure_interrupts_enabled s;
                 s = (if \<not> background (task_at idx s) then shell_apps_flush_graphics E s else s);
                 s = shell_apps_note_input_ready idx s;
                 (r, s) = with_input (keyboard_try_get_char (env_ports E)) s
        in case r of
             Some c \<Rightarrow> Some (Some c, s)
           | None \<Rightarrow> do {
               (received, s) \<leftarrow> with_serial (\<lambda>u. Some (serial_received (env_ports E) u)) s;
               if received then do { (c, s) \<leftarrow> with_serial (serial_getchar (env_ports E)) s; Some (Some c, s) }
               else Some (None, s) })"

text \<open>One round of the loop.\<close>

definition shell_apps_get_char :: "('h, 'p) os_env \<Rightarrow> ('h, 'p, 'a, sys_result) os_op" where
  "shell_apps_get_char E s = do {
     (r, s) \<leftarrow> shell_apps_try_get_char E s;
     Some (case r of Some c \<Rightarrow> Sys_return (int (unat c)) | None \<Rightarrow> Sys_poll_char, s) }"

definition sys_get_char_nonblock :: "('h, 'p) os_env \<Rightarrow> ('h, 'p, 'a, int) os_op" where
  "sys_get_char_nonblock E s = do {
     (r, s) \<leftarrow> shell_apps_try_get_char E s;
     Some (case r of Some c \<Rightarrow> int (unat c) | None \<Rightarrow> -1, s) }"

definition le_bytes :: "u32 \<Rightarrow> u8 list" where
  "le_bytes w = [ucast w, ucast (drop_bit 8 w), ucast (drop_bit 16 w), ucast (drop_bit 24 w)]"

definition mouse_bytes :: "mouse_state_t \<Rightarrow> u8 list" where
  "mouse_bytes m = le_bytes (of_int (ms_x m)) @ le_bytes (of_int (ms_y m)) @ le_bytes (of_int (ms_dx m)) @ le_bytes (of_int (ms_dy m))
     @ le_bytes (ms_buttons m) @ le_bytes (ms_seq m) @ le_bytes (if ms_present m then 1 else 0)"

definition shell_apps_get_mouse_state :: "('h, 'p) os_env \<Rightarrow> u32 \<Rightarrow> ('h, 'p, 'a, int) os_op" where
  "shell_apps_get_mouse_state E out s =
     (case shell_apps_active_task s of
        None \<Rightarrow> Some (0, s)
      | Some idx \<Rightarrow>
        if out = 0 \<or> \<not> shell_apps_task_valid (task_at idx s) \<or> background (task_at idx s) then Some (0, s)
        else let s = shell_apps_ensure_interrupts_enabled s;
                 s = (if \<not> background (task_at idx s) then shell_apps_flush_graphics E s else s);
                 s = shell_apps_note_input_ready idx s
        in case mouse_get_state True (input_view s) of
             None \<Rightarrow> Some (0, s)
           | Some m \<Rightarrow> do { s \<leftarrow> store_virts out (mouse_bytes m) s; Some (1, s) })"

definition sys_get_mouse_state :: "('h, 'p) os_env \<Rightarrow> nat \<Rightarrow> u32 \<Rightarrow> ('h, 'p, 'a, int) os_op" where
  "sys_get_mouse_state E idx a0 s =
     (if \<not> shell_apps_user_range_valid (task_at idx s) a0 28 then Some (0, s) else shell_apps_get_mouse_state E a0 s)"

text \<open>One round of the loop of \<^verbatim>\<open>shell_apps_wait_event\<close>, and the code before it.\<close>

definition wait_event_poll :: "('h, 'p) os_env \<Rightarrow> nat \<Rightarrow> u32 \<Rightarrow> u32 \<Rightarrow> u32 \<Rightarrow> ('h, 'p, 'a, sys_result) os_op" where
  "wait_event_poll E idx last_mouse_seq start_ticks timeout_ticks s = do {
     (key, s) \<leftarrow> (if background (task_at idx s) then Some (False, s)
                  else case with_input (keyboard_has_input (env_ports E)) s of
                         (True, s) \<Rightarrow> Some (True, s)
                       | (False, s) \<Rightarrow> with_serial (\<lambda>u. Some (serial_received (env_ports E) u)) s);
     let mouse = (\<not> background (task_at idx s) \<and> (case mouse_get_state True (input_view s) of
                    None \<Rightarrow> False | Some m \<Rightarrow> ms_present m \<and> ms_seq m \<noteq> last_mouse_seq));
     let timer = (timeout_ticks > 0 \<and> scheduler_get_ticks s - start_ticks \<ge> timeout_ticks);
     let flags = (if key then APP_EVENT_KEY else 0) + (if mouse then APP_EVENT_MOUSE else 0) + (if timer then APP_EVENT_TIMER else 0);
     Some (if flags \<noteq> 0 then Sys_return flags else Sys_poll_event last_mouse_seq start_ticks timeout_ticks, s) }"

definition shell_apps_wait_event :: "('h, 'p) os_env \<Rightarrow> u32 \<Rightarrow> u32 \<Rightarrow> ('h, 'p, 'a, sys_result) os_op" where
  "shell_apps_wait_event E last_mouse_seq timeout_ms s =
     (let start_ticks = scheduler_get_ticks s;
          timeout_ticks = (if timeout_ms \<noteq> 0 then timer_ms_to_ticks_ceil timeout_ms s else 0) in
      case shell_apps_active_task s of
        None \<Rightarrow> Some (Sys_return 0, s)
      | Some idx \<Rightarrow>
        if \<not> shell_apps_task_valid (task_at idx s) then Some (Sys_return 0, s)
        else let s = shell_apps_ensure_interrupts_enabled s;
                 s = (if \<not> background (task_at idx s) then shell_apps_flush_graphics E s else s);
                 s = (if \<not> background (task_at idx s) then shell_apps_note_input_ready idx s else s)
        in wait_event_poll E idx last_mouse_seq start_ticks timeout_ticks s)"

section \<open>Time and numbers\<close>

definition sys_get_ticks :: "('h, 'p) os_env \<Rightarrow> nat \<Rightarrow> ('h, 'p, 'a, int) os_op" where
  "sys_get_ticks E idx s =
     (let s = (if \<not> background (task_at idx s) then shell_apps_flush_graphics E s else s) in Some (sint (scheduler_get_ticks s), s))"

definition sys_get_time :: "('h, 'p) os_env \<Rightarrow> nat \<Rightarrow> u32 \<Rightarrow> ('h, 'p, 'a, int) os_op" where
  "sys_get_time E idx a0 s =
     (if a0 = 0 \<or> \<not> shell_apps_user_range_valid (task_at idx s) a0 3 then Some (0, s)
      else do {
        (r, h) \<leftarrow> rtc_read_time (env_ports E) True (os_hw s);
        let s = s\<lparr>os_hw := h\<rparr>;
        case r of
          None \<Rightarrow> Some (0, s)
        | Some t \<Rightarrow> do { s \<leftarrow> store_virts a0 [rt_hours t, rt_minutes t, rt_seconds t] s; Some (1, s) } })"

definition shell_apps_random_u32 :: "('h, 'p, 'a) os_state_scheme \<Rightarrow> u32 \<times> ('h, 'p, 'a) os_state_scheme" where
  "shell_apps_random_u32 s =
     (let ticks = scheduler_get_ticks s;
          mix = ticks XOR push_bit 16 ticks;
          x = app_rng_state s XOR mix;
          x = x XOR push_bit 13 x;
          x = x XOR drop_bit 17 x;
          x = x XOR push_bit 5 x;
          x = (if x = 0 then 0x6D2B79F5 XOR mix else x)
      in (x, s\<lparr>app_rng_state := x\<rparr>))"

definition sys_random :: "u32 \<Rightarrow> ('h, 'p, 'a, int) os_op" where
  "sys_random limit s =
     (let (x, s) = shell_apps_random_u32 s; v = x AND 0x7FFFFFFF
      in Some (sint (if limit > 0 then v mod limit else v), s))"

definition sys_drive_valid :: "u32 \<Rightarrow> ('h, 'p, 'a, int) os_op" where
  "sys_drive_valid a0 s = Some (if drive_get_info (sint a0) (f_dev (os_fat s)) \<noteq> None then 1 else 0, s)"

definition sys_puts :: "'l os_link_scheme \<Rightarrow> nat \<Rightarrow> u32 \<Rightarrow> ('h, 'p, 'a, int) os_op" where
  "sys_puts L idx a0 s = do {
     r \<leftarrow> shell_apps_copy_user_string (task_at idx s) a0 APP_USER_TEXT_MAX s;
     Some (case r of None \<Rightarrow> (-1, s) | Some t \<Rightarrow> (0, shell_apps_task_out L (task_at idx s) t s)) }"

section \<open>Files\<close>

definition shell_apps_enter_drive_context :: "('h, 'p) os_env \<Rightarrow> nat \<Rightarrow> ('h, 'p, 'a, bool \<times> int) os_op" where
  "shell_apps_enter_drive_context E idx s =
     (if \<not> shell_apps_task_valid (task_at idx s) then Some ((False, 0), s)
      else let (previous_drive, s) = os_drive_get_current s;
               s = os_drive_set_current (t_drive (task_at idx s)) s;
               s = os_set_drive (t_drive (task_at idx s)) s in
      if t_fat16_initialized (task_at idx s) then Some ((True, previous_drive), s)
      else do {
        (ok, s) \<leftarrow> os_fat_call (fat16_init (env_io E)) s;
        Some ((ok, previous_drive), upd_task idx (\<lambda>t. t\<lparr>t_fat16_initialized := ok\<rparr>) s) })"

definition shell_apps_leave_drive_context :: "int \<Rightarrow> ('h, 'p, 'a) os_state_scheme \<Rightarrow> ('h, 'p, 'a) os_state_scheme" where
  "shell_apps_leave_drive_context previous_drive s = os_set_drive previous_drive (os_drive_set_current previous_drive s)"

text \<open>What the calls share: the critical section, the copy of a file name, and the drive of the task around an operation. \<open>r0\<close> is
  the result when the name cannot be copied or the drive cannot be entered.\<close>

definition critically :: "('h, 'p, 'a, 'r) os_op \<Rightarrow> ('h, 'p, 'a, 'r) os_op" where
  "critically f s =
     (let (flags, s) = shell_apps_enter_critical s in do { (r, s) \<leftarrow> f s; Some (r, shell_apps_leave_critical flags s) })"

definition with_name :: "nat \<Rightarrow> u32 \<Rightarrow> int \<Rightarrow> (cstr \<Rightarrow> ('h, 'p, 'a, int) os_op) \<Rightarrow> ('h, 'p, 'a, int) os_op" where
  "with_name idx a r0 f s = do {
     name \<leftarrow> shell_apps_copy_user_upper (task_at idx s) a 64 s;
     case name of None \<Rightarrow> Some (r0, s) | Some n \<Rightarrow> f n s }"

definition with_drive :: "('h, 'p) os_env \<Rightarrow> nat \<Rightarrow> int \<Rightarrow> ('h, 'p, 'a, int) os_op \<Rightarrow> ('h, 'p, 'a, int) os_op" where
  "with_drive E idx r0 f s = do {
     ((entered, previous_drive), s) \<leftarrow> shell_apps_enter_drive_context E idx s;
     if entered then do { (r, s) \<leftarrow> f s; Some (r, shell_apps_leave_drive_context previous_drive s) } else Some (r0, s) }"

definition task_dir :: "nat \<Rightarrow> 'a app_state_scheme \<Rightarrow> u32" where
  "task_dir idx s = t_current_dir_cluster (task_at idx s)"

definition truth :: "bool \<Rightarrow> int" where
  "truth b = (if b then 1 else 0)"

definition fat_truth :: "('h drive_state fat_state \<Rightarrow> (bool \<times> 'h drive_state fat_state) option) \<Rightarrow> ('h, 'p, 'a, int) os_op" where
  "fat_truth f s = do { (r, s) \<leftarrow> os_fat_call f s; Some (truth r, s) }"

definition sys_file_size :: "('h, 'p) os_env \<Rightarrow> nat \<Rightarrow> u32 \<Rightarrow> ('h, 'p, 'a, int) os_op" where
  "sys_file_size E idx a0 = critically (with_name idx a0 (-1) (\<lambda>name. with_drive E idx (-1) (\<lambda>s. do {
     (r, s) \<leftarrow> os_fat_call (fat16_find_entry (env_io E) (task_dir idx s) name) s;
     Some (case r of
             None \<Rightarrow> -1
           | Some (entry, _) \<Rightarrow> if de_attributes entry AND FAT16_ATTR_DIRECTORY = 0 then sint (de_file_size entry) else -1, s) })))"

definition sys_file_read :: "('h, 'p) os_env \<Rightarrow> nat \<Rightarrow> u32 \<Rightarrow> u32 \<Rightarrow> u32 \<Rightarrow> ('h, 'p, 'a, int) os_op" where
  "sys_file_read E idx a0 a1 a2 s =
     (if a1 = 0 \<or> sint a2 \<le> 0 \<or> \<not> shell_apps_user_range_valid (task_at idx s) a1 a2 then Some (-1, s)
      else critically (with_name idx a0 (-1) (\<lambda>name. with_drive E idx (-1) (\<lambda>s. do {
        (data, s) \<leftarrow> os_fat_call (fat16_read_file_from_dir (env_io E) (task_dir idx s) name (sint a2)) s;
        s \<leftarrow> store_virts a1 data s;
        Some (int (length data), s) }))) s)"

definition sys_file_write :: "('h, 'p) os_env \<Rightarrow> nat \<Rightarrow> u32 \<Rightarrow> u32 \<Rightarrow> u32 \<Rightarrow> ('h, 'p, 'a, int) os_op" where
  "sys_file_write E idx a0 a1 a2 s =
     (if a1 = 0 \<and> sint a2 > 0 \<or> sint a2 < 0 \<or> sint a2 > 0 \<and> \<not> shell_apps_user_range_valid (task_at idx s) a1 a2 then Some (0, s)
      else critically (with_name idx a0 0 (\<lambda>name. with_drive E idx 0 (\<lambda>s. do {
        data \<leftarrow> load_virts s a1 (unat a2);
        fat_truth (fat16_write_file_from_dir (env_io E) (task_dir idx s) name data (sint a2)) s }))) s)"

text \<open>The result of a directory listing: first the name and the flag are cleared, then they are filled in.\<close>

definition store_entry :: "u32 \<Rightarrow> u32 \<Rightarrow> cstr \<Rightarrow> bool \<Rightarrow> 'a machine_scheme \<Rightarrow> 'a machine_scheme option" where
  "store_entry a1 a2 name is_dir s = do {
     s \<leftarrow> store_virts a1 (name @ [0]) s;
     if a2 \<noteq> 0 then store_virts a2 (le_bytes (if is_dir then 1 else 0)) s else Some s }"

definition sys_list_entry :: "('h, 'p) os_env \<Rightarrow> nat \<Rightarrow> u32 \<Rightarrow> u32 \<Rightarrow> u32 \<Rightarrow> ('h, 'p, 'a, int) os_op" where
  "sys_list_entry E idx a0 a1 a2 s =
     (if a1 = 0 \<or> \<not> shell_apps_user_range_valid (task_at idx s) a1 13
         \<or> a2 \<noteq> 0 \<and> \<not> shell_apps_user_range_valid (task_at idx s) a2 4 then Some (0, s)
      else critically (with_drive E idx 0 (\<lambda>s. do {
        s \<leftarrow> store_entry a1 a2 [] False s;
        (r, s) \<leftarrow> os_fat_call (fat16_get_entry_by_index (env_io E) (task_dir idx s) a0 13) s;
        case r of
          None \<Rightarrow> Some (0, s)
        | Some (name, is_dir, _) \<Rightarrow> do { s \<leftarrow> store_entry a1 a2 name is_dir s; Some (1, s) } })) s)"

definition sys_copy_file :: "('h, 'p) os_env \<Rightarrow> nat \<Rightarrow> u32 \<Rightarrow> u32 \<Rightarrow> ('h, 'p, 'a, int) os_op" where
  "sys_copy_file E idx a0 a1 = critically (with_name idx a0 0 (\<lambda>na. with_name idx a1 0 (\<lambda>nb. with_drive E idx 0 (\<lambda>s.
     fat_truth (fat16_copy_file (env_io E) (task_dir idx s) na nb) s))))"

text \<open>\<^verbatim>\<open>MOVE_FILE\<close> renames files only, \<^verbatim>\<open>RENAME_ENTRY\<close> directories too.\<close>

definition sys_rename :: "('h, 'p) os_env \<Rightarrow> bool \<Rightarrow> nat \<Rightarrow> u32 \<Rightarrow> u32 \<Rightarrow> ('h, 'p, 'a, int) os_op" where
  "sys_rename E files_only idx a0 a1 = critically (with_name idx a0 0 (\<lambda>na. with_name idx a1 0 (\<lambda>nb. with_drive E idx 0 (\<lambda>s. do {
     (r, s) \<leftarrow> os_fat_call (fat16_find_entry (env_io E) (task_dir idx s) na) s;
     case r of
       None \<Rightarrow> Some (0, s)
     | Some (entry, _) \<Rightarrow>
         if files_only \<and> de_attributes entry AND FAT16_ATTR_DIRECTORY \<noteq> 0 then Some (0, s)
         else fat_truth (fat16_update_entry (env_io E) (task_dir idx s) na nb (de_cluster_low entry) (de_file_size entry) (de_attributes entry)) s }))))"

definition sys_mkdir :: "('h, 'p) os_env \<Rightarrow> nat \<Rightarrow> u32 \<Rightarrow> ('h, 'p, 'a, int) os_op" where
  "sys_mkdir E idx a0 = critically (with_name idx a0 0 (\<lambda>name. with_drive E idx 0 (\<lambda>s.
     fat_truth (fat16_mkdir (env_io E) (task_dir idx s) name) s)))"

definition sys_rmdir :: "('h, 'p) os_env \<Rightarrow> nat \<Rightarrow> u32 \<Rightarrow> ('h, 'p, 'a, int) os_op" where
  "sys_rmdir E idx a0 = critically (with_name idx a0 0 (\<lambda>name. with_drive E idx 0 (\<lambda>s.
     fat_truth (fat16_rmdir (env_io E) (task_dir idx s) name) s)))"

definition sys_delete_entry :: "('h, 'p) os_env \<Rightarrow> nat \<Rightarrow> u32 \<Rightarrow> ('h, 'p, 'a, int) os_op" where
  "sys_delete_entry E idx a0 = critically (with_name idx a0 0 (\<lambda>name. with_drive E idx 0 (\<lambda>s. do {
     (r, s) \<leftarrow> os_fat_call (fat16_find_entry (env_io E) (task_dir idx s) name) s;
     case r of
       None \<Rightarrow> Some (0, s)
     | Some (entry, _) \<Rightarrow>
         if de_attributes entry AND FAT16_ATTR_DIRECTORY \<noteq> 0 then fat_truth (fat16_rmdir (env_io E) (task_dir idx s) name) s
         else fat_truth (fat16_delete_entry (env_io E) (task_dir idx s) name True) s })))"

text \<open>Copies a file into a directory, and deletes the original when it is moved.\<close>

definition copy_or_move :: "('h, 'p) os_env \<Rightarrow> bool \<Rightarrow> u32 \<Rightarrow> cstr \<Rightarrow> u32 \<Rightarrow> ('h, 'p, 'a, int) os_op" where
  "copy_or_move E move src name dst s = do {
     (copied, s) \<leftarrow> os_fat_call (fat16_copy_file_between_dirs (env_io E) src name dst name) s;
     if \<not> copied then Some (0, s)
     else if move then fat_truth (fat16_delete_entry (env_io E) src name True) s else Some (1, s) }"

definition sys_to_dir :: "('h, 'p) os_env \<Rightarrow> bool \<Rightarrow> nat \<Rightarrow> u32 \<Rightarrow> u32 \<Rightarrow> ('h, 'p, 'a, int) os_op" where
  "sys_to_dir E move idx a0 a1 = critically (with_name idx a0 0 (\<lambda>na. with_name idx a1 0 (\<lambda>nb. with_drive E idx 0 (\<lambda>s. do {
     (r, s) \<leftarrow> os_fat_call (fat16_find_dir_cluster (env_io E) (task_dir idx s) nb) s;
     case r of None \<Rightarrow> Some (0, s) | Some dst \<Rightarrow> copy_or_move E move (task_dir idx s) na dst s }))))"

section \<open>The current directory\<close>

definition SLASH :: u8 where "SLASH = 0x2F"
definition COLON :: u8 where "COLON = 0x3A"

definition is_letter :: "u8 \<Rightarrow> bool" where
  "is_letter c \<longleftrightarrow> 0x41 \<le> c \<and> c \<le> 0x5A \<or> 0x61 \<le> c \<and> c \<le> 0x7A"

definition chdir_drive :: "nat \<Rightarrow> u8 \<Rightarrow> ('h, 'p, 'a, int) os_op" where
  "chdir_drive idx c s =
     (let drive_letter = int (unat c);
          drive_letter = (if drive_letter \<ge> 0x61 \<and> drive_letter \<le> 0x7A then drive_letter - 0x61 + 0x41 else drive_letter);
          drive_letter = drive_letter - 0x41 in
      if drive_get_info drive_letter (f_dev (os_fat s)) = None then Some (0, s)
      else Some (1, upd_task idx (\<lambda>t. t\<lparr>t_drive := drive_letter, t_current_dir_cluster := 0, t_current_path := path_reset\<rparr>) s))"

definition chdir_parent :: "('h, 'p) os_env \<Rightarrow> nat \<Rightarrow> ('h, 'p, 'a, int) os_op" where
  "chdir_parent E idx = critically (with_drive E idx 0 (\<lambda>s. do {
     (r, s) \<leftarrow> os_fat_call (fat16_get_parent_cluster (env_io E) (task_dir idx s)) s;
     Some (case r of
             None \<Rightarrow> (0, s)
           | Some parent \<Rightarrow> (1, upd_task idx (\<lambda>t. t\<lparr>t_current_dir_cluster := parent, t_current_path := path_pop (t_current_path t)\<rparr>) s)) }))"

definition chdir_child :: "('h, 'p) os_env \<Rightarrow> nat \<Rightarrow> cstr \<Rightarrow> ('h, 'p, 'a, int) os_op" where
  "chdir_child E idx name = critically (with_drive E idx 0 (\<lambda>s. do {
     (r, s) \<leftarrow> os_fat_call (fat16_find_dir_cluster (env_io E) (task_dir idx s) name) s;
     Some (case r of
             None \<Rightarrow> (0, s)
           | Some next_cluster \<Rightarrow>
             (case path_push (t_current_path (task_at idx s)) APP_PATH_MAX name of
                None \<Rightarrow> (0, s)
              | Some path \<Rightarrow> (1, upd_task idx (\<lambda>t. t\<lparr>t_current_path := path, t_current_dir_cluster := next_cluster\<rparr>) s))) }))"

definition sys_chdir :: "('h, 'p) os_env \<Rightarrow> nat \<Rightarrow> u32 \<Rightarrow> ('h, 'p, 'a, int) os_op" where
  "sys_chdir E idx a0 s = do {
     r \<leftarrow> shell_apps_copy_user_string (task_at idx s) a0 64 s;
     case r of
       None \<Rightarrow> Some (0, s)
     | Some name \<Rightarrow>
         if length name = 2 \<and> is_letter (name ! 0) \<and> name ! 1 = COLON then chdir_drive idx (name ! 0) s
         else if name \<noteq> [] \<and> (name ! 0 = BACKSLASH \<or> name ! 0 = SLASH)
         then Some (1, upd_task idx (\<lambda>t. t\<lparr>t_current_dir_cluster := 0, t_current_path := path_reset\<rparr>) s)
         else if name = [DOT, DOT] then chdir_parent E idx s
         else if name = [DOT] then Some (1, s)
         else chdir_child E idx (str_to_upper name) s }"

section \<open>The clipboard\<close>

definition sys_clip_set :: "('h, 'p) os_env \<Rightarrow> nat \<Rightarrow> u32 \<Rightarrow> u32 \<Rightarrow> ('h, 'p, 'a, int) os_op" where
  "sys_clip_set E idx a0 a1 = critically (with_name idx a0 0 (\<lambda>name. with_drive E idx 0 (\<lambda>s. do {
     (r, s) \<leftarrow> os_fat_call (fat16_find_entry (env_io E) (task_dir idx s) name) s;
     Some (case r of
             None \<Rightarrow> (0, s)
           | Some (entry, _) \<Rightarrow>
             if de_attributes entry AND FAT16_ATTR_DIRECTORY \<noteq> 0 then (0, s)
             else (case shell_apps_copy_string name APP_CLIP_NAME_MAX of
               (False, t') \<Rightarrow> (0, upd_task idx (\<lambda>t. t\<lparr>app_clip_name := t'\<rparr>) s)
             | (True, t') \<Rightarrow> (1, upd_task idx (\<lambda>t. t\<lparr>app_clip_name := t', app_clip_src_cluster := t_current_dir_cluster t,
                  app_clip_mode := (if sint a1 = 2 then 2 else 1)\<rparr>) s))) })))"

text \<open>The destination: the named directory, or the current one when there is no name; \<open>None\<close> when it cannot be found.\<close>

definition paste_target :: "('h, 'p) os_env \<Rightarrow> nat \<Rightarrow> u32 \<Rightarrow> u32 \<Rightarrow> ('h, 'p, 'a, u32 option) os_op" where
  "paste_target E idx a0 dst s =
     (if a0 = 0 then Some (Some dst, s)
      else do {
        r \<leftarrow> shell_apps_copy_user_string (task_at idx s) a0 64 s;
        case r of
          None \<Rightarrow> Some (None, s)
        | Some name \<Rightarrow>
            if name = [] then Some (Some dst, s)
            else os_fat_call (fat16_find_dir_cluster (env_io E) (task_dir idx s) (str_to_upper name)) s })"

definition sys_clip_paste :: "('h, 'p) os_env \<Rightarrow> nat \<Rightarrow> u32 \<Rightarrow> ('h, 'p, 'a, int) os_op" where
  "sys_clip_paste E idx a0 s =
     (let dst = task_dir idx s in
      critically (\<lambda>s.
        if app_clip_mode (task_at idx s) = 0 \<or> app_clip_name (task_at idx s) = [] then Some (0, s)
        else with_drive E idx 0 (\<lambda>s. do {
          (r, s) \<leftarrow> paste_target E idx a0 dst s;
          case r of
            None \<Rightarrow> Some (0, s)
          | Some dst \<Rightarrow> do {
              let move = (app_clip_mode (task_at idx s) = 2);
              (r, s) \<leftarrow> copy_or_move E move (app_clip_src_cluster (task_at idx s)) (app_clip_name (task_at idx s)) dst s;
              Some (r, if move \<and> r \<noteq> 0 then upd_task idx (\<lambda>t. t\<lparr>app_clip_mode := 0, app_clip_name := []\<rparr>) s else s) } }) s) s)"

section \<open>Graphics\<close>

definition rect_of :: "u8 list \<Rightarrow> app_gfx_rect" where
  "rect_of b = \<lparr>gr_x = load32 b 0, gr_y = load32 b 4, gr_w = load32 b 8, gr_h = load32 b 12, gr_color = load32 b 16\<rparr>"

definition video_rect_of :: "app_gfx_rect \<Rightarrow> video_rect" where
  "video_rect_of r = \<lparr>vr_x = sint (gr_x r), vr_y = sint (gr_y r), vr_w = sint (gr_w r), vr_h = sint (gr_h r), vr_rgb = gr_color r\<rparr>"

definition sys_gfx_clear :: "('h, 'p) os_env \<Rightarrow> nat \<Rightarrow> u32 \<Rightarrow> ('h, 'p, 'a, int) os_op" where
  "sys_gfx_clear E idx a0 s =
     (if background (task_at idx s) then Some (0, s) else Some (1, snd (os_video_call E (Video_clear_color a0) s)))"

definition sys_gfx_rect :: "('h, 'p) os_env \<Rightarrow> nat \<Rightarrow> u32 \<Rightarrow> ('h, 'p, 'a, int) os_op" where
  "sys_gfx_rect E idx a0 s =
     (if background (task_at idx s) then Some (0, s)
      else do {
        b \<leftarrow> shell_apps_copy_user_bytes (task_at idx s) a0 20 s;
        Some (case map_option rect_of b of
                None \<Rightarrow> (0, s)
              | Some r \<Rightarrow>
                if \<not> shell_apps_gfx_legacy_rect_safe r then (0, s)
                else (1, snd (os_video_call E (Video_fill_rect (sint (gr_x r)) (sint (gr_y r)) (sint (gr_w r)) (sint (gr_h r)) (gr_color r)) s))) })"

text \<open>The rectangles of a batch, from the one with number \<open>i\<close> on; \<open>None\<close> when one of them is refused.\<close>

fun batch_rects :: "shell_app_task \<Rightarrow> u32 \<Rightarrow> nat list \<Rightarrow> 'a machine_scheme \<Rightarrow> video_rect list option option" where
  "batch_rects task addr [] s = Some (Some [])"
| "batch_rects task addr (i # is) s = do {
     b \<leftarrow> shell_apps_copy_user_bytes task (addr + of_nat i * 20) 20 s;
     case map_option rect_of b of
       None \<Rightarrow> Some None
     | Some r \<Rightarrow>
       if \<not> shell_apps_gfx_rect_valid r then Some None
       else map_option (map_option (Cons (video_rect_of r))) (batch_rects task addr is s) }"

definition sys_gfx_rect_batch :: "('h, 'p) os_env \<Rightarrow> nat \<Rightarrow> u32 \<Rightarrow> ('h, 'p, 'a, int) os_op" where
  "sys_gfx_rect_batch E idx a0 s =
     (if background (task_at idx s) then Some (0, s)
      else do {
        b \<leftarrow> shell_apps_copy_user_bytes (task_at idx s) a0 8 s;
        case b of
          None \<Rightarrow> Some (0, s)
        | Some b \<Rightarrow>
          let rects = load32 b 0; count = load32 b 4 in
          if rects = 0 \<or> count = 0 \<or> count > APP_GFX_RECT_BATCH_MAX then Some (0, s)
          else if \<not> shell_apps_user_range_valid (task_at idx s) rects (count * 20) then Some (0, s)
          else do {
            r \<leftarrow> batch_rects (task_at idx s) rects [0..<unat count] s;
            Some (case r of None \<Rightarrow> (0, s) | Some rs \<Rightarrow> os_video_call E (Video_fill_rect_batch rs) s) } })"

definition sys_gfx_text :: "('h, 'p) os_env \<Rightarrow> nat \<Rightarrow> u32 \<Rightarrow> ('h, 'p, 'a, int) os_op" where
  "sys_gfx_text E idx a0 s =
     (if background (task_at idx s) then Some (0, s)
      else do {
        b \<leftarrow> shell_apps_copy_user_bytes (task_at idx s) a0 20 s;
        case b of
          None \<Rightarrow> Some (0, s)
        | Some b \<Rightarrow>
          if load32 b 8 = 0 then Some (0, s)
          else do {
            t \<leftarrow> shell_apps_copy_user_string (task_at idx s) (load32 b 8) APP_USER_TEXT_MAX s;
            Some (case t of
                    None \<Rightarrow> (0, s)
                  | Some t \<Rightarrow> (1, snd (os_video_call E
                      (Video_draw_text_at (sint (load32 b 0)) (sint (load32 b 4)) t (load32 b 12) (load32 b 16)) s))) } })"

definition sys_gfx_text_clipped :: "('h, 'p) os_env \<Rightarrow> nat \<Rightarrow> u32 \<Rightarrow> ('h, 'p, 'a, int) os_op" where
  "sys_gfx_text_clipped E idx a0 s =
     (if background (task_at idx s) then Some (0, s)
      else do {
        b \<leftarrow> shell_apps_copy_user_bytes (task_at idx s) a0 40 s;
        case b of
          None \<Rightarrow> Some (0, s)
        | Some b \<Rightarrow>
          let x = sint (load32 b 0); y = sint (load32 b 4); clip_x = sint (load32 b 20); clip_y = sint (load32 b 24);
              clip_w = sint (load32 b 28); clip_h = sint (load32 b 32); flags = load32 b 36 in
          if load32 b 8 = 0 \<or> flags AND NOT APP_GFX_TEXT_TRANSPARENT_BG \<noteq> 0
             \<or> \<not> shell_apps_gfx_position_valid x \<or> \<not> shell_apps_gfx_position_valid y then Some (0, s)
          else do {
            t \<leftarrow> shell_apps_copy_user_string (task_at idx s) (load32 b 8) APP_USER_TEXT_MAX s;
            Some (case t of
                    None \<Rightarrow> (0, s)
                  | Some t \<Rightarrow>
                    if clip_w > 0 \<and> clip_h > 0 \<and> (\<not> shell_apps_gfx_extent_valid clip_x clip_w \<or> \<not> shell_apps_gfx_extent_valid clip_y clip_h)
                    then (0, s)
                    else os_video_call E
                      (Video_draw_text_clipped x y t (load32 b 12) (load32 b 16) clip_x clip_y clip_w clip_h flags) s) } })"

definition sys_gfx_size :: "nat \<Rightarrow> u32 \<Rightarrow> u32 \<Rightarrow> ('h, 'p, 'a, int) os_op" where
  "sys_gfx_size idx a0 a1 s =
     (if a0 = 0 \<or> a1 = 0 \<or> background (task_at idx s)
         \<or> \<not> shell_apps_user_range_valid (task_at idx s) a0 4 \<or> \<not> shell_apps_user_range_valid (task_at idx s) a1 4 then Some (0, s)
      else do {
        let w = video_get_width (input_view s);
        let h = video_get_height (input_view s);
        s \<leftarrow> store_virts a0 (le_bytes (of_int w)) s;
        s \<leftarrow> store_virts a1 (le_bytes (of_int h)) s;
        Some (1, s) })"

definition sys_gfx_present :: "('h, 'p) os_env \<Rightarrow> nat \<Rightarrow> ('h, 'p, 'a, int) os_op" where
  "sys_gfx_present E idx s =
     (if background (task_at idx s) then Some (0, s) else Some (1, snd (os_video_call E Video_present_pending s)))"

definition blit_of :: "u8 list \<Rightarrow> video_surface_blit" where
  "blit_of b = \<lparr>vs_buffer = load32 b 0, vs_width = sint (load32 b 4), vs_height = sint (load32 b 8), vs_stride = sint (load32 b 12),
     vs_format = sint (load32 b 16), vs_dest_x = sint (load32 b 20), vs_dest_y = sint (load32 b 24), vs_clip_x = sint (load32 b 28),
     vs_clip_y = sint (load32 b 32), vs_clip_w = sint (load32 b 36), vs_clip_h = sint (load32 b 40), vs_dest_w = sint (load32 b 44),
     vs_dest_h = sint (load32 b 48)\<rparr>"

definition blit_ok :: "shell_app_task \<Rightarrow> video_surface_blit \<Rightarrow> bool" where
  "blit_ok task v =
     (if vs_buffer v = 0 \<or> vs_width v \<le> 0 \<or> vs_height v \<le> 0 \<or> vs_width v > APP_GFX_MAX_DIMENSION \<or> vs_height v > APP_GFX_MAX_DIMENSION
         \<or> vs_stride v \<le> 0 \<or> vs_format v \<noteq> 0 \<and> vs_format v \<noteq> 1 \<and> vs_format v \<noteq> 2 then False
      else let row_bytes = of_int (vs_width v) * 4 :: u32; stride = of_int (vs_stride v) :: u32; remaining_rows = of_int (vs_height v - 1) :: u32 in
      if stride < row_bytes then False
      else if remaining_rows > (0xFFFFFFFF - row_bytes) div stride then False
      else if \<not> shell_apps_user_range_valid task (vs_buffer v) (remaining_rows * stride + row_bytes) then False
      else let dest_w = (if vs_dest_w v > 0 then vs_dest_w v else vs_width v); dest_h = (if vs_dest_h v > 0 then vs_dest_h v else vs_height v) in
      if \<not> shell_apps_gfx_extent_valid (vs_dest_x v) dest_w \<or> \<not> shell_apps_gfx_extent_valid (vs_dest_y v) dest_h then False
      else \<not> (vs_clip_w v > 0 \<and> vs_clip_h v > 0
        \<and> (\<not> shell_apps_gfx_extent_valid (vs_clip_x v) (vs_clip_w v) \<or> \<not> shell_apps_gfx_extent_valid (vs_clip_y v) (vs_clip_h v))))"

definition sys_gfx_surface_blit :: "('h, 'p) os_env \<Rightarrow> nat \<Rightarrow> u32 \<Rightarrow> ('h, 'p, 'a, int) os_op" where
  "sys_gfx_surface_blit E idx a0 s =
     (if background (task_at idx s) then Some (0, s)
      else do {
        b \<leftarrow> shell_apps_copy_user_bytes (task_at idx s) a0 52 s;
        Some (case map_option blit_of b of
                None \<Rightarrow> (0, s)
              | Some v \<Rightarrow> if blit_ok (task_at idx s) v then os_video_call E (Video_blit_surface v) s else (0, s)) })"

section \<open>The dispatcher\<close>

text \<open>\<open>frame\<close> is the interrupt frame of a yield inside the call.\<close>

definition sys_yield :: "'l os_link_scheme \<Rightarrow> u32 \<Rightarrow> ('h, 'p, 'a, sys_result) os_op" where
  "sys_yield L frame s = (let (f, s) = scheduler_yield L frame s in Some (if f = 0 then Sys_return 0 else Sys_switch f, s))"

definition returning :: "('h, 'p, 'a, int) os_op \<Rightarrow> ('h, 'p, 'a, sys_result) os_op" where
  "returning f s = map_option (\<lambda>(r, s). (Sys_return r, s)) (f s)"

text \<open>The call with number \<open>num\<close>; any other number fails.\<close>

definition syscall_of :: "('h, 'p) os_env \<Rightarrow> 'l os_link_scheme \<Rightarrow> u32 \<Rightarrow> nat \<Rightarrow> u32 \<Rightarrow> u32 \<Rightarrow> u32 \<Rightarrow> u32 \<Rightarrow> ('h, 'p, 'a, sys_result) os_op" where
  "syscall_of E L frame idx num a0 a1 a2 s =
     (if num = MINIDOS_SYSCALL_PUTS then returning (sys_puts L idx a0) s
      else if num = MINIDOS_SYSCALL_GET_CHAR then shell_apps_get_char E s
      else if num = MINIDOS_SYSCALL_GET_CHAR_NONBLOCK then returning (sys_get_char_nonblock E) s
      else if num = MINIDOS_SYSCALL_GET_MOUSE_STATE then returning (sys_get_mouse_state E idx a0) s
      else if num = MINIDOS_SYSCALL_WAIT_EVENT then shell_apps_wait_event E a0 a1 s
      else if num = MINIDOS_SYSCALL_GET_TICKS then returning (sys_get_ticks E idx) s
      else if num = MINIDOS_SYSCALL_GET_TIME then returning (sys_get_time E idx a0) s
      else if num = MINIDOS_SYSCALL_THREAD_SPAWN then returning (shell_apps_spawn_app_thread L idx a0) s
      else if num = MINIDOS_SYSCALL_THREAD_YIELD then sys_yield L frame s
      else if num = MINIDOS_SYSCALL_THREAD_SELF then Some (Sys_return (t_pid (task_at idx s)), s)
      else if num = MINIDOS_SYSCALL_RANDOM then returning (sys_random a0) s
      else if num = MINIDOS_SYSCALL_DRIVE_VALID then returning (sys_drive_valid a0) s
      else if num = MINIDOS_SYSCALL_FILE_SIZE then returning (sys_file_size E idx a0) s
      else if num = MINIDOS_SYSCALL_FILE_READ then returning (sys_file_read E idx a0 a1 a2) s
      else if num = MINIDOS_SYSCALL_FILE_WRITE then returning (sys_file_write E idx a0 a1 a2) s
      else if num = MINIDOS_SYSCALL_LIST_ENTRY then returning (sys_list_entry E idx a0 a1 a2) s
      else if num = MINIDOS_SYSCALL_COPY_FILE then returning (sys_copy_file E idx a0 a1) s
      else if num = MINIDOS_SYSCALL_MOVE_FILE then returning (sys_rename E True idx a0 a1) s
      else if num = MINIDOS_SYSCALL_GFX_CLEAR then returning (sys_gfx_clear E idx a0) s
      else if num = MINIDOS_SYSCALL_GFX_RECT then returning (sys_gfx_rect E idx a0) s
      else if num = MINIDOS_SYSCALL_GFX_RECT_BATCH then returning (sys_gfx_rect_batch E idx a0) s
      else if num = MINIDOS_SYSCALL_GFX_TEXT then returning (sys_gfx_text E idx a0) s
      else if num = MINIDOS_SYSCALL_GFX_TEXT_CLIPPED then returning (sys_gfx_text_clipped E idx a0) s
      else if num = MINIDOS_SYSCALL_GFX_SIZE then returning (sys_gfx_size idx a0 a1) s
      else if num = MINIDOS_SYSCALL_GFX_PRESENT then returning (sys_gfx_present E idx) s
      else if num = MINIDOS_SYSCALL_GFX_SURFACE_BLIT then returning (sys_gfx_surface_blit E idx a0) s
      else if num = MINIDOS_SYSCALL_CHDIR then returning (sys_chdir E idx a0) s
      else if num = MINIDOS_SYSCALL_MKDIR then returning (sys_mkdir E idx a0) s
      else if num = MINIDOS_SYSCALL_RMDIR then returning (sys_rmdir E idx a0) s
      else if num = MINIDOS_SYSCALL_DELETE_ENTRY then returning (sys_delete_entry E idx a0) s
      else if num = MINIDOS_SYSCALL_RENAME_ENTRY then returning (sys_rename E False idx a0 a1) s
      else if num = MINIDOS_SYSCALL_COPY_TO_DIR then returning (sys_to_dir E False idx a0 a1) s
      else if num = MINIDOS_SYSCALL_MOVE_TO_DIR then returning (sys_to_dir E True idx a0 a1) s
      else if num = MINIDOS_SYSCALL_CLIP_SET then returning (sys_clip_set E idx a0 a1) s
      else if num = MINIDOS_SYSCALL_CLIP_PASTE then returning (sys_clip_paste E idx a0) s
      else Some (Sys_return (-1), s))"

definition shell_apps_syscall :: "('h, 'p) os_env \<Rightarrow> 'l os_link_scheme \<Rightarrow> u32 \<Rightarrow> u32 \<Rightarrow> u32 \<Rightarrow> u32 \<Rightarrow> u32 \<Rightarrow> ('h, 'p, 'a, sys_result) os_op" where
  "shell_apps_syscall E L frame num a0 a1 a2 s =
     (case shell_apps_active_task s of
        None \<Rightarrow> Some (Sys_return (-1), s)
      | Some idx \<Rightarrow>
        if \<not> shell_apps_task_valid (task_at idx s) then Some (Sys_return (-1), s) else syscall_of E L frame idx num a0 a1 a2 s)"

end
