(* ===== verification/App_Contract.thy ===== *)
theory App_Contract
  imports App_Props App_Syscall
begin

text \<open>
  What a system call may do. The locale \<open>call_contract\<close> says what its code relies on: a property \<open>Q\<close> of the state that survives
  changes outside the invariant, changes of labels of the calling task, and stores into ranges of user memory that
  passed the check of the kernel. Every system call except the creation of a thread and the yield then keeps \<open>Q\<close>. The contract is
  interpreted on \<open>calling\<close>: the invariant of the application layer, the identity of the caller, and all memory outside its slot.
\<close>

unbundle bit_operations_syntax

section \<open>Operations that keep a property\<close>

definition safe :: "('s \<Rightarrow> bool) \<Rightarrow> ('s \<Rightarrow> ('r \<times> 's) option) \<Rightarrow> bool" where
  "safe Q f \<longleftrightarrow> (\<forall>s r t. Q s \<longrightarrow> f s = Some (r, t) \<longrightarrow> Q t)"

named_theorems safe_intros \<open>operations that keep the property of the contract\<close>

lemma safeI: "(\<And>s r t. Q s \<Longrightarrow> f s = Some (r, t) \<Longrightarrow> Q t) \<Longrightarrow> safe Q f"
  by (simp add: safe_def)

lemma safeD: "safe Q f \<Longrightarrow> Q s \<Longrightarrow> f s = Some (r, t) \<Longrightarrow> Q t"
  by (simp add: safe_def)

lemma safe_return [safe_intros]: "safe Q (\<lambda>s. Some (r s, s))"
  by (simp add: safe_def)

lemma safe_bind [safe_intros]:
  assumes "safe Q f" "\<And>r. safe Q (g r)" shows "safe Q (\<lambda>s. do { (r, s) \<leftarrow> f s; g r s })"
proof (rule safeI)
  fix s r t assume q: "Q s" and run: "do { (r, s) \<leftarrow> f s; g r s } = Some (r, t)"
  obtain x u where u: "f s = Some (x, u)" "g x u = Some (r, t)" using run by (cases "f s") auto
  show "Q t" by (rule safeD [OF assms(2) safeD [OF assms(1) q u(1)] u(2)])
qed

lemma safe_if [safe_intros]:
  assumes "safe Q f" "safe Q g" shows "safe Q (\<lambda>s. if b s then f s else g s)"
proof (rule safeI)
  fix s r t assume q: "Q s" and run: "(if b s then f s else g s) = Some (r, t)"
  show "Q t"
  proof (cases "b s")
    case True then show ?thesis using run by (intro safeD [OF assms(1) q]) simp
  next
    case False then show ?thesis using run by (intro safeD [OF assms(2) q]) simp
  qed
qed

lemma safe_state [safe_intros]: "(\<And>s. Q s \<Longrightarrow> Q (f s)) \<Longrightarrow> safe Q (\<lambda>s. Some (r s, f s))"
  by (rule safeI) simp

lemma safe_read:
  assumes "\<And>x. safe Q (g x)" shows "safe Q (\<lambda>s. do { x \<leftarrow> f s; g x s })"
proof (rule safeI)
  fix s r t assume q: "Q s" and run: "do { x \<leftarrow> f s; g x s } = Some (r, t)"
  obtain x where "g x s = Some (r, t)" using run by (cases "f s") auto
  then show "Q t" by (rule safeD [OF assms q])
qed

lemma safe_reading: "(\<And>x. safe Q (f x)) \<Longrightarrow> safe Q (\<lambda>s. f (g s) s)"
  by (rule safeI) (rule safeD)

section \<open>Input drivers\<close>

text \<open>The part of the machine that the input drivers share with the invariant.\<close>

definition mapping_of :: "'a machine_scheme \<Rightarrow> (nat \<Rightarrow> u32) \<times> u32" where
  "mapping_of s = (m_mem s, m_cr3 s)"

lemma mapping_if [simp]: "mapping_of (if b then s else t) = (if b then mapping_of s else mapping_of t)"
  by simp

lemma mapping_ps2 [simp]: "mapping_of (snd (ps2_inb io p s)) = mapping_of s" "mapping_of (snd (ps2_read_status io s)) = mapping_of s"
  by (simp_all add: mapping_of_def ps2_read_status_def ps2_inb_def split_beta)

lemma mapping_log [simp]: "mapping_of (log_serial_raw t s) = mapping_of s"
  by (simp add: mapping_of_def)

lemma mapping_keys [simp]:
  "mapping_of (push_char c s) = mapping_of s" "mapping_of (snd (pop_char s)) = mapping_of s"
  "mapping_of (snd (keyboard_is_duplicate_make k e b s)) = mapping_of s"
  by (simp_all add: mapping_of_def push_char_def pop_char_def keyboard_is_duplicate_make_def Let_def)

lemma mapping_scancode [simp]: "mapping_of (snd (keyboard_process_scancode k s)) = mapping_of s"
proof -
  have "mapping_of (snd (keyboard_process_scancode_set1 k s)) = mapping_of s"
    unfolding keyboard_process_scancode_set1_def by (simp add: mapping_of_def)
  moreover have "mapping_of (snd (keyboard_process_scancode_set2 k s)) = mapping_of s"
    unfolding keyboard_process_scancode_set2_def by (simp add: mapping_of_def)
  ultimately show ?thesis by (simp add: keyboard_process_scancode_def)
qed

lemma mapping_fields [simp]:
  "mapping_of (s\<lparr>irq_seen := b\<rparr>) = mapping_of s" "mapping_of (s\<lparr>last_irq_tick := k\<rparr>) = mapping_of s"
  "mapping_of (s\<lparr>poll_fallback_reported := b\<rparr>) = mapping_of s" "mapping_of (s\<lparr>ps2_hw := h\<rparr>) = mapping_of s"
  by (simp_all add: mapping_of_def)

lemma mapping_poll [simp]: "mapping_of (snd (keyboard_poll_one_char io s)) = mapping_of s"
  by (simp add: keyboard_poll_one_char_def split_beta Let_def)

lemma mapping_keyboard [simp]:
  "mapping_of (snd (keyboard_try_get_char io s)) = mapping_of s"
  "mapping_of (snd (keyboard_has_input io s)) = mapping_of s" "mapping_of (keyboard_handle_irq io s) = mapping_of s"
proof -
  have pc: "mapping_of u = mapping_of s" if "pop_char s = (r, u)" for r u using that mapping_keys(2) [of s] by simp
  have pp: "mapping_of u = mapping_of s" if "keyboard_poll_one_char io s = (r, u)" for r u using that mapping_poll [of io s] by simp
  show "mapping_of (snd (keyboard_try_get_char io s)) = mapping_of s"
    using pc by (auto simp: keyboard_try_get_char_def split: prod.split option.split)
  show "mapping_of (snd (keyboard_has_input io s)) = mapping_of s"
    using pp by (auto simp: keyboard_has_input_def split: prod.split option.split)
  show "mapping_of (keyboard_handle_irq io s) = mapping_of s"
    by (simp add: keyboard_handle_irq_def split_beta Let_def)
qed

lemma mapping_mouse [simp]: "mapping_of (mouse_handle_irq io s) = mapping_of s"
proof -
  have ap: "mapping_of (mouse_apply_packet u) = mapping_of u" for u :: "('a, 'b) mouse_kernel_scheme"
    by (simp add: mouse_apply_packet_def Let_def mapping_of_def)
  show ?thesis unfolding mouse_handle_irq_def split_beta Let_def
    by (simp add: ap if_distrib [where f = mapping_of] cong: if_cong) (simp add: mapping_of_def ps2_read_status_def ps2_inb_def split_beta)
qed

lemma core_input_back:
  assumes "mapping_of i = mapping_of s" shows "core (input_back i s) = core s"
proof -
  have "m_mem i = m_mem s" "m_cr3 i = m_cr3 s" using assms by (simp_all add: mapping_of_def)
  then show ?thesis by (cases s) (simp add: core_def input_back_def timer_state.defs)
qed

lemma mapping_view [simp]: "mapping_of (input_view s) = mapping_of s"
  by (simp add: mapping_of_def input_view_def timer_state.defs)

lemma core_with_input:
  assumes "\<And>i. mapping_of (snd (f i)) = mapping_of i" shows "core (snd (with_input f s)) = core s"
  using core_input_back [of "snd (f (input_view s))" s] assms [of "input_view s"] by (simp add: with_input_def split_beta)

lemma core_with_serial: "with_serial f s = Some (r, t) \<Longrightarrow> core t = core s"
  by (auto simp: with_serial_def frame_simps)

section \<open>Names of directory entries\<close>

lemma trim_end_le: "trim_end nm lo k \<le> k"
  by (induction nm lo k rule: trim_end.induct) auto

lemma display_name_length: "length (fat16_build_display_name e) \<le> 12"
  using trim_end_le [of "de_name e" 0 8] trim_end_le [of "de_name e" 8 11] by (auto simp: fat16_build_display_name_def Let_def)

lemma nth_visible_name: "nth_visible k b is a = Return (Some (nm, d, n)) \<Longrightarrow> length nm \<le> 12"
  by (induction k b "is" a rule: nth_visible.induct) (auto simp: Let_def display_name_length split: if_split_asm)

lemma entry_name_length:
  assumes "fat16_get_entry_by_index io dir k m s = Some (Some (nm, d, n), t)" shows "length nm \<le> 12"
proof -
  let ?Q = "\<lambda>x :: (cstr \<times> bool \<times> u32) option. case x of None \<Rightarrow> True | Some (nm, _) \<Rightarrow> length nm \<le> 12"
  have body: "?Q r" if "index_body io k x a s = Some (Return r, t)" for x a s r t
    using that nth_visible_name by (auto simp: index_body_def split: prod.split_asm bool.split_asm option.split)
  obtain r where r: "over_dir io (index_body io k) dir 0 s = Some (r, t)" "r = Return (Some (nm, d, n))"
    using assms by (auto simp: fat16_get_entry_by_index_def split: if_split_asm Option.bind_split_asm step.split_asm)
  have "case r of Return x \<Rightarrow> ?Q x | Continue _ \<Rightarrow> True"
    using r(1) over_sectors_return [where body = "index_body io k" and Q = ?Q] over_clusters_return [where body = "index_body io k" and Q = ?Q] body
    by (fastforce simp: over_dir_def split: if_split_asm Option.bind_split_asm step.split)
  then show ?thesis using r(2) by simp
qed

section \<open>System calls under a contract\<close>

locale call_contract =
  fixes Q :: "('h, 'p, 'a) os_state_scheme \<Rightarrow> bool" and c :: nat
  assumes keep_core: "Q s \<Longrightarrow> core t = core s \<Longrightarrow> Q t"
    and keep_label: "Q s \<Longrightarrow> relabels f \<Longrightarrow> Q (upd_task c f s)"
    and keep_store: "Q s \<Longrightarrow> shell_apps_user_range_valid (task_at c s) a n \<Longrightarrow> length bs \<le> unat n \<Longrightarrow> store_virts a bs s = Some t \<Longrightarrow> Q t"
    and same_range: "Q s \<Longrightarrow> Q t \<Longrightarrow> shell_apps_user_range_valid (task_at c s) a n = shell_apps_user_range_valid (task_at c t) a n"
    and active: "Q s \<Longrightarrow> shell_apps_active_task s = Some c"
begin

lemma safe_fat [safe_intros]: "safe Q (\<lambda>s. os_fat_call (f s) s)"
proof (rule safeI)
  fix s r t assume "Q s" "os_fat_call (f s) s = Some (r, t)"
  then show "Q t" by (rule keep_core [OF _ core_fat_call])
qed

lemma safe_fat_truth [safe_intros]: "safe Q (\<lambda>s. fat_truth (f s) s)"
  unfolding fat_truth_def by (intro safe_intros)

lemma safe_critically [safe_intros]:
  assumes "safe Q f" shows "safe Q (critically f)"
proof (rule safeI)
  fix s r t assume q: "Q s" and run: "critically f s = Some (r, t)"
  let ?s = "snd (shell_apps_enter_critical s)"
  obtain u where u: "f ?s = Some (r, u)" "t = shell_apps_leave_critical (fst (shell_apps_enter_critical s)) u"
    using run by (cases "f (snd (shell_apps_enter_critical s))") (auto simp: critically_def split_beta)
  have "Q ?s" by (rule keep_core [OF q]) (simp add: shell_apps_enter_critical_def frame_simps)
  then have "Q u" by (rule safeD [OF assms _ u(1)])
  then show "Q t" by (rule keep_core) (simp add: u(2) shell_apps_leave_critical_def frame_simps)
qed

lemma safe_name [safe_intros]:
  assumes "\<And>n. safe Q (f n)" shows "safe Q (with_name i a r f)"
  unfolding with_name_def
proof (rule safe_read)
  show "safe Q (\<lambda>s. case x of None \<Rightarrow> Some (r, s) | Some n \<Rightarrow> f n s)" for x using assms by (cases x) (auto intro: safe_intros)
qed

lemma safe_enter: "safe Q (shell_apps_enter_drive_context E c)"
proof (rule safeI)
  fix s r t assume q: "Q s" and run: "shell_apps_enter_drive_context E c s = Some (r, t)"
  define u where "u = os_set_drive (t_drive (task_at c (os_drive_set_current (t_drive (task_at c (snd (os_drive_get_current s)))) (snd (os_drive_get_current s)))))
    (os_drive_set_current (t_drive (task_at c (snd (os_drive_get_current s)))) (snd (os_drive_get_current s)))"
  have qu: "Q u" by (rule keep_core [OF q]) (simp add: u_def frame_simps)
  have lab: "relabels (\<lambda>t. t\<lparr>t_fat16_initialized := b\<rparr>)" for b by (simp add: relabels_def shell_apps_task_valid_def)
  have "t = s \<or> t = u \<or> (\<exists>ok v. os_fat_call (fat16_init (env_io E)) u = Some (ok, v) \<and> t = upd_task c (\<lambda>t. t\<lparr>t_fat16_initialized := ok\<rparr>) v)"
  proof (cases "\<not> shell_apps_task_valid (task_at c s) \<or> t_fat16_initialized (task_at c u)")
    case True
    then show ?thesis using run by (auto simp add: shell_apps_enter_drive_context_def split_beta Let_def simp flip: u_def split: if_split_asm)
  next
    case False
    then show ?thesis using run
      by (cases "os_fat_call (fat16_init (env_io E)) u") (auto simp add: shell_apps_enter_drive_context_def split_beta Let_def simp flip: u_def)
  qed
  then show "Q t"
  proof (elim disjE exE conjE)
    fix ok v assume v: "os_fat_call (fat16_init (env_io E)) u = Some (ok, v)" "t = upd_task c (\<lambda>t. t\<lparr>t_fat16_initialized := ok\<rparr>) v"
    show "Q t" unfolding v(2) by (rule keep_label [OF keep_core [OF qu core_fat_call [OF v(1)]] lab])
  qed (simp_all add: q qu)
qed

lemma safe_drive [safe_intros]:
  assumes "safe Q f" shows "safe Q (with_drive E c r f)"
proof (rule safeI)
  fix s x t assume q: "Q s" and run: "with_drive E c r f s = Some (x, t)"
  obtain en pd u where u: "shell_apps_enter_drive_context E c s = Some ((en, pd), u)"
    using run by (auto simp: with_drive_def split: Option.bind_split_asm)
  have qu: "Q u" by (rule safeD [OF safe_enter q u])
  show "Q t"
  proof (cases en)
    case True
    obtain v where v: "f u = Some (x, v)" "t = shell_apps_leave_drive_context pd v"
      using run u True by (auto simp: with_drive_def split: Option.bind_split_asm)
    show ?thesis by (rule keep_core [OF safeD [OF assms qu v(1)]]) (simp add: v(2) shell_apps_leave_drive_context_def frame_simps)
  qed (use run u qu in \<open>auto simp: with_drive_def\<close>)
qed

lemma safe_entry_case [safe_intros]:
  assumes "\<And>x. safe Q (f x)" "safe Q g" shows "safe Q (\<lambda>s. case r of None \<Rightarrow> g s | Some x \<Rightarrow> f x s)"
  using assms by (cases r) simp_all

lemma safe_pair_case [safe_intros]: "(\<And>x y. safe Q (f x y)) \<Longrightarrow> safe Q (\<lambda>s. case r of (x, y) \<Rightarrow> f x y s)"
  by (cases r) simp

end

end
