(* ===== verification/App_Calls.thy ===== *)
theory App_Calls
  imports App_Contract
begin

text \<open>Every system call keeps the property of the contract.\<close>

unbundle bit_operations_syntax

lemma bytes_lengths: "length (le_bytes w) = 4" "length (mouse_bytes m) = 28"
  by (simp_all add: le_bytes_def mouse_bytes_def)

lemma sint_bounds: "sint (a :: u32) < 2 ^ 31"
  using sint_less [of a] by simp

lemma sint_positive: "0 < sint (a :: u32) \<Longrightarrow> nat (sint a) = unat a"
proof -
  assume "0 < sint a"
  then have "uint a = sint a" using uint_sint [of a] sint_bounds [of a] by (simp add: take_bit_eq_mod)
  then show ?thesis by (simp add: unat_eq_nat_uint)
qed

lemma spawn_returns: "returning f s = Some (r, t) \<Longrightarrow> \<exists>x. f s = Some (x, t)"
  by (auto simp: returning_def)

lemma safe_returning: "safe Q f \<Longrightarrow> safe Q (returning f)"
  by (rule safeI) (auto dest: spawn_returns safeD)

context call_contract
begin

lemma safe_store [safe_intros]:
  assumes "Q s0" "shell_apps_user_range_valid (task_at c s0) a n" "length bs \<le> unat n" "safe Q f"
  shows "safe Q (\<lambda>s. do { s \<leftarrow> store_virts a bs s; f s })"
proof (rule safeI)
  fix s r t assume q: "Q s" and run: "do { s \<leftarrow> store_virts a bs s; f s } = Some (r, t)"
  obtain u where u: "store_virts a bs s = Some u" "f u = Some (r, t)" using run by (cases "store_virts a bs s") auto
  have "shell_apps_user_range_valid (task_at c s) a n" using same_range [OF assms(1) q] assms(2) by simp
  then have "Q u" by (rule keep_store [OF q _ assms(3) u(1)])
  then show "Q t" by (rule safeD [OF assms(4) _ u(2)])
qed

lemma safe_label [safe_intros]: "relabels f \<Longrightarrow> safe Q (\<lambda>s. Some (r s, upd_task c f s))"
  by (rule safe_state) (rule keep_label)

lemma keep_ready: "Q s \<Longrightarrow> Q (shell_apps_note_input_ready c s)"
proof -
  assume q: "Q s"
  have f: "relabels (\<lambda>t. t\<lparr>input_ready_logged := True\<rparr>)" by (simp add: relabels_def shell_apps_task_valid_def)
  have "Q (log_serial_raw (ascii ''APPIN001'' @ [Logger.newline]) s)" by (rule keep_core [OF q]) (simp add: frame_simps)
  from keep_label [OF this f] show ?thesis using q by (simp add: shell_apps_note_input_ready_def)
qed

lemma keep_flush: "Q s \<Longrightarrow> Q (shell_apps_flush_graphics E s)"
  by (erule keep_core) (simp add: frame_simps)

lemma keep_sti: "Q s \<Longrightarrow> Q (shell_apps_ensure_interrupts_enabled s)"
  by (erule keep_core) (simp add: shell_apps_ensure_interrupts_enabled_def frame_simps)

lemma keep_video: "Q s \<Longrightarrow> Q (snd (os_video_call E v s))"
  by (erule keep_core) (simp add: frame_simps)

lemma safe_video [safe_intros]: "safe Q (\<lambda>s. Some (os_video_call E (v s) s))"
  by (rule safeI) (metis keep_video option.inject snd_conv)

text \<open>The steps before a call waits for input.\<close>

lemma keep_ready_steps:
  "Q s \<Longrightarrow> Q (shell_apps_note_input_ready c (if b then shell_apps_flush_graphics E (shell_apps_ensure_interrupts_enabled s)
     else shell_apps_ensure_interrupts_enabled s))"
  by (simp add: keep_ready keep_flush keep_sti)

lemma safe_serial: "safe Q (with_serial f)"
  by (rule safeI) (rule keep_core [OF _ core_with_serial])

lemma keep_keyboard: "Q s \<Longrightarrow> Q (snd (with_input (keyboard_try_get_char io) s))" "Q s \<Longrightarrow> Q (snd (with_input (keyboard_has_input io) s))"
  by (erule keep_core, simp add: core_with_input)+

lemma safe_try_get_char: "safe Q (shell_apps_try_get_char E)"
proof (rule safeI)
  fix s r t assume q: "Q s" and run: "shell_apps_try_get_char E s = Some (r, t)"
  show "Q t"
  proof (cases "\<not> shell_apps_task_valid (task_at c s) \<or> background (task_at c s)")
    case True
    then show ?thesis using run q active [OF q] by (auto simp: shell_apps_try_get_char_def split: if_split_asm)
  next
    case False
    let ?s = "shell_apps_note_input_ready c (if \<not> background (task_at c (shell_apps_ensure_interrupts_enabled s))
      then shell_apps_flush_graphics E (shell_apps_ensure_interrupts_enabled s) else shell_apps_ensure_interrupts_enabled s)"
    obtain k u where u: "with_input (keyboard_try_get_char (env_ports E)) ?s = (k, u)" by fastforce
    have qu: "Q u" using keep_keyboard(1) [OF keep_ready_steps [OF q], of "env_ports E"] u by (metis snd_conv)
    show ?thesis
    proof (cases k)
      case (Some x)
      then show ?thesis using run False active [OF q] u qu by (simp add: shell_apps_try_get_char_def Let_def)
    next
      case None
      have "safe Q (\<lambda>s. do { (received, s) \<leftarrow> with_serial (\<lambda>u. Some (serial_received (env_ports E) u)) s;
          if received then do { (c, s) \<leftarrow> with_serial (serial_getchar (env_ports E)) s; Some (Some c, s) } else Some (None, s) })"
        by (intro safe_intros safe_serial)
      from safeD [OF this qu] show ?thesis
        using run False active [OF q] u None by (simp add: shell_apps_try_get_char_def Let_def)
    qed
  qed
qed

lemma safe_get_char: "safe Q (shell_apps_get_char E)" "safe Q (sys_get_char_nonblock E)"
  unfolding shell_apps_get_char_def sys_get_char_nonblock_def by (intro safe_intros safe_try_get_char)+

lemma safe_mouse: "safe Q (sys_get_mouse_state E c a)"
proof (rule safeI)
  fix s r t assume q: "Q s" and run: "sys_get_mouse_state E c a s = Some (r, t)"
  show "Q t"
  proof (cases "\<not> shell_apps_user_range_valid (task_at c s) a 28 \<or> a = 0 \<or> \<not> shell_apps_task_valid (task_at c s) \<or> background (task_at c s)")
    case True
    then show ?thesis using run q active [OF q]
      by (auto simp: sys_get_mouse_state_def shell_apps_get_mouse_state_def split: if_split_asm)
  next
    case False
    let ?s = "shell_apps_note_input_ready c (if \<not> background (task_at c (shell_apps_ensure_interrupts_enabled s))
      then shell_apps_flush_graphics E (shell_apps_ensure_interrupts_enabled s) else shell_apps_ensure_interrupts_enabled s)"
    let ?b = "mouse_bytes (g_mouse_state (input_view ?s))"
    have st: "safe Q (\<lambda>s. do { s \<leftarrow> store_virts a ?b s; Some (1 :: int, s) })"
      by (rule safe_store [OF q, where n = 28]) (use False in \<open>auto simp: bytes_lengths intro: safe_return\<close>)
    show ?thesis
      by (rule safeD [OF st keep_ready_steps [OF q]])
        (use run False active [OF q] in \<open>simp add: sys_get_mouse_state_def shell_apps_get_mouse_state_def Let_def mouse_get_state_def\<close>)
  qed
qed

lemma safe_poll: "safe Q (wait_event_poll E c k st0 n)"
proof -
  have k: "safe Q (\<lambda>s. case with_input (keyboard_has_input (env_ports E)) s of
      (True, s) \<Rightarrow> Some (True, s) | (False, s) \<Rightarrow> with_serial (\<lambda>u. Some (serial_received (env_ports E) u)) s)"
  proof (rule safeI)
    fix s r t assume q: "Q s" and run: "(case with_input (keyboard_has_input (env_ports E)) s of
      (True, s) \<Rightarrow> Some (True, s) | (False, s) \<Rightarrow> with_serial (\<lambda>u. Some (serial_received (env_ports E) u)) s) = Some (r, t)"
    obtain b u where u: "with_input (keyboard_has_input (env_ports E)) s = (b, u)" by fastforce
    have qu: "Q u" using keep_keyboard(2) [OF q, of "env_ports E"] u by (metis snd_conv)
    show "Q t" using run u qu safeD [OF safe_serial qu] by (cases b) auto
  qed
  show ?thesis unfolding wait_event_poll_def Let_def by (intro safe_intros k)
qed

lemma safe_wait: "safe Q (shell_apps_wait_event E k ms)"
proof (rule safeI)
  fix s r t assume q: "Q s" and run: "shell_apps_wait_event E k ms s = Some (r, t)"
  have q1: "Q (let s = shell_apps_ensure_interrupts_enabled s; s = (if \<not> background (task_at c s) then shell_apps_flush_graphics E s else s)
      in if \<not> background (task_at c s) then shell_apps_note_input_ready c s else s)"
    by (simp add: Let_def keep_ready keep_flush keep_sti [OF q])
  show "Q t"
  proof (cases "shell_apps_task_valid (task_at c s)")
    case True
    show ?thesis by (rule safeD [OF safe_poll q1]) (use run active [OF q] True in \<open>simp add: shell_apps_wait_event_def Let_def\<close>)
  qed (use run q active [OF q] in \<open>auto simp: shell_apps_wait_event_def Let_def\<close>)
qed

text \<open>Calls that compute a pair of a result and a state.\<close>

lemma safe_pair:
  assumes "\<And>s. Q s \<Longrightarrow> Q (snd (f s))" shows "safe Q (\<lambda>s. Some (f s))"
proof (rule safeI)
  fix s r t assume "Q s" "Some (f s) = Some (r, t)"
  then show "Q t" using assms [of s] by simp
qed

lemma safe_ticks: "safe Q (sys_get_ticks E c)"
  unfolding sys_get_ticks_def Let_def by (rule safe_state) (simp add: keep_flush)

lemma safe_random: "safe Q (sys_random k)"
  unfolding sys_random_def shell_apps_random_u32_def Let_def case_prod_conv
  by (rule safe_state) (erule keep_core, simp add: frame_simps)

lemma safe_drive_valid: "safe Q (sys_drive_valid a)"
  unfolding sys_drive_valid_def by (rule safe_return)

lemma safe_puts: "safe Q (sys_puts L c a)"
  unfolding sys_puts_def
  by (intro safe_read safe_pair) (auto split: option.split intro: keep_core simp: frame_simps)

lemma safe_files: "safe Q (sys_file_size E c a)" "safe Q (sys_copy_file E c a b)" "safe Q (sys_rename E fo c a b)" "safe Q (sys_mkdir E c a)"
  "safe Q (sys_rmdir E c a)" "safe Q (sys_delete_entry E c a)" "safe Q (copy_or_move E mv x n y)"
  unfolding sys_file_size_def sys_copy_file_def sys_rename_def sys_mkdir_def sys_rmdir_def sys_delete_entry_def copy_or_move_def
  by (intro safe_intros)+

lemma safe_copy_or_move [safe_intros]: "safe Q (\<lambda>s. copy_or_move E mv (x s) (n s) y s)"
  by (rule safeI) (rule safeD [OF safe_files(7)])

lemma safe_to_dir: "safe Q (sys_to_dir E mv c a b)"
  unfolding sys_to_dir_def by (intro safe_intros)

lemma safe_file_read: "safe Q (sys_file_read E c a0 a1 a2)"
proof (rule safeI)
  fix s r t assume q: "Q s" and run: "sys_file_read E c a0 a1 a2 s = Some (r, t)"
  show "Q t"
  proof (cases "a1 = 0 \<or> sint a2 \<le> 0 \<or> \<not> shell_apps_user_range_valid (task_at c s) a1 a2")
    case False
    have st: "safe Q (\<lambda>s. do {
        (data, s) \<leftarrow> os_fat_call (fat16_read_file_from_dir (env_io E) (task_dir c s) name (sint a2)) s;
        s \<leftarrow> store_virts a1 data s;
        Some (int (length data), s) })" for name
    proof (rule safeI)
      fix u x v assume qu: "Q u" and run: "do {
        (data, s) \<leftarrow> os_fat_call (fat16_read_file_from_dir (env_io E) (task_dir c u) name (sint a2)) u;
        s \<leftarrow> store_virts a1 data s;
        Some (int (length data), s) } = Some (x, v)"
      obtain data w where w: "os_fat_call (fat16_read_file_from_dir (env_io E) (task_dir c u) name (sint a2)) u = Some (data, w)"
        "store_virts a1 data w = Some v"
        using run by (auto split: Option.bind_split_asm)
      have qw: "Q w" by (rule keep_core [OF qu core_fat_call [OF w(1)]])
      have len: "length data \<le> unat a2"
      proof -
        obtain fs where "fat16_read_file_from_dir (env_io E) (task_dir c u) name (sint a2) (os_fat u) = Some (data, fs)"
          using w(1) by (auto simp: os_fat_call_def)
        then have "length data \<le> nat (sint a2)" using False sint_bounds [of a2] by (intro read_file_bound) simp_all
        then show ?thesis using sint_positive [of a2] False by simp
      qed
      have "shell_apps_user_range_valid (task_at c w) a1 a2" using same_range [OF q qw] False by simp
      then show "Q v" by (rule keep_store [OF qw _ len w(2)])
    qed
    have "safe Q (critically (with_name c a0 (-1) (\<lambda>name. with_drive E c (-1) (\<lambda>s. do {
        (data, s) \<leftarrow> os_fat_call (fat16_read_file_from_dir (env_io E) (task_dir c s) name (sint a2)) s;
        s \<leftarrow> store_virts a1 data s;
        Some (int (length data), s) }))))"
      by (intro safe_critically safe_name safe_drive st)
    from safeD [OF this q] show ?thesis using run False by (simp add: sys_file_read_def)
  qed (use run q in \<open>auto simp: sys_file_read_def\<close>)
qed

lemma safe_file_write: "safe Q (sys_file_write E c a0 a1 a2)"
  unfolding sys_file_write_def by (intro safe_intros safe_read)

text \<open>A listing stores a name of at most twelve characters.\<close>

lemma keep_entry:
  assumes q0: "Q s0" "shell_apps_user_range_valid (task_at c s0) a1 13" "a2 \<noteq> 0 \<Longrightarrow> shell_apps_user_range_valid (task_at c s0) a2 4"
    and q: "Q s" and len: "length nm \<le> 12" and run: "store_entry a1 a2 nm d s = Some t"
  shows "Q t"
proof -
  obtain u where u: "store_virts a1 (nm @ [0]) s = Some u" "(if a2 \<noteq> 0 then store_virts a2 (le_bytes (if d then 1 else 0)) u else Some u) = Some t"
    using run by (auto simp: store_entry_def split: Option.bind_split_asm)
  have "shell_apps_user_range_valid (task_at c s) a1 13" using same_range [OF q0(1) q] q0(2) by simp
  then have qu: "Q u" by (rule keep_store [OF q _ _ u(1)]) (use len in simp)
  show ?thesis
  proof (cases "a2 = 0")
    case False
    then have v: "shell_apps_user_range_valid (task_at c u) a2 4" "store_virts a2 (le_bytes (if d then 1 else 0)) u = Some t"
      using same_range [OF q0(1) qu] q0(3) u(2) by simp_all
    show ?thesis by (rule keep_store [OF qu v(1) _ v(2)]) (simp add: bytes_lengths)
  qed (use u(2) qu in simp)
qed

lemma safe_list_entry: "safe Q (sys_list_entry E c a0 a1 a2)"
proof (rule safeI)
  fix s r t assume q: "Q s" and run: "sys_list_entry E c a0 a1 a2 s = Some (r, t)"
  let ?bad = "a1 = 0 \<or> \<not> shell_apps_user_range_valid (task_at c s) a1 13 \<or> a2 \<noteq> 0 \<and> \<not> shell_apps_user_range_valid (task_at c s) a2 4"
  let ?body = "\<lambda>s. do {
        s \<leftarrow> store_entry a1 a2 [] False s;
        (r, s) \<leftarrow> os_fat_call (fat16_get_entry_by_index (env_io E) (task_dir c s) a0 13) s;
        case r of
          None \<Rightarrow> Some (0 :: int, s)
        | Some (name, is_dir, _) \<Rightarrow> do { s \<leftarrow> store_entry a1 a2 name is_dir s; Some (1, s) } }"
  show "Q t"
  proof (cases ?bad)
    case False
    then have ranges: "shell_apps_user_range_valid (task_at c s) a1 13" "a2 \<noteq> 0 \<Longrightarrow> shell_apps_user_range_valid (task_at c s) a2 4" by auto
    have "safe Q ?body"
    proof (rule safeI)
      fix u x v assume qu: "Q u" and run: "?body u = Some (x, v)"
      obtain w1 e w2 where w: "store_entry a1 a2 [] False u = Some w1"
          "os_fat_call (fat16_get_entry_by_index (env_io E) (task_dir c w1) a0 13) w1 = Some (e, w2)"
          "(case e of None \<Rightarrow> Some (0, w2) | Some (name, is_dir, _) \<Rightarrow> do { s \<leftarrow> store_entry a1 a2 name is_dir w2; Some (1, s) }) = Some (x, v)"
        using run by (auto split: Option.bind_split_asm)
      have "Q w1" by (rule keep_entry [OF q ranges qu _ w(1)]) simp_all
      then have q2: "Q w2" by (rule keep_core [OF _ core_fat_call [OF w(2)]])
      show "Q v"
      proof (cases e)
        case (Some e')
        obtain nm d k where e': "e' = (nm, d, k)" by (cases e')
        obtain fs where fs: "fat16_get_entry_by_index (env_io E) (task_dir c w1) a0 13 (os_fat w1) = Some (Some (nm, d, k), fs)"
          using w(2) Some e' by (auto simp: os_fat_call_def)
        have st: "store_entry a1 a2 nm d w2 = Some v" using w(3) Some e' by (auto split: Option.bind_split_asm)
        show ?thesis by (rule keep_entry [OF q ranges q2 entry_name_length [OF fs] st])
      qed (use w(3) q2 in simp)
    qed
    then have "safe Q (critically (with_drive E c 0 ?body))" by (intro safe_critically safe_drive)
    from safeD [OF this q] show ?thesis using run False by (auto simp: sys_list_entry_def)
  qed (use run q in \<open>auto simp: sys_list_entry_def\<close>)
qed

lemma safe_get_time: "safe Q (sys_get_time E c a)"
proof (rule safeI)
  fix s r t assume q: "Q s" and run: "sys_get_time E c a s = Some (r, t)"
  show "Q t"
  proof (cases "a = 0 \<or> \<not> shell_apps_user_range_valid (task_at c s) a 3")
    case False
    obtain x h where h: "rtc_read_time (env_ports E) True (os_hw s) = Some (x, h)"
      using run False by (auto simp: sys_get_time_def split: Option.bind_split_asm)
    have q1: "Q (s\<lparr>os_hw := h\<rparr>)" by (rule keep_core [OF q]) (simp add: frame_simps)
    have v: "shell_apps_user_range_valid (task_at c (s\<lparr>os_hw := h\<rparr>)) a 3" using same_range [OF q q1] False by simp
    show ?thesis
    proof (cases x)
      case (Some tm)
      have st: "store_virts a [rt_hours tm, rt_minutes tm, rt_seconds tm] (s\<lparr>os_hw := h\<rparr>) = Some t"
        using run False h Some by (auto simp: sys_get_time_def Let_def split: Option.bind_split_asm)
      show ?thesis by (rule keep_store [OF q1 v _ st]) simp
    qed (use run False h q1 in \<open>simp add: sys_get_time_def Let_def\<close>)
  qed (use run q in \<open>auto simp: sys_get_time_def\<close>)
qed

lemma safe_gfx_size: "safe Q (sys_gfx_size c a0 a1)"
proof (rule safeI)
  fix s r t assume q: "Q s" and run: "sys_gfx_size c a0 a1 s = Some (r, t)"
  show "Q t"
  proof (cases "a0 = 0 \<or> a1 = 0 \<or> background (task_at c s)
      \<or> \<not> shell_apps_user_range_valid (task_at c s) a0 4 \<or> \<not> shell_apps_user_range_valid (task_at c s) a1 4")
    case False
    then have v: "shell_apps_user_range_valid (task_at c s) a0 4" "shell_apps_user_range_valid (task_at c s) a1 4" by auto
    let ?b = "\<lambda>v :: int. le_bytes (of_int v)"
    obtain u where u: "store_virts a0 (?b (video_get_width (input_view s))) s = Some u" "store_virts a1 (?b (video_get_height (input_view s))) u = Some t"
      using run False by (auto simp: sys_gfx_size_def Let_def split: Option.bind_split_asm)
    have qu: "Q u" by (rule keep_store [OF q v(1) _ u(1)]) (simp add: bytes_lengths)
    have "shell_apps_user_range_valid (task_at c u) a1 4" using same_range [OF q qu] v(2) by simp
    then show ?thesis by (rule keep_store [OF qu _ _ u(2)]) (simp add: bytes_lengths)
  qed (use run q in \<open>auto simp: sys_gfx_size_def\<close>)
qed

text \<open>Changes of the labels of the calling task.\<close>

lemma label_cases:
  "relabels (\<lambda>t. t\<lparr>t_drive := d, t_current_dir_cluster := k, t_current_path := p\<rparr>)"
  "relabels (\<lambda>t. t\<lparr>t_current_dir_cluster := k, t_current_path := p\<rparr>)" "relabels (\<lambda>t. t\<lparr>t_current_path := p, t_current_dir_cluster := k\<rparr>)"
  "relabels (\<lambda>t. t\<lparr>t_current_dir_cluster := k, t_current_path := path_pop (t_current_path t)\<rparr>)"
  "relabels (\<lambda>t. t\<lparr>app_clip_name := n\<rparr>)" "relabels (\<lambda>t. t\<lparr>app_clip_mode := m, app_clip_name := n\<rparr>)"
  "relabels (\<lambda>t. t\<lparr>app_clip_name := n, app_clip_src_cluster := t_current_dir_cluster t, app_clip_mode := m\<rparr>)"
  by (simp_all add: relabels_def shell_apps_task_valid_def)

lemma safe_chdir: "safe Q (sys_chdir E c a)"
proof -
  have d: "safe Q (chdir_drive c x)" for x
    unfolding chdir_drive_def Let_def by (intro safe_intros label_cases)
  have p: "safe Q (chdir_parent E c)"
    unfolding chdir_parent_def by (intro safe_intros safe_pair) (auto split: option.split intro: keep_label label_cases)
  have k: "safe Q (chdir_child E c nm)" for nm
    unfolding chdir_child_def by (intro safe_intros safe_pair) (auto split: option.split intro: keep_label label_cases)
  show ?thesis unfolding sys_chdir_def by (intro safe_read safe_intros label_cases d p k)
qed

lemma safe_clip_set: "safe Q (sys_clip_set E c a b)"
  unfolding sys_clip_set_def
  by (intro safe_intros safe_pair) (auto split: option.split prod.split bool.split intro: keep_label label_cases)

lemma safe_paste: "safe Q (paste_target E c a d)" "safe Q (sys_clip_paste E c a)"
proof -
  show p: "safe Q (paste_target E c a d)" for d unfolding paste_target_def by (intro safe_intros safe_read)
  have move: "safe Q (\<lambda>s. do { let move = (app_clip_mode (task_at c s) = 2);
      (r, s) \<leftarrow> copy_or_move E move (app_clip_src_cluster (task_at c s)) (app_clip_name (task_at c s)) dst s;
      Some (r, if move \<and> r \<noteq> 0 then upd_task c (\<lambda>t. t\<lparr>app_clip_mode := 0, app_clip_name := []\<rparr>) s else s) })" for dst
  proof (rule safeI)
    fix s r t
    assume q: "Q s" and run: "(let move = (app_clip_mode (task_at c s) = 2) in do {
      (r, s) \<leftarrow> copy_or_move E move (app_clip_src_cluster (task_at c s)) (app_clip_name (task_at c s)) dst s;
      Some (r, if move \<and> r \<noteq> 0 then upd_task c (\<lambda>t. t\<lparr>app_clip_mode := 0, app_clip_name := []\<rparr>) s else s) }) = Some (r, t)"
    obtain x u where u: "copy_or_move E (app_clip_mode (task_at c s) = 2) (app_clip_src_cluster (task_at c s)) (app_clip_name (task_at c s)) dst s = Some (x, u)"
        "t = (if app_clip_mode (task_at c s) = 2 \<and> x \<noteq> 0 then upd_task c (\<lambda>t. t\<lparr>app_clip_mode := 0, app_clip_name := []\<rparr>) u else u)"
      using run by (auto simp: Let_def split: Option.bind_split_asm)
    have "Q u" by (rule safeD [OF safe_files(7) q u(1)])
    then show "Q t" using keep_label [OF \<open>Q u\<close> label_cases(6)] by (simp add: u(2))
  qed
  show "safe Q (sys_clip_paste E c a)"
  proof (rule safeI)
    fix s r t assume q: "Q s" and run: "sys_clip_paste E c a s = Some (r, t)"
    have "safe Q (critically (\<lambda>s. if app_clip_mode (task_at c s) = 0 \<or> app_clip_name (task_at c s) = [] then Some (0, s)
        else with_drive E c 0 (\<lambda>s. do {
          (r, s) \<leftarrow> paste_target E c a d s;
          case r of
            None \<Rightarrow> Some (0, s)
          | Some dst \<Rightarrow> do {
              let move = (app_clip_mode (task_at c s) = 2);
              (r, s) \<leftarrow> copy_or_move E move (app_clip_src_cluster (task_at c s)) (app_clip_name (task_at c s)) dst s;
              Some (r, if move \<and> r \<noteq> 0 then upd_task c (\<lambda>t. t\<lparr>app_clip_mode := 0, app_clip_name := []\<rparr>) s else s) } }) s))" for d
      by (intro safe_critically safe_if safe_return safe_drive safe_bind p safe_entry_case move)
    from safeD [OF this q run [unfolded sys_clip_paste_def Let_def [of "task_dir c s"]]] show "Q t" .
  qed
qed

text \<open>Graphics calls only change the screen.\<close>

lemma safe_graphics: "safe Q (sys_gfx_clear E c a)" "safe Q (sys_gfx_rect E c a)" "safe Q (sys_gfx_rect_batch E c a)" "safe Q (sys_gfx_text E c a)"
  "safe Q (sys_gfx_text_clipped E c a)" "safe Q (sys_gfx_present E c)" "safe Q (sys_gfx_surface_blit E c a)"
  unfolding sys_gfx_clear_def sys_gfx_rect_def sys_gfx_rect_batch_def sys_gfx_text_def sys_gfx_text_clipped_def sys_gfx_present_def
    sys_gfx_surface_blit_def Let_def
  by (intro safe_intros safe_read safe_pair; auto split: option.split simp: Let_def intro: keep_video)+

section \<open>The dispatcher\<close>

lemmas safe_calls = safe_puts safe_get_char safe_mouse safe_wait safe_ticks safe_get_time safe_random safe_drive_valid safe_files safe_to_dir
  safe_file_read safe_file_write safe_list_entry safe_graphics safe_gfx_size safe_chdir safe_clip_set safe_paste

lemma safe_call:
  assumes "num \<noteq> MINIDOS_SYSCALL_THREAD_SPAWN" "num \<noteq> MINIDOS_SYSCALL_THREAD_YIELD"
  shows "safe Q (syscall_of E L frame c num a0 a1 a2)"
  unfolding syscall_of_def using assms
  by (simp only: if_False) ((rule safe_if)?, (rule safe_returning)?, rule safe_calls safe_return)+

lemma syscall_safe:
  assumes num: "num \<noteq> MINIDOS_SYSCALL_THREAD_SPAWN" "num \<noteq> MINIDOS_SYSCALL_THREAD_YIELD"
  shows "safe Q (shell_apps_syscall E L frame num a0 a1 a2)"
proof (rule safeI)
  fix s r t assume q: "Q s" and run: "shell_apps_syscall E L frame num a0 a1 a2 s = Some (r, t)"
  show "Q t"
  proof (cases "shell_apps_task_valid (task_at c s)")
    case True
    then have "syscall_of E L frame c num a0 a1 a2 s = Some (r, t)" using run active [OF q] by (simp add: shell_apps_syscall_def)
    then show ?thesis by (rule safeD [OF safe_call [OF num] q])
  qed (use run q active [OF q] in \<open>auto simp: shell_apps_syscall_def\<close>)
qed

end

end
