(* ===== verification/App_Gate.thy ===== *)
theory App_Gate
  imports App_Calls
begin

text \<open>
  The system calls on the states of the application layer. \<open>calling\<close> is the property that a call keeps: the invariant,
  the process table, the other tasks, and all memory outside the slot of the caller. It meets the contract of \<open>call_contract\<close>.
\<close>

unbundle bit_operations_syntax

lemmas syscall_numbers = MINIDOS_SYSCALL_PUTS_def MINIDOS_SYSCALL_GET_CHAR_def MINIDOS_SYSCALL_FILE_SIZE_def MINIDOS_SYSCALL_LIST_ENTRY_def
  MINIDOS_SYSCALL_COPY_FILE_def MINIDOS_SYSCALL_MOVE_FILE_def MINIDOS_SYSCALL_GFX_CLEAR_def MINIDOS_SYSCALL_GFX_RECT_def
  MINIDOS_SYSCALL_GFX_TEXT_def MINIDOS_SYSCALL_GFX_SIZE_def MINIDOS_SYSCALL_CHDIR_def MINIDOS_SYSCALL_MKDIR_def MINIDOS_SYSCALL_RMDIR_def
  MINIDOS_SYSCALL_DELETE_ENTRY_def MINIDOS_SYSCALL_RENAME_ENTRY_def MINIDOS_SYSCALL_COPY_TO_DIR_def MINIDOS_SYSCALL_MOVE_TO_DIR_def
  MINIDOS_SYSCALL_CLIP_SET_def MINIDOS_SYSCALL_CLIP_PASTE_def MINIDOS_SYSCALL_RANDOM_def MINIDOS_SYSCALL_FILE_READ_def
  MINIDOS_SYSCALL_FILE_WRITE_def MINIDOS_SYSCALL_GET_CHAR_NONBLOCK_def MINIDOS_SYSCALL_GET_TICKS_def MINIDOS_SYSCALL_GET_MOUSE_STATE_def
  MINIDOS_SYSCALL_WAIT_EVENT_def MINIDOS_SYSCALL_GFX_PRESENT_def MINIDOS_SYSCALL_GET_TIME_def MINIDOS_SYSCALL_THREAD_SPAWN_def
  MINIDOS_SYSCALL_THREAD_YIELD_def MINIDOS_SYSCALL_THREAD_SELF_def MINIDOS_SYSCALL_EXIT_def MINIDOS_SYSCALL_GFX_SURFACE_BLIT_def
  MINIDOS_SYSCALL_DRIVE_VALID_def MINIDOS_SYSCALL_GFX_RECT_BATCH_def MINIDOS_SYSCALL_GFX_TEXT_CLIPPED_def

section \<open>Checked addresses\<close>

text \<open>The thread that runs is one of an application.\<close>

lemma caller:
  assumes inv: "app_inv L T s" and c: "app_thread s (cur s)"
  shows "cur s < 8" "in_use (task_at (cur s) s)" "task_ok (cur s) (task_at (cur s) s)" "unat (m_cr3 s) = task_page_directory (cur s)"
proof -
  note i = app_invD [OF inv]
  show l: "cur s < 8" by (rule sched_invD(5) [OF i(5)])
  show u: "in_use (task_at (cur s) s)" using threads_invD(2) [OF i(3) l c] by (simp add: owner_ok_def)
  show "task_ok (cur s) (task_at (cur s) s)" using tasks_invD(1) [OF i(1) l u] by simp
  show "unat (m_cr3 s) = task_page_directory (cur s)" using i(9) c tdir_unat [OF l] by (simp add: app_thread_def)
qed

text \<open>An address in the slot of the caller is mapped to its place in the slot.\<close>

lemma slot_address:
  assumes inv: "app_inv L T s" and c: "app_thread s (cur s)"
    and a: "0x1000000 \<le> unat a" "unat a < 0x1000000 + unat (app_slot_bytes (task_at (cur s) s))"
  shows "translate (m_mem s) (unat (m_cr3 s)) a =
    Some \<lparr>pv_phys = unat (app_phys_base (task_at (cur s) s)) + (unat a - 0x1000000), pv_user = True, pv_write = True\<rparr>"
proof -
  note k = caller [OF inv c]
  have b: "slot_ok (app_slot_bytes (task_at (cur s) s))" by (rule task_okD(2) [OF k(3)])
  then have "unat (app_slot_bytes (task_at (cur s) s)) \<le> 0x400000" by (simp add: slot_ok_def)
  then obtain x where x: "unat a = 0x1000000 + x" "x < 0x400000" using a by (intro that [of "unat a - 0x1000000"]) linarith+
  then have "pd_index a = 4" by (simp add: pd_index_def)
  moreover have "4096 * (unat (app_slot_bytes (task_at (cur s) s)) div 4096) = unat (app_slot_bytes (task_at (cur s) s))"
    using slot_pages [OF b] by simp
  ultimately show ?thesis using task_view [OF inv k(1) c, of a] a by (simp add: k(4) app_view_def virt_base_index(3))
qed

text \<open>The addresses of a range that passed the check.\<close>

lemma range_address:
  assumes v: "shell_apps_user_range_valid t a n" and i: "i < unat n"
  shows "unat (a + of_nat i) = unat a + i" "0x1000000 \<le> unat (a + of_nat i)" "unat (a + of_nat i) < 0x1000000 + unat (app_slot_bytes t)"
proof -
  have "n \<noteq> 0" using i by auto
  then have r: "0x1000000 \<le> unat a" "unat a + unat n \<le> 0x1000000 + unat (app_slot_bytes t)" "unat (app_slot_bytes t) \<le> 0x400000"
    using v by (simp_all add: user_range_valid in_slot_def)
  then have "unat (of_nat i :: u32) = i" using i by (intro unat_of_nat32) simp
  then show e: "unat (a + of_nat i) = unat a + i" using r i by (subst unat_plus) simp_all
  show "0x1000000 \<le> unat (a + of_nat i)" "unat (a + of_nat i) < 0x1000000 + unat (app_slot_bytes t)" using e r i by simp_all
qed

lemma range_tail:
  assumes v: "shell_apps_user_range_valid t a n" and n: "1 < unat n"
  shows "shell_apps_user_range_valid t (a + 1) (n - 1)"
proof -
  have nz: "n \<noteq> 0" using n by auto
  have "unat (n - 1) = unat n - 1" using n by (subst unat_minus) simp_all
  moreover have "unat (a + 1) = unat a + 1" using range_address(1) [OF v n] by simp
  ultimately show ?thesis using v n nz by (simp add: user_range_valid in_slot_def)
qed

section \<open>The property that calls keep\<close>

definition calling :: "'l link_map_scheme \<Rightarrow> (nat \<rightharpoonup> nat) \<Rightarrow> ('h, 'p, 'a) os_state_scheme \<Rightarrow> ('h, 'p, 'a) os_state_scheme \<Rightarrow> bool" where
  "calling L T z s \<longleftrightarrow> app_layout L \<and> app_inv L T s \<and> app_thread z (cur z)
     \<and> g_slots s = g_slots z \<and> g_current s = g_current z \<and> m_cr3 s = m_cr3 z \<and> g_app_phys_page_used s = g_app_phys_page_used z
     \<and> (\<forall>p < 8. p \<noteq> cur z \<longrightarrow> task_at p s = task_at p z)
     \<and> (\<exists>f. relabels f \<and> task_at (cur z) s = f (task_at (cur z) z))
     \<and> (\<forall>a. a < unat (app_phys_base (task_at (cur z) z))
         \<or> unat (app_phys_base (task_at (cur z) z)) + unat (app_slot_bytes (task_at (cur z) z)) \<le> a \<longrightarrow> m_mem s a = m_mem z a)"

lemma calling_refl: "app_layout L \<Longrightarrow> app_inv L T s \<Longrightarrow> app_thread s (cur s) \<Longrightarrow> calling L T s s"
  by (auto simp: calling_def relabels_def intro: exI [of _ "\<lambda>t. t"])

lemma callingD:
  assumes "calling L T z s"
  shows "app_layout L" "app_inv L T s" "cur s = cur z" "app_thread s (cur s)" "in_use (task_at (cur z) s)"
    "app_slot_bytes (task_at (cur z) s) = app_slot_bytes (task_at (cur z) z)" "app_phys_base (task_at (cur z) s) = app_phys_base (task_at (cur z) z)"
proof -
  show "app_layout L" and inv: "app_inv L T s" and c: "cur s = cur z" using assms by (simp_all add: calling_def)
  show th: "app_thread s (cur s)" using assms by (simp add: calling_def app_thread_def slot_at_def)
  show "in_use (task_at (cur z) s)" using caller(2) [OF inv th] c by simp
  show "app_slot_bytes (task_at (cur z) s) = app_slot_bytes (task_at (cur z) z)" "app_phys_base (task_at (cur z) s) = app_phys_base (task_at (cur z) z)"
    using assms by (auto simp: calling_def relabels_def)
qed

lemma relabels_comp: "relabels f \<Longrightarrow> relabels g \<Longrightarrow> relabels (\<lambda>t. g (f t))"
  by (simp add: relabels_def)

lemma calling_label:
  assumes q: "calling L T z s" and f: "relabels f" shows "calling L T z (upd_task (cur z) f s)"
proof -
  note d = callingD [OF q]
  have c: "cur z < 8" using caller(1) [OF d(2,4)] d(3) by simp
  have len: "length (g_app_tasks s) = 8" using app_invD(1) [OF d(2)] by (simp add: tasks_inv_def)
  obtain g where g: "relabels g" "task_at (cur z) s = g (task_at (cur z) z)" using q by (auto simp: calling_def)
  have "task_at (cur z) (upd_task (cur z) f s) = f (g (task_at (cur z) z))" using c len g(2) by (simp add: upd_task_def task_at_def)
  then have "\<exists>h. relabels h \<and> task_at (cur z) (upd_task (cur z) f s) = h (task_at (cur z) z)" using relabels_comp [OF g(1) f] by blast
  moreover have "app_inv L T (upd_task (cur z) f s)" by (rule relabel_inv [OF d(2) f])
  ultimately show ?thesis using q by (simp add: calling_def upd_task_def task_at_def)
qed

lemma calling_core:
  fixes s t :: "('h, 'p, 'a) os_state_scheme"
  assumes q: "calling L T z s" and k: "core t = core s" shows "calling L T z t"
  using q core_eqD [OF k] app_inv_core [OF k, of L T] by (simp add: calling_def task_at_def)

lemma calling_byte:
  assumes q: "calling L T z s" and a: "0x1000000 \<le> unat a" "unat a < 0x1000000 + unat (app_slot_bytes (task_at (cur z) z))"
  shows "\<exists>t. store_virt a v s = Some t \<and> calling L T z t \<and> load_virt t a = Some v
    \<and> (\<forall>b. b \<noteq> a \<longrightarrow> 0x1000000 \<le> unat b \<longrightarrow> unat b < 0x1000000 + unat (app_slot_bytes (task_at (cur z) z)) \<longrightarrow> load_virt t b = load_virt s b)"
proof -
  note d = callingD [OF q] and k = caller [OF callingD(2,4) [OF q]]
  let ?b = "unat (app_phys_base (task_at (cur z) z))"
  have tr: "translate (m_mem s) (unat (m_cr3 s)) b = Some \<lparr>pv_phys = ?b + (unat b - 0x1000000), pv_user = True, pv_write = True\<rparr>"
    if "0x1000000 \<le> unat b" "unat b < 0x1000000 + unat (app_slot_bytes (task_at (cur z) z))" for b
    using slot_address [OF d(2,4), of b] that d(3,6,7) by simp
  let ?x = "?b + (unat a - 0x1000000)"
  let ?t = "s\<lparr>m_mem := put_byte ?x v (m_mem s)\<rparr>"
  have st: "store_virt a v s = Some ?t" using tr [OF a] by (simp add: store_virt_def)
  define y where "y = ?x - ?x mod 4"
  have cell: "user_cell s a = Some y" using tr [OF a] by (simp add: user_cell_def y_def)
  note uc = user_cell_slot [OF d(2,1) cell]
  have "app_inv L T (s\<lparr>m_mem := (m_mem s)(y := w)\<rparr>)" for w by (rule user_store_inv [OF d(2,1) cell])
  then have inv: "app_inv L T ?t" unfolding put_byte_def y_def by simp
  have yb: "?b \<le> y" "y < ?b + unat (app_slot_bytes (task_at (cur z) z))" using uc(2,5) unfolding d(3,6,7) by simp_all
  have "m_mem ?t c = m_mem s c" if "c < ?b \<or> ?b + unat (app_slot_bytes (task_at (cur z) z)) \<le> c" for c
  proof -
    have "c \<noteq> y" using that yb by linarith
    then show ?thesis using put_byte_cell [of c ?x v "m_mem s"] by (simp add: y_def)
  qed
  then have ct: "calling L T z ?t" using q inv by (simp add: calling_def task_at_def)
  have tr': "translate (m_mem ?t) (unat (m_cr3 ?t)) b = Some \<lparr>pv_phys = ?b + (unat b - 0x1000000), pv_user = True, pv_write = True\<rparr>"
    if "0x1000000 \<le> unat b" "unat b < 0x1000000 + unat (app_slot_bytes (task_at (cur z) z))" for b
    using slot_address [OF callingD(2,4) [OF ct], of b] that callingD(3,6,7) [OF ct] by simp
  have "load_virt ?t a = Some v" using tr' [OF a] by (simp add: load_virt_def get_put_byte)
  moreover have "load_virt ?t b = load_virt s b"
    if b: "b \<noteq> a" "0x1000000 \<le> unat b" "unat b < 0x1000000 + unat (app_slot_bytes (task_at (cur z) z))" for b
  proof -
    have "unat a \<noteq> unat b" using b(1) by (simp add: word_unat_eq_iff)
    then have "?x \<noteq> ?b + (unat b - 0x1000000)" using a b by linarith
    then show ?thesis using tr' [OF b(2,3)] tr [OF b(2,3)] by (simp add: load_virt_def get_put_byte)
  qed
  ultimately show ?thesis using st ct by blast
qed

text \<open>A store of several bytes into the slot of the caller.\<close>

lemma calling_bytes:
  assumes q: "calling L T z s" and a: "0x1000000 \<le> unat a" "unat a + length bs \<le> 0x1000000 + unat (app_slot_bytes (task_at (cur z) z))"
  shows "\<exists>t. store_virts a bs s = Some t \<and> calling L T z t \<and> (\<forall>i < length bs. load_virt t (a + of_nat i) = Some (bs ! i))
    \<and> (\<forall>b. 0x1000000 \<le> unat b \<longrightarrow> unat b < 0x1000000 + unat (app_slot_bytes (task_at (cur z) z)) \<longrightarrow> unat b < unat a \<longrightarrow> load_virt t b = load_virt s b)"
  using q a
proof (induction bs arbitrary: a s)
  case Nil then show ?case by simp
next
  case (Cons x bs)
  let ?n = "unat (app_slot_bytes (task_at (cur z) z))"
  have "slot_ok (app_slot_bytes (task_at (cur s) s))" by (rule task_okD(2) [OF caller(3) [OF callingD(2,4) [OF Cons.prems(1)]]])
  then have n: "?n \<le> 0x400000" using callingD(3,6) [OF Cons.prems(1)] by (simp add: slot_ok_def)
  have l: "unat a < 0x1000000 + ?n" using Cons.prems(3) by simp
  have s1: "unat (a + 1) = unat a + 1" using l n by (subst unat_plus) simp_all
  obtain u where u: "store_virt a x s = Some u" "calling L T z u" "load_virt u a = Some x"
    "\<And>b. b \<noteq> a \<Longrightarrow> 0x1000000 \<le> unat b \<Longrightarrow> unat b < 0x1000000 + ?n \<Longrightarrow> load_virt u b = load_virt s b"
    using calling_byte [OF Cons.prems(1,2) l, of x] by blast
  obtain t where t: "store_virts (a + 1) bs u = Some t" "calling L T z t"
    "\<And>i. i < length bs \<Longrightarrow> load_virt t (a + 1 + of_nat i) = Some (bs ! i)"
    "\<And>b. 0x1000000 \<le> unat b \<Longrightarrow> unat b < 0x1000000 + ?n \<Longrightarrow> unat b < unat (a + 1) \<Longrightarrow> load_virt t b = load_virt u b"
    using Cons.IH [OF u(2), of "a + 1"] Cons.prems(2,3) s1 by auto
  have "load_virt t (a + of_nat i) = Some ((x # bs) ! i)" if i: "i < length (x # bs)" for i
  proof (cases i)
    case 0 then show ?thesis using t(4) [of a] u(3) s1 l Cons.prems(2) by simp
  next
    case (Suc j)
    have "a + of_nat (Suc j) = a + 1 + of_nat j" by simp
    then show ?thesis using t(3) [of j] Suc i by (simp add: add.assoc)
  qed
  moreover have "load_virt t b = load_virt s b" if b: "0x1000000 \<le> unat b" "unat b < 0x1000000 + ?n" "unat b < unat a" for b
    using t(4) [of b] u(4) [of b] b s1 by auto
  ultimately show ?case using u(1) t(1,2) by auto
qed

lemma calling_store:
  assumes q: "calling L T z s" and v: "shell_apps_user_range_valid (task_at (cur z) s) a n" and len: "length bs \<le> unat n"
  shows "\<exists>t. store_virts a bs s = Some t \<and> calling L T z t \<and> (\<forall>i < length bs. load_virt t (a + of_nat i) = Some (bs ! i))"
proof (cases "bs = []")
  case True then show ?thesis using q by simp
next
  case False
  then have "n \<noteq> 0" using len by auto
  then have "in_slot (task_at (cur z) s) (unat a) (unat n)" using v by (simp add: user_range_valid)
  then show ?thesis using calling_bytes [OF q, of a bs] len callingD(6) [OF q] unfolding in_slot_def by fastforce
qed

lemma calling_range:
  assumes "calling L T z s" "calling L T z t"
  shows "shell_apps_user_range_valid (task_at (cur z) s) a n = shell_apps_user_range_valid (task_at (cur z) t) a n"
  using callingD(5,6) [OF assms(1)] callingD(5,6) [OF assms(2)] by (simp add: user_range_valid in_slot_def)

interpretation call: call_contract "calling L T z" "cur z" for L T z
proof unfold_locales
  fix s t :: "('b, 'c, 'd) os_state_scheme" and f a n bs
  show "calling L T z s \<Longrightarrow> core t = core s \<Longrightarrow> calling L T z t" by (rule calling_core)
  show "calling L T z s \<Longrightarrow> relabels f \<Longrightarrow> calling L T z (upd_task (cur z) f s)" by (rule calling_label)
  show "calling L T z s \<Longrightarrow> shell_apps_user_range_valid (task_at (cur z) s) a n \<Longrightarrow> length bs \<le> unat n \<Longrightarrow> store_virts a bs s = Some t \<Longrightarrow> calling L T z t"
    using calling_store [of L T z s a n bs] by auto
  show "calling L T z s \<Longrightarrow> calling L T z t
      \<Longrightarrow> shell_apps_user_range_valid (task_at (cur z) s) a n = shell_apps_user_range_valid (task_at (cur z) t) a n" by (rule calling_range)
  show "calling L T z s \<Longrightarrow> shell_apps_active_task s = Some (cur z)"
    using active_task [OF callingD(2)] callingD(3,5) by metis
qed

section \<open>Reading user memory\<close>

lemma slot_load:
  assumes "app_inv L T s" "app_thread s (cur s)" "0x1000000 \<le> unat a" "unat a < 0x1000000 + unat (app_slot_bytes (task_at (cur s) s))"
  shows "\<exists>v. load_virt s a = Some v"
  using slot_address [OF assms] by (simp add: load_virt_def)

lemma those_some: "(\<And>x. x \<in> set xs \<Longrightarrow> \<exists>y. f x = Some y) \<Longrightarrow> \<exists>ys. those (map f xs) = Some ys \<and> length ys = length xs"
  by (induction xs) force+

lemma range_load:
  assumes inv: "app_inv L T s" and c: "app_thread s (cur s)" and v: "shell_apps_user_range_valid (task_at (cur s) s) a n"
  shows "\<exists>bs. load_virts s a (unat n) = Some bs \<and> length bs = unat n"
proof -
  have "\<exists>y. load_virt s (a + of_nat i) = Some y" if "i \<in> set [0..<unat n]" for i
    using slot_load [OF inv c range_address(2,3) [OF v]] that by simp
  then show ?thesis using those_some [of "[0..<unat n]" "\<lambda>i. load_virt s (a + of_nat i)"] by (simp add: load_virts_def)
qed

lemma chars_load:
  assumes inv: "app_inv L T s" and c: "app_thread s (cur s)"
  shows "0x1000000 \<le> unat a \<Longrightarrow> \<exists>r. copy_user_chars s (APP_LOAD_VIRT_BASE + app_slot_bytes (task_at (cur s) s)) room a out = Some r"
proof (induction room arbitrary: a out)
  case (Suc room)
  let ?lim = "APP_LOAD_VIRT_BASE + app_slot_bytes (task_at (cur s) s)"
  have "slot_ok (app_slot_bytes (task_at (cur s) s))" by (rule task_okD(2) [OF caller(3) [OF inv c]])
  then have b: "unat (app_slot_bytes (task_at (cur s) s)) \<le> 0x400000" by (simp add: slot_ok_def)
  then have lim: "unat ?lim = 0x1000000 + unat (app_slot_bytes (task_at (cur s) s))"
    by (subst unat_plus) (simp_all add: virt_base_index(3))
  show ?case
  proof (cases "a < ?lim")
    case True
    then have u: "unat a < 0x1000000 + unat (app_slot_bytes (task_at (cur s) s))" using lim by (simp add: word_less_nat_alt)
    obtain v where v: "load_virt s a = Some v" using slot_load [OF inv c Suc.prems u] by blast
    have "unat (a + 1) = unat a + 1" using u b by (subst unat_plus) simp_all
    then show ?thesis using Suc.IH [of "a + 1"] Suc.prems True v by simp
  qed simp
qed simp

lemma user_copies:
  assumes inv: "app_inv L T s" and c: "app_thread s (cur s)"
  shows "\<exists>r. shell_apps_copy_user_bytes (task_at (cur s) s) a n s = Some r" "\<exists>r. shell_apps_copy_user_string (task_at (cur s) s) a m s = Some r"
proof -
  show "\<exists>r. shell_apps_copy_user_bytes (task_at (cur s) s) a n s = Some r"
    using range_load [OF inv c, of a n] by (auto simp: shell_apps_copy_user_bytes_def)
  have "0x1000000 \<le> unat a" if "\<not> a < APP_LOAD_VIRT_BASE" using that by (simp add: word_less_nat_alt virt_base_index(3))
  then show "\<exists>r. shell_apps_copy_user_string (task_at (cur s) s) a m s = Some r"
    using chars_load [OF inv c, of a] by (simp add: shell_apps_copy_user_string_def Let_def)
qed

text \<open>Addresses below the slots are refused.\<close>

lemma low_pointers:
  assumes "unat a < 0x1000000"
  shows "shell_apps_copy_user_bytes k a n s = Some r \<Longrightarrow> n \<noteq> 0 \<Longrightarrow> r = None" "shell_apps_copy_user_string k a m s = Some r' \<Longrightarrow> r' = None"
proof -
  have low: "a < APP_LOAD_VIRT_BASE" using assms by (simp add: word_less_nat_alt virt_base_index(3))
  have "\<not> shell_apps_user_range_valid k a n" if "n \<noteq> 0" using that low by (simp add: shell_apps_user_range_valid_def)
  then show "shell_apps_copy_user_bytes k a n s = Some r \<Longrightarrow> n \<noteq> 0 \<Longrightarrow> r = None" by (simp add: shell_apps_copy_user_bytes_def)
  show "shell_apps_copy_user_string k a m s = Some r' \<Longrightarrow> r' = None"
    using low by (auto simp: shell_apps_copy_user_string_def Let_def split: if_split_asm)
qed

lemma those_map_some: "those (map Some xs) = Some xs"
  by (induction xs) simp_all

section \<open>Steps of the system\<close>

text \<open>The steps of the application layer, the system calls, and the rounds of the calls that wait.\<close>

inductive os_step :: "('h, 'p) os_env \<Rightarrow> 'l os_link_scheme \<Rightarrow> ('h, 'p, 'a) os_state_scheme \<Rightarrow> ('h, 'p, 'a) os_state_scheme \<Rightarrow> bool"
  for E :: "('h, 'p) os_env" and L :: "'l os_link_scheme" where
  app: "app_step E L s t \<Longrightarrow> os_step E L s t"
| call: "app_thread s (cur s) \<Longrightarrow> frame \<noteq> 0 \<Longrightarrow> shell_apps_syscall E L frame num a0 a1 a2 s = Some (r, t) \<Longrightarrow> os_step E L s t"
| poll_char: "app_thread s (cur s) \<Longrightarrow> shell_apps_get_char E s = Some (r, t) \<Longrightarrow> os_step E L s t"
| poll_event: "app_thread s (cur s) \<Longrightarrow> wait_event_poll E (cur s) seq ticks wait s = Some (r, t) \<Longrightarrow> os_step E L s t"

inductive_cases os_stepE: "os_step E L s t"

lemma spawn_and_yield:
  "syscall_of E L f c MINIDOS_SYSCALL_THREAD_SPAWN a0 a1 a2 = returning (shell_apps_spawn_app_thread L c a0)"
  "syscall_of E L f c MINIDOS_SYSCALL_THREAD_YIELD a0 a1 a2 = sys_yield L f"
  by (rule ext, simp add: syscall_of_def syscall_numbers)+

lemma sys_yield_inv:
  assumes inv: "app_inv L T s" and L: "app_layout L" and f: "f \<noteq> 0" and run: "sys_yield L f s = Some (r, t)" shows "app_inv L T t"
proof -
  have "g_runtime_ready s" using app_invD(5) [OF inv] by (simp add: sched_inv_def)
  then have "t = snd (scheduler_on_yield L f s)" using run by (auto simp: sys_yield_def scheduler_yield_def split_beta Let_def)
  then show ?thesis using yield_inv [OF inv L f] by simp
qed

lemma syscall_inv:
  assumes inv: "app_inv L T s" and L: "app_layout L" and e: "lm_background_thread L \<noteq> 0" and c: "app_thread s (cur s)" and f: "f \<noteq> 0"
    and run: "shell_apps_syscall E L f num a0 a1 a2 s = Some (r, t)"
  shows "app_inv L T t"
proof -
  have act: "shell_apps_active_task s = Some (cur s)" "shell_apps_task_valid (task_at (cur s) s)"
    using active_task [OF inv] caller(2) [OF inv c] task_okD(5) [OF caller(3) [OF inv c]] by simp_all
  consider (spawn) "num = MINIDOS_SYSCALL_THREAD_SPAWN" | (yield) "num = MINIDOS_SYSCALL_THREAD_YIELD"
    | (other) "num \<noteq> MINIDOS_SYSCALL_THREAD_SPAWN" "num \<noteq> MINIDOS_SYSCALL_THREAD_YIELD" by blast
  then show ?thesis
  proof cases
    case spawn
    then have "returning (shell_apps_spawn_app_thread L (cur s) a0) s = Some (r, t)" using run act by (simp add: shell_apps_syscall_def spawn_and_yield)
    then show ?thesis using spawn_returns spawn_thread_inv [OF inv L e c] by blast
  next
    case yield
    then have "sys_yield L f s = Some (r, t)" using run act by (simp add: shell_apps_syscall_def spawn_and_yield)
    then show ?thesis by (rule sys_yield_inv [OF inv L f])
  next
    case other
    from callingD(2) [OF safeD [OF call.syscall_safe [OF other] calling_refl [OF L inv c] run]] show ?thesis .
  qed
qed

lemma os_step_inv:
  assumes "os_step E L s t" and L: "app_layout L" and e: "lm_background_thread L \<noteq> 0" and inv: "app_inv L T s"
  shows "app_inv L T t"
  using assms(1)
proof cases
  case app then show ?thesis by (rule app_step_inv [OF _ L e inv])
next
  case (call frame num a0 a1 a2 r) then show ?thesis by (intro syscall_inv [OF inv L e])
next
  case (poll_char r)
  from callingD(2) [OF safeD [OF call.safe_get_char(1) calling_refl [OF L inv poll_char(1)] poll_char(2)]] show ?thesis .
next
  case (poll_event seq ticks wait r)
  from callingD(2) [OF safeD [OF call.safe_poll calling_refl [OF L inv poll_event(1)] poll_event(2)]] show ?thesis .
qed

lemma reachable_os_inv:
  assumes "(os_step E L)\<^sup>*\<^sup>* s t" "app_layout L" "lm_background_thread L \<noteq> 0" "app_inv L T s"
  shows "app_inv L T t"
  using assms by (induction rule: rtranclp_induct) (auto intro: os_step_inv)

section \<open>Properties\<close>

text \<open>A foreground application: the first thread of the demonstration with the screen.\<close>

definition demo_front :: "'h drive_state fat_state \<Rightarrow> 'p mouse_kernel \<Rightarrow> 'p \<Rightarrow> ('h, 'p) os_state" where
  "demo_front fs i h = upd_task 3 (\<lambda>t. t\<lparr>background := False\<rparr>) (demo_system fs i h)"

lemma demo_front_ok:
  "\<exists>T. app_inv demo_os_link T (demo_front fs i h)" "app_thread (demo_front fs i h) (cur (demo_front fs i h))" "cur (demo_front fs i h) = 3"
  "task_at 3 (demo_front fs i h) = (demo_task 3 3 0x700000)\<lparr>background := False\<rparr>" "m_mem (demo_front fs i h) = demo_mem"
proof -
  have "relabels (\<lambda>t. t\<lparr>background := False\<rparr>)" by (simp add: relabels_def shell_apps_task_valid_def)
  then show "\<exists>T. app_inv demo_os_link T (demo_front fs i h)" using demo_system_inv [of fs i h] relabel_inv unfolding demo_front_def by blast
  show "cur (demo_front fs i h) = 3" "m_mem (demo_front fs i h) = demo_mem" by (simp_all add: demo_front_def upd_task_def demo_system_fields)
  then show "app_thread (demo_front fs i h) (cur (demo_front fs i h))"
    using demo_threads [of 3 fs i h] by (simp add: demo_front_def upd_task_def app_thread_def slot_at_def)
  show "task_at 3 (demo_front fs i h) = (demo_task 3 3 0x700000)\<lparr>background := False\<rparr>"
    using demo_system_fields(7) [of fs i h] demo_system_fields(8) [of 3 fs i h] by (simp add: demo_front_def upd_task_def task_at_def)
qed

text \<open>A system call, other than the creation of a thread and the yield, keeps the invariant, the process table, the running thread and the
  tasks of the others, and changes no memory outside the slot of the caller.\<close>

lemma syscall_keeps:
  assumes inv: "app_inv L T s" and L: "app_layout L" and c: "app_thread s (cur s)"
    and num: "num \<noteq> MINIDOS_SYSCALL_THREAD_SPAWN" "num \<noteq> MINIDOS_SYSCALL_THREAD_YIELD"
    and run: "shell_apps_syscall E L f num a0 a1 a2 s = Some (r, t)"
  shows "app_inv L T t" "g_slots t = g_slots s" "g_current t = g_current s" "m_cr3 t = m_cr3 s" "g_app_phys_page_used t = g_app_phys_page_used s"
    "\<forall>p < 8. p \<noteq> cur s \<longrightarrow> task_at p t = task_at p s"
    "\<forall>a. a < unat (app_phys_base (task_at (cur s) s))
        \<or> unat (app_phys_base (task_at (cur s) s)) + unat (app_slot_bytes (task_at (cur s) s)) \<le> a \<longrightarrow> m_mem t a = m_mem s a"
    "\<exists>f. relabels f \<and> task_at (cur s) t = f (task_at (cur s) s)"
  using safeD [OF call.syscall_safe [OF num] calling_refl [OF L inv c] run] unfolding calling_def by blast+

text \<open>A foreground application asks for the size of the screen.\<close>

lemma gfx_size_run:
  fixes s :: "('h, 'p, 'a) os_state_scheme"
  assumes inv: "app_inv demo_os_link T s" and th: "app_thread s (cur s)" and c: "cur s = 3"
    and k: "task_at 3 s = (demo_task 3 3 0x700000)\<lparr>background := False\<rparr>"
  shows "\<exists>t. shell_apps_syscall E demo_os_link f MINIDOS_SYSCALL_GFX_SIZE 0x1000010 0x1000014 a2 s = Some (Sys_return 1, t)"
proof -
  have q: "calling demo_os_link T s s" by (rule calling_refl [OF demo_os_layout(1) inv th])
  have v: "shell_apps_user_range_valid (task_at 3 s) 0x1000010 4" "shell_apps_user_range_valid (task_at 3 s) 0x1000014 4"
    by (simp_all add: k user_range_valid in_slot_def demo_task_fields demo_task_def)
  let ?w = "le_bytes (of_int (video_get_width (input_view s)))" and ?h = "le_bytes (of_int (video_get_height (input_view s)))"
  obtain u where u: "store_virts 0x1000010 ?w s = Some u" "calling demo_os_link T s u"
    using calling_store [OF q, of "0x1000010" 4 ?w] v(1) c by (auto simp: bytes_lengths)
  obtain t where t: "store_virts 0x1000014 ?h u = Some t"
    using calling_store [OF u(2), of "0x1000014" 4 ?h] v(2) c calling_range [OF q u(2)] by (auto simp: bytes_lengths)
  have "sys_gfx_size 3 0x1000010 0x1000014 s = Some (1, t)" using v u(1) t by (simp add: sys_gfx_size_def k Let_def)
  moreover have "shell_apps_active_task s = Some 3" "shell_apps_task_valid (task_at 3 s)"
    using active_task [OF inv] caller(2) [OF inv th] task_okD(5) [OF caller(3) [OF inv th]] c by simp_all
  ultimately have "shell_apps_syscall E demo_os_link f MINIDOS_SYSCALL_GFX_SIZE 0x1000010 0x1000014 a2 s = Some (Sys_return 1, t)"
    by (simp add: shell_apps_syscall_def syscall_of_def syscall_numbers returning_def)
  then show ?thesis by blast
qed

text \<open>
  C37: When the kernel stores bytes at an address that passed its check, the store cannot fault, the same bytes
  are read back through the page directory of the caller, and the invariant is kept.
\<close>

theorem user_memory_roundtrip:
  fixes s :: "('h, 'p, 'a) os_state_scheme"
  assumes inv: "app_inv L T s" and L: "app_layout L" and c: "app_thread s (cur s)"
    and v: "shell_apps_user_range_valid (task_at (cur s) s) a n" and len: "length bs = unat n"
  shows "\<exists>t. store_virts a bs s = Some t \<and> shell_apps_copy_user_bytes (task_at (cur s) s) a n t = Some (Some bs) \<and> app_inv L T t"
proof -
  obtain t where t: "store_virts a bs s = Some t" "calling L T s t" "\<And>i. i < length bs \<Longrightarrow> load_virt t (a + of_nat i) = Some (bs ! i)"
    using calling_store [OF calling_refl [OF L inv c] v, of bs] len by auto
  have "map (\<lambda>i. load_virt t (a + of_nat i)) [0..<length bs] = map Some bs" using t(3) by (intro nth_equalityI) simp_all
  then have "load_virts t a (unat n) = Some bs" using len those_map_some [of bs] by (simp add: load_virts_def)
  then have "shell_apps_copy_user_bytes (task_at (cur s) s) a n t = Some (Some bs)" using v len by (auto simp: shell_apps_copy_user_bytes_def)
  then show ?thesis using t(1) callingD(2) [OF t(2)] by blast
qed

theorem user_memory_roundtrip_witness:
  "\<forall>fs i h. \<exists>t. store_virts 0x1000010 [1, 2, 3, 4] (demo_front fs i h) = Some t
     \<and> shell_apps_copy_user_bytes (task_at 3 (demo_front fs i h)) 0x1000010 4 t = Some (Some [1, 2, 3, 4])"
proof (intro allI)
  fix fs :: "'h drive_state fat_state" and i and h :: 'p
  let ?s = "demo_front fs i h"
  obtain T where inv: "app_inv demo_os_link T ?s" using demo_front_ok(1) [of fs i h] by blast
  have v: "shell_apps_user_range_valid (task_at (cur ?s) ?s) 0x1000010 4"
    by (simp add: demo_front_ok(3,4) user_range_valid in_slot_def demo_task_def zero_task_def)
  from user_memory_roundtrip [OF inv demo_os_layout(1) demo_front_ok(2) v, of "[1, 2, 3, 4]"]
  show "\<exists>t. store_virts 0x1000010 [1, 2, 3, 4] ?s = Some t \<and> shell_apps_copy_user_bytes (task_at 3 ?s) 0x1000010 4 t = Some (Some [1, 2, 3, 4])"
    by (auto simp: demo_front_ok(3) simp del: store_virts.simps)
qed

text \<open>
  C38: The kernel never faults on a pointer of an application: copying bytes or a string from any address, with any
  length, returns, with an error when the address is not in the slot of the caller.
\<close>

theorem user_pointers_never_fault:
  assumes "app_inv L T s" "app_thread s (cur s)"
  shows "(\<exists>r. shell_apps_copy_user_bytes (task_at (cur s) s) a n s = Some r \<and> (n \<noteq> 0 \<and> unat a < 0x1000000 \<longrightarrow> r = None))
    \<and> (\<exists>r. shell_apps_copy_user_string (task_at (cur s) s) a m s = Some r \<and> (unat a < 0x1000000 \<longrightarrow> r = None))"
  using user_copies(1) [OF assms, of a n] user_copies(2) [OF assms, of a m] low_pointers by metis

theorem user_pointers_never_fault_witness:
  "\<forall>fs i h. \<exists>r. shell_apps_copy_user_string (task_at 3 (demo_front fs i h)) 0x700000 64 (demo_front fs i h) = Some r \<and> r = None"
proof (intro allI)
  fix fs :: "'h drive_state fat_state" and i and h :: 'p
  obtain T where inv: "app_inv demo_os_link T (demo_front fs i h)" using demo_front_ok(1) [of fs i h] by blast
  from user_pointers_never_fault [OF inv demo_front_ok(2), of "0x700000" 1 64]
  show "\<exists>r. shell_apps_copy_user_string (task_at 3 (demo_front fs i h)) 0x700000 64 (demo_front fs i h) = Some r \<and> r = None"
    by (simp add: demo_front_ok(3))
qed

end
