(* ===== verification/App_Interrupt.thy ===== *)
theory App_Interrupt
  imports App_Gate
begin

text \<open>
  The C part of the interrupt handlers (\<^verbatim>\<open>memory/paging.c\<close>): exceptions, device interrupts, the system call gate and the yield
  gate. The frame that the assembly stub pushed lies at \<open>frame\<close> on the kernel stack. The outer \<open>None\<close> is a trap inside the handler.
\<close>

unbundle bit_operations_syntax

section \<open>The model\<close>

text \<open>Returned: the frame to resume, 0 for the interrupted one. A handler that does not return has stopped the machine, with or
  without the blue screen (after which it waits for a key and resets), or still runs a system call that waits.\<close>

datatype irq_result =
  Irq_frame u32
| Irq_halt
| Irq_bsod cstr cstr
| Irq_wait sys_result

type_synonym ('h, 'p, 'a) irq_op = "('h, 'p, 'a) os_state_scheme \<Rightarrow> (irq_result \<times> ('h, 'p, 'a) os_state_scheme) option"

text \<open>The words of \<^verbatim>\<open>irq_frame_t\<close>, in its order.\<close>

definition frame_word :: "nat \<Rightarrow> u32 \<Rightarrow> 'a machine_scheme \<Rightarrow> u32" where
  "frame_word k frame s = m_mem s (unat frame + 4 * k)"

abbreviation f_ebx where "f_ebx \<equiv> frame_word 8"
abbreviation f_edx where "f_edx \<equiv> frame_word 9"
abbreviation f_ecx where "f_ecx \<equiv> frame_word 10"
abbreviation f_eax where "f_eax \<equiv> frame_word 11"
abbreviation f_vector where "f_vector \<equiv> frame_word 12"
abbreviation f_error_code where "f_error_code \<equiv> frame_word 13"
abbreviation f_eip where "f_eip \<equiv> frame_word 14"
abbreviation f_cs where "f_cs \<equiv> frame_word 15"
abbreviation f_eflags where "f_eflags \<equiv> frame_word 16"

definition set_eax :: "u32 \<Rightarrow> u32 \<Rightarrow> 'a machine_scheme \<Rightarrow> 'a machine_scheme" where
  "set_eax v frame s = s\<lparr>m_mem := (m_mem s)(unat frame + 44 := v)\<rparr>"

definition STOP_PAGE_FAULT :: cstr where "STOP_PAGE_FAULT = ascii ''STOP 0x0000000E''"
definition STOP_KERNEL_EXCEPTION :: cstr where "STOP_KERNEL_EXCEPTION = ascii ''STOP 0x00000005''"

definition interrupt_frame_is_user :: "u32 \<Rightarrow> 'a machine_scheme \<Rightarrow> bool" where
  "interrupt_frame_is_user frame s \<longleftrightarrow> frame \<noteq> 0 \<and> f_cs frame s AND 3 = 3"

definition log_guard_fault :: "u32 \<Rightarrow> 'a sched_state_scheme \<Rightarrow> 'a sched_state_scheme" where
  "log_guard_fault cr2 s =
     (case scheduler_describe_guard_fault cr2 s of
        None \<Rightarrow> s
      | Some (guard_pid, guard_name) \<Rightarrow>
          let s = log_serial_raw (ascii ''SCHED900 guard-page pid='') s;
              s = log_print_hex (of_int guard_pid) s;
              s = log_serial_raw (ascii '' name='') s;
              s = log_serial_raw (case guard_name of Some n \<Rightarrow> n | None \<Rightarrow> ascii ''unknown'') s
          in log_serial_raw [Logger.newline] s)"

definition log_page_fault :: "u32 \<Rightarrow> u32 \<Rightarrow> 'a log_state_scheme \<Rightarrow> 'a log_state_scheme" where
  "log_page_fault cr2 frame s =
     (let user_mode = interrupt_frame_is_user frame s;
          s = log_serial_raw (ascii ''[paging] #PF detected'' @ [Logger.newline]) s;
          s = log_serial_raw (ascii ''[paging] CR2='') s;
          s = log_print_hex cr2 s;
          s = log_serial_raw (ascii '' error='') s;
          s = log_print_hex (if frame \<noteq> 0 then f_error_code frame s else 0) s;
          s = log_serial_raw (ascii '' eip='') s;
          s = log_print_hex (if frame \<noteq> 0 then f_eip frame s else 0) s;
          s = (if user_mode then log_serial_raw (ascii '' mode=user'') s else s)
      in log_serial_raw [Logger.newline] s)"

text \<open>The end of an application that faulted, common to both handlers.\<close>

definition end_faulting_task :: "('h, 'p) os_env \<Rightarrow> 'l os_link_scheme \<Rightarrow> u32 \<Rightarrow> ('h, 'p, 'a) irq_op" where
  "end_faulting_task E L frame s =
     (let s = shell_apps_on_current_task_fault E L (f_vector frame s) (f_error_code frame s) (f_eip frame s) s;
          (f, s) = scheduler_exit_current_from_interrupt L frame s
      in Some (Irq_frame f, s))"

definition page_fault_handler_c :: "('h, 'p) os_env \<Rightarrow> 'l os_link_scheme \<Rightarrow> u32 \<Rightarrow> u32 \<Rightarrow> ('h, 'p, 'a) irq_op" where
  "page_fault_handler_c E L cr2 frame s =
     (let user_mode = interrupt_frame_is_user frame s in
      if page_fault_in_progress s
      then Some (Irq_halt, log_serial_raw (ascii ''[paging] nested #PF halt'' @ [Logger.newline]) s)
      else let s = s\<lparr>page_fault_in_progress := True\<rparr>;
               s = log_guard_fault cr2 s;
               s = log_page_fault cr2 frame s in
      if user_mode then end_faulting_task E L frame (s\<lparr>page_fault_in_progress := False\<rparr>)
      else Some (Irq_bsod STOP_PAGE_FAULT (ascii ''KERNEL PAGE FAULT.''),
        log_serial_raw (ascii ''[paging] waiting key for reboot'' @ [Logger.newline]) s))"

definition exception_names :: "string list" where
  "exception_names =
     [''Divide Error'', ''Debug'', ''NMI'', ''Breakpoint'',
      ''Overflow'', ''BOUND Range'', ''Invalid Opcode'', ''Device Not Available'',
      ''Double Fault'', ''Coprocessor Segment Overrun'', ''Invalid TSS'', ''Segment Not Present'',
      ''Stack-Segment Fault'', ''General Protection Fault'', ''Page Fault'', ''Reserved'',
      ''x87 Floating-Point'', ''Alignment Check'', ''Machine Check'', ''SIMD Floating-Point'',
      ''Virtualization'', ''Control Protection'', ''Reserved'', ''Reserved'',
      ''Reserved'', ''Reserved'', ''Reserved'', ''Reserved'',
      ''Hypervisor Injection'', ''VMM Communication'', ''Security'', ''Reserved'']"

definition log_exception :: "u32 \<Rightarrow> 'a log_state_scheme \<Rightarrow> 'a log_state_scheme" where
  "log_exception frame s =
     (let vector = f_vector frame s;
          s = log_serial_raw (ascii ''[int] exception '') s;
          s = log_print_hex vector s;
          s = log_serial_raw (ascii '' ('') s;
          s = log_serial_raw (ascii (if vector < 32 then exception_names ! unat vector else ''unknown'')) s;
          s = log_serial_raw (ascii '')'' @ [Logger.newline]) s;
          s = log_serial_raw (ascii ''[int] err='') s;
          s = log_print_hex (f_error_code frame s) s;
          s = log_serial_raw (ascii '' eip='') s;
          s = log_print_hex (f_eip frame s) s;
          s = log_serial_raw (ascii '' cs='') s;
          s = log_print_hex (f_cs frame s) s;
          s = log_serial_raw (ascii '' eflags='') s;
          s = log_print_hex (f_eflags frame s) s
      in log_serial_raw [Logger.newline] s)"

definition exception_panic :: "('h, 'p) os_env \<Rightarrow> 'l os_link_scheme \<Rightarrow> u32 \<Rightarrow> ('h, 'p, 'a) irq_op" where
  "exception_panic E L frame s =
     (let s = log_exception frame s in
      if interrupt_frame_is_user frame s then end_faulting_task E L frame s
      else Some (Irq_bsod STOP_KERNEL_EXCEPTION (ascii ''CPU EXCEPTION IN KERNEL MODE.''), s))"

definition syscall_dispatch_c :: "('h, 'p) os_env \<Rightarrow> 'l os_link_scheme \<Rightarrow> u32 \<Rightarrow> ('h, 'p, 'a) irq_op" where
  "syscall_dispatch_c E L frame s =
     (if frame = 0 then Some (Irq_frame 0, s)
      else if f_eax frame s = MINIDOS_SYSCALL_THREAD_YIELD
      then let (f, s) = scheduler_on_yield L frame (set_eax 0 frame s) in Some (Irq_frame f, s)
      else if f_eax frame s = MINIDOS_SYSCALL_EXIT
      then let (f, s) = scheduler_exit_current_from_interrupt L frame (shell_apps_on_current_task_exit E L s) in Some (Irq_frame f, s)
      else do {
        (result, s) \<leftarrow> shell_apps_syscall E L frame (f_eax frame s) (f_ebx frame s) (f_ecx frame s) (f_edx frame s) s;
        Some (case result of
                Sys_return r \<Rightarrow> (Irq_frame 0, set_eax (of_int r) frame s)
              | _ \<Rightarrow> (Irq_wait result, s)) })"

definition interrupt_dispatch_c :: "('h, 'p) os_env \<Rightarrow> 'l os_link_scheme \<Rightarrow> u32 \<Rightarrow> u32 \<Rightarrow> ('h, 'p, 'a) irq_op" where
  "interrupt_dispatch_c E L cr2 frame s =
     (if frame = 0 then Some (Irq_halt, s)
      else let vector = f_vector frame s in
      if vector < 32 then (if vector = 14 then page_fault_handler_c E L cr2 frame s else exception_panic E L frame s)
      else if vector = 33 then Some (Irq_frame 0, pic_send_eoi 1 (snd (with_input (\<lambda>i. ((), keyboard_handle_irq (env_ports E) i)) s)))
      else if vector = 44 then Some (Irq_frame 0, pic_send_eoi 12 (snd (with_input (\<lambda>i. ((), mouse_handle_irq (env_ports E) i)) s)))
      else if vector = 32 then let (next_frame, s) = scheduler_on_timer_tick L frame s in Some (Irq_frame next_frame, pic_send_eoi 0 s)
      else if vector = 128 then syscall_dispatch_c E L frame s
      else if vector = 129 then let (f, s) = scheduler_on_yield L frame s in Some (Irq_frame f, s)
      else Some (Irq_frame 0, if 32 \<le> vector \<and> vector \<le> 47 then pic_send_eoi (vector - 32) s else s))"

section \<open>The handlers keep the invariant\<close>

text \<open>A frame on a kernel stack.\<close>

definition stack_frame :: "u32 \<Rightarrow> bool" where
  "stack_frame frame \<longleftrightarrow> 0x600000 \<le> unat frame \<and> unat frame + 76 \<le> 0x700000"

lemma stack_frame_nonzero: "stack_frame f \<Longrightarrow> f \<noteq> 0"
  by (auto simp: stack_frame_def)

lemma set_eax_inv:
  assumes "app_inv L T s" "app_layout L" "stack_frame f" shows "app_inv L T (set_eax v f s)"
  unfolding set_eax_def using assms(3) by (intro mem_inv [OF assms(1,2)] calm_cell) (simp_all add: stack_frame_def)

lemma core_eoi: "core (pic_send_eoi n s) = core s"
  by (simp add: pic_send_eoi_def outb_def core_def)

lemma core_logs: "core (log_guard_fault cr2 s) = core s" "core (log_page_fault cr2 f s) = core s" "core (log_exception f s) = core s"
  by (simp_all add: log_guard_fault_def log_page_fault_def log_exception_def Let_def frame_simps split: option.split)

lemma core_progress: "core (s\<lparr>page_fault_in_progress := b\<rparr>) = core s"
  by (simp add: core_def)

lemma end_faulting_inv:
  assumes inv: "app_inv L T s" and L: "app_layout L" and f: "f \<noteq> 0" and c: "app_thread s (cur s)" and run: "end_faulting_task E L f s = Some (r, t)"
  shows "app_inv L T t"
proof -
  have "cur s \<noteq> 1" using current_task(2) [OF inv caller(2) [OF inv c]] by simp
  from fault_inv [OF inv L f this] run show ?thesis by (auto simp: end_faulting_task_def split_beta Let_def)
qed

text \<open>Changes of the state that the invariant and the frame do not see.\<close>

lemma frame_word_core: "core t = core s \<Longrightarrow> frame_word k f t = frame_word k f s" "core t = core s \<Longrightarrow> interrupt_frame_is_user f t = interrupt_frame_is_user f s"
  using core_eqD(6) [of t s] by (simp_all add: frame_word_def interrupt_frame_is_user_def)

lemma thread_core:
  fixes s t :: "'a app_state_scheme"
  shows "core t = core s \<Longrightarrow> app_thread t (cur t) = app_thread s (cur s)" "core t = core s \<Longrightarrow> cur t = cur s"
  using core_eqD(3,4) [of t s] by (simp_all add: app_thread_def slot_at_def)

lemma page_fault_inv:
  fixes s :: "('h, 'p, 'a) os_state_scheme"
  assumes inv: "app_inv L T s" and L: "app_layout L" and f: "f \<noteq> 0" and u: "interrupt_frame_is_user f s \<Longrightarrow> app_thread s (cur s)"
    and run: "page_fault_handler_c E L cr2 f s = Some (r, t)"
  shows "app_inv L T t"
proof -
  define v where "v = log_page_fault cr2 f (log_guard_fault cr2 (s\<lparr>page_fault_in_progress := True\<rparr>))"
  define w where "w = v\<lparr>page_fault_in_progress := False\<rparr>"
  have k: "core v = core s" "core w = core s" by (simp_all add: v_def w_def core_progress core_logs)
  have iw: "app_inv L T w" using inv by (simp add: app_inv_core [OF k(2)])
  show ?thesis
  proof (cases "\<not> page_fault_in_progress s \<and> interrupt_frame_is_user f s")
    case True
    then have "end_faulting_task E L f w = Some (r, t)" using run by (simp add: page_fault_handler_c_def Let_def v_def w_def)
    moreover have "app_thread w (cur w)" using u True thread_core(1) [OF k(2)] by simp
    ultimately show ?thesis by (intro end_faulting_inv [OF iw L f])
  next
    case False
    then have "t = log_serial_raw (ascii ''[paging] nested #PF halt'' @ [Logger.newline]) s
        \<or> t = log_serial_raw (ascii ''[paging] waiting key for reboot'' @ [Logger.newline]) v"
      using run unfolding page_fault_handler_c_def Let_def v_def by (simp split: if_split_asm)
    then have kt: "core t = core s" using k(1) by (elim disjE) (simp_all add: frame_simps)
    show ?thesis using inv by (simp add: app_inv_core [OF kt])
  qed
qed

lemma exception_inv:
  fixes s :: "('h, 'p, 'a) os_state_scheme"
  assumes inv: "app_inv L T s" and L: "app_layout L" and f: "f \<noteq> 0" and u: "interrupt_frame_is_user f s \<Longrightarrow> app_thread s (cur s)"
    and run: "exception_panic E L f s = Some (r, t)"
  shows "app_inv L T t"
proof -
  have k: "core (log_exception f s) = core s" by (rule core_logs)
  have iv: "app_inv L T (log_exception f s)" using inv by (simp add: app_inv_core [OF k])
  show ?thesis
  proof (cases "interrupt_frame_is_user f s")
    case True
    then have "end_faulting_task E L f (log_exception f s) = Some (r, t)" using run by (simp add: exception_panic_def frame_word_core(2) [OF k])
    moreover have "app_thread (log_exception f s) (cur (log_exception f s))" using u True thread_core(1) [OF k] by simp
    ultimately show ?thesis by (intro end_faulting_inv [OF iv L f])
  qed (use run iv in \<open>auto simp: exception_panic_def frame_word_core(2) [OF k]\<close>)
qed

lemma syscall_gate_inv:
  assumes inv: "app_inv L T s" and L: "app_layout L" and e: "lm_background_thread L \<noteq> 0" and f: "stack_frame f" and c: "app_thread s (cur s)"
    and run: "syscall_dispatch_c E L f s = Some (r, t)"
  shows "app_inv L T t"
proof -
  have nz: "f \<noteq> 0" by (rule stack_frame_nonzero [OF f])
  have c1: "cur s \<noteq> 1" using current_task(2) [OF inv caller(2) [OF inv c]] by simp
  consider (yield) "f_eax f s = MINIDOS_SYSCALL_THREAD_YIELD" | (exit) "f_eax f s = MINIDOS_SYSCALL_EXIT" "f_eax f s \<noteq> MINIDOS_SYSCALL_THREAD_YIELD"
    | (call) x u where "shell_apps_syscall E L f (f_eax f s) (f_ebx f s) (f_ecx f s) (f_edx f s) s = Some (x, u)"
        "(r, t) = (case x of Sys_return r \<Rightarrow> (Irq_frame 0, set_eax (of_int r) f u) | _ \<Rightarrow> (Irq_wait x, u))"
    using run nz by (fastforce simp: syscall_dispatch_c_def split: if_split_asm Option.bind_split_asm)
  then show ?thesis
  proof cases
    case yield
    then show ?thesis using run nz yield_inv [OF set_eax_inv [OF inv L f] L nz] by (auto simp: syscall_dispatch_c_def split_beta Let_def)
  next
    case exit
    then show ?thesis using run nz exit_irq_inv(1) [OF inv L nz c1] by (auto simp: syscall_dispatch_c_def split_beta Let_def)
  next
    case call
    have "app_inv L T u" by (rule syscall_inv [OF inv L e c nz call(1)])
    then show ?thesis using call(2) set_eax_inv [OF _ L f] by (cases x) auto
  qed
qed

text \<open>Code runs in user mode, and calls the system, only in a thread of an application.\<close>

definition user_frames_ok :: "u32 \<Rightarrow> 'a sched_state_scheme \<Rightarrow> bool" where
  "user_frames_ok f s \<longleftrightarrow> stack_frame f \<and> (interrupt_frame_is_user f s \<or> f_vector f s = 128 \<longrightarrow> app_thread s (cur s))"

lemma interrupt_inv:
  fixes s :: "('h, 'p, 'a) os_state_scheme"
  assumes inv: "app_inv L T s" and L: "app_layout L" and e: "lm_background_thread L \<noteq> 0" and f: "user_frames_ok f s"
    and run: "interrupt_dispatch_c E L cr2 f s = Some (r, t)"
  shows "app_inv L T t"
proof -
  have sf: "stack_frame f" and u: "interrupt_frame_is_user f s \<Longrightarrow> app_thread s (cur s)" "f_vector f s = 128 \<Longrightarrow> app_thread s (cur s)"
    using f by (simp_all add: user_frames_ok_def)
  have nz: "f \<noteq> 0" by (rule stack_frame_nonzero [OF sf])
  have kb: "core (snd (with_input (\<lambda>i. ((), keyboard_handle_irq p i)) s)) = core s" "core (snd (with_input (\<lambda>i. ((), mouse_handle_irq p i)) s)) = core s" for p
    by (rule core_with_input, simp)+
  let ?v = "f_vector f s"
  consider (fault) "?v < 32" "?v = 14" | (exception) "?v < 32" "?v \<noteq> 14" | (timer) "?v = 32" | (call) "?v = 128" | (yield) "?v = 129"
    | (key) "?v = 33" | (mouse) "?v = 44" | (other) "\<not> ?v < 32" "?v \<notin> {32, 33, 44, 128, 129}" by blast
  then show ?thesis
  proof cases
    case fault
    then have "page_fault_handler_c E L cr2 f s = Some (r, t)" using run nz by (simp add: interrupt_dispatch_c_def Let_def)
    from page_fault_inv [OF inv L nz u(1) this] show ?thesis by simp
  next
    case exception
    then have "exception_panic E L f s = Some (r, t)" using run nz by (simp add: interrupt_dispatch_c_def Let_def)
    from exception_inv [OF inv L nz u(1) this] show ?thesis by simp
  next
    case timer
    then have "t = pic_send_eoi 0 (snd (scheduler_on_timer_tick L f s))"
      using run nz by (auto simp: interrupt_dispatch_c_def Let_def split_beta)
    then show ?thesis using tick_inv [OF inv L nz, of L] by (simp add: app_inv_core [OF core_eoi])
  next
    case call
    then have "syscall_dispatch_c E L f s = Some (r, t)" using run nz by (simp add: interrupt_dispatch_c_def Let_def)
    then show ?thesis by (rule syscall_gate_inv [OF inv L e sf u(2) [OF call]])
  next
    case yield
    then have "t = snd (scheduler_on_yield L f s)" using run nz by (auto simp: interrupt_dispatch_c_def Let_def split_beta)
    then show ?thesis using yield_inv [OF inv L nz, of L] by simp
  next
    case key
    then have "t = pic_send_eoi 1 (snd (with_input (\<lambda>i. ((), keyboard_handle_irq (env_ports E) i)) s))"
      using run nz by (simp add: interrupt_dispatch_c_def Let_def)
    then have kt: "core t = core s" by (simp add: core_eoi kb)
    show ?thesis using inv by (simp add: app_inv_core [OF kt])
  next
    case mouse
    then have "t = pic_send_eoi 12 (snd (with_input (\<lambda>i. ((), mouse_handle_irq (env_ports E) i)) s))"
      using run nz by (simp add: interrupt_dispatch_c_def Let_def)
    then have kt: "core t = core s" by (simp add: core_eoi kb)
    show ?thesis using inv by (simp add: app_inv_core [OF kt])
  next
    case other
    then have "t = (if 32 \<le> ?v \<and> ?v \<le> 47 then pic_send_eoi (?v - 32) s else s)" using run nz by (simp add: interrupt_dispatch_c_def Let_def)
    then have kt: "core t = core s" by (simp add: core_eoi)
    show ?thesis using inv by (simp add: app_inv_core [OF kt])
  qed
qed

section \<open>Faults of applications\<close>

text \<open>Ending a task leaves the flag of the page fault handler alone.\<close>

lemma log_flag:
  "page_fault_in_progress (log_serial_raw m s) = page_fault_in_progress s" "page_fault_in_progress (log_print_hex w s) = page_fault_in_progress s"
  "page_fault_in_progress (emit_screen m s) = page_fault_in_progress s"
proof -
  have a: "page_fault_in_progress (append_string m u) = page_fault_in_progress u" for m and u :: "'a paging_state_scheme"
    by (induction m arbitrary: u) (simp_all add: append_char_def)
  show "page_fault_in_progress (log_serial_raw m s) = page_fault_in_progress s" "page_fault_in_progress (log_print_hex w s) = page_fault_in_progress s"
    "page_fault_in_progress (emit_screen m s) = page_fault_in_progress s"
    by (simp_all add: log_serial_raw_def write_string_emit emit_dest_def emit_serial_def emit_screen_def log_print_hex_def a)
qed

lemma slot_flag:
  "page_fault_in_progress (upd_slot i g s) = page_fault_in_progress s"
  "page_fault_in_progress (snd (sched_activate_slot L n s)) = page_fault_in_progress s"
  by (simp_all add: upd_slot_def sched_activate_slot_def Let_def paging_activate_directory_def load_page_directory_def paging_set_kernel_stack_top_def)

lemma switch_flag:
  "page_fault_in_progress (snd (scheduler_terminate_process L pid s)) = page_fault_in_progress s"
  "page_fault_in_progress (snd (scheduler_exit_current_from_interrupt L f s)) = page_fault_in_progress s"
  by (simp_all add: scheduler_terminate_process_def scheduler_exit_current_from_interrupt_def Let_def slot_flag split: option.split)

lemma group_flag:
  fixes s :: "('h, 'p, 'a) os_state_scheme"
  shows "page_fault_in_progress (shell_apps_release_group_members L l k True s) = page_fault_in_progress s"
proof -
  have m: "page_fault_in_progress (release_member L l k True p u) = page_fault_in_progress u" for p and u :: "('h, 'p, 'a) os_state_scheme"
    by (simp add: release_member_def Let_def switch_flag(1))
  have "page_fault_in_progress (fold (release_member L l k True) ps u) = page_fault_in_progress u" for ps and u :: "('h, 'p, 'a) os_state_scheme"
    by (induction ps arbitrary: u) (simp_all add: m)
  then show ?thesis by (simp add: shell_apps_release_group_members_def)
qed

lemma session_flag:
  "page_fault_in_progress (log_exception f s) = page_fault_in_progress s"
  "page_fault_in_progress (log_fault k v e i s) = page_fault_in_progress s"
  "page_fault_in_progress (shell_apps_end_foreground_graphics E p s) = page_fault_in_progress s"
  "page_fault_in_progress (shell_apps_task_out L k x s) = page_fault_in_progress s"
  "page_fault_in_progress (shell_apps_note_session_return E p s) = page_fault_in_progress s"
proof -
  note l = log_flag
  show "page_fault_in_progress (log_fault k v e i s) = page_fault_in_progress s" by (simp add: log_fault_def Let_def l)
  show "page_fault_in_progress (log_exception f s) = page_fault_in_progress s" unfolding log_exception_def Let_def l ..
  show "page_fault_in_progress (shell_apps_end_foreground_graphics E p s) = page_fault_in_progress s"
    by (simp add: shell_apps_end_foreground_graphics_def os_video_call_def Let_def)
  show "page_fault_in_progress (shell_apps_task_out L k x s) = page_fault_in_progress s"
    by (simp add: shell_apps_task_out_def call_out_both_def shell_out_serial_only_def shell_out_both_def l)
  have "page_fault_in_progress (input_back j s) = page_fault_in_progress s" for j
    by (cases s) (simp add: input_back_def timer_state.defs)
  then show "page_fault_in_progress (shell_apps_note_session_return E p s) = page_fault_in_progress s"
    by (simp add: shell_apps_note_session_return_def Let_def with_input_def split_beta upd_task_def l)
qed

lemma fault_flag: "page_fault_in_progress (shell_apps_on_current_task_fault E L v e i s) = page_fault_in_progress s"
  by (simp add: shell_apps_on_current_task_fault_def Let_def group_flag session_flag split: option.split)

text \<open>A task that faults is ended, with its group, and another thread runs.\<close>

lemma end_faulting_effect:
  fixes s :: "('h, 'p, 'a) os_state_scheme"
  assumes inv: "app_inv L T s" and L: "app_layout L" and f: "f \<noteq> 0" and c: "app_thread s (cur s)"
  shows "\<exists>g t. end_faulting_task E L f s = Some (Irq_frame g, t) \<and> g \<noteq> 0 \<and> app_inv L T t \<and> page_fault_in_progress t = page_fault_in_progress s
    \<and> (\<forall>p < 8. live (st t p) \<longleftrightarrow> live (st s p) \<and> \<not> member s (leader_pid (task_at (cur s) s)) p)"
proof -
  let ?u = "shell_apps_on_current_task_fault E L (f_vector f s) (f_error_code f s) (f_eip f s) s"
  have use: "in_use (task_at (cur s) s)" by (rule caller(2) [OF inv c])
  note k = current_task [OF inv use]
  obtain u where u: "relabelled s u" "?u = (if True then shell_apps_release_group_members L (leader_pid (task_at (cur s) s)) (int (cur s)) True u else u)"
    using fault_steps [OF inv, of E L "f_vector f s" "f_error_code f s" "f_eip f s"] use by auto
  note gs = group_slots [OF relabelled_inv(1) [OF u(1) inv] L u(2)]
  have c1: "cur ?u \<noteq> 1" using k(2) gs(2) relabelled_inv(2) [OF u(1) inv] by simp
  obtain g t where t: "scheduler_exit_current_from_interrupt L f ?u = (g, t)" "g \<noteq> 0" using exit_from_interrupt_ok [OF gs(1) f c1, of L] by auto
  have run: "end_faulting_task E L f s = Some (Irq_frame g, t)" using t(1) by (simp add: end_faulting_task_def Let_def)
  have "live (st t p) \<longleftrightarrow> live (st s p) \<and> \<not> member s (leader_pid (task_at (cur s) s)) p" if "p < 8" for p
    using end_current_live [OF inv u(1) _ u(2) exit_irq_ended [OF gs(1) f c1 gs(3)] that] k(7) t(1) by simp
  moreover have "page_fault_in_progress t = page_fault_in_progress s"
    using switch_flag(2) [of L f ?u] t(1) fault_flag [of E L "f_vector f s" "f_error_code f s" "f_eip f s" s] by simp
  ultimately show ?thesis using run t(2) end_faulting_inv [OF inv L f c run] by blast
qed

section \<open>Properties\<close>

text \<open>The demonstration, with the frame of a page fault of thread 3 on a kernel stack.\<close>

definition demo_fault :: "'h drive_state fat_state \<Rightarrow> 'p mouse_kernel \<Rightarrow> 'p \<Rightarrow> ('h, 'p) os_state" where
  "demo_fault fs i h = (demo_system fs i h)\<lparr>page_fault_in_progress := False, m_mem := demo_mem(0x620030 := 14, 0x62003C := 0x1B)\<rparr>"

lemma demo_fault_fields:
  "g_app_tasks (demo_fault fs i h) = g_app_tasks (demo_system fs i h)" "g_app_phys_page_used (demo_fault fs i h) = g_app_phys_page_used (demo_system fs i h)"
  "g_slots (demo_fault fs i h) = g_slots (demo_system fs i h)" "g_current (demo_fault fs i h) = g_current (demo_system fs i h)"
  "g_runtime_ready (demo_fault fs i h) = g_runtime_ready (demo_system fs i h)" "m_cr3 (demo_fault fs i h) = m_cr3 (demo_system fs i h)"
  "m_mem (demo_fault fs i h) = demo_mem(0x620030 := 14, 0x62003C := 0x1B)" "\<not> page_fault_in_progress (demo_fault fs i h)"
  by (simp_all add: demo_fault_def)

lemma demo_fault_at: "task_at p (demo_fault fs i h) = task_at p (demo_system fs i h)" "slot_at p (demo_fault fs i h) = slot_at p (demo_system fs i h)"
  "cur (demo_fault fs i h) = 3" "member (demo_fault fs i h) l p = member (demo_system fs i h) l p"
  by (simp_all add: task_at_def slot_at_def demo_fault_fields demo_system_fields member_def)

lemma demo_fault_ok:
  "\<exists>T. app_inv demo_os_link T (demo_fault fs i h)" "user_frames_ok 0x620000 (demo_fault fs i h)" "interrupt_frame_is_user 0x620000 (demo_fault fs i h)"
  "f_vector 0x620000 (demo_fault fs i h) = 14"
proof -
  let ?s = "demo_fault fs i h"
  obtain T where inv: "app_inv demo_os_link T (demo_system fs i h)" using demo_system_inv [of fs i h] by blast
  have k: "core (?s\<lparr>m_mem := demo_mem\<rparr>) = core (demo_system fs i h)" by (simp add: core_def demo_fault_fields demo_system_fields(1))
  have iz: "app_inv demo_os_link T (?s\<lparr>m_mem := demo_mem\<rparr>)" using inv by (simp add: app_inv_core [OF k])
  have q: "calm {} (m_mem (?s\<lparr>m_mem := demo_mem\<rparr>)) (demo_mem(0x620030 := 14, 0x62003C := 0x1B))"
    by (simp add: calm_fun_upd)
  have "app_inv demo_os_link T (?s\<lparr>m_mem := demo_mem, m_mem := demo_mem(0x620030 := 14, 0x62003C := 0x1B)\<rparr>)"
    by (rule mem_inv [OF iz demo_os_layout(1) q])
  moreover have "?s\<lparr>m_mem := demo_mem, m_mem := demo_mem(0x620030 := 14, 0x62003C := 0x1B)\<rparr> = ?s" by (simp add: demo_fault_def)
  ultimately show "\<exists>T. app_inv demo_os_link T ?s" by metis
  show "f_vector 0x620000 ?s = 14" by (simp add: frame_word_def demo_fault_fields)
  show u: "interrupt_frame_is_user 0x620000 ?s" by (simp add: interrupt_frame_is_user_def frame_word_def demo_fault_fields)
  have "app_thread ?s 3" using demo_threads [of 3 fs i h] by (simp add: app_thread_def demo_fault_at)
  then show "user_frames_ok 0x620000 ?s" by (simp add: user_frames_ok_def stack_frame_def demo_fault_at)
qed

text \<open>
  C35: Every interrupt keeps the invariant of the application layer: exceptions, the timer, the keyboard, the mouse, the system call gate with any
  call and any arguments, the yield gate and every other vector, provided that user code runs in threads of applications only.
\<close>

theorem interrupts_keep_invariant:
  fixes s :: "('h, 'p, 'a) os_state_scheme"
  assumes "app_inv L T s" "app_layout L" "lm_background_thread L \<noteq> 0" "user_frames_ok f s" "interrupt_dispatch_c E L cr2 f s = Some (r, t)"
  shows "app_inv L T t"
  using assms by (rule interrupt_inv)

text \<open>A system call of the demonstration: thread 3 asks for its number.\<close>

lemma demo_call_run:
  assumes "s = (demo_fault fs i h)\<lparr>m_mem := (m_mem (demo_fault fs i h))(0x620030 := 128, 0x62002C := 31)\<rparr>"
  shows "user_frames_ok 0x620000 s" "\<exists>T. app_inv demo_os_link T s" "f_vector 0x620000 s = 128" "f_eax 0x620000 s = MINIDOS_SYSCALL_THREAD_SELF"
proof -
  let ?s = "demo_fault fs i h"
  have "calm {} (m_mem ?s) ((m_mem ?s)(0x620030 := 128, 0x62002C := 31))" by (intro calm_fun_upd calm_refl) simp_all
  then show "\<exists>T. app_inv demo_os_link T s" using demo_fault_ok(1) [of fs i h] mem_inv [OF _ demo_os_layout(1)] unfolding assms by blast
  show "f_vector 0x620000 s = 128" "f_eax 0x620000 s = MINIDOS_SYSCALL_THREAD_SELF"
    by (simp_all add: assms frame_word_def MINIDOS_SYSCALL_THREAD_SELF_def)
  have "app_thread s 3" "cur s = 3" using demo_threads [of 3 fs i h] demo_fault_at(2) [of 3 fs i h] demo_fault_at(3) [of fs i h]
    by (simp_all add: assms app_thread_def slot_at_def)
  then show "user_frames_ok 0x620000 s" by (simp add: user_frames_ok_def stack_frame_def)
qed

text \<open>A call through the gate that is neither a thread creation nor a yield nor an exit: the call itself, then the result in the frame.\<close>

lemma gate_call:
  assumes f: "stack_frame f" and num: "f_eax f s \<notin> {MINIDOS_SYSCALL_THREAD_SPAWN, MINIDOS_SYSCALL_THREAD_YIELD, MINIDOS_SYSCALL_EXIT}"
    and run: "syscall_dispatch_c E L f s = Some (r, t)"
  shows "\<exists>x u. shell_apps_syscall E L f (f_eax f s) (f_ebx f s) (f_ecx f s) (f_edx f s) s = Some (x, u)
    \<and> (t = u \<or> (\<exists>v. t = set_eax v f u)) \<and> (\<forall>g. r = Irq_frame g \<longrightarrow> g = 0)"
proof -
  obtain x u where "shell_apps_syscall E L f (f_eax f s) (f_ebx f s) (f_ecx f s) (f_edx f s) s = Some (x, u)"
    "(r, t) = (case x of Sys_return r \<Rightarrow> (Irq_frame 0, set_eax (of_int r) f u) | _ \<Rightarrow> (Irq_wait x, u))"
    using run num stack_frame_nonzero [OF f] by (auto simp: syscall_dispatch_c_def split: if_split_asm Option.bind_split_asm)
  then show ?thesis by (cases x) auto
qed

text \<open>
  C3: Through the system call gate, every call of an application other than the creation of a thread, the yield and the exit
  keeps the invariant, leaves the process table, the running thread, its page directory, the page bitmap and all tasks but the
  caller's alone, changes no memory outside the slot of the caller except the word of the frame that receives the result, and,
  when it returns, resumes the caller, whatever the number of the call, its arguments, the user memory and the disk hold.
\<close>

theorem syscall_confined:
  fixes s :: "('h, 'p, 'a) os_state_scheme"
  assumes inv: "app_inv L T s" and L: "app_layout L" and f: "stack_frame f" and c: "app_thread s (cur s)"
    and num: "f_eax f s \<notin> {MINIDOS_SYSCALL_THREAD_SPAWN, MINIDOS_SYSCALL_THREAD_YIELD, MINIDOS_SYSCALL_EXIT}"
    and run: "syscall_dispatch_c E L f s = Some (r, t)"
  shows "app_inv L T t \<and> g_slots t = g_slots s \<and> g_current t = g_current s \<and> m_cr3 t = m_cr3 s
    \<and> g_app_phys_page_used t = g_app_phys_page_used s \<and> (\<forall>p < 8. p \<noteq> cur s \<longrightarrow> task_at p t = task_at p s)
    \<and> (\<forall>a. a \<noteq> unat f + 44 \<longrightarrow> a < unat (app_phys_base (task_at (cur s) s))
        \<or> unat (app_phys_base (task_at (cur s) s)) + unat (app_slot_bytes (task_at (cur s) s)) \<le> a \<longrightarrow> m_mem t a = m_mem s a)
    \<and> (\<forall>g. r = Irq_frame g \<longrightarrow> g = 0)"
proof -
  obtain x u where u: "shell_apps_syscall E L f (f_eax f s) (f_ebx f s) (f_ecx f s) (f_edx f s) s = Some (x, u)"
    "t = u \<or> (\<exists>v. t = set_eax v f u)" "\<forall>g. r = Irq_frame g \<longrightarrow> g = 0" using gate_call [OF f num run] by blast
  have n: "f_eax f s \<noteq> MINIDOS_SYSCALL_THREAD_SPAWN" "f_eax f s \<noteq> MINIDOS_SYSCALL_THREAD_YIELD" using num by simp_all
  note k = syscall_keeps [OF inv L c n u(1)]
  from u(2) show ?thesis
  proof (elim disjE exE)
    fix v assume t: "t = set_eax v f u"
    have "app_inv L T t" unfolding t by (rule set_eax_inv [OF k(1) L f])
    then show ?thesis using k u(3) by (simp add: t set_eax_def task_at_def)
  qed (use k u(3) in simp)
qed

text \<open>The frame of a system call of the foreground application: the size of the screen, to two words of its memory.\<close>

definition demo_gate :: "'h drive_state fat_state \<Rightarrow> 'p mouse_kernel \<Rightarrow> 'p \<Rightarrow> ('h, 'p) os_state" where
  "demo_gate fs i h = (demo_front fs i h)\<lparr>m_mem := demo_mem(0x62002C := MINIDOS_SYSCALL_GFX_SIZE, 0x620020 := 0x1000010, 0x620028 := 0x1000014)\<rparr>"

lemma demo_gate_ok:
  "\<exists>T. app_inv demo_os_link T (demo_gate fs i h)" "app_thread (demo_gate fs i h) (cur (demo_gate fs i h))" "cur (demo_gate fs i h) = 3"
  "task_at 3 (demo_gate fs i h) = (demo_task 3 3 0x700000)\<lparr>background := False\<rparr>"
  "f_eax 0x620000 (demo_gate fs i h) = MINIDOS_SYSCALL_GFX_SIZE" "f_ebx 0x620000 (demo_gate fs i h) = 0x1000010"
  "f_ecx 0x620000 (demo_gate fs i h) = 0x1000014"
proof -
  note d = demo_front_ok [of fs i h]
  have q: "calm {} (m_mem (demo_front fs i h)) (demo_mem(0x62002C := MINIDOS_SYSCALL_GFX_SIZE, 0x620020 := 0x1000010, 0x620028 := 0x1000014))"
    unfolding d(5) by (intro calm_fun_upd calm_refl) simp_all
  show "\<exists>T. app_inv demo_os_link T (demo_gate fs i h)" using d(1) mem_inv [OF _ demo_os_layout(1) q] unfolding demo_gate_def by blast
  show "app_thread (demo_gate fs i h) (cur (demo_gate fs i h))" using d(2) by (simp add: demo_gate_def app_thread_def slot_at_def)
  show "cur (demo_gate fs i h) = 3" "task_at 3 (demo_gate fs i h) = (demo_task 3 3 0x700000)\<lparr>background := False\<rparr>"
    using d(3,4) by (simp_all add: demo_gate_def task_at_def)
  show "f_eax 0x620000 (demo_gate fs i h) = MINIDOS_SYSCALL_GFX_SIZE" "f_ebx 0x620000 (demo_gate fs i h) = 0x1000010"
    "f_ecx 0x620000 (demo_gate fs i h) = 0x1000014" by (simp_all add: frame_word_def demo_gate_def)
qed

theorem syscall_confined_witness:
  "\<forall>E fs i h. \<exists>t T. syscall_dispatch_c E demo_os_link 0x620000 (demo_gate fs i h) = Some (Irq_frame 0, t) \<and> f_eax 0x620000 t = 1
     \<and> app_inv demo_os_link T t \<and> g_slots t = g_slots (demo_gate fs i h) \<and> m_mem t 0x715000 = m_mem (demo_gate fs i h) 0x715000"
proof (intro allI)
  fix E :: "('h, 'p) os_env" and fs :: "'h drive_state fat_state" and i and h :: 'p
  let ?s = "demo_gate fs i h"
  note d = demo_gate_ok [of fs i h]
  obtain T where inv: "app_inv demo_os_link T ?s" using d(1) by blast
  obtain u where u: "shell_apps_syscall E demo_os_link 0x620000 MINIDOS_SYSCALL_GFX_SIZE 0x1000010 0x1000014 (f_edx 0x620000 ?s) ?s = Some (Sys_return 1, u)"
    using gfx_size_run [OF inv d(2-4), of E "0x620000" "f_edx 0x620000 ?s"] by blast
  have num: "f_eax 0x620000 ?s \<notin> {MINIDOS_SYSCALL_THREAD_SPAWN, MINIDOS_SYSCALL_THREAD_YIELD, MINIDOS_SYSCALL_EXIT}"
    unfolding d(5) by (simp add: syscall_numbers)
  then have run: "syscall_dispatch_c E demo_os_link 0x620000 ?s = Some (Irq_frame 0, set_eax 1 0x620000 u)"
    using u by (simp add: syscall_dispatch_c_def d(5-7))
  have "stack_frame 0x620000" by (simp add: stack_frame_def)
  from syscall_confined [OF inv demo_os_layout(1) this d(2) num run]
  have "app_inv demo_os_link T (set_eax 1 0x620000 u) \<and> g_slots (set_eax 1 0x620000 u) = g_slots ?s \<and> m_mem (set_eax 1 0x620000 u) 0x715000 = m_mem ?s 0x715000"
    by (simp add: d(3,4) demo_task_fields demo_task_def)
  then show "\<exists>t T. syscall_dispatch_c E demo_os_link 0x620000 ?s = Some (Irq_frame 0, t) \<and> f_eax 0x620000 t = 1
     \<and> app_inv demo_os_link T t \<and> g_slots t = g_slots ?s \<and> m_mem t 0x715000 = m_mem ?s 0x715000"
    using run by (intro exI [of _ "set_eax 1 0x620000 u"] exI [of _ T]) (simp add: set_eax_def frame_word_def)
qed

text \<open>
  C4: An exception in user mode never stops the machine: the handler ends the group of the faulting thread and no other thread, resumes
  another thread, is ready for the next page fault, and keeps the invariant.
\<close>

theorem faults_contained:
  fixes s :: "('h, 'p, 'a) os_state_scheme"
  assumes inv: "app_inv L T s" and L: "app_layout L" and f: "user_frames_ok f s"
    and user: "interrupt_frame_is_user f s" "f_vector f s < 32" and idle: "\<not> page_fault_in_progress s"
  shows "\<exists>g t. interrupt_dispatch_c E L cr2 f s = Some (Irq_frame g, t) \<and> g \<noteq> 0 \<and> app_inv L T t \<and> \<not> page_fault_in_progress t
    \<and> (\<forall>p < 8. live (st t p) \<longleftrightarrow> live (st s p) \<and> \<not> member s (leader_pid (task_at (cur s) s)) p)"
proof -
  have nz: "f \<noteq> 0" and c: "app_thread s (cur s)" using f user(1) by (simp_all add: user_frames_ok_def stack_frame_nonzero)
  define w where "w = (if f_vector f s = 14 then (log_page_fault cr2 f (log_guard_fault cr2 (s\<lparr>page_fault_in_progress := True\<rparr>)))\<lparr>page_fault_in_progress := False\<rparr>
    else log_exception f s)"
  have k: "core w = core s" by (simp add: w_def core_progress core_logs)
  have pf: "\<not> page_fault_in_progress w"
    using idle by (simp add: w_def session_flag(1))
  have run: "interrupt_dispatch_c E L cr2 f s = end_faulting_task E L f w"
    using nz user idle frame_word_core(2) [OF core_logs(3), of f f s]
    by (simp add: interrupt_dispatch_c_def page_fault_handler_c_def exception_panic_def Let_def w_def)
  have iw: "app_inv L T w" using inv by (simp add: app_inv_core [OF k])
  have e: "cur w = cur s" "task_at p w = task_at p s" "slot_at p w = slot_at p s" "member w l p = member s l p" for p l
    using core_eqD [OF k] by (simp_all add: task_at_def slot_at_def member_def)
  show ?thesis using end_faulting_effect [OF iw L nz, of E] c pf thread_core(1) [OF k] unfolding run e by auto
qed

theorem faults_contained_witness:
  "\<forall>E fs i h. \<exists>g t T. interrupt_dispatch_c E demo_os_link 0x12345678 0x620000 (demo_fault fs i h) = Some (Irq_frame g, t) \<and> g \<noteq> 0
     \<and> app_inv demo_os_link T t \<and> \<not> live (st t 3) \<and> \<not> live (st t 4) \<and> live (st t 5)"
proof (intro allI)
  fix E :: "('h, 'p) os_env" and fs :: "'h drive_state fat_state" and i and h :: 'p
  let ?s = "demo_fault fs i h"
  obtain T where inv: "app_inv demo_os_link T ?s" using demo_fault_ok(1) [of fs i h] by blast
  have v: "f_vector 0x620000 ?s < 32" by (simp add: demo_fault_ok(4))
  have m: "member ?s 3 3" "member ?s 3 4" "\<not> member ?s 3 5" "live (st ?s 5)" "leader_pid (task_at (cur ?s) ?s) = 3"
    by (simp_all add: demo_fault_at member_def demo_system_fields(8,9) demo_task_fields app_process_fields live_def)
  from faults_contained [OF inv demo_os_layout(1) demo_fault_ok(2,3) v demo_fault_fields(8), of E "0x12345678"]
  obtain g t where "interrupt_dispatch_c E demo_os_link 0x12345678 0x620000 ?s = Some (Irq_frame g, t)" "g \<noteq> 0" "app_inv demo_os_link T t"
    "\<And>p. p < 8 \<Longrightarrow> live (st t p) \<longleftrightarrow> live (st ?s p) \<and> \<not> member ?s 3 p" unfolding m(5) by blast
  then show "\<exists>g t T. interrupt_dispatch_c E demo_os_link 0x12345678 0x620000 ?s = Some (Irq_frame g, t) \<and> g \<noteq> 0
     \<and> app_inv demo_os_link T t \<and> \<not> live (st t 3) \<and> \<not> live (st t 4) \<and> live (st t 5)" using m by (intro exI [of _ g] exI [of _ t] exI [of _ T]) simp
qed

theorem interrupts_keep_invariant_witness:
  "\<forall>E fs i h. let s = (demo_fault fs i h)\<lparr>m_mem := (m_mem (demo_fault fs i h))(0x620030 := 128, 0x62002C := 31)\<rparr>
     in \<exists>t T. interrupt_dispatch_c E demo_os_link 0 0x620000 s = Some (Irq_frame 0, t) \<and> f_eax 0x620000 t = 3 \<and> app_inv demo_os_link T t"
proof (intro allI)
  fix E :: "('h, 'p) os_env" and fs :: "'h drive_state fat_state" and i and h :: 'p
  define s where "s = (demo_fault fs i h)\<lparr>m_mem := (m_mem (demo_fault fs i h))(0x620030 := 128, 0x62002C := 31)\<rparr>"
  note d = demo_call_run [OF s_def]
  obtain T where inv: "app_inv demo_os_link T s" using d(2) by blast
  have c: "app_thread s (cur s)" using d(1,3) by (simp add: user_frames_ok_def)
  have k: "task_at 3 s = demo_task 3 3 0x700000" "cur s = 3"
    using demo_fault_at(1) [of 3 fs i h] demo_fault_at(3) [of fs i h] demo_system_fields(8) [of 3 fs i h] by (simp_all add: s_def task_at_def)
  have act: "shell_apps_active_task s = Some 3" "shell_apps_task_valid (task_at 3 s)" "t_pid (task_at 3 s) = 3"
    using active_task [OF inv] caller(2) [OF inv c] task_okD(1,5) [OF caller(3) [OF inv c]] k(2) by simp_all
  have "syscall_of E demo_os_link 0x620000 3 MINIDOS_SYSCALL_THREAD_SELF a0 a1 a2 s = Some (Sys_return 3, s)" for a0 a1 a2
    using act(3) by (simp add: syscall_of_def syscall_numbers)
  then have run: "interrupt_dispatch_c E demo_os_link 0 0x620000 s = Some (Irq_frame 0, set_eax 3 0x620000 s)"
    using d(3,4) act(1,2) by (simp add: interrupt_dispatch_c_def syscall_dispatch_c_def shell_apps_syscall_def Let_def)
      (simp add: syscall_numbers)
  have "app_inv demo_os_link T (set_eax 3 0x620000 s)"
    by (rule interrupts_keep_invariant [OF inv demo_os_layout(1,4) d(1) run])
  then show "let s = (demo_fault fs i h)\<lparr>m_mem := (m_mem (demo_fault fs i h))(0x620030 := 128, 0x62002C := 31)\<rparr>
     in \<exists>t T. interrupt_dispatch_c E demo_os_link 0 0x620000 s = Some (Irq_frame 0, t) \<and> f_eax 0x620000 t = 3 \<and> app_inv demo_os_link T t"
    using run unfolding s_def [symmetric] Let_def by (intro exI [of _ "set_eax 3 0x620000 s"] exI [of _ T]) (simp add: set_eax_def frame_word_def)
qed

end
