(* ===== verification/App_Boot.thy ===== *)
theory App_Boot
  imports App_Interrupt
begin

text \<open>
  The system from its start. A program file is launched when there is a free task and memory for it, and the new thread takes the
  slot of the task. From the state that \<open>scheduler_runtime_init\<close> leaves, every step keeps the invariant of the application layer,
  so that applications stay apart in every state the system reaches.
\<close>

unbundle bit_operations_syntax

section \<open>A launch that succeeds\<close>

text \<open>The tasks 3 to \<open>n - 1\<close> are in use and their threads live; the pages from \<open>m\<close> on are free.\<close>

definition tidy :: "nat \<Rightarrow> nat \<Rightarrow> 'a app_state_scheme \<Rightarrow> bool" where
  "tidy n m s \<longleftrightarrow> (\<forall>p < 8. in_use (task_at p s) \<longleftrightarrow> 3 \<le> p \<and> p < n) \<and> (\<forall>p. 3 \<le> p \<longrightarrow> p < 8 \<longrightarrow> (live (st s p) \<longleftrightarrow> p < n))
     \<and> (\<forall>k < 1024. g_app_phys_page_used s ! k \<longrightarrow> k < m)"

lemma tidy_core:
  fixes s t :: "'a app_state_scheme"
  shows "core t = core s \<Longrightarrow> tidy n m t = tidy n m s"
  using core_eqD(1,2,3) [of t s] by (simp add: tidy_def task_at_def slot_at_def)

lemma tidy_reap:
  assumes inv: "app_inv L T s" and t: "tidy n m s" shows "shell_apps_reap_terminated_tasks s = s"
proof -
  have one: "reap_one p s = s" if "3 \<le> p" "p < 8" for p
    using t that process_state [OF app_invD(5) [OF inv] that(2)] by (auto simp: reap_one_def Let_def tidy_def live_def)
  have "fold reap_one ps s = s" if "set ps \<subseteq> {3..<8}" for ps
    using that by (induction ps) (simp_all add: one)
  from this [of APP_PIDS] show ?thesis unfolding shell_apps_reap_terminated_tasks_def by (simp add: APP_PIDS_def)
qed

lemma find_upt:
  assumes "a \<le> n" "n < b" "P n" "\<And>i. a \<le> i \<Longrightarrow> i < n \<Longrightarrow> \<not> P i" shows "find P [a..<b] = Some n"
  using assms by (auto simp: find_Some_iff intro!: exI [of _ "n - a"])

lemma tidy_pid:
  assumes inv: "app_inv L T s" and t: "tidy n m s" and n: "3 \<le> n" "n < 8"
  shows "shell_apps_find_free_pid s = (Some n, s)" "sched_find_free_slot_from 3 s = Some n"
proof -
  show "shell_apps_find_free_pid s = (Some n, s)" unfolding shell_apps_find_free_pid_def tidy_reap [OF inv t] Let_def APP_PIDS_def
    using t n by (auto simp: tidy_def intro!: find_upt)
  show "sched_find_free_slot_from 3 s = Some n" unfolding sched_find_free_slot_from_def
    using t n by (intro find_upt) (auto simp: sched_consts tidy_def live_def)
qed

lemma tidy_alloc:
  assumes inv: "app_inv L T s" and t: "tidy n m s" and b: "slot_ok b" and room: "m + unat b div 4096 \<le> 1024"
  shows "\<exists>base k. shell_apps_allocate_phys_base b s = (base, s\<lparr>g_app_phys_page_used := set_pages k (unat b div 4096) True (g_app_phys_page_used s)\<rparr>)
    \<and> base \<noteq> 0 \<and> arena_range base b k (unat b div 4096) \<and> free_run (g_app_phys_page_used s) (unat b div 4096) k \<and> k \<le> m"
proof -
  let ?u = "g_app_phys_page_used s" and ?n = "unat b div 4096"
  note r = tidy_reap [OF inv t]
  have len: "length ?u = 1024" by (rule app_invD(7) [OF inv])
  have n: "0 < ?n" and bb: "0 < unat b" "unat b \<le> 0x400000" "?n = (unat b + 4095) div 4096"
    using slot_pages [OF b] b by (auto simp: slot_ok_def)
  have "\<not> ?u ! (m + i)" if "i < ?n" for i
  proof
    assume u: "?u ! (m + i)"
    have "m + i < 1024" using that room by linarith
    then have "m + i < m" using t u unfolding tidy_def by blast
    then show False by simp
  qed
  then have fm: "free_run ?u ?n m" using room len by (simp add: free_run_def)
  then obtain k where k: "find_run ?u ?n 0 = Some k" using find_run_None [OF n, of ?u] by auto
  note f = find_run_SomeD [OF k n]
  have km: "k \<le> m" using f(2) [of m] fm by (meson not_le)
  obtain base v where a: "shell_apps_allocate_phys_base b s = (base, v)" by (cases "shell_apps_allocate_phys_base b s")
  have eq: "base = APP_ARENA_PHYS_BASE + of_nat k * APP_PAGE_SIZE" "v = s\<lparr>g_app_phys_page_used := set_pages k ?n True ?u\<rparr>"
    using a allocate_eq [OF bb, of s] k by (simp_all add: r arena_take_eq)
  have "k < 1024" using f(1) len n by (simp add: free_run_def)
  then have bs: "unat base = 0x700000 + 4096 * k" unfolding eq(1) by (rule unat_arena_base)
  then have "base \<noteq> 0" by auto
  moreover have "arena_range base b k ?n" using bs f(1) len n slot_pages [OF b] by (simp add: arena_range_def free_run_def)
  ultimately show ?thesis using a eq(2) f(1) km by blast
qed

text \<open>The address space is built when the kernel has no table for the region of applications.\<close>

lemma prepare_ok:
  assumes L: "app_layout L" and p: "3 \<le> p" "p < 8" and len: "length (g_app_tasks s) = 8" and b: "slot_ok b" and r: "arena_range base b k n"
    and pde: "m_mem s (lm_page_directory L + 16) = 0"
  shows "\<exists>t. shell_apps_prepare_app_task L p host d base b bg ser join s = (True, t)
    \<and> (\<forall>q. task_at q t = (if q = p then new_task p host d base b bg ser join else task_at q s))
    \<and> g_app_phys_page_used t = g_app_phys_page_used s \<and> same_threads s t \<and> length (g_app_tasks t) = 8"
proof -
  obtain v where v: "shell_apps_prepare_app_task L p host d base b bg ser join s =
      (case paging_build_app_directory L (task_page_directory p) (task_user_pt p) base APP_LOAD_VIRT_BASE b v of
         (False, t) \<Rightarrow> (False, t) | (True, t) \<Rightarrow> (True, log_serial_raw (ascii ''APPBG053'' @ [Logger.newline]) t))"
    "\<And>q. task_at q v = (if q = p then new_task p host d base b bg ser join else task_at q s)"
    "g_app_phys_page_used v = g_app_phys_page_used s" "same_threads s v" "calm {p} (m_mem s) (m_mem v)" "length (g_app_tasks v) = 8"
    by (rule prepare_steps [OF p len b r]) blast
  have "m_mem v (lm_page_directory L + 4 * 4) = 0"
    using calm_kernel [OF v(5) L _ kdir_table, of 4] p pde by simp
  moreover have "unat (drop_bit 22 APP_LOAD_VIRT_BASE) = 4" "unat (drop_bit 12 APP_LOAD_VIRT_BASE AND 0x3FF) = 0" "APP_LOAD_VIRT_BASE AND 0xFFF = 0"
    by (simp_all add: APP_LOAD_VIRT_BASE_def)
  moreover have "task_page_directory p \<noteq> 0" "task_user_pt p \<noteq> 0" using task_tables_range [OF p(2)] by simp_all
  moreover have "unat (drop_bit 12 (b + 0xFFF)) = unat b div 4096" using app_pages_slot [OF b] by (simp add: app_pages_def)
  moreover have "unat b div 4096 \<le> 1024" "b \<noteq> 0" "\<not> b > APP_SLOT_BYTES"
    using b by (auto simp: slot_ok_def APP_SLOT_BYTES_def word_less_nat_alt)
  moreover have "base AND 0xFFF = 0" using arena_range_bounds(3) [OF r] unfolding aligned_word_iff page_aligned_def .
  ultimately obtain m where "paging_build_app_directory L (task_page_directory p) (task_user_pt p) base APP_LOAD_VIRT_BASE b v = (True, v\<lparr>m_mem := m\<rparr>)"
    unfolding paging_build_app_directory_def Let_def by (simp add: LOWMEM_PAGE_TABLE_COUNT_def)
  then have "shell_apps_prepare_app_task L p host d base b bg ser join s = (True, log_serial_raw (ascii ''APPBG053'' @ [Logger.newline]) (v\<lparr>m_mem := m\<rparr>))"
    using v(1) by simp
  moreover have k: "core (log_serial_raw (ascii ''APPBG053'' @ [Logger.newline]) (v\<lparr>m_mem := m\<rparr>)) = core (v\<lparr>m_mem := m\<rparr>)" by (simp add: frame_simps)
  ultimately show ?thesis using v(2-4,6) core_task_at [OF k] core_eqD [OF k] by (simp add: same_threads_def)
qed

lemma load_com_ok:
  assumes "shell_apps_plan_com_image n = Some b" "app_slot_bytes (task_at p s) = b"
  shows "fst (load_image APP_FORMAT_COM n p s) = Some APP_LOAD_VIRT_BASE"
proof -
  note q = required_size [OF assms(1)]
  define N where "N = nat n"
  have N: "(of_int n :: u32) = of_nat N" "N \<le> 65536" using q by (simp add: N_def, simp add: N_def nat_le_iff)
  then have u: "unat (of_int n :: u32) = N" by (simp add: unat_of_nat32)
  have b: "b = shell_apps_required_slot_bytes (of_int n)" "b \<noteq> 0"
    using assms(1) by (auto simp: shell_apps_plan_com_image_def Let_def split: if_splits)
  have ub: "unat b = 4096 * ((N + 4095) div 4096) + 0x15000" using required_slot_ok(4) [of "of_int n"] b u by simp
  have le: "N \<le> 4096 * ((N + 4095) div 4096)" "4096 * ((N + 4095) div 4096) \<le> N + 4095" using mult_div_mod_eq [of 4096 "N + 4095"]
      mod_less_divisor [of 4096 "N + 4095"] by linarith+
  have nl: "\<not> b < APP_RUNTIME_RESERVED_BYTES" "\<not> b > APP_SLOT_MAX_SIZE" using q by (auto simp: slot_ok_def word_less_nat_alt APP_SLOT_MAX_SIZE_def)
  have l: "unat (APP_LOAD_VIRT_BASE + b - APP_RUNTIME_RESERVED_BYTES) = 0x1000000 + 4096 * ((N + 4095) div 4096)"
    using ub N(2) le by (subst unat_minus) (simp_all add: unat_plus word_le_nat_alt APP_LOAD_VIRT_BASE_def)
  have a: "unat (APP_LOAD_VIRT_BASE + of_int n) = 0x1000000 + N" using u N(2) by (subst unat_plus) (simp_all add: APP_LOAD_VIRT_BASE_def)
  have "\<not> APP_LOAD_VIRT_BASE + of_int n > APP_LOAD_VIRT_BASE + b - APP_RUNTIME_RESERVED_BYTES" using l a le by (simp add: word_less_nat_alt)
  moreover have "APP_LOAD_VIRT_BASE + b - APP_RUNTIME_RESERVED_BYTES \<noteq> 0" using l by auto
  ultimately show ?thesis using assms nl
    by (simp add: load_image_def shell_apps_load_com_image_def Let_def shell_apps_user_image_limit_for_slot_def split_beta)
qed

text \<open>The scheduler gives the thread the slot of its task.\<close>

lemma start_ok:
  assumes inv: "sched_inv s" and e: "lm_background_thread L \<noteq> 0" and p: "3 \<le> p" "p < 8" and free: "sched_find_free_slot_from 3 s = Some p"
  shows "\<exists>t. start_task L p nm org s = (True, t) \<and> g_app_tasks t = g_app_tasks s \<and> g_app_phys_page_used t = g_app_phys_page_used s
    \<and> g_current t = g_current s \<and> st t p = PROCESS_READY \<and> pdir t p = tdir p \<and> (\<forall>j. j \<noteq> p \<longrightarrow> slot_at j t = slot_at j s)
    \<and> sched_state.more t = sched_state.more s"
proof -
  have fr: "sched_find_free_slot_from SCHED_EXTERNAL_PID_MIN s = Some p" using free by (simp add: SCHED_EXTERNAL_PID_MIN_def)
  obtain t where t: "sched_spawn_kernel_thread_internal L (Some nm) (Some org) True (lm_background_thread L) (task_addr p) (tdir p) SCHED_EXTERNAL_PID_MIN s = (Some p, t)"
    "g_current t = g_current s" "\<forall>j. j \<noteq> p \<longrightarrow> slot_at j t = slot_at j s" "fresh_slot L p (lm_background_thread L) (task_addr p) (tdir p) (slot_at p t)"
    using spawn_ok [OF inv fr refl e, where L = L and n = nm and org = "Some org" and ex = True and arg = "task_addr p" and pdir = "tdir p"] by blast
  have sp: "scheduler_spawn_kernel_task L (Some nm) (Some org) True (lm_background_thread L) (task_addr p) (tdir p) s = (Some p, t)"
    using t(1) sched_invD(2) [OF inv] by (simp add: scheduler_spawn_kernel_task_def)
  have "sched_state.more t = sched_state.more s"
    using spawn_more [of L "Some nm" "Some org" True "lm_background_thread L" "task_addr p" "tdir p" s] sp by simp
  moreover have "st t p = PROCESS_READY" "pdir t p = tdir p" using t(4) tdir_nz [OF p(2)] by (simp_all add: fresh_slot_def)
  ultimately show ?thesis using sp t(2,3) more_app [of t s] by (simp add: start_task_def)
qed

text \<open>None of this touches the file system.\<close>

lemma more_fat: "sched_state.more s = sched_state.more (t :: ('h, 'p, 'a) os_state_scheme) \<Longrightarrow> os_fat s = os_fat t"
  by (cases s; cases t; simp)

lemma fat_log [frame_simps]: "os_fat (log_serial_raw x s) = os_fat s" "os_fat (log_print_hex k s) = os_fat s"
  by (rule more_fat, simp add: frame_simps)+

lemma fat_task [frame_simps]:
  "os_fat (upd_task p f s) = os_fat s" "os_fat (zero_task_mem p s) = os_fat s" "os_fat (shell_apps_log_task_marker m k s) = os_fat s"
  "os_fat (snd (load_image fmt n p s)) = os_fat s" "os_fat (label_task p entry nm fname fb s) = os_fat s"
  by (simp_all add: upd_task_def zero_task_mem_def shell_apps_log_task_marker_def load_image_def label_task_def Let_def split_beta frame_simps)

lemma fat_prepare [frame_simps]:
  fixes s :: "('h, 'p, 'a) os_state_scheme"
  shows "os_fat (snd (shell_apps_prepare_app_task L p host d base b bg ser join s)) = os_fat s"
proof -
  have "os_fat (snd (paging_build_app_directory L pd pt phys virt n u)) = os_fat u" for pd pt phys virt n and u :: "('h, 'p, 'a) os_state_scheme"
    by (simp add: paging_build_app_directory_def Let_def)
  then show ?thesis
    by (auto simp: shell_apps_prepare_app_task_def shell_apps_copy_host_state_def Let_def frame_simps
        split: prod.split bool.split dest: arg_cong [where f = "\<lambda>x. os_fat (snd x)"])
qed

text \<open>A COM file is launched: the new thread is ready in the slot of its task, and the other tasks and threads are as before.\<close>

lemma launch_com_ok:
  fixes s :: "('h, 'p, 'a) os_state_scheme"
  assumes inv: "app_inv L T s" and L: "app_layout L" and e: "lm_background_thread L \<noteq> 0" and host: "shell_apps_host_valid host" and T4: "T 4 = None"
    and t: "tidy n m s" and n: "3 \<le> n" "n < 8" and plan: "shell_apps_plan_com_image k = Some b" and room: "m + unat b div 4096 \<le> 1024"
    and buf: "k \<le> int (length (g_elf_buffer s))"
  shows "\<exists>v. launch_background L host APP_FORMAT_COM nm fname k b s = (Some n, v) \<and> app_inv L T v \<and> tidy (Suc n) (m + unat b div 4096) v
    \<and> app_thread v n \<and> leader_pid (task_at n v) = int n \<and> app_slot_bytes (task_at n v) = b
    \<and> (\<forall>q. q \<noteq> n \<longrightarrow> task_at q v = task_at q s \<and> slot_at q v = slot_at q s)
    \<and> g_current v = g_current s \<and> st v n = PROCESS_READY \<and> os_fat v = os_fat (snd (os_drive_get_current s))"
proof -
  let ?n = "unat b div 4096"
  note q = required_size [OF plan]
  define s2 where "s2 = log_serial_raw (line ''APPBG004'') s"
  have k2: "core s2 = core s" by (simp add: s2_def frame_simps)
  have i2: "app_inv L T s2" "tidy n m s2" using inv t by (simp_all add: app_inv_core [OF k2] tidy_core [OF k2])
  obtain base a where al: "shell_apps_allocate_phys_base b s2 = (base, s2\<lparr>g_app_phys_page_used := set_pages a ?n True (g_app_phys_page_used s2)\<rparr>)"
    "base \<noteq> 0" "arena_range base b a ?n" "a \<le> m" using tidy_alloc [OF i2 _ room] q by blast
  define s3 where "s3 = s2\<lparr>g_app_phys_page_used := set_pages a ?n True (g_app_phys_page_used s2)\<rparr>"
  define s4 where "s4 = log_serial_raw (line ''APPBG005'') s3"
  obtain d u where u: "os_drive_get_current s4 = (d, u)" by (cases "os_drive_get_current s4")
  have "core s4 = core s3" by (simp add: s4_def frame_simps)
  then have k4: "core u = core s3" using core_drive(1) [of s4] u by simp
  have z: "m_mem u (lm_page_directory L + 16) = 0"
    using kmap_none [OF app_invD(8) [OF inv] _ T4] core_eqD(6) [OF k4] core_eqD(6) [OF k2] by (simp add: s3_def)
  have len: "length (g_app_tasks u) = 8" using app_invD(6) [OF i2(1)] core_eqD(1) [OF k4] by (simp add: s3_def)
  have sk: "slot_ok b" using q by blast
  obtain s5 where s5: "shell_apps_prepare_app_task L n host d base b True True False u = (True, s5)"
    "\<And>x. task_at x s5 = (if x = n then new_task n host d base b True True False else task_at x u)"
    "g_app_phys_page_used s5 = g_app_phys_page_used u" "same_threads u s5" "length (g_app_tasks s5) = 8"
    using prepare_ok [OF L n len sk al(3) z, of host d True True False] by blast
  define s6 where "s6 = log_serial_raw (line ''APPBG007'') (log_serial_raw (line ''APPBG006'') s5)"
  have k6: "core s6 = core s5" by (simp add: s6_def frame_simps)
  define s7 where "s7 = snd (load_image APP_FORMAT_COM k n s6)"
  have "app_slot_bytes (task_at n s6) = b" using s5(2) [of n] core_task_at [OF k6] by (simp add: new_task_def)
  then have ld: "load_image APP_FORMAT_COM k n s6 = (Some APP_LOAD_VIRT_BASE, s7)"
    using load_com_ok [OF plan] by (metis s7_def prod.collapse)
  obtain mm where m7: "s7 = s6\<lparr>m_mem := mm\<rparr>" using s7_def by (simp add: load_image_def Let_def split_beta)
  define s8 where "s8 = log_serial_raw (line ''APPBG008'') s7"
  define s9 where "s9 = (let s = label_task n APP_LOAD_VIRT_BASE nm fname (default_origin APP_FORMAT_COM) s8
    in shell_apps_log_task_marker (ascii ''APPBG010'') (task_at n s) s)"
  have k9: "core s9 = core (label_task n APP_LOAD_VIRT_BASE nm fname (default_origin APP_FORMAT_COM) (s6\<lparr>m_mem := mm\<rparr>))"
  proof -
    have k8: "core s8 = core (s6\<lparr>m_mem := mm\<rparr>)" by (simp add: s8_def m7 frame_simps)
    have "core s9 = core (label_task n APP_LOAD_VIRT_BASE nm fname (default_origin APP_FORMAT_COM) s8)"
      by (simp add: s9_def Let_def frame_simps)
    also have "\<dots> = core (label_task n APP_LOAD_VIRT_BASE nm fname (default_origin APP_FORMAT_COM) (s6\<lparr>m_mem := mm\<rparr>))"
      using core_eqD [OF k8] by (simp add: core_def label_task_def upd_task_def)
    finally show ?thesis .
  qed
  have th: "same_threads s s9"
    using same_threads_core [OF k2] same_threads_core [OF k4] s5(4) same_threads_core [OF k6] same_threads_core [OF k9]
    by (simp add: same_threads_def s3_def label_task_def upd_task_def)
  have sl: "slot_at x s9 = slot_at x s" for x by (rule same_threadsD(1) [OF th])
  have si: "sched_inv s9" by (rule same_threadsD(5) [OF th app_invD(5) [OF inv]])
  have "sched_find_free_slot_from 3 s9 = Some n" using tidy_pid(2) [OF inv t n] by (simp add: sched_find_free_slot_from_def sl)
  from start_ok [OF si e n this, of "if nm \<noteq> [] then nm else ascii ''app''" fname] obtain v where
    v: "start_task L n (if nm \<noteq> [] then nm else ascii ''app'') fname s9 = (True, v)" "g_app_tasks v = g_app_tasks s9"
      "g_app_phys_page_used v = g_app_phys_page_used s9" "g_current v = g_current s9" "st v n = PROCESS_READY" "pdir v n = tdir n"
      "\<And>j. j \<noteq> n \<Longrightarrow> slot_at j v = slot_at j s9" "sched_state.more v = sched_state.more s9" by auto
  have run: "launch_background L host APP_FORMAT_COM nm fname k b s = (Some n, v)"
    using tidy_pid(1) [OF inv t n] al(1,2) u s5(1) ld v(1)
    by (simp add: launch_background_def prepare_task_def Let_def flip: s2_def s3_def s4_def s6_def s8_def) (auto simp: s9_def Let_def)
  have "k < 2 ^ 31" using q by simp
  from launch_background_inv [OF inv L e host this buf sk, of APP_FORMAT_COM nm fname] have "app_inv L T v" by (simp add: run)
  moreover have thr: "app_thread v n" using v(5,6) by (simp add: app_thread_def live_def)
  moreover have ta: "task_at x v = (if x = n then (new_task n host d base b True True False)\<lparr>entry_virtual := APP_LOAD_VIRT_BASE,
       task_name := shell_apps_set_task_label TASK_NAME_MAX nm (ascii ''app''),
       origin_name := shell_apps_set_task_label TASK_NAME_MAX fname (default_origin APP_FORMAT_COM)\<rparr> else task_at x s)" for x
  proof -
    have l6: "length (g_app_tasks s6) = 8" using s5(5) core_eqD(1) [OF k6] by simp
    have "task_at x v = task_at x s9" using v(2) by (simp add: task_at_def)
    also have "\<dots> = (if x = n then (task_at n s6)\<lparr>entry_virtual := APP_LOAD_VIRT_BASE,
       task_name := shell_apps_set_task_label TASK_NAME_MAX nm (ascii ''app''),
       origin_name := shell_apps_set_task_label TASK_NAME_MAX fname (default_origin APP_FORMAT_COM)\<rparr> else task_at x s6)"
      using core_task_at [OF k9, of x] n l6 by (simp add: label_task_def)
    finally show ?thesis using core_task_at [OF k6] s5(2) core_task_at [OF k4] core_task_at [OF k2] by (simp add: s3_def)
  qed
  moreover have "tidy (Suc n) (m + ?n) v"
  proof -
    have "length (g_app_phys_page_used s2) = 1024" by (rule app_invD(7) [OF i2(1)])
    moreover have "g_app_phys_page_used v = set_pages a ?n True (g_app_phys_page_used s2)"
      using v(3) core_eqD(2) [OF k9] core_eqD(2) [OF k6] s5(3) core_eqD(2) [OF k4] by (simp add: s3_def label_task_def upd_task_def)
    ultimately have "j < m + ?n" if "j < 1024" "g_app_phys_page_used v ! j" for j
      using that i2(2) al(4) by (fastforce simp: set_pages_def tidy_def split: if_splits)
    moreover have "live (st v x) \<longleftrightarrow> x < Suc n" if "3 \<le> x" "x < 8" for x
      using that t v(5) v(7) [of x] by (cases "x = n") (auto simp: tidy_def sl live_def)
    moreover have "in_use (task_at x v) \<longleftrightarrow> 3 \<le> x \<and> x < Suc n" if "x < 8" for x
      using that t n by (auto simp: ta tidy_def new_task_def)
    ultimately show ?thesis by (simp add: tidy_def)
  qed
  moreover have "os_fat v = os_fat (snd (os_drive_get_current s))"
  proof -
    have "os_fat v = os_fat s9" by (rule more_fat [OF v(8)])
    also have "\<dots> = os_fat u" using fat_prepare [of L n host d base b True True False u] s5(1)
      by (simp add: s9_def s8_def m7 s6_def Let_def frame_simps)
    also have "\<dots> = os_fat (snd (os_drive_get_current s))" using u
      by (auto simp: os_drive_get_current_def s4_def s3_def s2_def split_beta frame_simps)
    finally show ?thesis .
  qed
  moreover have "g_current v = g_current s" using v(4) same_threadsD(2) [OF th] by simp
  ultimately show ?thesis using run v(5,7) sl by (intro exI [of _ v]) (simp add: ta new_task_def)
qed

section \<open>A floppy with a program\<close>

text \<open>The file A.COM of 600 bytes in the clusters 2 and 3.\<close>

definition prog_floppy :: image where
  "prog_floppy = demo_floppy(9736 := 0x43, 9737 := 0x4F, 9738 := 0x4D)"

definition prog_disk :: "image drive_state fat_state \<Rightarrow> bool" where
  "prog_disk t \<longleftrightarrow> fat_ready floppy_ok 0 t \<and> fat_frame (floppy_fat prog_floppy) t \<and> drive_image (f_dev t) = prog_floppy"

lemma prog_slot0:
  "de_name (slot_entry prog_floppy (19, 0)) = [0x41, 0x20, 0x20, 0x20, 0x20, 0x20, 0x20, 0x20, 0x43, 0x4F, 0x4D]"
  "de_attributes (slot_entry prog_floppy (19, 0)) = 0x20" "de_cluster_low (slot_entry prog_floppy (19, 0)) = 2"
  "de_file_size (slot_entry prog_floppy (19, 0)) = 600"
  by (simp_all add: slot_entry_def entry_at_def sector_at_def DIR_ENTRY_SIZE_def prog_floppy_def demo_floppy_def take_map load16_def load32_def
      le16_def le32_def Let_def upt_rec [of _ 11])

lemma prog_fat: "fat_entry drive_image (floppy_fat prog_floppy) 2 = 3" "fat_entry drive_image (floppy_fat prog_floppy) 3 = 0xFFF"
  by (simp_all add: floppy_fat_def floppy_drives_def floppy_bpb_def fat_get_def fat_addr_def pair_at_def le16_def
      fat12_unpack_def demo_floppy_def prog_floppy_def)

lemma prog_read:
  assumes t: "prog_disk t" and mx: "600 \<le> mx" "mx < 2 ^ 32"
  shows "\<exists>w data. fat16_read_file_from_dir (drive_io image_hw) 0 (ascii ''A.COM'') mx t = Some (data, w) \<and> length data = 600 \<and> prog_disk w"
proof -
  let ?s = "floppy_fat prog_floppy" and ?f = "ascii ''A.COM''"
  note rd = sector_device.read_file_ok [OF floppy_device [of 0]] and qd = sector_device.quiet_def [OF floppy_device [of 0]]
  have m: "drive_image (f_dev ?s) = prog_floppy" by (simp add: floppy_fat_def floppy_drives_def)
  have q: "sector_device.quiet 0 floppy_ok drive_image ?s t" using t m by (simp add: qd prog_disk_def)
  obtain rest where sl: "slots [19..<33] = (19, 0) # (19, Suc 0) # rest" using demo_slots by blast
  have pad: "padded_name ?f = [0x41, 0x20, 0x20, 0x20, 0x20, 0x20, 0x20, 0x20, 0x43, 0x4F, 0x4D]" by code_simp
  have "storable_name ?f" by code_simp
  then have f: "legal_name ?f" "upper_name ?f" by (simp_all add: storable_name_def)
  have match: "fat16_match_name ?f (slot_entry prog_floppy (19, 0))"
    using match_name_exact [OF f(1), of "slot_entry prog_floppy (19, 0)"] own_name_matches [OF f] by (simp add: prog_slot0 pad)
  have hit: "find (\<lambda>q. stop_read ?f (slot_entry (drive_image (f_dev ?s)) q)) (slots [19..<33]) = Some (19, 0)"
    unfolding m sl using match by (simp add: stop_read_def prog_slot0 FAT16_ATTR_DIRECTORY_def)
  have chain: "linked (fat_entry drive_image ?s) 2847 (de_cluster_low (slot_entry (drive_image (f_dev ?s)) (19, 0))) [2, 3]"
    unfolding m prog_slot0 using prog_fat [unfolded m] by (simp add: fat_chain_def is_data_def)
  have live: "de_name (slot_entry (drive_image (f_dev ?s)) (19, 0)) ! 0 \<noteq> 0" by (simp add: m prog_slot0)
  have mx0: "0 \<le> mx" using mx by simp
  obtain w where w: "fat16_read_file_from_dir (drive_io image_hw) 0 ?f mx t = Some (take (nat mx) (file_bytes (bpb ?s) 33 prog_floppy [2, 3]
        (unat (de_file_size (slot_entry prog_floppy (19, 0))))), w)" "sector_device.quiet 0 floppy_ok drive_image ?s w"
    using rd [OF floppy_fs_vol floppy_root q hit live chain mx0 mx(2)] unfolding m by blast
  have "length (take (nat mx) (file_bytes (bpb ?s) 33 prog_floppy [2, 3] (unat (de_file_size (slot_entry prog_floppy (19, 0)))))) = 600"
    using mx(1) by (simp add: prog_slot0 file_bytes_def cluster_data_def floppy_fat_def floppy_bpb_def)
  moreover have "prog_disk w" using w(2) m by (simp add: qd prog_disk_def)
  ultimately show ?thesis using w(1) by blast
qed

text \<open>The host of a shell in the root directory of the floppy.\<close>

definition prog_host :: shell_app_host where
  "prog_host = \<lparr>h_current_dir_cluster = 0, h_current_path = [BACKSLASH], h_current_path_size = 64, h_fat16_initialized = True,
     h_app_clip_src_cluster = 0, h_app_clip_name = [], h_app_clip_name_size = 64, h_app_clip_mode = 0,
     h_out_both = 1, h_str_to_upper = 1, h_path_reset = 1, h_path_pop = 1, h_path_push = 1\<rparr>"

lemma prog_drive: "prog_disk (os_fat s) \<Longrightarrow> prog_disk (os_fat (snd (os_drive_get_current s)))"
proof -
  assume d: "prog_disk (os_fat s)"
  let ?d = "f_dev (os_fat s)"
  define k where "k = fst (drive_get_current ?d)"
  have k: "snd (drive_get_current ?d) = ?d\<lparr>current_drive := k\<rparr>" by (simp add: k_def drive_get_current_def split: option.split)
  have "floppy_ok (?d\<lparr>current_drive := k\<rparr>) = floppy_ok ?d" by (simp add: boot_drive_mounted_def drive_get_info_def)
  then show ?thesis using d by (simp add: prog_disk_def os_drive_get_current_def k split_beta fat_ready_def fat_frame_def)
qed

lemma prog_names:
  "shell_apps_has_extension (ascii ''A.COM'') (ascii ''.com'')" "\<not> shell_apps_has_extension (ascii ''A.COM'') (ascii ''.elf'')"
  "shell_apps_normalize_app_name (ascii ''A.COM'') 64 = ascii ''A''" "ascii ''A.COM'' \<noteq> []" "ascii ''A'' \<noteq> []"
  "shell_apps_append_extension (ascii ''A.COM'') (ascii ''.com'') True 64 = Some (ascii ''A.COM'')" "str_to_upper (ascii ''A.COM'') = ascii ''A.COM''"
  by code_simp+

lemma prog_plan: "shell_apps_plan_com_image 600 = Some 0x16000" "unat (0x16000 :: u32) div 4096 = 22"
  by (simp_all add: shell_apps_plan_com_image_def shell_apps_required_slot_bytes_def shell_apps_align_up_def Let_def app_consts APP_MAX_COM_SIZE_def)

lemma prog_host_ok: "shell_apps_host_valid prog_host" "h_fat16_initialized prog_host" "h_current_dir_cluster prog_host = 0"
  by (simp_all add: prog_host_def shell_apps_host_valid_def)

text \<open>The command starts the program in the background, as long as there are tasks and memory.\<close>

lemma run_prog:
  fixes s :: "(image, 'p, 'a) os_state_scheme"
  assumes inv: "app_inv L T s" and L: "app_layout L" and e: "lm_background_thread L \<noteq> 0" and T4: "T 4 = None"
    and t: "tidy n m s" and n: "3 \<le> n" "n < 8" and room: "m + 22 \<le> 1024" and fs: "prog_disk (os_fat s)" and E: "env_io E = drive_io image_hw"
  shows "\<exists>v. shell_apps_run_background E L prog_host (ascii ''A.COM'') s = Some (Some n, prog_host, v) \<and> app_inv L T v \<and> tidy (Suc n) (m + 22) v
    \<and> app_thread v n \<and> leader_pid (task_at n v) = int n \<and> app_slot_bytes (task_at n v) = 0x16000
    \<and> (\<forall>q. q \<noteq> n \<longrightarrow> task_at q v = task_at q s \<and> slot_at q v = slot_at q s)
    \<and> g_current v = g_current s \<and> st v n = PROCESS_READY \<and> prog_disk (os_fat v)"
proof -
  define s1 where "s1 = log_serial_raw (line ''APPBG003'') (log_serial_raw (line ''APPBG002'') (log_serial_raw (line ''APPBG001'') s))"
  have f1: "os_fat s1 = os_fat s" by (simp add: s1_def frame_simps)
  obtain w data where rd: "fat16_read_file_from_dir (drive_io image_hw) 0 (ascii ''A.COM'') APP_MAX_COM_SIZE (os_fat s) = Some (data, w)"
    "length data = 600" "prog_disk w" using prog_read [OF fs, of APP_MAX_COM_SIZE] by (auto simp: APP_MAX_COM_SIZE_def)
  define s2 where "s2 = s1\<lparr>os_fat := w, g_elf_buffer := data @ drop 600 (g_elf_buffer s1)\<rparr>"
  have k: "core s2 = core s" by (simp add: s2_def s1_def core_def)
  have inv2: "app_inv L T s2" "tidy n m s2" using inv t by (simp_all add: app_inv_core [OF k] tidy_core [OF k])
  have buf: "600 \<le> int (length (g_elf_buffer s2))" using rd(2) by (simp add: s2_def)
  have "bg_search E prog_host (ascii ''A.COM'') s1 = Some (Some (APP_FORMAT_COM, ascii ''A.COM'', 600), s2)"
    using rd by (auto simp: bg_search_def prog_names prog_host_ok shell_apps_stage_com_candidate_def Let_def stage_file_def os_fat_call_def E f1 s2_def)
  then have run: "shell_apps_run_background E L prog_host (ascii ''A.COM'') s =
      (let (r, v) = launch_background L prog_host APP_FORMAT_COM (ascii ''A'') (ascii ''A.COM'') 600 0x16000 s2 in Some (r, prog_host, v))"
    by (simp add: shell_apps_run_background_def tidy_reap [OF inv t] Let_def prog_names prog_host_ok shell_apps_ensure_host_fat16_ready_def
        plan_image_def prog_plan flip: s1_def)
  have "prog_disk (os_fat s2)" using rd(3) by (simp add: s2_def)
  then have fs2: "prog_disk (os_fat (snd (os_drive_get_current s2)))" by (rule prog_drive)
  have e2: "task_at q s2 = task_at q s" "slot_at q s2 = slot_at q s" "g_current s2 = g_current s" for q
    using core_task_at [OF k] core_eqD(3,4) [OF k] by (simp_all add: slot_at_def)
  from launch_com_ok [OF inv2(1) L e prog_host_ok(1) T4 inv2(2) n prog_plan(1) _ buf, unfolded prog_plan(2), OF room, of "ascii ''A''" "ascii ''A.COM''"]
  show ?thesis using fs2 unfolding e2 run by (auto simp: Let_def)
qed

section \<open>From the start to two applications\<close>

definition floppy_env :: "'p port_io \<Rightarrow> (video_call list \<Rightarrow> int) \<Rightarrow> (image, 'p) os_env" where
  "floppy_env ports video = \<lparr>env_io = drive_io image_hw, env_ports = ports, env_video = video\<rparr>"

lemma floppy_env_io: "env_io (floppy_env ports video) = drive_io image_hw"
  by (simp add: floppy_env_def)

lemma boot_map: "\<exists>T pt. kmap demo_os_link T (m_mem sched_booted) \<and> kfull T (m_mem sched_booted) \<and> T 1 = Some pt \<and> T 4 = None"
proof -
  have "boot_fb_pds sched_boot = boot_fb_pds paging_boot" by (rule boot_fb_pds_cong) (simp add: sched_boot_def paging_state.defs)
  then obtain T where T: "kmap demo_sched_link T (m_mem sched_booted)" "kfull T (m_mem sched_booted)" "dom T = {0..<4}"
    using setup_structures_kmap [OF demo_sched_layout, of sched_boot] unfolding sched_booted_def
    by (auto simp: paging_boot_fb LOWMEM_PAGE_TABLE_COUNT_def)
  moreover obtain pt where "T 1 = Some pt" using T(3) by (metis atLeastLessThan_iff domD one_less_numeral_iff semiring_norm(76) zero_le)
  moreover have "T 4 = None" using T(3) by auto
  ultimately show ?thesis by (auto simp: demo_os_kmap)
qed

text \<open>The start of the system with the floppy.\<close>

lemma boot_ok:
  fixes i :: "'p mouse_kernel"
  assumes t: "scheduler_runtime_init demo_os_link (demo_boot (floppy_fat prog_floppy) i h) = (ok, t)"
  shows "\<exists>T pt. kmap demo_os_link T (m_mem (demo_boot (floppy_fat prog_floppy) i h)) \<and> kfull T (m_mem (demo_boot (floppy_fat prog_floppy) i h))
      \<and> T 1 = Some pt \<and> T 4 = None \<and> app_inv demo_os_link T t"
    "tidy 3 0 t" "g_current t = 0" "prog_disk (os_fat t)" "ok" "\<not> live (st t 2)"
    "length (g_slots (demo_boot (floppy_fat prog_floppy) i h)) = 8" "\<not> g_runtime_ready (demo_boot (floppy_fat prog_floppy) i h)"
proof -
  let ?s = "demo_boot (floppy_fat prog_floppy) i h"
  obtain T pt where T: "kmap demo_os_link T (m_mem ?s)" "kfull T (m_mem ?s)" "T 1 = Some pt" "T 4 = None"
    using boot_map by (auto simp: demo_boot_fields)
  show len: "length (g_slots ?s) = 8" "\<not> g_runtime_ready ?s" using sched_booted_ok(2,3) by (simp_all add: demo_boot_fields)
  have z: "g_app_tasks ?s = replicate 8 zero_task" "g_app_phys_page_used ?s = replicate 1024 False" by (simp_all add: demo_boot_fields)
  note b = boot_app_inv [OF demo_os_layout(1-3) T(1-3) len z t]
  show ok by (rule b(1))
  then have t': "scheduler_runtime_init demo_os_link ?s = (True, t)" using t by simp
  note sp = init_spaces [OF len t']
  show "\<exists>T pt. kmap demo_os_link T (m_mem ?s) \<and> kfull T (m_mem ?s) \<and> T 1 = Some pt \<and> T 4 = None \<and> app_inv demo_os_link T t"
    using T b(2) by blast
  show "g_current t = 0" using runtime_init_ok [OF demo_os_layout(2,3) T(1-3) len] t by auto
  have "task_at p t = zero_task" if "p < 8" for p using that more_app(1) [OF sp(1)] z(1) by (simp add: task_at_def)
  then show "tidy 3 0 t" using sp(4) more_app(2) [OF sp(1)] z(2) by (simp add: tidy_def)
  have "os_fat t = os_fat ?s" by (rule more_fat [OF sp(1)])
  then have "os_fat t = floppy_fat prog_floppy" by (simp add: demo_boot_def sched_state.defs)
  then show "prog_disk (os_fat t)" using floppy_ready [of prog_floppy] by (simp add: prog_disk_def floppy_fat_def floppy_drives_def fat_frame_def)
  show "\<not> live (st t 2)" using sp(4) [of 2] by simp
qed

text \<open>The kernel thread starts the program twice and yields: the first application runs.\<close>

lemma yield_to_first:
  fixes s :: "'a app_state_scheme"
  assumes inv: "app_inv L T s" and L: "app_layout L" and c: "g_current s = 0" and r: "st s 3 = PROCESS_READY" "\<not> live (st s 2)" and f: "f \<noteq> 0"
  shows "same_spaces s (snd (scheduler_on_yield L f s))" "cur (snd (scheduler_on_yield L f s)) = 3"
proof -
  note i = app_invD(5) [OF inv]
  have "st s (Suc (Suc 0)) \<noteq> PROCESS_READY" using r(2) by (auto simp: live_def numeral_2_eq_2)
  then have "sched_pick_next s = Some 3"
    using c r by (simp add: sched_pick_next_def sched_find_ready_non_idle_def sched_consts live_def upt_rec [of _ 8])
  then have "switches L f 3 s (sched_switch_from_frame L f s)"
    using switch_from_frame_cases [OF i f, of L] c by (auto simp: stays_def switches_def)
  then show "cur (snd (scheduler_on_yield L f s)) = 3" by (simp add: on_yield_eq [OF i f] switches_def switched_def)
  show "same_spaces s (snd (scheduler_on_yield L f s))" unfolding on_yield_eq [OF i f]
    using switch_settled(1) [OF i f pdir_nz [OF inv L] disjI1 [OF app_settled [OF inv]]] by blast
qed

lemma two_apps:
  fixes i :: "'p mouse_kernel" and E :: "(image, 'p) os_env"
  assumes t: "scheduler_runtime_init demo_os_link (demo_boot (floppy_fat prog_floppy) i h) = (ok, t)" and E: "env_io E = drive_io image_hw"
  shows "\<exists>u. (os_step E demo_os_link)\<^sup>*\<^sup>* t u \<and> cur u = 3 \<and> app_thread u 3 \<and> app_thread u 4
    \<and> leader_pid (task_at 3 u) = 3 \<and> leader_pid (task_at 4 u) = 4 \<and> app_slot_bytes (task_at 3 u) = 0x16000 \<and> app_slot_bytes (task_at 4 u) = 0x16000"
proof -
  note b = boot_ok [OF t] and L = demo_os_layout(1,4)
  obtain T where T: "T 4 = None" "app_inv demo_os_link T t" using b(1) by blast
  obtain v where v: "shell_apps_run_background E demo_os_link prog_host (ascii ''A.COM'') t = Some (Some 3, prog_host, v)" "app_inv demo_os_link T v"
      "tidy 4 22 v" "app_thread v 3" "leader_pid (task_at 3 v) = 3" "app_slot_bytes (task_at 3 v) = 0x16000" "slot_at 2 v = slot_at 2 t"
      "g_current v = 0" "st v 3 = PROCESS_READY" "prog_disk (os_fat v)"
    using run_prog [OF T(2) L T(1) b(2) _ _ _ b(4) E] b(3) by auto
  obtain w where w: "shell_apps_run_background E demo_os_link prog_host (ascii ''A.COM'') v = Some (Some 4, prog_host, w)" "app_inv demo_os_link T w"
      "app_thread w 4" "leader_pid (task_at 4 w) = 4" "app_slot_bytes (task_at 4 w) = 0x16000" "g_current w = 0"
      "task_at 3 w = task_at 3 v" "slot_at 3 w = slot_at 3 v" "slot_at 2 w = slot_at 2 v"
    using run_prog [OF v(2) L T(1) v(3) _ _ _ v(10) E] v(8) by auto
  let ?u = "snd (scheduler_on_yield demo_os_link 0x9000 w)"
  have s1: "os_step E demo_os_link t v" using b(3) by (intro os_step.app app_step.run_background [OF _ v(1)]) simp
  have s2: "os_step E demo_os_link v w" using v(8) by (intro os_step.app app_step.run_background [OF _ w(1)]) simp
  have s3: "os_step E demo_os_link w ?u" by (intro os_step.app app_step.yield_irq) simp
  have steps: "(os_step E demo_os_link)\<^sup>*\<^sup>* t ?u"
    by (rule rtranclp.rtrancl_into_rtrancl [OF rtranclp.rtrancl_into_rtrancl [OF r_into_rtranclp [where r = "os_step E demo_os_link", OF s1] s2] s3])
  have "st w 3 = PROCESS_READY" "\<not> live (st w 2)" using w(8,9) v(7,9) b(6) by simp_all
  note y = yield_to_first [OF w(2) L(1) w(6) this, of "0x9000"]
  have "app_thread ?u p = app_thread w p" if "p < 8" for p using y(1) that by (simp add: same_spaces_def app_thread_def)
  moreover have "app_thread w 3" using v(4) w(8) by (simp add: app_thread_def)
  moreover have "task_at p ?u = task_at p w" for p using y(1) more_app(1) [of ?u w] by (simp add: same_spaces_def task_at_def)
  ultimately show ?thesis using steps y(2) w v(5,6) by (intro exI [of _ ?u]) simp
qed

text \<open>What user code of an application sees at an address of its slot.\<close>

lemma slot_view:
  assumes inv: "app_inv L T s" and p: "p < 8" "app_thread s p" and x: "x < unat (app_slot_bytes (task_at p s))" "x < 0x400000"
  shows "translate (m_mem s) (task_page_directory p) (of_nat (0x1000000 + x)) =
    Some \<lparr>pv_phys = unat (app_phys_base (task_at p s)) + x, pv_user = True, pv_write = True\<rparr>"
proof -
  have u: "unat (of_nat (0x1000000 + x) :: u32) = 0x1000000 + x" using x(2) by (intro unat_of_nat32) simp
  then have "pd_index (of_nat (0x1000000 + x)) = 4" using x(2) by (simp add: pd_index_def)
  moreover have "task_ok p (task_at p s)" using threads_invD(2) [OF app_invD(3) [OF inv] p] tasks_invD(1) [OF app_invD(1) [OF inv] p(1)] by (auto simp: owner_ok_def)
  then have "4096 * (unat (app_slot_bytes (task_at p s)) div 4096) = unat (app_slot_bytes (task_at p s))" using slot_pages [OF task_okD(2)] by simp
  ultimately show ?thesis using task_view [OF inv p, of "of_nat (0x1000000 + x)"] x(1) u by (simp add: app_view_def virt_base_index(3))
qed

section \<open>Acts of an application\<close>

text \<open>What the thread that runs does by itself until it is switched out: stores of user code, wherever it can write, and
  system calls other than the creation of a thread, the yield and the exit.\<close>

inductive app_act :: "('h, 'p) os_env \<Rightarrow> 'l os_link_scheme \<Rightarrow> ('h, 'p, 'a) os_state_scheme \<Rightarrow> ('h, 'p, 'a) os_state_scheme \<Rightarrow> bool"
  for E :: "('h, 'p) os_env" and L :: "'l os_link_scheme" where
  store: "user_cell s va = Some a \<Longrightarrow> app_act E L s (s\<lparr>m_mem := (m_mem s)(a := x)\<rparr>)"
| call: "stack_frame f \<Longrightarrow> app_thread s (cur s)
    \<Longrightarrow> f_eax f s \<notin> {MINIDOS_SYSCALL_THREAD_SPAWN, MINIDOS_SYSCALL_THREAD_YIELD, MINIDOS_SYSCALL_EXIT}
    \<Longrightarrow> syscall_dispatch_c E L f s = Some (r, t) \<Longrightarrow> app_act E L s t"

text \<open>An act keeps the invariant, the threads, the owners of tasks and all memory of applications outside the slot of the caller.\<close>

definition kept :: "('h, 'p, 'a) os_state_scheme \<Rightarrow> ('h, 'p, 'a) os_state_scheme \<Rightarrow> bool" where
  "kept s t \<longleftrightarrow> g_slots t = g_slots s \<and> g_current t = g_current s
     \<and> (\<forall>p < 8. leader_pid (task_at p t) = leader_pid (task_at p s) \<and> app_phys_base (task_at p t) = app_phys_base (task_at p s)
          \<and> app_slot_bytes (task_at p t) = app_slot_bytes (task_at p s))
     \<and> (\<forall>a. 0x700000 \<le> a \<longrightarrow> a < unat (app_phys_base (task_at (cur s) s))
          \<or> unat (app_phys_base (task_at (cur s) s)) + unat (app_slot_bytes (task_at (cur s) s)) \<le> a \<longrightarrow> m_mem t a = m_mem s a)"

lemma act_kept:
  assumes act: "app_act E L s t" and inv: "app_inv L T s" and L: "app_layout L"
  shows "app_inv L T t" "kept s t"
proof -
  have "app_inv L T t \<and> kept s t"
    using act
  proof cases
    case (store va a x)
    have "kept s t" using user_cell_slot(2,5) [OF inv L store(2)] by (auto simp: kept_def store(1))
    then show ?thesis using user_store_inv [OF inv L store(2)] by (simp add: store(1))
  next
    case (call f r)
    obtain x u where u: "shell_apps_syscall E L f (f_eax f s) (f_ebx f s) (f_ecx f s) (f_edx f s) s = Some (x, u)"
      "t = u \<or> (\<exists>v. t = set_eax v f u)" using gate_call [OF call(1,3,4)] by blast
    have n: "f_eax f s \<noteq> MINIDOS_SYSCALL_THREAD_SPAWN" "f_eax f s \<noteq> MINIDOS_SYSCALL_THREAD_YIELD" using call(3) by simp_all
    note k = syscall_keeps [OF inv L call(2) n u(1)]
    have "leader_pid (task_at p u) = leader_pid (task_at p s) \<and> app_phys_base (task_at p u) = app_phys_base (task_at p s)
        \<and> app_slot_bytes (task_at p u) = app_slot_bytes (task_at p s)" if "p < 8" for p
      using k(6,8) that by (cases "p = cur s") (auto simp: relabels_def)
    then have ku: "kept s u" using k(2,3,7) by (simp add: kept_def)
    from u(2) show ?thesis
    proof (elim disjE exE)
      fix v assume t: "t = set_eax v f u"
      have "unat f + 44 < 0x700000" using call(1) by (simp add: stack_frame_def)
      then show ?thesis using ku set_eax_inv [OF k(1) L call(1)] by (simp add: t kept_def set_eax_def task_at_def)
    qed (use ku k(1) in simp)
  qed
  then show "app_inv L T t" "kept s t" by blast+
qed

lemma kept_trans:
  assumes "kept s t" "kept t u" "cur s < 8" shows "kept s u"
  using assms unfolding kept_def by simp

lemma run_kept:
  assumes "(app_act E L)\<^sup>*\<^sup>* s t" "app_inv L T s" "app_layout L" shows "app_inv L T t \<and> kept s t"
  using assms
proof (induction rule: rtranclp_induct)
  case base then show ?case by (simp add: kept_def)
next
  case (step t u)
  have "cur s < 8" by (rule sched_invD(5) [OF app_invD(5) [OF step.prems(1)]])
  then show ?case using act_kept [OF step.hyps(2) _ step.prems(2)] step.IH [OF step.prems] kept_trans by blast
qed

text \<open>A page of another group is outside the slot of the caller.\<close>

lemma other_page:
  assumes inv: "app_inv L T s" and c: "app_thread s (cur s)" and q: "q < 8" "app_thread s q" "leader_pid (task_at (cur s) s) \<noteq> leader_pid (task_at q s)"
    and w: "translate (m_mem s) (task_page_directory q) wa = Some w" "pv_user w"
  shows "pv_phys w < unat (app_phys_base (task_at (cur s) s))
    \<or> unat (app_phys_base (task_at (cur s) s)) + unat (app_slot_bytes (task_at (cur s) s)) \<le> pv_phys w"
proof (rule ccontr)
  let ?b = "unat (app_phys_base (task_at (cur s) s))" and ?n = "unat (app_slot_bytes (task_at (cur s) s))"
  assume "\<not> (pv_phys w < ?b \<or> ?b + ?n \<le> pv_phys w)"
  then obtain x where x: "pv_phys w = ?b + x" "x < ?n" by (metis add_less_cancel_left le_add_diff_inverse not_le)
  have "?n \<le> 0x400000" using task_okD(2) [OF caller(3) [OF inv c]] by (simp add: slot_ok_def)
  then have "translate (m_mem s) (task_page_directory (cur s)) (of_nat (0x1000000 + x)) = Some \<lparr>pv_phys = ?b + x, pv_user = True, pv_write = True\<rparr>"
    using slot_view [OF inv caller(1) [OF inv c] c x(2)] x(2) by simp
  from groups_apart [OF inv caller(1) [OF inv c] c q this _ w] show False by (simp add: x(1))
qed

lemma run_same_view:
  assumes run: "(app_act E L)\<^sup>*\<^sup>* s t" and inv: "app_inv L T s" and L: "app_layout L" and c: "app_thread s (cur s)"
    and q: "q < 8" "app_thread s q" "leader_pid (task_at (cur s) s) \<noteq> leader_pid (task_at q s)"
    and w: "translate (m_mem s) (task_page_directory q) wa = Some w" "pv_user w"
  shows "translate (m_mem t) (task_page_directory q) wa = Some w" "get_byte (m_mem t) (pv_phys w) = get_byte (m_mem s) (pv_phys w)"
proof -
  have inv': "app_inv L T t" and k: "kept s t" using run_kept [OF run inv L] by blast+
  have q': "app_thread t q" using q(2) k by (simp add: kept_def app_thread_def slot_at_def)
  have "pd_index wa = 4" using w kmap_translate [OF app_invD(8) [OF inv], of wa w] task_view [OF inv q(1,2), of wa] by (auto split: if_splits)
  then show "translate (m_mem t) (task_page_directory q) wa = Some w"
    using w(1) task_view [OF inv q(1,2), of wa] task_view [OF inv' q(1) q', of wa] k q(1) by (simp add: kept_def)
  let ?b = "unat (app_phys_base (task_at (cur s) s))" and ?n = "unat (app_slot_bytes (task_at (cur s) s))" and ?a = "pv_phys w - pv_phys w mod 4"
  have ok: "task_ok (cur s) (task_at (cur s) s)" by (rule caller(3) [OF inv c])
  obtain j m where "arena_range (app_phys_base (task_at (cur s) s)) (app_slot_bytes (task_at (cur s) s)) j m" using ok by (rule task_pages)
  then have al: "?b + ?n = 4 * (0x1C0000 + 1024 * (j + m))" by (simp add: arena_range_def)
  have cell: "pv_phys w = 4 * (pv_phys w div 4) + pv_phys w mod 4" "?a = 4 * (pv_phys w div 4)" by (simp_all add: minus_mod_eq_mult_div)
  have le: "4 * y \<le> pv_phys w \<Longrightarrow> 4 * y \<le> ?a" for y using cell(2) div_le_mono [of "4 * y" "pv_phys w" 4] by simp
  have "0x700000 \<le> ?a" using le [of "0x1C0000"] thread_page(1) [OF inv q(1,2) w] by simp
  moreover have "?a < ?b \<or> ?b + ?n \<le> ?a"
  proof (cases "pv_phys w < ?b")
    case True then show ?thesis using cell by linarith
  next
    case False
    then have "?b + ?n \<le> pv_phys w" using other_page [OF inv c q w] by blast
    then show ?thesis using le unfolding al by blast
  qed
  ultimately have "m_mem t ?a = m_mem s ?a" using k unfolding kept_def by blast
  then show "get_byte (m_mem t) (pv_phys w) = get_byte (m_mem s) (pv_phys w)" by (simp add: get_byte_def)
qed

section \<open>A launch that is interrupted\<close>

text \<open>
  Why a command of the shell has to be one step. A task that the shell has prepared for a background program, but whose thread it has not
  started yet, looks like the task of a thread that has ended: the next search for a free task releases it.
\<close>

lemma prepared_task_reaped:
  assumes inv: "app_inv L T s" and L: "app_layout L" and p: "3 \<le> p" "p < 8"
    and k: "in_use (task_at p s)" "\<not> join_on_exit (task_at p s)" and dead: "\<not> live (st s p)"
  shows "\<not> in_use (task_at p (snd (shell_apps_find_free_pid s)))"
proof -
  have "\<not> in_use (task_at p (fold reap_one ps u))" if "app_inv L T u" "\<not> live (st u p)" "\<not> join_on_exit (task_at p u)" "set ps \<subseteq> {3..<8}"
      "p \<in> set ps \<or> \<not> in_use (task_at p u)" for ps u
    using that
  proof (induction ps arbitrary: u)
    case (Cons q ps)
    have q: "q < 8" using Cons.prems(4) by simp
    note one = reap_one_inv [OF Cons.prems(1) L q] reap_one_threads [OF Cons.prems(1) q] reap_one_tasks [OF Cons.prems(1) q, of p]
    have z: "\<not> in_use (task_at p (reap_one p u))" if "q = p"
    proof (cases "in_use (task_at p u)")
      case True
      have e: "reap_one p u = shell_apps_release_task p u"
        using True Cons.prems(2,3) process_state [OF app_invD(5) [OF Cons.prems(1)] p(2)] by (auto simp: reap_one_def Let_def live_def)
      have "\<not> app_thread u p" using Cons.prems(2) by (simp add: app_thread_def)
      then show ?thesis using release_task_effect(1) [OF Cons.prems(1) p(2), of p] by (simp add: e)
    qed (simp add: reap_one_def)
    have "\<not> in_use (task_at p (fold reap_one ps (reap_one q u)))"
    proof (rule Cons.IH [OF one(1)])
      show "\<not> live (st (reap_one q u) p)" using Cons.prems(2) same_threadsD(1) [OF one(2)] by simp
      show "\<not> join_on_exit (task_at p (reap_one q u))" using one(3) Cons.prems(3) by (auto simp: zero_task_def)
      show "p \<in> set ps \<or> \<not> in_use (task_at p (reap_one q u))" using z one(3) Cons.prems(5) by auto
    qed (use Cons.prems(4) in simp)
    then show ?case by simp
  qed simp
  moreover have "set APP_PIDS \<subseteq> {3..<8}" "p \<in> set APP_PIDS" using p by (auto simp: APP_PIDS_def)
  ultimately have "\<not> in_use (task_at p (fold reap_one APP_PIDS s))" using inv dead k(2) by blast
  then show ?thesis by (simp add: shell_apps_find_free_pid_def shell_apps_reap_terminated_tasks_def Let_def)
qed

text \<open>
  If a thread of another application has then taken the task, the shell starts its own thread in another slot, notices it, and releases
  the task that is now that of the other thread, which goes on without one: the invariant is lost.
\<close>

lemma stale_start:
  fixes s :: "'a app_state_scheme"
  assumes inv: "app_inv L T s" and e: "lm_background_thread L \<noteq> 0" and p: "3 \<le> p" "p < 8" "app_thread s p" and start: "start_task L p nm org s = (ok, t)"
  shows "\<not> ok" "app_thread t p" "\<not> in_use (task_at p t)" "\<not> app_inv L T t"
proof -
  obtain r u where u: "scheduler_spawn_kernel_task L (Some nm) (Some org) True (lm_background_thread L) (task_addr p) (tdir p) s = (r, u)"
    by (cases "scheduler_spawn_kernel_task L (Some nm) (Some org) True (lm_background_thread L) (task_addr p) (tdir p) s")
  note sp = spawn_cases [OF inv e u]
  have lv: "live (st s p)" using p(3) by (simp add: app_thread_def)
  have z: "task_at p (shell_apps_release_task p v) = zero_task" if "g_app_tasks v = g_app_tasks s" for v :: "'a app_state_scheme"
  proof -
    have "g_app_tasks (shell_apps_release_phys_range b n w) = g_app_tasks w" for b n and w :: "'a app_state_scheme"
      by (simp add: shell_apps_release_phys_range_def Let_def shell_apps_enter_critical_def shell_apps_leave_critical_def cli_def sti_def)
    then show ?thesis using that app_invD(6) [OF inv] p(2)
      by (simp add: shell_apps_release_task_def zero_task_mem_def task_at_def Let_def upd_task_def)
  qed
  have "\<not> ok \<and> app_thread t p \<and> task_at p t = zero_task"
  proof (cases r)
    case None
    then have c: "core u = core s" using sp by simp
    have "\<not> ok" "t = shell_apps_release_task p u" using start u None by (simp_all add: start_task_def)
    then show ?thesis using z [OF core_eqD(1) [OF c]] p(3) core_eqD(3) [OF c] by (simp add: app_thread_def slot_at_def release_frame)
  next
    case (Some i)
    then have i: "i \<noteq> p" "slot_at p u = slot_at p s" "g_app_tasks u = g_app_tasks s" "i < 8" using sp lv by auto
    let ?k = "snd (scheduler_terminate_process L (int i) u)"
    have t: "\<not> ok" "t = shell_apps_release_task p ?k" using start u Some i(1) by (simp_all add: start_task_def release_terminate)
    have "slot_at p ?k = slot_at p u" using i(1) by (simp add: scheduler_terminate_process_def)
    moreover have "g_app_tasks ?k = g_app_tasks s" using more_app(1) [OF terminate_more [of L "int i" u]] i(3) by simp
    ultimately show ?thesis using t z [of ?k] p(3) i(2) by (simp add: app_thread_def slot_at_def release_frame)
  qed
  then show r: "\<not> ok" "app_thread t p" "\<not> in_use (task_at p t)" by auto
  show "\<not> app_inv L T t" using r(2,3) p(2) threads_invD(2) [OF app_invD(3)] by (auto simp: owner_ok_def)
qed

section \<open>Properties\<close>

text \<open>The state before the scheduler starts: the kernel map that \<open>paging_init\<close> builds, no tasks and no pages in use.\<close>

definition booted :: "'l os_link_scheme \<Rightarrow> (nat \<rightharpoonup> nat) \<Rightarrow> ('h, 'p, 'a) os_state_scheme \<Rightarrow> bool" where
  "booted L T s \<longleftrightarrow> app_layout L \<and> lm_background_thread L \<noteq> 0 \<and> kmap L T (m_mem s) \<and> kfull T (m_mem s) \<and> T 1 \<noteq> None
     \<and> length (g_slots s) = 8 \<and> \<not> g_runtime_ready s \<and> g_app_tasks s = replicate 8 zero_task \<and> g_app_phys_page_used s = replicate 1024 False"

lemma booted_reach:
  assumes b: "booted L T s" and init: "scheduler_runtime_init L s = (ok, t)" and steps: "(os_step E L)\<^sup>*\<^sup>* t u"
  shows "ok" "app_inv L T u" "app_layout L"
proof -
  obtain pt where k: "app_layout L" "lm_background_thread L \<noteq> 0" "kmap L T (m_mem s)" "kfull T (m_mem s)" "T 1 = Some pt"
    "length (g_slots s) = 8" "\<not> g_runtime_ready s" "g_app_tasks s = replicate 8 zero_task" "g_app_phys_page_used s = replicate 1024 False"
    using b by (auto simp: booted_def)
  note i = boot_app_inv [OF k(1) conjunct1 [OF layout_off_arena [OF k(1)]] conjunct2 [OF layout_off_arena [OF k(1)]] k(3-9) init]
  show ok "app_layout L" by (rule i(1), rule k(1))
  show "app_inv L T u" by (rule reachable_os_inv [OF steps k(1,2) i(2)])
qed

lemma demo_booted:
  assumes "scheduler_runtime_init demo_os_link (demo_boot (floppy_fat prog_floppy) i h) = (ok, t)"
  shows "\<exists>T. booted demo_os_link T (demo_boot (floppy_fat prog_floppy) i h)"
  using boot_ok(1,7,8) [OF assms] demo_os_layout(1,4) by (auto simp: booted_def demo_boot_fields)

text \<open>
  C2: From the start of the scheduler on the map that \<open>paging_init\<close> builds, with no tasks, the invariant of the
  application layer holds in every state that the steps of the system, system calls of applications included, reach.
  A command of the shell that starts or ends applications counts as one step: the property assumes that no other thread
  runs while the shell looks for a task, prepares it and starts its thread.
\<close>

theorem app_layer_invariant:
  assumes "booted L T s" "scheduler_runtime_init L s = (ok, t)" "(os_step E L)\<^sup>*\<^sup>* t u"
  shows "ok \<and> app_inv L T u"
  using booted_reach [OF assms] by blast

text \<open>The kernel thread starts the program of the floppy twice and yields to the first of the two applications.\<close>

theorem app_layer_invariant_witness:
  "\<forall>ports video i h. \<exists>t u T. scheduler_runtime_init demo_os_link (demo_boot (floppy_fat prog_floppy) i h) = (True, t)
     \<and> (os_step (floppy_env ports video) demo_os_link)\<^sup>*\<^sup>* t u
     \<and> cur u = 3 \<and> app_thread u 3 \<and> app_thread u 4 \<and> app_inv demo_os_link T u"
proof (intro allI)
  fix ports :: "'p port_io" and video and i :: "'p mouse_kernel" and h
  let ?E = "floppy_env ports video"
  obtain ok t where t: "scheduler_runtime_init demo_os_link (demo_boot (floppy_fat prog_floppy) i h) = (ok, t)" by fastforce
  obtain T where T: "booted demo_os_link T (demo_boot (floppy_fat prog_floppy) i h)" using demo_booted [OF t] by blast
  obtain u where u: "(os_step ?E demo_os_link)\<^sup>*\<^sup>* t u" "cur u = 3" "app_thread u 3" "app_thread u 4" using two_apps [OF t floppy_env_io, of ports video] by auto
  from app_layer_invariant [OF T t u(1)] u t
  show "\<exists>t u T. scheduler_runtime_init demo_os_link (demo_boot (floppy_fat prog_floppy) i h) = (True, t)
     \<and> (os_step ?E demo_os_link)\<^sup>*\<^sup>* t u \<and> cur u = 3 \<and> app_thread u 3 \<and> app_thread u 4 \<and> app_inv demo_os_link T u" by auto
qed

text \<open>
  C5: In every state that the steps of the system reach from its start, threads of different applications share no page: a
  page that user code of one of them can reach lies in the memory for applications, is marked as used there, and is not
  reachable for user code of the other. Commands of the shell count as one step.
\<close>

theorem apps_isolated:
  assumes boot: "booted L T s" "scheduler_runtime_init L s = (ok, t)" "(os_step E L)\<^sup>*\<^sup>* t u"
    and p: "p < 8" "app_thread u p" and q: "q < 8" "app_thread u q" "leader_pid (task_at p u) \<noteq> leader_pid (task_at q u)"
    and v: "translate (m_mem u) (task_page_directory p) va = Some v" "pv_user v"
    and w: "translate (m_mem u) (task_page_directory q) wa = Some w" "pv_user w"
  shows "0x700000 \<le> pv_phys v \<and> pv_phys v < 0xB00000 \<and> g_app_phys_page_used u ! ((pv_phys v - 0x700000) div 4096)
    \<and> pv_phys v div 4096 \<noteq> pv_phys w div 4096"
  using thread_page(1,2,6) [OF booted_reach(2) [OF boot] p v] groups_apart [OF booted_reach(2) [OF boot] p q v w] by blast

theorem apps_isolated_witness:
  "\<forall>ports video i h. \<exists>t u v w. scheduler_runtime_init demo_os_link (demo_boot (floppy_fat prog_floppy) i h) = (True, t)
     \<and> (os_step (floppy_env ports video) demo_os_link)\<^sup>*\<^sup>* t u
     \<and> translate (m_mem u) (task_page_directory 3) 0x1000004 = Some v \<and> pv_user v
     \<and> translate (m_mem u) (task_page_directory 4) 0x1000004 = Some w \<and> pv_user w \<and> pv_phys v div 4096 \<noteq> pv_phys w div 4096"
proof (intro allI)
  fix ports :: "'p port_io" and video and i :: "'p mouse_kernel" and h
  let ?E = "floppy_env ports video"
  obtain ok t where t: "scheduler_runtime_init demo_os_link (demo_boot (floppy_fat prog_floppy) i h) = (ok, t)" by fastforce
  obtain T where T: "booted demo_os_link T (demo_boot (floppy_fat prog_floppy) i h)" using demo_booted [OF t] by blast
  obtain u where u: "(os_step ?E demo_os_link)\<^sup>*\<^sup>* t u" "app_thread u 3" "app_thread u 4" "leader_pid (task_at 3 u) \<noteq> leader_pid (task_at 4 u)"
    "unat (app_slot_bytes (task_at 3 u)) = 0x16000" "unat (app_slot_bytes (task_at 4 u)) = 0x16000" using two_apps [OF t floppy_env_io, of ports video] by auto
  note r = booted_reach [OF T t u(1)]
  obtain v where v: "translate (m_mem u) (task_page_directory 3) 0x1000004 = Some v" "pv_user v" using slot_view [OF r(2) _ u(2), of 4] u(5) by auto
  obtain w where w: "translate (m_mem u) (task_page_directory 4) 0x1000004 = Some w" "pv_user w" using slot_view [OF r(2) _ u(3), of 4] u(6) by auto
  have "pv_phys v div 4096 \<noteq> pv_phys w div 4096" using apps_isolated [OF T t u(1) _ u(2) _ u(3,4) v w] by simp
  then show "\<exists>t u v w. scheduler_runtime_init demo_os_link (demo_boot (floppy_fat prog_floppy) i h) = (True, t)
     \<and> (os_step ?E demo_os_link)\<^sup>*\<^sup>* t u \<and> translate (m_mem u) (task_page_directory 3) 0x1000004 = Some v \<and> pv_user v
     \<and> translate (m_mem u) (task_page_directory 4) 0x1000004 = Some w \<and> pv_user w \<and> pv_phys v div 4096 \<noteq> pv_phys w div 4096"
    using t r(1) u(1) v w by auto
qed

text \<open>
  C6: Whatever an application does between two switches, with stores anywhere user code can write and with any sequence of
  system calls other than the creation of a thread, the yield and the exit, user code of another application sees no change: the same
  addresses stay mapped to the same bytes, with the same contents. This holds from every state that the steps of the system
  reach from its start, where commands of the shell count as one step.
\<close>

theorem app_run_confined:
  assumes boot: "booted L T s" "scheduler_runtime_init L s = (ok, t)" "(os_step E L)\<^sup>*\<^sup>* t u" and run: "(app_act E L)\<^sup>*\<^sup>* u v"
    and c: "app_thread u (cur u)" and q: "q < 8" "app_thread u q" "leader_pid (task_at (cur u) u) \<noteq> leader_pid (task_at q u)"
    and w: "translate (m_mem u) (task_page_directory q) wa = Some w" "pv_user w"
  shows "translate (m_mem v) (task_page_directory q) wa = Some w \<and> get_byte (m_mem v) (pv_phys w) = get_byte (m_mem u) (pv_phys w)"
  using run_same_view [OF run booted_reach(2,3) [OF boot] c q w] by blast

text \<open>The first of the two applications stores a word at the address 0x1000004.\<close>

theorem app_run_confined_witness:
  "\<forall>ports video i h. \<exists>t u a w. scheduler_runtime_init demo_os_link (demo_boot (floppy_fat prog_floppy) i h) = (True, t)
     \<and> (os_step (floppy_env ports video) demo_os_link)\<^sup>*\<^sup>* t u
     \<and> user_cell u 0x1000004 = Some a \<and> translate (m_mem u) (task_page_directory 4) 0x1000004 = Some w
     \<and> translate ((m_mem u)(a := 77)) (task_page_directory 4) 0x1000004 = Some w
     \<and> get_byte ((m_mem u)(a := 77)) (pv_phys w) = get_byte (m_mem u) (pv_phys w)"
proof (intro allI)
  fix ports :: "'p port_io" and video and i :: "'p mouse_kernel" and h
  let ?E = "floppy_env ports video"
  obtain ok t where t: "scheduler_runtime_init demo_os_link (demo_boot (floppy_fat prog_floppy) i h) = (ok, t)" by fastforce
  obtain T where T: "booted demo_os_link T (demo_boot (floppy_fat prog_floppy) i h)" using demo_booted [OF t] by blast
  obtain u where u: "(os_step ?E demo_os_link)\<^sup>*\<^sup>* t u" "cur u = 3" "app_thread u 3" "app_thread u 4" "leader_pid (task_at 3 u) \<noteq> leader_pid (task_at 4 u)"
    "unat (app_slot_bytes (task_at 3 u)) = 0x16000" "unat (app_slot_bytes (task_at 4 u)) = 0x16000" using two_apps [OF t floppy_env_io, of ports video] by auto
  note r = booted_reach [OF T t u(1)]
  have c: "app_thread u (cur u)" "leader_pid (task_at (cur u) u) \<noteq> leader_pid (task_at 4 u)" using u(2,3,5) by simp_all
  obtain w where w: "translate (m_mem u) (task_page_directory 4) 0x1000004 = Some w" "pv_user w" using slot_view [OF r(2) _ u(4), of 4] u(7) by auto
  have "unat (m_cr3 u) = task_page_directory 3" using caller(4) [OF r(2) c(1)] u(2) by simp
  then obtain a where a: "user_cell u 0x1000004 = Some a" using slot_view [OF r(2) _ u(3), of 4] u(6) by (auto simp: user_cell_def)
  have "(app_act ?E demo_os_link)\<^sup>*\<^sup>* u (u\<lparr>m_mem := (m_mem u)(a := 77)\<rparr>)" by (intro r_into_rtranclp app_act.store [OF a])
  from app_run_confined [OF T t u(1) this c(1) _ u(4) c(2) w]
  show "\<exists>t u a w. scheduler_runtime_init demo_os_link (demo_boot (floppy_fat prog_floppy) i h) = (True, t)
     \<and> (os_step ?E demo_os_link)\<^sup>*\<^sup>* t u \<and> user_cell u 0x1000004 = Some a \<and> translate (m_mem u) (task_page_directory 4) 0x1000004 = Some w
     \<and> translate ((m_mem u)(a := 77)) (task_page_directory 4) 0x1000004 = Some w
     \<and> get_byte ((m_mem u)(a := 77)) (pv_phys w) = get_byte (m_mem u) (pv_phys w)" using t r(1) u(1) a w by auto
qed

end
