(* ===== verification/App_Script.thy ===== *)
theory App_Script
  imports App_Launch
begin

text \<open>
  Batch files, \<^verbatim>\<open>shell_apps_try_execute_aut\<close> in \<^verbatim>\<open>shell_apps_launch.inc\<close>: the text of a script is cut into lines, and
  every line that is not blank and not a remark is given to \<^verbatim>\<open>shell_execute\<close>. The model returns these commands in order, for a
  script whose commands leave the buffer of the script alone. The buffer is static: a command that runs another script overwrites it.
\<close>

section \<open>The model\<close>

definition shell_apps_script_is_space :: "u8 \<Rightarrow> bool" where
  "shell_apps_script_is_space c \<longleftrightarrow> c = 0x20 \<or> c = 0x09"

definition to_upper_char :: "u8 \<Rightarrow> u8" where
  "to_upper_char c = (if 0x61 \<le> c \<and> c \<le> 0x7A then c - (0x61 - 0x41) else c)"

text \<open>The bytes of a C string, with the terminator after its end. The code compares the first three without a check of the length; what
  follows the terminator cannot change the result.\<close>

definition char_at :: "cstr \<Rightarrow> nat \<Rightarrow> u8" where
  "char_at t i = (if i < length t then t ! i else 0)"

definition shell_apps_script_is_rem_line :: "cstr \<Rightarrow> bool" where
  "shell_apps_script_is_rem_line t \<longleftrightarrow>
     to_upper_char (char_at t 0) = 0x52 \<and> to_upper_char (char_at t 1) = 0x45 \<and> to_upper_char (char_at t 2) = 0x4D
     \<and> (char_at t 3 = 0 \<or> shell_apps_script_is_space (char_at t 3))"

text \<open>The loop that copies a line: the bytes stored so far, and the index in the buffer.\<close>

function scan_line :: "u8 list \<Rightarrow> nat \<Rightarrow> nat \<Rightarrow> u8 list \<Rightarrow> u8 list \<times> nat" where
  "scan_line buf n i ln =
     (if i < n \<and> buf ! i \<noteq> 0x0A
      then scan_line buf n (i + 1) (if buf ! i \<noteq> 0x0D \<and> length ln < 64 then ln @ [buf ! i] else ln)
      else (ln, i))"
  by pat_completeness auto
termination by (relation "measure (\<lambda>(buf, n, i, ln). n - i)") auto

declare scan_line.simps [simp del]

text \<open>The two loops that skip the blanks around a line.\<close>

function script_start :: "u8 list \<Rightarrow> nat \<Rightarrow> nat" where
  "script_start ln start =
     (if char_at ln start \<noteq> 0 \<and> shell_apps_script_is_space (char_at ln start) then script_start ln (start + 1) else start)"
  by pat_completeness auto
termination by (relation "measure (\<lambda>(ln, start). length ln - start)") (auto simp: char_at_def split: if_splits)

declare script_start.simps [simp del]

fun script_end :: "u8 list \<Rightarrow> nat \<Rightarrow> nat \<Rightarrow> nat" where
  "script_end ln start 0 = 0"
| "script_end ln start (Suc e) = (if Suc e > start \<and> shell_apps_script_is_space (ln ! e) then script_end ln start e else Suc e)"

text \<open>The command of a line, a C string; \<open>None\<close> when there is nothing to execute.\<close>

definition script_command :: "u8 list \<Rightarrow> cstr option" where
  "script_command ln =
     (let start = script_start ln 0;
          stop = script_end ln start (length ln);
          ln = take stop ln;
          command = takeWhile (\<lambda>c. c \<noteq> 0) (drop start ln)
      in if char_at ln start = 0 \<or> shell_apps_script_is_rem_line command then None else Some command)"

text \<open>The commands from index \<open>i\<close> on.\<close>

lemma scan_step:
  "i < n \<Longrightarrow> buf ! i \<noteq> 0x0A \<Longrightarrow>
     scan_line buf n i ln = scan_line buf n (Suc i) (if buf ! i \<noteq> 0x0D \<and> length ln < 64 then ln @ [buf ! i] else ln)"
  "\<not> (i < n \<and> buf ! i \<noteq> 0x0A) \<Longrightarrow> scan_line buf n i ln = (ln, i)"
  by (subst scan_line.simps, simp)+

lemma scan_line_le: "i \<le> snd (scan_line buf n i ln)"
proof (induction buf n i ln rule: scan_line.induct)
  case (1 buf n i ln)
  then show ?case by (cases "i < n \<and> buf ! i \<noteq> 0x0A") (simp_all add: scan_step)
qed

lemma scan_progress:
  assumes "i < n" "scan_line buf n i ln = (r, j)" shows "i < j \<or> j = i \<and> buf ! j = 0x0A"
proof (cases "buf ! i = 0x0A")
  case False
  from assms(2) [unfolded scan_step(1) [OF assms(1) False]] show ?thesis using scan_line_le [of "Suc i" buf n] by (metis Suc_le_eq snd_conv)
qed (use assms in \<open>simp add: scan_step\<close>)

function script_commands :: "u8 list \<Rightarrow> nat \<Rightarrow> nat \<Rightarrow> cstr list" where
  "script_commands buf n i =
     (if i < n
      then let (ln, j) = scan_line buf n i [];
               j = (if j < n \<and> buf ! j = 0x0A then j + 1 else j)
           in (case script_command ln of None \<Rightarrow> [] | Some c \<Rightarrow> [c]) @ script_commands buf n j
      else [])"
  by pat_completeness auto
termination
proof (relation "measure (\<lambda>(buf, n, i). n - i)", goal_cases)
  case (2 buf n i x ln j k)
  have "i < j \<or> j = i \<and> buf ! j = 0x0A" using scan_progress [OF 2(1), of buf "[]" ln j] 2(2,3) by simp
  then show ?case using 2(1,4) by auto
qed simp

declare script_commands.simps [simp del]

definition shell_apps_try_execute_aut ::
    "('h, 'p) os_env \<Rightarrow> 'l os_link_scheme \<Rightarrow> shell_app_host \<Rightarrow> cstr \<Rightarrow> cstr \<Rightarrow> ('h, 'p, 'a) os_state_scheme
     \<Rightarrow> (cstr list option \<times> shell_app_host \<times> ('h, 'p, 'a) os_state_scheme) option" where
  "shell_apps_try_execute_aut E L host command args s =
     (if command = [] \<or> args \<noteq> [] then Some (None, host, s)
      else case shell_apps_append_extension command (ascii ''.aut'') True 64 of
             None \<Rightarrow> Some (None, host, s)
           | Some filename \<Rightarrow> do {
               (ok, host, s) \<leftarrow> shell_apps_ensure_host_fat16_ready E host s;
               if \<not> ok then Some (None, host, s)
               else do {
                 let filename = str_to_upper filename;
                 (data, s) \<leftarrow> os_fat_call (fat16_read_file_from_dir (env_io E) (h_current_dir_cluster host) filename 2048) s;
                 if data = [] then Some (None, host, s)
                 else Some (Some (script_commands data (length data) 0), host, announce L host (ascii ''Running '') filename s) } })"

text \<open>What a command line that is no built-in command does: a program, or a script.\<close>

datatype execution = Program outcome | Script "cstr list"

definition shell_apps_try_execute ::
    "('h, 'p) os_env \<Rightarrow> 'l os_link_scheme \<Rightarrow> shell_app_host \<Rightarrow> cstr \<Rightarrow> cstr \<Rightarrow> ('h, 'p, 'a) os_state_scheme
     \<Rightarrow> (execution \<times> shell_app_host \<times> ('h, 'p, 'a) os_state_scheme) option" where
  "shell_apps_try_execute E L host command args s =
     (if \<not> shell_apps_host_valid host then Some (Program Not_found, host, s)
      else do {
        (r, host, s) \<leftarrow> shell_apps_try_execute_program E L host command args s;
        if r \<noteq> Not_found then Some (Program r, host, s)
        else do {
          (c, host, s) \<leftarrow> shell_apps_try_execute_aut E L host command args s;
          Some (case c of None \<Rightarrow> Program Not_found | Some cs \<Rightarrow> Script cs, host, s) } })"

section \<open>Lines of a text\<close>

function split_lines :: "u8 list \<Rightarrow> u8 list list" where
  "split_lines [] = []"
| "split_lines (c # cs) = takeWhile (\<lambda>x. x \<noteq> 0x0A) (c # cs) # split_lines (drop 1 (dropWhile (\<lambda>x. x \<noteq> 0x0A) (c # cs)))"
  by pat_completeness auto
termination
proof (relation "measure length")
  fix c :: u8 and cs
  have "length (drop 1 (dropWhile (\<lambda>x. x \<noteq> 0x0A) (c # cs))) \<le> length cs"
    using length_dropWhile_le [of "\<lambda>x. x \<noteq> 0x0A" "c # cs"] by (simp del: dropWhile.simps)
  then show "(drop 1 (dropWhile (\<lambda>x. x \<noteq> 0x0A) (c # cs)), c # cs) \<in> measure length" by (simp del: dropWhile.simps)
qed simp

lemma split_lines_more: "xs \<noteq> [] \<Longrightarrow> split_lines xs = takeWhile (\<lambda>x. x \<noteq> 0x0A) xs # split_lines (drop 1 (dropWhile (\<lambda>x. x \<noteq> 0x0A) xs))"
  by (cases xs) simp_all

text \<open>What the copy of a line stores, and where it stops.\<close>

lemma scan_line_exact:
  assumes "n \<le> length buf" "i \<le> n"
  shows "scan_line buf n i ln = (ln @ take (64 - length ln) (filter (\<lambda>c. c \<noteq> 0x0D) (takeWhile (\<lambda>x. x \<noteq> 0x0A) (drop i (take n buf)))),
     i + length (takeWhile (\<lambda>x. x \<noteq> 0x0A) (drop i (take n buf))))"
  using assms
proof (induction buf n i ln rule: scan_line.induct)
  case (1 buf n i ln)
  show ?case
  proof (cases "i < n")
    case True
    then have d: "drop i (take n buf) = buf ! i # drop (Suc i) (take n buf)" using 1(2) by (simp add: Cons_nth_drop_Suc [symmetric])
    show ?thesis
    proof (cases "buf ! i = 0x0A")
      case False
      let ?ln = "if buf ! i \<noteq> 0x0D \<and> length ln < 64 then ln @ [buf ! i] else ln"
      have "i < n \<and> buf ! i \<noteq> 0x0A" using True False by simp
      from 1(1) [OF this 1(2)] True have ih: "scan_line buf n (Suc i) ?ln =
        (?ln @ take (64 - length ?ln) (filter (\<lambda>c. c \<noteq> 0x0D) (takeWhile (\<lambda>x. x \<noteq> 0x0A) (drop (Suc i) (take n buf)))),
         Suc i + length (takeWhile (\<lambda>x. x \<noteq> 0x0A) (drop (Suc i) (take n buf))))" by simp
      show ?thesis unfolding scan_step(1) [OF True False, of ln] ih d using False
        by (cases "length ln < 64") (auto simp: take_Cons' Suc_diff_Suc)
    qed (simp add: scan_step d)
  qed (use 1(3) in \<open>simp add: scan_step\<close>)
qed

section \<open>The command of a line\<close>

text \<open>Blanks around a line do not count, a command ends at the first NUL byte, and a remark is the word REM in
  either case, alone or followed by a blank.\<close>

definition blank :: "u8 \<Rightarrow> bool" where "blank c \<longleftrightarrow> c \<in> {0x20, 0x09}"

definition strip :: "u8 list \<Rightarrow> u8 list" where
  "strip l = rev (dropWhile blank (rev (dropWhile blank l)))"

definition remark :: "cstr \<Rightarrow> bool" where
  "remark t \<longleftrightarrow> (\<exists>a b c rest. t = a # b # c # rest \<and> a \<in> {0x52, 0x72} \<and> b \<in> {0x45, 0x65} \<and> c \<in> {0x4D, 0x6D}
     \<and> (rest = [] \<or> blank (hd rest)))"

definition line_command :: "u8 list \<Rightarrow> cstr option" where
  "line_command l = (let t = takeWhile (\<lambda>c. c \<noteq> 0) (strip (take 64 (filter (\<lambda>c. c \<noteq> 0x0D) l)))
     in if t = [] \<or> remark t then None else Some t)"

lemma is_space_blank: "shell_apps_script_is_space = blank"
  by (auto simp: fun_eq_iff shell_apps_script_is_space_def blank_def)

lemma upper_iff:
  "to_upper_char c = 0x52 \<longleftrightarrow> c \<in> {0x52, 0x72}" "to_upper_char c = 0x45 \<longleftrightarrow> c \<in> {0x45, 0x65}"
  "to_upper_char c = 0x4D \<longleftrightarrow> c \<in> {0x4D, 0x6D}"
proof -
  have "c - 0x20 = d \<longleftrightarrow> c = d + 0x20" for d by (auto simp: algebra_simps)
  then show "to_upper_char c = 0x52 \<longleftrightarrow> c \<in> {0x52, 0x72}" "to_upper_char c = 0x45 \<longleftrightarrow> c \<in> {0x45, 0x65}"
    "to_upper_char c = 0x4D \<longleftrightarrow> c \<in> {0x4D, 0x6D}"
    by (auto simp: to_upper_char_def)
qed

lemma rem_line_remark: "0 \<notin> set t \<Longrightarrow> shell_apps_script_is_rem_line t = remark t"
  by (cases t; cases "tl t"; cases "tl (tl t)"; cases "tl (tl (tl t))")
     (auto simp: shell_apps_script_is_rem_line_def upper_iff char_at_def remark_def is_space_blank)

lemma script_start_exact: "script_start ln i = i + length (takeWhile blank (drop i ln))"
proof (induction ln i rule: script_start.induct)
  case (1 ln i)
  show ?case
  proof (cases "i < length ln \<and> blank (ln ! i)")
    case True
    then have c: "char_at ln i \<noteq> 0 \<and> shell_apps_script_is_space (char_at ln i)"
      by (auto simp: char_at_def is_space_blank blank_def)
    have "drop i ln = ln ! i # drop (Suc i) ln" using True by (simp add: Cons_nth_drop_Suc)
    then show ?thesis using 1 [OF c] c True by (subst script_start.simps) simp
  next
    case False
    then have c: "\<not> (char_at ln i \<noteq> 0 \<and> shell_apps_script_is_space (char_at ln i))"
      by (auto simp: char_at_def is_space_blank)
    have "takeWhile blank (drop i ln) = []" using False
      by (cases "i < length ln") (simp_all add: Cons_nth_drop_Suc [symmetric])
    then show ?thesis using c by (subst script_start.simps) auto
  qed
qed

lemma script_end_exact:
  "s \<le> e \<Longrightarrow> e \<le> length ln \<Longrightarrow>
     drop s (take (script_end ln s e) ln) = rev (dropWhile blank (rev (drop s (take e ln))))"
proof (induction e)
  case (Suc e)
  show ?case
  proof (cases "s = Suc e")
    case False
    then have "drop s (take (Suc e) ln) = drop s (take e ln) @ [ln ! e]"
      using Suc.prems by (simp add: take_Suc_conv_app_nth)
    with Suc False show ?thesis by (simp add: is_space_blank)
  qed simp
qed simp

lemma script_command_exact:
  "script_command ln = (let t = takeWhile (\<lambda>c. c \<noteq> 0) (strip ln) in if t = [] \<or> remark t then None else Some t)"
proof -
  define st where "st = script_start ln 0"
  define e where "e = script_end ln st (length ln)"
  have s: "st = length (takeWhile blank ln)" unfolding st_def script_start_exact by simp
  have "drop st (take e ln) = rev (dropWhile blank (rev (drop st ln)))"
    unfolding e_def using script_end_exact [of st "length ln" ln] by (simp add: s length_takeWhile_le)
  also have "drop st ln = dropWhile blank ln" by (simp add: s dropWhile_eq_drop)
  finally have strip: "drop st (take e ln) = strip ln" by (simp add: strip_def)
  have nul: "char_at (take e ln) st = 0 \<longleftrightarrow> takeWhile (\<lambda>c. c \<noteq> 0) (drop st (take e ln)) = []"
    by (cases "st < length (take e ln)") (auto simp: char_at_def Cons_nth_drop_Suc [symmetric])
  have "0 \<notin> set (takeWhile (\<lambda>c. c \<noteq> 0) (strip ln))" by (auto dest: set_takeWhileD)
  from rem_line_remark [OF this] show ?thesis
    unfolding script_command_def Let_def st_def [symmetric] e_def [symmetric] nul strip by simp
qed

text \<open>
  C36: A script runs, in order, one command for every line of its text that holds one: the line without carriage returns, cut at 64
  characters, without the blanks (spaces and tabs) around it and up to the first NUL byte, unless nothing is left or it is a
  remark, the word REM in either case at the end of the line or before a blank.
\<close>

theorem script_commands_exact:
  "script_commands buf (length buf) 0 = List.map_filter line_command (split_lines buf)"
proof -
  have cmd: "script_command (take 64 (filter (\<lambda>c. c \<noteq> 0x0D) l)) = line_command l" for l
    by (simp add: script_command_exact line_command_def)
  have "script_commands buf (length buf) i =
      List.map_filter line_command (split_lines (drop i buf))" for i
  proof (induction "length buf - i" arbitrary: i rule: less_induct)
    case less
    show ?case
    proof (cases "i < length buf")
      case True
      let ?l = "takeWhile (\<lambda>x. x \<noteq> 0x0A) (drop i buf)"
      define j where "j = i + length ?l"
      define k where "k = (if j < length buf \<and> buf ! j = 0x0A then j + 1 else j)"
      have sc: "scan_line buf (length buf) i [] = (take 64 (filter (\<lambda>c. c \<noteq> 0x0D) ?l), j)"
        using scan_line_exact [of "length buf" buf i "[]"] True by (simp add: j_def)
      have "i < k" using scan_progress [OF True sc] True by (auto simp: k_def)
      have dr: "drop 1 (dropWhile (\<lambda>x. x \<noteq> 0x0A) (drop i buf)) = drop k buf"
      proof -
        have dw: "dropWhile (\<lambda>x. x \<noteq> 0x0A) (drop i buf) = drop j buf" by (simp add: dropWhile_eq_drop j_def add.commute)
        show ?thesis
        proof (cases "j < length buf")
          case True
          then have "dropWhile (\<lambda>x. x \<noteq> 0x0A) (drop i buf) \<noteq> []" unfolding dw by simp
          from hd_dropWhile [OF this] have "buf ! j = 0x0A" using True unfolding dw by (simp add: hd_drop_conv_nth)
          then show ?thesis using dw True by (simp add: k_def)
        next
          case False
          then show ?thesis unfolding dw by (simp add: k_def)
        qed
      qed
      have ih: "script_commands buf (length buf) k =
          List.map_filter line_command (split_lines (drop k buf))"
        using less [of k] \<open>i < k\<close> True by simp
      have "drop i buf \<noteq> []" using True by simp
      then show ?thesis
        using True sc ih by (subst script_commands.simps) (simp add: k_def [symmetric] split_lines_more dr [simplified] map_filter_simps cmd split: option.split)
    qed (subst script_commands.simps, simp add: map_filter_simps)
  qed
  from this [of 0] show ?thesis by simp
qed

end
