(* ===== verification/Spec2Isabelle.thy ===== *)
theory Spec2Isabelle
  imports App_Boot App_Script
begin

text \<open>
  A verification library for the MiniDOS kernel.

  \<^bold>\<open>The program.\<close> MiniDOS is a 32-bit operating system for the PC with a BIOS boot loader, a kernel written in C
  (\<^verbatim>\<open>src/src/kernel\<close>) and applications (\<^verbatim>\<open>src/external_apps\<close>). The kernel drives the disks through ATA
  ports or the BIOS, finds FAT volumes and gives them drive letters, reads and writes files on them, maps memory with two-level
  page tables, schedules up to eight threads preemptively from the timer interrupt, loads ELF and COM programs into
  slots of a page arena and runs them in user mode in address spaces of their own, and reads the keyboard,
  the mouse and the clock. Everything it does is logged to the serial port.

  \<^bold>\<open>Method.\<close> Every C function is a HOL function of the same name on an explicit state. The states are extensible
  records (\<open>machine\<close>, \<open>log_state\<close>, \<open>timer_state\<close>, \<open>paging_state\<close>, \<open>sched_state\<close>, \<open>app_state\<close>; on the other side
  \<open>disk_state\<close>, \<open>drive_state\<close>, \<open>fat_state\<close>; \<open>kbd_state\<close>, \<open>mouse_kernel\<close>): a component extends the state of the
  components it calls, so its callees apply to its state as they are. Unsigned C values whose width matters are words;
  an \<^verbatim>\<open>int\<close> that cannot overflow is an \<open>int\<close>; C strings are lists of non-zero bytes. A failing call returns the
  error value of the code. Loops are recursive functions with termination proofs; loops that wait for a device are
  \<open>partial_function (option)\<close>, where \<open>None\<close> means that the code waits for ever, or carry the bound the code itself has.

  \<^bold>\<open>Theories.\<close>
  \<^item> \<open>Minidos_Prelude\<close>: word and list facts, little-endian buffers. \<open>Machine\<close>: memory, flags, control registers,
    port output (\<^verbatim>\<open>core/io.h\<close>).
  \<^item> Storage. \<open>Disk\<close> (\<^verbatim>\<open>storage/disk.c\<close>), \<open>Drive\<close> (\<^verbatim>\<open>storage/drive.c\<close>), \<open>Sector_Device\<close> (the contract
    between drive layer and FAT driver), \<open>Fat\<close> and \<open>Fat_Table\<close> (\<^verbatim>\<open>storage/fat16.c\<close>, and the table as a
    map from clusters to values), \<open>Mount\<close> (the FAT driver on the drive layer), \<open>Fat_Name\<close>, \<open>Fat_Dir\<close>, \<open>Fat_Walk\<close>,
    \<open>Fat_Lookup\<close>, \<open>Fat_Enter\<close>, \<open>Fat_Delete\<close> (\<^verbatim>\<open>fat16_dir_lookup.inc\<close>, \<^verbatim>\<open>fat16_dir_mutation.inc\<close>), \<open>Fat_File\<close>,
    \<open>Fat_Store\<close>, \<open>Fat_Files\<close> (\<^verbatim>\<open>fat16_file.c\<close>).
  \<^item> Log, serial line, time. \<open>Logger\<close> (\<^verbatim>\<open>debug/logger.c\<close>), \<open>Serial\<close> (\<^verbatim>\<open>debug/serial.c\<close>), \<open>Timer\<close>
    (\<^verbatim>\<open>time/timer.c\<close>), \<open>Rtc\<close> (\<^verbatim>\<open>time/rtc.c\<close>).
  \<^item> Memory and processes. \<open>Paging\<close>, \<open>Paging_Map\<close> (\<^verbatim>\<open>memory/paging.c\<close>), \<open>Scheduler\<close>, \<open>Scheduler_Inv\<close>,
    \<open>Scheduler_Run\<close>, \<open>Scheduler_Props\<close>, \<open>Scheduler_Thms\<close>, \<open>Scheduler_Main\<close> (\<^verbatim>\<open>process/scheduler.c\<close>,
    \<^verbatim>\<open>process/process.c\<close>).
  \<^item> Applications (\<^verbatim>\<open>shell/shell_apps.c\<close>, \<^verbatim>\<open>shell/shell_apps_launch.inc\<close>). \<open>App_Layout\<close>: the slot of an application and the
    checks of user addresses. \<open>App_Image\<close>: the loaders. \<open>App_Tasks\<close>: the task table and the page arena. \<open>App_Arena\<close>: first fit.
    \<open>App_Os\<close>: the state of the whole system, user memory and names of programs. \<open>App_Launch\<close>: starting programs, ending tasks, creating threads.
    \<open>App_Syscall\<close>: the system calls. \<open>App_Frame\<close>, \<open>App_Inv\<close>, \<open>App_Keep\<close>: what the operations leave alone, the invariant of the
    application layer, and the changes that keep it. One theory per group of operations shows that it keeps the invariant:
    \<open>App_Release\<close>, \<open>App_Start\<close>, \<open>App_Spawn\<close>, \<open>App_Live\<close>, \<open>App_Begin\<close>, \<open>App_Switch\<close>, \<open>App_End\<close>, \<open>App_User\<close>, \<open>App_Fork\<close>, \<open>App_Stage\<close>,
    \<open>App_Commands\<close>, \<open>App_Handlers\<close>. \<open>App_Main\<close>: the steps of the application layer. \<open>App_Props\<close>: what the invariant means, with a system of two
    applications. \<open>App_Contract\<close>, \<open>App_Calls\<close>: every system call under a contract. \<open>App_Gate\<close>: the contract on the states of the
    application layer, and the steps of the system with its calls. \<open>App_Interrupt\<close>: the interrupt dispatcher and its handlers
    (\<^verbatim>\<open>memory/paging.c\<close>). \<open>App_Boot\<close>: launches that succeed, the system from its start, isolation in every state it reaches, and
    a launch that is interrupted. \<open>App_Script\<close>: batch files.
  \<^item> Input. \<open>Ps2\<close> (\<^verbatim>\<open>input/ps2_controller.h\<close>), \<open>Keyboard\<close>, \<open>Keyboard_Layout\<close>, \<open>Keyboard_Queue\<close>, \<open>Keyboard_Props\<close>,
    \<open>Keyboard_Main\<close> (\<^verbatim>\<open>input/keyboard.c\<close>), \<open>Mouse\<close> (\<^verbatim>\<open>input/mouse.c\<close>).

  \<^bold>\<open>What is proved.\<close>
  \<^item> Storage: CHS translation addresses the requested sector; a sector written through the drive letter is
    read back on any drive that keeps the device contract, down to a BIOS that honours INT 13h; drive letters name
    exactly the volumes and partitions of the disks, in order, and a detected volume mounts with the detected geometry; FAT entries written on every
    copy are read back and no other entry changes; allocation is first fit; freeing a chain clears exactly the
    chain; short names and wildcard patterns are decided exactly; a file written through directory, table and data
    area is read back while every other file keeps its bytes and the clusters of its old contents are free again; deletion by pattern loses its last updates at an end mark.
  \<^item> Log and time: the log ring holds the last 8192 bytes of all that was logged, whichever function logged it; tick conversion is an exact ceiling;
    sleeping returns at the requested tick across wrap-around; the clock is never read torn, and setting and reading
    it are inverse.
  \<^item> Memory: the kernel directory maps low memory and the frame buffer to themselves, for the kernel only, and nothing else; an
    application directory adds exactly the slot of the application; the gates of the IDT are those intended and only the system call gate is open to user mode.
  \<^item> Scheduler: a state machine of interrupts and calls; in every reachable state the process table is consistent;
    a thread switched out by a tick, a yield or a sleep resumes with its frame, however the processor comes back to it; a ready thread waits at most six switches; sleepers wake on time;
    guard pages are armed. Sleeps beyond half the tick range end at once.
  \<^item> Applications: a program file is accepted exactly when it is well formed and fits, and loading it writes its image and
    nothing outside its slot; application memory is allocated first fit. From the start of the scheduler on, tasks, page arena,
    threads and page tables agree in every state that interrupts, commands of the shell, starts, exits, faults, stores of user code and
    system calls reach, if commands of the shell are not interrupted. In such a state applications share no page, whatever an application
    does by stores and system calls until it is switched out is invisible to the others, a fault or the exit
    of a leader ends its group and no other thread, the first code of a task always reaches user mode, a system call, other than
    thread creation, yield and exit, changes no memory outside the slot of its caller but the word of its result, and no pointer an application passes makes the kernel fault.
    Every interrupt keeps all this, and an exception in user mode ends the application and never the kernel. A batch file runs the commands of its lines.
  \<^item> Input: typed text arrives in scan code set 2, and in set 1 when no key is struck twice in a row; letters get the case of shift and caps lock; lines are
    edited; the mouse stays on the screen and packets move it by their counts. In set 1 a second stroke of a
    key is lost exactly when it comes within two ticks of the first.

  \<^bold>\<open>Assumption.\<close> The steps of the system (\<open>app_step\<close>, \<open>os_step\<close>) take each command of the shell that starts or ends programs as a
  whole: between the search for a free task and the start of its thread no other thread runs. The code runs these commands with
  interrupts and preemption on, so a tick there, followed by the creation of a thread by another application, releases
  the half-made task, and the shell then releases the task of the new thread (\<open>prepared_task_reaped\<close> and \<open>stale_start\<close> in
  \<open>App_Boot\<close>). The properties over reachable states hold up to this race.

  \<^bold>\<open>Interfaces.\<close> What one component relies on is a locale: \<open>sector_device\<close> (read after write of sectors; interpreted on the drive
  layer over disk driver and BIOS), \<open>bounded_fifo\<close> (interpreted on the key buffer), \<open>call_contract\<close> (what a system call may do;
  interpreted on \<open>calling\<close>, the states in which an application calls the kernel), \<open>boot_sectors\<close> (what the drive detection reads; interpreted
  on a machine with a floppy), \<open>uart\<close>, \<open>cmos\<close>, \<open>i8042\<close> and \<open>bios_service\<close>
  for devices outside the repository. Device behaviour is a parameter of the model and the laws used are hypotheses
  of the theorems; each has a concrete device in a witness.

  \<^bold>\<open>Bounds.\<close> Polling loops have the bounds of the code (for instance 100000 polls of the PS/2 controller); walks of
  cluster chains stop after the number of clusters of the volume, as the code does; page searches and
  table scans end at the size of their table. No other fuel is used.

  \<^bold>\<open>Not modelled.\<close> The boot loader and interrupt stubs (assembly), drawing on the screen (\<^verbatim>\<open>video/\<close>, of which only the
  size of the screen is used), the command interpreter and its built-in commands (\<^verbatim>\<open>shell/shell*.c\<close>), the boot splash and
  \<^verbatim>\<open>kernel.c\<close>, which call the components above and print, and the applications themselves with their user interface library. A system call
  that waits for input is modelled by the rounds of its loop, between which other steps may happen; a call that yields ends at the switch.
\<close>

end
